(* ===== verification/Prelude.thy ===== *)
theory Prelude
  imports Main "HOL-Library.Word"
begin

text \<open>
  Shared vocabulary of the development.

  \<^item> \<open>fault\<close> and \<open>exec\<close>: a run of C code either stops the process (a failed
    \<^verbatim>\<open>assert\<close>, a store outside its object) or yields a value; \<open>and_then\<close> sequences
    two runs.  Error codes that the C functions return are ordinary values, not faults.
  \<^item> \<open>scanner\<close>: the contract of a resumable \<^verbatim>\<open>for\<close>/\<^verbatim>\<open>switch\<close> loop over input
    bytes; every byte-driven state machine of the HTTP parser is one.
  \<^item> generic list facts used by several components.
\<close>

named_theorems exec_simps \<open>equations that run the \<open>exec\<close> combinators\<close>
named_theorems state_defs \<open>definitions of small state accessors, unfolded together\<close>

section \<open>Runs that may fault\<close>

text \<open>
  \<open>Out_of_bounds\<close> is a store outside its object.  \<open>Overrun\<close> is a length, computed with wrap-around,
  that reaches past the bytes the function was given.
\<close>

datatype fault =
    Assert_failed
  | Out_of_bounds
  | Overrun

type_synonym 'a exec = "fault + 'a"

definition and_then :: "'a exec \<Rightarrow> ('a \<Rightarrow> 'b exec) \<Rightarrow> 'b exec" where
  "and_then m f = (case m of Inl e \<Rightarrow> Inl e | Inr x \<Rightarrow> f x)"

definition c_assert :: "bool \<Rightarrow> unit exec" where
  "c_assert b = (if b then Inr () else Inl Assert_failed)"

definition in_bounds :: "bool \<Rightarrow> unit exec" where
  "in_bounds b = (if b then Inr () else Inl Out_of_bounds)"

lemma and_then_Inl [simp, exec_simps]: "and_then (Inl e) f = Inl e"
  by (simp add: and_then_def)

lemma and_then_Inr [simp, exec_simps]: "and_then (Inr x) f = f x"
  by (simp add: and_then_def)

lemma and_then_assoc: "and_then (and_then m f) g = and_then m (\<lambda>x. and_then (f x) g)"
  by (cases m) simp_all

lemma and_then_cong [fundef_cong]:
  "m = m' \<Longrightarrow> (\<And>x. m' = Inr x \<Longrightarrow> f x = f' x) \<Longrightarrow> and_then m f = and_then m' f'"
  by (cases m') auto

lemma and_then_eq_Inr: "and_then m f = Inr y \<longleftrightarrow> (\<exists>x. m = Inr x \<and> f x = Inr y)"
  by (cases m) auto

lemma and_then_eq_Inl:
  "and_then m f = Inl e \<longleftrightarrow> m = Inl e \<or> (\<exists>x. m = Inr x \<and> f x = Inl e)"
  by (cases m) auto

lemma c_assert_True [simp, exec_simps]: "c_assert True = Inr ()"
  by (simp add: c_assert_def)

lemma c_assert_False [simp, exec_simps]: "c_assert False = Inl Assert_failed"
  by (simp add: c_assert_def)

lemma in_bounds_True [simp, exec_simps]: "in_bounds True = Inr ()"
  by (simp add: in_bounds_def)

lemma in_bounds_False [simp, exec_simps]: "in_bounds False = Inl Out_of_bounds"
  by (simp add: in_bounds_def)

lemma c_assert_eq_Inr [simp]: "c_assert b = Inr u \<longleftrightarrow> b"
  by (simp add: c_assert_def)

lemma in_bounds_eq_Inr [simp]: "in_bounds b = Inr u \<longleftrightarrow> b"
  by (simp add: in_bounds_def)

text \<open>A run that does not leave the bounds of its objects.\<close>

definition safe :: "'a exec \<Rightarrow> bool" where
  "safe m \<longleftrightarrow> m \<noteq> Inl Out_of_bounds"

lemma safe_Inr [simp]: "safe (Inr x)"
  by (simp add: safe_def)

lemma safe_Inl [simp]: "safe (Inl e) \<longleftrightarrow> e \<noteq> Out_of_bounds"
  by (simp add: safe_def)

lemma safe_c_assert [simp]: "safe (c_assert b)"
  by (simp add: c_assert_def)

lemma safe_in_bounds [simp]: "safe (in_bounds b) \<longleftrightarrow> b"
  by (simp add: in_bounds_def)

lemma safe_and_then:
  "safe m \<Longrightarrow> (\<And>x. m = Inr x \<Longrightarrow> safe (f x)) \<Longrightarrow> safe (and_then m f)"
  by (cases m) auto

section \<open>Resumable scanners\<close>

text \<open>
  \<open>scan xs s\<close> runs the loop over the bytes \<open>xs\<close> from state \<open>s\<close>.  It answers the state
  reached and either \<open>None\<close> (all of \<open>xs\<close> was read, the loop wants more) or \<open>Some rest\<close>
  (the loop returned early, \<open>rest\<close> is unread).  The law says that cutting the input in two
  does not matter.
\<close>

type_synonym ('s, 'a) scan_result = "('s \<times> 'a list option) exec"

definition resume ::
    "('a list \<Rightarrow> 's \<Rightarrow> ('s, 'a) scan_result) \<Rightarrow> 'a list \<Rightarrow> ('s, 'a) scan_result
      \<Rightarrow> ('s, 'a) scan_result" where
  "resume scan ys r =
     and_then r (\<lambda>(s, rest). case rest of None \<Rightarrow> scan ys s | Some zs \<Rightarrow> Inr (s, Some (zs @ ys)))"

lemma resume_simps [simp]:
  "resume scan ys (Inl e) = Inl e"
  "resume scan ys (Inr (s, None)) = scan ys s"
  "resume scan ys (Inr (s, Some zs)) = Inr (s, Some (zs @ ys))"
  by (simp_all add: resume_def)

locale scanner =
  fixes scan :: "'a list \<Rightarrow> 's \<Rightarrow> ('s \<times> 'a list option) exec"
  assumes scan_Nil: "scan [] s = Inr (s, None)"
    and scan_append: "scan (xs @ ys) s = resume scan ys (scan xs s)"
begin

lemma resume_Nil: "resume scan [] r = r"
proof (cases r)
  case (Inr b)
  then show ?thesis by (cases b; cases "snd b") (simp_all add: scan_Nil)
qed simp

lemma resume_append: "resume scan (xs @ ys) r = resume scan ys (resume scan xs r)"
proof (cases r)
  case (Inr b)
  then show ?thesis by (cases b; cases "snd b") (simp_all add: scan_append)
qed simp

text \<open>However the input is cut into segments, the scan ends the same.\<close>

lemma scan_segments: "scan (concat xss) s = foldl (\<lambda>r xs. resume scan xs r) (Inr (s, None)) xss"
proof -
  have "foldl (\<lambda>r xs. resume scan xs r) r xss = resume scan (concat xss) r" for r
    by (induction xss arbitrary: r) (simp_all add: resume_Nil resume_append)
  then show ?thesis by simp
qed

lemma scan_segmentation:
  "concat xss = concat yss \<Longrightarrow>
   foldl (\<lambda>r xs. resume scan xs r) (Inr (s, None)) xss =
   foldl (\<lambda>r xs. resume scan xs r) (Inr (s, None)) yss"
  by (simp flip: scan_segments)

end

section \<open>Loops with a switch on every byte\<close>

text \<open>
  One iteration of such a loop answers what happens to the loop index and the state: \<open>Next\<close>
  advances, \<open>Back\<close> looks at the same byte again (the source writes \<^verbatim>\<open>i -= 1\<close> before the
  loop's \<^verbatim>\<open>i++\<close>), \<open>Stop\<close> leaves the loop before this byte is passed, \<open>Fail\<close> is a failed
  assertion.
\<close>

datatype 'p move = Next 'p | Back 'p | Stop | Fail

locale switch_loop =
  fixes step :: "char \<Rightarrow> nat \<Rightarrow> 'p \<Rightarrow> 'p move"
    and scan :: "string \<Rightarrow> nat \<times> 'p \<Rightarrow> (nat \<times> 'p, char) scan_result"
    and rank :: "char \<Rightarrow> 'p \<Rightarrow> nat"
  assumes loop_Nil: "scan [] s = Inr (s, None)"
    and loop_Cons: "scan (c # cs) (k, p) =
          (case step c k p of
             Next q \<Rightarrow> scan cs (k + 1, q)
           | Back q \<Rightarrow> scan (c # cs) (k, q)
           | Stop \<Rightarrow> Inr ((k, p), Some (c # cs))
           | Fail \<Rightarrow> Inl Assert_failed)"
    and back_rank: "step c k p = Back q \<Longrightarrow> rank c q < rank c p"
begin

lemma loop_simps:
  "step c k p = Next q \<Longrightarrow> scan (c # cs) (k, p) = scan cs (k + 1, q)"
  "step c k p = Back q \<Longrightarrow> scan (c # cs) (k, p) = scan (c # cs) (k, q)"
  "step c k p = Stop \<Longrightarrow> scan (c # cs) (k, p) = Inr ((k, p), Some (c # cs))"
  "step c k p = Fail \<Longrightarrow> scan (c # cs) (k, p) = Inl Assert_failed"
  by (simp_all add: loop_Cons)

lemma loop_induct [case_names Nil Next Back Stop Fail]:
  assumes "\<And>k p. P [] k p"
    and "\<And>c cs k p q. step c k p = Next q \<Longrightarrow> P cs (k + 1) q \<Longrightarrow> P (c # cs) k p"
    and "\<And>c cs k p q. step c k p = Back q \<Longrightarrow> P (c # cs) k q \<Longrightarrow> P (c # cs) k p"
    and "\<And>c cs k p. step c k p = Stop \<Longrightarrow> P (c # cs) k p"
    and "\<And>c cs k p. step c k p = Fail \<Longrightarrow> P (c # cs) k p"
  shows "P cs k p"
proof (induction cs arbitrary: k p)
  case (Nil k p)
  show ?case by (rule assms(1))
next
  case (Cons c cs k p)
  show ?case
  proof (induction p rule: measure_induct_rule [where f = "rank c"])
    case (less p)
    show ?case
    proof (cases "step c k p")
      case (Next q)
      then show ?thesis by (rule assms(2)) (rule Cons.IH)
    next
      case (Back q)
      with less show ?thesis by (blast intro: assms(3) back_rank)
    next
      case Stop
      then show ?thesis by (rule assms(4))
    next
      case Fail
      then show ?thesis by (rule assms(5))
    qed
  qed
qed

lemma scan_cut: "scan (xs @ ys) (k, p) = resume scan ys (scan xs (k, p))"
  by (induction xs k p rule: loop_induct) (simp_all add: loop_Nil loop_simps)

sublocale scanner scan
proof
  fix s :: "nat \<times> 'p" and xs ys :: string
  show "scan [] s = Inr (s, None)" by (rule loop_Nil)
  show "scan (xs @ ys) s = resume scan ys (scan xs s)"
    by (cases s) (simp add: scan_cut)
qed

text \<open>The index moves with the input: to its end, or to the byte the loop stops at.\<close>

lemma scan_None: "scan cs (k, p) = Inr ((k', q), None) \<Longrightarrow> k' = k + length cs"
  by (induction cs k p rule: loop_induct) (auto simp: loop_Nil loop_simps)

lemma scan_Some:
  "scan cs (k, p) = Inr ((k', q), Some rest) \<Longrightarrow>
   \<exists>read c. cs = read @ rest \<and> k' = k + length read \<and> rest \<noteq> [] \<and> c = hd rest \<and> step c k' q = Stop"
proof (induction cs k p rule: loop_induct)
  case (Next c cs k p q')
  then obtain read where "cs = read @ rest" "k' = k + 1 + length read" "rest \<noteq> []"
      "step (hd rest) k' q = Stop"
    by (auto simp: loop_simps)
  then have "c # cs = (c # read) @ rest \<and> k' = k + length (c # read) \<and> rest \<noteq> [] \<and> step (hd rest) k' q = Stop"
    by simp
  then show ?case by blast
next
  case (Stop c cs k p)
  then have "c # cs = [] @ rest \<and> k' = k + length ([] :: string) \<and> rest \<noteq> [] \<and> step (hd rest) k' q = Stop"
    by (auto simp: loop_simps)
  then show ?case by blast
qed (auto simp: loop_Nil loop_simps)

text \<open>A change \<open>U\<close> of the state that the iterations do not see can be made after the loop.\<close>

lemma scan_frame:
  assumes "\<And>c k p. step c k (U p) = map_move U (step c k p)"
  shows "scan cs (k, U p) = map_sum id (\<lambda>((k, q), r). ((k, U q), r)) (scan cs (k, p))"
proof (induction cs k p rule: loop_induct)
  case (Next c cs k p q)
  with assms [of c k p] show ?case by (simp add: loop_simps)
next
  case (Back c cs k p q)
  with assms [of c k p] show ?case by (simp add: loop_simps)
next
  case (Stop c cs k p)
  with assms [of c k p] show ?case by (simp add: loop_simps)
next
  case (Fail c cs k p)
  with assms [of c k p] show ?case by (simp add: loop_simps)
qed (simp add: loop_Nil)

text \<open>A property of index and state that every iteration keeps holds where the loop stops.\<close>

lemma scan_invariant:
  assumes "scan cs (k, p) = Inr ((k', q), r)" and "I k p"
    and "\<And>c k p q. I k p \<Longrightarrow> step c k p = Next q \<Longrightarrow> I (k + 1) q"
    and "\<And>c k p q. I k p \<Longrightarrow> step c k p = Back q \<Longrightarrow> I k q"
  shows "I k' q"
  using assms(1,2)
proof (induction cs k p rule: loop_induct)
  case (Next c cs k p q')
  then show ?case using assms(3) [of k p c q'] by (simp add: loop_simps)
next
  case (Back c cs k p q')
  then show ?case using assms(4) [of k p c q'] by (simp add: loop_simps)
qed (auto simp: loop_Nil loop_simps)

text \<open>The loop itself touches no memory but its own state.\<close>

lemma scan_safe: "safe (scan cs (k, p))"
  by (induction cs k p rule: loop_induct) (simp_all add: loop_Nil loop_simps)

text \<open>A run of bytes that only advance.\<close>

lemma scan_run:
  assumes "\<And>c k. c \<in> set xs \<Longrightarrow> step c k p = Next p"
  shows "scan (xs @ ys) (k, p) = scan ys (k + length xs, p)"
  using assms by (induction xs arbitrary: k) (simp_all add: loop_simps)

end

section \<open>Generic list facts\<close>

lemma takeWhile_append_stop:
  "(\<forall>x \<in> set xs. P x) \<Longrightarrow> \<not> P y \<Longrightarrow> takeWhile P (xs @ y # ys) = xs"
  by (induction xs) auto

lemma dropWhile_append_stop:
  "(\<forall>x \<in> set xs. P x) \<Longrightarrow> \<not> P y \<Longrightarrow> dropWhile P (xs @ y # ys) = y # ys"
  by (induction xs) auto

lemma take_update_beyond: "n \<le> i \<Longrightarrow> take n (xs[i := x]) = take n xs"
  by (simp add: take_update_swap list_update_beyond)

lemma drop_update_before: "i < n \<Longrightarrow> drop n (xs[i := x]) = drop n xs"
  by (simp add: drop_update_swap)

lemma nat_diff_eq_if: "(b::nat) \<le> a \<Longrightarrow> a - b < c \<longleftrightarrow> a < b + c"
  by arith

end
