(* ===== verification/CString.thy ===== *)
theory CString
  imports Prelude
begin

text \<open>
  The part of the C library that the modelled files use on NUL-terminated strings.  A C string
  is the \<open>string\<close> of its bytes before the terminator; a pointer into it is the suffix that
  starts there, and a NULL result is \<open>None\<close>.
\<close>

section \<open>Characters\<close>

abbreviation NUL :: char where "NUL \<equiv> CHR 0x00"
abbreviation TAB :: char where "TAB \<equiv> CHR 0x09"
abbreviation LF :: char where "LF \<equiv> CHR 0x0A"
abbreviation CR :: char where "CR \<equiv> CHR 0x0D"
abbreviation SPC :: char where "SPC \<equiv> CHR 0x20"
abbreviation DQUOTE :: char where "DQUOTE \<equiv> CHR 0x22"

abbreviation ord :: "char \<Rightarrow> nat" where "ord c \<equiv> of_char c"

definition is_digit :: "char \<Rightarrow> bool" where
  "is_digit c \<longleftrightarrow> 48 \<le> ord c \<and> ord c \<le> 57"

definition is_upper :: "char \<Rightarrow> bool" where
  "is_upper c \<longleftrightarrow> 65 \<le> ord c \<and> ord c \<le> 90"

definition is_space :: "char \<Rightarrow> bool" where
  "is_space c \<longleftrightarrow> c = SPC \<or> (9 \<le> ord c \<and> ord c \<le> 13)"

text \<open>\<^verbatim>\<open>tolower\<close> in the C locale sets bit 5 of an upper-case letter.\<close>

fun set_bit5 :: "char \<Rightarrow> char" where
  "set_bit5 (Char b0 b1 b2 b3 b4 b5 b6 b7) = Char b0 b1 b2 b3 b4 True b6 b7"

definition to_lower :: "char \<Rightarrow> char" where
  "to_lower c = (if is_upper c then set_bit5 c else c)"

text \<open>The bytes of a text.\<close>

type_synonym byte = "8 word"

definition text_bytes :: "string \<Rightarrow> byte list" where
  "text_bytes s = map (\<lambda>c. of_nat (ord c)) s"

section \<open>Searching\<close>

text \<open>The byte a pointer points at: the terminator at the end of the string.\<close>

fun deref :: "string \<Rightarrow> char" where
  "deref [] = NUL"
| "deref (c # cs) = c"

fun find_suffix :: "(char \<Rightarrow> bool) \<Rightarrow> string \<Rightarrow> string option" where
  "find_suffix P [] = None"
| "find_suffix P (c # cs) = (if P c then Some (c # cs) else find_suffix P cs)"

definition strchr :: "string \<Rightarrow> char \<Rightarrow> string option" where
  "strchr s c = find_suffix (\<lambda>x. x = c) s"

definition strpbrk :: "string \<Rightarrow> string \<Rightarrow> string option" where
  "strpbrk s accept = find_suffix (\<lambda>x. x \<in> set accept) s"

definition strspn :: "string \<Rightarrow> string \<Rightarrow> nat" where
  "strspn s accept = length (takeWhile (\<lambda>x. x \<in> set accept) s)"

definition strcspn :: "string \<Rightarrow> string \<Rightarrow> nat" where
  "strcspn s reject = length (takeWhile (\<lambda>x. x \<notin> set reject) s)"

text \<open>\<open>strcasecmp\<close> and \<open>strncasecmp\<close> are used only for equality.\<close>

definition strcaseeq :: "string \<Rightarrow> string \<Rightarrow> bool" where
  "strcaseeq a b \<longleftrightarrow> map to_lower a = map to_lower b"

definition strncaseeq :: "string \<Rightarrow> string \<Rightarrow> nat \<Rightarrow> bool" where
  "strncaseeq a b n \<longleftrightarrow> strcaseeq (take n a) (take n b)"

section \<open>Numbers\<close>

definition digit_val :: "char \<Rightarrow> nat" where
  "digit_val c = ord c - 48"

definition dec_val :: "string \<Rightarrow> nat" where
  "dec_val ds = foldl (\<lambda>a c. 10 * a + digit_val c) 0 ds"

text \<open>
  The common front of \<^verbatim>\<open>strtol\<close>, \<^verbatim>\<open>strtoul\<close> and \<^verbatim>\<open>strtoull\<close> in base 10: white
  space, an optional sign, digits.  The answer is whether a minus sign was read, the magnitude
  and the suffix after the number; with no digit it is \<open>None\<close>.
\<close>

definition skip_space :: "string \<Rightarrow> string" where
  "skip_space s = dropWhile is_space s"

fun read_sign :: "string \<Rightarrow> bool \<times> string" where
  "read_sign [] = (False, [])"
| "read_sign (c # cs) =
     (if c = CHR ''-'' then (True, cs) else if c = CHR ''+'' then (False, cs) else (False, c # cs))"

definition read_dec :: "string \<Rightarrow> (bool \<times> nat \<times> string) option" where
  "read_dec s = (case read_sign (skip_space s) of (neg, t) \<Rightarrow>
     let ds = takeWhile is_digit t in
     if ds = [] then None else Some (neg, dec_val ds, drop (length ds) t))"

definition ULLONG_MAX :: int where
  "ULLONG_MAX = 2 ^ 64 - 1"

text \<open>\<^verbatim>\<open>strtoull\<close> saturates; a minus sign negates in the unsigned type.\<close>

definition strtoull :: "string \<Rightarrow> int \<times> string" where
  "strtoull s = (case read_dec s of
       None \<Rightarrow> (0, s)
     | Some (neg, v, rest) \<Rightarrow>
         (if int v > ULLONG_MAX then ULLONG_MAX
          else if neg then (- int v) mod 2 ^ 64 else int v, rest))"

text \<open>\<^verbatim>\<open>strtol\<close> saturates to the 64-bit signed range.\<close>

definition strtol :: "string \<Rightarrow> int \<times> string" where
  "strtol s = (case read_dec s of
       None \<Rightarrow> (0, s)
     | Some (neg, v, rest) \<Rightarrow>
         (let x = (if neg then - int v else int v)
          in max (- (2 ^ 63)) (min (2 ^ 63 - 1) x), rest))"

definition to_int32 :: "int \<Rightarrow> int" where
  "to_int32 x = signed_take_bit 31 x"

definition to_int64 :: "int \<Rightarrow> int" where
  "to_int64 x = signed_take_bit 63 x"

definition atoi :: "string \<Rightarrow> int" where
  "atoi s = to_int32 (fst (strtol s))"

text \<open>
  \<^verbatim>\<open>%d\<close> of \<^verbatim>\<open>sscanf\<close>: \<open>None\<close> on a matching failure, else the value stored and the
  rest of the input.
\<close>

definition scan_d :: "string \<Rightarrow> (int \<times> string) option" where
  "scan_d s = (case read_dec s of None \<Rightarrow> None | Some _ \<Rightarrow> Some (to_int32 (fst (strtol s)), snd (strtol s)))"

section \<open>Facts\<close>

lemma find_suffix_None: "find_suffix P s = None \<longleftrightarrow> (\<forall>c \<in> set s. \<not> P c)"
  by (induction s) auto

lemma find_suffix_Some:
  "find_suffix P s = Some t \<longleftrightarrow> (t = dropWhile (\<lambda>c. \<not> P c) s \<and> t \<noteq> [])"
  by (induction s) auto

lemma find_suffix_append:
  "(\<forall>c \<in> set s. \<not> P c) \<Longrightarrow> P c \<Longrightarrow> find_suffix P (s @ c # t) = Some (c # t)"
  by (induction s) auto

lemma find_suffix_length: "find_suffix P s = Some t \<Longrightarrow> length t \<le> length s"
  by (induction s) (auto split: if_splits)

lemma strcaseeq_refl [simp]: "strcaseeq s s"
  by (simp add: strcaseeq_def)

lemma strcaseeq_sym: "strcaseeq s t \<longleftrightarrow> strcaseeq t s"
  by (auto simp: strcaseeq_def)

lemma dec_val_append: "dec_val (xs @ [c]) = 10 * dec_val xs + digit_val c"
  by (simp add: dec_val_def)

lemma dec_val_foldl: "foldl (\<lambda>a c. 10 * a + digit_val c) n ds = n * 10 ^ length ds + dec_val ds"
proof (induction ds rule: rev_induct)
  case (snoc d ds)
  then show ?case by (simp add: dec_val_append algebra_simps)
qed (simp add: dec_val_def)

lemma dec_val_Cons: "dec_val (c # cs) = digit_val c * 10 ^ length cs + dec_val cs"
  using dec_val_foldl [of "digit_val c" cs] by (simp add: dec_val_def)

lemma dec_val_bound: "(\<forall>c \<in> set ds. is_digit c) \<Longrightarrow> dec_val ds < 10 ^ length ds"
proof (induction ds)
  case (Cons c cs)
  then have "digit_val c \<le> 9" by (auto simp: is_digit_def digit_val_def)
  then have "digit_val c * 10 ^ length cs \<le> 9 * 10 ^ length cs" by (rule mult_le_mono1)
  moreover have "dec_val cs < 10 ^ length cs" using Cons by simp
  ultimately have "digit_val c * 10 ^ length cs + dec_val cs < 10 * 10 ^ length cs" by linarith
  then show ?case by (simp add: dec_val_Cons)
qed (simp add: dec_val_def)

end
