(* ===== verification/HttpParser.thy ===== *)
theory HttpParser
  imports CString
begin

text \<open>
  The state of the incremental HTTP parser of
  \<^verbatim>\<open>modules/networking/libhttp/src/http-parser.c\<close>, its raw buffer, its header table and the
  three line scanners (request line, status line, header line).

  Correspondence: \<open>raw\<close> is the first \<^verbatim>\<open>raw_size\<close> bytes of the buffer (\<^verbatim>\<open>raw_size\<close>
  itself is \<open>length raw\<close>, and the byte after them is the terminator that \<open>http_rawdata\<close>
  stores); \<open>headers\<close> is the array up to \<^verbatim>\<open>header_size\<close>; \<open>stateM\<close> keeps the
  numbers of the source's enumerations, because the source computes with them.  The members of the
  union \<^verbatim>\<open>u\<close> are separate fields: only the member that belongs to \<open>request\<close> is used
  between two clears.  \<open>delivered\<close> records the calls of the data callback.

  A loop of the source is a \<open>_scan\<close> function that returns where the loop stops: out of input, or at
  the line feed that ends the line.  What the source does there (copying the bytes, checking the
  line) follows in the \<^verbatim>\<open>http_parse_\<close> functions.  \<^verbatim>\<open>i -= 1\<close> (\<open>go back\<close>) is a
  recursive call on the same input.
\<close>

section \<open>State\<close>

record http_string =
  hs_pos :: nat
  hs_len :: nat

record http_header =
  hh_name :: http_string
  hh_value :: http_string

record http_parser =
  raw :: string
  raw_capacity :: nat
  raw_header_offset :: nat
  stateM :: nat
  request :: nat
  header :: http_header
  chunk_len :: nat
  chunk_loaded :: nat
  protocol :: string
  verminor :: int
  vermajor :: int
  req_method :: http_string
  req_uri :: http_string
  reply_code :: int
  reply_reason :: http_string
  headers :: "http_header list"
  header_capacity :: nat
  content_length :: int
  connection_close :: int
  content_encoding :: nat
  transfer_encoding :: nat
  cookie :: nat
  location :: nat
  has_callback :: bool
  delivered :: "string list"
  raw_body_length :: int

text \<open>What the environment decides: whether an allocation of some size succeeds, and the global
  \<^verbatim>\<open>s_body_max_size\<close> (0 for no limit).\<close>

record http_env =
  he_alloc :: "nat \<Rightarrow> bool"
  he_body_max :: nat

abbreviation (input) KB :: nat where "KB \<equiv> 1024"
abbreviation (input) MB :: nat where "MB \<equiv> 1048576"
abbreviation (input) HTTP_BODY_LENGTH_MAX :: nat where "HTTP_BODY_LENGTH_MAX \<equiv> 67108864"
abbreviation (input) E2BIG :: int where "E2BIG \<equiv> 7"
abbreviation (input) ENOMEM :: int where "ENOMEM \<equiv> 12"
abbreviation (input) EINVAL :: int where "EINVAL \<equiv> 22"

abbreviation (input) HTTP_PARSER_RESPONSE :: nat where "HTTP_PARSER_RESPONSE \<equiv> 0"
abbreviation (input) HTTP_PARSER_REQUEST :: nat where "HTTP_PARSER_REQUEST \<equiv> 1"

abbreviation (input) SM_START_LINE :: nat where "SM_START_LINE \<equiv> 0"
abbreviation (input) SM_HEADER :: nat where "SM_HEADER \<equiv> 100"
abbreviation (input) SM_BODY :: nat where "SM_BODY \<equiv> 200"
abbreviation (input) SM_DONE :: nat where "SM_DONE \<equiv> 300"

definition http_string0 :: http_string where
  "http_string0 = \<lparr>hs_pos = 0, hs_len = 0\<rparr>"

text \<open>\<^verbatim>\<open>http_parser_clear\<close>: neither the buffers' capacities nor \<open>header\<close>,
  \<open>protocol\<close> and the version are reset.\<close>

definition http_parser_clear :: "http_parser \<Rightarrow> http_parser" where
  "http_parser_clear p = p\<lparr>
     req_method := http_string0, req_uri := http_string0,
     reply_code := 0, reply_reason := http_string0,
     chunk_len := 0, chunk_loaded := 0,
     stateM := SM_START_LINE,
     raw_header_offset := 0, raw_body_length := 0, raw := [],
     headers := [],
     content_length := -1, connection_close := -1,
     content_encoding := 0, transfer_encoding := 0, cookie := 0, location := 0\<rparr>"

text \<open>The object after \<^verbatim>\<open>malloc\<close> and \<^verbatim>\<open>memset\<close>.\<close>

definition http_parser_zero :: http_parser where
  "http_parser_zero = \<lparr>raw = [], raw_capacity = 0, raw_header_offset = 0, stateM = 0, request = 0,
     header = \<lparr>hh_name = http_string0, hh_value = http_string0\<rparr>, chunk_len = 0, chunk_loaded = 0,
     protocol = [], verminor = 0, vermajor = 0, req_method = http_string0, req_uri = http_string0,
     reply_code = 0, reply_reason = http_string0, headers = [], header_capacity = 0,
     content_length = 0, connection_close = 0, content_encoding = 0, transfer_encoding = 0,
     cookie = 0, location = 0, has_callback = False, delivered = [], raw_body_length = 0\<rparr>"

text \<open>The C object is about 500 bytes; \<^verbatim>\<open>None\<close> is the NULL result.\<close>

definition http_parser_create :: "http_env \<Rightarrow> nat \<Rightarrow> nat \<Rightarrow> bool \<Rightarrow> http_parser option" where
  "http_parser_create E obj_size mode ondata =
     (if \<not> he_alloc E obj_size then None
      else Some (http_parser_clear (http_parser_zero\<lparr>has_callback := ondata, request := mode\<rparr>)))"

definition http_parser_reset :: "http_parser \<Rightarrow> nat \<Rightarrow> http_parser" where
  "http_parser_reset p mode = http_parser_clear (p\<lparr>request := mode\<rparr>)"

section \<open>The raw buffer\<close>

text \<open>The C string that starts at offset \<open>n\<close> of the buffer.\<close>

definition cstr_at :: "http_parser \<Rightarrow> nat \<Rightarrow> string" where
  "cstr_at p n = takeWhile (\<lambda>c. c \<noteq> NUL) (drop n (raw p))"

text \<open>\<^verbatim>\<open>http->raw[i] = c\<close>.  Offset \<^verbatim>\<open>raw_size\<close> is the terminator: only NUL may go there.\<close>

definition raw_poke :: "nat \<Rightarrow> char \<Rightarrow> http_parser \<Rightarrow> http_parser exec" where
  "raw_poke i c p =
     and_then (in_bounds (i < length (raw p) \<or> (i = length (raw p) \<and> c = NUL)))
       (\<lambda>_. Inr (p\<lparr>raw := (raw p)[i := c]\<rparr>))"

text \<open>By how much a buffer of some capacity grows to take \<open>bytes\<close> more bytes.\<close>

definition raw_growth :: "nat \<Rightarrow> nat \<Rightarrow> nat" where
  "raw_growth old bytes =
     (let capacity = (if old > 4 * MB then 50 * MB else if old > 16 * KB then 2 * MB else 8 * KB)
      in if bytes + 1 > capacity then bytes + 1 else capacity)"

definition raw_append :: "http_parser \<Rightarrow> string \<Rightarrow> (http_parser \<times> int) exec" where
  "raw_append p data =
     and_then (c_assert (raw_capacity p - length (raw p) > length data))
       (\<lambda>_. Inr (p\<lparr>raw := raw p @ data\<rparr>, 0))"

definition http_rawdata :: "http_env \<Rightarrow> http_parser \<Rightarrow> string \<Rightarrow> (http_parser \<times> int) exec" where
  "http_rawdata E p data =
     (let bytes = length data in
      if raw_capacity p - length (raw p) < bytes + 1 then
        if length (raw p) + bytes > HTTP_BODY_LENGTH_MAX + raw_header_offset p then Inr (p, E2BIG)
        else
          let capacity = raw_capacity p + raw_growth (raw_capacity p) bytes in
          if \<not> he_alloc E capacity then Inr (p, ENOMEM)
          else raw_append (p\<lparr>raw_capacity := capacity\<rparr>) data
      else raw_append p data)"

definition is_transfer_encoding_chunked :: "http_parser \<Rightarrow> bool" where
  "is_transfer_encoding_chunked p \<longleftrightarrow>
     transfer_encoding p > 0 \<and> strcaseeq ''chunked'' (cstr_at p (transfer_encoding p))"

definition token_char :: "char \<Rightarrow> bool" where
  "token_char c \<longleftrightarrow> 31 < ord c \<and> ord c < 127 \<and>
     c \<notin> set (''()<>@,;:'' @ [CHR 0x5C, DQUOTE] @ ''/[]?={} '' @ [TAB])"

definition is_valid_token :: "string \<Rightarrow> nat \<Rightarrow> bool" where
  "is_valid_token s len \<longleftrightarrow> len = length (takeWhile token_char (take len s))"

definition http_body :: "http_env \<Rightarrow> http_parser \<Rightarrow> string \<Rightarrow> http_parser exec" where
  "http_body E p data =
     (if has_callback p then
        Inr (p\<lparr>raw_body_length := raw_body_length p + int (length data),
               delivered := delivered p @ [data]\<rparr>)
      else
        and_then (http_rawdata E p data) (\<lambda>(q, e).
        and_then (c_assert (e = 0)) (\<lambda>_.
        let r = q\<lparr>raw_body_length := raw_body_length q + int (length data)\<rparr> in
        and_then (c_assert (raw_body_length r + int (raw_header_offset r) \<le> int (length (raw r)))) (\<lambda>_.
        and_then (c_assert (content_length r = -1 \<or> raw_body_length r \<le> content_length r)) (\<lambda>_.
        Inr r)))))"

section \<open>The header table\<close>

definition http_header_handler :: "http_env \<Rightarrow> http_parser \<Rightarrow> nat \<Rightarrow> nat \<Rightarrow> http_parser exec" where
  "http_header_handler E p npos vpos =
     (let name = cstr_at p npos; value = cstr_at p vpos in
      if strcaseeq ''Content-Length'' name then
        (let q = p\<lparr>content_length :=
               (if is_transfer_encoding_chunked p then -1 else to_int64 (fst (strtoull value)))\<rparr>
         in and_then (c_assert (content_length q \<ge> 0 \<and>
                       (he_body_max E = 0 \<or> content_length q < int (he_body_max E)))) (\<lambda>_. Inr q))
      else if strcaseeq ''Connection'' name then
        Inr (p\<lparr>connection_close := (if strcaseeq ''close'' value then 1 else 0)\<rparr>)
      else if strcaseeq ''Content-Encoding'' name then Inr (p\<lparr>content_encoding := vpos\<rparr>)
      else if strcaseeq ''Transfer-Encoding'' name then
        (let q = p\<lparr>transfer_encoding := vpos\<rparr> in
         if strncaseeq ''chunked'' value 7 then
           and_then (c_assert (content_length q = -1)) (\<lambda>_. raw_poke (vpos + 7) NUL q)
         else Inr q)
      else if strcaseeq ''Set-Cookie'' name then Inr (p\<lparr>cookie := vpos\<rparr>)
      else if strcaseeq ''Location'' name then Inr (p\<lparr>location := vpos\<rparr>)
      else Inr p)"

text \<open>\<^verbatim>\<open>sizeof(struct http_header_t)\<close> is 32 on the 64-bit targets.\<close>

definition http_header_add :: "http_env \<Rightarrow> http_parser \<Rightarrow> http_header \<Rightarrow> (http_parser \<times> int) exec" where
  "http_header_add E p h =
     (let store = (\<lambda>q.
        and_then (c_assert (hs_pos (hh_name h) > 0)) (\<lambda>_.
        and_then (c_assert (hs_len (hh_name h) > 0)) (\<lambda>_.
        and_then (c_assert (hs_pos (hh_value h) > 0)) (\<lambda>_.
        and_then (c_assert (is_valid_token (drop (hs_pos (hh_name h)) (raw q)) (hs_len (hh_name h)))) (\<lambda>_.
        and_then (raw_poke (hs_pos (hh_name h) + hs_len (hh_name h)) NUL q) (\<lambda>q.
        and_then (raw_poke (hs_pos (hh_value h) + hs_len (hh_value h)) NUL q) (\<lambda>q.
        and_then (in_bounds (length (headers q) < header_capacity q)) (\<lambda>_.
        Inr (q\<lparr>headers := headers q @ [h]\<rparr>, 0)))))))))
      in if length (headers p) + 1 \<ge> header_capacity p then
           let size = (if header_capacity p < 16 then 16 else length (headers p) * 3 div 2) in
           if \<not> he_alloc E (32 * size) then Inr (p, ENOMEM)
           else store (p\<lparr>header_capacity := size\<rparr>)
         else store p)"

end
