(* ===== verification/HttpScan.thy ===== *)
theory HttpScan
  imports HttpParser
begin

text \<open>
  The three line scanners of \<^verbatim>\<open>http-parser.c\<close> and the functions around them.
  A scanner state is the absolute offset of the next byte (\<^verbatim>\<open>pos + i\<close> of the source) with the
  parser.  The pointer tables \<^verbatim>\<open>v[0..5]\<close> of the source are the \<open>_put\<close> and \<open>_get\<close>
  functions, indexed by \<^verbatim>\<open>stateM - SM_..._START\<close>.
\<close>

type_synonym scan_state = "nat \<times> http_parser"

definition is_blank :: "char \<Rightarrow> bool" where
  "is_blank c \<longleftrightarrow> c = SPC \<or> c = TAB"

definition is_break :: "char \<Rightarrow> bool" where
  "is_break c \<longleftrightarrow> c = SPC \<or> c = TAB \<or> c = CR \<or> c = LF"

definition set_name_pos :: "nat \<Rightarrow> http_parser \<Rightarrow> http_parser" where
  "set_name_pos x p = p\<lparr>header := (header p)\<lparr>hh_name := (hh_name (header p))\<lparr>hs_pos := x\<rparr>\<rparr>\<rparr>"

definition set_name_len :: "nat \<Rightarrow> http_parser \<Rightarrow> http_parser" where
  "set_name_len x p = p\<lparr>header := (header p)\<lparr>hh_name := (hh_name (header p))\<lparr>hs_len := x\<rparr>\<rparr>\<rparr>"

definition set_value_pos :: "nat \<Rightarrow> http_parser \<Rightarrow> http_parser" where
  "set_value_pos x p = p\<lparr>header := (header p)\<lparr>hh_value := (hh_value (header p))\<lparr>hs_pos := x\<rparr>\<rparr>\<rparr>"

definition set_value_len :: "nat \<Rightarrow> http_parser \<Rightarrow> http_parser" where
  "set_value_len x p = p\<lparr>header := (header p)\<lparr>hh_value := (hh_value (header p))\<lparr>hs_len := x\<rparr>\<rparr>\<rparr>"

lemmas header_setters = set_name_pos_def set_name_len_def set_value_pos_def set_value_len_def

abbreviation name_pos :: "http_parser \<Rightarrow> nat" where "name_pos p \<equiv> hs_pos (hh_name (header p))"
abbreviation name_len :: "http_parser \<Rightarrow> nat" where "name_len p \<equiv> hs_len (hh_name (header p))"
abbreviation value_pos :: "http_parser \<Rightarrow> nat" where "value_pos p \<equiv> hs_pos (hh_value (header p))"
abbreviation value_len :: "http_parser \<Rightarrow> nat" where "value_len p \<equiv> hs_len (hh_value (header p))"

section \<open>The request line\<close>

abbreviation (input) SM_REQUEST_START :: nat where "SM_REQUEST_START \<equiv> 0"
abbreviation (input) SM_REQUEST_METHOD :: nat where "SM_REQUEST_METHOD \<equiv> 1"
abbreviation (input) SM_REQUEST_SP1 :: nat where "SM_REQUEST_SP1 \<equiv> 2"
abbreviation (input) SM_REQUEST_URI :: nat where "SM_REQUEST_URI \<equiv> 3"
abbreviation (input) SM_REQUEST_SP2 :: nat where "SM_REQUEST_SP2 \<equiv> 4"
abbreviation (input) SM_REQUEST_VERSION :: nat where "SM_REQUEST_VERSION \<equiv> 5"
abbreviation (input) SM_REQUEST_SP3 :: nat where "SM_REQUEST_SP3 \<equiv> 6"
abbreviation (input) SM_REQUEST_CR :: nat where "SM_REQUEST_CR \<equiv> 7"
abbreviation (input) SM_REQUEST_LF :: nat where "SM_REQUEST_LF \<equiv> 8"

definition rq_put :: "nat \<Rightarrow> nat \<Rightarrow> http_parser \<Rightarrow> http_parser" where
  "rq_put k x p =
     (if k = 0 then p\<lparr>req_method := (req_method p)\<lparr>hs_pos := x\<rparr>\<rparr>
      else if k = 1 then p\<lparr>req_method := (req_method p)\<lparr>hs_len := x\<rparr>\<rparr>
      else if k = 2 then p\<lparr>req_uri := (req_uri p)\<lparr>hs_pos := x\<rparr>\<rparr>
      else if k = 3 then p\<lparr>req_uri := (req_uri p)\<lparr>hs_len := x\<rparr>\<rparr>
      else if k = 4 then set_name_pos x p
      else set_name_len x p)"

definition rq_get :: "nat \<Rightarrow> http_parser \<Rightarrow> nat" where
  "rq_get k p =
     (if k = 0 then hs_pos (req_method p)
      else if k = 1 then hs_len (req_method p)
      else if k = 2 then hs_pos (req_uri p)
      else if k = 3 then hs_len (req_uri p)
      else if k = 4 then name_pos p
      else name_len p)"

lemma stateM_setters [simp]:
  "stateM (rq_put k x p) = stateM p"
  "stateM (set_name_pos x p) = stateM p"
  "stateM (set_name_len x p) = stateM p"
  "stateM (set_value_pos x p) = stateM p"
  "stateM (set_value_len x p) = stateM p"
  by (simp_all add: rq_put_def header_setters)

definition rq_step :: "char \<Rightarrow> nat \<Rightarrow> http_parser \<Rightarrow> http_parser move" where
  "rq_step c k p =
     (let s = stateM p in
      if s = SM_REQUEST_START \<or> s = SM_REQUEST_SP1 \<or> s = SM_REQUEST_SP2 then
        (if c \<noteq> SPC \<and> c \<noteq> TAB then
           Back ((rq_put (s - SM_REQUEST_START) k p)\<lparr>stateM := s + 1\<rparr>)
         else Next p)
      else if s = SM_REQUEST_METHOD \<or> s = SM_REQUEST_URI \<or> s = SM_REQUEST_VERSION then
        (if is_break c then
           Back ((rq_put (s - SM_REQUEST_START) (k - rq_get (s - SM_REQUEST_START - 1) p) p)
                   \<lparr>stateM := s + 1\<rparr>)
         else Next p)
      else if s = SM_REQUEST_SP3 then
        (if c = SPC \<or> c = TAB then Next p
         else if c = CR then Next (p\<lparr>stateM := SM_REQUEST_CR\<rparr>)
         else if c = LF then Back (p\<lparr>stateM := SM_REQUEST_LF\<rparr>)
         else Back ((rq_put (SM_REQUEST_URI - SM_REQUEST_START)
                       (rq_get (SM_REQUEST_SP2 - SM_REQUEST_START) p
                        + rq_get (SM_REQUEST_VERSION - SM_REQUEST_START) p
                        - rq_get (SM_REQUEST_URI - SM_REQUEST_START - 1) p) p)
                      \<lparr>stateM := SM_REQUEST_SP2\<rparr>))
      else if s = SM_REQUEST_CR then
        (if c \<noteq> LF then Fail
         else Back (p\<lparr>stateM := SM_REQUEST_LF\<rparr>))
      else if s = SM_REQUEST_LF then
        (if c = LF then Stop else Fail)
      else Fail)"

text \<open>
  Going back on the same byte moves to a later state, except that from \<open>SP3\<close> a word starts the
  version again; the rank of a byte in a state bounds these moves.
\<close>

definition rq_rank :: "char \<Rightarrow> http_parser \<Rightarrow> nat" where
  "rq_rank c p =
     (let s = stateM p in
      if is_break c then 9 - s
      else if s = SM_REQUEST_SP3 then 2
      else if s = SM_REQUEST_START \<or> s = SM_REQUEST_SP1 \<or> s = SM_REQUEST_SP2 then 1 else 0)"

lemma rq_step_rank: "rq_step c k p = Back q \<Longrightarrow> rq_rank c q < rq_rank c p"
proof (cases "is_break c")
  case True
  assume "rq_step c k p = Back q"
  then show ?thesis
    using True by (simp add: rq_step_def rq_rank_def Let_def is_break_def split: if_splits) auto
next
  case False
  assume "rq_step c k p = Back q"
  then show ?thesis
    using False by (simp add: rq_step_def rq_rank_def Let_def is_break_def split: if_splits) auto
qed

function rq_scan :: "string \<Rightarrow> scan_state \<Rightarrow> (scan_state, char) scan_result" where
  "rq_scan [] s = Inr (s, None)"
| "rq_scan (c # cs) (k, p) =
     (case rq_step c k p of
        Next q \<Rightarrow> rq_scan cs (k + 1, q)
      | Back q \<Rightarrow> rq_scan (c # cs) (k, q)
      | Stop \<Rightarrow> Inr ((k, p), Some (c # cs))
      | Fail \<Rightarrow> Inl Assert_failed)"
  by pat_completeness auto
termination
  by (relation "measures [\<lambda>(cs, k, p). length cs,
                          \<lambda>(cs, k, p). case cs of [] \<Rightarrow> 0 | c # _ \<Rightarrow> rq_rank c p]")
     (auto simp: rq_step_rank)

declare rq_scan.simps [simp del]

interpretation rq: switch_loop rq_step rq_scan rq_rank
  by unfold_locales (simp_all add: rq_scan.simps rq_step_rank)

text \<open>What follows the loop: the end of input, or the line feed.\<close>

definition version_ok :: "http_parser \<Rightarrow> http_parser \<times> bool" where
  "version_ok p =
     (let s = cstr_at p (name_pos p); w = takeWhile (\<lambda>c. c \<noteq> CHR ''/'') (take 16 s) in
      if w = [] then (p, False) else
      let p1 = p\<lparr>protocol := w\<rparr>; t = drop (length w) s in
      if deref t \<noteq> CHR ''/'' then (p1, False) else
      case scan_d (tl t) of None \<Rightarrow> (p1, False)
      | Some (major, u) \<Rightarrow>
          let p2 = p1\<lparr>vermajor := major\<rparr> in
          if deref u \<noteq> CHR ''.'' then (p2, False) else
          (case scan_d (tl u) of None \<Rightarrow> (p2, False)
           | Some (minor, _) \<Rightarrow> (p2\<lparr>verminor := minor\<rparr>, True)))"

text \<open>The checks after the request line was copied; \<open>i\<close> is the index of the line feed.\<close>

definition rq_finish :: "http_parser \<Rightarrow> nat \<Rightarrow> (http_parser \<times> int) exec" where
  "rq_finish q i =
     (if hs_len (req_method q) < 1 \<or> hs_len (req_uri q) < 1 \<or> name_len q < 5 then Inr (q, -1)
      else case version_ok q of (q, ok) \<Rightarrow>
        if \<not> ok then Inr (q, -1)
        else
          and_then (raw_poke (hs_pos (req_method q) + hs_len (req_method q)) NUL q) (\<lambda>q.
          and_then (raw_poke (hs_pos (req_uri q) + hs_len (req_uri q)) NUL q) (\<lambda>q.
          Inr (q\<lparr>stateM := SM_HEADER\<rparr>, int (i + 1)))))"

definition http_parse_request_line ::
    "http_env \<Rightarrow> http_parser \<Rightarrow> string \<Rightarrow> (http_parser \<times> int) exec" where
  "http_parse_request_line E p data =
     and_then (rq_scan data (length (raw p), p)) (\<lambda>((k, q), ex).
     let i = k - length (raw p) in
     and_then (http_rawdata E q (take i data)) (\<lambda>(q, e).
     if e \<noteq> 0 then Inr (q, - ENOMEM)
     else case ex of None \<Rightarrow> Inr (q, int i) | Some _ \<Rightarrow> rq_finish q i))"

section \<open>The status line\<close>

abbreviation (input) SM_STATUS_START :: nat where "SM_STATUS_START \<equiv> 0"
abbreviation (input) SM_STATUS_VERSION :: nat where "SM_STATUS_VERSION \<equiv> 1"
abbreviation (input) SM_STATUS_SP1 :: nat where "SM_STATUS_SP1 \<equiv> 2"
abbreviation (input) SM_STATUS_CODE :: nat where "SM_STATUS_CODE \<equiv> 3"
abbreviation (input) SM_STATUS_SP2 :: nat where "SM_STATUS_SP2 \<equiv> 4"
abbreviation (input) SM_STATUS_REASON :: nat where "SM_STATUS_REASON \<equiv> 5"
abbreviation (input) SM_STATUS_SP3 :: nat where "SM_STATUS_SP3 \<equiv> 6"
abbreviation (input) SM_STATUS_CR :: nat where "SM_STATUS_CR \<equiv> 7"
abbreviation (input) SM_STATUS_LF :: nat where "SM_STATUS_LF \<equiv> 8"

definition st_put :: "nat \<Rightarrow> nat \<Rightarrow> http_parser \<Rightarrow> http_parser" where
  "st_put k x p =
     (if k = 0 then set_name_pos x p
      else if k = 1 then set_name_len x p
      else if k = 2 then set_value_pos x p
      else if k = 3 then set_value_len x p
      else if k = 4 then p\<lparr>reply_reason := (reply_reason p)\<lparr>hs_pos := x\<rparr>\<rparr>
      else p\<lparr>reply_reason := (reply_reason p)\<lparr>hs_len := x\<rparr>\<rparr>)"

definition st_get :: "nat \<Rightarrow> http_parser \<Rightarrow> nat" where
  "st_get k p =
     (if k = 0 then name_pos p
      else if k = 1 then name_len p
      else if k = 2 then value_pos p
      else if k = 3 then value_len p
      else if k = 4 then hs_pos (reply_reason p)
      else hs_len (reply_reason p))"

lemma stateM_st_put [simp]: "stateM (st_put k x p) = stateM p"
  by (simp add: st_put_def header_setters)

definition st_step :: "char \<Rightarrow> nat \<Rightarrow> http_parser \<Rightarrow> http_parser move" where
  "st_step c k p =
     (let s = stateM p in
      if s = SM_STATUS_START \<or> s = SM_STATUS_SP1 \<or> s = SM_STATUS_SP2 then
        (if c \<noteq> SPC \<and> c \<noteq> TAB then
           Back ((st_put (s - SM_STATUS_START) k p)\<lparr>stateM := s + 1\<rparr>)
         else Next p)
      else if s = SM_STATUS_VERSION \<or> s = SM_STATUS_CODE \<or> s = SM_STATUS_REASON then
        (if is_break c then
           Back ((st_put (s - SM_STATUS_START) (k - st_get (s - SM_STATUS_START - 1) p) p)
                   \<lparr>stateM := s + 1\<rparr>)
         else Next p)
      else if s = SM_STATUS_SP3 then
        (if c = SPC \<or> c = TAB then Next p
         else if c = CR then Next (p\<lparr>stateM := SM_STATUS_CR\<rparr>)
         else if c = LF then Back (p\<lparr>stateM := SM_STATUS_LF\<rparr>)
         else Next (p\<lparr>stateM := SM_STATUS_REASON\<rparr>))
      else if s = SM_STATUS_CR then
        (if c \<noteq> LF then Fail
         else Back (p\<lparr>stateM := SM_STATUS_LF\<rparr>))
      else if s = SM_STATUS_LF then
        (if c = LF then Stop else Fail)
      else Fail)"

definition st_rank :: "char \<Rightarrow> http_parser \<Rightarrow> nat" where
  "st_rank c p = 9 - stateM p"

lemma st_step_rank: "st_step c k p = Back q \<Longrightarrow> st_rank c q < st_rank c p"
  by (auto simp: st_step_def st_rank_def Let_def split: if_splits)

function st_scan :: "string \<Rightarrow> scan_state \<Rightarrow> (scan_state, char) scan_result" where
  "st_scan [] s = Inr (s, None)"
| "st_scan (c # cs) (k, p) =
     (case st_step c k p of
        Next q \<Rightarrow> st_scan cs (k + 1, q)
      | Back q \<Rightarrow> st_scan (c # cs) (k, q)
      | Stop \<Rightarrow> Inr ((k, p), Some (c # cs))
      | Fail \<Rightarrow> Inl Assert_failed)"
  by pat_completeness auto
termination
  by (relation "measures [\<lambda>(cs, k, p). length cs,
                          \<lambda>(cs, k, p). case cs of [] \<Rightarrow> 0 | c # _ \<Rightarrow> st_rank c p]")
     (auto simp: st_step_rank)

declare st_scan.simps [simp del]

interpretation st: switch_loop st_step st_scan st_rank
  by unfold_locales (simp_all add: st_scan.simps st_step_rank)

definition st_finish :: "http_parser \<Rightarrow> nat \<Rightarrow> (http_parser \<times> int) exec" where
  "st_finish q i =
     and_then (c_assert (\<not> name_len q < 5)) (\<lambda>_.
     case version_ok q of (q, ok) \<Rightarrow>
       and_then (c_assert (ok \<and> value_len q = 3)) (\<lambda>_.
       and_then (raw_poke (hs_pos (reply_reason q) + hs_len (reply_reason q)) NUL q) (\<lambda>q.
       and_then (raw_poke (value_pos q + value_len q) NUL q) (\<lambda>q.
       Inr (q\<lparr>reply_code := atoi (cstr_at q (value_pos q)), stateM := SM_HEADER\<rparr>, int (i + 1))))))"

definition http_parse_status_line ::
    "http_env \<Rightarrow> http_parser \<Rightarrow> string \<Rightarrow> (http_parser \<times> int) exec" where
  "http_parse_status_line E p data =
     and_then (st_scan data (length (raw p), p)) (\<lambda>((k, q), ex).
     let i = k - length (raw p) in
     and_then (http_rawdata E q (take i data)) (\<lambda>(q, e).
     if e \<noteq> 0 then Inr (q, - ENOMEM)
     else case ex of None \<Rightarrow> Inr (q, int i) | Some _ \<Rightarrow> st_finish q i))"

section \<open>Header lines\<close>

abbreviation (input) SM_HEADER_START :: nat where "SM_HEADER_START \<equiv> 100"
abbreviation (input) SM_HEADER_NAME :: nat where "SM_HEADER_NAME \<equiv> 101"
abbreviation (input) SM_HEADER_SP1 :: nat where "SM_HEADER_SP1 \<equiv> 102"
abbreviation (input) SM_HEADER_SEPARATOR :: nat where "SM_HEADER_SEPARATOR \<equiv> 103"
abbreviation (input) SM_HEADER_SP2 :: nat where "SM_HEADER_SP2 \<equiv> 104"
abbreviation (input) SM_HEADER_VALUE :: nat where "SM_HEADER_VALUE \<equiv> 105"
abbreviation (input) SM_HEADER_SP3 :: nat where "SM_HEADER_SP3 \<equiv> 106"
abbreviation (input) SM_HEADER_CR :: nat where "SM_HEADER_CR \<equiv> 107"
abbreviation (input) SM_HEADER_LF :: nat where "SM_HEADER_LF \<equiv> 108"

text \<open>Slots 2 and 3 of the table both point at the local \<^verbatim>\<open>dummy\<close>, which nothing reads.\<close>

definition hd_put :: "nat \<Rightarrow> nat \<Rightarrow> http_parser \<Rightarrow> http_parser" where
  "hd_put k x p =
     (if k = 0 then set_name_pos x p
      else if k = 1 then set_name_len x p
      else if k = 2 \<or> k = 3 then p
      else if k = 4 then set_value_pos x p
      else set_value_len x p)"

definition hd_get :: "nat \<Rightarrow> http_parser \<Rightarrow> nat" where
  "hd_get k p = (if k = 0 then name_pos p else value_pos p)"

lemma stateM_hd_put [simp]: "stateM (hd_put k x p) = stateM p"
  by (simp add: hd_put_def header_setters)

definition hd_step :: "char \<Rightarrow> nat \<Rightarrow> http_parser \<Rightarrow> http_parser move" where
  "hd_step c k p =
     (let s = stateM p in
      if s = SM_HEADER_START then
        (if c = SPC \<or> c = TAB then
           Next ((set_name_pos 0 p)\<lparr>stateM := SM_HEADER_SP2\<rparr>)
         else if c = CR then Next ((set_value_pos 0 p)\<lparr>stateM := SM_HEADER_CR\<rparr>)
         else if c = LF then Back ((set_value_pos 0 p)\<lparr>stateM := SM_HEADER_LF\<rparr>)
         else Back ((set_name_pos k p)\<lparr>stateM := s + 1\<rparr>))
      else if s = SM_HEADER_SP1 \<or> s = SM_HEADER_SP2 then
        (if c \<noteq> SPC \<and> c \<noteq> TAB then
           Back ((hd_put (s - SM_HEADER_START) k p)\<lparr>stateM := s + 1\<rparr>)
         else Next p)
      else if s = SM_HEADER_NAME \<or> s = SM_HEADER_VALUE then
        (if is_break c \<or> (c = CHR '':'' \<and> s = SM_HEADER_NAME) then
           Back ((hd_put (s - SM_HEADER_START) (k - hd_get (s - SM_HEADER_START - 1) p) p)
                   \<lparr>stateM := s + 1\<rparr>)
         else Next p)
      else if s = SM_HEADER_SEPARATOR then
        (if c \<noteq> CHR '':'' then Fail
         else Next (p\<lparr>stateM := s + 1\<rparr>))
      else if s = SM_HEADER_SP3 then
        (if c = SPC \<or> c = TAB then Next p
         else if c = CR then Next (p\<lparr>stateM := SM_HEADER_CR\<rparr>)
         else if c = LF then Back (p\<lparr>stateM := SM_HEADER_LF\<rparr>)
         else Next (p\<lparr>stateM := SM_HEADER_VALUE\<rparr>))
      else if s = SM_HEADER_CR then
        (if c \<noteq> LF then Fail
         else Back (p\<lparr>stateM := SM_HEADER_LF\<rparr>))
      else if s = SM_HEADER_LF then
        (if c = LF then Stop else Fail)
      else Fail)"

definition hd_rank :: "char \<Rightarrow> http_parser \<Rightarrow> nat" where
  "hd_rank c p = 109 - stateM p"

lemma hd_step_rank: "hd_step c k p = Back q \<Longrightarrow> hd_rank c q < hd_rank c p"
  by (auto simp: hd_step_def hd_rank_def Let_def split: if_splits)

function hd_scan :: "string \<Rightarrow> scan_state \<Rightarrow> (scan_state, char) scan_result" where
  "hd_scan [] s = Inr (s, None)"
| "hd_scan (c # cs) (k, p) =
     (case hd_step c k p of
        Next q \<Rightarrow> hd_scan cs (k + 1, q)
      | Back q \<Rightarrow> hd_scan (c # cs) (k, q)
      | Stop \<Rightarrow> Inr ((k, p), Some (c # cs))
      | Fail \<Rightarrow> Inl Assert_failed)"
  by pat_completeness auto
termination
  by (relation "measures [\<lambda>(cs, k, p). length cs,
                          \<lambda>(cs, k, p). case cs of [] \<Rightarrow> 0 | c # _ \<Rightarrow> hd_rank c p]")
     (auto simp: hd_step_rank)

declare hd_scan.simps [simp del]

interpretation hd: switch_loop hd_step hd_scan hd_rank
  by unfold_locales (simp_all add: hd_scan.simps hd_step_rank)

text \<open>The loop that blanks the bytes between a folded line and its predecessor.\<close>

primrec raw_fill :: "nat \<Rightarrow> nat \<Rightarrow> http_parser \<Rightarrow> http_parser exec" where
  "raw_fill j 0 p = Inr p"
| "raw_fill j (Suc n) p = and_then (raw_poke j SPC p) (raw_fill (j + 1) n)"

definition http_fold_header :: "http_env \<Rightarrow> http_parser \<Rightarrow> http_parser exec" where
  "http_fold_header E p =
     (let h = last (headers p); j0 = hs_len (hh_value h) in
      and_then (raw_fill j0 (value_pos p - j0) p) (\<lambda>q.
      let h' = h\<lparr>hh_value := (hh_value h)\<lparr>hs_len := value_pos q - hs_pos (hh_value h) + value_len q\<rparr>\<rparr>;
          q' = q\<lparr>headers := butlast (headers q) @ [h']\<rparr> in
      and_then (raw_poke (hs_pos (hh_value h') + hs_len (hh_value h')) NUL q') (\<lambda>q.
      http_header_handler E q (hs_pos (hh_name h')) (hs_pos (hh_value h')))))"

definition hd_finish :: "http_env \<Rightarrow> http_parser \<Rightarrow> nat \<Rightarrow> (http_parser \<times> int) exec" where
  "hd_finish E q i =
     (if value_pos q = 0 then
        Inr (q\<lparr>raw_header_offset := length (raw q), stateM := SM_BODY\<rparr>, int (i + 1))
      else if name_pos q = 0 then
        and_then (c_assert (\<not> length (headers q) < 1)) (\<lambda>_.
        and_then (http_fold_header E q) (\<lambda>q.
        Inr (q\<lparr>stateM := SM_HEADER\<rparr>, int (i + 1))))
      else
        and_then (c_assert (\<not> name_len q < 1)) (\<lambda>_.
        and_then (http_header_add E q (header q)) (\<lambda>(q, e).
        if e \<noteq> 0 then Inr (q, -1)
        else
          and_then (http_header_handler E q (name_pos q) (value_pos q)) (\<lambda>q.
          Inr (q\<lparr>stateM := SM_HEADER\<rparr>, int (i + 1))))))"

text \<open>The line feed is copied with the line, but not at the end of the input.\<close>

definition http_parse_header_line ::
    "http_env \<Rightarrow> http_parser \<Rightarrow> string \<Rightarrow> (http_parser \<times> int) exec" where
  "http_parse_header_line E p data =
     and_then (hd_scan data (length (raw p), p)) (\<lambda>((k, q), ex).
     let i = k - length (raw p) in
     and_then (http_rawdata E q (take (case ex of None \<Rightarrow> i | Some _ \<Rightarrow> i + 1) data)) (\<lambda>(q, e).
     if e \<noteq> 0 then Inr (q, - ENOMEM)
     else case ex of None \<Rightarrow> Inr (q, int i) | Some _ \<Rightarrow> hd_finish E q i))"

end
