(* ===== verification/HttpInput.thy ===== *)
theory HttpInput
  imports HttpScan
begin

text \<open>
  The body decoders and the entry point \<open>http_parser_input\<close> of \<^verbatim>\<open>http-parser.c\<close>, and its
  accessors.  The header loop of \<open>http_parser_input\<close> needs every header line parse to consume
  input; that is proved here first (\<open>http_parse_header_line_progress\<close>).
\<close>

section \<open>Chunked bodies\<close>

abbreviation (input) CHUNK_START :: nat where "CHUNK_START \<equiv> 200"
abbreviation (input) CHUNK_SIZE :: nat where "CHUNK_SIZE \<equiv> 201"
abbreviation (input) CHUNK_EXTENSION :: nat where "CHUNK_EXTENSION \<equiv> 202"
abbreviation (input) CHUNK_EXTENSION_CR :: nat where "CHUNK_EXTENSION_CR \<equiv> 203"
abbreviation (input) CHUNK_DATA :: nat where "CHUNK_DATA \<equiv> 204"
abbreviation (input) CHUNK_DATA_CR :: nat where "CHUNK_DATA_CR \<equiv> 205"
abbreviation (input) CHUNK_TRAILER_START :: nat where "CHUNK_TRAILER_START \<equiv> 206"
abbreviation (input) CHUNK_TRAILER :: nat where "CHUNK_TRAILER \<equiv> 207"
abbreviation (input) CHUNK_TRAILER_CR :: nat where "CHUNK_TRAILER_CR \<equiv> 208"
abbreviation (input) CHUNK_END_CR :: nat where "CHUNK_END_CR \<equiv> 209"

text \<open>The value of a hexadecimal digit, as the three comparisons of the source decide it.\<close>

definition hex_val :: "char \<Rightarrow> nat option" where
  "hex_val c =
     (if 48 \<le> ord c \<and> ord c \<le> 57 then Some (ord c - 48)
      else if 97 \<le> ord c \<and> ord c \<le> 102 then Some (ord c - 97 + 10)
      else if 65 \<le> ord c \<and> ord c \<le> 70 then Some (ord c - 65 + 10)
      else None)"

text \<open>\<^verbatim>\<open>size_t\<close> arithmetic of the chunk size wraps at 64 bits.\<close>

definition chunk_accum :: "nat \<Rightarrow> nat \<Rightarrow> nat" where
  "chunk_accum len d = (len * 16 + d) mod 2 ^ 64"

text \<open>The cases of the switch that read one byte.\<close>

definition ck_byte :: "char \<Rightarrow> http_parser \<Rightarrow> http_parser exec" where
  "ck_byte c p =
     (let s = stateM p in
      if s = CHUNK_START then
        and_then (c_assert (chunk_len p = 0)) (\<lambda>_.
        case hex_val c of
          None \<Rightarrow> Inl Assert_failed
        | Some d \<Rightarrow> Inr (p\<lparr>chunk_len := d, stateM := CHUNK_SIZE\<rparr>))
      else if s = CHUNK_SIZE then
        (case hex_val c of
           Some d \<Rightarrow> Inr (p\<lparr>chunk_len := chunk_accum (chunk_len p) d\<rparr>)
         | None \<Rightarrow>
             if c = TAB \<or> c = SPC \<or> c = CHR '';'' then Inr (p\<lparr>stateM := CHUNK_EXTENSION\<rparr>)
             else if c = CR then Inr (p\<lparr>stateM := CHUNK_EXTENSION_CR\<rparr>)
             else if c = LF then Inr (p\<lparr>stateM := CHUNK_DATA\<rparr>)
             else Inl Assert_failed)
      else if s = CHUNK_EXTENSION then
        (if c = CR then Inr (p\<lparr>stateM := CHUNK_EXTENSION_CR\<rparr>)
         else if c = LF then Inr (p\<lparr>stateM := CHUNK_DATA\<rparr>)
         else Inr p)
      else if s = CHUNK_EXTENSION_CR then
        (if c \<noteq> LF then Inl Assert_failed
         else Inr (p\<lparr>stateM := (if chunk_len p \<noteq> 0 then CHUNK_DATA else CHUNK_TRAILER_START)\<rparr>))
      else if s = CHUNK_DATA_CR then
        (if c = CR then Inr p
         else if c = LF then Inr (p\<lparr>stateM := CHUNK_START, chunk_len := 0, chunk_loaded := 0\<rparr>)
         else Inl Assert_failed)
      else if s = CHUNK_TRAILER_START then
        (if c = CR then Inr (p\<lparr>stateM := CHUNK_END_CR\<rparr>)
         else if c = LF then Inr (p\<lparr>stateM := SM_DONE\<rparr>)
         else Inr (p\<lparr>stateM := CHUNK_TRAILER\<rparr>))
      else if s = CHUNK_TRAILER then
        (if c = CR then Inr (p\<lparr>stateM := CHUNK_TRAILER_CR\<rparr>)
         else if c = LF then Inr (p\<lparr>stateM := CHUNK_TRAILER_START\<rparr>)
         else Inr p)
      else if s = CHUNK_TRAILER_CR then
        (if c \<noteq> LF then Inl Assert_failed
         else Inr (p\<lparr>stateM := CHUNK_TRAILER_START\<rparr>))
      else if s = CHUNK_END_CR then
        (if c \<noteq> LF then Inl Assert_failed
         else Inr (p\<lparr>stateM := SM_DONE\<rparr>))
      else Inr p)"

text \<open>
  The case \<open>CHUNK_DATA\<close>: the loop index \<open>i\<close> advances by \<open>n\<close>, as many bytes as there are.  The
  source writes \<^verbatim>\<open>n = i + n > len ? len - i : n\<close> in \<^verbatim>\<open>size_t\<close>: a sum that wraps is not
  greater than \<^verbatim>\<open>len\<close>.  \<open>avail\<close> is \<^verbatim>\<open>len - i\<close>.
\<close>

definition ck_take :: "http_parser \<Rightarrow> nat \<Rightarrow> nat \<Rightarrow> nat" where
  "ck_take p i avail =
     (let n = chunk_len p - chunk_loaded p in if i + n < 2 ^ 64 \<and> n > avail then avail else n)"

lemma ck_take_wraps:
  assumes "chunk_len p < 2 ^ 64" and "i + avail < 2 ^ 64"
  shows "ck_take p i avail =
    (let n = chunk_len p - chunk_loaded p in if (i + n) mod 2 ^ 64 > i + avail then avail else n)"
proof -
  define n where "n = chunk_len p - chunk_loaded p"
  have n: "n < 2 ^ 64" using assms(1) by (simp add: n_def)
  have i: "i < 2 ^ 64" using assms(2) by simp
  have "(i + n) mod 2 ^ 64 = (if i + n < 2 ^ 64 then i + n else i + n - 2 ^ 64)"
    using n i by (simp add: mod_if)
  then have "(i + n) mod 2 ^ 64 > i + avail \<longleftrightarrow> i + n < 2 ^ 64 \<and> n > avail"
    using n by (auto split: if_splits)
  then show ?thesis unfolding ck_take_def n_def [symmetric] Let_def by presburger
qed

definition ck_data :: "http_env \<Rightarrow> http_parser \<Rightarrow> string \<Rightarrow> nat \<Rightarrow> http_parser exec" where
  "ck_data E p data n =
     and_then (c_assert (chunk_len p > 0)) (\<lambda>_.
     and_then (c_assert (chunk_loaded p \<le> chunk_len p)) (\<lambda>_.
     and_then (if n \<le> length data then Inr () else Inl Overrun) (\<lambda>_.
     and_then (if n > 0 then http_body E p (take n data) else Inr p) (\<lambda>q.
     let r = q\<lparr>chunk_loaded := chunk_loaded q + n\<rparr> in
     Inr (if chunk_loaded r = chunk_len r then r\<lparr>stateM := CHUNK_DATA_CR\<rparr> else r)))))"

lemma http_body_keeps:
  assumes "http_body E p data = Inr q"
  shows "stateM q = stateM p" "chunk_len q = chunk_len p" "chunk_loaded q = chunk_loaded p"
  using assms
  by (auto simp: http_body_def http_rawdata_def raw_append_def and_then_eq_Inr Let_def split: if_splits)

lemma ck_data_keeps:
  assumes "ck_data E p data n = Inr q"
  shows "stateM q = (if chunk_loaded p + n = chunk_len p then CHUNK_DATA_CR else stateM p)"
    and "n \<le> length data"
proof -
  obtain x where x: "(if n > 0 then http_body E p (take n data) else Inr p) = Inr x" and n: "n \<le> length data"
    and q: "q = (let r = x\<lparr>chunk_loaded := chunk_loaded x + n\<rparr> in
             if chunk_loaded r = chunk_len r then r\<lparr>stateM := CHUNK_DATA_CR\<rparr> else r)"
    using assms by (auto simp: ck_data_def and_then_eq_Inr Let_def split: if_splits)
  have "stateM x = stateM p \<and> chunk_len x = chunk_len p \<and> chunk_loaded x = chunk_loaded p"
    using x http_body_keeps [of E p "take n data" x] by (auto split: if_splits)
  then show "stateM q = (if chunk_loaded p + n = chunk_len p then CHUNK_DATA_CR else stateM p)"
    by (simp add: q Let_def)
  show "n \<le> length data" by (rule n)
qed

lemma ck_take_0: "ck_take p i (Suc k) = 0 \<Longrightarrow> chunk_len p - chunk_loaded p = 0"
  by (simp add: ck_take_def Let_def split: if_splits)

text \<open>
  The loop stops at the end of the input or in state \<open>SM_DONE\<close>; \<open>i\<close> is the
  loop index, the result is the parser and the unread input.
\<close>

function ck_scan :: "http_env \<Rightarrow> nat \<Rightarrow> string \<Rightarrow> http_parser \<Rightarrow> (http_parser, char) scan_result" where
  "ck_scan E i [] p = Inr (p, None)"
| "ck_scan E i (c # cs) p =
     (if stateM p = SM_DONE then Inr (p, Some (c # cs))
      else if stateM p = CHUNK_DATA then
        let n = ck_take p i (length (c # cs)) in
        and_then (ck_data E p (c # cs) n) (ck_scan E (i + n) (drop n (c # cs)))
      else and_then (ck_byte c p) (ck_scan E (i + 1) cs))"
  by pat_completeness auto
termination
proof (relation "measures [\<lambda>(E, i, cs, p). length cs, \<lambda>(E, i, cs, p). if stateM p = CHUNK_DATA then 1 else 0]",
    goal_cases)
  case (2 E i c cs p n q)
  then show ?case
    using ck_data_keeps [of E p "c # cs" n q] ck_take_0 [of p i "length cs"]
    by (cases "n = 0") (auto simp: ck_data_def and_then_eq_Inr split: if_splits)
qed auto

declare ck_scan.simps [simp del]

definition http_parse_chunked ::
    "http_env \<Rightarrow> http_parser \<Rightarrow> string \<Rightarrow> (http_parser \<times> int) exec" where
  "http_parse_chunked E p data =
     and_then (c_assert (is_transfer_encoding_chunked p)) (\<lambda>_.
     and_then (ck_scan E 0 data p) (\<lambda>(q, rest).
     and_then (c_assert (rest = None)) (\<lambda>_. Inr (q, int (length data)))))"

section \<open>Every header line consumes input\<close>

lemma http_parse_header_line_progress:
  assumes "http_parse_header_line E p data = Inr (q, r)" and "data \<noteq> []" and "\<not> r < 0"
  shows "0 < nat r \<and> nat r \<le> length data"
proof -
  obtain k p1 ex where scan: "hd_scan data (length (raw p), p) = Inr ((k, p1), ex)"
    using assms(1) by (auto simp: http_parse_header_line_def and_then_eq_Inr)
  show ?thesis
  proof (cases ex)
    case None
    then have "k = length (raw p) + length data" using scan hd.scan_None by simp
    then have "r = int (length data)"
      using None scan assms(1,3)
      by (auto simp: http_parse_header_line_def and_then_eq_Inr Let_def split: if_splits)
    then show ?thesis using assms(2) by simp
  next
    case (Some rest)
    with scan obtain read where "data = read @ rest" "k = length (raw p) + length read" "rest \<noteq> []"
      using hd.scan_Some [of data "length (raw p)" p k p1 rest] by auto
    moreover from this have "r = int (length read) + 1"
      using Some scan assms(1,3)
      by (auto simp: http_parse_header_line_def hd_finish_def and_then_eq_Inr Let_def
               split: if_splits)
    ultimately show ?thesis by (cases rest) simp_all
  qed
qed

section \<open>The entry point\<close>

text \<open>The loop over header lines: the parser, the last return value and the unread input.\<close>

function http_header_lines ::
    "http_env \<Rightarrow> http_parser \<Rightarrow> int \<Rightarrow> string \<Rightarrow> (http_parser \<times> int \<times> string) exec" where
  "http_header_lines E p r0 data =
     (if data \<noteq> [] \<and> SM_HEADER \<le> stateM p \<and> stateM p < SM_BODY then
        and_then (http_parse_header_line E p data) (\<lambda>(q, r).
          if r < 0 then Inr (q, r, data)
          else http_header_lines E q r (drop (nat r) data))
      else Inr (p, r0, data))"
  by pat_completeness auto
termination
  by (relation "measure (\<lambda>(E, p, r, data). length data)")
     (auto dest: http_parse_header_line_progress)

declare http_header_lines.simps [simp del]

lemma header_lines_step:
  "data \<noteq> [] \<Longrightarrow> SM_HEADER \<le> stateM p \<Longrightarrow> stateM p < SM_BODY \<Longrightarrow>
   http_header_lines E p r0 data = and_then (http_parse_header_line E p data) (\<lambda>(q, r).
     if r < 0 then Inr (q, r, data) else http_header_lines E q r (drop (nat r) data))"
  by (simp add: http_header_lines.simps [of E p r0 data])

lemma header_lines_stop:
  "data = [] \<or> \<not> (SM_HEADER \<le> stateM p \<and> stateM p < SM_BODY) \<Longrightarrow>
   http_header_lines E p r0 data = Inr (p, r0, data)"
  by (subst http_header_lines.simps) (rule if_not_P, blast)

text \<open>
  The part after the headers: the parser, the value of \<^verbatim>\<open>r\<close> and the unread input.
  \<open>bytes\<close> is the \<^verbatim>\<open>*bytes\<close> of the caller, the length of the whole input.
\<close>

definition http_input_body ::
    "http_env \<Rightarrow> http_parser \<Rightarrow> int \<Rightarrow> string \<Rightarrow> nat \<Rightarrow> (http_parser \<times> int \<times> string) exec" where
  "http_input_body E p r data bytes =
     (if \<not> (SM_BODY \<le> stateM p \<and> stateM p < SM_DONE) then Inr (p, r, data)
      else if is_transfer_encoding_chunked p then
        and_then (http_parse_chunked E p data) (\<lambda>(q, r). Inr (q, r, drop (nat r) data))
      else if content_length p = -1 then
        (if request p = HTTP_PARSER_RESPONSE \<and> strcaseeq ''HTTP'' (protocol p)
            \<and> reply_code p \<noteq> 204 \<and> reply_code p \<noteq> 304
            \<and> (reply_code p < 100 \<or> reply_code p \<ge> 200) then
           and_then (http_body E p data) (\<lambda>q.
             Inr (if bytes = 0 then q\<lparr>stateM := SM_DONE\<rparr> else q, 0, []))
         else Inr (p\<lparr>content_length := 0, stateM := SM_DONE\<rparr>, r, data))
      else
        and_then (c_assert (raw_body_length p \<le> content_length p)) (\<lambda>_.
        let n = (if int (length data) + raw_body_length p > content_length p
                 then nat (content_length p - raw_body_length p) else length data) in
        and_then (http_body E p (take n data)) (\<lambda>q.
        Inr (if raw_body_length q \<ge> content_length q then q\<lparr>stateM := SM_DONE\<rparr> else q,
             0, drop n data))))"

abbreviation (input) INPUT_NEEDMORE :: int where "INPUT_NEEDMORE \<equiv> 1"
abbreviation (input) INPUT_DONE :: int where "INPUT_DONE \<equiv> 0"
abbreviation (input) INPUT_HEADER :: int where "INPUT_HEADER \<equiv> 2"

text \<open>The answer is the parser, the return value and the new \<^verbatim>\<open>*bytes\<close>.\<close>

definition http_input_end :: "http_parser \<Rightarrow> string \<Rightarrow> (http_parser \<times> int \<times> nat) exec" where
  "http_input_end p data =
     (if stateM p = SM_DONE then
        and_then (c_assert (content_length p < 0 \<or> raw_body_length p = content_length p)) (\<lambda>_.
          Inr (p, INPUT_DONE, length data))
      else Inr (p, if SM_BODY \<le> stateM p then INPUT_HEADER else INPUT_NEEDMORE, 0))"

definition http_start_line ::
    "http_env \<Rightarrow> http_parser \<Rightarrow> string \<Rightarrow> (http_parser \<times> int) exec" where
  "http_start_line E p data =
     (if SM_START_LINE \<le> stateM p \<and> stateM p < SM_HEADER then
        (if request p = HTTP_PARSER_REQUEST then http_parse_request_line E p data
         else http_parse_status_line E p data)
      else Inr (p, 0))"

definition http_parser_input ::
    "http_env \<Rightarrow> http_parser \<Rightarrow> string \<Rightarrow> (http_parser \<times> int \<times> nat) exec" where
  "http_parser_input E p data =
     and_then (http_start_line E p data) (\<lambda>(p, r).
     if r < 0 then Inr (p, r, length data)
     else
       and_then (http_header_lines E p r (drop (nat r) data)) (\<lambda>(p, r, rest).
       if r < 0 then Inr (p, r, length data)
       else
         and_then (http_input_body E p r rest (length data)) (\<lambda>(p, r, rest).
         if r < 0 then Inr (p, r, length data) else http_input_end p rest)))"

section \<open>Accessors\<close>

text \<open>The global body limit: \<^verbatim>\<open>http_get_max_size\<close> and \<^verbatim>\<open>http_set_max_size\<close>.\<close>

definition http_get_max_size :: "http_env \<Rightarrow> nat" where
  "http_get_max_size E = he_body_max E"

definition http_set_max_size :: "http_env \<Rightarrow> nat \<Rightarrow> http_env \<times> int" where
  "http_set_max_size E bytes = (E\<lparr>he_body_max := bytes\<rparr>, 0)"

text \<open>Each accessor first asserts that the start line has been parsed.\<close>

definition after_start_line :: "http_parser \<Rightarrow> 'a exec \<Rightarrow> 'a exec" where
  "after_start_line p r = and_then (c_assert (stateM p \<ge> SM_HEADER)) (\<lambda>_. r)"

definition http_get_version :: "http_parser \<Rightarrow> (string \<times> int \<times> int) exec" where
  "http_get_version p = after_start_line p (Inr (protocol p, vermajor p, verminor p))"

definition http_get_status_code :: "http_parser \<Rightarrow> int exec" where
  "http_get_status_code p = after_start_line p
     (and_then (c_assert (request p = HTTP_PARSER_RESPONSE)) (\<lambda>_. Inr (reply_code p)))"

definition http_get_status_reason :: "http_parser \<Rightarrow> string exec" where
  "http_get_status_reason p = after_start_line p
     (and_then (c_assert (request p = HTTP_PARSER_RESPONSE)) (\<lambda>_.
        Inr (cstr_at p (hs_pos (reply_reason p)))))"

definition http_get_request_method :: "http_parser \<Rightarrow> string exec" where
  "http_get_request_method p = after_start_line p
     (and_then (c_assert (request p = HTTP_PARSER_REQUEST)) (\<lambda>_.
        Inr (cstr_at p (hs_pos (req_method p)))))"

definition http_get_request_uri :: "http_parser \<Rightarrow> string exec" where
  "http_get_request_uri p = after_start_line p
     (and_then (c_assert (request p = HTTP_PARSER_REQUEST)) (\<lambda>_.
        Inr (cstr_at p (hs_pos (req_uri p)))))"

text \<open>The body: the bytes of the buffer from the end of the headers on.\<close>

definition http_get_content :: "http_parser \<Rightarrow> string exec" where
  "http_get_content p =
     and_then (c_assert (\<not> has_callback p)) (\<lambda>_.
     and_then (c_assert (stateM p \<ge> SM_BODY)) (\<lambda>_.
     and_then (c_assert (int (raw_header_offset p) + raw_body_length p = int (length (raw p)))) (\<lambda>_.
     Inr (drop (raw_header_offset p) (raw p)))))"

definition http_get_header_count :: "http_parser \<Rightarrow> int exec" where
  "http_get_header_count p = after_start_line p (Inr (int (length (headers p))))"

text \<open>\<open>Inr (Inl e)\<close> is the error return, \<open>Inr (Inr (name, value))\<close> the two results.\<close>

definition http_get_header :: "http_parser \<Rightarrow> int \<Rightarrow> (int + string \<times> string) exec" where
  "http_get_header p idx = after_start_line p (Inr
     (if idx < 0 \<or> idx \<ge> int (length (headers p)) then Inl EINVAL
      else let h = headers p ! nat idx in
        Inr (cstr_at p (hs_pos (hh_name h)), cstr_at p (hs_pos (hh_value h)))))"

text \<open>The search loop of the two lookups.\<close>

fun find_header :: "http_parser \<Rightarrow> string \<Rightarrow> http_header list \<Rightarrow> http_header option" where
  "find_header p nm [] = None"
| "find_header p nm (h # hs) =
     (if strcaseeq (cstr_at p (hs_pos (hh_name h))) nm then Some h else find_header p nm hs)"

definition http_get_header_by_name :: "http_parser \<Rightarrow> string \<Rightarrow> string option exec" where
  "http_get_header_by_name p nm = after_start_line p (Inr
     (map_option (\<lambda>h. cstr_at p (hs_pos (hh_value h))) (find_header p nm (headers p))))"

definition http_get_header_by_name2 :: "http_parser \<Rightarrow> string \<Rightarrow> int option exec" where
  "http_get_header_by_name2 p nm = after_start_line p (Inr
     (map_option (\<lambda>h. to_int64 (fst (strtoull (cstr_at p (hs_pos (hh_value h))))))
        (find_header p nm (headers p))))"

definition http_get_content_length :: "http_parser \<Rightarrow> int exec" where
  "http_get_content_length p = after_start_line p (Inr (content_length p))"

definition http_get_connection :: "http_parser \<Rightarrow> int exec" where
  "http_get_connection p = after_start_line p (Inr (connection_close p))"

definition http_get_content_type :: "http_parser \<Rightarrow> string option exec" where
  "http_get_content_type p = http_get_header_by_name p ''Content-Type''"

definition offset_string :: "http_parser \<Rightarrow> nat \<Rightarrow> string option" where
  "offset_string p n = (if n = 0 then None else Some (cstr_at p n))"

definition http_get_content_encoding :: "http_parser \<Rightarrow> string option exec" where
  "http_get_content_encoding p = after_start_line p (Inr (offset_string p (content_encoding p)))"

definition http_get_transfer_encoding :: "http_parser \<Rightarrow> string option exec" where
  "http_get_transfer_encoding p = after_start_line p (Inr (offset_string p (transfer_encoding p)))"

definition http_get_cookie :: "http_parser \<Rightarrow> string option exec" where
  "http_get_cookie p = after_start_line p (Inr (offset_string p (cookie p)))"

definition http_get_location :: "http_parser \<Rightarrow> string option exec" where
  "http_get_location p = after_start_line p
     (and_then (c_assert (request p = HTTP_PARSER_RESPONSE)) (\<lambda>_.
        Inr (offset_string p (location p))))"

section \<open>Running the parser\<close>

text \<open>Equations that evaluate a call on concrete bytes.\<close>

lemmas http_scan_eval = rq_scan.simps st_scan.simps hd_scan.simps ck_scan.simps
  rq_step_def st_step_def hd_step_def ck_byte_def ck_data_def ck_take_def
  rq_put_def rq_get_def st_put_def st_get_def hd_put_def hd_get_def header_setters
  is_break_def is_blank_def hex_val_def chunk_accum_def

lemmas http_line_eval = http_parse_request_line_def http_parse_status_line_def
  http_parse_header_line_def rq_finish_def st_finish_def hd_finish_def version_ok_def cstr_at_def
  scan_d_def read_dec_def strtol_def strtoull_def ULLONG_MAX_def skip_space_def is_space_def
  is_digit_def dec_val_def digit_val_def to_int32_def to_int64_def atoi_def
  raw_poke_def raw_append_def raw_growth_def http_rawdata_def http_header_add_def
  http_header_handler_def http_fold_header_def is_valid_token_def token_char_def
  strcaseeq_def strncaseeq_def to_lower_def is_upper_def

lemmas http_input_eval = http_start_line_def http_header_lines.simps http_input_body_def
  http_input_end_def http_parse_chunked_def is_transfer_encoding_chunked_def http_body_def
  http_parser_input_def http_parser_clear_def http_parser_zero_def http_string0_def

lemmas http_eval = http_scan_eval http_line_eval http_input_eval Let_def

text \<open>An environment for examples: every allocation succeeds, bodies are not limited.\<close>

definition env0 :: http_env where
  "env0 = \<lparr>he_alloc = (\<lambda>_. True), he_body_max = 0\<rparr>"

end
