(* ===== verification/HttpStream.thy ===== *)
theory HttpStream
  imports HttpInput
begin

text \<open>
  The parser does not depend on how its input is cut: feeding two segments in turn is feeding
  their concatenation.  The states agree up to the capacity of the raw buffer and up to how the
  body bytes are grouped into callback calls; \<open>sim\<close> says so.  Allocations are assumed to succeed
  and the message to stay below \<^verbatim>\<open>HTTP_BODY_LENGTH_MAX\<close>.
\<close>

section \<open>Capacity and callback grouping\<close>

definition upd :: "nat \<Rightarrow> string list \<Rightarrow> http_parser \<Rightarrow> http_parser" where
  "upd c d p = p\<lparr>raw_capacity := c, delivered := d\<rparr>"

definition sim :: "http_parser \<Rightarrow> http_parser \<Rightarrow> bool" where
  "sim p q \<longleftrightarrow> (\<exists>c d. q = upd c d p \<and> concat d = concat (delivered p))"

lemma upd_sel [simp]:
  "raw (upd c d p) = raw p" "raw_header_offset (upd c d p) = raw_header_offset p"
  "stateM (upd c d p) = stateM p" "request (upd c d p) = request p"
  "header (upd c d p) = header p" "chunk_len (upd c d p) = chunk_len p"
  "chunk_loaded (upd c d p) = chunk_loaded p" "protocol (upd c d p) = protocol p"
  "req_method (upd c d p) = req_method p" "req_uri (upd c d p) = req_uri p"
  "reply_code (upd c d p) = reply_code p" "reply_reason (upd c d p) = reply_reason p"
  "headers (upd c d p) = headers p" "header_capacity (upd c d p) = header_capacity p"
  "content_length (upd c d p) = content_length p" "transfer_encoding (upd c d p) = transfer_encoding p"
  "has_callback (upd c d p) = has_callback p" "raw_body_length (upd c d p) = raw_body_length p"
  "raw_capacity (upd c d p) = c" "delivered (upd c d p) = d"
  by (simp_all add: upd_def)

lemma upd_upd [simp]: "upd c d (upd c' d' p) = upd c d p"
  by (simp add: upd_def)

lemma upd_update [simp]:
  "(upd c d p)\<lparr>raw := x0\<rparr> = upd c d (p\<lparr>raw := x0\<rparr>)"
  "(upd c d p)\<lparr>raw_header_offset := x1\<rparr> = upd c d (p\<lparr>raw_header_offset := x1\<rparr>)"
  "(upd c d p)\<lparr>stateM := x2\<rparr> = upd c d (p\<lparr>stateM := x2\<rparr>)"
  "(upd c d p)\<lparr>header := x3\<rparr> = upd c d (p\<lparr>header := x3\<rparr>)"
  "(upd c d p)\<lparr>chunk_len := x4\<rparr> = upd c d (p\<lparr>chunk_len := x4\<rparr>)"
  "(upd c d p)\<lparr>chunk_loaded := x5\<rparr> = upd c d (p\<lparr>chunk_loaded := x5\<rparr>)"
  "(upd c d p)\<lparr>reply_code := x6\<rparr> = upd c d (p\<lparr>reply_code := x6\<rparr>)"
  "(upd c d p)\<lparr>headers := x7\<rparr> = upd c d (p\<lparr>headers := x7\<rparr>)"
  "(upd c d p)\<lparr>header_capacity := x8\<rparr> = upd c d (p\<lparr>header_capacity := x8\<rparr>)"
  "(upd c d p)\<lparr>content_length := x9\<rparr> = upd c d (p\<lparr>content_length := x9\<rparr>)"
  "(upd c d p)\<lparr>connection_close := x10\<rparr> = upd c d (p\<lparr>connection_close := x10\<rparr>)"
  "(upd c d p)\<lparr>content_encoding := x11\<rparr> = upd c d (p\<lparr>content_encoding := x11\<rparr>)"
  "(upd c d p)\<lparr>transfer_encoding := x12\<rparr> = upd c d (p\<lparr>transfer_encoding := x12\<rparr>)"
  "(upd c d p)\<lparr>cookie := x13\<rparr> = upd c d (p\<lparr>cookie := x13\<rparr>)"
  "(upd c d p)\<lparr>location := x14\<rparr> = upd c d (p\<lparr>location := x14\<rparr>)"
  "(upd c d p)\<lparr>raw_body_length := x15\<rparr> = upd c d (p\<lparr>raw_body_length := x15\<rparr>)"
  by (simp_all add: upd_def)

lemma upd_self: "upd (raw_capacity p) (delivered p) p = p"
  by (simp add: upd_def)

lemma sim_refl [simp]: "sim p p"
  unfolding sim_def by (metis upd_self)

lemma sim_sym: "sim p q \<Longrightarrow> sim q p"
  unfolding sim_def by (metis upd_self upd_sel(20) upd_upd)

lemma sim_trans: "sim p q \<Longrightarrow> sim q r \<Longrightarrow> sim p r"
  unfolding sim_def by (metis upd_sel(20) upd_upd)

lemma sim_upd: "concat d = concat (delivered p) \<Longrightarrow> sim p (upd c d p)"
  unfolding sim_def by blast

section \<open>Steps that do not see them\<close>

lemma cstr_at_upd [simp]: "cstr_at (upd c d p) n = cstr_at p n"
  by (simp add: cstr_at_def)

lemma chunked_upd [simp]: "is_transfer_encoding_chunked (upd c d p) = is_transfer_encoding_chunked p"
  by (simp add: is_transfer_encoding_chunked_def)

lemma rq_step_upd: "rq_step b k (upd c d p) = map_move (upd c d) (rq_step b k p)"
  by (simp add: rq_step_def rq_put_def rq_get_def header_setters Let_def upd_def)

lemma st_step_upd: "st_step b k (upd c d p) = map_move (upd c d) (st_step b k p)"
  by (simp add: st_step_def st_put_def st_get_def header_setters Let_def upd_def)

lemma hd_step_upd: "hd_step b k (upd c d p) = map_move (upd c d) (hd_step b k p)"
  by (simp add: hd_step_def hd_put_def hd_get_def header_setters Let_def upd_def)

lemma version_ok_upd: "version_ok (upd c d p) = map_prod (upd c d) id (version_ok p)"
  unfolding version_ok_def by (simp add: Let_def upd_def cstr_at_def split: option.split)

lemma raw_poke_upd: "raw_poke i x (upd c d p) = map_sum id (upd c d) (raw_poke i x p)"
  by (simp add: raw_poke_def upd_def in_bounds_def)

abbreviation upd_r :: "nat \<Rightarrow> string list \<Rightarrow> (http_parser \<times> 'a) exec \<Rightarrow> (http_parser \<times> 'a) exec" where
  "upd_r c d \<equiv> map_sum id (map_prod (upd c d) id)"

lemma and_then_map_sum [simp]: "and_then (map_sum id g m) f = and_then m (\<lambda>x. f (g x))"
  by (cases m) simp_all

lemma map_sum_and_then: "map_sum id g (and_then m f) = and_then m (\<lambda>x. map_sum id g (f x))"
  by (cases m) simp_all

lemma upd_r_comm: "map_sum id (map_prod id f) (upd_r c d x) = upd_r c d (map_sum id (map_prod id f) x)"
  by (cases x) auto

lemma rq_finish_upd: "rq_finish (upd c d p) i = upd_r c d (rq_finish p i)"
  unfolding rq_finish_def
  by (simp add: version_ok_upd raw_poke_upd map_sum_and_then split: prod.split)

lemma st_finish_upd: "st_finish (upd c d p) i = upd_r c d (st_finish p i)"
  unfolding st_finish_def
  by (simp add: version_ok_upd raw_poke_upd map_sum_and_then split: prod.split)

lemma http_header_handler_upd:
  "http_header_handler E (upd c d p) n v = map_sum id (upd c d) (http_header_handler E p n v)"
  unfolding http_header_handler_def
  by (simp add: Let_def map_sum_and_then raw_poke_upd)

lemma raw_fill_upd: "raw_fill j n (upd c d p) = map_sum id (upd c d) (raw_fill j n p)"
  by (induction n arbitrary: j p) (simp_all add: raw_poke_upd map_sum_and_then)

lemma http_fold_header_upd: "http_fold_header E (upd c d p) = map_sum id (upd c d) (http_fold_header E p)"
  unfolding http_fold_header_def
  by (simp add: Let_def raw_fill_upd raw_poke_upd map_sum_and_then http_header_handler_upd)

lemma http_header_add_upd: "http_header_add E (upd c d p) h = upd_r c d (http_header_add E p h)"
  unfolding http_header_add_def
  by (simp add: Let_def raw_poke_upd map_sum_and_then)

lemma hd_finish_upd: "hd_finish E (upd c d p) i = upd_r c d (hd_finish E p i)"
  unfolding hd_finish_def
  by (simp add: http_fold_header_upd http_header_add_upd http_header_handler_upd map_sum_and_then
      case_prod_beta if_distrib [of "map_sum _ _"] cong: if_cong)

section \<open>Resources that suffice\<close>

definition roomy :: "http_env \<Rightarrow> bool" where
  "roomy E \<longleftrightarrow> (\<forall>n. he_alloc E n)"

definition buf_ok :: "http_parser \<Rightarrow> bool" where
  "buf_ok p \<longleftrightarrow> length (raw p) \<le> raw_capacity p"

lemma raw_growth_gt: "bytes < raw_growth old bytes"
  by (simp add: raw_growth_def Let_def)

lemma http_rawdata_roomy:
  assumes "roomy E" and "buf_ok p" and "length (raw p) + length data \<le> HTTP_BODY_LENGTH_MAX"
  obtains c where "http_rawdata E p data = Inr (upd c (delivered p) (p\<lparr>raw := raw p @ data\<rparr>), 0)"
    and "length (raw p @ data) \<le> c"
proof (cases "raw_capacity p - length (raw p) < length data + 1")
  case True
  define cap where "cap = raw_capacity p + raw_growth (raw_capacity p) (length data)"
  have big: "length data < cap - length (raw p)" "length (raw p @ data) \<le> cap"
    using assms(2) raw_growth_gt [of "length data" "raw_capacity p"]
    by (simp_all add: cap_def buf_ok_def)
  have "http_rawdata E p data = raw_append (p\<lparr>raw_capacity := cap\<rparr>) data"
    using True assms by (simp add: http_rawdata_def roomy_def buf_ok_def Let_def cap_def)
  also have "\<dots> = Inr (upd cap (delivered p) (p\<lparr>raw := raw p @ data\<rparr>), 0)"
    using big by (simp add: raw_append_def upd_def)
  finally show ?thesis using big(2) by (rule that)
next
  case False
  then have "http_rawdata E p data =
      Inr (upd (raw_capacity p) (delivered p) (p\<lparr>raw := raw p @ data\<rparr>), 0)"
    by (simp add: http_rawdata_def raw_append_def Let_def c_assert_def upd_def)
  moreover have "length (raw p @ data) \<le> raw_capacity p" using False by simp
  ultimately show ?thesis by (rule that)
qed

section \<open>Line parsers\<close>

text \<open>\<open>cut_rel m x y\<close>: \<open>x\<close> is the outcome on a whole input, \<open>y\<close> the one on its second part, the
  first \<open>m\<close> bytes having been consumed before.\<close>

definition shift_ret :: "nat \<Rightarrow> int \<Rightarrow> int" where
  "shift_ret m r = (if r < 0 then r else r + int m)"

fun cut_rel :: "nat \<Rightarrow> (http_parser \<times> int) exec \<Rightarrow> (http_parser \<times> int) exec \<Rightarrow> bool" where
  "cut_rel m (Inl e) (Inl e') \<longleftrightarrow> e = e'"
| "cut_rel m (Inr (p, r)) (Inr (q, r')) \<longleftrightarrow> sim p q \<and> r = shift_ret m r'"
| "cut_rel m _ _ \<longleftrightarrow> False"

lemma cut_rel_fin:
  assumes "concat d = concat d'"
  shows "cut_rel m (upd_r c d (map_sum id (map_prod id (shift_ret m)) x)) (upd_r c' d' x)"
proof (cases x)
  case (Inr y)
  then show ?thesis using assms
    by (cases y) (auto simp: sim_def intro!: exI [of _ c'] exI [of _ d'])
qed simp

text \<open>
  The common shape of \<open>http_parse_request_line\<close>, \<open>http_parse_status_line\<close> and
  \<open>http_parse_header_line\<close>: a scan, the copy of the bytes read (and of \<open>ext\<close> bytes of the line
  end), the checks \<open>fin\<close>.
\<close>

definition line_parse ::
    "(string \<Rightarrow> scan_state \<Rightarrow> (scan_state, char) scan_result)
      \<Rightarrow> (http_env \<Rightarrow> http_parser \<Rightarrow> nat \<Rightarrow> (http_parser \<times> int) exec) \<Rightarrow> nat
      \<Rightarrow> http_env \<Rightarrow> http_parser \<Rightarrow> string \<Rightarrow> (http_parser \<times> int) exec" where
  "line_parse scan fin ext E p data =
     and_then (scan data (length (raw p), p)) (\<lambda>((k, q), ex).
     let i = k - length (raw p) in
     and_then (http_rawdata E q (take (case ex of None \<Rightarrow> i | Some _ \<Rightarrow> i + ext) data)) (\<lambda>(q, e).
     if e \<noteq> 0 then Inr (q, - ENOMEM)
     else case ex of None \<Rightarrow> Inr (q, int i) | Some _ \<Rightarrow> fin E q i))"

lemma case_option_add_0: "(case x of None \<Rightarrow> (i::nat) | Some _ \<Rightarrow> i + 0) = i"
  by (cases x) simp_all

lemma request_line_parse: "http_parse_request_line E p data = line_parse rq_scan (\<lambda>E. rq_finish) 0 E p data"
  unfolding http_parse_request_line_def line_parse_def case_option_add_0 by (rule refl)

lemma status_line_parse: "http_parse_status_line E p data = line_parse st_scan (\<lambda>E. st_finish) 0 E p data"
  unfolding http_parse_status_line_def line_parse_def case_option_add_0 by (rule refl)

lemma header_line_parse: "http_parse_header_line E p data = line_parse hd_scan hd_finish 1 E p data"
  unfolding http_parse_header_line_def line_parse_def by (rule refl)

locale line_parser = switch_loop step scan rank
  for step :: "char \<Rightarrow> nat \<Rightarrow> http_parser \<Rightarrow> http_parser move"
    and scan :: "string \<Rightarrow> scan_state \<Rightarrow> (scan_state, char) scan_result"
    and rank :: "char \<Rightarrow> http_parser \<Rightarrow> nat" +
  fixes fin :: "http_env \<Rightarrow> http_parser \<Rightarrow> nat \<Rightarrow> (http_parser \<times> int) exec"
    and ext :: nat
  assumes step_upd: "step b k (upd c d p) = map_move (upd c d) (step b k p)"
    and step_raw: "step b k (p\<lparr>raw := x\<rparr>) = map_move (\<lambda>p. p\<lparr>raw := x\<rparr>) (step b k p)"
    and fin_upd: "fin E (upd c d p) i = upd_r c d (fin E p i)"
    and fin_shift: "fin E p (m + i) = map_sum id (map_prod id (shift_ret m)) (fin E p i)"
begin

lemma step_keeps_buffer:
  assumes "step b k p = Next q \<or> step b k p = Back q"
  shows "raw q = raw p \<and> raw_capacity q = raw_capacity p \<and> delivered q = delivered p"
proof -
  have "step b k p = map_move (upd (raw_capacity p) (delivered p)) (step b k p)"
    using step_upd [of b k "raw_capacity p" "delivered p" p] by (simp add: upd_self)
  moreover have "step b k p = map_move (\<lambda>q. q\<lparr>raw := raw p\<rparr>) (step b k p)"
    using step_raw [where b = b and k = k and p = p and x = "raw p"] by simp
  ultimately have q: "q = upd (raw_capacity p) (delivered p) q" "q = q\<lparr>raw := raw p\<rparr>"
    using assms by auto
  from arg_cong [OF q(1), of raw_capacity] arg_cong [OF q(1), of delivered]
    arg_cong [OF q(2), of raw]
  show ?thesis by simp
qed

lemma scan_keeps_buffer:
  assumes "scan cs (k, p) = Inr ((k', q), r)"
  shows "raw q = raw p \<and> raw_capacity q = raw_capacity p \<and> delivered q = delivered p"
proof (rule scan_invariant [OF assms, where
        I = "\<lambda>_ q. raw q = raw p \<and> raw_capacity q = raw_capacity p \<and> delivered q = delivered p"])
  show "raw p = raw p \<and> raw_capacity p = raw_capacity p \<and> delivered p = delivered p" by simp
next
  fix b k q q'
  assume "raw q = raw p \<and> raw_capacity q = raw_capacity p \<and> delivered q = delivered p"
    and "step b k q = Next q'"
  then show "raw q' = raw p \<and> raw_capacity q' = raw_capacity p \<and> delivered q' = delivered p"
    using step_keeps_buffer [of b k q q'] by simp
next
  fix b k q q'
  assume "raw q = raw p \<and> raw_capacity q = raw_capacity p \<and> delivered q = delivered p"
    and "step b k q = Back q'"
  then show "raw q' = raw p \<and> raw_capacity q' = raw_capacity p \<and> delivered q' = delivered p"
    using step_keeps_buffer [of b k q q'] by simp
qed

lemma scan_frame_buffer:
  "scan cs (k, upd c d (p\<lparr>raw := x\<rparr>)) =
   map_sum id (\<lambda>((k, q), r). ((k, upd c d (q\<lparr>raw := x\<rparr>)), r)) (scan cs (k, p))"
  by (rule scan_frame) (simp add: step_upd step_raw move.map_comp comp_def)

text \<open>A line that is cut: its first part is kept in the buffer, its second part finishes it.\<close>

lemma line_cut:
  assumes room: "roomy E" "buf_ok p" "length (raw p) + length a + length b \<le> HTTP_BODY_LENGTH_MAX"
    and first: "scan a (length (raw p), p) = Inr ((k1, p1), None)"
  obtains p' where "line_parse scan fin ext E p a = Inr (p', int (length a))"
    and "buf_ok p'" and "raw p' = raw p @ a" and "\<exists>c d. p' = upd c d (p1\<lparr>raw := raw p @ a\<rparr>)"
    and "cut_rel (length a) (line_parse scan fin ext E p (a @ b)) (line_parse scan fin ext E p' b)"
proof -
  have k1: "k1 = length (raw p) + length a" using first by (rule scan_None)
  have p1: "raw p1 = raw p" "raw_capacity p1 = raw_capacity p" "delivered p1 = delivered p"
    using scan_keeps_buffer [OF first] by simp_all
  obtain c1 where rd1: "http_rawdata E p1 a = Inr (upd c1 (delivered p) (p1\<lparr>raw := raw p @ a\<rparr>), 0)"
      and c1: "length (raw p @ a) \<le> c1"
    using http_rawdata_roomy [of E p1 a] room by (auto simp: p1 buf_ok_def)
  define p' where "p' = upd c1 (delivered p) (p1\<lparr>raw := raw p @ a\<rparr>)"
  have A: "line_parse scan fin ext E p a = Inr (p', int (length a))"
    by (simp add: line_parse_def first k1 rd1 p'_def)
  have whole: "scan (a @ b) (length (raw p), p) = scan b (k1, p1)"
    by (simp add: scan_cut first)
  have part: "scan b (length (raw p'), p') =
      map_sum id (\<lambda>((k, q), r). ((k, upd c1 (delivered p) (q\<lparr>raw := raw p @ a\<rparr>)), r)) (scan b (k1, p1))"
    by (simp add: p'_def k1 scan_frame_buffer)
  have "cut_rel (length a) (line_parse scan fin ext E p (a @ b)) (line_parse scan fin ext E p' b)"
  proof (cases "scan b (k1, p1)")
    case (Inl e)
    then show ?thesis by (simp add: line_parse_def whole part)
  next
    case (Inr y)
    obtain k2 p2 ex where y: "y = ((k2, p2), ex)" by (metis surj_pair)
    have sc: "scan b (k1, p1) = Inr ((k2, p2), ex)" using Inr y by simp
    have p2: "raw p2 = raw p" "raw_capacity p2 = raw_capacity p" "delivered p2 = delivered p"
      using scan_keeps_buffer [OF sc] p1 by simp_all
    have k2: "k1 \<le> k2"
      using scan_None [of b k1 p1 k2 p2] scan_Some [of b k1 p1 k2 p2] sc by (cases ex) auto
    define j where "j = k2 - k1"
    define m where "m = (case ex of None \<Rightarrow> j | Some _ \<Rightarrow> j + ext)"
    define P where "P = p2\<lparr>raw := raw p @ a @ take m b\<rparr>"
    have room': "length (raw p) + (length a + min (length b) m) \<le> HTTP_BODY_LENGTH_MAX"
      using room(3) by simp
    obtain cW where rW: "http_rawdata E p2 (a @ take m b) = Inr (upd cW (delivered p) P, 0)"
      using http_rawdata_roomy [of E p2 "a @ take m b"] room room'
      by (auto simp: p2 buf_ok_def P_def)
    obtain cS where rS: "http_rawdata E (upd c1 (delivered p) (p2\<lparr>raw := raw p @ a\<rparr>)) (take m b)
        = Inr (upd cS (delivered p) P, 0)"
      using http_rawdata_roomy [of E "upd c1 (delivered p) (p2\<lparr>raw := raw p @ a\<rparr>)" "take m b"] room room' c1
      by (auto simp: p2 buf_ok_def P_def upd_def)
    have iW: "k2 - length (raw p) = length a + j" using k1 k2 by (simp add: j_def)
    have W: "line_parse scan fin ext E p (a @ b) =
        (case ex of None \<Rightarrow> Inr (upd cW (delivered p) P, int (length a + j))
         | Some _ \<Rightarrow> upd_r cW (delivered p) (map_sum id (map_prod id (shift_ret (length a))) (fin E P j)))"
      using rW by (cases ex) (simp_all add: line_parse_def whole sc iW m_def fin_upd fin_shift upd_r_comm)
    have S: "line_parse scan fin ext E p' b =
        (case ex of None \<Rightarrow> Inr (upd cS (delivered p) P, int j)
         | Some _ \<Rightarrow> upd_r cS (delivered p) (fin E P j))"
    proof -
      have l: "length (raw p') = k1" by (simp add: p'_def k1)
      have d: "take (case ex of None \<Rightarrow> k2 - k1 | Some _ \<Rightarrow> k2 - k1 + ext) b = take m b"
        by (cases ex) (simp_all add: m_def j_def)
      show ?thesis
        unfolding line_parse_def part sc
        using rS by (cases ex) (simp_all add: l d [unfolded j_def] Let_def fin_upd j_def m_def)
    qed
    show ?thesis
      unfolding W S by (cases ex) (auto simp: cut_rel_fin shift_ret_def sim_def intro: exI [of _ cS])
  qed
  then show ?thesis using that [OF A] c1 by (auto simp: p'_def buf_ok_def)
qed

text \<open>A line that ends in the first part is parsed from that part alone.\<close>

lemma line_whole:
  assumes "scan a (length (raw p), p) = Inr ((k1, p1), Some rest)" and "ext \<le> 1"
  shows "line_parse scan fin ext E p (a @ b) = line_parse scan fin ext E p a"
proof -
  obtain read where r: "a = read @ rest" "k1 = length (raw p) + length read" "rest \<noteq> []"
    using scan_Some [OF assms(1)] by auto
  have "ext \<le> length rest" using r assms(2) by (cases rest) auto
  then have "take (length read + ext) (a @ b) = take (length read + ext) a"
    by (simp add: r)
  moreover have "scan (a @ b) (length (raw p), p) = Inr ((k1, p1), Some (rest @ b))"
    using assms(1) by (simp add: scan_cut)
  ultimately show ?thesis using assms(1) r by (simp add: line_parse_def Let_def del: take_append cong: if_cong)
qed

lemma line_fault:
  assumes "scan a (length (raw p), p) = Inl e"
  shows "line_parse scan fin ext E p a = Inl e"
  using assms by (simp add: line_parse_def)

end

section \<open>The three line parsers\<close>

lemma rq_step_raw: "rq_step b k (p\<lparr>raw := x\<rparr>) = map_move (\<lambda>p. p\<lparr>raw := x\<rparr>) (rq_step b k p)"
  by (simp add: rq_step_def rq_put_def rq_get_def header_setters Let_def)

lemma st_step_raw: "st_step b k (p\<lparr>raw := x\<rparr>) = map_move (\<lambda>p. p\<lparr>raw := x\<rparr>) (st_step b k p)"
  by (simp add: st_step_def st_put_def st_get_def header_setters Let_def)

lemma hd_step_raw: "hd_step b k (p\<lparr>raw := x\<rparr>) = map_move (\<lambda>p. p\<lparr>raw := x\<rparr>) (hd_step b k p)"
  by (simp add: hd_step_def hd_put_def hd_get_def header_setters Let_def)

lemma rq_finish_shift: "rq_finish p (m + i) = map_sum id (map_prod id (shift_ret m)) (rq_finish p i)"
  by (simp add: rq_finish_def map_sum_and_then shift_ret_def ac_simps split: prod.split)

lemma st_finish_shift: "st_finish p (m + i) = map_sum id (map_prod id (shift_ret m)) (st_finish p i)"
  by (simp add: st_finish_def map_sum_and_then shift_ret_def ac_simps split: prod.split)

lemma hd_finish_shift: "hd_finish E p (m + i) = map_sum id (map_prod id (shift_ret m)) (hd_finish E p i)"
  unfolding hd_finish_def
  by (simp add: map_sum_and_then shift_ret_def ac_simps case_prod_unfold if_distrib [of "map_sum _ _"] cong: if_cong)

interpretation rql: line_parser rq_step rq_scan rq_rank "\<lambda>E. rq_finish" 0
  by unfold_locales (simp_all add: rq_step_upd rq_step_raw rq_finish_upd rq_finish_shift)

interpretation stl: line_parser st_step st_scan st_rank "\<lambda>E. st_finish" 0
  by unfold_locales (simp_all add: st_step_upd st_step_raw st_finish_upd st_finish_shift)

interpretation hdl: line_parser hd_step hd_scan hd_rank hd_finish 1
  by unfold_locales (simp_all add: hd_step_upd hd_step_raw hd_finish_upd hd_finish_shift)

end
