(* ===== verification/HttpSafety.thy ===== *)
theory HttpSafety
  imports HttpStream
begin

text \<open>
  Memory safety of the HTTP parser: an invariant of the parser between two calls of
  \<open>http_parser_input\<close> that excludes every store outside the raw buffer and the header table,
  and that every call keeps unless it reports an error.  The invariant also says that the
  differences of offsets the source computes in unsigned arithmetic are never negative.
\<close>

section \<open>The invariant\<close>

definition within :: "nat \<Rightarrow> http_string \<Rightarrow> bool" where
  "within n s \<longleftrightarrow> hs_pos s + hs_len s \<le> n"

text \<open>The line being read is known up to offset \<open>k\<close>.\<close>

definition rq_inv :: "nat \<Rightarrow> http_parser \<Rightarrow> bool" where
  "rq_inv k p \<longleftrightarrow> (let s = stateM p in
     s \<le> SM_REQUEST_LF \<and>
     (s = SM_REQUEST_METHOD \<longrightarrow> hs_pos (req_method p) \<le> k) \<and>
     (s \<ge> SM_REQUEST_SP1 \<longrightarrow> within k (req_method p)) \<and>
     (s = SM_REQUEST_URI \<longrightarrow> hs_pos (req_uri p) \<le> k) \<and>
     (s \<ge> SM_REQUEST_SP2 \<longrightarrow> within k (req_uri p)) \<and>
     (s = SM_REQUEST_VERSION \<longrightarrow> name_pos p \<le> k) \<and>
     (s \<ge> SM_REQUEST_VERSION \<longrightarrow> hs_pos (req_uri p) \<le> name_pos p) \<and>
     (s \<ge> SM_REQUEST_SP3 \<longrightarrow> within k (hh_name (header p))))"

definition st_inv :: "nat \<Rightarrow> http_parser \<Rightarrow> bool" where
  "st_inv k p \<longleftrightarrow> (let s = stateM p in
     s \<le> SM_STATUS_LF \<and>
     (s = SM_STATUS_VERSION \<longrightarrow> name_pos p \<le> k) \<and>
     (s \<ge> SM_STATUS_SP1 \<longrightarrow> within k (hh_name (header p))) \<and>
     (s = SM_STATUS_CODE \<longrightarrow> value_pos p \<le> k) \<and>
     (s \<ge> SM_STATUS_SP2 \<longrightarrow> within k (hh_value (header p))) \<and>
     (s = SM_STATUS_REASON \<longrightarrow> hs_pos (reply_reason p) \<le> k) \<and>
     (s \<ge> SM_STATUS_SP3 \<longrightarrow> within k (reply_reason p)))"

text \<open>Offsets that were stored from earlier header values lie below the value being read.\<close>

definition stored_upto :: "nat \<Rightarrow> http_parser \<Rightarrow> bool" where
  "stored_upto n p \<longleftrightarrow> (\<forall>h \<in> set (headers p). hs_pos (hh_value h) \<le> n) \<and>
     transfer_encoding p \<le> n"

definition hd_inv :: "nat \<Rightarrow> http_parser \<Rightarrow> bool" where
  "hd_inv k p \<longleftrightarrow> (let s = stateM p in
     SM_HEADER \<le> s \<and> s \<le> SM_HEADER_LF \<and> stored_upto k p \<and>
     (s = SM_HEADER_NAME \<longrightarrow> name_pos p \<le> k) \<and>
     (s \<ge> SM_HEADER_SP1 \<longrightarrow> name_pos p = 0 \<or> within k (hh_name (header p)) \<or> value_pos p = 0 \<and> s \<ge> SM_HEADER_CR) \<and>
     (s = SM_HEADER_VALUE \<longrightarrow> value_pos p \<le> k) \<and>
     (s = SM_HEADER_VALUE \<or> s \<ge> SM_HEADER_SP3 \<longrightarrow> value_pos p = 0 \<or> stored_upto (value_pos p) p) \<and>
     (s \<ge> SM_HEADER_SP3 \<longrightarrow> value_pos p = 0 \<or> within k (hh_value (header p))))"

text \<open>The results that the accessors read.\<close>

definition strings_upto :: "nat \<Rightarrow> http_parser \<Rightarrow> bool" where
  "strings_upto n p \<longleftrightarrow>
     (if request p = HTTP_PARSER_REQUEST then within n (req_method p) \<and> within n (req_uri p)
      else within n (reply_reason p))"

definition line_inv :: "http_parser \<Rightarrow> bool" where
  "line_inv p \<longleftrightarrow>
     (if stateM p < SM_HEADER then
        (if request p = HTTP_PARSER_REQUEST then rq_inv (length (raw p)) p
         else st_inv (length (raw p)) p)
      else strings_upto (length (raw p)) p \<and>
        (if stateM p < SM_BODY then hd_inv (length (raw p)) p
         else raw_header_offset p \<le> length (raw p)))"

definition offsets_ok :: "http_parser \<Rightarrow> bool" where
  "offsets_ok p \<longleftrightarrow> stored_upto (length (raw p)) p \<and> content_encoding p \<le> length (raw p) \<and>
     cookie p \<le> length (raw p) \<and> location p \<le> length (raw p) \<and>
     (\<forall>h \<in> set (headers p). within (length (raw p)) (hh_name h) \<and> within (length (raw p)) (hh_value h))"

text \<open>The value of \<^verbatim>\<open>Transfer-Encoding\<close> is terminated inside the buffer.\<close>

definition te_closed :: "http_parser \<Rightarrow> bool" where
  "te_closed p \<longleftrightarrow> transfer_encoding p = 0 \<or> NUL \<in> set (drop (transfer_encoding p) (raw p))"

definition buffers_ok :: "http_parser \<Rightarrow> bool" where
  "buffers_ok p \<longleftrightarrow> (raw p = [] \<or> length (raw p) < raw_capacity p) \<and>
     length (headers p) \<le> header_capacity p"

definition rest_ok :: "http_parser \<Rightarrow> bool" where
  "rest_ok p \<longleftrightarrow> buffers_ok p \<and> offsets_ok p \<and> te_closed p"

definition hp_inv :: "http_parser \<Rightarrow> bool" where
  "hp_inv p \<longleftrightarrow> rest_ok p \<and> line_inv p"

section \<open>The scanners keep it\<close>

lemma rq_inv_state: "rq_inv k p \<Longrightarrow> stateM p \<in> {0, 1, 2, 3, 4, 5, 6, 7, 8}"
proof -
  assume "rq_inv k p"
  then have "stateM p \<le> 8" by (simp add: rq_inv_def Let_def)
  then show ?thesis by simp arith
qed

lemma rq_inv_Next:
  assumes "rq_inv k p" and "rq_step c k p = Next q"
  shows "rq_inv (k + 1) q"
  using rq_inv_state [OF assms(1)] assms
  by (elim insertE emptyE)
    (simp_all add: rq_inv_def rq_step_def within_def Let_def split: if_splits, auto)

lemma rq_inv_Back:
  assumes "rq_inv k p" and "rq_step c k p = Back q"
  shows "rq_inv k q"
  using rq_inv_state [OF assms(1)] assms
  by (elim insertE emptyE)
    (simp_all add: rq_inv_def rq_step_def rq_put_def rq_get_def header_setters within_def Let_def
      split: if_splits, auto)

lemma st_inv_state: "st_inv k p \<Longrightarrow> stateM p \<in> {0, 1, 2, 3, 4, 5, 6, 7, 8}"
proof -
  assume "st_inv k p"
  then have "stateM p \<le> 8" by (simp add: st_inv_def Let_def)
  then show ?thesis by simp arith
qed

lemma st_inv_Next:
  assumes "st_inv k p" and "st_step c k p = Next q"
  shows "st_inv (k + 1) q"
  using st_inv_state [OF assms(1)] assms
  by (elim insertE emptyE)
    (simp_all add: st_inv_def st_step_def within_def Let_def split: if_splits, auto)

lemma st_inv_Back:
  assumes "st_inv k p" and "st_step c k p = Back q"
  shows "st_inv k q"
  using st_inv_state [OF assms(1)] assms
  by (elim insertE emptyE)
    (simp_all add: st_inv_def st_step_def st_put_def st_get_def header_setters within_def Let_def
      split: if_splits, auto)

lemma stored_upto_mono: "stored_upto k p \<Longrightarrow> k \<le> n \<Longrightarrow> stored_upto n p"
  by (auto simp: stored_upto_def)

lemma stored_upto_frame [simp]:
  "stored_upto k (p\<lparr>stateM := s\<rparr>) = stored_upto k p"
  "stored_upto k (p\<lparr>header := h\<rparr>) = stored_upto k p"
  by (simp_all add: stored_upto_def)

lemma hd_inv_state: "hd_inv k p \<Longrightarrow> stateM p \<in> {100, 101, 102, 103, 104, 105, 106, 107, 108}"
proof -
  assume "hd_inv k p"
  then have "100 \<le> stateM p \<and> stateM p \<le> 108" by (simp add: hd_inv_def Let_def)
  then show ?thesis by simp arith
qed

lemma hd_inv_Next:
  assumes "hd_inv k p" and "hd_step c k p = Next q"
  shows "hd_inv (k + 1) q"
  using hd_inv_state [OF assms(1)] assms stored_upto_mono [of k p "k + 1"]
  by (elim insertE emptyE)
    (simp_all add: hd_inv_def hd_step_def header_setters within_def Let_def split: if_splits, auto)

lemma hd_inv_Back:
  assumes "hd_inv k p" and "hd_step c k p = Back q"
  shows "hd_inv k q"
  using hd_inv_state [OF assms(1)] assms
  by (elim insertE emptyE)
    (simp_all add: hd_inv_def hd_step_def hd_put_def hd_get_def header_setters within_def Let_def split: if_splits, auto)

section \<open>Buffer operations keep it\<close>

lemma raw_poke_eq_Inr:
  "raw_poke i c p = Inr q \<longleftrightarrow>
     (i < length (raw p) \<or> i = length (raw p) \<and> c = NUL) \<and> q = p\<lparr>raw := (raw p)[i := c]\<rparr>"
  by (auto simp: raw_poke_def and_then_eq_Inr)

lemma safe_raw_poke [simp]:
  "safe (raw_poke i c p) \<longleftrightarrow> i < length (raw p) \<or> i = length (raw p) \<and> c = NUL"
  by (auto simp: raw_poke_def safe_def and_then_eq_Inl in_bounds_def split: if_splits)

lemma http_rawdata_result:
  assumes "http_rawdata E p data = Inr (q, 0)"
  obtains c where "q = p\<lparr>raw := raw p @ data, raw_capacity := c\<rparr>" and "length (raw p @ data) < c"
proof -
  have "q = p\<lparr>raw := raw p @ data, raw_capacity := raw_capacity q\<rparr> \<and> length (raw p @ data) < raw_capacity q"
    using assms
    by (cases p)
      (auto simp: http_rawdata_def raw_append_def and_then_eq_Inr Let_def split: if_splits)
  then show ?thesis using that by blast
qed

lemma safe_http_rawdata [simp]: "safe (http_rawdata E p data)"
  by (simp add: http_rawdata_def raw_append_def c_assert_def Let_def)

definition frame_of where
  "frame_of p = (raw p, headers p, header_capacity p, transfer_encoding p, content_encoding p,
     cookie p, location p, request p)"

lemma rest_ok_cong:
  "frame_of q = frame_of p \<Longrightarrow> raw_capacity q = raw_capacity p \<Longrightarrow> rest_ok q = rest_ok p"
  by (simp add: rest_ok_def buffers_ok_def offsets_ok_def te_closed_def stored_upto_def frame_of_def)

lemma within_mono: "within m s \<Longrightarrow> m \<le> n \<Longrightarrow> within n s"
  by (simp add: within_def)

lemma rest_ok_append:
  assumes "rest_ok p" and "length (raw p @ data) < c"
  shows "rest_ok (p\<lparr>raw := raw p @ data, raw_capacity := c\<rparr>)"
proof -
  have "offsets_ok (p\<lparr>raw := raw p @ data, raw_capacity := c\<rparr>)"
    using assms(1) by (fastforce simp: rest_ok_def offsets_ok_def stored_upto_def within_def)
  then show ?thesis using assms by (auto simp: rest_ok_def buffers_ok_def te_closed_def)
qed

lemma NUL_stays: "NUL \<in> set (drop n xs) \<Longrightarrow> NUL \<in> set (drop n (xs[i := NUL]))"
  by (cases "n \<le> i"; cases "i < length xs")
    (auto simp: drop_update_swap list_update_beyond set_update_memI)

lemma rest_ok_NUL: "rest_ok p \<Longrightarrow> rest_ok (p\<lparr>raw := (raw p)[i := NUL]\<rparr>)"
  by (auto simp: rest_ok_def buffers_ok_def offsets_ok_def te_closed_def stored_upto_def NUL_stays)

section \<open>Line parsers that keep an invariant\<close>

locale safe_line = line_parser step scan rank fin ext
  for step :: "char \<Rightarrow> nat \<Rightarrow> http_parser \<Rightarrow> http_parser move"
    and scan :: "string \<Rightarrow> scan_state \<Rightarrow> (scan_state, char) scan_result"
    and rank :: "char \<Rightarrow> http_parser \<Rightarrow> nat"
    and fin :: "http_env \<Rightarrow> http_parser \<Rightarrow> nat \<Rightarrow> (http_parser \<times> int) exec"
    and ext :: nat +
  fixes I :: "nat \<Rightarrow> http_parser \<Rightarrow> bool"
  assumes I_Next: "I k p \<Longrightarrow> step b k p = Next q \<Longrightarrow> I (k + 1) q"
    and I_Back: "I k p \<Longrightarrow> step b k p = Back q \<Longrightarrow> I k q"
    and I_buffer: "I k (p\<lparr>raw := x, raw_capacity := c\<rparr>) = I k p"
    and I_hp: "I (length (raw p)) p \<Longrightarrow> rest_ok p \<Longrightarrow> hp_inv p"
    and frame: "step b k p = Next q \<or> step b k p = Back q \<Longrightarrow> frame_of q = frame_of p"
    and ext: "ext \<le> 1"
    and fin_safe: "I k p \<Longrightarrow> step b k p = Stop \<Longrightarrow> rest_ok p \<Longrightarrow> length (raw p) = k + ext
      \<Longrightarrow> safe (fin E p i)"
    and fin_inv: "I k p \<Longrightarrow> step b k p = Stop \<Longrightarrow> rest_ok p \<Longrightarrow> length (raw p) = k + ext
      \<Longrightarrow> fin E p i = Inr (q, r) \<Longrightarrow> 0 \<le> r \<Longrightarrow> hp_inv q"
begin

lemma scan_inv:
  assumes "scan cs (k, p) = Inr ((k', q), ex)" and "I k p" and "rest_ok p"
  shows "I k' q \<and> rest_ok q"
proof -
  have "I k' q" using assms(1,2) I_Next I_Back by (rule scan_invariant)
  moreover have "frame_of q = frame_of p"
    using scan_invariant [OF assms(1), of "\<lambda>_ q. frame_of q = frame_of p"] frame by metis
  ultimately show ?thesis using assms(3) rest_ok_cong scan_keeps_buffer [OF assms(1)] by blast
qed

lemma line_cases:
  assumes "I (length (raw p)) p" and "rest_ok p"
  shows "safe (line_parse scan fin ext E p data)"
    and "line_parse scan fin ext E p data = Inr (q, r) \<Longrightarrow> 0 \<le> r \<Longrightarrow> hp_inv q"
proof -
  let ?m = "line_parse scan fin ext E p data"
  have "safe ?m \<and> (\<forall>q r. ?m = Inr (q, r) \<longrightarrow> 0 \<le> r \<longrightarrow> hp_inv q)"
  proof (cases "scan data (length (raw p), p)")
    case (Inl e)
    then show ?thesis using scan_safe [of data "length (raw p)" p] by (simp add: line_parse_def)
  next
    case (Inr y)
    obtain k p1 ex where y: "y = ((k, p1), ex)" by (metis surj_pair)
    have sc: "scan data (length (raw p), p) = Inr ((k, p1), ex)" using Inr y by simp
    note inv = scan_inv [OF sc assms]
    have raw: "raw p1 = raw p" using scan_keeps_buffer [OF sc] by simp
    define d where "d = take (case ex of None \<Rightarrow> k - length (raw p) | Some _ \<Rightarrow> k - length (raw p) + ext) data"
    show ?thesis
    proof (cases "\<exists>q. http_rawdata E p1 d = Inr (q, 0)")
      case False
      then have "safe ?m \<and> (\<forall>q r. ?m = Inr (q, r) \<longrightarrow> r < 0)"
        using safe_http_rawdata [of E p1 d]
        by (cases "http_rawdata E p1 d") (auto simp: line_parse_def sc Let_def d_def simp del: safe_http_rawdata)
      then show ?thesis by fastforce
    next
      case True
      then obtain c where q: "http_rawdata E p1 d = Inr (p1\<lparr>raw := raw p @ d, raw_capacity := c\<rparr>, 0)"
          and c: "length (raw p1 @ d) < c"
        using http_rawdata_result [of E p1 d] raw by metis
      let ?q = "p1\<lparr>raw := raw p @ d, raw_capacity := c\<rparr>"
      have ok: "I k ?q" "rest_ok ?q"
        using inv rest_ok_append [OF _ c] by (simp_all add: I_buffer raw)
      show ?thesis
      proof (cases ex)
        case None
        then have "length (raw ?q) = k" using scan_None [of data "length (raw p)" p k p1] sc by (simp add: d_def)
        then have "hp_inv ?q" using ok I_hp [of ?q] by simp
        then show ?thesis using None sc q by (simp add: line_parse_def d_def Let_def)
      next
        case (Some rest)
        then obtain read where rd: "data = read @ rest" "k = length (raw p) + length read" "rest \<noteq> []"
            and stop: "step (hd rest) k p1 = Stop"
          using scan_Some [of data "length (raw p)" p k p1 rest] sc by auto
        have len: "length (raw ?q) = k + ext" using rd ext Some by (cases rest) (auto simp: d_def)
        have stop': "step (hd rest) k ?q = Stop"
          using stop step_raw [where b = "hd rest" and k = k and p = p1 and x = "raw p @ d"]
            step_upd [where b = "hd rest" and k = k and c = c and d = "delivered p1"
              and p = "p1\<lparr>raw := raw p @ d\<rparr>"]
          by (simp add: upd_def)
        have "?m = fin E ?q (k - length (raw p))"
          using Some sc q by (simp add: line_parse_def d_def Let_def)
        then show ?thesis using fin_safe [OF ok(1) stop' ok(2) len] fin_inv [OF ok(1) stop' ok(2) len] by auto
      qed
    qed
  qed
  then show "safe ?m" "?m = Inr (q, r) \<Longrightarrow> 0 \<le> r \<Longrightarrow> hp_inv q" by auto
qed

end

section \<open>The checks at the end of a line\<close>

definition ok :: "http_parser \<Rightarrow> bool" where
  "ok p \<longleftrightarrow> rest_ok p \<and> strings_upto (length (raw p)) p"

lemma okD: "ok p \<Longrightarrow> rest_ok p" "ok p \<Longrightarrow> strings_upto (length (raw p)) p"
  by (simp_all add: ok_def)

lemma ok_NUL: "ok p \<Longrightarrow> ok (p\<lparr>raw := (raw p)[i := NUL]\<rparr>)"
  by (simp add: ok_def rest_ok_NUL strings_upto_def)

lemma ok_frame [simp]:
  "ok (p\<lparr>stateM := s\<rparr>) = ok p" "ok (p\<lparr>reply_code := r\<rparr>) = ok p"
  "ok (p\<lparr>raw_header_offset := n\<rparr>) = ok p" "ok (p\<lparr>content_length := l\<rparr>) = ok p"
  "ok (p\<lparr>connection_close := l\<rparr>) = ok p"
  "ok (p\<lparr>protocol := a, verminor := b, vermajor := c\<rparr>) = ok p"
  by (simp_all add: ok_def rest_ok_def buffers_ok_def offsets_ok_def te_closed_def stored_upto_def
      strings_upto_def)

lemma hp_inv_header_start: "ok p \<Longrightarrow> hp_inv (p\<lparr>stateM := SM_HEADER\<rparr>)"
  using ok_frame(1) [where p = p and s = SM_HEADER]
  by (auto simp: ok_def hp_inv_def line_inv_def hd_inv_def rest_ok_def offsets_ok_def)

lemma hp_inv_body_start:
  "ok p \<Longrightarrow> hp_inv (p\<lparr>raw_header_offset := length (raw p), stateM := SM_BODY\<rparr>)"
  by (simp add: ok_def hp_inv_def line_inv_def rest_ok_def buffers_ok_def offsets_ok_def
      te_closed_def stored_upto_def strings_upto_def)

lemma version_ok_frame:
  assumes "version_ok p = (q, b)"
  shows "q = p\<lparr>protocol := protocol q, verminor := verminor q, vermajor := vermajor q\<rparr>"
  using assms by (cases p) (auto simp: version_ok_def Let_def split: if_splits option.splits)

lemma rq_finish_ok:
  assumes "ok p" and "within (length (raw p)) (req_method p)" and "within (length (raw p)) (req_uri p)"
  shows "safe (rq_finish p i)" and "rq_finish p i = Inr (q, r) \<Longrightarrow> 0 \<le> r \<Longrightarrow> hp_inv q"
proof -
  obtain v b where v: "version_ok p = (v, b)" by fastforce
  obtain x y z where v': "v = p\<lparr>protocol := x, verminor := y, vermajor := z\<rparr>"
    using version_ok_frame [OF v] by blast
  have vok: "ok v" using assms(1) by (simp add: v')
  show "safe (rq_finish p i)"
    using assms by (auto simp: rq_finish_def v v' within_def raw_poke_eq_Inr intro!: safe_and_then)
  assume "rq_finish p i = Inr (q, r)" "0 \<le> r"
  then show "hp_inv q"
    using ok_NUL [OF ok_NUL [OF vok]] ok_NUL [OF vok]
    by (auto simp: rq_finish_def v v' raw_poke_eq_Inr and_then_eq_Inr hp_inv_header_start
        split: if_splits)
qed

lemma st_finish_ok:
  assumes "ok p" and "within (length (raw p)) (reply_reason p)"
    and "within (length (raw p)) (hh_value (header p))"
  shows "safe (st_finish p i)" and "st_finish p i = Inr (q, r) \<Longrightarrow> 0 \<le> r \<Longrightarrow> hp_inv q"
proof -
  obtain v b where v: "version_ok p = (v, b)" by fastforce
  obtain x y z where v': "v = p\<lparr>protocol := x, verminor := y, vermajor := z\<rparr>"
    using version_ok_frame [OF v] by blast
  have vok: "ok v" using assms(1) by (simp add: v')
  show "safe (st_finish p i)"
    using assms by (auto simp: st_finish_def v v' within_def raw_poke_eq_Inr intro!: safe_and_then)
  assume "st_finish p i = Inr (q, r)" "0 \<le> r"
  then show "hp_inv q"
    using ok_NUL [OF ok_NUL [OF vok]] ok_NUL [OF vok]
    by (auto simp: st_finish_def v v' raw_poke_eq_Inr and_then_eq_Inr hp_inv_header_start)
qed


lemma strncaseeq_length: "strncaseeq ''chunked'' s 7 \<Longrightarrow> 7 \<le> length s"
  using map_eq_imp_length_eq [of to_lower "take 7 ''chunked''" to_lower "take 7 s"]
  by (simp add: strncaseeq_def strcaseeq_def)

lemma cstr_at_length: "length (cstr_at p n) \<le> length (raw p) - n"
  unfolding cstr_at_def by (metis length_drop length_takeWhile_le)

lemma ok_te:
  assumes "ok p" and "v \<le> length (raw p)" and "NUL \<in> set (drop v (raw p))"
  shows "ok (p\<lparr>transfer_encoding := v\<rparr>)"
  using assms
  by (simp add: ok_def rest_ok_def buffers_ok_def offsets_ok_def te_closed_def stored_upto_def
      strings_upto_def)

lemma ok_offsets:
  assumes "ok p" and "v \<le> length (raw p)"
  shows "ok (p\<lparr>content_encoding := v\<rparr>)" "ok (p\<lparr>cookie := v\<rparr>)" "ok (p\<lparr>location := v\<rparr>)"
  using assms
  by (simp_all add: ok_def rest_ok_def buffers_ok_def offsets_ok_def te_closed_def stored_upto_def
      strings_upto_def)

lemma header_handler_ok:
  assumes "ok p" and "v \<le> length (raw p)" and "NUL \<in> set (drop v (raw p))"
  shows "safe (http_header_handler E p n v)"
    and "http_header_handler E p n v = Inr q \<Longrightarrow> ok q"
proof -
  have len: "strncaseeq ''chunked'' (cstr_at p v) 7 \<Longrightarrow> v + 7 \<le> length (raw p)"
    using strncaseeq_length [of "cstr_at p v"] cstr_at_length [of p v] assms(2) by linarith
  show "safe (http_header_handler E p n v)"
    using len
    by (auto simp: http_header_handler_def Let_def intro!: safe_and_then)
  assume "http_header_handler E p n v = Inr q"
  then show "ok q"
    using assms(1) ok_te [OF assms] ok_NUL [OF ok_te [OF assms], of "v + 7"] ok_offsets [OF assms(1,2)]
    by (auto simp: http_header_handler_def Let_def and_then_eq_Inr raw_poke_eq_Inr split: if_splits)
qed

lemma header_add_ok:
  assumes "ok p" and "hs_pos (hh_name h) + hs_len (hh_name h) < length (raw p)"
    and "hs_pos (hh_value h) + hs_len (hh_value h) < length (raw p)"
  shows "safe (http_header_add E p h)"
    and "http_header_add E p h = Inr (q, 0) \<Longrightarrow> ok q \<and> header q = header p \<and>
      hs_pos (hh_value h) \<le> length (raw q) \<and> NUL \<in> set (drop (hs_pos (hh_value h)) (raw q))"
proof -
  have cap: "length (headers p) \<le> header_capacity p"
    using assms(1) by (simp add: ok_def rest_ok_def buffers_ok_def)
  show "safe (http_header_add E p h)"
    using assms(2,3) cap
    by (auto simp: http_header_add_def Let_def raw_poke_eq_Inr intro!: safe_and_then)
  assume "http_header_add E p h = Inr (q, 0)"
  then have q: "q = p\<lparr>header_capacity := header_capacity q,
      raw := (raw p)[hs_pos (hh_name h) + hs_len (hh_name h) := NUL,
                     hs_pos (hh_value h) + hs_len (hh_value h) := NUL], headers := headers p @ [h]\<rparr>"
    and c: "length (headers p) < header_capacity q"
    using cap
    by (auto simp: http_header_add_def Let_def and_then_eq_Inr raw_poke_eq_Inr split: if_splits)
  have "ok (p\<lparr>header_capacity := header_capacity q, headers := headers p @ [h]\<rparr>)"
    using assms c
    by (simp add: ok_def rest_ok_def buffers_ok_def offsets_ok_def te_closed_def stored_upto_def
        strings_upto_def within_def cong: if_cong)
  from ok_NUL [OF ok_NUL [OF this]] have "ok q" by (subst q) (cases p, simp)
  moreover have "NUL \<in> set (drop (hs_pos (hh_value h)) (raw q))"
    using assms(3) by (subst q) (simp add: drop_update_swap set_update_memI)
  moreover have "header q = header p" "length (raw q) = length (raw p)"
    by (subst q, simp)+
  ultimately show "ok q \<and> header q = header p \<and>
      hs_pos (hh_value h) \<le> length (raw q) \<and> NUL \<in> set (drop (hs_pos (hh_value h)) (raw q))"
    using assms(3) by simp
qed

lemma raw_fill_ok:
  assumes "j + n \<le> length (raw p)"
  shows "\<exists>x. raw_fill j n p = Inr (p\<lparr>raw := x\<rparr>) \<and> length x = length (raw p)"
  using assms
proof (induction n arbitrary: j p)
  case (Suc n)
  have "raw_poke j SPC p = Inr (p\<lparr>raw := (raw p)[j := SPC]\<rparr>)"
    using Suc.prems by (simp add: raw_poke_eq_Inr)
  then show ?case using Suc.IH [of "j + 1" "p\<lparr>raw := (raw p)[j := SPC]\<rparr>"] Suc.prems by auto
next
  case 0
  have "p = p\<lparr>raw := raw p\<rparr>" by simp
  then show ?case by (metis raw_fill.simps(1))
qed

lemma fold_header_ok:
  assumes "ok p" and "headers p \<noteq> []" and st: "stored_upto (value_pos p) p"
    and len: "value_pos p + value_len p < length (raw p)"
  shows "safe (http_fold_header E p)" and "http_fold_header E p = Inr q \<Longrightarrow> ok q"
proof -
  let ?h = "last (headers p)"
  let ?v = "hs_pos (hh_value ?h)"
  let ?e = "value_pos p + value_len p"
  define h' where "h' = ?h\<lparr>hh_value := (hh_value ?h)\<lparr>hs_len := value_pos p - ?v + value_len p\<rparr>\<rparr>"
  have h: "?h \<in> set (headers p)" using assms(2) by simp
  then have v: "?v \<le> value_pos p" using st by (simp add: stored_upto_def)
  have hl: "hs_len (hh_value ?h) \<le> length (raw p)"
    using h okD(1) [OF assms(1)] by (auto simp: rest_ok_def offsets_ok_def within_def)
  then obtain x where fill: "raw_fill (hs_len (hh_value ?h)) (value_pos p - hs_len (hh_value ?h)) p
        = Inr (p\<lparr>raw := x\<rparr>)" and x: "length x = length (raw p)"
    using raw_fill_ok [of "hs_len (hh_value ?h)" "value_pos p - hs_len (hh_value ?h)" p] len by fastforce
  define q1 where "q1 = p\<lparr>headers := butlast (headers p) @ [h'], raw := x[?e := NUL]\<rparr>"
  have "http_fold_header E p = http_header_handler E q1 (hs_pos (hh_name h')) (hs_pos (hh_value h'))"
    using v len x
    by (simp add: http_fold_header_def fill Let_def h'_def q1_def raw_poke_def)
  moreover have NUL: "NUL \<in> set (drop n (raw q1))" if "n \<le> ?e" for n
    using that len x by (simp add: q1_def drop_update_swap set_update_memI)
  moreover have "ok q1"
  proof -
    have "transfer_encoding p \<le> ?e" using st by (simp add: stored_upto_def)
    then have te: "te_closed q1" using NUL by (simp add: te_closed_def) (simp add: q1_def)
    have "\<forall>g \<in> set (headers q1). within (length (raw q1)) (hh_name g) \<and> within (length (raw q1)) (hh_value g)"
      using assms(1) h v len x
      by (auto simp: ok_def rest_ok_def offsets_ok_def q1_def h'_def within_def dest: in_set_butlastD)
    moreover from this have "\<forall>g \<in> set (headers q1). hs_pos (hh_value g) \<le> length (raw q1)"
      by (auto simp: within_def)
    moreover have "x \<noteq> []" "raw p \<noteq> []" using len x by auto
    ultimately show ?thesis
      using assms(1,2) te x
      by (simp add: ok_def rest_ok_def buffers_ok_def offsets_ok_def stored_upto_def strings_upto_def q1_def)
  qed
  moreover have "hs_pos (hh_value h') \<le> length (raw q1)" "hs_pos (hh_value h') \<le> ?e"
    using v len x by (simp_all add: h'_def q1_def)
  ultimately show "safe (http_fold_header E p)" "http_fold_header E p = Inr q \<Longrightarrow> ok q"
    using header_handler_ok [of q1] by simp_all
qed

lemma hd_finish_ok:
  assumes "ok p" and "hd_inv k p" and "stateM p = SM_HEADER_LF" and "length (raw p) = k + 1"
  shows "safe (hd_finish E p i)" and "hd_finish E p i = Inr (q, r) \<Longrightarrow> 0 \<le> r \<Longrightarrow> hp_inv q"
proof -
  have "safe (hd_finish E p i) \<and> (\<forall>q r. hd_finish E p i = Inr (q, r) \<longrightarrow> 0 \<le> r \<longrightarrow> hp_inv q)"
  proof (cases "value_pos p = 0")
    case True
    then show ?thesis using hp_inv_body_start [OF assms(1)] by (simp add: hd_finish_def)
  next
    case val: False
    then have st: "stored_upto (value_pos p) p" and len: "value_pos p + value_len p < length (raw p)"
      and nlen: "name_pos p \<noteq> 0 \<Longrightarrow> name_pos p + name_len p < length (raw p)"
      using assms(2-4) by (auto simp: hd_inv_def within_def)
    show ?thesis
    proof (cases "name_pos p = 0")
      case True
      then show ?thesis
        using val fold_header_ok [OF assms(1) _ st len]
        by (auto simp: hd_finish_def and_then_eq_Inr hp_inv_header_start intro!: safe_and_then)
    next
      case False
      have add: "safe (http_header_add E p (header p))" using header_add_ok(1) [OF assms(1)] nlen False len by simp
      have "safe (http_header_handler E u (name_pos u) (value_pos u)) \<and>
          (\<forall>q. http_header_handler E u (name_pos u) (value_pos u) = Inr q \<longrightarrow> ok q)"
        if "http_header_add E p (header p) = Inr (u, 0)" for u
        using header_add_ok(2) [OF assms(1) _ len that] nlen False header_handler_ok [of u "value_pos u"] by auto
      then show ?thesis
        using val False add
        by (auto simp: hd_finish_def and_then_eq_Inr hp_inv_header_start intro!: safe_and_then split: if_splits)
    qed
  qed
  then show "safe (hd_finish E p i)" "hd_finish E p i = Inr (q, r) \<Longrightarrow> 0 \<le> r \<Longrightarrow> hp_inv q" by auto
qed

section \<open>The three line parsers\<close>

lemma rq_inv_buffer [simp]: "rq_inv k (p\<lparr>raw := x, raw_capacity := c\<rparr>) = rq_inv k p"
  by (simp add: rq_inv_def)

lemma st_inv_buffer [simp]: "st_inv k (p\<lparr>raw := x, raw_capacity := c\<rparr>) = st_inv k p"
  by (simp add: st_inv_def)

lemma hd_inv_buffer [simp]: "hd_inv k (p\<lparr>raw := x, raw_capacity := c\<rparr>) = hd_inv k p"
  by (simp add: hd_inv_def stored_upto_def)

lemma strings_upto_buffer [simp]:
  "strings_upto k (p\<lparr>raw := x, raw_capacity := c\<rparr>) = strings_upto k p"
  by (simp add: strings_upto_def)

lemma rq_step_frame: "rq_step b k p = Next q \<or> rq_step b k p = Back q \<Longrightarrow> frame_of q = frame_of p"
  by (auto simp: rq_step_def rq_put_def frame_of_def header_setters Let_def split: if_splits)

lemma st_step_frame: "st_step b k p = Next q \<or> st_step b k p = Back q \<Longrightarrow> frame_of q = frame_of p"
  by (auto simp: st_step_def st_put_def frame_of_def header_setters Let_def split: if_splits)

lemma hd_frame [simp]:
  "frame_of (hd_put k x p) = frame_of p" "strings_upto n (hd_put k x p) = strings_upto n p"
  "frame_of (p\<lparr>stateM := s\<rparr>) = frame_of p" "strings_upto n (p\<lparr>stateM := s\<rparr>) = strings_upto n p"
  "frame_of (set_name_pos x p) = frame_of p" "strings_upto n (set_name_pos x p) = strings_upto n p"
  "frame_of (set_value_pos x p) = frame_of p" "strings_upto n (set_value_pos x p) = strings_upto n p"
  by (simp_all add: hd_put_def frame_of_def strings_upto_def header_setters)

lemma hd_step_frame: "hd_step b k p = Next q \<or> hd_step b k p = Back q \<Longrightarrow>
    frame_of q = frame_of p \<and> strings_upto n q = strings_upto n p"
  by (auto simp: hd_step_def Let_def split: if_splits)

lemma rq_step_Stop: "rq_step b k p = Stop \<Longrightarrow> stateM p = SM_REQUEST_LF"
  by (auto simp: rq_step_def Let_def split: if_splits)

lemma st_step_Stop: "st_step b k p = Stop \<Longrightarrow> stateM p = SM_STATUS_LF"
  by (auto simp: st_step_def Let_def split: if_splits)

lemma hd_step_Stop: "hd_step b k p = Stop \<Longrightarrow> stateM p = SM_HEADER_LF"
  by (auto simp: hd_step_def Let_def split: if_splits)

lemma strings_upto_mono: "strings_upto k p \<Longrightarrow> k \<le> n \<Longrightarrow> strings_upto n p"
  by (auto simp: strings_upto_def within_def)

interpretation rqs: safe_line rq_step rq_scan rq_rank "\<lambda>E. rq_finish" 0
  "\<lambda>k p. rq_inv k p \<and> request p = HTTP_PARSER_REQUEST"
proof unfold_locales
  fix b k p q E i r
  assume I: "rq_inv k p \<and> request p = HTTP_PARSER_REQUEST"
  show "rq_step b k p = Next q \<Longrightarrow> rq_inv (k + 1) q \<and> request q = HTTP_PARSER_REQUEST"
    using I rq_inv_Next rq_step_frame [of b k p q] by (auto simp: frame_of_def)
  show "rq_step b k p = Back q \<Longrightarrow> rq_inv k q \<and> request q = HTTP_PARSER_REQUEST"
    using I rq_inv_Back rq_step_frame [of b k p q] by (auto simp: frame_of_def)
  assume S: "rq_step b k p = Stop" and R: "rest_ok p" "length (raw p) = k + 0"
  then have "ok p \<and> within (length (raw p)) (req_method p) \<and> within (length (raw p)) (req_uri p)"
    using I rq_step_Stop [OF S] by (simp add: ok_def strings_upto_def rq_inv_def)
  then show "safe (rq_finish p i)" "rq_finish p i = Inr (q, r) \<Longrightarrow> 0 \<le> r \<Longrightarrow> hp_inv q"
    using rq_finish_ok by auto
next
  fix p
  assume "rq_inv (length (raw p)) p \<and> request p = HTTP_PARSER_REQUEST" "rest_ok p"
  then show "hp_inv p" by (auto simp: hp_inv_def line_inv_def rq_inv_def Let_def)
qed (auto intro: rq_step_frame)

interpretation sts: safe_line st_step st_scan st_rank "\<lambda>E. st_finish" 0
  "\<lambda>k p. st_inv k p \<and> request p \<noteq> HTTP_PARSER_REQUEST"
proof unfold_locales
  fix b k p q E i r
  assume I: "st_inv k p \<and> request p \<noteq> HTTP_PARSER_REQUEST"
  show "st_step b k p = Next q \<Longrightarrow> st_inv (k + 1) q \<and> request q \<noteq> HTTP_PARSER_REQUEST"
    using I st_inv_Next st_step_frame [of b k p q] by (auto simp: frame_of_def)
  show "st_step b k p = Back q \<Longrightarrow> st_inv k q \<and> request q \<noteq> HTTP_PARSER_REQUEST"
    using I st_inv_Back st_step_frame [of b k p q] by (auto simp: frame_of_def)
  assume S: "st_step b k p = Stop" and R: "rest_ok p" "length (raw p) = k + 0"
  then have "ok p \<and> within (length (raw p)) (reply_reason p) \<and> within (length (raw p)) (hh_value (header p))"
    using I st_step_Stop [OF S] by (simp add: ok_def strings_upto_def st_inv_def)
  then show "safe (st_finish p i)" "st_finish p i = Inr (q, r) \<Longrightarrow> 0 \<le> r \<Longrightarrow> hp_inv q"
    using st_finish_ok by auto
next
  fix p
  assume "st_inv (length (raw p)) p \<and> request p \<noteq> HTTP_PARSER_REQUEST" "rest_ok p"
  then show "hp_inv p" by (auto simp: hp_inv_def line_inv_def st_inv_def Let_def)
qed (auto intro: st_step_frame)

interpretation hds: safe_line hd_step hd_scan hd_rank hd_finish 1
  "\<lambda>k p. hd_inv k p \<and> strings_upto k p"
proof unfold_locales
  fix b k p q E i r
  assume I: "hd_inv k p \<and> strings_upto k p"
  show "hd_step b k p = Next q \<Longrightarrow> hd_inv (k + 1) q \<and> strings_upto (k + 1) q"
    using I hd_inv_Next hd_step_frame [of b k p q] strings_upto_mono [of k q] by auto
  show "hd_step b k p = Back q \<Longrightarrow> hd_inv k q \<and> strings_upto k q"
    using I hd_inv_Back hd_step_frame [of b k p q] by auto
  assume S: "hd_step b k p = Stop" and R: "rest_ok p" "length (raw p) = k + 1"
  then have "ok p" using I strings_upto_mono [of k p "k + 1"] by (simp add: ok_def)
  then show "safe (hd_finish E p i)" "hd_finish E p i = Inr (q, r) \<Longrightarrow> 0 \<le> r \<Longrightarrow> hp_inv q"
    using hd_finish_ok I R hd_step_Stop [OF S] by auto
next
  fix p
  assume "hd_inv (length (raw p)) p \<and> strings_upto (length (raw p)) p" "rest_ok p"
  then show "hp_inv p" by (auto simp: hp_inv_def line_inv_def hd_inv_def Let_def)
qed (auto dest!: hd_step_frame)

section \<open>The body decoders\<close>

definition body_frame where
  "body_frame p = (frame_of p, raw_capacity p, raw_header_offset p, req_method p, req_uri p, reply_reason p)"

lemma hp_inv_body_cong:
  assumes "SM_BODY \<le> stateM p" and "SM_BODY \<le> stateM q" and "body_frame q = body_frame p"
  shows "hp_inv q = hp_inv p"
proof -
  have "rest_ok q = rest_ok p" using assms(3) by (intro rest_ok_cong) (simp_all add: body_frame_def)
  moreover have "line_inv q = line_inv p"
    using assms by (simp add: line_inv_def body_frame_def frame_of_def strings_upto_def)
  ultimately show ?thesis by (simp add: hp_inv_def)
qed

lemma hp_inv_append:
  assumes "hp_inv p" and "SM_BODY \<le> stateM p" and "length (raw p @ data) < c"
  shows "hp_inv (p\<lparr>raw := raw p @ data, raw_capacity := c\<rparr>)"
  using assms rest_ok_append [OF _ assms(3)] strings_upto_mono [of "length (raw p)" p "length (raw p @ data)"]
  by (simp add: hp_inv_def line_inv_def)

lemma http_body_inv:
  assumes "http_body E p data = Inr q" and "hp_inv p" and "SM_BODY \<le> stateM p"
  shows "hp_inv q"
proof (cases "has_callback p")
  case True
  then have "body_frame q = body_frame p" "stateM q = stateM p"
    using assms(1) by (auto simp: http_body_def body_frame_def frame_of_def)
  then show ?thesis using assms hp_inv_body_cong [of p q] by simp
next
  case False
  then obtain q0 where q0: "http_rawdata E p data = Inr (q0, 0)"
      and q: "q = q0\<lparr>raw_body_length := raw_body_length q0 + int (length data)\<rparr>"
    using assms(1) by (auto simp: http_body_def and_then_eq_Inr Let_def)
  then have "hp_inv q0"
    using http_rawdata_result [OF q0] hp_inv_append [OF assms(2,3)] by metis
  moreover have "stateM q0 = stateM p" using http_body_keeps(1) [OF assms(1)] by (simp add: q)
  ultimately show ?thesis using hp_inv_body_cong [of q0 q] assms(3) by (simp add: q body_frame_def frame_of_def)
qed

lemma safe_http_body [simp]: "safe (http_body E p data)"
  by (auto simp: http_body_def Let_def intro!: safe_and_then)

lemma ck_byte_frame:
  assumes "ck_byte b p = Inr q" and "SM_BODY \<le> stateM p"
  shows "SM_BODY \<le> stateM q \<and> body_frame q = body_frame p"
  using assms
  by (auto simp: ck_byte_def Let_def and_then_eq_Inr body_frame_def frame_of_def split: if_splits option.splits)

lemma ck_data_inv:
  assumes "ck_data E p data n = Inr q" and "hp_inv p" and "SM_BODY \<le> stateM p"
  shows "hp_inv q \<and> SM_BODY \<le> stateM q"
proof -
  obtain x where x: "(if n > 0 then http_body E p (take n data) else Inr p) = Inr x"
    and q: "q = (let r = x\<lparr>chunk_loaded := chunk_loaded x + n\<rparr> in
             if chunk_loaded r = chunk_len r then r\<lparr>stateM := CHUNK_DATA_CR\<rparr> else r)"
    using assms(1) by (auto simp: ck_data_def and_then_eq_Inr Let_def split: if_splits)
  have "hp_inv x \<and> stateM x = stateM p"
    using x assms(2,3) http_body_inv http_body_keeps(1) by (auto split: if_splits)
  then show ?thesis
    using assms(3) hp_inv_body_cong [of x q] by (simp add: q Let_def body_frame_def frame_of_def)
qed

lemma ck_scan_safe_inv:
  assumes "hp_inv p" and "SM_BODY \<le> stateM p"
  shows "safe (ck_scan E i cs p) \<and>
    (\<forall>q ex. ck_scan E i cs p = Inr (q, ex) \<longrightarrow> hp_inv q \<and> SM_BODY \<le> stateM q)"
  using assms
proof (induction E i cs p rule: ck_scan.induct)
  case (1 E i p)
  then show ?case by (simp add: ck_scan.simps)
next
  case (2 E i c cs p)
  have data: "safe (ck_data E p d n)" for d n
    by (auto simp: ck_data_def Let_def intro!: safe_and_then)
  have byte: "safe (ck_byte c p)"
    by (simp add: ck_byte_def Let_def c_assert_def split: option.split)
  consider "stateM p = SM_DONE" | "stateM p = CHUNK_DATA" | "stateM p \<noteq> SM_DONE" "stateM p \<noteq> CHUNK_DATA"
    by blast
  then show ?case
  proof cases
    case 1
    then show ?thesis using 2 by (simp add: ck_scan.simps)
  next
    case st: 2
    let ?n = "ck_take p i (length (c # cs))"
    have "ck_scan E i (c # cs) p = and_then (ck_data E p (c # cs) ?n) (ck_scan E (i + ?n) (drop ?n (c # cs)))"
      using st by (simp add: ck_scan.simps Let_def)
    moreover have "safe (ck_scan E (i + ?n) (drop ?n (c # cs)) q) \<and>
        (\<forall>q' ex. ck_scan E (i + ?n) (drop ?n (c # cs)) q = Inr (q', ex) \<longrightarrow> hp_inv q' \<and> SM_BODY \<le> stateM q')"
      if "ck_data E p (c # cs) ?n = Inr q" for q
      using "2.IH"(1) [OF _ st refl that] ck_data_inv [OF that] 2 st by simp
    ultimately show ?thesis
      using data by (auto simp: and_then_eq_Inr intro!: safe_and_then)
  next
    case st: 3
    then have "ck_scan E i (c # cs) p = and_then (ck_byte c p) (ck_scan E (i + 1) cs)"
      by (simp add: ck_scan.simps)
    moreover have "safe (ck_scan E (i + 1) cs q) \<and>
        (\<forall>q' ex. ck_scan E (i + 1) cs q = Inr (q', ex) \<longrightarrow> hp_inv q' \<and> SM_BODY \<le> stateM q')"
      if "ck_byte c p = Inr q" for q
      using "2.IH"(2) [OF st that] ck_byte_frame [OF that] hp_inv_body_cong [of p q] 2 by simp
    ultimately show ?thesis
      using byte by (auto simp: and_then_eq_Inr intro!: safe_and_then)
  qed
qed

section \<open>The entry point\<close>

lemma start_line_safe_inv:
  assumes "hp_inv p"
  shows "safe (http_start_line E p data)"
    and "http_start_line E p data = Inr (q, r) \<Longrightarrow> 0 \<le> r \<Longrightarrow> hp_inv q"
proof -
  consider "stateM p < SM_HEADER" "request p = HTTP_PARSER_REQUEST"
    | "stateM p < SM_HEADER" "request p \<noteq> HTTP_PARSER_REQUEST" | "\<not> stateM p < SM_HEADER" by blast
  then have "safe (http_start_line E p data) \<and>
     (\<forall>q r. http_start_line E p data = Inr (q, r) \<longrightarrow> 0 \<le> r \<longrightarrow> hp_inv q)"
  proof cases
    case 1
    then show ?thesis
      using assms rqs.line_cases [of p E data]
      by (auto simp: http_start_line_def request_line_parse hp_inv_def line_inv_def)
  next
    case 2
    then show ?thesis
      using assms sts.line_cases [of p E data]
      by (auto simp: http_start_line_def status_line_parse hp_inv_def line_inv_def)
  next
    case 3
    then show ?thesis using assms by (simp add: http_start_line_def)
  qed
  then show "safe (http_start_line E p data)"
    "http_start_line E p data = Inr (q, r) \<Longrightarrow> 0 \<le> r \<Longrightarrow> hp_inv q" by auto
qed

lemma header_lines_safe_inv:
  assumes "hp_inv p"
  shows "safe (http_header_lines E p r0 data) \<and>
    (\<forall>q r rest. http_header_lines E p r0 data = Inr (q, r, rest) \<longrightarrow> 0 \<le> r \<longrightarrow> hp_inv q)"
  using assms
proof (induction E p r0 data rule: http_header_lines.induct)
  case (1 E p r0 data)
  show ?case
  proof (cases "data \<noteq> [] \<and> SM_HEADER \<le> stateM p \<and> stateM p < SM_BODY")
    case True
    then have pre: "hd_inv (length (raw p)) p \<and> strings_upto (length (raw p)) p" "rest_ok p"
      using 1 by (simp_all add: hp_inv_def line_inv_def)
    have eq: "http_header_lines E p r0 data = and_then (http_parse_header_line E p data) (\<lambda>(q, r).
          if r < 0 then Inr (q, r, data) else http_header_lines E q r (drop (nat r) data))"
      using True by (simp add: http_header_lines.simps [of E p r0 data])
    have "safe (http_parse_header_line E p data)"
      using hds.line_cases(1) [OF pre] by (simp add: header_line_parse)
    moreover have "safe (http_header_lines E q r (drop (nat r) data)) \<and>
        (\<forall>q' r' rest. http_header_lines E q r (drop (nat r) data) = Inr (q', r', rest) \<longrightarrow> 0 \<le> r' \<longrightarrow> hp_inv q')"
      if "http_parse_header_line E p data = Inr (q, r)" "\<not> r < 0" for q r
      using "1.IH" [OF True that(1) refl that(2)] hds.line_cases(2) [OF pre] that
      by (simp add: header_line_parse)
    ultimately show ?thesis
      unfolding eq by (auto simp: and_then_eq_Inr intro!: safe_and_then split: if_splits)
  next
    case False
    have "http_header_lines E p r0 data = Inr (p, r0, data)"
      by (subst http_header_lines.simps) (simp only: False if_False)
    then show ?thesis using 1(2) by simp
  qed
qed

lemma input_body_safe_inv:
  assumes "hp_inv p"
  shows "safe (http_input_body E p r data n) \<and>
    (\<forall>q r' rest. http_input_body E p r data n = Inr (q, r', rest) \<longrightarrow> hp_inv q)"
proof (cases "SM_BODY \<le> stateM p \<and> stateM p < SM_DONE")
  case True
  note ck = ck_scan_safe_inv [OF assms, of E 0 data]
  have upd: "hp_inv q \<Longrightarrow> SM_BODY \<le> stateM q \<Longrightarrow> hp_inv (q\<lparr>stateM := SM_DONE\<rparr>)" for q
    using hp_inv_body_cong [of q "q\<lparr>stateM := SM_DONE\<rparr>"] by (simp add: body_frame_def frame_of_def)
  have body: "hp_inv q \<and> SM_BODY \<le> stateM q" if "http_body E p d = Inr q" for q d
    using http_body_inv [OF that assms] http_body_keeps(1) [OF that] True by simp
  have upd': "hp_inv (p\<lparr>content_length := 0, stateM := SM_DONE\<rparr>)"
    using hp_inv_body_cong [of p "p\<lparr>content_length := 0, stateM := SM_DONE\<rparr>"] assms True
    by (simp add: body_frame_def frame_of_def)
  show ?thesis
  proof (cases "is_transfer_encoding_chunked p")
    case chunked: True
    then show ?thesis
      using True ck
      by (auto simp: http_input_body_def http_parse_chunked_def and_then_eq_Inr intro!: safe_and_then)
  next
    case False
    then show ?thesis
      using True upd upd' body
      by (auto simp: http_input_body_def Let_def and_then_eq_Inr intro!: safe_and_then)
  qed
next
  case False
  then show ?thesis using assms by (simp add: http_input_body_def)
qed

lemma input_safe_inv:
  assumes "hp_inv p"
  shows "safe (http_parser_input E p data) \<and>
    (\<forall>q r n. http_parser_input E p data = Inr (q, r, n) \<longrightarrow> 0 \<le> r \<longrightarrow> hp_inv q)"
proof -
  have "safe (http_input_end q d) \<and> (\<forall>q' r n. http_input_end q d = Inr (q', r, n) \<longrightarrow> q' = q)" for q d
    by (auto simp: http_input_end_def and_then_eq_Inr intro!: safe_and_then)
  note inp_end = this
  have "safe (and_then (http_input_body E q r rest n) (\<lambda>(p, r, rest).
         if r < 0 then Inr (p, r, n) else http_input_end p rest)) \<and>
      (\<forall>q' r' n'. and_then (http_input_body E q r rest n) (\<lambda>(p, r, rest).
         if r < 0 then Inr (p, r, n) else http_input_end p rest) = Inr (q', r', n') \<longrightarrow> 0 \<le> r' \<longrightarrow> hp_inv q')"
    if "hp_inv q" for q r rest n
    using input_body_safe_inv [OF that, of E r rest n] inp_end
    by (fastforce simp: and_then_eq_Inr intro!: safe_and_then split: if_splits)
  note body = this
  have "safe (and_then (http_header_lines E q r d) (\<lambda>(p, r, rest).
       if r < 0 then Inr (p, r, n) else
         and_then (http_input_body E p r rest n) (\<lambda>(p, r, rest).
         if r < 0 then Inr (p, r, n) else http_input_end p rest))) \<and>
      (\<forall>q' r' n'. and_then (http_header_lines E q r d) (\<lambda>(p, r, rest).
       if r < 0 then Inr (p, r, n) else
         and_then (http_input_body E p r rest n) (\<lambda>(p, r, rest).
         if r < 0 then Inr (p, r, n) else http_input_end p rest)) = Inr (q', r', n') \<longrightarrow> 0 \<le> r' \<longrightarrow> hp_inv q')"
    if "hp_inv q" for q r d n
    using header_lines_safe_inv [OF that, of E r d] body
    by (fastforce simp: and_then_eq_Inr intro!: safe_and_then split: if_splits)
  note headers = this
  show ?thesis
    unfolding http_parser_input_def
    using start_line_safe_inv [OF assms, of E data] headers
    by (fastforce simp: and_then_eq_Inr intro!: safe_and_then split: if_splits)
qed

section \<open>Every run of the parser\<close>

text \<open>
  How the callers drive the parser: one call per segment read from the socket, until the message
  is done or a call reports an error.
\<close>

fun http_feed :: "http_env \<Rightarrow> http_parser \<Rightarrow> string list \<Rightarrow> (http_parser \<times> int) exec" where
  "http_feed E p [] = Inr (p, INPUT_NEEDMORE)"
| "http_feed E p (d # ds) =
     and_then (http_parser_input E p d) (\<lambda>(q, r, n).
       if r \<le> 0 then Inr (q, r) else http_feed E q ds)"

lemma hp_inv_clear: "hp_inv (http_parser_clear p)"
  by (simp add: http_parser_clear_def hp_inv_def rest_ok_def buffers_ok_def offsets_ok_def te_closed_def
      stored_upto_def line_inv_def rq_inv_def st_inv_def)

lemma feed_safe: "hp_inv p \<Longrightarrow> safe (http_feed E p segs)"
proof (induction segs arbitrary: p)
  case (Cons d ds)
  then show ?case using input_safe_inv [of p E d]
    by (fastforce intro!: safe_and_then split: if_splits)
qed simp

text \<open>
  C2.  What the accessors read lies in the buffer: once the start line is parsed, the method,
  the target or the reason phrase, every stored header name and value, and the offsets of
  \<^verbatim>\<open>Content-Encoding\<close>, \<^verbatim>\<open>Transfer-Encoding\<close>, \<^verbatim>\<open>Set-Cookie\<close> and
  \<^verbatim>\<open>Location\<close> are within \<^verbatim>\<open>raw_size\<close>.  The property holds of every parser state reached
  by calls that did not report an error.
\<close>

definition accessors_in_bounds :: "http_parser \<Rightarrow> bool" where
  "accessors_in_bounds p \<longleftrightarrow> (let n = length (raw p) in
     (stateM p \<ge> SM_HEADER \<longrightarrow>
       (if request p = HTTP_PARSER_REQUEST then within n (req_method p) \<and> within n (req_uri p)
        else within n (reply_reason p))) \<and>
     (stateM p \<ge> SM_BODY \<longrightarrow> raw_header_offset p \<le> n) \<and>
     (\<forall>h \<in> set (headers p). within n (hh_name h) \<and> within n (hh_value h)) \<and>
     content_encoding p \<le> n \<and> transfer_encoding p \<le> n \<and> cookie p \<le> n \<and> location p \<le> n)"

lemma feed_inv: "hp_inv p \<Longrightarrow> http_feed E p segs = Inr (q, r) \<Longrightarrow> 0 \<le> r \<Longrightarrow> hp_inv q"
proof (induction segs arbitrary: p)
  case (Cons d ds)
  then show ?case using input_safe_inv [of p E d]
    by (fastforce simp: and_then_eq_Inr split: if_splits)
qed simp

theorem http_accessors_in_bounds:
  assumes "http_feed E (http_parser_clear p) segs = Inr (q, r)" and "0 \<le> r"
  shows "accessors_in_bounds q"
  using feed_inv [OF hp_inv_clear assms]
  by (auto simp: hp_inv_def rest_ok_def offsets_ok_def stored_upto_def line_inv_def strings_upto_def
      accessors_in_bounds_def Let_def split: if_splits)


theorem http_accessors_in_bounds_witness:
  "\<exists>q r. http_feed env0 (http_parser_clear (http_parser_zero\<lparr>request := 1\<rparr>))
      [''GET / HT'', ''TP/1.1'' @ [CR, LF] @ ''Cookie: a'' @ [CR, LF], [CR, LF]] = Inr (q, r) \<and>
    0 \<le> r \<and> accessors_in_bounds q \<and> length (headers q) = 1"
proof -
  obtain q where "http_feed env0 (http_parser_clear (http_parser_zero\<lparr>request := 1\<rparr>))
      [''GET / HT'', ''TP/1.1'' @ [CR, LF] @ ''Cookie: a'' @ [CR, LF], [CR, LF]] = Inr (q, 0)"
    and h: "length (headers q) = 1"
    by (simp add: env0_def http_eval)
  from http_accessors_in_bounds [OF this(1)] this(1) h show ?thesis by auto
qed

end
