(* ===== verification/HttpSegments.thy ===== *)
theory HttpSegments
  imports HttpSafety
begin

text \<open>
  Segment independence of \<open>http_parser_input\<close>.  Three phases make it up: the start line, the
  header loop and the body.  Each one respects \<open>sim\<close> (\<open>_sim\<close>) and can be cut (\<open>_cut\<close>).
\<close>

section \<open>Outcomes up to \<open>sim\<close>\<close>

text \<open>The phases answer a parser, the last return value \<open>r\<close> and the unread input; of \<open>r\<close> the
  rest of the code uses whether it is negative, and its value when it is.\<close>

definition same_ret :: "int \<Rightarrow> int \<Rightarrow> bool" where
  "same_ret r r' \<longleftrightarrow> r = r' \<or> (0 \<le> r \<and> 0 \<le> r')"

fun same_tail :: "int \<times> string \<Rightarrow> int \<times> string \<Rightarrow> bool" where
  "same_tail (r, x) (r', x') \<longleftrightarrow> r = r' \<and> r < 0 \<or> 0 \<le> r \<and> 0 \<le> r' \<and> x = x'"

lemma same_tail_same_ret: "same_ret r r' \<Longrightarrow> same_tail (r, x) (r', x)"
  by (auto simp: same_ret_def)

abbreviation phase_rel ::
    "(http_parser \<times> int \<times> string) exec \<Rightarrow> (http_parser \<times> int \<times> string) exec \<Rightarrow> bool" where
  "phase_rel \<equiv> rel_sum (=) (rel_prod sim same_tail)"

lemma same_ret_refl [simp]: "same_ret r r"
  by (simp add: same_ret_def)

lemma same_ret_nonneg: "0 \<le> r \<Longrightarrow> 0 \<le> r' \<Longrightarrow> same_ret r r'"
  by (simp add: same_ret_def)

lemma rel_and_then:
  assumes "rel_sum (=) R x y" and "\<And>u v. x = Inr u \<Longrightarrow> y = Inr v \<Longrightarrow> R u v \<Longrightarrow> rel_sum (=) S (f u) (g v)"
  shows "rel_sum (=) S (and_then x f) (and_then y g)"
  using assms by (cases x; cases y) auto

text \<open>Room for \<open>n\<close> more bytes.\<close>

definition fits :: "http_env \<Rightarrow> http_parser \<Rightarrow> nat \<Rightarrow> bool" where
  "fits E p n \<longleftrightarrow> roomy E \<and> buf_ok p \<and> length (raw p) + n \<le> HTTP_BODY_LENGTH_MAX"

lemma fitsD: "fits E p n \<Longrightarrow> roomy E" "fits E p n \<Longrightarrow> buf_ok p"
    "fits E p n \<Longrightarrow> length (raw p) + n \<le> HTTP_BODY_LENGTH_MAX"
  by (simp_all add: fits_def)

lemma fits_mono: "fits E p n \<Longrightarrow> m \<le> n \<Longrightarrow> fits E p m"
  by (simp add: fits_def)

section \<open>Body bytes\<close>

definition with_body :: "http_parser \<Rightarrow> string \<Rightarrow> http_parser" where
  "with_body p data = p\<lparr>raw := (if has_callback p then raw p else raw p @ data),
                        raw_body_length := raw_body_length p + int (length data)\<rparr>"

definition body_fails :: "http_parser \<Rightarrow> string \<Rightarrow> bool" where
  "body_fails p data \<longleftrightarrow> \<not> has_callback p \<and>
     \<not> (raw_body_length p + int (raw_header_offset p) \<le> int (length (raw p)) \<and>
        (content_length p = -1 \<or> raw_body_length p + int (length data) \<le> content_length p))"

lemma http_body_roomy:
  assumes "fits E p (length data)"
  shows "body_fails p data \<Longrightarrow> http_body E p data = Inl Assert_failed"
    and "\<not> body_fails p data \<Longrightarrow> \<exists>c d. http_body E p data = Inr (upd c d (with_body p data)) \<and>
           concat d = concat (delivered p) @ (if has_callback p then data else []) \<and>
           length (raw (with_body p data)) \<le> c"
proof -
  obtain c where c: "http_rawdata E p data = Inr (upd c (delivered p) (p\<lparr>raw := raw p @ data\<rparr>), 0)"
      "length (raw p @ data) \<le> c"
    using http_rawdata_roomy [OF fitsD [OF assms]] by metis
  {
    assume "body_fails p data"
    then show "http_body E p data = Inl Assert_failed"
      by (auto simp: http_body_def body_fails_def c Let_def c_assert_def)
  next
    assume ok: "\<not> body_fails p data"
    show "\<exists>c d. http_body E p data = Inr (upd c d (with_body p data)) \<and>
           concat d = concat (delivered p) @ (if has_callback p then data else []) \<and>
           length (raw (with_body p data)) \<le> c"
    proof (cases "has_callback p")
      case True
      then show ?thesis using assms
        by (intro exI [of _ "raw_capacity p"] exI [of _ "delivered p @ [data]"])
          (simp add: http_body_def with_body_def upd_def fits_def buf_ok_def)
    next
      case False
      then show ?thesis using ok c
        by (intro exI [of _ c] exI [of _ "delivered p"])
          (simp add: http_body_def with_body_def Let_def c_assert_def body_fails_def)
    qed
  }
qed

lemma with_body_upd [simp]: "with_body (upd c d p) data = upd c d (with_body p data)"
  by (simp add: with_body_def)

lemma body_fails_upd [simp]: "body_fails (upd c d p) data = body_fails p data"
  by (simp add: body_fails_def)

lemma with_body_append: "with_body (with_body p xs) ys = with_body p (xs @ ys)"
  by (simp add: with_body_def)

lemma body_fails_append:
  "body_fails p (xs @ ys) \<longleftrightarrow> body_fails p xs \<or> body_fails (with_body p xs) ys"
  by (auto simp: body_fails_def with_body_def)

lemma fits_upd: "fits E p n \<Longrightarrow> length (raw p) \<le> c \<Longrightarrow> fits E (upd c d p) n"
  by (simp add: fits_def buf_ok_def)

lemma fits_with_body: "fits E p (length xs + n) \<Longrightarrow> length (raw (with_body p xs)) \<le> c \<Longrightarrow>
    fits E (upd c d (with_body p xs)) n"
  by (auto simp: fits_def buf_ok_def with_body_def split: if_splits)

abbreviation body_rel :: "http_parser exec \<Rightarrow> http_parser exec \<Rightarrow> bool" where
  "body_rel \<equiv> rel_sum (=) sim"

lemma simI: "q = upd c d p \<Longrightarrow> concat d = concat (delivered p) \<Longrightarrow> sim p q"
  by (auto simp: sim_def)

lemma simE: "sim p q \<Longrightarrow> (\<And>c d. q = upd c d p \<Longrightarrow> concat d = concat (delivered p) \<Longrightarrow> P) \<Longrightarrow> P"
  by (auto simp: sim_def)

lemma sim_upd_upd: "concat d = concat d' \<Longrightarrow> sim (upd c d p) (upd c' d' p)"
  by (rule simI [of _ c' d']) simp_all

lemma http_body_sim:
  assumes "fits E p (length data)" and "fits E q (length data)" and "sim p q"
  shows "body_rel (http_body E p data) (http_body E q data)"
proof -
  obtain c d where q: "q = upd c d p" "concat d = concat (delivered p)"
    using assms(3) by (auto simp: sim_def)
  show ?thesis
  proof (cases "body_fails p data")
    case True
    then show ?thesis
      using http_body_roomy(1) [OF assms(1)] http_body_roomy(1) [OF assms(2)] by (simp add: q)
  next
    case False
    then show ?thesis
      using http_body_roomy(2) [OF assms(1)] http_body_roomy(2) [OF assms(2)]
      by (auto simp: q intro!: sim_upd_upd)
  qed
qed

text \<open>Body bytes that come in two calls.\<close>

lemma http_body_append:
  assumes "fits E p (length (xs @ ys))" and "http_body E p xs = Inr q"
  shows "body_rel (http_body E p (xs @ ys)) (http_body E q ys)" and "fits E q (length ys)"
proof -
  have f: "fits E p (length xs)" using assms(1) by (simp add: fits_def)
  have ok: "\<not> body_fails p xs"
    using http_body_roomy(1) [OF f] assms(2) by auto
  then obtain c d where q: "q = upd c d (with_body p xs)" "length (raw (with_body p xs)) \<le> c"
      "concat d = concat (delivered p) @ (if has_callback p then xs else [])"
    using http_body_roomy(2) [OF f] assms(2) by auto
  show fq: "fits E q (length ys)"
    unfolding q(1) using assms(1) q(2) by (intro fits_with_body) simp_all
  have cb: "has_callback (with_body p xs) = has_callback p" by (simp add: with_body_def)
  show "body_rel (http_body E p (xs @ ys)) (http_body E q ys)"
  proof (cases "body_fails p (xs @ ys)")
    case True
    then have "body_fails q ys" using ok by (simp add: q body_fails_append)
    then show ?thesis
      using True http_body_roomy(1) [OF assms(1)] http_body_roomy(1) [OF fq] by simp
  next
    case False
    then have "\<not> body_fails q ys" by (simp add: q body_fails_append)
    then show ?thesis
      using False http_body_roomy(2) [OF assms(1)] http_body_roomy(2) [OF fq]
      by (auto simp: q cb with_body_append intro!: sim_upd_upd)
  qed
qed

lemma http_body_fits:
  assumes "http_body E p xs = Inr q" and "fits E p (length xs + n)"
  shows "fits E q n"
  using http_body_append(2) [of E p xs "replicate n NUL" q] assms by simp


section \<open>Chunked bodies\<close>

lemma ck_byte_upd: "ck_byte b (upd c d p) = map_sum id (upd c d) (ck_byte b p)"
  by (simp add: ck_byte_def Let_def map_sum_and_then if_distrib [of "map_sum _ _"]
      cong: if_cong split: option.split)

lemma ck_byte_keeps:
  assumes "ck_byte b p = Inr q"
  shows "raw q = raw p" "raw_capacity q = raw_capacity p" "delivered q = delivered p"
proof -
  have "raw q = raw p \<and> raw_capacity q = raw_capacity p \<and> delivered q = delivered p"
    using assms by (auto simp: ck_byte_def Let_def and_then_eq_Inr split: if_splits option.splits)
  then show "raw q = raw p" "raw_capacity q = raw_capacity p" "delivered q = delivered p" by auto
qed

lemma ck_byte_fits: "ck_byte b p = Inr q \<Longrightarrow> fits E p (Suc n) \<Longrightarrow> fits E q n"
  by (simp add: fits_def buf_ok_def ck_byte_keeps)

lemma ck_byte_sim:
  assumes "sim p q"
  shows "body_rel (ck_byte b p) (ck_byte b q)"
proof (cases "ck_byte b p")
  case (Inr r)
  then show ?thesis
    using assms ck_byte_keeps(3) [of b p r] by (auto simp: ck_byte_upd elim!: simE intro!: sim_upd)
qed (use assms in \<open>auto simp: ck_byte_upd elim!: simE\<close>)

text \<open>What follows the delivery of the bytes.\<close>

definition ck_loaded :: "nat \<Rightarrow> http_parser \<Rightarrow> http_parser" where
  "ck_loaded n q =
     (let r = q\<lparr>chunk_loaded := chunk_loaded q + n\<rparr> in
      if chunk_loaded r = chunk_len r then r\<lparr>stateM := CHUNK_DATA_CR\<rparr> else r)"

lemma ck_loaded_upd [simp]: "ck_loaded n (upd c d p) = upd c d (ck_loaded n p)"
  by (simp add: ck_loaded_def Let_def)

lemma ck_loaded_keeps [simp]:
  "raw (ck_loaded n p) = raw p" "raw_capacity (ck_loaded n p) = raw_capacity p"
  "delivered (ck_loaded n p) = delivered p"
  by (simp_all add: ck_loaded_def Let_def)

lemma ck_data_eq:
  "ck_data E p data n =
     (if chunk_len p > 0 \<and> chunk_loaded p \<le> chunk_len p then
        if n \<le> length data then
          and_then (if n > 0 then http_body E p (take n data) else Inr p) (\<lambda>q. Inr (ck_loaded n q))
        else Inl Overrun
      else Inl Assert_failed)"
  by (simp add: ck_data_def ck_loaded_def c_assert_def Let_def if_distrib [of Inr])

lemma sim_ck_loaded: "sim p q \<Longrightarrow> sim (ck_loaded n p) (ck_loaded n q)"
  by (auto elim!: simE intro!: sim_upd)

lemma sim_sel:
  assumes "sim p q"
  shows "stateM q = stateM p" "chunk_len q = chunk_len p" "chunk_loaded q = chunk_loaded p"
    "raw q = raw p" "content_length q = content_length p" "raw_body_length q = raw_body_length p"
    "request q = request p" "protocol q = protocol p" "reply_code q = reply_code p"
    "is_transfer_encoding_chunked q = is_transfer_encoding_chunked p"
  using assms by (auto simp: sim_def)

lemma ck_data_sim:
  assumes "fits E p (length data)" and "fits E q (length data)" and "sim p q"
  shows "body_rel (ck_data E p data n) (ck_data E q data n)"
proof -
  have "body_rel (http_body E p (take n data)) (http_body E q (take n data))"
    using assms(3) fits_mono [OF assms(1)] fits_mono [OF assms(2)] by (intro http_body_sim) simp_all
  then have "body_rel (and_then (if n > 0 then http_body E p (take n data) else Inr p) (\<lambda>q. Inr (ck_loaded n q)))
      (and_then (if n > 0 then http_body E q (take n data) else Inr q) (\<lambda>q. Inr (ck_loaded n q)))"
    using assms(3) by (intro rel_and_then [where R = sim]) (auto simp: sim_ck_loaded)
  then show ?thesis by (simp add: ck_data_eq sim_sel [OF assms(3)])
qed

lemma ck_data_fits:
  assumes "ck_data E p data k = Inr q" and "fits E p (k + n)"
  shows "fits E q n"
proof -
  obtain x where x: "(if k > 0 then http_body E p (take k data) else Inr p) = Inr x"
    and q: "q = ck_loaded k x" and k: "k \<le> length data"
    using assms(1) by (auto simp: ck_data_eq and_then_eq_Inr split: if_splits)
  have "fits E x n"
    using x assms(2) k http_body_fits [of E p "take k data" x n]
    by (auto split: if_splits simp: min_absorb2)
  then show ?thesis by (simp add: q fits_def buf_ok_def)
qed

abbreviation ck_rel :: "(http_parser, char) scan_result \<Rightarrow> (http_parser, char) scan_result \<Rightarrow> bool" where
  "ck_rel \<equiv> rel_sum (=) (rel_prod sim (=))"

text \<open>How many bytes the data case takes, wherever the loop stands.\<close>

lemma ck_take_ok:
  "ck_take p i avail \<le> avail \<Longrightarrow> ck_take p i avail = min (chunk_len p - chunk_loaded p) avail"
  by (auto simp: ck_take_def Let_def split: if_splits)

lemma ck_take_earlier:
  "j \<le> i \<Longrightarrow> ck_take p i avail \<le> avail \<Longrightarrow> ck_take p j avail = ck_take p i avail"
  by (auto simp: ck_take_def Let_def split: if_splits)

lemma ck_take_sim: "sim p q \<Longrightarrow> ck_take q i avail = ck_take p i avail"
  using sim_sel(2,3) [of p q] by (simp add: ck_take_def)

lemma ck_data_take_le: "ck_data E p data n = Inr q \<Longrightarrow> n \<le> length data"
  by (rule ck_data_keeps)

lemma ck_scan_sim:
  assumes "ck_scan E i cs p \<noteq> Inl Overrun" and "j \<le> i"
    and "fits E p (length cs)" and "fits E q (length cs)" and "sim p q"
  shows "ck_rel (ck_scan E i cs p) (ck_scan E j cs q)"
  using assms
proof (induction E i cs p arbitrary: j q rule: ck_scan.induct)
  case (1 E i p)
  then show ?case by (simp add: ck_scan.simps)
next
  case (2 E i c cs p)
  note over = "2.prems"(1) and ji = "2.prems"(2) and fp = "2.prems"(3) and fq = "2.prems"(4) and pq = "2.prems"(5)
  consider "stateM p = SM_DONE" | "stateM p = CHUNK_DATA" | "stateM p \<noteq> SM_DONE" "stateM p \<noteq> CHUNK_DATA"
    by blast
  then show ?case
  proof cases
    case 1
    then show ?thesis using pq by (simp add: ck_scan.simps sim_sel [OF pq])
  next
    case data: 2
    let ?xs = "c # cs"
    define n where "n = ck_take p i (length ?xs)"
    have whole: "ck_scan E i ?xs p = and_then (ck_data E p ?xs n) (ck_scan E (i + n) (drop n ?xs))"
      using data by (simp add: ck_scan.simps Let_def n_def)
    have nq: "ck_data E q ?xs (ck_take q j (length ?xs)) = ck_data E q ?xs n \<and>
        (n \<le> length ?xs \<longrightarrow> ck_take q j (length ?xs) = n)"
    proof (cases "n \<le> length ?xs")
      case True
      then show ?thesis using ck_take_sim [OF pq] ck_take_earlier [OF ji, of p "length ?xs"] by (simp add: n_def)
    next
      case False
      then have "\<not> (chunk_len p > 0 \<and> chunk_loaded p \<le> chunk_len p)"
        using over whole by (auto simp: ck_data_eq split: if_splits)
      then show ?thesis using False by (auto simp: ck_data_eq sim_sel [OF pq])
    qed
    have "ck_rel (and_then (ck_data E p ?xs n) (ck_scan E (i + n) (drop n ?xs)))
       (and_then (ck_data E q ?xs n) (ck_scan E (j + n) (drop n ?xs)))"
    proof (rule rel_and_then [where R = sim])
      show "body_rel (ck_data E p ?xs n) (ck_data E q ?xs n)" by (rule ck_data_sim [OF fp fq pq])
      fix u v
      assume u: "ck_data E p ?xs n = Inr u" and v: "ck_data E q ?xs n = Inr v" and uv: "sim u v"
      have n: "n \<le> length ?xs" by (rule ck_data_take_le [OF u])
      show "ck_rel (ck_scan E (i + n) (drop n ?xs) u) (ck_scan E (j + n) (drop n ?xs) v)"
      proof (rule "2.IH"(1) [OF _ data n_def u _ _ _ _ uv])
        show "stateM p \<noteq> SM_DONE" using data by simp
        show "ck_scan E (i + n) (drop n ?xs) u \<noteq> Inl Overrun" using over whole u by simp
        show "j + n \<le> i + n" using ji by simp
        show "fits E u (length (drop n ?xs))" using ck_data_fits [OF u] fp n by simp
        show "fits E v (length (drop n ?xs))" using ck_data_fits [OF v] fq n by simp
      qed
    qed
    moreover have "ck_scan E j ?xs q = and_then (ck_data E q ?xs n) (ck_scan E (j + n) (drop n ?xs))"
    proof (cases "n \<le> length ?xs")
      case True
      then show ?thesis using data nq by (simp add: ck_scan.simps Let_def sim_sel [OF pq])
    next
      case False
      then have "\<not> (chunk_len q > 0 \<and> chunk_loaded q \<le> chunk_len q)"
        using over whole by (auto simp: ck_data_eq sim_sel [OF pq] split: if_splits)
      then have "ck_data E q ?xs m = Inl Assert_failed" for m by (auto simp: ck_data_eq)
      then show ?thesis using data by (simp add: ck_scan.simps Let_def sim_sel [OF pq])
    qed
    ultimately show ?thesis by (simp add: whole)
  next
    case byte: 3
    have whole: "ck_scan E i (c # cs) p = and_then (ck_byte c p) (ck_scan E (i + 1) cs)"
      using byte by (simp add: ck_scan.simps)
    have "ck_rel (and_then (ck_byte c p) (ck_scan E (i + 1) cs)) (and_then (ck_byte c q) (ck_scan E (j + 1) cs))"
    proof (rule rel_and_then [where R = sim])
      show "body_rel (ck_byte c p) (ck_byte c q)" by (rule ck_byte_sim [OF pq])
      fix u v
      assume u: "ck_byte c p = Inr u" and v: "ck_byte c q = Inr v" and uv: "sim u v"
      show "ck_rel (ck_scan E (i + 1) cs u) (ck_scan E (j + 1) cs v)"
      proof (rule "2.IH"(2) [OF byte u _ _ _ _ uv])
        show "ck_scan E (i + 1) cs u \<noteq> Inl Overrun" using over whole u by simp
        show "j + 1 \<le> i + 1" using ji by simp
        show "fits E u (length cs)" using ck_byte_fits [OF u, of E "length cs"] fp by simp
        show "fits E v (length cs)" using ck_byte_fits [OF v, of E "length cs"] fq by simp
      qed
    qed
    then show ?thesis using byte by (simp add: ck_scan.simps sim_sel [OF pq])
  qed
qed

lemma http_body_frame:
  "http_body E (p\<lparr>chunk_loaded := n\<rparr>) data = map_sum id (\<lambda>p. p\<lparr>chunk_loaded := n\<rparr>) (http_body E p data)"
  by (cases p) (simp add: http_body_def http_rawdata_def raw_append_def Let_def map_sum_and_then and_then_assoc)

lemma ck_data_take: "n \<le> length xs \<Longrightarrow> ck_data E p (xs @ ys) n = ck_data E p xs n"
  by (simp add: ck_data_eq)

lemma ck_loaded_split:
  "chunk_loaded x + k \<noteq> chunk_len x \<Longrightarrow> ck_loaded k x = x\<lparr>chunk_loaded := chunk_loaded x + k\<rparr>"
  by (simp add: ck_loaded_def Let_def)

lemma ck_loaded_add:
  assumes "sim w x" and "chunk_loaded w = l"
  shows "sim (ck_loaded (k + n) w) (ck_loaded n (x\<lparr>chunk_loaded := l + k\<rparr>))"
  using assms by (auto elim!: simE intro!: sim_upd simp: ck_loaded_def Let_def ac_simps)

lemma ck_data_same:
  assumes "ck_data E p data k = Inr q"
  shows "chunk_len q = chunk_len p" "chunk_loaded q = chunk_loaded p + k"
    "stateM q = (if chunk_loaded p + k = chunk_len p then CHUNK_DATA_CR else stateM p)"
proof -
  obtain x where x: "(if k > 0 then http_body E p (take k data) else Inr p) = Inr x"
    and q: "q = ck_loaded k x"
    using assms by (auto simp: ck_data_eq and_then_eq_Inr split: if_splits)
  have "stateM x = stateM p \<and> chunk_len x = chunk_len p \<and> chunk_loaded x = chunk_loaded p"
    using x http_body_keeps [of E p "take k data" x] by (auto split: if_splits)
  then show "chunk_len q = chunk_len p" "chunk_loaded q = chunk_loaded p + k"
    "stateM q = (if chunk_loaded p + k = chunk_len p then CHUNK_DATA_CR else stateM p)"
    by (simp_all add: q ck_loaded_def Let_def)
qed

text \<open>A chunk that is cut inside its data.\<close>

lemma ck_data_split:
  assumes fits: "fits E p (length (xs @ ys))" and first: "ck_data E p xs (length xs) = Inr q"
    and more: "chunk_loaded p + length xs < chunk_len p" "xs \<noteq> []" "0 < n" "n \<le> length ys"
  shows "body_rel (ck_data E p (xs @ ys) (length xs + n)) (ck_data E q ys n)"
proof -
  obtain x where x: "http_body E p xs = Inr x" and q: "q = ck_loaded (length xs) x"
    and ok: "chunk_len p > 0" "chunk_loaded p \<le> chunk_len p"
    using first more by (auto simp: ck_data_eq and_then_eq_Inr split: if_splits)
  note keep = http_body_keeps [OF x]
  have q': "q = x\<lparr>chunk_loaded := chunk_loaded p + length xs\<rparr>"
    using more keep by (simp add: q ck_loaded_split)
  have "fits E p (length (xs @ take n ys))" using fits by (auto simp: fits_def)
  from http_body_append(1) [OF this x]
  have "body_rel (and_then (http_body E p (xs @ take n ys)) (\<lambda>w. Inr (ck_loaded (length xs + n) w)))
     (and_then (http_body E x (take n ys))
       (\<lambda>w. Inr (ck_loaded n (w\<lparr>chunk_loaded := chunk_loaded p + length xs\<rparr>))))"
    by (rule rel_and_then) (auto intro!: ck_loaded_add dest: http_body_keeps(3))
  then show ?thesis
    using ok more keep by (simp add: ck_data_eq q' http_body_frame)
qed

lemma ck_rel_refl: "ck_rel x x"
  by (intro sum.rel_refl prod.rel_refl) simp_all

lemma ck_scan_cut:
  assumes "ck_scan E i (xs @ ys) p \<noteq> Inl Overrun" and "fits E p (length (xs @ ys))"
    and "ck_scan E i xs p = Inr (p1, None)"
  shows "ck_rel (ck_scan E i (xs @ ys) p) (ck_scan E 0 ys p1) \<and> fits E p1 (length ys)"
  using assms
proof (induction E i xs p rule: ck_scan.induct)
  case (1 E i p)
  then show ?case using ck_scan_sim [of E i ys p 0 p] by (simp add: ck_scan.simps)
next
  case (2 E i c cs p)
  note over = "2.prems"(1) and fits = "2.prems"(2) and first = "2.prems"(3)
  consider "stateM p = SM_DONE" | "stateM p = CHUNK_DATA" | "stateM p \<noteq> SM_DONE" "stateM p \<noteq> CHUNK_DATA"
    by blast
  then show ?case
  proof cases
    case 1
    then show ?thesis using first by (simp add: ck_scan.simps)
  next
    case data: 2
    let ?xs = "c # cs"
    let ?R = "chunk_len p - chunk_loaded p"
    define n where "n = ck_take p i (length ?xs)"
    define N where "N = ck_take p i (length (?xs @ ys))"
    obtain q where q: "ck_data E p ?xs n = Inr q" "ck_scan E (i + n) (drop n ?xs) q = Inr (p1, None)"
      using first data by (auto simp: ck_scan.simps Let_def and_then_eq_Inr n_def)
    have n: "n \<le> length ?xs" by (rule ck_data_take_le [OF q(1)])
    have n_min: "n = min ?R (length ?xs)" using ck_take_ok [of p i "length ?xs"] n by (simp add: n_def)
    have whole: "ck_scan E i (?xs @ ys) p = and_then (ck_data E p (?xs @ ys) N) (ck_scan E (i + N) (drop N (?xs @ ys)))"
      using data by (simp add: ck_scan.simps Let_def N_def)
    show ?thesis
    proof (cases "?R \<le> length ?xs")
      case True
      then have nN: "n = ?R" "N = n" using n_min by (auto simp: N_def ck_take_def Let_def)
      have D: "drop n (?xs @ ys) = drop n ?xs @ ys" using drop_append [of n ?xs ys] n by simp
      have w: "ck_scan E i (?xs @ ys) p = ck_scan E (i + n) (drop n ?xs @ ys) q"
        using whole q(1) n ck_data_take [OF n, of E p ys] D by (simp add: nN(2))
      have f: "fits E q (length (drop n ?xs @ ys))"
        using ck_data_fits [OF q(1), of "length (drop n ?xs @ ys)"] fits n by simp
      have o: "ck_scan E (i + n) (drop n ?xs @ ys) q \<noteq> Inl Overrun" using over w by simp
      show ?thesis using "2.IH"(1) [OF _ data n_def q(1) o f q(2)] data w by simp
    next
      case False
      then have nl: "n = length ?xs" using n_min by simp
      have p1: "p1 = q" using q(2) nl by (simp add: ck_scan.simps)
      have qd: "ck_data E p ?xs (length ?xs) = Inr q" using q(1) nl by simp
      have q': "stateM q = CHUNK_DATA" "chunk_len q = chunk_len p"
          "chunk_loaded q = chunk_loaded p + length ?xs"
        using ck_data_same [OF qd] False data by simp_all
      have f: "fits E q (length ys)" using ck_data_fits [OF qd, of "length ys"] fits by simp
      have "chunk_len p > 0 \<and> chunk_loaded p \<le> chunk_len p"
        using qd by (auto simp: ck_data_eq split: if_splits)
      then have Nle: "N \<le> length (?xs @ ys)"
        using over whole by (auto simp: ck_data_eq split: if_splits)
      show ?thesis
      proof (cases "ys = []")
        case True
        then have "N = n" by (simp add: N_def n_def)
        then show ?thesis using whole q True f by (simp add: p1 ck_scan.simps nl)
      next
        case ys: False
        define n2 where "n2 = min (?R - length ?xs) (length ys)"
        have N: "N = length ?xs + n2"
          using ck_take_ok [of p i "length (?xs @ ys)"] Nle False by (simp add: N_def n2_def)
        have n2: "0 < n2" "n2 \<le> length ys" using False ys by (auto simp: n2_def)
        have second: "ck_take q 0 (length ys) = n2"
          using Nle q' by (auto simp: N_def n2_def ck_take_def Let_def split: if_splits)
        have "ck_rel (and_then (ck_data E p (?xs @ ys) N) (ck_scan E (i + N) (drop n2 ys)))
            (and_then (ck_data E q ys n2) (ck_scan E (0 + n2) (drop n2 ys)))"
        proof (rule rel_and_then [where R = sim])
          show "body_rel (ck_data E p (?xs @ ys) N) (ck_data E q ys n2)"
            using False n2 ck_data_split [OF fits qd, of n2] by (simp add: N)
          fix u v
          assume u: "ck_data E p (?xs @ ys) N = Inr u" and v: "ck_data E q ys n2 = Inr v" and uv: "sim u v"
          show "ck_rel (ck_scan E (i + N) (drop n2 ys) u) (ck_scan E (0 + n2) (drop n2 ys) v)"
          proof (rule ck_scan_sim [OF _ _ _ _ uv])
            show "ck_scan E (i + N) (drop n2 ys) u \<noteq> Inl Overrun" using over whole u by (simp add: N)
            show "0 + n2 \<le> i + N" by (simp add: N)
            show "fits E u (length (drop n2 ys))" using ck_data_fits [OF u] fits n2 by (simp add: N)
            show "fits E v (length (drop n2 ys))" using ck_data_fits [OF v] f n2 by simp
          qed
        qed
        moreover have "drop N (?xs @ ys) = drop n2 ys" by (simp add: N)
        moreover have "ck_scan E 0 ys q = and_then (ck_data E q ys n2) (ck_scan E (0 + n2) (drop n2 ys))"
          using q'(1) second ys by (cases ys) (simp_all add: ck_scan.simps Let_def)
        ultimately show ?thesis using f whole by (simp add: p1)
      qed
    qed
  next
    case byte: 3
    then obtain q where q: "ck_byte c p = Inr q" "ck_scan E (i + 1) cs q = Inr (p1, None)"
      using first by (auto simp: ck_scan.simps and_then_eq_Inr)
    have f: "fits E q (length (cs @ ys))" using ck_byte_fits [OF q(1)] fits by simp
    have w: "ck_scan E i ((c # cs) @ ys) p = ck_scan E (i + 1) (cs @ ys) q"
      using byte q(1) by (simp add: ck_scan.simps)
    have o: "ck_scan E (i + 1) (cs @ ys) q \<noteq> Inl Overrun" using over w by simp
    from "2.IH"(2) [OF byte q(1) o f q(2)] show ?thesis using w by simp
  qed
qed

section \<open>Lines\<close>

abbreviation ret_rel :: "(http_parser \<times> int) exec \<Rightarrow> (http_parser \<times> int) exec \<Rightarrow> bool" where
  "ret_rel \<equiv> rel_sum (=) (rel_prod sim (=))"

locale line_phase = line_parser step scan rank fin ext
  for step :: "char \<Rightarrow> nat \<Rightarrow> http_parser \<Rightarrow> http_parser move"
    and scan :: "string \<Rightarrow> scan_state \<Rightarrow> (scan_state, char) scan_result"
    and rank :: "char \<Rightarrow> http_parser \<Rightarrow> nat"
    and fin :: "http_env \<Rightarrow> http_parser \<Rightarrow> nat \<Rightarrow> (http_parser \<times> int) exec"
    and ext :: nat +
  fixes low :: nat and high :: nat
  assumes ext_le: "ext \<le> 1"
    and step_state: "low \<le> stateM p \<and> stateM p < high \<Longrightarrow>
      step b k p = Next q \<or> step b k p = Back q \<Longrightarrow> low \<le> stateM q \<and> stateM q < high"
    and step_request: "step b k p = Next q \<or> step b k p = Back q \<Longrightarrow> request q = request p"
    and fin_ret: "fin E p i = Inr (q, r) \<Longrightarrow> 0 \<le> r \<Longrightarrow> r = int (i + 1)"
    and fin_buffer: "fin E p i = Inr (q, r) \<Longrightarrow>
      length (raw q) = length (raw p) \<and> raw_capacity q = raw_capacity p"
begin

lemma line_sim:
  assumes fits: "fits E p (length data)" "fits E q (length data)" and "sim p q"
  shows "ret_rel (line_parse scan fin ext E p data) (line_parse scan fin ext E q data)"
proof -
  obtain c d where q: "q = upd c d p" and d: "concat d = concat (delivered p)"
    using assms(3) by (rule simE)
  have frame: "scan data (length (raw q), q) =
      map_sum id (\<lambda>((k, q), r). ((k, upd c d q), r)) (scan data (length (raw p), p))"
    using scan_frame [of "upd c d" data "length (raw p)" p] step_upd by (simp add: q)
  show ?thesis
  proof (cases "scan data (length (raw p), p)")
    case (Inl e)
    then show ?thesis using frame by (simp add: line_parse_def)
  next
    case (Inr y)
    obtain k p1 ex where y: "y = ((k, p1), ex)" by (metis surj_pair)
    have sc: "scan data (length (raw p), p) = Inr ((k, p1), ex)" using Inr y by simp
    have p1: "raw p1 = raw p" "raw_capacity p1 = raw_capacity p" "delivered p1 = delivered p"
      using scan_keeps_buffer [OF sc] by simp_all
    define m where "m = take (case ex of None \<Rightarrow> k - length (raw p) | Some _ \<Rightarrow> k - length (raw p) + ext) data"
    have m: "length m \<le> length data" by (simp add: m_def)
    obtain cp where rp: "http_rawdata E p1 m = Inr (upd cp (delivered p) (p1\<lparr>raw := raw p @ m\<rparr>), 0)"
      using http_rawdata_roomy [of E p1 m] fits(1) m by (auto simp: fits_def buf_ok_def p1)
    obtain cq where rq: "http_rawdata E (upd c d p1) m = Inr (upd cq d (p1\<lparr>raw := raw p @ m\<rparr>), 0)"
      using http_rawdata_roomy [of E "upd c d p1" m] fits(2) m by (auto simp: fits_def buf_ok_def p1 q)
    show ?thesis
    proof (cases ex)
      case None
      then show ?thesis using frame sc rp rq d
        by (auto simp: line_parse_def q m_def Let_def intro!: sim_upd_upd)
    next
      case (Some rest)
      let ?r = "fin E (p1\<lparr>raw := raw p @ m\<rparr>) (k - length (raw p))"
      have "line_parse scan fin ext E p data = upd_r cp (delivered p) ?r"
        and "line_parse scan fin ext E q data = upd_r cq d ?r"
        using Some frame sc rp rq by (simp_all add: line_parse_def q m_def Let_def fin_upd)
      then show ?thesis using d by (cases ?r) (auto intro!: sim_upd_upd)
    qed
  qed
qed

lemma line_fits:
  assumes "line_parse scan fin ext E p data = Inr (q, r)" and "0 \<le> r" and f: "fits E p (length data + n)"
  shows "nat r \<le> length data \<and> fits E q (length data - nat r + n)"
proof -
  obtain k p1 ex where sc: "scan data (length (raw p), p) = Inr ((k, p1), ex)"
    using assms(1) by (auto simp: line_parse_def and_then_eq_Inr)
  have p1: "raw p1 = raw p" "raw_capacity p1 = raw_capacity p"
    using scan_keeps_buffer [OF sc] by simp_all
  define i where "i = k - length (raw p)"
  have i: "i + (case ex of None \<Rightarrow> 0 | Some _ \<Rightarrow> 1) \<le> length data"
    using scan_None [of data "length (raw p)" p k p1] scan_Some [of data "length (raw p)" p k p1] sc
    by (cases ex) (auto simp: i_def Suc_le_eq)
  define m where "m = take (case ex of None \<Rightarrow> i | Some _ \<Rightarrow> i + ext) data"
  have ml: "length m \<le> length data" by (simp add: m_def)
  obtain c where rd: "http_rawdata E p1 m = Inr (upd c (delivered p1) (p1\<lparr>raw := raw p @ m\<rparr>), 0)"
      and c: "length (raw p @ m) \<le> c"
    using http_rawdata_roomy [of E p1 m] f ml by (auto simp: fits_def buf_ok_def p1)
  let ?q = "upd c (delivered p1) (p1\<lparr>raw := raw p @ m\<rparr>)"
  have eq: "line_parse scan fin ext E p data = (case ex of None \<Rightarrow> Inr (?q, int i) | Some _ \<Rightarrow> fin E ?q i)"
    using sc rd by (cases ex) (simp_all add: line_parse_def i_def m_def Let_def)
  have q: "length (raw q) = length (raw p) + length m" "length (raw p @ m) \<le> raw_capacity q"
    using eq assms(1) fin_buffer [of E ?q i q r] c by (auto split: option.splits)
  have r: "r = (case ex of None \<Rightarrow> int i | Some _ \<Rightarrow> int (i + 1))"
    using eq assms(1,2) fin_ret [of E ?q i q r] by (auto split: option.splits)
  have "length m \<le> nat r" "nat r \<le> length data"
    using i r ext_le by (auto simp: m_def split: option.splits)
  then have "length (raw p) + length m + (length data - nat r + n) \<le> length (raw p) + (length data + n)"
    by arith
  also have "\<dots> \<le> HTTP_BODY_LENGTH_MAX" using f by (simp add: fits_def)
  finally show ?thesis using q f \<open>nat r \<le> length data\<close>
    unfolding fits_def buf_ok_def q(1) by simp
qed

lemma line_phase_cut:
  assumes first: "line_parse scan fin ext E p a = Inr (p1, r1)" and "0 \<le> r1"
    and f: "fits E p (length (a @ b))" and st: "low \<le> stateM p \<and> stateM p < high"
  shows "(r1 = int (length a) \<and> low \<le> stateM p1 \<and> stateM p1 < high \<and> request p1 = request p \<and>
      fits E p1 (length b) \<and>
      cut_rel (length a) (line_parse scan fin ext E p (a @ b)) (line_parse scan fin ext E p1 b)) \<or>
    (line_parse scan fin ext E p (a @ b) = Inr (p1, r1) \<and> nat r1 \<le> length a \<and>
      fits E p1 (length a - nat r1 + length b) \<and> (\<exists>q i. fin E q i = Inr (p1, r1)))"
proof -
  obtain k q ex where sc: "scan a (length (raw p), p) = Inr ((k, q), ex)"
    using first by (auto simp: line_parse_def and_then_eq_Inr)
  show ?thesis
  proof (cases ex)
    case None
    have room: "roomy E" "buf_ok p" "length (raw p) + length a + length b \<le> HTTP_BODY_LENGTH_MAX"
      using f by (simp_all add: fits_def)
    obtain p' where p': "line_parse scan fin ext E p a = Inr (p', int (length a))" "buf_ok p'"
        "raw p' = raw p @ a" "\<exists>c d. p' = upd c d (q\<lparr>raw := raw p @ a\<rparr>)"
        "cut_rel (length a) (line_parse scan fin ext E p (a @ b)) (line_parse scan fin ext E p' b)"
      using line_cut [OF room] sc None by metis
    have "(low \<le> stateM q \<and> stateM q < high) \<and> request q = request p"
    proof (rule scan_invariant [OF sc, where
          I = "\<lambda>_ q. (low \<le> stateM q \<and> stateM q < high) \<and> request q = request p"])
      show "(low \<le> stateM p \<and> stateM p < high) \<and> request p = request p" using st by simp
    next
      fix b k and p' q' :: http_parser
      assume I: "(low \<le> stateM p' \<and> stateM p' < high) \<and> request p' = request p"
      show "step b k p' = Next q' \<Longrightarrow> (low \<le> stateM q' \<and> stateM q' < high) \<and> request q' = request p"
        using I step_state [of p' b k q'] step_request [of b k p' q'] by simp
      show "step b k p' = Back q' \<Longrightarrow> (low \<le> stateM q' \<and> stateM q' < high) \<and> request q' = request p"
        using I step_state [of p' b k q'] step_request [of b k p' q'] by simp
    qed
    then show ?thesis using p' first f by (auto simp: fits_def)
  next
    case (Some rest)
    have "line_parse scan fin ext E p (a @ b) = Inr (p1, r1)"
      using line_whole [of a p k q rest E b] sc Some ext_le first by simp
    moreover have "\<exists>q i. fin E q i = Inr (p1, r1)"
      using first sc Some assms(2) by (auto simp: line_parse_def and_then_eq_Inr Let_def split: if_splits)
    moreover have "nat r1 \<le> length a \<and> fits E p1 (length a - nat r1 + length b)"
    proof -
      have "fits E p (length a + length b)" using f by simp
      from line_fits [OF first assms(2) this] show ?thesis .
    qed
    ultimately show ?thesis by blast
  qed
qed

end

lemma raw_poke_keeps: "raw_poke i c p = Inr q \<Longrightarrow> length (raw q) = length (raw p) \<and> raw_capacity q = raw_capacity p"
  by (auto simp: raw_poke_eq_Inr)

lemma raw_fill_keeps: "raw_fill j n p = Inr q \<Longrightarrow> length (raw q) = length (raw p) \<and> raw_capacity q = raw_capacity p"
  by (induction n arbitrary: j p) (auto simp: and_then_eq_Inr raw_poke_eq_Inr)

lemma header_handler_keeps:
  "http_header_handler E p n v = Inr q \<Longrightarrow> length (raw q) = length (raw p) \<and> raw_capacity q = raw_capacity p"
  by (auto simp: http_header_handler_def Let_def and_then_eq_Inr raw_poke_eq_Inr split: if_splits)

lemma header_add_keeps:
  "http_header_add E p h = Inr (q, e) \<Longrightarrow> length (raw q) = length (raw p) \<and> raw_capacity q = raw_capacity p"
  by (auto simp: http_header_add_def Let_def and_then_eq_Inr raw_poke_eq_Inr split: if_splits)

lemma fold_header_keeps:
  "http_fold_header E p = Inr q \<Longrightarrow> length (raw q) = length (raw p) \<and> raw_capacity q = raw_capacity p"
  by (auto simp: http_fold_header_def Let_def and_then_eq_Inr
      dest!: raw_poke_keeps raw_fill_keeps header_handler_keeps)

lemma version_ok_keeps: "version_ok p = (q, b) \<Longrightarrow> raw q = raw p \<and> raw_capacity q = raw_capacity p"
  by (auto simp: version_ok_def Let_def split: if_splits option.splits)

lemma rq_finish_keeps: "rq_finish p i = Inr (q, r) \<Longrightarrow>
    length (raw q) = length (raw p) \<and> raw_capacity q = raw_capacity p \<and> (0 \<le> r \<longrightarrow> r = int (i + 1) \<and> stateM q = SM_HEADER)"
  by (auto simp: rq_finish_def and_then_eq_Inr raw_poke_eq_Inr dest!: version_ok_keeps split: if_splits prod.splits)

lemma st_finish_keeps: "st_finish p i = Inr (q, r) \<Longrightarrow>
    length (raw q) = length (raw p) \<and> raw_capacity q = raw_capacity p \<and> (0 \<le> r \<longrightarrow> r = int (i + 1) \<and> stateM q = SM_HEADER)"
  by (auto simp: st_finish_def and_then_eq_Inr raw_poke_eq_Inr dest!: version_ok_keeps split: prod.splits)

lemma hd_finish_keeps: "hd_finish E p i = Inr (q, r) \<Longrightarrow>
    length (raw q) = length (raw p) \<and> raw_capacity q = raw_capacity p \<and>
    (0 \<le> r \<longrightarrow> r = int (i + 1) \<and> (stateM q = SM_HEADER \<or> stateM q = SM_BODY))"
proof -
  assume fin: "hd_finish E p i = Inr (q, r)"
  consider (stop) "value_pos p = 0" | (fold) "value_pos p \<noteq> 0" "name_pos p = 0" | (add) "value_pos p \<noteq> 0" "name_pos p \<noteq> 0"
    by blast
  then show ?thesis
  proof cases
    case stop
    then show ?thesis using fin by (auto simp: hd_finish_def)
  next
    case fold
    then obtain u where "http_fold_header E p = Inr u" "q = u\<lparr>stateM := SM_HEADER\<rparr>" "r = int (i + 1)"
      using fin by (auto simp: hd_finish_def and_then_eq_Inr)
    then show ?thesis using fold_header_keeps [of E p u] by simp
  next
    case add
    then obtain u e where u: "http_header_add E p (header p) = Inr (u, e)"
      and q: "(e \<noteq> 0 \<and> q = u \<and> r = -1) \<or> (\<exists>v. http_header_handler E u (name_pos u) (value_pos u) = Inr v
              \<and> q = v\<lparr>stateM := SM_HEADER\<rparr> \<and> r = int (i + 1))"
      using fin by (auto simp: hd_finish_def and_then_eq_Inr split: if_splits)
    from q show ?thesis
      using header_add_keeps [OF u] header_handler_keeps [of E u "name_pos u" "value_pos u"] by auto
  qed
qed

lemma rq_step_state: "stateM p < SM_HEADER \<Longrightarrow> rq_step b k p = Next q \<or> rq_step b k p = Back q \<Longrightarrow>
    stateM q < SM_HEADER"
  by (auto simp: rq_step_def Let_def split: if_splits)

lemma st_step_state: "stateM p < SM_HEADER \<Longrightarrow> st_step b k p = Next q \<or> st_step b k p = Back q \<Longrightarrow>
    stateM q < SM_HEADER"
  by (auto simp: st_step_def Let_def split: if_splits)

lemma hd_step_state: "SM_HEADER \<le> stateM p \<and> stateM p < SM_BODY \<Longrightarrow>
    hd_step b k p = Next q \<or> hd_step b k p = Back q \<Longrightarrow> SM_HEADER \<le> stateM q \<and> stateM q < SM_BODY"
  by (auto simp: hd_step_def Let_def split: if_splits)

lemma step_request:
  "rq_step b k p = Next q \<or> rq_step b k p = Back q \<Longrightarrow> request q = request p"
  "st_step b k p = Next q \<or> st_step b k p = Back q \<Longrightarrow> request q = request p"
  "hd_step b k p = Next q \<or> hd_step b k p = Back q \<Longrightarrow> request q = request p"
  using rq_step_frame [of b k p q] st_step_frame [of b k p q] hd_step_frame [of b k p q]
  by (simp_all add: frame_of_def)

interpretation rqp: line_phase rq_step rq_scan rq_rank "\<lambda>E. rq_finish" 0 SM_START_LINE SM_HEADER
proof (unfold_locales, goal_cases)
  case (2 p b k q)
  then show ?case using rq_step_state [of p b k q] by simp
next
  case (3 b k p q)
  then show ?case by (rule step_request(1))
next
  case (4 E p i q r)
  then show ?case using rq_finish_keeps [of p i q r] by simp
next
  case (5 E p i q r)
  then show ?case using rq_finish_keeps [of p i q r] by simp
qed simp

interpretation stp: line_phase st_step st_scan st_rank "\<lambda>E. st_finish" 0 SM_START_LINE SM_HEADER
proof (unfold_locales, goal_cases)
  case (2 p b k q)
  then show ?case using st_step_state [of p b k q] by simp
next
  case (3 b k p q)
  then show ?case by (rule step_request(2))
next
  case (4 E p i q r)
  then show ?case using st_finish_keeps [of p i q r] by simp
next
  case (5 E p i q r)
  then show ?case using st_finish_keeps [of p i q r] by simp
qed simp

interpretation hdp: line_phase hd_step hd_scan hd_rank hd_finish 1 SM_HEADER SM_BODY
proof (unfold_locales, goal_cases)
  case (2 p b k q)
  then show ?case using hd_step_state [of p b k q] by simp
next
  case (3 b k p q)
  then show ?case by (rule step_request(3))
next
  case (4 E p i q r)
  then show ?case using hd_finish_keeps [of E p i q r] by simp
next
  case (5 E p i q r)
  then show ?case using hd_finish_keeps [of E p i q r] by simp
qed simp

section \<open>The start line and the header loop\<close>

lemma start_line_fits:
  assumes "http_start_line E p d = Inr (q, r)" and "0 \<le> r" and "fits E p (length d + n)"
  shows "nat r \<le> length d \<and> fits E q (length d - nat r + n)"
proof -
  consider "\<not> stateM p < SM_HEADER" | "stateM p < SM_HEADER" "request p = HTTP_PARSER_REQUEST"
    | "stateM p < SM_HEADER" "request p \<noteq> HTTP_PARSER_REQUEST" by blast
  then show ?thesis
  proof cases
    case 1
    then show ?thesis using assms by (simp add: http_start_line_def)
  next
    case 2
    have "line_parse rq_scan (\<lambda>E. rq_finish) 0 E p d = Inr (q, r)"
      using 2 assms(1) by (simp add: http_start_line_def request_line_parse)
    from rqp.line_fits [OF this assms(2,3)] show ?thesis .
  next
    case 3
    have "line_parse st_scan (\<lambda>E. st_finish) 0 E p d = Inr (q, r)"
      using 3 assms(1) by (simp add: http_start_line_def status_line_parse)
    from stp.line_fits [OF this assms(2,3)] show ?thesis .
  qed
qed

lemma header_lines_sim:
  assumes "fits E p (length data)" and "fits E q (length data)" and "sim p q" and "same_ret r r'"
  shows "phase_rel (http_header_lines E p r data) (http_header_lines E q r' data)"
  using assms
proof (induction "length data" arbitrary: p q r r' data rule: less_induct)
  case less
  have st: "stateM q = stateM p" using sim_sel(1) [OF less.prems(3)] .
  show ?case
  proof (cases "data = [] \<or> \<not> (SM_HEADER \<le> stateM p \<and> stateM p < SM_BODY)")
    case True
    then show ?thesis using less.prems st same_tail_same_ret [OF less.prems(4)]
      by (simp add: header_lines_stop del: same_tail.simps)
  next
    case False
    have "phase_rel
      (and_then (http_parse_header_line E p data) (\<lambda>(q, r).
         if r < 0 then Inr (q, r, data) else http_header_lines E q r (drop (nat r) data)))
      (and_then (http_parse_header_line E q data) (\<lambda>(q, r).
         if r < 0 then Inr (q, r, data) else http_header_lines E q r (drop (nat r) data)))"
    proof (rule rel_and_then [where R = "rel_prod sim (=)"])
      show "ret_rel (http_parse_header_line E p data) (http_parse_header_line E q data)"
        using hdp.line_sim [OF less.prems(1-3)] by (simp add: header_line_parse)
    next
      fix u v
      assume u: "http_parse_header_line E p data = Inr u" and v: "http_parse_header_line E q data = Inr v"
        and rel: "rel_prod sim (=) u v"
      obtain p1 k where u1: "u = (p1, k)" by fastforce
      then obtain q1 where v1: "v = (q1, k)" and sim1: "sim p1 q1" using rel by (cases v) auto
      show "phase_rel ((\<lambda>(q, r). if r < 0 then Inr (q, r, data) else http_header_lines E q r (drop (nat r) data)) u)
         ((\<lambda>(q, r). if r < 0 then Inr (q, r, data) else http_header_lines E q r (drop (nat r) data)) v)"
      proof (cases "k < 0")
        case True
        then show ?thesis using sim1 by (simp add: u1 v1)
      next
        case k: False
        have progress: "0 < nat k \<and> nat k \<le> length data"
          using http_parse_header_line_progress [of E p data p1 k] u u1 False k by simp
        have "fits E p1 (length (drop (nat k) data))" "fits E q1 (length (drop (nat k) data))"
          using hdp.line_fits [of E p data p1 k 0] hdp.line_fits [of E q data q1 k 0] u u1 v v1 k less.prems
          by (simp_all add: header_line_parse)
        moreover have "length (drop (nat k) data) < length data" using progress by auto
        ultimately show ?thesis using k less.hyps [of "drop (nat k) data" p1 q1 k k] sim1
          by (simp add: u1 v1)
      qed
    qed
    then show ?thesis using False st by (simp add: header_lines_step)
  qed
qed

text \<open>The header loop that is cut: either the first part leaves it in the middle of the headers,
  and the second part goes on, or the first part ends them.\<close>

lemma header_lines_cut:
  assumes "http_header_lines E p r a = Inr (p1, r1, rest)" and "0 \<le> r" and "0 \<le> r1"
    and "fits E p (length (a @ b))" and "b \<noteq> []" and "SM_HEADER \<le> stateM p"
  shows "(rest = [] \<and> SM_HEADER \<le> stateM p1 \<and> stateM p1 < SM_BODY \<and> fits E p1 (length b) \<and>
      (\<forall>r2 \<ge> 0. phase_rel (http_header_lines E p r (a @ b)) (http_header_lines E p1 r2 b))) \<or>
    (SM_BODY \<le> stateM p1 \<and> fits E p1 (length (rest @ b)) \<and>
      (\<exists>r2 \<ge> 0. http_header_lines E p r (a @ b) = Inr (p1, r2, rest @ b)))"
  using assms
proof (induction "length a" arbitrary: p r a rule: less_induct)
  case less
  consider (body) "SM_BODY \<le> stateM p" | (empty) "a = []" "stateM p < SM_BODY"
    | (line) "a \<noteq> []" "stateM p < SM_BODY" by linarith
  then show ?case
  proof cases
    case body
    then have "\<not> (SM_HEADER \<le> stateM p \<and> stateM p < SM_BODY)" by simp
    then show ?thesis using less.prems body by (simp add: header_lines_stop)
  next
    case empty
    then have "p1 = p" "rest = []" using less.prems(1) by (simp_all add: header_lines_stop)
    then show ?thesis
      using empty less.prems header_lines_sim [of E p b p r] same_ret_nonneg [of r] by simp
  next
    case line
    have st: "SM_HEADER \<le> stateM p \<and> stateM p < SM_BODY" using line less.prems by simp
    obtain q k where q: "line_parse hd_scan hd_finish 1 E p a = Inr (q, k)"
      and next_lines: "(if k < 0 then Inr (q, k, a) else http_header_lines E q k (drop (nat k) a)) = Inr (p1, r1, rest)"
      using less.prems(1) line(1) st
      by (auto simp: header_lines_step header_line_parse and_then_eq_Inr)
    have k: "0 \<le> k" using next_lines less.prems(3) by (auto split: if_splits)
    have progress: "0 < nat k \<and> nat k \<le> length a"
      using http_parse_header_line_progress [of E p a q k] q line(1) k by (simp add: header_line_parse)
    have whole: "http_header_lines E p r (a @ b) = and_then (line_parse hd_scan hd_finish 1 E p (a @ b))
        (\<lambda>(q, r). if r < 0 then Inr (q, r, a @ b) else http_header_lines E q r (drop (nat r) (a @ b)))"
      using line(1) st by (simp add: header_lines_step header_line_parse)
    from hdp.line_phase_cut [OF q k less.prems(4) st] show ?thesis
    proof (elim disjE conjE, goal_cases)
      case 1
      have "p1 = q" "rest = []" using next_lines 1 by (auto simp: header_lines_stop)
      moreover have "phase_rel (http_header_lines E p r (a @ b)) (http_header_lines E q r2 b)" if "0 \<le> r2" for r2
      proof -
        have second: "http_header_lines E q r2 b = and_then (line_parse hd_scan hd_finish 1 E q b)
            (\<lambda>(q, r). if r < 0 then Inr (q, r, b) else http_header_lines E q r (drop (nat r) b))"
          using less.prems(5) 1 by (simp add: header_lines_step header_line_parse)
        have "a \<noteq> [] \<Longrightarrow> drop (nat (k' + int (length a))) (a @ b) = drop (nat k') b" if "0 \<le> k'" for k'
          using that by (simp add: nat_add_distrib)
        note shift = this [OF _ line(1)]
        show ?thesis
        proof (cases "line_parse hd_scan hd_finish 1 E q b")
          case (Inl e)
          then show ?thesis using 1 whole second by (cases "line_parse hd_scan hd_finish 1 E p (a @ b)") auto
        next
          case (Inr y)
          obtain q' k' where y: "y = (q', k')" by fastforce
          then obtain p' where p': "line_parse hd_scan hd_finish 1 E p (a @ b) = Inr (p', shift_ret (length a) k')"
              and sim: "sim p' q'"
            using 1 Inr by (cases "line_parse hd_scan hd_finish 1 E p (a @ b)") auto
          show ?thesis
          proof (cases "k' < 0")
            case True
            then show ?thesis using whole second Inr y p' sim by (simp add: shift_ret_def)
          next
            case False
            then have k': "0 \<le> k'" by simp
            have fq: "fits E q' (length (drop (nat k') b))"
              using hdp.line_fits [of E q b q' k' 0] Inr y k' 1 by simp
            have "fits E p' (length (a @ b) - nat (k' + int (length a)))"
              using hdp.line_fits [of E p "a @ b" p' "k' + int (length a)" 0] p' k' less.prems(4)
              by (simp add: shift_ret_def)
            then have fp: "fits E p' (length (drop (nat k') b))"
              using k' by (simp add: nat_add_distrib)
            show ?thesis using header_lines_sim [OF fp fq sim same_ret_nonneg] whole second Inr y p' k' shift
              by (simp add: shift_ret_def)
          qed
        qed
      qed
      ultimately show ?case using 1 by simp
    next
      case 2
      have "SM_HEADER \<le> stateM q" using 2 k by (auto dest!: hd_finish_keeps)
      moreover have "fits E q (length (drop (nat k) a @ b))" using 2 by simp
      moreover have "http_header_lines E q k (drop (nat k) a) = Inr (p1, r1, rest)" using next_lines k by simp
      moreover have "http_header_lines E p r (a @ b) = http_header_lines E q k (drop (nat k) a @ b)"
        using 2 k whole progress by simp
      moreover have "length (drop (nat k) a) < length a" using progress by auto
      ultimately show ?case
        using less.hyps [of "drop (nat k) a" q k] less.prems(3,5) k by simp
    qed
  qed
qed

section \<open>The body\<close>

lemma http_body_form:
  assumes "http_body E p data = Inr q" and "fits E p (length data)"
  obtains c d where "q = upd c d (with_body p data)"
  using http_body_roomy [OF assms(2)] assms(1) by (cases "body_fails p data") auto

lemma with_body_sel [simp]:
  "stateM (with_body p x) = stateM p" "content_length (with_body p x) = content_length p"
  "request (with_body p x) = request p" "protocol (with_body p x) = protocol p"
  "reply_code (with_body p x) = reply_code p" "transfer_encoding (with_body p x) = transfer_encoding p"
  "raw_body_length (with_body p x) = raw_body_length p + int (length x)"
  by (simp_all add: with_body_def)

lemma cstr_closed:
  "NUL \<in> set (drop n (raw p)) \<Longrightarrow> raw q = raw p @ s \<Longrightarrow> cstr_at q n = cstr_at p n"
  unfolding cstr_at_def by (cases "n \<le> length (raw p)") (auto simp: takeWhile_append1 in_set_dropD)

lemma chunked_append:
  assumes "te_closed p" and "transfer_encoding q = transfer_encoding p" and "raw q = raw p @ s"
  shows "is_transfer_encoding_chunked q = is_transfer_encoding_chunked p"
  using assms cstr_closed [of "transfer_encoding p" p q s]
  by (auto simp: is_transfer_encoding_chunked_def te_closed_def)

lemma chunked_with_body [simp]:
  "te_closed p \<Longrightarrow> is_transfer_encoding_chunked (with_body p x) = is_transfer_encoding_chunked p"
  by (rule chunked_append [of p _ "if has_callback p then [] else x"]) (simp_all add: with_body_def)

definition te_frame :: "http_parser \<Rightarrow> http_parser \<Rightarrow> bool" where
  "te_frame p q \<longleftrightarrow> transfer_encoding q = transfer_encoding p \<and> (\<exists>s. raw q = raw p @ s) \<and>
     (SM_BODY \<le> stateM p \<and> stateM p \<le> SM_DONE \<longrightarrow> SM_BODY \<le> stateM q \<and> stateM q \<le> SM_DONE)"

lemma te_frame_trans: "te_frame p q \<Longrightarrow> te_frame q r \<Longrightarrow> te_frame p r"
  by (fastforce simp: te_frame_def)

lemma http_body_te: "http_body E p x = Inr q \<Longrightarrow> te_frame p q"
  by (auto simp: http_body_def http_rawdata_def raw_append_def and_then_eq_Inr Let_def te_frame_def
      split: if_splits)

lemma ck_byte_te: "ck_byte b p = Inr q \<Longrightarrow> te_frame p q"
  by (auto simp: ck_byte_def Let_def and_then_eq_Inr te_frame_def split: if_splits option.splits)

lemma ck_data_te:
  assumes "ck_data E p x n = Inr q"
  shows "te_frame p q"
proof -
  obtain u where u: "(if n > 0 then http_body E p (take n x) else Inr p) = Inr u" and q: "q = ck_loaded n u"
    using assms by (auto simp: ck_data_eq and_then_eq_Inr split: if_splits)
  have "te_frame p u" using u http_body_te [of E p "take n x" u] by (auto simp: te_frame_def split: if_splits)
  moreover have "te_frame u q" by (simp add: q te_frame_def ck_loaded_def Let_def)
  ultimately show ?thesis by (rule te_frame_trans)
qed

lemma ck_scan_te: "ck_scan E i cs p = Inr (q, ex) \<Longrightarrow> te_frame p q"
proof (induction E i cs p rule: ck_scan.induct)
  case (1 E i p)
  then show ?case by (simp add: ck_scan.simps te_frame_def)
next
  case (2 E i c cs p)
  consider "stateM p = SM_DONE" | "stateM p = CHUNK_DATA" | "stateM p \<noteq> SM_DONE" "stateM p \<noteq> CHUNK_DATA"
    by blast
  then show ?case
  proof cases
    case 1
    then show ?thesis using 2 by (simp add: ck_scan.simps te_frame_def)
  next
    case st: 2
    define n where "n = ck_take p i (length (c # cs))"
    obtain u where u: "ck_data E p (c # cs) n = Inr u" "ck_scan E (i + n) (drop n (c # cs)) u = Inr (q, ex)"
      using 2(3) st by (auto simp: ck_scan.simps Let_def and_then_eq_Inr n_def)
    have "te_frame u q" using "2.IH"(1) [OF _ st n_def u] st by simp
    then show ?thesis using te_frame_trans [OF ck_data_te [OF u(1)]] by blast
  next
    case st: 3
    then obtain u where "ck_byte c p = Inr u" "ck_scan E (i + 1) cs u = Inr (q, ex)"
      using 2(3) by (auto simp: ck_scan.simps and_then_eq_Inr)
    then show ?thesis using "2.IH"(2) [OF st] ck_byte_te te_frame_trans by blast
  qed
qed

lemma ck_scan_fits: "ck_scan E i cs p = Inr (q, ex) \<Longrightarrow> fits E p (length cs + n) \<Longrightarrow> fits E q n"
proof (induction E i cs p rule: ck_scan.induct)
  case (1 E i p)
  then show ?case by (simp add: ck_scan.simps)
next
  case (2 E i c cs p)
  consider "stateM p = SM_DONE" | "stateM p = CHUNK_DATA" | "stateM p \<noteq> SM_DONE" "stateM p \<noteq> CHUNK_DATA"
    by blast
  then show ?case
  proof cases
    case 1
    then show ?thesis using 2 fits_mono [OF "2.prems"(2), of n] by (simp add: ck_scan.simps)
  next
    case st: 2
    define k where "k = ck_take p i (length (c # cs))"
    obtain u where u: "ck_data E p (c # cs) k = Inr u" "ck_scan E (i + k) (drop k (c # cs)) u = Inr (q, ex)"
      using "2.prems"(1) st by (auto simp: ck_scan.simps Let_def and_then_eq_Inr k_def)
    have e: "k + (length (drop k (c # cs)) + n) = length (c # cs) + n" using ck_data_take_le [OF u(1)] by simp
    have "fits E u (length (drop k (c # cs)) + n)"
      using ck_data_fits [OF u(1), of "length (drop k (c # cs)) + n", unfolded e, OF "2.prems"(2)] .
    then show ?thesis using "2.IH"(1) [OF _ st k_def u] st by simp
  next
    case st: 3
    then obtain u where u: "ck_byte c p = Inr u" "ck_scan E (i + 1) cs u = Inr (q, ex)"
      using "2.prems"(1) by (auto simp: ck_scan.simps and_then_eq_Inr)
    have "fits E u (length cs + n)" using ck_byte_fits [OF u(1)] "2.prems"(2) by simp
    then show ?thesis using "2.IH"(2) [OF st u] by simp
  qed
qed

text \<open>The branch of a known length: how many of \<open>n\<close> bytes belong to the body.\<close>

definition body_take :: "http_parser \<Rightarrow> nat \<Rightarrow> nat" where
  "body_take p n = (if int n + raw_body_length p > content_length p
                    then nat (content_length p - raw_body_length p) else n)"

definition body_done :: "http_parser \<Rightarrow> http_parser" where
  "body_done q = (if raw_body_length q \<ge> content_length q then q\<lparr>stateM := SM_DONE\<rparr> else q)"

lemma input_body_length:
  assumes "SM_BODY \<le> stateM p \<and> stateM p < SM_DONE" and "\<not> is_transfer_encoding_chunked p"
    and "content_length p \<noteq> -1"
  shows "http_input_body E p r data n =
    and_then (c_assert (raw_body_length p \<le> content_length p)) (\<lambda>_.
    and_then (http_body E p (take (body_take p (length data)) data)) (\<lambda>q.
      Inr (body_done q, 0, drop (body_take p (length data)) data)))"
  using assms by (simp add: http_input_body_def body_take_def body_done_def Let_def)

lemma sim_body_done: "sim u v \<Longrightarrow> sim (body_done u) (body_done v)"
  by (auto elim!: simE intro!: sim_upd simp: body_done_def)

lemma input_body_sim:
  assumes over: "http_input_body E p r data n \<noteq> Inl Overrun"
    and "fits E p (length data)" and "fits E q (length data)" and "sim p q" and "same_ret r r'"
    and "n \<noteq> 0" and "n' \<noteq> 0"
  shows "phase_rel (http_input_body E p r data n) (http_input_body E q r' data n')"
proof -
  note sel = sim_sel [OF assms(4)]
  have tail: "same_tail (r, x) (r', x)" for x using assms(5) by (rule same_tail_same_ret)
  consider (out) "\<not> (SM_BODY \<le> stateM p \<and> stateM p < SM_DONE)"
    | (chunked) "SM_BODY \<le> stateM p \<and> stateM p < SM_DONE" "is_transfer_encoding_chunked p"
    | (other) "SM_BODY \<le> stateM p \<and> stateM p < SM_DONE" "\<not> is_transfer_encoding_chunked p" by blast
  then show ?thesis
  proof cases
    case out
    then show ?thesis using tail assms(4) sel by (auto simp: http_input_body_def simp del: same_tail.simps)
  next
    case chunked
    have "ck_scan E 0 data p \<noteq> Inl Overrun"
      using over chunked by (auto simp: http_input_body_def http_parse_chunked_def)
    then have "ck_rel (ck_scan E 0 data p) (ck_scan E 0 data q)" using assms by (intro ck_scan_sim) auto
    then show ?thesis using chunked sel
      by (cases "ck_scan E 0 data p"; cases "ck_scan E 0 data q")
        (auto simp: http_input_body_def http_parse_chunked_def c_assert_def)
  next
    case other
    have body: "body_rel (http_body E p x) (http_body E q x)" if "length x \<le> length data" for x
      using that assms fits_mono by (intro http_body_sim) auto
    have done_sim: "sim u v \<Longrightarrow> sim (u\<lparr>stateM := SM_DONE\<rparr>) (v\<lparr>stateM := SM_DONE\<rparr>)"
      "sim u v \<Longrightarrow> sim (u\<lparr>content_length := 0, stateM := SM_DONE\<rparr>) (v\<lparr>content_length := 0, stateM := SM_DONE\<rparr>)" for u v
      by (auto elim!: simE intro!: sim_upd)
    show ?thesis
    proof (cases "content_length p = -1")
      case True
      show ?thesis
        using True other sel tail assms(4,6,7) body [of data] done_sim(2)
        by (cases "http_body E p data"; cases "http_body E q data")
          (auto simp: http_input_body_def simp del: same_tail.simps simp: same_tail.simps [of 0])
    next
      case False
      have k: "body_take q (length data) = body_take p (length data)" by (simp add: body_take_def sel)
      have b: "body_rel (http_body E p (take (body_take p (length data)) data))
          (http_body E q (take (body_take p (length data)) data))" by (rule body) simp
      have q: "SM_BODY \<le> stateM q \<and> stateM q < SM_DONE" "\<not> is_transfer_encoding_chunked q" "content_length q \<noteq> -1"
        using other False sel by simp_all
      show ?thesis
        unfolding input_body_length [OF other False] input_body_length [OF q] k sel(5,6)
        by (intro rel_and_then [where R = "(=)"] rel_and_then [OF b])
          (auto simp: sum.rel_eq sim_body_done)
    qed
  qed
qed

text \<open>The body that is cut.\<close>

lemma input_body_cut:
  assumes first: "http_input_body E p r xs n = Inr (q, k, rest)" and more: "stateM q \<noteq> SM_DONE"
    and f: "fits E p (length (xs @ ys))" and st: "SM_BODY \<le> stateM p \<and> stateM p < SM_DONE"
    and te: "te_closed p" and "n1 \<noteq> 0" and "n2 \<noteq> 0"
    and over: "http_input_body E p r1 (xs @ ys) n1 \<noteq> Inl Overrun"
  shows "phase_rel (http_input_body E p r1 (xs @ ys) n1) (http_input_body E q r2 ys n2)"
    and "SM_BODY \<le> stateM q \<and> stateM q < SM_DONE"
proof -
  have f': "fits E p (length xs)" using f by (simp add: fits_def)
  have "phase_rel (http_input_body E p r1 (xs @ ys) n1) (http_input_body E q r2 ys n2) \<and>
     SM_BODY \<le> stateM q \<and> stateM q < SM_DONE"
  proof (cases "is_transfer_encoding_chunked p")
    case True
    then have ck: "ck_scan E 0 xs p = Inr (q, None)"
      using first st by (auto simp: http_input_body_def http_parse_chunked_def and_then_eq_Inr)
    then obtain s where "transfer_encoding q = transfer_encoding p" "raw q = raw p @ s"
        and q: "SM_BODY \<le> stateM q \<and> stateM q < SM_DONE"
      using ck_scan_te [OF ck] st more by (auto simp: te_frame_def)
    then have ch: "is_transfer_encoding_chunked q" using chunked_append [OF te] True by simp
    have o: "ck_scan E 0 (xs @ ys) p \<noteq> Inl Overrun"
      using over True st by (auto simp: http_input_body_def http_parse_chunked_def)
    from ck_scan_cut [OF o f ck] show ?thesis
      using ch True q st
      by (cases "ck_scan E 0 (xs @ ys) p"; cases "ck_scan E 0 ys q")
        (auto simp: http_input_body_def http_parse_chunked_def c_assert_def)
  next
    case nc: False
    show ?thesis
    proof (cases "content_length p = -1")
      case True
      then have b: "http_body E p xs = Inr q"
        and cond: "request p = HTTP_PARSER_RESPONSE \<and> strcaseeq ''HTTP'' (protocol p)
            \<and> reply_code p \<noteq> 204 \<and> reply_code p \<noteq> 304 \<and> (reply_code p < 100 \<or> reply_code p \<ge> 200)"
        using first more st nc by (auto simp: http_input_body_def and_then_eq_Inr split: if_splits)
      obtain c d where q: "q = upd c d (with_body p xs)" using http_body_form [OF b f'] .
      have q': "\<not> is_transfer_encoding_chunked q" "content_length q = -1" "request q = request p"
          "protocol q = protocol p" "reply_code q = reply_code p" "SM_BODY \<le> stateM q \<and> stateM q < SM_DONE"
        using nc te True st by (simp_all add: q)
      from http_body_append(1) [OF f b] show ?thesis
        using True cond q' nc st assms(6,7)
        by (cases "http_body E p (xs @ ys)"; cases "http_body E q ys") (auto simp: http_input_body_def)
    next
      case cl: False
      obtain u where ok: "raw_body_length p \<le> content_length p"
        and u: "http_body E p (take (body_take p (length xs)) xs) = Inr u" and q: "q = body_done u"
        using first by (auto simp: input_body_length [OF st nc cl] and_then_eq_Inr)
      have "fits E p (length (take (body_take p (length xs)) xs))" using fits_mono [OF f'] by simp
      from http_body_form [OF u this] obtain c d where ub: "u = upd c d (with_body p (take (body_take p (length xs)) xs))" .
      have notdone: "raw_body_length u < content_length u" and qu: "q = u"
        using more by (auto simp: q body_done_def split: if_splits)
      have all: "body_take p (length xs) = length xs"
        using notdone ok by (auto simp: ub body_take_def split: if_splits)
      have b: "http_body E p xs = Inr q" and qb: "q = upd c d (with_body p xs)"
        using u ub all qu by simp_all
      have q': "\<not> is_transfer_encoding_chunked q" "content_length q \<noteq> -1" "SM_BODY \<le> stateM q \<and> stateM q < SM_DONE"
        "raw_body_length q = raw_body_length p + int (length xs)" "content_length q = content_length p"
        using nc te cl st by (simp_all add: qb)
      have lt: "raw_body_length q < content_length q" using notdone qu by simp
      define k2 where "k2 = body_take q (length ys)"
      have k1: "body_take p (length (xs @ ys)) = length xs + k2"
        using lt q' by (simp add: body_take_def k2_def nat_diff_distrib') arith
      have fk: "fits E p (length (xs @ take k2 ys))" using f by (auto simp: fits_def)
      have T: "take (length xs + k2) (xs @ ys) = xs @ take k2 ys"
        and D: "drop (length xs + k2) (xs @ ys) = drop k2 ys" by simp_all
      have le: "raw_body_length q \<le> content_length q" using lt by simp
      have "phase_rel (http_input_body E p r1 (xs @ ys) n1) (http_input_body E q r2 ys n2)"
        unfolding input_body_length [OF st nc cl] input_body_length [OF q'(3) q'(1) q'(2)] k1 k2_def [symmetric]
        using ok le
        by (simp add: T D del: take_append drop_append)
          (intro rel_and_then [OF http_body_append(1) [OF fk b]], auto simp: sim_body_done)
      then show ?thesis using q'(3) by simp
    qed
  qed
  then show "phase_rel (http_input_body E p r1 (xs @ ys) n1) (http_input_body E q r2 ys n2)"
    "SM_BODY \<le> stateM q \<and> stateM q < SM_DONE" by auto
qed

section \<open>The whole call\<close>

definition input_rel :: "(http_parser \<times> int \<times> nat) exec \<Rightarrow> (http_parser \<times> int \<times> nat) exec \<Rightarrow> bool" where
  "input_rel = rel_sum (=) (\<lambda>(p, r, n) (q, r', n'). sim p q \<and> r = r' \<and> (0 \<le> r \<longrightarrow> n = n'))"

lemma input_rel_refl: "input_rel x x"
  unfolding input_rel_def by (rule sum.rel_refl) auto

lemma input_rel_trans: "input_rel x y \<Longrightarrow> input_rel y z \<Longrightarrow> input_rel x z"
  unfolding input_rel_def by (cases x; cases y; cases z) (auto intro: sim_trans)

definition from_body :: "http_env \<Rightarrow> nat \<Rightarrow> http_parser \<times> int \<times> string \<Rightarrow> (http_parser \<times> int \<times> nat) exec" where
  "from_body E n = (\<lambda>(p, r, rest). if r < 0 then Inr (p, r, n)
     else and_then (http_input_body E p r rest n) (\<lambda>(p, r, rest).
       if r < 0 then Inr (p, r, n) else http_input_end p rest))"

definition from_headers :: "http_env \<Rightarrow> nat \<Rightarrow> http_parser \<Rightarrow> int \<Rightarrow> string \<Rightarrow> (http_parser \<times> int \<times> nat) exec" where
  "from_headers E n p r d = and_then (http_header_lines E p r d) (from_body E n)"

lemma http_parser_input_phases:
  "http_parser_input E p data = and_then (http_start_line E p data) (\<lambda>(p, r).
     if r < 0 then Inr (p, r, length data) else from_headers E (length data) p r (drop (nat r) data))"
  unfolding http_parser_input_def from_headers_def from_body_def by (rule refl)

lemma input_end_sim:
  assumes "sim p q"
  shows "input_rel (http_input_end p x) (http_input_end q x)"
  using assms sim_sel [OF assms] by (simp add: http_input_end_def input_rel_def c_assert_def)

lemma body_phase_rel:
  assumes "phase_rel (http_input_body E p r x n) (http_input_body E q r' x' n')" and "0 \<le> r" and "0 \<le> r'"
  shows "input_rel (from_body E n (p, r, x)) (from_body E n' (q, r', x'))"
  using assms
proof (cases "http_input_body E p r x n"; cases "http_input_body E q r' x' n'")
  fix u v
  assume u: "http_input_body E p r x n = Inr u" and v: "http_input_body E q r' x' n' = Inr v"
  obtain p1 k y where u1: "u = (p1, k, y)" by (cases u) auto
  obtain q1 k' y' where v1: "v = (q1, k', y')" by (cases v) auto
  have rel: "sim p1 q1" "k = k' \<and> k < 0 \<or> 0 \<le> k \<and> 0 \<le> k' \<and> y = y'" using assms u v u1 v1 by auto
  show ?thesis
  proof (cases "k < 0")
    case True
    then show ?thesis using rel u v u1 v1 assms(2,3) by (simp add: from_body_def input_rel_def)
  next
    case False
    then show ?thesis using rel u v u1 v1 assms(2,3) input_end_sim [OF rel(1), of y] by (simp add: from_body_def)
  qed
qed (simp_all add: from_body_def input_rel_def)

lemma header_lines_fits:
  "http_header_lines E p r data = Inr (q, k, rest) \<Longrightarrow> 0 \<le> k \<Longrightarrow> fits E p (length data) \<Longrightarrow>
   fits E q (length rest)"
proof (induction "length data" arbitrary: p r data rule: less_induct)
  case less
  show ?case
  proof (cases "data = [] \<or> \<not> (SM_HEADER \<le> stateM p \<and> stateM p < SM_BODY)")
    case True
    then show ?thesis using less.prems by (simp add: header_lines_stop)
  next
    case False
    then obtain p1 j where p1: "http_parse_header_line E p data = Inr (p1, j)"
      and rec: "(if j < 0 then Inr (p1, j, data) else http_header_lines E p1 j (drop (nat j) data)) = Inr (q, k, rest)"
      using less.prems(1) by (auto simp: header_lines_step and_then_eq_Inr)
    have j: "0 \<le> j" using rec less.prems(2) by (auto split: if_splits)
    have "0 < nat j \<and> nat j \<le> length data"
      using http_parse_header_line_progress [OF p1] False j by simp
    then have lt: "length (drop (nat j) data) < length data" by auto
    have "fits E p1 (length (drop (nat j) data))"
      using hdp.line_fits [of E p data p1 j 0] p1 j less.prems(3) by (simp add: header_line_parse)
    then show ?thesis using less.hyps [OF lt] rec j less.prems(2) by simp
  qed
qed

lemma headers_phase_rel:
  assumes over: "from_headers E n p r x \<noteq> Inl Overrun" and rel: "phase_rel (http_header_lines E p r x) (http_header_lines E q r' x')"
    and "fits E p (length x)" and "fits E q (length x')" and "n \<noteq> 0" and "n' \<noteq> 0"
  shows "input_rel (from_headers E n p r x) (from_headers E n' q r' x')"
proof (cases "http_header_lines E p r x"; cases "http_header_lines E q r' x'")
  fix u v
  assume u: "http_header_lines E p r x = Inr u" and v: "http_header_lines E q r' x' = Inr v"
  obtain p1 k y where u1: "u = (p1, k, y)" by (cases u) auto
  obtain q1 k' y' where v1: "v = (q1, k', y')" by (cases v) auto
  have rel: "sim p1 q1" "k = k' \<and> k < 0 \<or> 0 \<le> k \<and> 0 \<le> k' \<and> y = y'" using rel u v u1 v1 by auto
  show ?thesis
  proof (cases "k < 0")
    case True
    then show ?thesis using rel u v u1 v1 by (simp add: from_headers_def from_body_def input_rel_def)
  next
    case False
    then have k: "0 \<le> k" "0 \<le> k'" "y' = y" using rel by auto
    have o: "http_input_body E p1 k y n \<noteq> Inl Overrun"
      using over u u1 k by (auto simp: from_headers_def from_body_def)
    have "fits E p1 (length y)" "fits E q1 (length y)"
      using header_lines_fits [of E p r x p1 k y] header_lines_fits [of E q r' x' q1 k' y] u v u1 v1 k assms
      by simp_all
    then have "phase_rel (http_input_body E p1 k y n) (http_input_body E q1 k' y n')"
      using rel(1) o assms(5,6) k by (intro input_body_sim same_ret_nonneg) auto
    then show ?thesis using body_phase_rel k u v u1 v1 by (simp add: from_headers_def)
  qed
qed (use rel in \<open>simp_all add: from_headers_def input_rel_def\<close>)

lemma input_end_more: "http_input_end q x = Inr (p1, r1, n1) \<Longrightarrow> 0 < r1 \<Longrightarrow> p1 = q \<and> stateM q \<noteq> SM_DONE"
  by (auto simp: http_input_end_def and_then_eq_Inr split: if_splits)

lemma input_after_start: "SM_HEADER \<le> stateM p \<Longrightarrow> http_parser_input E p b = from_headers E (length b) p 0 b"
  by (simp add: http_parser_input_phases http_start_line_def)

lemma from_headers_cut:
  assumes first: "from_headers E n s k xs = Inr (p1, r1, n1)" and r1: "0 < r1" and "0 \<le> k"
    and inv: "hp_inv s" and f: "fits E s (length (xs @ b))" and b: "b \<noteq> []" and st: "SM_HEADER \<le> stateM s"
    and N: "N \<noteq> 0" and over: "from_headers E N s k (xs @ b) \<noteq> Inl Overrun"
  shows "input_rel (from_headers E N s k (xs @ b)) (http_parser_input E p1 b)"
proof -
  obtain p' j rest where h: "http_header_lines E s k xs = Inr (p', j, rest)"
    and body: "from_body E n (p', j, rest) = Inr (p1, r1, n1)"
    using first by (auto simp: from_headers_def and_then_eq_Inr)
  have j: "0 \<le> j" using body r1 by (auto simp: from_body_def split: if_splits)
  obtain q i y where ib: "http_input_body E p' j rest n = Inr (q, i, y)"
    and fin: "http_input_end q y = Inr (p1, r1, n1)"
    using body j r1 by (auto simp: from_body_def and_then_eq_Inr split: if_splits)
  have p1: "p1 = q" "stateM q \<noteq> SM_DONE" using input_end_more [OF fin r1] by auto
  have nb: "length b \<noteq> 0" using b by simp
  from header_lines_cut [OF h assms(3) j f b st] show ?thesis
  proof (elim disjE conjE exE, goal_cases)
    case 1
    have "q = p'" using ib 1 by (simp add: http_input_body_def)
    then show ?case
      using headers_phase_rel [OF over, of p' 0 b "length b"] 1 N nb f p1 input_after_start [of p' E b]
      by simp
  next
    case (2 r2)
    have r2: "0 \<le> r2" "http_header_lines E s k (xs @ b) = Inr (p', r2, rest @ b)" using 2 by auto
    have te: "te_closed p'"
      using header_lines_safe_inv [OF inv, of E k xs] h j by (auto simp: hp_inv_def rest_ok_def)
    show ?case
    proof (cases "stateM p' < SM_DONE")
      case True
      then have st': "SM_BODY \<le> stateM p' \<and> stateM p' < SM_DONE" using 2 by simp
      have f'': "fits E p' (length (rest @ b))" using 2 by simp
      have o: "http_input_body E p' r2 (rest @ b) N \<noteq> Inl Overrun"
        using over r2 by (auto simp: from_headers_def from_body_def)
      note cut = input_body_cut(1) [OF ib p1(2) f'' st' te N nb o, of 0]
        input_body_cut(2) [OF ib p1(2) f'' st' te N nb o]
      have "input_rel (from_body E N (p', r2, rest @ b)) (from_body E (length b) (q, 0, b))"
        using body_phase_rel [OF cut(1)] r2 by simp
      then show ?thesis
        using cut(2) p1 r2 input_after_start [of q E b]
        by (simp add: from_headers_def header_lines_stop)
    next
      case False
      then have "q = p'" using ib by (simp add: http_input_body_def)
      then show ?thesis
        using False 2 p1 r2 input_after_start [of p' E b]
        by (simp add: from_headers_def header_lines_stop from_body_def http_input_body_def http_input_end_def input_rel_def)
    qed
  qed
qed

lemma input_cut:
  assumes first: "http_parser_input E p a = Inr (p1, r1, n1)" and r1: "0 < r1" and inv: "hp_inv p"
    and f: "fits E p (length (a @ b))" and b: "b \<noteq> []"
    and over: "http_parser_input E p (a @ b) \<noteq> Inl Overrun"
  shows "input_rel (http_parser_input E p (a @ b)) (http_parser_input E p1 b)"
proof -
  obtain s k where s: "http_start_line E p a = Inr (s, k)"
    and tail: "(if k < 0 then Inr (s, k, length a) else from_headers E (length a) s k (drop (nat k) a)) = Inr (p1, r1, n1)"
    using first by (auto simp: http_parser_input_phases and_then_eq_Inr)
  have k: "0 \<le> k" and hdr: "from_headers E (length a) s k (drop (nat k) a) = Inr (p1, r1, n1)"
    using tail r1 by (auto split: if_splits)
  have sinv: "hp_inv s" using start_line_safe_inv(2) [OF inv s k] .
  have nab: "length (a @ b) \<noteq> 0" using b by simp
  have ended: ?thesis if "http_start_line E p (a @ b) = Inr (s, k)" "nat k \<le> length a" "SM_HEADER \<le> stateM s"
      "fits E s (length a - nat k + length b)"
  proof -
    have "fits E s (length (drop (nat k) a @ b))" using that(4) by simp
    moreover have "from_headers E (length (a @ b)) s k (drop (nat k) a @ b) \<noteq> Inl Overrun"
      using over that(1,2) k by (auto simp: http_parser_input_phases)
    ultimately have "input_rel (from_headers E (length (a @ b)) s k (drop (nat k) a @ b)) (http_parser_input E p1 b)"
      by (intro from_headers_cut [OF hdr r1 k sinv _ b that(3) nab])
    then
    show ?thesis using that(1,2) k by (simp add: http_parser_input_phases)
  qed
  have cut: ?thesis
    if L: "(k = int (length a) \<and> low \<le> stateM s \<and> stateM s < SM_HEADER \<and> request s = request p \<and>
        fits E s (length b) \<and> cut_rel (length a) (http_start_line E p (a @ b)) (http_start_line E s b)) \<or>
      (http_start_line E p (a @ b) = Inr (s, k) \<and> nat k \<le> length a \<and>
        fits E s (length a - nat k + length b) \<and> stateM s = SM_HEADER)" for low
    using L
  proof (elim disjE conjE)
    assume 1: "k = int (length a)" "stateM s < SM_HEADER" "fits E s (length b)"
      "cut_rel (length a) (http_start_line E p (a @ b)) (http_start_line E s b)"
    have p1: "p1 = s" using hdr 1 r1
      by (auto simp: from_headers_def header_lines_stop from_body_def http_input_body_def http_input_end_def)
    show ?thesis
    proof (cases "http_start_line E s b")
      case (Inl e)
      then show ?thesis using 1 p1
        by (cases "http_start_line E p (a @ b)") (auto simp: http_parser_input_phases input_rel_def)
    next
      case (Inr y)
      obtain q j where y: "http_start_line E s b = Inr (q, j)" using Inr by (cases y) auto
      then obtain p' where p': "http_start_line E p (a @ b) = Inr (p', shift_ret (length a) j)" and sim: "sim p' q"
        using 1 by (cases "http_start_line E p (a @ b)") auto
      show ?thesis
      proof (cases "j < 0")
        case True
        then show ?thesis using y p' sim p1 by (simp add: http_parser_input_phases input_rel_def shift_ret_def)
      next
        case False
        then have j: "0 \<le> j" by simp
        have fq: "fits E q (length (drop (nat j) b))"
          using start_line_fits [OF y j, of 0] 1(3) by simp
        have "fits E p' (length (a @ b) - nat (j + int (length a)))"
          using start_line_fits [of E p "a @ b" p' "j + int (length a)" 0] p' j f by (simp add: shift_ret_def)
        then have fp: "fits E p' (length (drop (nat j) b))" using j by (simp add: nat_add_distrib)
        have d: "drop (nat (j + int (length a))) (a @ b) = drop (nat j) b" using j by (simp add: nat_add_distrib)
        have o: "from_headers E (length (a @ b)) p' (j + int (length a)) (drop (nat j) b) \<noteq> Inl Overrun"
          using over p' j d by (simp add: http_parser_input_phases shift_ret_def del: drop_append)
        have "input_rel (from_headers E (length (a @ b)) p' (j + int (length a)) (drop (nat j) b))
            (from_headers E (length b) q j (drop (nat j) b))"
          using header_lines_sim [OF fp fq sim same_ret_nonneg [of "j + int (length a)" j]] fp fq j b
          by (intro headers_phase_rel [OF o]) auto
        then show ?thesis using y p' p1 j d by (simp add: http_parser_input_phases shift_ret_def del: drop_append)
      qed
    qed
  next
    assume 2: "http_start_line E p (a @ b) = Inr (s, k)" "nat k \<le> length a"
        "fits E s (length a - nat k + length b)" "stateM s = SM_HEADER"
    show ?thesis using 2 by (intro ended) auto
  qed
  consider (after) "SM_HEADER \<le> stateM p" | (req) "stateM p < SM_HEADER" "request p = HTTP_PARSER_REQUEST"
    | (resp) "stateM p < SM_HEADER" "request p \<noteq> HTTP_PARSER_REQUEST" by linarith
  then show ?thesis
  proof cases
    case after
    then show ?thesis using s f by (intro ended) (auto simp: http_start_line_def)
  next
    case req
    then have st: "SM_START_LINE \<le> stateM p \<and> stateM p < SM_HEADER" by simp
    have l: "line_parse rq_scan (\<lambda>E. rq_finish) 0 E p a = Inr (s, k)"
      using s req by (simp add: http_start_line_def request_line_parse)
    show ?thesis
      using rqp.line_phase_cut [OF l k f st] req k
      by (intro cut [of SM_START_LINE]) (auto simp: http_start_line_def request_line_parse dest: rq_finish_keeps)
  next
    case resp
    then have st: "SM_START_LINE \<le> stateM p \<and> stateM p < SM_HEADER" by simp
    have l: "line_parse st_scan (\<lambda>E. st_finish) 0 E p a = Inr (s, k)"
      using s resp by (simp add: http_start_line_def status_line_parse)
    show ?thesis
      using stp.line_phase_cut [OF l k f st] resp k
      by (intro cut [of SM_START_LINE]) (auto simp: http_start_line_def status_line_parse dest: st_finish_keeps)
  qed
qed

section \<open>Any segmentation\<close>

lemma fits_frame [simp]:
  "fits E (q\<lparr>stateM := s\<rparr>) n = fits E q n" "fits E (q\<lparr>content_length := l\<rparr>) n = fits E q n"
  by (simp_all add: fits_def buf_ok_def)

lemma input_body_fits:
  assumes "http_input_body E p r data m = Inr (q, k, rest)" and f: "fits E p (length data + n)"
  shows "fits E q n"
proof -
  have body: "fits E u n" if "http_body E p (take i data) = Inr u" for i u
    using http_body_fits [OF that, of n] fits_mono [OF f] by simp
  consider (out) "\<not> (SM_BODY \<le> stateM p \<and> stateM p < SM_DONE)"
    | (chunked) "SM_BODY \<le> stateM p \<and> stateM p < SM_DONE" "is_transfer_encoding_chunked p"
    | (other) "SM_BODY \<le> stateM p \<and> stateM p < SM_DONE" "\<not> is_transfer_encoding_chunked p" by blast
  then show ?thesis
  proof cases
    case out
    then show ?thesis using assms(1) fits_mono [OF f] by (auto simp: http_input_body_def)
  next
    case chunked
    show ?thesis using chunked assms(1) ck_scan_fits [OF _ f]
      by (auto simp: http_input_body_def http_parse_chunked_def and_then_eq_Inr)
  next
    case other
    show ?thesis
    proof (cases "content_length p = -1")
      case True
      then show ?thesis using other assms(1) body [of "length data"] fits_mono [OF f]
        by (auto simp: http_input_body_def and_then_eq_Inr split: if_splits)
    next
      case False
      then show ?thesis using other assms(1) body
        by (auto simp: input_body_length and_then_eq_Inr body_done_def split: if_splits)
    qed
  qed
qed

lemma input_fits:
  assumes "http_parser_input E p a = Inr (p1, r1, n1)" and "0 < r1" and "hp_inv p"
    and f: "fits E p (length a + n)" and n: "0 < n"
  shows "fits E p1 n"
proof -
  obtain s k where s: "http_start_line E p a = Inr (s, k)"
    and tail: "(if k < 0 then Inr (s, k, length a) else from_headers E (length a) s k (drop (nat k) a)) = Inr (p1, r1, n1)"
    using assms(1) by (auto simp: http_parser_input_phases and_then_eq_Inr)
  have k: "0 \<le> k" using tail assms(2) by (auto split: if_splits)
  obtain p' j rest where h: "http_header_lines E s k (drop (nat k) a) = Inr (p', j, rest)"
    and body: "from_body E (length a) (p', j, rest) = Inr (p1, r1, n1)"
    using tail k by (auto simp: from_headers_def and_then_eq_Inr)
  have j: "0 \<le> j" using body assms(2) by (auto simp: from_body_def split: if_splits)
  have fs: "fits E s (length (drop (nat k) a @ replicate n NUL))"
    using start_line_fits [OF s k f] by (simp only: length_append length_drop length_replicate)
  have fp: "fits E p' (length rest + n)"
  proof (cases "SM_HEADER \<le> stateM s")
    case True
    then show ?thesis using header_lines_cut [OF h k j fs] n by auto
  next
    case False
    then have "s = p'" "drop (nat k) a = rest" using h by (auto simp: header_lines_stop)
    then show ?thesis using fs by (simp only: length_append length_replicate)
  qed
  obtain q i y where ib: "http_input_body E p' j rest (length a) = Inr (q, i, y)"
    and fin: "http_input_end q y = Inr (p1, r1, n1)"
    using body j assms(2) by (auto simp: from_body_def and_then_eq_Inr split: if_splits)
  have p1: "p1 = q" using input_end_more [OF fin assms(2)] by simp
  show ?thesis unfolding p1 using input_body_fits [OF ib fp] .
qed

lemma feed_cut:
  assumes "http_feed E p (butlast segs) = Inr (p1, r1)" and "0 < r1" and "hp_inv p"
    and "fits E p (length (concat segs))" and "[] \<notin> set segs" and "segs \<noteq> []"
    and "http_parser_input E p (concat segs) \<noteq> Inl Overrun"
  shows "input_rel (http_parser_input E p (concat segs)) (http_parser_input E p1 (last segs))"
  using assms
proof (induction segs arbitrary: p)
  case (Cons d ds)
  show ?case
  proof (cases "ds = []")
    case True
    then show ?thesis using Cons.prems by (simp add: input_rel_refl)
  next
    case False
    then obtain q r n where q: "http_parser_input E p d = Inr (q, r, n)" "0 < r"
      and rest: "http_feed E q (butlast ds) = Inr (p1, r1)"
      using Cons.prems(1,2) by (auto simp: and_then_eq_Inr split: if_splits)
    have inv: "hp_inv q" using input_safe_inv [OF Cons.prems(3), of E d] q by auto
    have ne: "concat ds \<noteq> []" using False Cons.prems(5) by (cases ds) auto
    have f: "fits E p (length (d @ concat ds))" using Cons.prems(4) by simp
    have fq: "fits E q (length (concat ds))" using input_fits [OF q Cons.prems(3)] f ne by simp
    have over: "http_parser_input E p (d @ concat ds) \<noteq> Inl Overrun" using Cons.prems(7) by simp
    have rel: "input_rel (http_parser_input E p (d @ concat ds)) (http_parser_input E q (concat ds))"
      by (rule input_cut [OF q Cons.prems(3) f ne over])
    then have over': "http_parser_input E q (concat ds) \<noteq> Inl Overrun"
      using over by (cases "http_parser_input E p (d @ concat ds)") (auto simp: input_rel_def)
    have "input_rel (http_parser_input E q (concat ds)) (http_parser_input E p1 (last ds))"
      using Cons.IH [OF rest Cons.prems(2) inv fq _ False over'] Cons.prems(5) by simp
    then show ?thesis using False input_rel_trans [OF rel] by simp
  qed
qed simp

text \<open>
  C3.  The parser does not depend on how its input is cut.  Allocations succeeding and the
  message staying below \<^verbatim>\<open>HTTP_BODY_LENGTH_MAX\<close>, and no chunk size being so near \<^verbatim>\<open>2^64\<close> that
  the index arithmetic of the chunk decoder wraps (\<open>Overrun\<close>), a message read in any number of
  non-empty segments, of which the last is the first to complete it, ends as one call with all
  the bytes would: with the same fault, or with the same return value, the same parser (up to the
  capacity of its buffer and the grouping of the body bytes given to the data callback) and the
  same number of bytes left over.
\<close>

theorem http_segmentation:
  assumes "http_parser_create E sz mode ondata = Some p" and "roomy E"
    and "length (concat segs) \<le> HTTP_BODY_LENGTH_MAX" and "[] \<notin> set segs" and "segs \<noteq> []"
    and "http_feed E p (butlast segs) = Inr (p1, r1)" and "0 < r1"
    and "http_parser_input E p (concat segs) \<noteq> Inl Overrun"
  shows "input_rel (http_parser_input E p (concat segs)) (http_parser_input E p1 (last segs))"
proof -
  have "hp_inv p" and "raw p = []"
    using assms(1) hp_inv_clear by (auto simp: http_parser_create_def http_parser_clear_def split: if_splits)
  moreover from this have "fits E p (length (concat segs))"
    using assms(2,3) by (simp add: fits_def buf_ok_def)
  ultimately show ?thesis using feed_cut [OF assms(6,7)] assms(4,5,8) by simp
qed

theorem http_segmentation_witness:
  "\<exists>p p1 q. http_parser_create env0 500 1 False = Some p \<and>
     http_feed env0 p [''GET / HTTP/1.1'' @ [CR, LF] @ ''Content-Le'', ''ngth: 2'' @ [CR, LF, CR], [LF] @ ''a''] = Inr (p1, 1) \<and>
     http_parser_input env0 p1 ''b'' = Inr (q, 0, 0) \<and> http_get_content q = Inr ''ab'' \<and>
     input_rel (http_parser_input env0 p
        (''GET / HTTP/1.1'' @ [CR, LF] @ ''Content-Length: 2'' @ [CR, LF, CR, LF] @ ''ab''))
       (http_parser_input env0 p1 ''b'')"
proof -
  let ?s = "[''GET / HTTP/1.1'' @ [CR, LF] @ ''Content-Le'', ''ngth: 2'' @ [CR, LF, CR], [LF] @ ''a'', ''b'']"
  obtain p where p: "http_parser_create env0 500 1 False = Some p"
    by (simp add: http_parser_create_def env0_def)
  then have pd: "p = http_parser_clear (http_parser_zero\<lparr>has_callback := False, request := 1\<rparr>)"
    by (simp add: http_parser_create_def env0_def)
  obtain p1 where p1: "http_feed env0 p (butlast ?s) = Inr (p1, 1)"
    and last: "\<exists>q. http_parser_input env0 p1 ''b'' = Inr (q, 0, 0) \<and> http_get_content q = Inr ''ab''"
    unfolding pd by (simp add: env0_def http_eval http_get_content_def)
  have "input_rel (http_parser_input env0 p (concat ?s)) (http_parser_input env0 p1 (last ?s))"
  proof (rule http_segmentation [OF p _ _ _ _ p1])
    show "http_parser_input env0 p (concat ?s) \<noteq> Inl Overrun"
      unfolding pd by (simp add: env0_def http_eval)
  qed (simp_all add: roomy_def env0_def)
  then show ?thesis using p p1 last by auto
qed

end
