(* ===== verification/HttpChunks.thy ===== *)
theory HttpChunks
  imports HttpSegments
begin

text \<open>
  Memory safety of the whole HTTP parser over any sequence of segments: which inputs make \<open>http_parser_input\<close> stop
  without returning.  The chunk loop of \<^verbatim>\<open>http-parser.c\<close> adds a chunk size that the peer chooses to its index; this theory
  says when that sum can wrap and shows that nothing else leaves the buffers.
\<close>

section \<open>Chunk sizes that do not wrap\<close>

text \<open>
  The index of the chunk loop is computed with wrap-around, so a chunk size near \<open>2 ^ 64\<close> takes the
  loop past the bytes it was given.  Such a size needs sixteen hexadecimal digits in a row:
  \<open>hex_short k cs\<close> says that \<open>cs\<close>, read after \<open>k\<close> such digits, never has that many.
\<close>

fun hex_short :: "nat \<Rightarrow> string \<Rightarrow> bool" where
  "hex_short k [] = (k < 16)"
| "hex_short k (c # cs) = (k < 16 \<and> hex_short (if hex_val c = None then 0 else k + 1) cs)"

lemma hex_short_less: "hex_short k cs \<Longrightarrow> k < 16"
  by (cases cs) simp_all

lemma hex_short_le: "hex_short k cs \<Longrightarrow> j \<le> k \<Longrightarrow> hex_short j cs"
proof (induction cs arbitrary: j k)
  case (Cons c cs)
  then show ?case using Cons.IH [of "if hex_val c = None then 0 else k + 1" "if hex_val c = None then 0 else j + 1"]
    by auto
qed simp

lemma hex_short_Cons: "hex_short k (c # cs) \<Longrightarrow> hex_short (if hex_val c = None then 0 else k + 1) cs"
  by simp

lemma hex_short_append: "hex_short k (xs @ ys) \<Longrightarrow> hex_short 0 ys"
proof (induction xs arbitrary: k)
  case Nil
  then show ?case using hex_short_le by auto
next
  case (Cons c xs)
  then show ?case by (cases "hex_val c = None") auto
qed

lemma hex_short_drop: "hex_short k cs \<Longrightarrow> hex_short 0 (drop n cs)"
  using hex_short_append [of k "take n cs" "drop n cs"] by simp

lemma hex_short_prefix: "hex_short k (xs @ ys) \<Longrightarrow> hex_short k xs"
proof (induction xs arbitrary: k)
  case Nil
  then show ?case using hex_short_less by auto
qed simp

lemma hex_val_less: "hex_val c = Some d \<Longrightarrow> d < 16"
  by (auto simp: hex_val_def split: if_splits)

text \<open>The chunk size read so far has at most as many digits as were read in a row.\<close>

definition size_short :: "http_parser \<Rightarrow> string \<Rightarrow> bool" where
  "size_short p rest \<longleftrightarrow> chunk_len p < 16 ^ 15 \<and>
     (\<exists>k. hex_short k rest \<and> (stateM p = CHUNK_SIZE \<longrightarrow> chunk_len p < 16 ^ k))"

lemma pow16: "k < 16 \<Longrightarrow> n < 16 ^ k \<Longrightarrow> n < (16 ^ 15 :: nat)"
  using power_increasing [of k 15 "16 :: nat"] by simp

lemma size_short_digit:
  assumes "hex_short k (c # cs)" and "hex_val c = Some d" and "chunk_len p < 16 ^ k"
  shows "size_short (p\<lparr>chunk_len := chunk_accum (chunk_len p) d\<rparr>) cs"
proof -
  have h: "hex_short (k + 1) cs" using assms(1,2) by simp
  have n: "chunk_len p * 16 + d < 16 ^ (k + 1)" using assms(3) hex_val_less [OF assms(2)] by simp
  have "chunk_accum (chunk_len p) d \<le> chunk_len p * 16 + d" by (simp add: chunk_accum_def)
  then have "chunk_accum (chunk_len p) d < 16 ^ (k + 1)" using n by linarith
  then show ?thesis using h pow16 [OF hex_short_less [OF h]] by (auto simp: size_short_def)
qed

lemma size_short_frame:
  "chunk_len p < 16 ^ 15 \<Longrightarrow> hex_short k rest \<Longrightarrow> stateM p \<noteq> CHUNK_SIZE \<Longrightarrow> size_short p rest"
  by (auto simp: size_short_def)

lemma ck_byte_short:
  assumes "ck_byte c p = Inr q" and "size_short p (c # cs)"
  shows "size_short q cs"
proof -
  obtain k where k: "hex_short k (c # cs)" "stateM p = CHUNK_SIZE \<longrightarrow> chunk_len p < 16 ^ k"
    and n: "chunk_len p < 16 ^ 15" using assms(2) by (auto simp: size_short_def)
  note short = hex_short_Cons [OF k(1)]
  consider (start) d where "stateM p = CHUNK_START" "hex_val c = Some d" "q = p\<lparr>chunk_len := d, stateM := CHUNK_SIZE\<rparr>"
    | (digit) d where "stateM p = CHUNK_SIZE" "hex_val c = Some d" "q = p\<lparr>chunk_len := chunk_accum (chunk_len p) d\<rparr>"
    | (other) "stateM q \<noteq> CHUNK_SIZE" "chunk_len q = chunk_len p \<or> chunk_len q = 0"
    using assms(1)
    by (auto simp: ck_byte_def Let_def and_then_eq_Inr split: if_splits option.splits)
  then show ?thesis
  proof cases
    case start
    have "hex_short 1 cs" using short start(2) hex_short_le by fastforce
    then show ?thesis using start(2,3) hex_val_less [OF start(2)] by (auto simp: size_short_def intro: exI [of _ 1])
  next
    case digit
    then show ?thesis using size_short_digit [OF k(1) digit(2)] k(2) by simp
  next
    case other
    then show ?thesis using size_short_frame [of q _ cs] short n by auto
  qed
qed

lemma http_body_quiet: "http_body E p d \<noteq> Inl Overrun"
  by (auto simp: http_body_def http_rawdata_def raw_append_def and_then_eq_Inl c_assert_def Let_def split: if_splits)

lemma ck_data_short:
  assumes "size_short p cs" and "stateM p = CHUNK_DATA" and "n \<le> length cs"
  shows "ck_data E p cs n \<noteq> Inl Overrun"
    and "ck_data E p cs n = Inr q \<Longrightarrow> size_short q (drop n cs)"
proof -
  show "ck_data E p cs n \<noteq> Inl Overrun"
    using assms(3) http_body_quiet by (auto simp: ck_data_def and_then_eq_Inl c_assert_def Let_def split: if_splits)
  assume q: "ck_data E p cs n = Inr q"
  then obtain x where x: "(if n > 0 then http_body E p (take n cs) else Inr p) = Inr x"
    and q': "q = (let r = x\<lparr>chunk_loaded := chunk_loaded x + n\<rparr> in
             if chunk_loaded r = chunk_len r then r\<lparr>stateM := CHUNK_DATA_CR\<rparr> else r)"
    by (auto simp: ck_data_def and_then_eq_Inr Let_def split: if_splits)
  have "chunk_len x = chunk_len p" using x http_body_keeps(2) by (auto split: if_splits)
  then have "chunk_len q = chunk_len p" by (simp add: q' Let_def)
  moreover have "stateM q \<noteq> CHUNK_SIZE" using ck_data_keeps(1) [OF q] assms(2) by simp
  moreover have "hex_short 0 (drop n cs)" using assms(1) hex_short_drop by (auto simp: size_short_def)
  ultimately show "size_short q (drop n cs)" using assms(1) by (auto simp: size_short_def)
qed

lemma ck_data_prefix: "n \<le> length xs \<Longrightarrow> ck_data E p (xs @ ys) n = ck_data E p xs n"
  by (simp add: ck_data_def)

lemma ck_data_cut:
  assumes "size_short p (xs @ ys)" and "stateM p = CHUNK_DATA" and "n \<le> length xs"
  shows "ck_data E p xs n \<noteq> Inl Overrun"
    and "ck_data E p xs n = Inr q \<Longrightarrow> size_short q (drop n xs @ ys)"
  using ck_data_short [OF assms(1,2), of n E] ck_data_prefix [OF assms(3), of E p ys] assms(3) by auto

lemma ck_take_short:
  assumes "chunk_len p < 16 ^ 15" and "i + avail < 2 ^ 63"
  shows "ck_take p i avail \<le> avail"
proof -
  have "i + (chunk_len p - chunk_loaded p) < 2 ^ 64" using assms by simp
  then show ?thesis by (simp add: ck_take_def Let_def)
qed

lemma ck_scan_short:
  assumes "size_short p (cs @ zs)" and "i + length cs < 2 ^ 63"
  shows "ck_scan E i cs p \<noteq> Inl Overrun \<and>
    (\<forall>q. ck_scan E i cs p = Inr (q, None) \<longrightarrow> size_short q zs)"
  using assms
proof (induction E i cs p rule: ck_scan.induct)
  case (1 E i p)
  then show ?case by (simp add: ck_scan.simps)
next
  case (2 E i c cs p)
  have n: "chunk_len p < 16 ^ 15" using "2.prems"(1) by (simp add: size_short_def)
  consider "stateM p = SM_DONE" | "stateM p = CHUNK_DATA" | "stateM p \<noteq> SM_DONE" "stateM p \<noteq> CHUNK_DATA"
    by blast
  then show ?case
  proof cases
    case 1
    then show ?thesis by (simp add: ck_scan.simps)
  next
    case st: 2
    let ?n = "ck_take p i (length (c # cs))"
    have le: "?n \<le> length (c # cs)" by (rule ck_take_short) (use n "2.prems"(2) in auto)
    have eq: "ck_scan E i (c # cs) p = and_then (ck_data E p (c # cs) ?n) (ck_scan E (i + ?n) (drop ?n (c # cs)))"
      using st by (simp add: ck_scan.simps Let_def)
    have len: "i + ?n + length (drop ?n (c # cs)) < 2 ^ 63" using le "2.prems"(2) by simp
    note d = ck_data_cut [OF "2.prems"(1) st le, of E]
    show ?thesis
    proof (cases "ck_data E p (c # cs) ?n")
      case (Inl e)
      then show ?thesis using d(1) by (simp only: eq and_then_Inl) auto
    next
      case (Inr u)
      have "size_short u (drop ?n (c # cs) @ zs)" by (rule d(2) [OF Inr])
      then show ?thesis using "2.IH"(1) [OF _ st refl Inr _ len] st by (simp only: eq Inr and_then_Inr) simp
    qed
  next
    case st: 3
    then have eq: "ck_scan E i (c # cs) p = and_then (ck_byte c p) (ck_scan E (i + 1) cs)"
      by (simp add: ck_scan.simps)
    show ?thesis
    proof (cases "ck_byte c p")
      case (Inl e)
      then have "e \<noteq> Overrun" by (auto simp: ck_byte_def Let_def and_then_eq_Inl c_assert_def split: if_splits option.splits)
      then show ?thesis using Inl by (simp add: eq)
    next
      case (Inr u)
      have "size_short u (cs @ zs)" using ck_byte_short [OF Inr, of "cs @ zs"] "2.prems"(1) by simp
      then show ?thesis using "2.IH"(2) [OF st Inr] "2.prems"(2) by (simp add: eq Inr)
    qed
  qed
qed

text \<open>The lines before the body leave the chunk size alone.\<close>

definition unchunked :: "http_parser \<Rightarrow> http_parser \<Rightarrow> bool" where
  "unchunked p q \<longleftrightarrow> chunk_len q = chunk_len p \<and> (stateM q = CHUNK_SIZE \<longrightarrow> stateM p = CHUNK_SIZE)"

lemma unchunked_refl [simp]: "unchunked p p"
  by (simp add: unchunked_def)

lemma unchunked_trans: "unchunked p q \<Longrightarrow> unchunked q r \<Longrightarrow> unchunked p r"
  by (simp add: unchunked_def)

lemma size_short_unchunked: "size_short p rest \<Longrightarrow> unchunked p q \<Longrightarrow> size_short q rest"
  by (auto simp: size_short_def unchunked_def)

lemma rq_step_unchunked: "rq_step b k p = Next q \<or> rq_step b k p = Back q \<Longrightarrow> unchunked p q"
  by (auto simp: rq_step_def rq_put_def header_setters Let_def unchunked_def split: if_splits)

lemma st_step_unchunked: "st_step b k p = Next q \<or> st_step b k p = Back q \<Longrightarrow> unchunked p q"
  by (auto simp: st_step_def st_put_def header_setters Let_def unchunked_def split: if_splits)

lemma hd_step_unchunked: "hd_step b k p = Next q \<or> hd_step b k p = Back q \<Longrightarrow> unchunked p q"
  by (auto simp: hd_step_def hd_put_def header_setters Let_def unchunked_def split: if_splits)

text \<open>\<open>calm P m\<close>: the run \<open>m\<close> does not overrun its input, and its result has \<open>P\<close>.\<close>

definition calm :: "('a \<Rightarrow> bool) \<Rightarrow> 'a exec \<Rightarrow> bool" where
  "calm P m \<longleftrightarrow> (case m of Inl e \<Rightarrow> e \<noteq> Overrun | Inr x \<Rightarrow> P x)"

lemma calm_Inr [simp]: "calm P (Inr x) = P x"
  by (simp add: calm_def)

lemma calm_Inl [simp]: "calm P (Inl e) = (e \<noteq> Overrun)"
  by (simp add: calm_def)

lemma calm_checks [simp]:
  "calm P (c_assert b) = (b \<longrightarrow> P ())" "calm P (in_bounds b) = (b \<longrightarrow> P ())"
  by (simp_all add: calm_def c_assert_def in_bounds_def)

lemma calm_and_then: "calm (\<lambda>x. calm P (f x)) m \<Longrightarrow> calm P (and_then m f)"
  by (cases m) (simp_all add: calm_def)

lemma calm_mono: "calm P m \<Longrightarrow> (\<And>x. P x \<Longrightarrow> Q x) \<Longrightarrow> calm Q m"
  by (cases m) (simp_all add: calm_def)

lemma calm_bind: "calm Q m \<Longrightarrow> (\<And>x. Q x \<Longrightarrow> calm P (f x)) \<Longrightarrow> calm P (and_then m f)"
  by (rule calm_and_then) (rule calm_mono)

lemma calmD: "calm P m \<Longrightarrow> m \<noteq> Inl Overrun" "calm P m \<Longrightarrow> m = Inr x \<Longrightarrow> P x"
  by (auto simp: calm_def)

lemma unchunked_frame [simp]:
  "unchunked p (q\<lparr>raw := a\<rparr>) = unchunked p q" "unchunked p (q\<lparr>headers := b\<rparr>) = unchunked p q"
  "unchunked p (q\<lparr>raw_capacity := c\<rparr>) = unchunked p q" "unchunked p (q\<lparr>header_capacity := c\<rparr>) = unchunked p q"
  "unchunked p (q\<lparr>content_length := l\<rparr>) = unchunked p q" "unchunked p (q\<lparr>connection_close := l\<rparr>) = unchunked p q"
  "unchunked p (q\<lparr>content_encoding := c\<rparr>) = unchunked p q" "unchunked p (q\<lparr>transfer_encoding := c\<rparr>) = unchunked p q"
  "unchunked p (q\<lparr>cookie := c\<rparr>) = unchunked p q" "unchunked p (q\<lparr>location := c\<rparr>) = unchunked p q"
  "unchunked p (q\<lparr>reply_code := l\<rparr>) = unchunked p q" "unchunked p (q\<lparr>raw_header_offset := c\<rparr>) = unchunked p q"
  "unchunked p (q\<lparr>raw_body_length := l\<rparr>) = unchunked p q" "unchunked p (q\<lparr>delivered := d\<rparr>) = unchunked p q"
  by (simp_all add: unchunked_def)

lemma unchunked_state [simp]: "unchunked p q \<Longrightarrow> s \<noteq> CHUNK_SIZE \<Longrightarrow> unchunked p (q\<lparr>stateM := s\<rparr>)"
  by (simp add: unchunked_def)

lemma calm_rawdata: "unchunked p q \<Longrightarrow> calm (\<lambda>(q, e). unchunked p q) (http_rawdata E q d)"
  by (simp add: http_rawdata_def raw_append_def Let_def calm_and_then)

lemma calm_body: "unchunked p q \<Longrightarrow> calm (unchunked p) (http_body E q d)"
  by (auto simp: http_body_def Let_def intro!: calm_bind [OF calm_rawdata] calm_and_then [of _ _ "c_assert _"])

lemma calm_poke: "unchunked p q \<Longrightarrow> calm (unchunked p) (raw_poke i c q)"
  by (simp add: raw_poke_def calm_and_then)

lemma calm_fill: "unchunked p q \<Longrightarrow> calm (unchunked p) (raw_fill j n q)"
  by (induction n arbitrary: j q) (auto intro: calm_bind [OF calm_poke])

lemma unchunked_version: "version_ok q = (q', b) \<Longrightarrow> unchunked p q \<Longrightarrow> unchunked p q'"
  by (auto simp: version_ok_def Let_def unchunked_def split: if_splits option.splits)

lemma calm_version: "unchunked p q \<Longrightarrow> (\<And>q' b. unchunked p q' \<Longrightarrow> calm P (f q' b)) \<Longrightarrow>
    calm P (case version_ok q of (q', b) \<Rightarrow> f q' b)"
  using unchunked_version by (cases "version_ok q") auto

lemma calm_rq_finish: "unchunked p q \<Longrightarrow> calm (\<lambda>(q, r). unchunked p q) (rq_finish q i)"
  by (auto simp: rq_finish_def intro!: calm_version calm_bind [OF calm_poke])

lemma calm_st_finish: "unchunked p q \<Longrightarrow> calm (\<lambda>(q, r). unchunked p q) (st_finish q i)"
  by (auto simp: st_finish_def intro!: calm_version calm_and_then [of _ _ "c_assert _"] calm_bind [OF calm_poke] unchunked_state)

lemma calm_handler: "unchunked p q \<Longrightarrow> calm (unchunked p) (http_header_handler E q n v)"
  by (auto simp: http_header_handler_def Let_def intro!: calm_and_then [of _ _ "c_assert _"] calm_poke)

lemma calm_add: "unchunked p q \<Longrightarrow> calm (\<lambda>(q, r). unchunked p q) (http_header_add E q h)"
  by (auto simp: http_header_add_def Let_def intro!: calm_and_then [of _ _ "c_assert _"]
      calm_and_then [of _ _ "in_bounds _"] calm_bind [OF calm_poke])

lemma calm_fold: "unchunked p q \<Longrightarrow> calm (unchunked p) (http_fold_header E q)"
  by (auto simp: http_fold_header_def Let_def intro!: calm_bind [OF calm_fill] calm_bind [OF calm_poke] calm_handler)

lemma calm_hd_finish: "unchunked p q \<Longrightarrow> calm (\<lambda>(q, r). unchunked p q) (hd_finish E q i)"
  by (auto simp: hd_finish_def intro!: calm_and_then [of _ _ "c_assert _"] calm_bind [OF calm_fold]
      calm_bind [OF calm_add] calm_bind [OF calm_handler] unchunked_state)

context line_parser
begin

lemma scan_quiet: "scan cs (k, p) \<noteq> Inl Overrun"
  by (induction cs k p rule: loop_induct) (simp_all add: loop_Nil loop_simps)

lemma calm_line:
  assumes step: "\<And>b k p q. step b k p = Next q \<or> step b k p = Back q \<Longrightarrow> unchunked p q"
    and finish: "\<And>p q i. unchunked p q \<Longrightarrow> calm (\<lambda>(q, r). unchunked p q) (fin E q i)"
  shows "calm (\<lambda>(q, r). unchunked p q) (line_parse scan fin ext E p data)"
proof (cases "scan data (length (raw p), p)")
  case (Inl e)
  then show ?thesis using scan_quiet [of data "length (raw p)" p] by (simp add: line_parse_def)
next
  case (Inr y)
  obtain k q ex where y: "y = ((k, q), ex)" by (metis surj_pair)
  have "unchunked p q"
    by (rule scan_invariant [OF Inr [unfolded y], where I = "\<lambda>_. unchunked p"])
      (use step unchunked_trans in \<open>blast+\<close> | simp)+
  then show ?thesis
    unfolding line_parse_def Inr y
    by (auto simp: Let_def split: option.split intro!: calm_bind [OF calm_rawdata] finish)
qed

end

lemma calm_request_line: "calm (\<lambda>(q, r). unchunked p q) (http_parse_request_line E p d)"
  unfolding request_line_parse by (rule rql.calm_line) (fact rq_step_unchunked, rule calm_rq_finish)

lemma calm_status_line: "calm (\<lambda>(q, r). unchunked p q) (http_parse_status_line E p d)"
  unfolding status_line_parse by (rule stl.calm_line) (fact st_step_unchunked, rule calm_st_finish)

lemma calm_header_line: "calm (\<lambda>(q, r). unchunked p q) (http_parse_header_line E p d)"
  unfolding header_line_parse by (rule hdl.calm_line) (fact hd_step_unchunked, rule calm_hd_finish)

lemma calm_start_line: "calm (\<lambda>(q, r). unchunked p q) (http_start_line E p d)"
  using calm_request_line [of p E d] calm_status_line [of p E d]
  by (simp add: http_start_line_def)

lemma calm_header_lines:
  "unchunked p0 p \<Longrightarrow> calm (\<lambda>(q, r, rest). unchunked p0 q \<and> (\<exists>n. rest = drop n d)) (http_header_lines E p r0 d)"
proof (induction E p r0 d rule: http_header_lines.induct)
  case (1 E p r0 data)
  show ?case
  proof (cases "data \<noteq> [] \<and> SM_HEADER \<le> stateM p \<and> stateM p < SM_BODY")
    case True
    then have eq: "http_header_lines E p r0 data = and_then (http_parse_header_line E p data) (\<lambda>(q, r).
          if r < 0 then Inr (q, r, data) else http_header_lines E q r (drop (nat r) data))"
      by (simp add: http_header_lines.simps [of E p r0 data])
    show ?thesis
    proof (cases "http_parse_header_line E p data")
      case (Inl e)
      then show ?thesis using calmD(1) [OF calm_header_line [of p E data]] by (simp add: eq)
    next
      case (Inr y)
      obtain q r where y: "y = (q, r)" by fastforce
      have q: "unchunked p0 q" using calmD(2) [OF calm_header_line Inr] 1(2) y unchunked_trans by simp
      show ?thesis
      proof (cases "r < 0")
        case True
        then show ?thesis using q Inr y by (auto simp: eq intro: exI [of _ 0])
      next
        case False
        have "calm (\<lambda>(q', r', rest). unchunked p0 q' \<and> (\<exists>n. rest = drop n (drop (nat r) data)))
            (http_header_lines E q r (drop (nat r) data))"
          using "1.IH" [OF True _ refl False q] Inr y by simp
        then show ?thesis using False Inr y
          by (auto simp: eq elim!: calm_mono)
      qed
    qed
  next
    case False
    have "http_header_lines E p r0 data = Inr (p, r0, data)"
      by (subst http_header_lines.simps) (simp only: False if_False)
    then show ?thesis using 1(2) by (auto intro: exI [of _ 0])
  qed
qed

text \<open>What holds of the parser between two calls, with \<open>rest\<close> the input to come.\<close>

definition chunk_inv :: "http_parser \<Rightarrow> string \<Rightarrow> bool" where
  "chunk_inv p rest \<longleftrightarrow> hp_inv p \<and> size_short p rest \<and>
     (stateM p = CHUNK_SIZE \<longrightarrow> is_transfer_encoding_chunked p)"

lemma size_short_later: "size_short p (d @ rest) \<Longrightarrow> stateM q \<noteq> CHUNK_SIZE \<Longrightarrow> chunk_len q = chunk_len p
    \<Longrightarrow> size_short q (drop n d @ rest)"
  using hex_short_append [of _ "take n d" "drop n d @ rest"]
  by (auto simp: size_short_def append_assoc [symmetric] simp del: append_assoc)

lemma hp_inv_te: "hp_inv p \<Longrightarrow> te_closed p"
  by (simp add: hp_inv_def rest_ok_def)

lemma calm_input_body:
  assumes inv: "hp_inv p" and short: "size_short p (d @ rest)" and len: "length d < 2 ^ 63"
    and size: "stateM p = CHUNK_SIZE \<longrightarrow> is_transfer_encoding_chunked p"
  shows "calm (\<lambda>(q, r, u). size_short q rest \<and> (stateM q = CHUNK_SIZE \<longrightarrow> is_transfer_encoding_chunked q))
    (http_input_body E p r0 d n)"
proof (cases "SM_BODY \<le> stateM p \<and> stateM p < SM_DONE \<and> is_transfer_encoding_chunked p")
  case True
  note ck = ck_scan_short [OF short, of 0 E]
  show ?thesis
  proof (cases "ck_scan E 0 d p")
    case (Inl e)
    then show ?thesis using True ck len by (simp add: http_input_body_def http_parse_chunked_def)
  next
    case (Inr y)
    obtain q ex where y: "y = (q, ex)" by fastforce
    have "te_frame p q" by (rule ck_scan_te [OF Inr [unfolded y]])
    then obtain s where s: "transfer_encoding q = transfer_encoding p" "raw q = raw p @ s"
      by (auto simp: te_frame_def)
    have "is_transfer_encoding_chunked q"
      using True chunked_append [OF hp_inv_te [OF inv] s] by simp
    then show ?thesis using True ck len Inr y
      by (cases ex) (simp_all add: http_input_body_def http_parse_chunked_def)
  qed
next
  case False
  show ?thesis
  proof (cases "SM_BODY \<le> stateM p \<and> stateM p < SM_DONE")
    case body: True
    then have st: "stateM p \<noteq> CHUNK_SIZE" and plain: "\<not> is_transfer_encoding_chunked p" using False size by auto
    have u: "unchunked p q \<Longrightarrow> stateM q \<noteq> CHUNK_SIZE \<and> size_short q rest" for q
      using size_short_later [OF short, of q "length d"] st by (auto simp: unchunked_def)
    have b: "calm (\<lambda>q. stateM q \<noteq> CHUNK_SIZE \<and> size_short q rest) (http_body E p x)" for x
      by (rule calm_mono [OF calm_body [of p p]]) (use u in auto)
    have done': "size_short q rest \<Longrightarrow> size_short (q\<lparr>stateM := SM_DONE\<rparr>) rest" for q
      by (auto simp: size_short_def)
    have "size_short (p\<lparr>content_length := 0, stateM := SM_DONE\<rparr>) rest"
      using u [of "p\<lparr>content_length := 0, stateM := SM_DONE\<rparr>"] by simp
    note none = this
    let ?Q = "\<lambda>(q, r, u). size_short q rest \<and> (stateM q = CHUNK_SIZE \<longrightarrow> is_transfer_encoding_chunked q)"
    have sent: "calm ?Q (and_then (http_body E p x) (\<lambda>q. Inr (if c q then q\<lparr>stateM := SM_DONE\<rparr> else q, v, w)))" for x v w c
      by (rule calm_bind [OF b]) (simp add: done')
    have eq: "http_input_body E p r0 d n =
       (if content_length p = -1 then
          (if request p = HTTP_PARSER_RESPONSE \<and> strcaseeq ''HTTP'' (protocol p)
              \<and> reply_code p \<noteq> 204 \<and> reply_code p \<noteq> 304
              \<and> (reply_code p < 100 \<or> reply_code p \<ge> 200) then
             and_then (http_body E p d) (\<lambda>q. Inr (if n = 0 then q\<lparr>stateM := SM_DONE\<rparr> else q, 0, []))
           else Inr (p\<lparr>content_length := 0, stateM := SM_DONE\<rparr>, r0, d))
        else
          and_then (c_assert (raw_body_length p \<le> content_length p)) (\<lambda>_.
          let n = (if int (length d) + raw_body_length p > content_length p
                   then nat (content_length p - raw_body_length p) else length d) in
          and_then (http_body E p (take n d)) (\<lambda>q.
          Inr (if raw_body_length q \<ge> content_length q then q\<lparr>stateM := SM_DONE\<rparr> else q, 0, drop n d))))"
      using body plain by (simp add: http_input_body_def)
    show ?thesis
    proof (cases "content_length p = -1")
      case True
      then show ?thesis unfolding eq if_P [OF True]
        by (intro if_split [where P = "calm ?Q", THEN iffD2] conjI impI sent) (simp add: none)
    next
      case False
      show ?thesis unfolding eq if_not_P [OF False] Let_def
        by (rule calm_and_then, simp only: calm_checks, rule impI, rule sent)
    qed
  next
    case out: False
    have "size_short p rest"
    proof (cases "stateM p = CHUNK_SIZE")
      case True
      then show ?thesis using out by simp
    next
      case False
      then show ?thesis using size_short_later [OF short False refl, of "length d"] by simp
    qed
    then show ?thesis using out size by (simp add: http_input_body_def)
  qed
qed

lemma start_line_body: "\<not> stateM p < SM_HEADER \<Longrightarrow> http_start_line E p d = Inr (p, 0)"
  by (simp add: http_start_line_def)

lemma calm_lines:
  assumes short: "size_short p (d @ rest)"
  shows "calm (\<lambda>(q, r). \<not> r < 0 \<longrightarrow> calm (\<lambda>(q', r', u). size_short q' (u @ rest) \<and> length u \<le> length d \<and>
      (stateM q' = CHUNK_SIZE \<longrightarrow> stateM p = CHUNK_SIZE \<and> is_transfer_encoding_chunked q' = is_transfer_encoding_chunked p))
    (http_header_lines E q r (drop (nat r) d))) (http_start_line E p d)"
proof (cases "stateM p = CHUNK_SIZE")
  case True
  then show ?thesis using short by (simp add: start_line_body header_lines_stop)
next
  case False
  have "calm (\<lambda>(q', r', u). size_short q' (u @ rest) \<and> length u \<le> length d \<and> stateM q' \<noteq> CHUNK_SIZE)
      (http_header_lines E q r (drop (nat r) d))" if "unchunked p q" for q r
  proof (rule calm_mono [OF calm_header_lines [OF that]], clarify, intro conjI)
    fix q' n
    assume u: "unchunked p q'"
    then show st: "stateM q' \<noteq> CHUNK_SIZE" using False by (auto simp: unchunked_def)
    show "size_short q' (drop n (drop (nat r) d) @ rest)"
      using size_short_later [OF short st, of "n + nat r"] u by (simp add: unchunked_def)
  qed simp
  note lines = this
  show ?thesis
    by (rule calm_mono [OF calm_start_line]) (use False in \<open>auto intro!: calm_mono [OF lines]\<close>)
qed

lemma input_chunk_inv:
  assumes inv: "chunk_inv p (d @ rest)" and len: "length d < 2 ^ 63"
  shows "calm (\<lambda>(q, r, n). r > 0 \<longrightarrow> chunk_inv q rest) (http_parser_input E p d)"
proof -
  let ?P = "\<lambda>q. size_short q rest \<and> (stateM q = CHUNK_SIZE \<longrightarrow> is_transfer_encoding_chunked q)"
  have hp: "hp_inv p" and short: "size_short p (d @ rest)"
    and size: "stateM p = CHUNK_SIZE \<longrightarrow> is_transfer_encoding_chunked p"
    using inv by (simp_all add: chunk_inv_def)
  have out: "calm (\<lambda>(q', r', n). r' > 0 \<longrightarrow> ?P q') (http_input_end q u)" if "?P q" for q u
    using that by (simp add: http_input_end_def calm_and_then)
  have "calm (\<lambda>(q, r, n). r > 0 \<longrightarrow> ?P q) (http_parser_input E p d)"
  proof (cases "http_start_line E p d")
    case (Inl e)
    then show ?thesis using calm_lines [OF short, of E] by (simp add: http_parser_input_def)
  next
    case (Inr y)
    obtain q r where y: "y = (q, r)" by fastforce
    show ?thesis
    proof (cases "r < 0")
      case True
      then show ?thesis using Inr y by (simp add: http_parser_input_def)
    next
      case False
      have hq: "hp_inv q" using start_line_safe_inv(2) [OF hp, of E d q r] Inr y False by simp
      note hl = header_lines_safe_inv [OF hq, of E r "drop (nat r) d"]
      have cl: "calm (\<lambda>(q', r', u). size_short q' (u @ rest) \<and> length u \<le> length d \<and>
          (stateM q' = CHUNK_SIZE \<longrightarrow> stateM p = CHUNK_SIZE \<and> is_transfer_encoding_chunked q' = is_transfer_encoding_chunked p))
          (http_header_lines E q r (drop (nat r) d))"
        using calm_lines [OF short, of E] Inr y False by simp
      show ?thesis
      proof (cases "http_header_lines E q r (drop (nat r) d)")
        case (Inl e)
        then show ?thesis using cl Inr y False \<open>http_start_line E p d = Inr y\<close> by (simp add: http_parser_input_def)
      next
        case (Inr z)
        obtain q' r' u where z: "z = (q', r', u)" by (metis surj_pair)
        show ?thesis
        proof (cases "r' < 0")
          case True
          then show ?thesis using Inr z y False \<open>http_start_line E p d = Inr y\<close> by (simp add: http_parser_input_def)
        next
          case nonneg: False
          have h': "hp_inv q'" using hl Inr z nonneg by auto
          have c': "size_short q' (u @ rest)" "length u < 2 ^ 63"
            "stateM q' = CHUNK_SIZE \<longrightarrow> is_transfer_encoding_chunked q'"
            using cl Inr z size len by auto
          have "http_parser_input E p d = and_then (http_input_body E q' r' u (length d)) (\<lambda>(p, r, rest).
              if r < 0 then Inr (p, r, length d) else http_input_end p rest)"
            using Inr z y False nonneg \<open>http_start_line E p d = Inr y\<close> by (simp add: http_parser_input_def)
          moreover have "calm (\<lambda>(q, r, n). r > 0 \<longrightarrow> ?P q) \<dots>"
            by (rule calm_bind [OF calm_input_body [OF h' c']]) (use out in \<open>auto split: if_splits\<close>)
          ultimately show ?thesis by simp
        qed
      qed
    qed
  qed
  then show ?thesis using input_safe_inv [OF hp, of E d]
    by (cases "http_parser_input E p d") (auto simp: chunk_inv_def)
qed

lemma feed_calm:
  "chunk_inv p (concat segs) \<Longrightarrow> \<forall>d \<in> set segs. length d < 2 ^ 63 \<Longrightarrow> http_feed E p segs \<noteq> Inl Overrun"
proof (induction segs arbitrary: p)
  case (Cons d ds)
  have c: "calm (\<lambda>(q, r, n). r > 0 \<longrightarrow> chunk_inv q (concat ds)) (http_parser_input E p d)"
    using input_chunk_inv [of p d "concat ds" E] Cons.prems by simp
  show ?case
  proof (cases "http_parser_input E p d")
    case (Inl e)
    then show ?thesis using c by simp
  next
    case (Inr y)
    then show ?thesis using c Cons.IH Cons.prems by (cases y) auto
  qed
qed simp

lemma chunk_inv_clear: "hex_short 0 rest \<Longrightarrow> chunk_inv (http_parser_clear p) rest"
  using hp_inv_clear [of p] by (auto simp: chunk_inv_def size_short_def http_parser_clear_def)

section \<open>Every run of the parser\<close>

text \<open>
  C1.  In a build with assertions, a parser that comes from \<open>http_parser_create\<close> or
  \<open>http_parser_reset\<close> stays inside its raw buffer, its header table and the input it is given, whatever bytes
  arrive, however they are cut into segments and whichever allocations fail: a call returns, or an
  \<^verbatim>\<open>assert\<close> stops the process, and the chunk loop leaves its input (\<open>Overrun\<close>, a real
  out-of-bounds access) only if sixteen hexadecimal digits in a row were sent.  Segments are shorter than \<open>2 ^ 31\<close>
  bytes, because the code returns what it consumed as an \<^verbatim>\<open>int\<close>.  With \<^verbatim>\<open>NDEBUG\<close> the code runs the same until the first assertion
  that would fail, and nothing is said of what it does then.
\<close>

theorem http_parser_memory_safe:
  assumes "http_parser_create E sz mode ondata = Some p \<or> p = http_parser_reset p0 mode"
    and "\<forall>d \<in> set segs. length d < 2 ^ 31"
    and "http_feed E p segs = Inl e"
  shows "e = Assert_failed \<or> e = Overrun \<and> \<not> hex_short 0 (concat segs)"
proof -
  obtain p' where p: "p = http_parser_clear p'"
    using assms(1) by (auto simp: http_parser_create_def http_parser_reset_def split: if_splits)
  have "\<forall>d \<in> set segs. length d < 2 ^ 63" using assms(2) by force
  moreover have "e \<noteq> Out_of_bounds" using feed_safe [OF hp_inv_clear, of E p' segs] assms(3) p by simp
  moreover have "hex_short 0 (concat segs) \<Longrightarrow> e \<noteq> Overrun"
    using feed_calm [OF chunk_inv_clear, of segs E p'] calculation(1) assms(3) p by auto
  ultimately show ?thesis by (cases e) auto
qed

text \<open>The bound is reached: a size of sixteen digits takes the loop past three bytes of data.\<close>

definition wrapping_response :: "string list" where
  "wrapping_response =
     [''HTTP/1.1 200 OK'' @ [CR, LF] @ ''Transfer-Encoding: chunked'' @ [CR, LF, CR, LF],
      ''FFFFFFFFFFFFFFFF'' @ [CR, LF] @ ''abc'']"

lemma http_chunk_size_wraps:
  "http_feed env0 (http_parser_reset http_parser_zero HTTP_PARSER_RESPONSE) wrapping_response = Inl Overrun"
  by (simp add: wrapping_response_def env0_def http_parser_reset_def http_eval)

theorem http_parser_memory_safe_witness:
  "http_feed env0 (http_parser_reset http_parser_zero HTTP_PARSER_RESPONSE) wrapping_response = Inl Overrun \<and>
   \<not> hex_short 0 (concat wrapping_response)"
proof -
  have "\<forall>d \<in> set wrapping_response. length d < 2 ^ 31" by (simp add: wrapping_response_def)
  from http_parser_memory_safe [OF disjI2 [OF refl] this http_chunk_size_wraps]
  show ?thesis using http_chunk_size_wraps by simp
qed

end
