(* ===== verification/HttpRequest.thy ===== *)
theory HttpRequest
  imports HttpStream
begin

text \<open>
  The request builder \<^verbatim>\<open>modules/networking/libhttp/src/http-request.c\<close>: a request is
  printed into a buffer whose last two bytes, the empty line, every new header overwrites.

  \<open>hr_text\<close> is the C string in the buffer and \<open>hr_len\<close> the length the object remembers.  The
  two differ after a \<^verbatim>\<open>snprintf\<close> that did not fit, because \<^verbatim>\<open>snprintf\<close> returns the
  length it wanted.
\<close>

section \<open>Numbers as text\<close>

definition digit_char :: "nat \<Rightarrow> char" where
  "digit_char d = char_of (48 + d)"

text \<open>\<^verbatim>\<open>%u\<close> and \<^verbatim>\<open>%d\<close>.\<close>

fun show_nat :: "nat \<Rightarrow> string" where
  "show_nat n = (if n < 10 then [digit_char n] else show_nat (n div 10) @ [digit_char (n mod 10)])"

declare show_nat.simps [simp del]

definition show_int :: "int \<Rightarrow> string" where
  "show_int i = (if i < 0 then CHR ''-'' # show_nat (nat (- i)) else show_nat (nat i))"

lemma digit_char_facts [simp]:
  "d < 10 \<Longrightarrow> is_digit (digit_char d)" "d < 10 \<Longrightarrow> digit_val (digit_char d) = d"
  by (simp_all add: digit_char_def is_digit_def digit_val_def)

lemma show_nat_digits: "\<forall>c \<in> set (show_nat n). is_digit c"
proof (induction n rule: show_nat.induct)
  case (1 n)
  then show ?case by (cases "n < 10") (auto simp: show_nat.simps [of n])
qed

lemma show_nat_not_Nil [simp]: "show_nat n \<noteq> []"
  by (subst show_nat.simps) simp

lemma show_nat_length: "n < 10 ^ k \<Longrightarrow> 0 < k \<Longrightarrow> length (show_nat n) \<le> k"
proof (induction k arbitrary: n)
  case (Suc k)
  show ?case
  proof (cases "n < 10")
    case False
    then have "n div 10 < 10 ^ k" "0 < k" using Suc.prems(1) by (auto simp: less_mult_imp_div_less mult.commute intro: ccontr)
    then show ?thesis using Suc.IH [of "n div 10"] False by (subst show_nat.simps) simp
  qed (subst show_nat.simps, simp)
qed simp

lemma dec_val_show_nat [simp]: "dec_val (show_nat n) = n"
proof (induction n rule: show_nat.induct)
  case (1 n)
  then show ?case
    by (cases "n < 10") (simp_all add: show_nat.simps [of n] dec_val_append, simp add: dec_val_def)
qed

lemma is_digit_not:
  "is_digit c \<Longrightarrow> \<not> is_space c \<and> c \<noteq> CHR ''-'' \<and> c \<noteq> CHR ''+'' \<and> c \<noteq> NUL"
  by (auto simp: is_digit_def is_space_def)

lemma read_dec_show_nat:
  assumes "rest = [] \<or> \<not> is_digit (hd rest)"
  shows "read_dec (show_nat n @ rest) = Some (False, n, rest)"
proof -
  obtain d ds where d: "show_nat n = d # ds" by (cases "show_nat n") simp_all
  have dig: "\<forall>c \<in> set (d # ds). is_digit c" using show_nat_digits [of n] by (simp add: d)
  then have nd: "\<not> is_space d" "d \<noteq> CHR ''-''" "d \<noteq> CHR ''+''" using is_digit_not [of d] by auto
  have front: "read_sign (skip_space (show_nat n @ rest)) = (False, show_nat n @ rest)"
    using nd by (simp add: d skip_space_def)
  have "takeWhile is_digit (show_nat n @ rest) = show_nat n"
    using assms show_nat_digits [of n] by (cases rest) (simp_all add: takeWhile_append)
  then show ?thesis by (simp add: read_dec_def front)
qed

lemma strtoull_show_nat: "int n \<le> ULLONG_MAX \<Longrightarrow> strtoull (show_nat n) = (int n, [])"
  using read_dec_show_nat [of "[]" n] by (simp add: strtoull_def)

lemma to_int64_small: "n < 2 ^ 63 \<Longrightarrow> to_int64 (int n) = int n"
  unfolding to_int64_def by (rule signed_take_bit_int_eq_self) auto

section \<open>The object\<close>

definition method_strings :: "string list" where
  "method_strings =
    [''DELETE'', ''GET'', ''HEAD'', ''POST'', ''PUT'', ''CONNECT'', ''OPTIONS'', ''TRACE'', ''COPY'',
     ''LOCK'', ''MKCOL'', ''MOVE'', ''PROPFIND'', ''PROPPATCH'', ''SEARCH'', ''UNLOCK'', ''BIND'',
     ''REBIND'', ''UNBIND'', ''ACL'', ''REPORT'', ''MKACTIVITY'', ''CHECKOUT'', ''MERGE'',
     ''M-SEARCH'', ''NOTIFY'', ''SUBSCRIBE'', ''UNSUBSCRIBE'', ''PATCH'', ''PURGE'', ''MKCALENDAR'',
     ''LINK'', ''UNLINK'', ''SOURCE'']"

text \<open>The index is compared as \<^verbatim>\<open>unsigned int\<close>.\<close>

definition http_method_str :: "int \<Rightarrow> string" where
  "http_method_str m =
     (if m mod 2 ^ 32 < int (length method_strings) then method_strings ! nat (m mod 2 ^ 32)
      else ''<unknown>'')"

record http_request =
  hr_version :: int
  hr_len :: nat
  hr_capacity :: nat
  hr_text :: string

abbreviation (input) HTTP_1_0 :: int where "HTTP_1_0 \<equiv> 0"
abbreviation (input) HTTP_1_1 :: int where "HTTP_1_1 \<equiv> 1"

definition http_request_create :: "(nat \<Rightarrow> bool) \<Rightarrow> nat \<Rightarrow> int \<Rightarrow> http_request option" where
  "http_request_create alloc obj_size version =
     (if version \<noteq> HTTP_1_0 \<and> version \<noteq> HTTP_1_1 then None
      else if \<not> alloc (obj_size + 1000 + 4) then None
      else Some \<lparr>hr_version = version, hr_len = 0, hr_capacity = 1000, hr_text = []\<rparr>)"

definition http_request_get :: "http_request \<Rightarrow> string \<times> nat" where
  "http_request_get q = (hr_text q, hr_len q)"

text \<open>\<^verbatim>\<open>snprintf(buf, size, ...)\<close>: what is stored of the text, and the result.\<close>

definition snprintf :: "nat \<Rightarrow> string \<Rightarrow> string \<times> nat" where
  "snprintf n text = (take (n - 1) text, length text)"

definition CRLF :: string where
  "CRLF = [CR, LF]"

definition s_version :: "int \<Rightarrow> string" where
  "s_version v = (if v mod 2 = 0 then ''1.0'' else ''1.1'')"

definition http_request_set_uri :: "http_request \<Rightarrow> int \<Rightarrow> string \<Rightarrow> (http_request \<times> int) exec" where
  "http_request_set_uri q m uri =
     and_then (c_assert (hr_version q = HTTP_1_0 \<or> hr_version q = HTTP_1_1)) (\<lambda>_.
     case snprintf (hr_capacity q)
            (http_method_str m @ '' '' @ uri @ '' HTTP/'' @ s_version (hr_version q) @ CRLF @ CRLF) of
       (text, n) \<Rightarrow>
         Inr (q\<lparr>hr_text := text, hr_len := n\<rparr>, if n + 1 \<ge> hr_capacity q then -1 else 0))"

text \<open>
  \<^verbatim>\<open>snprintf(ptr + off, capacity - off, ...)\<close>: \<open>off\<close> must not be past the buffer.  Beyond the
  terminator of the present text the store does not change the C string.
\<close>

definition print_at :: "http_request \<Rightarrow> nat \<Rightarrow> string \<Rightarrow> http_request exec" where
  "print_at q off text =
     and_then (in_bounds (off \<le> hr_capacity q)) (\<lambda>_.
     Inr (q\<lparr>hr_text := (if off \<le> length (hr_text q)
                       then take off (hr_text q) @ fst (snprintf (hr_capacity q - off) text)
                       else hr_text q)\<rparr>))"

definition http_request_set_header ::
    "(nat \<Rightarrow> bool) \<Rightarrow> http_request \<Rightarrow> string \<Rightarrow> string \<Rightarrow> (http_request \<times> int) exec" where
  "http_request_set_header alloc q name val =
     (let nc = length name; vc = length val;
          line = name @ '': '' @ val @ CRLF @ CRLF;
          store = (\<lambda>q. and_then (c_assert (hr_len q > 0)) (\<lambda>_.
            and_then (print_at q (hr_len q - 2) line) (\<lambda>q.
            Inr (q\<lparr>hr_len := hr_len q + (length line - 2)\<rparr>, 0))))
      in if hr_len q + nc + vc + 4 \<ge> hr_capacity q then
           if \<not> alloc (hr_capacity q + nc + vc + 1024 + 4) then Inr (q, ENOMEM)
           else store (q\<lparr>hr_capacity := hr_capacity q + (nc + vc + 1024)\<rparr>)
         else store q)"

definition http_request_set_host ::
    "(nat \<Rightarrow> bool) \<Rightarrow> http_request \<Rightarrow> string \<Rightarrow> int \<Rightarrow> (http_request \<times> int) exec" where
  "http_request_set_host alloc q ip port =
     (case snprintf 256 (ip @ '':'' @ show_int port) of (host, n) \<Rightarrow>
        if 256 \<le> n + 1 then Inr (q, -1) else http_request_set_header alloc q ''Host'' host)"

definition http_request_set_cookie ::
    "(nat \<Rightarrow> bool) \<Rightarrow> http_request \<Rightarrow> string \<Rightarrow> (http_request \<times> int) exec" where
  "http_request_set_cookie alloc q s = http_request_set_header alloc q ''Cookie'' s"

definition http_request_set_content_lenth ::
    "(nat \<Rightarrow> bool) \<Rightarrow> http_request \<Rightarrow> nat \<Rightarrow> (http_request \<times> int) exec" where
  "http_request_set_content_lenth alloc q bytes =
     (case snprintf 32 (show_nat (bytes mod 2 ^ 32)) of (s, n) \<Rightarrow>
        if 32 \<le> n + 1 then Inr (q, -1) else http_request_set_header alloc q ''Content-Length'' s)"

definition http_request_set_content_type ::
    "(nat \<Rightarrow> bool) \<Rightarrow> http_request \<Rightarrow> string \<Rightarrow> (http_request \<times> int) exec" where
  "http_request_set_content_type alloc q val = http_request_set_header alloc q ''Content-Type'' val"

definition http_request_set_header_int ::
    "(nat \<Rightarrow> bool) \<Rightarrow> http_request \<Rightarrow> string \<Rightarrow> int \<Rightarrow> (http_request \<times> int) exec" where
  "http_request_set_header_int alloc q name val =
     (case snprintf 32 (show_int val) of (s, n) \<Rightarrow>
        if 32 \<le> n + 1 then Inr (q, -1) else http_request_set_header alloc q name s)"

section \<open>What the buffer holds\<close>

text \<open>The message of a request line and a list of headers.\<close>

definition header_text :: "string \<times> string \<Rightarrow> string" where
  "header_text h = fst h @ '': '' @ snd h @ CRLF"

definition request_line :: "string \<Rightarrow> string \<Rightarrow> int \<Rightarrow> string" where
  "request_line m uri v = m @ '' '' @ uri @ '' HTTP/'' @ s_version v @ CRLF"

definition request_text :: "string \<Rightarrow> string \<Rightarrow> int \<Rightarrow> (string \<times> string) list \<Rightarrow> string" where
  "request_text m uri v hs = request_line m uri v @ concat (map header_text hs) @ CRLF"

definition builder_ok :: "http_request \<Rightarrow> string \<Rightarrow> bool" where
  "builder_ok q text \<longleftrightarrow> hr_text q = text \<and> hr_len q = length text \<and> length text < hr_capacity q"

lemma builder_header:
  assumes "builder_ok q (front @ CRLF)" and "http_request_set_header alloc q name val = Inr (q', r)"
  shows "r = 0 \<Longrightarrow> builder_ok q' (front @ header_text (name, val) @ CRLF)"
    and "r \<noteq> 0 \<Longrightarrow> r = ENOMEM \<and> q' = q"
proof -
  have ok: "hr_text q = front @ CRLF" "hr_len q = length front + 2" "length front + 2 < hr_capacity q"
    using assms(1) by (simp_all add: builder_ok_def CRLF_def)
  show "r \<noteq> 0 \<Longrightarrow> r = ENOMEM \<and> q' = q"
    using assms(2)
    by (auto simp: http_request_set_header_def Let_def and_then_eq_Inr split: if_splits)
  assume "r = 0"
  then show "builder_ok q' (front @ header_text (name, val) @ CRLF)"
    using assms(2) ok
    by (auto simp: http_request_set_header_def Let_def and_then_eq_Inr print_at_def snprintf_def
        builder_ok_def header_text_def CRLF_def split: if_splits)
qed

lemma builder_no_fault:
  assumes "builder_ok q (front @ CRLF)"
  shows "\<exists>q' r. http_request_set_header alloc q name val = Inr (q', r)"
proof -
  have ok: "hr_len q = length front + 2" "length front + 2 < hr_capacity q"
    using assms by (simp_all add: builder_ok_def CRLF_def)
  then show ?thesis
    by (auto simp: http_request_set_header_def Let_def print_at_def)
qed

lemma builder_uri:
  assumes "http_request_create alloc sz v = Some q" and "http_request_set_uri q m uri = Inr (q', 0)"
  shows "builder_ok q' (request_line (http_method_str m) uri v @ CRLF)" and "hr_version q' = v"
  using assms
  by (auto simp: http_request_create_def http_request_set_uri_def snprintf_def builder_ok_def
      request_line_def CRLF_def Let_def and_then_eq_Inr split: if_splits)

text \<open>Setting a list of headers, stopping at the first error.\<close>

fun set_headers :: "(nat \<Rightarrow> bool) \<Rightarrow> http_request \<Rightarrow> (string \<times> string) list \<Rightarrow> (http_request \<times> int) exec" where
  "set_headers alloc q [] = Inr (q, 0)"
| "set_headers alloc q ((n, v) # hs) =
     and_then (http_request_set_header alloc q n v) (\<lambda>(q', r).
       if r \<noteq> 0 then Inr (q', r) else set_headers alloc q' hs)"

lemma builder_headers:
  assumes "builder_ok q (front @ CRLF)" and "set_headers alloc q hs = Inr (q', 0)"
  shows "builder_ok q' (front @ concat (map header_text hs) @ CRLF)"
  using assms
proof (induction hs arbitrary: q front)
  case (Cons h hs)
  obtain n v where h: "h = (n, v)" by fastforce
  then obtain q1 where q1: "http_request_set_header alloc q n v = Inr (q1, 0)"
      and rest: "set_headers alloc q1 hs = Inr (q', 0)"
    using Cons.prems(2) by (auto simp: and_then_eq_Inr split: if_splits)
  have "builder_ok q1 ((front @ header_text h) @ CRLF)"
    using builder_header(1) [OF Cons.prems(1) q1] h by simp
  from Cons.IH [OF this rest] show ?case by simp
qed simp

end
