(* ===== verification/HttpRoundtrip.thy ===== *)
theory HttpRoundtrip
  imports HttpRequest HttpSafety
begin

text \<open>
  What the parser reads from a well-formed request: the request line, the headers and a body of
  known length come out as they went in, and the bytes after the message are reported.
\<close>

section \<open>Words\<close>

definition word_ok :: "string \<Rightarrow> bool" where
  "word_ok w \<longleftrightarrow> w \<noteq> [] \<and> (\<forall>c \<in> set w. \<not> is_break c \<and> c \<noteq> NUL)"

lemma is_break_SPC [simp]: "is_break SPC" "is_break TAB" "is_break CR" "is_break LF"
  by (simp_all add: is_break_def)

text \<open>A word of the request line: its first byte leaves the blank state, its end is marked.\<close>

lemma rq_word:
  assumes "stateM p = s" and "s = 0 \<or> s = 2 \<or> s = 4" and "word_ok w" and "is_break c"
  shows "rq_scan (w @ c # rest) (k, p) =
    rq_scan (c # rest) (k + length w,
      (rq_put (s + 1) (k + length w - k) (rq_put s k p))\<lparr>stateM := s + 2\<rparr>)"
proof -
  obtain b bs where w: "w = b # bs" and b: "\<not> is_break b" using assms(3) by (cases w) (auto simp: word_ok_def)
  let ?q = "(rq_put s k p)\<lparr>stateM := s + 1\<rparr>"
  have "rq_step b k p = Back ?q"
    using assms(2,1) b by (elim disjE) (simp_all add: rq_step_def is_break_def)
  then have "rq_scan (w @ c # rest) (k, p) = rq_scan (w @ c # rest) (k, ?q)"
    by (simp add: w rq.loop_simps)
  also have "\<dots> = rq_scan (c # rest) (k + length w, ?q)"
  proof (rule rq.scan_run)
    fix c k
    assume "c \<in> set w"
    then have "\<not> is_break c" using assms(3) by (simp add: word_ok_def)
    then show "rq_step c k ?q = Next ?q"
      using assms(2) by (elim disjE) (simp_all add: rq_step_def)
  qed
  also have "rq_step c (k + length w) ?q =
      Back ((rq_put (s + 1) (k + length w - k) (rq_put s k p))\<lparr>stateM := s + 2\<rparr>)"
    using assms(2,4) by (elim disjE) (simp_all add: rq_step_def rq_put_def rq_get_def header_setters)
  then have "rq_scan (c # rest) (k + length w, ?q) =
      rq_scan (c # rest) (k + length w, (rq_put (s + 1) (k + length w - k) (rq_put s k p))\<lparr>stateM := s + 2\<rparr>)"
    by (rule rq.loop_simps)
  finally show ?thesis .
qed

lemma rq_blank:
  assumes "stateM p = 2 \<or> stateM p = 4"
  shows "rq_scan (SPC # rest) (k, p) = rq_scan rest (k + 1, p)"
  using assms by (intro rq.loop_simps) (auto simp: rq_step_def)

lemma rq_end:
  assumes "stateM p = 6"
  shows "rq_scan (CR # LF # rest) (k, p) = Inr ((k + 1, p\<lparr>stateM := 8\<rparr>), Some (LF # rest))"
proof -
  have "rq_step CR k p = Next (p\<lparr>stateM := 7\<rparr>)" using assms by (simp add: rq_step_def)
  moreover have "rq_step LF (k + 1) (p\<lparr>stateM := 7\<rparr>) = Back (p\<lparr>stateM := 8\<rparr>)" by (simp add: rq_step_def)
  moreover have "rq_step LF (k + 1) (p\<lparr>stateM := 8\<rparr>) = Stop" by (simp add: rq_step_def)
  ultimately show ?thesis by (simp add: rq.loop_simps)
qed

text \<open>The parser after a request line that starts at offset \<open>k\<close>.\<close>

definition rq_read :: "nat \<Rightarrow> string \<Rightarrow> string \<Rightarrow> string \<Rightarrow> http_parser \<Rightarrow> http_parser" where
  "rq_read k m u v p = p\<lparr>req_method := \<lparr>hs_pos = k, hs_len = length m\<rparr>,
     req_uri := \<lparr>hs_pos = k + length m + 1, hs_len = length u\<rparr>,
     header := (header p)\<lparr>hh_name := \<lparr>hs_pos = k + length m + length u + 2, hs_len = length v\<rparr>\<rparr>,
     stateM := 8\<rparr>"

lemma rq_line:
  assumes "stateM p = 0" and "word_ok m" and "word_ok u" and "word_ok v"
  shows "rq_scan (m @ SPC # u @ SPC # v @ CR # LF # rest) (k, p) =
    Inr ((k + length (m @ SPC # u @ SPC # v @ [CR]), rq_read k m u v p), Some (LF # rest))"
proof -
  let ?p1 = "(rq_put 1 (length m) (rq_put 0 k p))\<lparr>stateM := 2\<rparr>"
  let ?k1 = "k + length m + 1"
  let ?p2 = "(rq_put 3 (length u) (rq_put 2 ?k1 ?p1))\<lparr>stateM := 4\<rparr>"
  let ?k2 = "?k1 + length u + 1"
  let ?p3 = "(rq_put 5 (length v) (rq_put 4 ?k2 ?p2))\<lparr>stateM := 6\<rparr>"
  have "rq_scan (m @ SPC # u @ SPC # v @ CR # LF # rest) (k, p) = rq_scan (u @ SPC # v @ CR # LF # rest) (?k1, ?p1)"
    using rq_word [OF assms(1) _ assms(2), of SPC _ k] by (simp add: rq_blank numeral_2_eq_2)
  also have "\<dots> = rq_scan (v @ CR # LF # rest) (?k2, ?p2)"
    using rq_word [of ?p1 2 u SPC "v @ CR # LF # rest" ?k1] assms(3) by (simp add: rq_blank)
  also have "\<dots> = rq_scan (CR # LF # rest) (?k2 + length v, ?p3)"
    using rq_word [of ?p2 4 v CR "LF # rest" ?k2] assms(4) by simp
  also have "\<dots> = Inr ((?k2 + length v + 1, ?p3\<lparr>stateM := 8\<rparr>), Some (LF # rest))"
    by (rule rq_end) simp
  finally show ?thesis by (simp add: rq_read_def rq_put_def header_setters ac_simps)
qed


section \<open>The request line\<close>

lemma version_ok_http:
  assumes "cstr_at p (name_pos p) = ''HTTP/'' @ s_version ver @ [CR]"
  shows "version_ok p = (p\<lparr>protocol := ''HTTP'', vermajor := 1, verminor := ver mod 2\<rparr>, True)"
proof (cases "ver mod 2 = 0")
  case True
  then show ?thesis using assms
    by (simp add: version_ok_def s_version_def http_line_eval Let_def)
next
  case False
  then have "ver mod 2 = 1" by presburger
  then show ?thesis using assms
    by (simp add: version_ok_def s_version_def http_line_eval Let_def)
qed

definition request_head :: "string \<Rightarrow> string \<Rightarrow> int \<Rightarrow> string" where
  "request_head m u ver = m @ SPC # u @ SPC # (''HTTP/'' @ s_version ver) @ [CR]"

definition request_raw :: "string \<Rightarrow> string \<Rightarrow> int \<Rightarrow> string" where
  "request_raw m u ver = m @ NUL # u @ NUL # (''HTTP/'' @ s_version ver) @ [CR]"

definition rq_done :: "nat \<Rightarrow> string \<Rightarrow> string \<Rightarrow> int \<Rightarrow> http_parser \<Rightarrow> http_parser" where
  "rq_done c m u ver p = (rq_read 0 m u (''HTTP/'' @ s_version ver) p)
     \<lparr>raw := request_raw m u ver, raw_capacity := c, protocol := ''HTTP'', vermajor := 1,
      verminor := ver mod 2, stateM := SM_HEADER\<rparr>"

lemma word_ok_version: "word_ok (''HTTP/'' @ s_version ver)"
  by (auto simp: word_ok_def s_version_def is_break_def)

lemma takeWhile_all: "(\<forall>c \<in> set xs. P c) \<Longrightarrow> takeWhile P xs = xs"
  by (simp add: takeWhile_eq_all_conv)

lemma request_line_ok:
  assumes "roomy E" and "buf_ok p" and "raw p = []" and "stateM p = SM_START_LINE"
    and "word_ok m" and "word_ok u" and "length (request_head m u ver) \<le> HTTP_BODY_LENGTH_MAX"
  shows "\<exists>c. http_parse_request_line E p (request_head m u ver @ LF # rest) =
      Inr (rq_done c m u ver p, int (length (request_head m u ver) + 1)) \<and>
    length (request_raw m u ver) \<le> c"
proof -
  let ?v = "''HTTP/'' @ s_version ver"
  let ?r = "rq_read 0 m u ?v p"
  have scan: "rq_scan (request_head m u ver @ LF # rest) (length (raw p), p) =
      Inr ((length (request_head m u ver), ?r), Some (LF # rest))"
    using rq_line [OF assms(4-6) word_ok_version, of ver rest 0]
    by (simp add: request_head_def assms(3))
  have r: "raw ?r = []" "raw_capacity ?r = raw_capacity p" "delivered ?r = delivered p"
    by (simp_all add: rq_read_def assms(3))
  obtain c where rd: "http_rawdata E ?r (request_head m u ver) =
      Inr (upd c (delivered p) (?r\<lparr>raw := request_head m u ver\<rparr>), 0)" and c: "length (request_head m u ver) \<le> c"
    using http_rawdata_roomy [of E ?r "request_head m u ver"] assms(1,2,7) r by (auto simp: buf_ok_def)
  let ?q = "upd c (delivered p) (?r\<lparr>raw := request_head m u ver\<rparr>)"
  have q: "raw ?q = request_head m u ver" "name_pos ?q = length m + length u + 2" "name_len ?q = length ?v"
    "req_method ?q = \<lparr>hs_pos = 0, hs_len = length m\<rparr>" "req_uri ?q = \<lparr>hs_pos = length m + 1, hs_len = length u\<rparr>"
    by (simp_all add: rq_read_def)
  have "cstr_at ?q (name_pos ?q) = takeWhile (\<lambda>c. c \<noteq> NUL) (?v @ [CR])"
    unfolding cstr_at_def q by (simp add: request_head_def)
  also have "\<dots> = ?v @ [CR]"
    using word_ok_version [of ver] by (intro takeWhile_all) (auto simp: word_ok_def)
  finally have v: "version_ok ?q = (?q\<lparr>protocol := ''HTTP'', vermajor := 1, verminor := ver mod 2\<rparr>, True)"
    by (intro version_ok_http) simp
  have ne: "m \<noteq> []" "u \<noteq> []" using assms(5,6) by (auto simp: word_ok_def)
  have "rq_finish ?q (length (request_head m u ver)) =
      Inr (rq_done c m u ver p, int (length (request_head m u ver) + 1))"
    using ne v
    by (simp add: rq_finish_def q raw_poke_def)
      (simp add: rq_done_def rq_read_def request_head_def request_raw_def upd_def s_version_def list_update_append)
  then have "http_parse_request_line E p (request_head m u ver @ LF # rest) =
      Inr (rq_done c m u ver p, int (length (request_head m u ver) + 1))"
    using scan rd by (simp add: http_parse_request_line_def assms(3))
  then show ?thesis using c by (auto simp: request_head_def request_raw_def)
qed

section \<open>Header lines\<close>

definition name_ok :: "string \<Rightarrow> bool" where
  "name_ok n \<longleftrightarrow> n \<noteq> [] \<and> (\<forall>c \<in> set n. token_char c)"

text \<open>A value does not begin or end with a blank and has no line break; it may be empty.\<close>

definition value_ok :: "string \<Rightarrow> bool" where
  "value_ok v \<longleftrightarrow> (\<forall>c \<in> set v. c \<noteq> CR \<and> c \<noteq> LF \<and> c \<noteq> NUL) \<and>
     (v \<noteq> [] \<longrightarrow> \<not> is_blank (hd v) \<and> \<not> is_blank (last v))"

lemma token_char_facts:
  "token_char c \<Longrightarrow> \<not> is_break c \<and> c \<noteq> CHR '':'' \<and> c \<noteq> NUL"
proof -
  have "\<not> token_char SPC" "\<not> token_char TAB" "\<not> token_char CR" "\<not> token_char LF" "\<not> token_char NUL"
    "\<not> token_char (CHR '':'')" by (simp_all add: token_char_def)
  then show "token_char c \<Longrightarrow> \<not> is_break c \<and> c \<noteq> CHR '':'' \<and> c \<noteq> NUL"
    unfolding is_break_def by metis
qed

lemma hd_name:
  assumes "stateM p = SM_HEADER" and "name_ok n"
  shows "hd_scan (n @ CHR '':'' # SPC # rest) (k, p) =
    hd_scan rest (k + length n + 2, (set_name_len (length n) (set_name_pos k p))\<lparr>stateM := SM_HEADER_SP2\<rparr>)"
proof -
  obtain b bs where n: "n = b # bs" and b: "token_char b" using assms(2) by (cases n) (auto simp: name_ok_def)
  let ?c = "CHR '':''"
  let ?q = "(set_name_pos k p)\<lparr>stateM := SM_HEADER_NAME\<rparr>"
  let ?r = "set_name_len (length n) (set_name_pos k p)"
  have "hd_step b k p = Back ?q"
    using assms(1) token_char_facts [OF b] by (simp add: hd_step_def is_break_def)
  then have "hd_scan (n @ ?c # SPC # rest) (k, p) = hd_scan (n @ ?c # SPC # rest) (k, ?q)"
    by (simp add: n hd.loop_simps)
  also have "\<dots> = hd_scan (?c # SPC # rest) (k + length n, ?q)"
  proof (rule hd.scan_run)
    fix c k
    assume "c \<in> set n"
    then have "token_char c" using assms(2) by (simp add: name_ok_def)
    then show "hd_step c k ?q = Next ?q" using token_char_facts [of c] by (simp add: hd_step_def)
  qed
  also have "\<dots> = hd_scan (?c # SPC # rest) (k + length n, ?r\<lparr>stateM := SM_HEADER_SP1\<rparr>)"
    by (rule hd.loop_simps) (simp add: hd_step_def hd_put_def hd_get_def header_setters)
  also have "\<dots> = hd_scan (?c # SPC # rest) (k + length n, ?r\<lparr>stateM := SM_HEADER_SEPARATOR\<rparr>)"
    by (rule hd.loop_simps) (simp add: hd_step_def hd_put_def hd_get_def header_setters)
  also have "\<dots> = hd_scan (SPC # rest) (k + length n + 1, ?r\<lparr>stateM := SM_HEADER_SP2\<rparr>)"
    by (rule hd.loop_simps) (simp add: hd_step_def)
  also have "\<dots> = hd_scan rest (k + length n + 1 + 1, ?r\<lparr>stateM := SM_HEADER_SP2\<rparr>)"
    by (rule hd.loop_simps) (simp add: hd_step_def)
  finally show ?thesis by simp
qed

lemma set_value_len_self: "set_value_len (value_len p) p = p"
  by (simp add: header_setters)

lemma hd_value_run:
  assumes "stateM p = SM_HEADER_VALUE \<or> stateM p = SM_HEADER_SP3" and "\<forall>c \<in> set w. c \<noteq> CR \<and> c \<noteq> LF"
  shows "\<exists>l s. hd_scan (w @ rest) (k, p) = hd_scan rest (k + length w, (set_value_len l p)\<lparr>stateM := s\<rparr>) \<and>
    (s = SM_HEADER_VALUE \<or> s = SM_HEADER_SP3) \<and>
    (if w = [] then s = stateM p else \<not> is_blank (last w) \<longrightarrow> s = SM_HEADER_VALUE)"
  using assms
proof (induction w arbitrary: k p)
  case Nil
  have "(set_value_len (value_len p) p)\<lparr>stateM := stateM p\<rparr> = p" by (simp add: set_value_len_self)
  then show ?case using Nil
    by (intro exI [of _ "value_len p"] exI [of _ "stateM p"]) simp
next
  case (Cons c w)
  have one: "\<exists>l s. hd_scan (c # w @ rest) (k, p) = hd_scan (w @ rest) (k + 1, (set_value_len l p)\<lparr>stateM := s\<rparr>) \<and>
      (s = SM_HEADER_VALUE \<or> s = SM_HEADER_SP3) \<and> (\<not> is_blank c \<longrightarrow> s = SM_HEADER_VALUE)"
  proof (cases "is_blank c")
    case blank: True
    show ?thesis
    proof (cases "stateM p = SM_HEADER_VALUE")
      case True
      let ?q = "(set_value_len (k - value_pos p) p)\<lparr>stateM := SM_HEADER_SP3\<rparr>"
      have "hd_step c k p = Back ?q"
        using True blank by (auto simp: hd_step_def is_blank_def is_break_def hd_put_def hd_get_def)
      moreover have "hd_step c k ?q = Next ?q" using blank by (simp add: hd_step_def is_blank_def)
      ultimately show ?thesis
        by (intro exI [of _ "k - value_pos p"] exI [of _ SM_HEADER_SP3]) (simp add: hd.loop_simps blank)
    next
      case False
      then have st: "stateM p = SM_HEADER_SP3" and step: "hd_step c k p = Next p"
        using blank Cons.prems(1) by (simp_all add: hd_step_def is_blank_def)
      have "hd_scan (c # w @ rest) (k, p) =
          hd_scan (w @ rest) (k + 1, (set_value_len (value_len p) p)\<lparr>stateM := stateM p\<rparr>)"
        using hd.loop_simps(1) [OF step] by (simp add: set_value_len_self)
      then show ?thesis using st blank by blast
    qed
  next
    case False
    then have "\<not> is_break c" using Cons.prems(2) by (simp add: is_blank_def is_break_def)
    then have "hd_step c k p = Next (p\<lparr>stateM := SM_HEADER_VALUE\<rparr>)"
      using False Cons.prems by (elim disjE) (simp_all add: hd_step_def is_break_def is_blank_def)
    then show ?thesis
      by (intro exI [of _ "value_len p"] exI [of _ SM_HEADER_VALUE])
        (simp add: hd.loop_simps set_value_len_self)
  qed
  from one obtain l s where q: "hd_scan (c # w @ rest) (k, p) = hd_scan (w @ rest) (k + 1, (set_value_len l p)\<lparr>stateM := s\<rparr>)"
    and s: "s = SM_HEADER_VALUE \<or> s = SM_HEADER_SP3" "\<not> is_blank c \<longrightarrow> s = SM_HEADER_VALUE" by blast
  obtain l' s' where r: "hd_scan (w @ rest) (k + 1, (set_value_len l p)\<lparr>stateM := s\<rparr>) =
      hd_scan rest (k + 1 + length w, (set_value_len l' ((set_value_len l p)\<lparr>stateM := s\<rparr>))\<lparr>stateM := s'\<rparr>)"
    and s': "s' = SM_HEADER_VALUE \<or> s' = SM_HEADER_SP3"
      "if w = [] then s' = s else \<not> is_blank (last w) \<longrightarrow> s' = SM_HEADER_VALUE"
    using Cons.IH [of "(set_value_len l p)\<lparr>stateM := s\<rparr>" "k + 1"] Cons.prems(2) s(1) by auto
  have "(set_value_len l' ((set_value_len l p)\<lparr>stateM := s\<rparr>))\<lparr>stateM := s'\<rparr> = (set_value_len l' p)\<lparr>stateM := s'\<rparr>"
    by (simp add: header_setters)
  then show ?case using q r s s'
    by (intro exI [of _ l'] exI [of _ s']) (auto split: if_splits)
qed

lemma hd_value:
  assumes "stateM p = SM_HEADER_SP2" and "value_ok v"
  shows "hd_scan (v @ CR # LF # rest) (k, p) =
    Inr ((k + length v + 1, (set_value_len (length v) (set_value_pos k p))\<lparr>stateM := SM_HEADER_LF\<rparr>), Some (LF # rest))"
proof -
  let ?q = "(set_value_pos k p)\<lparr>stateM := SM_HEADER_VALUE\<rparr>"
  have first: "hd_step c k p = Back ?q" if "\<not> is_blank c" for c
    using that assms(1) by (simp add: hd_step_def is_blank_def hd_put_def)
  have start: "hd_scan (v @ CR # LF # rest) (k, p) = hd_scan (v @ CR # LF # rest) (k, ?q)"
  proof (cases v)
    case Nil
    then show ?thesis using first [of CR] by (simp add: hd.loop_simps is_blank_def)
  next
    case (Cons c w)
    then show ?thesis using first [of c] assms(2) by (simp add: hd.loop_simps value_ok_def)
  qed
  obtain l s where run: "hd_scan (v @ CR # LF # rest) (k, ?q) =
      hd_scan (CR # LF # rest) (k + length v, (set_value_len l ?q)\<lparr>stateM := s\<rparr>)"
    and s: "if v = [] then s = stateM ?q else \<not> is_blank (last v) \<longrightarrow> s = SM_HEADER_VALUE"
    using hd_value_run [of ?q v "CR # LF # rest" k] assms(2) by (auto simp: value_ok_def)
  have s: "s = SM_HEADER_VALUE" using s assms(2) by (cases "v = []") (auto simp: value_ok_def)
  let ?r = "set_value_len (length v) (set_value_pos k p)"
  have "hd_scan (CR # LF # rest) (k + length v, (set_value_len l ?q)\<lparr>stateM := s\<rparr>) =
      hd_scan (CR # LF # rest) (k + length v, ?r\<lparr>stateM := SM_HEADER_SP3\<rparr>)"
    by (rule hd.loop_simps) (simp add: s hd_step_def hd_put_def hd_get_def header_setters)
  also have "\<dots> = hd_scan (LF # rest) (k + length v + 1, ?r\<lparr>stateM := SM_HEADER_CR\<rparr>)"
    by (rule hd.loop_simps) (simp add: hd_step_def)
  also have "\<dots> = hd_scan (LF # rest) (k + length v + 1, ?r\<lparr>stateM := SM_HEADER_LF\<rparr>)"
    by (rule hd.loop_simps) (simp add: hd_step_def)
  also have "\<dots> = Inr ((k + length v + 1, ?r\<lparr>stateM := SM_HEADER_LF\<rparr>), Some (LF # rest))"
    by (rule hd.loop_simps) (simp add: hd_step_def)
  finally show ?thesis using start run by simp
qed

text \<open>What a header line leaves alone.\<close>

definition line_frame where
  "line_frame p = (req_method p, req_uri p, protocol p, vermajor p, verminor p, request p,
     raw_body_length p, has_callback p, transfer_encoding p)"

definition after_header :: "string \<Rightarrow> string \<Rightarrow> int \<Rightarrow> http_parser \<Rightarrow> http_parser \<Rightarrow> bool" where
  "after_header n v l p q \<longleftrightarrow>
     raw q = raw p @ n @ [NUL, SPC] @ v @ [NUL, LF] \<and> buf_ok q \<and> stateM q = SM_HEADER \<and>
     headers q = headers p @ [\<lparr>hh_name = \<lparr>hs_pos = length (raw p), hs_len = length n\<rparr>,
        hh_value = \<lparr>hs_pos = length (raw p) + length n + 2, hs_len = length v\<rparr>\<rparr>] \<and>
     length (headers q) \<le> header_capacity q \<and> content_length q = l \<and> line_frame q = line_frame p"

lemma header_add_exact:
  assumes "roomy E" and "length (headers p) \<le> header_capacity p"
    and "hs_pos (hh_name h) > 0" and "hs_len (hh_name h) > 0" and "hs_pos (hh_value h) > 0"
    and "hs_pos (hh_name h) + hs_len (hh_name h) < length (raw p)"
    and "hs_pos (hh_value h) + hs_len (hh_value h) < length (raw p)"
    and "is_valid_token (drop (hs_pos (hh_name h)) (raw p)) (hs_len (hh_name h))"
  obtains c where "http_header_add E p h = Inr (p\<lparr>header_capacity := c,
      raw := (raw p)[hs_pos (hh_name h) + hs_len (hh_name h) := NUL,
                     hs_pos (hh_value h) + hs_len (hh_value h) := NUL], headers := headers p @ [h]\<rparr>, 0)"
    and "length (headers p) < c"
proof (cases "length (headers p) + 1 \<ge> header_capacity p")
  case True
  define c where "c = (if header_capacity p < 16 then 16 else length (headers p) * 3 div 2)"
  have c: "length (headers p) < c" using assms(2) True by (auto simp: c_def)
  then have "http_header_add E p h = Inr (p\<lparr>header_capacity := c,
      raw := (raw p)[hs_pos (hh_name h) + hs_len (hh_name h) := NUL,
                     hs_pos (hh_value h) + hs_len (hh_value h) := NUL], headers := headers p @ [h]\<rparr>, 0)"
    using assms True
    by (simp add: http_header_add_def Let_def c_def [symmetric] roomy_def raw_poke_def c_assert_def)
  then show ?thesis using c by (rule that)
next
  case False
  then have "http_header_add E p h = Inr (p\<lparr>header_capacity := header_capacity p,
      raw := (raw p)[hs_pos (hh_name h) + hs_len (hh_name h) := NUL,
                     hs_pos (hh_value h) + hs_len (hh_value h) := NUL], headers := headers p @ [h]\<rparr>, 0)"
    using assms by (simp add: http_header_add_def Let_def raw_poke_def c_assert_def)
  moreover have "length (headers p) < header_capacity p" using False by simp
  ultimately show ?thesis by (rule that)
qed

lemma handler_other:
  assumes "cstr_at p n = name" and "\<not> strcaseeq ''Content-Length'' name" and "\<not> strcaseeq ''Transfer-Encoding'' name"
  obtains q where "http_header_handler E p n v = Inr q" and "raw q = raw p" "raw_capacity q = raw_capacity p"
    "headers q = headers p" "header_capacity q = header_capacity p" "content_length q = content_length p"
    "line_frame q = line_frame p"
proof -
  have "\<exists>q. http_header_handler E p n v = Inr q \<and> raw q = raw p \<and> raw_capacity q = raw_capacity p \<and>
    headers q = headers p \<and> header_capacity q = header_capacity p \<and> content_length q = content_length p \<and>
    line_frame q = line_frame p"
    using assms by (simp add: http_header_handler_def Let_def line_frame_def)
  then show ?thesis using that by blast
qed

lemma handler_length:
  assumes "strcaseeq ''Content-Length'' (cstr_at p n)" and "cstr_at p v = show_nat l"
    and "transfer_encoding p = 0" and "l < 2 ^ 63" and "he_body_max E = 0 \<or> l < he_body_max E"
  shows "http_header_handler E p n v = Inr (p\<lparr>content_length := int l\<rparr>)"
proof -
  have "int l \<le> ULLONG_MAX" using assms(4) by (simp add: ULLONG_MAX_def)
  then have "to_int64 (fst (strtoull (show_nat l))) = int l"
    using strtoull_show_nat to_int64_small [OF assms(4)] by simp
  then show ?thesis
    using assms by (simp add: http_header_handler_def is_transfer_encoding_chunked_def c_assert_def Let_def)
qed

lemma is_valid_token_name: "name_ok n \<Longrightarrow> is_valid_token (n @ rest) (length n)"
  by (simp add: is_valid_token_def name_ok_def takeWhile_all)

lemma name_ok_no_NUL: "name_ok n \<Longrightarrow> NUL \<notin> set n"
  using token_char_facts by (auto simp: name_ok_def)

lemma takeWhile_NUL: "NUL \<notin> set w \<Longrightarrow> takeWhile (\<lambda>c. c \<noteq> NUL) (w @ NUL # rest) = w"
  by (rule takeWhile_append_stop) auto

lemma header_line_ok:
  assumes "roomy E" and "buf_ok p" and "raw p \<noteq> []" and st: "stateM p = SM_HEADER"
    and n: "name_ok n" and v: "value_ok v" and hc: "length (headers p) \<le> header_capacity p"
    and len: "length (raw p) + length n + length v + 4 \<le> HTTP_BODY_LENGTH_MAX"
    and te: "\<not> strcaseeq ''Transfer-Encoding'' n"
    and cl: "if strcaseeq ''Content-Length'' n
             then v = show_nat k \<and> l = int k \<and> k < 2 ^ 63 \<and> (he_body_max E = 0 \<or> k < he_body_max E) \<and>
                  transfer_encoding p = 0
             else l = content_length p"
  shows "\<exists>q. http_parse_header_line E p (n @ CHR '':'' # SPC # v @ CR # LF # rest) =
      Inr (q, int (length n + length v + 4)) \<and> after_header n v l p q"
proof -
  let ?b = "length (raw p)"
  let ?d = "n @ CHR '':'' # SPC # v @ CR # LF # rest"
  let ?h = "\<lparr>hh_name = \<lparr>hs_pos = ?b, hs_len = length n\<rparr>,
        hh_value = \<lparr>hs_pos = ?b + length n + 2, hs_len = length v\<rparr>\<rparr>"
  let ?p1 = "p\<lparr>header := ?h, stateM := SM_HEADER_LF\<rparr>"
  have "hd_scan ?d (?b, p) = Inr ((?b + length n + 2 + length v + 1, ?p1), Some (LF # rest))"
    using hd_name [OF st n, of "v @ CR # LF # rest" ?b]
      hd_value [of "(set_name_len (length n) (set_name_pos ?b p))\<lparr>stateM := SM_HEADER_SP2\<rparr>" v rest "?b + length n + 2"] v
    by (simp add: header_setters)
  note scan = this
  let ?D = "n @ CHR '':'' # SPC # v @ [CR, LF]"
  have lenD: "length ?D = length n + length v + 4" by simp
  have cut: "take (length n + length v + 4) ?d = ?D" by (simp add: numeral_eq_Suc)
  have room: "buf_ok ?p1" "length (raw ?p1) + length ?D \<le> HTTP_BODY_LENGTH_MAX"
    using assms(2) len lenD by (simp_all add: buf_ok_def)
  obtain c where rd: "http_rawdata E ?p1 ?D = Inr (upd c (delivered p) (?p1\<lparr>raw := raw p @ ?D\<rparr>), 0)"
    and c: "?b + length n + length v + 4 \<le> c"
  proof (rule http_rawdata_roomy [OF assms(1) room])
    fix c
    assume "http_rawdata E ?p1 ?D = Inr (upd c (delivered ?p1) (?p1\<lparr>raw := raw ?p1 @ ?D\<rparr>), 0)"
      and "length (raw ?p1 @ ?D) \<le> c"
    then show thesis by (intro that [of c]) simp_all
  qed
  have i: "?b + length n + 2 + length v + 1 - ?b = length n + length v + 3" by simp
  have "http_parse_header_line E p ?d =
      and_then (http_rawdata E ?p1 (take (length n + length v + 3 + 1) ?d)) (\<lambda>(q, e).
       if e \<noteq> 0 then Inr (q, - ENOMEM) else hd_finish E q (length n + length v + 3))"
    unfolding http_parse_header_line_def scan and_then_Inr prod.case Let_def option.case i by (rule refl)
  also have "length n + length v + 3 + 1 = length n + length v + 4" by simp
  finally have parse: "http_parse_header_line E p ?d =
      hd_finish E (upd c (delivered p) (?p1\<lparr>raw := raw p @ ?D\<rparr>)) (length n + length v + 3)"
    unfolding cut rd by simp
  let ?q = "upd c (delivered p) (?p1\<lparr>raw := raw p @ n @ CHR '':'' # SPC # v @ [CR, LF]\<rparr>)"
  have ne: "n \<noteq> []" using n by (simp add: name_ok_def)
  obtain hcap where add: "http_header_add E ?q ?h = Inr (?q\<lparr>header_capacity := hcap,
      raw := (raw ?q)[?b + length n := NUL, ?b + length n + 2 + length v := NUL], headers := headers p @ [?h]\<rparr>, 0)"
    and hcap: "length (headers p) < hcap"
    using header_add_exact [of E ?q ?h] assms(1,3) hc ne is_valid_token_name [OF n] by auto
  have raw': "(raw ?q)[?b + length n := NUL, ?b + length n + 2 + length v := NUL] =
      raw p @ n @ [NUL, SPC] @ v @ [NUL, LF]"
    by (simp add: list_update_append)
  let ?u = "?q\<lparr>header_capacity := hcap, raw := raw p @ n @ [NUL, SPC] @ v @ [NUL, LF], headers := headers p @ [?h]\<rparr>"
  have nm: "cstr_at ?u ?b = n" and vl: "cstr_at ?u (?b + length n + 2) = v"
    using takeWhile_NUL [OF name_ok_no_NUL [OF n]] takeWhile_NUL [of v "[LF]"] v
    by (auto simp: cstr_at_def value_ok_def)
  have "\<exists>w. http_header_handler E ?u ?b (?b + length n + 2) = Inr w \<and> raw w = raw ?u \<and>
    raw_capacity w = raw_capacity ?u \<and> headers w = headers ?u \<and> header_capacity w = header_capacity ?u \<and>
    content_length w = l \<and> line_frame w = line_frame ?u"
  proof (cases "strcaseeq ''Content-Length'' n")
    case True
    then have "http_header_handler E ?u ?b (?b + length n + 2) = Inr (?u\<lparr>content_length := int k\<rparr>)"
      using cl nm vl by (intro handler_length) auto
    then show ?thesis using cl True by (simp add: line_frame_def upd_def)
  next
    case False
    obtain w where "http_header_handler E ?u ?b (?b + length n + 2) = Inr w" "raw w = raw ?u"
      "raw_capacity w = raw_capacity ?u" "headers w = headers ?u" "header_capacity w = header_capacity ?u"
      "content_length w = content_length ?u" "line_frame w = line_frame ?u"
      using handler_other [OF nm False te] by blast
    moreover have "content_length ?u = l" using cl False by simp
    ultimately show ?thesis by (intro exI [of _ w]) simp
  qed
  then obtain w where w: "http_header_handler E ?u ?b (?b + length n + 2) = Inr w" "raw w = raw ?u"
    "raw_capacity w = raw_capacity ?u" "headers w = headers ?u" "header_capacity w = header_capacity ?u"
    "content_length w = l" "line_frame w = line_frame ?u" by blast
  have "hd_finish E ?q (length n + length v + 3) = Inr (w\<lparr>stateM := SM_HEADER\<rparr>, int (length n + length v + 4))"
    using add w(1) ne assms(3) raw' by (simp add: hd_finish_def)
  moreover have "after_header n v l p (w\<lparr>stateM := SM_HEADER\<rparr>)"
    using w c hcap by (simp add: after_header_def buf_ok_def line_frame_def upd_def)
  ultimately show ?thesis unfolding parse by blast
qed

section \<open>All headers\<close>

definition header_ok :: "http_env \<Rightarrow> string \<times> string \<Rightarrow> bool" where
  "header_ok E h \<longleftrightarrow> name_ok (fst h) \<and> value_ok (snd h) \<and> \<not> strcaseeq ''Transfer-Encoding'' (fst h) \<and>
     (strcaseeq ''Content-Length'' (fst h) \<longrightarrow>
        (let k = dec_val (snd h) in snd h = show_nat k \<and> k < 2 ^ 63 \<and>
           (he_body_max E = 0 \<or> k < he_body_max E)))"

text \<open>The body length that the headers announce.\<close>

fun length_after :: "int \<Rightarrow> (string \<times> string) list \<Rightarrow> int" where
  "length_after l [] = l"
| "length_after l ((n, v) # hs) =
     length_after (if strcaseeq ''Content-Length'' n then int (dec_val v) else l) hs"

fun headers_raw :: "(string \<times> string) list \<Rightarrow> string" where
  "headers_raw [] = []"
| "headers_raw ((n, v) # hs) = n @ [NUL, SPC] @ v @ [NUL, LF] @ headers_raw hs"

fun headers_at :: "nat \<Rightarrow> (string \<times> string) list \<Rightarrow> http_header list" where
  "headers_at b [] = []"
| "headers_at b ((n, v) # hs) =
     \<lparr>hh_name = \<lparr>hs_pos = b, hs_len = length n\<rparr>,
      hh_value = \<lparr>hs_pos = b + length n + 2, hs_len = length v\<rparr>\<rparr>
     # headers_at (b + length n + length v + 4) hs"

definition after_headers :: "(string \<times> string) list \<Rightarrow> http_parser \<Rightarrow> http_parser \<Rightarrow> bool" where
  "after_headers hs p q \<longleftrightarrow>
     raw q = raw p @ headers_raw hs @ CRLF \<and> buf_ok q \<and> stateM q = SM_BODY \<and>
     raw_header_offset q = length (raw q) \<and> headers q = headers p @ headers_at (length (raw p)) hs \<and>
     content_length q = length_after (content_length p) hs \<and> line_frame q = line_frame p"

lemma header_end:
  assumes "roomy E" and "buf_ok p" and "stateM p = SM_HEADER" and "length (raw p) + 2 \<le> HTTP_BODY_LENGTH_MAX"
  shows "\<exists>q. http_parse_header_line E p (CR # LF # rest) = Inr (q, 2) \<and> after_headers [] p q"
proof -
  let ?b = "length (raw p)"
  let ?p1 = "(set_value_pos 0 p)\<lparr>stateM := SM_HEADER_LF\<rparr>"
  have "hd_step CR ?b p = Next ((set_value_pos 0 p)\<lparr>stateM := SM_HEADER_CR\<rparr>)"
    using assms(3) by (simp add: hd_step_def)
  moreover have "hd_step LF (?b + 1) ((set_value_pos 0 p)\<lparr>stateM := SM_HEADER_CR\<rparr>) = Back ?p1"
    by (simp add: hd_step_def)
  moreover have "hd_step LF (?b + 1) ?p1 = Stop" by (simp add: hd_step_def)
  ultimately have scan: "hd_scan (CR # LF # rest) (?b, p) = Inr ((?b + 1, ?p1), Some (LF # rest))"
    by (simp add: hd.loop_simps)
  have room: "buf_ok ?p1" "length (raw ?p1) + length [CR, LF] \<le> HTTP_BODY_LENGTH_MAX"
    using assms(2,4) by (simp_all add: buf_ok_def header_setters)
  obtain c where rd: "http_rawdata E ?p1 [CR, LF] = Inr (upd c (delivered p) (?p1\<lparr>raw := raw p @ [CR, LF]\<rparr>), 0)"
    and c: "?b + 2 \<le> c"
  proof (rule http_rawdata_roomy [OF assms(1) room])
    fix c
    assume "http_rawdata E ?p1 [CR, LF] = Inr (upd c (delivered ?p1) (?p1\<lparr>raw := raw ?p1 @ [CR, LF]\<rparr>), 0)"
      and "length (raw ?p1 @ [CR, LF]) \<le> c"
    then show thesis by (intro that [of c]) (simp_all add: header_setters)
  qed
  let ?q = "upd c (delivered p) (?p1\<lparr>raw := raw p @ [CR, LF]\<rparr>)"
  have "http_parse_header_line E p (CR # LF # rest) = hd_finish E ?q 1"
    using rd by (simp add: http_parse_header_line_def scan)
  also have "\<dots> = Inr (?q\<lparr>raw_header_offset := length (raw ?q), stateM := SM_BODY\<rparr>, 2)"
    by (simp add: hd_finish_def header_setters)
  finally show ?thesis using c
    by (auto simp: after_headers_def buf_ok_def line_frame_def upd_def header_setters CRLF_def)
qed

lemma line_frameD: "line_frame q = line_frame p \<Longrightarrow> transfer_encoding q = transfer_encoding p"
  by (simp add: line_frame_def)

lemma headers_ok:
  assumes "roomy E" and "\<forall>h \<in> set hs. header_ok E h" and "transfer_encoding p = 0"
    and "buf_ok p" and "raw p \<noteq> []" and "stateM p = SM_HEADER" and "length (headers p) \<le> header_capacity p"
    and "length (raw p) + length (headers_raw hs) + 2 \<le> HTTP_BODY_LENGTH_MAX"
  shows "\<exists>q k. http_header_lines E p r (concat (map header_text hs) @ CRLF @ rest) = Inr (q, k, rest) \<and> 0 \<le> k \<and>
    after_headers hs p q"
  using assms
proof (induction hs arbitrary: p r)
  case Nil
  obtain q where q: "http_parse_header_line E p (CR # LF # rest) = Inr (q, 2)" "after_headers [] p q"
    using header_end [of E p rest] Nil by auto
  have "http_header_lines E p r (CR # LF # rest) = http_header_lines E q 2 rest"
    using Nil q(1) by (subst http_header_lines.simps) simp
  also have "\<dots> = Inr (q, 2, rest)"
    using q(2) by (subst http_header_lines.simps) (simp add: after_headers_def)
  finally show ?case using q(2) by (simp add: CRLF_def)
next
  case (Cons h hs)
  obtain n v where h: "h = (n, v)" by fastforce
  let ?rest = "concat (map header_text hs) @ CRLF @ rest"
  let ?l = "if strcaseeq ''Content-Length'' n then int (dec_val v) else content_length p"
  have ok: "name_ok n" "value_ok v" "\<not> strcaseeq ''Transfer-Encoding'' n" using Cons.prems(2) h by (simp_all add: header_ok_def)
  have "\<exists>q. http_parse_header_line E p (n @ CHR '':'' # SPC # v @ CR # LF # ?rest) =
      Inr (q, int (length n + length v + 4)) \<and> after_header n v ?l p q"
  proof (rule header_line_ok [OF Cons.prems(1,4,5,6) ok(1,2) Cons.prems(7) _ ok(3), where k = "dec_val v"])
    show "length (raw p) + length n + length v + 4 \<le> HTTP_BODY_LENGTH_MAX" using Cons.prems(8) h by simp
    show "if strcaseeq ''Content-Length'' n
             then v = show_nat (dec_val v) \<and> ?l = int (dec_val v) \<and> dec_val v < 2 ^ 63 \<and>
                  (he_body_max E = 0 \<or> dec_val v < he_body_max E) \<and> transfer_encoding p = 0
             else ?l = content_length p"
      using Cons.prems(2,3) h by (auto simp: header_ok_def Let_def)
  qed
  then obtain q where q: "http_parse_header_line E p (n @ CHR '':'' # SPC # v @ CR # LF # ?rest) =
      Inr (q, int (length n + length v + 4))" and aq: "after_header n v ?l p q" by blast
  let ?line = "n @ CHR '':'' # SPC # v @ CR # LF # ?rest"
  have data: "concat (map header_text (h # hs)) @ CRLF @ rest = ?line"
    by (simp add: h header_text_def CRLF_def)
  have drop: "drop (nat (int (length n + length v + 4))) ?line = ?rest"
    unfolding nat_int by (simp add: numeral_eq_Suc)
  have "http_header_lines E p r ?line = http_header_lines E q (int (length n + length v + 4)) ?rest"
  proof -
    have "http_header_lines E p r ?line = and_then (http_parse_header_line E p ?line) (\<lambda>(q, r).
        if r < 0 then Inr (q, r, ?line) else http_header_lines E q r (drop (nat r) ?line))"
      using Cons.prems(6) by (intro header_lines_step) simp_all
    moreover have "\<not> int (length n + length v + 4) < 0" by simp
    ultimately show ?thesis unfolding q and_then_Inr prod.case drop by (simp only: if_False)
  qed
  moreover have "\<exists>q' k. http_header_lines E q (int (length n + length v + 4)) ?rest = Inr (q', k, rest) \<and> 0 \<le> k \<and>
      after_headers hs q q'"
  proof (rule Cons.IH [OF Cons.prems(1)])
    show "\<forall>h \<in> set hs. header_ok E h" using Cons.prems(2) by simp
    show "transfer_encoding q = 0" using aq Cons.prems(3) line_frameD [of q p] by (simp add: after_header_def)
    show "length (headers q) \<le> header_capacity q" using aq unfolding after_header_def by (elim conjE)
    show "buf_ok q" "raw q \<noteq> []" "stateM q = SM_HEADER" using aq by (simp_all add: after_header_def)
    show "length (raw q) + length (headers_raw hs) + 2 \<le> HTTP_BODY_LENGTH_MAX"
      using aq Cons.prems(8) h by (simp add: after_header_def)
  qed
  moreover have "after_headers (h # hs) p q'" if "after_headers hs q q'" for q'
    using that aq by (simp add: after_headers_def after_header_def h numeral_eq_Suc ac_simps)
  ultimately show ?case unfolding data by metis
qed

text \<open>The stored positions give the headers back.\<close>

lemma headers_view:
  assumes "\<forall>h \<in> set hs. NUL \<notin> set (fst h) \<and> NUL \<notin> set (snd h)" and "raw p = R @ headers_raw hs @ T"
  shows "map (\<lambda>h. (cstr_at p (hs_pos (hh_name h)), cstr_at p (hs_pos (hh_value h)))) (headers_at (length R) hs) = hs"
  using assms
proof (induction hs arbitrary: R)
  case (Cons h hs)
  obtain n v where h: "h = (n, v)" by fastforce
  have "cstr_at p (length R) = n" "cstr_at p (length R + length n + 2) = v"
    using Cons.prems takeWhile_NUL [of n] takeWhile_NUL [of v] by (simp_all add: h cstr_at_def)
  moreover have "raw p = (R @ n @ [NUL, SPC] @ v @ [NUL, LF]) @ headers_raw hs @ T"
    using Cons.prems(2) by (simp add: h)
  then have "map (\<lambda>h. (cstr_at p (hs_pos (hh_name h)), cstr_at p (hs_pos (hh_value h))))
      (headers_at (length (R @ n @ [NUL, SPC] @ v @ [NUL, LF])) hs) = hs"
    using Cons.IH Cons.prems(1) by simp
  ultimately show ?case by (simp add: h numeral_eq_Suc ac_simps)
qed simp

section \<open>The request as a whole\<close>

lemma header_ok_no_NUL: "header_ok E h \<Longrightarrow> NUL \<notin> set (fst h) \<and> NUL \<notin> set (snd h)"
  using name_ok_no_NUL by (auto simp: header_ok_def value_ok_def)

definition start_frame where
  "start_frame p = (req_method p, req_uri p, protocol p, vermajor p, verminor p, request p, has_callback p)"

lemma start_frame_line: "line_frame q = line_frame p \<Longrightarrow> start_frame q = start_frame p"
  by (simp add: line_frame_def start_frame_def)

lemma input_body_known:
  assumes q: "stateM q = SM_BODY" "transfer_encoding q = 0" "raw_body_length q = 0" "\<not> has_callback q"
      "raw_header_offset q = length (raw q)" "request q = HTTP_PARSER_REQUEST"
    and room: "roomy E" "buf_ok q" "length (raw q) + length body \<le> HTTP_BODY_LENGTH_MAX"
    and l: "content_length q = int (length body) \<or> content_length q = -1 \<and> body = []" and "0 \<le> k"
  shows "\<exists>s j. http_input_body E q k (body @ extra) n = Inr (s, j, extra) \<and> 0 \<le> j \<and> stateM s = SM_DONE \<and>
    raw s = raw q @ body \<and> headers s = headers q \<and> raw_header_offset s = raw_header_offset q \<and>
    raw_body_length s = int (length body) \<and> content_length s = int (length body) \<and>
    start_frame s = start_frame q"
proof (cases "content_length q = -1")
  case True
  then have "body = []" using l by auto
  then show ?thesis using True q assms(11)
    by (intro exI [of _ "q\<lparr>content_length := 0, stateM := SM_DONE\<rparr>"] exI [of _ k])
      (simp add: http_input_body_def is_transfer_encoding_chunked_def start_frame_def)
next
  case False
  then have l': "content_length q = int (length body)" using l by auto
  obtain c where rd: "http_rawdata E q body = Inr (upd c (delivered q) (q\<lparr>raw := raw q @ body\<rparr>), 0)"
    using http_rawdata_roomy [OF room] by metis
  let ?b = "(upd c (delivered q) (q\<lparr>raw := raw q @ body\<rparr>))\<lparr>raw_body_length := int (length body)\<rparr>"
  have b: "http_body E q body = Inr ?b"
    using q rd l' by (simp add: http_body_def Let_def c_assert_def)
  have "(if int (length (body @ extra)) + raw_body_length q > content_length q
        then nat (content_length q - raw_body_length q) else length (body @ extra)) = length body"
    using q l' by simp
  then have "http_input_body E q k (body @ extra) n = Inr (?b\<lparr>stateM := SM_DONE\<rparr>, 0, extra)"
    using q l' b by (simp add: http_input_body_def is_transfer_encoding_chunked_def c_assert_def Let_def)
  then show ?thesis using l'
    by (intro exI [of _ "?b\<lparr>stateM := SM_DONE\<rparr>"] exI [of _ 0]) (simp add: start_frame_def upd_def)
qed

text \<open>What the accessors say of a parsed request.\<close>

definition parsed_as ::
    "http_parser \<Rightarrow> string \<Rightarrow> string \<Rightarrow> int \<Rightarrow> (string \<times> string) list \<Rightarrow> string \<Rightarrow> bool" where
  "parsed_as q m u ver hs body \<longleftrightarrow>
     http_get_request_method q = Inr m \<and> http_get_request_uri q = Inr u \<and>
     http_get_version q = Inr (''HTTP'', 1, ver mod 2) \<and>
     http_get_header_count q = Inr (int (length hs)) \<and>
     (\<forall>i < length hs. http_get_header q (int i) = Inr (Inr (hs ! i))) \<and>
     http_get_content_length q = Inr (int (length body)) \<and> http_get_content q = Inr body"

lemma headers_at_length [simp]: "length (headers_at b hs) = length hs"
  by (induction b hs rule: headers_at.induct) simp_all

lemma word_ok_no_NUL: "word_ok w \<Longrightarrow> NUL \<notin> set w"
  by (auto simp: word_ok_def)

lemma request_text_head:
  "request_text m u ver hs @ x = request_head m u ver @ LF # concat (map header_text hs) @ CRLF @ x"
  by (simp add: request_text_def request_line_def request_head_def CRLF_def)

lemma header_text_raw: "length (headers_raw hs) = length (concat (map header_text hs))"
  by (induction hs rule: headers_raw.induct) (simp_all add: header_text_def CRLF_def)

lemma request_parses:
  assumes p: "raw p = []" "stateM p = SM_START_LINE" "request p = HTTP_PARSER_REQUEST" "headers p = []"
      "content_length p = -1" "transfer_encoding p = 0" "raw_body_length p = 0" "\<not> has_callback p"
    and "roomy E" and words: "word_ok m" "word_ok u" and hs: "\<forall>h \<in> set hs. header_ok E h"
    and body: "length_after (-1) hs = int (length body) \<or> length_after (-1) hs = -1 \<and> body = []"
    and size: "length (request_text m u ver hs) + length body \<le> HTTP_BODY_LENGTH_MAX"
  shows "\<exists>q. http_parser_input E p (request_text m u ver hs @ body @ extra) = Inr (q, INPUT_DONE, length extra) \<and>
    parsed_as q m u ver hs body"
proof -
  let ?tail = "concat (map header_text hs) @ CRLF @ body @ extra"
  have len: "length (request_head m u ver) + 1 + length (headers_raw hs) + 2 + length body \<le> HTTP_BODY_LENGTH_MAX"
    using size arg_cong [OF request_text_head [of m u ver hs "[]"], of length]
    by (simp add: header_text_raw CRLF_def)
  have "buf_ok p" by (simp add: buf_ok_def p)
  then obtain c where line: "http_parse_request_line E p (request_head m u ver @ LF # ?tail) =
      Inr (rq_done c m u ver p, int (length (request_head m u ver) + 1))"
    and c: "length (request_raw m u ver) \<le> c"
    using request_line_ok [OF assms(9) _ p(1,2) words, of ver ?tail] len by auto
  let ?r = "rq_done c m u ver p"
  have r: "raw ?r = request_raw m u ver" "stateM ?r = SM_HEADER" "transfer_encoding ?r = 0" "headers ?r = []"
    "content_length ?r = -1" "raw_body_length ?r = 0" "\<not> has_callback ?r" "request ?r = HTTP_PARSER_REQUEST"
    "buf_ok ?r" "raw ?r \<noteq> []" "length (headers ?r) \<le> header_capacity ?r"
    using p c by (simp_all add: rq_done_def rq_read_def buf_ok_def request_raw_def)
  have lr: "length (request_raw m u ver) = length (request_head m u ver)"
    by (simp add: request_raw_def request_head_def)
  obtain q k where lines: "http_header_lines E ?r (int (length (request_head m u ver) + 1)) ?tail = Inr (q, k, body @ extra)"
    and k: "0 \<le> k" and ah: "after_headers hs ?r q"
    using headers_ok [OF assms(9) hs r(3,9,10,2,11), of "int (length (request_head m u ver) + 1)" "body @ extra"] len lr r(1)
    by auto
  have lf: "line_frame q = line_frame ?r" using ah by (simp add: after_headers_def)
  then have q: "transfer_encoding q = 0" "raw_body_length q = 0" "\<not> has_callback q" "request q = HTTP_PARSER_REQUEST"
    using r by (auto simp: line_frame_def)
  have q': "stateM q = SM_BODY" "raw_header_offset q = length (raw q)" "buf_ok q"
    "raw q = request_raw m u ver @ headers_raw hs @ CRLF" "headers q = headers_at (length (request_raw m u ver)) hs"
    "content_length q = length_after (-1) hs"
    using ah r by (simp_all add: after_headers_def)
  have room: "length (raw q) + length body \<le> HTTP_BODY_LENGTH_MAX" using len lr by (simp add: q'(4) CRLF_def)
  obtain s j where s: "http_input_body E q k (body @ extra) (length (request_text m u ver hs @ body @ extra)) = Inr (s, j, extra)"
      "0 \<le> j" "stateM s = SM_DONE" "raw s = raw q @ body" "headers s = headers q"
      "raw_header_offset s = raw_header_offset q" "raw_body_length s = int (length body)"
      "content_length s = int (length body)" "start_frame s = start_frame q"
    using input_body_known [OF q'(1) q(1-3) q'(2) q(4) assms(9) q'(3) room _ k] body q'(6) by metis
  have input: "http_parser_input E p (request_text m u ver hs @ body @ extra) = Inr (s, INPUT_DONE, length extra)"
  proof -
    have d: "drop (nat (int (length (request_head m u ver) + 1))) (request_head m u ver @ LF # ?tail) = ?tail"
      unfolding nat_int by simp
    have "http_start_line E p (request_head m u ver @ LF # ?tail) = Inr (?r, int (length (request_head m u ver) + 1))"
      using line p by (simp add: http_start_line_def)
    then have "http_parser_input E p (request_head m u ver @ LF # ?tail) =
        (case (q, k, body @ extra) of (p, r, rest) \<Rightarrow> if r < 0 then Inr (p, r, length (request_head m u ver @ LF # ?tail))
         else and_then (http_input_body E p r rest (length (request_head m u ver @ LF # ?tail))) (\<lambda>(p, r, rest).
           if r < 0 then Inr (p, r, length (request_head m u ver @ LF # ?tail)) else http_input_end p rest))"
      by (simp only: http_parser_input_def and_then_Inr prod.case d lines of_nat_less_0_iff if_False)
    also have "\<dots> = Inr (s, INPUT_DONE, length extra)"
      using k s by (simp add: request_text_head http_input_end_def)
    finally show ?thesis by (simp only: request_text_head)
  qed
  have sf: "start_frame s = start_frame ?r" using s(9) start_frame_line [OF lf] by simp
  have raw: "raw s = request_raw m u ver @ headers_raw hs @ CRLF @ body" using s(4) q'(4) by simp
  have m: "cstr_at s 0 = m" and u: "cstr_at s (length m + 1) = u"
    using takeWhile_NUL [OF word_ok_no_NUL [OF words(1)]] takeWhile_NUL [OF word_ok_no_NUL [OF words(2)]]
    by (simp_all add: cstr_at_def raw request_raw_def)
  have noNUL: "\<forall>h \<in> set hs. NUL \<notin> set (fst h) \<and> NUL \<notin> set (snd h)"
    using hs header_ok_no_NUL by blast
  have view: "map (\<lambda>h. (cstr_at s (hs_pos (hh_name h)), cstr_at s (hs_pos (hh_value h)))) (headers s) = hs"
    using headers_view [OF noNUL raw] s(5) q'(5) by simp
  have "length (headers s) = length hs" using s(5) q'(5) by simp
  moreover have "http_get_header s (int i) = Inr (Inr (hs ! i))" if "i < length hs" for i
    using that arg_cong [OF view, of "\<lambda>x. x ! i"] s(3) \<open>length (headers s) = length hs\<close>
    by (simp add: http_get_header_def after_start_line_def Let_def)
  moreover have "req_method s = \<lparr>hs_pos = 0, hs_len = length m\<rparr>"
    "req_uri s = \<lparr>hs_pos = length m + 1, hs_len = length u\<rparr>" "protocol s = ''HTTP''" "vermajor s = 1"
    "verminor s = ver mod 2" "request s = HTTP_PARSER_REQUEST" "\<not> has_callback s"
    using sf p by (simp_all add: start_frame_def rq_done_def rq_read_def)
  moreover have "raw_header_offset s = length (raw q)" "length (raw s) = length (raw q) + length body"
    "drop (length (raw q)) (raw s) = body"
    using s(4,6) q'(2) by simp_all
  ultimately have "parsed_as s m u ver hs body"
    using s(3,7,8) m u
    by (simp add: parsed_as_def http_get_request_method_def http_get_request_uri_def http_get_version_def
        http_get_header_count_def http_get_content_length_def http_get_content_def after_start_line_def)
  then show ?thesis using input by blast
qed

text \<open>
  C4.  Parsing inverts printing: of a request with a well-formed request line, any headers whose
  names are tokens and whose values are trimmed, and a body of the announced length, the parser
  returns the method, the target, the version, the headers in order and the body, and it reports
  exactly the bytes that follow the message.
\<close>

theorem http_request_roundtrip:
  assumes "http_parser_create E sz HTTP_PARSER_REQUEST False = Some p" and "roomy E"
    and "word_ok m" and "word_ok u" and "\<forall>h \<in> set hs. header_ok E h"
    and "length_after (-1) hs = int (length body) \<or> length_after (-1) hs = -1 \<and> body = []"
    and "length (request_text m u ver hs) + length body \<le> HTTP_BODY_LENGTH_MAX"
  shows "\<exists>q. http_parser_input E p (request_text m u ver hs @ body @ extra) = Inr (q, INPUT_DONE, length extra) \<and>
    parsed_as q m u ver hs body"
proof -
  have "p = http_parser_clear (http_parser_zero\<lparr>has_callback := False, request := HTTP_PARSER_REQUEST\<rparr>)"
    using assms(1) by (simp add: http_parser_create_def split: if_splits)
  then have "raw p = []" "stateM p = SM_START_LINE" "request p = HTTP_PARSER_REQUEST" "headers p = []"
      "content_length p = -1" "transfer_encoding p = 0" "raw_body_length p = 0" "\<not> has_callback p"
    by (simp_all add: http_parser_clear_def)
  from request_parses [OF this assms(2-7)] show ?thesis .
qed

lemma show_nat_2: "show_nat 2 = ''2''"
  by (simp add: show_nat.simps [of 2] digit_char_def char_of_def bit_iff_odd)

theorem http_request_roundtrip_witness:
  "\<exists>q p. http_parser_create env0 500 1 False = Some p \<and>
     http_parser_input env0 p (request_text ''POST'' ''/a'' 1 [(''Content-Length'', ''2''), (''Host'', ''a b'')]
       @ ''xy'' @ ''GET'') = Inr (q, 0, 3) \<and>
     parsed_as q ''POST'' ''/a'' 1 [(''Content-Length'', ''2''), (''Host'', ''a b'')] ''xy''"
proof -
  obtain p where p: "http_parser_create env0 500 1 False = Some p"
    by (simp add: http_parser_create_def env0_def)
  have "\<exists>q. http_parser_input env0 p (request_text ''POST'' ''/a'' 1 [(''Content-Length'', ''2''), (''Host'', ''a b'')]
       @ ''xy'' @ ''GET'') = Inr (q, 0, length ''GET'') \<and>
     parsed_as q ''POST'' ''/a'' 1 [(''Content-Length'', ''2''), (''Host'', ''a b'')] ''xy''"
    by (rule http_request_roundtrip [where sz = 500])
      (use p in \<open>simp_all add: roomy_def env0_def word_ok_def is_break_def header_ok_def name_ok_def
         token_char_def value_ok_def is_blank_def strcaseeq_def to_lower_def is_upper_def dec_val_def
         digit_val_def show_nat_2 request_text_def request_line_def header_text_def
         CRLF_def s_version_def\<close>)
  then show ?thesis using p by auto
qed

lemma method_word_ok: "word_ok (http_method_str k)"
proof -
  have "\<forall>w \<in> set (''<unknown>'' # method_strings). word_ok w"
    by (simp add: method_strings_def word_ok_def is_break_def)
  then show ?thesis by (auto simp: http_method_str_def)
qed

text \<open>
  C5.  The request builder and the parser agree: what \<^verbatim>\<open>http_request_create\<close>,
  \<^verbatim>\<open>http_request_set_uri\<close> and any sequence of \<^verbatim>\<open>http_request_set_header\<close> calls
  leave in the buffer of \<^verbatim>\<open>http_request_get\<close>, sent with its body, is parsed as that request.
\<close>

theorem http_request_builder_parses:
  assumes "http_request_create alloc rsz ver = Some b" and "http_request_set_uri b k u = Inr (b1, 0)"
    and "set_headers alloc b1 hs = Inr (b2, 0)" and "http_request_get b2 = (text, n)"
    and "http_parser_create E sz HTTP_PARSER_REQUEST False = Some p" and "roomy E"
    and "word_ok u" and "\<forall>h \<in> set hs. header_ok E h"
    and "length_after (-1) hs = int (length body) \<or> length_after (-1) hs = -1 \<and> body = []"
    and "n + length body \<le> HTTP_BODY_LENGTH_MAX"
  shows "\<exists>q. http_parser_input E p (text @ body) = Inr (q, INPUT_DONE, 0) \<and>
    parsed_as q (http_method_str k) u ver hs body"
proof -
  have "builder_ok b2 (request_text (http_method_str k) u ver hs)"
    using builder_headers [OF builder_uri(1) [OF assms(1,2)] assms(3)] by (simp add: request_text_def)
  then have tx: "text = request_text (http_method_str k) u ver hs" and n: "n = length text"
    using assms(4) by (auto simp: builder_ok_def http_request_get_def)
  have p: "p = http_parser_clear (http_parser_zero\<lparr>has_callback := False, request := HTTP_PARSER_REQUEST\<rparr>)"
    using assms(5) by (simp add: http_parser_create_def split: if_splits)
  have size: "length (request_text (http_method_str k) u ver hs) + length body \<le> HTTP_BODY_LENGTH_MAX"
    using assms(10) n tx by simp
  show ?thesis
    unfolding tx
    using request_parses [OF _ _ _ _ _ _ _ _ assms(6) method_word_ok assms(7,8,9) size, of p "[]"]
    by (simp add: p http_parser_clear_def)
qed

theorem http_request_builder_parses_witness:
  "\<exists>b b1 b2 p text n q. http_request_create (\<lambda>_. True) 24 1 = Some b \<and>
     http_request_set_uri b 1 ''/x'' = Inr (b1, 0) \<and>
     set_headers (\<lambda>_. True) b1 [(''Accept'', ''*'')] = Inr (b2, 0) \<and> http_request_get b2 = (text, n) \<and>
     http_parser_create env0 500 1 False = Some p \<and>
     http_parser_input env0 p text = Inr (q, 0, 0) \<and> parsed_as q ''GET'' ''/x'' 1 [(''Accept'', ''*'')] []"
proof -
  note defs = http_request_create_def http_request_set_uri_def http_method_str_def method_strings_def
    snprintf_def s_version_def CRLF_def http_request_set_header_def print_at_def http_request_get_def Let_def
  obtain b where b: "http_request_create (\<lambda>_. True) 24 1 = Some b" by (simp add: defs)
  then obtain b1 where b1: "http_request_set_uri b 1 ''/x'' = Inr (b1, 0)"
    by (auto simp: defs)
  then obtain b2 where b2: "set_headers (\<lambda>_. True) b1 [(''Accept'', ''*'')] = Inr (b2, 0)" and len: "hr_len b2 = 30"
    using b by (auto simp: defs)
  obtain p where p: "http_parser_create env0 500 1 False = Some p"
    by (simp add: http_parser_create_def env0_def)
  have get: "http_request_get b2 = (hr_text b2, 30)" by (simp add: http_request_get_def len)
  have "\<exists>q. http_parser_input env0 p (hr_text b2 @ []) = Inr (q, 0, 0) \<and>
     parsed_as q (http_method_str 1) ''/x'' 1 [(''Accept'', ''*'')] []"
    by (rule http_request_builder_parses [OF b b1 b2 get p])
      (simp_all add: roomy_def env0_def word_ok_def is_break_def header_ok_def name_ok_def
         token_char_def value_ok_def is_blank_def strcaseeq_def to_lower_def is_upper_def)
  moreover have "http_method_str 1 = ''GET''" by (simp add: http_method_str_def method_strings_def)
  ultimately show ?thesis using b b1 b2 get p by auto
qed

end
