(* ===== verification/HttpHeaders.thy ===== *)
theory HttpHeaders
  imports HttpRequest
begin

text \<open>
  The header parsers of \<^verbatim>\<open>modules/networking/libhttp/src\<close>: \<^verbatim>\<open>http-header-host.c\<close>,
  \<^verbatim>\<open>http-header-range.c\<close>, \<^verbatim>\<open>http-header-content-type.c\<close>, \<^verbatim>\<open>http-header-expires.c\<close>,
  the date printer \<^verbatim>\<open>rfc822-datetime.c\<close> and the reason phrases of \<^verbatim>\<open>http-reason.c\<close>.

  A pointer into the header field is the suffix of the field that starts there; a pointer and a
  length are the string they denote.  Output objects are records that the parser returns updated,
  with the integer that the C function returns.
\<close>

section \<open>Host\<close>

text \<open>\<^verbatim>\<open>strtoul\<close> in base 10: saturating; a minus sign negates in the 64-bit type.\<close>

definition strtoul :: "string \<Rightarrow> int \<times> string" where
  "strtoul s = strtoull s"

text \<open>
  \<open>bytes\<close> is the size of the buffer for the host.  The answer is the host that was copied, if any,
  the port that was stored, if any, and the result.
\<close>

definition http_header_host ::
    "string \<Rightarrow> nat \<Rightarrow> (string option \<times> int option \<times> int) exec" where
  "http_header_host field bytes =
     (if bytes < 1 then Inr (None, None, -1)
      else
        let (field, found) =
          (if deref field = CHR ''['' then
             let field = tl field in
             case strchr field (CHR '']'') of
               None \<Rightarrow> (field, None)
             | Some p \<Rightarrow> (field, Some (length field - length p, Some (tl p)))
           else
             case strchr field (CHR '':'') of
               None \<Rightarrow> (field, Some (length field, None))
             | Some p \<Rightarrow>
                 let n = (if strchr (tl p) (CHR '':'') \<noteq> None then length field else length field - length p)
                 in (field, Some (n, Some (drop n field))))
        in case found of
             None \<Rightarrow> Inr (None, None, -1)
           | Some (n, p) \<Rightarrow>
               if bytes \<le> n then Inr (None, None, -1)
               else
                 and_then (in_bounds (n < bytes)) (\<lambda>_.
                 let host = take n field in
                 case p of
                   Some (c # q) \<Rightarrow>
                     if c = CHR '':'' then
                       let (v, rest) = strtoul q in
                       Inr (Some host, Some (v mod 2 ^ 16), if rest \<noteq> [] then -1 else 0)
                     else Inr (Some host, None, 0)
                 | _ \<Rightarrow> Inr (Some host, None, 0)))"

section \<open>Range\<close>

text \<open>\<^verbatim>\<open>string_token_int64\<close>: the digits, accumulated in 64 bits.\<close>

fun string_token_int64 :: "string \<Rightarrow> int \<Rightarrow> int \<times> string" where
  "string_token_int64 [] v = (v, [])"
| "string_token_int64 (c # cs) v =
     (if is_digit c then string_token_int64 cs (to_int64 (v * 10 + int (digit_val c))) else (v, c # cs))"

record http_range =
  rg_start :: int
  rg_end :: int

definition digits :: string where
  "digits = ''0123456789''"

text \<open>
  The loop with \<open>n\<close> entries left and \<open>rs\<close> filled; \<open>None\<close> is a NULL \<open>p\<close>.  The answer is the entries
  that were filled and the result.
\<close>

fun range_loop :: "nat \<Rightarrow> string option \<Rightarrow> http_range list \<Rightarrow> http_range list \<times> int" where
  "range_loop n None rs = (rs, int (length rs))"
| "range_loop 0 (Some p) rs = (rs, -1)"
| "range_loop (Suc n) (Some p) rs =
     (case strpbrk p (digits @ [CHR ''-'', CR, LF]) of
        None \<Rightarrow> (rs, int (length rs))
      | Some p \<Rightarrow>
          if deref p = CR \<or> deref p = LF then (rs, int (length rs))
          else
            let (start, p) = (if deref p = CHR ''-'' then (-1, p) else string_token_int64 p 0) in
            (case strpbrk p (digits @ [CHR '','', CR, LF]) of
               None \<Rightarrow>
                 if start = -1 then (rs, -1)
                 else range_loop n None (rs @ [\<lparr>rg_start = start, rg_end = -1\<rparr>])
             | Some p \<Rightarrow>
                 if deref p = CR \<or> deref p = LF \<or> deref p = CHR '','' then
                   if start = -1 then (rs, -1)
                   else range_loop n (Some p) (rs @ [\<lparr>rg_start = start, rg_end = -1\<rparr>])
                 else
                   let (e, p) = string_token_int64 p 0
                   in range_loop n (Some p) (rs @ [\<lparr>rg_start = start, rg_end = e\<rparr>])))"

definition http_header_range :: "string \<Rightarrow> nat \<Rightarrow> http_range list \<times> int" where
  "http_header_range field num = range_loop num (Some field) []"

section \<open>Content-Type\<close>

record http_content_type =
  ct_type :: string
  ct_subtype :: string
  ct_params :: "(string \<times> string option) list"

text \<open>Trailing blanks are cut off by lowering the length.\<close>

definition rtrim :: "string \<Rightarrow> string" where
  "rtrim s = rev (dropWhile (\<lambda>c. c = SPC) (rev s))"

definition special_chars :: string where
  "special_chars = [CHR '';'', CR, LF]"

text \<open>The text between a pointer and a later one, to the end if that is NULL.\<close>

definition upto :: "string \<Rightarrow> string option \<Rightarrow> string" where
  "upto p q = (case q of None \<Rightarrow> p | Some q \<Rightarrow> take (length p - length q) p)"

text \<open>\<open>n\<close> is the number of free entries of the array of three.\<close>

fun content_type_parameter :: "nat \<Rightarrow> string \<Rightarrow> (string \<times> string option) list" where
  "content_type_parameter 0 p = []"
| "content_type_parameter (Suc n) p =
     (if p = [] then []
      else
        let p = dropWhile (\<lambda>c. c = SPC) p;
            p1 = strpbrk p (CHR ''='' # special_chars);
            (val, p2) =
              (case p1 of
                 Some (c # t) \<Rightarrow>
                   if c = CHR ''='' then
                     let v = dropWhile (\<lambda>c. c = SPC) t; e = strpbrk v special_chars in (Some (upto v e), e)
                   else (None, p1)
               | _ \<Rightarrow> (None, p1))
        in (rtrim (upto p p1), map_option rtrim val) #
           (case p2 of
              Some (c # t) \<Rightarrow> if c = CR \<or> c = LF then [] else content_type_parameter n t
            | _ \<Rightarrow> []))"

definition http_header_content_type ::
    "string \<Rightarrow> http_content_type \<Rightarrow> http_content_type \<times> int" where
  "http_header_content_type field v =
     (let v = v\<lparr>ct_params := []\<rparr> in
      case strpbrk field (CHR ''/'' # special_chars) of
        None \<Rightarrow> (v, -1)
      | Some p1 \<Rightarrow>
          if deref p1 \<noteq> CHR ''/'' then (v, -1)
          else if length field - length p1 + 1 > 16 then (v, -1)
          else
            let v = v\<lparr>ct_type := upto field (Some p1)\<rparr>; p = tl p1;
                p1 = strpbrk p (SPC # special_chars); sub = upto p p1 in
            if length sub + 1 > 16 then (v, -1)
            else
              let v = v\<lparr>ct_subtype := sub\<rparr> in
              (case p1 of
                 None \<Rightarrow> (v, 0)
               | Some q \<Rightarrow>
                   let q = drop (strspn q [SPC, TAB]) q in
                   if deref q = CHR '';'' then (v\<lparr>ct_params := content_type_parameter 3 (tl q)\<rparr>, 0)
                   else (v, 0)))"

section \<open>Formatted input\<close>

text \<open>
  The part of \<^verbatim>\<open>sscanf\<close> that the date parser needs: \<open>D_int\<close> is \<^verbatim>\<open>%d\<close>, \<open>D_word n\<close> is \<^verbatim>\<open>%ns\<close>,
  \<open>D_chars n set\<close> is \<^verbatim>\<open>%n[^set]\<close>, \<open>D_blank\<close> is white space in the format and \<open>D_lit\<close> any other character.
  The answer is the list of values stored before the first failure.
\<close>

datatype directive = D_int | D_word nat | D_chars nat string | D_blank | D_lit char
datatype scanned = Number int | Text string

fun sscanf :: "directive list \<Rightarrow> string \<Rightarrow> scanned list" where
  "sscanf [] s = []"
| "sscanf (D_int # ds) s = (case scan_d s of None \<Rightarrow> [] | Some (v, t) \<Rightarrow> Number v # sscanf ds t)"
| "sscanf (D_word n # ds) s =
     (let t = skip_space s; w = takeWhile (\<lambda>c. \<not> is_space c) (take n t) in
      if w = [] then [] else Text w # sscanf ds (drop (length w) t))"
| "sscanf (D_chars n stop # ds) s =
     (let w = takeWhile (\<lambda>c. c \<notin> set stop) (take n s) in
      if w = [] then [] else Text w # sscanf ds (drop (length w) s))"
| "sscanf (D_blank # ds) s = sscanf ds (skip_space s)"
| "sscanf (D_lit c # ds) s = (if s \<noteq> [] \<and> hd s = c then sscanf ds (tl s) else [])"

section \<open>Dates\<close>

text \<open>The members of \<^verbatim>\<open>struct tm\<close> that are used.\<close>

record tm =
  tm_sec :: int
  tm_min :: int
  tm_hour :: int
  tm_mday :: int
  tm_mon :: int
  tm_year :: int
  tm_wday :: int

definition months :: "string list" where
  "months = [''Jan'', ''Feb'', ''Mar'', ''Apr'', ''May'', ''Jun'', ''Jul'', ''Aug'', ''Sep'', ''Oct'', ''Nov'', ''Dec'']"

definition weekdays :: "string list" where
  "weekdays = [''Sunday'', ''Monday'', ''Tuesday'', ''Wednesday'', ''Thursday'', ''Friday'', ''Saturday'']"

definition wkdays :: "string list" where
  "wkdays = [''Sun'', ''Mon'', ''Tue'', ''Wed'', ''Thu'', ''Fri'', ''Sat'']"

text \<open>The three table searches of \<^verbatim>\<open>http-header-expires.c\<close>.\<close>

fun find_name :: "string \<Rightarrow> string list \<Rightarrow> int \<Rightarrow> int" where
  "find_name s [] i = -1"
| "find_name s (t # ts) i = (if strcaseeq s t then i else find_name s ts (i + 1))"

definition rfc_month :: "string \<Rightarrow> int" where
  "rfc_month s = find_name s months 0"

definition rfc_weekday :: "string \<Rightarrow> int" where
  "rfc_weekday s = find_name s weekdays 0"

definition rfc_wkday :: "string \<Rightarrow> int" where
  "rfc_wkday s = find_name s wkdays 0"

definition fmt_time :: "directive list" where
  "fmt_time = [D_int, D_lit (CHR '':''), D_int, D_lit (CHR '':''), D_int]"

definition fmt_gmt :: "directive list" where
  "fmt_gmt = [D_blank, D_lit (CHR ''G''), D_lit (CHR ''M''), D_lit (CHR ''T'')]"

definition fmt_rfc822 :: "directive list" where
  "fmt_rfc822 = [D_word 3, D_lit (CHR '',''), D_blank, D_int, D_blank, D_word 3, D_blank, D_int, D_blank] @ fmt_time @ fmt_gmt"

definition fmt_rfc850 :: "directive list" where
  "fmt_rfc850 = [D_chars 9 '', '', D_lit (CHR '',''), D_blank, D_int, D_lit (CHR ''-''), D_word 3, D_lit (CHR ''-''), D_int, D_blank] @
     fmt_time @ fmt_gmt"

definition fmt_asctime :: "directive list" where
  "fmt_asctime = [D_word 3, D_blank, D_word 3, D_blank, D_int, D_blank] @ fmt_time @ [D_blank, D_int] @ fmt_gmt"

text \<open>
  What one \<^verbatim>\<open>sscanf\<close> call stores in \<open>tm\<close>: \<open>k\<close> is the number of conversions before the hour.
  A failed attempt leaves what it stored.
\<close>

definition store_time :: "nat \<Rightarrow> scanned list \<Rightarrow> tm \<Rightarrow> tm" where
  "store_time k vs t =
     (let num = (\<lambda>i old. if i < length vs then (case vs ! i of Number v \<Rightarrow> v | Text _ \<Rightarrow> old) else old)
      in t\<lparr>tm_hour := num k (tm_hour t), tm_min := num (k + 1) (tm_min t), tm_sec := num (k + 2) (tm_sec t)\<rparr>)"

definition store_date :: "int \<Rightarrow> int \<Rightarrow> string \<Rightarrow> int \<Rightarrow> tm \<Rightarrow> tm" where
  "store_date wday day month year t =
     t\<lparr>tm_wday := wday, tm_year := year - 1900, tm_mday := day, tm_mon := rfc_month month\<rparr>"

definition http_header_expires :: "string \<Rightarrow> tm \<Rightarrow> tm \<times> int" where
  "http_header_expires field t =
     (let v1 = sscanf fmt_rfc822 field; t1 = store_time 4 v1 t in
      case v1 of
        [Text w, Number d, Text m, Number y, _, _, _] \<Rightarrow> (store_date (rfc_wkday w) d m y t1, 0)
      | _ \<Rightarrow>
        let v2 = sscanf fmt_rfc850 field; t2 = store_time 4 v2 t1 in
        (case v2 of
           [Text w, Number d, Text m, Number y, _, _, _] \<Rightarrow>
             (store_date (rfc_weekday w) d m (y + (if y < 70 then 2000 else 1900)) t2, 0)
         | _ \<Rightarrow>
           let v3 = sscanf fmt_asctime field; t3 = store_time 3 v3 t2 in
           (case v3 of
              [Text w, Text m, Number d, _, _, _, Number y] \<Rightarrow> (store_date (rfc_wkday w) d m y t3, 0)
            | _ \<Rightarrow> (t3, -1))))"

text \<open>\<^verbatim>\<open>%0nd\<close>.\<close>

definition show_pad :: "nat \<Rightarrow> int \<Rightarrow> string" where
  "show_pad n i =
     (let s = show_nat (nat \<bar>i\<bar>); sign = (if i < 0 then ''-'' else [])
      in sign @ replicate (n - length sign - length s) (CHR ''0'') @ s)"

text \<open>\<open>t\<close> is what \<^verbatim>\<open>gmtime\<close> answers; the buffer has 30 bytes and \<open>None\<close> is the NULL result.\<close>

definition rfc822_datetime_format :: "tm \<Rightarrow> string option exec" where
  "rfc822_datetime_format t =
     and_then (c_assert (0 \<le> tm_wday t \<and> tm_wday t < 7)) (\<lambda>_.
     and_then (c_assert (0 \<le> tm_mon t \<and> tm_mon t < 12)) (\<lambda>_.
     let s = wkdays ! nat (tm_wday t) @ '', '' @ show_pad 2 (tm_mday t) @ '' '' @ months ! nat (tm_mon t) @ '' '' @
           show_pad 4 (tm_year t + 1900) @ '' '' @ show_pad 2 (tm_hour t) @ '':'' @ show_pad 2 (tm_min t) @ '':'' @
           show_pad 2 (tm_sec t) @ '' GMT''
     in Inr (if length s < 30 then Some s else None)))"

section \<open>Reason phrases\<close>

text \<open>The tables as the compiler sees them: adjacent string literals are one string.\<close>

definition reason1xx :: "string list" where
  "reason1xx = [''Continue'', ''Switching Protocols'' @ ''Processing'', ''Early Hints'']"

definition reason2xx :: "string list" where
  "reason2xx = [''OK'', ''Created'', ''Accepted'', ''Non-Authoritative Information'', ''No Content'',
     ''Reset Content'', ''Partial Content'', ''Multi-Status'', ''Already Reported'']"

definition reason3xx :: "string list" where
  "reason3xx = [''Multiple Choices'', ''Move Permanently'', ''Found'', ''See Other'', ''Not Modified'',
     ''Use Proxy'', ''Unused'', ''Temporary Redirect'', ''Permanent Redirect'']"

definition reason4xx :: "string list" where
  "reason4xx = [''Bad Request'', ''Unauthorized'', ''Payment Required'', ''Forbidden'', ''Not Found'',
     ''Method Not Allowed'', ''Not Acceptable'', ''Proxy Authentication Required'', ''Request Timeout'',
     ''Conflict'', ''Gone'', ''Length Required'', ''Precondition Failed'', ''Request Entity Too Large'',
     ''Request-URI Too Long'', ''Unsupported Media Type'', ''Request Range Not Satisfiable'',
     ''Expectation Failed'', ''I'' @ [CHR 0x27] @ ''m a teapot'', '''', ''Bad Extension'', ''Extension Required'',
     ''Unprocessable Entity'', ''Interval Too Brief'', ''Failed Dependency'', ''Unordered Collection'',
     ''Upgrade Required'', '''', ''Precondition Required'', ''Too Many Requests'', ''Stale Credentials'',
     ''Request Header Fields Too Large'', ''Missing Username'', ''Use TLS'', '''', '''', '''',
     ''Allocation Mismatch'', ''Stale Nonce'', '''', '''', ''Wrong Credentials'',
     ''Unsupported Transport Address'']"

definition reason5xx :: "string list" where
  "reason5xx = [''Internal Server Error'', ''Not Implemented'', ''Bad Gateway'', ''Service Unavailable'',
     ''Gateway Timeout'', ''HTTP Version Not Supported'', ''Variant Also Negotiates'', ''Insufficient Storage'',
     ''Loop Detected'', ''Bandwidth Limit Exceeded'', ''Not Extended'', ''Network Authentication Required'',
     '''', ''Message Too Large'']"

definition http_reason_phrase :: "int \<Rightarrow> string" where
  "http_reason_phrase code =
     (let at = (\<lambda>b t. b \<le> code \<and> code < b + int (length t)) in
      if at 100 reason1xx then reason1xx ! nat (code - 100)
      else if at 200 reason2xx then reason2xx ! nat (code - 200)
      else if at 300 reason3xx then reason3xx ! nat (code - 300)
      else if at 400 reason4xx then reason4xx ! nat (code - 400)
      else if at 500 reason5xx then reason5xx ! nat (code - 500)
      else ''unknown'')"

end
