(* ===== verification/HttpHeaderProps.thy ===== *)
theory HttpHeaderProps
  imports HttpHeaders
begin

text \<open>
  Round trips of the header parsers: what a well-formed field says is what the parser returns.
\<close>

section \<open>Numbers in fields\<close>

lemma skip_space_id: "s = [] \<or> \<not> is_space (hd s) \<Longrightarrow> skip_space s = s"
  by (cases s) (simp_all add: skip_space_def)

lemma read_dec_digits:
  assumes "ds \<noteq> []" "\<forall>c \<in> set ds. is_digit c" "rest = [] \<or> \<not> is_digit (hd rest)"
  shows "read_dec (ds @ rest) = Some (False, dec_val ds, rest)"
proof -
  obtain d ds' where d: "ds = d # ds'" using assms(1) by (cases ds) auto
  then have nd: "\<not> is_space d" "d \<noteq> CHR ''-''" "d \<noteq> CHR ''+''" using is_digit_not [of d] assms(2) by auto
  have "takeWhile is_digit (ds @ rest) = ds"
    using assms(2,3) by (cases rest) (simp_all add: takeWhile_append)
  then show ?thesis using nd d assms(1) by (simp add: read_dec_def skip_space_def Let_def)
qed

lemma scan_d_digits:
  assumes "ds \<noteq> []" "\<forall>c \<in> set ds. is_digit c" "rest = [] \<or> \<not> is_digit (hd rest)" "dec_val ds < 2 ^ 31"
  shows "scan_d (ds @ rest) = Some (int (dec_val ds), rest)"
proof -
  have "to_int32 (int (dec_val ds)) = int (dec_val ds)"
    unfolding to_int32_def by (rule signed_take_bit_int_eq_self) (use assms(4) in auto)
  then show ?thesis using read_dec_digits [OF assms(1-3)] assms(4) by (simp add: scan_d_def strtol_def min_def max_def)
qed

lemma dec_val_zeros: "dec_val (replicate k (CHR ''0'') @ ds) = dec_val ds"
  by (induction k) (simp_all add: dec_val_Cons digit_val_def)

lemma show_pad_nat:
  assumes "0 \<le> i"
  shows "show_pad n i = replicate (n - length (show_nat (nat i))) (CHR ''0'') @ show_nat (nat i)"
  using assms by (simp add: show_pad_def Let_def)

lemma show_pad_digits:
  assumes "0 \<le> i"
  shows "show_pad n i \<noteq> []" "\<forall>c \<in> set (show_pad n i). is_digit c" "dec_val (show_pad n i) = nat i"
  using assms show_nat_digits [of "nat i"] by (auto simp: show_pad_nat dec_val_zeros is_digit_def)

section \<open>Dates\<close>

lemma sscanf_int:
  assumes "0 \<le> i" "i < 2 ^ 31" "r = [] \<or> \<not> is_digit (hd r)"
  shows "sscanf (D_int # ds) (show_pad n i @ r) = Number i # sscanf ds r"
  using scan_d_digits [of "show_pad n i" r] show_pad_digits [OF assms(1), of n] assms by simp

lemma sscanf_word:
  assumes "length w = 3" "\<forall>c \<in> set w. \<not> is_space c"
  shows "sscanf (D_word 3 # ds) (w @ r) = Text w # sscanf ds r"
proof -
  have "w \<noteq> []" using assms(1) by auto
  then have "\<not> is_space (hd (w @ r))" using assms(2) by simp
  then have "skip_space (w @ r) = w @ r" by (intro skip_space_id) simp
  moreover have "takeWhile (\<lambda>c. \<not> is_space c) w = w" using assms(2) by (simp add: takeWhile_eq_all_conv)
  moreover have "take 3 (w @ r) = w" "drop 3 (w @ r) = r" using assms(1) by simp_all
  ultimately show ?thesis using assms(1) \<open>w \<noteq> []\<close>
    by (simp only: sscanf.simps(3) Let_def if_False)
qed

lemma sscanf_blank:
  "r = [] \<or> \<not> is_space (hd r) \<Longrightarrow> sscanf (D_blank # ds) (SPC # r) = sscanf ds r"
  using skip_space_id [of r] by (simp add: skip_space_def is_space_def)

lemma sscanf_gmt: "sscanf fmt_gmt (SPC # ''GMT'') = []"
  by (simp add: fmt_gmt_def skip_space_def is_space_def)

lemma hd_show_pad: "0 \<le> i \<Longrightarrow> \<not> is_space (hd (show_pad n i @ r))"
  using show_pad_digits [of i n] is_digit_not by (cases "show_pad n i") auto

lemma wkdays_length: "length wkdays = 7"
  by (simp add: wkdays_def)

lemma months_length: "length months = 12"
  by (simp add: months_def)

lemma names_ok:
  "w \<in> set wkdays \<union> set months \<Longrightarrow> length w = 3 \<and> (\<forall>c \<in> set w. \<not> is_space c)"
  by (auto simp: wkdays_def months_def is_space_def)

lemma less_7: "(i::nat) < 7 \<Longrightarrow> i \<in> {0, 1, 2, 3, 4, 5, 6}"
  by auto

lemma less_12: "(i::nat) < 12 \<Longrightarrow> i \<in> {0, 1, 2, 3, 4, 5, 6, 7, 8, 9, 10, 11}"
  by (simp, arith)

lemma rfc_wkday_nth: "i < 7 \<Longrightarrow> rfc_wkday (wkdays ! i) = int i"
  by (drule less_7, elim insertE emptyE)
    (simp_all add: rfc_wkday_def wkdays_def strcaseeq_def to_lower_def is_upper_def)

lemma rfc_month_nth: "i < 12 \<Longrightarrow> rfc_month (months ! i) = int i"
  by (drule less_12, elim insertE emptyE)
    (simp_all add: rfc_month_def months_def strcaseeq_def to_lower_def is_upper_def)

definition tm_ok :: "tm \<Rightarrow> bool" where
  "tm_ok t \<longleftrightarrow> 0 \<le> tm_wday t \<and> tm_wday t < 7 \<and> 0 \<le> tm_mon t \<and> tm_mon t < 12 \<and> 1 \<le> tm_mday t \<and> tm_mday t \<le> 31 \<and>
     -1900 \<le> tm_year t \<and> tm_year t \<le> 8099 \<and> 0 \<le> tm_hour t \<and> tm_hour t \<le> 23 \<and> 0 \<le> tm_min t \<and> tm_min t \<le> 59 \<and>
     0 \<le> tm_sec t \<and> tm_sec t \<le> 60"

lemma pad_length:
  assumes "0 \<le> i" "i < 10 ^ n" "0 < n"
  shows "length (show_pad n i) = n"
proof -
  have "nat i < 10 ^ n" using assms(1,2) by (simp add: nat_less_iff)
  then show ?thesis using show_nat_length [of "nat i" n] assms(1,3) by (simp add: show_pad_nat)
qed

text \<open>
  C6.  A date that \<^verbatim>\<open>rfc822_datetime_format\<close> prints is never too long for its buffer of 30 bytes,
  and \<^verbatim>\<open>http_header_expires\<close> reads the same calendar fields back.
\<close>

theorem rfc822_datetime_roundtrip:
  assumes "tm_ok t"
  shows "\<exists>s. rfc822_datetime_format t = Inr (Some s) \<and> http_header_expires s t0 = (t, 0)"
proof -
  let ?w = "wkdays ! nat (tm_wday t)" and ?m = "months ! nat (tm_mon t)"
  have r: "0 \<le> tm_mday t" "tm_mday t < 10 ^ 2" "0 \<le> tm_year t + 1900" "tm_year t + 1900 < 10 ^ 4"
      "0 \<le> tm_hour t" "tm_hour t < 10 ^ 2" "0 \<le> tm_min t" "tm_min t < 10 ^ 2" "0 \<le> tm_sec t" "tm_sec t < 10 ^ 2"
      "0 \<le> tm_wday t" "nat (tm_wday t) < 7" "0 \<le> tm_mon t" "nat (tm_mon t) < 12"
    using assms by (simp_all add: tm_ok_def nat_less_iff)
  have "?w \<in> set wkdays" "?m \<in> set months" using r(12,14) by (auto intro!: nth_mem simp: wkdays_length months_length)
  then have names: "length ?w = 3" "\<forall>c \<in> set ?w. \<not> is_space c" "length ?m = 3" "\<forall>c \<in> set ?m. \<not> is_space c"
    using names_ok by auto
  then have "\<not> is_space (hd (?m @ x))" for x by (cases ?m) auto
  note blank = this hd_show_pad r
  let ?s = "?w @ '', '' @ show_pad 2 (tm_mday t) @ '' '' @ ?m @ '' '' @
      show_pad 4 (tm_year t + 1900) @ '' '' @ show_pad 2 (tm_hour t) @ '':'' @ show_pad 2 (tm_min t) @ '':'' @
      show_pad 2 (tm_sec t) @ '' GMT''"
  have "length ?s = 29" using names pad_length r by simp
  then have fmt: "rfc822_datetime_format t = Inr (Some ?s)"
    using assms by (simp add: rfc822_datetime_format_def tm_ok_def Let_def)
  have "sscanf fmt_rfc822 ?s =
      [Text ?w, Number (tm_mday t), Text ?m, Number (tm_year t + 1900), Number (tm_hour t), Number (tm_min t), Number (tm_sec t)]"
    unfolding fmt_rfc822_def fmt_time_def  append.simps
    using r by (simp only: sscanf_word [OF names(1,2)] sscanf_word [OF names(3,4)] append.simps)
      (simp add: sscanf_word [OF names(1,2)] sscanf_word [OF names(3,4)] sscanf_int sscanf_blank blank is_digit_def
       sscanf_gmt del: sscanf.simps(2,3,5))
  then have "http_header_expires ?s t0 = (t, 0)"
    using r rfc_wkday_nth [OF r(12)] rfc_month_nth [OF r(14)]
    by (simp add: http_header_expires_def store_time_def store_date_def Let_def)
  then show ?thesis using fmt by blast
qed

theorem rfc822_datetime_roundtrip_witness:
  "\<exists>s. rfc822_datetime_format \<lparr>tm_sec = 37, tm_min = 49, tm_hour = 8, tm_mday = 6, tm_mon = 10, tm_year = 94, tm_wday = 0\<rparr> =
     Inr (Some s) \<and> http_header_expires s
       \<lparr>tm_sec = 0, tm_min = 0, tm_hour = 0, tm_mday = 0, tm_mon = 0, tm_year = 0, tm_wday = 0\<rparr> =
       (\<lparr>tm_sec = 37, tm_min = 49, tm_hour = 8, tm_mday = 6, tm_mon = 10, tm_year = 94, tm_wday = 0\<rparr>, 0)"
  by (rule rfc822_datetime_roundtrip) (simp add: tm_ok_def)

section \<open>Host\<close>

lemma strtoull_digits:
  assumes "ds \<noteq> []" "\<forall>c \<in> set ds. is_digit c" "rest = [] \<or> \<not> is_digit (hd rest)" "dec_val ds < 2 ^ 64"
  shows "strtoull (ds @ rest) = (int (dec_val ds), rest)"
  using read_dec_digits [OF assms(1-3)] assms(4) by (simp add: strtoull_def ULLONG_MAX_def)

lemma strtoul_show_nat: "n < 2 ^ 64 \<Longrightarrow> strtoul (show_nat n) = (int n, [])"
  using strtoull_digits [of "show_nat n" "[]"] show_nat_digits [of n] by (simp add: strtoul_def)

lemma strchr_None: "strchr s c = None \<longleftrightarrow> c \<notin> set s"
  by (auto simp: strchr_def find_suffix_None)

lemma strchr_append: "c \<notin> set s \<Longrightarrow> strchr (s @ c # t) c = Some (c # t)"
  unfolding strchr_def by (rule find_suffix_append) auto

lemma show_nat_no_colon: "CHR '':'' \<notin> set (show_nat n)"
  using show_nat_digits [of n] by (auto simp: is_digit_def)

text \<open>What the field of an HTTP request says: a name or an address, in brackets if it has colons, and a port.\<close>

definition print_host :: "string \<Rightarrow> nat option \<Rightarrow> string" where
  "print_host h port =
     (if CHR '':'' \<in> set h then ''['' @ h @ '']'' else h) @
     (case port of None \<Rightarrow> [] | Some n \<Rightarrow> CHR '':'' # show_nat n)"

text \<open>
  \<^verbatim>\<open>http_header_host\<close> takes a \<^verbatim>\<open>Host\<close> field apart into exactly the host and the port it
  was made of (the port reduced to 16 bits), for names, IPv4 addresses and bracketed IPv6 addresses,
  whenever the buffer can hold the host and its terminator, and refuses it when it cannot.
\<close>

lemma http_header_host_roundtrip:
  assumes "hd h \<noteq> CHR ''[''" "h \<noteq> []" "CHR '']'' \<notin> set h"
    and "case port of None \<Rightarrow> True | Some n \<Rightarrow> n < 2 ^ 64"
  shows "http_header_host (print_host h port) bytes =
     (if length h < bytes then Inr (Some h, map_option (\<lambda>n. int n mod 2 ^ 16) port, 0)
      else Inr (None, None, -1))"
proof (cases "CHR '':'' \<in> set h")
  case True
  then show ?thesis using assms
    by (cases port) (auto simp: http_header_host_def print_host_def Let_def strchr_append strtoul_show_nat)
next
  case False
  have "deref h = hd h" "deref (h @ t) = hd h" for t using assms(2) by (cases h; auto)+
  moreover have "strchr h (CHR '':'') = None" using False by (simp add: strchr_None)
  moreover have "strchr (show_nat n) (CHR '':'') = None" for n by (simp add: strchr_None show_nat_no_colon)
  ultimately show ?thesis using assms False
    by (cases port) (auto simp: http_header_host_def print_host_def Let_def strchr_append strtoul_show_nat)
qed

lemma http_header_host_roundtrip_witness:
  "http_header_host (print_host ''fe80::1'' (Some 8080)) 64 = Inr (Some ''fe80::1'', Some 8080, 0)"
  using http_header_host_roundtrip [of "''fe80::1''" "Some 8080" 64] by simp

section \<open>Range\<close>

definition print_range :: "http_range \<Rightarrow> string" where
  "print_range r = (if rg_start r = -1 then [] else show_nat (nat (rg_start r))) @ ''-'' @
     (if rg_end r = -1 then [] else show_nat (nat (rg_end r)))"

fun print_ranges :: "http_range list \<Rightarrow> string" where
  "print_ranges [] = []"
| "print_ranges [r] = print_range r"
| "print_ranges (r # rs) = print_range r @ '','' @ print_ranges rs"

text \<open>An open, a closed or a suffix range whose numbers fit.\<close>

definition range_ok :: "http_range \<Rightarrow> bool" where
  "range_ok r \<longleftrightarrow> -1 \<le> rg_start r \<and> -1 \<le> rg_end r \<and> (rg_start r \<noteq> -1 \<or> rg_end r \<noteq> -1) \<and>
     rg_start r < 2 ^ 63 \<and> rg_end r < 2 ^ 63"

lemma token_digits:
  assumes "\<forall>c \<in> set ds. is_digit c" "rest = [] \<or> \<not> is_digit (hd rest)"
    "0 \<le> v" "v * 10 ^ length ds + int (dec_val ds) < 2 ^ 63"
  shows "string_token_int64 (ds @ rest) v = (v * 10 ^ length ds + int (dec_val ds), rest)"
  using assms
proof (induction ds arbitrary: v)
  case Nil
  then show ?case by (cases rest) (auto simp: dec_val_def)
next
  case (Cons d ds)
  let ?w = "v * 10 + int (digit_val d)"
  have eq: "?w * 10 ^ length ds + int (dec_val ds) = v * 10 ^ length (d # ds) + int (dec_val (d # ds))"
    by (simp add: dec_val_Cons algebra_simps)
  have "?w * 1 \<le> ?w * 10 ^ length ds" using Cons.prems(3) by (intro mult_left_mono) auto
  then have "?w \<le> v * 10 ^ length (d # ds) + int (dec_val (d # ds))" using eq by simp
  then have "?w < 2 ^ 63" using Cons.prems(4) by (rule le_less_trans)
  then have "to_int64 ?w = ?w" unfolding to_int64_def
    by (intro signed_take_bit_int_eq_self) (use Cons.prems(3) in auto)
  moreover have "string_token_int64 (ds @ rest) ?w = (?w * 10 ^ length ds + int (dec_val ds), rest)"
    using Cons.prems eq by (intro Cons.IH) auto
  ultimately show ?case using Cons.prems(1) eq by simp
qed

lemma token_show_nat:
  assumes "n < 2 ^ 63" "rest = [] \<or> \<not> is_digit (hd rest)"
  shows "string_token_int64 (show_nat n @ rest) 0 = (int n, rest)"
  using token_digits [of "show_nat n" rest 0] show_nat_digits [of n] assms by simp

lemma is_digit_digits: "is_digit c \<longleftrightarrow> c \<in> set digits"
proof
  assume "is_digit c"
  then have "c = char_of (ord c)" "ord c - 48 < 10" "48 \<le> ord c" by (auto simp: is_digit_def)
  then have "c = char_of (48 + (ord c - 48))" "ord c - 48 \<in> {0, 1, 2, 3, 4, 5, 6, 7, 8, 9}" by (simp_all, arith)
  then show "c \<in> set digits" by (elim insertE emptyE) (simp_all add: digits_def char_of_def bit_simps)
qed (auto simp: digits_def is_digit_def)

text \<open>One range: the loop finds it behind any text without digits, minus signs and line ends.\<close>

lemma strpbrk_hit: "\<forall>c \<in> set pre. c \<notin> set A \<Longrightarrow> c \<in> set A \<Longrightarrow> strpbrk (pre @ c # t) A = Some (c # t)"
  unfolding strpbrk_def by (rule find_suffix_append) auto

lemma strpbrk_hd: "s \<noteq> [] \<Longrightarrow> hd s \<in> set A \<Longrightarrow> strpbrk s A = Some s"
  by (cases s) (simp_all add: strpbrk_def)

lemma strpbrk_miss: "\<forall>c \<in> set s. c \<notin> set A \<Longrightarrow> strpbrk s A = None"
  by (simp add: strpbrk_def find_suffix_None)

lemma show_nat_hd:
  obtains d ds where "show_nat n = d # ds" "d \<in> set digits" "d \<notin> {CR, LF, CHR '','', CHR ''-''}"
proof -
  obtain d ds where "show_nat n = d # ds" using show_nat_not_Nil by (cases "show_nat n") auto
  moreover from this have "is_digit d" using show_nat_digits [of n] by simp
  moreover from this have "d \<notin> {CR, LF, CHR '','', CHR ''-''}" by (auto simp: is_digit_def)
  ultimately show thesis using that is_digit_digits by blast
qed

lemma range_loop_step:
  assumes r: "range_ok r" and pre: "\<forall>c \<in> set pre. c \<notin> set (digits @ [CHR ''-'', CR, LF])"
    and rest: "rest = [] \<or> (\<exists>t. rest = CHR '','' # t)"
  shows "range_loop (Suc n) (Some (pre @ print_range r @ rest)) rs =
     range_loop n (if rest = [] \<and> rg_end r = -1 then None else Some rest) (rs @ [r])"
proof -
  have minus: "CHR ''-'' \<notin> set digits" "CHR '','' \<notin> set digits" by (simp_all add: digits_def)
  have not_digit: "rest = [] \<or> \<not> is_digit (hd rest)" using rest by (auto simp: is_digit_def)
  define R where "R = range_loop n (if rest = [] \<and> rg_end r = -1 then None else Some rest) (rs @ [r])"
  define E where "E = (if rg_end r = -1 then [] else show_nat (nat (rg_end r)))"
  let ?last = "\<lambda>start. (case strpbrk (CHR ''-'' # E @ rest) (digits @ [CHR '','', CR, LF]) of
      None \<Rightarrow> if start = -1 then (rs, -1) else range_loop n None (rs @ [\<lparr>rg_start = start, rg_end = -1\<rparr>])
    | Some p \<Rightarrow>
        if deref p = CR \<or> deref p = LF \<or> deref p = CHR '','' then
          if start = -1 then (rs, -1) else range_loop n (Some p) (rs @ [\<lparr>rg_start = start, rg_end = -1\<rparr>])
        else let (e, p) = string_token_int64 p 0 in range_loop n (Some p) (rs @ [\<lparr>rg_start = start, rg_end = e\<rparr>]))"
  have end_part: "?last (rg_start r) = R"
  proof (cases "rg_end r = -1")
    case True
    then obtain a where "r = \<lparr>rg_start = a, rg_end = -1\<rparr>" by (cases r) auto
    then show ?thesis using r rest minus by (auto simp: range_ok_def strpbrk_def E_def R_def)
  next
    case False
    obtain d ds where d: "show_nat (nat (rg_end r)) = d # ds" "d \<in> set digits" "d \<notin> {CR, LF, CHR '','', CHR ''-''}"
      by (rule show_nat_hd)
    have "string_token_int64 (d # ds @ rest) 0 = (rg_end r, rest)"
    proof -
      have "nat (rg_end r) < 2 ^ 63" "int (nat (rg_end r)) = rg_end r" using r False by (auto simp: range_ok_def)
      then show ?thesis using token_show_nat [OF _ not_digit, of "nat (rg_end r)"] d(1) by (simp only: append.simps)
    qed
    moreover have "is_digit d" using d(2) is_digit_digits by simp
    moreover have "\<lparr>rg_start = rg_start r, rg_end = rg_end r\<rparr> = r" by simp
    ultimately show ?thesis using False d minus by (cases r; simp add: strpbrk_def E_def R_def)
  qed
  have "range_loop (Suc n) (Some (pre @ print_range r @ rest)) rs = R"
  proof (cases "rg_start r = -1")
    case True
    then have "strpbrk (pre @ print_range r @ rest) (digits @ [CHR ''-'', CR, LF]) = Some (CHR ''-'' # E @ rest)"
      using strpbrk_hit [OF pre, of "CHR ''-''"] by (simp add: print_range_def E_def)
    then show ?thesis using True end_part [unfolded True] by simp
  next
    case False
    obtain d ds where d: "show_nat (nat (rg_start r)) = d # ds" "d \<in> set digits" "d \<notin> {CR, LF, CHR '','', CHR ''-''}"
      by (rule show_nat_hd)
    have p: "print_range r @ rest = d # ds @ CHR ''-'' # E @ rest" using False d by (simp add: print_range_def E_def)
    have "strpbrk (pre @ print_range r @ rest) (digits @ [CHR ''-'', CR, LF]) = Some (d # ds @ CHR ''-'' # E @ rest)"
      unfolding p using d(2) by (intro strpbrk_hit [OF pre]) simp
    moreover have "string_token_int64 (d # ds @ CHR ''-'' # E @ rest) 0 = (rg_start r, CHR ''-'' # E @ rest)"
    proof -
      have "nat (rg_start r) < 2 ^ 63" "int (nat (rg_start r)) = rg_start r" using r False by (auto simp: range_ok_def)
      moreover have "CHR ''-'' # E @ rest = [] \<or> \<not> is_digit (hd (CHR ''-'' # E @ rest))" by (simp add: is_digit_def)
      ultimately show ?thesis using token_show_nat [of "nat (rg_start r)" "CHR ''-'' # E @ rest"] d(1)
        by (simp only: append.simps)
    qed
    ultimately show ?thesis using d(3) end_part by simp
  qed
  then show ?thesis by (simp only: R_def)
qed

lemma range_loop_print:
  assumes "rs \<noteq> []" "\<forall>r \<in> set rs. range_ok r" "length rs \<le> n"
    "\<forall>c \<in> set pre. c \<notin> set (digits @ [CHR ''-'', CR, LF])"
  shows "range_loop n (Some (pre @ print_ranges rs)) acc =
     (acc @ rs, if length rs = n \<and> rg_end (last rs) \<noteq> -1 then -1 else int (length acc + length rs))"
  using assms
proof (induction rs arbitrary: n pre acc rule: print_ranges.induct)
  case (2 r)
  then obtain m where n: "n = Suc m" by (cases n) auto
  have "range_loop m (Some []) (acc @ [r]) = (acc @ [r], if m = 0 then -1 else int (length acc + 1))"
    by (cases m) (simp_all add: strpbrk_def)
  then show ?case using range_loop_step [of r pre "[]" m acc] 2 n by simp
next
  case (3 r r' rs)
  then obtain m where n: "n = Suc m" by (cases n) auto
  have "\<forall>c \<in> set '',''. c \<notin> set (digits @ [CHR ''-'', CR, LF])" by (simp add: digits_def)
  then have "range_loop m (Some ('','' @ print_ranges (r' # rs))) (acc @ [r]) =
      ((acc @ [r]) @ r' # rs, if length (r' # rs) = m \<and> rg_end (last (r' # rs)) \<noteq> -1 then -1
         else int (length (acc @ [r]) + length (r' # rs)))"
    using 3 n by (intro "3.IH") auto
  then show ?case using range_loop_step [of r pre "'','' @ print_ranges (r' # rs)" m acc] 3 n by simp
qed simp

text \<open>
  \<^verbatim>\<open>http_header_range\<close> reads every range of a \<^verbatim>\<open>Range\<close> field (closed, open and suffix ranges) into
  the caller's array, in order, and returns how many there are.  The one exception: when the array
  has exactly as many entries as there are ranges and the last one is closed, all of them are
  stored and the result is the error -1.
\<close>

lemma http_header_range_roundtrip:
  assumes "rs \<noteq> []" "\<forall>r \<in> set rs. range_ok r" "length rs \<le> n"
  shows "http_header_range (''bytes='' @ print_ranges rs) n =
     (rs, if length rs = n \<and> rg_end (last rs) \<noteq> -1 then -1 else int (length rs))"
  unfolding http_header_range_def
  by (subst range_loop_print [OF assms]) (simp_all add: digits_def)

lemma http_header_range_roundtrip_witness:
  "http_header_range (''bytes='' @ print_ranges [\<lparr>rg_start = 0, rg_end = 499\<rparr>, \<lparr>rg_start = -1, rg_end = 500\<rparr>]) 3 =
     ([\<lparr>rg_start = 0, rg_end = 499\<rparr>, \<lparr>rg_start = -1, rg_end = 500\<rparr>], 2)"
  by (subst http_header_range_roundtrip) (simp_all add: range_ok_def)

section \<open>Content-Type\<close>

definition print_param :: "string \<times> string \<Rightarrow> string" where
  "print_param p = '';'' @ fst p @ ''='' @ snd p"

text \<open>A field that starts and ends with a character that is neither a blank nor special.\<close>

definition plain :: "string \<Rightarrow> bool" where
  "plain s \<longleftrightarrow> s \<noteq> [] \<and> hd s \<noteq> SPC \<and> last s \<noteq> SPC \<and> (\<forall>c \<in> set s. c \<notin> set special_chars \<and> c \<noteq> CHR ''='')"

lemma dropWhile_plain: "plain s \<Longrightarrow> dropWhile (\<lambda>c. c = SPC) (s @ t) = s @ t"
  by (cases s) (simp_all add: plain_def)

lemma rtrim_plain: "plain s \<Longrightarrow> rtrim s = s"
  by (cases s rule: rev_cases) (simp_all add: plain_def rtrim_def)

lemma upto_append [simp]: "upto (s @ t) (Some t) = s"
  by (simp add: upto_def)

lemma content_type_parameter_print:
  assumes "\<forall>p \<in> set ps. plain (fst p) \<and> plain (snd p)" "ps \<noteq> []"
  shows "content_type_parameter n (tl (concat (map print_param ps))) = map (\<lambda>p. (fst p, Some (snd p))) (take n ps)"
  using assms
proof (induction ps arbitrary: n)
  case (Cons p ps)
  obtain k v where p: "p = (k, v)" by (cases p)
  then have kv: "plain k" "plain v" using Cons.prems by auto
  let ?rest = "concat (map print_param ps)"
  have eq: "tl (concat (map print_param (p # ps))) = k @ CHR ''='' # v @ ?rest" using p by (simp add: print_param_def)
  have fs: "fst p = k" "snd p = v" using p by simp_all
  show ?case
  proof (cases n)
    case (Suc m)
    have k: "strpbrk (k @ CHR ''='' # v @ ?rest) (CHR ''='' # special_chars) = Some (CHR ''='' # v @ ?rest)"
      using kv(1) by (intro strpbrk_hit) (auto simp: plain_def)
    have s1: "content_type_parameter (Suc m) (k @ CHR ''='' # v @ ?rest) =
        (k, Some (rtrim (upto (v @ ?rest) (strpbrk (v @ ?rest) special_chars)))) #
          (case strpbrk (v @ ?rest) special_chars of
             Some (c # t) \<Rightarrow> if c = CR \<or> c = LF then [] else content_type_parameter m t | _ \<Rightarrow> [])"
      using kv k dropWhile_plain [OF kv(1), of "CHR ''='' # v @ ?rest"] dropWhile_plain [OF kv(2), of ?rest]
      by (simp add: Let_def rtrim_plain)
    show ?thesis
    proof (cases ps)
      case Nil
      have "strpbrk v special_chars = None" using kv(2) by (intro strpbrk_miss) (auto simp: plain_def)
      then show ?thesis using s1 Nil Suc kv(2) eq fs by (simp add: upto_def rtrim_plain)
    next
      case (Cons q qs)
      then obtain t where t: "?rest = CHR '';'' # t" by (simp add: print_param_def)
      have "strpbrk (v @ CHR '';'' # t) special_chars = Some (CHR '';'' # t)"
        using kv(2) by (intro strpbrk_hit) (auto simp: plain_def special_chars_def)
      moreover have "content_type_parameter m t = map (\<lambda>p. (fst p, Some (snd p))) (take m ps)"
        using Cons.IH [of m] Cons.prems t Cons by simp
      ultimately show ?thesis using s1 t Suc kv(2) eq fs by (simp add: rtrim_plain)
    qed
  qed simp
qed simp

lemma content_type_list:
  assumes "\<forall>c \<in> set (t @ s). c \<notin> set (CHR ''/'' # SPC # special_chars)"
    and "\<forall>p \<in> set ps. plain (fst p) \<and> plain (snd p)"
  shows "http_header_content_type (t @ ''/'' @ s @ concat (map print_param ps)) v =
     (if 16 \<le> length t then (v\<lparr>ct_params := []\<rparr>, -1)
      else if 16 \<le> length s then (v\<lparr>ct_type := t, ct_params := []\<rparr>, -1)
      else (v\<lparr>ct_type := t, ct_subtype := s, ct_params := map (\<lambda>p. (fst p, Some (snd p))) (take 3 ps)\<rparr>, 0))"
proof -
  let ?rest = "concat (map print_param ps)"
  have 1: "strpbrk (t @ CHR ''/'' # s @ ?rest) (CHR ''/'' # special_chars) = Some (CHR ''/'' # s @ ?rest)"
    using assms(1) by (intro strpbrk_hit) auto
  show ?thesis
  proof (cases ps)
    case Nil
    have "strpbrk s (SPC # special_chars) = None" using assms(1) by (intro strpbrk_miss) auto
    then show ?thesis using 1 Nil by (auto simp: http_header_content_type_def Let_def upto_def)
  next
    case (Cons q qs)
    then obtain u where u: "?rest = CHR '';'' # u" by (simp add: print_param_def)
    have "strpbrk (s @ CHR '';'' # u) (SPC # special_chars) = Some (CHR '';'' # u)"
      using assms(1) by (intro strpbrk_hit) (auto simp: special_chars_def)
    moreover have "content_type_parameter 3 u = map (\<lambda>p. (fst p, Some (snd p))) (take 3 ps)"
      using content_type_parameter_print [OF assms(2), of 3] Cons u by simp
    ultimately show ?thesis using 1 u
      by (auto simp: http_header_content_type_def Let_def strspn_def)
  qed
qed

text \<open>
  \<^verbatim>\<open>http_header_content_type\<close> on a well-formed field: type and subtype of at most 15 characters are
  stored, with the first three parameters in order; anything longer is refused, although it is
  valid.
\<close>

lemma http_header_content_type_roundtrip:
  assumes "\<forall>c \<in> set (t @ s). c \<notin> set (CHR ''/'' # SPC # special_chars)"
    and "\<forall>p \<in> set ps. plain (fst p) \<and> plain (snd p)"
  shows "http_header_content_type (t @ ''/'' @ s @ concat (map print_param ps)) v =
     (if 16 \<le> length t then (v\<lparr>ct_params := []\<rparr>, -1)
      else if 16 \<le> length s then (v\<lparr>ct_type := t, ct_params := []\<rparr>, -1)
      else (v\<lparr>ct_type := t, ct_subtype := s, ct_params := map (\<lambda>p. (fst p, Some (snd p))) (take 3 ps)\<rparr>, 0))"
  by (rule content_type_list [OF assms])

lemma http_header_content_type_roundtrip_witness:
  "http_header_content_type (''text'' @ ''/'' @ ''html'' @ concat (map print_param [(''charset'', ''utf-8'')]))
     \<lparr>ct_type = [], ct_subtype = [], ct_params = []\<rparr> =
     (\<lparr>ct_type = ''text'', ct_subtype = ''html'', ct_params = [(''charset'', Some ''utf-8'')]\<rparr>, 0)"
  by (subst http_header_content_type_roundtrip) (simp_all add: plain_def special_chars_def)

text \<open>
  The content type of an ordinary form submission has a subtype of 21 characters, and
  \<^verbatim>\<open>http_header_content_type\<close> refuses it.
\<close>

lemma form_content_type_refused:
  "snd (http_header_content_type ''application/x-www-form-urlencoded'' v) = -1"
  using content_type_list [of "''application''" "''x-www-form-urlencoded''" "[]" v]
  by (simp add: special_chars_def)

section \<open>Reason phrases\<close>

text \<open>
  In the first table a missing comma joins two phrases, so 101 has the wrong phrase, 102 that of
  103, and 103 none.
\<close>

lemma reason_1xx_shifted:
  "http_reason_phrase 101 = ''Switching ProtocolsProcessing'' \<and> http_reason_phrase 102 = ''Early Hints'' \<and>
   http_reason_phrase 103 = ''unknown''"
  by (simp add: http_reason_phrase_def reason1xx_def reason2xx_def reason3xx_def reason4xx_def reason5xx_def Let_def)

end
