(* ===== verification/HttpAuth.thy ===== *)
theory HttpAuth
  imports HttpHeaderProps
begin

text \<open>
  The authentication headers: \<^verbatim>\<open>http-header-www-authenticate.c\<close>, \<^verbatim>\<open>http-header-authorization.c\<close>
  (reading and writing) and \<^verbatim>\<open>http-header-auth.c\<close> (the response a client computes), in
  \<^verbatim>\<open>modules/networking/libhttp/src\<close>.
\<close>

section \<open>The data\<close>

datatype authentication = AUTH_NONE | AUTH_BASIC | AUTH_DIGEST

record auth =
  au_scheme :: authentication
  au_realm :: string
  au_domain :: string
  au_nonce :: string
  au_opaque :: string
  au_stale :: int
  au_algorithm :: string
  au_qop :: string
  au_charset :: int
  au_userhash :: int
  au_session_variant :: int
  au_cnonce :: string
  au_username :: string
  au_uri :: string
  au_response :: string
  au_nc :: int

text \<open>All bytes zero, as \<^verbatim>\<open>memset\<close> leaves it.\<close>

definition zero_auth :: auth where
  "zero_auth = \<lparr>au_scheme = AUTH_NONE, au_realm = [], au_domain = [], au_nonce = [], au_opaque = [], au_stale = 0,
     au_algorithm = [], au_qop = [], au_charset = 0, au_userhash = 0, au_session_variant = 0, au_cnonce = [],
     au_username = [], au_uri = [], au_response = [], au_nc = 0\<rparr>"

section \<open>Reading\<close>

definition strskip :: "string \<Rightarrow> string" where
  "strskip s = dropWhile (\<lambda>c. c = SPC \<or> c = TAB) s"

definition http_header_authorization_scheme :: "string \<Rightarrow> nat \<Rightarrow> authentication exec" where
  "http_header_authorization_scheme scheme bytes =
     (if strncaseeq scheme ''Basic'' bytes then Inr AUTH_BASIC
      else if strncaseeq scheme ''Digest'' bytes then Inr AUTH_DIGEST
      else Inl Assert_failed)"

text \<open>\<open>snprintf(field, size, "%.*s", bytes2, value)\<close>: what is stored, and the result code.\<close>

definition E2BIG :: int where
  "E2BIG = 7"

definition EINVAL :: int where
  "EINVAL = 22"

definition store_field :: "nat \<Rightarrow> nat \<Rightarrow> string \<Rightarrow> string \<times> int" where
  "store_field sz bytes2 val =
     (take (sz - 1) (take bytes2 val), if sz \<le> length (take bytes2 val) then - E2BIG else 0)"

text \<open>The parameters of a challenge.\<close>

definition www_authenticate_param ::
    "auth \<Rightarrow> string \<Rightarrow> nat \<Rightarrow> string \<Rightarrow> nat \<Rightarrow> (auth \<times> int) exec" where
  "www_authenticate_param a name bytes val bytes2 =
     (let field = (\<lambda>set sz. let (s, r) = store_field sz bytes2 val in Inr (set s, r)) in
      if strncaseeq name ''realm'' bytes then field (\<lambda>s. a\<lparr>au_realm := s\<rparr>) 128
      else if strncaseeq name ''domain'' bytes then field (\<lambda>s. a\<lparr>au_domain := s\<rparr>) 128
      else if strncaseeq name ''nonce'' bytes then field (\<lambda>s. a\<lparr>au_nonce := s\<rparr>) 128
      else if strncaseeq name ''opaque'' bytes then field (\<lambda>s. a\<lparr>au_opaque := s\<rparr>) 128
      else if strncaseeq name ''stale'' bytes then
        if strncaseeq val ''true'' bytes2 then Inr (a\<lparr>au_stale := 1\<rparr>, 0)
        else if strncaseeq val ''false'' bytes2 then Inr (a\<lparr>au_stale := 0\<rparr>, 0)
        else Inl Assert_failed
      else if strncaseeq name ''algorithm'' bytes then field (\<lambda>s. a\<lparr>au_algorithm := s\<rparr>) 64
      else if strncaseeq name ''qop'' bytes then field (\<lambda>s. a\<lparr>au_qop := s\<rparr>) 64
      else if bytes = 8 \<and> strncaseeq name ''username'' bytes then field (\<lambda>s. a\<lparr>au_username := s\<rparr>) 128
      else Inr (a, 0))"

text \<open>\<^verbatim>\<open>%x\<close> of \<^verbatim>\<open>sscanf\<close>.\<close>

definition hex_digit_val :: "char \<Rightarrow> nat option" where
  "hex_digit_val c =
     (if is_digit c then Some (ord c - 48)
      else if 97 \<le> ord c \<and> ord c \<le> 102 then Some (ord c - 87)
      else if 65 \<le> ord c \<and> ord c \<le> 70 then Some (ord c - 55)
      else None)"

definition hex_text_val :: "string \<Rightarrow> nat" where
  "hex_text_val ds = foldl (\<lambda>a c. 16 * a + the (hex_digit_val c)) 0 ds"

definition scan_x :: "string \<Rightarrow> int option" where
  "scan_x s =
     (let (neg, t) = read_sign (skip_space s);
          t = (if take 2 t = ''0x'' \<or> take 2 t = ''0X'' then drop 2 t else t);
          ds = takeWhile (\<lambda>c. hex_digit_val c \<noteq> None) t; v = int (hex_text_val ds)
      in if ds = [] then None
         else Some (to_int32 (if v > ULLONG_MAX then ULLONG_MAX else if neg then - v else v)))"

text \<open>The parameters of credentials.\<close>

definition authorization_param ::
    "auth \<Rightarrow> string \<Rightarrow> nat \<Rightarrow> string \<Rightarrow> nat \<Rightarrow> (auth \<times> int) exec" where
  "authorization_param a name bytes val bytes2 =
     (let field = (\<lambda>set sz. let (s, r) = store_field sz bytes2 val in Inr (set s, r)) in
      if bytes = 8 \<and> strncaseeq name ''username'' bytes then field (\<lambda>s. a\<lparr>au_username := s\<rparr>) 128
      else if bytes = 5 \<and> strncaseeq name ''realm'' bytes then field (\<lambda>s. a\<lparr>au_realm := s\<rparr>) 128
      else if bytes = 5 \<and> strncaseeq name ''nonce'' bytes then field (\<lambda>s. a\<lparr>au_nonce := s\<rparr>) 128
      else if bytes = 3 \<and> strncaseeq name ''uri'' bytes then field (\<lambda>s. a\<lparr>au_uri := s\<rparr>) 256
      else if bytes = 8 \<and> strncaseeq name ''response'' bytes then field (\<lambda>s. a\<lparr>au_response := s\<rparr>) 256
      else if bytes = 9 \<and> strncaseeq name ''algorithm'' bytes then field (\<lambda>s. a\<lparr>au_algorithm := s\<rparr>) 64
      else if bytes = 6 \<and> strncaseeq name ''cnonce'' bytes then field (\<lambda>s. a\<lparr>au_cnonce := s\<rparr>) 128
      else if bytes = 6 \<and> strncaseeq name ''opaque'' bytes then field (\<lambda>s. a\<lparr>au_opaque := s\<rparr>) 128
      else if bytes = 3 \<and> strncaseeq name ''qop'' bytes then field (\<lambda>s. a\<lparr>au_qop := s\<rparr>) 64
      else if bytes = 2 \<and> strncaseeq name ''nc'' bytes then
        (case scan_x val of Some v \<Rightarrow> Inr (a\<lparr>au_nc := v\<rparr>, 0) | None \<Rightarrow> Inr (a, - EINVAL))
      else Inr (a, 0))"

text \<open>
  One round of the loop over the parameters, the same in both files: the name and its length, the value and its length,
  and whether it is quoted; \<open>None\<close> is the \<^verbatim>\<open>break\<close>.
\<close>

definition next_param :: "string \<Rightarrow> (string \<times> nat \<times> string \<times> nat \<times> bool) option" where
  "next_param field =
     (let name = drop (strspn field [CHR '','', SPC, TAB]) field;
          bytes = strcspn name [SPC, TAB, CHR ''='', CR, LF];
          field = strskip (drop bytes name)
      in if deref field \<noteq> CHR ''='' then None
         else
           let val = strskip (tl field) in
           if deref val = DQUOTE then Some (name, bytes, tl val, strcspn (tl val) [DQUOTE], True)
           else Some (name, bytes, val, strcspn val [CHR '','', SPC, TAB, CR, LF], False))"

lemma length_strskip: "length (strskip s) \<le> length s"
  by (simp add: strskip_def length_dropWhile_le)

lemma next_param_shorter:
  assumes "next_param field = Some (name, bytes, val, bytes2, quoted)"
  shows "length val < length field"
proof -
  let ?name = "drop (strspn field [CHR '','', SPC, TAB]) field"
  let ?f = "strskip (drop (strcspn ?name [SPC, TAB, CHR ''='', CR, LF]) ?name)"
  have "deref ?f = CHR ''=''" using assms by (auto simp: next_param_def Let_def split: if_splits)
  then have "length (tl ?f) < length ?f" by (cases ?f) auto
  also have "\<dots> \<le> length field" by (rule order.trans [OF length_strskip]) simp
  finally have "length (strskip (tl ?f)) < length field" using length_strskip [of "tl ?f"] by simp
  then show ?thesis using assms by (auto simp: next_param_def Let_def split: if_splits)
qed

text \<open>The loop; the results of \<open>param\<close> are dropped.\<close>

function auth_param_loop ::
    "(auth \<Rightarrow> string \<Rightarrow> nat \<Rightarrow> string \<Rightarrow> nat \<Rightarrow> (auth \<times> int) exec) \<Rightarrow> string \<Rightarrow> auth \<Rightarrow> auth exec" where
  "auth_param_loop param field a =
     (if field = [] then Inr a
      else
        case next_param field of
          None \<Rightarrow> Inr a
        | Some (name, bytes, val, bytes2, quoted) \<Rightarrow>
            and_then (param a name bytes val bytes2) (\<lambda>(a, r).
            and_then (c_assert (quoted \<longrightarrow> deref (drop bytes2 val) = DQUOTE)) (\<lambda>_.
            auth_param_loop param (drop (bytes2 + (if quoted then 1 else 0)) val) a)))"
  by pat_completeness auto
termination
  by (relation "measure (\<lambda>(param, field, a). length field)") (auto dest: next_param_shorter)

declare auth_param_loop.simps [simp del]

definition http_header_www_authenticate :: "string \<Rightarrow> auth \<Rightarrow> (auth \<times> int) exec" where
  "http_header_www_authenticate field a =
     (let field = strskip field; bytes = strcspn field [SPC, TAB, CR, LF] in
      and_then (http_header_authorization_scheme field bytes) (\<lambda>scheme.
      and_then (auth_param_loop www_authenticate_param (drop bytes field) (a\<lparr>au_scheme := scheme\<rparr>)) (\<lambda>a.
      Inr (a, 0))))"

definition http_header_authorization :: "string \<Rightarrow> auth \<Rightarrow> (auth \<times> int) exec" where
  "http_header_authorization field a =
     (let field = strskip field; bytes = strcspn field [SPC, TAB, CR, LF] in
      and_then (http_header_authorization_scheme field bytes) (\<lambda>scheme.
      if scheme = AUTH_BASIC then
        let val = strskip (drop bytes field); n = strcspn val [SPC, TAB, CR, LF] in
        Inr (a\<lparr>au_scheme := scheme, au_algorithm := ''base64'', au_response := fst (store_field 256 n val)\<rparr>, 0)
      else
        and_then (auth_param_loop authorization_param (drop bytes field) (a\<lparr>au_scheme := scheme\<rparr>)) (\<lambda>a.
        Inr (a, 0))))"

section \<open>Writing\<close>

text \<open>
  \<^verbatim>\<open>n += snprintf(ptr + n, len - n, ...)\<close>: \<open>s\<close> is everything printed so far, its length is \<open>n\<close>, and the buffer holds
  its first \<open>len - 1\<close> bytes.  When \<open>n\<close> is beyond \<open>len\<close> the size argument is a negative number turned
  unsigned, and the terminator alone is stored behind the buffer.
\<close>

definition append_fmt :: "int \<Rightarrow> string \<Rightarrow> string \<Rightarrow> string exec" where
  "append_fmt len s t = and_then (in_bounds (int (length s) \<le> len)) (\<lambda>_. Inr (s @ t))"

definition quote :: "string \<Rightarrow> string" where
  "quote s = DQUOTE # s @ [DQUOTE]"

text \<open>\<^verbatim>\<open>%08x\<close> of an \<^verbatim>\<open>int\<close>.\<close>

definition hex_char :: "nat \<Rightarrow> char" where
  "hex_char n = ''0123456789abcdef'' ! n"

fun show_hex8 :: "nat \<Rightarrow> nat \<Rightarrow> string" where
  "show_hex8 0 v = []"
| "show_hex8 (Suc k) v = show_hex8 k (v div 16) @ [hex_char (v mod 16)]"

definition show_nc :: "int \<Rightarrow> string" where
  "show_nc nc = show_hex8 8 (nat (nc mod 2 ^ 32))"

definition http_header_authorization_write :: "auth \<Rightarrow> int \<Rightarrow> (string \<times> int) exec" where
  "http_header_authorization_write a len =
     (case au_scheme a of
        AUTH_DIGEST \<Rightarrow>
          and_then (append_fmt len [] (''Digest realm='' @ quote (au_realm a) @ '',nonce='' @ quote (au_nonce a) @
            '',username='' @ quote (au_username a) @ '',uri='' @ quote (au_uri a) @ '',response='' @ quote (au_response a))) (\<lambda>s.
          and_then (if au_algorithm a \<noteq> [] then append_fmt len s ('',algorithm='' @ au_algorithm a) else Inr s) (\<lambda>s.
          and_then (if au_opaque a \<noteq> [] then append_fmt len s ('',opaque='' @ quote (au_opaque a)) else Inr s) (\<lambda>s.
          and_then (if au_qop a \<noteq> [] then append_fmt len s ('',cnonce='' @ quote (au_cnonce a) @ '',nc='' @ show_nc (au_nc a) @
             '',qop='' @ au_qop a) else Inr s) (\<lambda>s.
          Inr (take (nat (len - 1)) s, int (length s))))))
      | AUTH_BASIC \<Rightarrow>
          and_then (append_fmt len [] (''Basic '' @ au_response a)) (\<lambda>s. Inr (take (nat (len - 1)) s, int (length s)))
      | AUTH_NONE \<Rightarrow> Inl Assert_failed)"

end
