(* ===== verification/HttpAuthProps.thy ===== *)
theory HttpAuthProps
  imports HttpAuth
begin

text \<open>
  What the authentication headers keep: credentials that are written are read back, and writing
  stays inside the buffer when the buffer has room for the whole header.
\<close>

section \<open>One parameter\<close>

definition separators :: string where
  "separators = [CHR '','', SPC, TAB]"

definition name_stops :: string where
  "name_stops = [SPC, TAB, CHR ''='', CR, LF]"

definition token_stops :: string where
  "token_stops = [CHR '','', SPC, TAB, CR, LF]"

lemma takeWhile_id: "\<forall>c \<in> set s. P c \<Longrightarrow> takeWhile P s = s"
  by (simp add: takeWhile_eq_all_conv)

lemma strcspn_append: "\<forall>c \<in> set s. c \<notin> set A \<Longrightarrow> t = [] \<or> hd t \<in> set A \<Longrightarrow> strcspn (s @ t) A = length s"
  by (cases t) (simp_all add: strcspn_def takeWhile_append takeWhile_id)

lemma strspn_append: "\<forall>c \<in> set s. c \<in> set A \<Longrightarrow> t = [] \<or> hd t \<notin> set A \<Longrightarrow> strspn (s @ t) A = length s"
  by (cases t) (simp_all add: strspn_def takeWhile_append takeWhile_id)

lemma strskip_id: "s = [] \<or> hd s \<notin> {SPC, TAB} \<Longrightarrow> strskip s = s"
  by (cases s) (auto simp: strskip_def)

text \<open>A parameter name.\<close>

definition param_name_ok :: "string \<Rightarrow> bool" where
  "param_name_ok s \<longleftrightarrow> s \<noteq> [] \<and> (\<forall>c \<in> set s. c \<notin> set separators \<and> c \<notin> set name_stops)"

lemma next_param_name:
  assumes "param_name_ok name" "\<forall>c \<in> set pre. c \<in> set separators" "field = pre @ name @ CHR ''='' # val"
  shows "next_param field =
    (let v = strskip val in
     if deref v = DQUOTE then Some (name @ CHR ''='' # val, length name, tl v, strcspn (tl v) [DQUOTE], True)
     else Some (name @ CHR ''='' # val, length name, v, strcspn v [CHR '','', SPC, TAB, CR, LF], False))"
proof -
  have "strspn (pre @ name @ CHR ''='' # val) separators = length pre"
    using assms by (intro strspn_append) (auto simp: param_name_ok_def)
  moreover have "strcspn (name @ CHR ''='' # val) name_stops = length name"
    using assms by (intro strcspn_append) (auto simp: param_name_ok_def name_stops_def)
  ultimately show ?thesis using assms(3) by (simp add: next_param_def Let_def separators_def name_stops_def strskip_id)
qed

lemma loop_quoted:
  assumes "param_name_ok name" "\<forall>c \<in> set pre. c \<in> set separators" "DQUOTE \<notin> set v"
  shows "auth_param_loop param (pre @ name @ CHR ''='' # quote v @ rest) a =
    and_then (param a (name @ CHR ''='' # quote v @ rest) (length name) (v @ DQUOTE # rest) (length v))
      (\<lambda>(a, r). auth_param_loop param rest a)"
proof -
  have "next_param (pre @ name @ CHR ''='' # quote v @ rest) =
      Some (name @ CHR ''='' # quote v @ rest, length name, v @ DQUOTE # rest, length v, True)"
    using assms strcspn_append [of v "[DQUOTE]" "DQUOTE # rest"]
    by (subst next_param_name [OF assms(1,2) refl]) (auto simp: strskip_id quote_def)
  then show ?thesis using assms(1) by (subst auth_param_loop.simps) (simp add: c_assert_def)
qed

lemma loop_token:
  assumes "param_name_ok name" "\<forall>c \<in> set pre. c \<in> set separators" "v \<noteq> []" "hd v \<noteq> DQUOTE" "\<forall>c \<in> set v. c \<notin> set token_stops"
    "rest = [] \<or> hd rest \<in> set token_stops"
  shows "auth_param_loop param (pre @ name @ CHR ''='' # v @ rest) a =
    and_then (param a (name @ CHR ''='' # v @ rest) (length name) (v @ rest) (length v))
      (\<lambda>(a, r). auth_param_loop param rest a)"
proof -
  have "hd v \<notin> set token_stops" using assms(3,5) by simp
  then have "strskip (v @ rest) = v @ rest" using assms(3) by (intro strskip_id) (auto simp: token_stops_def)
  moreover have "deref (v @ rest) = hd v" using assms(3) by (cases v) auto
  moreover have "strcspn (v @ rest) token_stops = length v" using assms(5,6) by (intro strcspn_append) auto
  ultimately have "next_param (pre @ name @ CHR ''='' # v @ rest) =
      Some (name @ CHR ''='' # v @ rest, length name, v @ rest, length v, False)"
    using assms(4) by (subst next_param_name [OF assms(1,2) refl]) (simp add: token_stops_def Let_def)
  then show ?thesis using assms(1) by (subst auth_param_loop.simps) (simp add: c_assert_def)
qed

section \<open>Each parameter of the credentials\<close>

lemma store_field_fits: "length v < sz \<Longrightarrow> store_field sz (length v) (v @ rest) = (v, 0)"
  by (simp add: store_field_def)

lemmas param_simps = authorization_param_def strncaseeq_def strcaseeq_def to_lower_def is_upper_def store_field_fits Let_def

lemma authorization_param_fields:
  "length v < 128 \<Longrightarrow> authorization_param a (''username'' @ n) 8 (v @ t) (length v) = Inr (a\<lparr>au_username := v\<rparr>, 0)"
  "length v < 128 \<Longrightarrow> authorization_param a (''realm'' @ n) 5 (v @ t) (length v) = Inr (a\<lparr>au_realm := v\<rparr>, 0)"
  "length v < 128 \<Longrightarrow> authorization_param a (''nonce'' @ n) 5 (v @ t) (length v) = Inr (a\<lparr>au_nonce := v\<rparr>, 0)"
  "length v < 256 \<Longrightarrow> authorization_param a (''uri'' @ n) 3 (v @ t) (length v) = Inr (a\<lparr>au_uri := v\<rparr>, 0)"
  "length v < 256 \<Longrightarrow> authorization_param a (''response'' @ n) 8 (v @ t) (length v) = Inr (a\<lparr>au_response := v\<rparr>, 0)"
  "length v < 64 \<Longrightarrow> authorization_param a (''algorithm'' @ n) 9 (v @ t) (length v) = Inr (a\<lparr>au_algorithm := v\<rparr>, 0)"
  "length v < 128 \<Longrightarrow> authorization_param a (''cnonce'' @ n) 6 (v @ t) (length v) = Inr (a\<lparr>au_cnonce := v\<rparr>, 0)"
  "length v < 128 \<Longrightarrow> authorization_param a (''opaque'' @ n) 6 (v @ t) (length v) = Inr (a\<lparr>au_opaque := v\<rparr>, 0)"
  "length v < 64 \<Longrightarrow> authorization_param a (''qop'' @ n) 3 (v @ t) (length v) = Inr (a\<lparr>au_qop := v\<rparr>, 0)"
  "scan_x val = Some i \<Longrightarrow> authorization_param a (''nc'' @ n) 2 val k = Inr (a\<lparr>au_nc := i\<rparr>, 0)"
  by (simp_all add: param_simps)

section \<open>The nonce count\<close>

lemma less_16: "(i::nat) < 16 \<Longrightarrow> i \<in> {0, 1, 2, 3, 4, 5, 6, 7, 8, 9, 10, 11, 12, 13, 14, 15}"
  by (simp, arith)

lemma hex_char_val: "i < 16 \<Longrightarrow> hex_digit_val (hex_char i) = Some i"
  by (drule less_16, elim insertE emptyE) (simp_all add: hex_char_def hex_digit_val_def is_digit_def)

lemma hex_char_cases:
  assumes "i < 16" shows "hex_char i \<noteq> CHR ''x''" "hex_char i \<noteq> CHR ''X''" "\<not> is_space (hex_char i)"
    "hex_char i \<noteq> CHR ''-''" "hex_char i \<noteq> CHR ''+''" "hex_char i \<noteq> DQUOTE" "hex_char i \<notin> set token_stops"
  using less_16 [OF assms] by (elim insertE emptyE; simp add: hex_char_def is_space_def token_stops_def)+

lemma hex_text_val_append: "hex_text_val (xs @ [c]) = 16 * hex_text_val xs + the (hex_digit_val c)"
  by (simp add: hex_text_val_def)

lemma show_hex8_props:
  "length (show_hex8 k v) = k"
  "\<forall>c \<in> set (show_hex8 k v). \<exists>i < 16. c = hex_char i"
  "hex_text_val (show_hex8 k v) = v mod 16 ^ k"
proof (induction k arbitrary: v)
  case (Suc k)
  { case 1 then show ?case using Suc by simp }
  { case 2 then show ?case using Suc(2) [of "v div 16"] by (auto intro: exI [of _ "v mod 16"]) }
  { case 3 then show ?case using Suc(3) [of "v div 16"] by (simp add: hex_text_val_append hex_char_val mod_mult2_eq) }
qed (simp_all add: hex_text_val_def)

lemma scan_x_show_nc:
  assumes "- (2 ^ 31) \<le> nc" "nc < 2 ^ 31" "rest = [] \<or> hex_digit_val (hd rest) = None"
  shows "scan_x (show_nc nc @ rest) = Some nc"
proof -
  let ?s = "show_nc nc"
  have len: "length ?s = 8" and hex: "\<forall>c \<in> set ?s. \<exists>i < 16. c = hex_char i" and v: "int (hex_text_val ?s) = nc mod 2 ^ 32"
    using show_hex8_props [of 8 "nat (nc mod 2 ^ 32)"] by (auto simp: show_nc_def zmod_int)
  obtain c d t where s: "?s = c # d # t" using len by (cases ?s; cases "tl ?s") auto
  have cd: "\<not> is_space c" "c \<noteq> CHR ''-''" "c \<noteq> CHR ''+''" "d \<noteq> CHR ''x''" "d \<noteq> CHR ''X''"
    using hex s hex_char_cases by auto
  have "takeWhile (\<lambda>c. hex_digit_val c \<noteq> None) (?s @ rest) = ?s"
    using hex hex_char_val assms(3) by (cases rest) (auto simp: takeWhile_append)
  moreover have "to_int32 (nc mod 2 ^ 32) = nc"
  proof -
    have "to_int32 (nc mod 2 ^ 32) = to_int32 (take_bit 32 nc)" by (simp add: take_bit_eq_mod)
    also have "\<dots> = to_int32 nc" by (simp add: to_int32_def signed_take_bit_take_bit)
    also have "\<dots> = nc" unfolding to_int32_def using assms(1,2) by (intro signed_take_bit_int_eq_self) auto
    finally show ?thesis .
  qed
  moreover have "nc mod 2 ^ 32 \<le> ULLONG_MAX" using pos_mod_bound [of "2 ^ 32" nc] by (simp add: ULLONG_MAX_def)
  ultimately show ?thesis using s cd v by (simp add: scan_x_def skip_space_def Let_def)
qed

section \<open>Credentials\<close>

definition text_ok :: "nat \<Rightarrow> string \<Rightarrow> bool" where
  "text_ok sz s \<longleftrightarrow> length s < sz \<and> DQUOTE \<notin> set s"

definition token_ok :: "nat \<Rightarrow> string \<Rightarrow> bool" where
  "token_ok sz s \<longleftrightarrow> length s < sz \<and> DQUOTE \<notin> set s \<and> (\<forall>c \<in> set s. c \<notin> set token_stops)"

text \<open>
  Credentials that a header can carry: the quoted members have no quotation mark, the others no
  separator, and what is not printed has its initial value.
\<close>

definition credentials :: "auth \<Rightarrow> bool" where
  "credentials a \<longleftrightarrow> au_scheme a = AUTH_DIGEST \<and>
     text_ok 128 (au_realm a) \<and> text_ok 128 (au_nonce a) \<and> text_ok 128 (au_username a) \<and> text_ok 256 (au_uri a) \<and>
     text_ok 256 (au_response a) \<and> token_ok 64 (au_algorithm a) \<and> text_ok 128 (au_opaque a) \<and> token_ok 64 (au_qop a) \<and>
     text_ok 128 (au_cnonce a) \<and> - (2 ^ 31) \<le> au_nc a \<and> au_nc a < 2 ^ 31 \<and>
     (au_qop a = [] \<longrightarrow> au_cnonce a = [] \<and> au_nc a = 0) \<and>
     au_domain a = [] \<and> au_stale a = 0 \<and> au_charset a = 0 \<and> au_userhash a = 0 \<and> au_session_variant a = 0"

text \<open>The whole header.\<close>

definition digest_base :: "auth \<Rightarrow> string" where
  "digest_base a = ''Digest realm='' @ quote (au_realm a) @ '',nonce='' @ quote (au_nonce a) @
     '',username='' @ quote (au_username a) @ '',uri='' @ quote (au_uri a) @ '',response='' @ quote (au_response a)"

definition digest_algorithm :: "auth \<Rightarrow> string" where
  "digest_algorithm a = (if au_algorithm a \<noteq> [] then '',algorithm='' @ au_algorithm a else [])"

definition digest_opaque :: "auth \<Rightarrow> string" where
  "digest_opaque a = (if au_opaque a \<noteq> [] then '',opaque='' @ quote (au_opaque a) else [])"

definition digest_qop :: "auth \<Rightarrow> string" where
  "digest_qop a = (if au_qop a \<noteq> [] then '',cnonce='' @ quote (au_cnonce a) @ '',nc='' @ show_nc (au_nc a) @ '',qop='' @ au_qop a else [])"

definition digest_header :: "auth \<Rightarrow> string" where
  "digest_header a = digest_base a @ digest_algorithm a @ digest_opaque a @ digest_qop a"

lemma append_fmt_fits: "int (length s) \<le> len \<Longrightarrow> append_fmt len s t = Inr (s @ t)"
  by (simp add: append_fmt_def in_bounds_def)

lemma append_fmt_behind: "len < int (length s) \<Longrightarrow> append_fmt len s t = Inl Out_of_bounds"
  by (simp add: append_fmt_def in_bounds_def)

lemma append_fmt_Nil: "0 \<le> len \<Longrightarrow> append_fmt len [] t = Inr t"
  by (simp add: append_fmt_fits)

lemma append_if:
  "int (length s) \<le> len \<Longrightarrow>
   and_then (if P then append_fmt len s t else Inr s) f = f (s @ (if P then t else []))"
  by (simp add: append_fmt_fits)

lemma write_digest_run:
  assumes "au_scheme a = AUTH_DIGEST" "int (length (digest_base a @ digest_algorithm a @ digest_opaque a)) \<le> len"
  shows "http_header_authorization_write a len = Inr (take (nat (len - 1)) (digest_header a), int (length (digest_header a)))"
proof -
  have l: "int (length (digest_base a)) \<le> len" "int (length (digest_base a @ digest_algorithm a)) \<le> len"
      "int (length ((digest_base a @ digest_algorithm a) @ digest_opaque a)) \<le> len" "0 \<le> len"
    using assms(2) by simp_all
  show ?thesis
    unfolding http_header_authorization_write_def assms(1) authentication.case digest_base_def [symmetric]
    using l by (simp only: append_fmt_Nil and_then_Inr append_if
        digest_algorithm_def [symmetric] digest_opaque_def [symmetric] digest_qop_def [symmetric] append_assoc digest_header_def)
qed

lemma write_digest:
  assumes "au_scheme a = AUTH_DIGEST" "int (length (digest_header a)) < len"
  shows "http_header_authorization_write a len = Inr (digest_header a, int (length (digest_header a)))"
proof -
  have "int (length (digest_base a @ digest_algorithm a @ digest_opaque a)) \<le> len"
    using assms(2) by (simp add: digest_header_def)
  moreover have "take (nat (len - 1)) (digest_header a) = digest_header a" using assms(2) by simp
  ultimately show ?thesis using write_digest_run [OF assms(1)] by simp
qed

text \<open>The same step with the effect of the parameter as a premise.\<close>

lemma field_step:
  assumes "length v < sz \<Longrightarrow> authorization_param a (name @ CHR ''='' # quote v @ rest) n (v @ DQUOTE # rest) (length v) = Inr (a', 0)"
    and "text_ok sz v" "param_name_ok name" "length name = n" "\<forall>c \<in> set pre. c \<in> set separators"
  shows "auth_param_loop authorization_param (pre @ name @ CHR ''='' # quote v @ rest) a =
    auth_param_loop authorization_param rest a'"
  using loop_quoted [OF assms(3,5), of v authorization_param rest a] assms(1,2,4) by (simp add: text_ok_def)

lemma token_param:
  assumes "authorization_param a (name @ CHR ''='' # v @ rest) n (v @ rest) (length v) = Inr (a', 0)"
    and "v \<noteq> []" "DQUOTE \<notin> set v" "\<forall>c \<in> set v. c \<notin> set token_stops"
    and "param_name_ok name" "length name = n" "\<forall>c \<in> set pre. c \<in> set separators" "rest = [] \<or> hd rest = CHR '',''"
  shows "auth_param_loop authorization_param (pre @ name @ CHR ''='' # v @ rest) a =
    auth_param_loop authorization_param rest a'"
proof -
  have "hd v \<noteq> DQUOTE" "rest = [] \<or> hd rest \<in> set token_stops"
    using assms(2,3,8) by (cases v; auto simp: token_stops_def)+
  then have "auth_param_loop authorization_param (pre @ name @ CHR ''='' # v @ rest) a =
      and_then (authorization_param a (name @ CHR ''='' # v @ rest) (length name) (v @ rest) (length v))
      (\<lambda>(a, r). auth_param_loop authorization_param rest a)"
    using assms by (intro loop_token) auto
  then show ?thesis using assms(1,6) by simp
qed

lemma token_step:
  assumes "length v < sz \<Longrightarrow> authorization_param a (name @ CHR ''='' # v @ rest) n (v @ rest) (length v) = Inr (a', 0)"
    and "token_ok sz v" "v \<noteq> []" "param_name_ok name" "length name = n" "\<forall>c \<in> set pre. c \<in> set separators"
    "rest = [] \<or> hd rest = CHR '',''"
  shows "auth_param_loop authorization_param (pre @ name @ CHR ''='' # v @ rest) a =
    auth_param_loop authorization_param rest a'"
  using assms by (intro token_param) (auto simp: token_ok_def)

lemmas step_simps = param_name_ok_def separators_def name_stops_def

lemma loop_fields:
  "text_ok 128 v \<Longrightarrow> auth_param_loop authorization_param ('' '' @ ''realm'' @ CHR ''='' # quote v @ rest) a =
     auth_param_loop authorization_param rest (a\<lparr>au_realm := v\<rparr>)"
  "text_ok 128 v \<Longrightarrow> auth_param_loop authorization_param ('','' @ ''nonce'' @ CHR ''='' # quote v @ rest) a =
     auth_param_loop authorization_param rest (a\<lparr>au_nonce := v\<rparr>)"
  "text_ok 128 v \<Longrightarrow> auth_param_loop authorization_param ('','' @ ''username'' @ CHR ''='' # quote v @ rest) a =
     auth_param_loop authorization_param rest (a\<lparr>au_username := v\<rparr>)"
  "text_ok 256 v \<Longrightarrow> auth_param_loop authorization_param ('','' @ ''uri'' @ CHR ''='' # quote v @ rest) a =
     auth_param_loop authorization_param rest (a\<lparr>au_uri := v\<rparr>)"
  "text_ok 256 v \<Longrightarrow> auth_param_loop authorization_param ('','' @ ''response'' @ CHR ''='' # quote v @ rest) a =
     auth_param_loop authorization_param rest (a\<lparr>au_response := v\<rparr>)"
  "text_ok 128 v \<Longrightarrow> auth_param_loop authorization_param ('','' @ ''opaque'' @ CHR ''='' # quote v @ rest) a =
     auth_param_loop authorization_param rest (a\<lparr>au_opaque := v\<rparr>)"
  "text_ok 128 v \<Longrightarrow> auth_param_loop authorization_param ('','' @ ''cnonce'' @ CHR ''='' # quote v @ rest) a =
     auth_param_loop authorization_param rest (a\<lparr>au_cnonce := v\<rparr>)"
  by (rule field_step [OF authorization_param_fields(2)] field_step [OF authorization_param_fields(3)]
      field_step [OF authorization_param_fields(1)] field_step [OF authorization_param_fields(4)]
      field_step [OF authorization_param_fields(5)] field_step [OF authorization_param_fields(8)]
      field_step [OF authorization_param_fields(7)]; simp add: step_simps)+

lemma loop_tokens:
  assumes "token_ok 64 v" "v \<noteq> []" "rest = [] \<or> hd rest = CHR '',''"
  shows "auth_param_loop authorization_param ('','' @ ''algorithm'' @ CHR ''='' # v @ rest) a =
     auth_param_loop authorization_param rest (a\<lparr>au_algorithm := v\<rparr>)"
    "auth_param_loop authorization_param ('','' @ ''qop'' @ CHR ''='' # v @ rest) a =
     auth_param_loop authorization_param rest (a\<lparr>au_qop := v\<rparr>)"
  by (rule token_step [OF authorization_param_fields(6)] token_step [OF authorization_param_fields(9)];
      use assms in \<open>simp add: step_simps\<close>)+

lemma loop_nc:
  assumes "- (2 ^ 31) \<le> nc" "nc < 2 ^ 31" "rest = [] \<or> hd rest = CHR '',''"
  shows "auth_param_loop authorization_param ('','' @ ''nc'' @ CHR ''='' # show_nc nc @ rest) a =
    auth_param_loop authorization_param rest (a\<lparr>au_nc := nc\<rparr>)"
proof (rule token_param [OF authorization_param_fields(10)])
  have hex: "\<forall>c \<in> set (show_nc nc). \<exists>i < 16. c = hex_char i" and len: "length (show_nc nc) = 8"
    using show_hex8_props [of 8 "nat (nc mod 2 ^ 32)"] by (auto simp: show_nc_def)
  show "scan_x (show_nc nc @ rest) = Some nc"
    using assms by (intro scan_x_show_nc) (auto simp: hex_digit_val_def is_digit_def)
  show "show_nc nc \<noteq> []" using len by auto
  show "DQUOTE \<notin> set (show_nc nc)" using hex hex_char_cases(6) by metis
  show "\<forall>c \<in> set (show_nc nc). c \<notin> set token_stops" using hex hex_char_cases(7) by metis
qed (use assms in \<open>simp_all add: step_simps\<close>)

lemma loop_nil: "auth_param_loop p [] a = Inr a"
  by (simp add: auth_param_loop.simps)

lemmas loop_steps = loop_fields [unfolded append.simps] loop_tokens [unfolded append.simps] loop_nc [unfolded append.simps] loop_nil

lemma loop_base:
  assumes "credentials a"
  shows "auth_param_loop authorization_param (drop 6 (digest_base a) @ rest) z =
    auth_param_loop authorization_param rest
      (z\<lparr>au_realm := au_realm a, au_nonce := au_nonce a, au_username := au_username a, au_uri := au_uri a, au_response := au_response a\<rparr>)"
  using assms by (simp add: digest_base_def credentials_def loop_steps)

lemma loop_algorithm:
  assumes "token_ok 64 (au_algorithm a)" "rest = [] \<or> hd rest = CHR '',''" "au_algorithm z = []"
  shows "auth_param_loop authorization_param (digest_algorithm a @ rest) z =
    auth_param_loop authorization_param rest (z\<lparr>au_algorithm := au_algorithm a\<rparr>)"
  using assms by (cases z) (simp add: digest_algorithm_def loop_steps)

lemma loop_opaque:
  assumes "text_ok 128 (au_opaque a)" "au_opaque z = []"
  shows "auth_param_loop authorization_param (digest_opaque a @ rest) z =
    auth_param_loop authorization_param rest (z\<lparr>au_opaque := au_opaque a\<rparr>)"
  using assms by (cases z) (simp add: digest_opaque_def loop_steps)

lemma loop_qop:
  assumes "credentials a" "au_qop z = []" "au_cnonce z = []" "au_nc z = 0"
  shows "auth_param_loop authorization_param (digest_qop a) z =
    Inr (z\<lparr>au_cnonce := au_cnonce a, au_nc := au_nc a, au_qop := au_qop a\<rparr>)"
proof (cases "au_qop a = []")
  case False
  have "auth_param_loop authorization_param ('','' @ ''qop'' @ CHR ''='' # au_qop a @ []) y =
      auth_param_loop authorization_param [] (y\<lparr>au_qop := au_qop a\<rparr>)" for y
    using assms(1) False by (intro loop_tokens) (auto simp: credentials_def)
  then show ?thesis using assms False
    by (simp add: digest_qop_def credentials_def loop_steps)
qed (use assms in \<open>cases z; simp add: digest_qop_def credentials_def loop_steps\<close>)

lemma loop_header:
  assumes "credentials a"
  shows "auth_param_loop authorization_param (drop 6 (digest_header a)) (zero_auth\<lparr>au_scheme := AUTH_DIGEST\<rparr>) = Inr a"
proof -
  have "length (digest_base a) \<ge> 6" by (simp add: digest_base_def)
  then have eq: "drop 6 (digest_header a) = drop 6 (digest_base a) @ digest_algorithm a @ digest_opaque a @ digest_qop a"
    by (simp add: digest_header_def)
  have ok: "token_ok 64 (au_algorithm a)" "text_ok 128 (au_opaque a)" using assms by (auto simp: credentials_def)
  have rest: "digest_opaque a @ digest_qop a = [] \<or> hd (digest_opaque a @ digest_qop a) = CHR '',''"
    by (simp add: digest_opaque_def digest_qop_def)
  show ?thesis
    unfolding eq loop_base [OF assms]
    by (subst loop_algorithm [OF ok(1) rest], simp add: zero_auth_def, subst loop_opaque [OF ok(2)], simp add: zero_auth_def,
        subst loop_qop [OF assms]) (use assms in \<open>cases a; simp add: zero_auth_def credentials_def\<close>)+
qed

lemma authorization_roundtrip_core:
  assumes "credentials a" "int (length (digest_header a)) < len"
  shows "\<exists>s. http_header_authorization_write a len = Inr (s, int (length s)) \<and>
    http_header_authorization s zero_auth = Inr (a, 0)"
proof -
  have ok: "au_scheme a = AUTH_DIGEST" "text_ok 128 (au_realm a)" "text_ok 128 (au_nonce a)" "text_ok 128 (au_username a)"
      "text_ok 256 (au_uri a)" "text_ok 256 (au_response a)" "token_ok 64 (au_algorithm a)" "text_ok 128 (au_opaque a)"
      "token_ok 64 (au_qop a)" "text_ok 128 (au_cnonce a)" "- (2 ^ 31) \<le> au_nc a" "au_nc a < 2 ^ 31"
    using assms(1) by (auto simp: credentials_def)
  let ?s = "digest_header a"
  obtain r where r: "?s = ''Digest'' @ SPC # r" by (simp add: digest_header_def digest_base_def)
  have "strskip ?s = ?s" unfolding r by (rule strskip_id) simp
  moreover have "strcspn ?s [SPC, TAB, CR, LF] = 6" unfolding r by (subst strcspn_append) simp_all
  moreover have "http_header_authorization_scheme ?s 6 = Inr AUTH_DIGEST"
    unfolding r by (simp add: http_header_authorization_scheme_def strncaseeq_def strcaseeq_def to_lower_def is_upper_def)
  moreover have "auth_param_loop authorization_param (drop 6 ?s) (zero_auth\<lparr>au_scheme := AUTH_DIGEST\<rparr>) = Inr a"
    by (rule loop_header [OF assms(1)])
  ultimately have "http_header_authorization ?s zero_auth = Inr (a, 0)"
    by (simp add: http_header_authorization_def)
  then show ?thesis using write_digest [OF ok(1) assms(2)] by blast
qed

text \<open>
  C7.  Digest credentials written by \<^verbatim>\<open>http_header_authorization_write\<close> into a buffer with room for them
  are read back by \<^verbatim>\<open>http_header_authorization\<close> unchanged, every member.
\<close>

theorem authorization_roundtrip:
  assumes "credentials a" "int (length (digest_header a)) < len"
  shows "\<exists>s. http_header_authorization_write a len = Inr (s, int (length s)) \<and>
    http_header_authorization s zero_auth = Inr (a, 0)"
  using assms by (rule authorization_roundtrip_core)

definition mufasa :: auth where
  "mufasa = zero_auth\<lparr>au_scheme := AUTH_DIGEST, au_realm := ''testrealm@host.com'', au_nonce := ''dcd98b71'',
     au_username := ''Mufasa'', au_uri := ''/dir/index.html'', au_response := ''6629fae4'', au_algorithm := ''MD5'',
     au_qop := ''auth'', au_cnonce := ''0a4f113b'', au_nc := 1\<rparr>"

theorem authorization_roundtrip_witness:
  "\<exists>s. http_header_authorization_write mufasa 1024 = Inr (s, int (length s)) \<and>
    http_header_authorization s zero_auth = Inr (mufasa, 0)"
  by (rule authorization_roundtrip)
    (simp_all add: mufasa_def zero_auth_def credentials_def text_ok_def token_ok_def token_stops_def digest_header_def
      digest_base_def digest_algorithm_def digest_opaque_def digest_qop_def quote_def show_nc_def show_hex8_props(1))

text \<open>
  When the fixed part of the credentials alone is longer than the buffer and an algorithm follows, the next
  \<^verbatim>\<open>snprintf\<close> is given a position behind the buffer and stores there.
\<close>

lemma authorization_write_overflows:
  assumes "au_scheme a = AUTH_DIGEST" "0 \<le> len" "len < int (length (digest_base a))" "au_algorithm a \<noteq> []"
  shows "http_header_authorization_write a len = Inl Out_of_bounds"
  unfolding http_header_authorization_write_def assms(1) authentication.case digest_base_def [symmetric]
  using assms by (simp add: append_fmt_fits append_fmt_behind)

lemma authorization_write_overflows_witness:
  "http_header_authorization_write mufasa 64 = Inl Out_of_bounds"
  by (rule authorization_write_overflows) (simp_all add: mufasa_def zero_auth_def digest_base_def quote_def)

end
