(* ===== verification/Digest.thy ===== *)
theory Digest
  imports CString
begin

text \<open>
  What the hash functions of \<^verbatim>\<open>core/deps/util\<close> share.  A context holds a chaining state, a 64-bit count of message
  bits in two words and a buffer of 64 bytes for the part of the message that does not fill a block yet.  The
  locale \<open>message_digest\<close> is what a caller of \<^verbatim>\<open>Init\<close>/\<^verbatim>\<open>Update\<close>/\<^verbatim>\<open>Final\<close> relies on; it is interpreted on
  the streaming MD5.
\<close>

unbundle bit_operations_syntax

section \<open>The interface\<close>

text \<open>
  \<open>blank c\<close> is a context before \<open>init\<close>, of the right size; \<open>absorbed c m\<close>: the context \<open>c\<close> has been fed the message \<open>m\<close>.  \<open>limit\<close> bounds the length one call can be given.
\<close>

locale message_digest =
  fixes absorbed :: "'c \<Rightarrow> byte list \<Rightarrow> bool"
    and blank :: "'c \<Rightarrow> bool"
    and init :: "'c \<Rightarrow> 'c"
    and update :: "'c \<Rightarrow> byte list \<Rightarrow> 'c"
    and final :: "'c \<Rightarrow> byte list"
    and digest_of :: "byte list \<Rightarrow> byte list"
    and limit :: nat
  assumes init_law: "blank c \<Longrightarrow> absorbed (init c) []"
    and update_law: "absorbed c m \<Longrightarrow> length d < limit \<Longrightarrow> absorbed (update c d) (m @ d)"
    and final_law: "absorbed c m \<Longrightarrow> final c = digest_of m"
begin

lemma absorbed_updates:
  "absorbed c m \<Longrightarrow> \<forall>d \<in> set ds. length d < limit \<Longrightarrow> absorbed (foldl update c ds) (m @ concat ds)"
proof (induction ds arbitrary: c m)
  case (Cons d ds)
  then show ?case using Cons.IH [OF update_law [OF Cons.prems(1), of d]] by simp
qed simp

lemma final_updates:
  "blank c \<Longrightarrow> \<forall>d \<in> set ds. length d < limit \<Longrightarrow> final (foldl update (init c) ds) = digest_of (concat ds)"
  using final_law [OF absorbed_updates [OF init_law]] by simp

end

section \<open>Cutting a message into blocks\<close>

fun blocks :: "byte list \<Rightarrow> byte list list" where
  "blocks xs = (if length xs < 64 then [] else take 64 xs # blocks (drop 64 xs))"

declare blocks.simps [simp del]

definition unfilled :: "byte list \<Rightarrow> byte list" where
  "unfilled xs = drop (64 * (length xs div 64)) xs"

lemma blocks_short [simp]: "length xs < 64 \<Longrightarrow> blocks xs = []"
  by (subst blocks.simps) simp

lemma blocks_Cons: "length b = 64 \<Longrightarrow> blocks (b @ xs) = b # blocks xs"
  by (subst blocks.simps) simp

lemma unfilled_Cons: "length b = 64 \<Longrightarrow> unfilled (b @ xs) = unfilled xs"
  by (simp add: unfilled_def div_add_self1)

lemma unfilled_short [simp]: "length xs < 64 \<Longrightarrow> unfilled xs = xs"
  by (simp add: unfilled_def)

lemma length_unfilled: "length (unfilled xs) = length xs mod 64"
  by (simp add: unfilled_def minus_mult_div_eq_mod)

lemma blocks_append: "blocks (xs @ ys) = blocks xs @ blocks (unfilled xs @ ys) \<and> unfilled (xs @ ys) = unfilled (unfilled xs @ ys)"
proof (induction xs rule: blocks.induct)
  case (1 xs)
  show ?case
  proof (cases "length xs < 64")
    case False
    then have l: "length (take 64 xs) = 64" by simp
    have "xs @ ys = take 64 xs @ (drop 64 xs @ ys)" by simp
    moreover have "blocks (xs) = take 64 xs # blocks (drop 64 xs)" "unfilled xs = unfilled (drop 64 xs)"
      using blocks_Cons [OF l, of "drop 64 xs"] unfilled_Cons [OF l, of "drop 64 xs"] by simp_all
    ultimately show ?thesis using 1 [OF False] blocks_Cons [OF l, of "drop 64 xs @ ys"] unfilled_Cons [OF l, of "drop 64 xs @ ys"]
      by (simp only: append_Cons)
  qed simp
qed

text \<open>
  The loop \<^verbatim>\<open>for (i = partLen; i + 63 < inputLen; i += 64)\<close> of the two update functions.
\<close>

function transform_from :: "('s \<Rightarrow> byte list \<Rightarrow> 's) \<Rightarrow> 's \<Rightarrow> byte list \<Rightarrow> nat \<Rightarrow> 's \<times> nat" where
  "transform_from tr st input i =
     (if i + 63 < length input then transform_from tr (tr st (take 64 (drop i input))) input (i + 64) else (st, i))"
  by pat_completeness auto
termination by (relation "measure (\<lambda>(tr, st, input, i). length input - i)") auto

declare transform_from.simps [simp del]

lemma transform_from_blocks:
  "i \<le> length input \<Longrightarrow> transform_from tr st input i =
    (foldl tr st (blocks (drop i input)), i + 64 * ((length input - i) div 64))"
proof (induction tr st input i rule: transform_from.induct)
  case (1 tr st input i)
  show ?case
  proof (cases "i + 63 < length input")
    case True
    have "drop i input = take 64 (drop i input) @ drop (i + 64) input"
      by (metis add.commute append_take_drop_id drop_drop)
    moreover have "length (take 64 (drop i input)) = 64" using True by simp
    ultimately have "blocks (drop i input) = take 64 (drop i input) # blocks (drop (i + 64) input)"
      by (metis blocks_Cons)
    moreover have "(length input - i) div 64 = (length input - (i + 64)) div 64 + 1" using True by (simp add: le_div_geq)
    ultimately show ?thesis using 1 True by (subst transform_from.simps) simp
  next
    case False
    then show ?thesis by (subst transform_from.simps) (simp add: not_less)
  qed
qed

text \<open>\<^verbatim>\<open>memcpy\<close> of \<open>d\<close> into the buffer at \<open>i\<close>.\<close>

definition overwrite :: "byte list \<Rightarrow> nat \<Rightarrow> byte list \<Rightarrow> byte list" where
  "overwrite b i d = take i b @ d @ drop (i + length d) b"

lemma length_overwrite: "i + length d \<le> length b \<Longrightarrow> length (overwrite b i d) = length b"
  by (simp add: overwrite_def)

text \<open>One round of buffering: the chaining state and the buffer follow the whole message.\<close>

definition follows :: "('s \<Rightarrow> byte list \<Rightarrow> 's) \<Rightarrow> 's \<Rightarrow> 's \<Rightarrow> byte list \<Rightarrow> byte list \<Rightarrow> bool" where
  "follows tr s0 st buf m \<longleftrightarrow> st = foldl tr s0 (blocks m) \<and> length buf = 64 \<and> take (length m mod 64) buf = unfilled m"

lemma follows_short:
  assumes "follows tr s0 st buf m" "length m mod 64 + length d < 64"
  shows "follows tr s0 st (overwrite buf (length m mod 64) d) (m @ d)"
proof -
  have short: "length (unfilled m @ d) < 64" using assms by (simp add: length_unfilled)
  have "(length m + length d) mod 64 = length m mod 64 + length d" using assms(2) by (metis mod_add_left_eq mod_less)
  moreover have "take (length m mod 64) buf = unfilled m" "length buf = 64" using assms(1) by (auto simp: follows_def)
  moreover from this(1) have "overwrite buf (length m mod 64) d = unfilled m @ d @ drop (length m mod 64 + length d) buf"
    by (simp only: overwrite_def)
  ultimately show ?thesis using assms short blocks_append [of m d]
    by (simp add: follows_def length_unfilled)
qed

lemma follows_long:
  assumes "follows tr s0 st buf m" "64 \<le> length m mod 64 + length d"
    and "transform_from tr (tr st (overwrite buf (length m mod 64) (take (64 - length m mod 64) d))) d (64 - length m mod 64) = (st', i)"
  shows "i \<le> length d" "length d - i < 64"
    "follows tr s0 st' (overwrite (overwrite buf (length m mod 64) (take (64 - length m mod 64) d)) 0 (drop i d)) (m @ d)"
proof -
  let ?j = "length m mod 64" let ?part = "64 - ?j"
  let ?b = "overwrite buf ?j (take ?part d)" and ?e = "drop ?part d"
  have j: "?j < 64" "?part \<le> length d" using assms(2) by auto
  have b: "?b = unfilled m @ take ?part d" "length ?b = 64"
    using assms j by (simp_all add: follows_def overwrite_def length_unfilled min_def)
  have "unfilled m @ d = ?b @ ?e" using b(1) by simp
  then have m: "blocks (m @ d) = blocks m @ ?b # blocks ?e" "unfilled (m @ d) = unfilled ?e"
    using blocks_append [of m d] blocks_Cons [OF b(2)] unfilled_Cons [OF b(2)] by simp_all
  have i: "st' = foldl tr (tr st ?b) (blocks ?e)" "i = ?part + 64 * (length ?e div 64)"
    using assms(3) transform_from_blocks [OF j(2), of tr "tr st ?b"] by simp_all
  have rest: "drop i d = unfilled ?e" unfolding i(2) unfilled_def by (simp add: add.commute)
  have len: "length (drop i d) = length ?e mod 64" unfolding rest by (rule length_unfilled)
  have le: "64 * (length ?e div 64) \<le> length ?e" "length ?e + ?part = length d"
    using j(2) by (simp_all only: times_div_less_eq_dividend length_drop)
  show "i \<le> length d" using i(2) le by linarith
  show short: "length d - i < 64" using len by (metis length_drop mod_less_divisor zero_less_numeral)
  have "length (m @ d) mod 64 = length (unfilled (m @ d))" by (simp only: length_unfilled)
  also have "\<dots> = length (drop i d)" using m(2) rest by simp
  finally have "take (length (m @ d) mod 64) (overwrite ?b 0 (drop i d)) = unfilled (m @ d)"
    using m(2) rest by (simp add: overwrite_def)
  moreover have "st' = foldl tr s0 (blocks (m @ d))" using assms(1) m(1) i(1) by (simp add: follows_def)
  moreover have "length (overwrite ?b 0 (drop i d)) = 64" using short b(2) by (simp add: length_overwrite)
  ultimately show "follows tr s0 st' (overwrite ?b 0 (drop i d)) (m @ d)" unfolding follows_def by simp
qed

section \<open>The count of message bits\<close>

definition counts :: "32 word \<Rightarrow> 32 word \<Rightarrow> nat \<Rightarrow> bool" where
  "counts c0 c1 n \<longleftrightarrow> c0 = of_nat (8 * n) \<and> c1 = of_nat (8 * n div 2 ^ 32)"

lemma counts_index: "counts c0 c1 n \<Longrightarrow> unat (drop_bit 3 c0 AND 0x3F) = n mod 64"
proof -
  assume "counts c0 c1 n"
  then have c: "c0 = of_nat (8 * n)" by (simp add: counts_def)
  have "unat (drop_bit 3 c0) = (8 * n mod 2 ^ 32) div 8"
    unfolding c by (simp only: unat_drop_bit_eq unat_of_nat) (simp add: drop_bit_eq_div)
  also have "\<dots> = n mod 2 ^ 29"
    by (simp add: mult_mod_right [of 8 n "2 ^ 29", simplified, symmetric])
  finally have u: "unat (drop_bit 3 c0) = n mod 2 ^ 29" .
  have "(drop_bit 3 c0 AND 0x3F) = take_bit 6 (drop_bit 3 c0)" by (simp add: take_bit_eq_mask mask_eq_exp_minus_1)
  then have "unat (drop_bit 3 c0 AND 0x3F) = unat (drop_bit 3 c0) mod 64"
    by (simp only: unsigned_take_bit_eq) (simp add: take_bit_eq_mod)
  then show ?thesis unfolding u by (simp add: mod_mod_cancel)
qed

text \<open>The carry between the two words, as the two sources find it.\<close>

lemma word_carry:
  fixes x y :: "32 word"
  shows "x + y < y \<longleftrightarrow> 2 ^ 32 \<le> unat x + unat y" and "x + y < x \<longleftrightarrow> 2 ^ 32 \<le> unat x + unat y"
  using unsigned_less [of x, where ?'a = nat] unsigned_less [of y, where ?'a = nat]
  by (auto simp: word_less_nat_alt unat_word_ariths(1) mod_if [of "unat x + unat y"] le_mod_geq)

lemma counts_step:
  assumes "counts c0 c1 n" "k < 2 ^ 32"
  defines "l \<equiv> of_nat k :: 32 word"
  shows "counts (c0 + push_bit 3 l) ((if 2 ^ 32 \<le> unat c0 + unat (push_bit 3 l) then c1 + 1 else c1) + drop_bit 29 l) (n + k)"
proof -
  have p: "push_bit 3 l = of_nat (8 * k)" by (simp add: l_def push_bit_eq_mult)
  have d: "drop_bit 29 l = of_nat (8 * k div 2 ^ 32)"
  proof (rule word_eq_iff_unsigned [where 'a = nat, THEN iffD2])
    have "8 * k div 2 ^ 32 = k div 2 ^ 29" by simp
    moreover have "k div 2 ^ 29 < 2 ^ 32" using assms(2) by (rule le_less_trans [OF div_le_dividend])
    ultimately show "unat (drop_bit 29 l) = unat (of_nat (8 * k div 2 ^ 32) :: 32 word)"
      using assms(2) unfolding l_def unat_drop_bit_eq unat_of_nat by (simp add: drop_bit_eq_div)
  qed
  have c: "c0 = of_nat (8 * n)" "c1 = of_nat (8 * n div 2 ^ 32)" using assms(1) by (auto simp: counts_def)
  have u: "unat c0 = 8 * n mod 2 ^ 32" "unat (push_bit 3 l) = 8 * k mod 2 ^ 32" unfolding p c by (simp_all only: unat_of_nat) simp_all
  have "8 * (n + k) div 2 ^ 32 = 8 * n div 2 ^ 32 + 8 * k div 2 ^ 32 + (8 * n mod 2 ^ 32 + 8 * k mod 2 ^ 32) div 2 ^ 32"
    by (metis div_add1_eq distrib_left)
  moreover have "(8 * n mod 2 ^ 32 + 8 * k mod 2 ^ 32) div 2 ^ 32 = (if 2 ^ 32 \<le> unat c0 + unat (push_bit 3 l) then 1 else (0 :: nat))"
    unfolding u by (auto simp: div_eq_0_iff div_nat_eqI)
  ultimately have "8 * (n + k) div 2 ^ 32 = 8 * n div 2 ^ 32 + 8 * k div 2 ^ 32 + (if 2 ^ 32 \<le> unat c0 + unat (push_bit 3 l) then 1 else 0)"
    by simp
  then show ?thesis unfolding counts_def c(2) d p by (simp add: c(1))
qed

section \<open>Padding\<close>

text \<open>
  The message is followed by one bit, as many zeros as bring it to 56 bytes past a block, and its length in bits
  modulo \<open>2 ^ 64\<close>, written by \<open>enc\<close>.
\<close>

definition padding :: "(nat \<Rightarrow> byte list) \<Rightarrow> nat \<Rightarrow> byte list" where
  "padding enc n = 0x80 # replicate ((119 - n mod 64) mod 64) 0 @ enc (8 * n)"

lemma word_byte: "k + 8 \<le> 32 \<Longrightarrow> ucast (drop_bit k (of_nat n :: 32 word)) = (of_nat (n div 2 ^ k) :: byte)"
  by (rule bit_word_eqI) (auto simp: bit_simps bit_of_nat_iff drop_bit_eq_div [symmetric] bit_drop_bit_eq)

end
