(* ===== verification/Md5.thy ===== *)
theory Md5
  imports Digest
begin

text \<open>
  The two MD5 implementations of \<^verbatim>\<open>core/deps/util\<close>: the streaming one of \<^verbatim>\<open>src/util/md5.c\<close> (\<^verbatim>\<open>MD5Init\<close>,
  \<^verbatim>\<open>MD5Update\<close>, \<^verbatim>\<open>MD5Final\<close>), which interprets \<open>message_digest\<close>, and the one of \<^verbatim>\<open>src/digest/md5.c\<close> (\<^verbatim>\<open>md5\<close>,
  \<^verbatim>\<open>md5_update\<close>), which runs over the message at once.  Four chaining words are a tuple, a message
  block is a list of bytes.  Lengths of one call are below \<open>2 ^ 32 - 64\<close>, so that the loop index does not wrap.
\<close>

unbundle bit_operations_syntax

section \<open>The rounds\<close>

type_synonym words4 = "32 word \<times> 32 word \<times> 32 word \<times> 32 word"

definition md5_F :: "32 word \<Rightarrow> 32 word \<Rightarrow> 32 word \<Rightarrow> 32 word" where
  "md5_F x y z = ((x AND y) OR ((NOT x) AND z))"

definition md5_G :: "32 word \<Rightarrow> 32 word \<Rightarrow> 32 word \<Rightarrow> 32 word" where
  "md5_G x y z = ((x AND z) OR (y AND (NOT z)))"

definition md5_H :: "32 word \<Rightarrow> 32 word \<Rightarrow> 32 word \<Rightarrow> 32 word" where
  "md5_H x y z = (x XOR y XOR z)"

definition md5_I :: "32 word \<Rightarrow> 32 word \<Rightarrow> 32 word \<Rightarrow> 32 word" where
  "md5_I x y z = (y XOR (x OR (NOT z)))"

definition ROTATE_LEFT :: "32 word \<Rightarrow> nat \<Rightarrow> 32 word" where
  "ROTATE_LEFT x n = (push_bit n x OR drop_bit (32 - n) x)"

definition round_function :: "nat \<Rightarrow> 32 word \<Rightarrow> 32 word \<Rightarrow> 32 word \<Rightarrow> 32 word" where
  "round_function r = (if r = 1 then md5_F else if r = 2 then md5_G else if r = 3 then md5_H else md5_I)"

text \<open>
  One of the macros \<open>FF\<close>, \<open>GG\<close>, \<open>HH\<close>, \<open>II\<close>.  The next macro call has its arguments turned by one place, as the
  result has.
\<close>

definition md5_step :: "32 word list \<Rightarrow> words4 \<Rightarrow> nat \<times> nat \<times> nat \<times> 32 word \<Rightarrow> words4" where
  "md5_step x v row =
     (case (v, row) of ((a, b, c, d), (r, k, s, ac)) \<Rightarrow>
        let a = a + (round_function r b c d + x ! k + ac);
            a = ROTATE_LEFT a s;
            a = a + b
        in (d, a, b, c))"

text \<open>The 64 macro calls: the round, the word of the block, the shift and the constant.\<close>

definition md5_rows :: "(nat \<times> nat \<times> nat \<times> 32 word) list" where
  "md5_rows =
    [(1, 0, 7, 0xd76aa478), (1, 1, 12, 0xe8c7b756), (1, 2, 17, 0x242070db), (1, 3, 22, 0xc1bdceee),
     (1, 4, 7, 0xf57c0faf), (1, 5, 12, 0x4787c62a), (1, 6, 17, 0xa8304613), (1, 7, 22, 0xfd469501),
     (1, 8, 7, 0x698098d8), (1, 9, 12, 0x8b44f7af), (1, 10, 17, 0xffff5bb1), (1, 11, 22, 0x895cd7be),
     (1, 12, 7, 0x6b901122), (1, 13, 12, 0xfd987193), (1, 14, 17, 0xa679438e), (1, 15, 22, 0x49b40821),
     (2, 1, 5, 0xf61e2562), (2, 6, 9, 0xc040b340), (2, 11, 14, 0x265e5a51), (2, 0, 20, 0xe9b6c7aa),
     (2, 5, 5, 0xd62f105d), (2, 10, 9, 0x2441453), (2, 15, 14, 0xd8a1e681), (2, 4, 20, 0xe7d3fbc8),
     (2, 9, 5, 0x21e1cde6), (2, 14, 9, 0xc33707d6), (2, 3, 14, 0xf4d50d87), (2, 8, 20, 0x455a14ed),
     (2, 13, 5, 0xa9e3e905), (2, 2, 9, 0xfcefa3f8), (2, 7, 14, 0x676f02d9), (2, 12, 20, 0x8d2a4c8a),
     (3, 5, 4, 0xfffa3942), (3, 8, 11, 0x8771f681), (3, 11, 16, 0x6d9d6122), (3, 14, 23, 0xfde5380c),
     (3, 1, 4, 0xa4beea44), (3, 4, 11, 0x4bdecfa9), (3, 7, 16, 0xf6bb4b60), (3, 10, 23, 0xbebfbc70),
     (3, 13, 4, 0x289b7ec6), (3, 0, 11, 0xeaa127fa), (3, 3, 16, 0xd4ef3085), (3, 6, 23, 0x4881d05),
     (3, 9, 4, 0xd9d4d039), (3, 12, 11, 0xe6db99e5), (3, 15, 16, 0x1fa27cf8), (3, 2, 23, 0xc4ac5665),
     (4, 0, 6, 0xf4292244), (4, 7, 10, 0x432aff97), (4, 14, 15, 0xab9423a7), (4, 5, 21, 0xfc93a039),
     (4, 12, 6, 0x655b59c3), (4, 3, 10, 0x8f0ccc92), (4, 10, 15, 0xffeff47d), (4, 1, 21, 0x85845dd1),
     (4, 8, 6, 0x6fa87e4f), (4, 15, 10, 0xfe2ce6e0), (4, 6, 15, 0xa3014314), (4, 13, 21, 0x4e0811a1),
     (4, 4, 6, 0xf7537e82), (4, 11, 10, 0xbd3af235), (4, 2, 15, 0x2ad7d2bb), (4, 9, 21, 0xeb86d391)]"

section \<open>The streaming implementation\<close>

fun Encode :: "32 word list \<Rightarrow> byte list" where
  "Encode [] = []"
| "Encode (w # ws) =
     ucast (w AND 0xff) # ucast (drop_bit 8 w AND 0xff) # ucast (drop_bit 16 w AND 0xff) #
     ucast (drop_bit 24 w AND 0xff) # Encode ws"

fun Decode :: "byte list \<Rightarrow> 32 word list" where
  "Decode (p # q # r # s # bs) =
     (ucast p OR push_bit 8 (ucast q) OR push_bit 16 (ucast r) OR push_bit 24 (ucast s)) # Decode bs"
| "Decode _ = []"

definition MD5Transform :: "words4 \<Rightarrow> byte list \<Rightarrow> words4" where
  "MD5Transform state block =
     (case (state, foldl (md5_step (Decode block)) state md5_rows) of
        ((s0, s1, s2, s3), (a, b, c, d)) \<Rightarrow> (s0 + a, s1 + b, s2 + c, s3 + d))"

record md5_ctx =
  md5_state :: words4
  md5_count0 :: "32 word"
  md5_count1 :: "32 word"
  md5_buffer :: "byte list"

definition MD5Init :: "md5_ctx \<Rightarrow> md5_ctx" where
  "MD5Init context = context\<lparr>md5_count0 := 0, md5_count1 := 0,
     md5_state := (0x67452301, 0xefcdab89, 0x98badcfe, 0x10325476)\<rparr>"

definition MD5Update :: "md5_ctx \<Rightarrow> byte list \<Rightarrow> md5_ctx" where
  "MD5Update context input =
     (let len = of_nat (length input) :: 32 word;
          idx = unat (drop_bit 3 (md5_count0 context) AND 0x3F);
          count0 = md5_count0 context + push_bit 3 len;
          count1 = (if count0 < push_bit 3 len then md5_count1 context + 1 else md5_count1 context) + drop_bit 29 len;
          partLen = 64 - idx;
          (state, buffer, idx, i) =
            (if length input \<ge> partLen then
               let buffer = overwrite (md5_buffer context) idx (take partLen input);
                   (state, i) = transform_from MD5Transform (MD5Transform (md5_state context) buffer) input partLen
               in (state, buffer, 0, i)
             else (md5_state context, md5_buffer context, idx, 0))
      in \<lparr>md5_state = state, md5_count0 = count0, md5_count1 = count1, md5_buffer = overwrite buffer idx (drop i input)\<rparr>)"

definition PADDING :: "byte list" where
  "PADDING = 0x80 # replicate 63 0"

definition MD5Final :: "md5_ctx \<Rightarrow> byte list \<times> md5_ctx" where
  "MD5Final context =
     (let bits = Encode [md5_count0 context, md5_count1 context];
          idx = unat (drop_bit 3 (md5_count0 context) AND 0x3f);
          padLen = (if idx < 56 then 56 - idx else 120 - idx);
          context = MD5Update context (take padLen PADDING);
          context = MD5Update context bits
      in (case md5_state context of (a, b, c, d) \<Rightarrow> Encode [a, b, c, d],
          \<lparr>md5_state = (0, 0, 0, 0), md5_count0 = 0, md5_count1 = 0, md5_buffer = replicate 64 0\<rparr>))"

section \<open>The implementation over a whole message\<close>

definition md5_T :: "32 word list" where
  "md5_T =
    [0xd76aa478, 0xe8c7b756, 0x242070db, 0xc1bdceee,
     0xf57c0faf, 0x4787c62a, 0xa8304613, 0xfd469501,
     0x698098d8, 0x8b44f7af, 0xffff5bb1, 0x895cd7be,
     0x6b901122, 0xfd987193, 0xa679438e, 0x49b40821,
     0xf61e2562, 0xc040b340, 0x265e5a51, 0xe9b6c7aa,
     0xd62f105d, 0x02441453, 0xd8a1e681, 0xe7d3fbc8,
     0x21e1cde6, 0xc33707d6, 0xf4d50d87, 0x455a14ed,
     0xa9e3e905, 0xfcefa3f8, 0x676f02d9, 0x8d2a4c8a,
     0xfffa3942, 0x8771f681, 0x6d9d6122, 0xfde5380c,
     0xa4beea44, 0x4bdecfa9, 0xf6bb4b60, 0xbebfbc70,
     0x289b7ec6, 0xeaa127fa, 0xd4ef3085, 0x04881d05,
     0xd9d4d039, 0xe6db99e5, 0x1fa27cf8, 0xc4ac5665,
     0xf4292244, 0x432aff97, 0xab9423a7, 0xfc93a039,
     0x655b59c3, 0x8f0ccc92, 0xffeff47d, 0x85845dd1,
     0x6fa87e4f, 0xfe2ce6e0, 0xa3014314, 0x4e0811a1,
     0xf7537e82, 0xbd3af235, 0x2ad7d2bb, 0xeb86d391]"

definition word32tobytes :: "words4 \<Rightarrow> byte list" where
  "word32tobytes d =
     (case d of (d0, d1, d2, d3) \<Rightarrow>
        concat (map (\<lambda>v. [ucast (v AND 0xff), ucast (drop_bit 8 v AND 0xff), ucast (drop_bit 8 (drop_bit 8 v) AND 0xff),
          ucast (drop_bit 8 (drop_bit 8 (drop_bit 8 v)) AND 0xff)]) [d0, d1, d2, d3]))"

definition inic_digest :: words4 where
  "inic_digest = (0x67452301, 0xEFCDAB89, 0x98BADCFE, 0x10325476)"

text \<open>
  One assignment of \<^verbatim>\<open>digest\<close>, such as \<^verbatim>\<open>d[0] = rotate(d[0] + F(d[1], d[2], d[3]) + m[k] + t, s) + d[1]\<close>; the
  next one writes the word before it.
\<close>

definition digest_step :: "32 word list \<Rightarrow> words4 \<Rightarrow> nat \<times> nat \<times> nat \<times> 32 word \<Rightarrow> words4" where
  "digest_step m v row =
     (case (v, row) of ((d0, d1, d2, d3), (r, k, s, t)) \<Rightarrow>
        let d0 = d0 + round_function r d1 d2 d3 + m ! k + t;
            d0 = (push_bit s d0 OR drop_bit (32 - s) d0);
            d0 = d0 + d1
        in (d3, d0, d1, d2))"

text \<open>The four loops of \<^verbatim>\<open>digest\<close>, each over \<open>j = 0, 4, 8, 12\<close>.\<close>

definition digest_rows :: "(nat \<times> nat \<times> nat \<times> 32 word) list" where
  "digest_rows =
     concat (map (\<lambda>j. [(1, j, 7, md5_T ! j), (1, j + 1, 12, md5_T ! (j + 1)), (1, j + 2, 17, md5_T ! (j + 2)),
       (1, j + 3, 22, md5_T ! (j + 3))]) [0, 4, 8, 12]) @
     concat (map (\<lambda>j. [(2, (5 * j + 1) AND 0x0f, 5, md5_T ! (j + 16)), (2, (5 * (j + 1) + 1) AND 0x0f, 9, md5_T ! (j + 17)),
       (2, (5 * (j + 2) + 1) AND 0x0f, 14, md5_T ! (j + 18)), (2, (5 * (j + 3) + 1) AND 0x0f, 20, md5_T ! (j + 19))]) [0, 4, 8, 12]) @
     concat (map (\<lambda>j. [(3, (3 * j + 5) AND 0x0f, 4, md5_T ! (j + 32)), (3, (3 * (j + 1) + 5) AND 0x0f, 11, md5_T ! (j + 33)),
       (3, (3 * (j + 2) + 5) AND 0x0f, 16, md5_T ! (j + 34)), (3, (3 * (j + 3) + 5) AND 0x0f, 23, md5_T ! (j + 35))]) [0, 4, 8, 12]) @
     concat (map (\<lambda>j. [(4, (7 * j) AND 0x0f, 6, md5_T ! (j + 48)), (4, (7 * (j + 1)) AND 0x0f, 10, md5_T ! (j + 49)),
       (4, (7 * (j + 2)) AND 0x0f, 15, md5_T ! (j + 50)), (4, (7 * (j + 3)) AND 0x0f, 21, md5_T ! (j + 51))]) [0, 4, 8, 12])"

definition md5_digest :: "32 word list \<Rightarrow> words4 \<Rightarrow> words4" where
  "md5_digest m d = foldl (digest_step m) d digest_rows"

fun bytestoword32 :: "byte list \<Rightarrow> 32 word list" where
  "bytestoword32 (p # q # r # s # bs) =
     (push_bit 8 (push_bit 8 (push_bit 8 (ucast s) OR ucast r) OR ucast q) OR ucast p) # bytestoword32 bs"
| "bytestoword32 _ = []"

definition put_length :: "32 word list \<Rightarrow> nat \<Rightarrow> 32 word list" where
  "put_length x len = x[14 := of_nat ((len * 8) mod 2 ^ 32), 15 := of_nat ((len div 2 ^ 29) mod 8)]"

definition converte :: "byte list \<Rightarrow> nat \<Rightarrow> 32 word list \<times> nat" where
  "converte pt old_status =
     (let num = length pt;
          buff = (if num < 64 then pt @ (if old_status = 0 then 0x80 else 0) # replicate (63 - num) 0 else pt);
          new_status = (if num \<le> 64 - 9 then 2 else if num < 64 then 1 else 0)
      in (bytestoword32 buff, new_status))"

text \<open>The loop of \<^verbatim>\<open>md5\<close>; \<open>pt\<close> is the rest of the message, \<open>len\<close> the length of the whole.\<close>

function md5_loop :: "nat \<Rightarrow> words4 \<Rightarrow> byte list \<Rightarrow> nat \<Rightarrow> words4" where
  "md5_loop len d pt status =
     (let (wbuff, status) = converte (take 64 pt) status;
          wbuff = (if status = 2 then put_length wbuff len else wbuff);
          d = (case (d, md5_digest wbuff d) of ((o0, o1, o2, o3), (d0, d1, d2, d3)) \<Rightarrow> (d0 + o0, d1 + o1, d2 + o2, d3 + o3))
      in if status = 2 then d else md5_loop len d (drop 64 pt) status)"
  by pat_completeness auto
termination by (relation "measure (\<lambda>(len, d, pt, status). length pt)") (auto simp: converte_def Let_def split: if_splits)

declare md5_loop.simps [simp del]

definition md5 :: "byte list \<Rightarrow> byte list" where
  "md5 message = word32tobytes (md5_loop (length message) inic_digest message 0)"

record md5_t =
  md5_d :: words4
  md5_len :: nat

definition md5_init :: md5_t where
  "md5_init = \<lparr>md5_d = inic_digest, md5_len = 0\<rparr>"

text \<open>
  The loop of \<^verbatim>\<open>md5_update\<close> leaves a message that ends on a block boundary unpadded.
\<close>

function md5_update_loop :: "nat \<Rightarrow> bool \<Rightarrow> words4 \<Rightarrow> byte list \<Rightarrow> nat \<Rightarrow> words4 \<times> nat" where
  "md5_update_loop whole nothing d pt status =
     (if status \<noteq> 1 \<and> pt = [] \<and> \<not> nothing then (d, status)
      else
        let (wbuff, status) = converte (take 64 pt) status;
            wbuff = (if status = 2 then put_length wbuff whole else wbuff);
            d = (case (d, md5_digest wbuff d) of ((o0, o1, o2, o3), (d0, d1, d2, d3)) \<Rightarrow> (d0 + o0, d1 + o1, d2 + o2, d3 + o3))
        in if status = 2 then (d, status) else md5_update_loop whole nothing d (drop 64 pt) status)"
  by pat_completeness auto
termination by (relation "measure (\<lambda>(whole, nothing, d, pt, status). length pt)") (auto simp: converte_def Let_def split: if_splits)

declare md5_update_loop.simps [simp del]

definition md5_update :: "md5_t \<Rightarrow> byte list \<Rightarrow> md5_t \<times> bool" where
  "md5_update m message =
     (let (d, status) = md5_update_loop (md5_len m + length message) (message = []) (md5_d m) message 0
      in (m\<lparr>md5_d := d, md5_len := md5_len m + length message\<rparr>, status = 2))"

definition md5_finish :: "md5_t \<Rightarrow> byte list" where
  "md5_finish m = word32tobytes (md5_d m)"

section \<open>The digest of a message\<close>

definition md5_lengths :: "nat \<Rightarrow> byte list" where
  "md5_lengths bits = map (\<lambda>k. of_nat (bits div 2 ^ (8 * k))) [0..<8]"

definition md5_start :: words4 where
  "md5_start = (0x67452301, 0xefcdab89, 0x98badcfe, 0x10325476)"

definition md5_words :: "byte list \<Rightarrow> words4" where
  "md5_words m = foldl MD5Transform md5_start (blocks (m @ padding md5_lengths (length m)))"

definition md5_of :: "byte list \<Rightarrow> byte list" where
  "md5_of m = (case md5_words m of (a, b, c, d) \<Rightarrow> Encode [a, b, c, d])"

definition md5_absorbed :: "md5_ctx \<Rightarrow> byte list \<Rightarrow> bool" where
  "md5_absorbed c m \<longleftrightarrow> follows MD5Transform md5_start (md5_state c) (md5_buffer c) m \<and> counts (md5_count0 c) (md5_count1 c) (length m)"

lemma MD5Init_absorbed: "length (md5_buffer c) = 64 \<Longrightarrow> md5_absorbed (MD5Init c) []"
  by (simp add: md5_absorbed_def MD5Init_def follows_def counts_def md5_start_def)

lemma MD5Update_absorbed:
  assumes "md5_absorbed c m" "length d < 2 ^ 32"
  shows "md5_absorbed (MD5Update c d) (m @ d)"
proof -
  let ?j = "length m mod 64"
  have f: "follows MD5Transform md5_start (md5_state c) (md5_buffer c) m" and n: "counts (md5_count0 c) (md5_count1 c) (length m)"
    using assms(1) by (auto simp: md5_absorbed_def)
  note idx = counts_index [OF n]
  have n': "counts (md5_count0 (MD5Update c d)) (md5_count1 (MD5Update c d)) (length (m @ d))"
    using counts_step [OF n assms(2)]
    by (auto simp: MD5Update_def Let_def word_carry(1) split: prod.split if_splits)
  have "follows MD5Transform md5_start (md5_state (MD5Update c d)) (md5_buffer (MD5Update c d)) (m @ d)"
  proof (cases "64 \<le> ?j + length d")
    case True
    obtain st i where t: "transform_from MD5Transform (MD5Transform (md5_state c)
        (overwrite (md5_buffer c) ?j (take (64 - ?j) d))) d (64 - ?j) = (st, i)" by fastforce
    have "64 - ?j \<le> length d" using True by simp
    then show ?thesis using follows_long(3) [OF f True t] by (simp add: MD5Update_def idx t Let_def)
  next
    case False
    then have "\<not> 64 - ?j \<le> length d" "?j + length d < 64" by auto
    then show ?thesis using follows_short [OF f, of d] by (simp add: MD5Update_def idx Let_def)
  qed
  then show ?thesis using n' by (simp add: md5_absorbed_def)
qed

lemma low_byte: "ucast ((w :: 32 word) AND 0xff) = (ucast w :: byte)"
proof -
  have m: "(0xff :: 32 word) = mask 8" by (simp add: mask_eq_exp_minus_1)
  show ?thesis unfolding m by (rule bit_word_eqI) (auto simp: bit_simps)
qed

lemma Encode_counts: "counts c0 c1 n \<Longrightarrow> Encode [c0, c1] = md5_lengths (8 * n)"
proof -
  assume "counts c0 c1 n"
  then have c: "c0 = of_nat (8 * n)" "c1 = of_nat (8 * n div 2 ^ 32)" by (auto simp: counts_def)
  have e: "[0..<8] = [0, 1, 2, 3, 4, 5, 6, 7 :: nat]" by (simp add: upt_rec)
  have d: "8 * n div 2 ^ 32 div 2 ^ k = 8 * n div 2 ^ (32 + k)" for k :: nat
    by (simp only: div_mult2_eq power_add)
  have z: "drop_bit 0 w = w" for w :: "32 word" by simp
  have "Encode [c0, c1] = map (\<lambda>k. ucast (drop_bit k c0)) [0, 8, 16, 24] @ map (\<lambda>k. ucast (drop_bit k c1)) [0, 8, 16, 24]"
    by (simp add: low_byte)
  also have "\<dots> = map (\<lambda>k. of_nat (8 * n div 2 ^ k)) [0, 8, 16, 24, 32, 40, 48, 56]"
    unfolding c by (simp only: list.map word_byte append.simps d add_0_right) simp
  also have "\<dots> = md5_lengths (8 * n)" unfolding md5_lengths_def e by simp
  finally show ?thesis .
qed

lemma MD5Final_digest:
  assumes "md5_absorbed c m"
  shows "fst (MD5Final c) = md5_of m"
proof -
  let ?j = "length m mod 64"
  have n: "counts (md5_count0 c) (md5_count1 c) (length m)" using assms by (simp add: md5_absorbed_def)
  define p where "p = (if ?j < 56 then 56 - ?j else 120 - ?j)"
  have p: "p = Suc ((119 - ?j) mod 64)" "p \<le> 64"
    by (auto simp: p_def mod_if [of "119 - ?j"])
  define c' where "c' = MD5Update (MD5Update c (take p PADDING)) (Encode [md5_count0 c, md5_count1 c])"
  have "md5_absorbed c' ((m @ take p PADDING) @ Encode [md5_count0 c, md5_count1 c])"
    unfolding c'_def using assms p(2) by (intro MD5Update_absorbed) (auto simp: PADDING_def)
  moreover have "take p PADDING @ Encode [md5_count0 c, md5_count1 c] = padding md5_lengths (length m)"
    unfolding Encode_counts [OF n] using p by (simp add: padding_def PADDING_def min_def)
  ultimately have "md5_state c' = md5_words m" by (simp add: md5_absorbed_def follows_def md5_words_def)
  moreover have "fst (MD5Final c) = (case md5_state c' of (a, b, c, d) \<Rightarrow> Encode [a, b, c, d])"
    by (simp add: MD5Final_def Let_def counts_index [OF n] c'_def p_def)
  ultimately show ?thesis by (simp add: md5_of_def)
qed

interpretation md5_util: message_digest md5_absorbed "\<lambda>c. length (md5_buffer c) = 64" MD5Init MD5Update "\<lambda>c. fst (MD5Final c)" md5_of "2 ^ 32"
  by unfold_locales (simp_all only: MD5Init_absorbed MD5Update_absorbed MD5Final_digest)

section \<open>The two implementations agree\<close>

lemma digest_rows_eq: "digest_rows = md5_rows"
  by code_simp

lemma digest_step_eq: "digest_step = md5_step"
  by (auto simp: fun_eq_iff digest_step_def md5_step_def Let_def ROTATE_LEFT_def add.assoc split: prod.split)

lemma bytestoword32_eq: "bytestoword32 bs = Decode bs"
  by (induction bs rule: Decode.induct) (auto intro!: bit_word_eqI simp: bit_simps)

lemma md5_block_eq:
  "(case (d, md5_digest (bytestoword32 b) d) of ((o0, o1, o2, o3), (d0, d1, d2, d3)) \<Rightarrow> (d0 + o0, d1 + o1, d2 + o2, d3 + o3)) =
    MD5Transform d b"
  by (simp add: MD5Transform_def md5_digest_def digest_rows_eq digest_step_eq bytestoword32_eq add.commute split: prod.split)

lemma word32tobytes_eq: "word32tobytes (a, b, c, d) = Encode [a, b, c, d]"
  by (simp add: word32tobytes_def)

lemma Decode_append: "length xs mod 4 = 0 \<Longrightarrow> Decode (xs @ ys) = Decode xs @ Decode ys"
  by (induction xs rule: Decode.induct) (auto simp: mod_Suc split: if_splits)

lemma length_Decode: "length (Decode xs) = length xs div 4"
  by (induction xs rule: Decode.induct) auto

lemma Decode_lengths: "Decode (md5_lengths n) = [of_nat n, of_nat (n div 2 ^ 32)]"
proof -
  have e: "[0..<8] = [0, 1, 2, 3, 4, 5, 6, 7 :: nat]" by (simp add: upt_rec)
  have w: "(ucast (of_nat k :: byte) OR push_bit 8 (ucast (of_nat (k div 2 ^ 8) :: byte)) OR
      push_bit 16 (ucast (of_nat (k div 2 ^ 16) :: byte)) OR push_bit 24 (ucast (of_nat (k div 2 ^ 24) :: byte))) = (of_nat k :: 32 word)" for k
  proof (rule bit_word_eqI)
    fix j assume "j < LENGTH(32)"
    have b: "bit (k div 2 ^ i) j \<longleftrightarrow> bit k (i + j)" for i j using bit_drop_bit_eq [of i k] by (simp add: drop_bit_eq_div fun_eq_iff)
    note b = b [of 8, simplified] b [of 16, simplified] b [of 24, simplified]
    consider "j < 8" | "8 \<le> j" "j < 16" | "16 \<le> j" "j < 24" | "24 \<le> j" by linarith
    then show "bit (ucast (of_nat k :: byte) OR push_bit 8 (ucast (of_nat (k div 2 ^ 8) :: byte)) OR
      push_bit 16 (ucast (of_nat (k div 2 ^ 16) :: byte)) OR push_bit 24 (ucast (of_nat (k div 2 ^ 24) :: byte)) :: 32 word) j =
      bit (of_nat k :: 32 word) j"
      using \<open>j < LENGTH(32)\<close> by cases (auto simp: bit_simps bit_of_nat_iff b)
  qed
  have d: "n div 2 ^ 32 div 2 ^ k = n div 2 ^ (32 + k)" for k :: nat
    by (simp only: div_mult2_eq power_add)
  show ?thesis unfolding md5_lengths_def e using w [of n] w [of "n div 2 ^ 32"] unfolding d by simp
qed

lemma put_length_Decode:
  assumes "length xs = 56" "n < 2 ^ 32"
  shows "put_length (Decode (xs @ replicate 8 0)) n = Decode (xs @ md5_lengths (8 * n))"
proof -
  have l: "length (Decode xs) = 14" using assms(1) by (simp add: length_Decode)
  have z: "Decode (replicate 8 0) = [0, 0]" by code_simp
  have "of_nat ((n * 8) mod 2 ^ 32) = (of_nat (8 * n) :: 32 word)"
    by (rule word_eq_iff_unsigned [where 'a = nat, THEN iffD2]) (simp only: unat_of_nat mult.commute [of n] len_num1 mod_mod_trivial flip: len_bit0, simp)
  moreover have "(n div 2 ^ 29) mod 8 = 8 * n div 2 ^ 32" using assms(2) by simp
  moreover have "Decode (xs @ ys) = Decode xs @ Decode ys" for ys by (rule Decode_append) (simp add: assms(1))
  ultimately show ?thesis by (simp add: put_length_def z Decode_lengths l list_update_append)
qed

lemma md5_loop_blocks:
  assumes "n < 2 ^ 32" "length pt mod 64 = n mod 64"
  shows "md5_loop n d pt 0 = foldl MD5Transform d (blocks (pt @ padding md5_lengths n))"
  using assms(2)
proof (induction "length pt" arbitrary: pt d rule: less_induct)
  case less
  let ?k = "length pt" and ?L = "md5_lengths (8 * n)"
  have L: "length ?L = 8" by (simp add: md5_lengths_def)
  consider "?k \<ge> 64" | "?k < 56" | "56 \<le> ?k" "?k < 64" by linarith
  then show ?case
  proof cases
    case 1
    have "blocks (pt @ padding md5_lengths n) = take 64 pt # blocks (drop 64 pt @ padding md5_lengths n)"
      using blocks_Cons [of "take 64 pt" "drop 64 pt @ padding md5_lengths n"] 1 by (simp flip: append_assoc)
    moreover have "(?k - 64) mod 64 = n mod 64" using 1 less.prems by (simp add: le_mod_geq)
    moreover have "md5_loop n d pt 0 = md5_loop n (MD5Transform d (take 64 pt)) (drop 64 pt) 0"
      using 1 md5_block_eq [of d "take 64 pt"] by (subst md5_loop.simps) (simp add: converte_def)
    ultimately show ?thesis using less.hyps [of "drop 64 pt" "MD5Transform d (take 64 pt)"] 1 by simp
  next
    case 2
    let ?x = "pt @ 0x80 # replicate (55 - ?k) 0"
    have k: "n mod 64 = ?k" using 2 less.prems by simp
    have x: "length ?x = 56" "pt @ 0x80 # replicate (63 - ?k) 0 = ?x @ replicate 8 0"
      "pt @ padding md5_lengths n = ?x @ ?L" using 2 k by (simp_all add: padding_def mod_if [of "119 - ?k"] flip: replicate_add)
    have "blocks (?x @ ?L) = [?x @ ?L]" using blocks_Cons [of "?x @ ?L" "[]"] x(1) L by simp
    moreover have "put_length (bytestoword32 (?x @ replicate 8 0)) n = bytestoword32 (?x @ ?L)"
      unfolding bytestoword32_eq by (rule put_length_Decode [OF x(1) assms(1)])
    then have "md5_loop n d pt 0 = MD5Transform d (?x @ ?L)"
      using 2 x(2) md5_block_eq [of d "?x @ ?L"] by (subst md5_loop.simps) (simp add: converte_def)
    ultimately show ?thesis unfolding x(3) by simp
  next
    case 3
    let ?b = "pt @ 0x80 # replicate (63 - ?k) 0" and ?z = "replicate 56 0 :: byte list"
    have k: "n mod 64 = ?k" using 3 less.prems by simp
    have x: "length ?b = 64" "pt @ padding md5_lengths n = ?b @ ?z @ ?L"
      using 3 k by (simp_all add: padding_def mod_if [of "119 - ?k"] flip: replicate_add)
    have "blocks (?b @ ?z @ ?L) = [?b, ?z @ ?L]"
      using blocks_Cons [OF x(1), of "?z @ ?L"] blocks_Cons [of "?z @ ?L" "[]"] L by simp
    moreover have z: "[] @ 0 # replicate 63 0 = ?z @ replicate 8 (0 :: byte)"
      by (simp flip: replicate_Suc replicate_add)
    have "put_length (bytestoword32 (?z @ replicate 8 0)) n = bytestoword32 (?z @ ?L)"
      unfolding bytestoword32_eq by (rule put_length_Decode [OF _ assms(1)]) simp
    then have "md5_loop n e [] 1 = MD5Transform e (?z @ ?L)" for e
      using z md5_block_eq [of e "?z @ ?L"] by (subst md5_loop.simps) (simp add: converte_def)
    then have "md5_loop n d pt 0 = MD5Transform (MD5Transform d ?b) (?z @ ?L)"
      using 3 md5_block_eq [of d ?b] by (subst md5_loop.simps) (simp add: converte_def)
    ultimately show ?thesis unfolding x(2) by simp
  qed
qed

lemma md5_eq: "length m < 2 ^ 32 \<Longrightarrow> md5 m = md5_of m"
  by (simp add: md5_def md5_loop_blocks md5_of_def md5_words_def inic_digest_def md5_start_def word32tobytes_eq split: prod.split)

text \<open>
  C13.  However a message is cut into calls of \<^verbatim>\<open>MD5Update\<close>, the streaming implementation gives the digest the
  other one computes from the whole message.  The other one keeps three bits of the upper half of the
  length, so the message has to be shorter than \<open>2 ^ 32\<close> bytes.
\<close>

theorem md5_implementations_agree:
  assumes "length (md5_buffer c) = 64" "\<forall>d \<in> set ds. length d < 2 ^ 32 - 64" "length (concat ds) < 2 ^ 32"
  shows "fst (MD5Final (foldl MD5Update (MD5Init c) ds)) = md5 (concat ds)"
proof -
  have "\<forall>d \<in> set ds. length d < 2 ^ 32" using assms(2) by auto
  then show ?thesis using md5_util.final_updates [of c ds] md5_eq [OF assms(3)] assms(1) by simp
qed

definition md5_fresh :: md5_ctx where
  "md5_fresh = \<lparr>md5_state = (0, 0, 0, 0), md5_count0 = 0, md5_count1 = 0, md5_buffer = replicate 64 0\<rparr>"

theorem md5_implementations_agree_witness:
  "fst (MD5Final (foldl MD5Update (MD5Init md5_fresh) [[0x61], [], [0x62, 0x63]])) = md5 (concat [[0x61], [], [0x62, 0x63]])"
  by (rule md5_implementations_agree) (simp_all add: md5_fresh_def)

end
