(* ===== verification/Base64.thy ===== *)
theory Base64
  imports CString
begin

text \<open>
  The codecs of \<^verbatim>\<open>core/deps/util\<close>: \<^verbatim>\<open>util/base64.c\<close> (base 64, 32 and 16) and
  \<^verbatim>\<open>encoding/base64.c\<close>.  A buffer is the list of its bytes; an encoder answers the bytes that it
  stores, whose number is its result.
\<close>

unbundle bit_operations_syntax

abbreviation (input) EQ :: byte where "EQ \<equiv> 0x3D"

definition lookup :: "byte list \<Rightarrow> byte \<Rightarrow> byte" where
  "lookup table i = table ! unat i"

section \<open>\<^verbatim>\<open>util/base64.c\<close>: base 64\<close>

definition base64_enc :: "byte list" where
  "base64_enc = text_bytes ''ABCDEFGHIJKLMNOPQRSTUVWXYZabcdefghijklmnopqrstuvwxyz0123456789+/''"

definition base64_url :: "byte list" where
  "base64_url = text_bytes ''ABCDEFGHIJKLMNOPQRSTUVWXYZabcdefghijklmnopqrstuvwxyz0123456789-_''"

definition base64_dec :: "byte list" where
  "base64_dec =
    [0, 0, 0, 0, 0, 0, 0, 0, 0, 0, 0, 0, 0, 0, 0, 0,
     0, 0, 0, 0, 0, 0, 0, 0, 0, 0, 0, 0, 0, 0, 0, 0,
     0, 0, 0, 0, 0, 0, 0, 0, 0, 0, 0, 62, 0, 62, 0, 63,
     52, 53, 54, 55, 56, 57, 58, 59, 60, 61, 0, 0, 0, 0, 0, 0,
     0, 0, 1, 2, 3, 4, 5, 6, 7, 8, 9, 10, 11, 12, 13, 14,
     15, 16, 17, 18, 19, 20, 21, 22, 23, 24, 25, 0, 0, 0, 0, 63,
     0, 26, 27, 28, 29, 30, 31, 32, 33, 34, 35, 36, 37, 38, 39, 40,
     41, 42, 43, 44, 45, 46, 47, 48, 49, 50, 51, 0, 0, 0, 0, 0] @ replicate 128 0"

text \<open>The rest of the loop over groups of three and the last group.\<close>

fun base64_encode_table :: "byte list \<Rightarrow> byte list \<Rightarrow> byte list" where
  "base64_encode_table table (a # b # c # rest) =
     lookup table (drop_bit 2 a AND 0x3F) #
     lookup table (push_bit 4 (a AND 0x03) OR (drop_bit 4 b AND 0x0F)) #
     lookup table (push_bit 2 (b AND 0x0F) OR (drop_bit 6 c AND 0x03)) #
     lookup table (c AND 0x3F) # base64_encode_table table rest"
| "base64_encode_table table [a, b] =
     [lookup table (drop_bit 2 a AND 0x3F),
      lookup table (push_bit 4 (a AND 0x03) OR (drop_bit 4 b AND 0x0F)),
      lookup table (push_bit 2 (b AND 0x0F)), EQ]"
| "base64_encode_table table [a] =
     [lookup table (drop_bit 2 a AND 0x3F), lookup table (push_bit 4 (a AND 0x03)), EQ, EQ]"
| "base64_encode_table table [] = []"

definition base64_encode :: "byte list \<Rightarrow> byte list" where
  "base64_encode source = base64_encode_table base64_enc source"

definition base64_encode_url :: "byte list \<Rightarrow> byte list" where
  "base64_encode_url source = base64_encode_table base64_url source"

text \<open>The macro \<open>S\<close>: a byte of the rest of the source, or an equals sign behind its end.\<close>

definition source_at :: "byte list \<Rightarrow> nat \<Rightarrow> byte" where
  "source_at source i = (if i < length source then source ! i else EQ)"

function base64_decode :: "byte list \<Rightarrow> byte list" where
  "base64_decode source =
     (if source = [] \<or> hd source = EQ then []
      else
        let S = source_at source; D = (\<lambda>i. lookup base64_dec (S i)) in
        [push_bit 2 (D 0) OR drop_bit 4 (D 1)] @
        (if S 2 \<noteq> EQ then [push_bit 4 (D 1) OR drop_bit 2 (D 2)] else []) @
        (if S 3 \<noteq> EQ then [push_bit 6 (D 2) OR D 3] else []) @
        base64_decode (drop 4 source))"
  by pat_completeness auto
termination by (relation "measure length") auto

section \<open>\<^verbatim>\<open>util/base64.c\<close>: base 16\<close>

definition base16_enc :: "byte list" where
  "base16_enc = text_bytes ''0123456789ABCDEF''"

definition base16_dec :: "byte list" where
  "base16_dec = replicate 48 0 @
    [0, 1, 2, 3, 4, 5, 6, 7, 8, 9, 0, 0, 0, 0, 0, 0,
     0, 10, 11, 12, 13, 14, 15, 0, 0, 0, 0, 0, 0, 0, 0, 0,
     0, 0, 0, 0, 0, 0, 0, 0, 0, 0, 0, 0, 0, 0, 0, 0,
     0, 10, 11, 12, 13, 14, 15, 0, 0, 0, 0, 0, 0, 0, 0, 0] @ replicate 144 0"

fun base16_encode :: "byte list \<Rightarrow> byte list" where
  "base16_encode [] = []"
| "base16_encode (p # rest) =
     lookup base16_enc (drop_bit 4 p AND 0x0F) # lookup base16_enc (p AND 0x0F) # base16_encode rest"

fun base16_pairs :: "byte list \<Rightarrow> byte list" where
  "base16_pairs (a # b # rest) = (push_bit 4 (lookup base16_dec a) OR lookup base16_dec b) # base16_pairs rest"
| "base16_pairs rest = []"

definition base16_decode :: "byte list \<Rightarrow> byte list exec" where
  "base16_decode source =
     and_then (c_assert (length source mod 2 = 0)) (\<lambda>_. Inr (base16_pairs source))"

section \<open>\<^verbatim>\<open>util/base64.c\<close>: base 32\<close>

definition base32_enc :: "byte list" where
  "base32_enc = text_bytes ''ABCDEFGHIJKLMNOPQRSTUVWXYZ234567''"

definition base32_dec :: "byte list" where
  "base32_dec = replicate 48 0 @
    [0, 0, 0x1A, 0x1B, 0x1C, 0x1D, 0x1E, 0x1F, 0, 0, 0, 0, 0, 0, 0, 0,
     0, 0x00, 0x01, 0x02, 0x03, 0x04, 0x05, 0x06, 0x07, 0x08, 0x09, 0x0A, 0x0B, 0x0C, 0x0D, 0x0E,
     0x0F, 0x10, 0x11, 0x12, 0x13, 0x14, 0x15, 0x16, 0x17, 0x18, 0x19, 0, 0, 0, 0, 0,
     0, 0x00, 0x01, 0x02, 0x03, 0x04, 0x05, 0x06, 0x07, 0x08, 0x09, 0x0A, 0x0B, 0x0C, 0x0D, 0x0E,
     0x0F, 0x10, 0x11, 0x12, 0x13, 0x14, 0x15, 0x16, 0x17, 0x18, 0x19, 0, 0, 0, 0, 0] @ replicate 128 0"

fun base32_groups :: "byte list \<Rightarrow> byte list" where
  "base32_groups (a # b # c # d # e # rest) =
     lookup base32_enc (drop_bit 3 a AND 0x1F) #
     lookup base32_enc (push_bit 2 (a AND 0x07) OR (drop_bit 6 b AND 0x03)) #
     lookup base32_enc (drop_bit 1 b AND 0x1F) #
     lookup base32_enc (push_bit 4 (b AND 0x01) OR (drop_bit 4 c AND 0x0F)) #
     lookup base32_enc (push_bit 1 (c AND 0x0F) OR (drop_bit 7 d AND 0x01)) #
     lookup base32_enc (drop_bit 2 d AND 0x1F) #
     lookup base32_enc (push_bit 3 (d AND 0x03) OR (drop_bit 5 e AND 0x07)) #
     lookup base32_enc (e AND 0x1F) # base32_groups rest"
| "base32_groups [a] =
     [lookup base32_enc (drop_bit 3 a AND 0x1F), lookup base32_enc (push_bit 2 (a AND 0x07))]"
| "base32_groups [a, b] =
     [lookup base32_enc (drop_bit 3 a AND 0x1F), lookup base32_enc (push_bit 2 (a AND 0x07) OR (drop_bit 6 b AND 0x03)),
      lookup base32_enc (drop_bit 1 b AND 0x1F), lookup base32_enc (push_bit 4 (b AND 0x01))]"
| "base32_groups [a, b, c] =
     [lookup base32_enc (drop_bit 3 a AND 0x1F), lookup base32_enc (push_bit 2 (a AND 0x07) OR (drop_bit 6 b AND 0x03)),
      lookup base32_enc (drop_bit 1 b AND 0x1F), lookup base32_enc (push_bit 4 (b AND 0x01) OR (drop_bit 4 c AND 0x0F)),
      lookup base32_enc (push_bit 1 (c AND 0x0F))]"
| "base32_groups [a, b, c, d] =
     [lookup base32_enc (drop_bit 3 a AND 0x1F), lookup base32_enc (push_bit 2 (a AND 0x07) OR (drop_bit 6 b AND 0x03)),
      lookup base32_enc (drop_bit 1 b AND 0x1F), lookup base32_enc (push_bit 4 (b AND 0x01) OR (drop_bit 4 c AND 0x0F)),
      lookup base32_enc (push_bit 1 (c AND 0x0F) OR (drop_bit 7 d AND 0x01)), lookup base32_enc (drop_bit 2 d AND 0x1F),
      lookup base32_enc (push_bit 3 (d AND 0x03))]"
| "base32_groups [] = []"

text \<open>The last loop fills up to a multiple of eight.\<close>

definition pad8 :: "byte list \<Rightarrow> byte list" where
  "pad8 s = s @ replicate ((8 - length s mod 8) mod 8) EQ"

definition base32_encode :: "byte list \<Rightarrow> byte list" where
  "base32_encode source = pad8 (base32_groups source)"

function base32_decode :: "byte list \<Rightarrow> byte list" where
  "base32_decode source =
     (if source = [] \<or> hd source = EQ then []
      else
        let S = source_at source; D = (\<lambda>i. lookup base32_dec (S i)) in
        [push_bit 3 (D 0) OR drop_bit 2 (D 1)] @
        (if S 2 \<noteq> EQ then [push_bit 6 (D 1) OR push_bit 1 (D 2) OR drop_bit 4 (D 3)] else []) @
        (if S 4 \<noteq> EQ then [push_bit 4 (D 3) OR drop_bit 1 (D 4)] else []) @
        (if S 5 \<noteq> EQ then [push_bit 7 (D 4) OR push_bit 2 (D 5) OR drop_bit 3 (D 6)] else []) @
        (if S 7 \<noteq> EQ then [push_bit 5 (D 6) OR D 7] else []) @
        base32_decode (drop 8 source))"
  by pat_completeness auto
termination by (relation "measure length") auto

declare base64_decode.simps [simp del] base32_decode.simps [simp del]

section \<open>Round trips\<close>

text \<open>A table of characters that \<open>dec\<close> turns back into their positions.\<close>

definition inverts :: "byte list \<Rightarrow> byte list \<Rightarrow> bool" where
  "inverts dec enc \<longleftrightarrow> map (lookup dec) enc = map of_nat [0..<length enc] \<and> EQ \<notin> set enc"

lemma invert_lookup:
  assumes "inverts dec enc" "unat i < length enc"
  shows "lookup dec (lookup enc i) = i" "lookup enc i \<noteq> EQ"
proof -
  have "map (lookup dec) enc ! unat i = map of_nat [0..<length enc] ! unat i" using assms(1) by (simp add: inverts_def)
  then show "lookup dec (lookup enc i) = i" using assms(2) by (simp add: lookup_def)
  have "lookup enc i \<in> set enc" using assms(2) by (simp add: lookup_def)
  then show "lookup enc i \<noteq> EQ" using assms(1) by (auto simp: inverts_def)
qed

lemma inverts_64: "inverts base64_dec base64_enc"
  by code_simp

lemma inverts_64_url: "inverts base64_dec base64_url"
  by code_simp

lemma inverts_32: "inverts base32_dec base32_enc"
  by code_simp

lemma inverts_16: "inverts base16_dec base16_enc"
  by code_simp

text \<open>Equality of bytes bit by bit.\<close>

lemma byte_eqI:
  assumes "\<And>n. n \<in> {0, 1, 2, 3, 4, 5, 6, 7} \<Longrightarrow> bit (a :: byte) n = bit b n"
  shows "a = b"
proof (rule bit_word_eqI)
  fix n assume "n < LENGTH(8)"
  then have "n \<in> {0, 1, 2, 3, 4, 5, 6, 7}" by (simp, arith)
  then show "bit a n = bit b n" by (rule assms)
qed

lemma byte_less:
  assumes "\<And>n. n \<in> {0, 1, 2, 3, 4, 5, 6, 7} \<Longrightarrow> k \<le> n \<Longrightarrow> \<not> bit (w :: byte) n"
  shows "unat w < 2 ^ k"
proof -
  have "take_bit k w = w"
  proof (rule byte_eqI)
    fix n :: nat assume "n \<in> {0, 1, 2, 3, 4, 5, 6, 7}"
    then show "bit (take_bit k w) n = bit w n" using assms [of n] by (cases "k \<le> n") (simp_all add: bit_take_bit_iff)
  qed
  moreover have "unat (take_bit k w) = take_bit k (unat w)" by (rule unsigned_take_bit_eq)
  ultimately show ?thesis using take_bit_nat_less_exp [of k "unat w"] by simp
qed

lemma byte_less_cases:
  "(\<And>n. n \<in> {0, 1, 2, 3, 4, 5, 6, 7} \<Longrightarrow> 6 \<le> n \<Longrightarrow> \<not> bit (w :: byte) n) \<Longrightarrow> unat w < 64"
  "(\<And>n. n \<in> {0, 1, 2, 3, 4, 5, 6, 7} \<Longrightarrow> 5 \<le> n \<Longrightarrow> \<not> bit (w :: byte) n) \<Longrightarrow> unat w < 32"
  "(\<And>n. n \<in> {0, 1, 2, 3, 4, 5, 6, 7} \<Longrightarrow> 4 \<le> n \<Longrightarrow> \<not> bit (w :: byte) n) \<Longrightarrow> unat w < 16"
  using byte_less [of 6 w] byte_less [of 5 w] byte_less [of 4 w] by simp_all

lemma six_bits:
  "unat (drop_bit 2 a AND 0x3F :: byte) < 64"
  "unat (push_bit 4 (a AND 0x03) OR (drop_bit 4 b AND 0x0F) :: byte) < 64"
  "unat (push_bit 2 (b AND 0x0F) OR (drop_bit 6 c AND 0x03) :: byte) < 64"
  "unat (c AND 0x3F :: byte) < 64"
  "unat (push_bit 2 (b AND 0x0F) :: byte) < 64"
  "unat (push_bit 4 (a AND 0x03) :: byte) < 64"
  by (rule byte_less_cases(1); elim insertE emptyE; simp add: bit_simps)+

lemma five_bits:
  "unat (drop_bit 3 a AND 0x1F :: byte) < 32"
  "unat (push_bit 2 (a AND 0x07) OR (drop_bit 6 b AND 0x03) :: byte) < 32"
  "unat (drop_bit 1 b AND 0x1F :: byte) < 32"
  "unat (push_bit 4 (b AND 0x01) OR (drop_bit 4 c AND 0x0F) :: byte) < 32"
  "unat (push_bit 1 (c AND 0x0F) OR (drop_bit 7 d AND 0x01) :: byte) < 32"
  "unat (drop_bit 2 d AND 0x1F :: byte) < 32"
  "unat (push_bit 3 (d AND 0x03) OR (drop_bit 5 e AND 0x07) :: byte) < 32"
  "unat (e AND 0x1F :: byte) < 32"
  "unat (push_bit 2 (a AND 0x07) :: byte) < 32" "unat (push_bit 4 (b AND 0x01) :: byte) < 32"
  "unat (push_bit 1 (c AND 0x0F) :: byte) < 32" "unat (push_bit 3 (d AND 0x03) :: byte) < 32"
  by (rule byte_less_cases(2); elim insertE emptyE; simp add: bit_simps)+

lemma four_bits: "unat (drop_bit 4 a AND 0x0F :: byte) < 16" "unat (a AND 0x0F :: byte) < 16"
  by (rule byte_less_cases(3); elim insertE emptyE; simp add: bit_simps)+

lemma join_64:
  "push_bit 2 (drop_bit 2 a AND 0x3F) OR drop_bit 4 (push_bit 4 (a AND 0x03) OR (drop_bit 4 b AND 0x0F)) = (a :: byte)"
  "push_bit 4 (push_bit 4 (a AND 0x03) OR (drop_bit 4 b AND 0x0F)) OR
     drop_bit 2 (push_bit 2 (b AND 0x0F) OR (drop_bit 6 c AND 0x03)) = (b :: byte)"
  "push_bit 6 (push_bit 2 (b AND 0x0F) OR (drop_bit 6 c AND 0x03)) OR (c AND 0x3F) = (c :: byte)"
  "push_bit 4 (push_bit 4 (a AND 0x03) OR (drop_bit 4 b AND 0x0F)) OR drop_bit 2 (push_bit 2 (b AND 0x0F)) = (b :: byte)"
  "push_bit 2 (drop_bit 2 a AND 0x3F) OR drop_bit 4 (push_bit 4 (a AND 0x03)) = (a :: byte)"
  by (rule byte_eqI; elim insertE emptyE; simp add: bit_simps)+

lemma join_32:
  "push_bit 3 (drop_bit 3 a AND 0x1F) OR drop_bit 2 (push_bit 2 (a AND 0x07) OR (drop_bit 6 b AND 0x03)) = (a :: byte)"
  "push_bit 3 (drop_bit 3 a AND 0x1F) OR drop_bit 2 (push_bit 2 (a AND 0x07)) = (a :: byte)"
  "push_bit 6 (push_bit 2 (a AND 0x07) OR (drop_bit 6 b AND 0x03)) OR push_bit 1 (drop_bit 1 b AND 0x1F) OR
     drop_bit 4 (push_bit 4 (b AND 0x01) OR (drop_bit 4 c AND 0x0F)) = (b :: byte)"
  "push_bit 6 (push_bit 2 (a AND 0x07) OR (drop_bit 6 b AND 0x03)) OR push_bit 1 (drop_bit 1 b AND 0x1F) OR
     drop_bit 4 (push_bit 4 (b AND 0x01)) = (b :: byte)"
  "push_bit 4 (push_bit 4 (b AND 0x01) OR (drop_bit 4 c AND 0x0F)) OR
     drop_bit 1 (push_bit 1 (c AND 0x0F) OR (drop_bit 7 d AND 0x01)) = (c :: byte)"
  "push_bit 4 (push_bit 4 (b AND 0x01) OR (drop_bit 4 c AND 0x0F)) OR drop_bit 1 (push_bit 1 (c AND 0x0F)) = (c :: byte)"
  "push_bit 7 (push_bit 1 (c AND 0x0F) OR (drop_bit 7 d AND 0x01)) OR push_bit 2 (drop_bit 2 d AND 0x1F) OR
     drop_bit 3 (push_bit 3 (d AND 0x03) OR (drop_bit 5 e AND 0x07)) = (d :: byte)"
  "push_bit 7 (push_bit 1 (c AND 0x0F) OR (drop_bit 7 d AND 0x01)) OR push_bit 2 (drop_bit 2 d AND 0x1F) OR
     drop_bit 3 (push_bit 3 (d AND 0x03)) = (d :: byte)"
  "push_bit 5 (push_bit 3 (d AND 0x03) OR (drop_bit 5 e AND 0x07)) OR (e AND 0x1F) = (e :: byte)"
  by (rule byte_eqI; elim insertE emptyE; simp only: bit_or_iff bit_and_iff bit_push_bit_iff bit_drop_bit_eq o_apply;
      simp add: bit_simps; simp add: numeral_2_eq_2 numeral_3_eq_3)+

lemma join_16: "push_bit 4 (drop_bit 4 a AND 0x0F) OR (a AND 0x0F) = (a :: byte)"
  by (rule byte_eqI; elim insertE emptyE; simp add: bit_simps)

lemma source_at_simps [simp]:
  "source_at (x # xs) 0 = x" "source_at (x # xs) (Suc n) = source_at xs n" "source_at [] n = EQ"
  "source_at (x # xs) (numeral k) = source_at xs (pred_numeral k)" "source_at (x # xs) 1 = source_at xs 0"
  by (simp_all add: source_at_def numeral_eq_Suc)

lemma length_tables [simp]:
  "length base64_enc = 64" "length base64_url = 64" "length base32_enc = 32" "length base16_enc = 16"
  by (simp_all add: base64_enc_def base64_url_def base32_enc_def base16_enc_def text_bytes_def)

lemma base64_decode_step:
  "x \<noteq> EQ \<Longrightarrow> base64_decode (x # y # z # w # rest) =
     (let D = lookup base64_dec in
      [push_bit 2 (D x) OR drop_bit 4 (D y)] @
      (if z \<noteq> EQ then [push_bit 4 (D y) OR drop_bit 2 (D z)] else []) @
      (if w \<noteq> EQ then [push_bit 6 (D z) OR D w] else []) @ base64_decode rest)"
  by (subst base64_decode.simps) (simp add: Let_def)

lemma base64_decode_Nil: "base64_decode [] = []"
  by (simp add: base64_decode.simps)

lemma base64_decode_group:
  assumes "inverts base64_dec t" "length t = 64" "unat i < 64" "unat j < 64"
  shows "unat k < 64 \<Longrightarrow> unat l < 64 \<Longrightarrow> base64_decode (lookup t i # lookup t j # lookup t k # lookup t l # rest) =
      (push_bit 2 i OR drop_bit 4 j) # (push_bit 4 j OR drop_bit 2 k) # (push_bit 6 k OR l) # base64_decode rest"
    "unat k < 64 \<Longrightarrow> base64_decode [lookup t i, lookup t j, lookup t k, EQ] =
      [push_bit 2 i OR drop_bit 4 j, push_bit 4 j OR drop_bit 2 k]"
    "base64_decode [lookup t i, lookup t j, EQ, EQ] = [push_bit 2 i OR drop_bit 4 j]"
  using assms(3,4) invert_lookup [OF assms(1), unfolded assms(2)]
  by (simp_all add: base64_decode_step base64_decode_Nil Let_def)

lemma base64_decode_encode:
  assumes "inverts base64_dec table" "length table = 64"
  shows "base64_decode (base64_encode_table table source) = source"
  using assms
  by (induction table source rule: base64_encode_table.induct)
    (simp_all only: base64_encode_table.simps base64_decode_group six_bits join_64 base64_decode_Nil)

lemma base32_decode_step:
  "x \<noteq> EQ \<Longrightarrow> base32_decode (x # y # z # w # v # u # t # s # rest) =
     (let D = lookup base32_dec in
      [push_bit 3 (D x) OR drop_bit 2 (D y)] @
      (if z \<noteq> EQ then [push_bit 6 (D y) OR push_bit 1 (D z) OR drop_bit 4 (D w)] else []) @
      (if v \<noteq> EQ then [push_bit 4 (D w) OR drop_bit 1 (D v)] else []) @
      (if u \<noteq> EQ then [push_bit 7 (D v) OR push_bit 2 (D u) OR drop_bit 3 (D t)] else []) @
      (if s \<noteq> EQ then [push_bit 5 (D t) OR D s] else []) @ base32_decode rest)"
  by (subst base32_decode.simps) (simp add: Let_def)

lemma base32_decode_Nil: "base32_decode [] = []"
  by (simp add: base32_decode.simps)

lemma base32_decode_group:
  assumes "unat i0 < 32" "unat i1 < 32"
  defines "e \<equiv> lookup base32_enc"
  shows "\<lbrakk>unat i2 < 32; unat i3 < 32; unat i4 < 32; unat i5 < 32; unat i6 < 32; unat i7 < 32\<rbrakk> \<Longrightarrow>
      base32_decode (e i0 # e i1 # e i2 # e i3 # e i4 # e i5 # e i6 # e i7 # rest) =
      (push_bit 3 i0 OR drop_bit 2 i1) # (push_bit 6 i1 OR push_bit 1 i2 OR drop_bit 4 i3) # (push_bit 4 i3 OR drop_bit 1 i4) #
      (push_bit 7 i4 OR push_bit 2 i5 OR drop_bit 3 i6) # (push_bit 5 i6 OR i7) # base32_decode rest"
    "base32_decode [e i0, e i1, EQ, EQ, EQ, EQ, EQ, EQ] = [push_bit 3 i0 OR drop_bit 2 i1]"
    "\<lbrakk>unat i2 < 32; unat i3 < 32\<rbrakk> \<Longrightarrow>
      base32_decode [e i0, e i1, e i2, e i3, EQ, EQ, EQ, EQ] =
      [push_bit 3 i0 OR drop_bit 2 i1, push_bit 6 i1 OR push_bit 1 i2 OR drop_bit 4 i3]"
    "\<lbrakk>unat i2 < 32; unat i3 < 32; unat i4 < 32\<rbrakk> \<Longrightarrow>
      base32_decode [e i0, e i1, e i2, e i3, e i4, EQ, EQ, EQ] =
      [push_bit 3 i0 OR drop_bit 2 i1, push_bit 6 i1 OR push_bit 1 i2 OR drop_bit 4 i3, push_bit 4 i3 OR drop_bit 1 i4]"
    "\<lbrakk>unat i2 < 32; unat i3 < 32; unat i4 < 32; unat i5 < 32; unat i6 < 32\<rbrakk> \<Longrightarrow>
      base32_decode [e i0, e i1, e i2, e i3, e i4, e i5, e i6, EQ] =
      [push_bit 3 i0 OR drop_bit 2 i1, push_bit 6 i1 OR push_bit 1 i2 OR drop_bit 4 i3, push_bit 4 i3 OR drop_bit 1 i4,
       push_bit 7 i4 OR push_bit 2 i5 OR drop_bit 3 i6]"
  using assms(1,2) invert_lookup [OF inverts_32, unfolded length_tables]
  by (simp_all add: e_def base32_decode_step base32_decode_Nil Let_def)

lemma replicate_small:
  "replicate 1 x = [x]" "replicate 3 x = [x, x, x]" "replicate 4 x = [x, x, x, x]" "replicate 6 x = [x, x, x, x, x, x]"
  by (simp_all add: numeral_eq_Suc)

lemma pad8_group: "pad8 (x # y # z # w # v # u # t # s # rest) = x # y # z # w # v # u # t # s # pad8 rest"
proof -
  have "length (x # y # z # w # v # u # t # s # rest) = length rest + 8" by simp
  then show ?thesis unfolding pad8_def by (simp only: mod_add_self2 append.simps)
qed

lemma pad8_last:
  "pad8 [] = []" "pad8 [x, y] = [x, y, EQ, EQ, EQ, EQ, EQ, EQ]" "pad8 [x, y, z, w] = [x, y, z, w, EQ, EQ, EQ, EQ]"
  "pad8 [x, y, z, w, v] = [x, y, z, w, v, EQ, EQ, EQ]" "pad8 [x, y, z, w, v, u, t] = [x, y, z, w, v, u, t, EQ]"
  using replicate_small [of EQ] by (simp_all add: pad8_def)

lemmas pad8_simps = pad8_group pad8_last

lemma base32_decode_encode: "base32_decode (base32_encode source) = source"
  unfolding base32_encode_def
  by (induction source rule: base32_groups.induct)
    (simp_all only: base32_groups.simps pad8_simps base32_decode_group five_bits join_32 base32_decode_Nil)

lemma base16_decode_encode: "base16_decode (base16_encode source) = Inr source"
proof -
  note t = invert_lookup [OF inverts_16, unfolded length_tables]
  have "length (base16_encode source) = 2 * length source" by (induction source) simp_all
  moreover have "base16_pairs (base16_encode source) = source"
    by (induction source) (simp_all only: base16_encode.simps base16_pairs.simps t four_bits join_16)
  ultimately show ?thesis by (simp add: base16_decode_def)
qed

text \<open>
  C9.  Every sequence of bytes survives the three codecs: base 64 with the standard and with the URL alphabet, which
  one decoding table serves, base 32, whose last group ends in one of four ways, and base 16.
\<close>

theorem base64_roundtrip:
  "base64_decode (base64_encode source) = source \<and> base64_decode (base64_encode_url source) = source \<and>
   base32_decode (base32_encode source) = source \<and> base16_decode (base16_encode source) = Inr source"
  by (simp add: base64_encode_def base64_encode_url_def base64_decode_encode inverts_64 inverts_64_url
      base32_decode_encode base16_decode_encode)

end
