(* ===== verification/HttpDigest.thy ===== *)
theory HttpDigest
  imports HttpAuthProps Md5 Base64
begin

text \<open>
  \<^verbatim>\<open>http-header-auth.c\<close> of libhttp: the credentials a client sends.  Basic credentials go through
  \<^verbatim>\<open>base64_encode\<close>, digest credentials through the streaming MD5, both modelled from \<^verbatim>\<open>core/deps/util\<close>; the result is
  written by \<^verbatim>\<open>http_header_authorization_write\<close>.  \<open>ctx\<close> is the uninitialised \<^verbatim>\<open>MD5_CTX\<close> on the stack.
\<close>

unbundle bit_operations_syntax

section \<open>The model\<close>

definition bytes_text :: "byte list \<Rightarrow> string" where
  "bytes_text bs = map (\<lambda>b. char_of (unat b)) bs"

definition base16 :: "byte list \<Rightarrow> string" where
  "base16 data = concat (map (\<lambda>b. [''0123456789abcdef'' ! unat (drop_bit 4 b), ''0123456789abcdef'' ! unat (b AND 0xF)]) data)"

text \<open>\<^verbatim>\<open>MD5Init\<close>, one \<^verbatim>\<open>MD5Update\<close> for every chunk, \<^verbatim>\<open>MD5Final\<close>.\<close>

definition md5_sum :: "md5_ctx \<Rightarrow> byte list list \<Rightarrow> byte list" where
  "md5_sum ctx chunks = fst (MD5Final (foldl MD5Update (MD5Init ctx) chunks))"

abbreviation COLON :: "byte list" where "COLON \<equiv> text_bytes '':''"

text \<open>
  \<^verbatim>\<open>strncmp(algorithm + strlen(algorithm) - 5, "-sess", 5)\<close>.  For an algorithm of less than five characters the
  comparison starts in front of the member; \<open>front\<close> are the five bytes that precede it in the struct.
\<close>

definition is_session :: "string \<Rightarrow> string \<Rightarrow> bool" where
  "is_session front algorithm \<longleftrightarrow> drop (length algorithm) (front @ algorithm) = ''-sess''"

definition md5_A1 ::
    "md5_ctx \<Rightarrow> string \<Rightarrow> string \<Rightarrow> string \<Rightarrow> string \<Rightarrow> string \<Rightarrow> string \<Rightarrow> string \<Rightarrow> string" where
  "md5_A1 ctx front algorithm usr pwd realm nonce cnonce =
     (let md5 = md5_sum ctx [text_bytes usr, COLON, text_bytes realm, COLON, text_bytes pwd];
          md5 = (if is_session front algorithm
                 then md5_sum ctx [md5, COLON, text_bytes nonce, COLON, text_bytes cnonce] else md5)
      in base16 md5)"

definition md5_A2 :: "md5_ctx \<Rightarrow> string \<Rightarrow> string \<Rightarrow> string \<Rightarrow> string \<Rightarrow> string" where
  "md5_A2 ctx meth uri qop md5entity =
     base16 (md5_sum ctx ([text_bytes meth, COLON, text_bytes uri] @
       (if qop = ''auth-int'' then [COLON, take 32 (text_bytes md5entity)] else [])))"

definition md5_response ::
    "md5_ctx \<Rightarrow> string \<Rightarrow> string \<Rightarrow> string \<Rightarrow> int \<Rightarrow> string \<Rightarrow> string \<Rightarrow> string" where
  "md5_response ctx A1 A2 nonce nc cnonce qop =
     base16 (md5_sum ctx ([take 32 (text_bytes A1), COLON, text_bytes nonce, COLON] @
       (if qop \<noteq> [] then [text_bytes (show_nc nc), COLON, text_bytes cnonce, COLON, text_bytes qop, COLON] else []) @
       [take 32 (text_bytes A2)]))"

definition md5_username :: "md5_ctx \<Rightarrow> string \<Rightarrow> string \<Rightarrow> string" where
  "md5_username ctx user realm = base16 (md5_sum ctx [text_bytes user, COLON, text_bytes realm])"

definition md5_entity :: "md5_ctx \<Rightarrow> byte list \<Rightarrow> string" where
  "md5_entity ctx entity = base16 (md5_sum ctx [entity])"

text \<open>
  \<open>memory\<close> are the 256 bytes of the member \<^verbatim>\<open>response\<close>: \<^verbatim>\<open>base64_encode\<close> stores no terminator, so what was behind
  the new text in the copy of the struct belongs to the string.
\<close>

definition http_header_auth ::
    "md5_ctx \<Rightarrow> string \<Rightarrow> string \<Rightarrow> auth \<Rightarrow> string \<Rightarrow> string \<Rightarrow> byte list \<Rightarrow> int \<Rightarrow> (string \<times> int) exec" where
  "http_header_auth ctx front memory a pwd meth content bytes =
     (case au_scheme a of
        AUTH_BASIC \<Rightarrow>
          let s = au_username a @ '':'' @ pwd; n = int (length s) in
          if n + 1 \<ge> bytes \<or> (n + 2) div 3 * 4 + n div 57 + 1 > 256 then Inr ([], - E2BIG)
          else
            let text = bytes_text (base64_encode (text_bytes s));
                a2 = a\<lparr>au_response := takeWhile (\<lambda>c. c \<noteq> NUL) (text @ drop (length text) memory)\<rparr>
            in http_header_authorization_write a2 bytes
      | AUTH_DIGEST \<Rightarrow>
          let entity = md5_entity ctx content;
              A1 = md5_A1 ctx front (au_algorithm a) (au_username a) pwd (au_realm a) (au_nonce a) (au_cnonce a);
              A2 = md5_A2 ctx meth (au_uri a) (au_qop a) entity;
              a2 = a\<lparr>au_response := md5_response ctx A1 A2 (au_nonce a) (au_nc a) (au_cnonce a) (au_qop a)\<rparr>;
              a2 = (if au_userhash a \<noteq> 0 then a2\<lparr>au_username := md5_username ctx (au_username a) (au_realm a)\<rparr> else a2)
          in http_header_authorization_write a2 bytes
      | AUTH_NONE \<Rightarrow> Inl Assert_failed)"

section \<open>The formula of RFC 2617\<close>

text \<open>The hash of a text, in hexadecimal digits.\<close>

definition rfc_H :: "string \<Rightarrow> string" where
  "rfc_H s = base16 (md5_of (text_bytes s))"

definition is_sess :: "string \<Rightarrow> bool" where
  "is_sess algorithm \<longleftrightarrow> drop (length algorithm - 5) algorithm = ''-sess''"

text \<open>In a session the hash of the password is used as its sixteen bytes, as in section 5 of the RFC.\<close>

definition rfc_A1 :: "auth \<Rightarrow> string \<Rightarrow> string" where
  "rfc_A1 a pwd =
     (let secret = au_username a @ '':'' @ au_realm a @ '':'' @ pwd in
      if is_sess (au_algorithm a)
      then bytes_text (md5_of (text_bytes secret)) @ '':'' @ au_nonce a @ '':'' @ au_cnonce a else secret)"

definition rfc_A2 :: "auth \<Rightarrow> string \<Rightarrow> byte list \<Rightarrow> string" where
  "rfc_A2 a meth content =
     meth @ '':'' @ au_uri a @ (if au_qop a = ''auth-int'' then '':'' @ base16 (md5_of content) else [])"

definition rfc_response :: "auth \<Rightarrow> string \<Rightarrow> string \<Rightarrow> byte list \<Rightarrow> string" where
  "rfc_response a pwd meth content =
     rfc_H (rfc_H (rfc_A1 a pwd) @ '':'' @ au_nonce a @ '':'' @
       (if au_qop a \<noteq> [] then show_nc (au_nc a) @ '':'' @ au_cnonce a @ '':'' @ au_qop a @ '':'' else []) @
       rfc_H (rfc_A2 a meth content))"

definition rfc_credentials :: "auth \<Rightarrow> string \<Rightarrow> string \<Rightarrow> byte list \<Rightarrow> auth" where
  "rfc_credentials a pwd meth content =
     a\<lparr>au_response := rfc_response a pwd meth content,
       au_username := (if au_userhash a \<noteq> 0 then rfc_H (au_username a @ '':'' @ au_realm a) else au_username a)\<rparr>"

section \<open>The code computes it\<close>

lemma text_bytes_append [simp]: "text_bytes (s @ t) = text_bytes s @ text_bytes t"
  by (simp add: text_bytes_def)

lemma text_bytes_Nil [simp]: "text_bytes [] = []"
  by (simp add: text_bytes_def)

lemma text_bytes_Cons [simp]: "text_bytes (c # s) = of_nat (ord c) # text_bytes s"
  by (simp add: text_bytes_def)

lemma length_text_bytes [simp]: "length (text_bytes s) = length s"
  by (simp add: text_bytes_def)

lemma byte_of_char: "of_nat (ord (char_of (unat b) :: char)) = (b :: byte)"
  using unsigned_less [of b, where ?'a = nat] by (simp add: of_char_of)

lemma text_bytes_text [simp]: "text_bytes (bytes_text bs) = bs"
  unfolding text_bytes_def bytes_text_def by (simp only: map_map comp_def byte_of_char) simp

lemma bytes_text_no_NUL: "0 \<notin> set bs \<Longrightarrow> NUL \<notin> set (bytes_text bs)"
proof
  assume "0 \<notin> set bs" "NUL \<in> set (bytes_text bs)"
  then obtain b where b: "b \<in> set bs" "NUL = char_of (unat b)" unfolding bytes_text_def set_map by blast
  have "b = of_nat (ord NUL)" unfolding b(2) by (rule byte_of_char [symmetric])
  also have "\<dots> = 0" by simp
  finally show False using b(1) \<open>0 \<notin> set bs\<close> by simp
qed

lemma md5_sum_of:
  assumes "length (md5_buffer ctx) = 64" "\<forall>d \<in> set chunks. length d < 2 ^ 32"
  shows "md5_sum ctx chunks = md5_of (concat chunks)"
  unfolding md5_sum_def using md5_util.final_updates [OF assms(1)] assms(2) by simp

lemma length_base16: "length (base16 data) = 2 * length data"
  by (induction data) (simp_all add: base16_def)

lemma length_md5_of: "length (md5_of m) = 16"
  by (simp add: md5_of_def split: prod.split)

lemma session_suffix:
  assumes "length front = 5" "algorithm = ''MD5'' \<or> 5 \<le> length algorithm"
  shows "is_session front algorithm = is_sess algorithm"
proof -
  have "is_session front ''MD5'' = is_sess ''MD5''"
    using assms(1) by (auto simp: is_session_def is_sess_def length_Suc_conv numeral_eq_Suc)
  then show ?thesis using assms by (auto simp: is_session_def is_sess_def)
qed

lemma take_hash: "take 32 (text_bytes (base16 (md5_of m))) = text_bytes (base16 (md5_of m))"
  by (simp add: length_base16 length_md5_of)

text \<open>Every text the hashes are taken of fits one call of \<^verbatim>\<open>MD5Update\<close>.\<close>

definition sizes_ok :: "auth \<Rightarrow> string \<Rightarrow> string \<Rightarrow> byte list \<Rightarrow> bool" where
  "sizes_ok a pwd meth content \<longleftrightarrow>
     (\<forall>s \<in> {au_username a, au_realm a, au_nonce a, au_cnonce a, au_qop a, au_uri a, pwd, meth}. length s < 2 ^ 31) \<and>
     length content < 2 ^ 31"

lemma length_show_nc: "length (show_nc n) = 8"
  by (simp add: show_nc_def show_hex8_props(1))

lemma size_facts:
  assumes "sizes_ok a pwd meth content"
  shows "length (au_username a) < 2 ^ 32" "length (au_realm a) < 2 ^ 32" "length (au_nonce a) < 2 ^ 32"
    "length (au_cnonce a) < 2 ^ 32" "length (au_qop a) < 2 ^ 32" "length (au_uri a) < 2 ^ 32" "length pwd < 2 ^ 32"
    "length meth < 2 ^ 32" "length content < 2 ^ 32"
  using assms by (auto simp: sizes_ok_def)

lemma A1_eq:
  assumes "length (md5_buffer ctx) = 64" "sizes_ok a pwd meth content" "is_session front (au_algorithm a) = is_sess (au_algorithm a)"
  shows "md5_A1 ctx front (au_algorithm a) (au_username a) pwd (au_realm a) (au_nonce a) (au_cnonce a) = rfc_H (rfc_A1 a pwd)"
  using size_facts [OF assms(2)] assms(3)
  by (simp add: md5_A1_def md5_sum_of [OF assms(1)] rfc_H_def rfc_A1_def length_md5_of Let_def)

lemma A2_eq:
  assumes "length (md5_buffer ctx) = 64" "sizes_ok a pwd meth content"
  shows "md5_A2 ctx meth (au_uri a) (au_qop a) (md5_entity ctx content) = rfc_H (rfc_A2 a meth content)"
  using size_facts [OF assms(2)]
  by (simp add: md5_A2_def md5_entity_def md5_sum_of [OF assms(1)] rfc_H_def rfc_A2_def length_base16 length_md5_of)

lemma response_eq:
  assumes "length (md5_buffer ctx) = 64" "sizes_ok a pwd meth content"
  shows "md5_response ctx (rfc_H (rfc_A1 a pwd)) (rfc_H (rfc_A2 a meth content)) (au_nonce a) (au_nc a) (au_cnonce a) (au_qop a) =
    rfc_response a pwd meth content"
  using size_facts [OF assms(2)]
  by (simp add: md5_response_def md5_sum_of [OF assms(1)] rfc_H_def rfc_response_def length_base16 length_md5_of length_show_nc)

lemma username_eq:
  assumes "length (md5_buffer ctx) = 64" "sizes_ok a pwd meth content"
  shows "md5_username ctx (au_username a) (au_realm a) = rfc_H (au_username a @ '':'' @ au_realm a)"
  using size_facts [OF assms(2)] by (simp add: md5_username_def md5_sum_of [OF assms(1)] rfc_H_def)

lemma http_header_auth_digest:
  assumes "length (md5_buffer ctx) = 64" "length front = 5" "sizes_ok a pwd meth content"
    and "au_scheme a = AUTH_DIGEST" "au_algorithm a = ''MD5'' \<or> 5 \<le> length (au_algorithm a)"
  shows "http_header_auth ctx front memory a pwd meth content bytes =
    http_header_authorization_write (rfc_credentials a pwd meth content) bytes"
  using A1_eq [OF assms(1,3) session_suffix [OF assms(2,5)]] A2_eq [OF assms(1,3)] response_eq [OF assms(1,3)]
    username_eq [OF assms(1,3)]
  by (simp add: http_header_auth_def assms(4) rfc_credentials_def Let_def)

lemma base16_no_quote: "DQUOTE \<notin> set (base16 data)"
proof -
  define D where "D = set ''0123456789abcdef''"
  have d: "''0123456789abcdef'' ! i \<in> D" if "i < 16" for i
  proof -
    have "length ''0123456789abcdef'' = 16" by simp
    then show ?thesis unfolding D_def using that by (metis nth_mem)
  qed
  have "unat (drop_bit 4 b) < 16" "unat (b AND 0xF) < 16" for b :: byte
  proof -
    have "unat (drop_bit 4 b) = unat b div 16" by (simp only: unat_drop_bit_eq) (simp add: drop_bit_eq_div)
    then show "unat (drop_bit 4 b) < 16" "unat (b AND 0xF) < 16"
      using four_bits(2) [of b] unsigned_less [of b, where ?'a = nat] by simp_all
  qed
  then have "set (base16 data) \<subseteq> D" unfolding base16_def by (auto simp: d)
  then show ?thesis by (auto simp: D_def)
qed

lemma rfc_response_text: "length (rfc_response a pwd meth content) = 32" "DQUOTE \<notin> set (rfc_response a pwd meth content)"
  by (simp_all only: rfc_response_def rfc_H_def length_base16 length_md5_of base16_no_quote) simp_all

lemma rfc_credentials_ok: "credentials a \<Longrightarrow> credentials (rfc_credentials a pwd meth content)"
  using rfc_response_text [of a pwd meth content] by (simp add: credentials_def rfc_credentials_def text_ok_def)

lemma length_digest_header: "credentials a \<Longrightarrow> length (digest_header a) < 2048"
  by (auto simp: digest_header_def digest_base_def digest_algorithm_def digest_opaque_def digest_qop_def quote_def credentials_def
      text_ok_def token_ok_def length_show_nc)

lemma length_base64_encode: "length (base64_encode bs) = (length bs + 2) div 3 * 4"
proof -
  have "length (base64_encode_table t bs) = (length bs + 2) div 3 * 4" for t
  proof (induction t bs rule: base64_encode_table.induct)
    case (1 t a b c rest)
    have "(5 + k) div 3 = Suc ((2 + k) div 3)" for k :: nat by presburger
    then show ?case using 1 by (simp add: add.commute)
  qed simp_all
  then show ?thesis by (simp add: base64_encode_def)
qed

lemma base64_encode_no_NUL: "0 \<notin> set (base64_encode bs)"
proof -
  have enc: "lookup base64_enc i \<noteq> 0" if "unat i < 64" for i
  proof -
    have "0 \<notin> set base64_enc" by code_simp
    moreover have "length base64_enc = 64" by simp
    ultimately show ?thesis using that by (metis lookup_def nth_mem)
  qed
  have eq: "EQ \<noteq> 0" by simp
  have "\<forall>x \<in> set (base64_encode_table base64_enc bs). x \<noteq> 0"
    by (induction base64_enc bs rule: base64_encode_table.induct)
      (simp_all only: base64_encode_table.simps list.set ball_simps enc [OF six_bits(1)] enc [OF six_bits(2)] enc [OF six_bits(3)]
        enc [OF six_bits(4)] enc [OF six_bits(5)] enc [OF six_bits(6)] eq not_False_eq_True simp_thms)
  then show ?thesis by (auto simp: base64_encode_def)
qed

text \<open>
  C8.  The digest credentials a client makes carry the response of RFC 2617: the server's parser gets back every
  member the client put in, and the response is the hash of the hashes of user, realm and password, of
  the nonces, and of method, uri and, for \<^verbatim>\<open>auth-int\<close>, the entity.
\<close>

theorem digest_auth_rfc2617:
  assumes "length (md5_buffer ctx) = 64" "length front = 5" "sizes_ok a pwd meth content"
    and "credentials a" "au_algorithm a = ''MD5'' \<or> 5 \<le> length (au_algorithm a)" "2048 \<le> bytes"
  shows "\<exists>s. http_header_auth ctx front memory a pwd meth content bytes = Inr (s, int (length s)) \<and>
    http_header_authorization s zero_auth = Inr (a\<lparr>au_response := rfc_response a pwd meth content\<rparr>, 0)"
proof -
  have a: "au_scheme a = AUTH_DIGEST" "au_userhash a = 0" using assms(4) by (auto simp: credentials_def)
  have "int (length (digest_header (rfc_credentials a pwd meth content))) < bytes"
    using length_digest_header [OF rfc_credentials_ok [OF assms(4)], of pwd meth content] assms(6) by linarith
  moreover have "rfc_credentials a pwd meth content = a\<lparr>au_response := rfc_response a pwd meth content\<rparr>"
    by (simp add: rfc_credentials_def a(2))
  ultimately show ?thesis
    using authorization_roundtrip_core [OF rfc_credentials_ok [OF assms(4)], of pwd meth content bytes]
      http_header_auth_digest [OF assms(1-3) a(1) assms(5)] by metis
qed

theorem digest_auth_rfc2617_witness:
  "\<exists>s. http_header_auth md5_fresh (replicate 5 NUL) [] mufasa ''Circle Of Life'' ''GET'' [] 4096 = Inr (s, int (length s)) \<and>
    http_header_authorization s zero_auth = Inr (mufasa\<lparr>au_response := rfc_response mufasa ''Circle Of Life'' ''GET'' []\<rparr>, 0)"
  by (rule digest_auth_rfc2617)
    (simp_all add: mufasa_def zero_auth_def credentials_def text_ok_def token_ok_def token_stops_def md5_fresh_def sizes_ok_def)

text \<open>
  Basic credentials made from a zeroed struct are the base 64 text of user name and password.
\<close>

lemma basic_auth_decodes:
  fixes a :: auth and pwd :: string
  defines "n \<equiv> length (au_username a) + 1 + length pwd"
  assumes "au_scheme a = AUTH_BASIC" "memory = replicate 256 NUL"
    and "(n + 2) div 3 * 4 + n div 57 < 256" "int ((n + 2) div 3 * 4 + 6) < bytes"
  shows "\<exists>t. http_header_auth ctx front memory a pwd meth content bytes = Inr (''Basic '' @ t, int (length t + 6)) \<and>
    base64_decode (text_bytes t) = text_bytes (au_username a @ '':'' @ pwd)"
proof -
  let ?s = "au_username a @ '':'' @ pwd" and ?t = "bytes_text (base64_encode (text_bytes (au_username a @ '':'' @ pwd)))"
  have n: "int (length ?s) = int n" by (simp add: n_def)
  have len: "length ?t = (n + 2) div 3 * 4"
    using length_base64_encode [of "text_bytes ?s"] by (simp add: bytes_text_def n_def add.commute)
  have "length ?t < 256" using len assms(4) by simp
  moreover have "NUL \<notin> set ?t" by (rule bytes_text_no_NUL [OF base64_encode_no_NUL])
  ultimately have mem: "takeWhile (\<lambda>c. c \<noteq> NUL) (?t @ drop (length ?t) memory) = ?t"
    unfolding assms(3) by (subst takeWhile_append2) (auto simp: takeWhile_eq_Nil_iff)
  have small: "int n + 1 < bytes" "\<not> (int n + 2) div 3 * 4 + int n div 57 + 1 > 256"
  proof -
    show "int n + 1 < bytes" using assms(5) by linarith
    have "(int n + 2) div 3 * 4 + int n div 57 = int ((n + 2) div 3 * 4 + n div 57)" by (simp add: zdiv_int)
    then show "\<not> (int n + 2) div 3 * 4 + int n div 57 + 1 > 256" using assms(4) by linarith
  qed
  have "http_header_auth ctx front memory a pwd meth content bytes =
      http_header_authorization_write (a\<lparr>au_response := ?t\<rparr>) bytes"
    unfolding http_header_auth_def assms(2) authentication.case Let_def n mem using small by simp
  also have "\<dots> = Inr (''Basic '' @ ?t, int (length ?t + 6))"
    using assms(2,5) len by (simp add: http_header_authorization_write_def append_fmt_fits)
  finally have w: "http_header_auth ctx front memory a pwd meth content bytes = Inr (''Basic '' @ ?t, int (length ?t + 6))" .
  have "length base64_enc = 64" by simp
  then have "base64_decode (text_bytes ?t) = text_bytes ?s"
    unfolding text_bytes_text base64_encode_def by (rule base64_decode_encode [OF inverts_64])
  then show ?thesis using w by blast
qed

definition aladdin :: auth where
  "aladdin = zero_auth\<lparr>au_scheme := AUTH_BASIC, au_username := ''Aladdin''\<rparr>"

lemma basic_auth_decodes_witness:
  "\<exists>t. http_header_auth md5_fresh [] (replicate 256 NUL) aladdin ''open sesame'' [] [] 64 = Inr (''Basic '' @ t, int (length t + 6)) \<and>
    base64_decode (text_bytes t) = text_bytes (au_username aladdin @ '':'' @ ''open sesame'')"
  by (rule basic_auth_decodes) (simp_all add: aladdin_def zero_auth_def)

end
