(* ===== verification/Xht.thy ===== *)
theory Xht
  imports CString "HOL-Library.Multiset"
begin

text \<open>
  The string hash table \<^verbatim>\<open>modules/mdns/src/libmdnsd/xht.c\<close>: an array of chains whose first
  node lives in the array.  A node whose value is NULL is free for reuse, but keeps its key.

  \<open>zen\<close> is the array; a chain is the list of its nodes, never empty.  \<open>xht_freed\<close> records the
  key/value pairs that the table passed to \<^verbatim>\<open>free\<close>: a node with the flag set owns its pair.
  The keys of nodes without the flag belong to the caller, who must not change them while they
  are in the table, so a key is the \<open>string\<close> itself.

  The contract of the table is the locale \<open>string_map\<close>; the client lemmas proved in it are used
  by the TXT record code.
\<close>

unbundle bit_operations_syntax

section \<open>The contract of a map from strings\<close>

text \<open>
  \<open>get\<close> reads, \<open>put\<close> writes; writing \<open>None\<close> removes.  The law is the one of function update.
\<close>

locale string_map =
  fixes inv :: "'m \<Rightarrow> bool"
    and get :: "'m \<Rightarrow> string \<Rightarrow> 'v option"
    and put :: "'m \<Rightarrow> string \<Rightarrow> 'v option \<Rightarrow> 'm"
  assumes inv_put: "inv m \<Longrightarrow> inv (put m k v)"
    and get_put: "inv m \<Longrightarrow> get (put m k v) = (get m)(k := v)"
begin

definition put_all :: "('m \<Rightarrow> (string \<times> 'v) list \<Rightarrow> 'm)" where
  "put_all m kvs = foldl (\<lambda>m (k, v). put m k (Some v)) m kvs"

lemma put_all_simps [simp]:
  "put_all m [] = m" "put_all m ((k, v) # kvs) = put_all (put m k (Some v)) kvs"
  by (simp_all add: put_all_def)

lemma put_all: "inv m \<Longrightarrow> inv (put_all m kvs) \<and> get (put_all m kvs) = get m ++ map_of (rev kvs)"
proof (induction kvs arbitrary: m)
  case (Cons kv kvs)
  obtain k v where kv: "kv = (k, v)" by fastforce
  have "get (put m k (Some v)) = (get m)(k \<mapsto> v)"
    using Cons.prems by (simp add: get_put)
  then have "get (put_all m (kv # kvs)) = (get m)(k \<mapsto> v) ++ map_of (rev kvs)"
    using Cons inv_put kv by (simp del: fun_upd_apply)
  then show ?case using Cons inv_put kv by (auto simp: map_add_def fun_eq_iff split: option.splits)
qed simp

text \<open>Filling an empty map with the entries of another one copies it.\<close>

lemma copy:
  assumes "inv m" "\<And>k. get m k = None" "distinct (map fst kvs)"
  shows "get (put_all m kvs) = map_of kvs"
proof -
  have "map_of (rev kvs) = map_of kvs"
    using assms(3) by (intro map_of_eqI) (auto simp: rev_map [symmetric])
  then show ?thesis using put_all [OF assms(1)] assms(2) by (auto simp: map_add_def split: option.splits)
qed

end

section \<open>The table\<close>

record 'v xhn =
  xn_flag :: bool
  xn_key :: "string option"
  xn_val :: "'v option"

record 'v xht =
  prime :: nat
  zen :: "'v xhn list list"
  xht_freed :: "(string option \<times> 'v option) list"

definition xhn0 :: "'v xhn" where
  "xhn0 = \<lparr>xn_flag = False, xn_key = None, xn_val = None\<rparr>"

text \<open>One character of the ELF hash, in the 64-bit \<^verbatim>\<open>unsigned long\<close>.\<close>

definition xhter_step :: "64 word \<Rightarrow> char \<Rightarrow> 64 word" where
  "xhter_step h c =
     (let h = push_bit 4 h + of_nat (ord c);
          g = h AND 0xF0000000;
          h = (if g \<noteq> 0 then h XOR drop_bit 24 g else h)
      in h AND NOT g)"

definition xhter :: "string \<Rightarrow> int" where
  "xhter s = to_int32 (uint (foldl xhter_step 0 s))"

fun xht_node_find :: "'v xhn list \<Rightarrow> string \<Rightarrow> nat option" where
  "xht_node_find [] key = None"
| "xht_node_find (n # ns) key =
     (if xn_key n = Some key then Some 0 else map_option Suc (xht_node_find ns key))"

definition xht_new :: "(nat \<Rightarrow> bool) \<Rightarrow> nat \<Rightarrow> 'v xht option" where
  "xht_new alloc p =
     (if \<not> alloc 16 \<or> \<not> alloc (32 * p) then None
      else Some \<lparr>prime = p, zen = replicate p [xhn0], xht_freed = []\<rparr>)"

text \<open>The index of a key: both operands of \<^verbatim>\<open>%\<close> are non-negative (see \<open>xhter_bounds\<close>).\<close>

definition xht_index :: "'v xht \<Rightarrow> string \<Rightarrow> nat" where
  "xht_index h key = nat (xhter key mod int (prime h))"

fun find_free :: "'v xhn list \<Rightarrow> nat option" where
  "find_free [] = None"
| "find_free (n # ns) = (if xn_val n = None then Some 0 else map_option Suc (find_free ns))"

text \<open>The slot that \<^verbatim>\<open>_xht_set\<close> writes: the node of the key, else a free one.\<close>

definition xht_slot :: "'v xhn list \<Rightarrow> string \<Rightarrow> nat option" where
  "xht_slot c key = (case xht_node_find c key of Some j \<Rightarrow> Some j | None \<Rightarrow> find_free c)"

definition xht_set_node ::
    "(nat \<Rightarrow> bool) \<Rightarrow> 'v xht \<Rightarrow> string \<Rightarrow> 'v option \<Rightarrow> bool \<Rightarrow> 'v xht" where
  "xht_set_node alloc h key val flag =
     (let i = xht_index h key; c = zen h ! i;
          node = \<lparr>xn_flag = flag, xn_key = Some key, xn_val = val\<rparr>
      in case xht_slot c key of
           Some j \<Rightarrow>
             h\<lparr>zen := (zen h)[i := c[j := node]],
               xht_freed := xht_freed h @ (if xn_flag (c ! j) then [(xn_key (c ! j), xn_val (c ! j))] else [])\<rparr>
         | None \<Rightarrow>
             if \<not> alloc 32 then h
             else h\<lparr>zen := (zen h)[i := hd c # node # tl c]\<rparr>)"

definition xht_set :: "(nat \<Rightarrow> bool) \<Rightarrow> 'v xht \<Rightarrow> string \<Rightarrow> 'v option \<Rightarrow> 'v xht" where
  "xht_set alloc h key val = xht_set_node alloc h key val False"

text \<open>
  \<^verbatim>\<open>xht_store\<close> copies \<open>klen\<close> bytes of the key and \<open>vlen\<close> bytes of the value; the copies are
  owned by the table.
\<close>

definition xht_store ::
    "(nat \<Rightarrow> bool) \<Rightarrow> string xht \<Rightarrow> string \<Rightarrow> nat \<Rightarrow> string \<Rightarrow> nat \<Rightarrow> string xht exec" where
  "xht_store alloc h key klen val vlen =
     (if klen = 0 then Inr h
      else if \<not> alloc (klen + 1) then Inr h
      else
        and_then (in_bounds (klen \<le> length key + 1)) (\<lambda>_.
        if \<not> alloc (vlen + 1) then Inr h
        else
          and_then (in_bounds (vlen \<le> length val + 1)) (\<lambda>_.
          Inr (xht_set_node alloc h (take klen key) (Some (take vlen val)) True))))"

definition xht_get :: "'v xht \<Rightarrow> string \<Rightarrow> 'v option" where
  "xht_get h key =
     (let c = zen h ! xht_index h key in
      case xht_node_find c key of None \<Rightarrow> None | Some j \<Rightarrow> xn_val (c ! j))"

text \<open>The pairs that a table owns, in the order in which \<^verbatim>\<open>xht_free\<close> frees them.\<close>

definition chain_owned :: "'v xhn list \<Rightarrow> (string option \<times> 'v option) list" where
  "chain_owned c = map (\<lambda>n. (xn_key n, xn_val n)) (filter xn_flag c)"

definition xht_free :: "'v xht \<Rightarrow> (string option \<times> 'v option) list" where
  "xht_free h = xht_freed h @ concat (map chain_owned (zen h))"

text \<open>The calls that \<^verbatim>\<open>xht_walk\<close> makes, in order.\<close>

definition live_entries :: "'v xhn list \<Rightarrow> (string \<times> 'v) list" where
  "live_entries c = concat (map (\<lambda>n.
     case (xn_key n, xn_val n) of (Some k, Some v) \<Rightarrow> [(k, v)] | _ \<Rightarrow> []) c)"

definition xht_walk :: "'v xht \<Rightarrow> (string \<times> 'v) list" where
  "xht_walk h = concat (map live_entries (zen h))"

section \<open>The hash\<close>

lemma xhter_step_low: "n \<in> {28..31} \<Longrightarrow> \<not> bit (xhter_step h c) n"
proof -
  assume "n \<in> {28..31}"
  then have "n = 28 \<or> n = 29 \<or> n = 30 \<or> n = 31" by auto
  then show ?thesis by (auto simp: xhter_step_def Let_def bit_simps)
qed

lemma xhter_low: "n \<in> {28..31} \<Longrightarrow> \<not> bit (foldl xhter_step 0 s) n"
  by (induction s rule: rev_induct) (simp_all add: xhter_step_low)

lemma xhter_bounds: "0 \<le> xhter s" "xhter s < 2 ^ 28"
proof -
  let ?u = "uint (foldl xhter_step 0 s)"
  have low: "\<not> bit ?u n" if "n \<in> {28..31}" for n
    using xhter_low [OF that, of s] by (simp add: bit_uint_iff)
  have "xhter s = take_bit 28 ?u"
    unfolding xhter_def to_int32_def
  proof (rule bit_eqI)
    fix n
    show "bit (signed_take_bit 31 ?u) n = bit (take_bit 28 ?u) n"
      using low [of n] low [of 31] by (cases "n < 28"; cases "n < 31") (auto simp: bit_simps min_def)
  qed
  then show "0 \<le> xhter s" "xhter s < 2 ^ 28" using take_bit_int_less_exp [of 28 ?u] by simp_all
qed

section \<open>Chains\<close>

definition chain_keys :: "'v xhn list \<Rightarrow> string list" where
  "chain_keys c = List.map_filter xn_key c"

lemma chain_keys_simps [simp]:
  "chain_keys [] = []"
  "chain_keys (n # ns) = (case xn_key n of None \<Rightarrow> chain_keys ns | Some k \<Rightarrow> k # chain_keys ns)"
  "chain_keys (c @ d) = chain_keys c @ chain_keys d"
  by (auto simp: chain_keys_def map_filter_def split: option.splits)

lemma set_chain_keys: "k \<in> set (chain_keys c) \<longleftrightarrow> (\<exists>n \<in> set c. xn_key n = Some k)"
  by (induction c) (auto split: option.splits)

definition chain_ok :: "'v xhn list \<Rightarrow> bool" where
  "chain_ok c \<longleftrightarrow> c \<noteq> [] \<and> distinct (chain_keys c)"

lemma node_find_Some: "xht_node_find c key = Some j \<Longrightarrow> j < length c \<and> xn_key (c ! j) = Some key"
  by (induction c arbitrary: j) (auto split: if_splits)

lemma node_find_None: "xht_node_find c key = None \<longleftrightarrow> key \<notin> set (chain_keys c)"
  by (induction c) (auto split: option.splits)

lemma find_free_Some: "find_free c = Some j \<Longrightarrow> j < length c \<and> xn_val (c ! j) = None"
  by (induction c arbitrary: j) (auto split: if_splits)

definition chain_get :: "'v xhn list \<Rightarrow> string \<Rightarrow> 'v option" where
  "chain_get c key = (case xht_node_find c key of None \<Rightarrow> None | Some j \<Rightarrow> xn_val (c ! j))"

lemma chain_get_Cons:
  "chain_get (n # ns) key = (if xn_key n = Some key then xn_val n else chain_get ns key)"
  by (simp add: chain_get_def split: option.splits)

lemma chain_get_absent: "key \<notin> set (chain_keys c) \<Longrightarrow> chain_get c key = None"
  by (simp add: chain_get_def node_find_None [THEN iffD2])

lemma chain_get_append:
  "chain_get (c @ d) key = (if key \<in> set (chain_keys c) then chain_get c key else chain_get d key)"
  by (induction c) (auto simp: chain_get_Cons split: option.splits)

text \<open>What \<^verbatim>\<open>_xht_set\<close> does to one chain, when its allocation succeeds.\<close>

definition chain_put :: "'v xhn list \<Rightarrow> string \<Rightarrow> 'v xhn \<Rightarrow> 'v xhn list" where
  "chain_put c key node = (case xht_slot c key of Some j \<Rightarrow> c[j := node] | None \<Rightarrow> hd c # node # tl c)"

text \<open>Either the new node replaces one that has the key or is free, or it follows the head.\<close>

lemma chain_put_cases [consumes 1, case_names replace insert]:
  assumes "chain_ok c"
  obtains xs n ys where "c = xs @ n # ys" "chain_put c key node = xs @ node # ys"
      "xht_slot c key = Some (length xs)"
      "key \<notin> set (chain_keys (xs @ ys))" "xn_key n = Some key \<or> xn_val n = None"
  | n ns where "c = n # ns" "chain_put c key node = n # node # ns" "key \<notin> set (chain_keys c)"
      "xht_slot c key = None"
proof (cases "xht_slot c key")
  case None
  obtain n ns where "c = n # ns" using assms by (cases c) (auto simp: chain_ok_def)
  moreover have "key \<notin> set (chain_keys c)"
    using None node_find_None [of c key] by (auto simp: xht_slot_def split: option.splits)
  ultimately show ?thesis using None by (intro that(2)) (simp_all add: chain_put_def)
next
  case (Some j)
  then have j: "j < length c" "xn_key (c ! j) = Some key \<or> xn_val (c ! j) = None \<and> key \<notin> set (chain_keys c)"
    using node_find_Some [of c key j] find_free_Some [of c j] node_find_None [of c key]
    by (auto simp: xht_slot_def split: option.splits)
  then have c: "c = take j c @ c ! j # drop (Suc j) c" by (simp add: id_take_nth_drop)
  have "distinct (chain_keys (take j c @ c ! j # drop (Suc j) c))" using assms c by (simp add: chain_ok_def)
  then have "key \<notin> set (chain_keys (take j c @ drop (Suc j) c))"
    using j(2) arg_cong [OF c, of "\<lambda>c. set (chain_keys c)"] by (auto split: option.splits)
  then show ?thesis using c j Some
    by (intro that(1) [of "take j c" "c ! j" "drop (Suc j) c"])
      (auto simp: chain_put_def upd_conv_take_nth_drop)
qed

lemma chain_put_ok:
  assumes "chain_ok c" and "xn_key node = Some key"
  shows "chain_ok (chain_put c key node)"
  using assms(1)
proof (cases rule: chain_put_cases [where key = key and node = node])
  case (replace xs n ys)
  then show ?thesis using assms by (auto simp: chain_ok_def split: option.splits)
next
  case (insert n ns)
  then show ?thesis using assms by (auto simp: chain_ok_def split: option.splits)
qed

lemma chain_get_put:
  assumes "chain_ok c" and "xn_key node = Some key"
  shows "chain_get (chain_put c key node) = (chain_get c)(key := xn_val node)"
  using assms(1)
proof (cases rule: chain_put_cases [where key = key and node = node])
  case (replace xs n ys)
  have "distinct (chain_keys (xs @ n # ys))" using replace assms(1) by (simp add: chain_ok_def)
  then show ?thesis using replace assms(2) chain_get_absent
    by (auto simp: fun_eq_iff chain_get_append chain_get_Cons split: option.splits)
next
  case (insert n ns)
  then show ?thesis using assms(2) by (auto simp: fun_eq_iff chain_get_Cons split: option.splits)
qed

lemma set_chain_put: "chain_ok c \<Longrightarrow> set (chain_put c key node) \<subseteq> insert node (set c)"
  by (cases rule: chain_put_cases [where key = key and node = node]) auto

section \<open>The table as a map\<close>

definition bucket_ok :: "'v xht \<Rightarrow> nat \<Rightarrow> 'v xhn list \<Rightarrow> bool" where
  "bucket_ok h i c \<longleftrightarrow> chain_ok c \<and> (\<forall>k \<in> set (chain_keys c). xht_index h k = i)"

definition xht_ok :: "'v xht \<Rightarrow> bool" where
  "xht_ok h \<longleftrightarrow> 0 < prime h \<and> length (zen h) = prime h \<and> (\<forall>i < prime h. bucket_ok h i (zen h ! i))"

lemma bucket_put:
  assumes "bucket_ok h (xht_index h key) c" and "xn_key node = Some key"
  shows "bucket_ok h (xht_index h key) (chain_put c key node)"
proof -
  have "set (chain_keys (chain_put c key node)) \<subseteq> insert key (set (chain_keys c))"
    using set_chain_put [of c key node] assms by (fastforce simp: bucket_ok_def set_chain_keys)
  then show ?thesis using assms chain_put_ok [of c node key] unfolding bucket_ok_def by blast
qed

lemma bucket_ok_prime: "prime h' = prime h \<Longrightarrow> bucket_ok h' i c = bucket_ok h i c"
  by (simp add: bucket_ok_def xht_index_def)

lemma xht_index_less: "0 < prime h \<Longrightarrow> xht_index h k < prime h"
  by (simp add: xht_index_def nat_less_iff)

lemma xht_index_prime: "prime h' = prime h \<Longrightarrow> xht_index h' k = xht_index h k"
  by (simp add: xht_index_def)

lemma xht_get_chain: "xht_get h k = chain_get (zen h ! xht_index h k) k"
  by (simp add: xht_get_def chain_get_def Let_def)

lemma xht_set_node_zen:
  "alloc 32 \<Longrightarrow> prime (xht_set_node alloc h key val flag) = prime h \<and>
   zen (xht_set_node alloc h key val flag) = (zen h)[xht_index h key :=
     chain_put (zen h ! xht_index h key) key \<lparr>xn_flag = flag, xn_key = Some key, xn_val = val\<rparr>]"
  by (simp add: xht_set_node_def chain_put_def Let_def split: option.splits)

lemma xht_set_node_ok:
  assumes "xht_ok h"
  shows "xht_ok (xht_set_node alloc h key val flag)"
proof (cases "alloc 32 \<or> xht_slot (zen h ! xht_index h key) key \<noteq> None")
  case True
  let ?i = "xht_index h key"
  let ?c = "chain_put (zen h ! ?i) key \<lparr>xn_flag = flag, xn_key = Some key, xn_val = val\<rparr>"
  have z: "prime (xht_set_node alloc h key val flag) = prime h"
    "zen (xht_set_node alloc h key val flag) = (zen h)[?i := ?c]"
    using True by (auto simp: xht_set_node_def chain_put_def Let_def split: option.splits)
  have i: "?i < prime h" using assms xht_index_less by (auto simp: xht_ok_def)
  then have "bucket_ok h ?i ?c" using assms by (intro bucket_put) (auto simp: xht_ok_def)
  then show ?thesis using assms i unfolding xht_ok_def z bucket_ok_prime [OF z(1)]
    by (auto simp: nth_list_update)
next
  case False
  then have "xht_set_node alloc h key val flag = h"
    by (simp add: xht_set_node_def Let_def)
  then show ?thesis using assms by simp
qed

lemma xht_get_set_node:
  assumes "xht_ok h" and "alloc 32"
  shows "xht_get (xht_set_node alloc h key val flag) = (xht_get h)(key := val)"
proof
  fix k
  let ?i = "xht_index h key"
  have i: "?i < length (zen h)" using assms xht_index_less [of h key] by (auto simp: xht_ok_def)
  then have ok: "chain_ok (zen h ! ?i)" using assms(1) by (auto simp: xht_ok_def bucket_ok_def)
  show "xht_get (xht_set_node alloc h key val flag) k = ((xht_get h)(key := val)) k"
    using xht_set_node_zen [of alloc h key val flag] assms i
      xht_index_prime [of "xht_set_node alloc h key val flag" h k]
    by (cases "xht_index h k = ?i") (auto simp: xht_get_chain chain_get_put [OF ok])
qed

lemma xht_new_ok: "xht_new alloc p = Some h \<Longrightarrow> 0 < p \<Longrightarrow> xht_ok h \<and> xht_get h = (\<lambda>_. None)"
  using xht_index_less [of h]
  by (auto simp: xht_new_def xht_ok_def bucket_ok_def chain_ok_def xhn0_def xht_get_def fun_eq_iff Let_def split: if_splits)

text \<open>The contract, with an allocator that does not fail.\<close>

interpretation xht: string_map "xht_ok" "xht_get" "\<lambda>h k v. xht_set (\<lambda>_. True) h k v"
  by unfold_locales (simp_all add: xht_set_def xht_set_node_ok xht_get_set_node)

lemma xht_new_some: "alloc 16 \<Longrightarrow> alloc (32 * p) \<Longrightarrow> \<exists>h. xht_new alloc p = Some h"
  by (simp add: xht_new_def)

section \<open>The walk\<close>

lemma live_entries_simps [simp]:
  "live_entries [] = []"
  "live_entries (n # ns) =
     (case (xn_key n, xn_val n) of (Some k, Some v) \<Rightarrow> [(k, v)] | _ \<Rightarrow> []) @ live_entries ns"
  by (simp_all add: live_entries_def)

lemma live_keys: "set (map fst (live_entries c)) \<subseteq> set (chain_keys c)"
  by (induction c) (auto split: option.splits)

lemma live_entries_get: "distinct (chain_keys c) \<Longrightarrow> map_of (live_entries c) = chain_get c"
proof (induction c)
  case (Cons n ns)
  then show ?case using live_keys [of ns]
    by (fastforce simp: fun_eq_iff chain_get_Cons chain_get_absent split: option.splits)
qed (simp add: chain_get_def fun_eq_iff)

lemma live_distinct: "distinct (chain_keys c) \<Longrightarrow> distinct (map fst (live_entries c))"
proof (induction c)
  case (Cons n ns)
  then show ?case using live_keys [of ns] by (auto split: option.splits)
qed simp

lemma buckets_get:
  assumes "\<forall>i < length cs. chain_ok (cs ! i) \<and> (\<forall>k \<in> set (chain_keys (cs ! i)). f k = i + b)"
  shows "distinct (map fst (concat (map live_entries cs))) \<and>
    (\<forall>k. map_of (concat (map live_entries cs)) k =
      (if b \<le> f k \<and> f k < b + length cs then chain_get (cs ! (f k - b)) k else None))"
  using assms
proof (induction cs arbitrary: b)
  case (Cons c cs)
  have c: "chain_ok c" "\<forall>k \<in> set (chain_keys c). f k = b" using Cons.prems by force+
  have "\<forall>i < length cs. chain_ok (cs ! i) \<and> (\<forall>k \<in> set (chain_keys (cs ! i)). f k = i + Suc b)"
    using Cons.prems by (auto simp: All_less_Suc2)
  note IH = Cons.IH [OF this]
  let ?tl = "concat (map live_entries cs)"
  have tl: "f k \<ge> Suc b" if "k \<in> set (map fst ?tl)" for k
  proof (rule ccontr)
    assume "\<not> Suc b \<le> f k"
    then have "map_of ?tl k = None" using IH by simp
    then show False using that unfolding map_of_eq_None_iff by simp
  qed
  have "distinct (map fst (live_entries c @ ?tl))"
    using IH tl live_distinct [of c] live_keys [of c] c by (fastforce simp: chain_ok_def)
  moreover have "map_of (live_entries c @ ?tl) k =
      (if b \<le> f k \<and> f k < b + length (c # cs) then chain_get ((c # cs) ! (f k - b)) k else None)" for k
  proof (cases "f k = b")
    case True
    then show ?thesis using live_entries_get [of c] c IH
      by (auto simp: map_add_def chain_ok_def split: option.splits)
  next
    case False
    then have "chain_get c k = None" using c chain_get_absent by blast
    then show ?thesis using live_entries_get [of c] c IH False
      by (auto simp: map_add_def chain_ok_def nth_Cons' split: option.splits)
  qed
  ultimately show ?case by simp
qed auto

text \<open>A walk visits every entry of the map once.\<close>

lemma xht_walk_entries:
  assumes "xht_ok h"
  shows "distinct (map fst (xht_walk h))" "map_of (xht_walk h) = xht_get h"
  using buckets_get [of "zen h" "xht_index h" 0] assms xht_index_less [of h]
  by (auto simp: xht_walk_def xht_ok_def bucket_ok_def xht_get_chain fun_eq_iff)

section \<open>Ownership\<close>

text \<open>Every pair that comes into the table with the flag is freed once: on replacement or at the end.\<close>

definition xht_owned :: "'v xht \<Rightarrow> (string option \<times> 'v option) multiset" where
  "xht_owned h = mset (xht_free h)"

lemma chain_owned_simps [simp]:
  "chain_owned [] = []" "chain_owned (c @ d) = chain_owned c @ chain_owned d"
  "chain_owned (n # ns) = (if xn_flag n then [(xn_key n, xn_val n)] else []) @ chain_owned ns"
  by (simp_all add: chain_owned_def)

lemma concat_update:
  "i < length cs \<Longrightarrow>
   mset (concat (map f (cs[i := c]))) + mset (f (cs ! i)) = mset (concat (map f cs)) + mset (f c)"
proof (induction cs arbitrary: i)
  case (Cons d cs)
  then show ?case by (cases i) (auto simp: ac_simps)
qed simp

lemma xht_set_node_owned:
  assumes "xht_ok h" and "alloc 32"
  shows "xht_owned (xht_set_node alloc h key val flag) =
    xht_owned h + (if flag then {#(Some key, val)#} else {#})"
proof -
  let ?i = "xht_index h key" and ?node = "\<lparr>xn_flag = flag, xn_key = Some key, xn_val = val\<rparr>"
  have i: "?i < length (zen h)" using assms xht_index_less [of h key] by (auto simp: xht_ok_def)
  note upd = concat_update [OF i, of chain_owned]
  have "chain_ok (zen h ! ?i)" using assms(1) i by (auto simp: xht_ok_def bucket_ok_def)
  then show ?thesis
  proof (cases rule: chain_put_cases [where key = key and node = ?node])
    case (replace xs n ys)
    then show ?thesis using upd [of "xs @ ?node # ys"]
      by (auto simp: xht_owned_def xht_free_def xht_set_node_def Let_def chain_put_def ac_simps)
  next
    case (insert n ns)
    then show ?thesis using upd [of "n # ?node # ns"] assms(2)
      by (auto simp: xht_owned_def xht_free_def xht_set_node_def Let_def ac_simps)
  qed
qed

section \<open>Sequences of calls\<close>

text \<open>A call stores a value (\<open>None\<close> removes), with or without ownership.\<close>

definition xht_run :: "(nat \<Rightarrow> bool) \<Rightarrow> 'v xht \<Rightarrow> (string \<times> 'v option \<times> bool) list \<Rightarrow> 'v xht" where
  "xht_run alloc h ops = foldl (\<lambda>h (k, v, owned). xht_set_node alloc h k v owned) h ops"

lemma xht_run_simps [simp]:
  "xht_run alloc h [] = h"
  "xht_run alloc h ((k, v, fl) # ops) = xht_run alloc (xht_set_node alloc h k v fl) ops"
  by (simp_all add: xht_run_def)

lemma xht_run_ok: "xht_ok h \<Longrightarrow> xht_ok (xht_run alloc h ops)"
  by (induction ops arbitrary: h) (auto simp: xht_set_node_ok)

lemma xht_run_get:
  "xht_ok h \<Longrightarrow> alloc 32 \<Longrightarrow>
   xht_get (xht_run alloc h ops) = foldl (\<lambda>m (k, v, _). m(k := v)) (xht_get h) ops"
  by (induction ops arbitrary: h) (auto simp: xht_set_node_ok xht_get_set_node)

lemma xht_run_owned:
  "xht_ok h \<Longrightarrow> alloc 32 \<Longrightarrow> xht_owned (xht_run alloc h ops) =
     xht_owned h + mset (map (\<lambda>(k, v, _). (Some k, v)) (filter (\<lambda>(_, _, fl). fl) ops))"
  by (induction ops arbitrary: h) (auto simp: xht_set_node_ok xht_set_node_owned)

lemma xht_new_owned: "xht_new alloc p = Some h \<Longrightarrow> xht_owned h = {#}"
  by (auto simp: xht_new_def xht_owned_def xht_free_def xhn0_def chain_owned_def concat_replicate_trivial
      split: if_splits)

text \<open>
  The hash of any key is in the range of a non-negative \<^verbatim>\<open>int\<close>: bits 28 to 31 are
  cleared after every character, although the 64-bit accumulator can carry past bit 32.  So the
  remainder that indexes the table is never negative.
\<close>

lemma xhter_in_range: "0 \<le> xhter s \<and> xhter s < 2 ^ 28"
  using xhter_bounds by blast

text \<open>
  C14.  The table refines a finite map: after any calls on a new table, reading a key gives what the
  last call for that key stored, and a walk visits every present key exactly once.
\<close>

theorem xht_refines_map:
  assumes "xht_new alloc p = Some h" and "0 < p" and "alloc 32"
  shows "xht_get (xht_run alloc h ops) = foldl (\<lambda>m (k, v, _). m(k := v)) Map.empty ops \<and>
    map_of (xht_walk (xht_run alloc h ops)) = xht_get (xht_run alloc h ops) \<and>
    distinct (map fst (xht_walk (xht_run alloc h ops)))"
  using xht_new_ok [OF assms(1,2)] assms(3) xht_walk_entries [OF xht_run_ok [of h alloc ops]]
    xht_run_get [of h alloc ops] by simp

text \<open>
  Ownership: the pairs freed by replacements and by the final \<^verbatim>\<open>xht_free\<close> are exactly the
  owned pairs that were stored, each once.
\<close>

lemma xht_frees_once:
  assumes "xht_new alloc p = Some h" and "0 < p" and "alloc 32"
  shows "mset (xht_free (xht_run alloc h ops)) =
    mset (map (\<lambda>(k, v, _). (Some k, v)) (filter (\<lambda>(_, _, fl). fl) ops))"
  using xht_run_owned [of h alloc ops] xht_new_ok [OF assms(1,2)] assms(3) xht_new_owned [OF assms(1)]
  by (simp add: xht_owned_def)

lemmas xht_eval = xht_new_def xht_set_node_def xht_slot_def xht_get_def xht_walk_def xht_index_def
  xhter_def xhter_step_def xhn0_def to_int32_def Let_def

theorem xht_refines_map_witness:
  "\<exists>h. xht_new (\<lambda>_. True) 2 = Some h \<and>
     xht_get (xht_run (\<lambda>_. True) h [(''a'', Some 1, False), (''b'', Some 2, True), (''a'', None, False)]) ''b''
       = Some (2 :: nat)"
proof -
  obtain h :: "nat xht" where h: "xht_new (\<lambda>_. True) 2 = Some h" by (simp add: xht_new_def)
  show ?thesis
    using xht_refines_map [OF h, of "[(''a'', Some 1, False), (''b'', Some 2, True), (''a'', None, False)]"] h
    by simp
qed

lemma xht_frees_once_witness:
  "\<exists>h. xht_new (\<lambda>_. True) 2 = Some h \<and>
     mset (xht_free (xht_run (\<lambda>_. True) h [(''a'', Some 1, True), (''b'', Some 2, False), (''a'', Some 3, True)]))
       = {#(Some ''a'', Some (1 :: nat)), (Some ''a'', Some 3)#}"
proof -
  obtain h :: "nat xht" where h: "xht_new (\<lambda>_. True) 2 = Some h" by (simp add: xht_new_def)
  show ?thesis
    using xht_frees_once [OF h, of "[(''a'', Some 1, True), (''b'', Some 2, False), (''a'', Some 3, True)]"] h
    by simp
qed

end
