(* ===== verification/Sdtxt.thy ===== *)
theory Sdtxt
  imports Xht
begin

text \<open>
  DNS-SD TXT records, \<^verbatim>\<open>modules/mdns/src/libmdnsd/sdtxt.c\<close>: a table of key/value strings
  is printed as a sequence of length-prefixed \<^verbatim>\<open>key=value\<close> blocks, and read back.

  The bytes are characters; \<open>char_of n\<close> is the byte that the assignment of a length to an
  \<^verbatim>\<open>unsigned char\<close> stores, \<open>n mod 256\<close>.
\<close>

section \<open>Printing\<close>

definition sd2txt_len :: "string \<Rightarrow> string \<Rightarrow> nat" where
  "sd2txt_len key val = (if val = [] then length key else length key + length val + 1)"

definition sd2txt_count :: "nat \<Rightarrow> string \<times> string \<Rightarrow> nat" where
  "sd2txt_count len kv = len + sd2txt_len (fst kv) (snd kv) + 1"

text \<open>The bytes that one call of the walker writes at the cursor.\<close>

definition sd2txt_block :: "string \<times> string \<Rightarrow> string" where
  "sd2txt_block kv = char_of (sd2txt_len (fst kv) (snd kv)) # fst kv @
     (if snd kv = [] then [] else CHR ''='' # snd kv)"

text \<open>\<open>out\<close> is what lies before the cursor in a buffer of \<open>size\<close> bytes.\<close>

definition sd2txt_write :: "nat \<Rightarrow> string \<Rightarrow> string \<times> string \<Rightarrow> string exec" where
  "sd2txt_write n out kv =
     and_then (in_bounds (length out + length (sd2txt_block kv) \<le> n)) (\<lambda>_. Inr (out @ sd2txt_block kv))"

fun sd2txt_walk :: "nat \<Rightarrow> string \<Rightarrow> (string \<times> string) list \<Rightarrow> string exec" where
  "sd2txt_walk n out [] = Inr out"
| "sd2txt_walk n out (kv # kvs) = and_then (sd2txt_write n out kv) (\<lambda>out. sd2txt_walk n out kvs)"

text \<open>The bytes with their number, or \<open>None\<close> when the allocation fails.\<close>

definition sd2txt :: "(nat \<Rightarrow> bool) \<Rightarrow> string xht \<Rightarrow> (string \<times> nat) option exec" where
  "sd2txt alloc h =
     (let len = foldl sd2txt_count 0 (xht_walk h) in
      if len = 0 then Inr (if alloc 1 then Some ([NUL], 1) else None)
      else if \<not> alloc len then Inr None
      else and_then (sd2txt_walk len [] (xht_walk h)) (\<lambda>out. Inr (Some (out, len))))"

section \<open>Reading\<close>

text \<open>
  The loop: \<open>mem\<close> is the memory object from the cursor on, \<open>len\<close> the variable of that name.  Every
  iteration takes the length of the block off \<open>len\<close> but not the length byte itself.  A table that
  could not be allocated is NULL, which \<^verbatim>\<open>xht_store\<close> ignores.
\<close>

definition txt2sd_store ::
    "(nat \<Rightarrow> bool) \<Rightarrow> string xht option \<Rightarrow> string \<Rightarrow> string \<Rightarrow> string xht option exec" where
  "txt2sd_store alloc h k v = (case h of
       None \<Rightarrow> Inr None
     | Some h \<Rightarrow> and_then (xht_store alloc h k (length k) v (length v)) (\<lambda>h. Inr (Some h)))"

function txt2sd_loop :: "(nat \<Rightarrow> bool) \<Rightarrow> string \<Rightarrow> int \<Rightarrow> string xht option \<Rightarrow> string xht option exec" where
  "txt2sd_loop alloc mem len h =
     and_then (in_bounds (mem \<noteq> [])) (\<lambda>_.
     let n = ord (hd mem) in
     if \<not> (int n \<le> len \<and> len > 0) then Inr h
     else if n = 0 then Inr h
     else
       and_then (in_bounds (n < length mem)) (\<lambda>_.
       let key = takeWhile (\<lambda>c. c \<noteq> NUL) (take n (tl mem)) in
       and_then (case strchr key (CHR ''='') of
           None \<Rightarrow> Inr h
         | Some eq \<Rightarrow>
             let k = take (length key - length eq) key; v = tl eq
             in txt2sd_store alloc h k v)
         (\<lambda>h. txt2sd_loop alloc (drop (n + 1) mem) (len - int n) h)))"
  by pat_completeness auto
termination
  by (relation "measure (\<lambda>(alloc, mem, len, h). length mem)") auto

declare txt2sd_loop.simps [simp del]

definition txt2sd :: "(nat \<Rightarrow> bool) \<Rightarrow> string \<Rightarrow> int \<Rightarrow> string xht option exec" where
  "txt2sd alloc mem len =
     (if len = 0 then Inr None
      else and_then (in_bounds (mem \<noteq> [])) (\<lambda>_.
        if hd mem = NUL then Inr None else txt2sd_loop alloc mem len (xht_new alloc 23)))"

section \<open>Printing fills the buffer exactly\<close>

lemma block_length: "length (sd2txt_block kv) = sd2txt_len (fst kv) (snd kv) + 1"
  by (simp add: sd2txt_block_def sd2txt_len_def)

lemma count_blocks: "foldl sd2txt_count n kvs = n + length (concat (map sd2txt_block kvs))"
  by (induction kvs arbitrary: n) (simp_all add: sd2txt_count_def block_length)

lemma walk_blocks:
  "length out + length (concat (map sd2txt_block kvs)) \<le> n \<Longrightarrow>
   sd2txt_walk n out kvs = Inr (out @ concat (map sd2txt_block kvs))"
  by (induction kvs arbitrary: out) (simp_all add: sd2txt_write_def)

lemma sd2txt_blocks:
  "sd2txt alloc h =
     (let out = concat (map sd2txt_block (xht_walk h)) in
      if xht_walk h = [] then Inr (if alloc 1 then Some ([NUL], 1) else None)
      else Inr (if alloc (length out) then Some (out, length out) else None))"
proof (cases "xht_walk h = []")
  case False
  then obtain kv kvs where "xht_walk h = kv # kvs" by (cases "xht_walk h") auto
  moreover have "sd2txt_block kv \<noteq> []" by (simp add: sd2txt_block_def)
  moreover have "sd2txt_count 0 kv = length (sd2txt_block kv)" by (simp add: sd2txt_count_def block_length)
  ultimately show ?thesis by (simp add: sd2txt_def count_blocks walk_blocks sd2txt_write_def Let_def)
qed (simp add: sd2txt_def)

section \<open>Reading what was printed\<close>

text \<open>The entries that survive: a key that is not empty and has no equals sign, a value that is not empty.\<close>

definition entry_ok :: "string \<times> string \<Rightarrow> bool" where
  "entry_ok kv \<longleftrightarrow> fst kv \<noteq> [] \<and> snd kv \<noteq> [] \<and> CHR ''='' \<notin> set (fst kv) \<and>
     NUL \<notin> set (fst kv) \<and> NUL \<notin> set (snd kv) \<and> length (fst kv) + length (snd kv) < 255"

lemma loop_block:
  assumes "entry_ok kv" and "int (length (sd2txt_block kv)) - 1 \<le> len"
  shows "txt2sd_loop (\<lambda>_. True) (sd2txt_block kv @ mem) len (Some h) =
    txt2sd_loop (\<lambda>_. True) mem (len - int (length (sd2txt_block kv)) + 1)
      (Some (xht_set_node (\<lambda>_. True) h (fst kv) (Some (snd kv)) True))"
proof -
  obtain k v where kv: "kv = (k, v)" by fastforce
  let ?n = "length k + length v + 1" and ?line = "k @ CHR ''='' # v"
  have b: "sd2txt_block (k, v) = char_of ?n # ?line" and n: "ord (char_of ?n) = ?n"
    using assms(1) kv by (simp_all add: sd2txt_block_def sd2txt_len_def entry_ok_def)
  have key: "takeWhile (\<lambda>c. c \<noteq> NUL) ?line = ?line"
    using assms(1) kv by (auto simp: entry_ok_def takeWhile_eq_all_conv)
  have eq: "strchr ?line (CHR ''='') = Some (CHR ''='' # v)"
    using assms(1) kv by (auto simp: entry_ok_def strchr_def intro!: find_suffix_append)
  show ?thesis
    using assms unfolding kv
    by (subst txt2sd_loop.simps)
      (simp add: b n key eq txt2sd_store_def xht_store_def entry_ok_def Let_def algebra_simps)
qed

lemma loop_blocks:
  assumes "\<forall>kv \<in> set kvs. entry_ok kv" and "int (length (concat (map sd2txt_block kvs))) \<le> len"
  shows "\<exists>left. 0 \<le> left \<and> (kvs \<noteq> [] \<longrightarrow> 0 < left) \<and>
    txt2sd_loop (\<lambda>_. True) (concat (map sd2txt_block kvs) @ mem) len (Some h) =
    txt2sd_loop (\<lambda>_. True) mem left
      (Some (foldl (\<lambda>h (k, v). xht_set_node (\<lambda>_. True) h k (Some v) True) h kvs))"
  using assms
proof (induction kvs arbitrary: len h)
  case Nil
  then show ?case by (auto intro!: exI [of _ len])
next
  case (Cons kv kvs)
  have len: "int (length (sd2txt_block kv)) - 1 \<le> len" using Cons.prems(2) by simp
  have kv: "entry_ok kv" using Cons.prems(1) by simp
  show ?case
  proof (cases "kvs = []")
    case True
    then show ?thesis using loop_block [OF kv len, of mem h] Cons.prems(2)
      by (intro exI [of _ "len - int (length (sd2txt_block kv)) + 1"]) (simp add: case_prod_beta)
  next
    case False
    have "int (length (concat (map sd2txt_block kvs))) \<le> len - int (length (sd2txt_block kv)) + 1"
      using Cons.prems(2) by simp
    from Cons.IH [OF _ this, of "xht_set_node (\<lambda>_. True) h (fst kv) (Some (snd kv)) True"] show ?thesis
      using loop_block [OF kv len, of "concat (map sd2txt_block kvs) @ mem" h] False Cons.prems(1)
      by (simp add: case_prod_beta)
  qed
qed

text \<open>Both ends of the reading of a printed record.\<close>

lemma txt2sd_blocks:
  assumes "xht_walk h \<noteq> []" and "\<forall>kv \<in> set (xht_walk h). entry_ok kv"
    and "sd2txt (\<lambda>_. True) h = Inr (Some (out, n))"
  shows "\<exists>left h0. 0 < left \<and> xht_new (\<lambda>_. True) 23 = Some h0 \<and>
    txt2sd (\<lambda>_. True) (out @ mem) (int n) = txt2sd_loop (\<lambda>_. True) mem left
      (Some (foldl (\<lambda>h (k, v). xht_set_node (\<lambda>_. True) h k (Some v) True) h0 (xht_walk h)))"
proof -
  have out: "out = concat (map sd2txt_block (xht_walk h))" "n = length out"
    using assms(1,3) by (auto simp: sd2txt_blocks Let_def)
  obtain kv kvs where w: "xht_walk h = kv # kvs" using assms(1) by (cases "xht_walk h") auto
  then have kv: "entry_ok kv" using assms(2) by simp
  then have "ord (hd (sd2txt_block kv)) \<noteq> ord NUL" by (simp add: sd2txt_block_def sd2txt_len_def entry_ok_def)
  then have "hd (sd2txt_block kv) \<noteq> NUL" by (rule contrapos_nn) simp
  then have "hd (out @ mem) \<noteq> NUL" "n \<noteq> 0" "out @ mem \<noteq> []" using out w by (auto simp: sd2txt_block_def)
  moreover obtain h0 :: "string xht" where h0: "xht_new (\<lambda>_. True) 23 = Some h0"
    using xht_new_some [of "\<lambda>_. True"] by blast
  moreover note loop_blocks [OF assms(2), of "int n" mem h0]
  ultimately show ?thesis using assms(1) out by (auto simp: txt2sd_def)
qed

interpretation owned: string_map "xht_ok" "xht_get" "\<lambda>h k v. xht_set_node (\<lambda>_. True) h k v True"
  by unfold_locales (simp_all add: xht_set_node_ok xht_get_set_node)

text \<open>
  A TXT record reads back: the blocks that \<^verbatim>\<open>sd2txt\<close> prints for a table, followed by a zero
  byte, give \<^verbatim>\<open>txt2sd\<close> a table with the same entries.
\<close>

lemma sd2txt_txt2sd:
  assumes "xht_ok h" and "xht_walk h \<noteq> []" and "\<forall>kv \<in> set (xht_walk h). entry_ok kv"
    and "sd2txt (\<lambda>_. True) h = Inr (Some (out, n))"
  shows "\<exists>h'. txt2sd (\<lambda>_. True) (out @ NUL # rest) (int n) = Inr (Some h') \<and> xht_get h' = xht_get h"
proof -
  obtain left h0 where h0: "xht_new (\<lambda>_. True) 23 = Some h0"
    and "txt2sd (\<lambda>_. True) (out @ NUL # rest) (int n) = txt2sd_loop (\<lambda>_. True) (NUL # rest) left
      (Some (owned.put_all h0 (xht_walk h)))"
    using txt2sd_blocks [OF assms(2-4), of "NUL # rest"] by (auto simp: owned.put_all_def)
  then have "txt2sd (\<lambda>_. True) (out @ NUL # rest) (int n) = Inr (Some (owned.put_all h0 (xht_walk h)))"
    by (simp add: txt2sd_loop.simps)
  moreover have "xht_get (owned.put_all h0 (xht_walk h)) = xht_get h"
    using owned.copy [of h0 "xht_walk h"] xht_new_ok [OF h0] xht_walk_entries [OF assms(1)] by simp
  ultimately show ?thesis by blast
qed

text \<open>
  The loop's length bookkeeping is off by one byte per block: reading a record whose memory
  object ends with its last block, as \<^verbatim>\<open>sd2txt\<close> allocates it, reads the byte after the object.
\<close>

lemma txt2sd_reads_past_end:
  assumes "xht_walk h \<noteq> []" and "\<forall>kv \<in> set (xht_walk h). entry_ok kv"
    and "sd2txt (\<lambda>_. True) h = Inr (Some (out, n))"
  shows "txt2sd (\<lambda>_. True) out (int n) = Inl Out_of_bounds"
  using txt2sd_blocks [OF assms, of "[]"] by (auto simp: txt2sd_loop.simps [of _ "[]"])

text \<open>A table with one entry, for the examples.\<close>

definition one_entry :: "string xht" where
  "one_entry = xht_set_node (\<lambda>_. True) \<lparr>prime = 1, zen = [[xhn0]], xht_freed = []\<rparr> ''path'' (Some ''/'') False"

lemma one_entry: "xht_walk one_entry = [(''path'', ''/'')]" "xht_ok one_entry"
proof -
  have "xht_ok (\<lparr>prime = 1, zen = [[xhn0]], xht_freed = []\<rparr> :: string xht)"
    using xht_new_ok [of "\<lambda>_. True" 1 "\<lparr>prime = 1, zen = [[xhn0]], xht_freed = []\<rparr> :: string xht"] by (simp add: xht_new_def)
  then show "xht_ok one_entry" unfolding one_entry_def by (rule xht_set_node_ok)
qed (simp add: one_entry_def xht_set_node_def xht_slot_def xhn0_def xht_walk_def xht_index_def Let_def)

lemma one_entry_txt: "sd2txt (\<lambda>_. True) one_entry = Inr (Some (CHR 0x06 # ''path=/'', 7))"
  by (simp add: sd2txt_blocks one_entry sd2txt_block_def sd2txt_len_def Let_def char_of_def bit_iff_odd)

lemma sd2txt_txt2sd_witness:
  "\<exists>h'. txt2sd (\<lambda>_. True) (CHR 0x06 # ''path=/'' @ NUL # ''x'') 7 = Inr (Some h') \<and>
     xht_get h' = xht_get one_entry"
  using sd2txt_txt2sd [OF one_entry(2) _ _ one_entry_txt, of "''x''"] by (simp add: one_entry entry_ok_def)

lemma txt2sd_reads_past_end_witness:
  "txt2sd (\<lambda>_. True) (CHR 0x06 # ''path=/'') 7 = Inl Out_of_bounds"
  using txt2sd_reads_past_end [OF _ _ one_entry_txt] by (simp add: one_entry entry_ok_def)

end
