(* ===== verification/Dns1035.thy ===== *)
theory Dns1035
  imports HttpRequest
begin

text \<open>
  DNS messages, \<^verbatim>\<open>modules/mdns/src/libmdnsd/1035.c\<close>: the writer that compresses names against
  the labels already written, and the reader.

  \<^item> \<open>wire_message\<close> is a \<^verbatim>\<open>struct message\<close> under construction.  \<open>wm_wire\<close> is the part of
    \<^verbatim>\<open>_packet\<close> before \<^verbatim>\<open>_buf\<close> (empty while \<^verbatim>\<open>_buf\<close> is NULL); the rest of
    \<^verbatim>\<open>_packet\<close> is zero.  \<open>wm_labels\<close> are the offsets in \<^verbatim>\<open>_labels\<close>, \<^verbatim>\<open>_label\<close> their number.
  \<^item> \<open>dns_message\<close> is a parsed one.  The reader writes every name and every rdata once, at
    \<^verbatim>\<open>_packet + _len\<close>, and never over an earlier one, so a pointer to a name is the C string
    there; \<open>dm_len\<close> is \<^verbatim>\<open>_len\<close>.  A parse that answers 1 gives \<open>None\<close>: both callers drop the message.
  \<^item> \<open>pkt\<close> is the memory the reader is given; reading past it is the fault \<open>Overrun\<close>, storing past
    \<^verbatim>\<open>_packet\<close> is \<open>Out_of_bounds\<close>.  \<open>cap\<close> is the number of bytes that may be stored from
    \<^verbatim>\<open>_packet\<close> on.
  \<^item> \<open>sc\<close> says whether plain \<^verbatim>\<open>char\<close> is signed, as on x86.
\<close>

unbundle bit_operations_syntax

abbreviation (input) MAX_PACKET_LEN :: nat where "MAX_PACKET_LEN \<equiv> 65535"
abbreviation (input) MAX_NUM_LABELS :: nat where "MAX_NUM_LABELS \<equiv> 512"
abbreviation (input) QTYPE_A :: "16 word" where "QTYPE_A \<equiv> 1"
abbreviation (input) QTYPE_NS :: "16 word" where "QTYPE_NS \<equiv> 2"
abbreviation (input) QTYPE_CNAME :: "16 word" where "QTYPE_CNAME \<equiv> 5"
abbreviation (input) QTYPE_PTR :: "16 word" where "QTYPE_PTR \<equiv> 12"
abbreviation (input) QTYPE_TXT :: "16 word" where "QTYPE_TXT \<equiv> 16"
abbreviation (input) QTYPE_SRV :: "16 word" where "QTYPE_SRV \<equiv> 33"
abbreviation (input) QTYPE_ANY :: "16 word" where "QTYPE_ANY \<equiv> 255"

definition dot :: byte where
  "dot = 46"

section \<open>Integers on the wire\<close>

definition rd :: "byte list \<Rightarrow> nat \<Rightarrow> byte exec" where
  "rd pkt i = (if i < length pkt then Inr (pkt ! i) else Inl Overrun)"

definition net2short :: "byte list \<Rightarrow> nat \<Rightarrow> (16 word \<times> nat) exec" where
  "net2short pkt p =
     and_then (rd pkt p) (\<lambda>b0. and_then (rd pkt (p + 1)) (\<lambda>b1.
     Inr (push_bit 8 (ucast b0) OR ucast b1, p + 2)))"

definition net2long :: "byte list \<Rightarrow> nat \<Rightarrow> (64 word \<times> nat) exec" where
  "net2long pkt p =
     and_then (rd pkt p) (\<lambda>b0. and_then (rd pkt (p + 1)) (\<lambda>b1.
     and_then (rd pkt (p + 2)) (\<lambda>b2. and_then (rd pkt (p + 3)) (\<lambda>b3.
     Inr (push_bit 8 (push_bit 8 (push_bit 8 (ucast b0) OR ucast b1) OR ucast b2) OR ucast b3, p + 4)))))"

definition short2net :: "16 word \<Rightarrow> byte list" where
  "short2net i = [ucast (drop_bit 8 i), ucast i]"

definition long2net :: "64 word \<Rightarrow> byte list" where
  "long2net l = [ucast (drop_bit 24 l), ucast (drop_bit 16 l), ucast (drop_bit 8 l), ucast l]"

text \<open>A compression pointer.  A signed second byte is sign-extended before the \<^verbatim>\<open>|=\<close>.\<close>

definition ldecomp :: "bool \<Rightarrow> byte \<Rightarrow> byte \<Rightarrow> nat" where
  "ldecomp sc b0 b1 =
     (let i = push_bit 8 (ucast (0xC0 XOR b0)) OR (if sc then scast b1 else ucast b1) :: 16 word
      in if i \<ge> 4096 then 4095 else unat i)"

section \<open>Messages\<close>

record question =
  q_name :: "byte list"
  q_type :: "16 word"
  q_class :: "16 word"

datatype known =
    K_none
  | K_a "32 word" "byte list"
  | K_ns "byte list"
  | K_cname "byte list"
  | K_ptr "byte list"
  | K_srv "16 word" "16 word" "16 word" "byte list"

record resource =
  rr_name :: "byte list"
  rr_type :: "16 word"
  rr_class :: "16 word"
  rr_ttl :: "64 word"
  rr_rdlength :: "16 word"
  rr_rdata :: "byte list"
  rr_known :: known

text \<open>The flag bits of the header; the 4- and 3-bit fields are bytes.\<close>

record dns_header =
  h_qr :: bool
  h_opcode :: byte
  h_aa :: bool
  h_tc :: bool
  h_rd :: bool
  h_ra :: bool
  h_z :: byte
  h_rcode :: byte

record dns_message =
  dm_id :: "16 word"
  dm_header :: dns_header
  dm_qd :: "question list"
  dm_an :: "resource list"
  dm_ns :: "resource list"
  dm_ar :: "resource list"
  dm_labels :: "byte list list"
  dm_len :: nat

record wire_message =
  wm_id :: "16 word"
  wm_header :: dns_header
  wm_qdcount :: "16 word"
  wm_ancount :: "16 word"
  wm_nscount :: "16 word"
  wm_arcount :: "16 word"
  wm_wire :: "byte list"
  wm_labels :: "nat list"

section \<open>Reading names\<close>

lemma ldecomp_bound: "ldecomp sc b0 b1 \<le> 4095"
  by (auto simp: ldecomp_def Let_def word_le_nat_alt not_le)

text \<open>
  The inner loop of \<^verbatim>\<open>_label\<close>: it follows compression pointers until a label.  Within one run
  the offsets must grow; \<open>None\<close> is the error return.
\<close>

function skip_pointers :: "bool \<Rightarrow> byte list \<Rightarrow> nat \<Rightarrow> nat \<Rightarrow> int \<Rightarrow> nat option exec" where
  "skip_pointers sc pkt len pos prev =
     and_then (rd pkt pos) (\<lambda>b.
     if b AND 0xC0 = 0 then Inr (Some pos)
     else
       and_then (rd pkt (pos + 1)) (\<lambda>b1.
       let off = ldecomp sc b b1 in
       if int off \<le> prev \<or> off > len then Inr None
       else
         and_then (rd pkt off) (\<lambda>b'.
         if b' = 0 then Inr (Some off) else skip_pointers sc pkt len off (int off))))"
  by pat_completeness auto

termination
proof (relation "measure (\<lambda>(sc, pkt, len, pos, prev). nat (4096 - prev))", goal_cases)
  case (2 sc pkt len pos prev b b1 off b')
  have "off \<le> 4095" using 2 ldecomp_bound by simp
  then show ?case using 2 by simp
qed simp

declare skip_pointers.simps [simp del]

text \<open>
  The outer loop: \<open>out\<close> is what has been stored from \<^verbatim>\<open>*namep\<close> on.  Every label brings its
  length and a dot, so the limit of 255 stops it.
\<close>

definition rd_bytes :: "byte list \<Rightarrow> nat \<Rightarrow> nat \<Rightarrow> byte list exec" where
  "rd_bytes pkt p n = (if n = 0 \<or> p + n \<le> length pkt then Inr (take n (drop p pkt)) else Inl Overrun)"

function copy_labels :: "bool \<Rightarrow> byte list \<Rightarrow> nat \<Rightarrow> nat \<Rightarrow> nat \<Rightarrow> byte list \<Rightarrow> byte list option exec" where
  "copy_labels sc pkt cap len pos out =
     and_then (rd pkt pos) (\<lambda>b.
     if b = 0 then Inr (Some out)
     else
       and_then (skip_pointers sc pkt len pos (-1)) (\<lambda>r. case r of
         None \<Rightarrow> Inr None
       | Some pos \<Rightarrow>
           and_then (rd pkt pos) (\<lambda>b.
           let n = unat b in
           if length out + n > 255 \<or> len + (length out + n) \<ge> MAX_PACKET_LEN then Inr None
           else
             and_then (rd_bytes pkt (pos + 1) n) (\<lambda>bs.
             and_then (in_bounds (len + length out + n < cap)) (\<lambda>_.
             copy_labels sc pkt cap len (pos + n + 1) (out @ bs @ [dot]))))))"
  by pat_completeness auto
termination
proof (relation "measure (\<lambda>(sc, pkt, cap, len, pos, out). 256 - length out)", goal_cases)
  case (2 sc pkt cap len pos out b r pos' b' n bs u)
  then show ?case by simp arith
qed simp

declare copy_labels.simps [simp del]

text \<open>Where the reader goes on: after the terminator or after the first pointer.\<close>

function skip_labels :: "byte list \<Rightarrow> nat \<Rightarrow> nat exec" where
  "skip_labels pkt pos =
     and_then (rd pkt pos) (\<lambda>b.
     if b = 0 then Inr (pos + 1)
     else if b AND 0xC0 \<noteq> 0 then Inr (pos + 2)
     else skip_labels pkt (pos + unat b + 1))"
  by pat_completeness auto
termination
  by (relation "measure (\<lambda>(pkt, pos). length pkt - pos)") (auto simp: rd_def split: if_splits)

declare skip_labels.simps [simp del]

text \<open>The C string that starts with some bytes.\<close>

definition cstr :: "byte list \<Rightarrow> byte list" where
  "cstr bs = takeWhile (\<lambda>b. b \<noteq> 0) bs"

text \<open>\<^verbatim>\<open>_label\<close>: the message, the new reading position and the name.\<close>

definition dns_label ::
    "bool \<Rightarrow> byte list \<Rightarrow> nat \<Rightarrow> dns_message \<Rightarrow> nat \<Rightarrow> (dns_message \<times> nat \<times> byte list) option exec" where
  "dns_label sc pkt cap m pos =
     (if dm_len m > MAX_PACKET_LEN then Inr None
      else
        and_then (copy_labels sc pkt cap (dm_len m) pos []) (\<lambda>r. case r of
          None \<Rightarrow> Inr None
        | Some out \<Rightarrow>
            and_then (skip_labels pkt pos) (\<lambda>pos'.
            and_then (in_bounds (dm_len m + length out < cap)) (\<lambda>_.
            let name = cstr out in
            Inr (Some
              (if name \<in> set (dm_labels m) then m
               else m\<lparr>dm_labels := (if length (dm_labels m) < MAX_NUM_LABELS then dm_labels m @ [name] else dm_labels m),
                      dm_len := dm_len m + length out + 1\<rparr>,
               pos', name))))))"

section \<open>Reading records\<close>

text \<open>\<^verbatim>\<open>sprintf("%d.%d.%d.%d")\<close> of the four bytes at the reading position.\<close>

definition dotted_quad :: "byte list \<Rightarrow> nat \<Rightarrow> byte list exec" where
  "dotted_quad pkt p =
     and_then (rd pkt p) (\<lambda>a. and_then (rd pkt (p + 1)) (\<lambda>b.
     and_then (rd pkt (p + 2)) (\<lambda>c. and_then (rd pkt (p + 3)) (\<lambda>d.
     Inr (text_bytes (show_nat (unat a) @ ''.'' @ show_nat (unat b) @ ''.'' @ show_nat (unat c) @ ''.'' @
       show_nat (unat d)))))))"

text \<open>Sequencing of steps that may answer the error return.\<close>

definition or_fail :: "'a option exec \<Rightarrow> ('a \<Rightarrow> 'b option exec) \<Rightarrow> 'b option exec" where
  "or_fail r f = and_then r (\<lambda>x. case x of None \<Rightarrow> Inr None | Some y \<Rightarrow> f y)"

lemma or_fail_simps [simp]:
  "or_fail (Inl e) f = Inl e" "or_fail (Inr None) f = Inr None" "or_fail (Inr (Some y)) f = f y"
  by (simp_all add: or_fail_def)

lemma or_fail_cong [fundef_cong]:
  "m = m' \<Longrightarrow> (\<And>x. m' = Inr (Some x) \<Longrightarrow> f x = f' x) \<Longrightarrow> or_fail m f = or_fail m' f'"
  by (cases m') (auto simp: or_fail_def split: option.splits)

definition named_rdata :: "16 word \<Rightarrow> bool" where
  "named_rdata t \<longleftrightarrow> t = QTYPE_NS \<or> t = QTYPE_CNAME \<or> t = QTYPE_PTR \<or> t = QTYPE_SRV"

text \<open>The \<^verbatim>\<open>switch\<close> of \<^verbatim>\<open>_rrparse\<close>; \<open>rdlength\<close> is what is left in \<^verbatim>\<open>rr[i].rdlength\<close>.\<close>

definition rr_known_data ::
    "bool \<Rightarrow> byte list \<Rightarrow> nat \<Rightarrow> dns_message \<Rightarrow> nat \<Rightarrow> 16 word \<Rightarrow> 16 word \<Rightarrow>
     (dns_message \<times> nat \<times> known) option exec" where
  "rr_known_data sc pkt cap m pos t rdlength =
     (let named = (\<lambda>K. or_fail (dns_label sc pkt cap m pos) (\<lambda>(m, pos, name). Inr (Some (m, pos, K name)))) in
      if t = QTYPE_A then
        (if dm_len m + 16 > MAX_PACKET_LEN then Inr None
         else
           and_then (dotted_quad pkt pos) (\<lambda>name.
           and_then (in_bounds (dm_len m + length name < cap)) (\<lambda>_.
           and_then (net2long pkt pos) (\<lambda>(ip, pos).
           Inr (Some (m\<lparr>dm_len := dm_len m + 16\<rparr>, pos, K_a (ucast ip) name))))))
      else if t = QTYPE_NS then named K_ns
      else if t = QTYPE_CNAME then named K_cname
      else if t = QTYPE_PTR then named K_ptr
      else if t = QTYPE_SRV then
        and_then (net2short pkt pos) (\<lambda>(priority, pos).
        and_then (net2short pkt pos) (\<lambda>(weight, pos).
        and_then (net2short pkt pos) (\<lambda>(port, pos).
        or_fail (dns_label sc pkt cap m pos) (\<lambda>(m, pos, name).
        Inr (Some (m, pos, K_srv priority weight port name))))))
      else Inr (Some (m, pos + unat rdlength, K_none)))"

text \<open>On the 64-bit targets a \<^verbatim>\<open>struct question\<close> has 16 bytes, a \<^verbatim>\<open>struct resource\<close> 64.\<close>

abbreviation (input) sizeof_question :: nat where "sizeof_question \<equiv> 16"
abbreviation (input) sizeof_resource :: nat where "sizeof_resource \<equiv> 64"

text \<open>The macro \<^verbatim>\<open>my\<close>: room for an array, at the next multiple of 8.\<close>

definition my_start :: "dns_message \<Rightarrow> nat" where
  "my_start m = (dm_len m + 7) div 8 * 8"

definition my :: "nat \<Rightarrow> dns_message \<Rightarrow> dns_message" where
  "my n m = m\<lparr>dm_len := my_start m + n\<rparr>"

text \<open>
  \<^verbatim>\<open>_label(m, bufp, &slot->name)\<close> for an array slot of \<open>n\<close> bytes at offset \<open>slot\<close> of
  \<^verbatim>\<open>_packet\<close>: the pointer is stored as soon as \<^verbatim>\<open>m->_len\<close> has passed its check.  The other members of the
  slot are stored after it.
\<close>

definition label_into ::
    "bool \<Rightarrow> byte list \<Rightarrow> nat \<Rightarrow> nat \<Rightarrow> nat \<Rightarrow> dns_message \<Rightarrow> nat \<Rightarrow> (dns_message \<times> nat \<times> byte list) option exec" where
  "label_into sc pkt cap slot n m pos =
     and_then (in_bounds (dm_len m > MAX_PACKET_LEN \<or> slot + n \<le> cap)) (\<lambda>_. dns_label sc pkt cap m pos)"

definition rrparse1 ::
    "bool \<Rightarrow> byte list \<Rightarrow> nat \<Rightarrow> nat \<Rightarrow> dns_message \<Rightarrow> nat \<Rightarrow> (dns_message \<times> nat \<times> resource) option exec" where
  "rrparse1 sc pkt cap slot m pos =
     or_fail (label_into sc pkt cap slot sizeof_resource m pos) (\<lambda>(m, pos, name).
     and_then (net2short pkt pos) (\<lambda>(t, pos).
     and_then (net2short pkt pos) (\<lambda>(c, pos).
     and_then (net2long pkt pos) (\<lambda>(ttl, pos).
     and_then (net2short pkt pos) (\<lambda>(rdlength, pos).
     if unat rdlength + pos > MAX_PACKET_LEN \<or> dm_len m + unat rdlength > MAX_PACKET_LEN then Inr None
     else
       and_then (if named_rdata t then Inr (m, 0, [])
                 else
                   and_then (rd_bytes pkt pos (unat rdlength)) (\<lambda>bs.
                   and_then (in_bounds (dm_len m + unat rdlength \<le> cap)) (\<lambda>_.
                   Inr (m\<lparr>dm_len := dm_len m + unat rdlength\<rparr>, rdlength, bs)))) (\<lambda>(m, rdlength, bs).
       or_fail (rr_known_data sc pkt cap m pos t rdlength) (\<lambda>(m, pos, k).
       Inr (Some (m, pos, \<lparr>rr_name = name, rr_type = t, rr_class = c, rr_ttl = ttl, rr_rdlength = rdlength,
         rr_rdata = bs, rr_known = k\<rparr>)))))))))"

text \<open>The two loops over an array that starts at offset \<open>slot\<close>.\<close>

fun rrparse ::
    "bool \<Rightarrow> byte list \<Rightarrow> nat \<Rightarrow> nat \<Rightarrow> nat \<Rightarrow> dns_message \<Rightarrow> nat \<Rightarrow>
     (dns_message \<times> nat \<times> resource list) option exec" where
  "rrparse sc pkt cap slot 0 m pos = Inr (Some (m, pos, []))"
| "rrparse sc pkt cap slot (Suc n) m pos =
     or_fail (rrparse1 sc pkt cap slot m pos) (\<lambda>(m, pos, r).
     or_fail (rrparse sc pkt cap (slot + sizeof_resource) n m pos) (\<lambda>(m, pos, rs). Inr (Some (m, pos, r # rs))))"

fun qdparse ::
    "bool \<Rightarrow> byte list \<Rightarrow> nat \<Rightarrow> nat \<Rightarrow> nat \<Rightarrow> dns_message \<Rightarrow> nat \<Rightarrow>
     (dns_message \<times> nat \<times> question list) option exec" where
  "qdparse sc pkt cap slot 0 m pos = Inr (Some (m, pos, []))"
| "qdparse sc pkt cap slot (Suc n) m pos =
     or_fail (label_into sc pkt cap slot sizeof_question m pos) (\<lambda>(m, pos, name).
     and_then (net2short pkt pos) (\<lambda>(t, pos).
     and_then (net2short pkt pos) (\<lambda>(c, pos).
     or_fail (qdparse sc pkt cap (slot + sizeof_question) n m pos) (\<lambda>(m, pos, qs).
     Inr (Some (m, pos, \<lparr>q_name = name, q_type = t, q_class = c\<rparr> # qs))))))"

section \<open>Reading a message\<close>

definition header_of :: "byte \<Rightarrow> byte \<Rightarrow> dns_header" where
  "header_of b0 b1 = \<lparr>
     h_qr = (b0 AND 0x80 \<noteq> 0), h_opcode = drop_bit 3 (b0 AND 0x78), h_aa = (b0 AND 0x04 \<noteq> 0),
     h_tc = (b0 AND 0x02 \<noteq> 0), h_rd = (b0 AND 0x01 \<noteq> 0), h_ra = (b1 AND 0x80 \<noteq> 0),
     h_z = drop_bit 4 (b1 AND 0x70), h_rcode = b1 AND 0x0F\<rparr>"

definition dns_message0 :: "16 word \<Rightarrow> dns_header \<Rightarrow> dns_message" where
  "dns_message0 i h = \<lparr>dm_id = i, dm_header = h, dm_qd = [], dm_an = [], dm_ns = [], dm_ar = [],
     dm_labels = [], dm_len = 0\<rparr>"

text \<open>The parse of a packet into a zeroed message.\<close>

definition message_parse :: "bool \<Rightarrow> byte list \<Rightarrow> nat \<Rightarrow> dns_message option exec" where
  "message_parse sc pkt cap =
     and_then (net2short pkt 0) (\<lambda>(i, pos).
     and_then (rd pkt pos) (\<lambda>b0. and_then (rd pkt (pos + 1)) (\<lambda>b1.
     and_then (net2short pkt (pos + 2)) (\<lambda>(qd, pos).
     if sizeof_question * unat qd > MAX_PACKET_LEN - 8 then Inr None else
     and_then (net2short pkt pos) (\<lambda>(an, pos).
     if sizeof_resource * unat an > MAX_PACKET_LEN - 8 then Inr None else
     and_then (net2short pkt pos) (\<lambda>(ns, pos).
     if sizeof_resource * unat ns > MAX_PACKET_LEN - 8 then Inr None else
     and_then (net2short pkt pos) (\<lambda>(ar, pos).
     if sizeof_resource * unat ar > MAX_PACKET_LEN - 8 then Inr None else
     let m = dns_message0 i (header_of b0 b1); qd_at = my_start m; m = my (sizeof_question * unat qd) m in
     or_fail (qdparse sc pkt cap qd_at (unat qd) m pos) (\<lambda>(m, pos, qds).
     let an_at = my_start m; m = my (sizeof_resource * unat an) m;
         ns_at = my_start m; m = my (sizeof_resource * unat ns) m;
         ar_at = my_start m; m = my (sizeof_resource * unat ar) m in
     or_fail (rrparse sc pkt cap an_at (unat an) m pos) (\<lambda>(m, pos, ans).
     or_fail (rrparse sc pkt cap ns_at (unat ns) m pos) (\<lambda>(m, pos, nss).
     or_fail (rrparse sc pkt cap ar_at (unat ar) m pos) (\<lambda>(m, pos, ars).
     Inr (Some (m\<lparr>dm_qd := qds, dm_an := ans, dm_ns := nss, dm_ar := ars\<rparr>)))))))))))))"

section \<open>Writing names\<close>

text \<open>
  \<^verbatim>\<open>_host\<close> builds the labels in a local array of 256 bytes: \<open>lbl\<close> is the array up to \<open>x\<close>, the
  place of the pending length byte (\<^verbatim>\<open>last\<close>) is \<open>pend\<close>.  \<open>None\<close> is the early return for a long name.
\<close>

definition close_label :: "nat \<Rightarrow> byte list \<Rightarrow> byte list" where
  "close_label pend lbl = lbl[pend := of_nat (length lbl - (pend + 1))]"

fun host_labels :: "byte list \<Rightarrow> nat \<Rightarrow> byte list \<Rightarrow> byte list option" where
  "host_labels [] pend lbl = Some (close_label pend lbl)"
| "host_labels (c # cs) pend lbl =
     (if c = dot \<and> cs = [] then Some (close_label pend lbl)
      else if length lbl = 255 then None
      else if c = dot then host_labels cs (length lbl) (close_label pend lbl @ [0])
      else host_labels cs pend (lbl @ [c]))"

definition host_label :: "byte list \<Rightarrow> byte list option" where
  "host_label name = map_option (\<lambda>lbl. if length lbl = 1 then [0] else lbl @ [0]) (host_labels name 0 [0])"

text \<open>A pointer of \<^verbatim>\<open>_lmatch\<close>: into the local array or into \<^verbatim>\<open>_packet\<close>.\<close>

datatype lptr = In_label nat | In_packet nat

fun lptr_add :: "lptr \<Rightarrow> nat \<Rightarrow> lptr" where
  "lptr_add (In_label i) n = In_label (i + n)"
| "lptr_add (In_packet i) n = In_packet (i + n)"

text \<open>Beyond \<^verbatim>\<open>_buf\<close> the packet is zero.\<close>

definition wire_at :: "byte list \<Rightarrow> nat \<Rightarrow> byte exec" where
  "wire_at wire i = (if i < length wire then Inr (wire ! i) else if i < MAX_PACKET_LEN then Inr 0 else Inl Overrun)"

fun lptr_at :: "byte list \<Rightarrow> byte list \<Rightarrow> lptr \<Rightarrow> byte exec" where
  "lptr_at wire lbl (In_label i) = rd lbl i"
| "lptr_at wire lbl (In_packet i) = wire_at wire i"

text \<open>The loop over the characters of a label: whether \<open>n\<close> bytes from \<open>k\<close> on agree.\<close>

fun lchars :: "byte list \<Rightarrow> byte list \<Rightarrow> lptr \<Rightarrow> lptr \<Rightarrow> nat \<Rightarrow> nat \<Rightarrow> bool exec" where
  "lchars wire lbl l1 l2 k 0 = Inr True"
| "lchars wire lbl l1 l2 k (Suc n) =
     and_then (lptr_at wire lbl (lptr_add l1 k)) (\<lambda>a.
     and_then (lptr_at wire lbl (lptr_add l2 k)) (\<lambda>b.
     if a \<noteq> b then Inr False else lchars wire lbl l1 l2 (k + 1) n))"

text \<open>A pointer met by \<^verbatim>\<open>_lmatch\<close> is taken relative to \<^verbatim>\<open>_buf\<close>, which is the end of the wire.\<close>

definition lptr_jump :: "bool \<Rightarrow> byte list \<Rightarrow> byte list \<Rightarrow> lptr \<Rightarrow> lptr exec" where
  "lptr_jump sc wire lbl l =
     and_then (lptr_at wire lbl l) (\<lambda>b0. and_then (lptr_at wire lbl (lptr_add l 1)) (\<lambda>b1.
     Inr (In_packet (length wire + ldecomp sc b0 b1))))"

fun lptr_zone :: "byte list \<Rightarrow> lptr \<Rightarrow> nat" where
  "lptr_zone wire (In_label i) = 2"
| "lptr_zone wire (In_packet i) = (if i < length wire then 1 else 0)"

fun lptr_left :: "byte list \<Rightarrow> byte list \<Rightarrow> lptr \<Rightarrow> nat" where
  "lptr_left wire lbl (In_label i) = length lbl - i"
| "lptr_left wire lbl (In_packet i) = length wire + MAX_PACKET_LEN - i"

lemma lptr_add_less:
  "lptr_at wire lbl l = Inr b \<Longrightarrow> 0 < n \<Longrightarrow>
   lptr_zone wire (lptr_add l n) \<le> lptr_zone wire l \<and> lptr_left wire lbl (lptr_add l n) < lptr_left wire lbl l"
  by (cases l) (auto simp: rd_def wire_at_def split: if_splits)

lemma lptr_jump_less:
  "lptr_jump sc wire lbl l = Inr l' \<Longrightarrow> lptr_at wire lbl l = Inr b \<Longrightarrow> b AND 0xC0 \<noteq> 0 \<Longrightarrow>
   lptr_zone wire l' < lptr_zone wire l"
  by (cases l) (auto simp: lptr_jump_def wire_at_def and_then_eq_Inr split: if_splits)

function lmatch :: "bool \<Rightarrow> byte list \<Rightarrow> byte list \<Rightarrow> lptr \<Rightarrow> lptr \<Rightarrow> bool exec" where
  "lmatch sc wire lbl l1 l2 =
     and_then (lptr_at wire lbl l1) (\<lambda>b1.
     if b1 AND 0xC0 \<noteq> 0 then and_then (lptr_jump sc wire lbl l1) (\<lambda>l1. lmatch sc wire lbl l1 l2)
     else
       and_then (lptr_at wire lbl l2) (\<lambda>b2.
       if b2 AND 0xC0 \<noteq> 0 then and_then (lptr_jump sc wire lbl l2) (\<lambda>l2. lmatch sc wire lbl l1 l2)
       else if l1 = l2 then Inr True
       else if b1 \<noteq> b2 then Inr False
       else
         and_then (lchars wire lbl l1 l2 1 (unat b1)) (\<lambda>same.
         if \<not> same then Inr False
         else
           let l1' = lptr_add l1 (unat b1 + 1); l2' = lptr_add l2 (unat b1 + 1) in
           and_then (lptr_at wire lbl l1') (\<lambda>e1. and_then (lptr_at wire lbl l2') (\<lambda>e2.
           if e1 = 0 \<and> e2 = 0 then Inr True else lmatch sc wire lbl l1' l2')))))"
  by pat_completeness auto
termination
proof (relation "measures [\<lambda>(sc, wire, lbl, l1, l2). lptr_zone wire l1 + lptr_zone wire l2,
      \<lambda>(sc, wire, lbl, l1, l2). lptr_left wire lbl l1 + lptr_left wire lbl l2]", goal_cases)
  case (2 sc wire lbl l1 l2 b1 l1')
  then show ?case using lptr_jump_less [of sc wire lbl l1] by auto
next
  case (3 sc wire lbl l1 l2 b1 b2 l2')
  then show ?case using lptr_jump_less [of sc wire lbl l2] by auto
next
  case (4 sc wire lbl l1 l2 b1 b2 same l1' l2' e1 e2)
  then show ?case
    using lptr_add_less [of wire lbl l1 b1 "unat b1 + 1"] lptr_add_less [of wire lbl l2 b2 "unat b1 + 1"]
    by (auto simp: Let_def)
qed simp

declare lmatch.simps [simp del]

text \<open>The label of the message that matches the rest of the name from \<open>x\<close> on.\<close>

fun first_match :: "bool \<Rightarrow> byte list \<Rightarrow> byte list \<Rightarrow> nat \<Rightarrow> nat list \<Rightarrow> nat option exec" where
  "first_match sc wire lbl x [] = Inr None"
| "first_match sc wire lbl x (y # ys) =
     and_then (lmatch sc wire lbl (In_label x) (In_packet y)) (\<lambda>r.
     if r then Inr (Some y) else first_match sc wire lbl x ys)"

function host_find :: "bool \<Rightarrow> byte list \<Rightarrow> nat list \<Rightarrow> byte list \<Rightarrow> nat \<Rightarrow> (nat \<times> nat) option exec" where
  "host_find sc wire labels lbl x =
     and_then (rd lbl x) (\<lambda>b.
     if b = 0 then Inr None
     else
       and_then (first_match sc wire lbl x labels) (\<lambda>r. case r of
         Some y \<Rightarrow> Inr (Some (x, y))
       | None \<Rightarrow>
           if b AND 0xC0 \<noteq> 0 then Inr None else host_find sc wire labels lbl (x + unat b + 1)))"
  by pat_completeness auto
termination
  by (relation "measure (\<lambda>(sc, wire, labels, lbl, x). length lbl - x)") (auto simp: rd_def split: if_splits)

declare host_find.simps [simp del]

text \<open>The new labels of the bytes \<open>out\<close>, written at offset \<open>pos\<close>, for later messages parts to point to.\<close>

function host_register :: "nat \<Rightarrow> byte list \<Rightarrow> nat \<Rightarrow> nat list \<Rightarrow> nat list" where
  "host_register pos out x labels =
     (if x < length out \<and> out ! x \<noteq> 0 \<and> length labels < MAX_NUM_LABELS \<and> out ! x AND 0xC0 = 0
      then host_register pos out (x + unat (out ! x) + 1) (labels @ [pos + x])
      else labels)"
  by pat_completeness auto
termination
  by (relation "measure (\<lambda>(pos, out, x, labels). length out - x)") auto

declare host_register.simps [simp del]

definition pointer_to :: "nat \<Rightarrow> byte list" where
  "pointer_to y = (case short2net (of_nat y) of b0 # bs \<Rightarrow> (b0 OR 0xC0) # bs)"

text \<open>\<^verbatim>\<open>_host\<close> at the end of the wire: the message and the number of bytes written.\<close>

definition host :: "bool \<Rightarrow> wire_message \<Rightarrow> byte list option \<Rightarrow> (wire_message \<times> nat) exec" where
  "host sc m name =
     (case Option.bind name host_label of
        None \<Rightarrow> Inr (m, 0)
      | Some lbl \<Rightarrow>
          and_then (host_find sc (wm_wire m) (wm_labels m) lbl 0) (\<lambda>r.
          let out = (case r of None \<Rightarrow> lbl | Some (x, y) \<Rightarrow> take x lbl @ pointer_to y)
          in and_then (in_bounds (length (wm_wire m) + length out \<le> MAX_PACKET_LEN)) (\<lambda>_.
             Inr (m\<lparr>wm_wire := wm_wire m @ out,
                    wm_labels := host_register (length (wm_wire m)) out 0 (wm_labels m)\<rparr>, length out))))"

section \<open>Writing a message\<close>

definition wire_put :: "wire_message \<Rightarrow> byte list \<Rightarrow> wire_message exec" where
  "wire_put m bs =
     and_then (in_bounds (wm_wire m \<noteq> [] \<and> length (wm_wire m) + length bs \<le> MAX_PACKET_LEN))
       (\<lambda>_. Inr (m\<lparr>wm_wire := wm_wire m @ bs\<rparr>))"

text \<open>A NULL \<^verbatim>\<open>_buf\<close> is set behind the room for the header.\<close>

definition wire_start :: "wire_message \<Rightarrow> wire_message" where
  "wire_start m = (if wm_wire m = [] then m\<lparr>wm_wire := replicate 12 0\<rparr> else m)"

definition message_qd ::
    "bool \<Rightarrow> wire_message \<Rightarrow> byte list option \<Rightarrow> 16 word \<Rightarrow> 16 word \<Rightarrow> wire_message exec" where
  "message_qd sc m name t c =
     and_then (host sc (wire_start (m\<lparr>wm_qdcount := wm_qdcount m + 1\<rparr>)) name) (\<lambda>(m, n).
     wire_put m (short2net t @ short2net c))"

definition rrappend ::
    "bool \<Rightarrow> wire_message \<Rightarrow> byte list option \<Rightarrow> 16 word \<Rightarrow> 16 word \<Rightarrow> 64 word \<Rightarrow> wire_message exec" where
  "rrappend sc m name t c ttl =
     and_then (host sc (wire_start m) name) (\<lambda>(m, n).
     wire_put m (short2net t @ short2net c @ long2net ttl))"

definition message_an ::
    "bool \<Rightarrow> wire_message \<Rightarrow> byte list option \<Rightarrow> 16 word \<Rightarrow> 16 word \<Rightarrow> 64 word \<Rightarrow> wire_message exec" where
  "message_an sc m name t c ttl = rrappend sc (m\<lparr>wm_ancount := wm_ancount m + 1\<rparr>) name t c ttl"

definition message_ns ::
    "bool \<Rightarrow> wire_message \<Rightarrow> byte list option \<Rightarrow> 16 word \<Rightarrow> 16 word \<Rightarrow> 64 word \<Rightarrow> wire_message exec" where
  "message_ns sc m name t c ttl = rrappend sc (m\<lparr>wm_nscount := wm_nscount m + 1\<rparr>) name t c ttl"

definition message_ar ::
    "bool \<Rightarrow> wire_message \<Rightarrow> byte list option \<Rightarrow> 16 word \<Rightarrow> 16 word \<Rightarrow> 64 word \<Rightarrow> wire_message exec" where
  "message_ar sc m name t c ttl = rrappend sc (m\<lparr>wm_arcount := wm_arcount m + 1\<rparr>) name t c ttl"

definition message_rdata_long :: "wire_message \<Rightarrow> 32 word \<Rightarrow> wire_message exec" where
  "message_rdata_long m l = wire_put m (short2net 4 @ long2net (ucast l))"

text \<open>The length is stored into the two bytes that were skipped.\<close>

definition wire_patch :: "wire_message \<Rightarrow> nat \<Rightarrow> 16 word \<Rightarrow> wire_message" where
  "wire_patch m p n =
     m\<lparr>wm_wire := take p (wm_wire m) @ short2net n @ drop (p + 2) (wm_wire m)\<rparr>"

definition message_rdata_name :: "bool \<Rightarrow> wire_message \<Rightarrow> byte list option \<Rightarrow> wire_message exec" where
  "message_rdata_name sc m name =
     and_then (wire_put m [0, 0]) (\<lambda>m1.
     and_then (host sc m1 name) (\<lambda>(m2, n).
     Inr (wire_patch m2 (length (wm_wire m)) (of_nat n))))"

definition message_rdata_srv ::
    "bool \<Rightarrow> wire_message \<Rightarrow> 16 word \<Rightarrow> 16 word \<Rightarrow> 16 word \<Rightarrow> byte list option \<Rightarrow> wire_message exec" where
  "message_rdata_srv sc m priority weight port name =
     and_then (wire_put m ([0, 0] @ short2net priority @ short2net weight @ short2net port)) (\<lambda>m1.
     and_then (host sc m1 name) (\<lambda>(m2, n).
     Inr (wire_patch m2 (length (wm_wire m)) (of_nat (n + 6)))))"

text \<open>\<open>rdata\<close> has at least \<open>rdlength\<close> bytes.\<close>

definition message_rdata_raw :: "wire_message \<Rightarrow> byte list \<Rightarrow> 16 word \<Rightarrow> wire_message exec" where
  "message_rdata_raw m rdata rdlength =
     (let n = (if length (wm_wire m) + unat rdlength > 4096 then 0 else rdlength) in
      and_then (wire_put m (short2net n)) (\<lambda>m.
      and_then (rd_bytes rdata 0 (unat n)) (\<lambda>bs. wire_put m bs)))"

definition flag_bytes :: "dns_header \<Rightarrow> byte \<times> byte" where
  "flag_bytes h =
     ((if h_qr h then 0x80 else 0) OR push_bit 3 (h_opcode h) OR (if h_aa h then 0x04 else 0) OR
      (if h_tc h then 0x02 else 0) OR (if h_rd h then 0x01 else 0),
      (if h_ra h then 0x80 else 0) OR push_bit 4 (h_z h) OR h_rcode h)"

text \<open>The bytes to send, \<^verbatim>\<open>message_packet_len\<close> of them.  The flags are ORed into the packet.\<close>

definition message_packet :: "wire_message \<Rightarrow> byte list" where
  "message_packet m =
     (let w = (if wm_wire m = [] then replicate 12 0 else wm_wire m); (f0, f1) = flag_bytes (wm_header m)
      in short2net (wm_id m) @ [w ! 2 OR f0, w ! 3 OR f1] @ short2net (wm_qdcount m) @ short2net (wm_ancount m) @
         short2net (wm_nscount m) @ short2net (wm_arcount m) @ drop 12 w)"

definition message_packet_len :: "wire_message \<Rightarrow> nat" where
  "message_packet_len m = (if wm_wire m = [] then 12 else length (wm_wire m))"

definition wire_message0 :: "16 word \<Rightarrow> dns_header \<Rightarrow> wire_message" where
  "wire_message0 i h = \<lparr>wm_id = i, wm_header = h, wm_qdcount = 0, wm_ancount = 0, wm_nscount = 0,
     wm_arcount = 0, wm_wire = [], wm_labels = []\<rparr>"

end
