(* ===== verification/DnsSafety.thy ===== *)
theory DnsSafety
  imports Dns1035
begin

text \<open>
  Memory safety of the DNS reader: with room for one byte after \<^verbatim>\<open>_packet\<close> no packet makes it
  store outside, and the byte is needed.  Reading terminates for every packet, because
  \<open>skip_pointers\<close> and \<open>copy_labels\<close> are total.
\<close>

section \<open>No store leaves the packet and its padding byte\<close>

lemma safe_or_fail:
  "safe r \<Longrightarrow> (\<And>y. r = Inr (Some y) \<Longrightarrow> safe (f y)) \<Longrightarrow> safe (or_fail r f)"
  by (cases r) (auto simp: or_fail_def split: option.splits)

lemma safe_rd [simp]: "safe (rd pkt i)"
  by (simp add: rd_def)

lemma safe_rd_bytes [simp]: "safe (rd_bytes pkt p n)"
  by (simp add: rd_bytes_def)

lemma safe_net2short [simp]: "safe (net2short pkt p)"
  by (simp add: net2short_def safe_and_then)

lemma safe_net2long [simp]: "safe (net2long pkt p)"
  by (simp add: net2long_def safe_and_then)

lemma safe_skip_pointers [simp]: "safe (skip_pointers sc pkt len pos prev)"
proof (induction sc pkt len pos prev rule: skip_pointers.induct)
  case (1 sc pkt len pos prev)
  then show ?case
    by (subst skip_pointers.simps) (auto simp: Let_def intro!: safe_and_then)
qed

lemma safe_skip_labels [simp]: "safe (skip_labels pkt pos)"
proof (induction pkt pos rule: skip_labels.induct)
  case (1 pkt pos)
  then show ?case by (subst skip_labels.simps) (auto intro!: safe_and_then)
qed

lemma copy_labels_safe:
  assumes "MAX_PACKET_LEN \<le> cap"
  shows "safe (copy_labels sc pkt cap len pos out)"
  using assms
proof (induction sc pkt cap len pos out rule: copy_labels.induct)
  case (1 sc pkt cap len pos out)
  show ?case
    by (subst copy_labels.simps, intro safe_and_then)
      (use 1 in \<open>auto simp: Let_def split: option.splits intro!: safe_and_then\<close>)
qed

lemma copy_labels_length:
  "copy_labels sc pkt cap len pos out = Inr (Some out') \<Longrightarrow> len + length out \<le> MAX_PACKET_LEN \<Longrightarrow>
   len + length out' \<le> MAX_PACKET_LEN"
proof (induction sc pkt cap len pos out rule: copy_labels.induct)
  case (1 sc pkt cap len pos out)
  show ?case
  proof (cases "rd pkt pos = Inr 0")
    case True
    then show ?thesis using "1.prems" by (simp add: copy_labels.simps [of sc pkt cap len pos out])
  next
    case False
    then obtain b pos' b' bs where r: "rd pkt pos = Inr b" "b \<noteq> 0" "skip_pointers sc pkt len pos (- 1) = Inr (Some pos')"
        "rd pkt pos' = Inr b'" "\<not> (length out + unat b' > 255 \<or> len + (length out + unat b') \<ge> MAX_PACKET_LEN)"
        "rd_bytes pkt (pos' + 1) (unat b') = Inr bs" "len + length out + unat b' < cap"
        "copy_labels sc pkt cap len (pos' + unat b' + 1) (out @ bs @ [dot]) = Inr (Some out')"
      using "1.prems"(1)
      by (auto simp: copy_labels.simps [of sc pkt cap len pos out] and_then_eq_Inr Let_def split: if_splits option.splits)
    have "length bs \<le> unat b'" using r(6) by (auto simp: rd_bytes_def split: if_splits)
    then show ?thesis using "1.IH" [OF r(1,2,3) refl r(4) refl r(5,6) _ r(8)] r(5,7) by simp
  qed
qed

lemma dns_label_safe:
  assumes "MAX_PACKET_LEN < cap"
  shows "safe (dns_label sc pkt cap m pos)"
  using assms copy_labels_length [of sc pkt cap "dm_len m" pos "[]"]
  by (auto simp: dns_label_def Let_def copy_labels_safe split: option.splits intro!: safe_and_then)

lemma dotted_quad_length: "dotted_quad pkt p = Inr s \<Longrightarrow> length s \<le> 15"
proof -
  have *: "length (show_nat (unat (b :: byte))) \<le> 3" for b
  proof -
    have "unat b < 2 ^ LENGTH(8)" by (rule unsigned_less)
    then have "unat b < 1000" by simp
    then show ?thesis
      by (simp add: show_nat.simps [of "unat b"] show_nat.simps [of "unat b div 10"]
          show_nat.simps [of "unat b div 10 div 10"])
  qed
  assume "dotted_quad pkt p = Inr s"
  then obtain a b c d :: byte where "length s = length (show_nat (unat a)) + length (show_nat (unat b)) +
      length (show_nat (unat c)) + length (show_nat (unat d)) + 3"
    by (auto simp: dotted_quad_def and_then_eq_Inr text_bytes_def)
  then show ?thesis using * [of a] * [of b] * [of c] * [of d] by simp
qed

lemma safe_dotted_quad [simp]: "safe (dotted_quad pkt p)"
  by (simp add: dotted_quad_def safe_and_then)

lemma rr_known_safe:
  assumes "MAX_PACKET_LEN < cap"
  shows "safe (rr_known_data sc pkt cap m pos t n)"
  using assms dotted_quad_length [of pkt pos]
  by (fastforce simp: rr_known_data_def Let_def dns_label_safe intro!: safe_and_then safe_or_fail)

lemma or_fail_eq_Some: "or_fail r f = Inr (Some y) \<longleftrightarrow> (\<exists>x. r = Inr (Some x) \<and> f x = Inr (Some y))"
  by (auto simp: or_fail_def and_then_eq_Inr split: option.splits)

lemma dns_label_grows:
  assumes "dns_label sc pkt cap m pos = Inr (Some (m', r))"
  shows "dm_len m \<le> dm_len m'"
proof -
  obtain out where "m' = (if cstr out \<in> set (dm_labels m) then m
      else m\<lparr>dm_labels := (if length (dm_labels m) < MAX_NUM_LABELS then dm_labels m @ [cstr out] else dm_labels m),
             dm_len := dm_len m + length out + 1\<rparr>)"
    using assms by (cases "dm_len m > MAX_PACKET_LEN")
      (auto simp: dns_label_def Let_def and_then_eq_Inr simp del: set_append split: option.splits)
  then show ?thesis by simp
qed

lemma label_into_safe:
  assumes "MAX_PACKET_LEN < cap" "slot + n \<le> dm_len m"
  shows "safe (label_into sc pkt cap slot n m pos)"
  using assms by (auto simp: label_into_def dns_label_safe intro!: safe_and_then)

lemma label_into_grows: "label_into sc pkt cap slot n m pos = Inr (Some (m', r)) \<Longrightarrow> dm_len m \<le> dm_len m'"
  by (auto simp: label_into_def and_then_eq_Inr dns_label_grows)

lemma rr_known_grows: "rr_known_data sc pkt cap m pos t n = Inr (Some (m', r)) \<Longrightarrow> dm_len m \<le> dm_len m'"
  by (auto simp: rr_known_data_def Let_def and_then_eq_Inr or_fail_eq_Some dest: dns_label_grows split: if_splits)

lemma rrparse1_grows: "rrparse1 sc pkt cap slot m pos = Inr (Some (m', r)) \<Longrightarrow> dm_len m \<le> dm_len m'"
  by (auto simp: rrparse1_def and_then_eq_Inr or_fail_eq_Some dest!: label_into_grows rr_known_grows split: if_splits)

lemma rrparse1_safe:
  assumes "MAX_PACKET_LEN < cap" "slot + sizeof_resource \<le> dm_len m"
  shows "safe (rrparse1 sc pkt cap slot m pos)"
  using assms by (auto simp: rrparse1_def label_into_safe rr_known_safe intro!: safe_and_then safe_or_fail)

text \<open>An array that lies below \<^verbatim>\<open>m->_len\<close> is filled in bounds: the length only grows and is checked first.\<close>

lemma rrparse_safe:
  assumes "MAX_PACKET_LEN < cap"
  shows "slot + sizeof_resource * n \<le> dm_len m \<Longrightarrow> safe (rrparse sc pkt cap slot n m pos)"
proof (induction n arbitrary: slot m pos)
  case (Suc n)
  then have "safe (rrparse sc pkt cap (slot + sizeof_resource) n m' pos')" if "dm_len m \<le> dm_len m'" for m' pos'
    using that by simp
  then show ?case using assms Suc.prems rrparse1_safe [OF assms, of slot m]
    by (auto intro!: safe_and_then safe_or_fail dest: rrparse1_grows)
qed simp

lemma rrparse_grows: "rrparse sc pkt cap slot n m pos = Inr (Some (m', r)) \<Longrightarrow> dm_len m \<le> dm_len m'"
proof (induction n arbitrary: slot m pos r)
  case (Suc n)
  then show ?case by (fastforce simp: or_fail_eq_Some dest: rrparse1_grows)
qed simp

lemma qdparse_safe:
  assumes "MAX_PACKET_LEN < cap"
  shows "slot + sizeof_question * n \<le> dm_len m \<Longrightarrow> safe (qdparse sc pkt cap slot n m pos)"
proof (induction n arbitrary: slot m pos)
  case (Suc n)
  then have "safe (qdparse sc pkt cap (slot + sizeof_question) n m' pos')" if "dm_len m \<le> dm_len m'" for m' pos'
    using that by simp
  then show ?case using assms Suc.prems label_into_safe [OF assms, of slot sizeof_question m]
    by (auto intro!: safe_and_then safe_or_fail dest: label_into_grows)
qed simp

lemma my_len: "dm_len (my n m) = my_start m + n"
  by (simp add: my_def)

lemma my_start_le: "dm_len m \<le> my_start m"
  by (simp add: my_start_def)

lemma safe_or_fail3:
  "safe r \<Longrightarrow> (\<And>x y z. r = Inr (Some (x, y, z)) \<Longrightarrow> safe (f x y z)) \<Longrightarrow> safe (or_fail r (\<lambda>(x, y, z). f x y z))"
  by (rule safe_or_fail) auto

lemma records_safe:
  assumes "MAX_PACKET_LEN < cap"
  shows "safe (let an_at = my_start m; m = my (sizeof_resource * an) m;
         ns_at = my_start m; m = my (sizeof_resource * ns) m;
         ar_at = my_start m; m = my (sizeof_resource * ar) m in
     or_fail (rrparse sc pkt cap an_at an m pos) (\<lambda>(m, pos, ans).
     or_fail (rrparse sc pkt cap ns_at ns m pos) (\<lambda>(m, pos, nss).
     or_fail (rrparse sc pkt cap ar_at ar m pos) (\<lambda>(m, pos, ars). Inr (Some (f m ans nss ars))))))"
proof -
  define m1 where "m1 = my (sizeof_resource * an) m"
  define m2 where "m2 = my (sizeof_resource * ns) m1"
  define m3 where "m3 = my (sizeof_resource * ar) m2"
  have l: "my_start m + sizeof_resource * an \<le> dm_len m3" "my_start m1 + sizeof_resource * ns \<le> dm_len m3"
      "my_start m2 + sizeof_resource * ar \<le> dm_len m3"
    using my_start_le [of m1] my_start_le [of m2] by (simp_all add: m1_def m2_def m3_def my_len)
  have third: "safe (or_fail (rrparse sc pkt cap (my_start m2) ar m' p) (\<lambda>(m, pos, ars). Inr (Some (f m x y ars))))"
    if "dm_len m3 \<le> dm_len m'" for m' p x y
    using that l(3) by (auto intro!: safe_or_fail rrparse_safe [OF assms])
  have second: "safe (or_fail (rrparse sc pkt cap (my_start m1) ns m' p) (\<lambda>(m, pos, nss).
      or_fail (rrparse sc pkt cap (my_start m2) ar m pos) (\<lambda>(m, pos, ars). Inr (Some (f m x nss ars)))))"
    if "dm_len m3 \<le> dm_len m'" for m' p x
    by (rule safe_or_fail3, rule rrparse_safe [OF assms])
      (use l(2) that in linarith, rule third, use rrparse_grows that in \<open>meson le_trans\<close>)
  have "safe (or_fail (rrparse sc pkt cap (my_start m) an m3 pos) (\<lambda>(m, pos, ans).
     or_fail (rrparse sc pkt cap (my_start m1) ns m pos) (\<lambda>(m, pos, nss).
     or_fail (rrparse sc pkt cap (my_start m2) ar m pos) (\<lambda>(m, pos, ars). Inr (Some (f m ans nss ars))))))"
    by (rule safe_or_fail3, rule rrparse_safe [OF assms l(1)], rule second, rule rrparse_grows)
  then show ?thesis by (simp only: m1_def m2_def m3_def Let_def)
qed

lemma questions_safe:
  "MAX_PACKET_LEN < cap \<Longrightarrow> safe (qdparse sc pkt cap (my_start m) n (my (sizeof_question * n) m) pos)"
  by (rule qdparse_safe) (simp_all add: my_len)

lemma message_parse_safe:
  assumes "MAX_PACKET_LEN < cap"
  shows "safe (message_parse sc pkt cap)"
proof -
  have step: "safe m \<Longrightarrow> (\<And>x y. safe (f x y)) \<Longrightarrow> safe (and_then m (\<lambda>(x, y). f x y))"
    for m :: "('b \<times> 'c) exec" and f :: "'b \<Rightarrow> 'c \<Rightarrow> 'd exec"
    by (rule safe_and_then) auto
  have if_safe: "safe r \<Longrightarrow> safe (if b then Inr None else r)" for b and r :: "dns_message option exec"
    by simp
  show ?thesis
    unfolding message_parse_def Let_def
    by (intro step safe_and_then [OF safe_rd] if_safe safe_or_fail3 safe_net2short questions_safe [OF assms]
        records_safe [OF assms, unfolded Let_def])
qed

text \<open>
  C15.  Whatever bytes arrive, parsing them stores nothing outside \<^verbatim>\<open>_packet\<close> and the one byte
  that follows it, although the array sizes are only checked one at a time.  The stores are those of names, record
  data and address texts, and those to the members of the question and record arrays that \<^verbatim>\<open>my\<close> places in
  \<^verbatim>\<open>_packet\<close> too.
\<close>

theorem message_parse_stores_in_bounds:
  "safe (message_parse sc pkt (MAX_PACKET_LEN + 1))"
  by (rule message_parse_safe) simp

text \<open>Two records, the first with 65406 bytes of text, the second with the root name.\<close>

definition zeros :: "byte list" where
  "zeros = replicate 65407 0"

lemma zeros [simp]: "length zeros = 65407" "i < 65407 \<Longrightarrow> zeros ! i = 0"
  by (simp_all only: zeros_def length_replicate nth_replicate)

definition full_packet :: "byte list" where
  "full_packet = [0, 0, 0, 0, 0, 0, 0, 2, 0, 0, 0, 0] @ [0, 0, 16, 0, 1, 0, 0, 0, 0, 0xFF, 0x7E] @ zeros"

text \<open>
  The terminator of a name is stored without a check: this packet, which fits a UDP datagram,
  makes the reader store one byte behind \<^verbatim>\<open>_packet\<close>.
\<close>

lemma message_parse_off_by_one:
  "message_parse sc full_packet MAX_PACKET_LEN = Inl Out_of_bounds \<and> length full_packet \<le> 65507"
proof -
  have shorts: "net2short full_packet 0 = Inr (0, 2)" "rd full_packet 2 = Inr 0" "rd full_packet 3 = Inr 0"
      "net2short full_packet 4 = Inr (0, 6)" "net2short full_packet 6 = Inr (2, 8)" "net2short full_packet 8 = Inr (0, 10)"
      "net2short full_packet 10 = Inr (0, 12)" "net2short full_packet 13 = Inr (16, 15)"
      "net2short full_packet 15 = Inr (1, 17)" "net2long full_packet 17 = Inr (0, 21)"
      "net2short full_packet 21 = Inr (65406, 23)"
    by (simp_all add: net2short_def net2long_def rd_def full_packet_def nth_Cons')
  have names: "copy_labels sc full_packet MAX_PACKET_LEN l 12 [] = Inr (Some [])" "skip_labels full_packet 12 = Inr 13"
      "copy_labels sc full_packet MAX_PACKET_LEN l 65429 [] = Inr (Some [])"
      "skip_labels full_packet 65429 = Inr 65430" for l
    by (simp_all add: copy_labels.simps [of _ _ _ _ 12] skip_labels.simps [of _ 12]
        copy_labels.simps [of _ _ _ _ 65429] skip_labels.simps [of _ 65429] rd_def full_packet_def nth_append)
  let ?m = "dns_message0 0 (header_of 0 0)"
  have first: "\<exists>m r. rrparse1 sc full_packet MAX_PACKET_LEN 0 (?m\<lparr>dm_len := 128\<rparr>) 12 = Inr (Some (m, 65429, r)) \<and>
      dm_len m = MAX_PACKET_LEN"
    by (simp add: rrparse1_def label_into_def dns_label_def names shorts dns_message0_def cstr_def named_rdata_def rd_bytes_def
        full_packet_def [THEN arg_cong, of length] rr_known_data_def)
  then obtain m r where m: "rrparse1 sc full_packet MAX_PACKET_LEN 0 (?m\<lparr>dm_len := 128\<rparr>) 12 = Inr (Some (m, 65429, r))"
    "dm_len m = MAX_PACKET_LEN" by blast
  have "rrparse1 sc full_packet MAX_PACKET_LEN 64 m 65429 = Inl Out_of_bounds"
    using m(2) by (simp add: rrparse1_def label_into_def dns_label_def names)
  then have "rrparse sc full_packet MAX_PACKET_LEN 0 2 (?m\<lparr>dm_len := 128\<rparr>) 12 = Inl Out_of_bounds"
    using m(1) by (simp add: numeral_2_eq_2)
  moreover have "my 0 (my 0 (my 128 (my 0 ?m))) = ?m\<lparr>dm_len := 128\<rparr>"
    by (simp add: my_def my_start_def dns_message0_def)
  moreover have at: "my_start (my 0 ?m) = 0" by (simp add: my_def my_start_def dns_message0_def)
  ultimately have "message_parse sc full_packet MAX_PACKET_LEN = Inl Out_of_bounds"
    using at by (simp add: message_parse_def shorts Let_def)
  then show ?thesis by (simp add: full_packet_def)
qed

end
