(* ===== verification/DnsRoundtrip.thy ===== *)
theory DnsRoundtrip
  imports DnsSafety
begin

text \<open>
  What the DNS writer produces, the reader understands: integers, the header flags, names, a
  question, and an answer whose name is a compression pointer to the question.
\<close>

section \<open>Bytes at a position\<close>

definition at :: "byte list \<Rightarrow> nat \<Rightarrow> byte list \<Rightarrow> bool" where
  "at pkt p bs \<longleftrightarrow> p + length bs \<le> length pkt \<and> take (length bs) (drop p pkt) = bs"

lemma at_append: "at pkt p (bs @ cs) \<longleftrightarrow> at pkt p bs \<and> at pkt (p + length bs) cs"
proof -
  have "take (length bs + length cs) (drop p pkt) =
      take (length bs) (drop p pkt) @ take (length cs) (drop (p + length bs) pkt)"
    by (simp add: take_add drop_drop add.commute)
  then show ?thesis by (auto simp: at_def)
qed

lemma at_Nil [simp]: "at pkt p [] \<longleftrightarrow> p \<le> length pkt"
  by (simp add: at_def)

lemma at_Cons: "at pkt p (b # bs) \<longleftrightarrow> p < length pkt \<and> pkt ! p = b \<and> at pkt (p + 1) bs"
  using at_append [of pkt p "[b]" bs] by (auto simp: at_def take_Suc_conv_app_nth hd_drop_conv_nth take_Suc)

lemma at_rd: "at pkt p (b # bs) \<Longrightarrow> rd pkt p = Inr b"
  by (simp add: at_Cons rd_def)

lemma at_rd_bytes: "at pkt p bs \<Longrightarrow> rd_bytes pkt p (length bs) = Inr bs"
  by (simp add: at_def rd_bytes_def)

lemma at_self: "at (pre @ bs @ post) (length pre) bs"
  by (simp add: at_def)

lemma short_word: "push_bit 8 (ucast (ucast (drop_bit 8 i) :: byte)) OR ucast (ucast i :: byte) = (i :: 16 word)"
  by (rule bit_word_eqI) (auto simp: bit_simps)

lemma long_word:
  "push_bit 8 (push_bit 8 (push_bit 8 (ucast (ucast (drop_bit 24 l) :: byte)) OR ucast (ucast (drop_bit 16 l) :: byte))
     OR ucast (ucast (drop_bit 8 l) :: byte)) OR ucast (ucast l :: byte) = (take_bit 32 l :: 64 word)"
  (is "?l = ?r")
proof (rule bit_word_eqI)
  fix n assume "n < LENGTH(64)"
  consider "n < 8" | "8 \<le> n" "n < 16" | "16 \<le> n" "n < 24" | "24 \<le> n" "n < 32" | "32 \<le> n" by linarith
  then show "bit ?l n = bit ?r n"
    by cases (auto simp: bit_simps)
qed

lemma wire_lengths [simp]: "length (short2net i) = 2" "length (long2net l) = 4" "length (pointer_to y) = 2"
  by (simp_all add: short2net_def long2net_def pointer_to_def)

lemma at_short: "at pkt p (short2net i) \<Longrightarrow> net2short pkt p = Inr (i, p + 2)"
  using short_word [of i] by (simp add: short2net_def net2short_def at_Cons rd_def)

lemma at_long: "at pkt p (long2net l) \<Longrightarrow> net2long pkt p = Inr (take_bit 32 l, p + 4)"
  using long_word [of l] by (simp add: long2net_def net2long_def at_Cons rd_def numeral_eq_Suc)

section \<open>The flags\<close>

definition dns_header_ok :: "dns_header \<Rightarrow> bool" where
  "dns_header_ok h \<longleftrightarrow> h_opcode h < 16 \<and> h_z h < 8 \<and> h_rcode h < 16"

lemma less_bits: "uint (w :: 'a::len word) < 2 ^ k \<Longrightarrow> k \<le> n \<Longrightarrow> \<not> bit w n"
proof -
  assume "uint w < 2 ^ k" "k \<le> n"
  then have "take_bit k (uint w) = uint w" by (simp add: take_bit_int_eq_self)
  then have "\<not> bit (uint w) n" using \<open>k \<le> n\<close> by (metis bit_take_bit_iff not_le)
  then show ?thesis using bit_imp_le_length [of w n] by (auto simp: bit_uint_iff)
qed

lemma header_of_flags:
  assumes "dns_header_ok h" and "flag_bytes h = (f0, f1)"
  shows "header_of f0 f1 = h"
proof -
  have op: "\<not> bit (h_opcode h) n" if "4 \<le> n" for n
    using less_bits [of "h_opcode h" 4 n] assms(1) that by (simp add: dns_header_ok_def word_less_def)
  have z: "\<not> bit (h_z h) n" if "3 \<le> n" for n
    using less_bits [of "h_z h" 3 n] assms(1) that by (simp add: dns_header_ok_def word_less_def)
  have rc: "\<not> bit (h_rcode h) n" if "4 \<le> n" for n
    using less_bits [of "h_rcode h" 4 n] assms(1) that by (simp add: dns_header_ok_def word_less_def)
  have byte_eq: "v = w" if "\<And>n. n \<in> {0, 1, 2, 3, 4, 5, 6, 7} \<Longrightarrow> bit v n = bit w n" for v w :: byte
  proof (rule bit_word_eqI)
    fix n assume "n < LENGTH(8)"
    then have "n \<in> {0, 1, 2, 3, 4, 5, 6, 7}" by auto
    then show "bit v n = bit w n" by (rule that)
  qed
  have hi: "\<not> bit (h_opcode h) 4" "\<not> bit (h_opcode h) 5" "\<not> bit (h_opcode h) 6" "\<not> bit (h_opcode h) 7"
      "\<not> bit (h_z h) 3" "\<not> bit (h_z h) 4" "\<not> bit (h_z h) 5" "\<not> bit (h_z h) 6" "\<not> bit (h_z h) 7"
      "\<not> bit (h_rcode h) 4" "\<not> bit (h_rcode h) 5" "\<not> bit (h_rcode h) 6" "\<not> bit (h_rcode h) 7"
    using op z rc by simp_all
  have single: "w AND 0x80 \<noteq> 0 \<longleftrightarrow> bit w 7" "w AND 4 \<noteq> 0 \<longleftrightarrow> bit w 2" "w AND 2 \<noteq> 0 \<longleftrightarrow> bit w 1"
      "w AND 1 \<noteq> 0 \<longleftrightarrow> bit w 0" for w :: byte
    using and_exp_eq_0_iff_not_bit [of w 7] and_exp_eq_0_iff_not_bit [of w 2]
      and_exp_eq_0_iff_not_bit [of w 1] and_exp_eq_0_iff_not_bit [of w 0] by simp_all
  have f: "f0 = fst (flag_bytes h)" "f1 = snd (flag_bytes h)" using assms(2) by simp_all
  have bits: "bit f0 7 = h_qr h" "bit f0 2 = h_aa h" "bit f0 1 = h_tc h" "bit f0 0 = h_rd h" "bit f1 7 = h_ra h"
    using hi by (simp_all add: f flag_bytes_def bit_simps)
  have "drop_bit 3 (f0 AND 0x78) = h_opcode h"
    by (rule byte_eq) (elim insertE emptyE; simp add: f flag_bytes_def bit_simps hi)
  moreover have "drop_bit 4 (f1 AND 0x70) = h_z h"
    by (rule byte_eq) (elim insertE emptyE; simp add: f flag_bytes_def bit_simps hi)
  moreover have "f1 AND 0x0F = h_rcode h"
    by (rule byte_eq) (elim insertE emptyE; simp add: f flag_bytes_def bit_simps hi)
  ultimately show ?thesis by (simp only: header_of_def single bits) simp
qed

section \<open>Names\<close>

text \<open>A name as a list of labels, its text and its encoding.\<close>

definition label_ok :: "byte list \<Rightarrow> bool" where
  "label_ok l \<longleftrightarrow> l \<noteq> [] \<and> length l < 64 \<and> 0 \<notin> set l \<and> dot \<notin> set l"

definition dns_text :: "byte list list \<Rightarrow> byte list" where
  "dns_text ls = concat (map (\<lambda>l. l @ [dot]) ls)"

definition enc :: "byte list list \<Rightarrow> byte list" where
  "enc ls = concat (map (\<lambda>l. of_nat (length l) # l) ls)"

definition dns_name_ok :: "byte list list \<Rightarrow> bool" where
  "dns_name_ok ls \<longleftrightarrow> ls \<noteq> [] \<and> (\<forall>l \<in> set ls. label_ok l) \<and> length (enc ls) \<le> 255"

lemma enc_simps [simp]: "enc [] = []" "enc (l # ls) = of_nat (length l) # l @ enc ls"
  by (simp_all add: enc_def)

lemma text_simps [simp]: "dns_text [] = []" "dns_text (l # ls) = l @ dot # dns_text ls"
  by (simp_all add: dns_text_def)

lemma text_length: "length (dns_text ls) = length (enc ls)"
  by (induction ls) simp_all

lemma text_no_NUL: "\<forall>l \<in> set ls. label_ok l \<Longrightarrow> 0 \<notin> set (dns_text ls)"
  by (induction ls) (auto simp: label_ok_def dot_def)

lemma cstr_text: "\<forall>l \<in> set ls. label_ok l \<Longrightarrow> cstr (dns_text ls) = dns_text ls"
  using text_no_NUL [of ls] by (auto simp: cstr_def takeWhile_eq_all_conv)

lemma less_64: "uint (w :: byte) < 64 \<Longrightarrow> w AND 0xC0 = 0"
proof (rule bit_word_eqI)
  fix n
  assume "uint w < 64" "n < LENGTH(8)"
  then have "\<not> bit w 6" "\<not> bit w 7" "n \<in> {0, 1, 2, 3, 4, 5, 6, 7}"
    using less_bits [of w 6 6] less_bits [of w 6 7] by auto
  then show "bit (w AND 0xC0) n = bit (0 :: byte) n"
    by (elim insertE emptyE) (simp_all add: bit_simps)
qed

lemma label_byte:
  assumes "label_ok l"
  shows "unat (of_nat (length l) :: byte) = length l" "(of_nat (length l) :: byte) \<noteq> 0"
    "(of_nat (length l) :: byte) AND 0xC0 = 0"
proof -
  have l: "0 < length l" "length l < 64" using assms by (auto simp: label_ok_def)
  show u: "unat (of_nat (length l) :: byte) = length l"
    using l by (simp add: unsigned_of_nat take_bit_nat_eq_self)
  then show "(of_nat (length l) :: byte) \<noteq> 0" using l by (metis less_numeral_extra(3) unat_0)
  show "(of_nat (length l) :: byte) AND 0xC0 = 0" using u l by (intro less_64) (simp add: uint_nat)
qed

lemma host_word:
  "dot \<notin> set w \<Longrightarrow> length lbl + length w \<le> 255 \<Longrightarrow>
   host_labels (w @ cs) pend lbl = host_labels cs pend (lbl @ w)"
  by (induction w arbitrary: lbl) auto

lemma host_labels_enc:
  "ls \<noteq> [] \<Longrightarrow> \<forall>l \<in> set ls. label_ok l \<Longrightarrow> length d + length (enc ls) \<le> 255 \<Longrightarrow>
   host_labels (dns_text ls) (length d) (d @ [0]) = Some (d @ enc ls)"
proof (induction ls arbitrary: d)
  case (Cons l ls)
  have l: "dot \<notin> set l" using Cons.prems(2) by (simp add: label_ok_def)
  have close: "close_label (length d) (d @ 0 # l) = d @ of_nat (length l) # l"
    by (simp add: close_label_def)
  show ?case
  proof (cases "ls = []")
    case True
    then show ?thesis using host_word [OF l, of "d @ [0]" "[dot]" "length d"] Cons.prems(3) close by simp
  next
    case False
    then have "dns_text ls \<noteq> []" by (cases ls) simp_all
    moreover have "length (enc ls) \<noteq> 0" using False by (cases ls) simp_all
    then have "length d + length l < 254" using Cons.prems(3) by (cases "enc ls") auto
    ultimately show ?thesis
      using host_word [OF l, of "d @ [0]" "dot # dns_text ls" "length d"] Cons.prems close False
        Cons.IH [of "d @ of_nat (length l) # l"]
      by simp
  qed
qed simp

lemma host_label_enc:
  assumes "dns_name_ok ls"
  shows "host_label (dns_text ls) = Some (enc ls @ [0])"
proof -
  have "length (enc ls) \<noteq> 1" using assms by (cases ls) (auto simp: dns_name_ok_def label_ok_def)
  then show ?thesis using host_labels_enc [of ls "[]"] assms by (simp add: host_label_def dns_name_ok_def)
qed

section \<open>Reading a name back\<close>

lemma skip_pointers_label: "at pkt pos (b # bs) \<Longrightarrow> b AND 0xC0 = 0 \<Longrightarrow> skip_pointers sc pkt len pos prev = Inr (Some pos)"
  by (simp add: skip_pointers.simps [of sc pkt len pos] at_rd)

lemma copy_labels_enc:
  assumes "\<forall>l \<in> set ls. label_ok l" and "at pkt pos (enc ls @ [0])" and "length out + length (enc ls) \<le> 255"
    and "len + length out + length (enc ls) < MAX_PACKET_LEN" and "MAX_PACKET_LEN \<le> cap"
  shows "copy_labels sc pkt cap len pos out = Inr (Some (out @ dns_text ls))"
  using assms
proof (induction ls arbitrary: pos out)
  case Nil
  then show ?case by (simp add: copy_labels.simps [of sc pkt cap len pos] at_rd)
next
  case (Cons l ls)
  have ok: "label_ok l" using Cons.prems(1) by simp
  note b = label_byte [OF ok]
  have p: "at pkt pos (of_nat (length l) # l @ enc ls @ [0])" using Cons.prems(2) by simp
  then have l: "at pkt (pos + 1) l" and r: "at pkt (pos + 1 + length l) (enc ls @ [0])"
    by (simp_all only: at_Cons at_append)
  have "copy_labels sc pkt cap len (pos + length l + 1) (out @ l @ [dot]) = Inr (Some ((out @ l @ [dot]) @ dns_text ls))"
    using Cons.prems r by (intro Cons.IH) (simp_all add: add_ac)
  then show ?case
    using Cons.prems b at_rd [OF p] skip_pointers_label [OF p b(3)] at_rd_bytes [OF l]
    by (simp add: copy_labels.simps [of sc pkt cap len pos])
qed

lemma skip_labels_enc:
  "\<forall>l \<in> set ls. label_ok l \<Longrightarrow> at pkt pos (enc ls @ [0]) \<Longrightarrow> skip_labels pkt pos = Inr (pos + length (enc ls) + 1)"
proof (induction ls arbitrary: pos)
  case Nil
  then show ?case by (simp add: skip_labels.simps [of pkt pos] at_rd)
next
  case (Cons l ls)
  have ok: "label_ok l" using Cons.prems(1) by simp
  note b = label_byte [OF ok]
  have p: "at pkt pos (of_nat (length l) # l @ enc ls @ [0])" using Cons.prems(2) by simp
  then have "at pkt (pos + length l + 1) (enc ls @ [0])"
    by (simp add: at_Cons at_append add_ac)
  then show ?case using Cons.IH [of "pos + length l + 1"] Cons.prems(1) b at_rd [OF p]
    by (simp add: skip_labels.simps [of pkt pos] add_ac)
qed

text \<open>What \<^verbatim>\<open>_label\<close> leaves in the message after a new or a known name.\<close>

definition with_label :: "dns_message \<Rightarrow> byte list \<Rightarrow> dns_message" where
  "with_label m name =
     (if name \<in> set (dm_labels m) then m
      else m\<lparr>dm_labels := (if length (dm_labels m) < MAX_NUM_LABELS then dm_labels m @ [name] else dm_labels m),
             dm_len := dm_len m + length name + 1\<rparr>)"

lemma dns_label_enc:
  assumes "dns_name_ok ls" and "at pkt pos (enc ls @ [0])" and "dm_len m + length (enc ls) < MAX_PACKET_LEN"
    and "MAX_PACKET_LEN \<le> cap"
  shows "dns_label sc pkt cap m pos =
    Inr (Some (with_label m (dns_text ls), pos + length (enc ls) + 1, dns_text ls))"
proof -
  have ok: "\<forall>l \<in> set ls. label_ok l" "length (enc ls) \<le> 255" using assms(1) by (simp_all add: dns_name_ok_def)
  show ?thesis
    using copy_labels_enc [OF ok(1) assms(2), of "[]" "dm_len m" cap sc] ok assms skip_labels_enc [OF ok(1) assms(2)]
    by (simp add: dns_label_def with_label_def cstr_text text_length Let_def)
qed

text \<open>The same through a compression pointer.\<close>

definition pointer_ok :: "bool \<Rightarrow> nat \<Rightarrow> bool" where
  "pointer_ok sc y \<longleftrightarrow> y < 4096 \<and> (sc \<longrightarrow> y mod 256 < 128)"

lemma pointer_bytes:
  assumes "pointer_ok sc y"
  shows "\<exists>b0 b1. pointer_to y = [b0, b1] \<and> b0 AND 0xC0 \<noteq> 0 \<and> b0 \<noteq> 0 \<and> ldecomp sc b0 b1 = y"
proof -
  let ?w = "of_nat y :: 16 word"
  let ?hi = "ucast (drop_bit 8 ?w) :: byte" and ?lo = "ucast ?w :: byte"
  have y: "y < 4096" "sc \<Longrightarrow> y mod 256 < 128" using assms by (auto simp: pointer_ok_def)
  have w: "unat ?w = y" using y(1) by (simp add: unsigned_of_nat take_bit_nat_eq_self)
  then have u: "uint ?w = int y" by (simp add: uint_nat)
  have hi: "\<not> bit ?w n" if "12 \<le> n" for n
    using less_bits [of ?w 12 n] that u y(1) by simp
  have seven: "\<not> bit ?w 7" if sc
  proof -
    define q r where "q = y div 256" and "r = y mod 256"
    then have "y = r + 128 * (2 * q)" "r < 128" using y(2) [OF that] by simp_all
    then have "int y div 128 = 2 * int q" by simp
    then have "\<not> bit (uint ?w) 7" unfolding u by (simp add: bit_iff_odd)
    then show ?thesis by (simp add: bit_uint_iff)
  qed
  have hi': "\<not> bit y 14" "\<not> bit y 15" using hi [of 14] hi [of 15] by (simp_all add: bit_simps)
  have xor: "0xC0 XOR (?hi OR 0xC0) = ?hi"
  proof (rule bit_word_eqI)
    fix n assume "n < LENGTH(8)"
    then have "n \<in> {0, 1, 2, 3, 4, 5, 6, 7}" by auto
    then show "bit (0xC0 XOR (?hi OR 0xC0)) n = bit ?hi n"
      by (elim insertE emptyE) (simp_all add: bit_simps hi')
  qed
  have lo: "(if sc then scast ?lo else ucast ?lo) = (ucast ?lo :: 16 word)"
  proof (cases sc)
    case True
    have "(scast ?lo :: 16 word) = ucast ?lo"
    proof (rule bit_word_eqI)
      fix n assume "n < LENGTH(16)"
      consider "n < 7" | "n = 7" | "8 \<le> n" by linarith
      then show "bit (scast ?lo :: 16 word) n = bit (ucast ?lo :: 16 word) n"
        using seven [OF True] by cases (auto simp: bit_simps min_def)
    qed
    then show ?thesis by simp
  qed simp
  have "\<not> ?w \<ge> 4096" using y(1) w by (simp add: word_le_nat_alt)
  then have "ldecomp sc (?hi OR 0xC0) ?lo = y"
    using short_word [of ?w] w by (simp add: ldecomp_def xor lo Let_def)
  moreover have "bit ((?hi OR 0xC0) AND 0xC0) 7" "bit (?hi OR 0xC0) 7" by (simp_all add: bit_simps)
  then have "(?hi OR 0xC0) AND 0xC0 \<noteq> 0" "?hi OR 0xC0 \<noteq> 0" by (metis bit_0_eq bot_apply bot_bool_def)+
  ultimately show ?thesis
    by (simp add: pointer_to_def short2net_def)
qed

lemma dns_label_pointer:
  assumes "dns_name_ok ls" and "at pkt pos (pointer_to y)" and "at pkt y (enc ls @ [0])" and "pointer_ok sc y"
    and "y \<le> dm_len m" and "dm_len m + length (enc ls) < MAX_PACKET_LEN" and "MAX_PACKET_LEN \<le> cap"
  shows "dns_label sc pkt cap m pos = Inr (Some (with_label m (dns_text ls), pos + 2, dns_text ls))"
proof -
  have ok: "\<forall>l \<in> set ls. label_ok l" "length (enc ls) \<le> 255" "ls \<noteq> []" using assms(1) by (simp_all add: dns_name_ok_def)
  obtain b0 b1 where p: "pointer_to y = [b0, b1]" "b0 AND 0xC0 \<noteq> 0" "b0 \<noteq> 0" "ldecomp sc b0 b1 = y"
    using pointer_bytes [OF assms(4)] by blast
  obtain l ls' where ls: "ls = l # ls'" using ok(3) by (cases ls) auto
  have y: "rd pkt y = Inr (of_nat (length l))" using assms(3) at_rd ls by simp
  note b = label_byte [of l]
  have rdp: "rd pkt pos = Inr b0" "rd pkt (pos + 1) = Inr b1" using assms(2) p(1) by (auto simp: at_Cons rd_def)
  have skip: "skip_pointers sc pkt (dm_len m) pos (-1) = Inr (Some y)" "skip_pointers sc pkt (dm_len m) y (-1) = Inr (Some y)"
      "skip_pointers sc pkt (dm_len m) y (int y) = Inr (Some y)"
    using p rdp y b ok(1) ls assms(5)
    by (simp_all add: skip_pointers.simps [of sc pkt "dm_len m" pos] skip_pointers.simps [of sc pkt "dm_len m" y])
  have "copy_labels sc pkt cap (dm_len m) pos [] = copy_labels sc pkt cap (dm_len m) y []"
    using skip p rdp y b ok(1) ls
    by (simp add: copy_labels.simps [of sc pkt cap "dm_len m" pos] copy_labels.simps [of sc pkt cap "dm_len m" y])
  also have "\<dots> = Inr (Some (dns_text ls))"
    using copy_labels_enc [OF ok(1) assms(3), of "[]" "dm_len m" cap sc] ok assms(6,7) by simp
  finally show ?thesis
    using skip_labels.simps [of pkt pos] p rdp assms(6,7)
    by (simp add: dns_label_def with_label_def cstr_text [OF ok(1)] text_length Let_def)
qed

section \<open>Matching labels\<close>

lemma wire_at_at: "at wire j (b # bs) \<Longrightarrow> wire_at wire j = Inr b"
  by (simp add: at_Cons wire_at_def)

lemma lchars_eq:
  "at lbl (i + k) cs \<Longrightarrow> at wire (j + k) cs \<Longrightarrow> lchars wire lbl (In_label i) (In_packet j) k (length cs) = Inr True"
proof (induction cs arbitrary: k)
  case (Cons c cs)
  then show ?case
    using at_rd [of lbl "i + k" c cs] wire_at_at [of wire "j + k" c cs] Cons.IH [of "k + 1"]
    by (simp add: at_Cons)
qed simp

lemma lmatch_enc:
  "ls \<noteq> [] \<Longrightarrow> \<forall>l \<in> set ls. label_ok l \<Longrightarrow> at lbl i (enc ls @ [0]) \<Longrightarrow> at wire j (enc ls @ [0]) \<Longrightarrow>
   lmatch sc wire lbl (In_label i) (In_packet j) = Inr True"
proof (induction ls arbitrary: i j)
  case (Cons l ls)
  have ok: "label_ok l" using Cons.prems(2) by simp
  note b = label_byte [OF ok]
  let ?n = "length l"
  have i: "at lbl i (of_nat ?n # l @ enc ls @ [0])" and j: "at wire j (of_nat ?n # l @ enc ls @ [0])"
    using Cons.prems by simp_all
  then have c: "lchars wire lbl (In_label i) (In_packet j) 1 ?n = Inr True"
    by (intro lchars_eq) (simp_all only: at_Cons at_append)
  have i': "at lbl (i + (?n + 1)) (enc ls @ [0])" and j': "at wire (j + (?n + 1)) (enc ls @ [0])"
    using i j by (simp_all only: at_Cons at_append add_ac)
  show ?case
  proof (cases "ls = []")
    case True
    then show ?thesis using b at_rd [OF i] wire_at_at [OF j] c at_rd [of lbl "i + (?n + 1)" 0 "[]"]
        wire_at_at [of wire "j + (?n + 1)" 0 "[]"] i' j'
      by (simp add: lmatch.simps [of sc wire lbl "In_label i" "In_packet j"])
  next
    case False
    then obtain l' ls' where ls: "ls = l' # ls'" by (cases ls) auto
    then have b': "(of_nat (length l') :: byte) \<noteq> 0" using Cons.prems(2) label_byte by simp
    have "rd lbl (i + (?n + 1)) = Inr (of_nat (length l'))" "wire_at wire (j + (?n + 1)) = Inr (of_nat (length l'))"
      using i' j' at_rd wire_at_at ls by simp_all
    then show ?thesis using b b' at_rd [OF i] wire_at_at [OF j] c Cons.IH [OF False _ i' j'] Cons.prems(2)
      by (simp add: lmatch.simps [of sc wire lbl "In_label i" "In_packet j"])
  qed
qed simp

lemma host_find_no_labels:
  "\<forall>l \<in> set ls. label_ok l \<Longrightarrow> at lbl x (enc ls @ [0]) \<Longrightarrow> host_find sc wire [] lbl x = Inr None"
proof (induction ls arbitrary: x)
  case Nil
  then show ?case by (simp add: host_find.simps [of sc wire "[]" lbl x] at_rd)
next
  case (Cons l ls)
  have ok: "label_ok l" using Cons.prems(1) by simp
  note b = label_byte [OF ok]
  have p: "at lbl x (of_nat (length l) # l @ enc ls @ [0])" using Cons.prems(2) by simp
  then have "at lbl (x + length l + 1) (enc ls @ [0])" by (simp add: at_Cons at_append add_ac)
  then show ?case using Cons.IH [of "x + length l + 1"] Cons.prems(1) b at_rd [OF p]
    by (simp add: host_find.simps [of sc wire "[]" lbl x])
qed

lemma host_register_first:
  assumes "dns_name_ok ls"
  shows "\<exists>ys. host_register p (enc ls @ [0]) 0 [] = p # ys"
proof -
  have grow: "\<exists>ys. host_register p out x labels = labels @ ys" for out x labels
  proof (induction p out x labels rule: host_register.induct)
    case (1 p out x labels)
    then show ?case by (subst host_register.simps) auto
  qed
  obtain l ls' where "ls = l # ls'" "label_ok l" using assms by (cases ls) (auto simp: dns_name_ok_def)
  then show ?thesis using label_byte [of l] grow [of "enc ls @ [0]" _ "[p]"]
    by (subst host_register.simps) simp
qed

section \<open>Messages\<close>

declare add_2_eq_Suc [simp del] add_2_eq_Suc' [simp del]

lemma host_first:
  assumes "dns_name_ok ls" and "wm_labels m = []" and "length (wm_wire m) + length (enc ls) < MAX_PACKET_LEN"
  shows "\<exists>ys. host sc m (Some (dns_text ls)) =
    Inr (m\<lparr>wm_wire := wm_wire m @ enc ls @ [0], wm_labels := length (wm_wire m) # ys\<rparr>, length (enc ls) + 1)"
proof -
  have "host_find sc (wm_wire m) [] (enc ls @ [0]) 0 = Inr None"
    using host_find_no_labels [of ls "enc ls @ [0]" 0] assms(1) by (simp add: dns_name_ok_def at_def)
  moreover obtain ys where "host_register (length (wm_wire m)) (enc ls @ [0]) 0 [] = length (wm_wire m) # ys"
    using host_register_first [OF assms(1)] by blast
  ultimately show ?thesis using assms by (intro exI [of _ ys]) (simp add: host_def host_label_enc)
qed

lemma host_again:
  assumes "dns_name_ok ls" and "wm_labels m = y # ys" and "at (wm_wire m) y (enc ls @ [0])"
    and "length (wm_wire m) + 2 \<le> MAX_PACKET_LEN" and "pointer_ok sc y"
  shows "\<exists>lbs. host sc m (Some (dns_text ls)) =
    Inr (m\<lparr>wm_wire := wm_wire m @ pointer_to y, wm_labels := lbs\<rparr>, 2)"
proof -
  have ok: "ls \<noteq> []" "\<forall>l \<in> set ls. label_ok l" using assms(1) by (simp_all add: dns_name_ok_def)
  then obtain l ls' where ls: "ls = l # ls'" "label_ok l" by (cases ls) auto
  have "lmatch sc (wm_wire m) (enc ls @ [0]) (In_label 0) (In_packet y) = Inr True"
    using lmatch_enc [OF ok, of "enc ls @ [0]" 0] assms(3) by (simp add: at_def)
  then have "host_find sc (wm_wire m) (y # ys) (enc ls @ [0]) 0 = Inr (Some (0, y))"
    using label_byte [OF ls(2)] ls(1) by (subst host_find.simps) (simp add: rd_def)
  moreover have "length (pointer_to y) = 2" using pointer_bytes [OF assms(5)] by auto
  ultimately show ?thesis using assms
    by (intro exI [of _ "host_register (length (wm_wire m)) (pointer_to y) 0 (y # ys)"])
      (simp add: host_def host_label_enc Let_def)
qed

text \<open>The message with a question, and with an address record for the same name.\<close>

definition query_wire :: "byte list list \<Rightarrow> 16 word \<Rightarrow> 16 word \<Rightarrow> byte list" where
  "query_wire ls t c = replicate 12 0 @ (enc ls @ [0]) @ short2net t @ short2net c"

lemma message_qd_wire:
  assumes "dns_name_ok ls"
  shows "\<exists>ys. message_qd sc (wire_message0 i h) (Some (dns_text ls)) t c =
    Inr ((wire_message0 i h)\<lparr>wm_qdcount := 1, wm_wire := query_wire ls t c, wm_labels := 12 # ys\<rparr>)"
proof -
  let ?m = "(wire_message0 i h)\<lparr>wm_qdcount := 1, wm_wire := replicate 12 0\<rparr>"
  have len: "length (enc ls) \<le> 255" using assms by (simp add: dns_name_ok_def)
  obtain ys where "host sc ?m (Some (dns_text ls)) =
      Inr (?m\<lparr>wm_wire := wm_wire ?m @ enc ls @ [0], wm_labels := 12 # ys\<rparr>, length (enc ls) + 1)"
    using host_first [OF assms, of ?m sc] len by (auto simp: wire_message0_def)
  then show ?thesis using len
    by (auto simp: message_qd_def wire_start_def wire_put_def wire_message0_def query_wire_def short2net_def)
qed

lemma message_an_wire:
  assumes "dns_name_ok ls" and "wm_wire m = query_wire ls t c" and "wm_labels m = 12 # ys"
  shows "\<exists>lbs. and_then (message_an sc m (Some (dns_text ls)) t2 c2 ttl) (\<lambda>m. message_rdata_long m ip) =
    Inr (m\<lparr>wm_ancount := wm_ancount m + 1, wm_labels := lbs,
      wm_wire := query_wire ls t c @ pointer_to 12 @ short2net t2 @ short2net c2 @ long2net ttl @
        short2net 4 @ long2net (ucast ip)\<rparr>)"
proof -
  let ?m = "m\<lparr>wm_ancount := wm_ancount m + 1\<rparr>"
  have len: "length (enc ls) \<le> 255" using assms(1) by (simp add: dns_name_ok_def)
  have at: "at (query_wire ls t c) 12 (enc ls @ [0])"
    using at_self [of "replicate 12 0" "enc ls @ [0]" "short2net t @ short2net c"] by (simp add: query_wire_def)
  obtain lbs where "host sc ?m (Some (dns_text ls)) = Inr (?m\<lparr>wm_wire := wm_wire ?m @ pointer_to 12, wm_labels := lbs\<rparr>, 2)"
    using host_again [OF assms(1), of ?m 12 ys sc] assms(2,3) at len
    by (auto simp: pointer_ok_def query_wire_def short2net_def)
  moreover have "query_wire ls t c \<noteq> []" "length (query_wire ls t c) \<le> 272" "length (pointer_to 12) = 2"
    using len by (simp_all add: query_wire_def short2net_def pointer_to_def)
  ultimately show ?thesis using assms(2)
    by (auto simp: message_an_def rrappend_def wire_start_def wire_put_def message_rdata_long_def short2net_def long2net_def)
qed

text \<open>The fixed part of a packet.\<close>

definition packet_bytes ::
    "16 word \<Rightarrow> dns_header \<Rightarrow> 16 word \<Rightarrow> 16 word \<Rightarrow> byte list \<Rightarrow> byte list" where
  "packet_bytes i h qd an body =
     short2net i @ [fst (flag_bytes h), snd (flag_bytes h)] @ short2net qd @ short2net an @ short2net 0 @ short2net 0 @ body"

lemma message_packet_bytes:
  assumes "wm_wire m = replicate 12 0 @ body" and "wm_nscount m = 0" and "wm_arcount m = 0"
  shows "message_packet m = packet_bytes (wm_id m) (wm_header m) (wm_qdcount m) (wm_ancount m) body"
  using assms by (simp add: message_packet_def packet_bytes_def case_prod_beta Let_def numeral_eq_Suc)

lemma packet_body: "at (packet_bytes i h qd an body @ rest) 12 body"
  using at_self [of "short2net i @ [fst (flag_bytes h), snd (flag_bytes h)] @ short2net qd @ short2net an @
    short2net 0 @ short2net 0" body rest]
  by (simp add: packet_bytes_def)

lemma packet_header:
  assumes "pkt = packet_bytes i h qd an body @ rest" and "dns_header_ok h"
    and "sizeof_question * unat qd \<le> MAX_PACKET_LEN - 8" and "sizeof_resource * unat an \<le> MAX_PACKET_LEN - 8"
  shows "message_parse sc pkt cap =
    or_fail (qdparse sc pkt cap 0 (unat qd) (my (sizeof_question * unat qd) (dns_message0 i h)) 12) (\<lambda>(m, pos, qds).
      let slot = my_start m; m = my 0 (my 0 (my (sizeof_resource * unat an) m)) in
      or_fail (rrparse sc pkt cap slot (unat an) m pos) (\<lambda>(m, pos, ans).
      Inr (Some (m\<lparr>dm_qd := qds, dm_an := ans, dm_ns := [], dm_ar := []\<rparr>))))"
proof -
  have at: "at pkt 0 (packet_bytes i h qd an body)"
    using at_self [of "[]" "packet_bytes i h qd an body" rest] assms(1) by simp
  then have p: "at pkt 0 (short2net i)" "at pkt 2 [fst (flag_bytes h), snd (flag_bytes h)]" "at pkt 4 (short2net qd)"
      "at pkt 6 (short2net an)" "at pkt 8 (short2net 0)" "at pkt 10 (short2net 0)"
    unfolding packet_bytes_def at_append by simp_all
  have "header_of (fst (flag_bytes h)) (snd (flag_bytes h)) = h"
    using header_of_flags [OF assms(2)] by simp
  moreover have "my_start (dns_message0 i h) = 0" by (simp add: my_start_def dns_message0_def)
  ultimately show ?thesis
    using at_short [OF p(1)] at_short [OF p(3)] at_short [OF p(4)] at_short [OF p(5)] at_short [OF p(6)] p(2) assms(3,4)
    by (simp add: message_parse_def at_Cons rd_def Let_def)
qed

lemma qdparse_1:
  assumes "dns_name_ok ls" and "at pkt 12 ((enc ls @ [0]) @ short2net t @ short2net c)" and "dm_len m \<le> 64"
    and "MAX_PACKET_LEN \<le> cap"
  shows "qdparse sc pkt cap 0 1 m 12 =
    Inr (Some (with_label m (dns_text ls), 17 + length (enc ls), [\<lparr>q_name = dns_text ls, q_type = t, q_class = c\<rparr>]))"
proof -
  have len: "length (enc ls) \<le> 255" using assms(1) by (simp add: dns_name_ok_def)
  have p: "at pkt 12 (enc ls @ [0])" "at pkt (13 + length (enc ls)) (short2net t)"
      "at pkt (15 + length (enc ls)) (short2net c)"
    using assms(2) unfolding at_append by (simp_all add: add_ac)
  then show ?thesis
    using dns_label_enc [OF assms(1) p(1), of m cap sc] len assms(3,4) at_short [OF p(2)] at_short [OF p(3)]
    by (simp add: label_into_def)
qed

text \<open>
  A question reads back: the message that \<^verbatim>\<open>message_qd\<close> builds for any well-formed name,
  type and class, printed by \<^verbatim>\<open>message_packet\<close>, is parsed to the same header and question,
  whatever follows it in the receive buffer.
\<close>

lemma dns_question_roundtrip:
  assumes "message_qd sc (wire_message0 i h) (Some (dns_text ls)) t c = Inr m"
    and "dns_name_ok ls" and "dns_header_ok h"
  shows "\<exists>m'. message_parse sc (message_packet m @ rest) MAX_PACKET_LEN = Inr (Some m') \<and>
    dm_id m' = i \<and> dm_header m' = h \<and> dm_qd m' = [\<lparr>q_name = dns_text ls, q_type = t, q_class = c\<rparr>] \<and>
    dm_an m' = [] \<and> dm_ns m' = [] \<and> dm_ar m' = []"
proof -
  let ?pkt = "message_packet m @ rest"
  obtain ys where "m = (wire_message0 i h)\<lparr>wm_qdcount := 1, wm_wire := query_wire ls t c, wm_labels := 12 # ys\<rparr>"
    using message_qd_wire [OF assms(2), of sc i h t c] assms(1) by auto
  then have pkt: "?pkt = packet_bytes i h 1 0 ((enc ls @ [0]) @ short2net t @ short2net c) @ rest"
    by (subst message_packet_bytes [where body = "(enc ls @ [0]) @ short2net t @ short2net c"])
      (simp_all add: query_wire_def wire_message0_def)
  have at: "at ?pkt 12 ((enc ls @ [0]) @ short2net t @ short2net c)"
    unfolding pkt by (rule packet_body)
  have "dm_len (my 16 (dns_message0 i h)) \<le> 64" by (simp add: my_def my_start_def dns_message0_def)
  note q = qdparse_1 [OF assms(2) at this order_refl]
  have id: "dm_id (with_label (my 16 (dns_message0 i h)) w) = i" "dm_header (with_label (my 16 (dns_message0 i h)) w) = h" for w
    by (simp_all add: with_label_def my_def my_start_def dns_message0_def)
  show ?thesis
    using packet_header [OF pkt assms(3)] q [of sc] id [of "dns_text ls"] by (simp add: my_def my_start_def)
qed

lemma rrparse_1:
  assumes "dns_name_ok ls" and "at pkt 12 (enc ls @ [0])" and "pointer_ok sc 12"
    and "at pkt p (pointer_to 12 @ short2net QTYPE_A @ short2net c @ long2net ttl @ short2net 4 @ long2net (ucast ip))"
    and "dns_text ls \<in> set (dm_labels m)" and "12 \<le> dm_len m" and "dm_len m \<le> 512" and "p \<le> 512" and "MAX_PACKET_LEN \<le> cap"
    and "slot \<le> 512"
  shows "\<exists>m' text. rrparse sc pkt cap slot 1 m p = Inr (Some (m', p + 16,
      [\<lparr>rr_name = dns_text ls, rr_type = QTYPE_A, rr_class = c, rr_ttl = take_bit 32 ttl, rr_rdlength = 4,
        rr_rdata = long2net (ucast ip), rr_known = K_a ip text\<rparr>])) \<and>
    dm_id m' = dm_id m \<and> dm_header m' = dm_header m"
proof -
  have len: "length (enc ls) \<le> 255" using assms(1) by (simp add: dns_name_ok_def)
  have a: "at pkt p (pointer_to 12)" "at pkt (p + 2) (short2net QTYPE_A)" "at pkt (p + 4) (short2net c)"
      "at pkt (p + 6) (long2net ttl)" "at pkt (p + 10) (short2net 4)" "at pkt (p + 12) (long2net (ucast ip))"
    using assms(4) unfolding at_append by (simp_all add: add_ac)
  have label: "dns_label sc pkt cap m p = Inr (Some (m, p + 2, dns_text ls))"
    using dns_label_pointer [OF assms(1) a(1) assms(2,3)] assms(5,6,7,9) len by (simp add: with_label_def)
  have ip: "rd_bytes pkt (p + 12) 4 = Inr (long2net (ucast ip))"
    using at_rd_bytes [OF a(6)] by simp
  have "(take_bit 32 (ucast ip) :: 64 word) = ucast ip"
    by (rule bit_word_eqI) (auto simp: bit_simps dest: bit_imp_le_length)
  then have word: "net2long pkt (p + 12) = Inr (ucast ip, p + 16)" using at_long [OF a(6)] by (simp add: numeral_eq_Suc)
  have ip_back: "(ucast (ucast ip :: 64 word) :: 32 word) = ip" by (rule bit_word_eqI) (auto simp: bit_simps)
  have "p + 16 \<le> length pkt" using a(6) by (simp add: at_def)
  then obtain quad where q4: "dotted_quad pkt (p + 12) = Inr quad"
    by (simp add: dotted_quad_def rd_def)
  then have "length quad \<le> 15" by (rule dotted_quad_length)
  show ?thesis
    using label at_short [OF a(2)] at_short [OF a(3)] at_long [OF a(4)] at_short [OF a(5)] ip word ip_back q4 \<open>length quad \<le> 15\<close> assms(7,8,9,10)
    by (auto simp: rrparse1_def label_into_def named_rdata_def rr_known_data_def add.commute [of "numeral k" p for k])
qed


text \<open>
  C16.  An address record whose name repeats the question reads back: the writer stores a
  compression pointer to offset 12 and the reader follows it.
\<close>

theorem dns_compressed_answer_roundtrip:
  assumes "message_qd sc (wire_message0 i h) (Some (dns_text ls)) t c = Inr m1"
    and "message_an sc m1 (Some (dns_text ls)) QTYPE_A c2 ttl = Inr m2" and "message_rdata_long m2 ip = Inr m"
    and "dns_name_ok ls" and "dns_header_ok h"
  shows "\<exists>m' quad. message_parse sc (message_packet m @ rest) MAX_PACKET_LEN = Inr (Some m') \<and>
    dm_id m' = i \<and> dm_header m' = h \<and> dm_qd m' = [\<lparr>q_name = dns_text ls, q_type = t, q_class = c\<rparr>] \<and>
    dm_an m' = [\<lparr>rr_name = dns_text ls, rr_type = QTYPE_A, rr_class = c2, rr_ttl = take_bit 32 ttl, rr_rdlength = 4,
      rr_rdata = long2net (ucast ip), rr_known = K_a ip quad\<rparr>] \<and>
    message_packet_len m = length (enc ls) + 33"
proof -
  let ?pkt = "message_packet m @ rest"
  let ?qd = "(enc ls @ [0]) @ short2net t @ short2net c"
  let ?an = "pointer_to 12 @ short2net QTYPE_A @ short2net c2 @ long2net ttl @ short2net 4 @ long2net (ucast ip)"
  have len: "length (enc ls) \<le> 255" using assms(4) by (simp add: dns_name_ok_def)
  obtain ys where m1: "m1 = (wire_message0 i h)\<lparr>wm_qdcount := 1, wm_wire := query_wire ls t c, wm_labels := 12 # ys\<rparr>"
    using message_qd_wire [OF assms(4), of sc i h t c] assms(1) by auto
  have "\<exists>lbs. and_then (message_an sc m1 (Some (dns_text ls)) QTYPE_A c2 ttl) (\<lambda>m. message_rdata_long m ip) =
    Inr (m1\<lparr>wm_ancount := wm_ancount m1 + 1, wm_labels := lbs, wm_wire := query_wire ls t c @ ?an\<rparr>)"
    by (rule message_an_wire [OF assms(4)]) (simp_all add: m1)
  then obtain lbs where m: "m = m1\<lparr>wm_ancount := wm_ancount m1 + 1, wm_labels := lbs, wm_wire := query_wire ls t c @ ?an\<rparr>"
    using assms(2,3) by auto
  have pkt: "?pkt = packet_bytes i h 1 1 (?qd @ ?an) @ rest"
    unfolding m m1
    by (subst message_packet_bytes [where body = "?qd @ ?an"]) (simp_all add: query_wire_def wire_message0_def)
  have "at ?pkt 12 (?qd @ ?an)" unfolding pkt by (rule packet_body)
  then have qd: "at ?pkt 12 ?qd" and "at ?pkt (12 + length ?qd) ?an" by (simp_all only: at_append)
  then have an: "at ?pkt (17 + length (enc ls)) ?an" by (simp add: add_ac)
  have name: "at ?pkt 12 (enc ls @ [0])" using qd by (simp only: at_append)
  let ?m = "my 16 (dns_message0 i h)"
  have "dm_len ?m \<le> 64" by (simp add: my_def my_start_def dns_message0_def)
  note q = qdparse_1 [OF assms(4) qd this order_refl, of sc]
  let ?m' = "my 0 (my 0 (my 64 (with_label ?m (dns_text ls))))"
  have m': "dm_id ?m' = i" "dm_header ?m' = h" "dns_text ls \<in> set (dm_labels ?m')" "12 \<le> dm_len ?m'" "dm_len ?m' \<le> 512"
    using len by (simp_all add: with_label_def my_def my_start_def dns_message0_def text_length)
  have "pointer_ok sc 12" by (simp add: pointer_ok_def)
  have "17 + length (enc ls) \<le> 512" using len by simp
  have slot: "my_start (with_label ?m (dns_text ls)) \<le> 512"
    using len by (simp add: with_label_def my_def my_start_def dns_message0_def text_length)
  from rrparse_1 [OF assms(4) name \<open>pointer_ok sc 12\<close> an m'(3-5) \<open>17 + length (enc ls) \<le> 512\<close> order_refl slot] m'(1,2) obtain m'' quad where
    "rrparse sc ?pkt MAX_PACKET_LEN (my_start (with_label ?m (dns_text ls))) 1 ?m' (17 + length (enc ls)) = Inr (Some (m'', 17 + length (enc ls) + 16,
      [\<lparr>rr_name = dns_text ls, rr_type = QTYPE_A, rr_class = c2, rr_ttl = take_bit 32 ttl, rr_rdlength = 4,
        rr_rdata = long2net (ucast ip), rr_known = K_a ip quad\<rparr>]))" "dm_id m'' = i" "dm_header m'' = h"
    by metis
  then have "message_parse sc ?pkt MAX_PACKET_LEN = Inr (Some (m''\<lparr>
      dm_qd := [\<lparr>q_name = dns_text ls, q_type = t, q_class = c\<rparr>],
      dm_an := [\<lparr>rr_name = dns_text ls, rr_type = QTYPE_A, rr_class = c2, rr_ttl = take_bit 32 ttl, rr_rdlength = 4,
        rr_rdata = long2net (ucast ip), rr_known = K_a ip quad\<rparr>], dm_ns := [], dm_ar := []\<rparr>))"
    using packet_header [OF pkt assms(5), of sc MAX_PACKET_LEN] q
    by (simp only: unat_1 mult_1_right or_fail_simps prod.case Let_def)
  moreover have "message_packet_len m = length (enc ls) + 33"
    by (simp add: m message_packet_len_def query_wire_def)
  ultimately show ?thesis using \<open>dm_id m'' = i\<close> \<open>dm_header m'' = h\<close> by simp
qed

text \<open>The name \<^verbatim>\<open>tv.local.\<close> for the examples.\<close>

definition tv_local :: "byte list list" where
  "tv_local = [text_bytes ''tv'', text_bytes ''local'']"

lemma tv_local_ok: "dns_name_ok tv_local"
  by (simp add: tv_local_def dns_name_ok_def label_ok_def text_bytes_def dot_def)

lemma dns_question_roundtrip_witness:
  "\<exists>m m'. message_qd True (wire_message0 7 (header_of 0x84 0)) (Some (dns_text tv_local)) QTYPE_A 1 = Inr m \<and>
     message_parse True (message_packet m @ [1, 2]) MAX_PACKET_LEN = Inr (Some m') \<and> dm_id m' = 7 \<and>
     dm_header m' = header_of 0x84 0 \<and> dm_qd m' = [\<lparr>q_name = dns_text tv_local, q_type = QTYPE_A, q_class = 1\<rparr>]"
proof -
  obtain m where m: "message_qd True (wire_message0 7 (header_of 0x84 0)) (Some (dns_text tv_local)) QTYPE_A 1 = Inr m"
    using message_qd_wire [OF tv_local_ok] by blast
  have "dns_header_ok (header_of 0x84 0)" by (simp add: header_of_def dns_header_ok_def)
  from dns_question_roundtrip [OF m tv_local_ok this, of "[1, 2]"] m show ?thesis by blast
qed

theorem dns_compressed_answer_roundtrip_witness:
  "\<exists>m1 m2 m m'. message_qd True (wire_message0 7 (header_of 0x84 0)) (Some (dns_text tv_local)) QTYPE_A 1 = Inr m1 \<and>
     message_an True m1 (Some (dns_text tv_local)) QTYPE_A 1 120 = Inr m2 \<and> message_rdata_long m2 0xC0A80001 = Inr m \<and>
     message_parse True (message_packet m @ []) MAX_PACKET_LEN = Inr (Some m') \<and> message_packet_len m = 42 \<and>
     map rr_ttl (dm_an m') = [120]"
proof -
  let ?h = "header_of 0x84 0"
  obtain m1 ys where m1: "message_qd True (wire_message0 7 ?h) (Some (dns_text tv_local)) QTYPE_A 1 = Inr m1"
    and "m1 = (wire_message0 7 ?h)\<lparr>wm_qdcount := 1, wm_wire := query_wire tv_local QTYPE_A 1, wm_labels := 12 # ys\<rparr>"
    using message_qd_wire [OF tv_local_ok, of True 7 ?h QTYPE_A 1] by auto
  then obtain m2 m where m: "message_an True m1 (Some (dns_text tv_local)) QTYPE_A 1 120 = Inr m2"
      "message_rdata_long m2 0xC0A80001 = Inr m"
    using message_an_wire [OF tv_local_ok, of m1 QTYPE_A 1 ys True QTYPE_A 1 120 "0xC0A80001"]
    by (auto simp: and_then_eq_Inr)
  have "dns_header_ok ?h" by (simp add: header_of_def dns_header_ok_def)
  from dns_compressed_answer_roundtrip [OF m1 m tv_local_ok this, of "[]"] obtain m' quad where
    "message_parse True (message_packet m @ []) MAX_PACKET_LEN = Inr (Some m')" "message_packet_len m = length (enc tv_local) + 33"
    "dm_an m' = [\<lparr>rr_name = dns_text tv_local, rr_type = QTYPE_A, rr_class = 1, rr_ttl = take_bit 32 120, rr_rdlength = 4,
      rr_rdata = long2net (ucast (0xC0A80001 :: 32 word)), rr_known = K_a 0xC0A80001 quad\<rparr>]"
    by blast
  moreover have "length (enc tv_local) = 9" by (simp add: tv_local_def text_bytes_def)
  ultimately show ?thesis using m1 m by auto
qed

text \<open>
  Where plain \<^verbatim>\<open>char\<close> is signed, a compression pointer to an offset whose low byte is 128 or
  more is decoded as 4095: \<^verbatim>\<open>_ldecomp\<close> sign-extends the second byte before the \<^verbatim>\<open>|=\<close>.
\<close>

lemma ldecomp_sign_extends:
  "128 \<le> y mod 256 \<and> y < 4096 \<longrightarrow>
     (\<forall>b0 b1. pointer_to y = [b0, b1] \<longrightarrow> ldecomp True b0 b1 = 4095)"
proof (intro impI allI)
  fix b0 b1
  assume y: "128 \<le> y mod 256 \<and> y < 4096" and p: "pointer_to y = [b0, b1]"
  let ?w = "of_nat y :: 16 word"
  have b1: "b1 = ucast ?w" using p by (auto simp: pointer_to_def short2net_def)
  define q r where "q = y div 256" and "r = y mod 256"
  then have "y = (r - 128) + 128 * (2 * q + 1)" "r - 128 < 128" using y by auto
  then have "y div 128 = 2 * q + 1" by (metis add.commute add.right_neutral div_less div_mult_self2 zero_neq_numeral)
  then have "odd (y div 2 ^ 7)" by simp
  then have "bit y 7" by (simp add: bit_iff_odd)
  then have "bit b1 7" by (simp add: b1 bit_simps)
  then have sign: "bit (scast b1 :: 16 word) 12" by (simp add: bit_simps)
  let ?i = "push_bit 8 (ucast (0xC0 XOR b0)) OR scast b1 :: 16 word"
  have bit: "bit ?i 12" using sign by (simp add: bit_simps)
  have "?i \<ge> 4096"
  proof (rule ccontr)
    assume "\<not> ?i \<ge> 4096"
    then have "uint ?i < 2 ^ 12" by (simp add: word_le_def)
    then show False using less_bits [of ?i 12 12] bit by simp
  qed
  then show "ldecomp True b0 b1 = 4095" by (simp add: ldecomp_def Let_def)
qed

lemma ldecomp_sign_extends_witness: "ldecomp True 0xC0 0x80 = 4095 \<and> ldecomp False 0xC0 0x80 = 128"
proof -
  have "pointer_to 128 = [0xC0, 0x80]" by (simp add: pointer_to_def short2net_def)
  then have "ldecomp True 0xC0 0x80 = 4095" using ldecomp_sign_extends [of 128] by simp
  then show ?thesis by (simp add: ldecomp_def)
qed

end
