(* ===== verification/Encoding.thy ===== *)
theory Encoding
  imports Base64
begin

text \<open>
  \<^verbatim>\<open>core/deps/util/src/encoding\<close>: the second base 64 codec (\<^verbatim>\<open>base64.c\<close>), which checks its input and the
  size of its output buffer, and the hexadecimal codec (\<^verbatim>\<open>hex.c\<close>).
\<close>

unbundle bit_operations_syntax

section \<open>\<^verbatim>\<open>base64.c\<close>\<close>

definition base64_enc_map :: "byte list" where
  "base64_enc_map = text_bytes ''ABCDEFGHIJKLMNOPQRSTUVWXYZabcdefghijklmnopqrstuvwxyz0123456789+/''"

definition base64_dec_map :: "byte list" where
  "base64_dec_map =
    [127, 127, 127, 127, 127, 127, 127, 127, 127, 127,
     127, 127, 127, 127, 127, 127, 127, 127, 127, 127,
     127, 127, 127, 127, 127, 127, 127, 127, 127, 127,
     127, 127, 127, 127, 127, 127, 127, 127, 127, 127,
     127, 127, 127, 62, 127, 127, 127, 63, 52, 53,
     54, 55, 56, 57, 58, 59, 60, 61, 127, 127,
     127, 64, 127, 127, 127, 0, 1, 2, 3, 4,
     5, 6, 7, 8, 9, 10, 11, 12, 13, 14,
     15, 16, 17, 18, 19, 20, 21, 22, 23, 24,
     25, 127, 127, 127, 127, 127, 127, 26, 27, 28,
     29, 30, 31, 32, 33, 34, 35, 36, 37, 38,
     39, 40, 41, 42, 43, 44, 45, 46, 47, 48,
     49, 50, 51, 127, 127, 127, 127, 127]"

definition BUFFER_TOO_SMALL :: int where
  "BUFFER_TOO_SMALL = -100"

definition INVALID_CHARACTER :: int where
  "INVALID_CHARACTER = -101"

text \<open>The loop over groups of three and the last group of \<^verbatim>\<open>utils_base64_encode\<close>.\<close>

fun utils_base64_groups :: "byte list \<Rightarrow> byte list" where
  "utils_base64_groups (C1 # C2 # C3 # rest) =
     lookup base64_enc_map (drop_bit 2 C1 AND 0x3F) #
     lookup base64_enc_map ((push_bit 4 (C1 AND 3) + drop_bit 4 C2) AND 0x3F) #
     lookup base64_enc_map ((push_bit 2 (C2 AND 15) + drop_bit 6 C3) AND 0x3F) #
     lookup base64_enc_map (C3 AND 0x3F) # utils_base64_groups rest"
| "utils_base64_groups [C1, C2] =
     [lookup base64_enc_map (drop_bit 2 C1 AND 0x3F),
      lookup base64_enc_map ((push_bit 4 (C1 AND 3) + drop_bit 4 C2) AND 0x3F),
      lookup base64_enc_map (push_bit 2 (C2 AND 15) AND 0x3F), EQ]"
| "utils_base64_groups [C1] =
     [lookup base64_enc_map (drop_bit 2 C1 AND 0x3F),
      lookup base64_enc_map ((push_bit 4 (C1 AND 3) + drop_bit 4 0) AND 0x3F), EQ, EQ]"
| "utils_base64_groups [] = []"

text \<open>
  \<open>dlen\<close> is the size of the output buffer.  The answer is what is stored, \<open>*olen\<close> if it is set, and the result.
  The test of \<open>dlen\<close> only sets \<open>*olen\<close>: its return statement is commented out.
\<close>

definition utils_base64_encode :: "nat \<Rightarrow> byte list \<Rightarrow> (byte list \<times> nat option \<times> int) exec" where
  "utils_base64_encode dlen src =
     (if src = [] then Inr ([], Some 0, 0)
      else
        let n = length src div 3 + (if length src mod 3 \<noteq> 0 then 1 else 0) in
        if n > (2 ^ 64 - 2) div 4 then Inr ([], Some (2 ^ 64 - 1), BUFFER_TOO_SMALL)
        else
          let out = utils_base64_groups src in
          and_then (in_bounds (length out + 1 \<le> dlen)) (\<lambda>_. Inr (out @ [0], Some (length out), 0)))"

text \<open>
  The first pass of \<^verbatim>\<open>utils_base64_decode\<close>: the number of characters and of equals signs, \<open>None\<close> when a character
  is out of place.
\<close>

function b64_check :: "byte list \<Rightarrow> nat \<Rightarrow> nat \<Rightarrow> (nat \<times> nat) option" where
  "b64_check src n j =
     (let t = dropWhile (\<lambda>c. c = 0x20) src; x = length src - length t in
      if t = [] then Some (n, j)
      else
        let c = hd t in
        if 2 \<le> length t \<and> c = 0x0D \<and> t ! 1 = 0x0A then b64_check (tl t) n j
        else if c = 0x0A then b64_check (tl t) n j
        else if x \<noteq> 0 then None
        else
          let j = (if c = EQ then j + 1 else j) in
          if c = EQ \<and> j > 2 then None
          else if c > 127 \<or> lookup base64_dec_map c = 127 then None
          else if lookup base64_dec_map c < 64 \<and> j \<noteq> 0 then None
          else b64_check (tl t) (n + 1) j)"
  by pat_completeness auto
termination
proof (relation "measure (\<lambda>(src, n, j). length src)", goal_cases)
  case (2 src n j)
  then show ?case using length_dropWhile_le [of "\<lambda>c. c = 0x20" src] by (cases "dropWhile (\<lambda>c. c = 0x20) src") auto
next
  case (3 src n j)
  then show ?case using length_dropWhile_le [of "\<lambda>c. c = 0x20" src] by (cases "dropWhile (\<lambda>c. c = 0x20) src") auto
next
  case (4 src n j)
  then show ?case using length_dropWhile_le [of "\<lambda>c. c = 0x20" src] by (cases "dropWhile (\<lambda>c. c = 0x20) src") auto
qed simp

text \<open>The second pass.\<close>

fun b64_output :: "byte list \<Rightarrow> nat \<Rightarrow> nat \<Rightarrow> 32 word \<Rightarrow> byte list" where
  "b64_output [] j n x = []"
| "b64_output (c # cs) j n x =
     (if c = 0x0D \<or> c = 0x0A \<or> c = 0x20 then b64_output cs j n x
      else
        let d = lookup base64_dec_map c;
            j = j - (if d = 64 then 1 else 0);
            x = push_bit 6 x OR ucast (d AND 0x3F)
        in if n + 1 = 4 then
             (if j > 0 then [ucast (drop_bit 16 x)] else []) @ (if j > 1 then [ucast (drop_bit 8 x)] else []) @
             (if j > 2 then [ucast x] else []) @ b64_output cs j 0 x
           else b64_output cs j (n + 1) x)"

definition utils_base64_decode :: "nat \<Rightarrow> byte list \<Rightarrow> (byte list \<times> nat option \<times> int) exec" where
  "utils_base64_decode dlen src =
     (case b64_check src 0 0 of
        None \<Rightarrow> Inr ([], None, INVALID_CHARACTER)
      | Some (n, j) \<Rightarrow>
          if n = 0 then Inr ([], Some 0, 0)
          else
            let n = (n * 6 + 7) div 8 - j in
            if dlen < n then Inr ([], Some n, BUFFER_TOO_SMALL)
            else
              let out = b64_output src 3 0 0 in
              and_then (in_bounds (length out \<le> dlen)) (\<lambda>_. Inr (out, Some (length out), 0)))"

declare b64_check.simps [simp del]

section \<open>\<^verbatim>\<open>hex.c\<close>\<close>

definition utils_hex2int :: "byte \<Rightarrow> int" where
  "utils_hex2int ch =
     (if 0x30 \<le> ch \<and> ch \<le> 0x39 then uint (ch - 0x30)
      else if 0x61 \<le> ch \<and> ch \<le> 0x66 then 10 + uint (ch - 0x61)
      else if 0x41 \<le> ch \<and> ch \<le> 0x46 then 10 + uint (ch - 0x41)
      else -1)"

text \<open>
  \<open>data\<close> is the memory from the pointer on.  The loop reads pairs until a zero byte, without looking at
  \<open>dataSize\<close>; reading past the memory is a fault.
\<close>

fun hex_pairs :: "nat \<Rightarrow> byte list \<Rightarrow> byte list exec" where
  "hex_pairs 0 p = Inr []"
| "hex_pairs (Suc n) [] = Inl Out_of_bounds"
| "hex_pairs (Suc n) [a] = (if a = 0 then Inr [] else Inl Out_of_bounds)"
| "hex_pairs (Suc n) (a # b # p) =
     (if a = 0 \<or> b = 0 then Inr []
      else if utils_hex2int a < 0 \<or> utils_hex2int b < 0 then Inr []
      else and_then (hex_pairs n p) (\<lambda>out.
           Inr ((push_bit 4 (word_of_int (utils_hex2int a)) OR word_of_int (utils_hex2int b)) # out)))"

definition utils_hex_decode :: "nat \<Rightarrow> byte list \<Rightarrow> nat \<Rightarrow> (byte list \<times> int) exec" where
  "utils_hex_decode bufferSize data dataSize =
     (if bufferSize = 0 then Inr ([], -1)
      else and_then (hex_pairs bufferSize data) (\<lambda>out. Inr (out, int (length out))))"

definition hex_lower :: "byte list" where
  "hex_lower = text_bytes ''0123456789abcdef''"

text \<open>\<^verbatim>\<open>sprintf(buf, "%02x", *p)\<close> stores two digits and a terminator.\<close>

fun hex_digits :: "byte list \<Rightarrow> byte list" where
  "hex_digits [] = []"
| "hex_digits (p # ps) = lookup hex_lower (drop_bit 4 p) # lookup hex_lower (p AND 0x0F) # hex_digits ps"

definition utils_hex_encode :: "nat \<Rightarrow> byte list \<Rightarrow> (byte list \<times> int) exec" where
  "utils_hex_encode bufferSize data =
     (if data = [] then Inr ([], 0)
      else and_then (in_bounds (2 * length data + 1 \<le> bufferSize)) (\<lambda>_.
           Inr (hex_digits data @ [0], int (2 * length data))))"

section \<open>The two base 64 encoders agree\<close>

lemma base64_enc_map_eq: "base64_enc_map = base64_enc"
  by (simp add: base64_enc_map_def base64_enc_def)

lemma byte_bit_ge [simp]: "8 \<le> n \<Longrightarrow> \<not> bit (w :: byte) n"
  by (auto dest: bit_imp_le_length)

lemma sums:
  "(push_bit 4 (a AND 3) + drop_bit 4 b) AND 0x3F = (push_bit 4 (a AND 0x03) OR (drop_bit 4 b AND 0x0F) :: byte)"
  "(push_bit 2 (b AND 15) + drop_bit 6 c) AND 0x3F = (push_bit 2 (b AND 0x0F) OR (drop_bit 6 c AND 0x03) :: byte)"
  "push_bit 2 (b AND 15) AND 0x3F = (push_bit 2 (b AND 0x0F) :: byte)"
  "push_bit 4 (a AND 0x03) OR (drop_bit 4 0 AND 0x0F) = (push_bit 4 (a AND 0x03) :: byte)"
proof -
  have 1: "push_bit 4 (a AND 3) + drop_bit 4 b = push_bit 4 (a AND 3) OR drop_bit 4 b"
    by (rule disjunctive_add) (auto simp: bit_simps dest: bit_imp_le_length)
  have 2: "push_bit 2 (b AND 15) + drop_bit 6 c = push_bit 2 (b AND 15) OR drop_bit 6 c"
    by (rule disjunctive_add) (auto simp: bit_simps dest: bit_imp_le_length)
  show "(push_bit 4 (a AND 3) + drop_bit 4 b) AND 0x3F = push_bit 4 (a AND 0x03) OR (drop_bit 4 b AND 0x0F)"
    unfolding 1 by (rule byte_eqI; elim insertE emptyE; simp add: bit_simps)
  show "(push_bit 2 (b AND 15) + drop_bit 6 c) AND 0x3F = push_bit 2 (b AND 0x0F) OR (drop_bit 6 c AND 0x03)"
    unfolding 2 by (rule byte_eqI; elim insertE emptyE; simp add: bit_simps)
qed (rule byte_eqI; elim insertE emptyE; simp add: bit_simps)+

lemma utils_base64_groups_eq: "utils_base64_groups src = base64_encode src"
  unfolding base64_encode_def
  by (induction src rule: utils_base64_groups.induct)
    (simp_all only: utils_base64_groups.simps base64_encode_table.simps sums base64_enc_map_eq)

lemma base64_length: "length (base64_encode_table table src) = 4 * ((length src + 2) div 3)"
  by (induction table src rule: base64_encode_table.induct) (simp_all, presburger)

text \<open>
  On every input whose code fits the buffer with its terminator, the checked encoder stores exactly what
  \<^verbatim>\<open>base64_encode\<close> stores; on every longer one it writes past its buffer, because the test of \<^verbatim>\<open>dlen\<close> no
  longer returns.
\<close>

lemma utils_base64_encode_equiv:
  assumes "src \<noteq> []" "length src < 2 ^ 60"
  shows "utils_base64_encode dlen src =
    (if length (base64_encode src) < dlen then Inr (base64_encode src @ [0], Some (length (base64_encode src)), 0)
     else Inl Out_of_bounds)"
proof -
  have "length src div 3 \<le> length src" by simp
  then have "length src div 3 + 1 \<le> (2 ^ 64 - 2) div 4" using assms(2) by simp
  then show ?thesis using assms(1)
    by (auto simp: utils_base64_encode_def utils_base64_groups_eq in_bounds_def Let_def)
qed

lemma utils_base64_encode_equiv_witness:
  "utils_base64_encode 8 [1, 2, 3] = Inr (base64_encode [1, 2, 3] @ [0], Some 4, 0) \<and>
   utils_base64_encode 4 [1, 2, 3] = Inl Out_of_bounds"
  using utils_base64_encode_equiv [of "[1, 2, 3]" 8] utils_base64_encode_equiv [of "[1, 2, 3]" 4]
  by (simp add: base64_encode_def)

section \<open>The checking decoder\<close>

definition blank64 :: "byte \<Rightarrow> bool" where
  "blank64 c \<longleftrightarrow> c = 0x0D \<or> c = 0x0A \<or> c = 0x20"

lemma b64_output_filter: "b64_output src j n x = b64_output (filter (\<lambda>c. \<not> blank64 c) src) j n x"
  by (induction src arbitrary: j n x) (simp_all add: blank64_def Let_def)

lemma base64_dec_map_cases:
  assumes "\<not> c > 127" "lookup base64_dec_map c \<noteq> 127" "c \<noteq> EQ"
  shows "lookup base64_dec_map c < 64" "c \<noteq> 0x0D"
proof -
  have "list_all (\<lambda>i. base64_dec_map ! i = 127 \<or> base64_dec_map ! i < 64 \<or> i = 61) [0..<128]" by code_simp
  moreover have "unat c < 128" using assms(1) by (simp add: word_less_nat_alt not_less)
  ultimately have "base64_dec_map ! unat c = 127 \<or> base64_dec_map ! unat c < 64 \<or> unat c = 61"
    by (simp add: list_all_iff del: upt_rec)
  moreover have "unat c \<noteq> 61" using assms(3) by (simp add: word_unat_eq_iff)
  ultimately show "lookup base64_dec_map c < 64" using assms(2) by (simp add: lookup_def)
  have "lookup base64_dec_map 0x0D = 127" by code_simp
  then show "c \<noteq> 0x0D" using assms(2) by auto
qed

lemma b64_check_shape:
  assumes "b64_check src n j = Some (n', j')"
  shows "\<exists>body p. filter (\<lambda>c. \<not> blank64 c) src = body @ replicate p EQ \<and> (j \<noteq> 0 \<longrightarrow> body = []) \<and>
    (\<forall>c \<in> set body. lookup base64_dec_map c < 64) \<and> n' = n + length body + p \<and> j' = j + p \<and> (0 < p \<longrightarrow> j' \<le> 2)"
  using assms
proof (induction src arbitrary: n j rule: length_induct)
  case (1 src)
  let ?shape = "\<lambda>t n j. \<exists>body p. filter (\<lambda>c. \<not> blank64 c) t = body @ replicate p EQ \<and> (j \<noteq> 0 \<longrightarrow> body = []) \<and>
    (\<forall>c \<in> set body. lookup base64_dec_map c < 64) \<and> n' = n + length body + p \<and> j' = j + p \<and> (0 < p \<longrightarrow> j' \<le> 2)"
  define t where "t = dropWhile (\<lambda>c. c = 0x20) src"
  have "filter (\<lambda>c. \<not> blank64 c) (takeWhile (\<lambda>c. c = 0x20) src) = []"
    by (auto simp: filter_empty_conv blank64_def dest: set_takeWhileD)
  then have filt: "filter (\<lambda>c. \<not> blank64 c) src = filter (\<lambda>c. \<not> blank64 c) t"
    by (metis filter_append takeWhile_dropWhile_id append_Nil t_def)
  have "?shape t n j"
  proof (cases t)
    case Nil
    then show ?thesis using 1(2) by (simp add: b64_check.simps [of src] t_def [symmetric] Let_def)
  next
    case (Cons c rest)
    have run: "b64_check src n j = (if 2 \<le> length t \<and> c = 0x0D \<and> t ! 1 = 0x0A then b64_check rest n j
        else if c = 0x0A then b64_check rest n j
        else if length src \<noteq> length t then None
        else
          let j = (if c = EQ then j + 1 else j) in
          if c = EQ \<and> j > 2 then None
          else if c > 127 \<or> lookup base64_dec_map c = 127 then None
          else if lookup base64_dec_map c < 64 \<and> j \<noteq> 0 then None
          else b64_check rest (n + 1) j)"
      unfolding b64_check.simps [of src n j] t_def [symmetric] Let_def using Cons
      using length_dropWhile_le [of "\<lambda>c. c = 0x20" src] by (simp add: t_def [symmetric])
    have shorter: "length rest < length src" and c: "c \<noteq> 0x20"
      using Cons length_dropWhile_le [of "\<lambda>c. c = 0x20" src] dropWhile_eq_Cons_conv [of "\<lambda>c. c = 0x20" src c rest]
      by (auto simp: t_def [symmetric])
    note IH = 1(1) [rule_format, OF shorter]
    show ?thesis
    proof (cases "c = 0x0A \<or> (2 \<le> length t \<and> c = 0x0D \<and> t ! 1 = 0x0A)")
      case True
      then have "b64_check rest n j = Some (n', j')" using 1(2) run by (auto split: if_splits)
      moreover have "blank64 c" using True by (auto simp: blank64_def)
      ultimately show ?thesis using IH Cons by simp
    next
      case False
      define j1 where "j1 = (if c = EQ then j + 1 else j)"
      have ok: "\<not> (c = EQ \<and> j1 > 2)" "\<not> c > 127" "lookup base64_dec_map c \<noteq> 127" "\<not> (lookup base64_dec_map c < 64 \<and> j1 \<noteq> 0)"
          and rec: "b64_check rest (n + 1) j1 = Some (n', j')"
        using 1(2) run False by (auto simp: Let_def j1_def [symmetric] split: if_split_asm)
      obtain body p where IH': "filter (\<lambda>c. \<not> blank64 c) rest = body @ replicate p EQ" "j1 \<noteq> 0 \<longrightarrow> body = []"
          "\<forall>c \<in> set body. lookup base64_dec_map c < 64" "n' = n + 1 + length body + p" "j' = j1 + p" "0 < p \<longrightarrow> j' \<le> 2"
        using IH [OF rec] by blast
      show ?thesis
      proof (cases "c = EQ")
        case True
        then have "filter (\<lambda>c. \<not> blank64 c) t = [] @ replicate (Suc p) EQ" using IH' Cons by (simp add: j1_def blank64_def)
        moreover have "n' = n + length [] + Suc p" "j' = j + Suc p" "j' \<le> 2" using IH' ok True by (auto simp: j1_def)
        ultimately show ?thesis by (intro exI [of _ "[]"] exI [of _ "Suc p"]) simp
      next
        case no_eq: False
        then have d: "lookup base64_dec_map c < 64" "c \<noteq> 0x0D" using base64_dec_map_cases ok by auto
        then have "j = 0" "\<not> blank64 c" using ok no_eq c False by (auto simp: j1_def blank64_def)
        then have "filter (\<lambda>c. \<not> blank64 c) t = (c # body) @ replicate p EQ" using IH' Cons by simp
        moreover have "n' = n + length (c # body) + p" "j' = j + p" using IH' no_eq by (auto simp: j1_def)
        ultimately show ?thesis using IH' d \<open>j = 0\<close> by (intro exI [of _ "c # body"] exI [of _ p]) auto
      qed
    qed
  qed
  then show ?case by (simp add: filt)
qed

lemma b64_output_body:
  assumes "\<forall>c \<in> set body. lookup base64_dec_map c < 64" "\<forall>c \<in> set body. \<not> blank64 c" "n < 4"
  shows "\<exists>out x'. b64_output (body @ rest) 3 n x = out @ b64_output rest 3 ((n + length body) mod 4) x' \<and>
    length out = 3 * ((n + length body) div 4)"
  using assms
proof (induction body arbitrary: n x)
  case (Cons c body)
  let ?d = "lookup base64_dec_map c"
  let ?x = "push_bit 6 x OR ucast (?d AND 0x3F) :: 32 word"
  have c: "?d \<noteq> 64" "\<not> blank64 c" using Cons.prems by auto
  show ?case
  proof (cases "n = 3")
    case True
    obtain out x' where "b64_output (body @ rest) 3 0 ?x = out @ b64_output rest 3 ((0 + length body) mod 4) x'"
        "length out = 3 * ((0 + length body) div 4)"
      using Cons.IH [of 0 ?x] Cons.prems by auto
    then have "b64_output ((c # body) @ rest) 3 n x = ([ucast (drop_bit 16 ?x), ucast (drop_bit 8 ?x), ucast ?x] @ out) @
        b64_output rest 3 ((n + length (c # body)) mod 4) x'"
      "length ([ucast (drop_bit 16 ?x), ucast (drop_bit 8 ?x), ucast ?x] @ out) = 3 * ((n + length (c # body)) div 4)"
      using c True div_add_self1 [of 4 "length body"] by (simp_all add: Let_def blank64_def)
    then show ?thesis by blast
  next
    case False
    then obtain out x' where "b64_output (body @ rest) 3 (n + 1) ?x = out @ b64_output rest 3 ((n + 1 + length body) mod 4) x'"
        "length out = 3 * ((n + 1 + length body) div 4)"
      using Cons.IH [of "n + 1" ?x] Cons.prems by auto
    then show ?thesis using c False by (auto simp: Let_def blank64_def)
  qed
qed auto

lemma b64_output_pads:
  assumes "p \<in> {0, 1, 2}" "m \<in> {0, 1, 2, 3}"
  shows "length (b64_output (replicate p EQ) 3 m x) \<le> (6 * m + 6 * p + 7) div 8 - p"
proof -
  have "lookup base64_dec_map EQ = 64" by code_simp
  then show ?thesis using assms by (elim insertE emptyE) (simp_all add: Let_def numeral_2_eq_2)
qed

text \<open>
  The checking decoder never writes more bytes than it has computed from its first pass, so it never writes
  past its buffer, whatever the input: blanks, line ends, missing or misplaced padding, foreign characters.
\<close>

lemma utils_base64_decode_in_bounds: "safe (utils_base64_decode dlen src)"
proof (cases "b64_check src 0 0")
  case (Some r)
  obtain n j where r: "r = (n, j)" by (cases r)
  obtain body p where s: "filter (\<lambda>c. \<not> blank64 c) src = body @ replicate p EQ"
      "\<forall>c \<in> set body. lookup base64_dec_map c < 64" "n = length body + p" "j = p" "0 < p \<longrightarrow> j \<le> 2"
    using b64_check_shape [of src 0 0 n j] Some r by auto
  have "\<forall>c \<in> set body. \<not> blank64 c" proof -
    have "set body \<subseteq> set (filter (\<lambda>c. \<not> blank64 c) src)" by (simp add: s(1))
    then show ?thesis by auto
  qed
  then obtain out x' where out: "b64_output src 3 0 0 = out @ b64_output (replicate p EQ) 3 (length body mod 4) x'"
      "length out = 3 * (length body div 4)"
    using b64_output_body [OF s(2), of 0 "replicate p EQ" 0] s(1) b64_output_filter [of src 3 0 0] by auto
  define g m where gm: "g = length body div 4" "m = length body mod 4"
  then have body: "length body = 4 * g + m" "m \<in> {0, 1, 2, 3}" by auto
  have p: "p \<in> {0, 1, 2}" using s(4,5) by auto
  have "(n * 6 + 7) div 8 = (6 * m + 6 * p + 7 + 8 * (3 * g)) div 8" using body(1) s(3) by (simp add: algebra_simps)
  also have "\<dots> = 3 * g + (6 * m + 6 * p + 7) div 8" by simp
  finally have n: "(n * 6 + 7) div 8 = 3 * g + (6 * m + 6 * p + 7) div 8" .
  have "p \<le> (6 * m + 6 * p + 7) div 8" using p by auto
  then have "(n * 6 + 7) div 8 - j = 3 * g + ((6 * m + 6 * p + 7) div 8 - p)" using n s(4) by simp
  moreover have "length (b64_output src 3 0 0) = 3 * g + length (b64_output (replicate p EQ) 3 m x')" using out gm by simp
  ultimately have "length (b64_output src 3 0 0) \<le> (n * 6 + 7) div 8 - j"
    using b64_output_pads [OF p body(2), of x'] by linarith
  then show ?thesis using Some r by (auto simp: utils_base64_decode_def Let_def safe_and_then)
qed (simp add: utils_base64_decode_def)

lemma base64_enc_chars:
  assumes "c \<in> set base64_enc"
  shows "\<not> c > 127" "lookup base64_dec_map c < 64" "\<not> blank64 c" "c \<noteq> EQ"
proof -
  have "list_all (\<lambda>c. \<not> c > 127 \<and> lookup base64_dec_map c < 64 \<and> \<not> (c = 0x0D \<or> c = 0x0A \<or> c = 0x20) \<and> c \<noteq> EQ) base64_enc"
    by code_simp
  then show "\<not> c > 127" "lookup base64_dec_map c < 64" "\<not> blank64 c" "c \<noteq> EQ"
    using assms by (auto simp: list_all_iff blank64_def)
qed

lemma inverts_map: "map (lookup base64_dec_map) base64_enc = map of_nat [0..<64]"
  by code_simp

lemma lookup_map:
  assumes "unat i < 64"
  shows "lookup base64_dec_map (lookup base64_enc i) = i" "lookup base64_enc i \<in> set base64_enc"
proof -
  have "map (lookup base64_dec_map) base64_enc ! unat i = map of_nat [0..<64] ! unat i" by (simp only: inverts_map)
  then show "lookup base64_dec_map (lookup base64_enc i) = i" using assms by (simp add: lookup_def del: upt_rec)
  show "lookup base64_enc i \<in> set base64_enc" using assms by (simp add: lookup_def)
qed

lemma b64_check_enc:
  assumes "set body \<subseteq> set base64_enc"
  shows "b64_check (body @ rest) n 0 = b64_check rest (n + length body) 0"
  using assms
proof (induction body arbitrary: n)
  case (Cons c body)
  have c: "\<not> c > 127" "lookup base64_dec_map c < 64" "\<not> blank64 c" "c \<noteq> EQ" using Cons.prems base64_enc_chars by auto
  then have "b64_check (c # body @ rest) n 0 = b64_check (body @ rest) (n + 1) 0"
    by (subst b64_check.simps) (auto simp: blank64_def Let_def)
  then show ?case using Cons by simp
qed simp

lemma replicate_2: "replicate 2 x = [x, x]"
  by (simp add: numeral_2_eq_2)

lemma b64_check_pads: "p \<in> {0, 1, 2} \<Longrightarrow> b64_check (replicate p EQ) n 0 = Some (n + p, p)"
proof -
  have "lookup base64_dec_map EQ = 64" by code_simp
  then show "p \<in> {0, 1, 2} \<Longrightarrow> b64_check (replicate p EQ) n 0 = Some (n + p, p)"
    by (elim insertE emptyE) (simp_all add: b64_check.simps Let_def replicate_2)
qed

lemma base64_encode_shape:
  "\<exists>body p. base64_encode src = body @ replicate p EQ \<and> set body \<subseteq> set base64_enc \<and> p \<in> {0, 1, 2} \<and>
     length body + p = 4 * ((length src + 2) div 3) \<and> 3 * ((length src + 2) div 3) - p = length src"
proof -
  have "\<exists>body p. base64_encode_table table src = body @ replicate p EQ \<and> set body \<subseteq> set base64_enc \<and> p \<in> {0, 1, 2} \<and>
     length body + p = 4 * ((length src + 2) div 3) \<and> 3 * ((length src + 2) div 3) = length src + p" if "table = base64_enc" for table
    using that
  proof (induction table src rule: base64_encode_table.induct)
    case (1 table a b c rest)
    then obtain body p where IH: "base64_encode_table table rest = body @ replicate p EQ" "set body \<subseteq> set base64_enc"
        "p \<in> {0, 1, 2}" "length body + p = 4 * ((length rest + 2) div 3)" "3 * ((length rest + 2) div 3) = length rest + p"
      by auto
    have div: "(length (a # b # c # rest) + 2) div 3 = (length rest + 2) div 3 + 1" by simp
    show ?case
      unfolding div base64_encode_table.simps IH(1) using IH(2-5) lookup_map(2) six_bits 1(2)
      by (intro exI [of _ "lookup table (drop_bit 2 a AND 0x3F) # lookup table (push_bit 4 (a AND 0x03) OR (drop_bit 4 b AND 0x0F)) #
        lookup table (push_bit 2 (b AND 0x0F) OR (drop_bit 6 c AND 0x03)) # lookup table (c AND 0x3F) # body"] exI [of _ p])
        (simp only: append.simps set_simps insert_subset length_Cons, simp)
  next
    case (2 table a b)
    show ?case unfolding base64_encode_table.simps using lookup_map(2) six_bits 2
      by (intro exI [of _ "[lookup table (drop_bit 2 a AND 0x3F), lookup table (push_bit 4 (a AND 0x03) OR (drop_bit 4 b AND 0x0F)),
        lookup table (push_bit 2 (b AND 0x0F))]"] exI [of _ 1]) (simp only: append.simps set_simps insert_subset, simp)
  next
    case (3 table a)
    show ?case unfolding base64_encode_table.simps using lookup_map(2) six_bits 3
      by (intro exI [of _ "[lookup table (drop_bit 2 a AND 0x3F), lookup table (push_bit 4 (a AND 0x03))]"] exI [of _ 2])
        (simp only: append.simps set_simps insert_subset, simp add: replicate_2)
  qed auto
  from this [OF refl] obtain body p where "base64_encode src = body @ replicate p EQ" "set body \<subseteq> set base64_enc" "p \<in> {0, 1, 2}"
      "length body + p = 4 * ((length src + 2) div 3)" "3 * ((length src + 2) div 3) = length src + p"
    unfolding base64_encode_def by blast
  then show ?thesis by (intro exI [of _ body] exI [of _ p]) simp
qed

lemma mask_6: "unat (i :: byte) < 64 \<Longrightarrow> i AND 0x3F = i"
proof -
  assume "unat i < 64"
  then have "take_bit 6 (unat i) = unat i" by (intro take_bit_nat_eq_self) simp
  then have "take_bit 6 i = i" by (simp add: word_unat_eq_iff unsigned_take_bit_eq)
  moreover have "take_bit 6 i = i AND 0x3F" by (simp add: take_bit_eq_mask mask_eq_exp_minus_1)
  ultimately show ?thesis by simp
qed

lemma output_word:
  fixes i j k l :: byte and x :: "32 word"
  defines "X \<equiv> push_bit 6 (push_bit 6 (push_bit 6 (push_bit 6 x OR ucast (i AND 0x3F)) OR ucast (j AND 0x3F)) OR ucast (k AND 0x3F)) OR
    ucast (l AND 0x3F)"
  shows "ucast (drop_bit 16 X) = push_bit 2 (i AND 0x3F) OR drop_bit 4 (j AND 0x3F)"
    "ucast (drop_bit 8 X) = push_bit 4 (j AND 0x3F) OR drop_bit 2 (k AND 0x3F)"
    "ucast X = push_bit 6 (k AND 0x3F) OR (l AND 0x3F)"
  unfolding X_def by (rule byte_eqI; elim insertE emptyE; simp add: bit_simps)+

lemma b64_output_char:
  assumes "unat i < 64"
  shows "b64_output (lookup base64_enc i # cs) 3 n x =
    (let X = push_bit 6 x OR ucast (i AND 0x3F) in
     if n + 1 = 4 then ucast (drop_bit 16 X) # ucast (drop_bit 8 X) # ucast X # b64_output cs 3 0 X
     else b64_output cs 3 (n + 1) X)"
proof -
  have "\<not> blank64 (lookup base64_enc i)" "lookup base64_dec_map (lookup base64_enc i) = i"
    using lookup_map [OF assms] base64_enc_chars by auto
  moreover have "i \<noteq> 64" using assms by auto
  ultimately show ?thesis by (simp add: blank64_def Let_def)
qed

lemma b64_output_EQ:
  "b64_output (EQ # cs) j n x =
    (let X = push_bit 6 x OR ucast ((0 :: byte) AND 0x3F); j = j - 1 in
     if n + 1 = 4 then (if j > 0 then [ucast (drop_bit 16 X)] else []) @ (if j > 1 then [ucast (drop_bit 8 X)] else []) @
       (if j > 2 then [ucast X] else []) @ b64_output cs j 0 X
     else b64_output cs j (n + 1) X)"
proof -
  have "lookup base64_dec_map EQ = 64" by code_simp
  then show ?thesis by (simp add: Let_def)
qed

lemma b64_output_group:
  assumes "unat i < 64" "unat j < 64"
  defines "e \<equiv> lookup base64_enc"
  shows "\<lbrakk>unat k < 64; unat l < 64\<rbrakk> \<Longrightarrow> \<exists>x'. b64_output (e i # e j # e k # e l # rest) 3 0 x =
      (push_bit 2 i OR drop_bit 4 j) # (push_bit 4 j OR drop_bit 2 k) # (push_bit 6 k OR l) # b64_output rest 3 0 x'"
    "unat k < 64 \<Longrightarrow> b64_output [e i, e j, e k, EQ] 3 0 x = [push_bit 2 i OR drop_bit 4 j, push_bit 4 j OR drop_bit 2 k]"
    "b64_output [e i, e j, EQ, EQ] 3 0 x = [push_bit 2 i OR drop_bit 4 j]"
proof -
  note run = b64_output_char [unfolded Let_def] b64_output_EQ [unfolded Let_def]
  show "\<exists>x'. b64_output (e i # e j # e k # e l # rest) 3 0 x =
      (push_bit 2 i OR drop_bit 4 j) # (push_bit 4 j OR drop_bit 2 k) # (push_bit 6 k OR l) # b64_output rest 3 0 x'"
    if "unat k < 64" "unat l < 64"
    unfolding e_def using assms(1,2) that output_word [where i = i and j = j and k = k and l = l and x = x]
    by (simp only: run mask_6) (rule exI, simp)
  show "b64_output [e i, e j, e k, EQ] 3 0 x = [push_bit 2 i OR drop_bit 4 j, push_bit 4 j OR drop_bit 2 k]"
    if "unat k < 64"
    unfolding e_def using assms(1,2) that output_word [where i = i and j = j and k = k and l = 0 and x = x]
    by (simp only: run mask_6) simp
  show "b64_output [e i, e j, EQ, EQ] 3 0 x = [push_bit 2 i OR drop_bit 4 j]"
    unfolding e_def using assms(1,2) output_word [where i = i and j = j and k = 0 and l = 0 and x = x]
    by (simp only: run mask_6) simp
qed

lemma b64_output_encode: "b64_output (base64_encode src) 3 0 x = src"
proof -
  have "b64_output (base64_encode_table table src) 3 0 x = src" if "table = base64_enc" for table
    using that
  proof (induction table src arbitrary: x rule: base64_encode_table.induct)
    case (1 table a b c rest)
    obtain x' where "b64_output (base64_encode_table base64_enc (a # b # c # rest)) 3 0 x = a # b # c # b64_output (base64_encode_table base64_enc rest) 3 0 x'"
      unfolding base64_encode_table.simps
      using b64_output_group(1) [OF six_bits(1) [of a] six_bits(2) [of a b] six_bits(3) [of b c] six_bits(4) [of c],
        of "base64_encode_table base64_enc rest" x, unfolded join_64] by blast
    then show ?case using 1 by simp
  qed (simp_all only: base64_encode_table.simps b64_output_group six_bits join_64 b64_output.simps(1))
  then show ?thesis by (simp add: base64_encode_def)
qed

text \<open>
  The checking decoder accepts everything the encoder produces and gives the bytes back, whenever they fit
  the buffer.
\<close>

lemma utils_base64_roundtrip:
  assumes "length src \<le> dlen" "src \<noteq> []"
  shows "utils_base64_decode dlen (base64_encode src) = Inr (src, Some (length src), 0)"
proof -
  obtain body p where e: "base64_encode src = body @ replicate p EQ" "set body \<subseteq> set base64_enc" "p \<in> {0, 1, 2}"
      "length body + p = 4 * ((length src + 2) div 3)" "3 * ((length src + 2) div 3) - p = length src"
    using base64_encode_shape by blast
  have check: "b64_check (base64_encode src) 0 0 = Some (4 * ((length src + 2) div 3), p)"
    using e(4) by (simp add: e(1) b64_check_enc [OF e(2)] b64_check_pads [OF e(3)])
  have n: "(4 * ((length src + 2) div 3) * 6 + 7) div 8 = 3 * ((length src + 2) div 3)"
    by simp
  have "(length src + 2) div 3 \<noteq> 0" using assms(2) by (cases src) auto
  then show ?thesis using assms e(5)
    unfolding utils_base64_decode_def check by (simp add: n Let_def b64_output_encode)
qed

lemma utils_base64_roundtrip_witness:
  "utils_base64_decode 2 (base64_encode [0x48, 0x69]) = Inr ([0x48, 0x69], Some 2, 0)"
  using utils_base64_roundtrip [of "[0x48, 0x69]" 2] by simp

section \<open>Hexadecimal text\<close>

lemma hex_lower_chars:
  assumes "unat i < 16"
  shows "utils_hex2int (lookup hex_lower i) = uint i" "lookup hex_lower i \<noteq> 0"
proof -
  have "map utils_hex2int hex_lower = map int [0..<16] \<and> 0 \<notin> set hex_lower" by code_simp
  moreover have "length hex_lower = 16" by (simp add: hex_lower_def text_bytes_def)
  ultimately have "map utils_hex2int hex_lower ! unat i = map int [0..<16] ! unat i" "lookup hex_lower i \<in> set hex_lower"
      "0 \<notin> set hex_lower"
    using assms by (simp_all add: lookup_def)
  moreover have "map int [0..<16] ! unat i = int (unat i)" using assms by (simp del: upt_rec)
  ultimately have "utils_hex2int (lookup hex_lower i) = int (unat i)"
    using assms \<open>length hex_lower = 16\<close> by (simp add: lookup_def)
  then show "utils_hex2int (lookup hex_lower i) = uint i" by simp
  show "lookup hex_lower i \<noteq> 0" using \<open>lookup hex_lower i \<in> set hex_lower\<close> \<open>0 \<notin> set hex_lower\<close> by metis
qed

lemma drop_4_less: "unat (drop_bit 4 (w :: byte)) < 16"
  by (rule byte_less_cases(3)) (auto simp: bit_simps)

lemma join_hex: "push_bit 4 (drop_bit 4 w) OR (w AND 0x0F) = (w :: byte)"
  by (rule byte_eqI; elim insertE emptyE; simp add: bit_simps)

lemma hex_pairs_digits: "length ps < n \<Longrightarrow> hex_pairs n (hex_digits ps @ 0 # rest) = Inr ps"
proof (induction ps arbitrary: n)
  case Nil
  then show ?case by (cases n; cases rest) auto
next
  case (Cons p ps)
  then obtain m where "n = Suc m" by (cases n) auto
  then show ?case using Cons hex_lower_chars drop_4_less four_bits(2) join_hex
    by simp
qed

lemma hex_pairs_full: "hex_pairs (length ps) (hex_digits ps @ rest) = Inr ps"
  by (induction ps) (simp_all add: hex_lower_chars drop_4_less four_bits(2) join_hex)

text \<open>
  Hexadecimal text written by \<^verbatim>\<open>utils_hex_encode\<close>, with the terminator it stores, is read back byte for byte by
  \<^verbatim>\<open>utils_hex_decode\<close>, into any buffer that is large enough.
\<close>

lemma utils_hex_roundtrip:
  assumes "data \<noteq> []" "2 * length data + 1 \<le> dlen" "length data \<le> blen"
  shows "\<exists>s. utils_hex_encode dlen data = Inr (s, int (2 * length data)) \<and>
    utils_hex_decode blen s (length s) = Inr (data, int (length data))"
proof -
  have "hex_pairs blen (hex_digits data @ [0]) = Inr data"
    using assms(3) hex_pairs_digits [of data blen "[]"] hex_pairs_full [of data "[0]"] by (cases "length data = blen") auto
  moreover have "blen \<noteq> 0" using assms(1,3) by (cases data) auto
  ultimately show ?thesis using assms by (auto simp: utils_hex_encode_def utils_hex_decode_def)
qed

lemma utils_hex_roundtrip_witness:
  "\<exists>s. utils_hex_encode 5 [0xFE, 0x0A] = Inr (s, 4) \<and> utils_hex_decode 8 s (length s) = Inr ([0xFE, 0x0A], 2)"
  using utils_hex_roundtrip [of "[0xFE, 0x0A]" 5 8] by simp

text \<open>
  \<^verbatim>\<open>utils_hex_decode\<close> does not look at the size of its text: on exactly the digits, with room left in the
  output, it reads behind them.
\<close>

lemma utils_hex_decode_overreads:
  assumes "length data < blen"
  shows "utils_hex_decode blen (hex_digits data) (2 * length data) = Inl Out_of_bounds"
proof -
  have "hex_pairs n (hex_digits ps) = Inl Out_of_bounds" if "length ps < n" for n ps
    using that
  proof (induction ps arbitrary: n)
    case Nil
    then show ?case by (cases n) auto
  next
    case (Cons p ps)
    then obtain m where "n = Suc m" by (cases n) auto
    then show ?case using Cons hex_lower_chars drop_4_less four_bits(2) by simp
  qed
  then show ?thesis using assms by (simp add: utils_hex_decode_def)
qed

lemma utils_hex_decode_overreads_witness:
  "utils_hex_decode 4 (hex_digits [0xFE]) 2 = Inl Out_of_bounds"
  using utils_hex_decode_overreads [of "[0xFE]" 4] by simp

end
