(* ===== verification/Crc.thy ===== *)
theory Crc
  imports CString
begin

text \<open>
  The cyclic redundancy checks of \<^verbatim>\<open>core/deps/util\<close>: \<^verbatim>\<open>encoding/crc.c\<close> and \<^verbatim>\<open>util/crc32.c\<close>.
  The tables are the tables of the source.
\<close>

unbundle bit_operations_syntax

section \<open>\<^verbatim>\<open>util/crc32.c\<close>\<close>

text \<open>One round of the inner loops of \<^verbatim>\<open>crc32_msb_init\<close> and \<^verbatim>\<open>crc32_lsb_init\<close>.\<close>

definition msb_step :: "32 word \<Rightarrow> 32 word" where
  "msb_step rem = (if rem AND 0x80000000 \<noteq> 0 then push_bit 1 rem XOR 0x04C11DB7 else push_bit 1 rem)"

definition lsb_step :: "32 word \<Rightarrow> 32 word" where
  "lsb_step rem = (if rem AND 1 \<noteq> 0 then drop_bit 1 rem XOR 0xEDB88320 else drop_bit 1 rem)"

definition crc32_msb_init :: "32 word list" where
  "crc32_msb_init = map (\<lambda>val. (msb_step ^^ 8) (push_bit 24 (of_nat val))) [0..<256]"

definition crc32_lsb_init :: "32 word list" where
  "crc32_lsb_init = map (\<lambda>val. (lsb_step ^^ 8) (of_nat val)) [0..<256]"

definition crc32_msb :: "32 word list \<Rightarrow> 32 word \<Rightarrow> byte list \<Rightarrow> 32 word" where
  "crc32_msb crc32msbtable crc buffer =
     foldl (\<lambda>crc b. crc32msbtable ! unat ((drop_bit 24 crc XOR ucast b) AND 0xFF) XOR push_bit 8 crc) crc buffer"

definition crc32_lsb :: "32 word list \<Rightarrow> 32 word \<Rightarrow> byte list \<Rightarrow> 32 word" where
  "crc32_lsb crc32lsbtable crc buffer =
     foldl (\<lambda>crc b. crc32lsbtable ! unat ((crc XOR ucast b) AND 0xFF) XOR drop_bit 8 crc) crc buffer XOR 0xFFFFFFFF"

definition crc32table :: "32 word list" where
  "crc32table =
    [0x00000000, 0xB71DC104, 0x6E3B8209, 0xD926430D, 0xDC760413, 0x6B6BC517, 0xB24D861A, 0x0550471E,
     0xB8ED0826, 0x0FF0C922, 0xD6D68A2F, 0x61CB4B2B, 0x649B0C35, 0xD386CD31, 0x0AA08E3C, 0xBDBD4F38,
     0x70DB114C, 0xC7C6D048, 0x1EE09345, 0xA9FD5241, 0xACAD155F, 0x1BB0D45B, 0xC2969756, 0x758B5652,
     0xC836196A, 0x7F2BD86E, 0xA60D9B63, 0x11105A67, 0x14401D79, 0xA35DDC7D, 0x7A7B9F70, 0xCD665E74,
     0xE0B62398, 0x57ABE29C, 0x8E8DA191, 0x39906095, 0x3CC0278B, 0x8BDDE68F, 0x52FBA582, 0xE5E66486,
     0x585B2BBE, 0xEF46EABA, 0x3660A9B7, 0x817D68B3, 0x842D2FAD, 0x3330EEA9, 0xEA16ADA4, 0x5D0B6CA0,
     0x906D32D4, 0x2770F3D0, 0xFE56B0DD, 0x494B71D9, 0x4C1B36C7, 0xFB06F7C3, 0x2220B4CE, 0x953D75CA,
     0x28803AF2, 0x9F9DFBF6, 0x46BBB8FB, 0xF1A679FF, 0xF4F63EE1, 0x43EBFFE5, 0x9ACDBCE8, 0x2DD07DEC,
     0x77708634, 0xC06D4730, 0x194B043D, 0xAE56C539, 0xAB068227, 0x1C1B4323, 0xC53D002E, 0x7220C12A,
     0xCF9D8E12, 0x78804F16, 0xA1A60C1B, 0x16BBCD1F, 0x13EB8A01, 0xA4F64B05, 0x7DD00808, 0xCACDC90C,
     0x07AB9778, 0xB0B6567C, 0x69901571, 0xDE8DD475, 0xDBDD936B, 0x6CC0526F, 0xB5E61162, 0x02FBD066,
     0xBF469F5E, 0x085B5E5A, 0xD17D1D57, 0x6660DC53, 0x63309B4D, 0xD42D5A49, 0x0D0B1944, 0xBA16D840,
     0x97C6A5AC, 0x20DB64A8, 0xF9FD27A5, 0x4EE0E6A1, 0x4BB0A1BF, 0xFCAD60BB, 0x258B23B6, 0x9296E2B2,
     0x2F2BAD8A, 0x98366C8E, 0x41102F83, 0xF60DEE87, 0xF35DA999, 0x4440689D, 0x9D662B90, 0x2A7BEA94,
     0xE71DB4E0, 0x500075E4, 0x892636E9, 0x3E3BF7ED, 0x3B6BB0F3, 0x8C7671F7, 0x555032FA, 0xE24DF3FE,
     0x5FF0BCC6, 0xE8ED7DC2, 0x31CB3ECF, 0x86D6FFCB, 0x8386B8D5, 0x349B79D1, 0xEDBD3ADC, 0x5AA0FBD8,
     0xEEE00C69, 0x59FDCD6D, 0x80DB8E60, 0x37C64F64, 0x3296087A, 0x858BC97E, 0x5CAD8A73, 0xEBB04B77,
     0x560D044F, 0xE110C54B, 0x38368646, 0x8F2B4742, 0x8A7B005C, 0x3D66C158, 0xE4408255, 0x535D4351,
     0x9E3B1D25, 0x2926DC21, 0xF0009F2C, 0x471D5E28, 0x424D1936, 0xF550D832, 0x2C769B3F, 0x9B6B5A3B,
     0x26D61503, 0x91CBD407, 0x48ED970A, 0xFFF0560E, 0xFAA01110, 0x4DBDD014, 0x949B9319, 0x2386521D,
     0x0E562FF1, 0xB94BEEF5, 0x606DADF8, 0xD7706CFC, 0xD2202BE2, 0x653DEAE6, 0xBC1BA9EB, 0x0B0668EF,
     0xB6BB27D7, 0x01A6E6D3, 0xD880A5DE, 0x6F9D64DA, 0x6ACD23C4, 0xDDD0E2C0, 0x04F6A1CD, 0xB3EB60C9,
     0x7E8D3EBD, 0xC990FFB9, 0x10B6BCB4, 0xA7AB7DB0, 0xA2FB3AAE, 0x15E6FBAA, 0xCCC0B8A7, 0x7BDD79A3,
     0xC660369B, 0x717DF79F, 0xA85BB492, 0x1F467596, 0x1A163288, 0xAD0BF38C, 0x742DB081, 0xC3307185,
     0x99908A5D, 0x2E8D4B59, 0xF7AB0854, 0x40B6C950, 0x45E68E4E, 0xF2FB4F4A, 0x2BDD0C47, 0x9CC0CD43,
     0x217D827B, 0x9660437F, 0x4F460072, 0xF85BC176, 0xFD0B8668, 0x4A16476C, 0x93300461, 0x242DC565,
     0xE94B9B11, 0x5E565A15, 0x87701918, 0x306DD81C, 0x353D9F02, 0x82205E06, 0x5B061D0B, 0xEC1BDC0F,
     0x51A69337, 0xE6BB5233, 0x3F9D113E, 0x8880D03A, 0x8DD09724, 0x3ACD5620, 0xE3EB152D, 0x54F6D429,
     0x7926A9C5, 0xCE3B68C1, 0x171D2BCC, 0xA000EAC8, 0xA550ADD6, 0x124D6CD2, 0xCB6B2FDF, 0x7C76EEDB,
     0xC1CBA1E3, 0x76D660E7, 0xAFF023EA, 0x18EDE2EE, 0x1DBDA5F0, 0xAAA064F4, 0x738627F9, 0xC49BE6FD,
     0x09FDB889, 0xBEE0798D, 0x67C63A80, 0xD0DBFB84, 0xD58BBC9A, 0x62967D9E, 0xBBB03E93, 0x0CADFF97,
     0xB110B0AF, 0x060D71AB, 0xDF2B32A6, 0x6836F3A2, 0x6D66B4BC, 0xDA7B75B8, 0x035D36B5, 0xB440F7B1]"

definition crc32 :: "32 word \<Rightarrow> byte list \<Rightarrow> 32 word" where
  "crc32 crc buffer =
     foldl (\<lambda>crc b. crc32table ! unat ((crc XOR ucast b) AND 0xFF) XOR drop_bit 8 crc) crc buffer"

section \<open>\<^verbatim>\<open>encoding/crc.c\<close>\<close>

definition utils_table_crc_hi :: "8 word list" where
  "utils_table_crc_hi =
    [0x00, 0xC1, 0x81, 0x40, 0x01, 0xC0, 0x80, 0x41, 0x01, 0xC0, 0x80, 0x41, 0x00, 0xC1, 0x81, 0x40,
     0x01, 0xC0, 0x80, 0x41, 0x00, 0xC1, 0x81, 0x40, 0x00, 0xC1, 0x81, 0x40, 0x01, 0xC0, 0x80, 0x41,
     0x01, 0xC0, 0x80, 0x41, 0x00, 0xC1, 0x81, 0x40, 0x00, 0xC1, 0x81, 0x40, 0x01, 0xC0, 0x80, 0x41,
     0x00, 0xC1, 0x81, 0x40, 0x01, 0xC0, 0x80, 0x41, 0x01, 0xC0, 0x80, 0x41, 0x00, 0xC1, 0x81, 0x40,
     0x01, 0xC0, 0x80, 0x41, 0x00, 0xC1, 0x81, 0x40, 0x00, 0xC1, 0x81, 0x40, 0x01, 0xC0, 0x80, 0x41,
     0x00, 0xC1, 0x81, 0x40, 0x01, 0xC0, 0x80, 0x41, 0x01, 0xC0, 0x80, 0x41, 0x00, 0xC1, 0x81, 0x40,
     0x00, 0xC1, 0x81, 0x40, 0x01, 0xC0, 0x80, 0x41, 0x01, 0xC0, 0x80, 0x41, 0x00, 0xC1, 0x81, 0x40,
     0x01, 0xC0, 0x80, 0x41, 0x00, 0xC1, 0x81, 0x40, 0x00, 0xC1, 0x81, 0x40, 0x01, 0xC0, 0x80, 0x41,
     0x01, 0xC0, 0x80, 0x41, 0x00, 0xC1, 0x81, 0x40, 0x00, 0xC1, 0x81, 0x40, 0x01, 0xC0, 0x80, 0x41,
     0x00, 0xC1, 0x81, 0x40, 0x01, 0xC0, 0x80, 0x41, 0x01, 0xC0, 0x80, 0x41, 0x00, 0xC1, 0x81, 0x40,
     0x00, 0xC1, 0x81, 0x40, 0x01, 0xC0, 0x80, 0x41, 0x01, 0xC0, 0x80, 0x41, 0x00, 0xC1, 0x81, 0x40,
     0x01, 0xC0, 0x80, 0x41, 0x00, 0xC1, 0x81, 0x40, 0x00, 0xC1, 0x81, 0x40, 0x01, 0xC0, 0x80, 0x41,
     0x00, 0xC1, 0x81, 0x40, 0x01, 0xC0, 0x80, 0x41, 0x01, 0xC0, 0x80, 0x41, 0x00, 0xC1, 0x81, 0x40,
     0x01, 0xC0, 0x80, 0x41, 0x00, 0xC1, 0x81, 0x40, 0x00, 0xC1, 0x81, 0x40, 0x01, 0xC0, 0x80, 0x41,
     0x01, 0xC0, 0x80, 0x41, 0x00, 0xC1, 0x81, 0x40, 0x00, 0xC1, 0x81, 0x40, 0x01, 0xC0, 0x80, 0x41,
     0x00, 0xC1, 0x81, 0x40, 0x01, 0xC0, 0x80, 0x41, 0x01, 0xC0, 0x80, 0x41, 0x00, 0xC1, 0x81, 0x40]"

definition utils_table_crc_lo :: "8 word list" where
  "utils_table_crc_lo =
    [0x00, 0xC0, 0xC1, 0x01, 0xC3, 0x03, 0x02, 0xC2, 0xC6, 0x06, 0x07, 0xC7, 0x05, 0xC5, 0xC4, 0x04,
     0xCC, 0x0C, 0x0D, 0xCD, 0x0F, 0xCF, 0xCE, 0x0E, 0x0A, 0xCA, 0xCB, 0x0B, 0xC9, 0x09, 0x08, 0xC8,
     0xD8, 0x18, 0x19, 0xD9, 0x1B, 0xDB, 0xDA, 0x1A, 0x1E, 0xDE, 0xDF, 0x1F, 0xDD, 0x1D, 0x1C, 0xDC,
     0x14, 0xD4, 0xD5, 0x15, 0xD7, 0x17, 0x16, 0xD6, 0xD2, 0x12, 0x13, 0xD3, 0x11, 0xD1, 0xD0, 0x10,
     0xF0, 0x30, 0x31, 0xF1, 0x33, 0xF3, 0xF2, 0x32, 0x36, 0xF6, 0xF7, 0x37, 0xF5, 0x35, 0x34, 0xF4,
     0x3C, 0xFC, 0xFD, 0x3D, 0xFF, 0x3F, 0x3E, 0xFE, 0xFA, 0x3A, 0x3B, 0xFB, 0x39, 0xF9, 0xF8, 0x38,
     0x28, 0xE8, 0xE9, 0x29, 0xEB, 0x2B, 0x2A, 0xEA, 0xEE, 0x2E, 0x2F, 0xEF, 0x2D, 0xED, 0xEC, 0x2C,
     0xE4, 0x24, 0x25, 0xE5, 0x27, 0xE7, 0xE6, 0x26, 0x22, 0xE2, 0xE3, 0x23, 0xE1, 0x21, 0x20, 0xE0,
     0xA0, 0x60, 0x61, 0xA1, 0x63, 0xA3, 0xA2, 0x62, 0x66, 0xA6, 0xA7, 0x67, 0xA5, 0x65, 0x64, 0xA4,
     0x6C, 0xAC, 0xAD, 0x6D, 0xAF, 0x6F, 0x6E, 0xAE, 0xAA, 0x6A, 0x6B, 0xAB, 0x69, 0xA9, 0xA8, 0x68,
     0x78, 0xB8, 0xB9, 0x79, 0xBB, 0x7B, 0x7A, 0xBA, 0xBE, 0x7E, 0x7F, 0xBF, 0x7D, 0xBD, 0xBC, 0x7C,
     0xB4, 0x74, 0x75, 0xB5, 0x77, 0xB7, 0xB6, 0x76, 0x72, 0xB2, 0xB3, 0x73, 0xB1, 0x71, 0x70, 0xB0,
     0x50, 0x90, 0x91, 0x51, 0x93, 0x53, 0x52, 0x92, 0x96, 0x56, 0x57, 0x97, 0x55, 0x95, 0x94, 0x54,
     0x9C, 0x5C, 0x5D, 0x9D, 0x5F, 0x9F, 0x9E, 0x5E, 0x5A, 0x9A, 0x9B, 0x5B, 0x99, 0x59, 0x58, 0x98,
     0x88, 0x48, 0x49, 0x89, 0x4B, 0x8B, 0x8A, 0x4A, 0x4E, 0x8E, 0x8F, 0x4F, 0x8D, 0x4D, 0x4C, 0x8C,
     0x44, 0x84, 0x85, 0x45, 0x87, 0x47, 0x46, 0x86, 0x82, 0x42, 0x43, 0x83, 0x41, 0x81, 0x80, 0x40]"

definition utils_crc32_table :: "32 word list" where
  "utils_crc32_table =
    [0x00000000, 0x04C11DB7, 0x09823B6E, 0x0D4326D9, 0x130476DC, 0x17C56B6B, 0x1A864DB2, 0x1E475005,
     0x2608EDB8, 0x22C9F00F, 0x2F8AD6D6, 0x2B4BCB61, 0x350C9B64, 0x31CD86D3, 0x3C8EA00A, 0x384FBDBD,
     0x4C11DB70, 0x48D0C6C7, 0x4593E01E, 0x4152FDA9, 0x5F15ADAC, 0x5BD4B01B, 0x569796C2, 0x52568B75,
     0x6A1936C8, 0x6ED82B7F, 0x639B0DA6, 0x675A1011, 0x791D4014, 0x7DDC5DA3, 0x709F7B7A, 0x745E66CD,
     0x9823B6E0, 0x9CE2AB57, 0x91A18D8E, 0x95609039, 0x8B27C03C, 0x8FE6DD8B, 0x82A5FB52, 0x8664E6E5,
     0xBE2B5B58, 0xBAEA46EF, 0xB7A96036, 0xB3687D81, 0xAD2F2D84, 0xA9EE3033, 0xA4AD16EA, 0xA06C0B5D,
     0xD4326D90, 0xD0F37027, 0xDDB056FE, 0xD9714B49, 0xC7361B4C, 0xC3F706FB, 0xCEB42022, 0xCA753D95,
     0xF23A8028, 0xF6FB9D9F, 0xFBB8BB46, 0xFF79A6F1, 0xE13EF6F4, 0xE5FFEB43, 0xE8BCCD9A, 0xEC7DD02D,
     0x34867077, 0x30476DC0, 0x3D044B19, 0x39C556AE, 0x278206AB, 0x23431B1C, 0x2E003DC5, 0x2AC12072,
     0x128E9DCF, 0x164F8078, 0x1B0CA6A1, 0x1FCDBB16, 0x018AEB13, 0x054BF6A4, 0x0808D07D, 0x0CC9CDCA,
     0x7897AB07, 0x7C56B6B0, 0x71159069, 0x75D48DDE, 0x6B93DDDB, 0x6F52C06C, 0x6211E6B5, 0x66D0FB02,
     0x5E9F46BF, 0x5A5E5B08, 0x571D7DD1, 0x53DC6066, 0x4D9B3063, 0x495A2DD4, 0x44190B0D, 0x40D816BA,
     0xACA5C697, 0xA864DB20, 0xA527FDF9, 0xA1E6E04E, 0xBFA1B04B, 0xBB60ADFC, 0xB6238B25, 0xB2E29692,
     0x8AAD2B2F, 0x8E6C3698, 0x832F1041, 0x87EE0DF6, 0x99A95DF3, 0x9D684044, 0x902B669D, 0x94EA7B2A,
     0xE0B41DE7, 0xE4750050, 0xE9362689, 0xEDF73B3E, 0xF3B06B3B, 0xF771768C, 0xFA325055, 0xFEF34DE2,
     0xC6BCF05F, 0xC27DEDE8, 0xCF3ECB31, 0xCBFFD686, 0xD5B88683, 0xD1799B34, 0xDC3ABDED, 0xD8FBA05A,
     0x690CE0EE, 0x6DCDFD59, 0x608EDB80, 0x644FC637, 0x7A089632, 0x7EC98B85, 0x738AAD5C, 0x774BB0EB,
     0x4F040D56, 0x4BC510E1, 0x46863638, 0x42472B8F, 0x5C007B8A, 0x58C1663D, 0x558240E4, 0x51435D53,
     0x251D3B9E, 0x21DC2629, 0x2C9F00F0, 0x285E1D47, 0x36194D42, 0x32D850F5, 0x3F9B762C, 0x3B5A6B9B,
     0x0315D626, 0x07D4CB91, 0x0A97ED48, 0x0E56F0FF, 0x1011A0FA, 0x14D0BD4D, 0x19939B94, 0x1D528623,
     0xF12F560E, 0xF5EE4BB9, 0xF8AD6D60, 0xFC6C70D7, 0xE22B20D2, 0xE6EA3D65, 0xEBA91BBC, 0xEF68060B,
     0xD727BBB6, 0xD3E6A601, 0xDEA580D8, 0xDA649D6F, 0xC423CD6A, 0xC0E2D0DD, 0xCDA1F604, 0xC960EBB3,
     0xBD3E8D7E, 0xB9FF90C9, 0xB4BCB610, 0xB07DABA7, 0xAE3AFBA2, 0xAAFBE615, 0xA7B8C0CC, 0xA379DD7B,
     0x9B3660C6, 0x9FF77D71, 0x92B45BA8, 0x9675461F, 0x8832161A, 0x8CF30BAD, 0x81B02D74, 0x857130C3,
     0x5D8A9099, 0x594B8D2E, 0x5408ABF7, 0x50C9B640, 0x4E8EE645, 0x4A4FFBF2, 0x470CDD2B, 0x43CDC09C,
     0x7B827D21, 0x7F436096, 0x7200464F, 0x76C15BF8, 0x68860BFD, 0x6C47164A, 0x61043093, 0x65C52D24,
     0x119B4BE9, 0x155A565E, 0x18197087, 0x1CD86D30, 0x029F3D35, 0x065E2082, 0x0B1D065B, 0x0FDC1BEC,
     0x3793A651, 0x3352BBE6, 0x3E119D3F, 0x3AD08088, 0x2497D08D, 0x2056CD3A, 0x2D15EBE3, 0x29D4F654,
     0xC5A92679, 0xC1683BCE, 0xCC2B1D17, 0xC8EA00A0, 0xD6AD50A5, 0xD26C4D12, 0xDF2F6BCB, 0xDBEE767C,
     0xE3A1CBC1, 0xE760D676, 0xEA23F0AF, 0xEEE2ED18, 0xF0A5BD1D, 0xF464A0AA, 0xF9278673, 0xFDE69BC4,
     0x89B8FD09, 0x8D79E0BE, 0x803AC667, 0x84FBDBD0, 0x9ABC8BD5, 0x9E7D9662, 0x933EB0BB, 0x97FFAD0C,
     0xAFB010B1, 0xAB710D06, 0xA6322BDF, 0xA2F33668, 0xBCB4666D, 0xB8757BDA, 0xB5365D03, 0xB1F740B4]"

definition utils_crc32 :: "byte list \<Rightarrow> 32 word" where
  "utils_crc32 data =
     foldl (\<lambda>crc b. push_bit 8 crc XOR utils_crc32_table ! unat ((drop_bit 24 crc XOR ucast b) AND 0xFF)) 0xFFFFFFFF data"

text \<open>The two bytes of the check, \<open>crc_hi\<close> and \<open>crc_lo\<close>.\<close>

definition crc16_step :: "byte \<times> byte \<Rightarrow> byte \<Rightarrow> byte \<times> byte" where
  "crc16_step = (\<lambda>(crc_hi, crc_lo) b.
     let i = unat (crc_hi XOR b) in (crc_lo XOR utils_table_crc_hi ! i, utils_table_crc_lo ! i))"

definition utils_crc16 :: "byte list \<Rightarrow> 16 word" where
  "utils_crc16 data =
     (let (crc_hi, crc_lo) = foldl crc16_step (0xFF, 0xFF) data in push_bit 8 (ucast crc_hi) OR ucast crc_lo)"

section \<open>Tables of linear functions\<close>

definition linear :: "('a::len word \<Rightarrow> 'b::len word) \<Rightarrow> bool" where
  "linear f \<longleftrightarrow> (\<forall>x y. f (x XOR y) = f x XOR f y)"

lemma linearD: "linear f \<Longrightarrow> f (x XOR y) = f x XOR f y"
  by (simp add: linear_def)

lemma linear_zero: "linear f \<Longrightarrow> f 0 = 0"
  by (metis linear_def xor_self_eq)

lemma linear_comp: "linear f \<Longrightarrow> linear g \<Longrightarrow> linear (\<lambda>x. g (f x))"
  by (simp add: linear_def)

lemma linear_funpow:
  fixes f :: "'a::len word \<Rightarrow> 'a word"
  shows "linear f \<Longrightarrow> linear (f ^^ n)"
  by (induction n) (simp_all add: linear_def)

text \<open>The table of all sums of the given values.\<close>

fun xor_table :: "'b::len word list \<Rightarrow> 'b word list \<Rightarrow> 'b word list" where
  "xor_table t [] = t"
| "xor_table t (b # bs) = xor_table (t @ map (\<lambda>x. b XOR x) t) bs"

lemma of_nat_high:
  assumes "j < 2 ^ n"
  shows "(of_nat (2 ^ n + j) :: 'a::len word) = of_nat (2 ^ n) XOR of_nat j"
proof -
  have "\<not> bit j n" using assms by (metis bit_take_bit_iff less_irrefl take_bit_nat_eq_self)
  then have "2 ^ n AND j = 0" by (intro bit_eqI) (auto simp: bit_simps)
  then have "2 ^ n + j = 2 ^ n XOR j" by (rule disjunctive_add_eq_xor)
  then show ?thesis by (simp only: of_nat_xor_eq)
qed

lemma xor_table_linear:
  fixes f :: "'a::len word \<Rightarrow> 'b::len word"
  assumes "linear f"
  shows "xor_table (map (\<lambda>i. f (of_nat i)) [0..<2 ^ n]) (map (\<lambda>k. f (of_nat (2 ^ k))) [n..<n + k]) =
    map (\<lambda>i. f (of_nat i)) [0..<2 ^ (n + k)]"
proof (induction k arbitrary: n)
  case (Suc k)
  let ?t = "map (\<lambda>i. f (of_nat i)) [0..<2 ^ n]"
  have "[0..<2 ^ Suc n] = [0..<2 ^ n] @ map (\<lambda>j. j + 2 ^ n) [0..<2 ^ n]"
    by (simp add: map_add_upt mult_2 upt_add_eq_append [of 0 "2 ^ n", simplified])
  then have "map (\<lambda>i. f (of_nat i)) [0..<2 ^ Suc n] = ?t @ map (\<lambda>j. f (of_nat (2 ^ n + j))) [0..<2 ^ n]"
    by (simp add: o_def add.commute)
  also have "map (\<lambda>j. f (of_nat (2 ^ n + j))) [0..<2 ^ n] = map (\<lambda>x. f (of_nat (2 ^ n)) XOR x) ?t"
    using assms by (simp add: linear_def of_nat_high del: of_nat_add of_nat_power)
  finally have step: "?t @ map (\<lambda>x. f (of_nat (2 ^ n)) XOR x) ?t = map (\<lambda>i. f (of_nat i)) [0..<2 ^ Suc n]" by simp
  have "[n..<n + Suc k] = n # [Suc n..<Suc n + k]" by (simp add: upt_rec)
  then show ?case using Suc.IH [of "Suc n"] step by simp
qed simp

lemma table_256:
  assumes "linear f" "map (\<lambda>k. f (of_nat (2 ^ k))) [0, 1, 2, 3, 4, 5, 6, 7] = bs"
  shows "map (\<lambda>i. f (of_nat i)) [0..<256] = xor_table [0] bs"
proof -
  have "[0..<0 + 8] = [0, 1, 2, 3, 4, 5, 6, 7]" by (simp add: upt_rec)
  then have "map (\<lambda>k. f (of_nat (2 ^ k))) [0..<0 + 8] = bs" using assms(2) by (simp only:)
  moreover have "map (\<lambda>i. f (of_nat i)) [0..<2 ^ 0] = [0]" using linear_zero [OF assms(1)] by simp
  moreover have "(2 :: nat) ^ (0 + 8) = 256" by simp
  ultimately show ?thesis using xor_table_linear [OF assms(1), of 0 8] by (simp only:)
qed

lemma msb_step_eq: "msb_step x = push_bit 1 x XOR (if bit x 31 then 0x04C11DB7 else 0)"
proof -
  have "x AND 0x80000000 \<noteq> 0 \<longleftrightarrow> bit x 31" using and_exp_eq_0_iff_not_bit [of x 31] by simp
  then show ?thesis by (simp add: msb_step_def)
qed

text \<open>The reflected step, for any width and polynomial.\<close>

definition reflected :: "'a::len word \<Rightarrow> 'a word \<Rightarrow> 'a word" where
  "reflected p x = drop_bit 1 x XOR (if bit x 0 then p else 0)"

lemma odd_word: "x AND 1 \<noteq> 0 \<longleftrightarrow> bit (x :: 'a::len word) 0"
  using and_exp_eq_0_iff_not_bit [of x 0] by simp

lemma lsb_step_eq: "lsb_step = reflected 0xEDB88320"
  by (rule ext) (simp add: lsb_step_def reflected_def odd_word del: bit_0)

lemma linear_msb: "linear msb_step"
  by (auto simp: linear_def msb_step_eq bit_xor_iff push_bit_xor ac_simps)

lemma linear_reflected: "linear (reflected p)"
  by (auto simp: linear_def reflected_def bit_xor_iff drop_bit_xor ac_simps simp del: bit_0)

lemma funpow_8: "(f ^^ 8) x = f (f (f (f (f (f (f (f x)))))))"
  by (simp add: eval_nat_numeral)

lemma msb_bases: "map (\<lambda>k. (msb_step ^^ 8) (push_bit 24 (of_nat (2 ^ k)))) [0, 1, 2, 3, 4, 5, 6, 7] =
    [0x04C11DB7, 0x09823B6E, 0x130476DC, 0x2608EDB8, 0x4C11DB70, 0x9823B6E0, 0x34867077, 0x690CE0EE]"
  by (simp add: funpow_8 msb_step_def)

lemma utils_crc32_table_eq: "utils_crc32_table = crc32_msb_init"
proof -
  have "linear (\<lambda>x. (msb_step ^^ 8) (push_bit 24 x))"
    using linear_funpow [OF linear_msb] by (simp add: linear_def push_bit_xor)
  from table_256 [OF this msb_bases] show ?thesis
    unfolding crc32_msb_init_def utils_crc32_table_def by simp
qed

text \<open>Eight rounds on a word with a low byte (or, going the other way, a high byte) only shift it.\<close>

lemma msb_shift: "(\<forall>n \<ge> 32 - k. \<not> bit y n) \<Longrightarrow> k \<le> 32 \<Longrightarrow> (msb_step ^^ k) y = push_bit k y"
proof (induction k arbitrary: y)
  case (Suc k)
  have "msb_step y = push_bit 1 y" using Suc.prems by (simp add: msb_step_eq)
  moreover have "\<not> bit (push_bit 1 y) n" if "32 - k \<le> n" for n
    using Suc.prems that by (simp only: bit_push_bit_iff) auto
  ultimately have "(msb_step ^^ k) (msb_step y) = push_bit k (push_bit 1 y)" using Suc by simp
  then show ?case by (simp add: funpow_swap1 push_bit_push_bit)
qed simp

lemma reflected_shift: "(\<forall>n < k. \<not> bit y n) \<Longrightarrow> (reflected p ^^ k) y = drop_bit k y"
proof (induction k arbitrary: y)
  case (Suc k)
  have "reflected p y = drop_bit 1 y" using Suc.prems by (simp add: reflected_def del: bit_0)
  moreover have "\<forall>n < k. \<not> bit (drop_bit 1 y) n" using Suc.prems by (auto simp: bit_drop_bit_eq)
  ultimately have "(reflected p ^^ k) (reflected p y) = drop_bit k (drop_bit 1 y)" using Suc by simp
  then show ?case by (simp add: funpow_swap1 drop_bit_drop_bit)
qed simp

lemma word32_eqI: "(\<And>n. n < 32 \<Longrightarrow> bit (a :: 32 word) n = bit b n) \<Longrightarrow> a = b"
  by (rule bit_word_eqI) simp

lemma bit32: "bit (w :: 32 word) n \<Longrightarrow> n < 32"
  by (drule bit_imp_le_length) simp

lemma and_255: "w AND 0xFF = take_bit 8 (w :: 32 word)"
  by (simp add: take_bit_eq_mask mask_eq_exp_minus_1)

lemma index_less: "unat (take_bit 8 w :: 32 word) < 256"
  using take_bit_nat_less_exp [of 8 "unat w"] by (simp add: unsigned_take_bit_eq)

lemma of_nat_unat_32: "of_nat (unat w) = (w :: 32 word)"
  by simp

lemma nth_256: "i < 256 \<Longrightarrow> map f [0..<256] ! i = f i"
  by simp

lemma msb_table_step:
  "crc32_msb_init ! unat ((drop_bit 24 crc XOR ucast (b :: byte)) AND 0xFF) XOR push_bit 8 crc =
   (msb_step ^^ 8) (crc XOR push_bit 24 (ucast b))"
proof -
  let ?i = "take_bit 8 (drop_bit 24 crc XOR ucast b)"
  let ?low = "take_bit 24 crc"
  have "crc32_msb_init ! unat ?i = (msb_step ^^ 8) (push_bit 24 ?i)"
    unfolding crc32_msb_init_def nth_256 [OF index_less] by (simp only: of_nat_unat_32)
  moreover have "(msb_step ^^ 8) ?low = push_bit 8 ?low" by (rule msb_shift) (auto simp: bit_simps)
  moreover have "push_bit 8 ?low = push_bit 8 crc" by (rule word32_eqI) (auto simp: bit_simps)
  moreover have "push_bit 24 ?i XOR ?low = crc XOR push_bit 24 (ucast b)"
    by (rule word32_eqI) (auto simp: bit_push_bit_iff bit_take_bit_iff bit_xor_iff bit_drop_bit_eq bit_ucast_iff)
  moreover have "(msb_step ^^ 8) (push_bit 24 ?i XOR ?low) = (msb_step ^^ 8) (push_bit 24 ?i) XOR (msb_step ^^ 8) ?low"
    by (rule linearD [OF linear_funpow [OF linear_msb]])
  ultimately show ?thesis unfolding and_255 by (simp only:)
qed

lemma lsb_table_step:
  "crc32_lsb_init ! unat ((crc XOR ucast (b :: byte)) AND 0xFF) XOR drop_bit 8 crc = (lsb_step ^^ 8) (crc XOR ucast b)"
proof -
  let ?i = "take_bit 8 (crc XOR ucast b)"
  let ?high = "push_bit 8 (drop_bit 8 crc)"
  have "crc32_lsb_init ! unat ?i = (lsb_step ^^ 8) ?i"
    unfolding crc32_lsb_init_def nth_256 [OF index_less] by (simp only: of_nat_unat_32)
  moreover have "(lsb_step ^^ 8) ?high = drop_bit 8 ?high" unfolding lsb_step_eq by (rule reflected_shift) (auto simp: bit_simps)
  moreover have "drop_bit 8 ?high = drop_bit 8 crc"
    by (rule word32_eqI) (auto simp: bit_push_bit_iff bit_drop_bit_eq dest: bit32)
  moreover have "?i XOR ?high = crc XOR ucast b"
    by (rule word32_eqI) (auto simp: bit_push_bit_iff bit_take_bit_iff bit_xor_iff bit_drop_bit_eq bit_ucast_iff dest: bit_imp_le_length)
  moreover have "(lsb_step ^^ 8) (?i XOR ?high) = (lsb_step ^^ 8) ?i XOR (lsb_step ^^ 8) ?high"
    unfolding lsb_step_eq by (rule linearD [OF linear_funpow [OF linear_reflected]])
  ultimately show ?thesis unfolding and_255 by (simp only:)
qed

text \<open>The checks bit by bit: every byte is added to one end of the register, which then makes eight steps.\<close>

definition crc_msb_bitwise :: "32 word \<Rightarrow> byte list \<Rightarrow> 32 word" where
  "crc_msb_bitwise crc data = foldl (\<lambda>crc b. (msb_step ^^ 8) (crc XOR push_bit 24 (ucast b))) crc data"

definition crc_lsb_bitwise :: "32 word \<Rightarrow> byte list \<Rightarrow> 32 word" where
  "crc_lsb_bitwise crc data = foldl (\<lambda>crc b. (lsb_step ^^ 8) (crc XOR ucast b)) crc data"

lemma crc32_msb_bitwise: "crc32_msb crc32_msb_init crc data = crc_msb_bitwise crc data"
  by (simp only: crc32_msb_def crc_msb_bitwise_def msb_table_step)

lemma crc32_lsb_bitwise: "crc32_lsb crc32_lsb_init crc data = crc_lsb_bitwise crc data XOR 0xFFFFFFFF"
  by (simp only: crc32_lsb_def crc_lsb_bitwise_def lsb_table_step)

section \<open>The byte-swapped table\<close>

definition bswap :: "32 word \<Rightarrow> 32 word" where
  "bswap x = push_bit 24 (take_bit 8 x) XOR push_bit 16 (take_bit 8 (drop_bit 8 x)) XOR
     push_bit 8 (take_bit 8 (drop_bit 16 x)) XOR drop_bit 24 x"

lemma linear_bswap: "linear bswap"
  by (simp add: linear_def bswap_def push_bit_xor take_bit_xor drop_bit_xor ac_simps)

lemma byte_moves:
  "take_bit 8 (drop_bit 24 x) = drop_bit 24 (x :: 32 word)"
  "drop_bit 8 (drop_bit 24 x) = (0 :: 32 word)"
  "drop_bit 8 (push_bit 24 (take_bit 8 x)) = push_bit 16 (take_bit 8 (x :: 32 word))"
  "drop_bit 8 (push_bit 16 (take_bit 8 x)) = push_bit 8 (take_bit 8 (x :: 32 word))"
  "drop_bit 8 (push_bit 8 (take_bit 8 x)) = take_bit 8 (x :: 32 word)"
  "take_bit 8 (drop_bit 8 (push_bit 8 x)) = take_bit 8 (x :: 32 word)"
  "take_bit 8 (drop_bit 16 (push_bit 8 x)) = take_bit 8 (drop_bit 8 (x :: 32 word))"
  "drop_bit 24 (push_bit 8 x) = take_bit 8 (drop_bit 16 (x :: 32 word))"
  by (rule word32_eqI; auto simp: bit_push_bit_iff bit_take_bit_iff bit_drop_bit_eq dest: bit_imp_le_length)+

lemma bswap_ends:
  "take_bit 8 (bswap x) = drop_bit 24 x" "drop_bit 8 (bswap x) = bswap (push_bit 8 x)"
  by (simp_all add: bswap_def take_bit_xor drop_bit_xor take_bit_push_bit byte_moves)

lemma bswap_numeral:
  "bswap x = push_bit 24 (x AND 0xFF) XOR push_bit 16 (drop_bit 8 x AND 0xFF) XOR push_bit 8 (drop_bit 16 x AND 0xFF) XOR drop_bit 24 x"
  by (simp only: bswap_def and_255)

lemma crc32table_eq: "crc32table = map bswap crc32_msb_init"
proof -
  let ?f = "\<lambda>x. bswap ((msb_step ^^ 8) (push_bit 24 x))"
  have "linear (\<lambda>x. (msb_step ^^ 8) (push_bit 24 x))"
    using linear_funpow [OF linear_msb] by (simp add: linear_def push_bit_xor)
  then have "linear ?f" by (rule linear_comp [OF _ linear_bswap])
  moreover have "map (\<lambda>k. ?f (of_nat (2 ^ k))) [0, 1, 2, 3, 4, 5, 6, 7] =
      map bswap (map (\<lambda>k. (msb_step ^^ 8) (push_bit 24 (of_nat (2 ^ k)))) [0, 1, 2, 3, 4, 5, 6, 7])"
    by (simp only: map_map o_def)
  moreover have "map bswap [0x04C11DB7, 0x09823B6E, 0x130476DC, 0x2608EDB8, 0x4C11DB70, 0x9823B6E0, 0x34867077, 0x690CE0EE] =
      [0xB71DC104, 0x6E3B8209, 0xDC760413, 0xB8ED0826, 0x70DB114C, 0xE0B62398, 0x77708634, 0xEEE00C69]"
    by (simp add: bswap_numeral)
  ultimately have bases: "map (\<lambda>k. ?f (of_nat (2 ^ k))) [0, 1, 2, 3, 4, 5, 6, 7] =
      [0xB71DC104, 0x6E3B8209, 0xDC760413, 0xB8ED0826, 0x70DB114C, 0xE0B62398, 0x77708634, 0xEEE00C69]"
    and lin: "linear ?f"
    by (simp_all only: msb_bases)
  have "map bswap crc32_msb_init = map (\<lambda>i. ?f (of_nat i)) [0..<256]"
    by (simp only: crc32_msb_init_def map_map o_def)
  also have "\<dots> = xor_table [0] [0xB71DC104, 0x6E3B8209, 0xDC760413, 0xB8ED0826, 0x70DB114C, 0xE0B62398, 0x77708634, 0xEEE00C69]"
    by (rule table_256 [OF lin bases])
  finally show ?thesis unfolding crc32table_def by simp
qed

lemma crc32_bswap: "crc32 (bswap crc) data = bswap (crc32_msb crc32_msb_init crc data)"
proof (induction data arbitrary: crc)
  case (Cons b data)
  let ?i = "take_bit 8 (drop_bit 24 crc XOR ucast b)"
  have i: "take_bit 8 (bswap crc XOR ucast b) = ?i"
  proof -
    have "take_bit 8 (drop_bit 24 crc) = drop_bit 24 crc"
      by (rule word32_eqI) (auto simp: bit_take_bit_iff bit_drop_bit_eq dest: bit_imp_le_length)
    then show ?thesis by (simp add: take_bit_xor bswap_ends)
  qed
  have "length crc32_msb_init = 256" by (simp add: crc32_msb_init_def)
  then have "crc32table ! unat ?i = bswap (crc32_msb_init ! unat ?i)"
    unfolding crc32table_eq by (intro nth_map) (simp only: index_less)
  then have "crc32table ! unat ((bswap crc XOR ucast b) AND 0xFF) XOR drop_bit 8 (bswap crc) =
      bswap (crc32_msb_init ! unat ((drop_bit 24 crc XOR ucast b) AND 0xFF) XOR push_bit 8 crc)"
    using linear_bswap by (simp only: and_255 i bswap_ends(2) linear_def)
  then show ?case using Cons by (simp add: crc32_def crc32_msb_def)
qed (simp add: crc32_def crc32_msb_def)

section \<open>The 16-bit check\<close>

definition crc16_bit :: "16 word \<Rightarrow> 16 word" where
  "crc16_bit = reflected 0xA001"

definition crc16_bitwise :: "byte list \<Rightarrow> 16 word" where
  "crc16_bitwise data = foldl (\<lambda>crc b. (crc16_bit ^^ 8) (crc XOR ucast b)) 0xFFFF data"

lemma crc16_tables:
  "utils_table_crc_hi = map (\<lambda>i. ucast ((crc16_bit ^^ 8) (of_nat i))) [0..<256]"
  "utils_table_crc_lo = map (\<lambda>i. ucast (drop_bit 8 ((crc16_bit ^^ 8) (of_nat i)))) [0..<256]"
proof -
  have lin: "linear (crc16_bit ^^ 8)" unfolding crc16_bit_def by (rule linear_funpow [OF linear_reflected])
  have bases: "map (\<lambda>k. (crc16_bit ^^ 8) (of_nat (2 ^ k))) [0, 1, 2, 3, 4, 5, 6, 7] =
      [0xC0C1, 0xC181, 0xC301, 0xC601, 0xCC01, 0xD801, 0xF001, 0xA001]"
    by (simp add: funpow_8 crc16_bit_def reflected_def)
  have "linear (\<lambda>i. ucast ((crc16_bit ^^ 8) i) :: byte)" "linear (\<lambda>i. ucast (drop_bit 8 ((crc16_bit ^^ 8) i)) :: byte)"
    using lin by (simp_all add: linear_def unsigned_xor_eq drop_bit_xor)
  moreover have "map (\<lambda>k. ucast ((crc16_bit ^^ 8) (of_nat (2 ^ k))) :: byte) [0, 1, 2, 3, 4, 5, 6, 7] =
      map ucast (map (\<lambda>k. (crc16_bit ^^ 8) (of_nat (2 ^ k))) [0, 1, 2, 3, 4, 5, 6, 7])"
    "map (\<lambda>k. ucast (drop_bit 8 ((crc16_bit ^^ 8) (of_nat (2 ^ k)))) :: byte) [0, 1, 2, 3, 4, 5, 6, 7] =
      map (\<lambda>x. ucast (drop_bit 8 x)) (map (\<lambda>k. (crc16_bit ^^ 8) (of_nat (2 ^ k))) [0, 1, 2, 3, 4, 5, 6, 7])"
    by (simp_all only: map_map o_def)
  ultimately have "map (\<lambda>i. ucast ((crc16_bit ^^ 8) (of_nat i)) :: byte) [0..<256] = xor_table [0] [0xC1, 0x81, 0x01, 0x01, 0x01, 0x01, 0x01, 0x01]"
    "map (\<lambda>i. ucast (drop_bit 8 ((crc16_bit ^^ 8) (of_nat i))) :: byte) [0..<256] = xor_table [0] [0xC0, 0xC1, 0xC3, 0xC6, 0xCC, 0xD8, 0xF0, 0xA0]"
    unfolding bases using table_256 [where f = "\<lambda>i. ucast ((crc16_bit ^^ 8) i) :: byte"]
      table_256 [where f = "\<lambda>i. ucast (drop_bit 8 ((crc16_bit ^^ 8) i)) :: byte"] by simp_all
  then show "utils_table_crc_hi = map (\<lambda>i. ucast ((crc16_bit ^^ 8) (of_nat i))) [0..<256]"
    "utils_table_crc_lo = map (\<lambda>i. ucast (drop_bit 8 ((crc16_bit ^^ 8) (of_nat i)))) [0..<256]"
    by (simp_all add: utils_table_crc_hi_def utils_table_crc_lo_def)
qed

lemma word16_eqI: "(\<And>n. n < 16 \<Longrightarrow> bit (a :: 16 word) n = bit b n) \<Longrightarrow> a = b"
  by (rule bit_word_eqI) simp

lemma bit16: "bit (w :: 16 word) n \<Longrightarrow> n < 16"
  by (drule bit_imp_le_length) simp

lemma crc16_step_bits:
  "crc16_step (ucast r, ucast (drop_bit 8 r)) b =
   (let r' = (crc16_bit ^^ 8) (r XOR ucast b) in (ucast r', ucast (drop_bit 8 r')))"
proof -
  let ?i = "ucast r XOR b :: byte" and ?high = "push_bit 8 (drop_bit 8 r)"
  have lin: "linear (crc16_bit ^^ 8)" unfolding crc16_bit_def by (rule linear_funpow [OF linear_reflected])
  have "r XOR ucast b = ucast ?i XOR ?high"
    by (rule word16_eqI) (auto simp: bit_push_bit_iff bit_xor_iff bit_drop_bit_eq bit_ucast_iff dest: bit16 bit_imp_le_length)
  moreover have "(crc16_bit ^^ 8) ?high = drop_bit 8 ?high"
    unfolding crc16_bit_def by (rule reflected_shift) (auto simp: bit_push_bit_iff)
  moreover have "drop_bit 8 ?high = drop_bit 8 r"
    by (rule word16_eqI) (auto simp: bit_push_bit_iff bit_drop_bit_eq dest: bit16)
  ultimately have r': "(crc16_bit ^^ 8) (r XOR ucast b) = (crc16_bit ^^ 8) (ucast ?i) XOR drop_bit 8 r"
    using linearD [OF lin] by simp
  have less: "unat ?i < 256" using unsigned_less [of ?i] by simp
  have i: "(of_nat (unat ?i) :: 16 word) = ucast ?i" by (rule of_nat_unat)
  have "drop_bit 8 (drop_bit 8 r) = 0" by (rule word16_eqI) (auto simp: bit_drop_bit_eq dest: bit16)
  then show ?thesis unfolding crc16_step_def prod.case Let_def crc16_tables nth_256 [OF less] i r'
    by (simp only: unsigned_xor_eq drop_bit_xor xor.commute xor.right_neutral xor.left_neutral unsigned_0)
qed

lemma crc16_bitwise_swapped:
  "utils_crc16 data =
     (let r = crc16_bitwise data in push_bit 8 (ucast (ucast r :: byte)) OR ucast (ucast (drop_bit 8 r) :: byte))"
proof -
  have "foldl crc16_step (ucast r, ucast (drop_bit 8 r)) xs =
      (let r' = foldl (\<lambda>crc b. (crc16_bit ^^ 8) (crc XOR ucast b)) r xs in (ucast r', ucast (drop_bit 8 r')))" for r xs
    by (induction xs arbitrary: r) (simp_all only: foldl.simps crc16_step_bits Let_def)
  note run = this [where r = "0xFFFF" and xs = data]
  have "(ucast (0xFFFF :: 16 word) :: byte) = 0xFF" "(ucast (drop_bit 8 (0xFFFF :: 16 word)) :: byte) = 0xFF" by code_simp+
  then show ?thesis using run by (simp only: utils_crc16_def crc16_bitwise_def Let_def prod.case)
qed

text \<open>
  C10.  The three 32-bit checks of the source are the bit-by-bit check with the polynomial 0x04C11DB7: the
  table of \<^verbatim>\<open>crc.c\<close> is the one that \<^verbatim>\<open>crc32_msb_init\<close> computes, and \<^verbatim>\<open>crc32\<close> with its literal
  table computes the same check with its bytes swapped.  \<^verbatim>\<open>utils_crc16\<close> with its two
  byte tables is the bit-by-bit reflected check with the polynomial 0xA001, its bytes swapped.
\<close>

theorem crc32_bitwise:
  "utils_crc32 data = crc_msb_bitwise 0xFFFFFFFF data \<and>
   crc32_msb crc32_msb_init crc data = crc_msb_bitwise crc data \<and>
   crc32_lsb crc32_lsb_init crc data = crc_lsb_bitwise crc data XOR 0xFFFFFFFF \<and>
   crc32 (bswap crc) data = bswap (crc_msb_bitwise crc data) \<and>
   utils_crc16 data =
     (let r = crc16_bitwise data in push_bit 8 (ucast (ucast r :: byte)) OR ucast (ucast (drop_bit 8 r) :: byte))"
proof -
  have "utils_crc32 data = crc32_msb crc32_msb_init 0xFFFFFFFF data"
    by (simp only: utils_crc32_def crc32_msb_def utils_crc32_table_eq xor.commute)
  then show ?thesis by (simp only: crc32_msb_bitwise crc32_lsb_bitwise crc32_bswap crc16_bitwise_swapped [symmetric] simp_thms)
qed

end
