(* ===== verification/Dbuffer.thy ===== *)
theory Dbuffer
  imports CString
begin

text \<open>
  The growable byte buffer of \<^verbatim>\<open>core/deps/util/src/util/dbuffer.c\<close>.  The state is the C struct: the memory block
  (a list whose length is what was allocated), the number of bytes in use, the recorded
  \<open>allocated_size\<close>, the error flag and the reallocation function the struct points to.  The
  locale \<open>append_buffer\<close> is what the callers rely on; it is interpreted on \<open>dbuffer_put\<close>.
\<close>

section \<open>The interface\<close>

text \<open>
  \<open>put s d\<close> answers the new state and a result code, zero for success.  A failed \<open>put\<close> leaves the contents alone.
  The laws hold while the contents stay within \<open>limit\<close>.
\<close>

locale append_buffer =
  fixes valid :: "'s \<Rightarrow> bool"
    and contents :: "'s \<Rightarrow> 'a list"
    and put :: "'s \<Rightarrow> 'a list \<Rightarrow> ('s \<times> int) exec"
    and limit :: nat
  assumes put_law: "valid s \<Longrightarrow> length (contents s) + length d \<le> limit \<Longrightarrow>
    \<exists>s' r. put s d = Inr (s', r) \<and> valid s' \<and> contents s' = (if r = 0 then contents s @ d else contents s)"
begin

text \<open>A run of puts that goes on after a failure, and the chunks that got in.\<close>

fun puts :: "'s \<Rightarrow> 'a list list \<Rightarrow> ('s \<times> 'a list list) exec" where
  "puts s [] = Inr (s, [])"
| "puts s (d # ds) =
     and_then (put s d) (\<lambda>(s', r).
     and_then (puts s' ds) (\<lambda>(s'', ins). Inr (s'', if r = 0 then d # ins else ins)))"

lemma puts_contents:
  assumes "valid s" "length (contents s) + length (concat ds) \<le> limit"
  shows "\<exists>s' ins. puts s ds = Inr (s', ins) \<and> valid s' \<and> ins \<in> set (subseqs ds) \<and> contents s' = contents s @ concat ins"
  using assms
proof (induction ds arbitrary: s)
  case (Cons d ds)
  obtain t r where t: "put s d = Inr (t, r)" "valid t" "contents t = (if r = 0 then contents s @ d else contents s)"
    using put_law [of s d] Cons.prems by auto
  obtain s' ins where "puts t ds = Inr (s', ins)" "valid s'" "ins \<in> set (subseqs ds)" "contents s' = contents t @ concat ins"
    using Cons.IH [OF t(2)] Cons.prems(2) t(3) by (auto split: if_splits)
  then show ?case using t by (auto simp: Let_def)
qed simp

end

section \<open>The model\<close>

text \<open>
  \<open>db_realloc b n\<close> is \<^verbatim>\<open>s->realloc_func(s->opaque, s->buf, n)\<close>: the block that replaces \<open>b\<close>, or nothing.
\<close>

record dbuffer =
  db_buf :: "byte list"
  db_size :: nat
  db_allocated :: nat
  db_error :: bool
  db_realloc :: "byte list \<Rightarrow> nat \<Rightarrow> byte list option"

definition size_t :: "nat \<Rightarrow> nat" where
  "size_t n = n mod 2 ^ 64"

text \<open>The C library: \<open>avail\<close> says which sizes it grants, \<open>fill\<close> what is in fresh memory.\<close>

definition dbuffer_default_realloc :: "(nat \<Rightarrow> bool) \<Rightarrow> (nat \<Rightarrow> byte) \<Rightarrow> byte list \<Rightarrow> nat \<Rightarrow> byte list option" where
  "dbuffer_default_realloc avail fill b n =
     (if avail n then Some (take n b @ map fill [length b..<n]) else None)"

definition dbuffer_init2 :: "(byte list \<Rightarrow> nat \<Rightarrow> byte list option) \<Rightarrow> dbuffer" where
  "dbuffer_init2 realloc_func =
     \<lparr>db_buf = [], db_size = 0, db_allocated = 0, db_error = False, db_realloc = realloc_func\<rparr>"

definition dbuffer_init :: "(nat \<Rightarrow> bool) \<Rightarrow> (nat \<Rightarrow> byte) \<Rightarrow> dbuffer" where
  "dbuffer_init avail fill = dbuffer_init2 (dbuffer_default_realloc avail fill)"

definition dbuffer_realloc :: "dbuffer \<Rightarrow> nat \<Rightarrow> dbuffer \<times> int" where
  "dbuffer_realloc s new_size =
     (let new_size = size_t (new_size + 8) in
      if new_size > db_allocated s then
        if db_error s then (s, -1)
        else
          let grown = size_t (db_allocated s * 3) div 2;
              new_size = (if grown > new_size then grown else new_size)
          in case db_realloc s (db_buf s) new_size of
               None \<Rightarrow> (s\<lparr>db_error := True\<rparr>, -1)
             | Some new_buf \<Rightarrow> (s\<lparr>db_buf := new_buf, db_allocated := new_size\<rparr>, 0)
      else (s, 0))"

text \<open>\<^verbatim>\<open>memcpy\<close> into the block at an offset.\<close>

definition copy_in :: "byte list \<Rightarrow> nat \<Rightarrow> byte list \<Rightarrow> byte list exec" where
  "copy_in b offset data =
     and_then (in_bounds (offset + length data \<le> length b)) (\<lambda>_.
     Inr (take offset b @ data @ drop (offset + length data) b))"

definition dbuffer_write :: "dbuffer \<Rightarrow> nat \<Rightarrow> byte list \<Rightarrow> (dbuffer \<times> int) exec" where
  "dbuffer_write s offset data =
     (let stop = size_t (offset + length data); (s, r) = dbuffer_realloc s stop in
      if r \<noteq> 0 then Inr (s, -1)
      else
        and_then (copy_in (db_buf s) offset data) (\<lambda>b.
        Inr (s\<lparr>db_buf := b, db_size := (if stop > db_size s then stop else db_size s)\<rparr>, 0)))"

definition make_room :: "dbuffer \<Rightarrow> nat \<Rightarrow> dbuffer \<times> int" where
  "make_room s len =
     (if size_t (db_size s + len) > db_allocated s then dbuffer_realloc s (size_t (db_size s + len)) else (s, 0))"

definition dbuffer_put :: "dbuffer \<Rightarrow> byte list \<Rightarrow> (dbuffer \<times> int) exec" where
  "dbuffer_put s data =
     (let (s, r) = make_room s (length data) in
      if r \<noteq> 0 then Inr (s, -1)
      else
        and_then (copy_in (db_buf s) (db_size s) data) (\<lambda>b.
        Inr (s\<lparr>db_buf := b, db_size := size_t (db_size s + length data)\<rparr>, 0)))"

text \<open>The source of the copy is part of the block; \<^verbatim>\<open>memcpy\<close> must not see it overlap the target.\<close>

definition dbuffer_put_self :: "dbuffer \<Rightarrow> nat \<Rightarrow> nat \<Rightarrow> (dbuffer \<times> int) exec" where
  "dbuffer_put_self s offset len =
     (let (s, r) = make_room s len in
      if r \<noteq> 0 then Inr (s, -1)
      else
        and_then (in_bounds (offset + len \<le> db_size s)) (\<lambda>_.
        and_then (copy_in (db_buf s) (db_size s) (take len (drop offset (db_buf s)))) (\<lambda>b.
        Inr (s\<lparr>db_buf := b, db_size := size_t (db_size s + len)\<rparr>, 0))))"

definition dbuffer_putc :: "dbuffer \<Rightarrow> byte \<Rightarrow> (dbuffer \<times> int) exec" where
  "dbuffer_putc s c = dbuffer_put s [c]"

definition dbuffer_putstr :: "dbuffer \<Rightarrow> byte list \<Rightarrow> (dbuffer \<times> int) exec" where
  "dbuffer_putstr s str = dbuffer_put s str"

text \<open>The struct is cleared, its functions included.\<close>

definition dbuffer_free :: "dbuffer \<Rightarrow> dbuffer" where
  "dbuffer_free s = dbuffer_init2 (\<lambda>b n. None)"

section \<open>The invariant\<close>

text \<open>What \<^verbatim>\<open>realloc\<close> promises: a block of the size asked for that starts with the old bytes.\<close>

definition realloc_ok :: "(byte list \<Rightarrow> nat \<Rightarrow> byte list option) \<Rightarrow> bool" where
  "realloc_ok f \<longleftrightarrow> (\<forall>b n c. f b n = Some c \<longrightarrow> length c = n \<and> take (min (length b) n) c = take n b)"

lemma default_realloc_ok: "realloc_ok (dbuffer_default_realloc avail fill)"
  by (auto simp: realloc_ok_def dbuffer_default_realloc_def min_def split: if_splits)

definition dbuffer_ok :: "dbuffer \<Rightarrow> bool" where
  "dbuffer_ok s \<longleftrightarrow> length (db_buf s) = db_allocated s \<and> db_size s \<le> db_allocated s \<and> realloc_ok (db_realloc s)"

definition dbuffer_contents :: "dbuffer \<Rightarrow> byte list" where
  "dbuffer_contents s = take (db_size s) (db_buf s)"

lemma realloc_keeps:
  assumes "dbuffer_ok s" "dbuffer_realloc s n = (s', r)" "n + 8 < 2 ^ 64"
  shows "dbuffer_ok s'" "db_size s' = db_size s" "dbuffer_contents s' = dbuffer_contents s"
    "r = 0 \<or> r = -1" "r = 0 \<Longrightarrow> n + 8 \<le> db_allocated s'"
proof -
  have n: "size_t (n + 8) = n + 8" using assms(3) by (simp add: size_t_def)
  have "dbuffer_ok s' \<and> db_size s' = db_size s \<and> dbuffer_contents s' = dbuffer_contents s \<and> (r = 0 \<or> r = -1) \<and>
      (r = 0 \<longrightarrow> n + 8 \<le> db_allocated s')"
  proof (cases "n + 8 > db_allocated s \<and> \<not> db_error s")
    case True
    define m where "m = (if size_t (db_allocated s * 3) div 2 > n + 8 then size_t (db_allocated s * 3) div 2 else n + 8)"
    have m: "n + 8 \<le> m" by (simp add: m_def)
    show ?thesis
    proof (cases "db_realloc s (db_buf s) m")
      case None
      then show ?thesis using assms(1,2) True by (auto simp: dbuffer_realloc_def n m_def Let_def dbuffer_ok_def dbuffer_contents_def)
    next
      case (Some c)
      then have s': "s' = s\<lparr>db_buf := c, db_allocated := m\<rparr>" "r = 0"
        using assms(2) True by (auto simp: dbuffer_realloc_def n m_def Let_def)
      have c: "length c = m" "take (min (length (db_buf s)) m) c = take m (db_buf s)"
        using Some assms(1) unfolding dbuffer_ok_def realloc_ok_def by blast+
      have len: "length (db_buf s) < m" "db_size s \<le> length (db_buf s)" using assms(1) True m by (auto simp: dbuffer_ok_def)
      then have "take (length (db_buf s)) c = db_buf s" using c by simp
      then have "take (db_size s) c = take (db_size s) (db_buf s)" using len(2) by (metis min.absorb1 take_take)
      then show ?thesis using s' c len m assms(1) by (simp add: dbuffer_ok_def dbuffer_contents_def)
    qed
  qed (use assms in \<open>auto simp: dbuffer_realloc_def n Let_def split: if_splits\<close>)
  then show "dbuffer_ok s'" "db_size s' = db_size s" "dbuffer_contents s' = dbuffer_contents s"
    "r = 0 \<or> r = -1" "r = 0 \<Longrightarrow> n + 8 \<le> db_allocated s'" by auto
qed

lemma make_room_keeps:
  assumes "dbuffer_ok s" "make_room s n = (s', r)" "db_size s + n + 8 < 2 ^ 64"
  shows "dbuffer_ok s'" "db_size s' = db_size s" "dbuffer_contents s' = dbuffer_contents s"
    "r = 0 \<or> r = -1" "r = 0 \<Longrightarrow> db_size s + n \<le> db_allocated s'"
proof -
  have n: "size_t (db_size s + n) = db_size s + n" using assms(3) by (simp add: size_t_def)
  have "dbuffer_ok s' \<and> db_size s' = db_size s \<and> dbuffer_contents s' = dbuffer_contents s \<and> (r = 0 \<or> r = -1) \<and>
      (r = 0 \<longrightarrow> db_size s + n \<le> db_allocated s')"
    using assms realloc_keeps [OF assms(1), of "db_size s + n" s' r] by (auto simp: make_room_def n split: if_splits)
  then show "dbuffer_ok s'" "db_size s' = db_size s" "dbuffer_contents s' = dbuffer_contents s"
    "r = 0 \<or> r = -1" "r = 0 \<Longrightarrow> db_size s + n \<le> db_allocated s'" by auto
qed

lemma put_contents:
  assumes "dbuffer_ok s" "length (dbuffer_contents s) + length d \<le> 2 ^ 64 - 9"
  shows "\<exists>s' r. dbuffer_put s d = Inr (s', r) \<and> dbuffer_ok s' \<and>
    dbuffer_contents s' = (if r = 0 then dbuffer_contents s @ d else dbuffer_contents s)"
proof -
  obtain t r where t: "make_room s (length d) = (t, r)" by (cases "make_room s (length d)")
  have "length (dbuffer_contents s) = db_size s" using assms(1) by (simp add: dbuffer_ok_def dbuffer_contents_def)
  then have room: "db_size s + length d + 8 < 2 ^ 64" using assms(2) by simp
  note keep = make_room_keeps [OF assms(1) t room]
  show ?thesis
  proof (cases "r = 0")
    case True
    have "size_t (db_size s + length d) = db_size s + length d" using room by (simp add: size_t_def)
    then show ?thesis using t keep True assms(1)
      by (auto simp: dbuffer_put_def copy_in_def dbuffer_ok_def dbuffer_contents_def)
  qed (use t keep in \<open>auto simp: dbuffer_put_def\<close>)
qed

text \<open>With an allocator that never fails, every \<^verbatim>\<open>dbuffer_put\<close> succeeds.\<close>

lemma put_granted:
  assumes "dbuffer_ok b" "\<not> db_error b" "\<And>c n. db_realloc b c n \<noteq> None" "db_size b + length d < 2 ^ 33"
  shows "\<exists>b'. dbuffer_put b d = Inr (b', 0) \<and> dbuffer_ok b' \<and> dbuffer_contents b' = dbuffer_contents b @ d \<and>
    \<not> db_error b' \<and> db_realloc b' = db_realloc b \<and> db_size b' = db_size b + length d"
proof -
  obtain t r where t: "make_room b (length d) = (t, r)" by (cases "make_room b (length d)")
  have "db_size b + length d + 8 < 2 ^ 64" using assms(4) by simp
  note keep = make_room_keeps [OF assms(1) t this]
  have "r = 0" "\<not> db_error t" "db_realloc t = db_realloc b"
    using t assms(2) by (auto simp: make_room_def dbuffer_realloc_def Let_def assms(3) split: if_splits option.splits)
  moreover have "size_t (db_size b + length d) = db_size b + length d" using assms(4) by (simp add: size_t_def)
  ultimately show ?thesis using t keep assms(1)
    by (auto simp: dbuffer_put_def copy_in_def dbuffer_ok_def dbuffer_contents_def)
qed

interpretation db: append_buffer dbuffer_ok dbuffer_contents dbuffer_put "2 ^ 64 - 9"
  by unfold_locales (rule put_contents)

lemma init_ok: "realloc_ok f \<Longrightarrow> dbuffer_ok (dbuffer_init2 f)" "dbuffer_contents (dbuffer_init2 f) = []"
  by (simp_all add: dbuffer_init2_def dbuffer_ok_def dbuffer_contents_def)

text \<open>
  C11.  A buffer is a list that grows at its end: whatever the allocator refuses, a run of \<^verbatim>\<open>dbuffer_put\<close> calls never
  leaves the block, and the buffer holds exactly the chunks whose calls returned 0, in order.
\<close>

theorem dbuffer_refines_append:
  assumes "realloc_ok f" "length (concat ds) \<le> 2 ^ 64 - 9"
  shows "\<exists>s ins. db.puts (dbuffer_init2 f) ds = Inr (s, ins) \<and> ins \<in> set (subseqs ds) \<and> dbuffer_contents s = concat ins"
  using db.puts_contents [of "dbuffer_init2 f" ds] init_ok [of f] assms by auto

theorem dbuffer_refines_append_witness:
  "\<exists>s ins. db.puts (dbuffer_init (\<lambda>n. n < 12) (\<lambda>i. 0)) [[1, 2], [3, 4, 5, 6, 7, 8, 9, 10, 11], [12]] = Inr (s, ins) \<and>
    ins \<in> set (subseqs [[1, 2], [3, 4, 5, 6, 7, 8, 9, 10, 11], [12]]) \<and> dbuffer_contents s = concat ins"
  unfolding dbuffer_init_def by (rule dbuffer_refines_append [OF default_realloc_ok]) simp

text \<open>The allocator of the witness refuses the second chunk.\<close>

lemma dbuffer_sample:
  "dbuffer_contents (fst (projr (db.puts (dbuffer_init (\<lambda>n. n < 12) (\<lambda>i. 0)) [[1, 2], [3, 4, 5, 6, 7, 8, 9, 10, 11], [12]]))) = [1, 2, 12]"
  by (simp add: dbuffer_put_def dbuffer_init_def dbuffer_init2_def dbuffer_default_realloc_def make_room_def
    dbuffer_realloc_def copy_in_def dbuffer_contents_def size_t_def Let_def upt_rec)

text \<open>
  \<^verbatim>\<open>dbuffer_write\<close> at any offset inside the contents overwrites and extends them, and everything before the
  offset stays; if the allocator refuses, nothing changes but the error flag.
\<close>

lemma dbuffer_write_contents:
  assumes "dbuffer_ok s" "offset \<le> db_size s" "db_size s + length d \<le> 2 ^ 64 - 9"
  shows "\<exists>s' r. dbuffer_write s offset d = Inr (s', r) \<and> dbuffer_ok s' \<and>
    (if r = 0 then dbuffer_contents s' = take offset (dbuffer_contents s) @ d @ drop (offset + length d) (dbuffer_contents s)
     else r = -1 \<and> dbuffer_contents s' = dbuffer_contents s)"
proof -
  let ?stop = "offset + length d"
  obtain t r where t: "dbuffer_realloc s ?stop = (t, r)" by (cases "dbuffer_realloc s ?stop")
  have "?stop + 8 < 2 ^ 64" "size_t ?stop = ?stop" using assms(2,3) by (simp_all add: size_t_def)
  note keep = realloc_keeps [OF assms(1) t this(1)] and e = this(2)
  show ?thesis
  proof (cases "r = 0")
    case True
    have t_ok: "length (db_buf t) = db_allocated t" "realloc_ok (db_realloc t)" "db_size t = db_size s" "db_size s \<le> db_allocated t"
        "?stop \<le> db_allocated t" "offset \<le> db_size t"
      using keep True assms(2) by (auto simp: dbuffer_ok_def)
    define s' where "s' = t\<lparr>db_buf := take offset (db_buf t) @ d @ drop ?stop (db_buf t),
        db_size := (if ?stop > db_size t then ?stop else db_size t)\<rparr>"
    have "dbuffer_write s offset d = Inr (s', 0)"
      using t True t_ok e by (simp add: dbuffer_write_def copy_in_def s'_def Let_def)
    moreover have "dbuffer_ok s'" using t_ok by (auto simp: s'_def dbuffer_ok_def)
    moreover have "dbuffer_contents s' = take offset (dbuffer_contents t) @ d @ drop ?stop (dbuffer_contents t)"
      using t_ok by (auto simp: s'_def dbuffer_contents_def min_def drop_take)
    ultimately show ?thesis using keep(3) by auto
  qed (use t keep e in \<open>auto simp: dbuffer_write_def Let_def\<close>)
qed

lemma dbuffer_write_contents_witness:
  "\<exists>s' r. dbuffer_write (dbuffer_init (\<lambda>n. True) (\<lambda>i. 0)) 0 [1, 2] = Inr (s', r) \<and> dbuffer_ok s' \<and>
    (if r = 0 then dbuffer_contents s' = take 0 (dbuffer_contents (dbuffer_init (\<lambda>n. True) (\<lambda>i. 0))) @ [1, 2] @
       drop (0 + length [1, 2 :: byte]) (dbuffer_contents (dbuffer_init (\<lambda>n. True) (\<lambda>i. 0)))
     else r = -1 \<and> dbuffer_contents s' = dbuffer_contents (dbuffer_init (\<lambda>n. True) (\<lambda>i. 0)))"
  unfolding dbuffer_init_def
  by (rule dbuffer_write_contents [OF init_ok(1) [OF default_realloc_ok]]) (simp_all add: dbuffer_init2_def)

end
