(* ===== verification/Darray.thy ===== *)
theory Darray
  imports Prelude
begin

text \<open>
  The growable array of \<^verbatim>\<open>modules/networking/libutil/source/util/darray.c\<close>, used unsorted (\<open>darray_insert\<close>,
  \<open>darray_erase\<close>) or ordered by a comparison function (\<open>darray_insert2\<close>, \<open>darray_erase2\<close>).  The
  state is the C struct; \<open>da_elements\<close> is the allocated block, one entry per slot.
\<close>

section \<open>The interface of an ordered set\<close>

text \<open>
  \<open>add\<close> and \<open>del\<close> answer the new state and a result code: zero, or -1 when the key was already there or is missing,
  or the code of a failed allocation.  \<open>room\<close> says that the sizes computed for one more element are
  numbers of their type.
\<close>

locale keyed_set =
  fixes valid :: "'s \<Rightarrow> bool"
    and members :: "'s \<Rightarrow> 'a set"
    and key :: "'a \<Rightarrow> int"
    and room :: "'s \<Rightarrow> bool"
    and add :: "'s \<Rightarrow> 'a \<Rightarrow> ('s \<times> int) exec"
    and del :: "'s \<Rightarrow> 'a \<Rightarrow> ('s \<times> int) exec"
  assumes add_law: "valid s \<Longrightarrow> room s \<Longrightarrow> \<exists>s' r. add s x = Inr (s', r) \<and> valid s' \<and>
      (if key x \<in> key ` members s then r = -1 \<and> members s' = members s
       else if r = 0 then members s' = insert x (members s) else members s' = members s)"
    and del_law: "valid s \<Longrightarrow> \<exists>s' r. del s x = Inr (s', r) \<and> valid s' \<and>
      (if key x \<in> key ` members s then r = 0 \<and> members s' = {y \<in> members s. key y \<noteq> key x}
       else r = -1 \<and> members s' = members s)"
    and unique: "valid s \<Longrightarrow> inj_on key (members s)"
begin

lemma add_then_del:
  assumes "valid s" "room s" "add s x = Inr (s', 0)"
  shows "\<exists>s''. del s' x = Inr (s'', 0) \<and> valid s'' \<and> members s'' = members s"
proof -
  have s': "valid s'" "key x \<notin> key ` members s" "members s' = insert x (members s)"
    using add_law [OF assms(1,2), of x] assms(3) by (auto split: if_splits)
  then obtain s'' r where "del s' x = Inr (s'', r)" "valid s''" "r = 0" "members s'' = {y \<in> members s'. key y \<noteq> key x}"
    using del_law [OF s'(1), of x] by auto
  moreover from this have "members s'' = members s" using s'(2,3) by (auto simp: image_iff)
  ultimately show ?thesis by auto
qed

end

section \<open>The model\<close>

text \<open>
  Counts, capacities and sizes are \<^verbatim>\<open>int\<close>.  \<open>c_int\<close> is the result of an \<^verbatim>\<open>int\<close> operation: one that
  overflows is undefined in C, which is the fault \<open>Overrun\<close>.  \<open>to_size\<close> is the conversion to \<^verbatim>\<open>size_t\<close>.
\<close>

definition c_int :: "int \<Rightarrow> int exec" where
  "c_int x = (if - (2 ^ 31) \<le> x \<and> x < 2 ^ 31 then Inr x else Inl Overrun)"

definition to_size :: "int \<Rightarrow> nat" where
  "to_size x = nat (x mod 2 ^ 64)"

text \<open>
  \<open>da_alloc b n\<close> is \<^verbatim>\<open>arr->alloc\<close> asked for \<open>n\<close> bytes: the block that replaces \<open>b\<close>, or nothing.
  A block is the list of its slots of \<open>da_size\<close> bytes.
\<close>

record 'a darray =
  da_elements :: "'a list"
  da_size :: int
  da_count :: int
  da_capacity :: int
  da_alloc :: "'a list \<Rightarrow> nat \<Rightarrow> 'a list option"

definition ENOENT :: int where "ENOENT = 2"
definition ENOMEM :: int where "ENOMEM = 12"

definition darray_init :: "('a list \<Rightarrow> nat \<Rightarrow> 'a list option) \<Rightarrow> int \<Rightarrow> int \<Rightarrow> 'a darray exec" where
  "darray_init alloc sz capacity =
     and_then (c_int (sz * capacity)) (\<lambda>bytes.
     Inr (case (if bytes > 0 then alloc [] (to_size bytes) else None) of
        None \<Rightarrow> \<lparr>da_elements = [], da_size = sz, da_count = 0, da_capacity = 0, da_alloc = alloc\<rparr>
      | Some b \<Rightarrow> \<lparr>da_elements = b, da_size = sz, da_count = 0, da_capacity = capacity, da_alloc = alloc\<rparr>))"

definition darray_free :: "'a darray \<Rightarrow> 'a darray" where
  "darray_free arr = arr\<lparr>da_elements := [], da_capacity := 0, da_count := 0\<rparr>"

definition darray_clear :: "'a darray \<Rightarrow> 'a darray exec" where
  "darray_clear arr = and_then (c_assert (da_count arr \<ge> 0)) (\<lambda>_. Inr (arr\<lparr>da_count := 0\<rparr>))"

text \<open>\<^verbatim>\<open>SIZE(n)\<close>, also the byte offset of \<^verbatim>\<open>ADDRESS(n)\<close>.\<close>

definition SIZE :: "'a darray \<Rightarrow> int \<Rightarrow> int exec" where
  "SIZE arr n = c_int (da_size arr * n)"

text \<open>
  \<^verbatim>\<open>memmove(ADDRESS(dst), ADDRESS(src), SIZE(n))\<close> inside the block.  An element size that is not
  positive has no slots.
\<close>

definition move_elements :: "'a darray \<Rightarrow> int \<Rightarrow> int \<Rightarrow> int \<Rightarrow> 'a list exec" where
  "move_elements arr dst src n =
     (let b = da_elements arr in
      and_then (SIZE arr dst) (\<lambda>_.
      and_then (SIZE arr src) (\<lambda>_.
      and_then (SIZE arr n) (\<lambda>_.
      and_then (in_bounds (0 < da_size arr \<and> 0 \<le> dst \<and> 0 \<le> src \<and> 0 \<le> n \<and>
        dst + n \<le> int (length b) \<and> src + n \<le> int (length b))) (\<lambda>_.
      Inr (take (nat dst) b @ take (nat n) (drop (nat src) b) @ drop (nat (dst + n)) b))))))"

definition darray_erase :: "'a darray \<Rightarrow> int \<Rightarrow> ('a darray \<times> int) exec" where
  "darray_erase arr index =
     (if index < 0 \<or> index \<ge> da_count arr then Inr (arr, ENOENT)
      else
        and_then (if index + 1 < da_count arr then move_elements arr index (index + 1) (da_count arr - index - 1)
                  else Inr (da_elements arr)) (\<lambda>b.
        Inr (arr\<lparr>da_elements := b, da_count := da_count arr - 1\<rparr>, 0)))"

text \<open>\<open>(int)sqrt(n)\<close>.\<close>

definition isqrt :: "int \<Rightarrow> int" where
  "isqrt n = int (length (filter (\<lambda>k. k * k \<le> n) [1..n]))"

text \<open>The room for one more element: the array, or nothing when the allocation fails.\<close>

definition darray_grow :: "'a darray \<Rightarrow> 'a darray option exec" where
  "darray_grow arr =
     and_then (c_int (da_count arr + 1)) (\<lambda>n1.
     if n1 > da_capacity arr then
       and_then (c_int (n1 + isqrt (da_count arr))) (\<lambda>n.
       and_then (c_int (n * da_size arr)) (\<lambda>bytes.
       Inr (map_option (\<lambda>p. arr\<lparr>da_elements := p, da_capacity := n\<rparr>) (da_alloc arr (da_elements arr) (to_size bytes)))))
     else Inr (Some arr))"

definition darray_insert :: "'a darray \<Rightarrow> int \<Rightarrow> 'a \<Rightarrow> ('a darray \<times> int) exec" where
  "darray_insert arr before item =
     and_then (darray_grow arr) (\<lambda>grown. case grown of
       None \<Rightarrow> Inr (arr, ENOMEM)
     | Some arr \<Rightarrow>
         let inside = (before \<ge> 0 \<and> da_count arr > before);
             at = (if inside then before else da_count arr)
         in and_then (if inside then move_elements arr (at + 1) at (da_count arr - at)
                      else Inr (da_elements arr)) (\<lambda>b.
            and_then (SIZE arr at) (\<lambda>_.
            and_then (in_bounds (0 < da_size arr \<and> 0 \<le> at \<and> at < int (length b))) (\<lambda>_.
            Inr (arr\<lparr>da_elements := b[nat at := item], da_count := da_count arr + 1\<rparr>, 0)))))"

definition darray_push_back :: "'a darray \<Rightarrow> 'a \<Rightarrow> ('a darray \<times> int) exec" where
  "darray_push_back arr item = darray_insert arr (-1) item"

definition darray_pop_back :: "'a darray \<Rightarrow> ('a darray \<times> int) exec" where
  "darray_pop_back arr = darray_erase arr (da_count arr - 1)"

definition darray_pop_front :: "'a darray \<Rightarrow> ('a darray \<times> int) exec" where
  "darray_pop_front arr = darray_erase arr 0"

definition darray_get :: "'a darray \<Rightarrow> int \<Rightarrow> 'a option exec" where
  "darray_get arr index =
     (if index < 0 \<or> index \<ge> da_count arr then Inr None
      else
        and_then (SIZE arr index) (\<lambda>_.
        and_then (in_bounds (0 < da_size arr \<and> index < int (length (da_elements arr)))) (\<lambda>_.
        Inr (Some (da_elements arr ! nat index)))))"

text \<open>
  The loop of \<open>darray_find\<close> from position \<open>pos\<close> on, \<open>k\<close> positions before the count; with no comparison function
  elements are compared byte for byte.  The answer is the element, if found, and the last \<open>*pos\<close>.
\<close>

primrec find_loop :: "('a \<Rightarrow> 'a \<Rightarrow> int) option \<Rightarrow> 'a \<Rightarrow> 'a darray \<Rightarrow> nat \<Rightarrow> int \<Rightarrow> ('a option \<times> int) exec" where
  "find_loop compare item arr 0 pos = Inr (None, pos)"
| "find_loop compare item arr (Suc k) pos =
     and_then (darray_get arr pos) (\<lambda>got. case got of
       None \<Rightarrow> Inl Out_of_bounds
     | Some v \<Rightarrow>
         let r = (case compare of Some f \<Rightarrow> f v item | None \<Rightarrow> if v = item then 0 else -1) in
         if r = 0 then Inr (Some v, pos)
         else if r > 0 then Inr (None, pos)
         else find_loop compare item arr k (pos + 1))"

definition darray_find :: "'a darray \<Rightarrow> 'a \<Rightarrow> ('a \<Rightarrow> 'a \<Rightarrow> int) option \<Rightarrow> ('a option \<times> int) exec" where
  "darray_find arr item compare = find_loop compare item arr (nat (da_count arr)) 0"

definition darray_insert2 :: "('a \<Rightarrow> 'a \<Rightarrow> int) option \<Rightarrow> 'a darray \<Rightarrow> 'a \<Rightarrow> ('a darray \<times> int) exec" where
  "darray_insert2 compare arr item =
     and_then (darray_find arr item compare) (\<lambda>(found, pos). case found of
        Some _ \<Rightarrow> Inr (arr, -1)
      | None \<Rightarrow> darray_insert arr pos item)"

definition darray_erase2 :: "('a \<Rightarrow> 'a \<Rightarrow> int) option \<Rightarrow> 'a darray \<Rightarrow> 'a \<Rightarrow> ('a darray \<times> int) exec" where
  "darray_erase2 compare arr item =
     and_then (darray_find arr item compare) (\<lambda>(found, pos). case found of
        None \<Rightarrow> Inr (arr, -1)
      | Some _ \<Rightarrow> darray_erase arr pos)"

section \<open>The array as a list\<close>

definition alloc_ok :: "nat \<Rightarrow> ('a list \<Rightarrow> nat \<Rightarrow> 'a list option) \<Rightarrow> bool" where
  "alloc_ok sz f \<longleftrightarrow> (\<forall>b n c. f b n = Some c \<longrightarrow> length c = n div sz \<and> (length b \<le> n div sz \<longrightarrow> take (length b) c = b))"

definition darray_ok :: "'a darray \<Rightarrow> bool" where
  "darray_ok arr \<longleftrightarrow> 0 < da_size arr \<and> int (length (da_elements arr)) = da_capacity arr \<and>
     da_size arr * da_capacity arr < 2 ^ 31 \<and> 0 \<le> da_count arr \<and> da_count arr \<le> da_capacity arr \<and>
     alloc_ok (nat (da_size arr)) (da_alloc arr)"

text \<open>The block that one more element may need has a size that is an \<^verbatim>\<open>int\<close>.\<close>

definition darray_room :: "'a darray \<Rightarrow> bool" where
  "darray_room arr \<longleftrightarrow> (da_count arr + 1 + isqrt (da_count arr)) * da_size arr < 2 ^ 31"

definition items :: "'a darray \<Rightarrow> 'a list" where
  "items arr = take (nat (da_count arr)) (da_elements arr)"

lemma length_items: "darray_ok arr \<Longrightarrow> int (length (items arr)) = da_count arr"
  by (auto simp: darray_ok_def items_def)

lemma c_int_ok: "0 \<le> x \<Longrightarrow> x < 2 ^ 31 \<Longrightarrow> c_int x = Inr x"
  by (simp add: c_int_def)

lemma SIZE_ok:
  assumes "darray_ok arr" "0 \<le> n" "n \<le> da_capacity arr"
  shows "SIZE arr n = Inr (da_size arr * n)"
proof -
  have "da_size arr * n \<le> da_size arr * da_capacity arr"
    using assms by (intro mult_left_mono) (auto simp: darray_ok_def)
  then have "da_size arr * n < 2 ^ 31" using assms(1) unfolding darray_ok_def by linarith
  moreover have "0 \<le> da_size arr * n" using assms by (simp add: darray_ok_def)
  ultimately show ?thesis by (simp add: SIZE_def c_int_ok)
qed

lemma move_elements_ok:
  assumes "darray_ok arr" "0 \<le> dst" "0 \<le> src" "0 \<le> n" "dst + n \<le> da_capacity arr" "src + n \<le> da_capacity arr"
  shows "move_elements arr dst src n = Inr (take (nat dst) (da_elements arr) @
    take (nat n) (drop (nat src) (da_elements arr)) @ drop (nat (dst + n)) (da_elements arr))"
  using assms SIZE_ok [of arr dst] SIZE_ok [of arr src] SIZE_ok [of arr n]
  by (simp add: move_elements_def Let_def) (simp add: darray_ok_def)

lemma erase_items:
  assumes "darray_ok arr" "0 \<le> i" "i < da_count arr"
  shows "\<exists>arr'. darray_erase arr i = Inr (arr', 0) \<and> darray_ok arr' \<and>
    items arr' = take (nat i) (items arr) @ drop (nat i + 1) (items arr)"
proof -
  let ?b = "da_elements arr" and ?n = "nat (da_count arr)" and ?i = "nat i"
  have n: "?n \<le> length ?b" "?i < ?n" "da_count arr = int ?n" "i = int ?i" using assms by (auto simp: darray_ok_def)
  show ?thesis
  proof (cases "i + 1 < da_count arr")
    case True
    have "move_elements arr i (i + 1) (da_count arr - i - 1) =
        Inr (take ?i ?b @ take (nat (da_count arr - i - 1)) (drop (nat (i + 1)) ?b) @ drop (nat (i + (da_count arr - i - 1))) ?b)"
      by (rule move_elements_ok [OF assms(1)]) (use assms True in \<open>auto simp: darray_ok_def\<close>)
    moreover have "nat (da_count arr - i - 1) = ?n - ?i - 1" "nat (i + 1) = ?i + 1" "nat (i + (da_count arr - i - 1)) = ?n - 1"
      using n True by linarith+
    ultimately have "darray_erase arr i = Inr (arr\<lparr>da_elements := take ?i ?b @ take (?n - ?i - 1) (drop (?i + 1) ?b) @ drop (?n - 1) ?b,
        da_count := da_count arr - 1\<rparr>, 0)"
      using assms True by (simp add: darray_erase_def)
    moreover define b' where "b' = take ?i ?b @ take (?n - ?i - 1) (drop (?i + 1) ?b) @ drop (?n - 1) ?b"
    ultimately have er: "darray_erase arr i = Inr (arr\<lparr>da_elements := b', da_count := da_count arr - 1\<rparr>, 0)" by simp
    have lt: "?i + 1 < ?n" using n True by linarith
    have len: "length b' = length ?b" using n(1) lt by (simp add: b'_def)
    have "length (take ?i ?b @ take (?n - ?i - 1) (drop (?i + 1) ?b)) = ?n - 1" using n(1) lt by simp
    then have "take (?n - 1) b' = take ?i ?b @ take (?n - ?i - 1) (drop (?i + 1) ?b)"
      unfolding b'_def append_assoc [symmetric] by (metis append_eq_conv_conj)
    moreover have "take ?i ?b = take ?i (take ?n ?b)" using lt by (simp add: min_def)
    moreover have "take (?n - ?i - 1) (drop (?i + 1) ?b) = drop (?i + 1) (take ?n ?b)" by (simp add: drop_take)
    moreover have "nat (da_count arr - 1) = ?n - 1" by linarith
    ultimately have "items (arr\<lparr>da_elements := b', da_count := da_count arr - 1\<rparr>) = take ?i (items arr) @ drop (?i + 1) (items arr)"
      by (simp add: items_def)
    moreover have "darray_ok (arr\<lparr>da_elements := b', da_count := da_count arr - 1\<rparr>)"
      using assms len by (simp add: darray_ok_def)
    ultimately show ?thesis using er by blast
  next
    case False
    then have "?n = ?i + 1" "nat (da_count arr - 1) = ?i" using n by linarith+
    then show ?thesis using assms n False by (auto simp: darray_erase_def darray_ok_def items_def)
  qed
qed

lemma isqrt_nonneg: "0 \<le> isqrt n"
  by (simp add: isqrt_def)

text \<open>Growing: the array has a free slot, or the allocation failed.\<close>

lemma grow_ok:
  assumes "darray_ok arr" "darray_room arr"
  shows "darray_grow arr = Inr None \<or> (\<exists>t. darray_grow arr = Inr (Some t) \<and> darray_ok t \<and>
    da_count t = da_count arr \<and> da_count arr < da_capacity t \<and> items t = items arr)"
proof -
  let ?c = "da_count arr" and ?sz = "da_size arr"
  define n where "n = ?c + 1 + isqrt ?c"
  have sz: "1 \<le> ?sz" and c: "0 \<le> ?c" "?c \<le> da_capacity arr" using assms(1) by (auto simp: darray_ok_def)
  have n: "?c + 1 \<le> n" "n * ?sz < 2 ^ 31" using assms(2) isqrt_nonneg [of ?c] by (auto simp: n_def darray_room_def)
  have "n * 1 \<le> n * ?sz" by (rule mult_left_mono) (use sz n c in auto)
  then have n31: "n < 2 ^ 31" using n(2) by linarith
  have ints: "c_int (?c + 1) = Inr (?c + 1)" "c_int n = Inr n" "c_int (n * ?sz) = Inr (n * ?sz)"
    using n n31 c sz by (auto intro!: c_int_ok)
  have bytes: "to_size (n * ?sz) div nat ?sz = nat n"
    using n(2) c n(1) sz by (simp add: to_size_def nat_mult_distrib)
  show ?thesis
  proof (cases "?c + 1 > da_capacity arr")
    case full: True
    show ?thesis
    proof (cases "da_alloc arr (da_elements arr) (to_size (n * ?sz))")
      case None
      then show ?thesis using full ints by (simp add: darray_grow_def n_def [symmetric])
    next
      case (Some p)
      have len: "length (da_elements arr) \<le> nat n" using assms(1) n(1) c full by (auto simp: darray_ok_def)
      have p: "length p = nat n" "take (length (da_elements arr)) p = da_elements arr"
        using assms(1) Some bytes len unfolding darray_ok_def alloc_ok_def by metis+
      define t where "t = arr\<lparr>da_elements := p, da_capacity := n\<rparr>"
      have "darray_grow arr = Inr (Some t)" using full ints Some by (simp add: darray_grow_def n_def [symmetric] t_def)
      moreover have "darray_ok t" using assms(1) p(1) n c by (auto simp: darray_ok_def t_def mult.commute)
      moreover have "items t = items arr"
      proof -
        have "take (nat ?c) p = take (nat ?c) (take (length (da_elements arr)) p)"
          using assms(1) by (simp add: darray_ok_def min_def nat_le_iff)
        then show ?thesis by (simp add: items_def t_def p(2))
      qed
      ultimately show ?thesis using n(1) by (auto simp: t_def)
    qed
  next
    case False
    then show ?thesis using assms(1) ints c by (auto simp: darray_grow_def)
  qed
qed

text \<open>Past that bound an insertion that has to grow the block overflows.\<close>

lemma insert_overflows:
  assumes "darray_ok arr" "\<not> darray_room arr" "da_count arr = da_capacity arr"
  shows "darray_insert arr before item = Inl Overrun"
proof -
  have "0 \<le> da_count arr * da_size arr" using assms(1) by (simp add: darray_ok_def)
  moreover have "c_int (da_count arr + 1) = Inl Overrun \<or> c_int (da_count arr + 1) = Inr (da_count arr + 1)"
    "c_int (da_count arr + 1 + isqrt (da_count arr)) = Inl Overrun \<or>
     c_int (da_count arr + 1 + isqrt (da_count arr)) = Inr (da_count arr + 1 + isqrt (da_count arr))"
    by (auto simp: c_int_def)
  moreover have "c_int ((da_count arr + 1 + isqrt (da_count arr)) * da_size arr) = Inl Overrun"
    using assms(2) by (simp add: c_int_def darray_room_def)
  ultimately show ?thesis using assms(3) by (auto simp: darray_insert_def darray_grow_def)
qed

lemma insert_items:
  fixes before :: int
  assumes "darray_ok arr" "darray_room arr"
  defines "at \<equiv> (if 0 \<le> before \<and> before < da_count arr then nat before else nat (da_count arr))"
  shows "\<exists>arr' r. darray_insert arr before item = Inr (arr', r) \<and> darray_ok arr' \<and> (r = 0 \<or> r = ENOMEM) \<and>
    items arr' = (if r = 0 then take at (items arr) @ item # drop at (items arr) else items arr)"
  using grow_ok [OF assms(1,2)]
proof (elim disjE exE conjE)
  assume "darray_grow arr = Inr None"
  then have "darray_insert arr before item = Inr (arr, ENOMEM)" by (simp add: darray_insert_def)
  then show ?thesis using assms(1) by (auto simp: ENOMEM_def)
next
  fix t
  assume grow: "darray_grow arr = Inr (Some t)" and ok: "darray_ok t" and cnt: "da_count t = da_count arr"
    and free: "da_count arr < da_capacity t" and it: "items t = items arr"
  let ?b = "da_elements t" and ?c = "nat (da_count arr)"
  have c: "0 \<le> da_count arr" "int (length ?b) = da_capacity t" "0 < da_size t" "da_count arr = int ?c"
    using ok cnt by (auto simp: darray_ok_def)
  have at: "at \<le> ?c" by (auto simp: at_def)
  have "?c < length ?b" using c free by linarith
  note at = at this
  define b' where "b' = (if 0 \<le> before \<and> before < da_count arr then take (at + 1) ?b @ take (?c - at) (drop at ?b) @ drop (?c + 1) ?b else ?b)"
  have len: "length b' = length ?b" using at by (auto simp: b'_def)
  define inside where "inside = (before \<ge> 0 \<and> da_count arr > before)"
  have iat: "(if inside then before else da_count arr) = int at" using c by (auto simp: inside_def at_def)
  have mv: "(if inside then move_elements t (int at + 1) (int at) (da_count arr - int at) else Inr ?b) = Inr b'"
  proof (cases inside)
    case True
    then have "int at < da_count arr" using iat by (auto simp: inside_def)
    then have "move_elements t (int at + 1) (int at) (da_count arr - int at) =
       Inr (take (nat (int at + 1)) ?b @ take (nat (da_count arr - int at)) (drop (nat (int at)) ?b) @ drop (nat (int at + 1 + (da_count arr - int at))) ?b)"
      by (intro move_elements_ok [OF ok]) (use free in auto)
    moreover have "nat (int at + 1) = at + 1" "nat (da_count arr - int at) = ?c - at" "nat (int at + 1 + (da_count arr - int at)) = ?c + 1"
      using at c by linarith+
    ultimately show ?thesis using True by (simp add: b'_def inside_def)
  qed (auto simp: b'_def inside_def)
  have "SIZE t (int at) = Inr (da_size t * int at)" by (rule SIZE_ok [OF ok]) (use at c free in linarith)+
  then have ins: "darray_insert arr before item = Inr (t\<lparr>da_elements := b'[at := item], da_count := da_count arr + 1\<rparr>, 0)"
    using mv at len c unfolding darray_insert_def grow and_then_Inr option.case Let_def cnt inside_def [symmetric] iat
    by simp
  have "take (?c + 1) (b'[at := item]) = take at (items t) @ item # drop at (items t)"
  proof -
    have "at < length b'" using len at by simp
    then have "b'[at := item] = take at b' @ item # drop (at + 1) b'" by (simp add: upd_conv_take_nth_drop)
    moreover have "take at b' = take at (items t)" using at cnt by (auto simp: b'_def items_def min_def)
    moreover have "take (?c - at) (drop (at + 1) b') = drop at (items t)"
      using at cnt by (auto simp: b'_def items_def at_def drop_take split: if_splits)
    moreover have "length (take at b') = at" "Suc ?c - at = Suc (?c - at)" using \<open>at < length b'\<close> at by auto
    ultimately show ?thesis by (simp only: take_append take_all_iff) simp
  qed
  moreover have "nat (da_count arr + 1) = ?c + 1" using c by linarith
  ultimately have "items (t\<lparr>da_elements := b'[at := item], da_count := da_count arr + 1\<rparr>) = take at (items arr) @ item # drop at (items arr)"
    unfolding it [symmetric] by (simp add: items_def)
  moreover have "darray_ok (t\<lparr>da_elements := b'[at := item], da_count := da_count arr + 1\<rparr>)"
    using ok len c(1-3) free by (simp add: darray_ok_def)
  ultimately show ?thesis using ins by auto
qed

section \<open>The ordered array\<close>

text \<open>A comparison function that compares the keys.\<close>

definition compares :: "('a \<Rightarrow> int) \<Rightarrow> ('a \<Rightarrow> 'a \<Rightarrow> int) \<Rightarrow> bool" where
  "compares key f \<longleftrightarrow> (\<forall>v x. (f v x = 0 \<longleftrightarrow> key v = key x) \<and> (f v x > 0 \<longleftrightarrow> key v > key x))"

definition ordered :: "('a \<Rightarrow> int) \<Rightarrow> 'a darray \<Rightarrow> bool" where
  "ordered key arr \<longleftrightarrow> darray_ok arr \<and> sorted_wrt (<) (map key (items arr))"

lemma get_ok:
  assumes "darray_ok arr" "i < nat (da_count arr)"
  shows "darray_get arr (int i) = Inr (Some (items arr ! i))"
proof -
  have i: "int i < da_count arr" "int i < da_capacity arr" using assms by (auto simp: darray_ok_def)
  have "SIZE arr (int i) = Inr (da_size arr * int i)" by (rule SIZE_ok [OF assms(1)]) (use i in auto)
  then show ?thesis using assms i by (simp add: darray_get_def items_def darray_ok_def)
qed

lemma find_loop_spec:
  assumes "compares key f" "ordered key arr" "n + k = nat (da_count arr)"
  shows "\<exists>i found. n \<le> i \<and> i \<le> nat (da_count arr) \<and> find_loop (Some f) item arr k (int n) = Inr (found, int i) \<and>
    (\<forall>v \<in> set (take (i - n) (drop n (items arr))). key v < key item) \<and>
    (case found of
       Some v \<Rightarrow> i < nat (da_count arr) \<and> v = items arr ! i \<and> key v = key item
     | None \<Rightarrow> \<forall>v \<in> set (drop i (items arr)). key item < key v)"
  using assms(3)
proof (induction k arbitrary: n)
  case 0
  then show ?case using assms(2) by (intro exI [of _ n] exI [of _ None]) (simp add: items_def)
next
  case (Suc k)
  have ok: "darray_ok arr" and sorted: "sorted_wrt (<) (map key (items arr))" using assms(2) by (auto simp: ordered_def)
  have len: "length (items arr) = nat (da_count arr)" using length_items [OF ok] by linarith
  have n: "n < nat (da_count arr)" using Suc.prems by simp
  let ?v = "items arr ! n"
  have get: "darray_get arr (int n) = Inr (Some ?v)" by (rule get_ok [OF ok n])
  have cons: "drop n (items arr) = ?v # drop (n + 1) (items arr)" using n len Cons_nth_drop_Suc [of n "items arr"] by simp
  have cmp: "f ?v item = 0 \<longleftrightarrow> key ?v = key item" "f ?v item > 0 \<longleftrightarrow> key ?v > key item" using assms(1) by (auto simp: compares_def)
  consider "key ?v = key item" | "key ?v > key item" | "key ?v < key item" by linarith
  then show ?case
  proof cases
    case 1
    then show ?thesis using cmp get n by (intro exI [of _ n] exI [of _ "Some ?v"]) simp
  next
    case 2
    have "sorted_wrt (<) (map key (drop n (items arr)))" using sorted by (simp add: sorted_wrt_drop flip: drop_map)
    then have "\<forall>v \<in> set (drop n (items arr)). key item < key v" using 2 unfolding cons by (auto intro: less_trans)
    then show ?thesis using 2 cmp get n by (intro exI [of _ n] exI [of _ None]) simp
  next
    case 3
    obtain i found where i: "n + 1 \<le> i" "i \<le> nat (da_count arr)" "find_loop (Some f) item arr k (int (n + 1)) = Inr (found, int i)"
        "\<forall>v \<in> set (take (i - (n + 1)) (drop (n + 1) (items arr))). key v < key item"
        "case found of Some v \<Rightarrow> i < nat (da_count arr) \<and> v = items arr ! i \<and> key v = key item
          | None \<Rightarrow> \<forall>v \<in> set (drop i (items arr)). key item < key v"
      using Suc.IH [of "n + 1"] Suc.prems by auto
    have "find_loop (Some f) item arr (Suc k) (int n) = Inr (found, int i)"
      using i(3) get 3 cmp by (simp add: Let_def add.commute)
    moreover have "take (i - n) (drop n (items arr)) = ?v # take (i - (n + 1)) (drop (n + 1) (items arr))"
      using i(1) cons by (metis (no_types, lifting) Suc_diff_le Suc_eq_plus1 diff_Suc_Suc take_Suc_Cons)
    ultimately show ?thesis using i 3 by (intro exI [of _ i] exI [of _ found]) auto
  qed
qed

lemma find_ordered:
  assumes "compares key f" "ordered key arr"
  obtains pos found where "darray_find arr item (Some f) = Inr (found, int pos)"
    "int pos \<le> da_count arr" "\<forall>v \<in> set (take pos (items arr)). key v < key item"
    "found = None \<Longrightarrow> \<forall>v \<in> set (drop pos (items arr)). key item < key v"
    "\<And>v. found = Some v \<Longrightarrow> int pos < da_count arr \<and> v = items arr ! pos \<and> key v = key item"
proof -
  have "0 \<le> da_count arr" using assms(2) by (simp add: ordered_def darray_ok_def)
  then show ?thesis
    using find_loop_spec [OF assms, of 0 "nat (da_count arr)" item] that
    by (fastforce simp: darray_find_def split: option.splits)
qed

lemma insert2_set:
  assumes "compares key f" "ordered key arr" "darray_room arr"
  shows "\<exists>arr' r. darray_insert2 (Some f) arr x = Inr (arr', r) \<and> ordered key arr' \<and>
    (if key x \<in> key ` set (items arr) then r = -1 \<and> set (items arr') = set (items arr)
     else if r = 0 then set (items arr') = insert x (set (items arr)) else set (items arr') = set (items arr))"
proof -
  obtain pos found where f: "darray_find arr x (Some f) = Inr (found, int pos)"
      and pos: "int pos \<le> da_count arr" and below: "\<forall>v \<in> set (take pos (items arr)). key v < key x"
      and above: "found = None \<Longrightarrow> \<forall>v \<in> set (drop pos (items arr)). key x < key v"
      and hit: "\<And>v. found = Some v \<Longrightarrow> int pos < da_count arr \<and> v = items arr ! pos \<and> key v = key x"
    by (rule find_ordered [OF assms(1,2)]) (rule that)
  have ok: "darray_ok arr" and sorted: "sorted_wrt (<) (map key (items arr))"
    using assms(2) by (auto simp: ordered_def)
  note len = length_items [OF ok]
  have split: "set (items arr) = set (take pos (items arr)) \<union> set (drop pos (items arr))"
    by (metis append_take_drop_id set_append)
  show ?thesis
  proof (cases found)
    case None
    then have no: "key x \<notin> key ` set (items arr)" using below above split by fastforce
    have at: "(if 0 \<le> int pos \<and> int pos < da_count arr then nat (int pos) else nat (da_count arr)) = pos" using pos by auto
    obtain arr' r where ins: "darray_insert arr (int pos) x = Inr (arr', r)" "darray_ok arr'" "r = 0 \<or> r = ENOMEM"
        "items arr' = (if r = 0 then take pos (items arr) @ x # drop pos (items arr) else items arr)"
      using insert_items [OF ok assms(3), of "int pos" x] unfolding at by blast
    have "sorted_wrt (<) (map key (take pos (items arr) @ x # drop pos (items arr)))"
      using below above [OF None] sorted
      by (auto simp: sorted_wrt_append sorted_wrt_map sorted_wrt_take sorted_wrt_drop intro: less_trans)
    then have "ordered key arr'" using ins sorted by (auto simp: ordered_def)
    moreover have "r = 0 \<Longrightarrow> set (items arr') = insert x (set (items arr))" using ins(4) split by auto
    ultimately show ?thesis using no ins f None by (auto simp: darray_insert2_def)
  next
    case (Some v)
    then have "key x \<in> key ` set (items arr)" using hit [OF Some] len by (metis imageI nth_mem of_nat_less_iff)
    then show ?thesis using f Some assms(2) by (auto simp: darray_insert2_def)
  qed
qed

lemma erase2_set:
  assumes "compares key f" "ordered key arr"
  shows "\<exists>arr' r. darray_erase2 (Some f) arr x = Inr (arr', r) \<and> ordered key arr' \<and>
    (if key x \<in> key ` set (items arr) then r = 0 \<and> set (items arr') = {y \<in> set (items arr). key y \<noteq> key x}
     else r = -1 \<and> set (items arr') = set (items arr))"
proof -
  obtain pos found where f: "darray_find arr x (Some f) = Inr (found, int pos)"
      and pos: "int pos \<le> da_count arr" and below: "\<forall>v \<in> set (take pos (items arr)). key v < key x"
      and above: "found = None \<Longrightarrow> \<forall>v \<in> set (drop pos (items arr)). key x < key v"
      and hit: "\<And>v. found = Some v \<Longrightarrow> int pos < da_count arr \<and> v = items arr ! pos \<and> key v = key x"
    by (rule find_ordered [OF assms]) (rule that)
  have ok: "darray_ok arr" and sorted: "sorted_wrt (<) (map key (items arr))"
    using assms(2) by (auto simp: ordered_def)
  note len = length_items [OF ok]
  have split: "set (items arr) = set (take pos (items arr)) \<union> set (drop pos (items arr))"
    by (metis append_take_drop_id set_append)
  show ?thesis
  proof (cases found)
    case None
    then have "key x \<notin> key ` set (items arr)" using below above split by fastforce
    then show ?thesis using f None assms(2) by (auto simp: darray_erase2_def)
  next
    case (Some v)
    then have v: "int pos < da_count arr" "v = items arr ! pos" "key v = key x" using hit by auto
    obtain arr' where er: "darray_erase arr (int pos) = Inr (arr', 0)" "darray_ok arr'"
        "items arr' = take pos (items arr) @ drop (pos + 1) (items arr)"
      using erase_items [OF ok, of "int pos"] v(1) by auto
    have whole: "items arr = take pos (items arr) @ v # drop (pos + 1) (items arr)"
      using v len by (simp add: id_take_nth_drop)
    then have "sorted_wrt (<) (map key (take pos (items arr) @ v # drop (pos + 1) (items arr)))" using sorted by simp
    then have s: "sorted_wrt (<) (map key (items arr'))" "\<forall>y \<in> set (items arr'). key y \<noteq> key v"
      unfolding er(3) by (auto simp: sorted_wrt_append)
    have "set (items arr) = insert v (set (items arr'))" unfolding er(3) by (subst whole) auto
    then have "set (items arr') = {y \<in> set (items arr). key y \<noteq> key x}" "key x \<in> key ` set (items arr)" using s(2) v(3) by auto
    then show ?thesis using f Some er s(1) by (auto simp: darray_erase2_def ordered_def)
  qed
qed

text \<open>An example of the interface: integers compared by their value.\<close>

definition int_compare :: "int \<Rightarrow> int \<Rightarrow> int" where
  "int_compare v x = v - x"

lemma int_compares: "compares (\<lambda>x. x) int_compare"
  by (simp add: compares_def int_compare_def)

lemma ordered_inj: "ordered key arr \<Longrightarrow> inj_on key (set (items arr))"
proof -
  assume "ordered key arr"
  then have "distinct (map key (items arr))" by (simp add: ordered_def strict_sorted_iff)
  then show ?thesis by (simp add: distinct_map)
qed

interpretation ints: keyed_set "ordered (\<lambda>x. x)" "\<lambda>arr. set (items arr)" "\<lambda>x. x" darray_room
    "darray_insert2 (Some int_compare)" "darray_erase2 (Some int_compare)"
  by unfold_locales (use insert2_set [OF int_compares] erase2_set [OF int_compares] ordered_inj in auto)






end
