(* ===== verification/MqttPacket.thy ===== *)
theory MqttPacket
  imports CString
begin

text \<open>
  The MQTT packet codec of \<^verbatim>\<open>core/deps/mqtt\<close> (\<^verbatim>\<open>MQTTPacket.c\<close>, \<^verbatim>\<open>MQTTConnect*.c\<close>, \<^verbatim>\<open>MQTT*Publish.c\<close>,
  \<^verbatim>\<open>MQTTSubscribe*.c\<close>, \<^verbatim>\<open>MQTTUnsubscribe*.c\<close>).  A serializer answers the bytes it stores in a buffer of \<open>buflen\<close> bytes
  and its result code; a deserializer reads the memory \<open>mem\<close> that starts with the packet, where reading
  past its end is a fault.  A position \<open>p\<close> is the offset of \<^verbatim>\<open>curdata\<close>.  Bit fields are written as arithmetic.
\<close>

section \<open>Lengths and strings\<close>

text \<open>The C string, and the pair of length and data; \<open>None\<close> is a null pointer.\<close>

record mqtt_string =
  ms_cstring :: "byte list option"
  ms_len :: nat
  ms_data :: "byte list option"

definition mqtt_string0 :: mqtt_string where
  "mqtt_string0 = \<lparr>ms_cstring = None, ms_len = 0, ms_data = None\<rparr>"

fun MQTTPacket_encode :: "nat \<Rightarrow> byte list" where
  "MQTTPacket_encode len =
     (if len div 128 > 0 then of_nat (len mod 128 + 128) # MQTTPacket_encode (len div 128) else [of_nat (len mod 128)])"

declare MQTTPacket_encode.simps [simp del]

text \<open>\<open>len\<close> and \<open>mult\<close> are the local variables; the answer is the number of bytes read, or five, and the value.\<close>

fun MQTTPacket_decode :: "nat \<Rightarrow> nat \<Rightarrow> nat \<Rightarrow> byte list \<Rightarrow> (nat \<times> nat) exec" where
  "MQTTPacket_decode len mult val bs =
     (if len + 1 > 4 then Inr (len + 1, val)
      else
        case bs of
          [] \<Rightarrow> Inl Out_of_bounds
        | c # cs \<Rightarrow>
            let val = val + unat c mod 128 * mult in
            if unat c \<ge> 128 then MQTTPacket_decode (len + 1) (mult * 128) val cs else Inr (len + 1, val))"

declare MQTTPacket_decode.simps [simp del]

definition MQTTPacket_decodeBuf :: "byte list \<Rightarrow> (nat \<times> nat) exec" where
  "MQTTPacket_decodeBuf buf = MQTTPacket_decode 0 1 0 buf"

definition MQTTPacket_len :: "nat \<Rightarrow> nat" where
  "MQTTPacket_len rem_len =
     (let rem_len = rem_len + 1 in
      if rem_len < 128 then rem_len + 1
      else if rem_len < 16384 then rem_len + 2
      else if rem_len < 2097151 then rem_len + 3
      else rem_len + 4)"

definition readChar :: "byte list \<Rightarrow> nat \<Rightarrow> (byte \<times> nat) exec" where
  "readChar mem p = and_then (in_bounds (p < length mem)) (\<lambda>_. Inr (mem ! p, p + 1))"

definition readInt :: "byte list \<Rightarrow> nat \<Rightarrow> (nat \<times> nat) exec" where
  "readInt mem p =
     and_then (in_bounds (p + 1 < length mem)) (\<lambda>_. Inr (256 * unat (mem ! p) + unat (mem ! (p + 1)), p + 2))"

definition writeInt :: "nat \<Rightarrow> byte list" where
  "writeInt n = [of_nat (n div 256), of_nat (n mod 256)]"

definition writeCString :: "byte list \<Rightarrow> byte list" where
  "writeCString s = writeInt (length s) @ s"

definition writeMQTTString :: "mqtt_string \<Rightarrow> byte list" where
  "writeMQTTString s =
     (if ms_len s > 0 then writeInt (ms_len s) @ (case ms_data s of None \<Rightarrow> [] | Some d \<Rightarrow> take (ms_len s) d)
      else case ms_cstring s of Some c \<Rightarrow> writeCString c | None \<Rightarrow> writeInt 0)"

text \<open>The string read, the new position and the result code; \<open>fin\<close> is the offset of \<^verbatim>\<open>enddata\<close>.\<close>

definition readMQTTLenString :: "mqtt_string \<Rightarrow> byte list \<Rightarrow> nat \<Rightarrow> nat \<Rightarrow> (mqtt_string \<times> nat \<times> bool) exec" where
  "readMQTTLenString s mem p fin =
     (if int fin - int p > 1 then
        and_then (readInt mem p) (\<lambda>(n, p).
        if p + n \<le> fin then
          and_then (in_bounds (p + n \<le> length mem)) (\<lambda>_.
          Inr (\<lparr>ms_cstring = None, ms_len = n, ms_data = Some (take n (drop p mem))\<rparr>, p + n, True))
        else Inr (s\<lparr>ms_cstring := None, ms_len := n\<rparr>, p, False))
      else Inr (s\<lparr>ms_cstring := None\<rparr>, p, False))"

definition MQTTstrlen :: "mqtt_string \<Rightarrow> nat" where
  "MQTTstrlen s = (case ms_cstring s of Some c \<Rightarrow> length c | None \<Rightarrow> ms_len s)"

definition MQTTPacket_equals :: "mqtt_string \<Rightarrow> byte list \<Rightarrow> bool" where
  "MQTTPacket_equals a b =
     (let (aptr, alen) = (case ms_cstring a of Some c \<Rightarrow> (c, length c)
        | None \<Rightarrow> ((case ms_data a of Some d \<Rightarrow> d | None \<Rightarrow> []), ms_len a))
      in alen = length b \<and> take alen aptr = take alen b)"

section \<open>The header byte\<close>

text \<open>The members of the bit field \<^verbatim>\<open>MQTTHeader\<close>, and the byte made of them.\<close>

definition header_byte :: "nat \<Rightarrow> nat \<Rightarrow> nat \<Rightarrow> nat \<Rightarrow> byte" where
  "header_byte type dup qos retain = of_nat (16 * (type mod 16) + 8 * (dup mod 2) + 2 * (qos mod 4) + retain mod 2)"

definition header_type :: "byte \<Rightarrow> nat" where "header_type b = unat b div 16"
definition header_dup :: "byte \<Rightarrow> nat" where "header_dup b = unat b div 8 mod 2"
definition header_qos :: "byte \<Rightarrow> nat" where "header_qos b = unat b div 2 mod 4"
definition header_retain :: "byte \<Rightarrow> nat" where "header_retain b = unat b mod 2"

abbreviation (input) CONNECT :: nat where "CONNECT \<equiv> 1"
abbreviation (input) CONNACK :: nat where "CONNACK \<equiv> 2"
abbreviation (input) PUBLISH :: nat where "PUBLISH \<equiv> 3"
abbreviation (input) PUBACK :: nat where "PUBACK \<equiv> 4"
abbreviation (input) PUBREC :: nat where "PUBREC \<equiv> 5"
abbreviation (input) PUBREL :: nat where "PUBREL \<equiv> 6"
abbreviation (input) PUBCOMP :: nat where "PUBCOMP \<equiv> 7"
abbreviation (input) SUBSCRIBE :: nat where "SUBSCRIBE \<equiv> 8"
abbreviation (input) SUBACK :: nat where "SUBACK \<equiv> 9"
abbreviation (input) UNSUBSCRIBE :: nat where "UNSUBSCRIBE \<equiv> 10"
abbreviation (input) UNSUBACK :: nat where "UNSUBACK \<equiv> 11"
abbreviation (input) PINGREQ :: nat where "PINGREQ \<equiv> 12"
abbreviation (input) PINGRESP :: nat where "PINGRESP \<equiv> 13"
abbreviation (input) DISCONNECT :: nat where "DISCONNECT \<equiv> 14"

definition MQTTPACKET_BUFFER_TOO_SHORT :: int where
  "MQTTPACKET_BUFFER_TOO_SHORT = -2"

text \<open>The stores of a serializer, which go where they go, and the result \<^verbatim>\<open>ptr - buf\<close>.\<close>

definition stored :: "nat \<Rightarrow> byte list \<Rightarrow> (byte list \<times> int) exec" where
  "stored buflen bs = and_then (in_bounds (length bs \<le> buflen)) (\<lambda>_. Inr (bs, int (length bs)))"

section \<open>Publish and acknowledgements\<close>

definition MQTTSerialize_publishLength :: "int \<Rightarrow> mqtt_string \<Rightarrow> nat \<Rightarrow> nat" where
  "MQTTSerialize_publishLength qos topicName payloadlen =
     2 + MQTTstrlen topicName + payloadlen + (if qos > 0 then 2 else 0)"

definition MQTTSerialize_publish ::
    "nat \<Rightarrow> nat \<Rightarrow> int \<Rightarrow> nat \<Rightarrow> nat \<Rightarrow> mqtt_string \<Rightarrow> byte list \<Rightarrow> (byte list \<times> int) exec" where
  "MQTTSerialize_publish buflen dup qos retained packetid topicName payload =
     (let rem_len = MQTTSerialize_publishLength qos topicName (length payload) in
      if MQTTPacket_len rem_len > buflen then Inr ([], MQTTPACKET_BUFFER_TOO_SHORT)
      else
        stored buflen (header_byte PUBLISH dup (nat (qos mod 4)) retained # MQTTPacket_encode rem_len @
          writeMQTTString topicName @ (if qos > 0 then writeInt packetid else []) @ payload))"

definition MQTTSerialize_ack :: "nat \<Rightarrow> nat \<Rightarrow> nat \<Rightarrow> nat \<Rightarrow> (byte list \<times> int) exec" where
  "MQTTSerialize_ack buflen packettype dup packetid =
     (if buflen < 4 then Inr ([], MQTTPACKET_BUFFER_TOO_SHORT)
      else
        stored buflen (header_byte packettype dup (if packettype = PUBREL then 1 else 0) 0 # MQTTPacket_encode 2 @ writeInt packetid))"

definition MQTTSerialize_puback :: "nat \<Rightarrow> nat \<Rightarrow> (byte list \<times> int) exec" where
  "MQTTSerialize_puback buflen packetid = MQTTSerialize_ack buflen PUBACK 0 packetid"

definition MQTTSerialize_pubrel :: "nat \<Rightarrow> nat \<Rightarrow> nat \<Rightarrow> (byte list \<times> int) exec" where
  "MQTTSerialize_pubrel buflen dup packetid = MQTTSerialize_ack buflen PUBREL dup packetid"

definition MQTTSerialize_pubcomp :: "nat \<Rightarrow> nat \<Rightarrow> (byte list \<times> int) exec" where
  "MQTTSerialize_pubcomp buflen packetid = MQTTSerialize_ack buflen PUBCOMP 0 packetid"

text \<open>What \<^verbatim>\<open>MQTTDeserialize_publish\<close> returns through its pointers.\<close>

record publish_data =
  pb_dup :: nat
  pb_qos :: nat
  pb_retained :: nat
  pb_packetid :: nat
  pb_topic :: mqtt_string
  pb_payload :: "byte list"
  pb_payloadlen :: int

text \<open>
  A failed read of the topic leaves the result code at the number of length bytes, which is one for a short packet.
  \<open>pb_payload\<close> is the memory from the payload on.
\<close>

definition MQTTDeserialize_publish :: "publish_data \<Rightarrow> byte list \<Rightarrow> (publish_data \<times> int) exec" where
  "MQTTDeserialize_publish out mem =
     and_then (readChar mem 0) (\<lambda>(h, p).
     if header_type h \<noteq> PUBLISH then Inr (out, 0)
     else
       let out = out\<lparr>pb_dup := header_dup h, pb_qos := header_qos h, pb_retained := header_retain h\<rparr> in
       and_then (MQTTPacket_decodeBuf (drop p mem)) (\<lambda>(n, mylen).
       let p = p + n; fin = p + mylen in
       and_then (readMQTTLenString (pb_topic out) mem p fin) (\<lambda>(topic, p, ok).
       let out = out\<lparr>pb_topic := topic\<rparr> in
       if \<not> ok \<or> int fin - int p < 0 then Inr (out, int n)
       else
         and_then (if pb_qos out > 0 then readInt mem p else Inr (pb_packetid out, p)) (\<lambda>(i, p).
         Inr (out\<lparr>pb_packetid := i, pb_payload := drop p mem, pb_payloadlen := int fin - int p\<rparr>, 1)))))"

text \<open>Type, dup flag and packet identifier, and the result code.\<close>

definition MQTTDeserialize_ack :: "byte list \<Rightarrow> (nat \<times> nat \<times> nat option \<times> int) exec" where
  "MQTTDeserialize_ack mem =
     and_then (readChar mem 0) (\<lambda>(h, p).
     and_then (MQTTPacket_decodeBuf (drop p mem)) (\<lambda>(n, mylen).
     if mylen < 2 then Inr (header_type h, header_dup h, None, int n)
     else and_then (readInt mem (p + n)) (\<lambda>(i, p). Inr (header_type h, header_dup h, Some i, 1))))"

section \<open>Connect\<close>

record connect_data =
  cd_version :: nat
  cd_clientID :: mqtt_string
  cd_keepAliveInterval :: nat
  cd_cleansession :: nat
  cd_willFlag :: nat
  cd_willTopic :: mqtt_string
  cd_willMessage :: mqtt_string
  cd_willRetained :: nat
  cd_willQos :: nat
  cd_username :: mqtt_string
  cd_password :: mqtt_string

definition connect_data0 :: connect_data where
  "connect_data0 = \<lparr>cd_version = 4, cd_clientID = mqtt_string0, cd_keepAliveInterval = 60, cd_cleansession = 1, cd_willFlag = 0,
     cd_willTopic = mqtt_string0, cd_willMessage = mqtt_string0, cd_willRetained = 0, cd_willQos = 0,
     cd_username = mqtt_string0, cd_password = mqtt_string0\<rparr>"

definition is_set :: "mqtt_string \<Rightarrow> bool" where
  "is_set s \<longleftrightarrow> ms_cstring s \<noteq> None \<or> ms_data s \<noteq> None"

definition MQTTSerialize_connectLength :: "connect_data \<Rightarrow> nat" where
  "MQTTSerialize_connectLength c =
     (if cd_version c = 3 then 12 else if cd_version c = 4 then 10 else 0) +
     (MQTTstrlen (cd_clientID c) + 2) +
     (if cd_willFlag c \<noteq> 0 then MQTTstrlen (cd_willTopic c) + 2 + MQTTstrlen (cd_willMessage c) + 2 else 0) +
     (if is_set (cd_username c) then MQTTstrlen (cd_username c) + 2 else 0) +
     (if is_set (cd_password c) then MQTTstrlen (cd_password c) + 2 else 0)"

definition connect_flags :: "connect_data \<Rightarrow> nat" where
  "connect_flags c =
     2 * (cd_cleansession c mod 2) +
     (if cd_willFlag c \<noteq> 0 then 4 + 8 * (cd_willQos c mod 4) + 32 * (cd_willRetained c mod 2) else 0) +
     (if is_set (cd_password c) then 64 else 0) + (if is_set (cd_username c) then 128 else 0)"

definition MQTTSerialize_connect :: "nat \<Rightarrow> connect_data \<Rightarrow> (byte list \<times> int) exec" where
  "MQTTSerialize_connect buflen c =
     (let len = MQTTSerialize_connectLength c in
      if MQTTPacket_len len > buflen then Inr ([], MQTTPACKET_BUFFER_TOO_SHORT)
      else
        stored buflen (header_byte CONNECT 0 0 0 # MQTTPacket_encode len @
          (if cd_version c = 4 then writeCString (text_bytes ''MQTT'') @ [4] else writeCString (text_bytes ''MQIsdp'') @ [3]) @
          [of_nat (connect_flags c)] @ writeInt (cd_keepAliveInterval c) @ writeMQTTString (cd_clientID c) @
          (if cd_willFlag c \<noteq> 0 then writeMQTTString (cd_willTopic c) @ writeMQTTString (cd_willMessage c) else []) @
          (if is_set (cd_username c) then writeMQTTString (cd_username c) else []) @
          (if is_set (cd_password c) then writeMQTTString (cd_password c) else [])))"

definition MQTTPacket_checkVersion :: "mqtt_string \<Rightarrow> nat \<Rightarrow> bool" where
  "MQTTPacket_checkVersion protocol version =
     (let d = (case ms_data protocol of Some d \<Rightarrow> d | None \<Rightarrow> []) in
      (version = 3 \<and> take (min 6 (ms_len protocol)) d = take (min 6 (ms_len protocol)) (text_bytes ''MQIsdp'')) \<or>
      (version = 4 \<and> take (min 4 (ms_len protocol)) d = take (min 4 (ms_len protocol)) (text_bytes ''MQTT'')))"

text \<open>The end of \<^verbatim>\<open>MQTTDeserialize_connect\<close>: user name and password.\<close>

definition connect_credentials :: "nat \<Rightarrow> connect_data \<Rightarrow> byte list \<Rightarrow> nat \<Rightarrow> nat \<Rightarrow> (connect_data \<times> int) exec" where
  "connect_credentials flags c mem p fin =
     (if flags div 128 mod 2 = 1 then
        if int fin - int p < 3 then Inr (c, 0)
        else
          and_then (readMQTTLenString (cd_username c) mem p fin) (\<lambda>(s, p, ok).
          let c = c\<lparr>cd_username := s\<rparr> in
          if \<not> ok then Inr (c, 0)
          else if flags div 64 mod 2 = 1 then
            if int fin - int p < 3 then Inr (c, 0)
            else
              and_then (readMQTTLenString (cd_password c) mem p fin) (\<lambda>(s, p, ok).
              Inr (c\<lparr>cd_password := s\<rparr>, if ok then 1 else 0))
          else Inr (c, 1))
      else if flags div 64 mod 2 = 1 then Inr (c, 0)
      else Inr (c, 1))"

definition connect_will :: "nat \<Rightarrow> connect_data \<Rightarrow> byte list \<Rightarrow> nat \<Rightarrow> nat \<Rightarrow> (connect_data \<times> int) exec" where
  "connect_will flags c mem p fin =
     (let c = c\<lparr>cd_willFlag := flags div 4 mod 2\<rparr> in
      if flags div 4 mod 2 = 1 then
        let c = c\<lparr>cd_willQos := flags div 8 mod 4, cd_willRetained := flags div 32 mod 2\<rparr> in
        and_then (readMQTTLenString (cd_willTopic c) mem p fin) (\<lambda>(s, p, ok).
        let c = c\<lparr>cd_willTopic := s\<rparr> in
        if \<not> ok then Inr (c, 0)
        else
          and_then (readMQTTLenString (cd_willMessage c) mem p fin) (\<lambda>(s, p, ok).
          let c = c\<lparr>cd_willMessage := s\<rparr> in
          if \<not> ok then Inr (c, 0) else connect_credentials flags c mem p fin))
      else connect_credentials flags c mem p fin)"

definition MQTTDeserialize_connect :: "connect_data \<Rightarrow> byte list \<Rightarrow> nat \<Rightarrow> (connect_data \<times> int) exec" where
  "MQTTDeserialize_connect c mem len =
     and_then (readChar mem 0) (\<lambda>(h, p).
     if header_type h \<noteq> CONNECT then Inr (c, 0)
     else
       and_then (MQTTPacket_decodeBuf (drop p mem)) (\<lambda>(n, mylen).
       and_then (readMQTTLenString mqtt_string0 mem (p + n) len) (\<lambda>(protocol, p, ok).
       if \<not> ok \<or> int len - int p < 0 then Inr (c, 0)
       else
         and_then (readChar mem p) (\<lambda>(version, p).
         if \<not> MQTTPacket_checkVersion protocol (unat version) then Inr (c, 0)
         else
           and_then (readChar mem p) (\<lambda>(flags, p).
           let c = c\<lparr>cd_cleansession := unat flags div 2 mod 2\<rparr> in
           and_then (readInt mem p) (\<lambda>(keep, p).
           let c = c\<lparr>cd_keepAliveInterval := keep\<rparr> in
           and_then (readMQTTLenString (cd_clientID c) mem p len) (\<lambda>(s, p, ok).
           let c = c\<lparr>cd_clientID := s\<rparr> in
           if \<not> ok then Inr (c, 0) else connect_will (unat flags) c mem p len)))))))"

definition MQTTSerialize_connack :: "nat \<Rightarrow> byte \<Rightarrow> nat \<Rightarrow> (byte list \<times> int) exec" where
  "MQTTSerialize_connack buflen connack_rc sessionPresent =
     (if buflen < 2 then Inr ([], MQTTPACKET_BUFFER_TOO_SHORT)
      else stored buflen (header_byte CONNACK 0 0 0 # MQTTPacket_encode 2 @ [of_nat (sessionPresent mod 2), connack_rc]))"

text \<open>The flag and the return code, if they were read, and the result.\<close>

definition MQTTDeserialize_connack :: "byte list \<Rightarrow> ((nat \<times> byte) option \<times> int) exec" where
  "MQTTDeserialize_connack mem =
     and_then (readChar mem 0) (\<lambda>(h, p).
     if header_type h \<noteq> CONNACK then Inr (None, 0)
     else
       and_then (MQTTPacket_decodeBuf (drop p mem)) (\<lambda>(n, mylen).
       if mylen < 2 then Inr (None, int n)
       else
         and_then (readChar mem (p + n)) (\<lambda>(flags, p).
         and_then (readChar mem p) (\<lambda>(rc, p).
         Inr (Some (unat flags mod 2, rc), 1)))))"

definition MQTTSerialize_zero :: "nat \<Rightarrow> nat \<Rightarrow> (byte list \<times> int) exec" where
  "MQTTSerialize_zero buflen packettype =
     (if buflen < 2 then Inr ([], MQTTPACKET_BUFFER_TOO_SHORT)
      else stored buflen (header_byte packettype 0 0 0 # MQTTPacket_encode 0))"

definition MQTTSerialize_disconnect :: "nat \<Rightarrow> (byte list \<times> int) exec" where
  "MQTTSerialize_disconnect buflen = MQTTSerialize_zero buflen DISCONNECT"

definition MQTTSerialize_pingreq :: "nat \<Rightarrow> (byte list \<times> int) exec" where
  "MQTTSerialize_pingreq buflen = MQTTSerialize_zero buflen PINGREQ"

section \<open>Subscribe and unsubscribe\<close>

definition MQTTSerialize_subscribeLength :: "mqtt_string list \<Rightarrow> nat" where
  "MQTTSerialize_subscribeLength topicFilters = 2 + sum_list (map (\<lambda>t. 2 + MQTTstrlen t + 1) topicFilters)"

definition MQTTSerialize_subscribe ::
    "nat \<Rightarrow> nat \<Rightarrow> nat \<Rightarrow> (mqtt_string \<times> int) list \<Rightarrow> (byte list \<times> int) exec" where
  "MQTTSerialize_subscribe buflen dup packetid requests =
     (let rem_len = MQTTSerialize_subscribeLength (map fst requests) in
      if MQTTPacket_len rem_len > buflen then Inr ([], MQTTPACKET_BUFFER_TOO_SHORT)
      else
        stored buflen (header_byte SUBSCRIBE dup 1 0 # MQTTPacket_encode rem_len @ writeInt packetid @
          concat (map (\<lambda>(t, q). writeMQTTString t @ [of_int q]) requests)))"

text \<open>
  The loop of \<^verbatim>\<open>MQTTDeserialize_subscribe\<close>: the requests read so far are the filled part of the caller's arrays of
  \<open>maxcount\<close> entries, which the code does not compare with the number of entries.
\<close>

function subscribe_loop ::
    "nat \<Rightarrow> byte list \<Rightarrow> nat \<Rightarrow> nat \<Rightarrow> (mqtt_string \<times> int) list \<Rightarrow> int \<Rightarrow> ((mqtt_string \<times> int) list \<times> int) exec" where
  "subscribe_loop maxcount mem p fin acc rc =
     (if p < fin then
        and_then (in_bounds (length acc < maxcount)) (\<lambda>_.
        and_then (readMQTTLenString mqtt_string0 mem p fin) (\<lambda>(t, q, ok).
        if \<not> ok then Inr (acc, rc)
        else if q \<ge> fin then Inr (acc, rc)
        else
          and_then (readChar mem q) (\<lambda>(c, q').
          if q' \<le> p then Inr (acc, rc)
          else subscribe_loop maxcount mem q' fin (acc @ [(t, sint c)]) rc)))
      else Inr (acc, 1))"
  by pat_completeness auto
termination by (relation "measure (\<lambda>(maxcount, mem, p, fin, acc, rc). fin - p)") auto

declare subscribe_loop.simps [simp del]

text \<open>Dup flag, packet identifier and requests, if they were reached, and the result.\<close>

definition MQTTDeserialize_subscribe :: "nat \<Rightarrow> byte list \<Rightarrow> ((nat \<times> nat \<times> (mqtt_string \<times> int) list) option \<times> int) exec" where
  "MQTTDeserialize_subscribe maxcount mem =
     and_then (readChar mem 0) (\<lambda>(h, p).
     if header_type h \<noteq> SUBSCRIBE then Inr (None, -1)
     else
       and_then (MQTTPacket_decodeBuf (drop p mem)) (\<lambda>(n, mylen).
       let p = p + n; fin = p + mylen in
       and_then (readInt mem p) (\<lambda>(i, p).
       and_then (subscribe_loop maxcount mem p fin [] (int n)) (\<lambda>(reqs, rc).
       Inr (Some (header_dup h, i, reqs), rc)))))"

definition MQTTSerialize_suback :: "nat \<Rightarrow> nat \<Rightarrow> int list \<Rightarrow> (byte list \<times> int) exec" where
  "MQTTSerialize_suback buflen packetid grantedQoSs =
     (if buflen < 2 + length grantedQoSs then Inr ([], MQTTPACKET_BUFFER_TOO_SHORT)
      else
        stored buflen (header_byte SUBACK 0 0 0 # MQTTPacket_encode (2 + length grantedQoSs) @ writeInt packetid @
          map of_int grantedQoSs))"

text \<open>The loop of \<^verbatim>\<open>MQTTDeserialize_suback\<close> allows one entry more than the caller's array has.\<close>

function suback_loop :: "nat \<Rightarrow> byte list \<Rightarrow> nat \<Rightarrow> nat \<Rightarrow> int list \<Rightarrow> (int list \<times> int) exec" where
  "suback_loop maxcount mem p fin acc =
     (if p < fin then
        if length acc > maxcount then Inr (acc, -1)
        else
          and_then (in_bounds (length acc < maxcount)) (\<lambda>_.
          and_then (readChar mem p) (\<lambda>(c, q). suback_loop maxcount mem (p + 1) fin (acc @ [sint c])))
      else Inr (acc, 1))"
  by pat_completeness auto
termination by (relation "measure (\<lambda>(maxcount, mem, p, fin, acc). fin - p)") auto

declare suback_loop.simps [simp del]

definition MQTTDeserialize_suback :: "nat \<Rightarrow> byte list \<Rightarrow> ((nat \<times> int list) option \<times> int) exec" where
  "MQTTDeserialize_suback maxcount mem =
     and_then (readChar mem 0) (\<lambda>(h, p).
     if header_type h \<noteq> SUBACK then Inr (None, 0)
     else
       and_then (MQTTPacket_decodeBuf (drop p mem)) (\<lambda>(n, mylen).
       let p = p + n; fin = p + mylen in
       if mylen < 2 then Inr (None, int n)
       else
         and_then (readInt mem p) (\<lambda>(i, p).
         and_then (suback_loop maxcount mem p fin []) (\<lambda>(qs, rc).
         Inr (Some (i, qs), rc)))))"

definition MQTTSerialize_unsubscribeLength :: "mqtt_string list \<Rightarrow> nat" where
  "MQTTSerialize_unsubscribeLength topicFilters = 2 + sum_list (map (\<lambda>t. 2 + MQTTstrlen t) topicFilters)"

definition MQTTSerialize_unsubscribe :: "nat \<Rightarrow> nat \<Rightarrow> nat \<Rightarrow> mqtt_string list \<Rightarrow> (byte list \<times> int) exec" where
  "MQTTSerialize_unsubscribe buflen dup packetid topicFilters =
     (let rem_len = MQTTSerialize_unsubscribeLength topicFilters in
      if MQTTPacket_len rem_len > buflen then Inr ([], MQTTPACKET_BUFFER_TOO_SHORT)
      else
        stored buflen (header_byte UNSUBSCRIBE dup 1 0 # MQTTPacket_encode rem_len @ writeInt packetid @
          concat (map writeMQTTString topicFilters)))"

function unsubscribe_loop ::
    "nat \<Rightarrow> byte list \<Rightarrow> nat \<Rightarrow> nat \<Rightarrow> mqtt_string list \<Rightarrow> int \<Rightarrow> (mqtt_string list \<times> int) exec" where
  "unsubscribe_loop maxcount mem p fin acc rc =
     (if p < fin then
        and_then (in_bounds (length acc < maxcount)) (\<lambda>_.
        and_then (readMQTTLenString mqtt_string0 mem p fin) (\<lambda>(t, q, ok).
        if \<not> ok \<or> q \<le> p then Inr (acc, rc)
        else unsubscribe_loop maxcount mem q fin (acc @ [t]) rc))
      else Inr (acc, 1))"
  by pat_completeness auto
termination by (relation "measure (\<lambda>(maxcount, mem, p, fin, acc, rc). fin - p)") auto

declare unsubscribe_loop.simps [simp del]

definition MQTTDeserialize_unsubscribe :: "nat \<Rightarrow> byte list \<Rightarrow> ((nat \<times> nat \<times> mqtt_string list) option \<times> int) exec" where
  "MQTTDeserialize_unsubscribe maxcount mem =
     and_then (readChar mem 0) (\<lambda>(h, p).
     if header_type h \<noteq> UNSUBSCRIBE then Inr (None, 0)
     else
       and_then (MQTTPacket_decodeBuf (drop p mem)) (\<lambda>(n, mylen).
       let p = p + n; fin = p + mylen in
       and_then (readInt mem p) (\<lambda>(i, p).
       and_then (unsubscribe_loop maxcount mem p fin [] (int n)) (\<lambda>(ts, rc).
       Inr (Some (header_dup h, i, ts), rc)))))"

definition MQTTDeserialize_unsuback :: "byte list \<Rightarrow> (nat option \<times> int) exec" where
  "MQTTDeserialize_unsuback mem =
     and_then (MQTTDeserialize_ack mem) (\<lambda>(type, dup, i, rc). Inr (i, if type = UNSUBACK then 1 else rc))"

definition MQTTSerialize_unsuback :: "nat \<Rightarrow> nat \<Rightarrow> (byte list \<times> int) exec" where
  "MQTTSerialize_unsuback buflen packetid =
     (if buflen < 2 then Inr ([], MQTTPACKET_BUFFER_TOO_SHORT)
      else stored buflen (header_byte UNSUBACK 0 0 0 # MQTTPacket_encode 2 @ writeInt packetid))"

section \<open>Lemmas\<close>

lemma encode_short: "n < 128 \<Longrightarrow> MQTTPacket_encode n = [of_nat n]"
  by (subst MQTTPacket_encode.simps) simp

lemma encode_long: "128 \<le> n \<Longrightarrow> MQTTPacket_encode n = of_nat (n mod 128 + 128) # MQTTPacket_encode (n div 128)"
  by (subst MQTTPacket_encode.simps) (simp add: div_greater_zero_iff)

lemma unat_byte: "n < 256 \<Longrightarrow> unat (of_nat n :: byte) = n"
  by (simp add: unat_of_nat)

text \<open>\<open>k\<close> more length bytes hold every value below \<open>128 ^ k\<close>.\<close>

lemma decode_encode_gen:
  "n < 128 ^ k \<Longrightarrow> len + k \<le> 4 \<Longrightarrow> MQTTPacket_decode len mult val (MQTTPacket_encode n @ rest) =
    Inr (len + length (MQTTPacket_encode n), val + n * mult) \<and> 0 < length (MQTTPacket_encode n) \<and> length (MQTTPacket_encode n) \<le> k \<or> k = 0"
proof (induction k arbitrary: n len mult val)
  case (Suc k)
  show ?case
  proof (cases "n < 128")
    case True
    then show ?thesis using Suc.prems(2)
      by (subst MQTTPacket_decode.simps) (simp add: encode_short unat_byte)
  next
    case False
    then have n: "128 \<le> n" by simp
    have "n div 128 < 128 ^ k" using Suc.prems(1) by (simp add: less_mult_imp_div_less mult.commute)
    moreover have "k \<noteq> 0" using n Suc.prems(1) by (cases k) auto
    ultimately have IH: "MQTTPacket_decode (Suc len) (mult * 128) (val + n mod 128 * mult) (MQTTPacket_encode (n div 128) @ rest) =
        Inr (Suc len + length (MQTTPacket_encode (n div 128)), val + n mod 128 * mult + n div 128 * (mult * 128))"
        "length (MQTTPacket_encode (n div 128)) \<le> k"
      using Suc.IH [of "n div 128" "Suc len"] Suc.prems(2) by auto
    have "unat (of_nat (n mod 128 + 128) :: byte) = n mod 128 + 128"
      by (rule unat_byte) (simp add: pos_mod_bound)
    moreover have "n mod 128 * mult + n div 128 * (mult * 128) = n * mult"
      by (metis add_mult_distrib div_mod_decomp mult.assoc mult.commute add.commute)
    ultimately show ?thesis using IH Suc.prems(2)
      by (subst MQTTPacket_decode.simps) (simp add: encode_long [OF n] mod_add_self2 add.assoc)
  qed
qed simp

end
