(* ===== verification/MqttRoundtrip.thy ===== *)
theory MqttRoundtrip
  imports MqttPacket
begin

text \<open>
  Round trips of the MQTT codec: what a serializer stores, the deserializer of the other side reads back, wherever the
  packet lies in memory.
\<close>

section \<open>The remaining length\<close>

lemma decode_encode:
  assumes "n < 268435456"
  shows "MQTTPacket_decodeBuf (MQTTPacket_encode n @ rest) = Inr (length (MQTTPacket_encode n), n)"
  using decode_encode_gen [of n 4 0 1 0 rest] assms by (simp add: MQTTPacket_decodeBuf_def)

lemma encode_length: "n < 128 ^ k \<Longrightarrow> 0 < k \<Longrightarrow> k \<le> 4 \<Longrightarrow> length (MQTTPacket_encode n) \<le> k"
  using decode_encode_gen [of n k 0 1 0 "[]"] by auto

lemma packet_len_bound:
  assumes "n < 268435456"
  shows "1 + length (MQTTPacket_encode n) + n \<le> MQTTPacket_len n"
proof -
  consider "n < 128" | "128 \<le> n" "n < 16384" | "16384 \<le> n" "n < 2097152" | "2097152 \<le> n" by linarith
  then show ?thesis
  proof cases
    case 1 then show ?thesis using encode_length [of n 1] by (simp add: MQTTPacket_len_def Let_def)
  next
    case 2 then show ?thesis using encode_length [of n 2] by (simp add: MQTTPacket_len_def Let_def)
  next
    case 3 then show ?thesis using encode_length [of n 3] by (simp add: MQTTPacket_len_def Let_def)
  next
    case 4 then show ?thesis using encode_length [of n 4] assms by (simp add: MQTTPacket_len_def Let_def)
  qed
qed

lemma decode_encode_at:
  "n < 268435456 \<Longrightarrow> MQTTPacket_decodeBuf (drop (length a) (a @ MQTTPacket_encode n @ rest)) = Inr (length (MQTTPacket_encode n), n)"
  by (simp add: decode_encode)

section \<open>Reading what was written\<close>

lemma readChar_drop: "drop p mem = c # b \<Longrightarrow> readChar mem p = Inr (c, p + 1) \<and> drop (p + 1) mem = b"
proof -
  assume d: "drop p mem = c # b"
  then have "p < length mem" by (metis drop_all list.distinct(1) not_le)
  moreover from this have "mem ! p = c" "drop (p + 1) mem = b" using d by (metis Cons_nth_drop_Suc list.inject Suc_eq_plus1)+
  ultimately show ?thesis by (simp add: readChar_def)
qed

lemma drop_next: "drop p mem = xs @ b \<Longrightarrow> drop (p + length xs) mem = b"
  by (metis add.commute append_eq_conv_conj drop_drop)

lemma drop_bound: "drop p mem = xs @ b \<Longrightarrow> xs \<noteq> [] \<Longrightarrow> p + length xs \<le> length mem"
proof -
  assume d: "drop p mem = xs @ b" "xs \<noteq> []"
  then have "length mem - p = length xs + length b" "p < length mem" by (metis length_append length_drop, metis drop_all append_is_Nil_conv not_le)
  then show ?thesis by linarith
qed

lemma readInt_drop:
  assumes "n < 65536" "drop p mem = writeInt n @ b"
  shows "readInt mem p = Inr (n, p + 2) \<and> drop (p + 2) mem = b"
proof -
  have b: "p + 2 \<le> length mem" using drop_bound [OF assms(2)] by (simp add: writeInt_def)
  have "mem ! p = of_nat (n div 256)" "mem ! (p + 1) = of_nat (n mod 256)"
    using assms(2) b nth_drop [of p mem 0] nth_drop [of p mem 1] by (simp_all add: writeInt_def)
  moreover have "unat (of_nat (n div 256) :: byte) = n div 256" "unat (of_nat (n mod 256) :: byte) = n mod 256"
    using assms(1) by (simp_all add: unat_byte less_mult_imp_div_less)
  moreover have "drop (p + 2) mem = b" using drop_next [OF assms(2)] by (simp add: writeInt_def)
  ultimately show ?thesis using b by (simp add: readInt_def)
qed

text \<open>The string as it is received.\<close>

definition received :: "byte list \<Rightarrow> mqtt_string" where
  "received d = \<lparr>ms_cstring = None, ms_len = length d, ms_data = Some d\<rparr>"

lemma readString_drop:
  assumes "length d < 65536" "p + 2 + length d \<le> fin" "drop p mem = writeInt (length d) @ d @ b"
  shows "readMQTTLenString s mem p fin = Inr (received d, p + 2 + length d, True) \<and> drop (p + 2 + length d) mem = b"
proof -
  note r = readInt_drop [OF assms(1,3)]
  have "int fin - int p > 1" using assms(2) by linarith
  moreover have "take (length d) (drop (p + 2) mem) = d" using r by simp
  moreover have "p + 2 + length d \<le> length mem"
    using drop_bound [of p mem "writeInt (length d) @ d" b] assms(3) by (simp add: writeInt_def)
  ultimately show ?thesis using assms(2) r drop_next [of "p + 2" mem d b]
    by (simp add: readMQTTLenString_def received_def add.assoc)
qed

text \<open>What a string stands for, when its two representations do not contradict each other.\<close>

definition contents :: "mqtt_string \<Rightarrow> byte list" where
  "contents s =
     (if ms_len s > 0 then (case ms_data s of Some d \<Rightarrow> d | None \<Rightarrow> [])
      else case ms_cstring s of Some c \<Rightarrow> c | None \<Rightarrow> [])"

definition plain :: "mqtt_string \<Rightarrow> bool" where
  "plain s \<longleftrightarrow> length (contents s) < 65536 \<and>
     (ms_len s = 0 \<or> ms_cstring s = None \<and> ms_data s \<noteq> None \<and> length (the (ms_data s)) = ms_len s)"

lemma plain_string:
  assumes "plain s"
  shows "writeMQTTString s = writeInt (length (contents s)) @ contents s" "MQTTstrlen s = length (contents s)"
    "length (contents s) < 65536"
  using assms by (auto simp: plain_def contents_def writeMQTTString_def writeCString_def MQTTstrlen_def split: option.splits)

lemma bit_members:
  fixes t d q r :: nat
  assumes "d < 2" "q < 4" "r < 2"
  defines "n \<equiv> 16 * t + 8 * d + 2 * q + r"
  shows "n div 16 = t" "n div 8 mod 2 = d" "n div 2 mod 4 = q" "n mod 2 = r"
proof -
  show "n div 16 = t" unfolding n_def using assms(1-3) by simp
  have "n div 8 = 2 * t + d" unfolding n_def using assms(1-3) by simp
  then show "n div 8 mod 2 = d" using assms(1) by simp
  have "n div 2 = q + (2 * t + d) * 4" unfolding n_def using assms(3) by simp
  then show "n div 2 mod 4 = q" using assms(2) by (simp only: mod_mult_self1) simp
  have "n = r + (8 * t + 4 * d + q) * 2" unfolding n_def by simp
  then show "n mod 2 = r" using assms(3) by (simp only: mod_mult_self1) simp
qed

lemma header_members:
  assumes "t < 16"
  shows "header_type (header_byte t d q r) = t" "header_dup (header_byte t d q r) = d mod 2"
    "header_qos (header_byte t d q r) = q mod 4" "header_retain (header_byte t d q r) = r mod 2"
proof -
  let ?n = "16 * t + 8 * (d mod 2) + 2 * (q mod 4) + r mod 2"
  have b: "d mod 2 < 2" "q mod 4 < 4" "r mod 2 < 2" by simp_all
  have "?n < 256" using b assms by linarith
  then have u: "unat (header_byte t d q r) = ?n" using assms unat_byte [of ?n] by (simp only: header_byte_def mod_less)
  show "header_type (header_byte t d q r) = t" "header_dup (header_byte t d q r) = d mod 2"
    "header_qos (header_byte t d q r) = q mod 4" "header_retain (header_byte t d q r) = r mod 2"
    unfolding header_type_def header_dup_def header_qos_def header_retain_def u by (rule bit_members [OF b])+
qed

lemma length_writeInt [simp]: "length (writeInt n) = 2"
  by (simp add: writeInt_def)

lemma stored_fits: "length bs \<le> buflen \<Longrightarrow> stored buflen bs = Inr (bs, int (length bs))"
  by (simp add: stored_def)

section \<open>Publish\<close>

lemma stored_packet:
  assumes "n < 268435456" "MQTTPacket_len n \<le> buflen" "length body = n"
  shows "stored buflen (h # MQTTPacket_encode n @ body) = Inr (h # MQTTPacket_encode n @ body, int (length (h # MQTTPacket_encode n @ body)))"
  using packet_len_bound [OF assms(1)] assms(2,3) by (intro stored_fits) simp

lemma publish_bytes:
  assumes "plain topic" "MQTTSerialize_publishLength qos topic (length payload) < 268435456"
    and "MQTTPacket_len (MQTTSerialize_publishLength qos topic (length payload)) \<le> buflen"
  shows "MQTTSerialize_publish buflen dup qos retained packetid topic payload =
    (let bs = header_byte PUBLISH dup (nat (qos mod 4)) retained #
       MQTTPacket_encode (MQTTSerialize_publishLength qos topic (length payload)) @
       writeInt (length (contents topic)) @ contents topic @ (if qos > 0 then writeInt packetid else []) @ payload
     in Inr (bs, int (length bs)))"
proof -
  let ?body = "writeMQTTString topic @ (if qos > 0 then writeInt packetid else []) @ payload"
  have "length ?body = MQTTSerialize_publishLength qos topic (length payload)"
    using plain_string [OF assms(1)] by (simp add: MQTTSerialize_publishLength_def)
  note stored_packet [OF assms(2,3) this]
  then show ?thesis using assms(3) plain_string(1) [OF assms(1)]
    by (simp only: MQTTSerialize_publish_def Let_def append_assoc not_less [symmetric] if_False)
qed

lemma publish_core:
  assumes "plain topic" "MQTTSerialize_publishLength qos topic (length payload) < 268435456"
    and "MQTTPacket_len (MQTTSerialize_publishLength qos topic (length payload)) \<le> buflen"
    and "dup < 2" "0 \<le> qos" "qos < 4" "retained < 2" "packetid < 65536"
  shows "\<exists>bs. MQTTSerialize_publish buflen dup qos retained packetid topic payload = Inr (bs, int (length bs)) \<and>
    MQTTDeserialize_publish out (bs @ rest) =
      Inr (out\<lparr>pb_dup := dup, pb_qos := nat qos, pb_retained := retained, pb_topic := received (contents topic),
        pb_packetid := (if qos > 0 then packetid else pb_packetid out), pb_payload := payload @ rest,
        pb_payloadlen := int (length payload)\<rparr>, 1)"
proof -
  let ?n = "MQTTSerialize_publishLength qos topic (length payload)"
  let ?e = "MQTTPacket_encode ?n" and ?t = "contents topic" and ?h = "header_byte PUBLISH dup (nat (qos mod 4)) retained"
  define i where "i = (if qos > 0 then writeInt packetid else [])"
  define bs where "bs = ?h # ?e @ writeInt (length ?t) @ ?t @ i @ payload"
  define mem where "mem = bs @ rest"
  have n: "?n = 2 + length ?t + length payload + length i"
    using plain_string [OF assms(1)] by (simp add: MQTTSerialize_publishLength_def i_def)
  have q: "nat (qos mod 4) = nat qos" "nat qos mod 4 = nat qos" using assms(5,6) by auto
  have h: "header_type ?h = PUBLISH" "header_dup ?h = dup" "header_qos ?h = nat qos" "header_retain ?h = retained"
    using header_members [of PUBLISH dup "nat (qos mod 4)" retained] assms(4,7) q by simp_all
  have m0: "drop 0 mem = ?h # ?e @ writeInt (length ?t) @ ?t @ i @ payload @ rest" by (simp add: mem_def bs_def)
  note c = readChar_drop [OF m0]
  then have m1: "drop 1 mem = ?e @ writeInt (length ?t) @ ?t @ i @ payload @ rest" by simp
  note m2 = drop_next [OF m1]
  define p where "p = 1 + length ?e"
  define P where "P = p + 2 + length ?t"
  obtain N where N: "N = ?n" by blast
  have s: "readMQTTLenString (pb_topic out) mem p (p + N) = Inr (received ?t, P, True)" and m3: "drop P mem = i @ payload @ rest"
    using readString_drop [OF plain_string(3) [OF assms(1)], of p "p + N" mem "i @ payload @ rest" "pb_topic out"] m2 n
    by (simp_all add: p_def P_def N)
  have dec: "MQTTPacket_decodeBuf (drop 1 mem) = Inr (length ?e, N)"
    unfolding m1 N by (rule decode_encode [OF assms(2)])
  have fin: "p + N = P + length i + length payload" using n by (simp add: N P_def)
  note run = MQTTDeserialize_publish_def c [THEN conjunct1] and_then_Inr prod.case add_0 h dec Let_def p_def [symmetric]
  have "MQTTDeserialize_publish out mem =
      Inr (out\<lparr>pb_dup := dup, pb_qos := nat qos, pb_retained := retained, pb_topic := received ?t,
        pb_packetid := (if qos > 0 then packetid else pb_packetid out), pb_payload := payload @ rest,
        pb_payloadlen := int (length payload)\<rparr>, 1)"
  proof (cases "qos > 0")
    case True
    then have "readInt mem P = Inr (packetid, P + 2)" "drop (P + 2) mem = payload @ rest" "length i = 2"
      using readInt_drop [OF assms(8), of P mem "payload @ rest"] m3 by (simp_all add: i_def)
    then show ?thesis unfolding run using True s fin by simp
  next
    case False
    then show ?thesis unfolding run using s fin m3 by (simp add: i_def)
  qed
  moreover have "MQTTSerialize_publish buflen dup qos retained packetid topic payload = Inr (bs, int (length bs))"
    using publish_bytes [OF assms(1-3)] by (simp add: Let_def bs_def i_def)
  ultimately show ?thesis unfolding mem_def by blast
qed

text \<open>
  C21.  A message that \<^verbatim>\<open>MQTTSerialize_publish\<close> has put in a buffer with room for it is read back by
  \<^verbatim>\<open>MQTTDeserialize_publish\<close> with the same topic, payload, packet identifier and flags.
\<close>

theorem mqtt_publish_roundtrip:
  assumes "plain topic" "MQTTSerialize_publishLength qos topic (length payload) < 268435456"
    and "MQTTPacket_len (MQTTSerialize_publishLength qos topic (length payload)) \<le> buflen"
    and "dup < 2" "0 \<le> qos" "qos < 4" "retained < 2" "packetid < 65536"
  shows "\<exists>bs. MQTTSerialize_publish buflen dup qos retained packetid topic payload = Inr (bs, int (length bs)) \<and>
    MQTTDeserialize_publish out (bs @ rest) =
      Inr (out\<lparr>pb_dup := dup, pb_qos := nat qos, pb_retained := retained, pb_topic := received (contents topic),
        pb_packetid := (if qos > 0 then packetid else pb_packetid out), pb_payload := payload @ rest,
        pb_payloadlen := int (length payload)\<rparr>, 1)"
  by (rule publish_core [OF assms])

theorem mqtt_publish_roundtrip_witness:
  "\<exists>bs. MQTTSerialize_publish 64 1 2 0 515 (received [0x61, 0x2F, 0x62]) [1, 2, 3] = Inr (bs, int (length bs)) \<and>
    MQTTDeserialize_publish \<lparr>pb_dup = 0, pb_qos = 0, pb_retained = 0, pb_packetid = 0, pb_topic = mqtt_string0, pb_payload = [],
        pb_payloadlen = 0\<rparr> (bs @ [9]) =
      Inr (\<lparr>pb_dup = 0, pb_qos = 0, pb_retained = 0, pb_packetid = 0, pb_topic = mqtt_string0, pb_payload = [],
        pb_payloadlen = 0\<rparr>\<lparr>pb_dup := 1, pb_qos := nat 2, pb_retained := 0, pb_topic := received (contents (received [0x61, 0x2F, 0x62])),
        pb_packetid := (if 2 > (0 :: int) then 515 else 0), pb_payload := [1, 2, 3] @ [9],
        pb_payloadlen := int (length [1, 2, 3 :: byte])\<rparr>, 1)"
  using mqtt_publish_roundtrip [of "received [0x61, 0x2F, 0x62]" 2 "[1, 2, 3]" 64 1 0 515
      "\<lparr>pb_dup = 0, pb_qos = 0, pb_retained = 0, pb_packetid = 0, pb_topic = mqtt_string0, pb_payload = [], pb_payloadlen = 0\<rparr>" "[9]"]
  by (simp add: received_def plain_def contents_def MQTTSerialize_publishLength_def MQTTstrlen_def MQTTPacket_len_def)

text \<open>
  The acknowledgements of connect, subscribe and unsubscribe check for two bytes, or two and the number of codes,
  but store two more: a buffer of the checked size is overrun.
\<close>

lemma mqtt_ack_buffers_overrun:
  "MQTTSerialize_connack 2 rc sessionPresent = Inl Out_of_bounds \<and>
   MQTTSerialize_suback (2 + length qs) packetid qs = Inl Out_of_bounds \<and>
   MQTTSerialize_unsuback 2 packetid = Inl Out_of_bounds"
proof -
  have e: "length (MQTTPacket_encode n) \<ge> 1" for n by (subst MQTTPacket_encode.simps) simp
  have "length (MQTTPacket_encode 2) = 1" by (simp add: encode_short)
  then show ?thesis using e [of "2 + length qs"]
    by (simp add: MQTTSerialize_connack_def MQTTSerialize_suback_def MQTTSerialize_unsuback_def stored_def in_bounds_def)
qed

end
