(* ===== verification/MqttConnect.thy ===== *)
theory MqttConnect
  imports MqttRoundtrip
begin

text \<open>
  Round trips of the MQTT packets with several strings: connect, subscribe and unsubscribe.
\<close>

section \<open>Connect\<close>

lemma flag_members:
  fixes u p r q w c :: nat
  assumes "p < 2" "r < 2" "q < 4" "w < 2" "c < 2"
  defines "n \<equiv> 2 * c + (4 * w + 8 * q + 32 * r) + 64 * p + 128 * u"
  shows "n div 128 = u" "n div 64 mod 2 = p" "n div 32 mod 2 = r" "n div 8 mod 4 = q" "n div 4 mod 2 = w" "n div 2 mod 2 = c"
proof -
  show "n div 128 = u" unfolding n_def using assms(1-5) by simp
  have "n div 64 = p + u * 2" unfolding n_def using assms(1-5) by simp
  then show "n div 64 mod 2 = p" using assms(1) by (simp only: mod_mult_self1) simp
  have "n div 32 = r + (p + 2 * u) * 2" unfolding n_def using assms(1-5) by simp
  then show "n div 32 mod 2 = r" using assms(2) by (simp only: mod_mult_self1) simp
  have "n div 8 = q + (r + 2 * p + 4 * u) * 4" unfolding n_def using assms(1-5) by simp
  then show "n div 8 mod 4 = q" using assms(3) by (simp only: mod_mult_self1) simp
  have "n div 4 = w + (q + 4 * r + 8 * p + 16 * u) * 2" unfolding n_def using assms(1-5) by simp
  then show "n div 4 mod 2 = w" using assms(4) by (simp only: mod_mult_self1) simp
  have "n div 2 = c + (w + 2 * q + 8 * r + 16 * p + 32 * u) * 2" unfolding n_def using assms(1-5) by simp
  then show "n div 2 mod 2 = c" using assms(5) by (simp only: mod_mult_self1) simp
qed

text \<open>Options that a packet can carry, and those of them that the server's parser accepts: no password without a user name, and
  neither empty, but an empty user name passes when a password follows it.\<close>

definition connect_ok :: "connect_data \<Rightarrow> bool" where
  "connect_ok c \<longleftrightarrow> cd_version c \<in> {3, 4} \<and> cd_keepAliveInterval c < 65536 \<and> cd_cleansession c < 2 \<and> cd_willFlag c < 2 \<and>
     cd_willQos c < 4 \<and> cd_willRetained c < 2 \<and>
     plain (cd_clientID c) \<and> (cd_willFlag c = 1 \<longrightarrow> plain (cd_willTopic c) \<and> plain (cd_willMessage c)) \<and>
     (is_set (cd_username c) \<longrightarrow> plain (cd_username c)) \<and> (is_set (cd_password c) \<longrightarrow> plain (cd_password c))"

definition connect_accepted :: "connect_data \<Rightarrow> bool" where
  "connect_accepted c \<longleftrightarrow>
     (if is_set (cd_password c) then is_set (cd_username c) \<and> contents (cd_password c) \<noteq> []
      else is_set (cd_username c) \<longrightarrow> contents (cd_username c) \<noteq> [])"

text \<open>What the server has after reading into \<open>d\<close>.\<close>

definition received_connect :: "connect_data \<Rightarrow> connect_data \<Rightarrow> connect_data" where
  "received_connect c d = d\<lparr>cd_cleansession := cd_cleansession c, cd_keepAliveInterval := cd_keepAliveInterval c,
     cd_clientID := received (contents (cd_clientID c)), cd_willFlag := cd_willFlag c,
     cd_willQos := (if cd_willFlag c = 1 then cd_willQos c else cd_willQos d),
     cd_willRetained := (if cd_willFlag c = 1 then cd_willRetained c else cd_willRetained d),
     cd_willTopic := (if cd_willFlag c = 1 then received (contents (cd_willTopic c)) else cd_willTopic d),
     cd_willMessage := (if cd_willFlag c = 1 then received (contents (cd_willMessage c)) else cd_willMessage d),
     cd_username := (if is_set (cd_username c) then received (contents (cd_username c)) else cd_username d),
     cd_password := (if is_set (cd_password c) then received (contents (cd_password c)) else cd_password d)\<rparr>"

definition sent :: "mqtt_string \<Rightarrow> byte list" where
  "sent s = writeInt (length (contents s)) @ contents s"

lemma sent_string: "plain s \<Longrightarrow> writeMQTTString s = sent s \<and> MQTTstrlen s + 2 = length (sent s)"
  by (simp add: sent_def plain_string)

lemma sent_length: "plain s \<Longrightarrow> length (sent s) = Suc (Suc (MQTTstrlen s))"
  by (simp add: sent_def plain_string)

lemma read_sent:
  assumes "plain s" "drop p mem = sent s @ b" "p + length (sent s) \<le> fin"
  shows "readMQTTLenString t mem p fin = Inr (received (contents s), p + length (sent s), True)"
    "drop (p + length (sent s)) mem = b"
  using readString_drop [OF plain_string(3) [OF assms(1)], of p fin mem b t] assms(2,3)
  by (simp_all add: sent_def add.assoc)

definition credential_bytes :: "connect_data \<Rightarrow> byte list" where
  "credential_bytes c = (if is_set (cd_username c) then sent (cd_username c) else []) @
     (if is_set (cd_password c) then sent (cd_password c) else [])"

definition will_bytes :: "connect_data \<Rightarrow> byte list" where
  "will_bytes c = (if cd_willFlag c \<noteq> 0 then sent (cd_willTopic c) @ sent (cd_willMessage c) else [])"

lemma flags_of:
  assumes "connect_ok c"
  shows "connect_flags c div 128 mod 2 = (if is_set (cd_username c) then 1 else 0)"
    "connect_flags c div 64 mod 2 = (if is_set (cd_password c) then 1 else 0)"
    "connect_flags c div 2 mod 2 = cd_cleansession c" "connect_flags c div 4 mod 2 = cd_willFlag c"
    "cd_willFlag c = 1 \<Longrightarrow> connect_flags c div 8 mod 4 = cd_willQos c"
    "cd_willFlag c = 1 \<Longrightarrow> connect_flags c div 32 mod 2 = cd_willRetained c"
    "connect_flags c < 256"
proof -
  let ?w = "cd_willFlag c" and ?p = "if is_set (cd_password c) then 1 else 0 :: nat" and ?u = "if is_set (cd_username c) then 1 else 0 :: nat"
  let ?q = "if ?w = 1 then cd_willQos c else 0" and ?r = "if ?w = 1 then cd_willRetained c else 0"
  have b: "?p < 2" "?r < 2" "?q < 4" "?w < 2" "cd_cleansession c < 2" "?u < 2" using assms by (auto simp: connect_ok_def)
  have n: "connect_flags c = 2 * cd_cleansession c + (4 * ?w + 8 * ?q + 32 * ?r) + 64 * ?p + 128 * ?u"
    using b(4) assms by (auto simp: connect_flags_def connect_ok_def less_2_cases_iff)
  note m = flag_members [OF b(1-5), of ?u, folded n]
  show "connect_flags c div 128 mod 2 = ?u" "connect_flags c div 64 mod 2 = ?p" "connect_flags c div 2 mod 2 = cd_cleansession c"
    "connect_flags c div 4 mod 2 = ?w" using m by simp_all
  show "?w = 1 \<Longrightarrow> connect_flags c div 8 mod 4 = cd_willQos c" "?w = 1 \<Longrightarrow> connect_flags c div 32 mod 2 = cd_willRetained c"
    using m(3,4) by simp_all
  show "connect_flags c < 256" unfolding n using b by linarith
qed

lemma sent_short: "length (sent s) < 3 \<longleftrightarrow> contents s = []"
  by (cases "contents s") (auto simp: sent_def)

definition with_credentials :: "connect_data \<Rightarrow> connect_data \<Rightarrow> connect_data" where
  "with_credentials c d = d\<lparr>cd_username := (if is_set (cd_username c) then received (contents (cd_username c)) else cd_username d),
      cd_password := (if is_set (cd_password c) then received (contents (cd_password c)) else cd_password d)\<rparr>"

definition with_will :: "connect_data \<Rightarrow> connect_data \<Rightarrow> connect_data" where
  "with_will c d = d\<lparr>cd_willFlag := cd_willFlag c,
      cd_willQos := (if cd_willFlag c = 1 then cd_willQos c else cd_willQos d),
      cd_willRetained := (if cd_willFlag c = 1 then cd_willRetained c else cd_willRetained d),
      cd_willTopic := (if cd_willFlag c = 1 then received (contents (cd_willTopic c)) else cd_willTopic d),
      cd_willMessage := (if cd_willFlag c = 1 then received (contents (cd_willMessage c)) else cd_willMessage d)\<rparr>"

text \<open>The outcome of reading the packet of \<open>c\<close>: accepted, with the data \<open>d'\<close>, or refused.\<close>

definition outcome :: "connect_data \<Rightarrow> connect_data \<Rightarrow> (connect_data \<times> int) exec \<Rightarrow> bool" where
  "outcome c d' m \<longleftrightarrow> (if connect_accepted c then m = Inr (d', 1) else \<exists>x. m = Inr (x, 0))"

lemma credentials_read:
  assumes "connect_ok c" "drop p mem = credential_bytes c @ rest" "fin = p + length (credential_bytes c)"
  shows "outcome c (with_credentials c d) (connect_credentials (connect_flags c) d mem p fin)"
proof (cases "is_set (cd_username c)")
  case False
  then show ?thesis using flags_of(1,2) [OF assms(1)]
    by (cases "is_set (cd_password c)") (simp_all add: connect_credentials_def outcome_def with_credentials_def connect_accepted_def)
next
  case True
  then have u: "plain (cd_username c)" using assms(1) by (auto simp: connect_ok_def)
  let ?l = "length (sent (cd_username c))"
  have fin: "p + ?l \<le> fin" using assms(3) True by (simp add: credential_bytes_def)
  have d: "drop p mem = sent (cd_username c) @ (if is_set (cd_password c) then sent (cd_password c) else []) @ rest"
    using assms(2) True by (simp add: credential_bytes_def)
  note r = read_sent [OF u d fin]
  show ?thesis
  proof (cases "is_set (cd_password c)")
    case False
    have "fin = p + ?l" using assms(3) True False by (simp add: credential_bytes_def)
    then show ?thesis using True False flags_of(1,2) [OF assms(1)] r(1) sent_short [of "cd_username c"]
      by (auto simp: connect_credentials_def outcome_def with_credentials_def connect_accepted_def Let_def not_less)
  next
    case pw: True
    then have v: "plain (cd_password c)" using assms(1) by (auto simp: connect_ok_def)
    let ?k = "length (sent (cd_password c))"
    have fin2: "fin = p + ?l + ?k" using assms(3) True pw by (simp add: credential_bytes_def)
    have d2: "drop (p + ?l) mem = sent (cd_password c) @ rest" using r(2) pw by simp
    note r2 = read_sent(1) [OF v d2, of fin]
    have "2 \<le> ?l" "2 \<le> ?k" by (simp_all add: sent_def)
    then have long: "\<not> int fin - int p < 3" using fin2 by linarith
    have short: "int fin - int (p + ?l) < 3 \<longleftrightarrow> contents (cd_password c) = []"
      using fin2 sent_short [of "cd_password c"] by linarith
    show ?thesis using True pw flags_of(1,2) [OF assms(1)] r(1) r2 fin2 long short
      by (auto simp: connect_credentials_def outcome_def with_credentials_def connect_accepted_def Let_def simp del: of_nat_add)
  qed
qed

lemma will_read:
  assumes "connect_ok c" "drop p mem = will_bytes c @ credential_bytes c @ rest"
    and "fin = p + length (will_bytes c) + length (credential_bytes c)"
  shows "outcome c (with_credentials c (with_will c d)) (connect_will (connect_flags c) d mem p fin)"
proof (cases "cd_willFlag c = 1")
  case False
  then have "cd_willFlag c = 0" using assms(1) by (auto simp: connect_ok_def)
  then show ?thesis using assms credentials_read [OF assms(1), of p mem rest fin] flags_of(4) [OF assms(1)]
    by (simp add: connect_will_def will_bytes_def with_will_def)
next
  case True
  then have w: "plain (cd_willTopic c)" "plain (cd_willMessage c)" using assms(1) by (auto simp: connect_ok_def)
  have d: "drop p mem = sent (cd_willTopic c) @ sent (cd_willMessage c) @ credential_bytes c @ rest"
    using assms(2) True by (simp add: will_bytes_def)
  have fin: "fin = p + length (sent (cd_willTopic c)) + length (sent (cd_willMessage c)) + length (credential_bytes c)"
    using assms(3) True by (simp add: will_bytes_def)
  have "p + length (sent (cd_willTopic c)) \<le> fin" using fin by simp
  note r = read_sent [OF w(1) d this]
  have "p + length (sent (cd_willTopic c)) + length (sent (cd_willMessage c)) \<le> fin" using fin by simp
  note r2 = read_sent [OF w(2) r(2) this]
  show ?thesis using True flags_of(4-6) [OF assms(1)] r(1) r2(1) credentials_read [OF assms(1) r2(2) fin]
    by (simp add: connect_will_def Let_def with_will_def)
qed

definition protocol_bytes :: "connect_data \<Rightarrow> byte list" where
  "protocol_bytes c = (if cd_version c = 4 then text_bytes ''MQTT'' else text_bytes ''MQIsdp'')"

definition connect_body :: "connect_data \<Rightarrow> byte list" where
  "connect_body c = writeInt (length (protocol_bytes c)) @ protocol_bytes c @ [of_nat (cd_version c), of_nat (connect_flags c)] @
     writeInt (cd_keepAliveInterval c) @ sent (cd_clientID c) @ will_bytes c @ credential_bytes c"

lemma connect_body_length: "connect_ok c \<Longrightarrow> length (connect_body c) = MQTTSerialize_connectLength c"
  using sent_string [of "cd_clientID c"] sent_string [of "cd_willTopic c"] sent_string [of "cd_willMessage c"]
    sent_string [of "cd_username c"] sent_string [of "cd_password c"]
  by (auto simp: connect_body_def MQTTSerialize_connectLength_def will_bytes_def credential_bytes_def protocol_bytes_def
      text_bytes_def connect_ok_def less_2_cases_iff)

lemma connect_bytes:
  assumes "connect_ok c" "MQTTSerialize_connectLength c < 268435456" "MQTTPacket_len (MQTTSerialize_connectLength c) \<le> buflen"
  defines "bs \<equiv> header_byte CONNECT 0 0 0 # MQTTPacket_encode (MQTTSerialize_connectLength c) @ connect_body c"
  shows "MQTTSerialize_connect buflen c = Inr (bs, int (length bs))"
proof -
  have body: "(if cd_version c = 4 then writeCString (text_bytes ''MQTT'') @ [4] else writeCString (text_bytes ''MQIsdp'') @ [3]) @
      [of_nat (connect_flags c)] @ writeInt (cd_keepAliveInterval c) @ writeMQTTString (cd_clientID c) @
      (if cd_willFlag c \<noteq> 0 then writeMQTTString (cd_willTopic c) @ writeMQTTString (cd_willMessage c) else []) @
      (if is_set (cd_username c) then writeMQTTString (cd_username c) else []) @
      (if is_set (cd_password c) then writeMQTTString (cd_password c) else []) = connect_body c"
    using assms(1) sent_string [of "cd_clientID c"] sent_string [of "cd_willTopic c"] sent_string [of "cd_willMessage c"]
      sent_string [of "cd_username c"] sent_string [of "cd_password c"]
    by (auto simp: connect_body_def will_bytes_def credential_bytes_def protocol_bytes_def writeCString_def connect_ok_def
        less_2_cases_iff)
  show ?thesis
    unfolding MQTTSerialize_connect_def Let_def body bs_def
    using assms(3) stored_packet [OF assms(2,3) connect_body_length [OF assms(1)]] by (simp only: not_less [symmetric] if_False)
qed

text \<open>
  C22.  The server's \<^verbatim>\<open>MQTTDeserialize_connect\<close> reads the connect packet of a client, protocol version 3 or 4, back:
  identifier, keep-alive, session flag, will, user name and password.  It refuses exactly the packets with a password but
  no user name, with an empty password, or with an empty user name and no password, although the client sends them; and it
  checks the version but does not store it.
\<close>

theorem mqtt_connect_roundtrip:
  assumes "connect_ok c" "MQTTSerialize_connectLength c < 268435456" "MQTTPacket_len (MQTTSerialize_connectLength c) \<le> buflen"
  shows "\<exists>bs. MQTTSerialize_connect buflen c = Inr (bs, int (length bs)) \<and>
    (if connect_accepted c
     then MQTTDeserialize_connect d (bs @ rest) (length bs) = Inr (received_connect c d, 1) \<and>
       cd_version (received_connect c d) = cd_version d
     else \<exists>d'. MQTTDeserialize_connect d (bs @ rest) (length bs) = Inr (d', 0))"
proof -
  let ?e = "MQTTPacket_encode (MQTTSerialize_connectLength c)" and ?pr = "protocol_bytes c"
  let ?bs = "header_byte CONNECT 0 0 0 # ?e @ connect_body c"
  define mem where "mem = ?bs @ rest"
  define tail where "tail = sent (cd_clientID c) @ will_bytes c @ credential_bytes c @ rest"
  have ok: "cd_keepAliveInterval c < 65536" "plain (cd_clientID c)" "cd_version c = 3 \<or> cd_version c = 4"
    using assms(1) by (auto simp: connect_ok_def)
  have m0: "drop 0 mem = header_byte CONNECT 0 0 0 # ?e @ connect_body c @ rest" by (simp add: mem_def)
  note c0 = readChar_drop [OF m0]
  then have m1: "drop 1 mem = ?e @ connect_body c @ rest" by simp
  have dec: "MQTTPacket_decodeBuf (drop 1 mem) = Inr (length ?e, MQTTSerialize_connectLength c)"
    unfolding m1 by (rule decode_encode [OF assms(2)])
  define p where "p = 1 + length ?e"
  define fin where "fin = length ?bs"
  have m2: "drop p mem = writeInt (length ?pr) @ ?pr @ of_nat (cd_version c) # of_nat (connect_flags c) #
      writeInt (cd_keepAliveInterval c) @ tail"
    using drop_next [OF m1] by (simp add: p_def connect_body_def tail_def)
  define P where "P = p + 2 + length ?pr"
  have fin: "fin = P + 4 + length (sent (cd_clientID c)) + length (will_bytes c) + length (credential_bytes c)"
    by (simp add: fin_def p_def P_def connect_body_def)
  have pl: "length ?pr < 65536" by (simp add: protocol_bytes_def text_bytes_def)
  have le: "p + 2 + length ?pr \<le> fin" using fin by (simp add: P_def)
  note s = readString_drop [OF pl le m2, of mqtt_string0, folded P_def]
  note v = readChar_drop [OF s [THEN conjunct2]]
  note f = readChar_drop [OF v [THEN conjunct2]]
  note k = readInt_drop [OF ok(1) f [THEN conjunct2]]
  have pos: "P + 1 + 1 = P + 2" "P + 2 + 2 = P + 4" by simp_all
  have "P + 4 + length (sent (cd_clientID c)) \<le> fin" using fin by simp
  note i = read_sent [OF ok(2) k [THEN conjunct2, unfolded pos tail_def] this]
  have version: "MQTTPacket_checkVersion (received ?pr) (unat (of_nat (cd_version c) :: byte))"
    using ok(3) by (auto simp: MQTTPacket_checkVersion_def received_def protocol_bytes_def text_bytes_def)
  have flags: "unat (of_nat (connect_flags c) :: byte) = connect_flags c" by (rule unat_byte [OF flags_of(7) [OF assms(1)]])
  note w = will_read [OF assms(1) i(2) fin]
  have h: "header_type (header_byte CONNECT 0 0 0) = CONNECT" by (rule header_members) simp
  have room: "(int fin - int P < 0) = False" using fin by simp
  let ?d = "d\<lparr>cd_cleansession := cd_cleansession c, cd_keepAliveInterval := cd_keepAliveInterval c,
     cd_clientID := received (contents (cd_clientID c))\<rparr>"
  have "MQTTDeserialize_connect d mem fin = connect_will (connect_flags c) ?d mem (P + 4 + length (sent (cd_clientID c))) fin"
    by (simp only: MQTTDeserialize_connect_def c0 [THEN conjunct1] and_then_Inr prod.case add_0 h dec p_def [symmetric]
        s [THEN conjunct1] v [THEN conjunct1] f [THEN conjunct1] k [THEN conjunct1, unfolded pos] Let_def pos room i(1) version flags
        not_True_eq_False if_True if_False simp_thms)
      (simp add: flags_of(3) [OF assms(1)])
  then have "outcome c (with_credentials c (with_will c ?d)) (MQTTDeserialize_connect d mem fin)" using w [of ?d] by simp
  moreover have "with_credentials c (with_will c ?d) = received_connect c d"
    by (simp add: with_credentials_def with_will_def received_connect_def)
  moreover have "cd_version (received_connect c d) = cd_version d" by (simp add: received_connect_def)
  ultimately show ?thesis using connect_bytes [OF assms] by (auto simp: mem_def fin_def outcome_def split: if_splits)
qed

definition mqttc :: connect_data where
  "mqttc = connect_data0\<lparr>cd_clientID := mqtt_string0\<lparr>ms_cstring := Some (text_bytes ''mqttc'')\<rparr>,
     cd_username := mqtt_string0\<lparr>ms_cstring := Some (text_bytes ''user'')\<rparr>,
     cd_password := mqtt_string0\<lparr>ms_cstring := Some (text_bytes ''pass'')\<rparr>\<rparr>"

lemma mqttc_ok:
  "connect_ok mqttc" "MQTTSerialize_connectLength mqttc < 268435456" "MQTTPacket_len (MQTTSerialize_connectLength mqttc) \<le> 1024"
  "connect_accepted mqttc"
  "connect_ok (mqttc\<lparr>cd_username := mqtt_string0\<rparr>)" "MQTTSerialize_connectLength (mqttc\<lparr>cd_username := mqtt_string0\<rparr>) < 268435456"
  "MQTTPacket_len (MQTTSerialize_connectLength (mqttc\<lparr>cd_username := mqtt_string0\<rparr>)) \<le> 1024"
  "\<not> connect_accepted (mqttc\<lparr>cd_username := mqtt_string0\<rparr>)"
  by (simp_all add: mqttc_def connect_data0_def mqtt_string0_def connect_ok_def connect_accepted_def plain_def contents_def is_set_def text_bytes_def
      MQTTSerialize_connectLength_def MQTTstrlen_def MQTTPacket_len_def)

text \<open>The second packet has a password but no user name.\<close>

theorem mqtt_connect_roundtrip_witness:
  "(\<exists>bs. MQTTSerialize_connect 1024 mqttc = Inr (bs, int (length bs)) \<and>
      MQTTDeserialize_connect connect_data0 (bs @ []) (length bs) = Inr (received_connect mqttc connect_data0, 1)) \<and>
    (\<exists>bs d'. MQTTSerialize_connect 1024 (mqttc\<lparr>cd_username := mqtt_string0\<rparr>) = Inr (bs, int (length bs)) \<and>
      MQTTDeserialize_connect connect_data0 (bs @ []) (length bs) = Inr (d', 0))"
  using mqtt_connect_roundtrip [OF mqttc_ok(1-3), of connect_data0 "[]"] mqtt_connect_roundtrip [OF mqttc_ok(5-7), of connect_data0 "[]"]
    mqttc_ok(4,8) by (auto split: if_splits)

section \<open>Subscribe and unsubscribe\<close>

lemma sint_small: "0 \<le> q \<Longrightarrow> q < 128 \<Longrightarrow> sint (of_int q :: byte) = q"
  by (simp add: signed_of_int signed_take_bit_int_eq_self)

lemma subscribe_loop_read:
  assumes "\<forall>(t, q) \<in> set reqs. plain t \<and> 0 \<le> q \<and> q < 128"
    and "drop p mem = concat (map (\<lambda>(t, q). sent t @ [of_int q]) reqs) @ rest"
    and "fin = p + length (concat (map (\<lambda>(t, q). sent t @ [of_int q :: byte]) reqs))" "length acc + length reqs \<le> maxcount"
  shows "subscribe_loop maxcount mem p fin acc rc = Inr (acc @ map (\<lambda>(t, q). (received (contents t), q)) reqs, 1)"
  using assms
proof (induction reqs arbitrary: p acc)
  case Nil
  then show ?case by (subst subscribe_loop.simps) simp
next
  case (Cons r reqs)
  obtain t q where r: "r = (t, q)" by (cases r)
  let ?more = "concat (map (\<lambda>(t, q). sent t @ [of_int q]) reqs)"
  have ok: "plain t" "0 \<le> q" "q < 128" using Cons.prems(1) r by auto
  have d: "drop p mem = sent t @ of_int q # ?more @ rest" using Cons.prems(2) r by simp
  have fin: "fin = p + length (sent t) + 1 + length ?more" using Cons.prems(3) r by simp
  then have "p + length (sent t) \<le> fin" by simp
  note s = read_sent [OF ok(1) d this]
  note c = readChar_drop [OF s(2)]
  have "subscribe_loop maxcount mem (p + length (sent t) + 1) fin (acc @ [(received (contents t), q)]) rc =
      Inr ((acc @ [(received (contents t), q)]) @ map (\<lambda>(t, q). (received (contents t), q)) reqs, 1)"
    using Cons.prems c fin by (intro Cons.IH) auto
  then show ?case
    using fin Cons.prems(4) s(1) c sint_small [OF ok(2,3)] by (subst subscribe_loop.simps) (simp add: r)
qed

lemma unsubscribe_loop_read:
  assumes "\<forall>t \<in> set ts. plain t" "drop p mem = concat (map sent ts) @ rest"
    and "fin = p + length (concat (map sent ts))" "length acc + length ts \<le> maxcount"
  shows "unsubscribe_loop maxcount mem p fin acc rc = Inr (acc @ map (\<lambda>t. received (contents t)) ts, 1)"
  using assms
proof (induction ts arbitrary: p acc)
  case Nil
  then show ?case by (subst unsubscribe_loop.simps) simp
next
  case (Cons t ts)
  have ok: "plain t" using Cons.prems(1) by simp
  have d: "drop p mem = sent t @ concat (map sent ts) @ rest" using Cons.prems(2) by simp
  have fin: "fin = p + length (sent t) + length (concat (map sent ts))" using Cons.prems(3) by simp
  then have "p + length (sent t) \<le> fin" by simp
  note s = read_sent [OF ok d this]
  have l: "2 \<le> length (sent t)" by (simp add: sent_def)
  have "unsubscribe_loop maxcount mem (p + length (sent t)) fin (acc @ [received (contents t)]) rc =
      Inr ((acc @ [received (contents t)]) @ map (\<lambda>t. received (contents t)) ts, 1)"
    using Cons.prems s(2) fin by (intro Cons.IH) auto
  moreover have "p < fin" "\<not> p + length (sent t) \<le> p" using fin l by auto
  ultimately show ?case
    using Cons.prems(4) s(1) by (subst unsubscribe_loop.simps) simp
qed

text \<open>The fields that both packets start with.\<close>

lemma packet_start:
  fixes dup :: nat and body rest :: "byte list"
  assumes "t < 16" "n < 268435456" "packetid < 65536" "length body + 2 = n"
  defines "bs \<equiv> header_byte t dup 1 0 # MQTTPacket_encode n @ writeInt packetid @ body"
  defines "p \<equiv> 1 + length (MQTTPacket_encode n)"
  shows "readChar (bs @ rest) 0 = Inr (header_byte t dup 1 0, 1)"
    "MQTTPacket_decodeBuf (drop 1 (bs @ rest)) = Inr (length (MQTTPacket_encode n), n)"
    "readInt (bs @ rest) p = Inr (packetid, p + 2)" "drop (p + 2) (bs @ rest) = body @ rest" "p + n = p + 2 + length body"
    "MQTTPacket_len n \<le> buflen \<Longrightarrow> stored buflen bs = Inr (bs, int (length bs))"
proof -
  have m0: "drop 0 (bs @ rest) = header_byte t dup 1 0 # MQTTPacket_encode n @ writeInt packetid @ body @ rest"
    by (simp add: bs_def)
  note c = readChar_drop [OF m0]
  then show "readChar (bs @ rest) 0 = Inr (header_byte t dup 1 0, 1)" by simp
  have m1: "drop 1 (bs @ rest) = MQTTPacket_encode n @ writeInt packetid @ body @ rest" using c by simp
  show "MQTTPacket_decodeBuf (drop 1 (bs @ rest)) = Inr (length (MQTTPacket_encode n), n)"
    unfolding m1 by (rule decode_encode [OF assms(2)])
  note i = readInt_drop [OF assms(3) drop_next [OF m1, folded p_def]]
  then show "readInt (bs @ rest) p = Inr (packetid, p + 2)" "drop (p + 2) (bs @ rest) = body @ rest" by simp_all
  show "p + n = p + 2 + length body" using assms(4) by simp
  show "MQTTPacket_len n \<le> buflen \<Longrightarrow> stored buflen bs = Inr (bs, int (length bs))"
    unfolding bs_def by (rule stored_packet [OF assms(2)]) (simp_all add: assms(4) [symmetric])
qed

lemma packet_len_mono: "n \<le> m \<Longrightarrow> MQTTPacket_len n \<le> MQTTPacket_len m"
  by (auto simp: MQTTPacket_len_def Let_def)

text \<open>
  Subscribe and unsubscribe packets reach the server as the client made them: identifier, topic filters in their
  order and the requested qualities of service, as long as the server's arrays have room.
\<close>

lemma mqtt_subscribe_roundtrip:
  assumes "\<forall>(t, q) \<in> set reqs. plain t \<and> 0 \<le> q \<and> q < 128" "length reqs \<le> maxcount" "packetid < 65536" "dup < 2"
    and "MQTTSerialize_subscribeLength (map fst reqs) < 268435456"
    and "MQTTPacket_len (MQTTSerialize_subscribeLength (map fst reqs)) \<le> buflen"
  shows "(\<exists>bs. MQTTSerialize_subscribe buflen dup packetid reqs = Inr (bs, int (length bs)) \<and>
      MQTTDeserialize_subscribe maxcount (bs @ rest) =
        Inr (Some (dup, packetid, map (\<lambda>(t, q). (received (contents t), q)) reqs), 1)) \<and>
    (\<exists>bs. MQTTSerialize_unsubscribe buflen dup packetid (map fst reqs) = Inr (bs, int (length bs)) \<and>
      MQTTDeserialize_unsubscribe maxcount (bs @ rest) =
        Inr (Some (dup, packetid, map (\<lambda>(t, q). received (contents t)) reqs), 1))"
proof
  let ?n = "MQTTSerialize_subscribeLength (map fst reqs)"
  let ?body = "concat (map (\<lambda>(t, q). sent t @ [of_int q]) reqs) :: byte list"
  have w: "concat (map (\<lambda>(t, q). writeMQTTString t @ [of_int q]) reqs) = ?body" "length ?body + 2 = ?n"
    using assms(1) by (induction reqs) (auto simp: sent_string sent_length MQTTSerialize_subscribeLength_def)
  have t: "SUBSCRIBE < (16 :: nat)" by simp
  note s = packet_start(1-4) [OF t assms(5,3) w(2), of dup rest]
  note s5 = packet_start(5) [OF t assms(5,3) w(2)] and s6 = packet_start(6) [OF t assms(5,3) w(2) assms(6)]
  have "length [] + length reqs \<le> maxcount" using assms(2) by simp
  note l = subscribe_loop_read [OF assms(1) s(4) s5 this]
  have h: "header_type (header_byte SUBSCRIBE dup 1 0) = SUBSCRIBE" "header_dup (header_byte SUBSCRIBE dup 1 0) = dup"
    using header_members [of SUBSCRIBE dup 1 0] assms(4) by simp_all
  show "\<exists>bs. MQTTSerialize_subscribe buflen dup packetid reqs = Inr (bs, int (length bs)) \<and>
      MQTTDeserialize_subscribe maxcount (bs @ rest) =
        Inr (Some (dup, packetid, map (\<lambda>(t, q). (received (contents t), q)) reqs), 1)"
    using s6 [of dup] assms(6) l s h w(1)
    by (simp add: MQTTSerialize_subscribe_def MQTTDeserialize_subscribe_def Let_def not_less)
next
  let ?ts = "map fst reqs" and ?n = "MQTTSerialize_unsubscribeLength (map fst reqs)"
  let ?body = "concat (map sent (map fst reqs))"
  have ok: "\<forall>t \<in> set ?ts. plain t" using assms(1) by auto
  then have w: "concat (map writeMQTTString ?ts) = ?body" "length ?body + 2 = ?n"
    by (induction reqs) (auto simp: sent_string sent_length MQTTSerialize_unsubscribeLength_def)
  have "?n \<le> MQTTSerialize_subscribeLength ?ts"
    by (simp add: MQTTSerialize_unsubscribeLength_def MQTTSerialize_subscribeLength_def sum_list_mono)
  then have n: "?n < 268435456" "MQTTPacket_len ?n \<le> buflen"
    using assms(5,6) packet_len_mono [of ?n "MQTTSerialize_subscribeLength ?ts"] by simp_all
  have t: "UNSUBSCRIBE < (16 :: nat)" by simp
  note s = packet_start(1-4) [OF t n(1) assms(3) w(2), of dup rest]
  note s5 = packet_start(5) [OF t n(1) assms(3) w(2)] and s6 = packet_start(6) [OF t n(1) assms(3) w(2) n(2)]
  have "length [] + length ?ts \<le> maxcount" using assms(2) by simp
  note l = unsubscribe_loop_read [OF ok s(4) s5 this]
  have h: "header_type (header_byte UNSUBSCRIBE dup 1 0) = UNSUBSCRIBE" "header_dup (header_byte UNSUBSCRIBE dup 1 0) = dup"
    using header_members [of UNSUBSCRIBE dup 1 0] assms(4) by simp_all
  show "\<exists>bs. MQTTSerialize_unsubscribe buflen dup packetid (map fst reqs) = Inr (bs, int (length bs)) \<and>
      MQTTDeserialize_unsubscribe maxcount (bs @ rest) =
        Inr (Some (dup, packetid, map (\<lambda>(t, q). received (contents t)) reqs), 1)"
    using s6 [of dup] n(2) l s h w(1)
    by (simp add: MQTTSerialize_unsubscribe_def MQTTDeserialize_unsubscribe_def Let_def not_less comp_def case_prod_beta)
qed

definition two_topics :: "(mqtt_string \<times> int) list" where
  "two_topics = [(received [0x61, 0x2F, 0x23], 1), (received [0x62], 0)]"

lemma mqtt_subscribe_roundtrip_witness:
  "(\<exists>bs. MQTTSerialize_subscribe 64 0 7 two_topics = Inr (bs, int (length bs)) \<and>
      MQTTDeserialize_subscribe 2 (bs @ []) =
        Inr (Some (0, 7, map (\<lambda>(t, q). (received (contents t), q)) two_topics), 1)) \<and>
    (\<exists>bs. MQTTSerialize_unsubscribe 64 0 7 (map fst two_topics) = Inr (bs, int (length bs)) \<and>
      MQTTDeserialize_unsubscribe 2 (bs @ []) =
        Inr (Some (0, 7, map (\<lambda>(t, q). received (contents t)) two_topics), 1))"
  by (rule mqtt_subscribe_roundtrip)
    (simp_all add: two_topics_def received_def plain_def contents_def MQTTSerialize_subscribeLength_def MQTTstrlen_def MQTTPacket_len_def)

end
