(* ===== verification/Uri.thy ===== *)
theory Uri
  imports HttpRequest
begin

text \<open>
  The URI parser and codec of \<^verbatim>\<open>core/deps/networking/src/url\<close>: \<^verbatim>\<open>uri-parser.c\<close>, \<^verbatim>\<open>uri-query.c\<close> and
  \<^verbatim>\<open>url-codec.c\<close>.  \<^verbatim>\<open>uri_parse\<close> and \<^verbatim>\<open>uri_query\<close> are given a C string and its \<^verbatim>\<open>strlen\<close>, as all callers do.
\<close>

section \<open>\<^verbatim>\<open>uri-parser.c\<close>\<close>

record uri =
  ur_scheme :: "string option"
  ur_userinfo :: "string option"
  ur_host :: "string option"
  ur_port :: int
  ur_path :: string
  ur_query :: "string option"
  ur_fragment :: "string option"

definition s_characters :: "32 word list" where
  "s_characters = [0x00, 0xAFFFFFFA, 0xAFFFFFFF, 0x47FFFFFE, 0x00, 0x00, 0x00, 0x00]"

definition uri_characters_check :: "char \<Rightarrow> bool" where
  "uri_characters_check c = bit (s_characters ! (ord c div 32)) (ord c mod 32)"

record uri_component =
  has_scheme :: bool
  has_userinfo :: bool
  has_host :: bool
  has_port :: bool

datatype uri_state = URI_PARSE_START | URI_PARSE_SCHEME | URI_PARSE_AUTHORITY | URI_PARSE_HOST | URI_PARSE_PORT | URI_PARSE_HOST_IPV6

text \<open>The loop of \<^verbatim>\<open>uri_check\<close> from a state on; \<open>None\<close> is the return of -1.\<close>

function uri_check_loop :: "uri_state \<Rightarrow> string \<Rightarrow> uri_component \<Rightarrow> uri_component option exec" where
  "uri_check_loop st str items =
     (case str of
        [] \<Rightarrow> Inr (Some items)
      | c # cs \<Rightarrow>
          if \<not> uri_characters_check c then Inr None
          else
            case st of
              URI_PARSE_START \<Rightarrow>
                if c = CHR ''/'' then Inr (Some items)
                else if c = CHR ''['' then uri_check_loop URI_PARSE_HOST_IPV6 cs (items\<lparr>has_host := True\<rparr>)
                else uri_check_loop URI_PARSE_SCHEME str (items\<lparr>has_host := True\<rparr>)
            | URI_PARSE_SCHEME \<Rightarrow>
                if c = CHR '':'' then uri_check_loop URI_PARSE_AUTHORITY cs items
                else if c = CHR ''@'' then uri_check_loop URI_PARSE_HOST cs (items\<lparr>has_userinfo := True\<rparr>)
                else if c \<in> set ''/?#'' then Inr (Some items)
                else uri_check_loop URI_PARSE_SCHEME cs items
            | URI_PARSE_AUTHORITY \<Rightarrow>
                if c = CHR ''/'' then
                  if cs \<noteq> [] \<and> hd cs = CHR ''/'' then uri_check_loop URI_PARSE_HOST (tl cs) (items\<lparr>has_scheme := True\<rparr>)
                  else Inr (Some (items\<lparr>has_port := True\<rparr>))
                else uri_check_loop URI_PARSE_PORT cs (items\<lparr>has_port := True\<rparr>)
            | URI_PARSE_HOST \<Rightarrow>
                and_then (c_assert (c \<noteq> CHR '']'')) (\<lambda>_.
                if c = CHR ''@'' then uri_check_loop URI_PARSE_HOST cs (items\<lparr>has_userinfo := True\<rparr>)
                else if c = CHR ''['' then uri_check_loop URI_PARSE_HOST_IPV6 cs items
                else if c = CHR '':'' then uri_check_loop URI_PARSE_PORT cs (items\<lparr>has_port := True\<rparr>)
                else if c \<in> set ''/?#'' then Inr (Some items)
                else uri_check_loop URI_PARSE_HOST cs items)
            | URI_PARSE_PORT \<Rightarrow>
                if c = CHR ''@'' then uri_check_loop URI_PARSE_HOST cs (items\<lparr>has_port := False, has_userinfo := True\<rparr>)
                else if c \<in> set ''[]:'' then Inr None
                else if c \<in> set ''/?#'' then Inr (Some (items\<lparr>has_port := True\<rparr>))
                else uri_check_loop URI_PARSE_PORT cs items
            | URI_PARSE_HOST_IPV6 \<Rightarrow>
                if c = CHR '']'' then uri_check_loop URI_PARSE_HOST cs items
                else if c \<in> set ''@[/?#'' then Inr None
                else uri_check_loop URI_PARSE_HOST_IPV6 cs items)"
  by pat_completeness auto
termination
  by (relation "measure (\<lambda>(st, str, items). 2 * length str + (if st = URI_PARSE_START then 1 else 0))") auto

declare uri_check_loop.simps [simp del]

definition uri_check :: "string \<Rightarrow> uri_component option exec" where
  "uri_check str = uri_check_loop URI_PARSE_START str \<lparr>has_scheme = False, has_userinfo = False, has_host = False, has_port = False\<rparr>"

text \<open>The end of host and port must be followed by one of these.\<close>

definition at_stop :: "string \<Rightarrow> bool" where
  "at_stop str \<longleftrightarrow> str = [] \<or> hd str \<in> set '':/?#''"

text \<open>\<^verbatim>\<open>uri->port * 10 + (*str - '0')\<close> in an \<^verbatim>\<open>int\<close>.\<close>

definition port_digit :: "int \<Rightarrow> char \<Rightarrow> int" where
  "port_digit port c = sint (of_int (port * 10 + (int (ord c) - 48)) :: 32 word)"

definition uri_host_part :: "string \<Rightarrow> (string \<times> string \<times> bool) exec" where
  "uri_host_part str =
     and_then (c_assert (str \<noteq> [])) (\<lambda>_.
     if hd str = CHR ''['' then
       let host = takeWhile (\<lambda>c. c \<noteq> CHR '']'') (tl str); str = drop 1 (dropWhile (\<lambda>c. c \<noteq> CHR '']'') (tl str))
       in Inr (host, str, at_stop str)
     else Inr (takeWhile (\<lambda>c. c \<notin> set '':/?#'') str, dropWhile (\<lambda>c. c \<notin> set '':/?#'') str, True))"

definition uri_tail :: "string \<Rightarrow> uri \<Rightarrow> uri" where
  "uri_tail str u =
     (let (path, str) =
        (if str \<noteq> [] \<and> hd str = CHR ''/''
         then (takeWhile (\<lambda>c. c \<notin> set ''?#'') str, dropWhile (\<lambda>c. c \<notin> set ''?#'') str) else (''/'', str));
          (query, str) =
        (if str \<noteq> [] \<and> hd str = CHR ''?''
         then (Some (takeWhile (\<lambda>c. c \<noteq> CHR ''#'') (tl str)), dropWhile (\<lambda>c. c \<noteq> CHR ''#'') (tl str)) else (None, str));
          fragment = (if str \<noteq> [] \<and> hd str = CHR ''#'' then Some (tl str) else None)
      in u\<lparr>ur_path := path, ur_query := query, ur_fragment := fragment\<rparr>)"

definition uri_parse_complex :: "string \<Rightarrow> uri option exec" where
  "uri_parse_complex str =
     and_then (uri_check str) (\<lambda>r. case r of None \<Rightarrow> Inr None
     | Some items \<Rightarrow>
         let (scheme, str) =
           (if has_scheme items
            then (Some (takeWhile (\<lambda>c. c \<noteq> CHR '':'') str), drop 3 (dropWhile (\<lambda>c. c \<noteq> CHR '':'') str)) else (None, str));
             (userinfo, str) =
           (if has_userinfo items
            then (Some (takeWhile (\<lambda>c. c \<noteq> CHR ''@'') str), drop 1 (dropWhile (\<lambda>c. c \<noteq> CHR ''@'') str)) else (None, str))
         in
         and_then (if has_host items
                   then and_then (uri_host_part str) (\<lambda>(host, str, ok). Inr (Some host, str, ok))
                   else Inr (None, str, True)) (\<lambda>(host, str, ok).
         if \<not> ok then Inr None
         else
           let (port, str) =
             (if has_port items
              then (foldl port_digit 0 (takeWhile is_digit (drop 1 str)), dropWhile is_digit (drop 1 str)) else (0, str))
           in if has_port items \<and> \<not> at_stop str then Inr None
              else
                Inr (Some (uri_tail str
                  \<lparr>ur_scheme = scheme, ur_userinfo = userinfo, ur_host = host, ur_port = port, ur_path = [], ur_query = None,
                   ur_fragment = None\<rparr>))))"

definition uri_parse :: "(nat \<Rightarrow> bool) \<Rightarrow> string \<Rightarrow> uri option exec" where
  "uri_parse alloc str =
     (if str = [] then Inr None
      else if \<not> alloc (56 + length str + 5) then Inr None
      else uri_parse_complex str)"

text \<open>\<^verbatim>\<open>snprintf(buf, len, ...)\<close> of a text behind \<open>buf\<close>: what is stored so far, and the length the text needs.\<close>

definition uri_path :: "uri \<Rightarrow> int \<Rightarrow> string \<times> int" where
  "uri_path u len =
     (let cut = (\<lambda>s. take (nat (len - 1)) s);
          s = ur_path u
      in if int (length s) \<ge> len then (cut s, -1)
         else
           let s' = s @ (case ur_query u of Some q \<Rightarrow> if q \<noteq> [] then ''?'' @ q else [] | None \<Rightarrow> [])
           in if int (length s') \<ge> len then (cut s', -1)
              else
                let s'' = s' @ (case ur_fragment u of Some f \<Rightarrow> if f \<noteq> [] then ''#'' @ f else [] | None \<Rightarrow> [])
                in if int (length s'') \<ge> len then (cut s'', -1) else (s'', int (length s'')))"

definition uri_userinfo :: "uri \<Rightarrow> nat \<Rightarrow> nat \<Rightarrow> string \<times> string" where
  "uri_userinfo u n1 n2 =
     (case ur_userinfo u of
        None \<Rightarrow> ([], [])
      | Some i \<Rightarrow>
          if CHR '':'' \<in> set i
          then (take (n1 - 1) (takeWhile (\<lambda>c. c \<noteq> CHR '':'') i), take (n2 - 1) (drop 1 (dropWhile (\<lambda>c. c \<noteq> CHR '':'') i)))
          else (take (n1 - 1) i, []))"

section \<open>\<^verbatim>\<open>uri-query.c\<close>\<close>

lemma find_suffix_tl: "find_suffix P s = Some t \<Longrightarrow> length (tl t) < length s"
  by (induction s) (auto split: if_splits)

text \<open>
  Room for one more entry: the first 64 stand in a local array, the others in an array of \<open>cap\<close> entries that is
  extended by 64.  \<open>None\<close> is the failed \<^verbatim>\<open>realloc\<close>.
\<close>

definition query_room :: "(nat \<Rightarrow> bool) \<Rightarrow> nat \<Rightarrow> nat \<Rightarrow> nat option" where
  "query_room alloc n cap =
     (if n < 64 then Some cap
      else if n \<ge> cap then if alloc (32 * (n + 64)) then Some (n + 64) else None
      else Some cap)"

text \<open>The entries read so far, names and values, if any, are \<open>acc\<close>; an error is -1 for a missing name or \<^verbatim>\<open>-ENOMEM\<close>.\<close>

function uri_query_loop ::
    "(nat \<Rightarrow> bool) \<Rightarrow> string \<Rightarrow> nat \<Rightarrow> (string \<times> string option) list \<Rightarrow> int + (string \<times> string option) list" where
  "uri_query_loop alloc query cap acc =
     (case strpbrk query ''&='' of
        None \<Rightarrow> Inr acc
      | Some p \<Rightarrow>
          if p = query then if hd p = CHR ''&'' then uri_query_loop alloc (tl p) cap acc else Inl (-1)
          else
            case query_room alloc (length acc) cap of
              None \<Rightarrow> Inl (-12)
            | Some cap \<Rightarrow>
                let name = take (length query - length p) query in
                if hd p = CHR ''='' then
                  case strchr (tl p) CHR ''&'' of
                    None \<Rightarrow> Inr (acc @ [(name, Some (tl p))])
                  | Some q \<Rightarrow>
                      uri_query_loop alloc (tl q) cap (acc @ [(name, Some (take (length (tl p) - length q) (tl p)))])
                else uri_query_loop alloc (tl p) cap (acc @ [(name, None)]))"
  by pat_completeness auto
termination
proof (relation "measure (\<lambda>(alloc, query, cap, acc). length query)")
  have tl_less: "length (tl p) < length query" if "strpbrk query w = Some p" for query w p :: string
    using that unfolding strpbrk_def by (rule find_suffix_tl)
  have le: "length q \<le> length s" if "strchr s c = Some q" for s c q
    using that find_suffix_length [of _ s q] by (auto simp: strchr_def)
  show "wf (measure (\<lambda>(alloc, query, cap, acc). length (query :: string)))" by simp
  show "((alloc, tl p, cap, acc), alloc, query, cap, acc) \<in> measure (\<lambda>(alloc, query, cap, acc). length query)"
    if "strpbrk query ''&='' = Some p" for alloc query cap p and acc :: "(string \<times> string option) list"
    using tl_less [OF that] by simp
  show "((alloc, tl q, cap', acc @ [(name, Some (take (length (tl p) - length q) (tl p)))]), alloc, query, cap, acc)
      \<in> measure (\<lambda>(alloc, query, cap, acc). length query)"
    if "strpbrk query ''&='' = Some p" "strchr (tl p) CHR ''&'' = Some q"
    for alloc query cap cap' p q name and acc :: "(string \<times> string option) list"
    using tl_less [OF that(1)] le [OF that(2)] by (simp add: order_le_less_trans)
  show "((alloc, tl p, cap', acc @ [(name, None)]), alloc, query, cap, acc)
      \<in> measure (\<lambda>(alloc, query, cap, acc). length query)"
    if "strpbrk query ''&='' = Some p" for alloc query cap cap' p name and acc :: "(string \<times> string option) list"
    using tl_less [OF that] by simp
qed

declare uri_query_loop.simps [simp del]

definition uri_query :: "(nat \<Rightarrow> bool) \<Rightarrow> string \<Rightarrow> int + (string \<times> string option) list" where
  "uri_query alloc query =
     (case uri_query_loop alloc query 0 [] of
        Inl e \<Rightarrow> Inl e
      | Inr items \<Rightarrow> if items \<noteq> [] \<and> length items \<le> 64 \<and> \<not> alloc (32 * length items) then Inl (-12) else Inr items)"

section \<open>\<^verbatim>\<open>url-codec.c\<close>\<close>

definition s_encode :: string where
  "s_encode = ''0123456789ABCDEF''"

definition char_isalnum :: "char \<Rightarrow> bool" where
  "char_isalnum c \<longleftrightarrow> is_digit c \<or> (97 \<le> ord c \<and> ord c \<le> 122) \<or> (65 \<le> ord c \<and> ord c \<le> 90)"

definition char_ishex :: "char \<Rightarrow> bool" where
  "char_ishex c \<longleftrightarrow> is_digit c \<or> (97 \<le> ord c \<and> ord c \<le> 102) \<or> (65 \<le> ord c \<and> ord c \<le> 70)"

definition HEX :: "char \<Rightarrow> nat" where
  "HEX c = (if is_digit c then ord c - 48 else ord (to_lower c) - 97 + 10)"

text \<open>
  The characters stored in \<open>tgt\<close> bytes, and the result.  A terminator follows when there is room.  Both functions
  read up to the terminator of their source and at most \<open>srcBytes\<close> characters, if that is not -1.
\<close>

definition url_source :: "string \<Rightarrow> int \<Rightarrow> string" where
  "url_source source srcBytes = (if srcBytes = -1 then source else take (nat srcBytes) source)"

fun url_encode_loop :: "nat \<Rightarrow> string \<Rightarrow> string \<Rightarrow> string \<times> int" where
  "url_encode_loop tgt [] out = (out, int (length out))"
| "url_encode_loop tgt (c # cs) out =
     (if length out \<ge> tgt then (out, int (length out))
      else if char_isalnum c \<or> c \<in> set ''-_.~'' then url_encode_loop tgt cs (out @ [c])
      else if c = CHR '' '' then url_encode_loop tgt cs (out @ ''+'')
      else if length out + 2 \<ge> tgt then (out, -1)
      else url_encode_loop tgt cs (out @ [CHR ''%'', s_encode ! (ord c div 16), s_encode ! (ord c mod 16)]))"

definition url_encode :: "string \<Rightarrow> int \<Rightarrow> nat \<Rightarrow> string \<times> int" where
  "url_encode source srcBytes tgtBytes = url_encode_loop tgtBytes (url_source source srcBytes) []"

fun url_decode_loop :: "nat \<Rightarrow> string \<Rightarrow> string \<Rightarrow> string \<times> int" where
  "url_decode_loop tgt [] out = (out, int (length out))"
| "url_decode_loop tgt (c # cs) out =
     (if length out \<ge> tgt then (out, int (length out))
      else if c = CHR ''+'' then url_decode_loop tgt cs (out @ '' '')
      else if c = CHR ''%'' then
        if deref cs = CHR ''%'' then url_decode_loop tgt (drop 1 cs) (out @ ''%'')
        else if \<not> char_ishex (deref cs) \<or> \<not> char_ishex (deref (drop 1 cs)) then (out, -1)
        else url_decode_loop tgt (drop 2 cs) (out @ [char_of (16 * HEX (deref cs) + HEX (deref (drop 1 cs)))])
      else url_decode_loop tgt cs (out @ [c]))"

definition url_decode :: "string \<Rightarrow> int \<Rightarrow> nat \<Rightarrow> string \<times> int" where
  "url_decode source srcBytes tgtBytes = url_decode_loop tgtBytes (url_source source srcBytes) []"

end
