(* ===== verification/UriProps.thy ===== *)
theory UriProps
  imports Uri
begin

text \<open>
  The properties of the URI parser and of the query codec: a URI that is printed from its components is parsed into
  them, the parser stays inside the block it allocates, and a form of names and values survives encoding,
  splitting and decoding.
\<close>

section \<open>Scanning a printed URI\<close>

text \<open>The text of a URI.  A host with a colon is an IPv6 address and is printed in brackets.\<close>

definition host_text :: "string \<Rightarrow> string" where
  "host_text h = (if CHR '':'' \<in> set h then ''['' @ h @ '']'' else h)"

definition authority_text :: "uri \<Rightarrow> string" where
  "authority_text u =
     (case ur_userinfo u of None \<Rightarrow> [] | Some i \<Rightarrow> i @ ''@'') @ (case ur_host u of None \<Rightarrow> [] | Some h \<Rightarrow> host_text h) @
     (if ur_port u = 0 then [] else '':'' @ show_int (ur_port u))"

definition path_text :: "uri \<Rightarrow> string" where
  "path_text u = ur_path u @ (case ur_query u of None \<Rightarrow> [] | Some q \<Rightarrow> ''?'' @ q) @
     (case ur_fragment u of None \<Rightarrow> [] | Some f \<Rightarrow> ''#'' @ f)"

definition uri_text :: "uri \<Rightarrow> string" where
  "uri_text u = (case ur_scheme u of None \<Rightarrow> [] | Some s \<Rightarrow> s @ ''://'') @ authority_text u @ path_text u"

definition word_ok :: "string \<Rightarrow> bool" where
  "word_ok s \<longleftrightarrow> (\<forall>c \<in> set s. uri_characters_check c \<and> c \<notin> set ''@/?#[]'')"

text \<open>At most one colon, which must not be the last character when no scheme precedes it.\<close>

definition userinfo_ok :: "bool \<Rightarrow> string \<Rightarrow> bool" where
  "userinfo_ok scheme i \<longleftrightarrow> word_ok i \<and> distinct (filter (\<lambda>c. c = CHR '':'') i) \<and> (scheme \<or> i = [] \<or> last i \<noteq> CHR '':'')"

definition uri_ok :: "uri \<Rightarrow> bool" where
  "uri_ok u \<longleftrightarrow>
     (case ur_scheme u of None \<Rightarrow> True | Some s \<Rightarrow> word_ok s \<and> CHR '':'' \<notin> set s) \<and>
     (case ur_userinfo u of None \<Rightarrow> True | Some i \<Rightarrow> userinfo_ok (ur_scheme u \<noteq> None) i) \<and>
     (case ur_host u of None \<Rightarrow> ur_scheme u = None \<and> ur_userinfo u = None \<and> ur_port u = 0 | Some h \<Rightarrow> word_ok h \<and> h \<noteq> []) \<and>
     0 \<le> ur_port u \<and> ur_port u < 2 ^ 31 \<and>
     ur_path u \<noteq> [] \<and> hd (ur_path u) = CHR ''/'' \<and> CHR ''?'' \<notin> set (ur_path u) \<and> CHR ''#'' \<notin> set (ur_path u) \<and>
     (case ur_query u of None \<Rightarrow> True | Some q \<Rightarrow> CHR ''#'' \<notin> set q)"

lemma uri_check_loop_Nil: "uri_check_loop st [] items = Inr (Some items)"
  by (subst uri_check_loop.simps) simp

lemma uri_check_loop_skip:
  "uri_characters_check c \<Longrightarrow> c \<notin> set '':@/?#'' \<Longrightarrow> uri_check_loop URI_PARSE_SCHEME (c # s) it = uri_check_loop URI_PARSE_SCHEME s it"
  "uri_characters_check c \<Longrightarrow> c \<notin> set '']@[:/?#'' \<Longrightarrow> uri_check_loop URI_PARSE_HOST (c # s) it = uri_check_loop URI_PARSE_HOST s it"
  "uri_characters_check c \<Longrightarrow> c \<notin> set ''@[]:/?#'' \<Longrightarrow> uri_check_loop URI_PARSE_PORT (c # s) it = uri_check_loop URI_PARSE_PORT s it"
  "uri_characters_check c \<Longrightarrow> c \<notin> set '']@[/?#'' \<Longrightarrow> uri_check_loop URI_PARSE_HOST_IPV6 (c # s) it = uri_check_loop URI_PARSE_HOST_IPV6 s it"
  by (subst uri_check_loop.simps, simp)+

lemma word_ok_simps [simp]:
  "word_ok (a @ b) \<longleftrightarrow> word_ok a \<and> word_ok b" "word_ok (c # a) \<longleftrightarrow> uri_characters_check c \<and> c \<notin> set ''@/?#[]'' \<and> word_ok a"
  "word_ok []"
  by (auto simp: word_ok_def)

lemma check_word:
  assumes "word_ok w" "CHR '':'' \<notin> set w"
  shows "uri_check_loop URI_PARSE_SCHEME (w @ t) it = uri_check_loop URI_PARSE_SCHEME t it"
    and "uri_check_loop URI_PARSE_HOST (w @ t) it = uri_check_loop URI_PARSE_HOST t it"
    and "uri_check_loop URI_PARSE_PORT (w @ t) it = uri_check_loop URI_PARSE_PORT t it"
proof -
  have "uri_check_loop URI_PARSE_SCHEME (w @ t) it = uri_check_loop URI_PARSE_SCHEME t it \<and>
      uri_check_loop URI_PARSE_HOST (w @ t) it = uri_check_loop URI_PARSE_HOST t it \<and>
      uri_check_loop URI_PARSE_PORT (w @ t) it = uri_check_loop URI_PARSE_PORT t it"
    using assms
  proof (induction w)
    case (Cons c w)
    have c: "uri_characters_check c" "c \<notin> set '':@/?#''" "c \<notin> set '']@[:/?#''" "c \<notin> set ''@[]:/?#''"
      using Cons.prems not_sym [of "CHR '':''" c] by simp_all
    show ?case
      using Cons by (simp add: uri_check_loop_skip(1) [OF c(1,2)] uri_check_loop_skip(2) [OF c(1,3)] uri_check_loop_skip(3) [OF c(1,4)])
  qed simp
  then show "uri_check_loop URI_PARSE_SCHEME (w @ t) it = uri_check_loop URI_PARSE_SCHEME t it"
    and "uri_check_loop URI_PARSE_HOST (w @ t) it = uri_check_loop URI_PARSE_HOST t it"
    and "uri_check_loop URI_PARSE_PORT (w @ t) it = uri_check_loop URI_PARSE_PORT t it" by simp_all
qed

lemma check_ipv6: "word_ok w \<Longrightarrow> uri_check_loop URI_PARSE_HOST_IPV6 (w @ t) it = uri_check_loop URI_PARSE_HOST_IPV6 t it"
  by (induction w) (auto simp: word_ok_def uri_check_loop_skip)

lemma marks_valid:
  "uri_characters_check CHR '':''" "uri_characters_check CHR ''/''" "uri_characters_check CHR ''@''"
  "uri_characters_check CHR ''[''" "uri_characters_check CHR '']''"
  by (simp_all add: uri_characters_check_def s_characters_def)

lemma check_marks:
  "uri_check_loop URI_PARSE_START (CHR ''/'' # t) it = Inr (Some it)"
  "uri_check_loop URI_PARSE_START (CHR ''['' # t) it = uri_check_loop URI_PARSE_HOST_IPV6 t (it\<lparr>has_host := True\<rparr>)"
  "uri_check_loop URI_PARSE_SCHEME (CHR '':'' # t) it = uri_check_loop URI_PARSE_AUTHORITY t it"
  "uri_check_loop URI_PARSE_SCHEME (CHR ''@'' # t) it = uri_check_loop URI_PARSE_HOST t (it\<lparr>has_userinfo := True\<rparr>)"
  "uri_check_loop URI_PARSE_SCHEME (CHR ''/'' # t) it = Inr (Some it)"
  "uri_check_loop URI_PARSE_AUTHORITY (CHR ''/'' # CHR ''/'' # t) it = uri_check_loop URI_PARSE_HOST t (it\<lparr>has_scheme := True\<rparr>)"
  "uri_check_loop URI_PARSE_HOST (CHR ''@'' # t) it = uri_check_loop URI_PARSE_HOST t (it\<lparr>has_userinfo := True\<rparr>)"
  "uri_check_loop URI_PARSE_HOST (CHR ''['' # t) it = uri_check_loop URI_PARSE_HOST_IPV6 t it"
  "uri_check_loop URI_PARSE_HOST (CHR '':'' # t) it = uri_check_loop URI_PARSE_PORT t (it\<lparr>has_port := True\<rparr>)"
  "uri_check_loop URI_PARSE_HOST (CHR ''/'' # t) it = Inr (Some it)"
  "uri_check_loop URI_PARSE_PORT (CHR ''@'' # t) it = uri_check_loop URI_PARSE_HOST t (it\<lparr>has_port := False, has_userinfo := True\<rparr>)"
  "uri_check_loop URI_PARSE_PORT (CHR ''/'' # t) it = Inr (Some (it\<lparr>has_port := True\<rparr>))"
  "uri_check_loop URI_PARSE_HOST_IPV6 (CHR '']'' # t) it = uri_check_loop URI_PARSE_HOST t it"
  by (subst uri_check_loop.simps, simp add: marks_valid)+

lemma check_start:
  "uri_characters_check c \<Longrightarrow> c \<notin> set ''/['' \<Longrightarrow>
   uri_check_loop URI_PARSE_START (c # t) it = uri_check_loop URI_PARSE_SCHEME (c # t) (it\<lparr>has_host := True\<rparr>)"
  by (subst uri_check_loop.simps) simp

lemma check_authority:
  "uri_characters_check c \<Longrightarrow> c \<noteq> CHR ''/'' \<Longrightarrow>
   uri_check_loop URI_PARSE_AUTHORITY (c # t) it = uri_check_loop URI_PARSE_PORT t (it\<lparr>has_port := True\<rparr>)"
  by (subst uri_check_loop.simps) simp

lemma one_colon:
  assumes "distinct (filter (\<lambda>c. c = CHR '':'') i)" "CHR '':'' \<in> set i"
  obtains a b where "i = a @ CHR '':'' # b" "CHR '':'' \<notin> set a" "CHR '':'' \<notin> set b"
proof -
  obtain a b where i: "i = a @ CHR '':'' # b" "CHR '':'' \<notin> set a" using split_list_first [OF assms(2)] by blast
  have "CHR '':'' \<notin> set b" using assms(1) by (auto simp: i(1))
  then show thesis using that i by blast
qed

lemma no_port: "\<not> has_port it \<Longrightarrow> it\<lparr>has_port := False, has_userinfo := True\<rparr> = it\<lparr>has_userinfo := True\<rparr>"
  by (cases it) simp

lemma check_userinfo_host:
  assumes "userinfo_ok True i" "\<not> has_port it"
  shows "uri_check_loop URI_PARSE_HOST (i @ CHR ''@'' # t) it = uri_check_loop URI_PARSE_HOST t (it\<lparr>has_userinfo := True\<rparr>)"
proof (cases "CHR '':'' \<in> set i")
  case True
  then obtain a b where "i = a @ CHR '':'' # b" "CHR '':'' \<notin> set a" "CHR '':'' \<notin> set b"
    using one_colon assms(1) by (auto simp: userinfo_ok_def)
  then show ?thesis using assms by (simp add: userinfo_ok_def check_word check_marks no_port)
qed (use assms in \<open>simp add: userinfo_ok_def check_word check_marks\<close>)

lemma check_userinfo_scheme:
  assumes "userinfo_ok False i" "\<not> has_port it"
  shows "uri_check_loop URI_PARSE_SCHEME (i @ CHR ''@'' # t) it = uri_check_loop URI_PARSE_HOST t (it\<lparr>has_userinfo := True\<rparr>)"
proof (cases "CHR '':'' \<in> set i")
  case True
  then obtain a b where i: "i = a @ CHR '':'' # b" "CHR '':'' \<notin> set a" "CHR '':'' \<notin> set b"
    using one_colon assms(1) by (auto simp: userinfo_ok_def)
  then obtain c b' where b: "b = c # b'" using assms(1) by (cases b) (auto simp: userinfo_ok_def)
  show ?thesis using assms i by (simp add: b userinfo_ok_def check_word check_marks check_authority no_port)
qed (use assms in \<open>simp add: userinfo_ok_def check_word check_marks\<close>)

lemma digits_word:
  assumes "\<forall>c \<in> set ds. is_digit c"
  shows "word_ok ds" "CHR '':'' \<notin> set ds"
proof -
  have "uri_characters_check c \<and> c \<notin> set ''@/?#[]:''" if "is_digit c" for c
  proof -
    have "\<forall>n \<in> set [48..<58]. uri_characters_check (char_of n) \<and> char_of n \<notin> set ''@/?#[]:''" by code_simp
    moreover have "ord c \<in> set [48..<58]" using that unfolding is_digit_def set_upt atLeastLessThan_iff by linarith
    ultimately have "uri_characters_check (char_of (ord c)) \<and> char_of (ord c) \<notin> set ''@/?#[]:''" by blast
    then show ?thesis by simp
  qed
  then show "word_ok ds" "CHR '':'' \<notin> set ds" using assms by (auto simp: word_ok_def)
qed

definition port_text :: "int \<Rightarrow> string" where
  "port_text p = (if p = 0 then [] else '':'' @ show_int p)"

lemma show_port: "0 \<le> p \<Longrightarrow> show_int p = show_nat (nat p)"
  by (simp add: show_int_def)

lemma check_host_port:
  assumes "word_ok h" "0 \<le> p" "hd t = CHR ''/''" "t \<noteq> []" "\<not> has_port it"
  shows "uri_check_loop URI_PARSE_HOST (host_text h @ port_text p @ t) it = Inr (Some (it\<lparr>has_port := (p \<noteq> 0)\<rparr>))"
proof -
  obtain t' where t: "t = CHR ''/'' # t'" using assms by (cases t) auto
  have "uri_check_loop URI_PARSE_HOST (port_text p @ t) it = Inr (Some (it\<lparr>has_port := (p \<noteq> 0)\<rparr>))"
    using assms digits_word [OF show_nat_digits, of "nat p"]
    by (simp add: t port_text_def check_marks check_word show_port)
  then show ?thesis using assms by (simp add: host_text_def check_word check_marks check_ipv6)
qed

lemma check_bare_host_port:
  assumes "word_ok h" "h \<noteq> []" "0 \<le> p" "hd t = CHR ''/''" "t \<noteq> []" "\<not> has_port it"
  shows "uri_check_loop URI_PARSE_START (host_text h @ port_text p @ t) it =
    Inr (Some (it\<lparr>has_host := True, has_port := (p \<noteq> 0)\<rparr>))"
proof (cases "CHR '':'' \<in> set h")
  case True
  then show ?thesis using assms check_host_port [where h = "[]", simplified host_text_def, simplified]
    by (simp add: host_text_def check_marks check_ipv6)
next
  case False
  obtain c h' where h: "h = c # h'" using assms by (cases h) auto
  obtain t' where t: "t = CHR ''/'' # t'" using assms by (cases t) auto
  obtain d ds where d: "show_nat (nat p) = d # ds" by (cases "show_nat (nat p)") simp_all
  have w: "word_ok (d # ds)" "CHR '':'' \<notin> set (d # ds)"
    using digits_word [OF show_nat_digits, of "nat p"] by (simp_all add: d)
  have "uri_check_loop URI_PARSE_START (h @ port_text p @ t) it =
      uri_check_loop URI_PARSE_SCHEME (h @ port_text p @ t) (it\<lparr>has_host := True\<rparr>)"
    using assms(1) by (simp add: h check_start)
  also have "\<dots> = uri_check_loop URI_PARSE_SCHEME (port_text p @ t) (it\<lparr>has_host := True\<rparr>)"
    using assms(1) False by (simp add: check_word)
  also have "\<dots> = Inr (Some (it\<lparr>has_host := True, has_port := (p \<noteq> 0)\<rparr>))"
    using w assms by (simp add: t port_text_def show_port d check_marks check_authority check_word)
  finally show ?thesis using False by (simp add: host_text_def)
qed

lemma check_bare_userinfo:
  assumes "userinfo_ok False i" "\<not> has_port it"
  shows "uri_check_loop URI_PARSE_START (i @ CHR ''@'' # t) it =
    uri_check_loop URI_PARSE_HOST t (it\<lparr>has_host := True, has_userinfo := True\<rparr>)"
proof -
  have "uri_check_loop URI_PARSE_START (i @ CHR ''@'' # t) it =
      uri_check_loop URI_PARSE_SCHEME (i @ CHR ''@'' # t) (it\<lparr>has_host := True\<rparr>)"
    using assms(1) by (cases i) (auto simp: userinfo_ok_def check_start marks_valid)
  then show ?thesis using check_userinfo_scheme [OF assms(1), of "it\<lparr>has_host := True\<rparr>" t] assms(2) by simp
qed

lemma check_scheme:
  assumes "word_ok s" "CHR '':'' \<notin> set s"
  shows "uri_check_loop URI_PARSE_START (s @ ''://'' @ t) it =
    uri_check_loop URI_PARSE_HOST t (it\<lparr>has_host := True, has_scheme := True\<rparr>)"
proof -
  have "uri_check_loop URI_PARSE_START (s @ ''://'' @ t) it =
      uri_check_loop URI_PARSE_SCHEME (s @ ''://'' @ t) (it\<lparr>has_host := True\<rparr>)"
    using assms(1) by (cases s) (auto simp: check_start marks_valid)
  then show ?thesis using assms by (simp add: check_word check_marks)
qed

definition items_of :: "uri \<Rightarrow> uri_component" where
  "items_of u = \<lparr>has_scheme = (ur_scheme u \<noteq> None), has_userinfo = (ur_userinfo u \<noteq> None), has_host = (ur_host u \<noteq> None),
     has_port = (ur_port u \<noteq> 0)\<rparr>"

lemma path_text_slash: "uri_ok u \<Longrightarrow> path_text u \<noteq> [] \<and> hd (path_text u) = CHR ''/''"
  by (auto simp: uri_ok_def path_text_def)

lemma uri_check_text:
  assumes "uri_ok u"
  shows "uri_check (uri_text u) = Inr (Some (items_of u))"
proof -
  note slash = path_text_slash [OF assms]
  have a: "authority_text u = (case ur_userinfo u of None \<Rightarrow> [] | Some i \<Rightarrow> i @ ''@'') @
      (case ur_host u of None \<Rightarrow> [] | Some h \<Rightarrow> host_text h) @ port_text (ur_port u)"
    by (simp add: authority_text_def port_text_def)
  show ?thesis
  proof (cases "ur_host u")
    case None
    then have n: "ur_scheme u = None" "ur_userinfo u = None" "ur_port u = 0" using assms by (auto simp: uri_ok_def)
    obtain t where "path_text u = CHR ''/'' # t" using slash by (cases "path_text u") auto
    then show ?thesis using None n by (simp add: uri_check_def uri_text_def a port_text_def check_marks items_of_def)
  next
    case (Some h)
    have ok: "word_ok h" "h \<noteq> []" "0 \<le> ur_port u" using assms Some by (auto simp: uri_ok_def)
    show ?thesis
    proof (cases "ur_scheme u")
      case None
      then show ?thesis
        using ok slash Some assms
        by (cases "ur_userinfo u")
          (simp_all add: uri_check_def uri_text_def a items_of_def check_bare_host_port check_bare_userinfo check_host_port uri_ok_def)
    next
      case (Some s)
      then have s: "word_ok s" "CHR '':'' \<notin> set s" using assms by (auto simp: uri_ok_def)
      note c = check_scheme [OF s, simplified]
      show ?thesis
        using ok slash \<open>ur_host u = Some h\<close> Some assms
        by (cases "ur_userinfo u")
          (simp_all add: uri_check_def uri_text_def a items_of_def c check_userinfo_host check_host_port uri_ok_def)
    qed
  qed
qed


section \<open>Reading the components\<close>

lemma foldl_port_digit:
  assumes "\<forall>c \<in> set ds. is_digit c" "dec_val ds < 2 ^ 31"
  shows "foldl port_digit 0 ds = int (dec_val ds)"
  using assms
proof (induction ds rule: rev_induct)
  case (snoc c ds)
  have less: "10 * dec_val ds + digit_val c < 2 ^ 31" using snoc.prems(2) by (simp add: dec_val_append)
  have "int (ord c) - 48 = int (digit_val c)" using snoc.prems(1) by (simp add: digit_val_def is_digit_def)
  then have "port_digit (int (dec_val ds)) c = sint (of_int (int (10 * dec_val ds + digit_val c)) :: 32 word)"
    by (simp add: port_digit_def algebra_simps)
  also have "\<dots> = int (10 * dec_val ds + digit_val c)"
    using less by (simp only: signed_of_int) (simp add: signed_take_bit_int_eq_self_iff)
  finally show ?case using snoc by (simp add: dec_val_append)
qed (simp add: dec_val_def)

lemma takeWhile_upto:
  assumes "\<forall>c \<in> set a. P c" "t = [] \<or> \<not> P (hd t)"
  shows "takeWhile P (a @ t) = a" "dropWhile P (a @ t) = t"
  using assms by (cases t; simp add: takeWhile_append dropWhile_append)+

lemma uri_tail_text:
  assumes "uri_ok u"
  shows "uri_tail (path_text u) v = v\<lparr>ur_path := ur_path u, ur_query := ur_query u, ur_fragment := ur_fragment u\<rparr>"
proof -
  define frag where "frag = (case ur_fragment u of None \<Rightarrow> [] | Some f \<Rightarrow> ''#'' @ f)"
  define qf where "qf = (case ur_query u of None \<Rightarrow> [] | Some q \<Rightarrow> ''?'' @ q) @ frag"
  have f: "frag = [] \<or> hd frag = CHR ''#''" by (cases "ur_fragment u") (simp_all add: frag_def)
  have "takeWhile (\<lambda>c. c \<notin> set ''?#'') (ur_path u @ qf) = ur_path u" "dropWhile (\<lambda>c. c \<notin> set ''?#'') (ur_path u @ qf) = qf"
    using assms f by (intro takeWhile_upto; cases "ur_query u"; force simp: qf_def uri_ok_def)+
  moreover have "takeWhile (\<lambda>c. c \<noteq> CHR ''#'') (q @ frag) = q" "dropWhile (\<lambda>c. c \<noteq> CHR ''#'') (q @ frag) = frag"
    if "ur_query u = Some q" for q
    using assms that f by (intro takeWhile_upto; force simp: uri_ok_def)+
  moreover have "path_text u = ur_path u @ qf" "ur_path u \<noteq> []" "hd (ur_path u @ qf) = CHR ''/''"
    using assms by (auto simp: path_text_def qf_def frag_def uri_ok_def)
  moreover have "frag \<noteq> [] \<and> hd frag = CHR ''#'' \<longleftrightarrow> ur_fragment u \<noteq> None" "ur_fragment u = Some f \<Longrightarrow> tl frag = f" for f
    by (auto simp: frag_def split: option.splits)
  ultimately show ?thesis
    using f by (cases "ur_query u"; cases "ur_fragment u") (simp_all add: uri_tail_def qf_def frag_def)
qed

lemma uri_host_part_text:
  assumes "word_ok h" "h \<noteq> []" "hd t = CHR ''/''" "t \<noteq> []"
  shows "uri_host_part (host_text h @ port_text p @ t) = Inr (h, port_text p @ t, True)"
proof -
  have stop: "hd (port_text p @ t) \<in> set '':/?#''" "port_text p @ t \<noteq> []" using assms by (auto simp: port_text_def)
  show ?thesis
  proof (cases "CHR '':'' \<in> set h")
    case True
    have "takeWhile (\<lambda>c. c \<noteq> CHR '']'') (h @ CHR '']'' # s) = h" "dropWhile (\<lambda>c. c \<noteq> CHR '']'') (h @ CHR '']'' # s) = CHR '']'' # s" for s
      using assms(1) by (intro takeWhile_upto; force simp: word_ok_def)+
    then show ?thesis using True stop by (simp add: uri_host_part_def host_text_def at_stop_def)
  next
    case False
    have "takeWhile (\<lambda>c. c \<notin> set '':/?#'') (h @ port_text p @ t) = h"
        "dropWhile (\<lambda>c. c \<notin> set '':/?#'') (h @ port_text p @ t) = port_text p @ t"
      using assms(1) False stop by (intro takeWhile_upto; force simp: word_ok_def)+
    moreover have "hd (h @ s) \<noteq> CHR ''[''" for s using assms(1,2) by (cases h) auto
    ultimately show ?thesis using False assms(2) by (simp add: uri_host_part_def host_text_def)
  qed
qed

lemma upto_mark:
  "c \<notin> set a \<Longrightarrow> takeWhile (\<lambda>x. x \<noteq> c) (a @ c # t) = a" "c \<notin> set a \<Longrightarrow> dropWhile (\<lambda>x. x \<noteq> c) (a @ c # t) = c # t"
  by (rule takeWhile_upto; force)+

lemma port_part:
  assumes "p \<noteq> 0" "0 \<le> p" "p < 2 ^ 31" "hd t = CHR ''/''" "t \<noteq> []"
  shows "foldl port_digit 0 (takeWhile is_digit (drop 1 (port_text p @ t))) = p"
    "dropWhile is_digit (drop 1 (port_text p @ t)) = t"
proof -
  have d: "\<forall>c \<in> set (show_nat (nat p)). is_digit c" by (rule show_nat_digits)
  have "\<not> is_digit (hd t)" using assms(4) by (simp add: is_digit_def)
  then have "takeWhile is_digit (show_nat (nat p) @ t) = show_nat (nat p)" "dropWhile is_digit (show_nat (nat p) @ t) = t"
    using d by (intro takeWhile_upto; simp)+
  moreover have "foldl port_digit 0 (show_nat (nat p)) = p" using foldl_port_digit [OF d] assms by simp
  ultimately show "foldl port_digit 0 (takeWhile is_digit (drop 1 (port_text p @ t))) = p"
      "dropWhile is_digit (drop 1 (port_text p @ t)) = t"
    using assms by (simp_all add: port_text_def show_port)
qed

lemma at_stop_slash: "hd t = CHR ''/'' \<Longrightarrow> at_stop t"
  by (simp add: at_stop_def)

lemma scheme_part:
  "CHR '':'' \<notin> set s \<Longrightarrow> takeWhile (\<lambda>c. c \<noteq> CHR '':'') (s @ ''://'' @ t) = s \<and>
    drop 3 (dropWhile (\<lambda>c. c \<noteq> CHR '':'') (s @ ''://'' @ t)) = t"
  by (simp add: upto_mark)

lemma userinfo_part:
  "word_ok i \<Longrightarrow> takeWhile (\<lambda>c. c \<noteq> CHR ''@'') (i @ ''@'' @ t) = i \<and> drop 1 (dropWhile (\<lambda>c. c \<noteq> CHR ''@'') (i @ ''@'' @ t)) = t"
  using upto_mark [of "CHR ''@''" i t] by (auto simp: word_ok_def)

lemma uri_parse_complex_text:
  assumes ok: "uri_ok u"
  shows "uri_parse_complex (uri_text u) = Inr (Some u)"
proof -
  define t where "t = path_text u"
  define hp where "hp = (case ur_host u of None \<Rightarrow> [] | Some h \<Rightarrow> host_text h) @ port_text (ur_port u) @ t"
  define ui where "ui = (case ur_userinfo u of None \<Rightarrow> [] | Some i \<Rightarrow> i @ ''@'') @ hp"
  have whole: "uri_text u = (case ur_scheme u of None \<Rightarrow> [] | Some s \<Rightarrow> s @ ''://'') @ ui"
    by (simp add: uri_text_def authority_text_def port_text_def t_def hp_def ui_def)
  have slash: "t \<noteq> []" "hd t = CHR ''/''" using path_text_slash [OF ok] by (simp_all add: t_def)
  have scheme: "(if has_scheme (items_of u)
      then (Some (takeWhile (\<lambda>c. c \<noteq> CHR '':'') (uri_text u)), drop 3 (dropWhile (\<lambda>c. c \<noteq> CHR '':'') (uri_text u)))
      else (None, uri_text u)) = (ur_scheme u, ui)"
    using ok scheme_part [of "the (ur_scheme u)" ui] by (cases "ur_scheme u") (simp_all add: whole items_of_def uri_ok_def)
  have userinfo: "(if has_userinfo (items_of u)
      then (Some (takeWhile (\<lambda>c. c \<noteq> CHR ''@'') ui), drop 1 (dropWhile (\<lambda>c. c \<noteq> CHR ''@'') ui)) else (None, ui)) = (ur_userinfo u, hp)"
    using ok userinfo_part [of "the (ur_userinfo u)" hp]
    by (cases "ur_userinfo u") (simp_all add: ui_def items_of_def uri_ok_def userinfo_ok_def)
  have host: "(if has_host (items_of u) then and_then (uri_host_part hp) (\<lambda>(host, str, ok). Inr (Some host, str, ok))
      else Inr (None, hp, True)) = (Inr (ur_host u, port_text (ur_port u) @ t, True) :: (string option \<times> string \<times> bool) exec)"
    using ok uri_host_part_text [OF _ _ slash(2,1)] by (cases "ur_host u") (simp_all add: hp_def items_of_def uri_ok_def)
  have port: "(if has_port (items_of u)
      then (foldl port_digit 0 (takeWhile is_digit (drop 1 (port_text (ur_port u) @ t))), dropWhile is_digit (drop 1 (port_text (ur_port u) @ t)))
      else (0, port_text (ur_port u) @ t)) = (ur_port u, t)"
    using ok port_part [OF _ _ _ slash(2,1), of "ur_port u"] by (simp add: items_of_def uri_ok_def port_text_def)
  show ?thesis
    unfolding uri_parse_complex_def uri_check_text [OF ok] and_then_Inr option.case Let_def scheme prod.case userinfo host port
    using slash ok by (simp add: at_stop_slash uri_tail_text t_def)
qed

lemma uri_path_text:
  "ur_query u \<noteq> Some [] \<Longrightarrow> ur_fragment u \<noteq> Some [] \<Longrightarrow> int (length (path_text u)) < len \<Longrightarrow>
   uri_path u len = (path_text u, int (length (path_text u)))"
  by (simp add: uri_path_def path_text_def Let_def split: option.splits)

text \<open>
  C24.  A URI printed from its components, with any of scheme, user information, host (a name or an IPv6 address), port,
  query and fragment present or absent, is parsed into exactly these components, and \<^verbatim>\<open>uri_path\<close> prints its
  path, query and fragment back.
\<close>

theorem uri_parse_roundtrip:
  assumes "uri_ok u" and "alloc (56 + length (uri_text u) + 5)"
    and "ur_query u \<noteq> Some []" and "ur_fragment u \<noteq> Some []" and "int (length (path_text u)) < len"
  shows "uri_parse alloc (uri_text u) = Inr (Some u) \<and> uri_path u len = (path_text u, int (length (path_text u)))"
proof
  have "uri_text u \<noteq> []" using path_text_slash [OF assms(1)] by (simp add: uri_text_def)
  then show "uri_parse alloc (uri_text u) = Inr (Some u)"
    using assms(2) uri_parse_complex_text [OF assms(1)] by (simp add: uri_parse_def)
qed (rule uri_path_text [OF assms(3-5)])

definition sample_uri :: uri where
  "sample_uri = \<lparr>ur_scheme = Some ''coap'', ur_userinfo = Some ''me:secret'', ur_host = Some ''fe80::1'', ur_port = 5683,
     ur_path = ''/a/b'', ur_query = Some ''x=1'', ur_fragment = Some ''top''\<rparr>"

theorem uri_parse_roundtrip_witness:
  "uri_parse (\<lambda>_. True) ''coap://me:secret@[fe80::1]:5683/a/b?x=1#top'' = Inr (Some sample_uri) \<and>
   uri_path sample_uri 64 = (''/a/b?x=1#top'', 12)"
proof -
  have words: "word_ok ''coap''" "word_ok ''me:secret''" "word_ok ''fe80::1''" by code_simp+
  have port: "show_int 5683 = ''5683''" by (simp add: show_int_def show_nat.simps digit_char_def char_of_def bit_iff_odd)
  have t: "uri_text sample_uri = ''coap://me:secret@[fe80::1]:5683/a/b?x=1#top''" "path_text sample_uri = ''/a/b?x=1#top''"
    by (simp_all add: uri_text_def authority_text_def path_text_def host_text_def sample_uri_def port)
  have "uri_ok sample_uri"
    by (simp add: uri_ok_def sample_uri_def userinfo_ok_def words del: word_ok_simps)
  from uri_parse_roundtrip [where alloc = "\<lambda>_. True" and len = 64, OF this]
  show ?thesis unfolding t by (simp add: sample_uri_def)
qed

section \<open>Queries\<close>

definition url_escape :: "char \<Rightarrow> string" where
  "url_escape c =
     (if char_isalnum c \<or> c \<in> set ''-_.~'' then [c] else if c = CHR '' '' then ''+''
      else [CHR ''%'', s_encode ! (ord c div 16), s_encode ! (ord c mod 16)])"

definition url_escapes :: "string \<Rightarrow> string" where
  "url_escapes s = concat (map url_escape s)"

lemma s_encode_facts:
  assumes "k < 16"
  shows "char_ishex (s_encode ! k)" "HEX (s_encode ! k) = k" "s_encode ! k \<noteq> CHR ''%''" "s_encode ! k \<notin> set ''&=''"
proof -
  have "\<forall>k \<in> set [0..<16]. char_ishex (s_encode ! k) \<and> HEX (s_encode ! k) = k \<and> s_encode ! k \<noteq> CHR ''%'' \<and> s_encode ! k \<notin> set ''&=''"
    by code_simp
  then show "char_ishex (s_encode ! k)" "HEX (s_encode ! k) = k" "s_encode ! k \<noteq> CHR ''%''" "s_encode ! k \<notin> set ''&=''"
    using assms by (auto dest!: bspec [where x = k] simp del: upt_rec_numeral)
qed

lemma ord_halves: "ord c div 16 < 16" "ord c mod 16 < 16" "char_of (16 * (ord c div 16) + ord c mod 16) = c"
proof -
  have "ord c < 256" by simp
  then show "ord c div 16 < 16" by linarith
qed simp_all

lemma url_encode_escape:
  "length out + 3 \<le> tgt \<Longrightarrow> url_encode_loop tgt (c # cs) out = url_encode_loop tgt cs (out @ url_escape c)"
  by (simp add: url_escape_def)

lemma url_encode_loop_escapes:
  "length out + 3 * length s < tgt + 1 \<Longrightarrow>
   url_encode_loop tgt s out = (out @ url_escapes s, int (length out + length (url_escapes s)))"
proof (induction s arbitrary: out)
  case (Cons c s)
  have "length (url_escape c) \<le> 3" by (simp add: url_escape_def)
  then have "length (out @ url_escape c) + 3 * length s < tgt + 1" using Cons.prems by simp
  from Cons.IH [OF this] show ?case using Cons.prems by (simp add: url_encode_escape url_escapes_def del: url_encode_loop.simps)
qed (simp add: url_escapes_def)

lemma url_decode_escape:
  assumes "length out < tgt"
  shows "url_decode_loop tgt (url_escape c @ cs) out = url_decode_loop tgt cs (out @ [c])"
proof -
  have marks: "\<not> char_isalnum CHR ''%''" "\<not> char_isalnum CHR ''+''" by (simp_all add: char_isalnum_def is_digit_def)
  consider "char_isalnum c \<or> c \<in> set ''-_.~''" | "c = CHR '' ''" | "\<not> char_isalnum c" "c \<notin> set ''-_.~''" "c \<noteq> CHR '' ''" by blast
  then show ?thesis
  proof cases
    case 1
    then have "url_escape c = [c]" "c \<noteq> CHR ''%''" "c \<noteq> CHR ''+''" using marks by (auto simp: url_escape_def)
    then show ?thesis using assms by simp
  next
    case 2
    then show ?thesis using assms by (simp add: url_escape_def char_isalnum_def is_digit_def)
  next
    case 3
    then have "url_escape c = [CHR ''%'', s_encode ! (ord c div 16), s_encode ! (ord c mod 16)]" by (simp only: url_escape_def) simp
    then show ?thesis
      using assms s_encode_facts(1-3) [OF ord_halves(1) [of c]] s_encode_facts(1-3) [OF ord_halves(2) [of c]] ord_halves(3) [of c]
      by simp
  qed
qed

lemma url_decode_loop_escapes:
  "length out + length s \<le> tgt \<Longrightarrow> url_decode_loop tgt (url_escapes s) out = (out @ s, int (length out + length s))"
proof (induction s arbitrary: out)
  case (Cons c s)
  then show ?case by (simp add: url_escapes_def url_decode_escape)
qed (simp add: url_escapes_def)

lemma url_escapes_marks: "CHR ''&'' \<notin> set (url_escapes s)" "CHR ''='' \<notin> set (url_escapes s)"
proof -
  have "c \<notin> set (url_escape d)" if "c \<in> set ''&=''" for c d
  proof -
    have "\<not> char_isalnum c" using that by (auto simp: char_isalnum_def is_digit_def)
    then show ?thesis
      using that s_encode_facts(4) [OF ord_halves(1) [of d]] s_encode_facts(4) [OF ord_halves(2) [of d]]
      by (auto simp: url_escape_def)
  qed
  then show "CHR ''&'' \<notin> set (url_escapes s)" "CHR ''='' \<notin> set (url_escapes s)" by (auto simp: url_escapes_def)
qed

lemma url_escapes_Nil: "url_escapes s = [] \<longleftrightarrow> s = []"
  by (cases s) (simp_all add: url_escapes_def url_escape_def)

text \<open>A form as a browser sends it.\<close>

definition encoded :: "string \<Rightarrow> string" where
  "encoded s = fst (url_encode s (-1) (3 * length s))"

fun form_text :: "(string \<times> string) list \<Rightarrow> string" where
  "form_text [] = []"
| "form_text [(n, v)] = encoded n @ ''='' @ encoded v"
| "form_text ((n, v) # p # ps) = encoded n @ ''='' @ encoded v @ ''&'' @ form_text (p # ps)"

lemma encoded_escapes: "encoded s = url_escapes s"
  by (simp add: encoded_def url_encode_def url_source_def url_encode_loop_escapes)

lemma strpbrk_name: "CHR ''&'' \<notin> set n \<Longrightarrow> CHR ''='' \<notin> set n \<Longrightarrow> strpbrk (n @ CHR ''='' # t) ''&='' = Some (CHR ''='' # t)"
  unfolding strpbrk_def by (rule find_suffix_append) auto

lemma strchr_value:
  "CHR ''&'' \<notin> set v \<Longrightarrow> strchr v CHR ''&'' = None"
  "CHR ''&'' \<notin> set v \<Longrightarrow> strchr (v @ CHR ''&'' # t) CHR ''&'' = Some (CHR ''&'' # t)"
  unfolding strchr_def by (auto simp: find_suffix_None intro!: find_suffix_append)

lemma query_room_all: "(\<And>n. alloc n) \<Longrightarrow> \<exists>cap'. query_room alloc n cap = Some cap'"
  by (simp add: query_room_def)

lemma uri_query_loop_form:
  assumes alloc: "\<And>n. alloc n"
  shows "\<forall>(n, v) \<in> set ps. n \<noteq> [] \<Longrightarrow>
    uri_query_loop alloc (form_text ps) cap acc = Inr (acc @ map (\<lambda>(n, v). (encoded n, Some (encoded v))) ps)"
proof (induction ps arbitrary: cap acc rule: form_text.induct)
  case 1
  show ?case by (subst uri_query_loop.simps) (simp add: strpbrk_def)
next
  case (2 n v)
  obtain cap' where "query_room alloc (length acc) cap = Some cap'" using query_room_all alloc by blast
  then show ?case
    using 2 url_escapes_marks [of n] url_escapes_marks [of v]
    by (subst uri_query_loop.simps) (simp add: encoded_escapes strpbrk_name strchr_value url_escapes_Nil)
next
  case (3 n v p ps)
  obtain cap' where "query_room alloc (length acc) cap = Some cap'" using query_room_all alloc by blast
  then show ?case
    using 3 url_escapes_marks [of n] url_escapes_marks [of v]
    by (subst uri_query_loop.simps) (simp add: encoded_escapes strpbrk_name strchr_value url_escapes_Nil)
qed

text \<open>
  The names and values of a form, whatever characters they contain, survive \<^verbatim>\<open>url_encode\<close>, the
  splitting at \<^verbatim>\<open>&\<close> and \<^verbatim>\<open>=\<close> by \<^verbatim>\<open>uri_query\<close>, and \<^verbatim>\<open>url_decode\<close> into buffers of at
  least their own length.
\<close>

lemma form_roundtrip:
  assumes alloc: "\<And>n. alloc n" and names: "\<forall>(n, v) \<in> set ps. n \<noteq> []"
  shows "uri_query alloc (form_text ps) = Inr (map (\<lambda>(n, v). (encoded n, Some (encoded v))) ps) \<and>
    (length s \<le> tgt \<longrightarrow> url_decode (encoded s) (-1) tgt = (s, int (length s)))"
proof (intro conjI impI)
  show "uri_query alloc (form_text ps) = Inr (map (\<lambda>(n, v). (encoded n, Some (encoded v))) ps)"
    using uri_query_loop_form [of alloc, OF alloc names, where acc = "[]" and cap = 0] alloc by (simp only: uri_query_def) simp
  show "url_decode (encoded s) (-1) tgt = (s, int (length s))" if "length s \<le> tgt"
    using url_decode_loop_escapes [of "[]" s tgt] that by (simp add: url_decode_def url_source_def encoded_escapes)
qed

lemma form_roundtrip_witness:
  "uri_query (\<lambda>_. True) ''a+b=1%262&c='' = Inr [(''a+b'', Some ''1%262''), (''c'', Some [])] \<and>
   url_decode ''1%262'' (-1) 3 = (''1&2'', 3)"
proof -
  have "form_text [(''a b'', ''1&2''), (''c'', [])] = ''a+b=1%262&c=''" "encoded ''a b'' = ''a+b''" "encoded ''1&2'' = ''1%262''"
    "encoded ''c'' = ''c''" "encoded [] = []" by code_simp+
  with form_roundtrip [where alloc = "\<lambda>_. True" and ps = "[(''a b'', ''1&2''), (''c'', [])]" and s = "''1&2''" and tgt = 3]
  show ?thesis by simp
qed

end
