(* ===== verification/MqttClient.thy ===== *)
theory MqttClient
  imports MqttPacket Dbuffer Uri
begin

text \<open>
  The MQTT client of \<^verbatim>\<open>modules/networking/libmqtt/source/mqtt/mqtt-client.c\<close> on top of the packet codec
  (\<^verbatim>\<open>MqttPacket\<close>), the growable buffer (\<^verbatim>\<open>Dbuffer\<close>) and the URI parser (\<^verbatim>\<open>Uri\<close>).

  The state is the C struct and two logs: the events for which the handler was called, and the packets handed to the
  transport.  The handler is a C function that the application registers; it may call any operation of the client, so
  what it does to the client is a function of the environment, which also says what the transport answers.  A freed
  block has no bytes to read: using it is \<open>Out_of_bounds\<close>.  Memory that is only leaked is not tracked.
\<close>

section \<open>State\<close>

record mqtt_publish_data =
  pd_topic :: "byte list"
  pd_payload :: "byte list"
  pd_payload_size :: nat
  pd_dup :: nat
  pd_qos :: nat
  pd_retained :: nat

datatype mqtt_event =
    MQTT_CLIENT_EVENT_MESSAGE nat
  | MQTT_CLIENT_EVENT_PUBLISH nat mqtt_publish_data
  | MQTT_CLIENT_EVENT_ERROR int string
  | MQTT_CLIENT_EVENT_READY int
  | MQTT_CLIENT_EVENT_STATE_CHANGE nat

abbreviation (input) MQTT_CLIENT_STATE_OPENDING :: nat where "MQTT_CLIENT_STATE_OPENDING \<equiv> 1"
abbreviation (input) MQTT_CLIENT_STATE_OPEN :: nat where "MQTT_CLIENT_STATE_OPEN \<equiv> 2"
abbreviation (input) MQTT_CLIENT_STATE_CLOSING :: nat where "MQTT_CLIENT_STATE_CLOSING \<equiv> 3"
abbreviation (input) MQTT_CLIENT_STATE_CLOSED :: nat where "MQTT_CLIENT_STATE_CLOSED \<equiv> 4"

text \<open>
  \<open>'h\<close> are the handlers.  A transport is a serial number, which tells its block from those allocated before, and the
  type that \<^verbatim>\<open>net_transport_create\<close> was given.
\<close>

record 'h mqtt_client =
  mc_transport :: "(nat \<times> nat) option"
  mc_timer :: bool
  mc_read_buffer :: dbuffer
  mc_handler :: "'h option"
  mc_username :: "byte list option"
  mc_password :: "byte list option"
  mc_client_id :: "byte list option"
  mc_client_id_freed :: bool
  mc_closed :: bool
  mc_secure :: nat
  mc_keep_alive :: nat
  mc_clean_session :: nat
  mc_read_offset :: nat
  mc_next_packet_id :: nat
  mc_ready_state :: nat
  mc_serial :: nat
  mc_events :: "mqtt_event list"
  mc_sent :: "byte list list"

text \<open>
  The environment: what a handler does, how \<^verbatim>\<open>uri_parse\<close> fares with its allocation, with which error, if
  any, \<^verbatim>\<open>net_transport_connect\<close> reports a failed lookup, what \<^verbatim>\<open>net_transport_write\<close> and
  \<^verbatim>\<open>net_transport_is_ready\<close> answer, and the value of a variable that is not initialised.
\<close>

record 'h mqtt_env =
  en_call :: "'h \<Rightarrow> mqtt_event \<Rightarrow> 'h mqtt_client \<Rightarrow> 'h mqtt_client exec"
  en_alloc :: "nat \<Rightarrow> bool"
  en_connect :: "nat \<Rightarrow> string \<Rightarrow> int \<Rightarrow> int option"
  en_write :: "nat \<Rightarrow> byte list \<Rightarrow> int"
  en_ready :: "nat \<Rightarrow> int"
  en_garbage :: nat

definition mqtt_client_create :: "(nat \<Rightarrow> bool) \<Rightarrow> (nat \<Rightarrow> byte) \<Rightarrow> 'h mqtt_client" where
  "mqtt_client_create avail fill =
     \<lparr>mc_transport = None, mc_timer = False, mc_read_buffer = dbuffer_init avail fill, mc_handler = None, mc_username = None,
      mc_password = None, mc_client_id = None, mc_client_id_freed = False, mc_closed = False, mc_secure = 0,
      mc_keep_alive = 60, mc_clean_session = 1, mc_read_offset = 0, mc_next_packet_id = 0, mc_ready_state = 0,
      mc_serial = 0, mc_events = [], mc_sent = []\<rparr>"

definition mqtt_client_set_handler :: "'h option \<Rightarrow> 'h mqtt_client \<Rightarrow> 'h mqtt_client" where
  "mqtt_client_set_handler handler s = s\<lparr>mc_handler := handler\<rparr>"

text \<open>\<^verbatim>\<open>if (handler) handler(self, event, ...)\<close>.\<close>

definition raise :: "'h mqtt_env \<Rightarrow> mqtt_event \<Rightarrow> 'h mqtt_client \<Rightarrow> 'h mqtt_client exec" where
  "raise env ev s =
     (case mc_handler s of None \<Rightarrow> Inr s | Some h \<Rightarrow> en_call env h ev (s\<lparr>mc_events := mc_events s @ [ev]\<rparr>))"

text \<open>The new state is compared with \<open>ready_state\<close> but never stored.\<close>

definition mqtt_client_set_state :: "'h mqtt_env \<Rightarrow> nat \<Rightarrow> 'h mqtt_client \<Rightarrow> 'h mqtt_client exec" where
  "mqtt_client_set_state env st s =
     (if mc_ready_state s = st then Inr s else raise env (MQTT_CLIENT_EVENT_STATE_CHANGE st) s)"

section \<open>Sending\<close>

definition mqtt_client_send :: "'h mqtt_env \<Rightarrow> byte list \<times> int \<Rightarrow> 'h mqtt_client \<Rightarrow> 'h mqtt_client \<times> int" where
  "mqtt_client_send env packet s =
     (if snd packet > 0 then
        case mc_transport s of
          None \<Rightarrow> (s, 0)
        | Some (i, t) \<Rightarrow> (s\<lparr>mc_sent := mc_sent s @ [fst packet]\<rparr>, en_write env t (fst packet))
      else (s, -1))"

definition c_string :: "byte list option \<Rightarrow> mqtt_string" where
  "c_string c = mqtt_string0\<lparr>ms_cstring := c\<rparr>"

definition mqtt_client_connect :: "'h mqtt_env \<Rightarrow> 'h mqtt_client \<Rightarrow> ('h mqtt_client \<times> int) exec" where
  "mqtt_client_connect env s =
     and_then (in_bounds (\<not> (mc_client_id_freed s \<and> mc_client_id s \<noteq> None))) (\<lambda>_.
     let options = connect_data0\<lparr>
           cd_clientID := c_string (Some (case mc_client_id s of Some c \<Rightarrow> c | None \<Rightarrow> text_bytes ''mqttc'')),
           cd_keepAliveInterval := mc_keep_alive s mod 65536, cd_cleansession := mc_clean_session s mod 256,
           cd_username := c_string (mc_username s), cd_password := c_string (mc_password s)\<rparr>
     in and_then (MQTTSerialize_connect 1024 options) (\<lambda>packet. Inr (mqtt_client_send env packet s)))"

definition mqtt_client_disconnect :: "'h mqtt_env \<Rightarrow> 'h mqtt_client \<Rightarrow> ('h mqtt_client \<times> int) exec" where
  "mqtt_client_disconnect env s = and_then (MQTTSerialize_disconnect 64) (\<lambda>packet. Inr (mqtt_client_send env packet s))"

definition mqtt_client_ping :: "'h mqtt_env \<Rightarrow> 'h mqtt_client \<Rightarrow> ('h mqtt_client \<times> int) exec" where
  "mqtt_client_ping env s = and_then (MQTTSerialize_pingreq 64) (\<lambda>packet. Inr (mqtt_client_send env packet s))"

text \<open>\<^verbatim>\<open>self->next_packet_id++\<close>.\<close>

definition next_id :: "'h mqtt_client \<Rightarrow> 'h mqtt_client" where
  "next_id s = s\<lparr>mc_next_packet_id := (mc_next_packet_id s + 1) mod 2 ^ 32\<rparr>"

definition mqtt_client_publish ::
    "'h mqtt_env \<Rightarrow> byte list option \<Rightarrow> byte list \<Rightarrow> int \<Rightarrow> nat \<Rightarrow> nat \<Rightarrow> 'h mqtt_client \<Rightarrow> ('h mqtt_client \<times> int) exec" where
  "mqtt_client_publish env topic data qos dup retained s =
     (case topic of None \<Rightarrow> Inr (s, -1)
      | Some topic \<Rightarrow>
          if data = [] then Inr (s, -1)
          else
            and_then (MQTTSerialize_publish (length data + length topic + 256) dup qos retained
                (mc_next_packet_id s mod 65536) (c_string (Some topic)) data) (\<lambda>packet.
            Inr (mqtt_client_send env packet (next_id s))))"

definition mqtt_client_subscribe ::
    "'h mqtt_env \<Rightarrow> byte list option \<Rightarrow> int \<Rightarrow> nat \<Rightarrow> 'h mqtt_client \<Rightarrow> ('h mqtt_client \<times> int) exec" where
  "mqtt_client_subscribe env topic qos dup s =
     (case topic of None \<Rightarrow> Inr (s, -1)
      | Some topic \<Rightarrow>
          and_then (MQTTSerialize_subscribe (length topic + 100) dup (mc_next_packet_id s mod 65536)
              [(c_string (Some topic), qos)]) (\<lambda>packet.
          Inr (mqtt_client_send env packet (next_id s))))"

definition mqtt_client_unsubscribe ::
    "'h mqtt_env \<Rightarrow> byte list option \<Rightarrow> nat \<Rightarrow> 'h mqtt_client \<Rightarrow> ('h mqtt_client \<times> int) exec" where
  "mqtt_client_unsubscribe env topic dup s =
     (case topic of None \<Rightarrow> Inr (s, -1)
      | Some topic \<Rightarrow>
          and_then (MQTTSerialize_unsubscribe (length topic + 100) dup (mc_next_packet_id s mod 65536)
              [c_string (Some topic)]) (\<lambda>packet.
          Inr (mqtt_client_send env packet (next_id s))))"

definition mqtt_client_is_ready :: "'h mqtt_env \<Rightarrow> 'h mqtt_client \<Rightarrow> int" where
  "mqtt_client_is_ready env s = (case mc_transport s of None \<Rightarrow> 0 | Some (i, t) \<Rightarrow> en_ready env t)"

section \<open>Opening and closing\<close>

text \<open>
  The transport is destroyed after the handler was told: when that has closed the client already, the block is
  destroyed and freed a second time.
\<close>

definition mqtt_client_close :: "'h mqtt_env \<Rightarrow> 'h mqtt_client \<Rightarrow> 'h mqtt_client exec" where
  "mqtt_client_close env s =
     and_then
       (case mc_transport s of None \<Rightarrow> Inr s
        | Some t \<Rightarrow>
            and_then (mqtt_client_set_state env MQTT_CLIENT_STATE_CLOSING s) (\<lambda>s.
            and_then (in_bounds (mc_transport s = Some t)) (\<lambda>_. Inr (s\<lparr>mc_transport := None\<rparr>))))
       (\<lambda>s.
     if mc_closed s then Inr s
     else
       and_then (mqtt_client_set_state env MQTT_CLIENT_STATE_CLOSED s) (\<lambda>s.
       Inr (s\<lparr>mc_closed := True, mc_read_buffer := dbuffer_free (mc_read_buffer s), mc_username := None, mc_password := None,
         mc_client_id_freed := (mc_client_id s \<noteq> None), mc_timer := False\<rparr>)))"

record mqtt_settings =
  st_client_id :: "byte list option"
  st_username :: "byte list option"
  st_password :: "byte list option"
  st_clean_session :: nat
  st_keep_alive :: nat

definition apply_settings :: "mqtt_settings option \<Rightarrow> 'h mqtt_client \<Rightarrow> 'h mqtt_client" where
  "apply_settings settings s =
     (case settings of None \<Rightarrow> s
      | Some st \<Rightarrow>
          s\<lparr>mc_clean_session := (if st_clean_session st \<noteq> 0 then st_clean_session st else mc_clean_session s),
            mc_keep_alive := (if st_keep_alive st \<noteq> 0 then st_keep_alive st else mc_keep_alive s),
            mc_username := (if st_username st \<noteq> None then st_username st else mc_username s),
            mc_password := (if st_password st \<noteq> None then st_password st else mc_password s),
            mc_client_id := (if st_client_id st \<noteq> None then st_client_id st else mc_client_id s),
            mc_client_id_freed := (st_client_id st = None \<and> mc_client_id_freed s)\<rparr>)"

definition mqtt_client_on_error :: "'h mqtt_env \<Rightarrow> int \<Rightarrow> string \<Rightarrow> 'h mqtt_client \<Rightarrow> 'h mqtt_client exec" where
  "mqtt_client_on_error env code message s = raise env (MQTT_CLIENT_EVENT_ERROR code message) s"

text \<open>A failed lookup is reported to the handler before the transport is stored.\<close>

definition mqtt_client_open ::
    "'h mqtt_env \<Rightarrow> string option \<Rightarrow> mqtt_settings option \<Rightarrow> 'h mqtt_client \<Rightarrow> ('h mqtt_client \<times> int) exec" where
  "mqtt_client_open env url settings s =
     (if mc_transport s \<noteq> None then Inr (s, -1)
      else case url of None \<Rightarrow> Inr (s, -1)
      | Some url \<Rightarrow>
          and_then (uri_parse (en_alloc env) url) (\<lambda>r. case r of None \<Rightarrow> Inr (s, 0)
          | Some u \<Rightarrow>
              case ur_host u of None \<Rightarrow> Inr (s, 0)
              | Some host \<Rightarrow>
                  let s = s\<lparr>mc_secure := (if ur_scheme u = Some ''mqtts'' then 1 else mc_secure s)\<rparr>;
                      port = (if ur_port u \<le> 0 then if mc_secure s \<noteq> 0 then 8883 else 1883 else ur_port u);
                      s = apply_settings settings s;
                      transport = (mc_serial s, mc_secure s);
                      s = s\<lparr>mc_serial := mc_serial s + 1\<rparr>
                  in and_then (mqtt_client_set_state env MQTT_CLIENT_STATE_OPENDING s) (\<lambda>s.
                     and_then (case en_connect env (snd transport) host port of None \<Rightarrow> Inr s
                       | Some code \<Rightarrow> mqtt_client_on_error env code ''lookup'' s) (\<lambda>s.
                     Inr (s\<lparr>mc_transport := Some transport, mc_timer := True\<rparr>, 0)))))"

section \<open>Input\<close>

text \<open>\<^verbatim>\<open>strndup\<close>; a null pointer is harmless only for the length zero.\<close>

definition strndup :: "byte list option \<Rightarrow> nat \<Rightarrow> byte list exec" where
  "strndup d n =
     (case d of Some d \<Rightarrow> Inr (takeWhile (\<lambda>c. c \<noteq> 0) (take n d)) | None \<Rightarrow> and_then (in_bounds (n = 0)) (\<lambda>_. Inr []))"

definition publish_start :: "'h mqtt_env \<Rightarrow> publish_data" where
  "publish_start env = \<lparr>pb_dup = 0, pb_qos = 0, pb_retained = 0, pb_packetid = en_garbage env, pb_topic = mqtt_string0,
     pb_payload = [], pb_payloadlen = 0\<rparr>"

text \<open>
  \<open>mem\<close> is the memory from the packet on.  The payload the handler sees is a pointer and a size, here the bytes that
  lie there, at most as many as the size says.  The result codes of the deserializers are not looked at.
\<close>

definition mqtt_client_on_message :: "'h mqtt_env \<Rightarrow> byte list \<Rightarrow> 'h mqtt_client \<Rightarrow> 'h mqtt_client exec" where
  "mqtt_client_on_message env mem s =
     and_then (readChar mem 0) (\<lambda>(h, _).
     and_then
       (if header_type h = CONNACK then
          and_then (MQTTDeserialize_connack mem) (\<lambda>_. mqtt_client_set_state env MQTT_CLIENT_STATE_OPEN s)
        else if header_type h = SUBACK then and_then (MQTTDeserialize_suback 1 mem) (\<lambda>_. Inr s)
        else if header_type h = PUBLISH then
          and_then (MQTTDeserialize_publish (publish_start env) mem) (\<lambda>(out, _).
          and_then (strndup (ms_data (pb_topic out)) (ms_len (pb_topic out))) (\<lambda>topic.
          let n = nat (pb_payloadlen out mod 2 ^ 32) in
          raise env (MQTT_CLIENT_EVENT_PUBLISH (pb_packetid out)
            \<lparr>pd_topic = topic, pd_payload = take n (pb_payload out), pd_payload_size = n, pd_dup = pb_dup out, pd_qos = pb_qos out,
             pd_retained = pb_retained out\<rparr>) s))
        else Inr s)
       (\<lambda>s. raise env (MQTT_CLIENT_EVENT_MESSAGE (header_type h)) s))"

text \<open>
  The loop over the packets in the buffer.  The length field is read up to four bytes far, wherever the data in the
  buffer end.  The buffer is emptied only when no byte is left over.
\<close>

function input_loop :: "'h mqtt_env \<Rightarrow> nat \<Rightarrow> 'h mqtt_client \<Rightarrow> 'h mqtt_client exec" where
  "input_loop env data_length s =
     (if data_length < 2 then Inr s
      else
        let packet = drop (mc_read_offset s) (db_buf (mc_read_buffer s)) in
        and_then (readChar packet 0) (\<lambda>_.
        and_then (MQTTPacket_decodeBuf (drop 1 packet)) (\<lambda>(n, payload_length).
        let packet_length = 1 + n + payload_length in
        if data_length < packet_length then Inr s
        else
          and_then (mqtt_client_on_message env packet s) (\<lambda>s.
          let data_length = data_length - packet_length;
              s = s\<lparr>mc_read_offset := (mc_read_offset s + packet_length) mod 2 ^ 32\<rparr>
          in input_loop env data_length
               (if data_length = 0 then s\<lparr>mc_read_buffer := (mc_read_buffer s)\<lparr>db_size := 0\<rparr>, mc_read_offset := 0\<rparr> else s)))))"
  by pat_completeness auto
termination by (relation "measure (\<lambda>(env, n, s). n)") auto

declare input_loop.simps [simp del]

definition mqtt_client_on_input :: "'h mqtt_env \<Rightarrow> int \<Rightarrow> byte list \<Rightarrow> 'h mqtt_client \<Rightarrow> 'h mqtt_client exec" where
  "mqtt_client_on_input env nread data s =
     (if nread \<le> 0 then mqtt_client_close env s
      else
        and_then (dbuffer_put (mc_read_buffer s) data) (\<lambda>(b, _).
        let s = s\<lparr>mc_read_buffer := b\<rparr> in
        input_loop env (nat ((int (db_size b) - int (mc_read_offset s)) mod 2 ^ 32)) s))"

definition mqtt_client_on_connected :: "'h mqtt_env \<Rightarrow> 'h mqtt_client \<Rightarrow> 'h mqtt_client exec" where
  "mqtt_client_on_connected env s = and_then (mqtt_client_connect env s) (\<lambda>(s, _). Inr s)"

datatype transport_event =
    NET_TRANSPORT_EVENT_CONNECTED
  | NET_TRANSPORT_EVENT_ERROR
  | NET_TRANSPORT_EVENT_READY
  | NET_TRANSPORT_EVENT_LOOKUP

definition mqtt_client_on_transport_event ::
    "'h mqtt_env \<Rightarrow> transport_event \<Rightarrow> int \<Rightarrow> string \<Rightarrow> 'h mqtt_client \<Rightarrow> 'h mqtt_client exec" where
  "mqtt_client_on_transport_event env event status data s =
     (case event of
        NET_TRANSPORT_EVENT_CONNECTED \<Rightarrow> mqtt_client_on_connected env s
      | NET_TRANSPORT_EVENT_ERROR \<Rightarrow> mqtt_client_on_error env status data s
      | NET_TRANSPORT_EVENT_READY \<Rightarrow> raise env (MQTT_CLIENT_EVENT_READY status) s
      | NET_TRANSPORT_EVENT_LOOKUP \<Rightarrow> Inr s)"

end
