(* ===== verification/MqttStream.thy ===== *)
theory MqttStream
  imports MqttClient MqttRoundtrip
begin

text \<open>
  The MQTT client and its stream: the packets of a broker, cut anywhere by the network, reach the handler one by one
  and in order.  The messages are the packets that the codec of the server writes.
\<close>

section \<open>Length fields that are cut off\<close>

lemma decode_later: "MQTTPacket_decode len mult val bs = Inr (k, l) \<Longrightarrow> len < k"
proof (induction len mult val bs rule: MQTTPacket_decode.induct)
  case (1 len mult val bs)
  then show ?case
    by (subst (asm) (2) MQTTPacket_decode.simps) (auto simp: Let_def split: if_splits list.splits intro: Suc_lessD)
qed

lemma decode_fault: "MQTTPacket_decode len mult val bs = Inl f \<Longrightarrow> f = Out_of_bounds"
proof (induction len mult val bs rule: MQTTPacket_decode.induct)
  case (1 len mult val bs)
  then show ?case by (subst (asm) (2) MQTTPacket_decode.simps) (auto simp: Let_def split: if_splits list.splits)
qed

lemma decode_cut:
  "\<forall>c \<in> set x. 128 \<le> unat c \<Longrightarrow> len + length x < 4 \<Longrightarrow>
   MQTTPacket_decode len mult val (x @ junk) = Inl Out_of_bounds \<or>
   (\<exists>k l. MQTTPacket_decode len mult val (x @ junk) = Inr (k, l) \<and> len + length x < k)"
proof (induction x arbitrary: len mult val)
  case Nil
  then show ?case
    using decode_later [of len mult val junk] decode_fault [of len mult val junk]
    by (cases "MQTTPacket_decode len mult val junk") auto
next
  case (Cons c x)
  then show ?case
    using Cons.IH [of "Suc len" "mult * 128" "val + unat c mod 128 * mult"]
    by (subst (1 2) MQTTPacket_decode.simps) (simp add: Let_def)
qed

lemma encode_continues: "MQTTPacket_encode n = x @ y \<Longrightarrow> y \<noteq> [] \<Longrightarrow> \<forall>c \<in> set x. 128 \<le> unat c"
proof (induction n arbitrary: x rule: MQTTPacket_encode.induct)
  case (1 n)
  show ?case
  proof (cases "n < 128")
    case True
    then show ?thesis using 1(2,3) by (cases x) (auto simp: encode_short)
  next
    case False
    then have n: "128 \<le> n" by simp
    have "unat (of_nat (n mod 128 + 128) :: byte) = n mod 128 + 128"
      by (rule unat_byte) (simp add: pos_mod_bound)
    note e = 1(2) [unfolded encode_long [OF n]]
    show ?thesis
    proof (cases x)
      case (Cons c x')
      then have "MQTTPacket_encode (n div 128) = x' @ y" "c = of_nat (n mod 128 + 128)" using e by simp_all
      moreover have "n div 128 > 0" using n by (simp add: div_greater_zero_iff)
      ultimately have "\<forall>c \<in> set x'. 128 \<le> unat c" using 1(1) 1(3) by blast
      then show ?thesis using Cons \<open>c = _\<close> \<open>unat _ = _\<close> by simp
    qed simp
  qed
qed

text \<open>Two bytes or more that end inside a length field.\<close>

definition incomplete_length :: "byte list \<Rightarrow> bool" where
  "incomplete_length p \<longleftrightarrow> 2 \<le> length p \<and> (\<forall>c \<in> set (tl p). 128 \<le> unat c)"

lemma packet_cut:
  assumes "h # MQTTPacket_encode n @ body = p @ q" "q \<noteq> []" "2 \<le> length p" "length body = n" "n < 268435456"
  shows "MQTTPacket_decodeBuf (drop 1 (p @ junk)) = Inl Out_of_bounds \<and> incomplete_length p \<or>
    (\<exists>k l. MQTTPacket_decodeBuf (drop 1 (p @ junk)) = Inr (k, l) \<and> length p < 1 + k + l)"
proof -
  obtain p' where p: "p = h # p'" "MQTTPacket_encode n @ body = p' @ q" using assms(1,3) by (cases p) auto
  show ?thesis
  proof (cases "length p' < length (MQTTPacket_encode n)")
    case True
    then obtain y where y: "MQTTPacket_encode n = p' @ y" "y \<noteq> []" using p(2) by (auto simp: append_eq_append_conv2)
    note big = encode_continues [OF y]
    have "length p' < 4" using True encode_length [of n 4] assms(5) by simp
    then show ?thesis using decode_cut [of p' 0 1 0 junk] big assms(3) by (auto simp: p incomplete_length_def MQTTPacket_decodeBuf_def)
  next
    case False
    then obtain b where b: "p' = MQTTPacket_encode n @ b" "body = b @ q" using p(2) by (auto simp: append_eq_append_conv2)
    then have "length b < n" using assms(2,4) by auto
    then show ?thesis using decode_encode [OF assms(5), of "b @ junk"] by (simp add: p b)
  qed
qed

section \<open>What a broker sends\<close>

datatype server_message =
    Srv_connack byte nat
  | Srv_publish nat int nat nat "byte list" "byte list"
  | Srv_suback nat int
  | Srv_unsuback nat
  | Srv_pingresp

definition written :: "(byte list \<times> int) exec \<Rightarrow> byte list" where
  "written r = (case r of Inr (bs, _) \<Rightarrow> bs | Inl _ \<Rightarrow> [])"

fun server_bytes :: "server_message \<Rightarrow> byte list" where
  "server_bytes (Srv_connack rc present) = written (MQTTSerialize_connack 4 rc present)"
| "server_bytes (Srv_publish dup qos retained i topic payload) =
     written (MQTTSerialize_publish (MQTTPacket_len (MQTTSerialize_publishLength qos (c_string (Some topic)) (length payload)))
       dup qos retained i (c_string (Some topic)) payload)"
| "server_bytes (Srv_suback i qos) = written (MQTTSerialize_suback 5 i [qos])"
| "server_bytes (Srv_unsuback i) = written (MQTTSerialize_unsuback 4 i)"
| "server_bytes Srv_pingresp = written (MQTTSerialize_zero 2 PINGRESP)"

fun server_ok :: "server_message \<Rightarrow> bool" where
  "server_ok (Srv_publish dup qos retained i topic payload) \<longleftrightarrow>
     dup < 2 \<and> 0 \<le> qos \<and> qos < 4 \<and> retained < 2 \<and> i < 65536 \<and> length topic < 65536 \<and> 0 \<notin> set topic \<and>
     length topic + length payload + 4 < 268435456"
| "server_ok (Srv_suback i qos) \<longleftrightarrow> i < 65536"
| "server_ok (Srv_unsuback i) \<longleftrightarrow> i < 65536"
| "server_ok _ \<longleftrightarrow> True"

text \<open>
  The events.  A publish packet with quality of service 0 has no identifier; the handler gets the value of a variable
  that nobody has set.
\<close>

fun server_events :: "'h mqtt_env \<Rightarrow> server_message \<Rightarrow> mqtt_event list" where
  "server_events env (Srv_connack rc present) =
     [MQTT_CLIENT_EVENT_STATE_CHANGE MQTT_CLIENT_STATE_OPEN, MQTT_CLIENT_EVENT_MESSAGE CONNACK]"
| "server_events env (Srv_publish dup qos retained i topic payload) =
     [MQTT_CLIENT_EVENT_PUBLISH (if qos > 0 then i else en_garbage env)
        \<lparr>pd_topic = topic, pd_payload = payload, pd_payload_size = length payload, pd_dup = dup, pd_qos = nat qos,
         pd_retained = retained\<rparr>,
      MQTT_CLIENT_EVENT_MESSAGE PUBLISH]"
| "server_events env (Srv_suback i qos) = [MQTT_CLIENT_EVENT_MESSAGE SUBACK]"
| "server_events env (Srv_unsuback i) = [MQTT_CLIENT_EVENT_MESSAGE UNSUBACK]"
| "server_events env Srv_pingresp = [MQTT_CLIENT_EVENT_MESSAGE PINGRESP]"

lemma plain_c_string: "length t < 65536 \<Longrightarrow> plain (c_string (Some t))" "contents (c_string (Some t)) = t"
  by (simp_all add: plain_def contents_def c_string_def mqtt_string0_def)

lemma server_packet:
  assumes "server_ok m"
  shows "\<exists>h body. server_bytes m = h # MQTTPacket_encode (length body) @ body \<and> length body < 268435456 \<and> 2 \<le> length (server_bytes m)"
proof -
  have e: "MQTTPacket_encode (length body) \<noteq> []" for body :: "byte list"
    by (subst MQTTPacket_encode.simps) simp
  have e2: "length (MQTTPacket_encode (length body)) \<ge> 1" for body :: "byte list" using e [of body] by (cases "MQTTPacket_encode (length body)") simp_all
  show ?thesis
  proof (cases m)
    case (Srv_publish dup qos retained i topic payload)
    let ?t = "c_string (Some topic)" and ?n = "MQTTSerialize_publishLength qos (c_string (Some topic)) (length payload)"
    let ?body = "writeInt (length topic) @ topic @ (if qos > 0 then writeInt i else []) @ payload"
    have t: "plain ?t" "contents ?t = topic" using plain_c_string assms Srv_publish by auto
    have n: "?n = length ?body" using plain_string(2) [OF t(1)] by (simp add: MQTTSerialize_publishLength_def t(2))
    have less: "?n < 268435456" unfolding n using assms Srv_publish by simp
    have "server_bytes m = header_byte PUBLISH dup (nat (qos mod 4)) retained # MQTTPacket_encode ?n @ ?body"
      using publish_bytes [OF t(1) less order_refl, of dup retained i] by (simp add: Srv_publish written_def Let_def t(2))
    then show ?thesis using n less e2 [of ?body] by (intro exI [of _ ?body] exI conjI) auto
  next
    case (Srv_connack rc present)
    then show ?thesis
      by (intro exI [of _ "[of_nat (present mod 2), rc]"] exI) (simp add: written_def MQTTSerialize_connack_def stored_def encode_short)
  next
    case (Srv_suback i qos)
    then show ?thesis
      by (intro exI [of _ "writeInt i @ [of_int qos]"] exI) (simp add: written_def MQTTSerialize_suback_def stored_def encode_short)
  next
    case (Srv_unsuback i)
    then show ?thesis
      by (intro exI [of _ "writeInt i"] exI) (simp add: written_def MQTTSerialize_unsuback_def stored_def encode_short)
  next
    case Srv_pingresp
    then show ?thesis by (intro exI [of _ "[]"] exI) (simp add: written_def MQTTSerialize_zero_def stored_def encode_short)
  qed
qed

section \<open>One message\<close>

text \<open>A handler that leaves the receiving side of the client alone; it may send.\<close>

definition keeps :: "'h mqtt_client \<Rightarrow> 'h mqtt_client \<Rightarrow> bool" where
  "keeps s t \<longleftrightarrow> mc_read_buffer t = mc_read_buffer s \<and> mc_read_offset t = mc_read_offset s \<and> mc_handler t = mc_handler s \<and>
     mc_ready_state t = mc_ready_state s"

definition quiet :: "'h mqtt_env \<Rightarrow> bool" where
  "quiet env \<longleftrightarrow> (\<forall>h ev s. \<exists>t. en_call env h ev s = Inr t \<and> keeps s t \<and> mc_events t = mc_events s)"

lemma raise_quiet:
  assumes "quiet env" "mc_handler s = Some h"
  obtains t where "raise env ev s = Inr t" "keeps s t" "mc_events t = mc_events s @ [ev]"
proof -
  from assms(1) obtain t where "en_call env h ev (s\<lparr>mc_events := mc_events s @ [ev]\<rparr>) = Inr t \<and>
      keeps (s\<lparr>mc_events := mc_events s @ [ev]\<rparr>) t \<and> mc_events t = mc_events (s\<lparr>mc_events := mc_events s @ [ev]\<rparr>)"
    unfolding quiet_def by blast
  then show thesis using that [of t] assms(2) by (simp add: raise_def keeps_def)
qed


lemma keeps_trans: "keeps r s \<Longrightarrow> keeps s t \<Longrightarrow> keeps r t"
  by (simp add: keeps_def)

lemma strndup_text: "0 \<notin> set t \<Longrightarrow> strndup (Some t) (length t) = Inr t"
  by (simp add: strndup_def takeWhile_eq_all_conv) (metis takeWhile_eq_all_conv)

lemma written_Inr: "written (Inr (bs, n)) = bs"
  by (simp add: written_def)

lemma serialized:
  "written (MQTTSerialize_connack 4 rc present) = [header_byte CONNACK 0 0 0, 2, of_nat (present mod 2), rc]"
  "written (MQTTSerialize_suback 5 i [qos]) = [header_byte SUBACK 0 0 0, 3] @ writeInt i @ [of_int qos]"
  "written (MQTTSerialize_unsuback 4 i) = [header_byte UNSUBACK 0 0 0, 2] @ writeInt i"
  "written (MQTTSerialize_zero 2 PINGRESP) = [header_byte PINGRESP 0 0 0, 0]"
  by (simp_all add: written_def MQTTSerialize_connack_def MQTTSerialize_suback_def MQTTSerialize_unsuback_def
      MQTTSerialize_zero_def stored_def encode_short)

lemma decode_byte: "unat c < 128 \<Longrightarrow> MQTTPacket_decodeBuf (c # bs) = Inr (1, unat c)"
  by (simp add: MQTTPacket_decodeBuf_def) (subst MQTTPacket_decode.simps, simp)

lemma header_types:
  "header_type (header_byte CONNACK 0 0 0) = CONNACK" "header_type (header_byte SUBACK 0 0 0) = SUBACK"
  "header_type (header_byte UNSUBACK 0 0 0) = UNSUBACK" "header_type (header_byte PINGRESP 0 0 0) = PINGRESP"
  by (rule header_members; simp)+

lemma connack_read:
  "\<exists>r. MQTTDeserialize_connack ([header_byte CONNACK 0 0 0, 2, a, b] @ rest) = Inr r"
  by (simp add: MQTTDeserialize_connack_def readChar_def decode_byte header_types)

lemma suback_read:
  "\<exists>r. MQTTDeserialize_suback 1 ([header_byte SUBACK 0 0 0, 3] @ writeInt i @ [c] @ rest) = Inr r"
proof -
  have "suback_loop (Suc 0) (h # l # a # b # c # rest) (Suc (Suc (Suc (Suc 0)))) 5 [] = Inr ([sint c], 1)" for h l a b
    by (subst suback_loop.simps, simp add: readChar_def, subst suback_loop.simps, simp)
  then show ?thesis by (simp add: MQTTDeserialize_suback_def readChar_def decode_byte header_types readInt_def writeInt_def)
qed

lemma on_message:
  assumes "quiet env" "mc_handler s = Some h" "mc_ready_state s = 0" "server_ok m"
  shows "\<exists>t. mqtt_client_on_message env (server_bytes m @ rest) s = Inr t \<and> keeps s t \<and>
    mc_events t = mc_events s @ server_events env m"
proof -
  have one: "\<exists>t. raise env ev s = Inr t \<and> keeps s t \<and> mc_events t = mc_events s @ [ev]" for ev
    using raise_quiet [OF assms(1,2)] by metis
  have two: "\<exists>t. and_then (raise env ev s) (\<lambda>s. raise env ev' s) = Inr t \<and> keeps s t \<and> mc_events t = mc_events s @ [ev, ev']" for ev ev'
  proof -
    obtain t where t: "raise env ev s = Inr t" "keeps s t" "mc_events t = mc_events s @ [ev]" using raise_quiet [OF assms(1,2)] .
    moreover have "mc_handler t = Some h" using t(2) assms(2) by (simp add: keeps_def)
    then obtain t' where "raise env ev' t = Inr t'" "keeps t t'" "mc_events t' = mc_events t @ [ev']"
      using raise_quiet [OF assms(1)] by blast
    ultimately show ?thesis using keeps_trans by fastforce
  qed
  show ?thesis
  proof (cases m)
    case (Srv_connack rc present)
    then show ?thesis
      using two connack_read [of "of_nat (present mod 2)" rc rest] assms(3)
      by (auto simp: serialized mqtt_client_on_message_def readChar_def header_types mqtt_client_set_state_def)
  next
    case (Srv_suback i qos)
    then show ?thesis using one suback_read [of i "of_int qos" rest]
      by (auto simp: serialized mqtt_client_on_message_def readChar_def header_types)
  next
    case (Srv_unsuback i)
    then show ?thesis using one by (simp add: serialized mqtt_client_on_message_def readChar_def header_types)
  next
    case Srv_pingresp
    then show ?thesis using one by (simp add: serialized mqtt_client_on_message_def readChar_def header_types)
  next
    case (Srv_publish dup qos retained i topic payload)
    let ?t = "c_string (Some topic)" and ?n = "MQTTSerialize_publishLength qos (c_string (Some topic)) (length payload)"
    have t: "plain ?t" "contents ?t = topic" using plain_c_string assms(4) Srv_publish by auto
    have less: "?n < 268435456"
      using plain_string(2) [OF t(1)] assms(4) Srv_publish by (simp add: MQTTSerialize_publishLength_def t(2))
    obtain bs where bs: "MQTTSerialize_publish (MQTTPacket_len ?n) dup qos retained i ?t payload = Inr (bs, int (length bs))"
      "MQTTDeserialize_publish (publish_start env) (bs @ rest) =
        Inr ((publish_start env)\<lparr>pb_dup := dup, pb_qos := nat qos, pb_retained := retained, pb_topic := received (contents ?t),
          pb_packetid := (if qos > 0 then i else pb_packetid (publish_start env)), pb_payload := payload @ rest,
          pb_payloadlen := int (length payload)\<rparr>, 1)"
      using publish_core [OF t(1) less order_refl, of dup retained i "publish_start env" rest] assms(4) Srv_publish by auto
    have m: "server_bytes m = bs" using bs(1) by (simp add: Srv_publish written_def)
    obtain c bs' where c: "bs = c # bs'" "header_type c = PUBLISH"
      using publish_bytes [OF t(1) less order_refl, of dup retained i] bs(1) header_members [of PUBLISH dup "nat (qos mod 4)" retained]
      by (auto simp: Let_def)
    have size: "nat (int (length payload) mod 2 ^ 32) = length payload"
      using assms(4) Srv_publish by (simp add: nat_mod_as_int [symmetric] mod_pos_pos_trivial)
    have garbage: "pb_packetid (publish_start env) = en_garbage env" by (simp add: publish_start_def)
    obtain out where out: "MQTTDeserialize_publish (publish_start env) (c # bs' @ rest) = Inr (out, 1)"
      "pb_dup out = dup" "pb_qos out = nat qos" "pb_retained out = retained" "pb_topic out = received topic"
      "pb_packetid out = (if qos > 0 then i else en_garbage env)" "pb_payload out = payload @ rest" "pb_payloadlen out = int (length payload)"
      by (rule that [OF bs(2) [unfolded c(1) t(2) append_Cons garbage]]) simp_all
    have topic: "strndup (Some topic) (length topic) = Inr topic" using assms(4) Srv_publish by (simp add: strndup_text)
    have "mqtt_client_on_message env (c # bs' @ rest) s =
        and_then (raise env (MQTT_CLIENT_EVENT_PUBLISH (if qos > 0 then i else en_garbage env)
          \<lparr>pd_topic = topic, pd_payload = payload, pd_payload_size = length payload, pd_dup = dup, pd_qos = nat qos,
           pd_retained = retained\<rparr>) s) (raise env (MQTT_CLIENT_EVENT_MESSAGE PUBLISH))"
      by (simp add: mqtt_client_on_message_def readChar_def c(2) out size [simplified] topic received_def Let_def)
    then show ?thesis using two by (simp add: m c(1)) (simp add: Srv_publish)
  qed
qed


section \<open>The stream\<close>

definition unconsumed :: "'h mqtt_client \<Rightarrow> byte list" where
  "unconsumed s = drop (mc_read_offset s) (dbuffer_contents (mc_read_buffer s))"

text \<open>The state between two inputs, with a handler and an allocator that does not fail.\<close>

definition receiving :: "'h \<Rightarrow> 'h mqtt_client \<Rightarrow> bool" where
  "receiving h s \<longleftrightarrow> mc_handler s = Some h \<and> mc_ready_state s = 0 \<and> dbuffer_ok (mc_read_buffer s) \<and>
     \<not> db_error (mc_read_buffer s) \<and> (\<forall>b n. db_realloc (mc_read_buffer s) b n \<noteq> None) \<and>
     mc_read_offset s \<le> db_size (mc_read_buffer s) \<and> db_size (mc_read_buffer s) < 2 ^ 32"

definition broker_bytes :: "server_message list \<Rightarrow> byte list" where
  "broker_bytes ms = concat (map server_bytes ms)"

definition broker_events :: "'h mqtt_env \<Rightarrow> server_message list \<Rightarrow> mqtt_event list" where
  "broker_events env ms = concat (map (server_events env) ms)"

lemma broker_simps [simp]:
  "broker_bytes [] = []" "broker_bytes (m # ms) = server_bytes m @ broker_bytes ms" "broker_bytes (xs @ ys) = broker_bytes xs @ broker_bytes ys"
  "broker_events env [] = []" "broker_events env (m # ms) = server_events env m @ broker_events env ms"
  "broker_events env (xs @ ys) = broker_events env xs @ broker_events env ys"
  by (simp_all add: broker_bytes_def broker_events_def)

text \<open>The bytes left over belong to a message that has not arrived in full.\<close>

definition left_over :: "byte list \<Rightarrow> bool" where
  "left_over p \<longleftrightarrow> p = [] \<or> (\<exists>m q. server_ok m \<and> server_bytes m = p @ q \<and> q \<noteq> [])"

lemma memory_split:
  "receiving h s \<Longrightarrow> drop (mc_read_offset s) (db_buf (mc_read_buffer s)) =
     unconsumed s @ drop (db_size (mc_read_buffer s)) (db_buf (mc_read_buffer s))"
proof -
  assume "receiving h s"
  then have "mc_read_offset s \<le> length (dbuffer_contents (mc_read_buffer s))"
    by (simp add: receiving_def dbuffer_contents_def dbuffer_ok_def)
  moreover have "db_buf (mc_read_buffer s) = dbuffer_contents (mc_read_buffer s) @ drop (db_size (mc_read_buffer s)) (db_buf (mc_read_buffer s))"
    by (simp add: dbuffer_contents_def)
  ultimately show ?thesis by (metis drop_append diff_is_0_eq drop0 unconsumed_def)
qed

lemma length_unconsumed: "receiving h s \<Longrightarrow> length (unconsumed s) = db_size (mc_read_buffer s) - mc_read_offset s"
  by (simp add: receiving_def unconsumed_def dbuffer_contents_def dbuffer_ok_def)

lemma receiving_keeps: "receiving h s \<Longrightarrow> keeps s t \<Longrightarrow> receiving h t \<and> unconsumed t = unconsumed s"
  by (simp add: receiving_def keeps_def unconsumed_def)

text \<open>What the loop does with the packet at its front.\<close>

definition advance :: "nat \<Rightarrow> nat \<Rightarrow> 'h mqtt_client \<Rightarrow> 'h mqtt_client" where
  "advance n left s =
     (if left = 0 then s\<lparr>mc_read_buffer := (mc_read_buffer s)\<lparr>db_size := 0\<rparr>, mc_read_offset := 0\<rparr>
      else s\<lparr>mc_read_offset := (mc_read_offset s + n) mod 2 ^ 32\<rparr>)"

lemma receiving_advance:
  assumes "receiving h s" "unconsumed s = a @ b"
  shows "receiving h (advance (length a) (length b) s) \<and> unconsumed (advance (length a) (length b) s) = b \<and>
    db_size (mc_read_buffer (advance (length a) (length b) s)) \<le> db_size (mc_read_buffer s)"
proof -
  have "length a + length b = db_size (mc_read_buffer s) - mc_read_offset s" using length_unconsumed [OF assms(1)] assms(2) by simp
  moreover have "mc_read_offset s \<le> db_size (mc_read_buffer s)" "db_size (mc_read_buffer s) < 2 ^ 32" using assms(1) by (simp_all add: receiving_def)
  ultimately have off: "mc_read_offset s + length a \<le> db_size (mc_read_buffer s)" "(mc_read_offset s + length a) mod 2 ^ 32 = mc_read_offset s + length a" by simp_all
  have "unconsumed (s\<lparr>mc_read_offset := mc_read_offset s + length a\<rparr>) = b"
    using assms(2) by (simp add: unconsumed_def) (metis add.commute append_eq_conv_conj drop_drop)
  then show ?thesis using assms(1) off
    by (auto simp: advance_def receiving_def unconsumed_def dbuffer_contents_def dbuffer_ok_def)
qed

lemma input_loop_step:
  assumes "drop (mc_read_offset s) (db_buf (mc_read_buffer s)) = mem" "readChar mem 0 = Inr (c, k)"
    and "MQTTPacket_decodeBuf (drop 1 mem) = Inr (n, l)" "2 \<le> dl" "1 + n + l = len" "len \<le> dl"
    and "mqtt_client_on_message env mem s = Inr t"
  shows "input_loop env dl s = input_loop env (dl - len) (advance len (dl - len) t)"
  by (subst input_loop.simps) (use assms in \<open>simp add: Let_def advance_def del: One_nat_def\<close>)

lemma input_loop_packet:
  assumes "quiet env" "receiving h s" "server_ok m" "unconsumed s = server_bytes m @ u"
  shows "\<exists>t. keeps s t \<and> mc_events t = mc_events s @ server_events env m \<and>
    input_loop env (length (server_bytes m @ u)) s = input_loop env (length u) (advance (length (server_bytes m)) (length u) t)"
proof -
  obtain hd body where b: "server_bytes m = hd # MQTTPacket_encode (length body) @ body" "length body < 268435456"
    "2 \<le> length (server_bytes m)" using server_packet [OF assms(3)] by blast
  define junk where "junk = drop (db_size (mc_read_buffer s)) (db_buf (mc_read_buffer s))"
  have mem: "drop (mc_read_offset s) (db_buf (mc_read_buffer s)) = server_bytes m @ u @ junk"
    using memory_split [OF assms(2)] assms(4) by (simp add: junk_def)
  have "mc_handler s = Some h" "mc_ready_state s = 0" using assms(2) by (simp_all add: receiving_def)
  from on_message [OF assms(1) this assms(3), of "u @ junk"]
  obtain t where t: "mqtt_client_on_message env (server_bytes m @ u @ junk) s = Inr t" "keeps s t"
    "mc_events t = mc_events s @ server_events env m" by blast
  have dec: "MQTTPacket_decodeBuf (drop 1 (server_bytes m @ u @ junk)) = Inr (length (MQTTPacket_encode (length body)), length body)"
    using decode_encode [OF b(2), of "body @ u @ junk"] by (simp add: b(1))
  have len: "1 + length (MQTTPacket_encode (length body)) + length body = length (server_bytes m)" by (simp add: b(1))
  have "readChar (server_bytes m @ u @ junk) 0 = Inr (hd, 1)" by (simp add: readChar_def b(1))
  then have "input_loop env (length (server_bytes m @ u)) s = input_loop env (length u) (advance (length (server_bytes m)) (length u) t)"
    using input_loop_step [OF mem _ dec _ len _ t(1), of hd 1 "length (server_bytes m @ u)"] b(3) by simp
  then show ?thesis using t(2,3) by blast
qed


lemma input_loop_rest:
  assumes "receiving h s" "unconsumed s = p" "left_over p"
  shows "input_loop env (length p) s = Inl Out_of_bounds \<and> incomplete_length p \<or> input_loop env (length p) s = Inr s"
proof (cases "length p < 2")
  case True
  then show ?thesis by (subst (2) input_loop.simps) simp
next
  case False
  define junk where "junk = drop (db_size (mc_read_buffer s)) (db_buf (mc_read_buffer s))"
  have mem: "drop (mc_read_offset s) (db_buf (mc_read_buffer s)) = p @ junk"
    using memory_split [OF assms(1)] assms(2) by (simp add: junk_def)
  obtain m q where m: "server_ok m" "server_bytes m = p @ q" "q \<noteq> []" using assms(3) False by (auto simp: left_over_def)
  obtain c body where b: "c # MQTTPacket_encode (length body) @ body = p @ q" "length body < 268435456"
    using server_packet [OF m(1)] m(2) by metis
  have "readChar (p @ junk) 0 = Inr (p ! 0, 1)" using False by (cases p) (simp_all add: readChar_def)
  moreover have "MQTTPacket_decodeBuf (drop 1 (p @ junk)) = Inl Out_of_bounds \<and> incomplete_length p \<or>
      (\<exists>k l. MQTTPacket_decodeBuf (drop 1 (p @ junk)) = Inr (k, l) \<and> length p < 1 + k + l)"
    using packet_cut [OF b(1) m(3) _ refl b(2)] False by simp
  ultimately show ?thesis using False by (subst (1 2) input_loop.simps) (auto simp: mem Let_def)
qed

lemma input_loop_messages:
  assumes "quiet env" "\<forall>m \<in> set ms. server_ok m" "left_over p"
  shows "receiving h s \<Longrightarrow> unconsumed s = broker_bytes ms @ p \<Longrightarrow>
    input_loop env (length (broker_bytes ms @ p)) s = Inl Out_of_bounds \<and> incomplete_length p \<or>
    (\<exists>t. input_loop env (length (broker_bytes ms @ p)) s = Inr t \<and> receiving h t \<and> unconsumed t = p \<and>
      db_size (mc_read_buffer t) \<le> db_size (mc_read_buffer s) \<and> mc_events t = mc_events s @ broker_events env ms)"
  using assms(2)
proof (induction ms arbitrary: s)
  case Nil
  then show ?case using input_loop_rest [OF Nil(1), of p env] assms(3) by auto
next
  case (Cons m ms)
  let ?u = "broker_bytes ms @ p"
  have ok: "server_ok m" "\<forall>m \<in> set ms. server_ok m" using Cons.prems(3) by simp_all
  have u: "unconsumed s = server_bytes m @ ?u" using Cons.prems(2) by simp
  obtain t where t: "keeps s t" "mc_events t = mc_events s @ server_events env m"
    "input_loop env (length (server_bytes m @ ?u)) s = input_loop env (length ?u) (advance (length (server_bytes m)) (length ?u) t)"
    using input_loop_packet [OF assms(1) Cons.prems(1) ok(1) u] by blast
  let ?a = "advance (length (server_bytes m)) (length ?u) t"
  have "receiving h t" "unconsumed t = server_bytes m @ ?u" using receiving_keeps [OF Cons.prems(1) t(1)] u by simp_all
  note a = receiving_advance [OF this]
  have ev: "mc_events ?a = mc_events s @ server_events env m" using t(2) by (simp add: advance_def)
  have "mc_read_buffer t = mc_read_buffer s" using t(1) by (simp add: keeps_def)
  then show ?case using Cons.IH [of ?a] a ok(2) t(3) ev by (auto intro: order_trans)
qed

lemma on_input_messages:
  assumes "quiet env" "receiving h s" "\<forall>m \<in> set ms. server_ok m" "left_over p"
    and "unconsumed s @ data = broker_bytes ms @ p" "data \<noteq> []" "db_size (mc_read_buffer s) + length data < 2 ^ 32"
  shows "mqtt_client_on_input env (int (length data)) data s = Inl Out_of_bounds \<and> incomplete_length p \<or>
    (\<exists>t. mqtt_client_on_input env (int (length data)) data s = Inr t \<and> receiving h t \<and> unconsumed t = p \<and>
      db_size (mc_read_buffer t) \<le> db_size (mc_read_buffer s) + length data \<and> mc_events t = mc_events s @ broker_events env ms)"
proof -
  have "dbuffer_ok (mc_read_buffer s)" "\<not> db_error (mc_read_buffer s)" "\<And>c n. db_realloc (mc_read_buffer s) c n \<noteq> None"
    using assms(2) by (auto simp: receiving_def)
  from put_granted [OF this, of data] assms(7)
  obtain b where b: "dbuffer_put (mc_read_buffer s) data = Inr (b, 0)" "dbuffer_ok b"
    "dbuffer_contents b = dbuffer_contents (mc_read_buffer s) @ data" "\<not> db_error b" "db_realloc b = db_realloc (mc_read_buffer s)"
    "db_size b = db_size (mc_read_buffer s) + length data" by auto
  let ?s = "s\<lparr>mc_read_buffer := b\<rparr>"
  have r: "receiving h ?s" using assms(2,7) b by (auto simp: receiving_def)
  have off: "mc_read_offset s \<le> length (dbuffer_contents (mc_read_buffer s))"
    using assms(2) by (simp add: receiving_def dbuffer_contents_def dbuffer_ok_def)
  then have u: "unconsumed ?s = broker_bytes ms @ p" using assms(5) by (simp add: unconsumed_def b(3))
  have "int (db_size b) - int (mc_read_offset s) = int (length (broker_bytes ms @ p))"
    using length_unconsumed [OF r] r u by (simp add: receiving_def)
  moreover have "length (broker_bytes ms @ p) < 2 ^ 32" using length_unconsumed [OF r] assms(7) b(6) u by simp
  ultimately have dl: "nat ((int (db_size b) - int (mc_read_offset s)) mod 2 ^ 32) = length (broker_bytes ms @ p)"
    by (simp add: nat_mod_as_int [symmetric])
  have "mqtt_client_on_input env (int (length data)) data s = input_loop env (length (broker_bytes ms @ p)) ?s"
    using assms(6) by (simp add: mqtt_client_on_input_def b(1) dl [simplified] Let_def)
  then show ?thesis using input_loop_messages [OF assms(1,3,4) r u] b(6) by simp
qed

text \<open>The reads of the transport, one after the other.\<close>

fun feed :: "'h mqtt_env \<Rightarrow> byte list list \<Rightarrow> 'h mqtt_client \<Rightarrow> 'h mqtt_client exec" where
  "feed env [] s = Inr s"
| "feed env (c # cs) s = and_then (mqtt_client_on_input env (int (length c)) c s) (feed env cs)"

text \<open>\<open>bs\<close> is the beginning of what the broker sends, and ends inside the length field of a packet.\<close>

definition ends_in_length :: "server_message list \<Rightarrow> byte list \<Rightarrow> bool" where
  "ends_in_length ms bs \<longleftrightarrow> (\<exists>a b p. ms = a @ b \<and> bs = broker_bytes a @ p \<and> incomplete_length p)"

text \<open>The beginning of the next message, if there is one.\<close>

definition waiting :: "server_message list \<Rightarrow> byte list \<Rightarrow> bool" where
  "waiting ms p \<longleftrightarrow> (case ms of [] \<Rightarrow> p = [] | m # _ \<Rightarrow> \<exists>q. server_bytes m = p @ q \<and> q \<noteq> [])"

lemma waiting_left_over: "waiting ms p \<Longrightarrow> \<forall>m \<in> set ms. server_ok m \<Longrightarrow> left_over p"
  by (auto simp: waiting_def left_over_def split: list.splits)

lemma cut_messages:
  "\<forall>m \<in> set ms. server_ok m \<Longrightarrow> broker_bytes ms = x @ y \<Longrightarrow>
   \<exists>a b p. ms = a @ b \<and> x = broker_bytes a @ p \<and> waiting b p \<and> p @ y = broker_bytes b"
proof (induction ms arbitrary: x)
  case Nil
  then show ?case by (intro exI [of _ "[]"]) (simp add: waiting_def)
next
  case (Cons m ms)
  show ?case
  proof (cases "length x < length (server_bytes m)")
    case True
    then obtain q where q: "server_bytes m = x @ q" "q \<noteq> []" using Cons.prems(2) by (auto simp: append_eq_append_conv2)
    then have "waiting (m # ms) x" by (simp add: waiting_def)
    then show ?thesis using Cons.prems(2) by (intro exI [of _ "[]"] exI [of _ "m # ms"] exI [of _ x]) simp
  next
    case False
    then obtain x' where x: "x = server_bytes m @ x'" "broker_bytes ms = x' @ y"
      using Cons.prems(2) by (auto simp: append_eq_append_conv2)
    obtain a b p where "ms = a @ b" "x' = broker_bytes a @ p" "waiting b p" "p @ y = broker_bytes b"
      using Cons.IH [OF _ x(2)] Cons.prems(1) by auto
    then show ?thesis using x by (intro exI [of _ "m # a"] exI [of _ b] exI [of _ p]) simp
  qed
qed

lemma ends_in_length_Cons: "ends_in_length b bs \<Longrightarrow> ends_in_length (a @ b) (broker_bytes a @ bs)"
  unfolding ends_in_length_def by (metis append.assoc broker_simps(3))

definition outcome :: "'h mqtt_env \<Rightarrow> 'h \<Rightarrow> server_message list \<Rightarrow> byte list list \<Rightarrow> 'h mqtt_client \<Rightarrow> bool" where
  "outcome env h ms cs s \<longleftrightarrow>
     (\<exists>t. feed env cs s = Inr t \<and> receiving h t \<and> unconsumed t = [] \<and> mc_events t = mc_events s @ broker_events env ms) \<or>
     feed env cs s = Inl Out_of_bounds \<and> (\<exists>k \<le> length cs. ends_in_length ms (unconsumed s @ concat (take k cs)))"

lemma feed_messages:
  assumes "quiet env"
  shows "receiving h s \<Longrightarrow> \<forall>m \<in> set ms. server_ok m \<Longrightarrow> unconsumed s @ concat cs = broker_bytes ms \<Longrightarrow> [] \<notin> set cs \<Longrightarrow>
    waiting ms (unconsumed s) \<Longrightarrow> db_size (mc_read_buffer s) + length (concat cs) < 2 ^ 32 \<Longrightarrow> outcome env h ms cs s"
proof (induction cs arbitrary: s ms)
  case Nil
  then have "ms = []" by (auto simp: waiting_def split: list.splits)
  then show ?case using Nil by (simp add: outcome_def)
next
  case (Cons c cs)
  obtain a b p where p: "ms = a @ b" "unconsumed s @ c = broker_bytes a @ p" "waiting b p" "p @ concat cs = broker_bytes b"
    using cut_messages [OF Cons.prems(2), of "unconsumed s @ c" "concat cs"] Cons.prems(3) by auto
  have ok: "\<forall>m \<in> set a. server_ok m" "\<forall>m \<in> set b. server_ok m" using Cons.prems(2) p(1) by auto
  have c: "c \<noteq> []" "db_size (mc_read_buffer s) + length c < 2 ^ 32" using Cons.prems(4,6) by auto
  from on_input_messages [OF assms Cons.prems(1) ok(1) waiting_left_over [OF p(3) ok(2)] p(2) c]
  consider "mqtt_client_on_input env (int (length c)) c s = Inl Out_of_bounds" "incomplete_length p"
    | t where "mqtt_client_on_input env (int (length c)) c s = Inr t" "receiving h t" "unconsumed t = p"
      "db_size (mc_read_buffer t) \<le> db_size (mc_read_buffer s) + length c" "mc_events t = mc_events s @ broker_events env a"
    by blast
  then show ?case
  proof cases
    case 1
    then have "ends_in_length ms (unconsumed s @ concat (take 1 (c # cs)))" using p(1,2) by (auto simp: ends_in_length_def)
    then show ?thesis using 1(1) by (auto simp: outcome_def intro!: exI [of _ 1])
  next
    case 2
    have "outcome env h b cs t" using Cons.IH [OF 2(2) ok(2)] p(3,4) 2(3,4) Cons.prems(4,6) by simp
    then consider u where "feed env cs t = Inr u" "receiving h u" "unconsumed u = []" "mc_events u = mc_events t @ broker_events env b"
      | k where "feed env cs t = Inl Out_of_bounds" "k \<le> length cs" "ends_in_length b (p @ concat (take k cs))"
      using 2(3) by (auto simp: outcome_def)
    then show ?thesis
    proof cases
      case (2 k)
      have "ends_in_length ms (unconsumed s @ concat (take (Suc k) (c # cs)))"
        using ends_in_length_Cons [OF 2(3), of a] p(1)
        by (simp only: take_Suc_Cons concat.simps append_assoc [symmetric] p(2))
      then show ?thesis using \<open>mqtt_client_on_input env _ c s = Inr t\<close> 2(1,2)
        by (auto simp: outcome_def intro!: exI [of _ "Suc k"])
    qed (use 2 p(1) in \<open>auto simp: outcome_def\<close>)
  qed
qed

text \<open>A client that has just been created and given its handler.\<close>

definition fresh_client :: "'h \<Rightarrow> (nat \<Rightarrow> byte) \<Rightarrow> 'h mqtt_client" where
  "fresh_client h fill = mqtt_client_set_handler (Some h) (mqtt_client_create (\<lambda>_. True) fill)"

lemma fresh_receiving: "receiving h (fresh_client h fill)" "unconsumed (fresh_client h fill) = []"
  using init_ok(1) [OF default_realloc_ok, of "\<lambda>_. True" fill]
  by (simp_all add: fresh_client_def receiving_def unconsumed_def mqtt_client_set_handler_def mqtt_client_create_def dbuffer_init_def
      dbuffer_init2_def dbuffer_default_realloc_def dbuffer_contents_def)

lemma ends_in_length_last: "ends_in_length ms bs \<Longrightarrow> 128 \<le> unat (last bs) \<and> bs \<noteq> []"
proof -
  assume "ends_in_length ms bs"
  then obtain a p where p: "bs = a @ p" "incomplete_length p" unfolding ends_in_length_def by blast
  then obtain c c' p' where "p = c # c' # p'" unfolding incomplete_length_def
    by (metis One_nat_def Suc_1 Suc_le_length_iff)
  then show ?thesis using p by (simp add: incomplete_length_def)
qed

text \<open>
  C25.  The messages of a broker reach the handler of a fresh client one by one, in order and with their contents,
  however the network cuts the stream, and nothing stays in the buffer.  The one exception is a read that ends inside
  the length field of a packet: then the client may read past the end of its buffer instead.
\<close>

theorem mqtt_stream_delivered:
  assumes "quiet env" "\<forall>m \<in> set ms. server_ok m" "concat cs = broker_bytes ms" "[] \<notin> set cs" "length (concat cs) < 2 ^ 32"
  shows "(\<exists>t. feed env cs (fresh_client h fill) = Inr t \<and> mc_events t = broker_events env ms \<and> unconsumed t = []) \<or>
    feed env cs (fresh_client h fill) = Inl Out_of_bounds \<and> (\<exists>k \<le> length cs. ends_in_length ms (concat (take k cs)))"
proof -
  have "waiting ms []"
    using assms(2) server_packet by (fastforce simp: waiting_def split: list.splits)
  moreover have ev: "mc_events (fresh_client h fill) = []" and "db_size (mc_read_buffer (fresh_client h fill)) = 0"
    by (simp_all add: fresh_client_def mqtt_client_set_handler_def mqtt_client_create_def dbuffer_init_def dbuffer_init2_def)
  ultimately have "outcome env h ms cs (fresh_client h fill)"
    using feed_messages [OF assms(1) fresh_receiving(1) [of h fill], where ms = ms and cs = cs] fresh_receiving(2) [of h fill] assms(2-5)
    by simp
  then show ?thesis using fresh_receiving(2) [of h fill] ev by (auto simp: outcome_def)
qed

text \<open>A handler that does nothing, and three reads that do not end in a length field; then three that do.\<close>

definition idle :: "unit mqtt_env" where
  "idle = \<lparr>en_call = (\<lambda>_ _ s. Inr s), en_alloc = (\<lambda>_. True), en_connect = (\<lambda>_ _ _. None), en_write = (\<lambda>_ _. 0),
     en_ready = (\<lambda>_. 1), en_garbage = 0\<rparr>"

lemma overread:
  "feed idle [[0xD0], [0x00, 0xB0, 2, 0, 1, 0x30, 0x80, 0x80]] (fresh_client () (\<lambda>_. 0)) = Inl Out_of_bounds"
proof -
  note state = fresh_client_def mqtt_client_set_handler_def mqtt_client_create_def dbuffer_init_def dbuffer_init2_def
    dbuffer_default_realloc_def dbuffer_put_def make_room_def dbuffer_realloc_def copy_in_def size_t_def Let_def
  define b where "b = (dbuffer_init2 (dbuffer_default_realloc (\<lambda>_. True) (\<lambda>_. 0)))
    \<lparr>db_buf := [0xD0, 0, 0, 0, 0, 0, 0, 0, 0], db_size := 1, db_allocated := 9\<rparr>"
  define b' where "b' = b\<lparr>db_buf := [0xD0, 0x00, 0xB0, 2, 0, 1, 0x30, 0x80, 0x80], db_size := 9\<rparr>"
  have 1: "mqtt_client_on_input idle 1 [0xD0] (fresh_client () (\<lambda>_. 0)) = Inr ((fresh_client () (\<lambda>_. 0))\<lparr>mc_read_buffer := b\<rparr>)"
    by (simp add: mqtt_client_on_input_def state b_def upt_rec) (subst input_loop.simps, simp)
  have put: "dbuffer_put b [0x00, 0xB0, 2, 0, 1, 0x30, 0x80, 0x80] = Inr (b', 0)"
    by (simp add: state b_def b'_def)
  have 2: "mqtt_client_on_input idle 8 [0x00, 0xB0, 2, 0, 1, 0x30, 0x80, 0x80] ((fresh_client () (\<lambda>_. 0))\<lparr>mc_read_buffer := b\<rparr>) =
      input_loop idle 9 ((fresh_client () (\<lambda>_. 0))\<lparr>mc_read_buffer := b'\<rparr>)"
    by (simp add: mqtt_client_on_input_def put) (simp add: b'_def fresh_client_def mqtt_client_set_handler_def mqtt_client_create_def)
  define s where "s = (fresh_client () (\<lambda>_. 0))\<lparr>mc_read_buffer := b'\<rparr>"
  define s1 where "s1 = s\<lparr>mc_events := [MQTT_CLIENT_EVENT_MESSAGE 13], mc_read_offset := Suc (Suc 0)\<rparr>"
  define s2 where "s2 = s\<lparr>mc_events := [MQTT_CLIENT_EVENT_MESSAGE 13, MQTT_CLIENT_EVENT_MESSAGE 11], mc_read_offset := 6\<rparr>"
  note parts = s_def b'_def fresh_client_def mqtt_client_set_handler_def mqtt_client_create_def
  note message = mqtt_client_on_message_def readChar_def header_type_def raise_def idle_def
  have c: "MQTTPacket_decode 0 1 0 [0x80, 0x80] = Inl Out_of_bounds"
    by (subst MQTTPacket_decode.simps, simp, subst MQTTPacket_decode.simps, simp, subst MQTTPacket_decode.simps, simp)
  have "input_loop idle 9 s = input_loop idle 7 s1"
    by (subst input_loop.simps) (simp add: parts message decode_byte s1_def)
  also have "\<dots> = input_loop idle 3 s2"
    by (subst input_loop.simps) (simp add: parts message decode_byte s1_def s2_def)
  also have "\<dots> = Inl Out_of_bounds"
    by (subst input_loop.simps) (simp add: parts readChar_def MQTTPacket_decodeBuf_def c [simplified] s2_def)
  finally show ?thesis by (simp add: 1 2 s_def)
qed

theorem mqtt_stream_delivered_witness:
  "(\<exists>t. feed idle [[0x20], [2, 1, 0, 0x32, 10, 0, 3, 0x61, 0x2F], [0x62, 0, 7, 1, 2, 3]] (fresh_client () (\<lambda>_. 0)) = Inr t \<and>
     mc_events t = [MQTT_CLIENT_EVENT_STATE_CHANGE 2, MQTT_CLIENT_EVENT_MESSAGE 2,
       MQTT_CLIENT_EVENT_PUBLISH 7 \<lparr>pd_topic = [0x61, 0x2F, 0x62], pd_payload = [1, 2, 3], pd_payload_size = 3, pd_dup = 0, pd_qos = 1,
         pd_retained = 0\<rparr>, MQTT_CLIENT_EVENT_MESSAGE 3]) \<and>
   feed idle [[0xD0], [0x00, 0xB0, 2, 0, 1, 0x30, 0x80, 0x80]] (fresh_client () (\<lambda>_. 0)) = Inl Out_of_bounds"
proof
  let ?ms = "[Srv_connack 0 1, Srv_publish 0 1 0 7 [0x61, 0x2F, 0x62] [1, 2, 3]]"
  let ?cs = "[[0x20], [2, 1, 0, 0x32, 10, 0, 3, 0x61, 0x2F], [0x62, 0, 7, 1, 2, 3]] :: byte list list"
  have q: "quiet idle" by (simp add: quiet_def idle_def keeps_def)
  have bytes: "concat ?cs = broker_bytes ?ms"
    by (simp add: serialized MQTTSerialize_publishLength_def MQTTstrlen_def c_string_def mqtt_string0_def written_Inr
        MQTTSerialize_publish_def MQTTPacket_len_def stored_def encode_short header_byte_def writeInt_def writeMQTTString_def writeCString_def Let_def)
  have last: "\<not> ends_in_length ?ms (concat (take k ?cs))" if "k \<le> length ?cs" for k
  proof -
    have "k \<in> {0, 1, 2, 3}" using that by auto
    then have "unat (last (concat (take k ?cs))) < 128 \<or> concat (take k ?cs) = []" by auto
    then show ?thesis using ends_in_length_last by (meson not_le)
  qed
  have events: "broker_events idle ?ms = [MQTT_CLIENT_EVENT_STATE_CHANGE 2, MQTT_CLIENT_EVENT_MESSAGE 2,
      MQTT_CLIENT_EVENT_PUBLISH 7 \<lparr>pd_topic = [0x61, 0x2F, 0x62], pd_payload = [1, 2, 3], pd_payload_size = 3, pd_dup = 0, pd_qos = 1,
        pd_retained = 0\<rparr>, MQTT_CLIENT_EVENT_MESSAGE 3]" by simp
  have "\<exists>t. feed idle ?cs (fresh_client () (\<lambda>_. 0)) = Inr t \<and> mc_events t = broker_events idle ?ms"
    using mqtt_stream_delivered [OF q _ bytes, of "()" "\<lambda>_. 0"] last by auto
  then show "\<exists>t. feed idle ?cs (fresh_client () (\<lambda>_. 0)) = Inr t \<and>
     mc_events t = [MQTT_CLIENT_EVENT_STATE_CHANGE 2, MQTT_CLIENT_EVENT_MESSAGE 2,
       MQTT_CLIENT_EVENT_PUBLISH 7 \<lparr>pd_topic = [0x61, 0x2F, 0x62], pd_payload = [1, 2, 3], pd_payload_size = 3, pd_dup = 0, pd_qos = 1,
         pd_retained = 0\<rparr>, MQTT_CLIENT_EVENT_MESSAGE 3]" unfolding events .
qed (rule overread)

end
