(* ===== verification/HttpServer.thy ===== *)
theory HttpServer
  imports Dbuffer HttpRequest
begin

text \<open>
  The HTTP server of \<^verbatim>\<open>modules/networking/libhttp/src/http-server.c\<close>: the callbacks that collect a request,
  the response with its buffer, and the table of connections.  The streaming parser that calls the callbacks, the
  sockets and the application's handlers are outside the sources modelled here: the first is the sequence of its calls, the others
  are functions of an environment.  Allocations succeed.
\<close>

section \<open>Collecting a request\<close>

abbreviation (input) HTTP_HEADER_MAX :: nat where "HTTP_HEADER_MAX \<equiv> 64"
abbreviation (input) HTTP_CLIENT_MAX :: nat where "HTTP_CLIENT_MAX \<equiv> 100"

abbreviation (input) HTTP_SERVER_STATE_OPENED :: nat where "HTTP_SERVER_STATE_OPENED \<equiv> 1"
abbreviation (input) HTTP_SERVER_STATE_HEADERS_RECEIVED :: nat where "HTTP_SERVER_STATE_HEADERS_RECEIVED \<equiv> 2"
abbreviation (input) HTTP_SERVER_STATE_LOADING :: nat where "HTTP_SERVER_STATE_LOADING \<equiv> 3"
abbreviation (input) HTTP_SERVER_STATE_DONE :: nat where "HTTP_SERVER_STATE_DONE \<equiv> 4"

text \<open>
  A header is a pair of pointers into the header buffer, here offsets; \<open>sq_base\<close> is the size of the block they point into,
  which changes whenever the block is moved.
\<close>

record server_request =
  sq_method :: nat
  sq_connection_id :: nat
  sq_header_count :: nat
  sq_headers :: "(nat \<times> nat) list"
  sq_base :: nat
  sq_url :: dbuffer
  sq_body :: dbuffer
  sq_header_buffer :: dbuffer

record server_connection =
  sc_request :: server_request
  sc_ready_state :: nat
  sc_parser_state :: nat
  sc_header_offsets :: "nat list"
  sc_header_offset :: nat

text \<open>What the fresh memory of the allocator holds is the function \<open>fill\<close>.\<close>

definition new_buffer :: "(nat \<Rightarrow> byte) \<Rightarrow> dbuffer" where
  "new_buffer fill = dbuffer_init (\<lambda>_. True) fill"

definition http_connection_reset_request :: "(nat \<Rightarrow> byte) \<Rightarrow> server_connection \<Rightarrow> server_connection" where
  "http_connection_reset_request fill c =
     c\<lparr>sc_request := (sc_request c)\<lparr>sq_url := new_buffer fill, sq_header_buffer := new_buffer fill, sq_body := new_buffer fill,
         sq_headers := replicate HTTP_HEADER_MAX (0, 0), sq_header_count := 0, sq_method := 0\<rparr>\<rparr>"

definition http_parser_on_message_begin :: "(nat \<Rightarrow> byte) \<Rightarrow> server_connection \<Rightarrow> server_connection exec" where
  "http_parser_on_message_begin fill c =
     Inr ((http_connection_reset_request fill c)\<lparr>sc_parser_state := 0, sc_header_offset := 0,
       sc_ready_state := HTTP_SERVER_STATE_OPENED, sc_header_offsets := replicate (2 * HTTP_HEADER_MAX) 0\<rparr>)"

text \<open>The URL is terminated behind its bytes, whether or not the block has room for that.\<close>

definition http_parser_on_url :: "byte list \<Rightarrow> server_connection \<Rightarrow> server_connection exec" where
  "http_parser_on_url piece c =
     and_then (dbuffer_put (sq_url (sc_request c)) piece) (\<lambda>(url, _).
     and_then (copy_in (db_buf url) (db_size url) [0]) (\<lambda>b.
     Inr (c\<lparr>sc_request := (sc_request c)\<lparr>sq_url := url\<lparr>db_buf := b\<rparr>\<rparr>, sc_parser_state := 1\<rparr>)))"

text \<open>A new name or value starts: the old text is terminated and the place of the new one recorded, up to the limit.\<close>

definition start_text :: "server_connection \<Rightarrow> server_connection exec" where
  "start_text c =
     and_then (dbuffer_putc (sq_header_buffer (sc_request c)) 0) (\<lambda>(b, _).
     let c = c\<lparr>sc_request := (sc_request c)\<lparr>sq_header_buffer := b\<rparr>\<rparr>; index = sc_header_offset c in
     Inr (if index < HTTP_HEADER_MAX * 2
          then c\<lparr>sc_header_offset := index + 1, sc_header_offsets := (sc_header_offsets c)[index := db_size b]\<rparr>
          else c))"

definition header_piece :: "nat \<Rightarrow> byte list \<Rightarrow> server_connection \<Rightarrow> server_connection exec" where
  "header_piece st piece c =
     and_then (if sc_parser_state c \<noteq> st then start_text c else Inr c) (\<lambda>c.
     and_then (dbuffer_put (sq_header_buffer (sc_request c)) piece) (\<lambda>(b, _).
     Inr (c\<lparr>sc_request := (sc_request c)\<lparr>sq_header_buffer := b\<rparr>, sc_parser_state := st\<rparr>)))"

definition http_parser_on_header_field :: "byte list \<Rightarrow> server_connection \<Rightarrow> server_connection exec" where
  "http_parser_on_header_field piece c = header_piece 2 piece c"

definition http_parser_on_header_value :: "byte list \<Rightarrow> server_connection \<Rightarrow> server_connection exec" where
  "http_parser_on_header_value piece c = header_piece 3 piece c"

text \<open>The loop \<^verbatim>\<open>for (i = 0; i < header_offset; i += 2)\<close>, one pair of offsets for each header.\<close>

fun header_pairs :: "nat list \<Rightarrow> nat \<Rightarrow> (nat \<times> nat) list" where
  "header_pairs (a # b # offsets) n = (if n = 0 then [] else (a, b) # header_pairs offsets (n - 2))"
| "header_pairs offsets n = []"

definition http_parser_on_headers_complete :: "server_connection \<Rightarrow> server_connection exec" where
  "http_parser_on_headers_complete c =
     and_then (dbuffer_putc (sq_header_buffer (sc_request c)) 0) (\<lambda>(b, _).
     let r = sc_request c; pairs = header_pairs (sc_header_offsets c) (sc_header_offset c) in
     Inr (c\<lparr>sc_request := r\<lparr>sq_header_buffer := b, sq_headers := pairs @ drop (length pairs) (sq_headers r),
            sq_header_count := sq_header_count r + length pairs, sq_base := db_allocated b\<rparr>,
          sc_parser_state := 4, sc_ready_state := HTTP_SERVER_STATE_HEADERS_RECEIVED\<rparr>))"

definition http_parser_on_body :: "byte list \<Rightarrow> server_connection \<Rightarrow> server_connection exec" where
  "http_parser_on_body piece c = Inr (c\<lparr>sc_parser_state := 5, sc_ready_state := HTTP_SERVER_STATE_LOADING\<rparr>)"

text \<open>\<open>process\<close> is \<^verbatim>\<open>http_server_process_request\<close>: the handler of the application.\<close>

definition http_parser_on_message_complete ::
    "(server_connection \<Rightarrow> server_connection exec) \<Rightarrow> nat \<Rightarrow> nat \<Rightarrow> server_connection \<Rightarrow> server_connection exec" where
  "http_parser_on_message_complete process meth i c =
     and_then (process (c\<lparr>sc_request := (sc_request c)\<lparr>sq_method := meth, sq_connection_id := i\<rparr>\<rparr>)) (\<lambda>c.
     Inr (c\<lparr>sc_parser_state := 6, sc_ready_state := HTTP_SERVER_STATE_DONE\<rparr>))"

text \<open>The calls of the parser, and the table \<^verbatim>\<open>http_parser_settings_s\<close>.\<close>

datatype parser_call =
    On_message_begin
  | On_url "byte list"
  | On_header_field "byte list"
  | On_header_value "byte list"
  | On_headers_complete
  | On_body "byte list"
  | On_message_complete nat

definition http_parser_settings ::
    "(nat \<Rightarrow> byte) \<Rightarrow> (server_connection \<Rightarrow> server_connection exec) \<Rightarrow> nat \<Rightarrow> parser_call \<Rightarrow> server_connection \<Rightarrow> server_connection exec" where
  "http_parser_settings fill process i call c =
     (case call of
        On_message_begin \<Rightarrow> http_parser_on_message_begin fill c
      | On_url piece \<Rightarrow> http_parser_on_url piece c
      | On_header_field piece \<Rightarrow> http_parser_on_header_field piece c
      | On_header_value piece \<Rightarrow> http_parser_on_header_value piece c
      | On_headers_complete \<Rightarrow> http_parser_on_headers_complete c
      | On_body piece \<Rightarrow> http_parser_on_body piece c
      | On_message_complete meth \<Rightarrow> http_parser_on_message_complete process meth i c)"

fun parser_calls ::
    "(nat \<Rightarrow> byte) \<Rightarrow> (server_connection \<Rightarrow> server_connection exec) \<Rightarrow> nat \<Rightarrow> parser_call list \<Rightarrow> server_connection \<Rightarrow>
     server_connection exec" where
  "parser_calls fill process i [] c = Inr c"
| "parser_calls fill process i (call # calls) c =
     and_then (http_parser_settings fill process i call c) (parser_calls fill process i calls)"

text \<open>Reading a C string from a block, and the accessors of a request.\<close>

definition c_string_at :: "byte list \<Rightarrow> nat \<Rightarrow> byte list exec" where
  "c_string_at b p = and_then (in_bounds (0 \<in> set (drop p b))) (\<lambda>_. Inr (takeWhile (\<lambda>c. c \<noteq> 0) (drop p b)))"

definition http_request_get_url :: "server_request \<Rightarrow> byte list exec" where
  "http_request_get_url r = c_string_at (db_buf (sq_url r)) 0"

definition http_request_get_method :: "server_request \<Rightarrow> nat" where
  "http_request_get_method r = sq_method r"

text \<open>The texts of header \<open>i\<close>; the pointers dangle when the block has been moved.\<close>

definition http_request_header :: "server_request \<Rightarrow> nat \<Rightarrow> (byte list \<times> byte list) exec" where
  "http_request_header r i =
     and_then (in_bounds (i < length (sq_headers r) \<and> sq_base r = db_allocated (sq_header_buffer r))) (\<lambda>_.
     and_then (c_string_at (db_buf (sq_header_buffer r)) (fst (sq_headers r ! i))) (\<lambda>name.
     and_then (c_string_at (db_buf (sq_header_buffer r)) (snd (sq_headers r ! i))) (\<lambda>val.
     Inr (name, val))))"

definition http_request_get_headers :: "server_request \<Rightarrow> (nat \<times> nat) list \<times> nat" where
  "http_request_get_headers r = (sq_headers r, sq_header_count r)"

section \<open>The response\<close>

text \<open>
  \<open>rs_buffer\<close> is the text in the block, \<open>rs_block\<close> the size the block really has; \<open>rs_capacity\<close> is what the struct says.
\<close>

record server_response =
  rs_buffer :: "string option"
  rs_block :: nat
  rs_capacity :: nat
  rs_size :: nat

definition http_response_set_status_code :: "server_response \<Rightarrow> int \<Rightarrow> string \<Rightarrow> (server_response \<times> int) exec" where
  "http_response_set_status_code r status_code status_text =
     (if rs_buffer r \<noteq> None then Inr (r, -1)
      else
        let capacity = 512 + length status_text;
            (stored, offset) = snprintf capacity (''HTTP/1.1 '' @ show_int status_code @ '' '' @ status_text @ CRLF @ CRLF)
        in Inr (\<lparr>rs_buffer = Some stored, rs_block = capacity, rs_capacity = capacity, rs_size = offset\<rparr>, 0))"

text \<open>
  The block is resized when it is large enough, and not when it is too small; the bound given to \<^verbatim>\<open>snprintf\<close> is
  the size that is needed.
\<close>

definition http_response_set_header :: "server_response \<Rightarrow> string \<Rightarrow> string \<Rightarrow> (server_response \<times> int) exec" where
  "http_response_set_header r name val =
     (case rs_buffer r of None \<Rightarrow> Inr (r, -1)
      | Some text0 \<Rightarrow>
          let capacity = rs_size r + length name + length val + 8;
              resize = capacity < rs_capacity r;
              capacity = (if resize then capacity + 512 else capacity);
              block = (if resize then capacity else rs_block r);
              offset = rs_size r - 2;
              (stored, ret) = snprintf (capacity - offset) (name @ '': '' @ val @ CRLF @ CRLF)
          in
          and_then (in_bounds (offset + length stored + 1 \<le> block)) (\<lambda>_.
          Inr (r\<lparr>rs_buffer := Some (take offset text0 @ stored), rs_block := block,
                 rs_capacity := (if resize then capacity else rs_capacity r), rs_size := offset + ret\<rparr>, 0)))"

definition http_response_set_header_int :: "server_response \<Rightarrow> string \<Rightarrow> int \<Rightarrow> (server_response \<times> int) exec" where
  "http_response_set_header_int r name val = http_response_set_header r name (fst (snprintf 16 (show_int val)))"

definition http_response_set_content_type :: "server_response \<Rightarrow> string \<Rightarrow> (server_response \<times> int) exec" where
  "http_response_set_content_type r val = http_response_set_header r ''Content-Type'' val"

definition http_response_set_content_length :: "server_response \<Rightarrow> nat \<Rightarrow> (server_response \<times> int) exec" where
  "http_response_set_content_length r n = http_response_set_header r ''Content-Length'' (fst (snprintf 16 (show_nat n)))"

text \<open>
  The socket: \<open>sk_open\<close> when the connection has one, what \<^verbatim>\<open>uv_try_write\<close> and \<^verbatim>\<open>uv_write\<close> answer for
  a text, and the text sent so far.
\<close>

record socket =
  sk_open :: bool
  sk_try :: "string \<Rightarrow> int"
  sk_queue :: "string \<Rightarrow> int"
  sk_sent :: string

definition http_connection_write :: "socket \<Rightarrow> string \<Rightarrow> socket \<times> int" where
  "http_connection_write k data =
     (if data = [] \<or> \<not> sk_open k then (k, -1)
      else
        let ret = sk_try k data in
        if ret = int (length data) then (k\<lparr>sk_sent := sk_sent k @ data\<rparr>, 0)
        else
          let k = k\<lparr>sk_sent := sk_sent k @ take (nat ret) data\<rparr>; rest = drop (nat ret) data in
          if sk_queue k rest < 0 then (k, sk_queue k rest)
          else (k\<lparr>sk_sent := sk_sent k @ rest\<rparr>, 1))"

definition http_response_send :: "server_response \<Rightarrow> socket \<Rightarrow> string \<Rightarrow> (server_response \<times> socket \<times> int) exec" where
  "http_response_send r k data =
     (if rs_buffer r \<noteq> None then
        and_then (if data \<noteq> [] then http_response_set_content_length r (length data) else Inr (r, 0)) (\<lambda>(r, _).
        and_then (http_response_set_header r ''Server'' ''WoT.js/1.0'') (\<lambda>(r, _).
        let (k, ret) = http_connection_write k (take (rs_size r) (the (rs_buffer r)));
            r = \<lparr>rs_buffer = None, rs_block = 0, rs_capacity = 0, rs_size = 0\<rparr>
        in if ret < 0 then Inr (r, k, ret)
           else if data \<noteq> [] then let (k, ret) = http_connection_write k data in Inr (r, k, ret)
           else Inr (r, k, 0)))
      else if data \<noteq> [] then let (k, ret) = http_connection_write k data in Inr (r, k, ret)
      else Inr (r, k, 0))"

definition extension :: "string \<Rightarrow> string option" where
  "extension filename =
     (if CHR ''.'' \<in> set filename then Some (CHR ''.'' # rev (takeWhile (\<lambda>c. c \<noteq> CHR ''.'') (rev filename))) else None)"

definition http_response_get_mime_type :: "string option \<Rightarrow> string" where
  "http_response_get_mime_type filename =
     (case filename of None \<Rightarrow> ''text/html''
      | Some f \<Rightarrow>
          if extension f = Some ''.js'' then ''text/javascript''
          else if extension f = Some ''.json'' then ''application/json''
          else if extension f = Some ''.css'' then ''text/css''
          else if extension f = Some ''.jpg'' then ''image/jpg''
          else if extension f = Some ''.png'' then ''image/png''
          else if extension f = Some ''.gif'' then ''image/gif''
          else ''text/html'')"

text \<open>
  \<open>load\<close> is \<^verbatim>\<open>http_server_read_file\<close> after \<^verbatim>\<open>path_concat\<close>: the contents of the file, unless it is missing or
  empty.  The page of an error is written into the buffer of the file name.
\<close>

definition http_response_send_file ::
    "(string \<Rightarrow> string \<Rightarrow> string option) \<Rightarrow> string \<Rightarrow> server_response \<Rightarrow> socket \<Rightarrow> string option \<Rightarrow>
     (server_response \<times> socket \<times> int) exec" where
  "http_response_send_file load root_path r k filename =
     (case filename of None \<Rightarrow> Inr (r, k, -1)
      | Some f \<Rightarrow>
          if root_path = [] then
            and_then (http_response_set_status_code r 400 ''Bad request'') (\<lambda>(r, _).
            and_then (http_response_set_content_type r ''text/html'') (\<lambda>(r, _).
            http_response_send r k ''400 Bad request''))
          else
            case load root_path f of
              None \<Rightarrow>
                and_then (http_response_set_status_code r 404 ''Not found'') (\<lambda>(r, _).
                and_then (http_response_set_content_type r ''text/html'') (\<lambda>(r, _).
                http_response_send r k (fst (snprintf 4096
                  (''<h1>Not Found</h1><p>The request URL '' @ [CHR 0x27] @ f @ [CHR 0x27] @ '' was not found on this server</p>'')))))
            | Some contents \<Rightarrow>
                and_then (http_response_set_status_code r 200 ''OK'') (\<lambda>(r, _).
                and_then (http_response_set_content_type r (http_response_get_mime_type (Some f))) (\<lambda>(r, _).
                http_response_send r k contents)))"

end
