(* ===== verification/HttpServerProps.thy ===== *)
theory HttpServerProps
  imports HttpServer
begin

text \<open>
  What the HTTP server collects of a request, however the parser cuts it, and what it sends as a response.
\<close>

section \<open>Collecting headers\<close>

text \<open>A buffer whose allocator does not fail.\<close>

definition granted :: "dbuffer \<Rightarrow> bool" where
  "granted b \<longleftrightarrow> dbuffer_ok b \<and> \<not> db_error b \<and> (\<forall>c n. db_realloc b c n \<noteq> None)"

lemma granted_put:
  assumes "granted b" "length (dbuffer_contents b) + length d < 2 ^ 33"
  obtains b' where "dbuffer_put b d = Inr (b', 0)" "granted b'" "dbuffer_contents b' = dbuffer_contents b @ d"
    "db_size b' = length (dbuffer_contents b) + length d"
proof -
  have "db_size b = length (dbuffer_contents b)" using assms(1) by (simp add: granted_def dbuffer_ok_def dbuffer_contents_def)
  then show thesis using put_granted [of b d] assms that by (auto simp: granted_def)
qed

lemma granted_new: "granted (new_buffer fill)" "dbuffer_contents (new_buffer fill) = []"
  using init_ok(1) [OF default_realloc_ok, of "\<lambda>_. True" fill]
  by (auto simp: granted_def new_buffer_def dbuffer_init_def dbuffer_init2_def dbuffer_default_realloc_def dbuffer_contents_def)

abbreviation (input) header_buffer :: "server_connection \<Rightarrow> dbuffer" where
  "header_buffer c \<equiv> sq_header_buffer (sc_request c)"

text \<open>What a run of pieces leaves alone.\<close>

definition same_rest :: "server_connection \<Rightarrow> server_connection \<Rightarrow> bool" where
  "same_rest c d \<longleftrightarrow> sq_url (sc_request d) = sq_url (sc_request c) \<and> sq_headers (sc_request d) = sq_headers (sc_request c) \<and>
     sq_header_count (sc_request d) = sq_header_count (sc_request c)"

lemma header_piece_more:
  assumes "granted (header_buffer c)" "length (dbuffer_contents (header_buffer c)) + length piece < 2 ^ 33" "sc_parser_state c = st"
  shows "\<exists>d. header_piece st piece c = Inr d \<and> granted (header_buffer d) \<and> sc_parser_state d = st \<and> same_rest c d \<and>
    dbuffer_contents (header_buffer d) = dbuffer_contents (header_buffer c) @ piece \<and>
    sc_header_offset d = sc_header_offset c \<and> sc_header_offsets d = sc_header_offsets c"
proof -
  obtain b where "dbuffer_put (header_buffer c) piece = Inr (b, 0)" "granted b" "dbuffer_contents b = dbuffer_contents (header_buffer c) @ piece"
    using granted_put [OF assms(1,2)] by metis
  then show ?thesis using assms(3) by (simp add: header_piece_def same_rest_def)
qed

lemma header_piece_first:
  assumes "granted (header_buffer c)" "length (dbuffer_contents (header_buffer c)) + 1 + length piece < 2 ^ 33" "sc_parser_state c \<noteq> st"
    and "sc_header_offset c < 128"
  shows "\<exists>d. header_piece st piece c = Inr d \<and> granted (header_buffer d) \<and> sc_parser_state d = st \<and> same_rest c d \<and>
    dbuffer_contents (header_buffer d) = dbuffer_contents (header_buffer c) @ 0 # piece \<and> sc_header_offset d = sc_header_offset c + 1 \<and>
    sc_header_offsets d = (sc_header_offsets c)[sc_header_offset c := length (dbuffer_contents (header_buffer c)) + 1]"
proof -
  have "length (dbuffer_contents (header_buffer c)) + length [0 :: byte] < 2 ^ 33" using assms(2) by simp
  from granted_put [OF assms(1) this] obtain b where b: "dbuffer_put (header_buffer c) [0] = Inr (b, 0)" "granted b"
    "dbuffer_contents b = dbuffer_contents (header_buffer c) @ [0]" "db_size b = length (dbuffer_contents (header_buffer c)) + 1" by auto
  have "length (dbuffer_contents b) + length piece < 2 ^ 33" using assms(2) b(3) by simp
  from granted_put [OF b(2) this] obtain b' where "dbuffer_put b piece = Inr (b', 0)" "granted b'"
    "dbuffer_contents b' = dbuffer_contents b @ piece" by metis
  then show ?thesis using assms(3,4) b by (simp add: header_piece_def start_text_def dbuffer_putc_def same_rest_def Let_def)
qed

text \<open>A name or a value in pieces.\<close>

lemma header_pieces_more:
  assumes "\<And>p c. http_parser_settings fill process i (call p) c = header_piece st p c"
  shows "granted (header_buffer c) \<Longrightarrow> length (dbuffer_contents (header_buffer c)) + length (concat ps) < 2 ^ 33 \<Longrightarrow> sc_parser_state c = st \<Longrightarrow>
    \<exists>d. parser_calls fill process i (map call ps) c = Inr d \<and> granted (header_buffer d) \<and> sc_parser_state d = st \<and> same_rest c d \<and>
      dbuffer_contents (header_buffer d) = dbuffer_contents (header_buffer c) @ concat ps \<and>
      sc_header_offset d = sc_header_offset c \<and> sc_header_offsets d = sc_header_offsets c"
proof (induction ps arbitrary: c)
  case (Cons p ps)
  obtain d where d: "header_piece st p c = Inr d" "granted (header_buffer d)" "sc_parser_state d = st" "same_rest c d"
    "dbuffer_contents (header_buffer d) = dbuffer_contents (header_buffer c) @ p"
    "sc_header_offset d = sc_header_offset c" "sc_header_offsets d = sc_header_offsets c"
    using header_piece_more [of c p st] Cons.prems by auto
  have "length (dbuffer_contents (header_buffer d)) + length (concat ps) < 2 ^ 33" using Cons.prems(2) d(5) by simp
  from Cons.IH [OF d(2) this d(3)] show ?case using d assms by (auto simp: same_rest_def)
qed (simp add: same_rest_def)

lemma header_pieces:
  assumes "\<And>p c. http_parser_settings fill process i (call p) c = header_piece st p c"
    and "granted (header_buffer c)" "length (dbuffer_contents (header_buffer c)) + 1 + length (concat ps) < 2 ^ 33"
    and "sc_parser_state c \<noteq> st" "sc_header_offset c < 128" "ps \<noteq> []"
  shows "\<exists>d. parser_calls fill process i (map call ps) c = Inr d \<and> granted (header_buffer d) \<and> sc_parser_state d = st \<and> same_rest c d \<and>
    dbuffer_contents (header_buffer d) = dbuffer_contents (header_buffer c) @ 0 # concat ps \<and> sc_header_offset d = sc_header_offset c + 1 \<and>
    sc_header_offsets d = (sc_header_offsets c)[sc_header_offset c := length (dbuffer_contents (header_buffer c)) + 1]"
proof -
  obtain p qs where ps: "ps = p # qs" using assms(6) by (cases ps) auto
  obtain d where d: "header_piece st p c = Inr d" "granted (header_buffer d)" "sc_parser_state d = st" "same_rest c d"
    "dbuffer_contents (header_buffer d) = dbuffer_contents (header_buffer c) @ 0 # p" "sc_header_offset d = sc_header_offset c + 1"
    "sc_header_offsets d = (sc_header_offsets c)[sc_header_offset c := length (dbuffer_contents (header_buffer c)) + 1]"
    using header_piece_first [of c p st] assms(2-5) ps by auto
  have "length (dbuffer_contents (header_buffer d)) + length (concat qs) < 2 ^ 33" using assms(3) d(5) ps by simp
  from header_pieces_more [OF assms(1) d(2) this d(3)] show ?thesis using d assms(1) by (auto simp: ps same_rest_def)
qed


text \<open>The headers in the buffer, and the places where they start.\<close>

definition layout :: "(byte list \<times> byte list) list \<Rightarrow> byte list" where
  "layout hs = concat (map (\<lambda>(n, v). 0 # n @ 0 # v) hs)"

fun places :: "nat \<Rightarrow> (byte list \<times> byte list) list \<Rightarrow> (nat \<times> nat) list" where
  "places p [] = []"
| "places p ((n, v) # hs) = (p + 1, p + 2 + length n) # places (p + 2 + length n + length v) hs"

lemma layout_simps [simp]:
  "layout [] = []" "layout ((n, v) # hs) = 0 # n @ 0 # v @ layout hs" "layout (xs @ ys) = layout xs @ layout ys"
  by (simp_all add: layout_def)

lemma places_append: "places p (xs @ ys) = places p xs @ places (p + length (layout xs)) ys"
  by (induction p xs rule: places.induct) (simp_all add: add.assoc)

lemma length_places [simp]: "length (places p hs) = length hs"
  by (induction p hs rule: places.induct) simp_all

definition at_headers :: "(byte list \<times> byte list) list \<Rightarrow> server_connection \<Rightarrow> bool" where
  "at_headers hs c \<longleftrightarrow> granted (header_buffer c) \<and> dbuffer_contents (header_buffer c) = layout hs \<and>
     sc_header_offset c = 2 * length hs \<and> length (sc_header_offsets c) = 128 \<and> sc_parser_state c \<noteq> 2 \<and>
     take (2 * length hs) (sc_header_offsets c) = concat (map (\<lambda>(a, b). [a, b]) (places 0 hs))"

lemma parser_calls_append:
  "parser_calls fill process i (xs @ ys) c = and_then (parser_calls fill process i xs c) (parser_calls fill process i ys)"
  by (induction xs arbitrary: c) (simp_all add: and_then_def split: sum.splits)

lemma take_two: "k + 2 \<le> length xs \<Longrightarrow> take (k + 2) (xs[k := a, k + 1 := b]) = take k xs @ [a, b]"
  by (rule nth_equalityI) (auto simp: nth_append nth_list_update less_Suc_eq nth_Cons split: nat.splits)

lemma one_header:
  assumes "at_headers hs c" "length hs < 64" "ns \<noteq> []" "vs \<noteq> []"
    and "length (layout (hs @ [(concat ns, concat vs)])) < 2 ^ 32"
  shows "\<exists>d. parser_calls fill process i (map On_header_field ns @ map On_header_value vs) c = Inr d \<and>
    at_headers (hs @ [(concat ns, concat vs)]) d \<and> same_rest c d"
proof -
  note c = assms(1) [unfolded at_headers_def]
  let ?k = "2 * length hs"
  have calls: "http_parser_settings fill process i (On_header_field p) c = header_piece 2 p c"
    "http_parser_settings fill process i (On_header_value p) c = header_piece 3 p c" for p c
    by (simp_all add: http_parser_settings_def http_parser_on_header_field_def http_parser_on_header_value_def)
  have len: "length (layout hs) + 2 + length (concat ns) + length (concat vs) < 2 ^ 32" using assms(5) by simp
  obtain d where d: "parser_calls fill process i (map On_header_field ns) c = Inr d" "granted (header_buffer d)" "sc_parser_state d = 2"
    "same_rest c d" "dbuffer_contents (header_buffer d) = layout hs @ 0 # concat ns" "sc_header_offset d = ?k + 1"
    "sc_header_offsets d = (sc_header_offsets c)[?k := length (layout hs) + 1]"
    using header_pieces [OF calls(1), of c ns] c assms(2,3) len by auto
  obtain e where e: "parser_calls fill process i (map On_header_value vs) d = Inr e" "granted (header_buffer e)" "sc_parser_state e = 3"
    "same_rest d e" "dbuffer_contents (header_buffer e) = (layout hs @ 0 # concat ns) @ 0 # concat vs" "sc_header_offset e = ?k + 2"
    "sc_header_offsets e = (sc_header_offsets d)[?k + 1 := length (layout hs @ 0 # concat ns) + 1]"
    using header_pieces [OF calls(2), of d vs] d assms(2,4) len by auto
  have "?k + 2 \<le> length (sc_header_offsets c)" using c assms(2) by simp
  note off = take_two [OF this, of "length (layout hs) + 1" "length (layout hs) + 2 + length (concat ns)"]
  have "at_headers (hs @ [(concat ns, concat vs)]) e"
    using c e d(7) off by (simp add: at_headers_def places_append)
  moreover have "same_rest c e" using d(4) e(4) by (simp add: same_rest_def)
  ultimately show ?thesis using d(1) e(1) by (auto simp: parser_calls_append)
qed


text \<open>The calls of the parser for a header that comes in pieces.\<close>

definition header_calls :: "(byte list list \<times> byte list list) list \<Rightarrow> parser_call list" where
  "header_calls hs = concat (map (\<lambda>(ns, vs). map On_header_field ns @ map On_header_value vs) hs)"

definition joined :: "(byte list list \<times> byte list list) list \<Rightarrow> (byte list \<times> byte list) list" where
  "joined hs = map (\<lambda>(ns, vs). (concat ns, concat vs)) hs"

lemma all_headers:
  "at_headers gs c \<Longrightarrow> \<forall>(ns, vs) \<in> set hs. ns \<noteq> [] \<and> vs \<noteq> [] \<Longrightarrow> length gs + length hs \<le> 64 \<Longrightarrow>
   length (layout (gs @ joined hs)) < 2 ^ 32 \<Longrightarrow>
   \<exists>d. parser_calls fill process i (header_calls hs) c = Inr d \<and> at_headers (gs @ joined hs) d \<and> same_rest c d"
proof (induction hs arbitrary: gs c)
  case Nil
  then show ?case by (simp add: header_calls_def joined_def same_rest_def)
next
  case (Cons h hs)
  obtain ns vs where h: "h = (ns, vs)" by (cases h)
  have joined: "joined (h # hs) = (concat ns, concat vs) # joined hs" by (simp add: joined_def h)
  have "length (layout (gs @ [(concat ns, concat vs)])) < 2 ^ 32" using Cons.prems(4) by (simp add: joined)
  from one_header [OF Cons.prems(1) _ _ _ this, of fill process i] obtain d where d:
    "parser_calls fill process i (map On_header_field ns @ map On_header_value vs) c = Inr d" "at_headers (gs @ [(concat ns, concat vs)]) d" "same_rest c d"
    using Cons.prems(2,3) h by auto
  obtain e where e: "parser_calls fill process i (header_calls hs) d = Inr e"
    "at_headers ((gs @ [(concat ns, concat vs)]) @ joined hs) e" "same_rest d e"
    using Cons.IH [OF d(2)] Cons.prems(2-4) by (auto simp: joined)
  have "header_calls (h # hs) = (map On_header_field ns @ map On_header_value vs) @ header_calls hs"
    by (simp add: header_calls_def h)
  then have "parser_calls fill process i (header_calls (h # hs)) c = Inr e"
    using d(1) e(1) by (simp only: parser_calls_append [of _ _ _ "map On_header_field ns @ map On_header_value vs"] and_then_Inr)
  then show ?case using e(2,3) d(3) joined by (auto simp: same_rest_def)
qed

lemma header_pairs_places:
  "take (2 * length ps) offsets = concat (map (\<lambda>(a, b). [a, b]) ps) \<Longrightarrow> 2 * length ps \<le> length offsets \<Longrightarrow>
   header_pairs offsets (2 * length ps) = ps"
proof (induction ps arbitrary: offsets)
  case Nil
  then show ?case by (cases offsets; cases "tl offsets") auto
next
  case (Cons p ps)
  obtain a b where p: "p = (a, b)" by (cases p)
  obtain x y rest where o: "offsets = x # y # rest" using Cons.prems(2) by (cases offsets; cases "tl offsets") auto
  then have "x = a" "y = b" "take (2 * length ps) rest = concat (map (\<lambda>(a, b). [a, b]) ps)" using Cons.prems(1) p by simp_all
  then show ?case using Cons.IH [of rest] Cons.prems(2) o p by simp
qed

text \<open>A string in the buffer is what stands between its place and the next zero.\<close>

lemma c_string_at_place:
  assumes "0 \<notin> set t"
  shows "c_string_at (a @ t @ 0 # b) (length a) = Inr t"
  using assms by (simp add: c_string_at_def takeWhile_append)

lemma layout_zero: "\<exists>rest. layout hs @ [0] = 0 # rest"
  by (cases hs) (auto simp: layout_def)

lemma header_strings:
  assumes "k < length hs" "\<forall>(n, v) \<in> set hs. 0 \<notin> set n \<and> 0 \<notin> set v" "buf = layout hs @ 0 # junk"
  shows "c_string_at buf (fst (places 0 hs ! k)) = Inr (fst (hs ! k))" "c_string_at buf (snd (places 0 hs ! k)) = Inr (snd (hs ! k))"
proof -
  obtain n v where h: "hs ! k = (n, v)" by (cases "hs ! k")
  define A where "A = take k hs"
  define B where "B = drop (Suc k) hs"
  have hs: "hs = A @ (n, v) # B" using assms(1) id_take_nth_drop [of k hs] by (simp add: A_def B_def h)
  have k: "length A = k" using assms(1) by (simp add: A_def)
  have z: "0 \<notin> set n" "0 \<notin> set v" using assms(2) hs by auto
  have p: "places 0 hs ! k = (length (layout A) + 1, length (layout A) + 2 + length n)"
    using k by (simp add: hs places_append nth_append)
  obtain rest where r: "layout B @ [0] = 0 # rest" using layout_zero by blast
  have buf: "buf = layout A @ 0 # n @ 0 # v @ 0 # rest @ junk"
    using arg_cong [OF r, of "\<lambda>xs. xs @ junk"] by (simp add: assms(3) hs)
  show "c_string_at buf (fst (places 0 hs ! k)) = Inr (fst (hs ! k))"
    using c_string_at_place [OF z(1), of "layout A @ [0]" "v @ 0 # rest @ junk"] by (simp add: buf p h)
  show "c_string_at buf (snd (places 0 hs ! k)) = Inr (snd (hs ! k))"
    using c_string_at_place [OF z(2), of "layout A @ 0 # n @ [0]" "rest @ junk"] by (simp add: buf p h add.commute)
qed


text \<open>The first piece of a URL leaves the eight bytes of \<^verbatim>\<open>dbuffer_realloc\<close> free.\<close>

lemma first_put:
  assumes "url \<noteq> []" "length url < 2 ^ 32"
  shows "\<exists>b. dbuffer_put (new_buffer fill) url = Inr (b, 0) \<and> db_allocated b = length url + 8 \<and> length (db_buf b) = length url + 8 \<and>
    db_size b = length url"
proof -
  have "size_t (length url) = length url" "size_t (length url + 8) = length url + 8" using assms(2) by (simp_all add: size_t_def)
  then show ?thesis using assms(1)
    by (simp add: dbuffer_put_def make_room_def dbuffer_realloc_def new_buffer_def dbuffer_init_def dbuffer_init2_def
        dbuffer_default_realloc_def copy_in_def Let_def) (simp add: size_t_def)
qed

text \<open>
  The URL in pieces.  \<open>url_room a n ps\<close>: with \<open>a\<close> bytes allocated and \<open>n\<close> in use, no piece fills the block to its
  last byte, so that the terminator has a place each time.
\<close>

fun url_room :: "nat \<Rightarrow> nat \<Rightarrow> byte list list \<Rightarrow> bool" where
  "url_room a n [] = True"
| "url_room a n (p # ps) =
     (let m = n + length p; b = (if m > a then max (m + 8) (a * 3 div 2) else a) in m < b \<and> url_room b m ps)"

definition compact :: "dbuffer \<Rightarrow> bool" where
  "compact b \<longleftrightarrow> granted b \<and> db_allocated b \<le> 2 * db_size b + 8"

lemma compact_put:
  assumes "compact b" "db_size b + length p < 2 ^ 32"
  obtains b' where "dbuffer_put b p = Inr (b', 0)" "compact b'" "dbuffer_contents b' = dbuffer_contents b @ p"
    "db_size b' = db_size b + length p"
    "db_allocated b' = (if db_size b + length p > db_allocated b then max (db_size b + length p + 8) (db_allocated b * 3 div 2) else db_allocated b)"
proof -
  let ?m = "db_size b + length p" and ?a = "db_allocated b"
  have g: "granted b" "?a \<le> 2 * db_size b + 8" using assms(1) by (auto simp: compact_def)
  have "db_size b = length (dbuffer_contents b)" using g(1) by (simp add: granted_def dbuffer_ok_def dbuffer_contents_def)
  then obtain b' where b': "dbuffer_put b p = Inr (b', 0)" "granted b'" "dbuffer_contents b' = dbuffer_contents b @ p" "db_size b' = ?m"
    using granted_put [OF g(1), of p] assms(2) by auto
  have sizes: "size_t ?m = ?m" "size_t (?m + 8) = ?m + 8" "size_t (?a * 3) = ?a * 3"
    using assms(2) g(2) by (simp_all add: size_t_def)
  have a': "db_allocated b' = (if ?m > ?a then max (?m + 8) (?a * 3 div 2) else ?a)"
    using b'(1) by (auto simp: dbuffer_put_def make_room_def dbuffer_realloc_def sizes and_then_eq_Inr Let_def max_def
        split: if_splits option.splits)
  then have "compact b'" using b'(2,4) g(2) by (auto simp: compact_def)
  then show thesis using that b' a' by blast
qed

lemma url_pieces:
  assumes "compact (sq_url (sc_request c))" "db_size (sq_url (sc_request c)) + length (concat ps) < 2 ^ 32"
    and "url_room (db_allocated (sq_url (sc_request c))) (db_size (sq_url (sc_request c))) ps" "ps \<noteq> []"
  shows "\<exists>u r. parser_calls fill process i (map On_url ps) c = Inr (c\<lparr>sc_request := (sc_request c)\<lparr>sq_url := u\<rparr>, sc_parser_state := 1\<rparr>) \<and>
    db_buf u = dbuffer_contents (sq_url (sc_request c)) @ concat ps @ 0 # r"
  using assms
proof (induction ps arbitrary: c)
  case (Cons p ps)
  let ?b = "sq_url (sc_request c)"
  have "db_size ?b + length p < 2 ^ 32" using Cons.prems(2) by simp
  from compact_put [OF Cons.prems(1) this] obtain b where b: "dbuffer_put ?b p = Inr (b, 0)" "compact b"
    "dbuffer_contents b = dbuffer_contents ?b @ p" "db_size b = db_size ?b + length p"
    "db_allocated b = (if db_size ?b + length p > db_allocated ?b then max (db_size ?b + length p + 8) (db_allocated ?b * 3 div 2) else db_allocated ?b)"
    by blast
  have room: "db_size b < db_allocated b" "url_room (db_allocated b) (db_size b) ps"
    using Cons.prems(3) b(4,5) by (simp_all add: Let_def)
  have len: "length (db_buf b) = db_allocated b" using b(2) by (simp add: compact_def granted_def dbuffer_ok_def)
  define u where "u = b\<lparr>db_buf := take (db_size b) (db_buf b) @ 0 # drop (db_size b + 1) (db_buf b)\<rparr>"
  have step: "http_parser_settings fill process i (On_url p) c = Inr (c\<lparr>sc_request := (sc_request c)\<lparr>sq_url := u\<rparr>, sc_parser_state := 1\<rparr>)"
    using b(1) room(1) len by (simp add: http_parser_settings_def http_parser_on_url_def copy_in_def u_def)
  have u: "compact u" "dbuffer_contents u = dbuffer_contents ?b @ p" "db_size u = db_size b" "db_allocated u = db_allocated b"
  proof -
    have "length (db_buf u) = db_allocated b" "take (db_size b) (db_buf u) = take (db_size b) (db_buf b)"
      using room(1) len by (simp_all add: u_def)
    moreover have "db_size u = db_size b" by (simp add: u_def)
    ultimately show "dbuffer_contents u = dbuffer_contents ?b @ p" using b(3) unfolding dbuffer_contents_def by simp
    show "compact u" using b(2) \<open>length (db_buf u) = db_allocated b\<close> by (simp add: compact_def granted_def dbuffer_ok_def) (simp add: u_def)
  qed (simp_all add: u_def)
  show ?case
  proof (cases "ps = []")
    case True
    have "db_buf u = dbuffer_contents ?b @ p @ 0 # drop (db_size b + 1) (db_buf b)"
      using b(3) by (simp add: u_def dbuffer_contents_def)
    then show ?thesis using step True by auto
  next
    case False
    let ?c = "c\<lparr>sc_request := (sc_request c)\<lparr>sq_url := u\<rparr>, sc_parser_state := 1\<rparr>"
    have "\<exists>v r. parser_calls fill process i (map On_url ps) ?c = Inr (?c\<lparr>sc_request := (sc_request ?c)\<lparr>sq_url := v\<rparr>, sc_parser_state := 1\<rparr>) \<and>
        db_buf v = dbuffer_contents (sq_url (sc_request ?c)) @ concat ps @ 0 # r"
      by (rule Cons.IH) (use Cons.prems(2) u b(4) room(2) False in auto)
    then show ?thesis using step u(2) by auto
  qed
qed simp

text \<open>A connection as \<^verbatim>\<open>malloc\<close> and \<^verbatim>\<open>memset\<close> leave it.\<close>

definition zero_connection :: server_connection where
  "zero_connection =
     \<lparr>sc_request = \<lparr>sq_method = 0, sq_connection_id = 0, sq_header_count = 0, sq_headers = replicate 64 (0, 0), sq_base = 0,
         sq_url = new_buffer (\<lambda>_. 0), sq_body = new_buffer (\<lambda>_. 0), sq_header_buffer = new_buffer (\<lambda>_. 0)\<rparr>,
       sc_ready_state = 0, sc_parser_state = 0, sc_header_offsets = replicate 128 0, sc_header_offset = 0\<rparr>"

text \<open>
  C26.  Whatever pieces the parser hands over, a request with up to 64 headers is collected whole: the URL, the names and
  the values are the concatenations of their pieces, in order, and terminated.  Header pieces are such that names and values
  have at least one and no NUL byte.  The pieces of the URL must leave room for its terminator (\<open>url_room\<close>): a
  URL in one piece always does, but a piece that fills the block exactly makes the server store behind it
  (\<open>server_url_overrun\<close>).  Allocations succeed.
\<close>

theorem server_request_collected:
  fixes hs :: "(byte list list \<times> byte list list) list"
  assumes "\<forall>(ns, vs) \<in> set hs. ns \<noteq> [] \<and> vs \<noteq> [] \<and> 0 \<notin> set (concat ns) \<and> 0 \<notin> set (concat vs)"
    and "length hs \<le> 64" "length (layout (joined hs)) < 2 ^ 32" "0 \<notin> set (concat urls)" "length (concat urls) < 2 ^ 32" "urls \<noteq> []" "url_room 0 0 urls"
  shows "\<exists>d. parser_calls fill process i ([On_message_begin] @ map On_url urls @ header_calls hs @ [On_headers_complete]) c = Inr d \<and>
    http_request_get_url (sc_request d) = Inr (concat urls) \<and> sq_header_count (sc_request d) = length hs \<and>
    (\<forall>k < length hs. http_request_header (sc_request d) k = Inr (concat (fst (hs ! k)), concat (snd (hs ! k))))"
proof -
  obtain c1 where c1: "http_parser_settings fill process i On_message_begin c = Inr c1" "sq_url (sc_request c1) = new_buffer fill"
    "at_headers [] c1" "sq_headers (sc_request c1) = replicate 64 (0, 0)" "sq_header_count (sc_request c1) = 0"
    using granted_new [of fill]
    by (simp add: http_parser_settings_def http_parser_on_message_begin_def http_connection_reset_request_def at_headers_def)
  have new: "compact (new_buffer fill)" "db_size (new_buffer fill) = 0" "db_allocated (new_buffer fill) = 0"
    using granted_new(1) [of fill] by (simp_all add: compact_def new_buffer_def dbuffer_init_def dbuffer_init2_def)
  obtain u r where u: "parser_calls fill process i (map On_url urls) c1 = Inr (c1\<lparr>sc_request := (sc_request c1)\<lparr>sq_url := u\<rparr>, sc_parser_state := 1\<rparr>)"
    "db_buf u = concat urls @ 0 # r"
    using url_pieces [of c1 urls fill process i] new assms(5-7) c1(2) granted_new(2) [of fill] by auto
  obtain c2 where c2: "parser_calls fill process i (map On_url urls) c1 = Inr c2" "sq_url (sc_request c2) = u" "at_headers [] c2"
    "sq_headers (sc_request c2) = replicate 64 (0, 0)" "sq_header_count (sc_request c2) = 0"
    using u(1) c1 by (simp add: at_headers_def)
  obtain d where d: "parser_calls fill process i (header_calls hs) c2 = Inr d" "at_headers (joined hs) d" "same_rest c2 d"
    using all_headers [OF c2(3), of hs fill process i] assms(1-3) by auto
  note hd = d(2) [unfolded at_headers_def]
  have len: "length (joined hs) = length hs" by (simp add: joined_def)
  obtain hb where hb: "dbuffer_put (header_buffer d) [0] = Inr (hb, 0)" "dbuffer_contents hb = layout (joined hs) @ [0]"
    using granted_put [of "header_buffer d" "[0]"] hd assms(3) by auto
  have pairs: "header_pairs (sc_header_offsets d) (sc_header_offset d) = places 0 (joined hs)"
    using header_pairs_places [of "places 0 (joined hs)" "sc_header_offsets d"] hd assms(2) len by simp
  obtain e where e: "http_parser_settings fill process i On_headers_complete d = Inr e" "sq_url (sc_request e) = u"
    "sq_header_buffer (sc_request e) = hb" "sq_headers (sc_request e) = places 0 (joined hs) @ drop (length hs) (replicate 64 (0, 0))"
    "sq_header_count (sc_request e) = length hs" "sq_base (sc_request e) = db_allocated hb"
    using hb(1) d(3) c2(2,4,5) pairs len
    by (simp add: http_parser_settings_def http_parser_on_headers_complete_def dbuffer_putc_def same_rest_def Let_def)
  have "parser_calls fill process i ([On_message_begin] @ map On_url urls @ header_calls hs @ [On_headers_complete]) c = Inr e"
    using c1(1) c2(1) d(1) e(1) by (simp add: parser_calls_append)
  moreover have "http_request_get_url (sc_request e) = Inr (concat urls)"
    using c_string_at_place [OF assms(4), of "[]"] by (simp add: http_request_get_url_def e(2) u(2))
  moreover have "http_request_header (sc_request e) k = Inr (concat (fst (hs ! k)), concat (snd (hs ! k)))" if "k < length hs" for k
  proof -
    have buf: "db_buf hb = layout (joined hs) @ 0 # drop (db_size hb) (db_buf hb)"
      using hb(2) append_take_drop_id [of "db_size hb" "db_buf hb"] by (simp add: dbuffer_contents_def)
    have z: "\<forall>(n, v) \<in> set (joined hs). 0 \<notin> set n \<and> 0 \<notin> set v" using assms(1) by (auto simp: joined_def)
    have k: "k < length (joined hs)" using that len by simp
    have "sq_headers (sc_request e) ! k = places 0 (joined hs) ! k" using that len by (simp add: e(4) nth_append)
    moreover have "k < length (sq_headers (sc_request e))" using that len by (simp add: e(4))
    ultimately show ?thesis
      using header_strings [OF k z buf] that by (simp add: http_request_header_def e(3,6) joined_def split: prod.splits)
  qed
  ultimately show ?thesis using e(5) by blast
qed


theorem server_request_collected_witness:
  "\<exists>d. parser_calls (\<lambda>_. 0) Inr 1 ([On_message_begin] @ map On_url [[0x2F], [0x61]] @
      header_calls [([[0x48], [0x6F, 0x73, 0x74]], [[0x61], [], [0x62]])] @ [On_headers_complete]) zero_connection = Inr d \<and>
    http_request_get_url (sc_request d) = Inr [0x2F, 0x61] \<and> sq_header_count (sc_request d) = 1 \<and>
    http_request_header (sc_request d) 0 = Inr ([0x48, 0x6F, 0x73, 0x74], [0x61, 0x62])"
  using server_request_collected [of "[([[0x48], [0x6F, 0x73, 0x74]], [[0x61], [], [0x62]])]" "[[0x2F], [0x61]]" "\<lambda>_. 0" Inr 1 zero_connection]
  by (simp add: joined_def layout_def)

text \<open>
  A URL whose second piece has eight bytes, as many as \<^verbatim>\<open>dbuffer_realloc\<close> left free, fills its block, and
  \<^verbatim>\<open>http_parser_on_url\<close> stores the terminator behind it.
\<close>

lemma server_url_overrun:
  assumes "url \<noteq> []" "length url < 2 ^ 32" "length piece = 8"
  shows "parser_calls fill process i [On_message_begin, On_url url, On_url piece] c = Inl Out_of_bounds"
proof -
  obtain b where b: "dbuffer_put (new_buffer fill) url = Inr (b, 0)" "db_allocated b = length url + 8" "length (db_buf b) = length url + 8"
    "db_size b = length url" using first_put [OF assms(1,2)] by blast
  define b1 where "b1 = b\<lparr>db_buf := take (length url) (db_buf b) @ 0 # drop (length url + 1) (db_buf b)\<rparr>"
  have 1: "copy_in (db_buf b) (db_size b) [0] = Inr (db_buf b1)" using b by (simp add: copy_in_def b1_def)
  have "size_t (length url + 8) = length url + 8" using assms(2) by (simp add: size_t_def)
  then have 2: "dbuffer_put b1 piece = Inr (b1\<lparr>db_buf := take (length url) (db_buf b1) @ piece, db_size := length url + 8\<rparr>, 0)"
    using b assms(3) by (simp add: dbuffer_put_def make_room_def copy_in_def b1_def)
  have 3: "copy_in (take (length url) (db_buf b1) @ piece) (length url + 8) [0] = Inl Out_of_bounds"
    using b assms(3) by (simp add: copy_in_def in_bounds_def b1_def)
  have e: "b\<lparr>db_buf := db_buf b1\<rparr> = b1" by (simp add: b1_def)
  show ?thesis
    by (simp add: http_parser_settings_def http_parser_on_message_begin_def http_connection_reset_request_def http_parser_on_url_def b(1) 1 e 2 3)
qed

lemma server_url_overrun_witness:
  "parser_calls (\<lambda>_. 0) Inr 1 [On_message_begin, On_url [0x2F], On_url [1, 2, 3, 4, 5, 6, 7, 8]] zero_connection = Inl Out_of_bounds"
  by (rule server_url_overrun) simp_all

section \<open>The response\<close>

text \<open>A response with room for one more header.\<close>

definition response_text :: "server_response \<Rightarrow> string \<Rightarrow> bool" where
  "response_text r t \<longleftrightarrow> rs_buffer r = Some (t @ CRLF) \<and> rs_size r = length t + 2 \<and> rs_block r = rs_capacity r \<and>
     length t + 482 \<le> rs_capacity r"

definition header_line :: "string \<times> string \<Rightarrow> string" where
  "header_line h = fst h @ '': '' @ snd h @ CRLF"

fun set_headers :: "(string \<times> string) list \<Rightarrow> server_response \<Rightarrow> server_response exec" where
  "set_headers [] r = Inr r"
| "set_headers ((n, v) # hs) r = and_then (http_response_set_header r n v) (\<lambda>(r, _). set_headers hs r)"

definition start_line :: "int \<Rightarrow> string \<Rightarrow> string" where
  "start_line status_code status_text = ''HTTP/1.1 '' @ show_int status_code @ '' '' @ status_text @ CRLF"

definition no_response :: server_response where
  "no_response = \<lparr>rs_buffer = None, rs_block = 0, rs_capacity = 0, rs_size = 0\<rparr>"

lemma length_CRLF [simp]: "length CRLF = 2"
  by (simp add: CRLF_def)

lemma set_status_text:
  assumes "length (show_int code) \<le> 11"
  shows "\<exists>r. http_response_set_status_code no_response code status = Inr (r, 0) \<and> response_text r (start_line code status) \<and>
    rs_block r = 512 + length status"
  using assms by (simp add: http_response_set_status_code_def no_response_def snprintf_def response_text_def start_line_def Let_def)

lemma set_header_text:
  assumes "response_text r t" "length n + length v \<le> 470"
  shows "\<exists>r'. http_response_set_header r n v = Inr (r', 0) \<and> response_text r' (t @ header_line (n, v))"
  using assms by (simp add: http_response_set_header_def snprintf_def response_text_def header_line_def Let_def)

text \<open>A header that does not fit the block runs past it: the block is resized only when it is large enough.\<close>

lemma server_header_overrun:
  assumes "response_text r t" "rs_capacity r < rs_size r + length n + length v + 5"
  shows "http_response_set_header r n v = Inl Out_of_bounds"
proof -
  have "\<not> rs_size r + length n + length v + 8 < rs_capacity r" using assms(2) by simp
  then show ?thesis using assms
    by (simp add: http_response_set_header_def snprintf_def response_text_def Let_def in_bounds_def)
qed

lemma set_headers_text:
  "response_text r t \<Longrightarrow> \<forall>(n, v) \<in> set hs. length n + length v \<le> 470 \<Longrightarrow>
   \<exists>r'. set_headers hs r = Inr r' \<and> response_text r' (t @ concat (map header_line hs))"
proof (induction hs arbitrary: r t)
  case (Cons h hs)
  obtain n v where h: "h = (n, v)" by (cases h)
  obtain r1 where r1: "http_response_set_header r n v = Inr (r1, 0)" "response_text r1 (t @ header_line (n, v))"
    using set_header_text [OF Cons.prems(1), of n v] Cons.prems(2) h by auto
  from Cons.IH [OF r1(2)] Cons.prems(2) show ?case using r1(1) h by auto
qed simp

text \<open>A socket that takes everything, now or later.\<close>

definition writable :: "socket \<Rightarrow> bool" where
  "writable k \<longleftrightarrow> sk_open k \<and> (\<forall>t. sk_try k t \<le> int (length t)) \<and> (\<forall>t. 0 \<le> sk_queue k t)"

lemma write_all:
  assumes "writable k" "data \<noteq> []"
  shows "\<exists>ret. http_connection_write k data = (k\<lparr>sk_sent := sk_sent k @ data\<rparr>, ret) \<and> 0 \<le> ret"
proof -
  have "\<not> sk_queue k t < 0" for t using assms(1) by (simp add: writable_def not_less)
  then show ?thesis using assms by (auto simp: http_connection_write_def writable_def Let_def)
qed


lemma write_all':
  assumes "writable k" "data \<noteq> []"
  obtains ret where "http_connection_write k data = (k\<lparr>sk_sent := sk_sent k @ data\<rparr>, ret)" "0 \<le> ret"
  using write_all [OF assms] by blast

text \<open>
  C27.  The response that the socket gets is the status line, the headers in the order in which they were set,
  \<^verbatim>\<open>Content-Length\<close> with the length of the body, \<^verbatim>\<open>Server\<close>, an empty line and the body.  This holds
  when the name and the value of every header that is set have at most 470 bytes together: \<^verbatim>\<open>http_response_set_header\<close>
  compares the sizes the wrong way round and lets a longer header run past the block.  The status code prints as an
  \<^verbatim>\<open>int\<close> does, the body has less than \<open>10 ^ 15\<close> bytes, allocations succeed and the socket takes what is written.
\<close>

theorem server_response_sent:
  assumes "length (show_int code) \<le> 11" "\<forall>(n, v) \<in> set hs. length n + length v \<le> 470" "writable k" "length data < 10 ^ 15"
  shows "\<exists>r1 r2 r3 k' ret. http_response_set_status_code no_response code status = Inr (r1, 0) \<and> set_headers hs r1 = Inr r2 \<and>
    http_response_send r2 k data = Inr (r3, k', ret) \<and> 0 \<le> ret \<and>
    sk_sent k' = sk_sent k @ start_line code status @ concat (map header_line
      (hs @ (if data \<noteq> [] then [(''Content-Length'', show_nat (length data))] else []) @ [(''Server'', ''WoT.js/1.0'')])) @ CRLF @ data"
proof -
  obtain r1 where r1: "http_response_set_status_code no_response code status = Inr (r1, 0)" "response_text r1 (start_line code status)"
    using set_status_text [OF assms(1)] by blast
  define t where "t = start_line code status @ concat (map header_line hs)"
  obtain r2 where r2: "set_headers hs r1 = Inr r2" "response_text r2 t" using set_headers_text [OF r1(2) assms(2)] by (auto simp: t_def)
  define t2 where "t2 = t @ concat (map header_line (if data \<noteq> [] then [(''Content-Length'', show_nat (length data))] else []))"
  have digits: "length (show_nat (length data)) \<le> 15" using show_nat_length [OF assms(4)] by simp
  obtain r3 ret3 where r3: "(if data \<noteq> [] then http_response_set_content_length r2 (length data) else Inr (r2, 0)) = Inr (r3, ret3)"
    "response_text r3 t2"
  proof (cases "data = []")
    case False
    have "fst (snprintf 16 (show_nat (length data))) = show_nat (length data)" using digits by (simp add: snprintf_def)
    then show thesis
      using set_header_text [OF r2(2), of "''Content-Length''" "show_nat (length data)"] digits that False
      by (auto simp: http_response_set_content_length_def t2_def)
  qed (use that r2(2) in \<open>simp add: t2_def\<close>)
  obtain r4 where r4: "http_response_set_header r3 ''Server'' ''WoT.js/1.0'' = Inr (r4, 0)" "response_text r4 (t2 @ header_line (''Server'', ''WoT.js/1.0''))"
    using set_header_text [OF r3(2), of "''Server''" "''WoT.js/1.0''"] by auto
  define head where "head = t2 @ header_line (''Server'', ''WoT.js/1.0'') @ CRLF"
  have head: "take (rs_size r4) (the (rs_buffer r4)) = head" "head \<noteq> []" using r4(2) by (auto simp: response_text_def head_def CRLF_def)
  obtain w where w: "http_connection_write k head = (k\<lparr>sk_sent := sk_sent k @ head\<rparr>, w)" "0 \<le> w"
    using write_all' [OF assms(3) head(2)] .
  let ?k = "k\<lparr>sk_sent := sk_sent k @ head\<rparr>"
  have "writable ?k" using assms(3) by (simp add: writable_def)
  have "rs_buffer r2 \<noteq> None" using r2(2) by (simp add: response_text_def)
  then have send: "http_response_send r2 k data = (if data \<noteq> [] then let (k, ret) = http_connection_write ?k data in Inr (no_response, k, ret) else Inr (no_response, ?k, 0))"
    using w(2) by (simp add: http_response_send_def r3(1) r4(1) head(1) w(1) no_response_def)
  have "\<exists>k' ret. http_response_send r2 k data = Inr (no_response, k', ret) \<and> 0 \<le> ret \<and> sk_sent k' = sk_sent k @ head @ data"
  proof (cases "data = []")
    case False
    then obtain w' where "http_connection_write ?k data = (?k\<lparr>sk_sent := sk_sent ?k @ data\<rparr>, w')" "0 \<le> w'"
      using write_all' [OF \<open>writable ?k\<close>] by blast
    then show ?thesis using send False by simp
  qed (use send in simp)
  moreover have "head @ data = start_line code status @ concat (map header_line
      (hs @ (if data \<noteq> [] then [(''Content-Length'', show_nat (length data))] else []) @ [(''Server'', ''WoT.js/1.0'')])) @ CRLF @ data"
    by (simp add: head_def t2_def t_def)
  ultimately show ?thesis using r1(1) r2(1) by metis
qed

theorem server_response_sent_witness:
  "\<exists>r1 r2 r3 k' ret. http_response_set_status_code no_response 200 ''OK'' = Inr (r1, 0) \<and> set_headers [(''A'', ''b'')] r1 = Inr r2 \<and>
    http_response_send r2 \<lparr>sk_open = True, sk_try = (\<lambda>t. min 3 (int (length t))), sk_queue = (\<lambda>t. 0), sk_sent = []\<rparr> ''hello'' = Inr (r3, k', ret) \<and>
    0 \<le> ret \<and>
    sk_sent k' = ''HTTP/1.1 200 OK'' @ CRLF @ ''A: b'' @ CRLF @ ''Content-Length: 5'' @ CRLF @ ''Server: WoT.js/1.0'' @ CRLF @ CRLF @ ''hello''"
proof -
  have d: "show_int 200 = ''200''" "show_nat 5 = ''5''"
    by (simp_all add: show_int_def show_nat.simps digit_char_def char_of_def bit_iff_odd)
  have five: "show_nat (Suc (Suc (Suc (Suc (Suc 0))))) = ''5''" using d(2) by (simp add: eval_nat_numeral)
  have w: "writable \<lparr>sk_open = True, sk_try = (\<lambda>t. min 3 (int (length t))), sk_queue = (\<lambda>t. 0), sk_sent = []\<rparr>" by (simp add: writable_def)
  show ?thesis
    using server_response_sent [of 200 "[(''A'', ''b'')]" "\<lparr>sk_open = True, sk_try = (\<lambda>t. min 3 (int (length t))), sk_queue = (\<lambda>t. 0), sk_sent = []\<rparr>" "''hello''" "''OK''"] w
    by (simp add: d five start_line_def header_line_def)
qed

text \<open>
  A header whose name and value together are as long as the block of a fresh response, which is 512 bytes and the
  status text, is printed past the end of the block: the block is resized only when it is large enough already.
\<close>

lemma server_header_overflow:
  assumes "length (show_int code) \<le> 11" "512 + length status \<le> length n + length v"
  shows "\<exists>r. http_response_set_status_code no_response code status = Inr (r, 0) \<and> http_response_set_header r n v = Inl Out_of_bounds"
proof -
  obtain r where r: "http_response_set_status_code no_response code status = Inr (r, 0)" "response_text r (start_line code status)"
    "rs_block r = 512 + length status" using set_status_text [OF assms(1)] by blast
  then show ?thesis using assms(2)
    by (auto simp: http_response_set_header_def snprintf_def response_text_def in_bounds_def Let_def)
qed

lemma server_header_overflow_witness:
  "\<exists>r. http_response_set_status_code no_response 200 ''OK'' = Inr (r, 0) \<and>
    http_response_set_header r ''Location'' (replicate 520 (CHR ''x'')) = Inl Out_of_bounds"
  by (rule server_header_overflow) (simp_all add: show_int_def show_nat.simps)

end
