(* ===== verification/Slots.thy ===== *)
theory Slots
  imports Prelude
begin

text \<open>
  A table of a fixed number of pointers, as the servers of this library keep their connections: a pointer is put into
  the first free slot, and its slot is cleared when it goes.  \<open>live\<close> lists the pointers of a table.
\<close>

fun put_slot :: "'a option list \<Rightarrow> 'a \<Rightarrow> 'a option list option" where
  "put_slot [] a = None"
| "put_slot (None # slots) a = Some (Some a # slots)"
| "put_slot (Some b # slots) a = map_option ((#) (Some b)) (put_slot slots a)"

fun drop_slot :: "'a option list \<Rightarrow> 'a \<Rightarrow> 'a option list" where
  "drop_slot [] a = []"
| "drop_slot (x # slots) a = (if x = Some a then None # slots else x # drop_slot slots a)"

definition live :: "'a option list \<Rightarrow> 'a list" where
  "live slots = List.map_filter (\<lambda>x. x) slots"

lemma live_simps [simp]:
  "live [] = []" "live (None # xs) = live xs" "live (Some a # xs) = a # live xs" "live (xs @ ys) = live xs @ live ys"
  by (simp_all add: live_def map_filter_simps map_filter_def)

lemma live_replicate [simp]: "live (replicate n None) = []"
  by (induction n) auto

lemma set_live: "a \<in> set (live xs) \<longleftrightarrow> Some a \<in> set xs"
  by (induction xs rule: induct_list012) (auto simp: live_def map_filter_def)

text \<open>An operation on the table adds or removes one address.\<close>

lemma put_slot_live: "put_slot xs a = Some ys \<Longrightarrow> length ys = length xs \<and> (\<exists>p q. live xs = p @ q \<and> live ys = p @ a # q)"
proof (induction xs a arbitrary: ys rule: put_slot.induct)
  case (2 slots a)
  then have "live (None # slots) = [] @ live slots" "live ys = [] @ a # live slots" "length ys = length (None # slots)" by auto
  then show ?case by blast
next
  case (3 b slots a)
  then obtain zs p q where "put_slot slots a = Some zs" "ys = Some b # zs" "length zs = length slots" "live slots = p @ q" "live zs = p @ a # q"
    by auto
  then have "live (Some b # slots) = (b # p) @ q" "live ys = (b # p) @ a # q" "length ys = length (Some b # slots)" by simp_all
  then show ?case by blast
qed simp

lemma put_slot_full: "put_slot xs a = None \<longleftrightarrow> None \<notin> set xs"
  by (induction xs a rule: put_slot.induct) auto

lemma drop_slot_live: "Some a \<in> set xs \<Longrightarrow> \<exists>p q. live xs = p @ a # q \<and> live (drop_slot xs a) = p @ q"
proof (induction xs a rule: drop_slot.induct)
  case (2 x slots a)
  show ?case
  proof (cases "x = Some a")
    case False
    then obtain p q where "live slots = p @ a # q" "live (drop_slot slots a) = p @ q" using 2 by auto
    then show ?thesis using False by (cases x) (auto intro: exI [of _ p] exI [of _ "the x # p"])
  next
    case True
    then have "live (x # slots) = [] @ a # live slots" "live (drop_slot (x # slots) a) = [] @ live slots" by auto
    then show ?thesis by blast
  qed
qed simp

lemma drop_slot_absent: "a \<notin> set (live xs) \<Longrightarrow> drop_slot xs a = xs"
  by (induction xs a rule: drop_slot.induct) (auto simp: set_live)

lemma length_drop_slot [simp]: "length (drop_slot xs a) = length xs"
  by (induction xs a rule: drop_slot.induct) auto

lemma update_live:
  assumes "i < length xs" "xs ! i = Some a"
  shows "\<exists>p q. live xs = p @ a # q \<and> live (xs[i := None]) = p @ q"
proof -
  have "xs = take i xs @ Some a # drop (Suc i) xs" using assms id_take_nth_drop by metis
  then have "live xs = live (take i xs) @ a # live (drop (Suc i) xs)" by (metis live_simps(3) live_simps(4))
  moreover have "live (xs[i := None]) = live (take i xs) @ live (drop (Suc i) xs)"
    using assms(1) by (simp add: upd_conv_take_nth_drop)
  ultimately show ?thesis by blast
qed

end
