(* ===== verification/HttpConnections.thy ===== *)
theory HttpConnections
  imports Slots
begin

text \<open>
  The connections of \<^verbatim>\<open>modules/networking/libhttp/src/http-server.c\<close>: the table, closing and stopping.  A
  connection is a block of the heap, known by its address; addresses are not used twice, so that a use after
  \<^verbatim>\<open>free\<close> is seen as \<open>Out_of_bounds\<close>.  \<^verbatim>\<open>uv_close\<close> calls back later: the connections it was called for
  are a list, and the callback is a step of its own.
\<close>

section \<open>State\<close>

record http_connection =
  hc_socket :: bool
  hc_closed :: bool
  hc_connection_id :: nat
  hc_handler :: bool
  hc_told :: nat

record http_server =
  hs_server_socket :: bool
  hs_next_connection_id :: nat
  hs_connections :: "nat option list"
  hs_heap :: "nat \<Rightarrow> http_connection option"
  hs_fresh :: nat
  hs_closing :: "nat list"

definition http_server_init :: http_server where
  "http_server_init = \<lparr>hs_server_socket = False, hs_next_connection_id = 1, hs_connections = replicate 100 None,
     hs_heap = (\<lambda>_. None), hs_fresh = 0, hs_closing = []\<rparr>"

text \<open>\<open>ok\<close> is that bind and listen succeed; the socket stays set when they do not.\<close>

definition http_server_start :: "bool \<Rightarrow> http_server \<Rightarrow> http_server \<times> int" where
  "http_server_start ok s = (if hs_server_socket s then (s, -2) else (s\<lparr>hs_server_socket := True\<rparr>, if ok then 0 else -1))"

definition at_address :: "http_server \<Rightarrow> nat \<Rightarrow> http_connection exec" where
  "at_address s a = (case hs_heap s a of None \<Rightarrow> Inl Out_of_bounds | Some c \<Rightarrow> Inr c)"

definition store :: "nat \<Rightarrow> http_connection \<Rightarrow> http_server \<Rightarrow> http_server" where
  "store a c s = s\<lparr>hs_heap := (hs_heap s)(a \<mapsto> c)\<rparr>"

section \<open>The table\<close>

fun get_loop :: "http_server \<Rightarrow> nat option list \<Rightarrow> nat \<Rightarrow> nat option exec" where
  "get_loop s [] i = Inr None"
| "get_loop s (None # slots) i = get_loop s slots i"
| "get_loop s (Some a # slots) i =
     and_then (at_address s a) (\<lambda>c. if hc_connection_id c = i then Inr (Some a) else get_loop s slots i)"

definition http_server_get_connection :: "http_server \<Rightarrow> nat \<Rightarrow> nat option exec" where
  "http_server_get_connection s i = (if i = 0 then Inr None else get_loop s (hs_connections s) i)"

text \<open>The response is a part of the connection.\<close>

definition http_server_get_response :: "http_server \<Rightarrow> nat \<Rightarrow> nat option exec" where
  "http_server_get_response s i = (if i = 0 then Inr None else http_server_get_connection s i)"

definition http_server_add_connection :: "http_server \<Rightarrow> nat \<Rightarrow> (http_server \<times> int) exec" where
  "http_server_add_connection s a =
     and_then (at_address s a) (\<lambda>c.
     let s = (store a (c\<lparr>hc_connection_id := hs_next_connection_id s\<rparr>) s)
           \<lparr>hs_next_connection_id := (hs_next_connection_id s + 1) mod 2 ^ 32\<rparr>
     in case put_slot (hs_connections s) a of
          Some slots \<Rightarrow> Inr (s\<lparr>hs_connections := slots\<rparr>, 0)
        | None \<Rightarrow> Inr (s, -1))"

definition http_server_remove_connection :: "http_server \<Rightarrow> nat \<Rightarrow> http_server \<times> int" where
  "http_server_remove_connection s a =
     (s\<lparr>hs_connections := drop_slot (hs_connections s) a\<rparr>, if Some a \<in> set (hs_connections s) then 0 else -1)"

section \<open>Closing\<close>

text \<open>The handler, if there is one, is forgotten and told once; here it does nothing to the server.\<close>

definition http_connection_close :: "http_server \<Rightarrow> nat \<Rightarrow> http_server exec" where
  "http_connection_close s a =
     and_then (at_address s a) (\<lambda>c.
     let s = store a (c\<lparr>hc_socket := False, hc_handler := False, hc_told := hc_told c + (if hc_handler c then 1 else 0)\<rparr>) s;
         s = fst (http_server_remove_connection s a)
     in Inr (if hc_socket c then s\<lparr>hs_closing := hs_closing s @ [a]\<rparr> else s))"

definition http_response_close :: "http_server \<Rightarrow> nat \<Rightarrow> http_server exec" where
  "http_response_close s a = http_connection_close s a"

text \<open>The callback of \<^verbatim>\<open>uv_close\<close> frees the connection.\<close>

definition http_connection_on_close :: "http_server \<Rightarrow> nat \<Rightarrow> http_server exec" where
  "http_connection_on_close s a =
     and_then (at_address s a) (\<lambda>c. Inr (s\<lparr>hs_heap := (hs_heap s)(a := None), hs_closing := remove1 a (hs_closing s)\<rparr>))"

definition http_response_set_event_handler :: "http_server \<Rightarrow> nat \<Rightarrow> bool \<Rightarrow> http_server exec" where
  "http_response_set_event_handler s a handler = and_then (at_address s a) (\<lambda>c. Inr (store a (c\<lparr>hc_handler := handler\<rparr>) s))"

definition http_connection_init :: "http_server \<Rightarrow> http_server \<times> nat" where
  "http_connection_init s =
     ((store (hs_fresh s) \<lparr>hc_socket = True, hc_closed = False, hc_connection_id = 0, hc_handler = False, hc_told = 0\<rparr> s)
        \<lparr>hs_fresh := hs_fresh s + 1\<rparr>, hs_fresh s)"

definition http_server_on_connection :: "http_server \<Rightarrow> int \<Rightarrow> bool \<Rightarrow> http_server exec" where
  "http_server_on_connection s status accepted =
     (if status = -1 \<or> \<not> accepted then Inr s
      else
        case http_connection_init s of
          (s, a) \<Rightarrow>
            and_then (http_server_add_connection s a) (\<lambda>(s, ret).
            if ret < 0 then http_connection_close s a else Inr s))"

text \<open>\<^verbatim>\<open>http_connection_on_read\<close> closes the connection on an error and at the end of the stream.\<close>

definition http_connection_on_read :: "http_server \<Rightarrow> nat \<Rightarrow> int \<Rightarrow> http_server exec" where
  "http_connection_on_read s a nread = (if nread < 0 then http_connection_close s a else Inr s)"

text \<open>The loop of \<^verbatim>\<open>http_server_stop\<close> over the indices of the table.\<close>

fun stop_loop :: "nat list \<Rightarrow> http_server \<Rightarrow> http_server exec" where
  "stop_loop [] s = Inr s"
| "stop_loop (i # is) s =
     (case hs_connections s ! i of
        None \<Rightarrow> stop_loop is s
      | Some a \<Rightarrow> and_then (http_connection_close (s\<lparr>hs_connections := (hs_connections s)[i := None]\<rparr>) a) (stop_loop is))"

definition http_server_stop :: "http_server \<Rightarrow> http_server exec" where
  "http_server_stop s =
     (if \<not> hs_server_socket s then Inr s
      else stop_loop [0..<length (hs_connections s)] (s\<lparr>hs_server_socket := False\<rparr>))"

section \<open>Everything that can happen\<close>

text \<open>The application reaches a connection through the table, by \<^verbatim>\<open>http_server_get_response\<close>.\<close>

inductive server_step :: "http_server \<Rightarrow> http_server \<Rightarrow> bool" where
  start: "server_step s (fst (http_server_start ok s))"
| connect: "http_server_on_connection s status accepted = Inr t \<Longrightarrow> server_step s t"
| read: "Some a \<in> set (hs_connections s) \<Longrightarrow> http_connection_on_read s a nread = Inr t \<Longrightarrow> server_step s t"
| close: "http_server_get_response s i = Inr (Some a) \<Longrightarrow> http_response_close s a = Inr t \<Longrightarrow> server_step s t"
| handler: "http_server_get_response s i = Inr (Some a) \<Longrightarrow> http_response_set_event_handler s a h = Inr t \<Longrightarrow> server_step s t"
| on_close: "a \<in> set (hs_closing s) \<Longrightarrow> http_connection_on_close s a = Inr t \<Longrightarrow> server_step s t"
| stop: "http_server_stop s = Inr t \<Longrightarrow> server_step s t"

inductive reachable :: "http_server \<Rightarrow> bool" where
  init: "reachable http_server_init"
| step: "reachable s \<Longrightarrow> server_step s t \<Longrightarrow> reachable t"

section \<open>The invariant\<close>

text \<open>
  The heap holds the connections of the table, whose sockets are open, and those that wait for the callback of
  \<^verbatim>\<open>uv_close\<close>, each exactly once.
\<close>

definition heap_ok :: "http_server \<Rightarrow> bool" where
  "heap_ok s \<longleftrightarrow> distinct (live (hs_connections s)) \<and> distinct (hs_closing s) \<and>
     set (live (hs_connections s)) \<inter> set (hs_closing s) = {} \<and>
     dom (hs_heap s) = set (live (hs_connections s)) \<union> set (hs_closing s) \<and>
     (\<forall>a c. hs_heap s a = Some c \<longrightarrow> a < hs_fresh s \<and> hc_connection_id c = (a + 1) mod 2 ^ 32 \<and>
       (hc_socket c \<longleftrightarrow> a \<in> set (live (hs_connections s))) \<and> (\<not> hc_socket c \<longrightarrow> \<not> hc_handler c))"

definition server_ok :: "http_server \<Rightarrow> bool" where
  "server_ok s \<longleftrightarrow> heap_ok s \<and> length (hs_connections s) = 100 \<and> hs_next_connection_id s = (hs_fresh s + 1) mod 2 ^ 32"

text \<open>Closing a connection that stands in the table, whose slot may have been cleared before.\<close>

lemma close_core:
  assumes "heap_ok s" "live (hs_connections s) = p @ a # q" "live (drop_slot zs a) = p @ q"
  shows "\<exists>t c. http_connection_close (s\<lparr>hs_connections := zs\<rparr>) a = Inr t \<and> heap_ok t \<and> hs_connections t = drop_slot zs a \<and>
    hs_closing t = hs_closing s @ [a] \<and> hs_fresh t = hs_fresh s \<and> hs_next_connection_id t = hs_next_connection_id s \<and>
    hs_server_socket t = hs_server_socket s \<and> hs_heap s a = Some c \<and>
    hs_heap t = (hs_heap s)(a \<mapsto> c\<lparr>hc_socket := False, hc_handler := False, hc_told := hc_told c + (if hc_handler c then 1 else 0)\<rparr>)"
proof -
  have "a \<in> dom (hs_heap s)" using assms(1,2) by (simp add: heap_ok_def)
  then obtain c where c: "hs_heap s a = Some c" by blast
  have sock: "hc_socket c" using assms(1,2) c by (simp add: heap_ok_def)
  let ?c = "c\<lparr>hc_socket := False, hc_handler := False, hc_told := hc_told c + (if hc_handler c then 1 else 0)\<rparr>"
  let ?t = "s\<lparr>hs_heap := (hs_heap s)(a \<mapsto> ?c), hs_connections := drop_slot zs a, hs_closing := hs_closing s @ [a]\<rparr>"
  have run: "http_connection_close (s\<lparr>hs_connections := zs\<rparr>) a = Inr ?t"
    using c sock by (simp add: http_connection_close_def at_address_def store_def http_server_remove_connection_def Let_def)
  have "distinct (p @ a # q)" "a \<notin> set (hs_closing s)" using assms(1,2) by (auto simp: heap_ok_def)
  then have "heap_ok ?t" using assms c by (fastforce simp: heap_ok_def)
  then show ?thesis using run c by (intro exI [of _ ?t] exI [of _ c]) simp
qed

lemma close_ok:
  assumes "server_ok s" "Some a \<in> set (hs_connections s)"
  shows "\<exists>t. http_connection_close s a = Inr t \<and> server_ok t"
proof -
  obtain p q where "live (hs_connections s) = p @ a # q" "live (drop_slot (hs_connections s) a) = p @ q"
    using drop_slot_live [OF assms(2)] by blast
  from close_core [OF _ this] show ?thesis using assms(1) by (auto simp: server_ok_def)
qed


lemma fresh_address: "heap_ok s \<Longrightarrow> hs_fresh s \<notin> dom (hs_heap s)"
  unfolding heap_ok_def by (metis domD less_irrefl)

lemma connection_ok:
  assumes "server_ok s"
  shows "\<exists>t. http_server_on_connection s status accepted = Inr t \<and> server_ok t"
proof (cases "status = -1 \<or> \<not> accepted")
  case False
  let ?a = "hs_fresh s"
  let ?c = "\<lparr>hc_socket = True, hc_closed = False, hc_connection_id = hs_next_connection_id s, hc_handler = False, hc_told = 0\<rparr>"
  define s1 where "s1 = s\<lparr>hs_fresh := ?a + 1, hs_heap := (hs_heap s)(?a \<mapsto> ?c),
    hs_next_connection_id := (hs_next_connection_id s + 1) mod 2 ^ 32\<rparr>"
  have ok: "heap_ok s" "length (hs_connections s) = 100" "hs_next_connection_id s = (?a + 1) mod 2 ^ 32"
    using assms by (simp_all add: server_ok_def)
  have "?a \<notin> set (live (hs_connections s))" "?a \<notin> set (hs_closing s)"
    using fresh_address [OF ok(1)] ok(1) by (auto simp: heap_ok_def)
  then have heap: "heap_ok (s1\<lparr>hs_connections := zs\<rparr>)" if "live (hs_connections s) = p @ q" "live zs = p @ ?a # q" for zs p q
    using ok(1,3) that by (fastforce simp: s1_def heap_ok_def)
  have ident: "hs_next_connection_id s1 = (hs_fresh s1 + 1) mod 2 ^ 32"
    using ok(3) by (simp add: s1_def mod_Suc_eq mod_simps)
  have add: "http_server_on_connection s status accepted =
      (case put_slot (hs_connections s) ?a of Some slots \<Rightarrow> Inr (s1\<lparr>hs_connections := slots\<rparr>)
       | None \<Rightarrow> http_connection_close s1 ?a)"
    using False by (simp add: http_server_on_connection_def http_connection_init_def http_server_add_connection_def at_address_def
        store_def s1_def Let_def split: option.splits)
  show ?thesis
  proof (cases "put_slot (hs_connections s) ?a")
    case (Some zs)
    then show ?thesis using add put_slot_live [OF Some] heap ok ident by (auto simp: server_ok_def s1_def)
  next
    case None
    let ?s = "s1\<lparr>hs_connections := hs_connections s @ [Some ?a]\<rparr>" and ?zs = "hs_connections s"
    have "live (hs_connections ?s) = live ?zs @ ?a # []" by simp
    moreover have "live (drop_slot ?zs ?a) = live ?zs @ []" using \<open>?a \<notin> set (live ?zs)\<close> by (simp add: drop_slot_absent)
    moreover have "heap_ok ?s" by (rule heap [of "live ?zs" "[]"]) simp_all
    ultimately obtain t where "http_connection_close (?s\<lparr>hs_connections := ?zs\<rparr>) ?a = Inr t" "heap_ok t"
        "hs_connections t = drop_slot ?zs ?a" "hs_fresh t = hs_fresh s1" "hs_next_connection_id t = hs_next_connection_id s1"
      using close_core [of ?s "live ?zs" ?a "[]" ?zs] by auto
    moreover have "?s\<lparr>hs_connections := ?zs\<rparr> = s1" by (simp add: s1_def)
    ultimately show ?thesis using add None ok ident by (auto simp: server_ok_def)
  qed
qed (use assms in \<open>simp add: http_server_on_connection_def\<close>)

lemma on_close_ok:
  assumes "server_ok s" "a \<in> set (hs_closing s)"
  shows "\<exists>t. http_connection_on_close s a = Inr t \<and> server_ok t \<and> hs_closing t = remove1 a (hs_closing s) \<and>
    hs_connections t = hs_connections s"
proof -
  have "a \<in> dom (hs_heap s)" using assms by (auto simp: server_ok_def heap_ok_def)
  then obtain c where "hs_heap s a = Some c" by blast
  then have "http_connection_on_close s a = Inr (s\<lparr>hs_heap := (hs_heap s)(a := None), hs_closing := remove1 a (hs_closing s)\<rparr>)"
    by (simp add: http_connection_on_close_def at_address_def)
  moreover have "server_ok (s\<lparr>hs_heap := (hs_heap s)(a := None), hs_closing := remove1 a (hs_closing s)\<rparr>)"
    using assms by (fastforce simp: server_ok_def heap_ok_def)
  ultimately show ?thesis by simp
qed

lemma handler_ok:
  assumes "server_ok s" "Some a \<in> set (hs_connections s)"
  shows "\<exists>t. http_response_set_event_handler s a h = Inr t \<and> server_ok t"
proof -
  have a: "a \<in> set (live (hs_connections s))" using assms(2) by (simp add: set_live)
  then have "a \<in> dom (hs_heap s)" using assms(1) by (auto simp: server_ok_def heap_ok_def)
  then obtain c where c: "hs_heap s a = Some c" by blast
  then have "http_response_set_event_handler s a h = Inr (store a (c\<lparr>hc_handler := h\<rparr>) s)"
    by (simp add: http_response_set_event_handler_def at_address_def)
  moreover have "server_ok (store a (c\<lparr>hc_handler := h\<rparr>) s)"
    using assms(1) a c by (auto simp: server_ok_def heap_ok_def store_def)
  ultimately show ?thesis by simp
qed

text \<open>The loop of \<^verbatim>\<open>http_server_stop\<close> clears the slots it has passed.\<close>

lemma stop_loop_ok:
  "server_ok s \<Longrightarrow> set is \<subseteq> {..<100} \<Longrightarrow>
   \<exists>t. stop_loop is s = Inr t \<and> server_ok t \<and> set (hs_connections t) \<subseteq> set (hs_connections s) \<union> {None} \<and>
     (\<forall>i < 100. i \<in> set is \<or> hs_connections s ! i = None \<longrightarrow> hs_connections t ! i = None)"
proof (induction "is" arbitrary: s)
  case (Cons i js)
  have i: "i < length (hs_connections s)" "length (hs_connections s) = 100" "i < 100" using Cons.prems by (auto simp: server_ok_def)
  show ?case
  proof (cases "hs_connections s ! i")
    case None
    then show ?thesis using Cons by fastforce
  next
    case (Some a)
    let ?zs = "(hs_connections s)[i := None]"
    obtain p q where pq: "live (hs_connections s) = p @ a # q" "live ?zs = p @ q" using update_live [OF i(1) Some] by blast
    have "distinct (p @ a # q)" using Cons.prems(1) pq(1) by (simp add: server_ok_def heap_ok_def)
    then have gone: "drop_slot ?zs a = ?zs" using pq(2) by (intro drop_slot_absent) simp
    have "heap_ok s" using Cons.prems(1) by (simp add: server_ok_def)
    from close_core [OF this pq(1), of ?zs] gone pq(2)
    obtain u where u: "http_connection_close (s\<lparr>hs_connections := ?zs\<rparr>) a = Inr u" "heap_ok u" "hs_connections u = ?zs"
      "hs_fresh u = hs_fresh s" "hs_next_connection_id u = hs_next_connection_id s" by auto
    have "server_ok u" using u i Cons.prems(1) by (simp add: server_ok_def)
    from Cons.IH [OF this] Cons.prems(2)
    obtain t where t: "stop_loop js u = Inr t" "server_ok t" "set (hs_connections t) \<subseteq> set ?zs \<union> {None}"
      "\<forall>j < 100. j \<in> set js \<or> ?zs ! j = None \<longrightarrow> hs_connections t ! j = None" using u(3) by auto
    have "set ?zs \<subseteq> insert None (set (hs_connections s))" by (rule set_update_subset_insert)
    moreover have "?zs ! j = None" if "j = i \<or> hs_connections s ! j = None" "j < 100" for j
      using that i by (cases "j = i") simp_all
    ultimately show ?thesis using t u(1) Some by auto
  qed
qed auto

lemma stop_ok:
  assumes "server_ok s"
  shows "\<exists>t. http_server_stop s = Inr t \<and> server_ok t \<and> (hs_server_socket s \<longrightarrow> live (hs_connections t) = [])"
proof (cases "hs_server_socket s")
  case True
  let ?s = "s\<lparr>hs_server_socket := False\<rparr>"
  have ok: "server_ok ?s" "length (hs_connections s) = 100" using assms by (auto simp: server_ok_def heap_ok_def)
  from stop_loop_ok [OF ok(1), of "[0..<100]"]
  obtain t where t: "stop_loop [0..<100] ?s = Inr t" "server_ok t" "\<forall>i < 100. hs_connections t ! i = None"
    by (auto simp: atLeast0LessThan)
  have "Some a \<notin> set (hs_connections t)" for a
    using t(2,3) by (auto simp: server_ok_def in_set_conv_nth)
  then have "live (hs_connections t) = []" using set_live by (metis ex_in_conv set_empty)
  then show ?thesis using t(1,2) True ok(2) by (simp add: http_server_stop_def del: upt_rec_numeral)
qed (use assms in \<open>simp add: http_server_stop_def\<close>)

lemma get_in_table: "http_server_get_response s i = Inr (Some a) \<Longrightarrow> Some a \<in> set (hs_connections s)"
proof -
  have "get_loop s xs i = Inr (Some a) \<Longrightarrow> Some a \<in> set xs" for xs
    by (induction s xs i rule: get_loop.induct) (auto simp: and_then_eq_Inr split: if_splits)
  then show "http_server_get_response s i = Inr (Some a) \<Longrightarrow> Some a \<in> set (hs_connections s)"
    by (auto simp: http_server_get_response_def http_server_get_connection_def split: if_splits)
qed

lemma init_server_ok: "server_ok http_server_init"
proof -
  have "live (replicate n None) = []" for n by (induction n) simp_all
  then show ?thesis by (simp add: http_server_init_def server_ok_def heap_ok_def)
qed

lemma step_ok: "server_step s t \<Longrightarrow> server_ok s \<Longrightarrow> server_ok t"
proof (induction rule: server_step.induct)
  case (start s ok)
  then show ?case by (auto simp: http_server_start_def server_ok_def heap_ok_def)
next
  case (connect s status accepted t)
  then show ?case using connection_ok [of s status accepted] by simp
next
  case (read a s nread t)
  then show ?case using close_ok [of s a] by (auto simp: http_connection_on_read_def split: if_splits)
next
  case (close s i a t)
  then show ?case using close_ok [of s a] get_in_table [of s i a] by (auto simp: http_response_close_def)
next
  case (handler s i a h t)
  then show ?case using handler_ok [of s a h] get_in_table [of s i a] by auto
next
  case (on_close a s t)
  then show ?case using on_close_ok [of s a] by auto
next
  case (stop s t)
  then show ?case using stop_ok [of s] by auto
qed

lemma reachable_server_ok: "reachable s \<Longrightarrow> server_ok s"
  by (induction rule: reachable.induct) (auto intro: init_server_ok step_ok)


section \<open>Properties\<close>

text \<open>
  C28.  In every state the server can reach, its heap holds exactly the connections of the table and those that wait
  for the callback of \<^verbatim>\<open>uv_close\<close>, none of them twice, and no operation touches a freed connection: accepting,
  also when the table is full, reading, closing, the callback and stopping all succeed.
\<close>

theorem server_connections_accounted:
  assumes "reachable s"
  shows "dom (hs_heap s) = {a. Some a \<in> set (hs_connections s)} \<union> set (hs_closing s) \<and>
    {a. Some a \<in> set (hs_connections s)} \<inter> set (hs_closing s) = {} \<and>
    distinct (live (hs_connections s) @ hs_closing s) \<and> length (hs_connections s) = 100 \<and>
    (\<forall>status accepted. \<exists>t. http_server_on_connection s status accepted = Inr t) \<and>
    (\<forall>a nread. Some a \<in> set (hs_connections s) \<longrightarrow> (\<exists>t. http_connection_on_read s a nread = Inr t)) \<and>
    (\<forall>a \<in> set (hs_closing s). \<exists>t. http_connection_on_close s a = Inr t) \<and> (\<exists>t. http_server_stop s = Inr t)"
proof -
  have ok: "server_ok s" by (rule reachable_server_ok [OF assms])
  have set: "{a. Some a \<in> set (hs_connections s)} = set (live (hs_connections s))" by (auto simp: set_live)
  have h: "heap_ok s" "length (hs_connections s) = 100" using ok by (simp_all add: server_ok_def)
  have "\<exists>t. http_connection_on_read s a nread = Inr t" if "Some a \<in> set (hs_connections s)" for a nread
    using close_ok [OF ok that] by (auto simp: http_connection_on_read_def)
  moreover have "\<exists>t. http_server_on_connection s status accepted = Inr t" for status accepted
    using connection_ok [OF ok, of status accepted] by blast
  moreover have "\<exists>t. http_connection_on_close s a = Inr t" if "a \<in> set (hs_closing s)" for a
    using on_close_ok [OF ok that] by blast
  moreover have "\<exists>t. http_server_stop s = Inr t" using stop_ok [OF ok] by blast
  ultimately show ?thesis using h unfolding set heap_ok_def by (simp only: distinct_append simp_thms) simp
qed

text \<open>A server that has been started, and its state after one connection.\<close>

definition started :: http_server where
  "started = fst (http_server_start True http_server_init)"

definition one_connection :: http_server where
  "one_connection = (case http_server_on_connection started 0 True of Inr t \<Rightarrow> t | Inl _ \<Rightarrow> started)"

lemma one_connection_value:
  "hs_connections one_connection = Some 0 # replicate 99 None" "hs_fresh one_connection = 1" "hs_server_socket one_connection"
proof -
  have r: "replicate 100 (None :: nat option) = None # replicate 99 None" using replicate_Suc [of 99] by simp
  show "hs_connections one_connection = Some 0 # replicate 99 None" "hs_fresh one_connection = 1" "hs_server_socket one_connection"
    by (simp_all add: one_connection_def started_def http_server_start_def http_server_init_def http_server_on_connection_def
        http_connection_init_def http_server_add_connection_def at_address_def store_def r Let_def)
qed

lemma one_connection_reachable: "reachable one_connection"
proof -
  have r: "reachable started" unfolding started_def by (rule reachable.step [OF reachable.init server_step.start])
  obtain t where "http_server_on_connection started 0 True = Inr t" using connection_ok [OF reachable_server_ok [OF r]] by blast
  then show ?thesis using r by (auto simp: one_connection_def intro: reachable.step server_step.connect)
qed

theorem server_connections_accounted_witness:
  "dom (hs_heap one_connection) = {a. Some a \<in> set (hs_connections one_connection)} \<union> set (hs_closing one_connection) \<and>
   (\<exists>t. http_server_stop one_connection = Inr t)"
  using server_connections_accounted [OF one_connection_reachable] by blast

text \<open>
  As long as fewer than \<open>2 ^ 32 - 1\<close> connections have been accepted, \<^verbatim>\<open>http_server_get_connection\<close> finds
  exactly the connection that was given the identifier, if it still stands in the table, and never another one.
\<close>

lemma server_connection_lookup:
  assumes "reachable s" "hs_fresh s < 2 ^ 32 - 1"
  shows "http_server_get_connection s i = Inr (if i \<noteq> 0 \<and> Some (i - 1) \<in> set (hs_connections s) then Some (i - 1) else None)"
proof -
  have ok: "heap_ok s" using reachable_server_ok [OF assms(1)] by (simp add: server_ok_def)
  have c: "\<exists>c. at_address s a = Inr c \<and> hc_connection_id c = a + 1" if "Some a \<in> set (hs_connections s)" for a
  proof -
    have "a \<in> dom (hs_heap s)" using ok that by (auto simp: heap_ok_def set_live)
    then obtain c where c: "hs_heap s a = Some c" by blast
    then have "a < hs_fresh s" "hc_connection_id c = (a + 1) mod 2 ^ 32" using ok unfolding heap_ok_def by blast+
    then show ?thesis using c assms(2) by (simp add: at_address_def)
  qed
  have "get_loop s xs i = Inr (if i \<noteq> 0 \<and> Some (i - 1) \<in> set xs then Some (i - 1) else None)" if "set xs \<subseteq> set (hs_connections s)" for xs
    using that
  proof (induction xs)
    case (Cons x xs)
    show ?case
    proof (cases x)
      case (Some a)
      then obtain c0 where "at_address s a = Inr c0" "hc_connection_id c0 = a + 1" using c [of a] Cons.prems by auto
      then show ?thesis using Some Cons by auto
    qed (use Cons in simp)
  qed simp
  then show ?thesis by (simp add: http_server_get_connection_def)
qed

lemma server_connection_lookup_witness:
  "http_server_get_connection one_connection 1 = Inr (Some 0) \<and> http_server_get_connection one_connection 2 = Inr None"
proof -
  have few: "hs_fresh one_connection < 2 ^ 32 - 1" by (simp add: one_connection_value)
  have slot: "Some 0 \<in> set (hs_connections one_connection) \<and> Some (Suc 0) \<notin> set (hs_connections one_connection)"
    by (simp add: one_connection_value)
  show ?thesis
    using server_connection_lookup [OF one_connection_reachable few, of 1] server_connection_lookup [OF one_connection_reachable few, of 2] slot
    by simp
qed

text \<open>The callbacks of \<^verbatim>\<open>uv_close\<close>, one after the other.\<close>

fun close_callbacks :: "nat list \<Rightarrow> http_server \<Rightarrow> http_server exec" where
  "close_callbacks [] s = Inr s"
| "close_callbacks (a # as) s = and_then (http_connection_on_close s a) (close_callbacks as)"

lemma close_callbacks_ok:
  "server_ok s \<Longrightarrow> live (hs_connections s) = [] \<Longrightarrow> hs_closing s = as \<Longrightarrow>
   \<exists>u. close_callbacks as s = Inr u \<and> hs_heap u = Map.empty \<and> hs_connections u = hs_connections s"
proof (induction as arbitrary: s)
  case Nil
  then have "dom (hs_heap s) = {}" by (simp add: server_ok_def heap_ok_def)
  then show ?case by simp
next
  case (Cons a as)
  obtain t where "http_connection_on_close s a = Inr t" "server_ok t" "hs_closing t = as" "hs_connections t = hs_connections s"
    using on_close_ok [OF Cons.prems(1), of a] Cons.prems(3) by auto
  then show ?case using Cons.IH [of t] Cons.prems(2) by auto
qed

text \<open>
  C29.  Stopping a running server clears the table, and once the callbacks of \<^verbatim>\<open>uv_close\<close> have run, every
  connection, whatever its history, has been freed.
\<close>

theorem server_stop_releases:
  assumes "reachable s" "hs_server_socket s"
  shows "\<exists>t u. http_server_stop s = Inr t \<and> set (hs_connections t) = {None} \<and>
    close_callbacks (hs_closing t) t = Inr u \<and> hs_heap u = Map.empty"
proof -
  obtain t where t: "http_server_stop s = Inr t" "server_ok t" "live (hs_connections t) = []"
    using stop_ok [OF reachable_server_ok [OF assms(1)]] assms(2) by blast
  have "x = None" if "x \<in> set (hs_connections t)" for x
    using that t(3) set_live [of "the x" "hs_connections t"] by (metis empty_iff empty_set option.collapse)
  moreover have "hs_connections t \<noteq> []" using t(2) by (auto simp: server_ok_def)
  ultimately have "set (hs_connections t) = {None}" by (cases "hs_connections t") auto
  then show ?thesis using t(1) close_callbacks_ok [OF t(2,3) refl] by blast
qed

theorem server_stop_releases_witness:
  "\<exists>t u. http_server_stop one_connection = Inr t \<and> set (hs_connections t) = {None} \<and>
    close_callbacks (hs_closing t) t = Inr u \<and> hs_heap u = Map.empty"
  by (rule server_stop_releases [OF one_connection_reachable one_connection_value(3)])

end
