(* ===== verification/TcpTransport.thy ===== *)
theory TcpTransport
  imports HttpRequest
begin

text \<open>
  The TCP transport of \<^verbatim>\<open>core/deps/networking/src/tcp-transport.c\<close>: a client's socket, its lookup, its connection
  and its writes.  The event loop, libuv, calls back: what it still has to call back for is part of the state, and each
  callback is an operation.  A socket is a block of the heap; an address is not used twice, so that a use after
  \<^verbatim>\<open>free\<close> is \<open>Out_of_bounds\<close>.  What libuv answers to a call is an environment; allocations succeed.
\<close>

section \<open>State\<close>

abbreviation (input) TCP_TRANSPORT_EVENT_CONNECTED :: nat where "TCP_TRANSPORT_EVENT_CONNECTED \<equiv> 2"
abbreviation (input) TCP_TRANSPORT_EVENT_READY :: nat where "TCP_TRANSPORT_EVENT_READY \<equiv> 3"
abbreviation (input) TCP_TRANSPORT_EVENT_ERROR :: nat where "TCP_TRANSPORT_EVENT_ERROR \<equiv> 4"

abbreviation (input) TCP_TRANSPORT_STATE_CONNECTING :: nat where "TCP_TRANSPORT_STATE_CONNECTING \<equiv> 0"
abbreviation (input) TCP_TRANSPORT_STATE_OPEN :: nat where "TCP_TRANSPORT_STATE_OPEN \<equiv> 1"
abbreviation (input) TCP_TRANSPORT_STATE_CLOSED :: nat where "TCP_TRANSPORT_STATE_CLOSED \<equiv> 3"

abbreviation (input) UV_EINVAL :: int where "UV_EINVAL \<equiv> -22"

text \<open>The pointers that are only tested for \<^verbatim>\<open>NULL\<close> are truth values.\<close>

record tcp_transport =
  tt_socket :: "nat option"
  tt_loop :: bool
  tt_on_event :: bool
  tt_on_input :: bool
  tt_data :: bool
  tt_ready_state :: nat

text \<open>A socket: what the kernel took for the peer, and the write requests that wait, with their copies of the data.\<close>

record uv_tcp =
  us_closing :: bool
  us_reading :: bool
  us_sent :: string
  us_queue :: "string list"

text \<open>
  The requests for which libuv will call back: lookups, and connections of a socket.  \<open>tp_lost\<close> counts the requests
  that no one will free.  \<open>tp_client\<close> is what the parameter of the handlers points to.
\<close>

record 'c tcp =
  tp_self :: tcp_transport
  tp_heap :: "nat \<Rightarrow> uv_tcp option"
  tp_fresh :: nat
  tp_resolvers :: "(string \<times> string) list"
  tp_connects :: "nat list"
  tp_lost :: nat
  tp_client :: 'c

datatype tcp_call =
    Tcp_event nat int "string option"
  | Tcp_input string int

text \<open>The two functions of the client, \<^verbatim>\<open>on_event\<close> and \<^verbatim>\<open>on_input\<close>.\<close>

type_synonym 'c tcp_handler = "tcp_call \<Rightarrow> 'c tcp \<Rightarrow> 'c tcp exec"

record uv_env =
  uv_getaddrinfo :: "string \<Rightarrow> string \<Rightarrow> int"
  uv_tcp_init :: int
  uv_tcp_connect :: int
  uv_try_write :: "uv_tcp \<Rightarrow> string \<Rightarrow> int"
  uv_write :: "uv_tcp \<Rightarrow> string \<Rightarrow> int"

definition at_socket :: "'c tcp \<Rightarrow> nat \<Rightarrow> uv_tcp exec" where
  "at_socket w s = (case tp_heap w s of None \<Rightarrow> Inl Out_of_bounds | Some u \<Rightarrow> Inr u)"

definition put_socket :: "nat \<Rightarrow> uv_tcp \<Rightarrow> 'c tcp \<Rightarrow> 'c tcp" where
  "put_socket s u w = w\<lparr>tp_heap := (tp_heap w)(s \<mapsto> u)\<rparr>"

definition set_ready_state :: "nat \<Rightarrow> 'c tcp \<Rightarrow> 'c tcp" where
  "set_ready_state n w = w\<lparr>tp_self := (tp_self w)\<lparr>tt_ready_state := n\<rparr>\<rparr>"

section \<open>Operations\<close>

definition raise_event :: "'c tcp_handler \<Rightarrow> nat \<Rightarrow> int \<Rightarrow> string option \<Rightarrow> 'c tcp \<Rightarrow> 'c tcp exec" where
  "raise_event h event status data w = (if tt_on_event (tp_self w) then h (Tcp_event event status data) w else Inr w)"

definition tcp_transport_on_error :: "'c tcp_handler \<Rightarrow> string \<Rightarrow> int \<Rightarrow> 'c tcp \<Rightarrow> 'c tcp exec" where
  "tcp_transport_on_error h what status w =
     and_then (raise_event h TCP_TRANSPORT_EVENT_ERROR status (Some what) w) (\<lambda>w.
     Inr (set_ready_state TCP_TRANSPORT_STATE_CLOSED w))"

definition tcp_transport_is_ready :: "'c tcp \<Rightarrow> bool exec" where
  "tcp_transport_is_ready w =
     (case tt_socket (tp_self w) of None \<Rightarrow> Inr False
      | Some s \<Rightarrow> and_then (at_socket w s) (\<lambda>u. Inr (length (concat (us_queue u)) = 0)))"

text \<open>The request has left the queue of its socket, and is freed.\<close>

definition tcp_transport_on_write :: "'c tcp_handler \<Rightarrow> 'c tcp \<Rightarrow> 'c tcp exec" where
  "tcp_transport_on_write h w =
     and_then (tcp_transport_is_ready w) (\<lambda>is_ready.
     if is_ready then raise_event h TCP_TRANSPORT_EVENT_READY 0 None w else Inr w)"

text \<open>A negative answer of \<^verbatim>\<open>uv_try_write\<close> sends nothing; the rest of the data is copied and queued.\<close>

definition tcp_transport_write :: "uv_env \<Rightarrow> string \<Rightarrow> 'c tcp \<Rightarrow> ('c tcp \<times> int) exec" where
  "tcp_transport_write env data w =
     (if data = [] then Inr (w, UV_EINVAL)
      else
        case tt_socket (tp_self w) of None \<Rightarrow> Inr (w, UV_EINVAL)
        | Some s \<Rightarrow>
            and_then (at_socket w s) (\<lambda>u.
            let ret = uv_try_write env u data;
                u = u\<lparr>us_sent := us_sent u @ take (nat ret) data\<rparr>
            in if ret = int (length data) then Inr (put_socket s u w, 0)
               else
                 let rest = drop (nat ret) data; ret = uv_write env u rest
                 in if ret \<noteq> 0 then Inr (put_socket s u w, ret)
                    else Inr (put_socket s (u\<lparr>us_queue := us_queue u @ [rest]\<rparr>) w, 1)))"

definition tcp_transport_on_read :: "'c tcp_handler \<Rightarrow> string \<Rightarrow> int \<Rightarrow> 'c tcp \<Rightarrow> 'c tcp exec" where
  "tcp_transport_on_read h data nread w =
     and_then (if nread < 0 then tcp_transport_on_error h ''read'' nread w else Inr w) (\<lambda>w.
     if tt_on_input (tp_self w) then h (Tcp_input data nread) w else Inr w)"

text \<open>The event comes first; then the socket must still be there.\<close>

definition tcp_transport_on_connect :: "'c tcp_handler \<Rightarrow> int \<Rightarrow> 'c tcp \<Rightarrow> 'c tcp exec" where
  "tcp_transport_on_connect h status w =
     (if status < 0 then tcp_transport_on_error h ''connect'' status w
      else
        and_then (raise_event h TCP_TRANSPORT_EVENT_CONNECTED 0 None w) (\<lambda>w.
        case tt_socket (tp_self w) of None \<Rightarrow> Inl Assert_failed
        | Some s \<Rightarrow>
            and_then (at_socket w s) (\<lambda>u.
            Inr (set_ready_state TCP_TRANSPORT_STATE_OPEN (put_socket s (u\<lparr>us_reading := True\<rparr>) w)))))"

definition tcp_transport_on_resolved :: "uv_env \<Rightarrow> 'c tcp_handler \<Rightarrow> int \<Rightarrow> 'c tcp \<Rightarrow> 'c tcp exec" where
  "tcp_transport_on_resolved env h status w =
     (if \<not> tt_loop (tp_self w) then Inr w
      else if status < 0 then tcp_transport_on_error h ''lookup'' status w
      else if uv_tcp_init env \<noteq> 0 then tcp_transport_on_error h ''init'' (uv_tcp_init env) w
      else
        let s = tp_fresh w;
            w = (put_socket s \<lparr>us_closing = False, us_reading = False, us_sent = [], us_queue = []\<rparr> w)
                  \<lparr>tp_fresh := s + 1, tp_self := (tp_self w)\<lparr>tt_socket := Some s\<rparr>\<rparr>
        in if uv_tcp_connect env \<noteq> 0
           then tcp_transport_on_error h ''connect'' (uv_tcp_connect env) (w\<lparr>tp_lost := tp_lost w + 1\<rparr>)
           else Inr (w\<lparr>tp_connects := tp_connects w @ [s]\<rparr>))"

definition tcp_transport_init :: "'c \<Rightarrow> 'c tcp" where
  "tcp_transport_init param =
     \<lparr>tp_self = \<lparr>tt_socket = None, tt_loop = True, tt_on_event = False, tt_on_input = False, tt_data = True,
         tt_ready_state = TCP_TRANSPORT_STATE_CONNECTING\<rparr>,
       tp_heap = Map.empty, tp_fresh = 0, tp_resolvers = [], tp_connects = [], tp_lost = 0, tp_client = param\<rparr>"

definition tcp_transport_connect :: "uv_env \<Rightarrow> 'c tcp_handler \<Rightarrow> string \<Rightarrow> int \<Rightarrow> 'c tcp \<Rightarrow> ('c tcp \<times> int) exec" where
  "tcp_transport_connect env h host port w =
     (if \<not> tt_loop (tp_self w) then Inr (w, -1)
      else
        let ports = fst (snprintf 16 (show_int port)); ret = uv_getaddrinfo env host ports
        in if ret \<noteq> 0
           then and_then (tcp_transport_on_error h ''lookup'' ret (w\<lparr>tp_lost := tp_lost w + 1\<rparr>)) (\<lambda>w. Inr (w, ret))
           else Inr (w\<lparr>tp_resolvers := tp_resolvers w @ [(host, ports)]\<rparr>, 0))"

definition tcp_transport_on_close :: "nat \<Rightarrow> 'c tcp \<Rightarrow> 'c tcp exec" where
  "tcp_transport_on_close s w = and_then (at_socket w s) (\<lambda>u. Inr (w\<lparr>tp_heap := (tp_heap w)(s := None)\<rparr>))"

text \<open>\<^verbatim>\<open>uv_close\<close> stops the reading at once, and calls back later.\<close>

definition tcp_transport_destroy :: "'c tcp \<Rightarrow> 'c tcp exec" where
  "tcp_transport_destroy w =
     and_then
       (case tt_socket (tp_self w) of None \<Rightarrow> Inr w
        | Some s \<Rightarrow>
            and_then (at_socket w s) (\<lambda>u.
            if us_closing u then tcp_transport_on_close s w
            else Inr (put_socket s (u\<lparr>us_closing := True, us_reading := False\<rparr>) w)))
       (\<lambda>w. Inr (w\<lparr>tp_self := \<lparr>tt_socket = None, tt_loop = False, tt_on_event = False, tt_on_input = False, tt_data = False,
           tt_ready_state = TCP_TRANSPORT_STATE_CLOSED\<rparr>\<rparr>))"

section \<open>Everything that can happen\<close>

text \<open>The callbacks of the event loop, and the calls of the application.\<close>

datatype tcp_action =
    Resolved nat uv_env int
  | Connected nat int
  | Read nat string int
  | Sent nat
  | Failed nat
  | Closed nat
  | Connect uv_env string int
  | Write uv_env string
  | Destroy

text \<open>
  When an action can happen.  As libuv documents, the connection of a closing socket fails, a closing socket sends
  nothing, and the callback of \<^verbatim>\<open>uv_close\<close> comes last.  The application connects once.
\<close>

fun tcp_enabled :: "'c tcp \<Rightarrow> tcp_action \<Rightarrow> bool" where
  "tcp_enabled w (Resolved i env status) = (i < length (tp_resolvers w))"
| "tcp_enabled w (Connected s status) =
     (s \<in> set (tp_connects w) \<and> (case tp_heap w s of None \<Rightarrow> True | Some u \<Rightarrow> us_closing u \<longrightarrow> status < 0))"
| "tcp_enabled w (Read s data nread) =
     ((case tp_heap w s of None \<Rightarrow> False | Some u \<Rightarrow> us_reading u) \<and> (nread = int (length data) \<or> nread < 0 \<and> data = []))"
| "tcp_enabled w (Sent s) = (case tp_heap w s of None \<Rightarrow> False | Some u \<Rightarrow> \<not> us_closing u \<and> us_queue u \<noteq> [])"
| "tcp_enabled w (Failed s) = (case tp_heap w s of None \<Rightarrow> False | Some u \<Rightarrow> us_queue u \<noteq> [])"
| "tcp_enabled w (Closed s) =
     (case tp_heap w s of None \<Rightarrow> False | Some u \<Rightarrow> us_closing u \<and> us_queue u = [] \<and> s \<notin> set (tp_connects w))"
| "tcp_enabled w (Connect env host port) = (tp_resolvers w = [] \<and> tt_socket (tp_self w) = None)"
| "tcp_enabled w (Write env data) = True"
| "tcp_enabled w Destroy = True"

fun tcp_run :: "'c tcp_handler \<Rightarrow> tcp_action \<Rightarrow> 'c tcp \<Rightarrow> 'c tcp exec" where
  "tcp_run h (Resolved i env status) w =
     tcp_transport_on_resolved env h status (w\<lparr>tp_resolvers := take i (tp_resolvers w) @ drop (i + 1) (tp_resolvers w)\<rparr>)"
| "tcp_run h (Connected s status) w = tcp_transport_on_connect h status (w\<lparr>tp_connects := remove1 s (tp_connects w)\<rparr>)"
| "tcp_run h (Read s data nread) w = tcp_transport_on_read h data nread w"
| "tcp_run h (Sent s) w =
     and_then (at_socket w s) (\<lambda>u.
     tcp_transport_on_write h (put_socket s (u\<lparr>us_sent := us_sent u @ concat (take 1 (us_queue u)), us_queue := drop 1 (us_queue u)\<rparr>) w))"
| "tcp_run h (Failed s) w =
     and_then (at_socket w s) (\<lambda>u. tcp_transport_on_write h (put_socket s (u\<lparr>us_queue := drop 1 (us_queue u)\<rparr>) w))"
| "tcp_run h (Closed s) w = tcp_transport_on_close s w"
| "tcp_run h (Connect env host port) w = and_then (tcp_transport_connect env h host port w) (\<lambda>(w, ret). Inr w)"
| "tcp_run h (Write env data) w = and_then (tcp_transport_write env data w) (\<lambda>(w, ret). Inr w)"
| "tcp_run h Destroy w = tcp_transport_destroy w"

fun tcp_actions :: "'c tcp_handler \<Rightarrow> tcp_action list \<Rightarrow> 'c tcp \<Rightarrow> 'c tcp exec" where
  "tcp_actions h [] w = Inr w"
| "tcp_actions h (a # as) w = and_then (tcp_run h a w) (tcp_actions h as)"

definition is_callback :: "tcp_action \<Rightarrow> bool" where
  "is_callback a \<longleftrightarrow> (case a of Connect env host port \<Rightarrow> False | Write env data \<Rightarrow> False | Destroy \<Rightarrow> False | _ \<Rightarrow> True)"

text \<open>A transport whose client has set its handlers.\<close>

definition tcp_start :: "'c \<Rightarrow> 'c tcp" where
  "tcp_start param =
     (let w = tcp_transport_init param in w\<lparr>tp_self := (tp_self w)\<lparr>tt_on_event := True, tt_on_input := True\<rparr>\<rparr>)"

inductive tcp_reachable :: "'c tcp_handler \<Rightarrow> 'c \<Rightarrow> 'c tcp \<Rightarrow> bool" for h param where
  start: "tcp_reachable h param (tcp_start param)"
| step: "tcp_reachable h param w \<Longrightarrow> tcp_enabled w a \<Longrightarrow> tcp_run h a w = Inr v \<Longrightarrow> tcp_reachable h param v"

inductive tcp_loop :: "'c tcp_handler \<Rightarrow> nat \<Rightarrow> 'c tcp \<Rightarrow> 'c tcp \<Rightarrow> bool" for h where
  stop: "tcp_loop h 0 w w"
| turn: "is_callback a \<Longrightarrow> tcp_enabled w a \<Longrightarrow> tcp_run h a w = Inr v \<Longrightarrow> tcp_loop h n v x \<Longrightarrow> tcp_loop h (Suc n) w x"

end
