(* ===== verification/HttpClient.thy ===== *)
theory HttpClient
  imports TcpTransport Uri
begin

text \<open>
  The HTTP client of \<^verbatim>\<open>modules/networking/libhttp/src/http-client.c\<close>, built without \<^verbatim>\<open>CONFIG_MBEDTLS\<close>: preparing a
  request, sending it over the TCP transport, and collecting the response from the callbacks of the parser.  The streaming
  parser, libuv and the application are an environment.  Allocations of the client's own strings succeed.
\<close>

section \<open>State\<close>

abbreviation (input) HTTP_CLIENT_MAX_HEADER_COUNT :: nat where "HTTP_CLIENT_MAX_HEADER_COUNT \<equiv> 100"

abbreviation (input) HTTP_CLIENT_STATE_UNSENT :: nat where "HTTP_CLIENT_STATE_UNSENT \<equiv> 0"
abbreviation (input) HTTP_CLIENT_STATE_OPENED :: nat where "HTTP_CLIENT_STATE_OPENED \<equiv> 1"
abbreviation (input) HTTP_CLIENT_STATE_HEADERS_RECEIVED :: nat where "HTTP_CLIENT_STATE_HEADERS_RECEIVED \<equiv> 2"
abbreviation (input) HTTP_CLIENT_STATE_LOADING :: nat where "HTTP_CLIENT_STATE_LOADING \<equiv> 3"
abbreviation (input) HTTP_CLIENT_STATE_DONE :: nat where "HTTP_CLIENT_STATE_DONE \<equiv> 4"

abbreviation (input) HTTP_GET :: int where "HTTP_GET \<equiv> 1"
abbreviation (input) HTTP_POST :: int where "HTTP_POST \<equiv> 3"

text \<open>
  \<open>ht_headers\<close> are the headers up to \<^verbatim>\<open>header_count\<close>; \<open>ht_body\<close> is the block of the request's body with the
  length that goes with it; \<open>ht_strings\<close> counts the strings of the response that were allocated and not freed.
  \<open>ht_parsed\<close> and \<open>ht_failed\<close> are the parser: what it was given, and whether it stopped.
\<close>

record 'a http_client =
  ht_request :: "http_request option"
  ht_url :: "uri option"
  ht_body :: "(string \<times> nat) option"
  ht_status_text :: "string option"
  ht_value :: "string option"
  ht_headers :: "(string \<times> string) list"
  ht_content_length :: nat
  ht_status_code :: nat
  ht_method :: int
  ht_ready_state :: nat
  ht_timeout :: nat
  ht_handler :: bool
  ht_closed :: bool
  ht_data :: 'a
  ht_strings :: nat
  ht_parsed :: string
  ht_failed :: bool

type_synonym 'a http_world = "'a http_client tcp"

datatype client_call =
    Message_begin
  | Status string
  | Header_field string
  | Header_value string
  | Headers_complete nat nat
  | Body string
  | Message_complete nat nat

text \<open>
  \<open>ce_parse old new\<close> are the calls of the parser for the bytes \<open>new\<close> after \<open>old\<close>.  The application notes what it
  is told, and may then destroy the client.
\<close>

record 'a client_env =
  ce_uv :: uv_env
  ce_alloc :: "nat \<Rightarrow> bool"
  ce_parse :: "string \<Rightarrow> string \<Rightarrow> client_call list"
  ce_note :: "nat \<Rightarrow> int \<Rightarrow> int \<Rightarrow> string option \<Rightarrow> 'a \<Rightarrow> 'a"
  ce_quits :: "nat \<Rightarrow> int \<Rightarrow> int \<Rightarrow> string option \<Rightarrow> 'a \<Rightarrow> bool"

definition set_client :: "'a http_client \<Rightarrow> 'a http_world \<Rightarrow> 'a http_world" where
  "set_client c w = w\<lparr>tp_client := c\<rparr>"

text \<open>How many strings a pointer that is then freed accounts for.\<close>

definition held :: "string option \<Rightarrow> nat" where
  "held p = (if p = None then 0 else 1)"

section \<open>Resetting and destroying\<close>

definition http_client_reset :: "'a http_client \<Rightarrow> 'a http_client" where
  "http_client_reset c =
     c\<lparr>ht_request := None, ht_url := None, ht_body := None, ht_status_text := None, ht_value := None, ht_headers := [],
       ht_strings := ht_strings c - held (ht_status_text c) - held (ht_value c) - 2 * length (ht_headers c),
       ht_content_length := 0, ht_status_code := 0, ht_method := 0, ht_ready_state := HTTP_CLIENT_STATE_UNSENT\<rparr>"

definition http_client_destroy :: "'a http_world \<Rightarrow> 'a http_world exec" where
  "http_client_destroy w =
     (let c = tp_client w in
      if ht_closed c then Inr w
      else tcp_transport_destroy (set_client (http_client_reset (c\<lparr>ht_closed := True, ht_handler := False\<rparr>)) w))"

definition response_handler ::
    "'a client_env \<Rightarrow> nat \<Rightarrow> int \<Rightarrow> int \<Rightarrow> string option \<Rightarrow> 'a http_world \<Rightarrow> 'a http_world exec" where
  "response_handler env state status len data w =
     (let c = tp_client w in
      if \<not> ht_handler c then Inr w
      else
        let w = set_client (c\<lparr>ht_data := ce_note env state status len data (ht_data c)\<rparr>) w
        in if ce_quits env state status len data (ht_data c) then http_client_destroy w else Inr w)"

section \<open>The callbacks of the parser\<close>

definition http_parser_strdup :: "string \<Rightarrow> string option" where
  "http_parser_strdup at_text = (if at_text = [] then None else Some at_text)"

definition client_on_headers_complete :: "'a client_env \<Rightarrow> nat \<Rightarrow> nat \<Rightarrow> 'a http_world \<Rightarrow> ('a http_world \<times> int) exec" where
  "client_on_headers_complete env status len w =
     (let c = tp_client w;
          c = c\<lparr>ht_value := None, ht_strings := ht_strings c - held (ht_value c), ht_ready_state := HTTP_CLIENT_STATE_HEADERS_RECEIVED\<rparr>
      in if \<not> ht_handler c then Inr (set_client c w, 0)
         else
           and_then (response_handler env HTTP_CLIENT_STATE_HEADERS_RECEIVED (int status) (to_int64 (int len)) None
             (set_client (c\<lparr>ht_status_code := status, ht_content_length := len\<rparr>) w)) (\<lambda>w. Inr (w, 0)))"

definition client_on_message_complete :: "'a client_env \<Rightarrow> nat \<Rightarrow> nat \<Rightarrow> 'a http_world \<Rightarrow> ('a http_world \<times> int) exec" where
  "client_on_message_complete env status len w =
     and_then (response_handler env HTTP_CLIENT_STATE_DONE (int status) (to_int64 (int len)) None
       (set_client ((tp_client w)\<lparr>ht_ready_state := HTTP_CLIENT_STATE_DONE\<rparr>) w)) (\<lambda>w. Inr (w, 0))"

definition client_on_status :: "string \<Rightarrow> 'a http_client \<Rightarrow> 'a http_client" where
  "client_on_status piece c =
     c\<lparr>ht_status_text := http_parser_strdup piece,
       ht_strings := ht_strings c - held (ht_status_text c) + held (http_parser_strdup piece)\<rparr>"

text \<open>An old name is overwritten, not freed.\<close>

definition client_on_header_field :: "string \<Rightarrow> 'a http_client \<Rightarrow> 'a http_client" where
  "client_on_header_field piece c =
     c\<lparr>ht_value := http_parser_strdup piece, ht_strings := ht_strings c + held (http_parser_strdup piece)\<rparr>"

text \<open>The last place of the table is not used; a header that finds no place is not freed.\<close>

definition client_on_header_value :: "string \<Rightarrow> 'a http_client \<Rightarrow> 'a http_client \<times> int" where
  "client_on_header_value piece c =
     (let c' = c\<lparr>ht_value := None\<rparr> in
      case ht_value c of
        None \<Rightarrow> (c', -1)
      | Some name \<Rightarrow>
          (case http_parser_strdup piece of
             None \<Rightarrow> (c'\<lparr>ht_strings := ht_strings c - 1\<rparr>, -1)
           | Some val \<Rightarrow>
               (c'\<lparr>ht_strings := ht_strings c + 1,
                   ht_headers := (if length (ht_headers c) < HTTP_CLIENT_MAX_HEADER_COUNT - 1
                                  then ht_headers c @ [(name, val)] else ht_headers c)\<rparr>, 0)))"

definition client_on_body :: "'a client_env \<Rightarrow> string \<Rightarrow> 'a http_world \<Rightarrow> ('a http_world \<times> int) exec" where
  "client_on_body env piece w =
     (if \<not> ht_handler (tp_client w) then Inr (w, 0)
      else
        and_then (response_handler env HTTP_CLIENT_STATE_LOADING 0 (int (length piece)) (Some piece)
          (set_client ((tp_client w)\<lparr>ht_ready_state := HTTP_CLIENT_STATE_LOADING\<rparr>) w)) (\<lambda>w. Inr (w, 0)))"

text \<open>The table \<^verbatim>\<open>http_parser_settings_s\<close>.  The parser stops when a callback does not answer zero.\<close>

definition client_parser_settings :: "'a client_env \<Rightarrow> client_call \<Rightarrow> 'a http_world \<Rightarrow> ('a http_world \<times> int) exec" where
  "client_parser_settings env call w =
     (case call of
        Message_begin \<Rightarrow> Inr (w, 0)
      | Status piece \<Rightarrow> Inr (set_client (client_on_status piece (tp_client w)) w, 0)
      | Header_field piece \<Rightarrow> Inr (set_client (client_on_header_field piece (tp_client w)) w, 0)
      | Header_value piece \<Rightarrow> (case client_on_header_value piece (tp_client w) of (c, ret) \<Rightarrow> Inr (set_client c w, ret))
      | Headers_complete status len \<Rightarrow> client_on_headers_complete env status len w
      | Body piece \<Rightarrow> client_on_body env piece w
      | Message_complete status len \<Rightarrow> client_on_message_complete env status len w)"

fun client_calls :: "'a client_env \<Rightarrow> client_call list \<Rightarrow> 'a http_world \<Rightarrow> ('a http_world \<times> bool) exec" where
  "client_calls env [] w = Inr (w, True)"
| "client_calls env (call # calls) w =
     and_then (client_parser_settings env call w) (\<lambda>(w, ret).
     if ret \<noteq> 0 then Inr (w, False) else client_calls env calls w)"

section \<open>The handlers of the transport\<close>

definition http_client_write :: "'a client_env \<Rightarrow> string \<Rightarrow> 'a http_world \<Rightarrow> 'a http_world exec" where
  "http_client_write env data w = and_then (tcp_transport_write (ce_uv env) data w) (\<lambda>(w, ret). Inr w)"

text \<open>
  The request must be there.  Its text may be shorter than the length it remembers; the bytes behind it have no value.
\<close>

definition http_client_on_connected :: "'a client_env \<Rightarrow> 'a http_world \<Rightarrow> 'a http_world exec" where
  "http_client_on_connected env w =
     (let c = (tp_client w)\<lparr>ht_parsed := [], ht_failed := False\<rparr>;
          body = (case ht_body c of None \<Rightarrow> None | Some (block, len) \<Rightarrow> if len > 0 then Some (block, len) else None)
      in case ht_request c of None \<Rightarrow> Inl Out_of_bounds
         | Some q \<Rightarrow>
             and_then (case body of None \<Rightarrow> Inr (q, 0) | Some (block, len) \<Rightarrow> http_request_set_content_lenth (ce_alloc env) q len)
               (\<lambda>(q, _).
             let (txt, len) = http_request_get q; w = set_client (c\<lparr>ht_request := Some q\<rparr>) w in
             and_then (in_bounds (len \<le> length txt)) (\<lambda>_.
             and_then (http_client_write env (take len txt) w) (\<lambda>w.
             and_then (case body of None \<Rightarrow> Inr w
                       | Some (block, len) \<Rightarrow> and_then (in_bounds (len \<le> length block)) (\<lambda>_. http_client_write env (take len block) w))
               (\<lambda>w.
             response_handler env HTTP_CLIENT_STATE_OPENED 0 0 None
               (set_client ((tp_client w)\<lparr>ht_ready_state := HTTP_CLIENT_STATE_OPENED\<rparr>) w))))))"

definition http_client_on_error :: "'a http_world \<Rightarrow> 'a http_world exec" where
  "http_client_on_error w = http_client_destroy w"

definition http_client_on_transport_event :: "'a client_env \<Rightarrow> nat \<Rightarrow> int \<Rightarrow> 'a http_world \<Rightarrow> 'a http_world exec" where
  "http_client_on_transport_event env event status w =
     (if event = TCP_TRANSPORT_EVENT_CONNECTED then http_client_on_connected env w
      else if event = TCP_TRANSPORT_EVENT_ERROR then http_client_on_error w
      else Inr w)"

definition http_client_on_input :: "'a client_env \<Rightarrow> string \<Rightarrow> int \<Rightarrow> 'a http_world \<Rightarrow> 'a http_world exec" where
  "http_client_on_input env data nread w =
     (if nread \<le> 0 then http_client_destroy w
      else
        let c = tp_client w in
        if ht_failed c then Inr w
        else
          and_then (client_calls env (ce_parse env (ht_parsed c) data) (set_client (c\<lparr>ht_parsed := ht_parsed c @ data\<rparr>) w)) (\<lambda>(w, ok).
          Inr (set_client ((tp_client w)\<lparr>ht_failed := \<not> ok\<rparr>) w)))"

definition http_client_handler :: "'a client_env \<Rightarrow> 'a http_client tcp_handler" where
  "http_client_handler env c w =
     (case c of
        Tcp_event event status data \<Rightarrow> http_client_on_transport_event env event status w
      | Tcp_input data nread \<Rightarrow> http_client_on_input env data nread w)"

section \<open>The interface\<close>

definition http_client_get_headers :: "'a http_client \<Rightarrow> (string \<times> string) list \<times> nat" where
  "http_client_get_headers c = (ht_headers c, length (ht_headers c))"

definition http_client_get_header :: "'a http_client \<Rightarrow> string option \<Rightarrow> string option" where
  "http_client_get_header c name =
     (case name of None \<Rightarrow> None | Some n \<Rightarrow> map_option snd (List.find (\<lambda>(k, v). strcaseeq k n) (ht_headers c)))"

definition http_client_get_status_code :: "'a http_client \<Rightarrow> nat" where
  "http_client_get_status_code c = ht_status_code c"

definition http_client_get_status_text :: "'a http_client \<Rightarrow> string option" where
  "http_client_get_status_text c = ht_status_text c"

text \<open>\<open>d\<close> is what the application's parameter points to.\<close>

definition http_client_create :: "'a \<Rightarrow> 'a http_world" where
  "http_client_create d = tcp_start
     \<lparr>ht_request = None, ht_url = None, ht_body = None, ht_status_text = None, ht_value = None, ht_headers = [], ht_content_length = 0,
      ht_status_code = 0, ht_method = 0, ht_ready_state = HTTP_CLIENT_STATE_UNSENT, ht_timeout = 0, ht_handler = False,
      ht_closed = False, ht_data = d, ht_strings = 0, ht_parsed = [], ht_failed = False\<rparr>"

text \<open>The answer of \<^verbatim>\<open>http_request_set_uri\<close> is not looked at; the size of a request object is 32.\<close>

definition http_client_init :: "'a client_env \<Rightarrow> string option \<Rightarrow> string option \<Rightarrow> 'a http_client \<Rightarrow> ('a http_client \<times> int) exec" where
  "http_client_init env meth url c =
     (if ht_request c \<noteq> None then Inr (c, -1)
      else case url of None \<Rightarrow> Inr (c, -1)
      | Some url \<Rightarrow>
          and_then (uri_parse (ce_alloc env) url) (\<lambda>r. case r of None \<Rightarrow> Inr (c, -1)
          | Some u \<Rightarrow>
              let request_url = fst (uri_path u (int (length url)));
                  m = (case meth of None \<Rightarrow> HTTP_GET | Some s \<Rightarrow> if strcaseeq s ''POST'' then HTTP_POST else HTTP_GET)
              in case http_request_create (ce_alloc env) 32 HTTP_1_1 of None \<Rightarrow> Inl Out_of_bounds
                 | Some q \<Rightarrow>
                     and_then (http_request_set_uri q m request_url) (\<lambda>(q, _).
                     Inr (c\<lparr>ht_method := m, ht_url := Some u, ht_request := Some q\<rparr>, 0))))"

text \<open>A header without a name or a value is passed over.\<close>

fun set_request_headers :: "(nat \<Rightarrow> bool) \<Rightarrow> (string option \<times> string option) list \<Rightarrow> http_request \<Rightarrow> http_request exec" where
  "set_request_headers alloc [] q = Inr q"
| "set_request_headers alloc ((Some name, Some val) # hs) q =
     and_then (http_request_set_header alloc q name val) (\<lambda>(q, _). set_request_headers alloc hs q)"
| "set_request_headers alloc (h # hs) q = set_request_headers alloc hs q"

definition http_client_set_headers ::
    "'a client_env \<Rightarrow> (string option \<times> string option) list \<Rightarrow> 'a http_client \<Rightarrow> ('a http_client \<times> int) exec" where
  "http_client_set_headers env hs c =
     (if hs = [] then Inr (c, -1)
      else case ht_request c of None \<Rightarrow> Inr (c, -1)
      | Some q \<Rightarrow> and_then (set_request_headers (ce_alloc env) hs q) (\<lambda>q. Inr (c\<lparr>ht_request := Some q\<rparr>, 0)))"

definition http_client_set_body ::
    "'a client_env \<Rightarrow> string \<Rightarrow> string option \<Rightarrow> 'a http_client \<Rightarrow> ('a http_client \<times> int) exec" where
  "http_client_set_body env data type c =
     (case ht_request c of None \<Rightarrow> Inr (c, -1)
      | Some q \<Rightarrow>
          and_then (case type of None \<Rightarrow> Inr (q, 0) | Some t \<Rightarrow> http_request_set_content_type (ce_alloc env) q t) (\<lambda>(q, _).
          let c = c\<lparr>ht_request := Some q\<rparr>
          in Inr (if data \<noteq> [] then c\<lparr>ht_body := Some (data, length data)\<rparr> else c, 0)))"

definition http_client_set_callback :: "bool \<Rightarrow> 'a \<Rightarrow> 'a http_client \<Rightarrow> 'a http_client" where
  "http_client_set_callback handler d c = c\<lparr>ht_handler := handler, ht_data := d\<rparr>"

definition http_client_set_timeout :: "nat \<Rightarrow> 'a http_client \<Rightarrow> 'a http_client" where
  "http_client_set_timeout timeout c = c\<lparr>ht_timeout := timeout\<rparr>"

text \<open>The port of the URL is not a part of the header.\<close>

definition http_client_send :: "'a client_env \<Rightarrow> 'a http_world \<Rightarrow> ('a http_world \<times> int) exec" where
  "http_client_send env w =
     (let c = tp_client w in
      case (ht_request c, ht_url c) of
        (Some q, Some u) \<Rightarrow>
          (case ur_host u of None \<Rightarrow> Inr (w, -1)
           | Some host \<Rightarrow>
               and_then (http_request_set_header (ce_alloc env) q ''Host'' host) (\<lambda>(q, _).
               and_then (tcp_transport_connect (ce_uv env) (http_client_handler env) host (if ur_port u \<le> 0 then 80 else ur_port u)
                 (set_client (c\<lparr>ht_request := Some q\<rparr>) w)) (\<lambda>(w, _).
               Inr (w, 0))))
      | _ \<Rightarrow> Inr (w, -1))"

definition http_client_get ::
    "'a client_env \<Rightarrow> string option \<Rightarrow> (string option \<times> string option) list \<Rightarrow> bool \<Rightarrow> 'a \<Rightarrow> 'a http_world \<Rightarrow>
     ('a http_world \<times> int) exec" where
  "http_client_get env url hs handler d w =
     and_then (http_client_init env (Some ''GET'') url (http_client_set_callback handler d (tp_client w))) (\<lambda>(c, ret).
     if ret < 0 then Inr (set_client c w, ret)
     else
       and_then (http_client_set_headers env hs c) (\<lambda>(c, _).
       and_then (http_client_send env (set_client c w)) (\<lambda>(w, _). Inr (w, 0))))"

definition http_client_post ::
    "'a client_env \<Rightarrow> string option \<Rightarrow> (string option \<times> string option) list \<Rightarrow> string \<Rightarrow> bool \<Rightarrow> 'a \<Rightarrow> 'a http_world \<Rightarrow>
     ('a http_world \<times> int) exec" where
  "http_client_post env url hs data handler d w =
     and_then (http_client_init env (Some ''POST'') url (http_client_set_callback handler d (tp_client w))) (\<lambda>(c, ret).
     if ret < 0 then Inr (set_client c w, ret)
     else
       and_then (http_client_set_headers env hs c) (\<lambda>(c, _).
       and_then (http_client_set_body env data None c) (\<lambda>(c, _).
       and_then (http_client_send env (set_client c w)) (\<lambda>(w, _). Inr (w, 0)))))"

section \<open>Form data\<close>

text \<open>The memory block, \<^verbatim>\<open>size\<close>, and \<^verbatim>\<open>len\<close>, which counts what was wanted, not what was stored.\<close>

record form_data =
  fd_data :: string
  fd_size :: nat
  fd_len :: nat

definition form_boundary :: string where
  "form_boundary = ''--form-data-kjsdfb934klg342042348''"

definition form_data_init :: "(nat \<Rightarrow> char) \<Rightarrow> nat \<Rightarrow> form_data" where
  "form_data_init fill n = \<lparr>fd_data = map fill [0..<n], fd_size = n, fd_len = 0\<rparr>"

text \<open>The room that is left, a \<^verbatim>\<open>size_t\<close>.\<close>

definition form_limit :: "form_data \<Rightarrow> nat" where
  "form_limit fd = nat ((int (fd_size fd) - int (fd_len fd)) mod 2 ^ 64)"

text \<open>Storing at the end; a store outside the block faults.\<close>

definition form_store :: "string \<Rightarrow> form_data \<Rightarrow> form_data exec" where
  "form_store s fd =
     and_then (in_bounds (fd_len fd + length s \<le> length (fd_data fd))) (\<lambda>_.
     Inr (fd\<lparr>fd_data := take (fd_len fd) (fd_data fd) @ s @ drop (fd_len fd + length s) (fd_data fd)\<rparr>))"

definition form_print :: "string \<Rightarrow> form_data \<Rightarrow> form_data exec" where
  "form_print s fd =
     and_then (form_store (if form_limit fd = 0 then [] else take (form_limit fd - 1) s @ [NUL]) fd) (\<lambda>fd.
     Inr (fd\<lparr>fd_len := fd_len fd + length s\<rparr>))"

definition quoted :: "string \<Rightarrow> string" where
  "quoted s = [CHR 0x22] @ s @ [CHR 0x22]"

definition form_data_add_file :: "string \<Rightarrow> string \<Rightarrow> string \<Rightarrow> string option \<Rightarrow> form_data \<Rightarrow> form_data exec" where
  "form_data_add_file name filename type data fd =
     and_then (form_print (form_boundary @ CRLF @ ''Content-Disposition: form-data; name='' @ quoted name @ ''; filename='' @ quoted filename @ CRLF @
       ''Content-Type: '' @ type @ CRLF @ CRLF) fd) (\<lambda>fd.
     case data of None \<Rightarrow> Inr fd
     | Some d \<Rightarrow>
         if form_limit fd > length d + 2 then
           and_then (form_store d fd) (\<lambda>fd.
           and_then (form_store CRLF (fd\<lparr>fd_len := fd_len fd + length d\<rparr>)) (\<lambda>fd.
           Inr (fd\<lparr>fd_len := fd_len fd + 2\<rparr>)))
         else Inr fd)"

definition form_data_add_value :: "string \<Rightarrow> string \<Rightarrow> form_data \<Rightarrow> form_data exec" where
  "form_data_add_value name val fd =
     form_print (form_boundary @ CRLF @ ''Content-Disposition: form-data; name='' @ quoted name @ CRLF @ CRLF @ val @ CRLF) fd"

definition form_data_end :: "form_data \<Rightarrow> form_data exec" where
  "form_data_end fd = form_print (form_boundary @ ''--'' @ CRLF) fd"

text \<open>\<^verbatim>\<open>core/deps/util/include/util/path.h\<close>.\<close>

definition path_basename :: "string \<Rightarrow> string" where
  "path_basename fullname = rev (takeWhile (\<lambda>c. c \<noteq> CHR ''/'' \<and> c \<noteq> CHR 0x5C) (rev fullname))"

text \<open>The size of the block is a 32-bit sum; the body is as long as \<^verbatim>\<open>len\<close>, whatever was stored.\<close>

definition http_client_set_file ::
    "'a client_env \<Rightarrow> (nat \<Rightarrow> char) \<Rightarrow> string option \<Rightarrow> string option \<Rightarrow> string \<Rightarrow> string option \<Rightarrow> 'a http_client \<Rightarrow>
     ('a http_client \<times> int) exec" where
  "http_client_set_file env fill name filename data type c =
     (case ht_request c of None \<Rightarrow> Inr (c, -1)
      | Some q \<Rightarrow>
          let name = (case name of None \<Rightarrow> ''file'' | Some s \<Rightarrow> s);
              filename = path_basename (case filename of None \<Rightarrow> ''file'' | Some s \<Rightarrow> s);
              type = (case type of None \<Rightarrow> ''application/octet-stream'' | Some s \<Rightarrow> s)
          in
          and_then (form_data_add_file name filename type (Some data) (form_data_init fill ((255 + length data) mod 2 ^ 32))) (\<lambda>fd.
          and_then (form_data_end fd) (\<lambda>fd.
          and_then (http_request_set_content_type (ce_alloc env) q ''multipart/form-data; boundary=form-data-kjsdfb934klg342042348'') (\<lambda>(q, _).
          Inr (c\<lparr>ht_request := Some q, ht_body := Some (fd_data fd, fd_len fd)\<rparr>, 0)))))"

end
