(* ===== verification/TcpProps.thy ===== *)
theory TcpProps
  imports TcpTransport "HOL-Library.Sublist"
begin

text \<open>
  The properties of the TCP transport: no callback uses a socket that was freed, every socket is accounted for, the data
  leave in the order in which they were written, and destroying the transport releases everything.
\<close>

section \<open>The invariant\<close>

text \<open>
  The transport's socket is open; every other socket of the heap is closing; a lookup is under way only while there is
  no socket; a destroyed transport calls no one.
\<close>

definition sockets_ok :: "'c tcp \<Rightarrow> bool" where
  "sockets_ok w \<longleftrightarrow>
     (\<forall>s. tt_socket (tp_self w) = Some s \<longrightarrow> (\<exists>u. tp_heap w s = Some u \<and> \<not> us_closing u)) \<and>
     (\<forall>s u. tp_heap w s = Some u \<longrightarrow> s < tp_fresh w \<and> (us_closing u \<or> tt_socket (tp_self w) = Some s) \<and> (us_closing u \<longrightarrow> \<not> us_reading u)) \<and>
     set (tp_connects w) \<subseteq> dom (tp_heap w) \<and> distinct (tp_connects w)"

definition tcp_ok :: "'c tcp \<Rightarrow> bool" where
  "tcp_ok w \<longleftrightarrow> sockets_ok w \<and>
     (tt_loop (tp_self w) \<longrightarrow> tp_resolvers w = [] \<or> length (tp_resolvers w) = 1 \<and> tt_socket (tp_self w) = None) \<and>
     (\<not> tt_loop (tp_self w) \<longrightarrow> tt_socket (tp_self w) = None \<and> \<not> tt_on_event (tp_self w) \<and> \<not> tt_on_input (tp_self w))"

lemma tcp_ok_start: "tcp_ok (tcp_start param)"
  by (simp add: tcp_ok_def sockets_ok_def tcp_start_def tcp_transport_init_def Let_def)

lemma ok_socket:
  assumes "tcp_ok w" "tt_socket (tp_self w) = Some s"
  obtains u where "tp_heap w s = Some u" "\<not> us_closing u" "at_socket w s = Inr u"
  using assms by (auto simp: tcp_ok_def sockets_ok_def at_socket_def)

lemma put_keeps:
  assumes "tcp_ok w" "tp_heap w s = Some u" "us_closing v = us_closing u" "us_closing u \<longrightarrow> \<not> us_reading v"
  shows "tcp_ok (put_socket s v w)"
  using assms by (auto simp: tcp_ok_def sockets_ok_def put_socket_def)

lemma ready_state_keeps: "tcp_ok w \<Longrightarrow> tcp_ok (set_ready_state n w)"
  by (simp add: tcp_ok_def sockets_ok_def set_ready_state_def)

text \<open>Writing and destroying are what a client may do in its handlers.\<close>

lemma tcp_write_ok:
  assumes "tcp_ok w"
  shows "\<exists>v ret. tcp_transport_write env data w = Inr (v, ret) \<and> tcp_ok v \<and> tp_self v = tp_self w \<and> tp_client v = tp_client w"
proof (cases "data = [] \<or> tt_socket (tp_self w) = None")
  case True
  then show ?thesis using assms by (auto simp: tcp_transport_write_def)
next
  case False
  then obtain s where s: "data \<noteq> []" "tt_socket (tp_self w) = Some s" by blast
  obtain u where u: "tp_heap w s = Some u" "\<not> us_closing u" "at_socket w s = Inr u" using ok_socket [OF assms s(2)] .
  have "tcp_ok (put_socket s (u\<lparr>us_sent := x\<rparr>) w)" "tcp_ok (put_socket s (u\<lparr>us_sent := x, us_queue := q\<rparr>) w)" for x q
    using put_keeps [OF assms u(1)] u(2) by simp_all
  then show ?thesis using s u(3) by (auto simp: tcp_transport_write_def Let_def put_socket_def)
qed

lemma tcp_destroy_ok:
  assumes "tcp_ok w"
  shows "\<exists>v. tcp_transport_destroy w = Inr v \<and> tcp_ok v \<and> \<not> tt_loop (tp_self v) \<and> tp_client v = tp_client w"
proof (cases "tt_socket (tp_self w)")
  case None
  then show ?thesis using assms by (auto simp: tcp_transport_destroy_def tcp_ok_def sockets_ok_def)
next
  case (Some s)
  obtain u where u: "tp_heap w s = Some u" "\<not> us_closing u" "at_socket w s = Inr u" using ok_socket [OF assms Some] .
  define v where "v = (put_socket s (u\<lparr>us_closing := True, us_reading := False\<rparr>) w)\<lparr>tp_self := \<lparr>tt_socket = None, tt_loop = False,
    tt_on_event = False, tt_on_input = False, tt_data = False, tt_ready_state = 3\<rparr>\<rparr>"
  have run: "tcp_transport_destroy w = Inr v" using Some u by (simp add: tcp_transport_destroy_def v_def)
  have "sockets_ok w" using assms by (simp add: tcp_ok_def)
  then have "x < tp_fresh w \<and> (us_closing y \<or> x = s) \<and> (us_closing y \<longrightarrow> \<not> us_reading y)" if "tp_heap w x = Some y" for x y
    using that Some by (fastforce simp: sockets_ok_def)
  moreover have "set (tp_connects w) \<subseteq> dom (tp_heap w)" "distinct (tp_connects w)"
    using \<open>sockets_ok w\<close> by (simp_all add: sockets_ok_def)
  ultimately have "sockets_ok v" using u(1) by (auto simp: sockets_ok_def v_def put_socket_def)
  then show ?thesis using run by (simp add: tcp_ok_def v_def put_socket_def)
qed

lemma is_ready_ok:
  assumes "tcp_ok w"
  shows "\<exists>b. tcp_transport_is_ready w = Inr b"
proof (cases "tt_socket (tp_self w)")
  case (Some s)
  then show ?thesis by (rule ok_socket [OF assms]) (simp add: tcp_transport_is_ready_def Some)
qed (auto simp: tcp_transport_is_ready_def)

section \<open>The client's contract\<close>

text \<open>
  A client has an invariant of its own.  Its handlers return, keep both invariants, and do not take the socket away while
  they are told of the connection.
\<close>

lemma frame_simps [simp]:
  "tp_self (put_socket s u w) = tp_self w" "tp_client (put_socket s u w) = tp_client w"
  "tp_client (set_ready_state n w) = tp_client w" "tt_loop (tp_self (set_ready_state n w)) = tt_loop (tp_self w)"
  by (simp_all add: put_socket_def set_ready_state_def)

definition client_ok :: "('c \<Rightarrow> bool) \<Rightarrow> 'c tcp \<Rightarrow> bool" where
  "client_ok good w \<longleftrightarrow> tcp_ok w \<and> (tt_loop (tp_self w) \<longrightarrow> good (tp_client w))"

lemma client_okD: "client_ok good w \<Longrightarrow> tcp_ok w"
  by (simp add: client_ok_def)

locale transport_client =
  fixes h :: "'c tcp_handler" and good :: "'c \<Rightarrow> bool"
  assumes handler_ok: "client_ok good w \<Longrightarrow> tt_loop (tp_self w) \<Longrightarrow> \<exists>v. h c w = Inr v \<and> client_ok good v"
    and connected_keeps: "client_ok good w \<Longrightarrow> tt_socket (tp_self w) \<noteq> None \<Longrightarrow> h (Tcp_event 2 0 None) w = Inr v \<Longrightarrow>
      tt_socket (tp_self v) \<noteq> None"
begin

lemma raise_ok: "client_ok good w \<Longrightarrow> \<exists>v. raise_event h event status data w = Inr v \<and> client_ok good v"
  using handler_ok [of w] by (auto simp: raise_event_def client_ok_def tcp_ok_def)

lemma error_ok: "client_ok good w \<Longrightarrow> \<exists>v. tcp_transport_on_error h what status w = Inr v \<and> client_ok good v"
  using raise_ok [of w 4 status "Some what"] ready_state_keeps
  by (auto simp: tcp_transport_on_error_def client_ok_def)

lemma on_write_ok: "client_ok good w \<Longrightarrow> \<exists>v. tcp_transport_on_write h w = Inr v \<and> client_ok good v"
  using is_ready_ok [OF client_okD, of good w] raise_ok [of w 3 0 None] by (auto simp: tcp_transport_on_write_def)

lemma on_read_ok:
  assumes "client_ok good w"
  shows "\<exists>v. tcp_transport_on_read h data nread w = Inr v \<and> client_ok good v"
proof -
  obtain v where v: "(if nread < 0 then tcp_transport_on_error h ''read'' nread w else Inr w) = Inr v" "client_ok good v"
    using error_ok [OF assms] assms by (cases "nread < 0") auto
  then show ?thesis using handler_ok [OF v(2)] by (auto simp: tcp_transport_on_read_def client_ok_def tcp_ok_def)
qed

lemma on_connect_ok:
  assumes "client_ok good w" "status < 0 \<or> tt_socket (tp_self w) \<noteq> None"
  shows "\<exists>v. tcp_transport_on_connect h status w = Inr v \<and> client_ok good v"
proof (cases "status < 0")
  case True
  then show ?thesis using error_ok [OF assms(1)] by (simp add: tcp_transport_on_connect_def)
next
  case False
  obtain v where v: "raise_event h 2 0 None w = Inr v" "client_ok good v" using raise_ok [OF assms(1)] by blast
  have "tt_socket (tp_self v) \<noteq> None"
    using connected_keeps [OF assms(1), of v] v(1) False assms(2) by (auto simp: raise_event_def split: if_splits)
  then obtain s where s: "tt_socket (tp_self v) = Some s" by blast
  obtain u where u: "tp_heap v s = Some u" "\<not> us_closing u" "at_socket v s = Inr u" using ok_socket [OF client_okD [OF v(2)] s] .
  have "tcp_ok (put_socket s (u\<lparr>us_reading := True\<rparr>) v)" using put_keeps [OF client_okD [OF v(2)] u(1)] u(2) by simp
  then have "client_ok good (set_ready_state 1 (put_socket s (u\<lparr>us_reading := True\<rparr>) v))"
    using v(2) ready_state_keeps by (simp add: client_ok_def)
  then show ?thesis using False v(1) s u(3) by (simp add: tcp_transport_on_connect_def)
qed

lemma on_resolved_ok:
  assumes "client_ok good w" "tt_loop (tp_self w) \<Longrightarrow> tt_socket (tp_self w) = None \<and> tp_resolvers w = []"
  shows "\<exists>v. tcp_transport_on_resolved env h status w = Inr v \<and> client_ok good v"
proof (cases "\<not> tt_loop (tp_self w) \<or> status < 0 \<or> uv_tcp_init env \<noteq> 0")
  case True
  then show ?thesis using assms(1) error_ok [OF assms(1)] by (auto simp: tcp_transport_on_resolved_def)
next
  case False
  let ?s = "tp_fresh w" and ?u = "\<lparr>us_closing = False, us_reading = False, us_sent = [], us_queue = []\<rparr>"
  define v where "v = (put_socket ?s ?u w)\<lparr>tp_fresh := ?s + 1, tp_self := (tp_self w)\<lparr>tt_socket := Some ?s\<rparr>\<rparr>"
  have ok: "sockets_ok w" and none: "tt_socket (tp_self w) = None" "tp_resolvers w = []" "tt_loop (tp_self w)" "good (tp_client w)"
    using assms False by (auto simp: client_ok_def tcp_ok_def)
  have old: "tp_heap w ?s = None" using ok by (metis (no_types, lifting) less_irrefl not_None_eq sockets_ok_def)
  have "sockets_ok v" "sockets_ok (v\<lparr>tp_connects := tp_connects v @ [?s]\<rparr>)"
    using ok none(1) old by (auto simp: sockets_ok_def v_def put_socket_def less_Suc_eq)
  then have v: "client_ok good (v\<lparr>tp_lost := n\<rparr>)" "client_ok good (v\<lparr>tp_connects := tp_connects v @ [?s]\<rparr>)" for n
    using none by (simp_all add: client_ok_def tcp_ok_def sockets_ok_def v_def put_socket_def)
  have "tcp_transport_on_resolved env h status w =
      (if uv_tcp_connect env \<noteq> 0 then tcp_transport_on_error h ''connect'' (uv_tcp_connect env) (v\<lparr>tp_lost := tp_lost v + 1\<rparr>)
       else Inr (v\<lparr>tp_connects := tp_connects v @ [?s]\<rparr>))"
    using False by (simp add: tcp_transport_on_resolved_def v_def Let_def put_socket_def)
  then show ?thesis using v error_ok by (simp split: if_splits)
qed

lemma connect_ok:
  assumes "client_ok good w" "tp_resolvers w = []" "tt_socket (tp_self w) = None"
  shows "\<exists>v ret. tcp_transport_connect env h host port w = Inr (v, ret) \<and> client_ok good v"
proof -
  have "client_ok good (w\<lparr>tp_lost := n\<rparr>)" "client_ok good (w\<lparr>tp_resolvers := [r]\<rparr>)" if "tt_loop (tp_self w)" for n r
    using assms that by (simp_all add: client_ok_def tcp_ok_def sockets_ok_def)
  then show ?thesis
    using assms error_ok [of "w\<lparr>tp_lost := tp_lost w + 1\<rparr>" "''lookup''" "uv_getaddrinfo env host (fst (snprintf 16 (show_int port)))"]
    by (cases "tt_loop (tp_self w)"; cases "uv_getaddrinfo env host (fst (snprintf 16 (show_int port))) = 0")
      (auto simp: tcp_transport_connect_def Let_def)
qed

lemma put_ok:
  "client_ok good w \<Longrightarrow> tp_heap w s = Some u \<Longrightarrow> us_closing v = us_closing u \<Longrightarrow> us_closing u \<longrightarrow> \<not> us_reading v \<Longrightarrow>
   client_ok good (put_socket s v w)"
  using put_keeps [of w s u v] by (auto simp: client_ok_def)

lemma run_ok:
  assumes "client_ok good w" "tcp_enabled w a"
  shows "\<exists>v. tcp_run h a w = Inr v \<and> client_ok good v"
proof (cases a)
  case (Resolved i env status)
  let ?w = "w\<lparr>tp_resolvers := take i (tp_resolvers w) @ drop (i + 1) (tp_resolvers w)\<rparr>"
  have "length (tp_resolvers w) = 1 \<and> tt_socket (tp_self w) = None" if "tt_loop (tp_self w)"
    using assms that Resolved by (auto simp: client_ok_def tcp_ok_def)
  then have "tt_loop (tp_self ?w) \<Longrightarrow> tt_socket (tp_self ?w) = None \<and> tp_resolvers ?w = []" using assms(2) Resolved by auto
  moreover from this have "client_ok good ?w" using assms(1) by (simp add: client_ok_def tcp_ok_def sockets_ok_def)
  ultimately have "\<exists>v. tcp_transport_on_resolved env h status ?w = Inr v \<and> client_ok good v" by (intro on_resolved_ok) blast+
  then show ?thesis using Resolved by simp
next
  case (Connected s status)
  let ?w = "w\<lparr>tp_connects := remove1 s (tp_connects w)\<rparr>"
  have ok: "sockets_ok w" using assms(1) by (simp add: client_ok_def tcp_ok_def)
  then have "s \<in> dom (tp_heap w)" using assms(2) Connected by (auto simp: sockets_ok_def)
  then obtain u where u: "tp_heap w s = Some u" by blast
  have "sockets_ok ?w" using ok by (auto simp: sockets_ok_def dest: set_remove1_subset [THEN subsetD])
  then have "client_ok good ?w" using assms(1) by (simp add: client_ok_def tcp_ok_def)
  moreover have "status < 0 \<or> tt_socket (tp_self w) \<noteq> None" using ok assms(2) u Connected by (auto simp: sockets_ok_def)
  ultimately show ?thesis using on_connect_ok [of ?w status] Connected by simp
next
  case (Sent s)
  then obtain u where u: "tp_heap w s = Some u" "\<not> us_closing u" using assms(2) by (auto split: option.splits)
  show ?thesis using on_write_ok [OF put_ok [OF assms(1) u(1)]] u Sent by (simp add: at_socket_def)
next
  case (Failed s)
  then obtain u where u: "tp_heap w s = Some u" using assms(2) by (auto split: option.splits)
  moreover have "us_closing u \<longrightarrow> \<not> us_reading u" using assms(1) u by (auto simp: client_ok_def tcp_ok_def sockets_ok_def)
  ultimately show ?thesis using on_write_ok [OF put_ok [OF assms(1) u]] Failed by (simp add: at_socket_def)
next
  case (Closed s)
  then obtain u where u: "tp_heap w s = Some u" "us_closing u" "s \<notin> set (tp_connects w)" using assms(2) by (auto split: option.splits)
  have "tcp_ok w" using assms(1) by (rule client_okD)
  then have "tcp_ok (w\<lparr>tp_heap := (tp_heap w)(s := None)\<rparr>)" using u by (auto simp: tcp_ok_def sockets_ok_def)
  then have "client_ok good (w\<lparr>tp_heap := (tp_heap w)(s := None)\<rparr>)" using assms(1) by (simp add: client_ok_def)
  then show ?thesis using u Closed by (simp add: tcp_transport_on_close_def at_socket_def)
next
  case (Connect env host port)
  then show ?thesis using connect_ok [of w env host port] assms by auto
next
  case (Write env data)
  then show ?thesis using tcp_write_ok [OF client_okD [OF assms(1)], of env data] assms(1) by (fastforce simp: client_ok_def)
next
  case Destroy
  then show ?thesis using tcp_destroy_ok [OF client_okD [OF assms(1)]] by (auto simp: client_ok_def)
qed (use assms on_read_ok in auto)

lemma reachable_ok: "tcp_reachable h c w \<Longrightarrow> good c \<Longrightarrow> client_ok good w"
proof (induction rule: tcp_reachable.induct)
  case (step w a v)
  then show ?case using run_ok [of w a] by auto
qed (use tcp_ok_start in \<open>auto simp: client_ok_def tcp_start_def tcp_transport_init_def Let_def\<close>)

lemma reachable_tcp_ok: "tcp_reachable h c w \<Longrightarrow> good c \<Longrightarrow> tcp_ok w"
  using reachable_ok client_okD by blast

end

text \<open>
  C30.  Whatever happens to the transport, in any order, as long as the client keeps its contract: no callback and no call
  faults, the transport's socket is open, and every other socket of the heap is being closed.
\<close>

theorem tcp_sockets_accounted:
  assumes "transport_client h good" "good c" "tcp_reachable h c w" "tcp_enabled w a"
  shows "(\<exists>v. tcp_run h a w = Inr v) \<and>
    {s. \<exists>u. tp_heap w s = Some u \<and> \<not> us_closing u} = set_option (tt_socket (tp_self w))"
proof -
  have ok: "client_ok good w" using transport_client.reachable_ok [OF assms(1,3,2)] .
  then have "{s. \<exists>u. tp_heap w s = Some u \<and> \<not> us_closing u} = set_option (tt_socket (tp_self w))"
    by (auto simp: client_ok_def tcp_ok_def sockets_ok_def)
  then show ?thesis using transport_client.run_ok [OF assms(1) ok assms(4)] by blast
qed

text \<open>A client that greets the peer and gives up on an error.\<close>

definition plain_uv :: uv_env where
  "plain_uv = \<lparr>uv_getaddrinfo = (\<lambda>_ _. 0), uv_tcp_init = 0, uv_tcp_connect = 0,
     uv_try_write = (\<lambda>u d. if us_queue u = [] then min 3 (int (length d)) else -11), uv_write = (\<lambda>u d. 0)\<rparr>"

definition greeter :: "unit tcp_handler" where
  "greeter c w =
     (case c of Tcp_input data nread \<Rightarrow> if nread < 0 then tcp_transport_destroy w else Inr w
      | Tcp_event event status data \<Rightarrow>
          if event = 2 then and_then (tcp_transport_write plain_uv ''hello'' w) (\<lambda>(w, ret). Inr w)
          else if event = 4 then tcp_transport_destroy w else Inr w)"

interpretation greeter: transport_client greeter "\<lambda>_. True"
proof
  fix w :: "unit tcp" and c
  assume "client_ok (\<lambda>_. True) w"
  then have ok: "tcp_ok w" by (rule client_okD)
  show "\<exists>v. greeter c w = Inr v \<and> client_ok (\<lambda>_. True) v"
    using tcp_write_ok [OF ok, of plain_uv "''hello''"] tcp_destroy_ok [OF ok] ok by (auto simp: client_ok_def greeter_def split: tcp_call.splits)
next
  fix w v :: "unit tcp"
  assume "client_ok (\<lambda>_. True) w" "tt_socket (tp_self w) \<noteq> None" "greeter (Tcp_event 2 0 None) w = Inr v"
  then show "tt_socket (tp_self v) \<noteq> None"
    using tcp_write_ok [OF client_okD, of "\<lambda>_. True" w plain_uv "''hello''"] by (auto simp: greeter_def)
qed

text \<open>After a lookup and a connection: the first bytes are on their way, the rest waits.\<close>

definition greeting :: "unit tcp" where
  "greeting = \<lparr>tp_self = \<lparr>tt_socket = Some 0, tt_loop = True, tt_on_event = True, tt_on_input = True, tt_data = True, tt_ready_state = 1\<rparr>,
     tp_heap = Map.empty(0 \<mapsto> \<lparr>us_closing = False, us_reading = True, us_sent = ''hel'', us_queue = [''lo'']\<rparr>),
     tp_fresh = 1, tp_resolvers = [], tp_connects = [], tp_lost = 0, tp_client = ()\<rparr>"

lemma greeting_reachable: "tcp_reachable greeter () greeting"
proof -
  define w1 where "w1 = (tcp_start ())\<lparr>tp_resolvers := [(''host'', ''80'')]\<rparr>"
  have d: "show_int 80 = ''80''" by (simp add: show_int_def show_nat.simps digit_char_def char_of_def bit_iff_odd)
  have 1: "tcp_reachable greeter () w1"
    by (rule tcp_reachable.step [OF tcp_reachable.start, of _ "Connect plain_uv ''host'' 80"])
      (simp_all add: tcp_start_def tcp_transport_init_def w1_def tcp_transport_connect_def snprintf_def plain_uv_def d Let_def)
  define w2 where "w2 = w1\<lparr>tp_resolvers := [], tp_self := (tp_self w1)\<lparr>tt_socket := Some 0\<rparr>, tp_fresh := 1, tp_connects := [0],
    tp_heap := Map.empty(0 \<mapsto> \<lparr>us_closing = False, us_reading = False, us_sent = [], us_queue = []\<rparr>)\<rparr>"
  have 2: "tcp_reachable greeter () w2"
    by (rule tcp_reachable.step [OF 1, of "Resolved 0 plain_uv 0"])
      (simp_all add: tcp_start_def tcp_transport_init_def w1_def w2_def tcp_transport_on_resolved_def put_socket_def plain_uv_def Let_def)
  show ?thesis
    by (rule tcp_reachable.step [OF 2, of "Connected 0 0"])
      (simp_all add: tcp_start_def tcp_transport_init_def w1_def w2_def greeting_def tcp_transport_on_connect_def raise_event_def greeter_def
        tcp_transport_write_def at_socket_def put_socket_def plain_uv_def set_ready_state_def fun_eq_iff Let_def)
qed

theorem tcp_sockets_accounted_witness:
  "(\<exists>v. tcp_run greeter (Read 0 [] (-4095)) greeting = Inr v) \<and>
   {s. \<exists>u. tp_heap greeting s = Some u \<and> \<not> us_closing u} = set_option (tt_socket (tp_self greeting))"
  by (rule tcp_sockets_accounted [OF greeter.transport_client_axioms _ greeting_reachable]) (simp_all add: greeting_def)

section \<open>Order\<close>

text \<open>What the peer has been sent, or will be.\<close>

definition stream :: "uv_tcp \<Rightarrow> string" where
  "stream u = us_sent u @ concat (us_queue u)"

text \<open>As libuv documents: \<^verbatim>\<open>uv_try_write\<close> takes at most what it is given, and nothing while requests wait.\<close>

definition uv_in_order :: "uv_env \<Rightarrow> bool" where
  "uv_in_order env \<longleftrightarrow> (\<forall>u d. uv_try_write env u d \<le> int (length d) \<and> (us_queue u \<noteq> [] \<longrightarrow> uv_try_write env u d < 0))"

lemma written_stream:
  assumes "uv_in_order env" "\<And>u d. uv_write env u d = 0" "tt_socket (tp_self w) = Some s" "tp_heap w s = Some u" "data \<noteq> []"
  shows "\<exists>v x ret. tcp_transport_write env data w = Inr (v, ret) \<and> 0 \<le> ret \<and> tp_self v = tp_self w \<and> tp_heap v s = Some x \<and>
    stream x = stream u @ data \<and> prefix (us_sent u) (us_sent x)"
proof (cases "us_queue u = []")
  case True
  let ?n = "nat (uv_try_write env u data)"
  have split: "take ?n data @ drop ?n data = data" by simp
  have full: "take ?n data = data" if "uv_try_write env u data = int (length data)" using that by simp
  show ?thesis using assms(2-5) True split full
    by (auto simp: tcp_transport_write_def at_socket_def put_socket_def stream_def prefix_def Let_def simp del: append_take_drop_id)
next
  case False
  then have "uv_try_write env u data < 0" using assms(1) by (simp add: uv_in_order_def)
  then have "nat (uv_try_write env u data) = 0" "uv_try_write env u data \<noteq> int (length data)" by auto
  then show ?thesis using assms(2-5)
    by (auto simp: tcp_transport_write_def at_socket_def put_socket_def stream_def Let_def)
qed

text \<open>The data of the writes among some actions, each action a write or the sending of a queued request.\<close>

fun written_by :: "tcp_action list \<Rightarrow> string" where
  "written_by [] = []"
| "written_by (Write env data # as) = data @ written_by as"
| "written_by (a # as) = written_by as"

definition sends_only :: "nat \<Rightarrow> tcp_action \<Rightarrow> bool" where
  "sends_only s a \<longleftrightarrow> a = Sent s \<or> (\<exists>env data. a = Write env data \<and> data \<noteq> [] \<and> uv_in_order env \<and> (\<forall>u d. uv_write env u d = 0))"

lemma sent_stream:
  assumes "\<forall>w. h (Tcp_event 3 0 None) w = Inr w" "tt_socket (tp_self w) = Some s" "tp_heap w s = Some u"
  shows "\<exists>v x. tcp_run h (Sent s) w = Inr v \<and> tp_self v = tp_self w \<and> tp_heap v s = Some x \<and> stream x = stream u \<and>
    prefix (us_sent u) (us_sent x)"
  using assms
  by (cases "us_queue u") (auto simp: at_socket_def tcp_transport_on_write_def tcp_transport_is_ready_def raise_event_def put_socket_def stream_def)

lemma actions_stream:
  assumes "\<forall>w. h (Tcp_event 3 0 None) w = Inr w"
  shows "tt_socket (tp_self w) = Some s \<Longrightarrow> tp_heap w s = Some u \<Longrightarrow> \<forall>a \<in> set as. sends_only s a \<Longrightarrow>
    \<exists>v x. tcp_actions h as w = Inr v \<and> tp_heap v s = Some x \<and> stream x = stream u @ written_by as \<and> prefix (us_sent u) (us_sent x)"
proof (induction as arbitrary: w u)
  case (Cons a as)
  have "\<exists>v x. tcp_run h a w = Inr v \<and> tp_self v = tp_self w \<and> tp_heap v s = Some x \<and> stream x = stream u @ written_by [a] \<and>
    prefix (us_sent u) (us_sent x)"
  proof (cases "a = Sent s")
    case True
    then show ?thesis using sent_stream [of h, OF assms Cons.prems(1,2)] by simp
  next
    case False
    then obtain env data where a: "a = Write env data" "data \<noteq> []" "uv_in_order env" "\<And>u d. uv_write env u d = 0"
      using Cons.prems(3) by (auto simp: sends_only_def)
    show ?thesis using written_stream [OF a(3,4) Cons.prems(1,2) a(2)] a(1) by auto
  qed
  then obtain v x where v: "tcp_run h a w = Inr v" "tp_self v = tp_self w" "tp_heap v s = Some x" "stream x = stream u @ written_by [a]"
    "prefix (us_sent u) (us_sent x)" by blast
  have "written_by (a # as) = written_by [a] @ written_by as" by (cases a) simp_all
  then show ?case using Cons.IH [of v x] Cons.prems v prefix_order.trans [OF v(5)] by fastforce
qed simp

text \<open>
  C31.  Data that are written while the socket sends what it can, in pieces of any size, leave in the order of the
  writes: what was sent, followed by what waits, is what was written, and what was sent stays sent.
\<close>

theorem tcp_writes_in_order:
  assumes "\<forall>w. h (Tcp_event 3 0 None) w = Inr w" "tt_socket (tp_self w) = Some s" "tp_heap w s = Some u" "\<forall>a \<in> set as. sends_only s a"
  shows "\<exists>v x. tcp_actions h as w = Inr v \<and> tp_heap v s = Some x \<and>
    us_sent x @ concat (us_queue x) = us_sent u @ concat (us_queue u) @ written_by as \<and> prefix (us_sent u) (us_sent x)"
  using actions_stream [of h, OF assms] by (simp add: stream_def)

theorem tcp_writes_in_order_witness:
  "\<exists>v x. tcp_actions greeter [Write plain_uv '' world'', Sent 0, Sent 0, Write plain_uv ''!!''] greeting = Inr v \<and> tp_heap v 0 = Some x \<and>
    us_sent x @ concat (us_queue x) = ''hello world!!'' \<and> prefix ''hel'' (us_sent x)"
proof -
  let ?as = "[Write plain_uv '' world'', Sent 0, Sent 0, Write plain_uv ''!!'']"
  have h: "\<forall>w. greeter (Tcp_event 3 0 None) w = Inr w" by (simp add: greeter_def)
  have s: "tt_socket (tp_self greeting) = Some 0"
    "tp_heap greeting 0 = Some \<lparr>us_closing = False, us_reading = True, us_sent = ''hel'', us_queue = [''lo'']\<rparr>"
    by (simp_all add: greeting_def)
  have "\<forall>a \<in> set ?as. sends_only 0 a" by (simp add: sends_only_def uv_in_order_def plain_uv_def)
  from tcp_writes_in_order [of greeter, OF h s this] show ?thesis by (simp del: tcp_actions.simps)
qed

section \<open>The end\<close>

text \<open>How many callbacks are still to come once a transport is destroyed.\<close>

definition still_due :: "'c tcp \<Rightarrow> nat" where
  "still_due w = length (tp_resolvers w) + length (tp_connects w) +
     (\<Sum>s < tp_fresh w. case tp_heap w s of None \<Rightarrow> 0 | Some u \<Rightarrow> Suc (length (us_queue u)))"

lemma due_socket:
  assumes "tp_heap w s = Some u" "s < tp_fresh w" "tp_fresh v = tp_fresh w" "tp_heap v = (tp_heap w)(s := x)"
    and "(case x of None \<Rightarrow> 0 | Some y \<Rightarrow> Suc (length (us_queue y))) < Suc (length (us_queue u))"
    and "tp_resolvers v = tp_resolvers w" "tp_connects v = tp_connects w"
  shows "still_due v < still_due w"
proof -
  have "(\<Sum>t < tp_fresh w. case ((tp_heap w)(s := x)) t of None \<Rightarrow> 0 | Some u \<Rightarrow> Suc (length (us_queue u)))
      < (\<Sum>t < tp_fresh w. case tp_heap w t of None \<Rightarrow> 0 | Some u \<Rightarrow> Suc (length (us_queue u)))"
    by (rule sum_strict_mono_ex1) (use assms in \<open>auto split: option.splits\<close>)
  then show ?thesis using assms by (simp add: still_due_def)
qed

definition destroyed :: "'c tcp \<Rightarrow> bool" where
  "destroyed w \<longleftrightarrow> tcp_ok w \<and> \<not> tt_loop (tp_self w)"

lemma destroyed_callback:
  assumes "destroyed w" "is_callback a" "tcp_enabled w a"
  shows "\<exists>v. tcp_run h a w = Inr v \<and> destroyed v \<and> still_due v < still_due w"
proof -
  have ok: "sockets_ok w" and off: "tt_socket (tp_self w) = None" "\<not> tt_on_event (tp_self w)" "\<not> tt_on_input (tp_self w)" "\<not> tt_loop (tp_self w)"
    using assms(1) by (auto simp: destroyed_def tcp_ok_def)
  have closing: "us_closing u \<and> \<not> us_reading u \<and> s < tp_fresh w" if "tp_heap w s = Some u" for s u
    using ok off(1) that by (auto simp: sockets_ok_def)
  show ?thesis
  proof (cases a)
    case (Resolved i env status)
    then show ?thesis using assms(1,3) off by (auto simp: tcp_transport_on_resolved_def destroyed_def tcp_ok_def sockets_ok_def still_due_def)
  next
    case (Connected s status)
    then have s: "s \<in> set (tp_connects w)" using assms(3) by simp
    then obtain u where "tp_heap w s = Some u" using ok by (auto simp: sockets_ok_def)
    then have "status < 0" using closing assms(3) Connected by simp
    moreover have "length (remove1 s (tp_connects w)) < length (tp_connects w)" using s length_pos_if_in_set [OF s] by (simp add: length_remove1)
    moreover have "destroyed (set_ready_state n (w\<lparr>tp_connects := remove1 s (tp_connects w)\<rparr>))" for n
      using assms(1) by (auto simp: destroyed_def tcp_ok_def sockets_ok_def set_ready_state_def dest: set_remove1_subset [THEN subsetD])
    ultimately show ?thesis using off Connected
      by (simp add: tcp_transport_on_connect_def tcp_transport_on_error_def raise_event_def still_due_def set_ready_state_def)
  next
    case (Failed s)
    then obtain u where u: "tp_heap w s = Some u" "us_queue u \<noteq> []" using assms(3) by (auto split: option.splits)
    let ?v = "put_socket s (u\<lparr>us_queue := drop 1 (us_queue u)\<rparr>) w"
    have "destroyed ?v" using put_keeps [of w s u] u(1) assms(1) closing [OF u(1)] by (simp add: destroyed_def put_socket_def)
    moreover have "still_due ?v < still_due w"
      by (rule due_socket [OF u(1)]) (use closing [OF u(1)] u(2) in \<open>auto simp: put_socket_def\<close>)
    ultimately show ?thesis using off u(1) Failed
      by (simp add: at_socket_def tcp_transport_on_write_def tcp_transport_is_ready_def put_socket_def)
  next
    case (Closed s)
    then obtain u where u: "tp_heap w s = Some u" "s \<notin> set (tp_connects w)" using assms(3) by (auto split: option.splits)
    let ?v = "w\<lparr>tp_heap := (tp_heap w)(s := None)\<rparr>"
    have "still_due ?v < still_due w" by (rule due_socket [OF u(1)]) (use closing [OF u(1)] in auto)
    moreover have "destroyed ?v" using assms(1) u(2) by (auto simp: destroyed_def tcp_ok_def sockets_ok_def)
    ultimately show ?thesis using u(1) Closed by (simp add: tcp_transport_on_close_def at_socket_def)
  qed (use assms(2,3) closing in \<open>auto simp: is_callback_def split: option.splits\<close>)
qed

lemma loop_due: "tcp_loop h n w v \<Longrightarrow> destroyed w \<Longrightarrow> destroyed v \<and> n + still_due v \<le> still_due w"
proof (induction rule: tcp_loop.induct)
  case (turn a w v n x)
  then show ?case using destroyed_callback [OF turn.prems turn.hyps(1,2), of h] by fastforce
qed simp

lemma nothing_due:
  assumes "destroyed w" "\<And>a. is_callback a \<Longrightarrow> \<not> tcp_enabled w a"
  shows "tp_heap w = Map.empty \<and> tp_resolvers w = [] \<and> tp_connects w = []"
proof -
  have closing: "us_closing u" if "tp_heap w s = Some u" for s u
    using assms(1) that by (auto simp: destroyed_def tcp_ok_def sockets_ok_def)
  have cb: "is_callback (Resolved i env status)" "is_callback (Connected s status)" "is_callback (Failed s)" "is_callback (Closed s)" for i env status s
    by (simp_all add: is_callback_def)
  have connects: "tp_connects w = []" using assms(2) [OF cb(2), of "hd (tp_connects w)" "-125"] by (cases "tp_connects w") (auto split: option.splits)
  have "tp_heap w s = None" for s
    using assms(2) [OF cb(3), of s] assms(2) [OF cb(4), of s] closing [of s] connects by (cases "tp_heap w s") auto
  moreover have "tp_resolvers w = []" using assms(2) [OF cb(1), of 0] by simp
  ultimately show ?thesis using connects by auto
qed

text \<open>
  C32.  Destroying the transport ends it: the event loop has at most \<^verbatim>\<open>still_due\<close> callbacks left to make, none of
  them faults, and when there are none left every socket, lookup and connection request has been freed.
\<close>

theorem tcp_destroy_releases:
  assumes "transport_client h good" "good c" "tcp_reachable h c w" "tcp_transport_destroy w = Inr w0" "tcp_loop h n w0 v"
  shows "n \<le> still_due w0 \<and> (\<forall>a. is_callback a \<and> tcp_enabled v a \<longrightarrow> (\<exists>x. tcp_run h a v = Inr x)) \<and>
    ((\<nexists>a. is_callback a \<and> tcp_enabled v a) \<longrightarrow> tp_heap v = Map.empty \<and> tp_resolvers v = [] \<and> tp_connects v = [])"
proof -
  have "destroyed w0"
    using tcp_destroy_ok [OF transport_client.reachable_tcp_ok [OF assms(1,3,2)]] assms(4) by (auto simp: destroyed_def)
  from loop_due [OF assms(5) this] have v: "destroyed v" "n \<le> still_due w0" by auto
  then show ?thesis using destroyed_callback [OF v(1)] nothing_due [OF v(1)] by blast
qed

theorem tcp_destroy_releases_witness:
  "\<exists>w0. tcp_transport_destroy greeting = Inr w0 \<and> still_due w0 = 2 \<and>
    (\<forall>n v. tcp_loop greeter n w0 v \<longrightarrow> n \<le> 2 \<and> ((\<nexists>a. is_callback a \<and> tcp_enabled v a) \<longrightarrow> tp_heap v = Map.empty))"
proof -
  obtain w0 where w0: "tcp_transport_destroy greeting = Inr w0" "still_due w0 = 2"
    by (simp add: tcp_transport_destroy_def greeting_def at_socket_def put_socket_def still_due_def)
  then show ?thesis using tcp_destroy_releases [OF greeter.transport_client_axioms _ greeting_reachable w0(1)] by metis
qed

section \<open>A client that breaks the contract\<close>

text \<open>
  A client that destroys the transport when it is told of the connection stops the process: the assertion
  behind the event, that the socket is still there, fails.
\<close>

lemma tcp_destroy_in_connected_aborts:
  assumes "\<And>w. h (Tcp_event 2 0 None) w = tcp_transport_destroy w" "tt_on_event (tp_self w)" "tcp_ok w" "0 \<le> status"
  shows "tcp_transport_on_connect h status w = Inl Assert_failed"
proof -
  obtain v where "tcp_transport_destroy w = Inr v" "tt_socket (tp_self v) = None"
    using tcp_destroy_ok [OF assms(3)] by (auto simp: tcp_ok_def)
  then show ?thesis using assms by (simp add: tcp_transport_on_connect_def raise_event_def)
qed

lemma tcp_destroy_in_connected_aborts_witness:
  "tcp_transport_on_connect (\<lambda>_. tcp_transport_destroy) 0 greeting = Inl Assert_failed"
  by (rule tcp_destroy_in_connected_aborts [OF _ _ greeter.reachable_tcp_ok [OF greeting_reachable]])
    (simp_all add: greeting_def)

end
