(* ===== verification/HttpClientProps.thy ===== *)
theory HttpClientProps
  imports HttpClient TcpProps UriProps
begin

text \<open>
  The HTTP client over its transport: what it sends, what it collects of a response, and where it goes wrong.  The
  transport's contract is interpreted on the client's handlers.
\<close>

section \<open>The client keeps the transport's contract\<close>

lemma set_client_simps [simp]:
  "tp_client (set_client c w) = c" "tp_self (set_client c w) = tp_self w" "tp_heap (set_client c w) = tp_heap w"
  "set_client c (set_client d w) = set_client c w" "set_client (tp_client w) w = w"
  by (simp_all add: set_client_def)

text \<open>A request that is ready to be sent: its text is complete, and the body has the length it says.\<close>

definition request_ready :: "http_request \<Rightarrow> bool" where
  "request_ready q \<longleftrightarrow> (\<exists>front. builder_ok q (front @ CRLF))"

definition client_ready :: "'a http_client \<Rightarrow> bool" where
  "client_ready c \<longleftrightarrow> (\<exists>q. ht_request c = Some q \<and> request_ready q) \<and>
     (case ht_body c of None \<Rightarrow> True | Some (block, len) \<Rightarrow> len \<le> length block)"

lemma set_header_ready:
  assumes "request_ready q"
  shows "\<exists>q' r. http_request_set_header alloc q name val = Inr (q', r) \<and> request_ready q'"
proof -
  obtain front where front: "builder_ok q (front @ CRLF)" using assms by (auto simp: request_ready_def)
  obtain q' r where run: "http_request_set_header alloc q name val = Inr (q', r)" using builder_no_fault [OF front] by blast
  have "request_ready q'"
  proof (cases "r = 0")
    case True
    then have "builder_ok q' ((front @ header_text (name, val)) @ CRLF)" using builder_header(1) [OF front run] by simp
    then show ?thesis unfolding request_ready_def by blast
  qed (use builder_header(2) [OF front run] assms in simp)
  then show ?thesis using run by blast
qed

lemma content_length_ready:
  "request_ready q \<Longrightarrow> \<exists>q' r. http_request_set_content_lenth alloc q n = Inr (q', r) \<and> request_ready q'"
  using set_header_ready [of q alloc] by (auto simp: http_request_set_content_lenth_def snprintf_def)

lemma ready_text: "request_ready q \<Longrightarrow> hr_len q = length (hr_text q)"
  by (auto simp: request_ready_def builder_ok_def)

abbreviation (input) fine :: "'a http_world \<Rightarrow> bool" where
  "fine \<equiv> client_ok client_ready"

lemma fineI: "tcp_ok w \<Longrightarrow> client_ready (tp_client w) \<Longrightarrow> fine w"
  by (simp add: client_ok_def)

lemma destroy_fine:
  assumes "tcp_ok w" "ht_closed (tp_client w) \<longrightarrow> fine w"
  shows "\<exists>v. http_client_destroy w = Inr v \<and> fine v"
proof (cases "ht_closed (tp_client w)")
  case False
  have "tcp_ok (set_client c w)" for c using assms(1) by (simp add: tcp_ok_def sockets_ok_def set_client_def)
  from tcp_destroy_ok [OF this] show ?thesis using False by (fastforce simp: http_client_destroy_def client_ok_def Let_def)
qed (use assms in \<open>simp add: http_client_destroy_def\<close>)

lemma set_client_fine:
  "fine w \<Longrightarrow> ht_request c = ht_request (tp_client w) \<Longrightarrow> ht_body c = ht_body (tp_client w) \<Longrightarrow> fine (set_client c w)"
  by (simp add: client_ok_def client_ready_def tcp_ok_def sockets_ok_def set_client_def)

lemma response_fine:
  assumes "fine w"
  shows "\<exists>v. response_handler env st status len data w = Inr v \<and> fine v"
proof -
  have 1: "fine (set_client ((tp_client w)\<lparr>ht_data := d\<rparr>) w)" for d by (rule set_client_fine [OF assms]) simp_all
  from destroy_fine [OF client_okD [OF this]] show ?thesis using assms 1
    by (fastforce simp: response_handler_def Let_def)
qed

text \<open>The callbacks of the parser change neither the request nor its body.\<close>

lemma calls_fine: "fine w \<Longrightarrow> \<exists>v b. client_calls env calls w = Inr (v, b) \<and> fine v"
proof (induction calls arbitrary: w)
  case (Cons call calls)
  have "\<exists>v r. client_parser_settings env call w = Inr (v, r) \<and> fine v"
  proof (cases call)
    case (Headers_complete status len)
    let ?c = "(tp_client w)\<lparr>ht_value := None, ht_strings := ht_strings (tp_client w) - held (ht_value (tp_client w)), ht_ready_state := 2\<rparr>"
    have "fine (set_client ?c w)" "fine (set_client (?c\<lparr>ht_status_code := status, ht_content_length := len\<rparr>) w)"
      using set_client_fine [OF Cons.prems] by simp_all
    then show ?thesis
      using response_fine [of "set_client (?c\<lparr>ht_status_code := status, ht_content_length := len\<rparr>) w" env 2 "int status" "to_int64 (int len)" None]
        Headers_complete
      by (auto simp: client_parser_settings_def client_on_headers_complete_def Let_def)
  next
    case (Header_value piece)
    obtain c r where c: "client_on_header_value piece (tp_client w) = (c, r)" by fastforce
    then have "fine (set_client c w)"
      by (intro set_client_fine [OF Cons.prems]) (auto simp: client_on_header_value_def Let_def split: option.splits if_splits)
    then show ?thesis using c Header_value by (simp add: client_parser_settings_def)
  next
    case (Body piece)
    have "fine (set_client ((tp_client w)\<lparr>ht_ready_state := 3\<rparr>) w)" by (rule set_client_fine [OF Cons.prems]) simp_all
    from response_fine [OF this, of env 3 0 "int (length piece)" "Some piece"] show ?thesis
      using Body Cons.prems by (auto simp: client_parser_settings_def client_on_body_def)
  next
    case (Message_complete status len)
    have "fine (set_client ((tp_client w)\<lparr>ht_ready_state := 4\<rparr>) w)" by (rule set_client_fine [OF Cons.prems]) simp_all
    from response_fine [OF this, of env 4 "int status" "to_int64 (int len)" None] show ?thesis
      using Message_complete by (auto simp: client_parser_settings_def client_on_message_complete_def)
  qed (use Cons.prems set_client_fine [OF Cons.prems] in
      \<open>simp_all add: client_parser_settings_def client_on_status_def client_on_header_field_def\<close>)
  then obtain v r where v: "client_parser_settings env call w = Inr (v, r)" "fine v" by blast
  then show ?case using Cons.IH [OF v(2)] by auto
qed auto

lemma write_fine:
  assumes "fine w"
  shows "\<exists>v. http_client_write env data w = Inr v \<and> fine v \<and> tp_self v = tp_self w \<and> tp_client v = tp_client w"
  using tcp_write_ok [OF client_okD [OF assms], of "ce_uv env" data] assms by (fastforce simp: http_client_write_def client_ok_def)

text \<open>Sending the request, up to the application's handler.\<close>

lemma connected_fine:
  assumes "fine w" "tt_loop (tp_self w)"
  shows "\<exists>v. http_client_on_connected env w =
      response_handler env 1 0 0 None (set_client ((tp_client v)\<lparr>ht_ready_state := 1\<rparr>) v) \<and>
    fine (set_client ((tp_client v)\<lparr>ht_ready_state := 1\<rparr>) v) \<and> tp_self v = tp_self w"
proof -
  let ?c = "(tp_client w)\<lparr>ht_parsed := [], ht_failed := False\<rparr>"
  define body where "body = (case ht_body (tp_client w) of None \<Rightarrow> None | Some (block, len) \<Rightarrow> if len > 0 then Some (block, len) else None)"
  obtain q where q: "ht_request (tp_client w) = Some q" "request_ready q"
    using assms by (auto simp: client_ok_def client_ready_def)
  obtain q' r where q': "(case body of None \<Rightarrow> Inr (q, 0) | Some (block, len) \<Rightarrow> http_request_set_content_lenth (ce_alloc env) q len) = Inr (q', r)"
    "request_ready q'" using content_length_ready [OF q(2), of "ce_alloc env"] q(2) by (cases body) (auto, meson)
  define w1 where "w1 = set_client (?c\<lparr>ht_request := Some q'\<rparr>) w"
  have "fine w1" using assms q'(2) by (auto simp: w1_def client_ok_def client_ready_def tcp_ok_def sockets_ok_def set_client_def)
  then obtain w2 where w2: "http_client_write env (take (hr_len q') (hr_text q')) w1 = Inr w2" "fine w2" "tp_self w2 = tp_self w1" "tp_client w2 = tp_client w1"
    using write_fine by blast
  have len: "len \<le> length block" if "body = Some (block, len)" for block len
    using that assms by (auto simp: body_def client_ok_def client_ready_def split: option.splits if_splits)
  obtain w3 where w3: "(case body of None \<Rightarrow> Inr w2 | Some (block, len) \<Rightarrow> and_then (in_bounds (len \<le> length block)) (\<lambda>_. http_client_write env (take len block) w2)) = Inr w3"
    "fine w3" "tp_self w3 = tp_self w"
    using write_fine [OF w2(2)] w2(2,3) len by (cases body) (auto simp: w1_def, metis)
  have "http_client_on_connected env w = response_handler env 1 0 0 None (set_client ((tp_client w3)\<lparr>ht_ready_state := 1\<rparr>) w3)"
    using q(1) q'(1) w2(1) w3(1) ready_text [OF q'(2)]
    by (simp add: http_client_on_connected_def http_request_get_def w1_def flip: body_def)
  moreover have "fine (set_client ((tp_client w3)\<lparr>ht_ready_state := 1\<rparr>) w3)" by (rule set_client_fine [OF w3(2)]) simp_all
  ultimately show ?thesis using w3(3) by blast
qed

text \<open>The application may destroy the client, but not while it is told of the connection.\<close>

definition attentive :: "'a client_env \<Rightarrow> 'a client_env" where
  "attentive env = env\<lparr>ce_quits := (\<lambda>st status len data d. st \<noteq> 1 \<and> ce_quits env st status len data d)\<rparr>"

interpretation http: transport_client "http_client_handler (attentive env)" client_ready for env
proof
  fix w :: "'a http_world" and c
  assume w: "fine w" "tt_loop (tp_self w)"
  show "\<exists>v. http_client_handler (attentive env) c w = Inr v \<and> fine v"
  proof (cases c)
    case (Tcp_event event status data)
    then show ?thesis
      using connected_fine [OF w, of "attentive env"] response_fine destroy_fine [OF client_okD [OF w(1)]] w(1)
      by (fastforce simp: http_client_handler_def http_client_on_transport_event_def http_client_on_error_def)
  next
    case (Tcp_input data nread)
    let ?c = "(tp_client w)\<lparr>ht_parsed := ht_parsed (tp_client w) @ data\<rparr>"
    have "fine (set_client ?c w)" by (rule set_client_fine [OF w(1)]) simp_all
    from calls_fine [OF this, of "attentive env" "ce_parse (attentive env) (ht_parsed (tp_client w)) data"]
    obtain v b where v: "client_calls (attentive env) (ce_parse (attentive env) (ht_parsed (tp_client w)) data) (set_client ?c w) = Inr (v, b)" "fine v" by blast
    have "fine (set_client ((tp_client v)\<lparr>ht_failed := \<not> b\<rparr>) v)" by (rule set_client_fine [OF v(2)]) simp_all
    then show ?thesis using v(1) destroy_fine [OF client_okD [OF w(1)]] w(1) Tcp_input
      by (simp add: http_client_handler_def http_client_on_input_def Let_def)
  qed
next
  fix w v :: "'a http_world"
  assume w: "fine w" "tt_socket (tp_self w) \<noteq> None" and v: "http_client_handler (attentive env) (Tcp_event 2 0 None) w = Inr v"
  have "tt_loop (tp_self w)" using w by (auto simp: client_ok_def tcp_ok_def)
  from connected_fine [OF w(1) this, of "attentive env"] show "tt_socket (tp_self v) \<noteq> None"
    using v w(2) by (auto simp: http_client_handler_def http_client_on_transport_event_def response_handler_def attentive_def Let_def split: if_splits)
qed

lemma loop_fine:
  "tcp_loop (http_client_handler (attentive env)) n w v \<Longrightarrow> fine w \<Longrightarrow> fine v"
proof (induction rule: tcp_loop.induct)
  case (turn a w v n x)
  then show ?case using http.run_ok [OF turn.prems turn.hyps(2), of env] by auto
qed

text \<open>Preparing a request whose URL is not too long.\<close>

lemma method_strings_sent [simp]: "http_method_str 1 = ''GET''" "http_method_str 3 = ''POST''"
  by (simp_all add: http_method_str_def method_strings_def)

lemma uri_path_length: "0 < len \<Longrightarrow> int (length (fst (uri_path u len))) < len"
  by (auto simp: uri_path_def Let_def)

lemma set_uri_short:
  assumes "http_request_create alloc 32 1 = Some q" "length uri \<le> 900" "m = 1 \<or> m = 3"
  shows "\<exists>q'. http_request_set_uri q m uri = Inr (q', 0) \<and> builder_ok q' (request_line (http_method_str m) uri 1 @ CRLF)"
proof -
  have "\<exists>q'. http_request_set_uri q m uri = Inr (q', 0)"
    using assms by (auto simp: http_request_create_def http_request_set_uri_def snprintf_def s_version_def CRLF_def split: if_splits)
  then show ?thesis using builder_uri(1) [OF assms(1)] by blast
qed

lemma init_ready:
  assumes "http_client_init env meth (Some url) c = Inr (c', 0)" "length url \<le> 900" "ht_body c = None"
  shows "client_ready c' \<and> ht_body c' = None"
proof (cases "ht_request c")
  case None
  obtain u where u: "uri_parse (ce_alloc env) url = Inr (Some u)"
    using assms(1) None by (auto simp: http_client_init_def and_then_eq_Inr split: option.splits)
  have url: "url \<noteq> []" using u by (auto simp: uri_parse_def)
  let ?p = "fst (uri_path u (int (length url)))"
  have p: "length ?p \<le> 900" using uri_path_length [of "int (length url)" u] url assms(2) by simp
  define m where "m = (case meth of None \<Rightarrow> HTTP_GET | Some s \<Rightarrow> if strcaseeq s ''POST'' then HTTP_POST else HTTP_GET)"
  have "m = 1 \<or> m = 3" by (simp add: m_def split: option.splits)
  moreover obtain q where "http_request_create (ce_alloc env) 32 1 = Some q"
    "and_then (http_request_set_uri q m ?p) (\<lambda>(q, _). Inr (c\<lparr>ht_method := m, ht_url := Some u, ht_request := Some q\<rparr>, 0 :: int)) = Inr (c', 0)"
    using assms(1) None u by (cases "http_request_create (ce_alloc env) 32 1") (simp_all add: http_client_init_def flip: m_def)
  ultimately have m: "m = 1 \<or> m = 3" "http_request_create (ce_alloc env) 32 1 = Some q"
    "and_then (http_request_set_uri q m ?p) (\<lambda>(q, _). Inr (c\<lparr>ht_method := m, ht_url := Some u, ht_request := Some q\<rparr>, 0 :: int)) = Inr (c', 0)"
    by simp_all
  show ?thesis using set_uri_short [OF m(2) p m(1)] m(3) assms(3) by (auto simp: client_ready_def request_ready_def) blast
qed (use assms(1) in \<open>simp add: http_client_init_def\<close>)

lemma set_request_headers_ready:
  "request_ready q \<Longrightarrow> set_request_headers alloc hs q = Inr q' \<Longrightarrow> request_ready q'"
proof (induction alloc hs q rule: set_request_headers.induct)
  case (2 alloc name val hs q)
  then show ?case using set_header_ready [OF 2(2), of alloc name val] by auto
qed simp_all

lemma set_headers_ready: "client_ready c \<Longrightarrow> http_client_set_headers env hs c = Inr (c', r) \<Longrightarrow> client_ready c' \<and> ht_body c' = ht_body c"
  by (auto simp: http_client_set_headers_def client_ready_def and_then_eq_Inr dest: set_request_headers_ready split: option.splits if_splits)

lemma set_body_ready: "client_ready c \<Longrightarrow> http_client_set_body env data None c = Inr (c', r) \<Longrightarrow> client_ready c'"
  by (auto simp: http_client_set_body_def client_ready_def Let_def split: option.splits if_splits)

lemma send_ready:
  assumes "client_ready c" "http_client_send (attentive env) (set_client c (http_client_create d)) = Inr (w, r)"
  shows "fine w"
proof -
  let ?w = "\<lambda>c. set_client c (http_client_create d)"
  have w: "fine (?w c')" if "client_ready c'" for c'
    using that by (simp add: client_ok_def tcp_ok_def sockets_ok_def http_client_create_def tcp_start_def tcp_transport_init_def set_client_def Let_def)
  show ?thesis
  proof (cases "ht_url c = None \<or> ur_host (the (ht_url c)) = None")
    case True
    then have "w = ?w c" using assms by (auto simp: http_client_send_def client_ready_def split: option.splits)
    then show ?thesis using w [OF assms(1)] by simp
  next
    case False
    then obtain u host q where u: "ht_url c = Some u" "ur_host u = Some host" "ht_request c = Some q" "request_ready q"
      using assms(1) by (auto simp: client_ready_def)
    obtain q' r where q': "http_request_set_header (ce_alloc (attentive env)) q ''Host'' host = Inr (q', r)" "request_ready q'"
      using set_header_ready [OF u(4)] by blast
    let ?v = "?w (c\<lparr>ht_request := Some q'\<rparr>)"
    have ready: "client_ready (c\<lparr>ht_request := Some q'\<rparr>)" using assms(1) q'(2) by (simp add: client_ready_def)
    have idle: "tp_resolvers ?v = []" "tt_socket (tp_self ?v) = None"
      by (simp_all add: http_client_create_def tcp_start_def tcp_transport_init_def set_client_def Let_def)
    show ?thesis
      using http.connect_ok [OF w [OF ready] idle, of "ce_uv (attentive env)" env host "if ur_port u \<le> 0 then 80 else ur_port u"] assms(2) u q'(1)
      by (auto simp: http_client_send_def Let_def)
  qed
qed

text \<open>
  C33.  After a GET or a POST with a URL of at most 900 bytes, whatever libuv calls back, in any order, with any input and
  any failure, and whatever the application does when it is told, short of destroying the client while it is told of the
  connection: the next callback does not fault.
\<close>

theorem http_client_callbacks_safe:
  assumes "http_client_get (attentive env) (Some url) hs handler d (http_client_create d0) = Inr (w, 0) \<or>
      http_client_post (attentive env) (Some url) hs data handler d (http_client_create d0) = Inr (w, 0)"
    and "length url \<le> 900" "tcp_loop (http_client_handler (attentive env)) n w v" "is_callback a" "tcp_enabled v a"
  shows "\<exists>x. tcp_run (http_client_handler (attentive env)) a v = Inr x"
proof -
  let ?c = "http_client_set_callback handler d (tp_client (http_client_create d0))"
  have c: "ht_body ?c = None" by (simp add: http_client_set_callback_def http_client_create_def tcp_start_def tcp_transport_init_def Let_def)
  have "fine w"
    using assms(1)
  proof
    assume "http_client_get (attentive env) (Some url) hs handler d (http_client_create d0) = Inr (w, 0)"
    then obtain c1 r1 c2 r2 r where run: "http_client_init (attentive env) (Some ''GET'') (Some url) ?c = Inr (c1, r1)"
      "r1 < 0 \<and> r1 = 0 \<or> http_client_set_headers (attentive env) hs c1 = Inr (c2, r2) \<and> \<not> r1 < 0 \<and>
        http_client_send (attentive env) (set_client c2 (http_client_create d0)) = Inr (w, r)"
      unfolding http_client_get_def and_then_eq_Inr by (auto simp: and_then_eq_Inr split: if_splits)
    have "r1 \<le> 0" using run(1) by (auto simp: http_client_init_def and_then_eq_Inr Let_def split: option.splits if_splits)
    then have "r1 = 0" using run(2) by auto
    with init_ready [OF _ assms(2) c] run have "client_ready c1" by blast
    then show "fine w" using run(2) \<open>r1 = 0\<close> set_headers_ready [of c1] send_ready [of c2] by blast
  next
    assume "http_client_post (attentive env) (Some url) hs data handler d (http_client_create d0) = Inr (w, 0)"
    then obtain c1 r1 c2 r2 c3 r3 r where run: "http_client_init (attentive env) (Some ''POST'') (Some url) ?c = Inr (c1, r1)"
      "r1 < 0 \<and> r1 = 0 \<or> http_client_set_headers (attentive env) hs c1 = Inr (c2, r2) \<and> \<not> r1 < 0 \<and>
        http_client_set_body (attentive env) data None c2 = Inr (c3, r3) \<and>
        http_client_send (attentive env) (set_client c3 (http_client_create d0)) = Inr (w, r)"
      unfolding http_client_post_def and_then_eq_Inr by (auto simp: and_then_eq_Inr split: if_splits)
    have "r1 \<le> 0" using run(1) by (auto simp: http_client_init_def and_then_eq_Inr Let_def split: option.splits if_splits)
    then have "r1 = 0" using run(2) by auto
    with init_ready [OF _ assms(2) c] run have "client_ready c1" by blast
    then show "fine w" using run(2) \<open>r1 = 0\<close> set_headers_ready [of c1] set_body_ready [of c2] send_ready [of c3] by blast
  qed
  then have "fine v" using loop_fine [OF assms(3)] by blast
  then show ?thesis using http.run_ok [OF _ assms(5)] by blast
qed

section \<open>What is sent\<close>

lemma set_header_builds:
  assumes "builder_ok q (front @ CRLF)" "\<And>n. alloc n"
  shows "\<exists>q'. http_request_set_header alloc q name val = Inr (q', 0) \<and> builder_ok q' (front @ header_text (name, val) @ CRLF)"
proof -
  obtain q' r where run: "http_request_set_header alloc q name val = Inr (q', r)" using builder_no_fault [OF assms(1)] by blast
  have "r = 0" using run assms(2) by (auto simp: http_request_set_header_def Let_def and_then_eq_Inr split: if_splits)
  then show ?thesis using run builder_header(1) [OF assms(1) run] by blast
qed

lemma set_request_headers_builds:
  "builder_ok q (front @ CRLF) \<Longrightarrow> (\<And>n. alloc n) \<Longrightarrow>
   \<exists>q'. set_request_headers alloc (map (\<lambda>(n, v). (Some n, Some v)) hs) q = Inr q' \<and>
     builder_ok q' (front @ concat (map header_text hs) @ CRLF)"
proof (induction hs arbitrary: q front)
  case (Cons h hs)
  obtain n v where h: "h = (n, v)" by fastforce
  obtain q1 where q1: "http_request_set_header alloc q n v = Inr (q1, 0)" "builder_ok q1 ((front @ header_text (n, v)) @ CRLF)"
    using set_header_builds [OF Cons.prems(1), of alloc n v] Cons.prems(2) by auto
  from Cons.IH [OF q1(2) Cons.prems(2)] show ?case using q1(1) h by auto
qed simp

text \<open>The headers of a request: the application's, then \<^verbatim>\<open>Host\<close>, then the length of the body.\<close>

definition sent_headers :: "(string \<times> string) list \<Rightarrow> string \<Rightarrow> string \<Rightarrow> (string \<times> string) list" where
  "sent_headers hs host data =
     hs @ [(''Host'', host)] @ (if data = [] then [] else [(''Content-Length'', show_nat (length data))])"

text \<open>A client that has been asked to post, and has its lookup under way.\<close>

definition posted :: "'a client_env \<Rightarrow> uri \<Rightarrow> string \<Rightarrow> bool \<Rightarrow> 'a \<Rightarrow> 'a \<Rightarrow> http_request \<Rightarrow> 'a http_world" where
  "posted env u data handler d d0 q =
     (let w = http_client_create d0 in
      (set_client ((tp_client w)\<lparr>ht_request := Some q, ht_url := Some u, ht_body := (if data = [] then None else Some (data, length data)),
         ht_method := 3, ht_handler := handler, ht_data := d\<rparr>) w)
       \<lparr>tp_resolvers := [(the (ur_host u), fst (snprintf 16 (show_int (if ur_port u \<le> 0 then 80 else ur_port u))))]\<rparr>)"

lemma post_run:
  assumes "uri_ok u" "ur_host u = Some host" "ur_query u \<noteq> Some []" "ur_fragment u \<noteq> Some []" "length (uri_text u) \<le> 900"
    and "\<And>n. ce_alloc env n" "\<And>a b. uv_getaddrinfo (ce_uv env) a b = 0"
  shows "\<exists>q. http_client_post env (Some (uri_text u)) (map (\<lambda>(n, v). (Some n, Some v)) hs) data handler d (http_client_create d0) =
      Inr (posted env u data handler d d0 q, 0) \<and>
    builder_ok q (request_line ''POST'' (path_text u) 1 @ concat (map header_text (hs @ [(''Host'', host)])) @ CRLF)"
proof -
  have tx: "uri_text u \<noteq> []" "length (path_text u) < length (uri_text u)"
    using path_text_slash [OF assms(1)] assms(1,2) by (auto simp: uri_text_def authority_text_def uri_ok_def host_text_def split: option.splits)
  have parse: "uri_parse (ce_alloc env) (uri_text u) = Inr (Some u)"
    using tx(1) assms(6) uri_parse_complex_text [OF assms(1)] by (simp add: uri_parse_def)
  have path: "uri_path u (int (length (uri_text u))) = (path_text u, int (length (path_text u)))"
    by (rule uri_path_text [OF assms(3,4)]) (use tx(2) in simp)
  obtain q0 where q0: "http_request_create (ce_alloc env) 32 1 = Some q0" using assms(6) by (simp add: http_request_create_def)
  obtain q1 where q1: "http_request_set_uri q0 3 (path_text u) = Inr (q1, 0)" "builder_ok q1 (request_line ''POST'' (path_text u) 1 @ CRLF)"
    using set_uri_short [OF q0, of "path_text u" 3] tx(2) assms(5) by auto
  obtain q2 where q2: "set_request_headers (ce_alloc env) (map (\<lambda>(n, v). (Some n, Some v)) hs) q1 = Inr q2"
    "builder_ok q2 ((request_line ''POST'' (path_text u) 1 @ concat (map header_text hs)) @ CRLF)"
    using set_request_headers_builds [OF q1(2), of "ce_alloc env" hs] assms(6) by auto
  obtain q3 where q3: "http_request_set_header (ce_alloc env) q2 ''Host'' host = Inr (q3, 0)"
    "builder_ok q3 ((request_line ''POST'' (path_text u) 1 @ concat (map header_text hs)) @ header_text (''Host'', host) @ CRLF)"
    using set_header_builds [OF q2(2), of "ce_alloc env" "''Host''" host] assms(6) by blast
  let ?c = "http_client_set_callback handler d (tp_client (http_client_create d0))"
  let ?c1 = "?c\<lparr>ht_method := 3, ht_url := Some u, ht_request := Some q1\<rparr>" and ?c2 = "?c\<lparr>ht_method := 3, ht_url := Some u, ht_request := Some q2\<rparr>"
  have fresh: "ht_request ?c = None" "ht_body ?c = None"
    by (simp_all add: http_client_set_callback_def http_client_create_def tcp_start_def tcp_transport_init_def Let_def)
  have 1: "http_client_init env (Some ''POST'') (Some (uri_text u)) ?c = Inr (?c1, 0)"
    using fresh(1) parse path q0 q1(1) by (simp add: http_client_init_def)
  have 2: "\<exists>r. http_client_set_headers env (map (\<lambda>(n, v). (Some n, Some v)) hs) ?c1 = Inr (?c2, r)"
    using q2(1) by (cases hs) (simp_all add: http_client_set_headers_def)
  have 3: "http_client_set_body env data None ?c2 = Inr (?c2\<lparr>ht_body := (if data = [] then None else Some (data, length data))\<rparr>, 0)"
    using fresh(2) by (simp add: http_client_set_body_def)
  have loop: "tt_loop (tp_self (http_client_create d0))" "tp_resolvers (http_client_create d0) = []"
    by (simp_all add: http_client_create_def tcp_start_def tcp_transport_init_def Let_def)
  have 4: "http_client_send env (set_client (?c2\<lparr>ht_body := (if data = [] then None else Some (data, length data))\<rparr>) (http_client_create d0)) =
      Inr (posted env u data handler d d0 q3, 0)"
    using q3(1) assms(2,7) loop
    by (simp add: http_client_send_def tcp_transport_connect_def posted_def http_client_set_callback_def set_client_def Let_def)
  have "http_client_post env (Some (uri_text u)) (map (\<lambda>(n, v). (Some n, Some v)) hs) data handler d (http_client_create d0) =
      Inr (posted env u data handler d d0 q3, 0)"
    using 1 2 3 4 by (auto simp: http_client_post_def)
  then show ?thesis using q3(2) by auto
qed

lemma write_grows:
  assumes "uv_in_order (ce_uv env)" "\<And>u d. uv_write (ce_uv env) u d = 0" "tt_socket (tp_self w) = Some s" "tp_heap w s = Some u" "data \<noteq> []"
  obtains v x where "http_client_write env data w = Inr v" "tp_self v = tp_self w" "tp_client v = tp_client w" "tp_heap v s = Some x"
    "stream x = stream u @ data"
proof -
  from written_stream [OF assms] obtain v x ret where
    v: "tcp_transport_write (ce_uv env) data w = Inr (v, ret)" "tp_self v = tp_self w" "tp_heap v s = Some x" "stream x = stream u @ data" by blast
  moreover have "tp_client v = tp_client w"
    using v(1) assms(3-5) by (auto simp: tcp_transport_write_def at_socket_def put_socket_def Let_def split: if_splits)
  ultimately show thesis using that by (simp add: http_client_write_def)
qed

text \<open>What the connection makes of a request that has been built.\<close>

lemma connected_sends:
  assumes "uv_in_order (ce_uv env)" "\<And>u d. uv_write (ce_uv env) u d = 0" "\<And>n. ce_alloc env n"
    and "tt_socket (tp_self w) = Some s" "tp_heap w s = Some x" "ht_request (tp_client w) = Some q" "builder_ok q (front @ CRLF)" "front \<noteq> []"
    and "ht_body (tp_client w) = (if data = [] then None else Some (data, length data))" "length data < 2 ^ 32"
  shows "\<exists>v y. http_client_on_connected (attentive env) w =
      response_handler (attentive env) 1 0 0 None (set_client ((tp_client v)\<lparr>ht_ready_state := 1\<rparr>) v) \<and>
    tp_self v = tp_self w \<and> tp_heap v s = Some y \<and>
    stream y = stream x @ front @ (if data = [] then [] else header_text (''Content-Length'', show_nat (length data))) @ CRLF @ data"
proof -
  let ?c = "(tp_client w)\<lparr>ht_parsed := [], ht_failed := False\<rparr>"
  have same: "ce_uv (attentive env) = ce_uv env" "ce_alloc (attentive env) = ce_alloc env" by (simp_all add: attentive_def)
  define head where "head = front @ (if data = [] then [] else header_text (''Content-Length'', show_nat (length data)))"
  have digits: "length (show_nat (length data)) \<le> 15" using show_nat_length [of "length data" 15] assms(10) by simp
  obtain q' r where q': "(if data = [] then Inr (q, 0) else http_request_set_content_lenth (ce_alloc env) q (length data)) = Inr (q', r)"
    "builder_ok q' (head @ CRLF)"
  proof (cases "data = []")
    case False
    have "fst (snprintf 32 (show_nat (length data))) = show_nat (length data)" using digits by (simp add: snprintf_def)
    then show thesis
      using set_header_builds [OF assms(7), of "ce_alloc env" "''Content-Length''" "show_nat (length data)"] assms(3,10) digits False that
      by (auto simp: http_request_set_content_lenth_def head_def snprintf_def)
  qed (use that assms(7) in \<open>simp add: head_def\<close>)
  have txt1: "take (hr_len q') (hr_text q') = head @ CRLF" "hr_len q' \<le> length (hr_text q')" "head @ CRLF \<noteq> []"
    using q'(2) by (simp_all add: builder_ok_def CRLF_def)
  define w1 where "w1 = set_client (?c\<lparr>ht_request := Some q'\<rparr>) w"
  have w1: "tt_socket (tp_self w1) = Some s" "tp_heap w1 s = Some x" using assms(4,5) by (simp_all add: w1_def)
  obtain w2 x2 where w2: "http_client_write (attentive env) (head @ CRLF) w1 = Inr w2" "tp_self w2 = tp_self w1" "tp_client w2 = tp_client w1"
    "tp_heap w2 s = Some x2" "stream x2 = stream x @ head @ CRLF"
    using write_grows [of "attentive env", unfolded same, OF assms(1,2) w1 txt1(3)] by blast
  have sock2: "tt_socket (tp_self w2) = Some s" using w2(2) w1(1) by simp
  obtain w3 x3 where w3: "(if data = [] then Inr w2 else http_client_write (attentive env) data w2) = Inr w3" "tp_self w3 = tp_self w1"
    "tp_heap w3 s = Some x3" "stream x3 = stream x2 @ data"
  proof (cases "data = []")
    case False
    then show thesis using write_grows [of "attentive env", unfolded same, OF assms(1,2) sock2 w2(4) False] w2(2) that by metis
  qed (use that w2 in simp)
  have "http_client_on_connected (attentive env) w = response_handler (attentive env) 1 0 0 None (set_client ((tp_client w3)\<lparr>ht_ready_state := 1\<rparr>) w3)"
    using assms(6,9) q'(1) w2(1) w3(1) txt1
    by (cases "data = []") (simp_all add: http_client_on_connected_def http_request_get_def same flip: w1_def)
  then show ?thesis using w3 w2(5) by (intro exI [of _ w3] exI [of _ x3]) (simp add: w1_def head_def)
qed

lemma response_handler_heap:
  assumes "response_handler (attentive env) 1 st len data w = Inr v"
  shows "tp_self v = tp_self w \<and> tp_heap v = tp_heap w"
  using assms by (auto simp: response_handler_def attentive_def Let_def split: if_splits)

lemma response_handler_open: "\<exists>v. response_handler (attentive env) 1 st len data w = Inr v"
  by (simp add: response_handler_def attentive_def Let_def)

text \<open>
  C34.  A POST to a URL, once its host has been looked up and the connection made, puts exactly this on the socket, sent
  or waiting in order: the request line with the path, query and fragment of the URL, the headers of the application,
  \<^verbatim>\<open>Host\<close>, \<^verbatim>\<open>Content-Length\<close>, an empty line and the body.
\<close>

theorem http_client_post_sent:
  assumes "uri_ok u" "ur_host u = Some host" "ur_query u \<noteq> Some []" "ur_fragment u \<noteq> Some []" "length (uri_text u) \<le> 900"
    and "\<forall>n. ce_alloc env n" "\<forall>a b. uv_getaddrinfo (ce_uv env) a b = 0" "uv_in_order (ce_uv env)" "\<forall>u d. uv_write (ce_uv env) u d = 0"
    and "uv_tcp_init uv = 0" "uv_tcp_connect uv = 0" "length data < 2 ^ 32"
  shows "\<exists>w v x. http_client_post (attentive env) (Some (uri_text u)) (map (\<lambda>(n, v). (Some n, Some v)) hs) data handler d
        (http_client_create d0) = Inr (w, 0) \<and>
    tcp_actions (http_client_handler (attentive env)) [Resolved 0 uv 0, Connected 0 0] w = Inr v \<and>
    tt_socket (tp_self v) = Some 0 \<and> tp_heap v 0 = Some x \<and>
    us_sent x @ concat (us_queue x) = request_text ''POST'' (path_text u) 1 (sent_headers hs host data) @ data"
proof -
  let ?h = "http_client_handler (attentive env)"
  have same: "ce_uv (attentive env) = ce_uv env" "ce_alloc (attentive env) = ce_alloc env" by (simp_all add: attentive_def)
  let ?front = "request_line ''POST'' (path_text u) 1 @ concat (map header_text (hs @ [(''Host'', host)]))"
  obtain q where q: "http_client_post (attentive env) (Some (uri_text u)) (map (\<lambda>(n, v). (Some n, Some v)) hs) data handler d
      (http_client_create d0) = Inr (posted (attentive env) u data handler d d0 q, 0)" "builder_ok q (?front @ CRLF)"
    using post_run [OF assms(1-5), of "attentive env" hs data handler d d0] assms(6,7) by (auto simp: same)
  define w where "w = posted (attentive env) u data handler d d0 q"
  let ?x = "\<lparr>us_closing = False, us_reading = False, us_sent = [], us_queue = []\<rparr>"
  define w1 where "w1 = w\<lparr>tp_resolvers := [], tp_heap := Map.empty(0 \<mapsto> ?x), tp_fresh := 1, tp_self := (tp_self w)\<lparr>tt_socket := Some 0\<rparr>\<rparr>"
  have w: "tt_loop (tp_self w)" "length (tp_resolvers w) = 1" "tp_fresh w = 0" "tp_heap w = Map.empty" "tp_connects w = []" "tt_on_event (tp_self w)"
    by (simp_all add: w_def posted_def http_client_create_def tcp_start_def tcp_transport_init_def set_client_def Let_def)
  have 1: "tcp_run ?h (Resolved 0 uv 0) w = Inr (w1\<lparr>tp_connects := [0]\<rparr>)"
    using w assms(10,11) by (cases "tp_resolvers w") (simp_all add: tcp_transport_on_resolved_def put_socket_def w1_def Let_def)
  have client: "ht_request (tp_client w1) = Some q" "ht_body (tp_client w1) = (if data = [] then None else Some (data, length data))"
    by (simp_all add: w1_def w_def posted_def set_client_def Let_def)
  let ?w = "w1\<lparr>tp_connects := []\<rparr>"
  have sock: "tt_socket (tp_self ?w) = Some 0" "tp_heap ?w 0 = Some ?x" by (simp_all add: w1_def)
  obtain v y where v: "http_client_on_connected (attentive env) ?w = response_handler (attentive env) 1 0 0 None (set_client ((tp_client v)\<lparr>ht_ready_state := 1\<rparr>) v)"
    "tp_self v = tp_self ?w" "tp_heap v 0 = Some y"
    "stream y = stream ?x @ ?front @ (if data = [] then [] else header_text (''Content-Length'', show_nat (length data))) @ CRLF @ data"
    using connected_sends [of env ?w 0 ?x q ?front data] assms(6,8,9,12) sock client q(2) by (auto simp: request_line_def)
  obtain z where z: "response_handler (attentive env) 1 0 0 None (set_client ((tp_client v)\<lparr>ht_ready_state := 1\<rparr>) v) = Inr z"
    "tp_self z = tp_self ?w" "tp_heap z 0 = Some y"
    using response_handler_open response_handler_heap v(2,3) by (metis set_client_simps(2,3))
  have 2: "tcp_run ?h (Connected 0 0) (w1\<lparr>tp_connects := [0]\<rparr>) = Inr (set_ready_state 1 (put_socket 0 (y\<lparr>us_reading := True\<rparr>) z))"
    using v(1) z w(6) sock(1)
    by (simp add: tcp_transport_on_connect_def raise_event_def http_client_handler_def http_client_on_transport_event_def w1_def at_socket_def)
  have "stream y = request_text ''POST'' (path_text u) 1 (sent_headers hs host data) @ data"
    using v(4) by (simp add: stream_def request_text_def sent_headers_def)
  then show ?thesis
    using q(1) 1 2 z(2) sock(1)
    by (intro exI [of _ w] exI [of _ "set_ready_state 1 (put_socket 0 (y\<lparr>us_reading := True\<rparr>) z)"] exI [of _ "y\<lparr>us_reading := True\<rparr>"])
      (simp add: w_def stream_def put_socket_def set_ready_state_def)
qed

text \<open>A POST to \<^verbatim>\<open>http://h/a?x\<close>.\<close>

definition small_uri :: uri where
  "small_uri = \<lparr>ur_scheme = Some ''http'', ur_userinfo = None, ur_host = Some ''h'', ur_port = 0, ur_path = ''/a'',
     ur_query = Some ''x'', ur_fragment = None\<rparr>"

text \<open>An application that keeps what it is told.\<close>

type_synonym told = "(nat \<times> int \<times> int \<times> string option) list"

definition recorder :: "(string \<Rightarrow> string \<Rightarrow> client_call list) \<Rightarrow> told client_env" where
  "recorder parse = \<lparr>ce_uv = plain_uv, ce_alloc = (\<lambda>_. True), ce_parse = parse,
     ce_note = (\<lambda>st status len data told. told @ [(st, status, len, data)]), ce_quits = (\<lambda>_ _ _ _ _. False)\<rparr>"

lemma recorder_attentive [simp]: "attentive (recorder parse) = recorder parse"
  by (simp add: attentive_def recorder_def)

lemma recorder_simps [simp]:
  "ce_uv (recorder parse) = plain_uv" "ce_alloc (recorder parse) = (\<lambda>_. True)" "ce_parse (recorder parse) = parse"
  "ce_note (recorder parse) st status len data told = told @ [(st, status, len, data)]"
  "\<not> ce_quits (recorder parse) st status len data told"
  by (simp_all add: recorder_def)

lemma small_facts: "uri_ok small_uri" "uri_text small_uri = ''http://h/a?x''" "path_text small_uri = ''/a?x''"
proof -
  have "word_ok ''http''" "word_ok ''h''" by code_simp+
  then show "uri_ok small_uri" by (simp add: uri_ok_def small_uri_def del: word_ok_simps)
qed (simp_all add: uri_text_def authority_text_def path_text_def host_text_def small_uri_def)

lemma plain_facts: "uv_in_order plain_uv" "uv_write plain_uv u d = 0" "uv_getaddrinfo plain_uv a b = 0" "uv_tcp_init plain_uv = 0"
  "uv_tcp_connect plain_uv = 0" by (simp_all add: uv_in_order_def plain_uv_def)

lemma five: "show_nat (Suc (Suc (Suc (Suc (Suc 0))))) = ''5''"
  by (simp add: show_nat.simps digit_char_def char_of_def bit_iff_odd)

theorem http_client_post_sent_witness:
  "\<exists>w v x. http_client_post (recorder (\<lambda>_ _. [])) (Some ''http://h/a?x'') [(Some ''A'', Some ''b'')] ''hello'' True [] (http_client_create []) = Inr (w, 0) \<and>
    tcp_actions (http_client_handler (recorder (\<lambda>_ _. []))) [Resolved 0 plain_uv 0, Connected 0 0] w = Inr v \<and>
    tt_socket (tp_self v) = Some 0 \<and> tp_heap v 0 = Some x \<and>
    us_sent x @ concat (us_queue x) = ''POST /a?x HTTP/1.1'' @ CRLF @ ''A: b'' @ CRLF @ ''Host: h'' @ CRLF @ ''Content-Length: 5'' @ CRLF @ CRLF @ ''hello''"
proof -
  have "ur_host small_uri = Some ''h''" "ur_query small_uri \<noteq> Some []" "ur_fragment small_uri \<noteq> Some []" "length (uri_text small_uri) \<le> 900"
    by (simp_all add: small_facts) (simp_all add: small_uri_def)
  from http_client_post_sent [where env = "recorder (\<lambda>_ _. [])" and uv = plain_uv and data = "''hello''" and hs = "[(''A'', ''b'')]" and
      handler = True and d = "[]" and ?d0.0 = "[]", OF small_facts(1) this]
  show ?thesis using plain_facts
    by (simp add: small_facts five request_text_def request_line_def sent_headers_def header_text_def s_version_def del: tcp_actions.simps)
qed

theorem http_client_callbacks_safe_witness:
  "\<exists>w. http_client_post (recorder (\<lambda>_ _. [])) (Some ''http://h/a?x'') [] ''hello'' True [] (http_client_create []) = Inr (w, 0) \<and>
    (\<exists>x. tcp_run (http_client_handler (recorder (\<lambda>_ _. []))) (Resolved 0 plain_uv (-3008)) w = Inr x)"
proof -
  have "ur_host small_uri = Some ''h''" "ur_query small_uri \<noteq> Some []" "ur_fragment small_uri \<noteq> Some []" "length (uri_text small_uri) \<le> 900"
    by (simp_all add: small_facts) (simp_all add: small_uri_def)
  from post_run [where env = "recorder (\<lambda>_ _. [])" and hs = "[]" and data = "''hello''" and handler = True and d = "[]" and ?d0.0 = "[]",
      OF small_facts(1) this]
  obtain q where q: "http_client_post (recorder (\<lambda>_ _. [])) (Some ''http://h/a?x'') [] ''hello'' True [] (http_client_create []) =
      Inr (posted (recorder (\<lambda>_ _. [])) small_uri ''hello'' True [] [] q, 0)"
    using plain_facts by (auto simp: small_facts)
  have 1: "is_callback (Resolved 0 plain_uv (-3008))"
    "tcp_enabled (posted (recorder (\<lambda>_ _. [])) small_uri ''hello'' True [] [] q) (Resolved 0 plain_uv (-3008))"
    by (simp_all add: is_callback_def posted_def Let_def)
  have 2: "length ''http://h/a?x'' \<le> (900 :: nat)" by simp
  show ?thesis
    using http_client_callbacks_safe [of "recorder (\<lambda>_ _. [])", unfolded recorder_attentive, OF disjI2 [OF q] 2 tcp_loop.stop 1] q by blast
qed

section \<open>What is collected\<close>

text \<open>The calls of the parser for a response whose parts come in one piece each.\<close>

definition response_calls :: "string \<Rightarrow> nat \<Rightarrow> nat \<Rightarrow> (string \<times> string) list \<Rightarrow> string list \<Rightarrow> client_call list" where
  "response_calls reason status len hs bodies =
     [Message_begin, Status reason] @ concat (map (\<lambda>(n, v). [Header_field n, Header_value v]) hs) @
     [Headers_complete status len] @ map Body bodies @ [Message_complete status len]"

lemma client_calls_append:
  "client_calls env (xs @ ys) w = and_then (client_calls env xs w) (\<lambda>(w, ok). if ok then client_calls env ys w else Inr (w, False))"
  by (induction xs arbitrary: w) (auto simp: and_then_def split: sum.splits)

lemma client_headers:
  "\<forall>(n, v) \<in> set hs. n \<noteq> [] \<and> v \<noteq> [] \<Longrightarrow> ht_value c = None \<Longrightarrow> tp_client w = c \<Longrightarrow> length (ht_headers c) \<le> 99 \<Longrightarrow>
   client_calls env (concat (map (\<lambda>(n, v). [Header_field n, Header_value v]) hs)) w =
     Inr (set_client (c\<lparr>ht_headers := take 99 (ht_headers c @ hs), ht_strings := ht_strings c + 2 * length hs\<rparr>) w, True)"
proof (induction hs arbitrary: c w)
  case Nil
  then show ?case by (cases c) (simp add: set_client_def)
next
  case (Cons h hs)
  obtain n v where h: "h = (n, v)" by fastforce
  define c' where "c' = c\<lparr>ht_headers := take 99 (ht_headers c @ [h]), ht_strings := ht_strings c + 2\<rparr>"
  have "n \<noteq> []" "v \<noteq> []" using Cons.prems(1) h by auto
  then have "client_on_header_value v (client_on_header_field n c) = (c', 0)"
    using Cons.prems(2,4)
    by (simp add: client_on_header_field_def client_on_header_value_def http_parser_strdup_def held_def Let_def)
      (intro conjI impI http_client.equality; simp add: c'_def h)
  then have one: "client_calls env [Header_field n, Header_value v] w = Inr (set_client c' w, True)"
    using Cons.prems(3) by (simp add: client_parser_settings_def)
  have "ht_value c' = None" "length (ht_headers c') \<le> 99" using Cons.prems(2) by (simp_all add: c'_def)
  from Cons.IH [OF _ this(1) _ this(2), of "set_client c' w"] Cons.prems(1) have rest:
    "client_calls env (concat (map (\<lambda>(n, v). [Header_field n, Header_value v]) hs)) (set_client c' w) =
      Inr (set_client (c'\<lparr>ht_headers := take 99 (ht_headers c' @ hs), ht_strings := ht_strings c' + 2 * length hs\<rparr>) w, True)" by simp
  have "take 99 (ht_headers c' @ hs) = take 99 (ht_headers c @ h # hs)"
    using Cons.prems(4) by (cases "length (ht_headers c) = 99") (auto simp: c'_def)
  moreover have "concat (map (\<lambda>(n, v). [Header_field n, Header_value v]) (h # hs)) =
      [Header_field n, Header_value v] @ concat (map (\<lambda>(n, v). [Header_field n, Header_value v]) hs)" by (simp add: h)
  ultimately show ?case by (simp only: client_calls_append one rest and_then_Inr prod.case if_True) (simp add: c'_def)
qed

lemma client_headers_lost:
  assumes "\<not> (\<forall>(n, v) \<in> set hs. n \<noteq> [] \<and> v \<noteq> [])" "ht_value c = None" "tp_client w = c" "length (ht_headers c) \<le> 99"
  shows "\<exists>c'. client_calls env (concat (map (\<lambda>(n, v). [Header_field n, Header_value v]) hs)) w = Inr (set_client c' w, False) \<and>
    ht_data c' = ht_data c"
proof -
  have "\<exists>h \<in> set hs. \<not> (case h of (n, v) \<Rightarrow> n \<noteq> [] \<and> v \<noteq> [])" using assms(1) by auto
  from split_list_first_propE [OF this] obtain good h rest where hs: "hs = good @ h # rest"
      "\<not> (case h of (n, v) \<Rightarrow> n \<noteq> [] \<and> v \<noteq> [])" and good: "\<forall>(n, v) \<in> set good. n \<noteq> [] \<and> v \<noteq> []"
    by (metis (no_types, lifting))
  obtain n v where h: "h = (n, v)" "n = [] \<or> v = []" using hs(2) by (cases h) auto
  define c1 where "c1 = c\<lparr>ht_headers := take 99 (ht_headers c @ good), ht_strings := ht_strings c + 2 * length good\<rparr>"
  have 1: "client_calls env (concat (map (\<lambda>(n, v). [Header_field n, Header_value v]) good)) w = Inr (set_client c1 w, True)"
    unfolding c1_def by (rule client_headers [OF good assms(2-4)])
  obtain c2 where c2: "client_on_header_value v (client_on_header_field n c1) = (c2, -1)" "ht_data c2 = ht_data c"
    using h(2) by (cases "n = []") (auto simp: client_on_header_field_def client_on_header_value_def http_parser_strdup_def c1_def Let_def)
  have 2: "client_calls env [Header_field n, Header_value v] (set_client c1 w) = Inr (set_client c2 w, False)"
    using c2(1) by (simp add: client_parser_settings_def)
  have "concat (map (\<lambda>(n, v). [Header_field n, Header_value v]) hs) =
      concat (map (\<lambda>(n, v). [Header_field n, Header_value v]) good) @ [Header_field n, Header_value v] @
      concat (map (\<lambda>(n, v). [Header_field n, Header_value v]) rest)" by (simp add: hs(1) h(1))
  then show ?thesis using c2(2) by (simp only: client_calls_append 1 2 and_then_Inr prod.case if_True if_False) blast
qed

lemma client_bodies:
  "ht_handler (tp_client w) \<Longrightarrow> ht_data (tp_client w) = told \<Longrightarrow> ht_ready_state (tp_client w) = 2 \<or> ht_ready_state (tp_client w) = 3 \<Longrightarrow>
   client_calls (recorder parse) (map Body bodies) w =
     Inr (set_client ((tp_client w)\<lparr>ht_data := told @ map (\<lambda>b. (3, 0, int (length b), Some b)) bodies,
       ht_ready_state := (if bodies = [] then ht_ready_state (tp_client w) else 3)\<rparr>) w, True)"
proof (induction bodies arbitrary: w told)
  case Nil
  then show ?case by (cases "tp_client w") (simp add: set_client_def)
next
  case (Cons b bodies)
  let ?w = "set_client ((tp_client w)\<lparr>ht_ready_state := 3, ht_data := told @ [(3, 0, int (length b), Some b)]\<rparr>) w"
  have "client_parser_settings (recorder parse) (Body b) w = Inr (?w, 0)"
    using Cons.prems by (simp add: client_parser_settings_def client_on_body_def response_handler_def Let_def)
  then show ?case using Cons.IH [of ?w "told @ [(3, 0, int (length b), Some b)]"] Cons.prems by (simp add: fun_upd_def)
qed

text \<open>A client that waits for its response.\<close>

definition awaits :: "told http_client \<Rightarrow> bool" where
  "awaits c \<longleftrightarrow> ht_handler c \<and> ht_status_text c = None \<and> ht_value c = None \<and> ht_headers c = [] \<and> ht_strings c = 0"

text \<open>
  C35.  A response whose parts come in one piece each, and whose headers have a name and a value, is collected whole: the
  reason phrase, the status code, and the first 99 headers in order; the application is told of the headers, of every
  piece of the body and of the end, in this order.  Resetting the client afterwards frees every string but the two of
  each header after the 99th.  A response with an empty header value or name, which the parser hands over as a piece of
  length zero, is lost: the parser is stopped and the application told nothing.
\<close>

theorem http_client_response_collected:
  assumes "awaits (tp_client w)"
  shows "if \<forall>(n, v) \<in> set hs. n \<noteq> [] \<and> v \<noteq> [] then \<exists>v. client_calls (recorder parse) (response_calls reason status len hs bodies) w = Inr (v, True) \<and>
    http_client_get_status_text (tp_client v) = (if reason = [] then None else Some reason) \<and> http_client_get_status_code (tp_client v) = status \<and>
    http_client_get_headers (tp_client v) = (take 99 hs, min 99 (length hs)) \<and>
    ht_data (tp_client v) = ht_data (tp_client w) @ (2, int status, to_int64 (int len), None) #
      map (\<lambda>b. (3, 0, int (length b), Some b)) bodies @ [(4, int status, to_int64 (int len), None)] \<and>
    ht_strings (http_client_reset (tp_client v)) = 2 * (length hs - 99)
   else \<exists>v. client_calls (recorder parse) (response_calls reason status len hs bodies) w = Inr (v, False) \<and>
    ht_data (tp_client v) = ht_data (tp_client w)"
proof -
  let ?e = "recorder parse" and ?c = "tp_client w"
  define c1 where "c1 = ?c\<lparr>ht_status_text := http_parser_strdup reason, ht_strings := held (http_parser_strdup reason)\<rparr>"
  have 1: "client_calls ?e [Message_begin, Status reason] w = Inr (set_client c1 w, True)"
    using assms by (simp add: client_parser_settings_def client_on_status_def held_def awaits_def c1_def)
  have c1: "ht_value c1 = None" "length (ht_headers c1) \<le> 99" "ht_data c1 = ht_data ?c" using assms by (simp_all add: c1_def awaits_def)
  show ?thesis
  proof (cases "\<forall>(n, v) \<in> set hs. n \<noteq> [] \<and> v \<noteq> []")
    case False
    from client_headers_lost [OF this c1(1) _ c1(2), of "set_client c1 w" ?e] obtain c' where
      c': "client_calls ?e (concat (map (\<lambda>(n, v). [Header_field n, Header_value v]) hs)) (set_client c1 w) = Inr (set_client c' w, False)"
      "ht_data c' = ht_data ?c" using c1(3) by auto
    have "client_calls ?e (response_calls reason status len hs bodies) w = Inr (set_client c' w, False)"
      unfolding response_calls_def by (simp only: client_calls_append 1 c'(1) and_then_Inr prod.case if_True if_False)
    then show ?thesis using False c'(2) by (simp only: if_False) auto
  next
  case ok: True
  define c2 where "c2 = c1\<lparr>ht_headers := take 99 hs, ht_strings := held (http_parser_strdup reason) + 2 * length hs\<rparr>"
  have 2: "client_calls ?e (concat (map (\<lambda>(n, v). [Header_field n, Header_value v]) hs)) (set_client c1 w) = Inr (set_client c2 w, True)"
    using client_headers [OF ok, of c1 "set_client c1 w" ?e] assms by (simp add: c1_def c2_def awaits_def)
  define c3 where "c3 = c2\<lparr>ht_value := None, ht_strings := ht_strings c2, ht_ready_state := 2, ht_status_code := status, ht_content_length := len,
    ht_data := ht_data ?c @ [(2, int status, to_int64 (int len), None)]\<rparr>"
  have 3: "client_calls ?e [Headers_complete status len] (set_client c2 w) = Inr (set_client c3 w, True)"
    using assms by (simp add: client_parser_settings_def client_on_headers_complete_def response_handler_def awaits_def held_def c1_def c2_def c3_def Let_def)
  define c4 where "c4 = c3\<lparr>ht_data := ht_data c3 @ map (\<lambda>b. (3, 0, int (length b), Some b)) bodies, ht_ready_state := (if bodies = [] then 2 else 3)\<rparr>"
  have "ht_handler c3" "ht_ready_state c3 = 2" using assms by (simp_all add: awaits_def c1_def c2_def c3_def)
  then have 4: "client_calls ?e (map Body bodies) (set_client c3 w) = Inr (set_client c4 w, True)"
    using client_bodies [of "set_client c3 w" "ht_data c3" parse bodies] by (simp add: c4_def)
  define c5 where "c5 = c4\<lparr>ht_ready_state := 4, ht_data := ht_data c4 @ [(4, int status, to_int64 (int len), None)]\<rparr>"
  have 5: "client_calls ?e [Message_complete status len] (set_client c4 w) = Inr (set_client c5 w, True)"
    using assms by (simp add: client_parser_settings_def client_on_message_complete_def response_handler_def awaits_def c1_def c2_def c3_def c4_def c5_def Let_def)
  have run: "client_calls ?e (response_calls reason status len hs bodies) w = Inr (set_client c5 w, True)"
    unfolding response_calls_def by (simp only: client_calls_append 1 2 3 4 5 and_then_Inr prod.case if_True)
  have strings: "ht_strings (http_client_reset c5) = 2 * (length hs - 99)"
    using assms by (auto simp: http_client_reset_def held_def awaits_def c1_def c2_def c3_def c4_def c5_def min_def)
  have "\<exists>v. client_calls ?e (response_calls reason status len hs bodies) w = Inr (v, True) \<and>
    http_client_get_status_text (tp_client v) = (if reason = [] then None else Some reason) \<and> http_client_get_status_code (tp_client v) = status \<and>
    http_client_get_headers (tp_client v) = (take 99 hs, min 99 (length hs)) \<and>
    ht_data (tp_client v) = ht_data (tp_client w) @ (2, int status, to_int64 (int len), None) #
      map (\<lambda>b. (3, 0, int (length b), Some b)) bodies @ [(4, int status, to_int64 (int len), None)] \<and>
    ht_strings (http_client_reset (tp_client v)) = 2 * (length hs - 99)"
    using run strings
    by (intro exI [of _ "set_client c5 w"]) (simp add: http_parser_strdup_def http_client_get_status_text_def http_client_get_status_code_def http_client_get_headers_def
        min.commute c1_def c2_def c3_def c4_def c5_def)
  then show ?thesis unfolding if_P [OF ok] .
  qed
qed

theorem http_client_response_collected_witness:
  "\<exists>v. client_calls (recorder (\<lambda>_ _. [])) (response_calls ''OK'' 200 5 [(''A'', ''b'')] [''hel'', ''lo''])
      (set_client ((tp_client (http_client_create []))\<lparr>ht_handler := True\<rparr>) (http_client_create [])) = Inr (v, True) \<and>
    http_client_get_status_text (tp_client v) = Some ''OK'' \<and> http_client_get_status_code (tp_client v) = 200 \<and>
    http_client_get_headers (tp_client v) = ([(''A'', ''b'')], 1) \<and>
    ht_data (tp_client v) = [(2, 200, 5, None), (3, 0, 3, Some ''hel''), (3, 0, 2, Some ''lo''), (4, 200, 5, None)] \<and>
    ht_strings (http_client_reset (tp_client v)) = 0"
proof -
  let ?w = "set_client ((tp_client (http_client_create []))\<lparr>ht_handler := True\<rparr>) (http_client_create []) :: told http_world"
  have a: "awaits (tp_client ?w)" and d: "ht_data (tp_client ?w) = []"
    by (simp_all add: awaits_def http_client_create_def tcp_start_def tcp_transport_init_def Let_def)
  have five: "to_int64 5 = 5" using to_int64_small [of 5] by simp
  from http_client_response_collected [OF a, of "[(''A'', ''b'')]" "\<lambda>_ _. []" "''OK''" 200 5 "[''hel'', ''lo'']"]
  show ?thesis by (simp add: d five del: set_client_simps)
qed

lemma value_ends:
  assumes "client_calls env [Header_field name, Header_value piece] w = Inr (u, ok)"
  shows "ht_value (tp_client u) = None"
  using assms
  by (auto simp: client_parser_settings_def client_on_header_field_def client_on_header_value_def Let_def
      split: prod.splits option.splits if_splits)

text \<open>
  C36.  A header value that is cut by a read ends the response.  The parser hands its first part over at the end of the
  first read and the rest at the start of the next: the rest finds no name, the parser stops, and whatever arrives later
  is passed over.  The application is told nothing from the second read on, and the transport is left as it is.
\<close>

theorem http_client_split_value_lost:
  assumes "\<not> ht_failed (tp_client w)" "data \<noteq> []" "data2 \<noteq> []" "later \<noteq> []"
    and "ce_parse env (ht_parsed (tp_client w)) data = calls @ [Header_field name, Header_value piece]"
    and "http_client_on_input env data (int (length data)) w = Inr u"
    and "ce_parse env (ht_parsed (tp_client u)) data2 = Header_value piece2 # calls2"
  shows "\<exists>v. http_client_on_input env data2 (int (length data2)) u = Inr v \<and> ht_data (tp_client v) = ht_data (tp_client u) \<and>
    ht_ready_state (tp_client v) = ht_ready_state (tp_client u) \<and> ht_failed (tp_client v) \<and>
    tp_self v = tp_self u \<and> http_client_on_input env later (int (length later)) v = Inr v"
proof -
  let ?w = "set_client ((tp_client w)\<lparr>ht_parsed := ht_parsed (tp_client w) @ data\<rparr>) w"
  obtain x ok where x: "client_calls env (calls @ [Header_field name, Header_value piece]) ?w = Inr (x, ok)"
      and u: "u = set_client ((tp_client x)\<lparr>ht_failed := \<not> ok\<rparr>) x"
    using assms(1,2,6) by (auto simp: http_client_on_input_def Let_def assms(5) and_then_eq_Inr)
  show ?thesis
  proof (cases ok)
    case False
    then show ?thesis using u assms(3,4) by (intro exI [of _ u]) (simp add: http_client_on_input_def Let_def)
  next
    case True
    obtain y where "client_calls env calls ?w = Inr (y, True)" "client_calls env [Header_field name, Header_value piece] y = Inr (x, ok)"
      using x True by (simp only: client_calls_append and_then_eq_Inr) (auto split: if_splits)
    then have none: "ht_value (tp_client u) = None" "\<not> ht_failed (tp_client u)" using value_ends u True by auto
    then show ?thesis using assms(3,4)
      by (simp add: http_client_on_input_def Let_def assms(7) client_parser_settings_def client_on_header_value_def)
  qed
qed

text \<open>The parser of the example: one header, whose value comes in two reads.\<close>

definition cut_parser :: "string \<Rightarrow> string \<Rightarrow> client_call list" where
  "cut_parser before data = (if before = [] then [Message_begin, Status ''OK'', Header_field ''A'', Header_value ''b''] else [Header_value ''c''])"

theorem http_client_split_value_lost_witness:
  "\<exists>u v. http_client_on_input (recorder cut_parser) ''..A: b'' (int (length ''..A: b'')) (http_client_create ([] :: told)) = Inr u \<and>
    \<not> ht_failed (tp_client u) \<and> http_client_on_input (recorder cut_parser) ''c..'' (int (length ''c..'')) u = Inr v \<and>
    ht_failed (tp_client v) \<and> ht_data (tp_client v) = ht_data (tp_client u)"
proof -
  let ?w = "http_client_create ([] :: told)"
  have w: "\<not> ht_failed (tp_client ?w)" "ht_parsed (tp_client ?w) = []" "ht_value (tp_client ?w) = None"
    by (simp_all add: http_client_create_def tcp_start_def tcp_transport_init_def Let_def)
  obtain u where u: "http_client_on_input (recorder cut_parser) ''..A: b'' (int (length ''..A: b'')) ?w = Inr u"
      "\<not> ht_failed (tp_client u)" "ht_parsed (tp_client u) = ''..A: b''"
    using w by (simp add: http_client_on_input_def cut_parser_def client_parser_settings_def client_on_status_def client_on_header_field_def
        client_on_header_value_def http_parser_strdup_def Let_def)
  have "ce_parse (recorder cut_parser) (ht_parsed (tp_client ?w)) ''..A: b'' =
      [Message_begin, Status ''OK''] @ [Header_field ''A'', Header_value ''b'']"
    using w(2) by (simp add: cut_parser_def)
  from http_client_split_value_lost [OF w(1) _ _ _ this u(1), of "''c..''" "''later''" "''c''" "[]"] u
  show ?thesis by (auto simp: cut_parser_def)
qed

section \<open>Files\<close>

text \<open>What stands before the data of a file, and behind.\<close>

definition file_head :: "string \<Rightarrow> string \<Rightarrow> string \<Rightarrow> string" where
  "file_head name filename type = form_boundary @ CRLF @ ''Content-Disposition: form-data; name='' @ quoted name @ ''; filename='' @
     quoted (path_basename filename) @ CRLF @ ''Content-Type: '' @ type @ CRLF @ CRLF"

definition file_tail :: string where
  "file_tail = CRLF @ form_boundary @ ''--'' @ CRLF"

text \<open>A form whose first \<open>len\<close> bytes are a text.\<close>

definition form_holds :: "form_data \<Rightarrow> string \<Rightarrow> nat \<Rightarrow> bool" where
  "form_holds fd t n \<longleftrightarrow> fd_len fd = length t \<and> fd_size fd = n \<and> length (fd_data fd) = n \<and> take (length t) (fd_data fd) = t \<and> n < 2 ^ 33"

lemma form_limit_room: "form_holds fd t n \<Longrightarrow> length t \<le> n \<Longrightarrow> form_limit fd = n - length t"
  by (simp add: form_holds_def form_limit_def flip: of_nat_diff) (simp add: mod_less_eq_dividend flip: zmod_int)

lemma form_store_holds:
  assumes "form_holds fd t n" "length t + length s \<le> n"
  shows "\<exists>fd'. form_store s fd = Inr fd' \<and> fd_len fd' = fd_len fd \<and> form_holds (fd'\<lparr>fd_len := fd_len fd + length s\<rparr>) (t @ s) n"
  using assms by (simp add: form_store_def form_holds_def)

lemma form_store_keeps:
  "fd_len fd + length s \<le> length (fd_data fd) \<Longrightarrow>
   \<exists>fd'. form_store s fd = Inr fd' \<and> fd_len fd' = fd_len fd \<and> length (fd_data fd') = length (fd_data fd)"
  by (simp add: form_store_def)

lemma form_print_holds:
  assumes "form_holds fd t n" "length t + length s < n"
  shows "\<exists>fd'. form_print s fd = Inr fd' \<and> form_holds fd' (t @ s) n"
proof -
  have room: "form_limit fd = n - length t" using form_limit_room [OF assms(1)] assms(2) by simp
  then have "take (form_limit fd - 1) s = s" "form_limit fd \<noteq> 0" using assms(2) by simp_all
  then show ?thesis using assms by (simp add: form_print_def form_store_def form_holds_def)
qed

lemma add_file_holds:
  assumes "length data < 2 ^ 32 - 255" "length (file_head name filename type) < 253"
  shows "\<exists>fd. form_data_add_file name (path_basename filename) type (Some data) (form_data_init fill ((255 + length data) mod 2 ^ 32)) = Inr fd \<and>
    form_holds fd (file_head name filename type @ data @ CRLF) (255 + length data)"
proof -
  let ?n = "255 + length data" and ?h = "file_head name filename type"
  have n: "?n mod 2 ^ 32 = ?n" using assms(1) by simp
  have "form_holds (form_data_init fill ?n) [] ?n" using assms(1) by (simp add: form_holds_def form_data_init_def)
  from form_print_holds [OF this, of ?h] assms(2) obtain fd1 where
    1: "form_print ?h (form_data_init fill ?n) = Inr fd1" "form_holds fd1 ?h ?n" by auto
  have limit: "length data + 2 < form_limit fd1" using form_limit_room [OF 1(2)] assms(2) by simp
  obtain fd2 where 2: "form_store data fd1 = Inr fd2" "fd_len fd2 = fd_len fd1" "form_holds (fd2\<lparr>fd_len := fd_len fd1 + length data\<rparr>) (?h @ data) ?n"
    using form_store_holds [OF 1(2), of data] assms(2) by auto
  obtain fd3 where 3: "form_store CRLF (fd2\<lparr>fd_len := fd_len fd1 + length data\<rparr>) = Inr fd3" "fd_len fd3 = fd_len fd1 + length data"
    "form_holds (fd3\<lparr>fd_len := fd_len fd1 + length data + length CRLF\<rparr>) ((?h @ data) @ CRLF) ?n"
    using form_store_holds [OF 2(3), of CRLF] assms(2) by (auto simp: CRLF_def)
  have "form_data_add_file name (path_basename filename) type (Some data) (form_data_init fill ?n) = Inr (fd3\<lparr>fd_len := fd_len fd3 + 2\<rparr>)"
    using 1(1) 2(1,2) 3(1) limit by (simp add: form_data_add_file_def file_head_def)
  then show ?thesis using 3(2,3) n by (simp add: CRLF_def)
qed

lemma set_file_run:
  assumes "request_ready q" "ht_request c = Some q" "form_data_add_file name (path_basename filename) type (Some data)
      (form_data_init fill ((255 + length data) mod 2 ^ 32)) = Inr fd" "form_data_end fd = Inr fd'"
  obtains q' where "http_client_set_file env fill (Some name) (Some filename) data (Some type) c =
    Inr (c\<lparr>ht_request := Some q', ht_body := Some (fd_data fd', fd_len fd')\<rparr>, 0)" "request_ready q'"
proof -
  obtain q' r where "http_request_set_content_type (ce_alloc env) q ''multipart/form-data; boundary=form-data-kjsdfb934klg342042348'' = Inr (q', r)"
    "request_ready q'"
    using set_header_ready [OF assms(1), of "ce_alloc env" "''Content-Type''" "''multipart/form-data; boundary=form-data-kjsdfb934klg342042348''"]
    unfolding http_request_set_content_type_def by blast
  then show thesis using that assms(2-4) by (simp add: http_client_set_file_def)
qed

lemma tail_length: "length (form_boundary @ ''--'' @ CRLF) = 37"
  by (simp add: form_boundary_def CRLF_def)

text \<open>
  A file whose name, field name and type leave the part's header at most 215 bytes becomes the body of the request
  whole: the header, the data, and the closing boundary; the request is then ready to be sent.
\<close>

lemma http_client_file_body:
  assumes "request_ready q" "ht_request c = Some q" "length data < 2 ^ 32 - 255" "length (file_head name filename type) \<le> 215"
  shows "\<exists>c' block n. http_client_set_file env fill (Some name) (Some filename) data (Some type) c = Inr (c', 0) \<and>
    ht_body c' = Some (block, n) \<and> take n block = file_head name filename type @ data @ file_tail \<and> client_ready c'"
proof -
  let ?t = "file_head name filename type @ data @ CRLF" and ?n = "255 + length data"
  obtain fd where fd: "form_data_add_file name (path_basename filename) type (Some data) (form_data_init fill (?n mod 2 ^ 32)) = Inr fd"
    "form_holds fd ?t ?n" using add_file_holds [OF assms(3), of name filename type fill] assms(4) by auto
  have "length ?t + length (form_boundary @ ''--'' @ CRLF) < ?n" using assms(4) by (simp only: tail_length) (simp add: CRLF_def)
  from form_print_holds [OF fd(2) this] obtain fd' where fd': "form_data_end fd = Inr fd'"
    "form_holds fd' (?t @ form_boundary @ ''--'' @ CRLF) ?n" by (auto simp: form_data_end_def)
  obtain q' where q': "http_client_set_file env fill (Some name) (Some filename) data (Some type) c =
      Inr (c\<lparr>ht_request := Some q', ht_body := Some (fd_data fd', fd_len fd')\<rparr>, 0)" "request_ready q'"
    using set_file_run [OF assms(1,2) fd(1) fd'(1)] .
  have len: "fd_len fd' = length (?t @ form_boundary @ ''--'' @ CRLF)" "length (fd_data fd') = ?n"
    "take (fd_len fd') (fd_data fd') = ?t @ form_boundary @ ''--'' @ CRLF" using fd'(2) by (simp_all add: form_holds_def)
  have "fd_len fd' \<le> length (fd_data fd')" using len(3) len(1) by (metis length_take min.cobounded1)
  then show ?thesis using q' len(3) by (simp add: client_ready_def file_tail_def)
qed

text \<open>
  When that header has from 217 to 252 bytes, a file name of about eighty bytes being enough, the closing
  boundary does not fit its block; the length is counted as if it did, and sending the body reads past the block.
\<close>

lemma http_client_file_overread:
  assumes "request_ready q" "ht_request c = Some q" "length data < 2 ^ 32 - 255" "217 \<le> length (file_head name filename type)"
    "length (file_head name filename type) \<le> 252" "fine w" "tt_loop (tp_self w)"
  shows "\<exists>c' block n. http_client_set_file env fill (Some name) (Some filename) data (Some type) c = Inr (c', 0) \<and>
    ht_body c' = Some (block, n) \<and> length block < n \<and> http_client_on_connected env (set_client c' w) = Inl Out_of_bounds"
proof -
  let ?t = "file_head name filename type @ data @ CRLF" and ?n = "255 + length data" and ?s = "form_boundary @ ''--'' @ CRLF"
  obtain fd where fd: "form_data_add_file name (path_basename filename) type (Some data) (form_data_init fill (?n mod 2 ^ 32)) = Inr fd"
    "form_holds fd ?t ?n" using add_file_holds [OF assms(3), of name filename type fill] assms(5) by auto
  have t: "length ?t < ?n" "?n < length ?t + 37" using assms(4,5) by (simp_all add: CRLF_def)
  have room: "form_limit fd = ?n - length ?t" using form_limit_room [OF fd(2)] t(1) by simp
  obtain fd' where fd': "form_data_end fd = Inr fd'" "fd_len fd' = length ?t + 37" "length (fd_data fd') = ?n"
  proof -
    have 1: "length (take (form_limit fd - 1) ?s @ [NUL]) = form_limit fd" using room t tail_length by simp
    have len: "fd_len fd = length ?t" "length (fd_data fd) = ?n" using fd(2) by (simp_all add: form_holds_def)
    have "length ?t + form_limit fd \<le> ?n" "form_limit fd \<noteq> 0" using room t(1) by simp_all
    then obtain fd1 where "form_store (take (form_limit fd - 1) ?s @ [NUL]) fd = Inr fd1" "fd_len fd1 = length ?t" "length (fd_data fd1) = ?n"
      using form_store_keeps [of fd "take (form_limit fd - 1) ?s @ [NUL]"] len unfolding 1 by auto
    moreover have "length ?s = 37" by (rule tail_length)
    ultimately show thesis using that \<open>form_limit fd \<noteq> 0\<close> by (simp add: form_data_end_def form_print_def)
  qed
  obtain q' where q': "http_client_set_file env fill (Some name) (Some filename) data (Some type) c =
      Inr (c\<lparr>ht_request := Some q', ht_body := Some (fd_data fd', fd_len fd')\<rparr>, 0)" "request_ready q'"
    using set_file_run [OF assms(1,2) fd(1) fd'(1)] .
  let ?c = "c\<lparr>ht_request := Some q', ht_body := Some (fd_data fd', fd_len fd')\<rparr>"
  have over: "length (fd_data fd') < fd_len fd'" using fd'(2,3) t(2) by simp
  obtain q2 r where q2: "http_request_set_content_lenth (ce_alloc env) q' (fd_len fd') = Inr (q2, r)" "request_ready q2"
    using content_length_ready [OF q'(2)] by blast
  define w1 where "w1 = set_client (?c\<lparr>ht_parsed := [], ht_failed := False, ht_request := Some q2\<rparr>) w"
  have "tcp_ok w1" using client_okD [OF assms(6)] by (simp add: w1_def tcp_ok_def sockets_ok_def set_client_def)
  from tcp_write_ok [OF this, of "ce_uv env" "take (hr_len q2) (hr_text q2)"]
  obtain w2 where "http_client_write env (take (hr_len q2) (hr_text q2)) w1 = Inr w2"
    by (auto simp: http_client_write_def)
  then have "http_client_on_connected env (set_client ?c w) = Inl Out_of_bounds"
    using q2(1) ready_text [OF q2(2)] over
    by (simp add: http_client_on_connected_def http_request_get_def w1_def)
  then show ?thesis using q'(1) over by (intro exI [of _ ?c]) simp
qed

text \<open>A client with a request to post to.\<close>

definition poster :: "http_request \<Rightarrow> told http_client" where
  "poster q = (tp_client (http_client_create []))\<lparr>ht_request := Some q\<rparr>"

definition short_request :: http_request where
  "short_request = \<lparr>hr_version = 1, hr_len = 4, hr_capacity = 1000, hr_text = ''AB'' @ CRLF\<rparr>"

lemma poster_ready: "request_ready short_request" "ht_request (poster short_request) = Some short_request"
  by (auto simp: request_ready_def builder_ok_def short_request_def poster_def CRLF_def intro!: exI [of _ "''AB''"])

lemma http_client_file_body_witness:
  "\<exists>c' block n. http_client_set_file (recorder (\<lambda>_ _. [])) (\<lambda>_. NUL) (Some ''f'') (Some ''dir/a.txt'') ''data'' (Some ''text/plain'')
      (poster short_request) = Inr (c', 0) \<and> ht_body c' = Some (block, n) \<and>
    take n block = ''--form-data-kjsdfb934klg342042348'' @ CRLF @ ''Content-Disposition: form-data; name='' @ quoted ''f'' @ ''; filename='' @
      quoted ''a.txt'' @ CRLF @ ''Content-Type: text/plain'' @ CRLF @ CRLF @ ''data'' @ CRLF @ ''--form-data-kjsdfb934klg342042348--'' @ CRLF \<and>
    client_ready c'"
proof -
  have "path_basename ''dir/a.txt'' = ''a.txt''" by (simp add: path_basename_def)
  then have h: "file_head ''f'' ''dir/a.txt'' ''text/plain'' = ''--form-data-kjsdfb934klg342042348'' @ CRLF @ ''Content-Disposition: form-data; name='' @ quoted ''f'' @
      ''; filename='' @ quoted ''a.txt'' @ CRLF @ ''Content-Type: text/plain'' @ CRLF @ CRLF"
    by (simp add: file_head_def form_boundary_def)
  then have "length (file_head ''f'' ''dir/a.txt'' ''text/plain'') \<le> 215" by (simp add: quoted_def CRLF_def)
  from http_client_file_body [OF poster_ready _ this, of "''data''" "recorder (\<lambda>_ _. [])" "\<lambda>_. NUL"]
  show ?thesis unfolding h by (simp add: file_tail_def form_boundary_def)
qed

lemma http_client_file_overread_witness:
  "\<exists>c' block n. http_client_set_file (recorder (\<lambda>_ _. [])) (\<lambda>_. NUL) (Some ''f'') (Some (replicate 120 (CHR ''x''))) ''data'' (Some ''text/plain'')
      (poster short_request) = Inr (c', 0) \<and> ht_body c' = Some (block, n) \<and> length block < n \<and>
    http_client_on_connected (recorder (\<lambda>_ _. [])) (set_client c' (set_client (poster short_request) (http_client_create []))) = Inl Out_of_bounds"
proof -
  have "path_basename (replicate 120 (CHR ''x'')) = replicate 120 (CHR ''x'')" by (simp add: path_basename_def)
  then have h: "length (file_head ''f'' (replicate 120 (CHR ''x'')) ''text/plain'') = 238"
    by (simp add: file_head_def form_boundary_def quoted_def CRLF_def)
  have "fine (set_client (poster short_request) (http_client_create []))" "tt_loop (tp_self (http_client_create ([] :: told)))"
    using poster_ready
    by (simp_all add: client_ok_def client_ready_def tcp_ok_def sockets_ok_def poster_def http_client_create_def tcp_start_def
        tcp_transport_init_def set_client_def Let_def)
  then show ?thesis
    by (intro http_client_file_overread [OF poster_ready]) (simp_all add: h)
qed

end
