(* ===== verification/JsonRpc.thy ===== *)
theory JsonRpc
  imports HttpAuth
begin

text \<open>
  JSON-RPC over TCP, \<^verbatim>\<open>modules/networking/libjsonrpc/source/jsonrpc\<close>: the messages and their frames, which
  \<^verbatim>\<open>client.c\<close> and \<^verbatim>\<open>server.c\<close> share, the client, and what the server does with the input of one session.
  The JSON library is the vendored cJSON: its items are a datatype here, its parser and printer are an environment.
\<close>

section \<open>JSON items\<close>

datatype json =
    Json_null
  | Json_bool bool
  | Json_number int
  | Json_string string
  | Json_array "json list"
  | Json_object "(string \<times> json) list"

text \<open>\<^verbatim>\<open>cJSON_GetObjectItem\<close>, which ignores case, and the members \<^verbatim>\<open>valueint\<close> and \<^verbatim>\<open>valuestring\<close>.\<close>

fun get_item :: "json \<Rightarrow> string \<Rightarrow> json option" where
  "get_item (Json_object ms) k = map_option snd (List.find (\<lambda>(n, _). strcaseeq n k) ms)"
| "get_item _ k = None"

fun value_int :: "json \<Rightarrow> int" where
  "value_int (Json_number i) = i"
| "value_int (Json_bool b) = (if b then 1 else 0)"
| "value_int _ = 0"

fun value_string :: "json \<Rightarrow> string option" where
  "value_string (Json_string s) = Some s"
| "value_string _ = None"

fun is_object :: "json \<Rightarrow> bool" where
  "is_object (Json_object _) = True"
| "is_object _ = False"

text \<open>
  \<open>je_parse\<close> is \<^verbatim>\<open>cJSON_Parse\<close> of a C string and \<open>je_print\<close> is \<^verbatim>\<open>cJSON_PrintUnformatted\<close>;
  \<open>je_write\<close> is what \<^verbatim>\<open>uv_write\<close> answers.
\<close>

record jsonrpc_env =
  je_parse :: "string \<Rightarrow> json option"
  je_print :: "json \<Rightarrow> string option"
  je_write :: "string \<Rightarrow> int"

section \<open>Frames\<close>

definition hex_upper :: "nat \<Rightarrow> char" where
  "hex_upper d = ''0123456789ABCDEF'' ! d"

text \<open>\<^verbatim>\<open>%X\<close>.\<close>

fun show_hex :: "nat \<Rightarrow> string" where
  "show_hex n = (if n < 16 then [hex_upper n] else show_hex (n div 16) @ [hex_upper (n mod 16)])"

declare show_hex.simps [simp del]

text \<open>
  The frame is printed into a block 32 bytes larger than the message: the size as a 32-bit number, an end of line, the
  message, an end of line, a terminator.
\<close>

definition frame_message :: "string \<Rightarrow> string exec" where
  "frame_message message =
     (let text0 = show_hex (length message mod 2 ^ 32) @ CRLF @ message @ CRLF in
      and_then (in_bounds (length text0 + 1 \<le> length message + 32)) (\<lambda>_. Inr text0))"

text \<open>
  \<^verbatim>\<open>strtol\<close> in base 16 on the bytes from the pointer to the end of the block: the value, and the bytes from the
  character where it stopped.  It must stop before the end of the block.
\<close>

definition strtol16 :: "string \<Rightarrow> (int \<times> string) exec" where
  "strtol16 m =
     (let (neg, t) = read_sign (skip_space m);
          prefix = (length t > 2 \<and> take 2 (map to_lower t) = ''0x'' \<and> hex_digit_val (t ! 2) \<noteq> None);
          t = (if prefix then drop 2 t else t);
          ds = takeWhile (\<lambda>c. hex_digit_val c \<noteq> None) t; rest = drop (length ds) t;
          v = (if neg then - int (hex_text_val ds) else int (hex_text_val ds))
      in and_then (in_bounds (rest \<noteq> [])) (\<lambda>_.
         if ds = [] then Inr (0, m) else Inr (max (- (2 ^ 63)) (min (2 ^ 63 - 1) v), rest)))"

text \<open>
  The loop over the messages of one read, in a block of memory: \<open>p\<close> is the offset of the next message, \<open>leftover\<close> and
  the lengths are \<^verbatim>\<open>size_t\<close>.  The comparison is the one of the code: the loop stops when there are more bytes than
  the message needs.  \<open>process\<close> is called with the C string at the message and its length.  Since lengths wrap, the
  pointer may also move back: the loop is given fuel, and \<open>None\<close> is its end.
\<close>

primrec frames_loop ::
    "nat \<Rightarrow> (string \<Rightarrow> int \<Rightarrow> 's \<Rightarrow> 's exec) \<Rightarrow> string \<Rightarrow> int \<Rightarrow> int \<Rightarrow> 's \<Rightarrow> 's exec option" where
  "frames_loop 0 process block p leftover s = None"
| "frames_loop (Suc fuel) process block p leftover s =
     (if leftover \<le> 0 then Some (Inr s)
      else if \<not> (0 \<le> p \<and> p < int (length block)) then Some (Inl Out_of_bounds)
      else
        case strtol16 (drop (nat p) block) of
          Inl e \<Rightarrow> Some (Inl e)
        | Inr (len, rest) \<Rightarrow>
            if hd rest \<noteq> CR then Some (Inr s)
            else
              let next0 = int (length block) - int (length rest) + 2;
                  length0 = len mod 2 ^ 64;
                  need = (next0 - p + length0 + 2) mod 2 ^ 64
              in if need < leftover then Some (Inr s)
                 else if \<not> (0 \<le> next0 + len \<and> next0 + len < int (length block)) then Some (Inl Out_of_bounds)
                 else
                   let block = block[nat (next0 + len) := NUL] in
                   if next0 > int (length block) then Some (Inl Out_of_bounds)
                   else
                     case process (takeWhile (\<lambda>c. c \<noteq> NUL) (drop (nat next0) block)) len s of
                       Inl e \<Rightarrow> Some (Inl e)
                     | Inr s \<Rightarrow> frames_loop fuel process block (p + (if need < 2 ^ 63 then need else need - 2 ^ 64)) ((leftover - need) mod 2 ^ 64) s)"

text \<open>What both read callbacks do with \<open>data\<close> in its block: terminate it and run the loop.\<close>

definition read_frames :: "nat \<Rightarrow> (string \<Rightarrow> int \<Rightarrow> 's \<Rightarrow> 's exec) \<Rightarrow> string \<Rightarrow> string \<Rightarrow> 's \<Rightarrow> 's exec option" where
  "read_frames fuel process data junk s =
     (if junk = [] then Some (Inl Out_of_bounds)
      else frames_loop fuel process (data @ NUL # tl junk) 0 (int (length data)) s)"

section \<open>The client\<close>

abbreviation (input) JSONRPC_EVENT_CONNECT :: int where "JSONRPC_EVENT_CONNECT \<equiv> 1"
abbreviation (input) JSONRPC_EVENT_RESPONSE :: int where "JSONRPC_EVENT_RESPONSE \<equiv> 2"
abbreviation (input) JSONRPC_EVENT_CLOSE :: int where "JSONRPC_EVENT_CLOSE \<equiv> 3"

text \<open>\<open>jc_sent\<close> are the requests that \<^verbatim>\<open>uv_write\<close> took, \<open>jc_told\<close> the calls of the handler.\<close>

record jsonrpc_client =
  jc_name :: string
  jc_port :: nat
  jc_connected :: bool
  jc_next_id :: nat
  jc_loop :: bool
  jc_socket :: bool
  jc_handler :: bool
  jc_sent :: "string list"
  jc_told :: "(int \<times> int \<times> json option \<times> json option) list"

definition jsonrpc_client_init :: "int \<Rightarrow> string option \<Rightarrow> jsonrpc_client" where
  "jsonrpc_client_init port name =
     \<lparr>jc_name = take 255 (case name of None \<Rightarrow> ''127.0.0.1'' | Some n \<Rightarrow> n), jc_port = (if port < 0 then 8800 else nat port),
      jc_connected = False, jc_next_id = 0, jc_loop = True, jc_socket = False, jc_handler = False, jc_sent = [], jc_told = []\<rparr>"

definition tell :: "int \<Rightarrow> int \<Rightarrow> json option \<Rightarrow> json option \<Rightarrow> jsonrpc_client \<Rightarrow> jsonrpc_client" where
  "tell event i result err c = (if jc_handler c then c\<lparr>jc_told := jc_told c @ [(event, i, result, err)]\<rparr> else c)"

definition jsonrpc_client_close :: "jsonrpc_client \<Rightarrow> jsonrpc_client" where
  "jsonrpc_client_close c = c\<lparr>jc_connected := False, jc_loop := False, jc_handler := False, jc_socket := False\<rparr>"

text \<open>\<open>ret\<close> is the answer of \<^verbatim>\<open>uv_tcp_connect\<close>.  A client that was closed has no loop any more.\<close>

definition jsonrpc_client_start :: "int \<Rightarrow> bool \<Rightarrow> jsonrpc_client \<Rightarrow> (jsonrpc_client \<times> int) exec" where
  "jsonrpc_client_start ret handler c =
     (if jc_socket c then Inr (c, -2)
      else
        and_then (in_bounds (jc_loop c)) (\<lambda>_.
        let c = c\<lparr>jc_handler := handler, jc_socket := True\<rparr>
        in if ret < 0 then Inr (jsonrpc_client_close c, ret) else Inr (c, 0)))"

definition jsonrpc_client_on_connect :: "int \<Rightarrow> jsonrpc_client \<Rightarrow> jsonrpc_client" where
  "jsonrpc_client_on_connect status c =
     (if \<not> jc_socket c then c
      else tell JSONRPC_EVENT_CONNECT status None None (c\<lparr>jc_connected := (status \<ge> 0)\<rparr>))"

definition jsonrpc_client_process_message :: "jsonrpc_env \<Rightarrow> string \<Rightarrow> int \<Rightarrow> jsonrpc_client \<Rightarrow> (jsonrpc_client \<times> int) exec" where
  "jsonrpc_client_process_message env message nread c =
     (if nread \<le> 0 then Inr (c, -2)
      else case je_parse env message of None \<Rightarrow> Inr (c, -3)
      | Some response \<Rightarrow>
          if \<not> is_object response then Inr (c, -4)
          else
            let i = (case get_item response ''id'' of None \<Rightarrow> -1 | Some v \<Rightarrow> value_int v)
            in Inr (tell JSONRPC_EVENT_RESPONSE i (get_item response ''result'') (get_item response ''error'') c, 0))"

definition jsonrpc_client_process_data :: "nat \<Rightarrow> jsonrpc_env \<Rightarrow> string \<Rightarrow> string \<Rightarrow> jsonrpc_client \<Rightarrow> jsonrpc_client exec option" where
  "jsonrpc_client_process_data fuel env data junk c =
     read_frames fuel (\<lambda>m n c. and_then (jsonrpc_client_process_message env m n c) (\<lambda>(c, ret). Inr c)) data junk c"

definition jsonrpc_client_on_read :: "nat \<Rightarrow> jsonrpc_env \<Rightarrow> string \<Rightarrow> string \<Rightarrow> int \<Rightarrow> jsonrpc_client \<Rightarrow> jsonrpc_client exec option" where
  "jsonrpc_client_on_read fuel env data junk nread c =
     (if \<not> jc_socket c then Some (Inr c)
      else if nread < 0 then Some (Inr (jsonrpc_client_close (tell JSONRPC_EVENT_CLOSE nread None None c)))
      else if nread > 0 then jsonrpc_client_process_data fuel env data junk c
      else Some (Inr c))"

text \<open>The socket is not tested.\<close>

definition jsonrpc_client_send_message :: "jsonrpc_env \<Rightarrow> string \<Rightarrow> jsonrpc_client \<Rightarrow> (jsonrpc_client \<times> int) exec" where
  "jsonrpc_client_send_message env message c =
     (if message = [] then Inr (c, -2)
      else
        and_then (frame_message message) (\<lambda>frame.
        and_then (in_bounds (jc_socket c)) (\<lambda>_.
        Inr (if je_write env frame \<noteq> 0 then c else c\<lparr>jc_sent := jc_sent c @ [frame]\<rparr>, 0))))"

definition request_object :: "string \<Rightarrow> int \<Rightarrow> json option \<Rightarrow> json" where
  "request_object meth i params =
     Json_object ([(''jsonrpc'', Json_string ''2.0''), (''method'', Json_string meth), (''id'', Json_number i)] @
       (case params of None \<Rightarrow> [] | Some p \<Rightarrow> [(''params'', p)]))"

definition jsonrpc_client_send :: "jsonrpc_env \<Rightarrow> string option \<Rightarrow> json option \<Rightarrow> jsonrpc_client \<Rightarrow> (jsonrpc_client \<times> int) exec" where
  "jsonrpc_client_send env meth params c =
     (case meth of None \<Rightarrow> Inr (c, -2)
      | Some m \<Rightarrow>
          if m = [] then Inr (c, -2)
          else
            let n = (jc_next_id c + 1) mod 2 ^ 32; i = to_int32 (int n); c = c\<lparr>jc_next_id := n\<rparr>
            in case je_print env (request_object m i params) of
                 None \<Rightarrow> Inr (c, i)
               | Some message \<Rightarrow> and_then (jsonrpc_client_send_message env message c) (\<lambda>(c, ret). Inr (c, i)))"

section \<open>A session of the server\<close>

text \<open>\<open>handler\<close> is the application's function; \<open>out\<close> are the frames that were written to the stream.\<close>

type_synonym jsonrpc_handler = "string option \<Rightarrow> json option \<Rightarrow> json option"

definition jsonrpc_connection_send_message :: "jsonrpc_env \<Rightarrow> string \<Rightarrow> string list \<Rightarrow> (string list \<times> int) exec" where
  "jsonrpc_connection_send_message env message out =
     (if message = [] then Inr (out, -1)
      else
        and_then (frame_message message) (\<lambda>frame.
        Inr (if je_write env frame \<noteq> 0 then out else out @ [frame], 0)))"

definition notify_object :: "string \<Rightarrow> json option \<Rightarrow> json" where
  "notify_object meth params =
     Json_object ([(''jsonrpc'', Json_string ''2.0''), (''method'', Json_string meth)] @
       (case params of None \<Rightarrow> [] | Some p \<Rightarrow> [(''params'', p)]))"

definition jsonrpc_connection_notify :: "jsonrpc_env \<Rightarrow> string \<Rightarrow> json option \<Rightarrow> string list \<Rightarrow> string list exec" where
  "jsonrpc_connection_notify env meth params out =
     (case je_print env (notify_object meth params) of None \<Rightarrow> Inr out
      | Some message \<Rightarrow> and_then (jsonrpc_connection_send_message env message out) (\<lambda>(out, ret). Inr out))"

definition response_object :: "int \<Rightarrow> json option \<Rightarrow> json" where
  "response_object i result =
     Json_object ([(''id'', Json_number i), (''jsonrpc'', Json_string ''2.0'')] @ (case result of None \<Rightarrow> [] | Some r \<Rightarrow> [(''result'', r)]))"

definition request_id :: "json \<Rightarrow> int" where
  "request_id req = (case get_item req ''id'' of None \<Rightarrow> -1 | Some v \<Rightarrow> value_int v)"

definition jsonrpc_connection_reply :: "jsonrpc_env \<Rightarrow> json \<Rightarrow> json option \<Rightarrow> string list \<Rightarrow> string list exec" where
  "jsonrpc_connection_reply env req result out =
     (case je_print env (response_object (request_id req) result) of None \<Rightarrow> Inr out
      | Some message \<Rightarrow> and_then (jsonrpc_connection_send_message env message out) (\<lambda>(out, ret). Inr out))"

definition jsonrpc_server_on_invoke :: "jsonrpc_handler option \<Rightarrow> jsonrpc_handler" where
  "jsonrpc_server_on_invoke handler meth params = (case handler of None \<Rightarrow> None | Some f \<Rightarrow> f meth params)"

text \<open>Every request is answered, with an identifier or without.\<close>

definition jsonrpc_connection_process_request ::
    "jsonrpc_env \<Rightarrow> jsonrpc_handler option \<Rightarrow> json option \<Rightarrow> string list \<Rightarrow> (string list \<times> int) exec" where
  "jsonrpc_connection_process_request env handler req out =
     (case req of None \<Rightarrow> Inr (out, -1)
      | Some r \<Rightarrow>
          if \<not> is_object r then Inr (out, -1)
          else
            let meth = (case get_item r ''method'' of None \<Rightarrow> None | Some v \<Rightarrow> value_string v);
                result = jsonrpc_server_on_invoke handler meth (get_item r ''params'')
            in and_then (jsonrpc_connection_reply env r result out) (\<lambda>out. Inr (out, 0)))"

definition jsonrpc_connection_process_message ::
    "jsonrpc_env \<Rightarrow> jsonrpc_handler option \<Rightarrow> string \<Rightarrow> int \<Rightarrow> string list \<Rightarrow> (string list \<times> int) exec" where
  "jsonrpc_connection_process_message env handler message nread out =
     (if nread \<le> 0 then Inr (out, -1) else jsonrpc_connection_process_request env handler (je_parse env message) out)"

definition jsonrpc_connection_process_buffer ::
    "nat \<Rightarrow> jsonrpc_env \<Rightarrow> jsonrpc_handler option \<Rightarrow> string \<Rightarrow> string \<Rightarrow> string list \<Rightarrow> string list exec option" where
  "jsonrpc_connection_process_buffer fuel env handler data junk out =
     read_frames fuel (\<lambda>m n out. and_then (jsonrpc_connection_process_message env handler m n out) (\<lambda>(out, ret). Inr out)) data junk out"

end
