(* ===== verification/JsonRpcServer.thy ===== *)
theory JsonRpcServer
  imports JsonRpc Slots
begin

text \<open>
  The server of \<^verbatim>\<open>modules/networking/libjsonrpc/source/jsonrpc/server.c\<close>: its sessions and the table of ten that it
  knows them by.  A session is a block of the heap, known by its address; its stream, which refers to it, goes when it
  goes, so the address also stands for the stream.
\<close>

section \<open>State\<close>

text \<open>\<open>ss_out\<close> are the frames written to the stream of the session.\<close>

record jsonrpc_session =
  ss_id :: nat
  ss_out :: "string list"

record jsonrpc_server =
  sv_name :: string
  sv_port :: nat
  sv_next_session_id :: nat
  sv_server_socket :: bool
  sv_sessions :: "nat option list"
  sv_request_handler :: "jsonrpc_handler option"
  sv_heap :: "nat \<Rightarrow> jsonrpc_session option"
  sv_fresh :: nat

definition jsonrpc_server_init :: "string option \<Rightarrow> int \<Rightarrow> jsonrpc_server" where
  "jsonrpc_server_init name port =
     (let p = (if port < 0 then 8800 else nat port mod 2 ^ 32) in
      \<lparr>sv_name = (if name = None then [] else take 254 (''tcp:127.0.0.1:'' @ show_int (to_int32 (int p)))), sv_port = p,
       sv_next_session_id = 1, sv_server_socket = False, sv_sessions = replicate 10 None, sv_request_handler = None,
       sv_heap = (\<lambda>_. None), sv_fresh = 0\<rparr>)"

text \<open>\<open>bound\<close> and \<open>listening\<close> are what \<^verbatim>\<open>uv_tcp_bind\<close> and \<^verbatim>\<open>uv_listen\<close> answer; the table is emptied first, and a
  listening socket that the server already has is not closed.\<close>

definition jsonrpc_server_start :: "int \<Rightarrow> int \<Rightarrow> jsonrpc_handler option \<Rightarrow> jsonrpc_server \<Rightarrow> jsonrpc_server \<times> int" where
  "jsonrpc_server_start bound listening handler s =
     (let s = s\<lparr>sv_sessions := replicate 10 None, sv_request_handler := handler, sv_server_socket := True\<rparr>
      in (s, if bound \<noteq> 0 then -1 else if listening \<noteq> 0 then -2 else 0))"

section \<open>Sessions\<close>

definition jsonrpc_server_remove_session :: "jsonrpc_server \<Rightarrow> nat \<Rightarrow> jsonrpc_server" where
  "jsonrpc_server_remove_session s a = s\<lparr>sv_sessions := map (\<lambda>x. if x = Some a then None else x) (sv_sessions s)\<rparr>"

text \<open>When every slot is taken the session is not put anywhere.\<close>

definition jsonrpc_server_add_session :: "jsonrpc_server \<Rightarrow> nat \<Rightarrow> jsonrpc_server" where
  "jsonrpc_server_add_session s a = (case put_slot (sv_sessions s) a of None \<Rightarrow> s | Some slots \<Rightarrow> s\<lparr>sv_sessions := slots\<rparr>)"

definition session_at :: "jsonrpc_server \<Rightarrow> nat \<Rightarrow> jsonrpc_session exec" where
  "session_at s a = (case sv_heap s a of None \<Rightarrow> Inl Out_of_bounds | Some c \<Rightarrow> Inr c)"

definition jsonrpc_connection_close :: "jsonrpc_server \<Rightarrow> nat \<Rightarrow> jsonrpc_server exec" where
  "jsonrpc_connection_close s a =
     and_then (session_at s a) (\<lambda>c.
     let s = jsonrpc_server_remove_session s a in Inr (s\<lparr>sv_heap := (sv_heap s)(a := None)\<rparr>))"

definition jsonrpc_server_on_connection :: "int \<Rightarrow> bool \<Rightarrow> jsonrpc_server \<Rightarrow> jsonrpc_server" where
  "jsonrpc_server_on_connection status accepted s =
     (if status = -1 \<or> \<not> accepted then s
      else
        let a = sv_fresh s;
            s = s\<lparr>sv_heap := (sv_heap s)(a \<mapsto> \<lparr>ss_id = sv_next_session_id s, ss_out = []\<rparr>), sv_fresh := a + 1,
                  sv_next_session_id := (sv_next_session_id s + 1) mod 2 ^ 32\<rparr>
        in jsonrpc_server_add_session s a)"

text \<open>The input of the stream \<open>a\<close>; a stream whose session is gone refers to none.\<close>

definition jsonrpc_connection_on_read ::
    "nat \<Rightarrow> jsonrpc_env \<Rightarrow> nat \<Rightarrow> string \<Rightarrow> string \<Rightarrow> int \<Rightarrow> jsonrpc_server \<Rightarrow> jsonrpc_server exec option" where
  "jsonrpc_connection_on_read fuel env a data junk nread s =
     (if nread > 0 then
        case sv_heap s a of
          None \<Rightarrow> map_option (\<lambda>r. and_then r (\<lambda>_. Inr s)) (read_frames fuel (\<lambda>m n u. Inr u) data junk ())
        | Some c \<Rightarrow>
            map_option (\<lambda>r. and_then r (\<lambda>out. Inr (s\<lparr>sv_heap := (sv_heap s)(a \<mapsto> c\<lparr>ss_out := out\<rparr>)\<rparr>)))
              (jsonrpc_connection_process_buffer fuel env (sv_request_handler s) data junk (ss_out c))
      else if nread < 0 then Some (if sv_heap s a = None then Inr s else jsonrpc_connection_close s a)
      else Some (Inr s))"

section \<open>All sessions\<close>

text \<open>The loops over the indices of the table.\<close>

fun jsonrpc_stop_loop :: "nat list \<Rightarrow> jsonrpc_server \<Rightarrow> jsonrpc_server exec" where
  "jsonrpc_stop_loop [] s = Inr s"
| "jsonrpc_stop_loop (i # is) s =
     (let x = sv_sessions s ! i; s = s\<lparr>sv_sessions := (sv_sessions s)[i := None]\<rparr>
      in case x of None \<Rightarrow> jsonrpc_stop_loop is s
         | Some a \<Rightarrow> and_then (jsonrpc_connection_close s a) (jsonrpc_stop_loop is))"

definition jsonrpc_server_stop :: "jsonrpc_server \<Rightarrow> (jsonrpc_server \<times> int) exec" where
  "jsonrpc_server_stop s =
     and_then (jsonrpc_stop_loop [0..<10] s) (\<lambda>s.
     Inr (if sv_server_socket s then s\<lparr>sv_server_socket := False\<rparr> else s, 0))"

fun jsonrpc_notify_loop :: "jsonrpc_env \<Rightarrow> string \<Rightarrow> json \<Rightarrow> nat option list \<Rightarrow> jsonrpc_server \<Rightarrow> jsonrpc_server exec" where
  "jsonrpc_notify_loop env meth message [] s = Inr s"
| "jsonrpc_notify_loop env meth message (None # slots) s = jsonrpc_notify_loop env meth message slots s"
| "jsonrpc_notify_loop env meth message (Some a # slots) s =
     and_then (session_at s a) (\<lambda>c.
     and_then (jsonrpc_connection_notify env meth (Some message) (ss_out c)) (\<lambda>out.
     jsonrpc_notify_loop env meth message slots (s\<lparr>sv_heap := (sv_heap s)(a \<mapsto> c\<lparr>ss_out := out\<rparr>)\<rparr>)))"

definition jsonrpc_server_notify :: "jsonrpc_env \<Rightarrow> string option \<Rightarrow> json option \<Rightarrow> jsonrpc_server \<Rightarrow> (jsonrpc_server \<times> int) exec" where
  "jsonrpc_server_notify env meth message s =
     (case (meth, message) of
        (Some m, Some j) \<Rightarrow>
          if m = [] then Inr (s, -1)
          else and_then (jsonrpc_notify_loop env m j (sv_sessions s) s) (\<lambda>s. Inr (s, 0))
      | _ \<Rightarrow> Inr (s, -1))"

section \<open>Everything that can happen\<close>

text \<open>
  The server may be started again at any time, running or stopped; reads come on the streams of live sessions.
\<close>

inductive jsonrpc_step :: "jsonrpc_env \<Rightarrow> jsonrpc_server \<Rightarrow> jsonrpc_server \<Rightarrow> bool" for env where
  start: "jsonrpc_step env s (fst (jsonrpc_server_start bound listening handler s))"
| connection: "jsonrpc_step env s (jsonrpc_server_on_connection status accepted s)"
| read: "sv_heap s a \<noteq> None \<Longrightarrow> jsonrpc_connection_on_read fuel env a data junk nread s = Some (Inr t) \<Longrightarrow> jsonrpc_step env s t"
| notify: "jsonrpc_server_notify env meth message s = Inr (t, ret) \<Longrightarrow> jsonrpc_step env s t"
| stop: "jsonrpc_server_stop s = Inr (t, ret) \<Longrightarrow> jsonrpc_step env s t"

inductive jsonrpc_reachable :: "jsonrpc_env \<Rightarrow> jsonrpc_server \<Rightarrow> bool" for env where
  start: "jsonrpc_reachable env (fst (jsonrpc_server_start bound listening handler (jsonrpc_server_init name port)))"
| step: "jsonrpc_reachable env s \<Longrightarrow> jsonrpc_step env s t \<Longrightarrow> jsonrpc_reachable env t"

end
