(* ===== verification/JsonRpcProps.thy ===== *)
theory JsonRpcProps
  imports JsonRpc HttpAuthProps
begin

text \<open>
  JSON-RPC over TCP: a call is answered when every read brings exactly one message, and what happens when it does not.
\<close>

section \<open>Frames\<close>

lemma hex_upper_val: "d < 16 \<Longrightarrow> hex_digit_val (hex_upper d) = Some d"
  using less_16 [of d] by (auto simp: hex_upper_def hex_digit_val_def is_digit_def)

lemma show_hex_digits: "\<forall>c \<in> set (show_hex n). \<exists>d < 16. c = hex_upper d"
proof (induction n rule: show_hex.induct)
  case (1 n)
  then show ?case by (cases "n < 16") (auto simp: show_hex.simps [of n] intro: exI [of _ "n mod 16"])
qed

lemma hex_upper_facts:
  assumes "d < 16"
  shows "\<not> is_space (hex_upper d)" "hex_upper d \<noteq> CHR ''-''" "hex_upper d \<noteq> CHR ''+''" "to_lower (hex_upper d) \<noteq> CHR ''x''"
  using less_16 [OF assms]
  by (elim insertE emptyE; simp add: hex_upper_def is_space_def to_lower_def is_upper_def)+

lemma show_hex_not_Nil [simp]: "show_hex n \<noteq> []"
  by (subst show_hex.simps) simp

lemma hex_text_val_show_hex [simp]: "hex_text_val (show_hex n) = n"
proof (induction n rule: show_hex.induct)
  case (1 n)
  then show ?case
    by (cases "n < 16") (simp_all add: show_hex.simps [of n] hex_text_val_append hex_upper_val, simp add: hex_text_val_def hex_upper_val)
qed

lemma show_hex_length: "n < 16 ^ k \<Longrightarrow> 0 < k \<Longrightarrow> length (show_hex n) \<le> k"
proof (induction k arbitrary: n)
  case (Suc k)
  show ?case
  proof (cases "n < 16")
    case False
    then have "n div 16 < 16 ^ k" "0 < k" using Suc.prems(1) by (auto simp: less_mult_imp_div_less mult.commute intro: ccontr)
    then show ?thesis using Suc.IH [of "n div 16"] False by (subst show_hex.simps) simp
  qed (subst show_hex.simps, simp)
qed simp

lemma strtol16_frame:
  assumes "n < 2 ^ 63"
  shows "strtol16 (show_hex n @ CR # rest) = Inr (int n, CR # rest)"
proof -
  let ?t = "show_hex n @ CR # rest"
  note digits = show_hex_digits [of n]
  obtain d ds where d: "show_hex n = d # ds" by (cases "show_hex n") simp_all
  have sign: "read_sign (skip_space ?t) = (False, ?t)"
    using hex_upper_facts digits by (auto simp: d skip_space_def)
  have "to_lower CR \<noteq> CHR ''x''" by (simp add: to_lower_def is_upper_def)
  then have "take 2 (map to_lower ?t) \<noteq> ''0x''"
    using hex_upper_facts(4) digits by (cases ds) (auto simp: d)
  moreover have cr: "hex_digit_val CR = None" by (simp add: hex_digit_val_def is_digit_def)
  moreover have "takeWhile (\<lambda>c. hex_digit_val c \<noteq> None) ?t = show_hex n" using digits cr hex_upper_val by (auto simp: takeWhile_append)
  ultimately show ?thesis using assms sign by (simp add: strtol16_def Let_def)
qed

text \<open>A frame, as it is sent.\<close>

definition frame :: "string \<Rightarrow> string" where
  "frame m = show_hex (length m) @ CRLF @ m @ CRLF"

lemma frame_message_frame: "length m < 2 ^ 32 \<Longrightarrow> frame_message m = Inr (frame m)"
  using show_hex_length [of "length m" 8] by (simp add: frame_message_def frame_def CRLF_def Let_def)

text \<open>One round of the loop, at the head of the block.\<close>

lemma frames_loop_round:
  assumes "block = show_hex n @ CRLF @ rest" "n < 2 ^ 31" "0 < k" "k < 2 ^ 31"
  shows "frames_loop (Suc fuel) process block 0 (int k) s =
    (if length (show_hex n) + 4 + n < k then Some (Inr s)
     else if length rest \<le> n then Some (Inl Out_of_bounds)
     else case process (takeWhile (\<lambda>c. c \<noteq> NUL) (rest[n := NUL])) (int n) s of
       Inl e \<Rightarrow> Some (Inl e)
     | Inr s \<Rightarrow> frames_loop fuel process (show_hex n @ CRLF @ rest[n := NUL]) (int (length (show_hex n) + 4 + n))
         ((int k - int (length (show_hex n) + 4 + n)) mod 2 ^ 64) s)"
proof -
  let ?h = "length (show_hex n)"
  have block: "block = show_hex n @ CR # LF # rest" using assms(1) by (simp add: CRLF_def)
  have h: "?h \<le> 8" using show_hex_length [of n 8] assms(2) by simp
  have num: "strtol16 (drop (nat 0) block) = Inr (int n, CR # LF # rest)"
    using strtol16_frame [of n "LF # rest"] assms(2) by (simp add: block)
  have next0: "int (length block) - int (length (CR # LF # rest)) + 2 = int (?h + 2)" by (simp add: block)
  have need: "(int (?h + 2) - 0 + int n mod 2 ^ 64 + 2) mod 2 ^ 64 = int (?h + 4 + n)" using h assms(2) by simp
  have upd: "block[nat (int (?h + 2) + int n) := NUL] = show_hex n @ CRLF @ rest[n := NUL]"
  proof -
    have "nat (int (?h + 2) + int n) = ?h + Suc (Suc n)" by simp
    then show ?thesis by (simp add: block CRLF_def list_update_append)
  qed
  have rest: "drop (nat (int (?h + 2))) (show_hex n @ CRLF @ rest[n := NUL]) = rest[n := NUL]"
    by (simp only: nat_int) (simp add: CRLF_def)
  have small: "int (?h + 4 + n) < 2 ^ 63" using h assms(2) by simp
  have bound: "0 \<le> int (?h + 2) + int n \<and> int (?h + 2) + int n < int (length block) \<longleftrightarrow> n < length rest" by (auto simp: block)
  have lens: "\<not> int (?h + 2) > int (length (show_hex n @ CRLF @ rest[n := NUL]))" by (simp add: CRLF_def)
  have start: "\<not> int k \<le> 0" "0 \<le> (0 :: int) \<and> 0 < int (length block)" using assms(3) by (simp_all add: block)
  show ?thesis
    unfolding frames_loop.simps num sum.case prod.case Let_def next0 need bound upd rest add_0
    using start small lens by (simp add: not_less)
qed

section \<open>One message in one read\<close>

lemma one_frame:
  assumes "length m < 2 ^ 31 - 16" "m \<noteq> []" "NUL \<notin> set m" "process m (int (length m)) s = Inr s'" "junk \<noteq> []"
  shows "read_frames (Suc (Suc fuel)) process (frame m) junk s = Some (Inr s')"
proof -
  let ?n = "length m" and ?rest = "m @ CRLF @ NUL # tl junk"
  have h: "length (show_hex ?n) \<le> 8" using show_hex_length [of ?n 8] assms(1) by simp
  have k: "length (frame m) = length (show_hex ?n) + 4 + ?n" by (simp add: frame_def CRLF_def)
  have block: "frame m @ NUL # tl junk = show_hex ?n @ CRLF @ ?rest" by (simp add: frame_def)
  have "takeWhile (\<lambda>c. c \<noteq> NUL) (?rest[?n := NUL]) = m"
    using assms(3) by (simp add: CRLF_def takeWhile_append takeWhile_eq_all_conv)
  moreover have "0 < length (frame m)" "length (frame m) < 2 ^ 31" "?n < 2 ^ 31" using k h assms(1) by simp_all
  ultimately show ?thesis using frames_loop_round [OF block, of "length (frame m)" "Suc fuel" process s] assms(4,5)
    by (simp add: read_frames_def k CRLF_def)
qed

text \<open>What the JSON library promises of an item: it is printed as a text that is parsed into the item again.\<close>

definition json_prints :: "jsonrpc_env \<Rightarrow> json \<Rightarrow> bool" where
  "json_prints env j \<longleftrightarrow> (\<exists>m. je_print env j = Some m \<and> je_parse env m = Some j \<and> m \<noteq> [] \<and> NUL \<notin> set m \<and> length m < 2 ^ 31 - 16)"

lemma request_items [simp]:
  "get_item (request_object meth i params) ''id'' = Some (Json_number i)" "get_item (request_object meth i params) ''method'' = Some (Json_string meth)"
  "get_item (request_object meth i params) ''params'' = params" "is_object (request_object meth i params)"
  by (simp_all add: request_object_def strcaseeq_def to_lower_def is_upper_def split: option.splits)

lemma response_items [simp]:
  "get_item (response_object i result) ''id'' = Some (Json_number i)" "get_item (response_object i result) ''result'' = result"
  "get_item (response_object i result) ''error'' = None" "is_object (response_object i result)"
  by (simp_all add: response_object_def strcaseeq_def to_lower_def is_upper_def split: option.splits)

text \<open>
  C37.  A call is answered.  The client's request, which the server gets in one read, is one call of the application's
  function with the method and the parameters; the reply, which the client gets in one read, is one call of its
  handler with the identifier of the request and the function's result.
\<close>

theorem jsonrpc_call_answered:
  assumes "jc_socket c" "jc_handler c" "jc_next_id c + 1 < 2 ^ 31" "meth \<noteq> []" "\<forall>t. je_write env t = 0"
    and "json_prints env (request_object meth (int (jc_next_id c + 1)) params)"
    and "json_prints env (response_object (int (jc_next_id c + 1)) (f (Some meth) params))"
    and "junk1 \<noteq> []" "junk2 \<noteq> []"
  shows "\<exists>c1 sent reply c2. jsonrpc_client_send env (Some meth) params c = Inr (c1, int (jc_next_id c + 1)) \<and>
    jc_sent c1 = jc_sent c @ [sent] \<and>
    jsonrpc_connection_process_buffer (Suc (Suc fuel)) env (Some f) sent junk1 out = Some (Inr (out @ [reply])) \<and>
    jsonrpc_client_on_read (Suc (Suc fuel)) env reply junk2 (int (length reply)) c1 = Some (Inr c2) \<and>
    jc_told c2 = jc_told c @ [(2, int (jc_next_id c + 1), f (Some meth) params, None)]"
proof -
  let ?i = "int (jc_next_id c + 1)"
  obtain m where m: "je_print env (request_object meth ?i params) = Some m" "je_parse env m = Some (request_object meth ?i params)"
    "m \<noteq> []" "NUL \<notin> set m" "length m < 2 ^ 31 - 16" using assms(6) unfolding json_prints_def by blast
  obtain r where r: "je_print env (response_object ?i (f (Some meth) params)) = Some r" "je_parse env r = Some (response_object ?i (f (Some meth) params))"
    "r \<noteq> []" "NUL \<notin> set r" "length r < 2 ^ 31 - 16" using assms(7) unfolding json_prints_def by blast
  have i: "to_int32 ?i = ?i" using assms(3) unfolding to_int32_def by (intro signed_take_bit_int_eq_self) auto
  have frames: "frame_message m = Inr (frame m)" "frame_message r = Inr (frame r)" using m(5) r(5) by (simp_all add: frame_message_frame)
  let ?c1 = "c\<lparr>jc_next_id := jc_next_id c + 1, jc_sent := jc_sent c @ [frame m]\<rparr>"
  have send: "jsonrpc_client_send env (Some meth) params c = Inr (?c1, ?i)"
    using assms(1,3-5) m(1,3) i frames(1) by (simp add: jsonrpc_client_send_def jsonrpc_client_send_message_def Let_def)
  have reply: "jsonrpc_connection_process_message env (Some f) m (int (length m)) out = Inr (out @ [frame r], 0)"
    using m(2,3) r(1,3) assms(5) frames(2)
    by (simp add: jsonrpc_connection_process_message_def jsonrpc_connection_process_request_def jsonrpc_server_on_invoke_def
        jsonrpc_connection_reply_def request_id_def jsonrpc_connection_send_message_def)
  have server: "jsonrpc_connection_process_buffer (Suc (Suc fuel)) env (Some f) (frame m) junk1 out = Some (Inr (out @ [frame r]))"
    unfolding jsonrpc_connection_process_buffer_def by (rule one_frame [OF m(5,3,4) _ assms(8)]) (simp only: reply, simp)
  let ?c2 = "?c1\<lparr>jc_told := jc_told c @ [(2, ?i, f (Some meth) params, None)]\<rparr>"
  have told: "jsonrpc_client_process_message env r (int (length r)) ?c1 = Inr (?c2, 0)"
    using r(2,3) assms(2) by (simp add: jsonrpc_client_process_message_def tell_def)
  have "jsonrpc_client_process_data (Suc (Suc fuel)) env (frame r) junk2 ?c1 = Some (Inr ?c2)"
    unfolding jsonrpc_client_process_data_def by (rule one_frame [OF r(5,3,4) _ assms(9)]) (simp only: told, simp)
  moreover have "0 < length (frame r)" by (simp add: frame_def)
  ultimately have "jsonrpc_client_on_read (Suc (Suc fuel)) env (frame r) junk2 (int (length (frame r))) ?c1 = Some (Inr ?c2)"
    using assms(1) by (simp add: jsonrpc_client_on_read_def)
  then show ?thesis using send server by (intro exI [of _ ?c1] exI [of _ "frame m"] exI [of _ "frame r"] exI [of _ ?c2]) simp
qed

text \<open>A library that knows one request and its response.\<close>

definition two_items :: jsonrpc_env where
  "two_items =
     (let q = request_object ''add'' 1 (Some (Json_array [Json_number 2, Json_number 3])); r = response_object 1 (Some (Json_number 5)) in
      \<lparr>je_parse = (\<lambda>m. if m = ''{q}'' then Some q else if m = ''{r}'' then Some r else None),
       je_print = (\<lambda>j. if j = q then Some ''{q}'' else if j = r then Some ''{r}'' else None), je_write = (\<lambda>_. 0)\<rparr>)"

definition adder :: jsonrpc_handler where
  "adder meth params = (case params of Some (Json_array [Json_number a, Json_number b]) \<Rightarrow> Some (Json_number (a + b)) | _ \<Rightarrow> None)"

definition connected_client :: jsonrpc_client where
  "connected_client = (jsonrpc_client_init 8800 None)\<lparr>jc_connected := True, jc_socket := True, jc_handler := True\<rparr>"

theorem jsonrpc_call_answered_witness:
  "\<exists>c1 sent reply c2. jsonrpc_client_send two_items (Some ''add'') (Some (Json_array [Json_number 2, Json_number 3])) connected_client = Inr (c1, 1) \<and>
    jc_sent c1 = [sent] \<and> jsonrpc_connection_process_buffer 2 two_items (Some adder) sent ''junk'' [] = Some (Inr [reply]) \<and>
    jsonrpc_client_on_read 2 two_items reply ''junk'' (int (length reply)) c1 = Some (Inr c2) \<and>
    jc_told c2 = [(2, 1, Some (Json_number 5), None)]"
proof -
  have p: "json_prints two_items (request_object ''add'' 1 (Some (Json_array [Json_number 2, Json_number 3])))"
    "json_prints two_items (response_object 1 (Some (Json_number 5)))"
    by (simp_all add: json_prints_def two_items_def request_object_def response_object_def Let_def)
  have c: "jc_socket connected_client" "jc_handler connected_client" "jc_next_id connected_client = 0" "jc_sent connected_client = []"
    "jc_told connected_client = []" by (simp_all add: connected_client_def jsonrpc_client_init_def)
  have "\<forall>t. je_write two_items t = 0" by (simp add: two_items_def Let_def)
  from jsonrpc_call_answered [OF c(1,2) _ _ this, where meth = "''add''" and params = "Some (Json_array [Json_number 2, Json_number 3])" and f = adder and
      ?junk1.0 = "''junk''" and ?junk2.0 = "''junk''" and fuel = 0 and out = "[]"]
  show ?thesis using p by (simp add: c adder_def numeral_2_eq_2 [symmetric])
qed

section \<open>More, or less, than one message\<close>

lemma joined_frames:
  assumes "length m < 2 ^ 29" "length extra < 2 ^ 29" "extra \<noteq> []" "junk \<noteq> []"
  shows "read_frames (Suc fuel) process (frame m @ extra) junk s = Some (Inr s)"
proof -
  let ?n = "length m" and ?rest = "m @ CRLF @ extra @ NUL # tl junk"
  have h: "length (show_hex ?n) \<le> 8" using show_hex_length [of ?n 8] assms(1) by simp
  have k: "length (frame m @ extra) = length (show_hex ?n) + 4 + ?n + length extra" by (simp add: frame_def CRLF_def)
  have block: "(frame m @ extra) @ NUL # tl junk = show_hex ?n @ CRLF @ ?rest" by (simp add: frame_def)
  have b: "?n < 2 ^ 31" "0 < length (frame m @ extra)" "length (frame m @ extra) < 2 ^ 31" using assms(1-3) h k by simp_all
  have "length (show_hex ?n) + 4 + ?n < length (frame m @ extra)" using assms(3) unfolding k by simp
  then show ?thesis unfolding read_frames_def frames_loop_round [OF block b] using assms(4) by simp
qed

text \<open>
  A read that brings a message and anything behind it is thrown away whole, the first message included: the loop
  stops when there are more bytes than the message needs, not fewer.
\<close>

lemma jsonrpc_joined_messages_lost:
  assumes "length m < 2 ^ 29" "length extra < 2 ^ 29" "extra \<noteq> []" "junk \<noteq> []"
  shows "jsonrpc_connection_process_buffer (Suc fuel) env handler (frame m @ extra) junk out = Some (Inr out) \<and>
    jsonrpc_client_process_data (Suc fuel) env (frame m @ extra) junk c = Some (Inr c)"
  by (simp add: jsonrpc_connection_process_buffer_def jsonrpc_client_process_data_def joined_frames [OF assms])

lemma jsonrpc_joined_messages_lost_witness:
  "jsonrpc_connection_process_buffer 1 two_items (Some adder) (frame ''{q}'' @ frame ''{q}'') ''junk'' [] = Some (Inr []) \<and>
   jsonrpc_client_process_data 1 two_items (frame ''{q}'' @ frame ''{q}'') ''junk'' connected_client = Some (Inr connected_client)"
proof -
  have "length (frame ''{q}'') < 2 ^ 29" by (simp add: frame_def CRLF_def show_hex.simps)
  moreover have "frame ''{q}'' \<noteq> []" by (simp add: frame_def)
  ultimately show ?thesis
    using jsonrpc_joined_messages_lost [of "''{q}''" "frame ''{q}''" "''junk''" 0 two_items "Some adder" "[]" connected_client] by simp
qed

text \<open>
  The length in front of a message is trusted: when it reaches past the block that was read into, the terminator
  is stored there, up to two gigabytes behind the block.
\<close>

lemma jsonrpc_length_trusted:
  assumes "n < 2 ^ 31" "length part < 2 ^ 30" "junk \<noteq> []" "length part + length junk \<le> n"
  shows "jsonrpc_connection_process_buffer (Suc fuel) env handler (show_hex n @ CRLF @ part) junk out = Some (Inl Out_of_bounds)"
proof -
  have h: "length (show_hex n) \<le> 8" using show_hex_length [of n 8] assms(1) by simp
  have block: "(show_hex n @ CRLF @ part) @ NUL # tl junk = show_hex n @ CRLF @ part @ NUL # tl junk" by simp
  have b: "0 < length (show_hex n @ CRLF @ part)" "length (show_hex n @ CRLF @ part) < 2 ^ 31" using assms(2) h by (simp_all add: CRLF_def)
  have "\<not> length (show_hex n) + 4 + n < length (show_hex n @ CRLF @ part)" "length (part @ NUL # tl junk) \<le> n"
    using assms(3,4) by (simp_all add: CRLF_def)
  then show ?thesis unfolding jsonrpc_connection_process_buffer_def read_frames_def frames_loop_round [OF block assms(1) b] using assms(3) by simp
qed

lemma jsonrpc_length_trusted_witness:
  "jsonrpc_connection_process_buffer 1 two_items (Some adder) (show_hex 0x7FFFFFFF @ CRLF @ ''{}'') (replicate 65000 (CHR ''x'')) [] =
    Some (Inl Out_of_bounds)"
  using jsonrpc_length_trusted [of "0x7FFFFFFF" "''{}''" "replicate 65000 (CHR ''x'')" 0] by simp

end
