(* ===== verification/JsonRpcServerProps.thy ===== *)
theory JsonRpcServerProps
  imports JsonRpcServer JsonRpcProps
begin

text \<open>
  The sessions of a JSON-RPC server: the table never refers to a session that is gone, a session is missing from it
  only if it came when the table was full or the server was started again while it lived, and what a notification and a stop do about the two kinds.
\<close>

section \<open>The table and the heap\<close>

definition table_ok :: "jsonrpc_server \<Rightarrow> bool" where
  "table_ok s \<longleftrightarrow> length (sv_sessions s) = 10 \<and> distinct (live (sv_sessions s)) \<and>
     set (live (sv_sessions s)) \<subseteq> dom (sv_heap s) \<and> (\<forall>a \<in> dom (sv_heap s). a < sv_fresh s)"

text \<open>The sessions that are alive and not in the table.\<close>

definition lost :: "jsonrpc_server \<Rightarrow> nat set" where
  "lost s = dom (sv_heap s) - set (live (sv_sessions s))"

lemma live_clear: "live (map (\<lambda>x. if x = Some a then None else x) xs) = filter (\<lambda>b. b \<noteq> a) (live xs)"
proof (induction xs)
  case (Cons x xs)
  then show ?case by (cases x) auto
qed simp

lemma close_session:
  assumes "table_ok s" "sv_heap s a \<noteq> None"
  shows "\<exists>t. jsonrpc_connection_close s a = Inr t \<and> table_ok t \<and> lost t = lost s - {a} \<and> sv_heap t = (sv_heap s)(a := None) \<and>
    sv_sessions t = map (\<lambda>x. if x = Some a then None else x) (sv_sessions s) \<and> sv_fresh t = sv_fresh s"
  using assms by (auto simp: jsonrpc_connection_close_def session_at_def jsonrpc_server_remove_session_def table_ok_def lost_def live_clear)

lemma update_same_slot:
  assumes "distinct (live xs)" "i < length xs" "xs ! i = Some a"
  shows "map (\<lambda>x. if x = Some a then None else x) (xs[i := None]) = xs[i := None]"
proof -
  obtain p q where pq: "live xs = p @ a # q" "live (xs[i := None]) = p @ q" using update_live [OF assms(2,3)] by blast
  then have "a \<notin> set (live (xs[i := None]))" using assms(1) by simp
  then have "Some a \<notin> set (xs[i := None])" by (simp add: set_live)
  then show ?thesis by (intro map_idI) auto
qed

lemma clear_slots: "j < length xs \<Longrightarrow> fold (\<lambda>i xs. xs[i := None]) is xs ! j = (if j \<in> set is then None else xs ! j)"
  by (induction "is" arbitrary: xs) (auto simp: nth_list_update)

lemma length_clear_slots [simp]: "length (fold (\<lambda>i xs. xs[i := None]) is xs) = length xs"
  by (induction "is" arbitrary: xs) auto

lemma stop_loop:
  assumes "table_ok s" "set is \<subseteq> {..<10}"
  shows "\<exists>t. jsonrpc_stop_loop is s = Inr t \<and> table_ok t \<and> lost t = lost s \<and>
    sv_sessions t = fold (\<lambda>i xs. xs[i := None]) is (sv_sessions s) \<and> sv_heap t \<subseteq>\<^sub>m sv_heap s"
  using assms
proof (induction "is" arbitrary: s)
  case (Cons i "is")
  let ?s = "s\<lparr>sv_sessions := (sv_sessions s)[i := None]\<rparr>"
  have i: "i < length (sv_sessions s)" using Cons.prems by (auto simp: table_ok_def)
  show ?case
  proof (cases "sv_sessions s ! i")
    case None
    then have "(sv_sessions s)[i := None] = sv_sessions s" using list_update_id [of "sv_sessions s" i] by simp
    then have "?s = s" by simp
    then show ?thesis using Cons.IH [OF Cons.prems(1)] Cons.prems(2) None \<open>(sv_sessions s)[i := None] = sv_sessions s\<close> by simp
  next
    case (Some a)
    obtain p q where pq: "live (sv_sessions s) = p @ a # q" "live ((sv_sessions s)[i := None]) = p @ q"
      using update_live [OF i Some] by blast
    have ok: "table_ok ?s" using Cons.prems(1) pq by (auto simp: table_ok_def)
    have a: "sv_heap ?s a \<noteq> None" using Cons.prems(1) pq by (auto simp: table_ok_def)
    have lost: "lost ?s = insert a (lost s)" "a \<notin> lost s" using Cons.prems(1) pq by (auto simp: table_ok_def lost_def)
    from close_session [OF ok a] obtain t where t: "jsonrpc_connection_close ?s a = Inr t" "table_ok t" "lost t = lost s"
        "sv_heap t = (sv_heap s)(a := None)" "sv_sessions t = (sv_sessions s)[i := None]"
      using update_same_slot [OF _ i Some] Cons.prems(1) lost by (auto simp: table_ok_def)
    have "sv_heap t \<subseteq>\<^sub>m sv_heap s" using t(4) by (simp add: map_le_def)
    moreover obtain u where "jsonrpc_stop_loop is t = Inr u" "table_ok u" "lost u = lost t"
        "sv_sessions u = fold (\<lambda>i xs. xs[i := None]) is (sv_sessions t)" "sv_heap u \<subseteq>\<^sub>m sv_heap t"
      using Cons.IH [OF t(2)] Cons.prems(2) by auto
    ultimately show ?thesis using t(1,3,5) Some map_le_trans by (fastforce simp: Let_def)
  qed
qed simp

lemma stop_table:
  assumes "table_ok s"
  shows "\<exists>t. jsonrpc_server_stop s = Inr (t, 0) \<and> table_ok t \<and> lost t = lost s \<and> sv_sessions t = replicate 10 None \<and>
    sv_heap t = sv_heap s |` lost s \<and> \<not> sv_server_socket t"
proof -
  obtain t where t: "jsonrpc_stop_loop [0..<10] s = Inr t" "table_ok t" "lost t = lost s"
      "sv_sessions t = fold (\<lambda>i xs. xs[i := None]) [0..<10] (sv_sessions s)" "sv_heap t \<subseteq>\<^sub>m sv_heap s"
    using stop_loop [OF assms, of "[0..<10]"] by (auto simp only: set_upt atLeast0LessThan subset_refl)
  have "length (sv_sessions s) = 10" using assms by (simp add: table_ok_def)
  then have empty: "sv_sessions t = replicate 10 None" unfolding t(4) by (intro nth_equalityI) (simp_all add: clear_slots del: upt_rec_numeral)
  then have "dom (sv_heap t) = lost s" using t(3) by (simp add: lost_def)
  then have "sv_heap t = sv_heap s |` lost s" using t(5) by (intro ext) (auto simp: map_le_def restrict_map_def dom_def)
  then show ?thesis using t empty by (cases "sv_server_socket t") (auto simp: jsonrpc_server_stop_def table_ok_def lost_def)
qed

section \<open>Notifications\<close>

lemma frame_message_fits [simp]: "frame_message m = Inr (show_hex (length m mod 2 ^ 32) @ CRLF @ m @ CRLF)"
  using show_hex_length [of "length m mod 2 ^ 32" 8] by (simp add: frame_message_def CRLF_def Let_def)

lemma send_safe: "\<exists>out' ret. jsonrpc_connection_send_message env m out = Inr (out', ret)"
  by (simp add: jsonrpc_connection_send_message_def)

lemma notify_safe: "\<exists>out'. jsonrpc_connection_notify env meth params out = Inr out'"
proof (cases "je_print env (notify_object meth params)")
  case (Some m)
  then show ?thesis using send_safe [of env m out] by (auto simp: jsonrpc_connection_notify_def)
qed (simp add: jsonrpc_connection_notify_def)

lemma notify_loop_safe:
  assumes "set (live slots) \<subseteq> dom (sv_heap s)"
  shows "\<exists>h. jsonrpc_notify_loop env meth j slots s = Inr (s\<lparr>sv_heap := h\<rparr>) \<and> dom h = dom (sv_heap s)"
  using assms
proof (induction env meth j slots s rule: jsonrpc_notify_loop.induct)
  case (1 env meth message s)
  show ?case by (auto intro: exI [of _ "sv_heap s"])
next
  case (3 env meth message a slots s)
  then obtain c where c: "sv_heap s a = Some c" by auto
  obtain out where out: "jsonrpc_connection_notify env meth (Some message) (ss_out c) = Inr out" using notify_safe by blast
  let ?s = "s\<lparr>sv_heap := (sv_heap s)(a \<mapsto> c\<lparr>ss_out := out\<rparr>)\<rparr>"
  have dom: "dom (sv_heap ?s) = dom (sv_heap s)" and at: "session_at s a = Inr c" using c by (auto simp: session_at_def)
  have "set (live slots) \<subseteq> dom (sv_heap ?s)" using "3.prems" dom by simp
  from "3.IH" [OF at out this] obtain h where "jsonrpc_notify_loop env meth message slots ?s = Inr (?s\<lparr>sv_heap := h\<rparr>)" "dom h = dom (sv_heap ?s)"
    by blast
  then show ?case using at out dom by (intro exI [of _ h]) simp
qed simp

lemma notify_loop_sends:
  assumes "je_print env (notify_object meth (Some j)) = Some m" "m \<noteq> []" "length m < 2 ^ 32" "\<forall>t. je_write env t = 0"
    and "distinct (live slots)" "set (live slots) \<subseteq> dom (sv_heap s)"
  shows "jsonrpc_notify_loop env meth j slots s = Inr (s\<lparr>sv_heap := \<lambda>a.
    if a \<in> set (live slots) then map_option (\<lambda>c. c\<lparr>ss_out := ss_out c @ [frame m]\<rparr>) (sv_heap s a) else sv_heap s a\<rparr>)"
  using assms(5,6)
proof (induction slots arbitrary: s)
  case (Cons x slots)
  show ?case
  proof (cases x)
    case (Some a)
    then obtain c where c: "sv_heap s a = Some c" using Cons.prems by auto
    let ?s = "s\<lparr>sv_heap := (sv_heap s)(a \<mapsto> c\<lparr>ss_out := ss_out c @ [frame m]\<rparr>)\<rparr>"
    let ?sent = "\<lambda>slots h a. if a \<in> set (live slots) then map_option (\<lambda>c. c\<lparr>ss_out := ss_out c @ [frame m]\<rparr>) (h a) else h a"
    have "jsonrpc_connection_notify env meth (Some j) (ss_out c) = Inr (ss_out c @ [frame m])"
      using assms(1-4) by (simp add: jsonrpc_connection_notify_def jsonrpc_connection_send_message_def frame_def)
    moreover have "jsonrpc_notify_loop env meth j slots ?s = Inr (?s\<lparr>sv_heap := ?sent slots (sv_heap ?s)\<rparr>)"
      using Cons.prems Some c by (intro Cons.IH) auto
    moreover have "?sent slots (sv_heap ?s) = ?sent (x # slots) (sv_heap s)" using Cons.prems(1) Some c by (auto simp: fun_eq_iff)
    ultimately show ?thesis using Some c by (simp add: session_at_def)
  qed (use Cons in simp)
qed simp

section \<open>Reachable servers\<close>

lemma read_session:
  assumes "table_ok s" "sv_heap s a \<noteq> None" "jsonrpc_connection_on_read fuel env a data junk nread s = Some (Inr t)"
  shows "table_ok t \<and> lost t \<subseteq> lost s \<and> sv_fresh t = sv_fresh s"
proof (cases "nread < 0")
  case True
  then have "jsonrpc_connection_close s a = Inr t" using assms(2,3) by (auto simp: jsonrpc_connection_on_read_def)
  then show ?thesis using close_session [OF assms(1,2)] by fastforce
next
  case False
  obtain c where c: "sv_heap s a = Some c" using assms(2) by blast
  consider "t = s" | out where "t = s\<lparr>sv_heap := (sv_heap s)(a \<mapsto> c\<lparr>ss_out := out\<rparr>)\<rparr>"
    using assms(3) False c by (auto simp: jsonrpc_connection_on_read_def and_then_eq_Inr split: if_splits)
  then show ?thesis using assms(1) c by cases (auto simp: table_ok_def lost_def)
qed

lemma connect_session:
  assumes "table_ok s" and t: "t = jsonrpc_server_on_connection status accepted s"
  shows "table_ok t \<and> (lost t = lost s \<or> None \<notin> set (sv_sessions s) \<and> lost t = insert (sv_fresh s) (lost s))"
proof (cases "status = -1 \<or> \<not> accepted")
  case False
  let ?a = "sv_fresh s"
  have a: "?a \<notin> dom (sv_heap s)" using assms(1) by (auto simp: table_ok_def)
  then have new: "?a \<notin> set (live (sv_sessions s))" using assms(1) by (auto simp: table_ok_def)
  show ?thesis
  proof (cases "put_slot (sv_sessions s) ?a")
    case None
    then have "None \<notin> set (sv_sessions s)" by (simp add: put_slot_full)
    then show ?thesis using False None assms(1) a new
      by (auto simp: t jsonrpc_server_on_connection_def jsonrpc_server_add_session_def table_ok_def lost_def Let_def less_Suc_eq)
  next
    case (Some slots)
    obtain p q where "length slots = length (sv_sessions s)" "live (sv_sessions s) = p @ q" "live slots = p @ ?a # q"
      using put_slot_live [OF Some] by blast
    then show ?thesis using False Some assms(1) a new
      by (auto simp: t jsonrpc_server_on_connection_def jsonrpc_server_add_session_def table_ok_def lost_def Let_def less_Suc_eq)
  qed
qed (use assms in \<open>auto simp: jsonrpc_server_on_connection_def\<close>)

lemma notify_session:
  assumes "table_ok s" "jsonrpc_server_notify env meth message s = Inr (t, ret)"
  shows "table_ok t \<and> lost t = lost s"
proof -
  have live: "set (live (sv_sessions s)) \<subseteq> dom (sv_heap s)" using assms(1) by (simp add: table_ok_def)
  consider "t = s" | m j where "jsonrpc_notify_loop env m j (sv_sessions s) s = Inr t"
    using assms(2) by (auto simp: jsonrpc_server_notify_def and_then_eq_Inr split: option.splits if_splits)
  then show ?thesis
  proof cases
    case 2
    then obtain h where "t = s\<lparr>sv_heap := h\<rparr>" "dom h = dom (sv_heap s)" using notify_loop_safe [OF live, of env m j] by auto
    then show ?thesis using assms(1) by (simp add: table_ok_def lost_def)
  qed (use assms(1) in simp)
qed

lemma start_table:
  assumes "dom (sv_heap s) \<subseteq> {..<sv_fresh s}" and t: "t = fst (jsonrpc_server_start bound listening handler s)"
  shows "table_ok t \<and> sv_sessions t = replicate 10 None \<and> lost t = dom (sv_heap s)"
  using assms by (auto simp: jsonrpc_server_start_def table_ok_def lost_def Let_def)

lemma step_table:
  "jsonrpc_step env s t \<Longrightarrow> table_ok s \<Longrightarrow>
    table_ok t \<and> (lost t \<subseteq> lost s \<or> None \<notin> set (sv_sessions s) \<and> lost t = insert (sv_fresh s) (lost s) \<or>
      (\<exists>bound listening handler. t = fst (jsonrpc_server_start bound listening handler s) \<and> sv_sessions t = replicate 10 None \<and>
        lost t = lost s \<union> set (live (sv_sessions s))))"
proof (induction rule: jsonrpc_step.induct)
  case (start s bound listening handler)
  let ?t = "fst (jsonrpc_server_start bound listening handler s)"
  have "dom (sv_heap s) = lost s \<union> set (live (sv_sessions s))" "dom (sv_heap s) \<subseteq> {..<sv_fresh s}"
    using start by (auto simp: table_ok_def lost_def)
  then have "table_ok ?t \<and> sv_sessions ?t = replicate 10 None \<and> lost ?t = lost s \<union> set (live (sv_sessions s))"
    using start_table [OF _ refl, of s bound listening handler] by simp
  then show ?case by (intro conjI disjI2 exI [of _ bound] exI [of _ listening] exI [of _ handler]) simp_all
next
  case (connection s status accepted)
  then show ?case using connect_session [OF connection refl, of status accepted] by (elim conjE disjE) simp_all
next
  case (read s a fuel data junk nread t)
  then show ?case using read_session [OF read(3,1,2)] by simp
next
  case (notify s meth message t ret)
  then show ?case using notify_session [OF notify(2,1)] by simp
next
  case (stop s t ret)
  then show ?case using stop_table [of s] by auto
qed

lemma reachable_table: "jsonrpc_reachable env s \<Longrightarrow> table_ok s"
proof (induction rule: jsonrpc_reachable.induct)
  case (start bound listening handler name port)
  show ?case by (simp add: jsonrpc_server_start_def jsonrpc_server_init_def table_ok_def Let_def)
next
  case (step s t)
  then show ?case using step_table by blast
qed

section \<open>What the server does with its sessions\<close>

text \<open>
  C38.  In every reachable state the ten slots hold distinct sessions that are alive, and whatever happens next, a
  session is alive without standing in the table only if it was already, or if it just came to a full table, or if the
  server was just started again: then the table is empty and every session that stood in it is alive still.
\<close>

theorem jsonrpc_sessions_accounted:
  assumes "jsonrpc_reachable env s" "jsonrpc_step env s t"
  shows "length (sv_sessions s) = 10 \<and> distinct (live (sv_sessions s)) \<and> set (live (sv_sessions s)) \<subseteq> dom (sv_heap s) \<and>
    (lost t \<subseteq> lost s \<or> None \<notin> set (sv_sessions s) \<and> lost t = insert (sv_fresh s) (lost s) \<or>
      (\<exists>bound listening handler. t = fst (jsonrpc_server_start bound listening handler s) \<and> sv_sessions t = replicate 10 None \<and>
        lost t = lost s \<union> set (live (sv_sessions s))))"
  using reachable_table [OF assms(1)] step_table [OF assms(2)] by (simp add: table_ok_def)

definition started :: jsonrpc_server where
  "started = fst (jsonrpc_server_start 0 0 (Some adder) (jsonrpc_server_init None 8800))"

abbreviation (input) accept_one :: "jsonrpc_server \<Rightarrow> jsonrpc_server" where
  "accept_one \<equiv> jsonrpc_server_on_connection 0 True"

lemma accepted_reachable: "jsonrpc_reachable env ((accept_one ^^ n) started)"
  unfolding started_def by (induction n) (auto intro: jsonrpc_reachable.intros jsonrpc_step.connection)

text \<open>Eleven clients.\<close>

lemma put_first_free: "put_slot (map Some xs @ None # ys) a = Some (map Some (xs @ [a]) @ ys)"
  by (induction xs) auto

lemma accept_one_fields:
  "sv_fresh (accept_one s) = sv_fresh s + 1" "dom (sv_heap (accept_one s)) = insert (sv_fresh s) (dom (sv_heap s))"
  "sv_sessions (accept_one s) = (case put_slot (sv_sessions s) (sv_fresh s) of None \<Rightarrow> sv_sessions s | Some slots \<Rightarrow> slots)"
  by (auto simp: jsonrpc_server_on_connection_def jsonrpc_server_add_session_def Let_def split: option.splits)

lemma accepted:
  "n \<le> 10 \<Longrightarrow> sv_sessions ((accept_one ^^ n) started) = map Some [0..<n] @ replicate (10 - n) None \<and>
    sv_fresh ((accept_one ^^ n) started) = n \<and> dom (sv_heap ((accept_one ^^ n) started)) = {..<n}"
proof (induction n)
  case 0
  show ?case by (simp add: started_def jsonrpc_server_start_def jsonrpc_server_init_def Let_def)
next
  case (Suc n)
  then have "replicate (10 - n) None = (None :: nat option) # replicate (10 - Suc n) None"
    by (metis Suc_diff_Suc Suc_le_eq replicate_Suc)
  then show ?case using Suc by (simp add: accept_one_fields put_first_free lessThan_Suc del: upt_Suc) simp
qed

lemma eleven_accepted: "lost ((accept_one ^^ 11) started) = {10}"
proof -
  let ?s = "(accept_one ^^ 10) started"
  have s: "sv_sessions ?s = map Some [0..<10]" "sv_fresh ?s = 10" "dom (sv_heap ?s) = {..<10}" using accepted [of 10] by simp_all
  have "None \<notin> set (sv_sessions ?s)" unfolding s(1) by simp
  then have "put_slot (sv_sessions ?s) (sv_fresh ?s) = None" by (simp only: put_slot_full not_False_eq_True)
  then have "sv_sessions (accept_one ?s) = map Some [0..<10]" "dom (sv_heap (accept_one ?s)) = insert 10 {..<10}"
    using s by (simp_all only: accept_one_fields option.case)
  moreover have "set (live (map Some [0..<10])) = {..<10}" by (auto simp: set_live)
  moreover have "(accept_one ^^ 11) started = accept_one ?s" by (simp add: numeral_eq_Suc)
  ultimately show ?thesis by (simp only: lost_def) auto
qed

theorem jsonrpc_sessions_accounted_witness:
  "length (sv_sessions ((accept_one ^^ 10) started)) = 10 \<and> distinct (live (sv_sessions ((accept_one ^^ 10) started))) \<and>
   set (live (sv_sessions ((accept_one ^^ 10) started))) \<subseteq> dom (sv_heap ((accept_one ^^ 10) started)) \<and>
   (lost (accept_one ((accept_one ^^ 10) started)) \<subseteq> lost ((accept_one ^^ 10) started) \<or>
    None \<notin> set (sv_sessions ((accept_one ^^ 10) started)) \<and>
    lost (accept_one ((accept_one ^^ 10) started)) = insert (sv_fresh ((accept_one ^^ 10) started)) (lost ((accept_one ^^ 10) started)) \<or>
    (\<exists>bound listening handler. accept_one ((accept_one ^^ 10) started) =
        fst (jsonrpc_server_start bound listening handler ((accept_one ^^ 10) started)) \<and>
      sv_sessions (accept_one ((accept_one ^^ 10) started)) = replicate 10 None \<and>
      lost (accept_one ((accept_one ^^ 10) started)) = lost ((accept_one ^^ 10) started) \<union> set (live (sv_sessions ((accept_one ^^ 10) started)))))"
  by (rule jsonrpc_sessions_accounted [OF accepted_reachable [of two_items] jsonrpc_step.connection])

text \<open>
  A notification is one more frame on the stream of each session of the table, and on no other.
\<close>

lemma jsonrpc_notify_reaches_table:
  assumes "jsonrpc_reachable env s" "meth \<noteq> []"
    and "je_print env (notify_object meth (Some j)) = Some m" "m \<noteq> []" "length m < 2 ^ 32" "\<forall>t. je_write env t = 0"
  shows "\<exists>t. jsonrpc_server_notify env (Some meth) (Some j) s = Inr (t, 0) \<and> sv_sessions t = sv_sessions s \<and> dom (sv_heap t) = dom (sv_heap s) \<and>
    (\<forall>a c. sv_heap s a = Some c \<longrightarrow>
      sv_heap t a = Some (if Some a \<in> set (sv_sessions s) then c\<lparr>ss_out := ss_out c @ [frame m]\<rparr> else c))"
proof -
  have "distinct (live (sv_sessions s))" "set (live (sv_sessions s)) \<subseteq> dom (sv_heap s)"
    using reachable_table [OF assms(1)] by (simp_all add: table_ok_def)
  from notify_loop_sends [OF assms(3-6) this] show ?thesis using assms(2)
    by (auto simp: jsonrpc_server_notify_def set_live split: if_splits)
qed

definition notice :: jsonrpc_env where
  "notice = two_items\<lparr>je_print := \<lambda>_. Some ''{n}''\<rparr>"

lemma jsonrpc_notify_reaches_table_witness:
  "\<exists>t. jsonrpc_server_notify notice (Some ''tick'') (Some Json_null) ((accept_one ^^ 11) started) = Inr (t, 0) \<and>
    sv_sessions t = sv_sessions ((accept_one ^^ 11) started) \<and> dom (sv_heap t) = dom (sv_heap ((accept_one ^^ 11) started)) \<and>
    (\<forall>a c. sv_heap ((accept_one ^^ 11) started) a = Some c \<longrightarrow>
      sv_heap t a = Some (if Some a \<in> set (sv_sessions ((accept_one ^^ 11) started)) then c\<lparr>ss_out := ss_out c @ [frame ''{n}'']\<rparr> else c))"
  by (rule jsonrpc_notify_reaches_table [OF accepted_reachable]) (simp_all add: notice_def two_items_def Let_def)

text \<open>
  C39.  Stopping the server empties the table and closes exactly the sessions that stood in it: those that came when
  it was full, or were in it when the server was started again, stay alive, and their requests are still answered.
\<close>

theorem jsonrpc_stop_leaves_lost:
  assumes "jsonrpc_reachable env s" "a \<in> lost s" "sv_request_handler s = Some f"
    and "je_parse env m = Some req" "is_object req" "m \<noteq> []" "NUL \<notin> set m" "length m < 2 ^ 31 - 16" "junk \<noteq> []" "\<forall>t. je_write env t = 0"
    and "je_print env (response_object (request_id req) (f (Option.bind (get_item req ''method'') value_string) (get_item req ''params''))) = Some r"
    and "r \<noteq> []" "length r < 2 ^ 32"
  shows "\<exists>t u. jsonrpc_server_stop s = Inr (t, 0) \<and> \<not> sv_server_socket t \<and> sv_sessions t = replicate 10 None \<and> sv_heap t = sv_heap s |` lost s \<and>
    jsonrpc_connection_on_read (Suc (Suc fuel)) env a (frame m) junk (int (length (frame m))) t = Some (Inr u) \<and>
    map_option ss_out (sv_heap u a) = Some (ss_out (the (sv_heap s a)) @ [frame r])"
proof -
  have same: "jsonrpc_stop_loop is s = Inr t \<Longrightarrow> sv_request_handler t = sv_request_handler s" for "is" s t
    by (induction "is" s rule: jsonrpc_stop_loop.induct)
      (auto simp: Let_def and_then_eq_Inr jsonrpc_connection_close_def jsonrpc_server_remove_session_def split: option.splits)
  obtain t where t: "jsonrpc_server_stop s = Inr (t, 0)" "sv_sessions t = replicate 10 None" "sv_heap t = sv_heap s |` lost s" "\<not> sv_server_socket t"
    using stop_table [OF reachable_table [OF assms(1)]] by blast
  have h: "sv_request_handler t = Some f" using t(1) same assms(3) by (fastforce simp: jsonrpc_server_stop_def and_then_eq_Inr)
  obtain c where c: "sv_heap s a = Some c" "sv_heap t a = Some c" using assms(2) t(3) by (auto simp: lost_def)
  have process: "jsonrpc_connection_process_message env (Some f) m (int (length m)) (ss_out c) = Inr (ss_out c @ [frame r], 0)"
    using assms(4-6,10-13)
    by (cases "get_item req ''method''") (simp_all add: jsonrpc_connection_process_message_def jsonrpc_connection_process_request_def
        jsonrpc_server_on_invoke_def jsonrpc_connection_reply_def jsonrpc_connection_send_message_def frame_def)
  have "jsonrpc_connection_process_buffer (Suc (Suc fuel)) env (Some f) (frame m) junk (ss_out c) = Some (Inr (ss_out c @ [frame r]))"
    unfolding jsonrpc_connection_process_buffer_def by (rule one_frame [OF assms(8,6,7) _ assms(9)]) (simp only: process, simp)
  moreover have "0 < length (frame m)" by (simp add: frame_def)
  ultimately have "jsonrpc_connection_on_read (Suc (Suc fuel)) env a (frame m) junk (int (length (frame m))) t =
      Some (Inr (t\<lparr>sv_heap := (sv_heap t)(a \<mapsto> c\<lparr>ss_out := ss_out c @ [frame r]\<rparr>)\<rparr>))"
    using h c(2) by (simp add: jsonrpc_connection_on_read_def)
  then show ?thesis using t c by (intro exI [of _ t] exI [of _ "t\<lparr>sv_heap := (sv_heap t)(a \<mapsto> c\<lparr>ss_out := ss_out c @ [frame r]\<rparr>)\<rparr>"]) simp
qed

theorem jsonrpc_stop_leaves_lost_witness:
  "\<exists>t u. jsonrpc_server_stop ((accept_one ^^ 11) started) = Inr (t, 0) \<and> \<not> sv_server_socket t \<and> sv_sessions t = replicate 10 None \<and>
    sv_heap t = sv_heap ((accept_one ^^ 11) started) |` lost ((accept_one ^^ 11) started) \<and>
    jsonrpc_connection_on_read 2 two_items 10 (frame ''{q}'') ''junk'' (int (length (frame ''{q}''))) t = Some (Inr u) \<and>
    map_option ss_out (sv_heap u 10) = Some (ss_out (the (sv_heap ((accept_one ^^ 11) started) 10)) @ [frame ''{r}''])"
proof -
  have "sv_request_handler (jsonrpc_server_on_connection st ok s) = sv_request_handler s" for st ok s
    by (simp add: jsonrpc_server_on_connection_def jsonrpc_server_add_session_def Let_def split: option.splits)
  then have "sv_request_handler ((accept_one ^^ n) started) = Some adder" for n
    by (induction n) (simp_all add: started_def jsonrpc_server_start_def Let_def)
  then show ?thesis
    using jsonrpc_stop_leaves_lost [OF accepted_reachable, of 10 11 adder two_items "''{q}''"
        "request_object ''add'' 1 (Some (Json_array [Json_number 2, Json_number 3]))" "''junk''" "''{r}''" 0]
    by (simp add: eleven_accepted two_items_def Let_def request_id_def adder_def numeral_2_eq_2 [symmetric] response_object_def request_object_def
        get_item.simps strcaseeq_def to_lower_def is_upper_def)
qed

end
