(* ===== verification/JsonRpcSocket.thy ===== *)
theory JsonRpcSocket
  imports JsonRpc Slots
begin

text \<open>
  JSON-RPC over UDP, \<^verbatim>\<open>modules/networking/libjsonrpc/source/jsonrpc/socket.c\<close>: one socket that sends and answers
  requests and keeps a table of the ten peers that want notifications.
\<close>

section \<open>State\<close>

text \<open>
  The address of a peer.  \<^verbatim>\<open>uv_ip4_name\<close> and \<^verbatim>\<open>uv_ip6_name\<close> print its text, which fits the 32 bytes of a session
  for \<open>Inet\<close> and is cut there for \<open>Inet6\<close>; for any other family nothing is stored.
\<close>

datatype sockaddr =
    Inet string nat
  | Inet6 string nat
  | Other_family

type_synonym udp_session = "string \<times> nat"

text \<open>\<open>ue_ip4\<close> is \<^verbatim>\<open>uv_ip4_addr\<close>; \<open>je_write\<close> of \<open>ue_json\<close> is what \<^verbatim>\<open>uv_udp_send\<close> answers.\<close>

record udp_env =
  ue_json :: jsonrpc_env
  ue_ip4 :: "string \<Rightarrow> nat \<Rightarrow> sockaddr"

text \<open>
  \<open>so_rpc_socket\<close> is that the pointer is set, \<open>so_data\<close> that the handle refers back to the socket, \<open>so_closing\<close> that
  \<^verbatim>\<open>uv_close\<close> was called for the handle.  \<open>so_sent\<close> are the datagrams that were sent, \<open>so_told\<close> the calls of the
  response handler, \<open>so_asked\<close> those of the request handler.
\<close>

record jsonrpc_socket =
  so_port :: int
  so_next_request_id :: int
  so_rpc_socket :: bool
  so_data :: bool
  so_closing :: bool
  so_sessions :: "udp_session option list"
  so_request_handler :: "jsonrpc_handler option"
  so_response_handler :: bool
  so_sent :: "(sockaddr \<times> string) list"
  so_told :: "(int \<times> json option \<times> json option) list"
  so_asked :: "(string option \<times> json option) list"

definition jsonrpc_socket_init :: "int \<Rightarrow> jsonrpc_socket" where
  "jsonrpc_socket_init port =
     \<lparr>so_port = port, so_next_request_id = 0, so_rpc_socket = False, so_data = False, so_closing = False,
      so_sessions = replicate 10 None, so_request_handler = None, so_response_handler = False, so_sent = [], so_told = [], so_asked = []\<rparr>"

definition jsonrpc_socket_start :: "int \<Rightarrow> int \<Rightarrow> jsonrpc_handler option \<Rightarrow> bool \<Rightarrow> jsonrpc_socket \<Rightarrow> jsonrpc_socket \<times> int" where
  "jsonrpc_socket_start bound receiving request_handler response_handler s =
     (s\<lparr>so_sessions := replicate 10 None, so_request_handler := request_handler, so_response_handler := response_handler,
        so_next_request_id := 1, so_rpc_socket := True, so_data := True, so_closing := False\<rparr>,
      if bound \<noteq> 0 then -1 else if receiving \<noteq> 0 then -2 else 0)"

text \<open>libuv refuses to close a handle twice.\<close>

definition jsonrpc_socket_stop :: "jsonrpc_socket \<Rightarrow> (jsonrpc_socket \<times> int) exec" where
  "jsonrpc_socket_stop s =
     (if \<not> so_rpc_socket s then Inr (s, 0)
      else and_then (c_assert (\<not> so_closing s)) (\<lambda>_. Inr (s\<lparr>so_rpc_socket := False, so_closing := True\<rparr>, 0)))"

section \<open>Sending\<close>

definition rpc_socket_get_name :: "sockaddr \<Rightarrow> udp_session" where
  "rpc_socket_get_name remote = (case remote of Inet a p \<Rightarrow> (a, p) | Inet6 a p \<Rightarrow> (take 31 a, p) | Other_family \<Rightarrow> ([], 0))"

definition rpc_socket_send_message :: "udp_env \<Rightarrow> sockaddr \<Rightarrow> string \<Rightarrow> jsonrpc_socket \<Rightarrow> jsonrpc_socket \<times> int" where
  "rpc_socket_send_message env remote message s =
     (if message = [] then (s, -1)
      else if \<not> so_rpc_socket s then (s, -1)
      else
        let ret = je_write (ue_json env) message
        in (if ret = 0 then s\<lparr>so_sent := so_sent s @ [(remote, message)]\<rparr> else s, ret))"

definition rpc_socket_send_notify :: "udp_env \<Rightarrow> sockaddr \<Rightarrow> string \<Rightarrow> json option \<Rightarrow> jsonrpc_socket \<Rightarrow> jsonrpc_socket" where
  "rpc_socket_send_notify env remote meth params s =
     (case je_print (ue_json env) (notify_object meth params) of None \<Rightarrow> s
      | Some message \<Rightarrow> fst (rpc_socket_send_message env remote message s))"

text \<open>\<^verbatim>\<open>request_id\<close> is incremented before anything is sent.\<close>

definition rpc_socket_send_request :: "udp_env \<Rightarrow> sockaddr \<Rightarrow> string \<Rightarrow> json option \<Rightarrow> jsonrpc_socket \<Rightarrow> jsonrpc_socket \<times> int" where
  "rpc_socket_send_request env remote meth params s =
     (let i = so_next_request_id s; s = s\<lparr>so_next_request_id := to_int32 (i + 1)\<rparr>
      in (case je_print (ue_json env) (request_object meth i params) of None \<Rightarrow> s
          | Some message \<Rightarrow> fst (rpc_socket_send_message env remote message s), i))"

section \<open>Receiving\<close>

definition rpc_socket_process_response :: "json \<Rightarrow> jsonrpc_socket \<Rightarrow> jsonrpc_socket" where
  "rpc_socket_process_response req s =
     (if \<not> so_response_handler s then s
      else s\<lparr>so_told := so_told s @ [(request_id req, get_item req ''result'', get_item req ''error'')]\<rparr>)"

text \<open>The first loop: the first session with the port is the peer, whatever its address.\<close>

fun find_port :: "udp_session option list \<Rightarrow> nat \<Rightarrow> nat option" where
  "find_port [] p = None"
| "find_port (x # slots) p =
     (case x of
        Some (a, q) \<Rightarrow> if q = p then Some 0 else map_option Suc (find_port slots p)
      | None \<Rightarrow> map_option Suc (find_port slots p))"

definition rpc_socket_process_subscribe :: "sockaddr \<Rightarrow> bool \<Rightarrow> jsonrpc_socket \<Rightarrow> jsonrpc_socket" where
  "rpc_socket_process_subscribe remote subscribe s =
     (let session = rpc_socket_get_name remote in
      case find_port (so_sessions s) (snd session) of
        Some i \<Rightarrow> if subscribe then s else s\<lparr>so_sessions := (so_sessions s)[i := None]\<rparr>
      | None \<Rightarrow>
          if \<not> subscribe then s
          else case put_slot (so_sessions s) session of None \<Rightarrow> s | Some slots \<Rightarrow> s\<lparr>so_sessions := slots\<rparr>)"

text \<open>A request without a positive identifier is not answered.\<close>

definition rpc_socket_process_request :: "udp_env \<Rightarrow> sockaddr \<Rightarrow> json \<Rightarrow> jsonrpc_socket \<Rightarrow> jsonrpc_socket" where
  "rpc_socket_process_request env remote req s =
     (case so_request_handler s of None \<Rightarrow> s
      | Some handler \<Rightarrow>
          let meth = (case get_item req ''method'' of None \<Rightarrow> None | Some v \<Rightarrow> value_string v);
              params = get_item req ''params'';
              i = request_id req;
              s = (if meth = Some ''jsonrpc.subscribe'' then rpc_socket_process_subscribe remote True s
                   else if meth = Some ''jsonrpc.unsubscribe'' then rpc_socket_process_subscribe remote False s
                   else s);
              result = handler meth params;
              s = s\<lparr>so_asked := so_asked s @ [(meth, params)]\<rparr>
          in if i \<le> 0 then s
             else case je_print (ue_json env) (response_object i result) of None \<Rightarrow> s
                  | Some message \<Rightarrow> fst (rpc_socket_send_message env remote message s))"

definition rpc_socket_process_message :: "udp_env \<Rightarrow> sockaddr \<Rightarrow> string \<Rightarrow> int \<Rightarrow> jsonrpc_socket \<Rightarrow> jsonrpc_socket" where
  "rpc_socket_process_message env remote message nread s =
     (if nread \<le> 0 then s
      else case je_parse (ue_json env) message of None \<Rightarrow> s
      | Some req \<Rightarrow>
          if \<not> is_object req then s
          else if get_item req ''method'' \<noteq> None then rpc_socket_process_request env remote req s
          else rpc_socket_process_response req s)"

text \<open>The pointer to the handle is kept.\<close>

definition rpc_socket_on_close :: "jsonrpc_socket \<Rightarrow> jsonrpc_socket exec" where
  "rpc_socket_on_close s =
     and_then (in_bounds (so_rpc_socket s)) (\<lambda>_.
     and_then (c_assert (\<not> so_closing s)) (\<lambda>_. Inr (s\<lparr>so_sessions := replicate 10 None, so_data := False, so_closing := True\<rparr>)))"

text \<open>\<open>room\<close> is the size of the block that libuv was given; the terminator is stored behind the datagram.\<close>

definition rpc_socket_on_read :: "udp_env \<Rightarrow> nat \<Rightarrow> string \<Rightarrow> int \<Rightarrow> sockaddr option \<Rightarrow> jsonrpc_socket \<Rightarrow> jsonrpc_socket exec" where
  "rpc_socket_on_read env room data nread remote s =
     (if \<not> so_data s then Inr s
      else case remote of None \<Rightarrow> Inr s
      | Some r \<Rightarrow>
          if nread > 0 then
            and_then (in_bounds (nat nread < room)) (\<lambda>_.
            Inr (rpc_socket_process_message env r (takeWhile (\<lambda>c. c \<noteq> NUL) data) nread s))
          else if nread < 0 then rpc_socket_on_close s
          else Inr s)"

section \<open>The application's side\<close>

fun rpc_notify_loop :: "udp_env \<Rightarrow> string \<Rightarrow> json \<Rightarrow> udp_session option list \<Rightarrow> jsonrpc_socket \<Rightarrow> jsonrpc_socket" where
  "rpc_notify_loop env meth j [] s = s"
| "rpc_notify_loop env meth j (None # slots) s = rpc_notify_loop env meth j slots s"
| "rpc_notify_loop env meth j (Some (a, p) # slots) s =
     rpc_notify_loop env meth j slots (rpc_socket_send_notify env (ue_ip4 env a p) meth (Some j) s)"

definition jsonrpc_socket_notify :: "udp_env \<Rightarrow> string option \<Rightarrow> json option \<Rightarrow> jsonrpc_socket \<Rightarrow> jsonrpc_socket \<times> int" where
  "jsonrpc_socket_notify env meth message s =
     (case (meth, message) of
        (Some m, Some j) \<Rightarrow> if m = [] then (s, -1) else (rpc_notify_loop env m j (so_sessions s) s, 0)
      | _ \<Rightarrow> (s, -1))"

definition jsonrpc_socket_send :: "udp_env \<Rightarrow> string \<Rightarrow> json option \<Rightarrow> string \<Rightarrow> nat \<Rightarrow> jsonrpc_socket \<Rightarrow> jsonrpc_socket \<times> int" where
  "jsonrpc_socket_send env meth message address port s = rpc_socket_send_request env (ue_ip4 env address port) meth message s"

end
