(* ===== verification/JsonRpcSocketProps.thy ===== *)
theory JsonRpcSocketProps
  imports JsonRpcSocket JsonRpcProps
begin

text \<open>
  The subscribers of a JSON-RPC socket: the table is a set of at most ten peers with different ports, and a
  notification is sent to each of them once.
\<close>

section \<open>The reference: a bounded set\<close>

text \<open>What a subscription (\<open>True\<close>) or its end does to the set of subscribers.\<close>

definition enlist :: "udp_session \<times> bool \<Rightarrow> udp_session set \<Rightarrow> udp_session set" where
  "enlist = (\<lambda>(x, on) S. if \<not> on then {y \<in> S. snd y \<noteq> snd x} else if snd x \<in> snd ` S \<or> 10 \<le> card S then S else insert x S)"

text \<open>The subscription that a datagram is.\<close>

definition subscription :: "udp_env \<Rightarrow> string \<Rightarrow> bool option" where
  "subscription env data =
     (case je_parse (ue_json env) (takeWhile (\<lambda>c. c \<noteq> NUL) data) of None \<Rightarrow> None
      | Some req \<Rightarrow>
          if \<not> is_object req then None
          else if Option.bind (get_item req ''method'') value_string = Some ''jsonrpc.subscribe'' then Some True
          else if Option.bind (get_item req ''method'') value_string = Some ''jsonrpc.unsubscribe'' then Some False
          else None)"

fun subscribers :: "udp_env \<Rightarrow> (sockaddr \<times> string) list \<Rightarrow> udp_session set \<Rightarrow> udp_session set" where
  "subscribers env [] S = S"
| "subscribers env ((r, data) # ds) S =
     subscribers env ds (case subscription env data of None \<Rightarrow> S | Some on \<Rightarrow> enlist (rpc_socket_get_name r, on) S)"

text \<open>A run over datagrams, each shorter than the block that it is read into.\<close>

fun receive :: "udp_env \<Rightarrow> nat \<Rightarrow> (sockaddr \<times> string) list \<Rightarrow> jsonrpc_socket \<Rightarrow> jsonrpc_socket exec" where
  "receive env room [] s = Inr s"
| "receive env room ((r, data) # ds) s =
     and_then (rpc_socket_on_read env room data (int (length data)) (Some r) s) (receive env room ds)"

section \<open>The table\<close>

definition peers_ok :: "jsonrpc_socket \<Rightarrow> bool" where
  "peers_ok s \<longleftrightarrow> length (so_sessions s) = 10 \<and> distinct (map snd (live (so_sessions s))) \<and>
     so_data s \<and> so_rpc_socket s \<and> \<not> so_closing s \<and> so_request_handler s \<noteq> None"

definition peers :: "jsonrpc_socket \<Rightarrow> udp_session set" where
  "peers s = set (live (so_sessions s))"

lemma find_port_None: "find_port xs p = None \<longleftrightarrow> p \<notin> snd ` set (live xs)"
proof (induction xs)
  case (Cons x xs)
  show ?case
  proof (cases x)
    case (Some y)
    then show ?thesis using Cons by (cases y) auto
  qed (use Cons in simp)
qed simp

lemma find_port_Some: "find_port xs p = Some i \<Longrightarrow> i < length xs \<and> (\<exists>a. xs ! i = Some (a, p))"
proof (induction xs arbitrary: i)
  case (Cons x xs)
  then show ?case by (cases x) (auto split: if_splits)
qed simp

lemma live_length: "length (live xs) \<le> length xs" "length (live xs) = length xs \<longleftrightarrow> None \<notin> set xs"
proof -
  have "length (live xs) \<le> length xs \<and> (length (live xs) = length xs \<longleftrightarrow> None \<notin> set xs)"
  proof (induction xs)
    case (Cons x xs)
    then show ?case by (cases x) auto
  qed simp
  then show "length (live xs) \<le> length xs" "length (live xs) = length xs \<longleftrightarrow> None \<notin> set xs" by simp_all
qed

lemma subscribe_table:
  assumes "peers_ok s"
  shows "peers_ok (rpc_socket_process_subscribe r on s) \<and> peers (rpc_socket_process_subscribe r on s) = enlist (rpc_socket_get_name r, on) (peers s)"
proof -
  let ?x = "rpc_socket_get_name r" and ?xs = "so_sessions s"
  have d: "distinct (map snd (live ?xs))" "length ?xs = 10" using assms by (simp_all add: peers_ok_def)
  show ?thesis
  proof (cases "find_port ?xs (snd ?x)")
    case (Some i)
    obtain a where i: "i < length ?xs" "?xs ! i = Some (a, snd ?x)" using find_port_Some [OF Some] by blast
    obtain P Q where pq: "live ?xs = P @ (a, snd ?x) # Q" "live (?xs[i := None]) = P @ Q" using update_live [OF i] by blast
    have "\<forall>y \<in> set (P @ Q). snd y \<noteq> snd ?x" using d(1) unfolding pq by (auto simp: image_iff)
    then have "{y \<in> set (live ?xs). snd y \<noteq> snd ?x} = set (P @ Q)" unfolding pq by auto
    moreover have "snd ?x \<in> snd ` set (live ?xs)" unfolding pq by simp
    ultimately have "{y \<in> set (live ?xs). snd y \<noteq> snd ?x} = set (P @ Q)" "snd ?x \<in> snd ` set (live ?xs)" by simp_all
    then show ?thesis using assms d pq Some
      by (cases on) (simp_all add: rpc_socket_process_subscribe_def enlist_def peers_def peers_ok_def Let_def)
  next
    case None
    then have new: "snd ?x \<notin> snd ` set (live ?xs)" by (simp add: find_port_None)
    have card: "card (set (live ?xs)) = length (live ?xs)" using d(1) by (simp add: distinct_card distinct_map)
    show ?thesis
    proof (cases on)
      case False
      then have "{y \<in> set (live ?xs). snd y \<noteq> snd ?x} = set (live ?xs)" using new by (auto simp: image_iff)
      then show ?thesis using assms None False by (simp add: rpc_socket_process_subscribe_def enlist_def peers_def Let_def)
    next
      case True
      show ?thesis
      proof (cases "put_slot ?xs ?x")
        case None
        then have "10 \<le> card (set (live ?xs))" using live_length(2) [of ?xs] card d(2) by (simp add: put_slot_full)
        then show ?thesis using assms None \<open>find_port ?xs (snd ?x) = None\<close> True
          by (simp add: rpc_socket_process_subscribe_def enlist_def peers_def Let_def)
      next
        case (Some slots)
        obtain P Q where pq: "length slots = length ?xs" "live ?xs = P @ Q" "live slots = P @ ?x # Q" using put_slot_live [OF Some] by blast
        have "None \<in> set ?xs" using Some put_slot_full [of ?xs ?x] by fastforce
        then have "\<not> 10 \<le> card (set (live ?xs))" using live_length [of ?xs] card d(2) by fastforce
        moreover have "distinct (map snd (live slots))" using pq(2,3) d(1) new by auto
        moreover have "set (live slots) = insert ?x (set (live ?xs))" using pq by auto
        ultimately show ?thesis using assms None Some True new pq(1)
          by (simp add: rpc_socket_process_subscribe_def enlist_def peers_def peers_ok_def Let_def)
      qed
    qed
  qed
qed

lemma send_message_table [simp]:
  "peers_ok (fst (rpc_socket_send_message env r m s)) = peers_ok s" "peers (fst (rpc_socket_send_message env r m s)) = peers s"
  by (simp_all add: rpc_socket_send_message_def peers_ok_def peers_def Let_def)

lemma asked_table [simp]:
  "peers_ok (s\<lparr>so_asked := c\<rparr>) = peers_ok s" "peers (s\<lparr>so_asked := c\<rparr>) = peers s"
  "peers_ok (s\<lparr>so_told := b\<rparr>) = peers_ok s" "peers (s\<lparr>so_told := b\<rparr>) = peers s"
  by (simp_all add: peers_ok_def peers_def)

lemma request_table:
  assumes "peers_ok s" "get_item req ''method'' \<noteq> None"
  shows "peers_ok (rpc_socket_process_request env r req s) \<and> peers (rpc_socket_process_request env r req s) =
    (let m = Option.bind (get_item req ''method'') value_string in
     if m = Some ''jsonrpc.subscribe'' then enlist (rpc_socket_get_name r, True) (peers s)
     else if m = Some ''jsonrpc.unsubscribe'' then enlist (rpc_socket_get_name r, False) (peers s) else peers s)"
proof -
  obtain handler where h: "so_request_handler s = Some handler" using assms(1) by (auto simp: peers_ok_def)
  obtain v where v: "get_item req ''method'' = Some v" using assms(2) by blast
  consider "value_string v = Some ''jsonrpc.subscribe''" | "value_string v = Some ''jsonrpc.unsubscribe''"
    | "value_string v \<noteq> Some ''jsonrpc.subscribe''" "value_string v \<noteq> Some ''jsonrpc.unsubscribe''" by blast
  then show ?thesis
    using assms(1) subscribe_table [OF assms(1), of r True] subscribe_table [OF assms(1), of r False]
    by cases (simp_all add: rpc_socket_process_request_def h v Let_def split: option.splits)
qed

lemma read_table:
  assumes "peers_ok s" "0 < length data" "length data < room"
  shows "\<exists>t. rpc_socket_on_read env room data (int (length data)) (Some r) s = Inr t \<and> peers_ok t \<and>
    peers t = (case subscription env data of None \<Rightarrow> peers s | Some on \<Rightarrow> enlist (rpc_socket_get_name r, on) (peers s))"
proof -
  let ?m = "takeWhile (\<lambda>c. c \<noteq> NUL) data" and ?n = "int (length data)"
  have run: "rpc_socket_on_read env room data ?n (Some r) s = Inr (rpc_socket_process_message env r ?m ?n s)"
    using assms by (simp add: rpc_socket_on_read_def peers_ok_def)
  show ?thesis
  proof (cases "je_parse (ue_json env) ?m")
    case None
    then show ?thesis using run assms(1,2) by (simp add: rpc_socket_process_message_def subscription_def)
  next
    case (Some req)
    show ?thesis
    proof (cases "is_object req \<and> get_item req ''method'' \<noteq> None")
      case True
      then show ?thesis using run assms(1,2) Some request_table [OF assms(1), of req env r]
        by (simp add: rpc_socket_process_message_def subscription_def Let_def)
    next
      case False
      then show ?thesis using run assms(1,2) Some
        by (auto simp: rpc_socket_process_message_def subscription_def rpc_socket_process_response_def)
    qed
  qed
qed

lemma receive_table:
  assumes "peers_ok s" "\<forall>(r, data) \<in> set ds. 0 < length data \<and> length data < room"
  shows "\<exists>t. receive env room ds s = Inr t \<and> peers_ok t \<and> peers t = subscribers env ds (peers s)"
  using assms
proof (induction ds arbitrary: s)
  case (Cons d ds)
  obtain r data where d: "d = (r, data)" by (cases d)
  then obtain t where t: "rpc_socket_on_read env room data (int (length data)) (Some r) s = Inr t" "peers_ok t"
      "peers t = (case subscription env data of None \<Rightarrow> peers s | Some on \<Rightarrow> enlist (rpc_socket_get_name r, on) (peers s))"
    using read_table [OF Cons.prems(1), of data room env r] Cons.prems(2) by auto
  show ?case using Cons.IH [OF t(2)] Cons.prems(2) d t by simp
qed simp

lemma notify_loop_sent:
  assumes "je_print (ue_json env) (notify_object meth (Some j)) = Some m" "m \<noteq> []" "je_write (ue_json env) m = 0" "so_rpc_socket s"
  shows "rpc_notify_loop env meth j slots s = s\<lparr>so_sent := so_sent s @ map (\<lambda>(a, p). (ue_ip4 env a p, m)) (live slots)\<rparr>"
  using assms(4)
proof (induction slots arbitrary: s)
  case (Cons x slots)
  show ?case
  proof (cases x)
    case (Some y)
    obtain a p where y: "y = (a, p)" by (cases y)
    have "rpc_socket_send_notify env (ue_ip4 env a p) meth (Some j) s = s\<lparr>so_sent := so_sent s @ [(ue_ip4 env a p, m)]\<rparr>"
      using assms(1-3) Cons.prems by (simp add: rpc_socket_send_notify_def rpc_socket_send_message_def)
    then show ?thesis using Cons Some y by simp
  qed (use Cons in simp)
qed simp

section \<open>What the socket does\<close>

definition started_socket :: "jsonrpc_handler \<Rightarrow> int \<Rightarrow> jsonrpc_socket" where
  "started_socket f port = fst (jsonrpc_socket_start 0 0 (Some f) True (jsonrpc_socket_init port))"

lemma started_table: "peers_ok (started_socket f port) \<and> peers (started_socket f port) = {}"
  by (simp add: started_socket_def jsonrpc_socket_start_def jsonrpc_socket_init_def peers_ok_def peers_def)

text \<open>
  C40.  Whatever datagrams a socket received since it was started, its subscribers are the set that the reference
  computes: at most ten, no two with the same port.  A notification is one datagram to each of them.
\<close>

theorem jsonrpc_subscribers_notified:
  assumes "\<forall>(r, data) \<in> set ds. 0 < length data \<and> length data < room" "meth \<noteq> []"
    and "je_print (ue_json env) (notify_object meth (Some j)) = Some m" "m \<noteq> []" "je_write (ue_json env) m = 0"
  shows "\<exists>s t. receive env room ds (started_socket f port) = Inr s \<and> set (live (so_sessions s)) = subscribers env ds {} \<and>
    distinct (map snd (live (so_sessions s))) \<and> length (live (so_sessions s)) \<le> 10 \<and>
    jsonrpc_socket_notify env (Some meth) (Some j) s = (t, 0) \<and>
    so_sent t = so_sent s @ map (\<lambda>(a, p). (ue_ip4 env a p, m)) (live (so_sessions s))"
proof -
  obtain s where s: "receive env room ds (started_socket f port) = Inr s" "peers_ok s" "peers s = subscribers env ds {}"
    using receive_table [OF _ assms(1)] started_table [of f port] by fastforce
  moreover have "length (live (so_sessions s)) \<le> 10" using live_length(1) [of "so_sessions s"] s(2) by (simp add: peers_ok_def)
  moreover have "so_rpc_socket s" using s(2) by (simp add: peers_ok_def)
  ultimately show ?thesis using assms(2) notify_loop_sent [OF assms(3-5), of s "so_sessions s"]
    by (simp add: peers_ok_def peers_def jsonrpc_socket_notify_def)
qed

text \<open>A library that knows the two subscription requests and one notification.\<close>

definition subscribe_text :: "string \<Rightarrow> json" where
  "subscribe_text meth = Json_object [(''method'', Json_string meth)]"

definition udp_library :: udp_env where
  "udp_library = \<lparr>ue_json = \<lparr>je_parse = (\<lambda>m. if m = ''s'' then Some (subscribe_text ''jsonrpc.subscribe'')
      else if m = ''u'' then Some (subscribe_text ''jsonrpc.unsubscribe'') else None), je_print = (\<lambda>_. Some ''n''), je_write = (\<lambda>_. 0)\<rparr>,
    ue_ip4 = Inet\<rparr>"

theorem jsonrpc_subscribers_notified_witness:
  "\<exists>s t. receive udp_library 64 [(Inet ''10.0.0.1'' 5000, ''s''), (Inet ''10.0.0.2'' 5001, ''s''), (Inet ''10.0.0.1'' 5000, ''u'')]
      (started_socket adder 8801) = Inr s \<and>
    set (live (so_sessions s)) = subscribers udp_library [(Inet ''10.0.0.1'' 5000, ''s''), (Inet ''10.0.0.2'' 5001, ''s''), (Inet ''10.0.0.1'' 5000, ''u'')] {} \<and>
    distinct (map snd (live (so_sessions s))) \<and> length (live (so_sessions s)) \<le> 10 \<and>
    jsonrpc_socket_notify udp_library (Some ''tick'') (Some Json_null) s = (t, 0) \<and>
    so_sent t = so_sent s @ map (\<lambda>(a, p). (ue_ip4 udp_library a p, ''n'')) (live (so_sessions s))"
  by (rule jsonrpc_subscribers_notified) (simp_all add: udp_library_def)

text \<open>
  A peer is known by its port alone.  While a peer is subscribed, the subscription of another host with the same
  port is dropped, and when that host ends its subscription the first peer is forgotten.
\<close>

lemma jsonrpc_same_port_conflated:
  assumes "\<forall>(r, data) \<in> set ds. 0 < length data \<and> length data < room" "(a, p) \<in> subscribers env ds {}"
    and "subscription env on = Some True" "subscription env off = Some False" "on \<noteq> []" "off \<noteq> []" "length on < room" "length off < room"
  shows "\<exists>s t u. receive env room ds (started_socket f port) = Inr s \<and>
    rpc_socket_on_read env room on (int (length on)) (Some (Inet b p)) s = Inr t \<and> set (live (so_sessions t)) = set (live (so_sessions s)) \<and>
    rpc_socket_on_read env room off (int (length off)) (Some (Inet b p)) t = Inr u \<and> (a, p) \<in> set (live (so_sessions t)) \<and>
    (a, p) \<notin> set (live (so_sessions u))"
proof -
  obtain s where s: "receive env room ds (started_socket f port) = Inr s" "peers_ok s" "peers s = subscribers env ds {}"
    using receive_table [OF _ assms(1)] started_table [of f port] by fastforce
  have name: "rpc_socket_get_name (Inet b p) = (b, p)" by (simp add: rpc_socket_get_name_def)
  have p: "p \<in> snd ` peers s" using assms(2) s(3) by force
  obtain t where t: "rpc_socket_on_read env room on (int (length on)) (Some (Inet b p)) s = Inr t" "peers_ok t" "peers t = peers s"
    using read_table [OF s(2), of on room env "Inet b p"] assms(3,5,7) name p by (auto simp: enlist_def)
  obtain u where "rpc_socket_on_read env room off (int (length off)) (Some (Inet b p)) t = Inr u" "peers u = {y \<in> peers t. snd y \<noteq> p}"
    using read_table [OF t(2), of off room env "Inet b p"] assms(4,6,8) name by (auto simp: enlist_def)
  then show ?thesis using s(1,3) t assms(2) by (intro exI [of _ s] exI [of _ t] exI [of _ u]) (simp add: peers_def)
qed

lemma jsonrpc_same_port_conflated_witness:
  "\<exists>s t u. receive udp_library 64 [(Inet ''10.0.0.1'' 5000, ''s'')] (started_socket adder 8801) = Inr s \<and>
    rpc_socket_on_read udp_library 64 ''s'' (int (length ''s'')) (Some (Inet ''10.0.0.2'' 5000)) s = Inr t \<and>
    set (live (so_sessions t)) = set (live (so_sessions s)) \<and>
    rpc_socket_on_read udp_library 64 ''u'' (int (length ''u'')) (Some (Inet ''10.0.0.2'' 5000)) t = Inr u \<and>
    (''10.0.0.1'', 5000) \<in> set (live (so_sessions t)) \<and> (''10.0.0.1'', 5000) \<notin> set (live (so_sessions u))"
proof -
  have "strcaseeq ''method'' ''method''" by (simp add: strcaseeq_def)
  then show ?thesis
    by (intro jsonrpc_same_port_conflated)
      (simp_all add: udp_library_def subscription_def subscribe_text_def enlist_def rpc_socket_get_name_def)
qed

text \<open>
  After a read error the handle is closed, but the pointer to it is kept: stopping the socket then closes the
  handle a second time, which libuv answers with an abort.
\<close>

lemma jsonrpc_stop_after_error_aborts:
  assumes "\<forall>(r, data) \<in> set ds. 0 < length data \<and> length data < room" "nread < 0"
  shows "\<exists>s t. receive env room ds (started_socket f port) = Inr s \<and> rpc_socket_on_read env room [] nread (Some r) s = Inr t \<and>
    jsonrpc_socket_stop t = Inl Assert_failed"
proof -
  obtain s where s: "receive env room ds (started_socket f port) = Inr s" "peers_ok s"
    using receive_table [OF _ assms(1)] started_table [of f port] by fastforce
  then show ?thesis using assms(2)
    by (simp add: rpc_socket_on_read_def rpc_socket_on_close_def peers_ok_def jsonrpc_socket_stop_def)
qed

lemma jsonrpc_stop_after_error_aborts_witness:
  "\<exists>s t. receive udp_library 64 [(Inet ''10.0.0.1'' 5000, ''s'')] (started_socket adder 8801) = Inr s \<and>
    rpc_socket_on_read udp_library 64 [] (-104) (Some (Inet ''10.0.0.1'' 5000)) s = Inr t \<and> jsonrpc_socket_stop t = Inl Assert_failed"
  by (rule jsonrpc_stop_after_error_aborts) simp_all

end
