(* ===== verification/MdnsCache.thy ===== *)
theory MdnsCache
  imports Dns1035 Xht
begin

text \<open>
  The cache and the queries of \<^verbatim>\<open>modules/mdns/src/libmdnsd/mdnsd.c\<close>.  A cached record stands in the bucket of its
  name; it refers to the query that wants it, a block of the heap known by its address.  The buckets and the lists of
  queries are lists; \<open>md_told\<close> are the calls of the application's answer functions, which do nothing to the daemon.
  Allocations succeed, and time is the second of \<^verbatim>\<open>now\<close>.
\<close>

section \<open>State\<close>

abbreviation (input) SPRIME :: nat where "SPRIME \<equiv> 108"
abbreviation (input) LPRIME :: nat where "LPRIME \<equiv> 1009"
abbreviation (input) GC :: nat where "GC \<equiv> 86400"

record mdns_answer =
  ma_name :: "byte list"
  ma_type :: "16 word"
  ma_ttl :: nat
  ma_rdlen :: "16 word"
  ma_rdata :: "byte list option"
  ma_ip :: "32 word"
  ma_rdname :: "byte list option"
  ma_srv :: "16 word \<times> 16 word \<times> 16 word"

record cached =
  ca_rr :: mdns_answer
  ca_q :: "nat option"

record mdns_query =
  mq_name :: "byte list"
  mq_type :: "16 word"
  mq_nexttry :: nat
  mq_tries :: nat
  mq_answer :: nat

record mdns_daemon =
  md_now :: nat
  md_expireall :: nat
  md_checkqlist :: nat
  md_class :: "16 word"
  md_frame :: int
  md_cache :: "cached list list"
  md_queries :: "nat list list"
  md_qlist :: "nat list"
  md_qheap :: "nat \<Rightarrow> mdns_query option"
  md_qfresh :: nat
  md_told :: "(nat \<times> mdns_answer) list"

definition mdnsd_new :: "nat \<Rightarrow> 16 word \<Rightarrow> int \<Rightarrow> mdns_daemon" where
  "mdnsd_new now class frame =
     \<lparr>md_now = now, md_expireall = now + GC, md_checkqlist = 0, md_class = class, md_frame = frame,
      md_cache = replicate LPRIME [], md_queries = replicate SPRIME [], md_qlist = [], md_qheap = Map.empty, md_qfresh = 0, md_told = []\<rparr>"

text \<open>\<open>answer f a\<close> is what the application's function \<open>f\<close> answers to the record \<open>a\<close>.\<close>

type_synonym answer_fun = "nat \<Rightarrow> mdns_answer \<Rightarrow> int"

section \<open>Hashing and lookups\<close>

definition namehash_step :: "64 word \<Rightarrow> byte \<Rightarrow> 64 word" where
  "namehash_step h c =
     (let h = push_bit 4 h + ucast c;
          g = h AND 0xF0000000;
          h = (if g \<noteq> 0 then h XOR drop_bit 24 g else h)
      in h AND NOT g)"

definition namehash :: "byte list \<Rightarrow> int" where
  "namehash s = to_int32 (uint (foldl namehash_step 0 s))"

text \<open>The bucket of a name in a table of \<open>p\<close>; the hash is not negative (see \<open>namehash_bounds\<close>).\<close>

definition bucket :: "nat \<Rightarrow> byte list \<Rightarrow> nat" where
  "bucket p s = nat (namehash s mod int p)"

definition at_query :: "mdns_daemon \<Rightarrow> nat \<Rightarrow> mdns_query exec" where
  "at_query d q = (case md_qheap d q of None \<Rightarrow> Inl Out_of_bounds | Some x \<Rightarrow> Inr x)"

text \<open>A new search of \<^verbatim>\<open>_q_next\<close>.\<close>

definition q_next :: "mdns_daemon \<Rightarrow> byte list \<Rightarrow> 16 word \<Rightarrow> nat option" where
  "q_next d name t =
     List.find (\<lambda>q. case md_qheap d q of None \<Rightarrow> False | Some x \<Rightarrow> mq_type x = t \<and> mq_name x = name) (md_queries d ! bucket SPRIME name)"

definition c_match :: "byte list \<Rightarrow> 16 word \<Rightarrow> cached \<Rightarrow> bool" where
  "c_match name t c \<longleftrightarrow> (t = ma_type (ca_rr c) \<or> t = QTYPE_ANY) \<and> ma_name (ca_rr c) = name"

text \<open>The entry behind \<open>last\<close>, a place in the bucket of the name, or the first.\<close>

definition c_next :: "mdns_daemon \<Rightarrow> nat option \<Rightarrow> byte list \<Rightarrow> 16 word \<Rightarrow> nat option" where
  "c_next d last_entry name t =
     (let b = md_cache d ! bucket LPRIME name; k = (case last_entry of None \<Rightarrow> 0 | Some i \<Rightarrow> i + 1)
      in List.find (\<lambda>i. c_match name t (b ! i)) [k..<length b])"

definition mdnsd_list :: "mdns_daemon \<Rightarrow> byte list \<Rightarrow> 16 word \<Rightarrow> nat option \<Rightarrow> nat option" where
  "mdnsd_list d name t last_entry = c_next d last_entry name t"

text \<open>A loop with \<^verbatim>\<open>_c_next\<close> over all matching entries.\<close>

definition each_match :: "byte list \<Rightarrow> 16 word \<Rightarrow> (cached \<Rightarrow> cached) \<Rightarrow> mdns_daemon \<Rightarrow> mdns_daemon" where
  "each_match name t f d =
     (let i = bucket LPRIME name in
      d\<lparr>md_cache := (md_cache d)[i := map (\<lambda>c. if c_match name t c then f c else c) (md_cache d ! i)]\<rparr>)"

definition set_ttl :: "nat \<Rightarrow> cached \<Rightarrow> cached" where
  "set_ttl t c = c\<lparr>ca_rr := (ca_rr c)\<lparr>ma_ttl := t\<rparr>\<rparr>"

definition put_query :: "nat \<Rightarrow> mdns_query \<Rightarrow> mdns_daemon \<Rightarrow> mdns_daemon" where
  "put_query q x d = d\<lparr>md_qheap := (md_qheap d)(q \<mapsto> x)\<rparr>"

section \<open>Queries\<close>

text \<open>The earliest retry, seven seconds before an entry expires; \<^verbatim>\<open>unsigned long\<close> wraps.\<close>

fun reset_loop :: "cached list \<Rightarrow> nat \<Rightarrow> nat" where
  "reset_loop [] nexttry = nexttry"
| "reset_loop (c # cs) nexttry =
     (let t = (ma_ttl (ca_rr c) + 2 ^ 64 - 7) mod 2 ^ 64 in reset_loop cs (if nexttry = 0 \<or> t < nexttry then t else nexttry))"

definition q_reset :: "nat \<Rightarrow> mdns_daemon \<Rightarrow> mdns_daemon exec" where
  "q_reset q d =
     and_then (at_query d q) (\<lambda>x.
     let n = reset_loop (filter (c_match (mq_name x) (mq_type x)) (md_cache d ! bucket LPRIME (mq_name x))) 0;
         d = put_query q (x\<lparr>mq_nexttry := n, mq_tries := 0\<rparr>) d
     in Inr (if n \<noteq> 0 \<and> n < md_checkqlist d then d\<lparr>md_checkqlist := n\<rparr> else d))"

text \<open>
  The index into the table of queries is computed for the table of the cache.  The searches in both lists run until the
  query is found.
\<close>

definition q_done :: "nat \<Rightarrow> mdns_daemon \<Rightarrow> mdns_daemon exec" where
  "q_done q d =
     and_then (at_query d q) (\<lambda>x.
     let i = bucket LPRIME (mq_name x); d = each_match (mq_name x) (mq_type x) (\<lambda>c. c\<lparr>ca_q := None\<rparr>) d
     in and_then (in_bounds (q \<in> set (md_qlist d))) (\<lambda>_.
        and_then (in_bounds (i < SPRIME)) (\<lambda>_.
        and_then (in_bounds (q \<in> set (md_queries d ! i))) (\<lambda>_.
        Inr (d\<lparr>md_qlist := remove1 q (md_qlist d), md_queries := (md_queries d)[i := remove1 q (md_queries d ! i)],
               md_qheap := (md_qheap d)(q := None)\<rparr>)))))"

text \<open>The entry \<open>c\<close> is handed to the function of its query.\<close>

definition q_answer :: "answer_fun \<Rightarrow> cached \<Rightarrow> mdns_daemon \<Rightarrow> mdns_daemon exec" where
  "q_answer answer c d =
     (let c = (if ma_ttl (ca_rr c) \<le> md_now d then set_ttl 0 c else c) in
      case ca_q c of None \<Rightarrow> Inl Out_of_bounds
      | Some q \<Rightarrow>
          and_then (at_query d q) (\<lambda>x.
          let d = d\<lparr>md_told := md_told d @ [(mq_answer x, ca_rr c)]\<rparr>
          in if answer (mq_answer x) (ca_rr c) = -1 then q_done q d else Inr d))"

text \<open>\<^verbatim>\<open>answer\<close> is \<open>None\<close> when no one wants the answers any more.\<close>

definition mdnsd_query :: "byte list \<Rightarrow> 16 word \<Rightarrow> nat option \<Rightarrow> mdns_daemon \<Rightarrow> mdns_daemon exec" where
  "mdnsd_query name t answer d =
     (case q_next d name t of
        Some q \<Rightarrow>
          (case answer of None \<Rightarrow> q_done q d
           | Some f \<Rightarrow> and_then (at_query d q) (\<lambda>x. Inr (put_query q (x\<lparr>mq_answer := f\<rparr>) d)))
      | None \<Rightarrow>
          (case answer of None \<Rightarrow> Inr d
           | Some f \<Rightarrow>
               let i = bucket SPRIME name; q = md_qfresh d;
                   d = put_query q \<lparr>mq_name = name, mq_type = t, mq_nexttry = 0, mq_tries = 0, mq_answer = f\<rparr> d;
                   d = d\<lparr>md_qfresh := q + 1, md_queries := (md_queries d)[i := q # md_queries d ! i], md_qlist := q # md_qlist d\<rparr>;
                   d = each_match name t (\<lambda>c. c\<lparr>ca_q := Some q\<rparr>) d
               in and_then (q_reset q d) (\<lambda>d.
                  and_then (at_query d q) (\<lambda>x. Inr (put_query q (x\<lparr>mq_nexttry := md_now d\<rparr>) (d\<lparr>md_checkqlist := md_now d\<rparr>))))))"

section \<open>The cache\<close>

text \<open>
  The loop of \<^verbatim>\<open>_c_expire\<close> over bucket \<open>i\<close>, at place \<open>k\<close>; an entry is unlinked before its query is told.  The first
  argument counts the entries that are left.
\<close>

primrec expire_loop :: "nat \<Rightarrow> answer_fun \<Rightarrow> nat \<Rightarrow> nat \<Rightarrow> mdns_daemon \<Rightarrow> mdns_daemon exec" where
  "expire_loop 0 answer i k d = Inr d"
| "expire_loop (Suc n) answer i k d =
     (let b = md_cache d ! i; c = b ! k
      in if ma_ttl (ca_rr c) \<le> md_now d
         then
           let d = d\<lparr>md_cache := (md_cache d)[i := take k b @ drop (k + 1) b]\<rparr>
           in and_then (if ca_q c = None then Inr d else q_answer answer c d) (expire_loop n answer i k)
         else expire_loop n answer i (k + 1) d)"

definition c_expire :: "answer_fun \<Rightarrow> nat \<Rightarrow> mdns_daemon \<Rightarrow> mdns_daemon exec" where
  "c_expire answer i d = expire_loop (length (md_cache d ! i)) answer i 0 d"

fun gc_loop :: "answer_fun \<Rightarrow> nat list \<Rightarrow> mdns_daemon \<Rightarrow> mdns_daemon exec" where
  "gc_loop answer [] d = Inr d"
| "gc_loop answer (i # is) d = and_then (c_expire answer i d) (gc_loop answer is)"

definition mdns_gc :: "answer_fun \<Rightarrow> mdns_daemon \<Rightarrow> mdns_daemon exec" where
  "mdns_gc answer d = and_then (gc_loop answer [0..<LPRIME] d) (\<lambda>d. Inr (d\<lparr>md_expireall := md_now d + GC\<rparr>))"

text \<open>The name a record of one of these types refers to.\<close>

definition known_name :: "resource \<Rightarrow> byte list option" where
  "known_name r =
     (case rr_known r of K_ns n \<Rightarrow> Some n | K_cname n \<Rightarrow> Some n | K_ptr n \<Rightarrow> Some n | K_srv priority weight port n \<Rightarrow> Some n | _ \<Rightarrow> None)"

text \<open>
  \<open>known_ip\<close> is what \<^verbatim>\<open>known.a.ip\<close> holds for a record that is no address: four bytes of a pointer, or of the
  service's numbers.
\<close>

definition a_match :: "(resource \<Rightarrow> 32 word) \<Rightarrow> resource \<Rightarrow> mdns_answer \<Rightarrow> bool exec" where
  "a_match known_ip r a =
     (if rr_name r \<noteq> ma_name a \<or> rr_type r \<noteq> ma_type a then Inr False
      else if rr_type r = QTYPE_SRV \<and> known_name r \<noteq> None \<and> ma_rdname a \<noteq> None \<and> known_name r = ma_rdname a \<and>
          (case rr_known r of K_srv priority weight port n \<Rightarrow> ma_srv a = (priority, weight, port) | _ \<Rightarrow> False) then Inr True
      else
        let named = (rr_type r = QTYPE_PTR \<or> rr_type r = QTYPE_NS \<or> rr_type r = QTYPE_CNAME) in
        and_then (in_bounds (\<not> named \<or> ma_rdname a \<noteq> None \<and> known_name r \<noteq> None)) (\<lambda>_.
        Inr (named \<and> ma_rdname a = known_name r \<or>
             rr_type r = QTYPE_A \<or> (case rr_known r of K_a ip n \<Rightarrow> ip | _ \<Rightarrow> known_ip r) = ma_ip a \<or>
             rr_rdlength r = ma_rdlen a \<and>
               (rr_rdlength r = 0 \<or> Some (take (unat (rr_rdlength r)) (rr_rdata r)) = ma_rdata a))))"

text \<open>
  The deletes of a goodbye: after each entry that is the one to delete the search starts over.  Each round removes an
  entry, or ends; the first argument counts the rounds.
\<close>

fun find_delete :: "(resource \<Rightarrow> 32 word) \<Rightarrow> resource \<Rightarrow> cached list \<Rightarrow> nat option exec" where
  "find_delete known_ip r [] = Inr None"
| "find_delete known_ip r (c # cs) =
     and_then (if c_match (rr_name r) (rr_type r) c then a_match known_ip r (ca_rr c) else Inr False) (\<lambda>found.
     if found then Inr (Some 0) else and_then (find_delete known_ip r cs) (\<lambda>k. Inr (map_option Suc k)))"

primrec delete_loop :: "nat \<Rightarrow> (resource \<Rightarrow> 32 word) \<Rightarrow> answer_fun \<Rightarrow> resource \<Rightarrow> mdns_daemon \<Rightarrow> mdns_daemon exec" where
  "delete_loop 0 known_ip answer r d = Inr d"
| "delete_loop (Suc n) known_ip answer r d =
     (let i = bucket LPRIME (rr_name r); b = md_cache d ! i in
      and_then (find_delete known_ip r b) (\<lambda>found.
      case found of None \<Rightarrow> Inr d
      | Some k \<Rightarrow> and_then (c_expire answer i (d\<lparr>md_cache := (md_cache d)[i := b[k := set_ttl 0 (b ! k)]]\<rparr>)) (delete_loop n known_ip answer r)))"

text \<open>The entry for a record that is not known yet; \<open>sender\<close> is the sender's address.\<close>

definition new_cached :: "resource \<Rightarrow> 32 word \<Rightarrow> nat \<Rightarrow> cached" where
  "new_cached r sender ttl =
     (let t = rr_type r in
      \<lparr>ca_rr = \<lparr>ma_name = rr_name r, ma_type = t, ma_ttl = ttl, ma_rdlen = rr_rdlength r,
         ma_rdata = (if rr_rdlength r = 0 then None else Some (take (unat (rr_rdlength r)) (rr_rdata r))),
         ma_ip = (case rr_known r of K_a ip n \<Rightarrow> if t = QTYPE_A then ip else 0
                  | _ \<Rightarrow> if t = QTYPE_NS \<or> t = QTYPE_CNAME \<or> t = QTYPE_PTR then sender else 0),
         ma_rdname = (if t = QTYPE_NS \<or> t = QTYPE_CNAME \<or> t = QTYPE_PTR \<or> t = QTYPE_SRV then known_name r else None),
         ma_srv = (case rr_known r of K_srv priority weight port n \<Rightarrow> if t = QTYPE_SRV then (priority, weight, port) else (0, 0, 0)
                   | _ \<Rightarrow> (0, 0, 0))\<rparr>,
       ca_q = None\<rparr>)"

text \<open>The entry that a record refreshes: for a pointer the one with the same target, otherwise the first.\<close>

definition same_entry :: "resource \<Rightarrow> cached \<Rightarrow> bool" where
  "same_entry r c \<longleftrightarrow> c_match (rr_name r) (rr_type r) c \<and> (rr_type r = QTYPE_PTR \<longrightarrow> ma_rdname (ca_rr c) = known_name r)"

fun refresh_first :: "(cached \<Rightarrow> bool) \<Rightarrow> nat \<Rightarrow> cached list \<Rightarrow> cached list option" where
  "refresh_first P ttl [] = None"
| "refresh_first P ttl (c # cs) = (if P c then Some (set_ttl ttl c # cs) else map_option ((#) c) (refresh_first P ttl cs))"

definition cache_entry :: "answer_fun \<Rightarrow> 32 word \<Rightarrow> resource \<Rightarrow> mdns_daemon \<Rightarrow> (mdns_daemon \<times> int) exec" where
  "cache_entry answer sender r d =
     (let i = bucket LPRIME (rr_name r); ttl = (md_now d + unat (rr_ttl r) div 2 + 8) mod 2 ^ 64
      in case refresh_first (same_entry r) ttl (md_cache d ! i) of
           Some b \<Rightarrow> Inr (d\<lparr>md_cache := (md_cache d)[i := b]\<rparr>, 0)
         | None \<Rightarrow>
             let q = q_next d (rr_name r) (rr_type r); c = (new_cached r sender ttl)\<lparr>ca_q := q\<rparr>;
                 c = (if q \<noteq> None \<and> ttl \<le> md_now d then set_ttl 0 c else c);
                 d = d\<lparr>md_cache := (md_cache d)[i := c # md_cache d ! i]\<rparr>
             in and_then (if q = None then Inr d else q_answer answer c d) (\<lambda>d. Inr (d, 0)))"

definition mdns_cache ::
    "(resource \<Rightarrow> 32 word) \<Rightarrow> answer_fun \<Rightarrow> 32 word \<Rightarrow> resource \<Rightarrow> mdns_daemon \<Rightarrow> (mdns_daemon \<times> int) exec" where
  "mdns_cache known_ip answer sender r d =
     (let i = bucket LPRIME (rr_name r) in
      and_then (if rr_class r = 32768 + md_class d then c_expire answer i (each_match (rr_name r) (rr_type r) (set_ttl 0) d) else Inr d) (\<lambda>d.
      if rr_ttl r = 0 then and_then (delete_loop (length (md_cache d ! i)) known_ip answer r d) (\<lambda>d. Inr (d, 0))
      else cache_entry answer sender r d))"

section \<open>Asking\<close>

text \<open>The bytes a record may take in a packet; \<^verbatim>\<open>INFO\<close> logs are left out.\<close>

definition rr_len :: "mdns_answer \<Rightarrow> int" where
  "rr_len a =
     12 + (if ma_rdata a = None then 0 else uint (ma_rdlen a)) + (case ma_rdname a of None \<Rightarrow> 0 | Some n \<Rightarrow> int (length n)) +
     (if ma_ip a = 0 then 0 else 4) + (if ma_type a = QTYPE_PTR then 6 else 0)"

text \<open>An address is in network byte order already; \<open>raw4\<close> are its bytes in memory.\<close>

definition raw4 :: "32 word \<Rightarrow> byte list" where
  "raw4 ip = [ucast ip, ucast (drop_bit 8 ip), ucast (drop_bit 16 ip), ucast (drop_bit 24 ip)]"

definition a_copy :: "bool \<Rightarrow> wire_message \<Rightarrow> mdns_answer \<Rightarrow> wire_message exec" where
  "a_copy sc m a =
     (case ma_rdata a of Some bs \<Rightarrow> message_rdata_raw m bs (ma_rdlen a)
      | None \<Rightarrow>
          and_then (if ma_ip a \<noteq> 0 then message_rdata_raw m (raw4 (ma_ip a)) 4 else Inr m) (\<lambda>m.
          if ma_type a = QTYPE_SRV then (case ma_srv a of (priority, weight, port) \<Rightarrow> message_rdata_srv sc m priority weight port (ma_rdname a))
          else if ma_rdname a \<noteq> None then message_rdata_name sc m (ma_rdname a)
          else Inr m))"

text \<open>The first pass over the list of queries: the questions, and the earliest other retry.\<close>

fun ask_loop :: "bool \<Rightarrow> mdns_daemon \<Rightarrow> nat list \<Rightarrow> wire_message \<Rightarrow> nat \<Rightarrow> (wire_message \<times> nat) exec" where
  "ask_loop sc d [] m nextbest = Inr (m, nextbest)"
| "ask_loop sc d (q # qs) m nextbest =
     and_then (at_query d q) (\<lambda>x.
     if 0 < mq_nexttry x \<and> mq_nexttry x \<le> md_now d \<and> mq_tries x < 3
     then and_then (message_qd sc m (Some (mq_name x)) (mq_type x) (md_class d)) (\<lambda>m. ask_loop sc d qs m nextbest)
     else ask_loop sc d qs m (if 0 < mq_nexttry x \<and> (nextbest = 0 \<or> mq_nexttry x < nextbest) then mq_nexttry x else nextbest))"

text \<open>The known answers of one query, as long as they are fresh and fit.\<close>

fun known_loop :: "bool \<Rightarrow> mdns_daemon \<Rightarrow> mdns_query \<Rightarrow> cached list \<Rightarrow> wire_message \<Rightarrow> wire_message exec" where
  "known_loop sc d x [] m = Inr m"
| "known_loop sc d x (c # cs) m =
     (if ma_ttl (ca_rr c) > md_now d + 8 \<and> int (message_packet_len m) + rr_len (ca_rr c) < md_frame d
      then
        and_then (message_an sc m (Some (mq_name x)) (mq_type x) (md_class d) (of_nat (ma_ttl (ca_rr c) - md_now d))) (\<lambda>m.
        and_then (a_copy sc m (ca_rr c)) (\<lambda>m. known_loop sc d x cs m))
      else Inr m)"

definition behind :: "nat list \<Rightarrow> nat \<Rightarrow> nat option" where
  "behind qs q = (case tl (dropWhile (\<lambda>p. p \<noteq> q) qs) of [] \<Rightarrow> None | p # ps \<Rightarrow> Some p)"

text \<open>
  The second pass.  Expiring may end the query at hand, which is then read again; the next query is the one behind it in
  the list as it stands then.  The first argument counts the queries that are left.
\<close>

primrec retry_loop ::
    "nat \<Rightarrow> bool \<Rightarrow> answer_fun \<Rightarrow> nat option \<Rightarrow> mdns_daemon \<Rightarrow> wire_message \<Rightarrow> int \<Rightarrow> nat \<Rightarrow> (mdns_daemon \<times> wire_message \<times> int \<times> nat) exec" where
  "retry_loop 0 sc answer at_q d m ret nextbest = Inr (d, m, ret, nextbest)"
| "retry_loop (Suc n) sc answer at_q d m ret nextbest =
     (case at_q of None \<Rightarrow> Inr (d, m, ret, nextbest)
      | Some q \<Rightarrow>
          and_then (at_query d q) (\<lambda>x.
          if mq_nexttry x = 0 \<or> mq_nexttry x > md_now d then retry_loop n sc answer (behind (md_qlist d) q) d m ret nextbest
          else if mq_tries x = 3 then
            and_then (c_expire answer (bucket LPRIME (mq_name x)) d) (\<lambda>d.
            and_then (q_reset q d) (\<lambda>d. retry_loop n sc answer (behind (md_qlist d) q) d m ret nextbest))
          else
            let x = x\<lparr>mq_tries := mq_tries x + 1, mq_nexttry := md_now d + (mq_tries x + 1)\<rparr>; d = put_query q x d;
                nextbest = (if nextbest = 0 \<or> mq_nexttry x < nextbest then mq_nexttry x else nextbest)
            in and_then (known_loop sc d x (filter (c_match (mq_name x) (mq_type x)) (md_cache d ! bucket LPRIME (mq_name x))) m) (\<lambda>m.
               retry_loop n sc answer (behind (md_qlist d) q) d m (ret + 1) nextbest)))"

text \<open>The end of \<^verbatim>\<open>mdnsd_out\<close>, when no response and no probe is to be sent: retries and garbage.\<close>

definition mdnsd_out_queries :: "bool \<Rightarrow> answer_fun \<Rightarrow> mdns_daemon \<Rightarrow> wire_message \<Rightarrow> int \<Rightarrow> (mdns_daemon \<times> wire_message \<times> int) exec" where
  "mdnsd_out_queries sc answer d m ret =
     and_then
       (if md_checkqlist d \<noteq> 0 \<and> md_now d \<ge> md_checkqlist d then
          and_then (ask_loop sc d (md_qlist d) m 0) (\<lambda>(m, nextbest).
          and_then (retry_loop (length (md_qlist d)) sc answer (case md_qlist d of [] \<Rightarrow> None | q # qs \<Rightarrow> Some q) d m ret nextbest)
            (\<lambda>(d, m, ret, nextbest). Inr (d\<lparr>md_checkqlist := nextbest\<rparr>, m, ret)))
        else Inr (d, m, ret))
       (\<lambda>(d, m, ret).
        if md_now d > md_expireall d then and_then (mdns_gc answer d) (\<lambda>d. Inr (d, m, ret)) else Inr (d, m, ret))"

definition mdnsd_has_query :: "mdns_daemon \<Rightarrow> byte list \<Rightarrow> bool" where
  "mdnsd_has_query d name \<longleftrightarrow> md_queries d ! bucket SPRIME name \<noteq> []"

end
