(* ===== verification/MdnsCacheProps.thy ===== *)
theory MdnsCacheProps
  imports MdnsCache DnsRoundtrip
begin

text \<open>
  The cache of the mDNS daemon: entries stand in the bucket of their name, no two for the same thing, and refer to a
  query that is alive; what a response does to the cache as a finite map; and what ending a query does.
\<close>

section \<open>Hashing\<close>

definition byte_char :: "byte \<Rightarrow> char" where
  "byte_char b = char_of (unat b)"

lemma ord_byte_char [simp]: "ord (byte_char b) = unat b"
  using unsigned_less [of b, where ?'a = nat] by (simp add: byte_char_def)

text \<open>It is the hash of the other table.\<close>

lemma namehash_xhter: "namehash s = xhter (map byte_char s)"
proof -
  have "foldl namehash_step h s = foldl xhter_step h (map byte_char s)" for h
  proof (induction s arbitrary: h)
    case (Cons b s)
    have "namehash_step h b = xhter_step h (byte_char b)"
      unfolding namehash_step_def xhter_step_def ord_byte_char by (simp only: of_nat_unat)
    then show ?case using Cons by simp
  qed simp
  then show ?thesis by (simp add: namehash_def xhter_def)
qed

lemma namehash_bounds: "0 \<le> namehash s" "namehash s < 2 ^ 28"
  unfolding namehash_xhter by (rule xhter_bounds)+

lemma bucket_less: "0 < p \<Longrightarrow> bucket p s < p"
  by (simp add: bucket_def nat_less_iff)

section \<open>The invariant\<close>

text \<open>What an entry is about: a pointer is also known by its target.\<close>

type_synonym entry_key = "byte list \<times> 16 word \<times> byte list option"

definition answer_key :: "mdns_answer \<Rightarrow> entry_key" where
  "answer_key a = (ma_name a, ma_type a, if ma_type a = QTYPE_PTR then ma_rdname a else None)"

abbreviation entry_key :: "cached \<Rightarrow> entry_key" where
  "entry_key c \<equiv> answer_key (ca_rr c)"

definition bucket_fine :: "(nat \<Rightarrow> mdns_query option) \<Rightarrow> nat \<Rightarrow> cached list \<Rightarrow> bool" where
  "bucket_fine qs i b \<longleftrightarrow> distinct (map entry_key b) \<and>
     (\<forall>c \<in> set b. bucket LPRIME (ma_name (ca_rr c)) = i \<and>
       (\<forall>q. ca_q c = Some q \<longrightarrow> (\<exists>x. qs q = Some x \<and> mq_name x = ma_name (ca_rr c) \<and> (mq_type x = ma_type (ca_rr c) \<or> mq_type x = QTYPE_ANY))))"

definition queries_fine :: "mdns_daemon \<Rightarrow> bool" where
  "queries_fine d \<longleftrightarrow> length (md_queries d) = SPRIME \<and> distinct (md_qlist d) \<and> set (md_qlist d) = dom (md_qheap d) \<and>
     (\<forall>i < SPRIME. distinct (md_queries d ! i)) \<and>
     (\<forall>q i. i < SPRIME \<longrightarrow> (q \<in> set (md_queries d ! i) \<longleftrightarrow> (\<exists>x. md_qheap d q = Some x \<and> bucket SPRIME (mq_name x) = i))) \<and>
     (\<forall>q \<in> dom (md_qheap d). q < md_qfresh d)"

definition mdns_ok :: "mdns_daemon \<Rightarrow> bool" where
  "mdns_ok d \<longleftrightarrow> length (md_cache d) = LPRIME \<and> (\<forall>i < LPRIME. bucket_fine (md_qheap d) i (md_cache d ! i)) \<and> queries_fine d"

lemma new_ok: "mdns_ok (mdnsd_new now class frame)"
  by (simp add: mdns_ok_def mdnsd_new_def bucket_fine_def queries_fine_def del: replicate.simps)

lemma bucket_query:
  "bucket_fine qs i b \<Longrightarrow> c \<in> set b \<Longrightarrow> ca_q c = Some q \<Longrightarrow>
    \<exists>x. qs q = Some x \<and> mq_name x = ma_name (ca_rr c) \<and> (mq_type x = ma_type (ca_rr c) \<or> mq_type x = QTYPE_ANY)"
  unfolding bucket_fine_def by blast

lemma bucket_map:
  assumes "bucket_fine qs i b" "\<And>c. answer_key (ca_rr (f c)) = entry_key c" "\<And>c q. c \<in> set b \<Longrightarrow> ca_q (f c) = Some q \<Longrightarrow>
      \<exists>x. qs' q = Some x \<and> mq_name x = ma_name (ca_rr c) \<and> (mq_type x = ma_type (ca_rr c) \<or> mq_type x = QTYPE_ANY)"
  shows "bucket_fine qs' i (map f b)"
proof -
  have k: "ma_name (ca_rr (f c)) = ma_name (ca_rr c)" "ma_type (ca_rr (f c)) = ma_type (ca_rr c)" for c
    using assms(2) [of c] by (simp_all add: answer_key_def)
  have "map entry_key (map f b) = map entry_key b" using assms(2) by simp
  then show ?thesis using assms(1,3) unfolding bucket_fine_def by (simp only: set_map ball_simps k) simp
qed

lemma set_ttl_key [simp]: "entry_key (set_ttl t c) = entry_key c" "ca_q (set_ttl t c) = ca_q c"
  "answer_key (a\<lparr>ma_ttl := t\<rparr>) = answer_key a" "ma_name (ca_rr (set_ttl t c)) = ma_name (ca_rr c)" "ma_type (ca_rr (set_ttl t c)) = ma_type (ca_rr c)" "ma_ttl (ca_rr (set_ttl t c)) = t"
  by (simp_all add: set_ttl_def answer_key_def)

lemma put_query_ok:
  assumes "mdns_ok d" "md_qheap d q = Some x" "mq_name y = mq_name x" "mq_type y = mq_type x"
  shows "mdns_ok (put_query q y d)"
proof -
  have "bucket_fine ((md_qheap d)(q \<mapsto> y)) i b" if "bucket_fine (md_qheap d) i b" for i b
  proof -
    have "bucket_fine ((md_qheap d)(q \<mapsto> y)) i (map (\<lambda>c. c) b)"
    proof (rule bucket_map [OF that])
      fix c p assume "c \<in> set b" "ca_q c = Some p"
      from bucket_query [OF that this] show
        "\<exists>x. ((md_qheap d)(q \<mapsto> y)) p = Some x \<and> mq_name x = ma_name (ca_rr c) \<and> (mq_type x = ma_type (ca_rr c) \<or> mq_type x = QTYPE_ANY)"
        using assms(2-4) by (cases "p = q") auto
    qed simp
    then show ?thesis by simp
  qed
  moreover have "queries_fine (put_query q y d)"
  proof -
    have "(\<exists>z. ((md_qheap d)(q \<mapsto> y)) p = Some z \<and> bucket SPRIME (mq_name z) = i) \<longleftrightarrow> (\<exists>z. md_qheap d p = Some z \<and> bucket SPRIME (mq_name z) = i)" for p i
      using assms(2,3) by auto
    moreover have "dom ((md_qheap d)(q \<mapsto> y)) = dom (md_qheap d)" using assms(2) by auto
    ultimately show ?thesis using assms(1) unfolding mdns_ok_def queries_fine_def put_query_def by simp
  qed
  ultimately show ?thesis using assms(1) by (simp add: mdns_ok_def put_query_def)
qed

text \<open>Taking entries away, or changing only when they expire.\<close>

lemma bucket_part:
  assumes "bucket_fine qs i b" "set b' \<subseteq> set b" "distinct (map entry_key b')"
  shows "bucket_fine qs i b'"
  using assms unfolding bucket_fine_def by blast

lemma cache_ok:
  assumes "mdns_ok d" "i < LPRIME" "bucket_fine (md_qheap d) i b"
  shows "mdns_ok (d\<lparr>md_cache := (md_cache d)[i := b]\<rparr>)"
  using assms by (auto simp: mdns_ok_def queries_fine_def nth_list_update)

lemma bucket_remove:
  assumes "bucket_fine qs i b"
  shows "bucket_fine qs i (take k b @ drop (k + 1) b)"
proof (rule bucket_part [OF assms])
  show "set (take k b @ drop (k + 1) b) \<subseteq> set b" using set_take_subset set_drop_subset by fastforce
  have "distinct (map entry_key (take k b @ drop k b))" using assms by (simp add: bucket_fine_def)
  moreover have "drop (k + 1) b = tl (drop k b)" by (simp add: drop_Suc tl_drop)
  ultimately show "distinct (map entry_key (take k b @ drop (k + 1) b))"
    by (cases "drop k b") (auto simp del: append_take_drop_id)
qed

section \<open>Queries\<close>

lemma q_done_ok:
  assumes "mdns_ok d" "q_done q d = Inr e"
  shows "mdns_ok e \<and> md_now e = md_now d \<and> (\<forall>j. length (md_cache e ! j) = length (md_cache d ! j))"
proof -
  obtain x where x: "md_qheap d q = Some x" using assms(2) by (auto simp: q_done_def at_query_def split: option.splits)
  let ?n = "mq_name x" and ?t = "mq_type x"
  let ?i = "bucket LPRIME ?n" and ?f = "\<lambda>c. if c_match ?n ?t c then c\<lparr>ca_q := None\<rparr> else c"
  let ?qs = "(md_qheap d)(q := None)"
  have e: "e = d\<lparr>md_cache := (md_cache d)[?i := map ?f (md_cache d ! ?i)], md_qlist := remove1 q (md_qlist d),
      md_queries := (md_queries d)[?i := remove1 q (md_queries d ! ?i)], md_qheap := ?qs\<rparr>"
    and i: "?i < SPRIME" "q \<in> set (md_queries d ! ?i)" and ql: "q \<in> set (md_qlist d)"
    using assms(2) x by (auto simp: q_done_def at_query_def each_match_def Let_def and_then_eq_Inr)
  have fine: "bucket_fine (md_qheap d) j (md_cache d ! j)" if "j < LPRIME" for j using assms(1) that by (simp add: mdns_ok_def)
  have qf: "queries_fine d" using assms(1) by (simp add: mdns_ok_def)
  have other: "bucket_fine ?qs j (md_cache d ! j)" if "j < LPRIME" "j \<noteq> ?i" for j
  proof -
    have "bucket_fine ?qs j (map (\<lambda>c. c) (md_cache d ! j))"
    proof (rule bucket_map [OF fine [OF that(1)]])
      fix c p assume c: "c \<in> set (md_cache d ! j)" "ca_q c = Some p"
      have "bucket LPRIME (ma_name (ca_rr c)) = j" using fine [OF that(1)] c(1) by (simp add: bucket_fine_def)
      then show "\<exists>y. ?qs p = Some y \<and> mq_name y = ma_name (ca_rr c) \<and> (mq_type y = ma_type (ca_rr c) \<or> mq_type y = QTYPE_ANY)"
        using bucket_query [OF fine [OF that(1)] c] x that(2) by auto
    qed simp
    then show ?thesis by simp
  qed
  have here: "bucket_fine ?qs ?i (map ?f (md_cache d ! ?i))"
  proof (rule bucket_map [OF fine [OF bucket_less]])
    fix c p assume c: "c \<in> set (md_cache d ! ?i)" "ca_q (?f c) = Some p"
    then have "ca_q c = Some p" "\<not> c_match ?n ?t c" by (simp_all split: if_splits)
    then show "\<exists>y. ?qs p = Some y \<and> mq_name y = ma_name (ca_rr c) \<and> (mq_type y = ma_type (ca_rr c) \<or> mq_type y = QTYPE_ANY)"
      using bucket_query [OF fine [OF bucket_less] c(1)] x by (auto simp: c_match_def)
  qed (simp_all add: answer_key_def)
  have len: "length (md_cache d) = LPRIME" using assms(1) by (simp add: mdns_ok_def)
  have "bucket_fine ?qs j (md_cache e ! j)" if "j < LPRIME" for j
    using other [OF that] here that len by (cases "j = ?i") (simp_all add: e)
  moreover have "queries_fine e"
  proof -
    have eq: "?i = bucket SPRIME ?n" using i qf x unfolding queries_fine_def by fastforce
    have "set (md_qlist e) = dom (md_qheap e)" using qf by (auto simp: e queries_fine_def)
    moreover have "p \<in> set (md_queries e ! j) \<longleftrightarrow> (\<exists>y. md_qheap e p = Some y \<and> bucket SPRIME (mq_name y) = j)" if "j < SPRIME" for p j
    proof (cases "j = ?i")
      case True
      have "set (remove1 q (md_queries d ! ?i)) = set (md_queries d ! ?i) - {q}" using qf i(1) by (simp add: queries_fine_def)
      then show ?thesis using True qf i by (auto simp: e queries_fine_def)
    next
      case False
      then have "q \<notin> set (md_queries d ! j)" using that qf x eq unfolding queries_fine_def by auto
      then show ?thesis using False that qf unfolding queries_fine_def e by (auto split: if_splits)
    qed
    moreover have "distinct (md_queries e ! j)" if "j < SPRIME" for j
      using that qf i(1) by (cases "j = ?i") (simp_all add: e queries_fine_def)
    ultimately show ?thesis using qf by (auto simp: queries_fine_def e)
  qed
  moreover have "length (md_cache e ! j) = length (md_cache d ! j)" for j
    using len bucket_less [of LPRIME ?n] by (cases "j = ?i") (simp_all add: e)
  ultimately show ?thesis using len by (simp add: mdns_ok_def) (simp add: e)
qed

lemma told_ok [simp]: "mdns_ok (d\<lparr>md_told := t\<rparr>) = mdns_ok d" "mdns_ok (d\<lparr>md_checkqlist := n\<rparr>) = mdns_ok d"
  "mdns_ok (d\<lparr>md_now := n\<rparr>) = mdns_ok d" "mdns_ok (d\<lparr>md_expireall := n\<rparr>) = mdns_ok d"
  by (simp_all add: mdns_ok_def queries_fine_def)

lemma q_answer_ok:
  assumes "mdns_ok d" "q_answer answer c d = Inr e"
  shows "mdns_ok e \<and> md_now e = md_now d \<and> (\<forall>j. length (md_cache e ! j) = length (md_cache d ! j))"
proof -
  let ?c = "if ma_ttl (ca_rr c) \<le> md_now d then set_ttl 0 c else c"
  obtain q x where q: "ca_q ?c = Some q" "md_qheap d q = Some x"
    using assms(2) by (auto simp: q_answer_def at_query_def Let_def split: option.splits if_splits)
  let ?d = "d\<lparr>md_told := md_told d @ [(mq_answer x, ca_rr ?c)]\<rparr>"
  have "q_done q ?d = Inr e \<or> e = ?d"
    using assms(2) q unfolding q_answer_def Let_def by (auto simp: at_query_def split: if_splits)
  moreover have "mdns_ok ?d" using assms(1) by simp
  ultimately show ?thesis using q_done_ok [of ?d q e] assms(1) by auto
qed

lemma q_reset_ok:
  assumes "mdns_ok d" "q_reset q d = Inr e"
  shows "mdns_ok e \<and> md_now e = md_now d"
proof -
  obtain x where x: "md_qheap d q = Some x" using assms(2) by (auto simp: q_reset_def at_query_def split: option.splits)
  let ?n = "reset_loop (filter (c_match (mq_name x) (mq_type x)) (md_cache d ! bucket LPRIME (mq_name x))) 0"
  have ok: "mdns_ok (put_query q (x\<lparr>mq_nexttry := ?n, mq_tries := 0\<rparr>) d)" by (rule put_query_ok [OF assms(1) x]) simp_all
  have "e = put_query q (x\<lparr>mq_nexttry := ?n, mq_tries := 0\<rparr>) d \<or>
      e = (put_query q (x\<lparr>mq_nexttry := ?n, mq_tries := 0\<rparr>) d)\<lparr>md_checkqlist := ?n\<rparr>"
    using assms(2) x by (auto simp: q_reset_def at_query_def Let_def split: if_splits)
  then show ?thesis using ok by (auto simp: put_query_def)
qed

text \<open>A new query, and the entries that it takes.\<close>

lemma q_next_Some:
  assumes "mdns_ok d" "q_next d name t = Some q"
  shows "\<exists>x. md_qheap d q = Some x \<and> mq_name x = name \<and> mq_type x = t"
  using assms(2) unfolding q_next_def find_Some_iff by (auto split: option.splits)

lemma each_match_ok:
  assumes "mdns_ok d" "\<And>c. answer_key (ca_rr (f c)) = entry_key c"
    and "\<And>c q. c_match name t c \<Longrightarrow> ca_q (f c) = Some q \<Longrightarrow> ca_q c = Some q \<or>
      (\<exists>x. md_qheap d q = Some x \<and> mq_name x = name \<and> mq_type x = t)"
  shows "mdns_ok (each_match name t f d)"
proof -
  let ?i = "bucket LPRIME name"
  have i: "?i < LPRIME" by (simp add: bucket_less)
  have fine: "bucket_fine (md_qheap d) ?i (md_cache d ! ?i)" using assms(1) i by (simp add: mdns_ok_def)
  have "bucket_fine (md_qheap d) ?i (map (\<lambda>c. if c_match name t c then f c else c) (md_cache d ! ?i))"
  proof (rule bucket_map [OF fine])
    fix c q assume c: "c \<in> set (md_cache d ! ?i)" "ca_q (if c_match name t c then f c else c) = Some q"
    show "\<exists>x. md_qheap d q = Some x \<and> mq_name x = ma_name (ca_rr c) \<and> (mq_type x = ma_type (ca_rr c) \<or> mq_type x = QTYPE_ANY)"
    proof (cases "c_match name t c")
      case True
      then show ?thesis using assms(3) [of c q] c bucket_query [OF fine c(1), of q] by (auto simp: c_match_def)
    next
      case False
      then show ?thesis using bucket_query [OF fine c(1)] c(2) by simp
    qed
  qed (simp add: assms(2))
  then show ?thesis unfolding each_match_def Let_def by (rule cache_ok [OF assms(1) i])
qed

lemma add_query_ok:
  assumes "mdns_ok d" "mq_name x = name"
  shows "mdns_ok ((put_query (md_qfresh d) x d)\<lparr>md_qfresh := md_qfresh d + 1, md_queries := (md_queries d)[bucket SPRIME name := md_qfresh d # md_queries d ! bucket SPRIME name],
    md_qlist := md_qfresh d # md_qlist d\<rparr>)"
proof -
  let ?q = "md_qfresh d" and ?i = "bucket SPRIME name" and ?qs = "(md_qheap d)(md_qfresh d \<mapsto> x)"
  have qf: "queries_fine d" using assms(1) by (simp add: mdns_ok_def)
  have new: "?q \<notin> dom (md_qheap d)" using qf by (auto simp: queries_fine_def)
  have i: "?i < SPRIME" by (simp add: bucket_less)
  have "bucket_fine ?qs j b" if "bucket_fine (md_qheap d) j b" for j b
  proof -
    have "bucket_fine ?qs j (map (\<lambda>c. c) b)"
    proof (rule bucket_map [OF that])
      fix c p assume "c \<in> set b" "ca_q c = Some p"
      from bucket_query [OF that this] show
        "\<exists>y. ?qs p = Some y \<and> mq_name y = ma_name (ca_rr c) \<and> (mq_type y = ma_type (ca_rr c) \<or> mq_type y = QTYPE_ANY)"
        using new by (cases "p = ?q") auto
    qed simp
    then show ?thesis by simp
  qed
  moreover have "?q \<notin> set (md_queries d ! j)" if "j < SPRIME" for j using that qf new unfolding queries_fine_def by auto
  moreover have "?q \<notin> set (md_qlist d)" using qf new by (simp add: queries_fine_def)
  ultimately show ?thesis using assms qf i new
    unfolding mdns_ok_def queries_fine_def put_query_def by (auto simp: nth_list_update less_Suc_eq domIff)
qed

lemma mdnsd_query_ok:
  assumes "mdns_ok d" "mdnsd_query name t answer d = Inr e"
  shows "mdns_ok e \<and> md_now e = md_now d"
proof (cases "q_next d name t")
  case (Some q)
  obtain x where x: "md_qheap d q = Some x" using q_next_Some [OF assms(1) Some] by blast
  show ?thesis
  proof (cases answer)
    case None
    then show ?thesis using assms Some q_done_ok [of d q e] by (simp add: mdnsd_query_def)
  next
    case (Some f)
    then have "e = put_query q (x\<lparr>mq_answer := f\<rparr>) d" using assms(2) \<open>q_next d name t = Some q\<close> x by (simp add: mdnsd_query_def at_query_def)
    then show ?thesis using put_query_ok [OF assms(1) x, of "x\<lparr>mq_answer := f\<rparr>"] by (simp add: put_query_def)
  qed
next
  case None
  show ?thesis
  proof (cases answer)
    case (Some f)
    let ?x = "\<lparr>mq_name = name, mq_type = t, mq_nexttry = 0, mq_tries = 0, mq_answer = f\<rparr>" and ?q = "md_qfresh d"
    define d1 where "d1 = (put_query ?q ?x d)\<lparr>md_qfresh := ?q + 1,
      md_queries := (md_queries d)[bucket SPRIME name := ?q # md_queries d ! bucket SPRIME name], md_qlist := ?q # md_qlist d\<rparr>"
    define d2 where "d2 = each_match name t (\<lambda>c. c\<lparr>ca_q := Some ?q\<rparr>) d1"
    have ok1: "mdns_ok d1" unfolding d1_def by (rule add_query_ok [OF assms(1)]) simp
    have ok2: "mdns_ok d2" unfolding d2_def by (rule each_match_ok [OF ok1]) (auto simp: answer_key_def d1_def put_query_def)
    obtain d3 y where d3: "q_reset ?q d2 = Inr d3" "md_qheap d3 ?q = Some y" "e = put_query ?q (y\<lparr>mq_nexttry := md_now d3\<rparr>) (d3\<lparr>md_checkqlist := md_now d3\<rparr>)"
      using assms(2) None Some
      by (auto simp: mdnsd_query_def Let_def d2_def d1_def put_query_def at_query_def and_then_eq_Inr split: option.splits)
    have ok3: "mdns_ok d3 \<and> md_now d3 = md_now d2" using q_reset_ok [OF ok2 d3(1)] .
    have "mdns_ok (put_query ?q (y\<lparr>mq_nexttry := md_now d3\<rparr>) (d3\<lparr>md_checkqlist := md_now d3\<rparr>))"
      by (rule put_query_ok [where x = y]) (use ok3 d3(2) in simp_all)
    moreover have "md_now d2 = md_now d" by (simp add: d2_def d1_def each_match_def put_query_def Let_def)
    ultimately show ?thesis using ok3 d3(3) by (simp add: put_query_def)
  qed (use assms None in \<open>simp add: mdnsd_query_def\<close>)
qed

section \<open>Expiry\<close>

lemma expire_loop_ok:
  "mdns_ok d \<Longrightarrow> i < LPRIME \<Longrightarrow> k + n = length (md_cache d ! i) \<Longrightarrow> expire_loop n answer i k d = Inr e \<Longrightarrow> mdns_ok e \<and> md_now e = md_now d"
proof (induction n arbitrary: k d)
  case (Suc n)
  let ?b = "md_cache d ! i"
  let ?d = "d\<lparr>md_cache := (md_cache d)[i := take k ?b @ drop (k + 1) ?b]\<rparr>"
  have fine: "bucket_fine (md_qheap d) i ?b" and i: "i < length (md_cache d)" using Suc.prems(1,2) by (simp_all add: mdns_ok_def)
  show ?case
  proof (cases "ma_ttl (ca_rr (?b ! k)) \<le> md_now d")
    case True
    have ok: "mdns_ok ?d" using cache_ok [OF Suc.prems(1,2) bucket_remove [OF fine]] .
    have len: "k + n = length (md_cache ?d ! i)" using Suc.prems(3) i by simp
    obtain f where f: "(if ca_q (?b ! k) = None then Inr ?d else q_answer answer (?b ! k) ?d) = Inr f" "expire_loop n answer i k f = Inr e"
      using Suc.prems(4) [unfolded expire_loop.simps Let_def if_P [OF True] and_then_eq_Inr] by blast
    have "mdns_ok f \<and> md_now f = md_now ?d \<and> length (md_cache f ! i) = length (md_cache ?d ! i)"
    proof (cases "ca_q (?b ! k) = None")
      case False
      then show ?thesis using q_answer_ok [OF ok f(1) [unfolded if_not_P [OF False]]] by blast
    qed (use f(1) ok in auto)
    then show ?thesis using Suc.IH [OF _ Suc.prems(2) _ f(2)] len by simp
  next
    case False
    then show ?thesis using Suc.IH [of d "k + 1"] Suc.prems by (simp add: Let_def)
  qed
qed simp

lemma c_expire_ok: "mdns_ok d \<Longrightarrow> i < LPRIME \<Longrightarrow> c_expire answer i d = Inr e \<Longrightarrow> mdns_ok e \<and> md_now e = md_now d"
  unfolding c_expire_def by (rule expire_loop_ok) simp_all

lemma gc_ok: "mdns_ok d \<Longrightarrow> mdns_gc answer d = Inr e \<Longrightarrow> mdns_ok e \<and> md_now e = md_now d"
proof -
  have "gc_loop answer is d = Inr e \<Longrightarrow> set is \<subseteq> {..<LPRIME} \<Longrightarrow> mdns_ok d \<Longrightarrow> mdns_ok e \<and> md_now e = md_now d" for "is" d e
  proof (induction answer "is" d rule: gc_loop.induct)
    case (2 answer i "is" d)
    then obtain f where f: "c_expire answer i d = Inr f" "gc_loop answer is f = Inr e" by (auto simp: and_then_eq_Inr)
    then have "mdns_ok f \<and> md_now f = md_now d" using c_expire_ok [OF 2(4) _ f(1)] 2(3) by simp
    then show ?case using 2(1) [OF f] 2(3) by simp
  qed simp
  moreover have "set [0..<LPRIME] \<subseteq> {..<LPRIME}" unfolding set_upt by (simp only: atLeast0LessThan subset_refl)
  ultimately show "mdns_ok d \<Longrightarrow> mdns_gc answer d = Inr e \<Longrightarrow> mdns_ok e \<and> md_now e = md_now d"
    unfolding mdns_gc_def and_then_eq_Inr by (elim exE conjE) (fastforce simp del: upt_rec_numeral)
qed

section \<open>What the cache learns\<close>

lemma delete_loop_ok:
  assumes "i = bucket LPRIME (rr_name r)"
  shows "mdns_ok d \<Longrightarrow> delete_loop n known_ip answer r d = Inr e \<Longrightarrow> mdns_ok e \<and> md_now e = md_now d"
proof (induction n arbitrary: d)
  case (Suc n)
  have i: "i < LPRIME" using assms by (simp add: bucket_less)
  let ?b = "md_cache d ! i"
  obtain found where found: "find_delete known_ip r ?b = Inr found"
    and rest: "(case found of None \<Rightarrow> Inr d
      | Some k \<Rightarrow> and_then (c_expire answer i (d\<lparr>md_cache := (md_cache d)[i := ?b[k := set_ttl 0 (?b ! k)]]\<rparr>)) (delete_loop n known_ip answer r)) = Inr e"
    using Suc.prems(2) by (auto simp: assms [symmetric] and_then_eq_Inr Let_def)
  show ?case
  proof (cases found)
    case (Some k)
    let ?d = "d\<lparr>md_cache := (md_cache d)[i := ?b[k := set_ttl 0 (?b ! k)]]\<rparr>"
    have fine: "bucket_fine (md_qheap d) i ?b" using Suc.prems(1) i by (simp add: mdns_ok_def)
    have "map entry_key (?b[k := set_ttl 0 (?b ! k)]) = map entry_key ?b"
      by (cases "k < length ?b") (simp_all add: map_update list_update_same_conv list_update_beyond)
    moreover have "c = set_ttl 0 (?b ! k) \<and> ?b ! k \<in> set ?b \<or> c \<in> set ?b" if "c \<in> set (?b[k := set_ttl 0 (?b ! k)])" for c
      using that by (cases "k < length ?b") (auto simp: in_set_conv_nth nth_list_update split: if_splits)
    ultimately have "bucket_fine (md_qheap d) i (?b[k := set_ttl 0 (?b ! k)])"
      using fine unfolding bucket_fine_def by fastforce
    then have ok: "mdns_ok ?d" by (rule cache_ok [OF Suc.prems(1) i])
    obtain f where "c_expire answer i ?d = Inr f" "delete_loop n known_ip answer r f = Inr e"
      using rest Some by (auto simp: and_then_eq_Inr)
    then show ?thesis using c_expire_ok [OF ok i] Suc.IH by force
  qed (use rest Suc.prems in simp)
qed simp

lemma refresh_first_Some:
  "refresh_first P t b = Some b' \<Longrightarrow> map entry_key b' = map entry_key b \<and> (\<forall>c' \<in> set b'. \<exists>c \<in> set b. c' = c \<or> c' = set_ttl t c)"
proof (induction b arbitrary: b')
  case (Cons c b)
  show ?case
  proof (cases "P c")
    case False
    then obtain z where z: "refresh_first P t b = Some z" "b' = c # z" using Cons.prems by auto
    then show ?thesis using Cons.IH [OF z(1)] by auto
  qed (use Cons.prems in auto)
qed simp

lemma refresh_first_None: "refresh_first P t b = None \<longleftrightarrow> (\<forall>c \<in> set b. \<not> P c)"
  by (induction b) auto

lemma new_key: "rr_type r = QTYPE_PTR \<Longrightarrow> entry_key (new_cached r sender t) = (rr_name r, rr_type r, known_name r)"
  "rr_type r \<noteq> QTYPE_PTR \<Longrightarrow> entry_key (new_cached r sender t) = (rr_name r, rr_type r, None)"
  by (simp_all add: new_cached_def answer_key_def Let_def)

lemma new_cached_fields [simp]: "ma_name (ca_rr (new_cached r sender t)) = rr_name r" "ma_type (ca_rr (new_cached r sender t)) = rr_type r"
  "ma_ttl (ca_rr (new_cached r sender t)) = t" "ca_q (new_cached r sender t) = None"
  by (simp_all add: new_cached_def Let_def)

lemma insert_ok:
  assumes "mdns_ok d" "\<forall>c \<in> set (md_cache d ! bucket LPRIME (rr_name r)). \<not> same_entry r c"
    and "c = (new_cached r sender t)\<lparr>ca_q := q_next d (rr_name r) (rr_type r)\<rparr> \<or> c = set_ttl 0 ((new_cached r sender t)\<lparr>ca_q := q_next d (rr_name r) (rr_type r)\<rparr>)"
  shows "mdns_ok (d\<lparr>md_cache := (md_cache d)[bucket LPRIME (rr_name r) := c # md_cache d ! bucket LPRIME (rr_name r)]\<rparr>)"
proof (rule cache_ok [OF assms(1)])
  let ?i = "bucket LPRIME (rr_name r)"
  show i: "?i < LPRIME" by (simp add: bucket_less)
  have fine: "bucket_fine (md_qheap d) ?i (md_cache d ! ?i)" using assms(1) i by (simp add: mdns_ok_def)
  have key: "entry_key c = entry_key (new_cached r sender t)" "ca_q c = q_next d (rr_name r) (rr_type r)"
    using assms(3) by auto
  then have fields: "ma_name (ca_rr c) = rr_name r" "ma_type (ca_rr c) = rr_type r" by (simp_all add: answer_key_def)
  have "entry_key c \<noteq> entry_key c'" if "c' \<in> set (md_cache d ! ?i)" for c'
    using assms(2) that key(1) new_key [of r sender t] by (cases "rr_type r = QTYPE_PTR") (auto simp: same_entry_def c_match_def answer_key_def)
  then have "entry_key c \<notin> set (map entry_key (md_cache d ! ?i))" by (simp only: set_map) blast
  moreover have "\<exists>x. md_qheap d q = Some x \<and> mq_name x = ma_name (ca_rr c) \<and> (mq_type x = ma_type (ca_rr c) \<or> mq_type x = QTYPE_ANY)"
    if "ca_q c = Some q" for q using q_next_Some [OF assms(1)] that key(2) fields by metis
  ultimately show "bucket_fine (md_qheap d) ?i (c # md_cache d ! ?i)"
    using fine fields unfolding bucket_fine_def by (simp only: list.map distinct.simps set_simps ball_simps) blast
qed

lemma cache_entry_ok:
  assumes "mdns_ok d" "cache_entry answer sender r d = Inr (e, ret)"
  shows "mdns_ok e \<and> md_now e = md_now d"
proof -
  let ?i = "bucket LPRIME (rr_name r)" and ?t = "(md_now d + unat (rr_ttl r) div 2 + 8) mod 2 ^ 64"
  have i: "?i < LPRIME" by (simp add: bucket_less)
  show ?thesis
  proof (cases "refresh_first (same_entry r) ?t (md_cache d ! ?i)")
    case (Some b)
    have fine: "bucket_fine (md_qheap d) ?i (md_cache d ! ?i)" using assms(1) i by (simp add: mdns_ok_def)
    have "bucket_fine (md_qheap d) ?i b" using fine refresh_first_Some [OF Some] unfolding bucket_fine_def by fastforce
    then have "mdns_ok (d\<lparr>md_cache := (md_cache d)[?i := b]\<rparr>)" using assms(1) cache_ok [OF _ i] by blast
    moreover have "e = d\<lparr>md_cache := (md_cache d)[?i := b]\<rparr>" using assms(2) Some by (simp add: cache_entry_def Let_def)
    ultimately show ?thesis by simp
  next
    case None
    define q where "q = q_next d (rr_name r) (rr_type r)"
    define c where "c = (if q \<noteq> None \<and> ?t \<le> md_now d then set_ttl 0 ((new_cached r sender ?t)\<lparr>ca_q := q\<rparr>) else (new_cached r sender ?t)\<lparr>ca_q := q\<rparr>)"
    let ?d = "d\<lparr>md_cache := (md_cache d)[?i := c # md_cache d ! ?i]\<rparr>"
    have "mdns_ok ?d" using assms(1) None by (intro insert_ok [where t = ?t and sender = sender]) (auto simp: refresh_first_None c_def q_def)
    moreover have "and_then (if q = None then Inr ?d else q_answer answer c ?d) (\<lambda>d. Inr (d, 0 :: int)) = Inr (e, ret)"
      using assms(2) None unfolding cache_entry_def Let_def q_def [symmetric] c_def by simp
    ultimately show ?thesis using q_answer_ok [of ?d answer c] by (force simp: and_then_eq_Inr split: if_splits)
  qed
qed

lemma mdns_cache_ok:
  assumes "mdns_ok d" "mdns_cache known_ip answer sender r d = Inr (e, ret)"
  shows "mdns_ok e \<and> md_now e = md_now d"
proof -
  let ?i = "bucket LPRIME (rr_name r)"
  have i: "?i < LPRIME" by (simp add: bucket_less)
  obtain d1 where d1: "(if rr_class r = 32768 + md_class d then c_expire answer ?i (each_match (rr_name r) (rr_type r) (set_ttl 0) d) else Inr d) = Inr d1"
    and rest: "(if rr_ttl r = 0 then and_then (delete_loop (length (md_cache d1 ! ?i)) known_ip answer r d1) (\<lambda>d. Inr (d, 0))
      else cache_entry answer sender r d1) = Inr (e, ret)"
    using assms(2) unfolding mdns_cache_def Let_def and_then_eq_Inr by blast
  have flushed: "mdns_ok (each_match (rr_name r) (rr_type r) (set_ttl 0) d) \<and> md_now (each_match (rr_name r) (rr_type r) (set_ttl 0) d) = md_now d"
    using each_match_ok [OF assms(1), of "set_ttl 0"] by (simp add: each_match_def Let_def)
  have ok: "mdns_ok d1 \<and> md_now d1 = md_now d"
    using d1 assms(1) flushed c_expire_ok [OF _ i] by (force split: if_splits)
  show ?thesis
  proof (cases "rr_ttl r = 0")
    case True
    then show ?thesis using rest ok delete_loop_ok [OF refl] by (force simp: and_then_eq_Inr)
  next
    case False
    then have "cache_entry answer sender r d1 = Inr (e, ret)" using rest by simp
    then show ?thesis using cache_entry_ok ok by metis
  qed
qed

section \<open>Asking again\<close>

lemma retry_loop_ok:
  "mdns_ok d \<Longrightarrow> retry_loop n sc answer at_q d m ret nb = Inr (e, m', ret', nb') \<Longrightarrow> mdns_ok e \<and> md_now e = md_now d"
proof (induction n arbitrary: at_q d m ret nb)
  case (Suc n)
  show ?case
  proof (cases at_q)
    case (Some q)
    obtain x where x: "md_qheap d q = Some x" using Suc.prems(2) Some by (auto simp: at_query_def split: option.splits)
    note run = Suc.prems(2) [unfolded retry_loop.simps Some option.case at_query_def x and_then_Inr Let_def]
    consider "mq_nexttry x = 0 \<or> mq_nexttry x > md_now d" | "\<not> (mq_nexttry x = 0 \<or> mq_nexttry x > md_now d)" "mq_tries x = 3"
      | "\<not> (mq_nexttry x = 0 \<or> mq_nexttry x > md_now d)" "mq_tries x \<noteq> 3" by blast
    then show ?thesis
    proof cases
      case 1
      then show ?thesis using Suc.IH [OF Suc.prems(1)] run by (simp only: if_P)
    next
      case 2
      have i: "bucket LPRIME (mq_name x) < LPRIME" by (simp add: bucket_less)
      obtain f g where "c_expire answer (bucket LPRIME (mq_name x)) d = Inr f" "q_reset q f = Inr g"
          "retry_loop n sc answer (behind (md_qlist g) q) g m ret nb = Inr (e, m', ret', nb')"
        using run [unfolded if_not_P [OF 2(1)] if_P [OF 2(2)] and_then_eq_Inr] by blast
      then show ?thesis using c_expire_ok [OF Suc.prems(1) i] q_reset_ok Suc.IH by metis
    next
      case 3
      let ?x = "x\<lparr>mq_tries := mq_tries x + 1, mq_nexttry := md_now d + (mq_tries x + 1)\<rparr>"
      have "mdns_ok (put_query q ?x d)" by (rule put_query_ok [OF Suc.prems(1) x]) simp_all
      moreover obtain m1 nb1 where "retry_loop n sc answer (behind (md_qlist (put_query q ?x d)) q) (put_query q ?x d) m1 (ret + 1) nb1 = Inr (e, m', ret', nb')"
        using run [unfolded if_not_P [OF 3(1)] if_not_P [OF 3(2)] and_then_eq_Inr] by blast
      moreover have "md_now (put_query q ?x d) = md_now d" by (simp add: put_query_def)
      ultimately show ?thesis using Suc.IH by metis
    qed
  qed (use Suc.prems in simp)
qed simp

lemma out_queries_ok:
  assumes "mdns_ok d" "mdnsd_out_queries sc answer d m ret = Inr (e, m', ret')"
  shows "mdns_ok e \<and> md_now e = md_now d"
proof -
  obtain d1 m1 ret1 where d1: "(if md_checkqlist d \<noteq> 0 \<and> md_now d \<ge> md_checkqlist d then
          and_then (ask_loop sc d (md_qlist d) m 0) (\<lambda>(m, nextbest).
          and_then (retry_loop (length (md_qlist d)) sc answer (case md_qlist d of [] \<Rightarrow> None | q # qs \<Rightarrow> Some q) d m ret nextbest)
            (\<lambda>(d, m, ret, nextbest). Inr (d\<lparr>md_checkqlist := nextbest\<rparr>, m, ret)))
        else Inr (d, m, ret)) = Inr (d1, m1, ret1)"
    and rest: "(if md_now d1 > md_expireall d1 then and_then (mdns_gc answer d1) (\<lambda>d. Inr (d, m1, ret1)) else Inr (d1, m1, ret1)) = Inr (e, m', ret')"
    using assms(2) unfolding mdnsd_out_queries_def and_then_eq_Inr by auto
  have "mdns_ok d1 \<and> md_now d1 = md_now d"
  proof (cases "md_checkqlist d \<noteq> 0 \<and> md_now d \<ge> md_checkqlist d")
    case True
    then obtain f m2 nb ret2 nb2 where f: "retry_loop (length (md_qlist d)) sc answer (case md_qlist d of [] \<Rightarrow> None | q # qs \<Rightarrow> Some q) d m2 ret nb = Inr (f, m1, ret2, nb2)"
        "d1 = f\<lparr>md_checkqlist := nb2\<rparr>"
      using d1 by (auto simp: and_then_eq_Inr)
    from retry_loop_ok [OF assms(1) f(1)] show ?thesis unfolding f(2) by simp
  qed (use d1 assms(1) in auto)
  then show ?thesis using rest gc_ok [of d1 answer] by (auto simp: and_then_eq_Inr split: if_splits)
qed

section \<open>Everything that can happen\<close>

inductive mdns_reachable :: "(resource \<Rightarrow> 32 word) \<Rightarrow> answer_fun \<Rightarrow> mdns_daemon \<Rightarrow> bool" for known_ip answer where
  start: "mdns_reachable known_ip answer (mdnsd_new now class frame)"
| query: "mdns_reachable known_ip answer d \<Longrightarrow> mdnsd_query name t f d = Inr e \<Longrightarrow> mdns_reachable known_ip answer e"
| learn: "mdns_reachable known_ip answer d \<Longrightarrow> mdns_cache known_ip answer sender r d = Inr (e, ret) \<Longrightarrow> mdns_reachable known_ip answer e"
| out: "mdns_reachable known_ip answer d \<Longrightarrow> mdnsd_out_queries sc answer d m ret = Inr (e, m', ret') \<Longrightarrow> mdns_reachable known_ip answer e"
| tick: "mdns_reachable known_ip answer d \<Longrightarrow> md_now d \<le> now \<Longrightarrow> mdns_reachable known_ip answer (d\<lparr>md_now := now\<rparr>)"

lemma mdns_reachable_ok: "mdns_reachable known_ip answer d \<Longrightarrow> mdns_ok d"
proof (induction rule: mdns_reachable.induct)
  case (query d name t f e)
  then show ?case using mdnsd_query_ok by blast
next
  case (learn d sender r e ret)
  then show ?case using mdns_cache_ok by blast
next
  case (out d sc m ret e m' ret')
  then show ?case using out_queries_ok by blast
qed (simp_all add: new_ok)

text \<open>
  C18.  In every reachable state a cached record stands in the bucket of its name, no two entries are for the same
  thing, and the query that an entry refers to is alive and asks for it: a query that ended has left no entry behind.
\<close>

theorem mdns_entries_sound:
  assumes "mdns_reachable known_ip answer d" "i < LPRIME"
  shows "distinct (map entry_key (md_cache d ! i)) \<and>
    (\<forall>c \<in> set (md_cache d ! i). bucket LPRIME (ma_name (ca_rr c)) = i \<and>
      (\<forall>q. ca_q c = Some q \<longrightarrow> (\<exists>x. md_qheap d q = Some x \<and> mq_name x = ma_name (ca_rr c) \<and>
        (mq_type x = ma_type (ca_rr c) \<or> mq_type x = QTYPE_ANY))))"
  using mdns_reachable_ok [OF assms(1)] assms(2) by (simp only: mdns_ok_def bucket_fine_def) blast

section \<open>Ending a query\<close>

text \<open>
  C19.  A query can be ended only if its name has the same index in the table of queries as it would have in the larger
  table of the cache; otherwise \<^verbatim>\<open>_q_done\<close> reads outside the table or runs off the
  end of a list.
\<close>

theorem mdns_query_end:
  assumes "mdns_reachable known_ip answer d" "q_next d name t = Some q"
  shows "if namehash name mod 1009 = namehash name mod 108 then \<exists>e. mdnsd_query name t None d = Inr e \<and> md_qheap e q = None
    else mdnsd_query name t None d = Inl Out_of_bounds"
proof -
  let ?i = "bucket LPRIME name"
  have ok: "mdns_ok d" using mdns_reachable_ok [OF assms(1)] .
  then have qf: "queries_fine d" by (simp add: mdns_ok_def)
  obtain x where x: "md_qheap d q = Some x" "mq_name x = name" using q_next_Some [OF ok assms(2)] by blast
  have ql: "q \<in> set (md_qlist d)" using qf x(1) by (auto simp: queries_fine_def)
  have same: "namehash name mod 1009 = namehash name mod 108 \<longleftrightarrow> ?i = bucket SPRIME name"
    using namehash_bounds(1) [of name] by (simp add: bucket_def eq_nat_nat_iff)
  have "?i < SPRIME \<and> q \<in> set (md_queries d ! ?i) \<longleftrightarrow> ?i = bucket SPRIME name"
    using qf x bucket_less [of SPRIME name] unfolding queries_fine_def by auto
  then show ?thesis using ql x assms(2) unfolding same
    by (auto simp: mdnsd_query_def q_done_def at_query_def each_match_def Let_def in_bounds_def)
qed

text \<open>The names \<^verbatim>\<open>a\<close> and \<^verbatim>\<open>ab\<close>: the first query can be ended, the second cannot.\<close>

definition one_query :: "byte list \<Rightarrow> mdns_daemon exec" where
  "one_query name = mdnsd_query name QTYPE_A (Some 0) (mdnsd_new 1000 1 9000)"

lemma one_query_runs:
  "\<exists>d. one_query name = Inr d \<and> mdns_reachable known_ip answer d \<and> q_next d name QTYPE_A = Some 0 \<and> md_qlist d = [0] \<and>
    md_qheap d 0 = Some \<lparr>mq_name = name, mq_type = QTYPE_A, mq_nexttry = 1000, mq_tries = 0, mq_answer = 0\<rparr> \<and>
    md_now d = 1000 \<and> md_checkqlist d = 1000 \<and> md_class d = 1 \<and> md_frame d = 9000 \<and> md_expireall d = 1000 + GC \<and>
    md_cache d = replicate LPRIME []"
proof -
  have i: "bucket SPRIME name < SPRIME" "bucket LPRIME name < LPRIME" by (simp_all add: bucket_less)
  have none: "q_next (mdnsd_new 1000 1 9000) name QTYPE_A = None" using i(1) by (simp add: q_next_def mdnsd_new_def del: replicate.simps)
  have "(replicate LPRIME ([] :: cached list))[bucket LPRIME name := []] = replicate LPRIME []" by (metis list_update_id nth_replicate i(2))
  then obtain d where d: "one_query name = Inr d" "q_next d name QTYPE_A = Some 0" "md_qlist d = [0]" "md_now d = 1000" "md_checkqlist d = 1000"
    "md_qheap d 0 = Some \<lparr>mq_name = name, mq_type = QTYPE_A, mq_nexttry = 1000, mq_tries = 0, mq_answer = 0\<rparr>" "md_class d = 1" "md_frame d = 9000"
    "md_expireall d = 1000 + GC" "md_cache d = replicate LPRIME []"
    using i none unfolding one_query_def mdnsd_query_def
    by (simp add: mdnsd_new_def Let_def put_query_def each_match_def q_reset_def at_query_def q_next_def del: replicate.simps)
  moreover have "mdns_reachable known_ip answer d" using d(1) mdns_reachable.intros(1,2) unfolding one_query_def by blast
  ultimately show ?thesis by blast
qed

theorem mdns_query_end_witness:
  "(\<exists>d e. one_query [97] = Inr d \<and> mdnsd_query [97] QTYPE_A None d = Inr e \<and> md_qheap e 0 = None) \<and>
   (\<exists>d. one_query [97, 98] = Inr d \<and> mdnsd_query [97, 98] QTYPE_A None d = Inl Out_of_bounds)"
proof -
  have h: "namehash [97] = 97" "namehash [97, 98] = 1650" by code_simp+
  obtain d where d: "one_query [97] = Inr d" "mdns_reachable (\<lambda>_. 0) (\<lambda>_ _. 0) d" "q_next d [97] QTYPE_A = Some 0"
    using one_query_runs by blast
  obtain d' where d': "one_query [97, 98] = Inr d'" "mdns_reachable (\<lambda>_. 0) (\<lambda>_ _. 0) d'" "q_next d' [97, 98] QTYPE_A = Some 0"
    using one_query_runs by blast
  show ?thesis using mdns_query_end [OF d(2,3)] mdns_query_end [OF d'(2,3)] d(1) d'(1) unfolding h by simp
qed

theorem mdns_entries_sound_witness:
  "\<exists>d. one_query [97] = Inr d \<and> distinct (map entry_key (md_cache d ! 97)) \<and>
    (\<forall>c \<in> set (md_cache d ! 97). bucket LPRIME (ma_name (ca_rr c)) = 97 \<and>
      (\<forall>q. ca_q c = Some q \<longrightarrow> (\<exists>x. md_qheap d q = Some x \<and> mq_name x = ma_name (ca_rr c) \<and>
        (mq_type x = ma_type (ca_rr c) \<or> mq_type x = QTYPE_ANY))))"
proof -
  obtain d where d: "one_query [97] = Inr d" "mdns_reachable (\<lambda>_. 0) (\<lambda>_ _. 0) d" using one_query_runs by blast
  show ?thesis using mdns_entries_sound [OF d(2), of 97] d(1) by simp
qed

section \<open>Asking three times\<close>

text \<open>
  Calls of \<^verbatim>\<open>mdnsd_out\<close> at the given times, each with a new message, which is sent when the call answers more than
  zero; the packets that were sent.
\<close>

fun ask_at :: "bool \<Rightarrow> answer_fun \<Rightarrow> nat list \<Rightarrow> mdns_daemon \<Rightarrow> (mdns_daemon \<times> byte list list) exec" where
  "ask_at sc answer [] d = Inr (d, [])"
| "ask_at sc answer (t # ts) d =
     and_then (mdnsd_out_queries sc answer (d\<lparr>md_now := t\<rparr>) (wire_message0 0 (header_of 0 0)) 0) (\<lambda>(d, m, ret).
     and_then (ask_at sc answer ts d) (\<lambda>(d, ps). Inr (d, if ret > 0 then message_packet m # ps else ps)))"

text \<open>The schedule of one query for which nothing is cached: its next try, its tries, and the next check.\<close>

definition lone :: "byte list \<Rightarrow> 16 word \<Rightarrow> 16 word \<Rightarrow> nat \<Rightarrow> nat \<times> nat \<times> nat \<Rightarrow> mdns_daemon \<Rightarrow> bool" where
  "lone name t class expire = (\<lambda>(n, k, check) d.
     (\<exists>q x. md_qlist d = [q] \<and> md_qheap d q = Some x \<and> mq_name x = name \<and> mq_type x = t \<and> mq_nexttry x = n \<and> mq_tries x = k) \<and>
     md_cache d = replicate LPRIME [] \<and> md_class d = class \<and> md_expireall d = expire \<and> md_checkqlist d = check)"

fun ask_step :: "nat \<Rightarrow> nat \<times> nat \<times> nat \<Rightarrow> (nat \<times> nat \<times> nat) \<times> int" where
  "ask_step t (n, k, check) =
     (if check = 0 \<or> t < check then ((n, k, check), 0)
      else if n = 0 \<or> t < n then ((n, k, n), 0)
      else if k = 3 then ((0, 0, n), 0)
      else ((t + (k + 1), k + 1, t + (k + 1)), 1))"

lemma lone_step:
  assumes "lone name ty class expire (n, k, check) d" "t \<le> expire" "k \<le> 3" "message_qd sc m (Some name) ty class = Inr m1"
  shows "\<exists>e m2. mdnsd_out_queries sc answer (d\<lparr>md_now := t\<rparr>) m 0 = Inr (e, m2, snd (ask_step t (n, k, check))) \<and>
    lone name ty class expire (fst (ask_step t (n, k, check))) e \<and> (0 < snd (ask_step t (n, k, check)) \<longrightarrow> m2 = m1)"
proof -
  obtain q x where q: "md_qlist d = [q]" "md_qheap d q = Some x" "mq_name x = name" "mq_type x = ty" "mq_nexttry x = n" "mq_tries x = k"
    "md_cache d = replicate LPRIME []" "md_class d = class" "md_expireall d = expire" "md_checkqlist d = check"
    using assms(1) by (auto simp: lone_def)
  have b: "md_cache d ! bucket LPRIME name = []" by (simp add: q(7) bucket_less del: replicate.simps)
  have none: "behind [q] q = None" by (simp add: behind_def)
  consider "check = 0 \<or> t < check" | "\<not> (check = 0 \<or> t < check)" "n = 0 \<or> t < n" | "\<not> (check = 0 \<or> t < check)" "\<not> (n = 0 \<or> t < n)" "k = 3"
    | "\<not> (check = 0 \<or> t < check)" "\<not> (n = 0 \<or> t < n)" "k < 3" using assms(3) by linarith
  then show ?thesis
  proof cases
    case 1
    then show ?thesis using q assms(2) by (auto simp: mdnsd_out_queries_def lone_def)
  next
    case 2
    then show ?thesis using q assms(2) none
      by (auto simp: mdnsd_out_queries_def lone_def at_query_def not_le)
  next
    case 3
    then show ?thesis using q assms(2) none b
      by (auto simp: mdnsd_out_queries_def lone_def at_query_def c_expire_def q_reset_def Let_def put_query_def)
  next
    case 4
    then show ?thesis using q assms(2,4) none b
      by (auto simp: mdnsd_out_queries_def lone_def at_query_def Let_def put_query_def)
  qed
qed

fun asked :: "nat list \<Rightarrow> nat \<times> nat \<times> nat \<Rightarrow> int" where
  "asked [] s = 0"
| "asked (t # ts) s = (let (s, n) = ask_step t s in n + asked ts s)"

lemma ask_step_tries: "k \<le> 3 \<Longrightarrow> fst (ask_step t (n, k, check)) = (n', k', check') \<Longrightarrow> k' \<le> 3"
  by (auto split: if_splits)

lemma ask_step_once: "snd (ask_step t s) = 0 \<or> snd (ask_step t s) = 1"
  by (cases s) auto

lemma asked_nonneg: "0 \<le> asked ts s"
proof (induction ts arbitrary: s)
  case (Cons t ts)
  show ?case using ask_step_once [of t s] Cons.IH [of "fst (ask_step t s)"] by (auto simp: case_prod_beta Let_def)
qed simp

lemma ask_at_lone:
  assumes "message_qd sc (wire_message0 0 (header_of 0 0)) (Some name) ty class = Inr m1"
  shows "lone name ty class expire s d \<Longrightarrow> \<forall>t \<in> set ts. t \<le> expire \<Longrightarrow> fst (snd s) \<le> 3 \<Longrightarrow>
    \<exists>e. ask_at sc answer ts d = Inr (e, replicate (nat (asked ts s)) (message_packet m1))"
proof (induction ts arbitrary: s d)
  case (Cons t ts)
  obtain n k check where s: "s = (n, k, check)" by (cases s)
  obtain e m2 where e: "mdnsd_out_queries sc answer (d\<lparr>md_now := t\<rparr>) (wire_message0 0 (header_of 0 0)) 0 = Inr (e, m2, snd (ask_step t s))"
      "lone name ty class expire (fst (ask_step t s)) e" "0 < snd (ask_step t s) \<longrightarrow> m2 = m1"
    using lone_step [OF Cons.prems(1) [unfolded s] _ _ assms, of t answer] Cons.prems(2,3) by (auto simp: s)
  have k: "fst (snd (fst (ask_step t s))) \<le> 3" using ask_step_tries [of k t n check] Cons.prems(3) s by (metis fst_conv prod.collapse snd_conv)
  obtain f where f: "ask_at sc answer ts e = Inr (f, replicate (nat (asked ts (fst (ask_step t s)))) (message_packet m1))"
    using Cons.IH [OF e(2) _ k] Cons.prems(2) by auto
  have "asked (t # ts) s = snd (ask_step t s) + asked ts (fst (ask_step t s))" by (simp add: case_prod_beta Let_def)
  moreover have "0 \<le> asked ts (fst (ask_step t s))" by (rule asked_nonneg)
  ultimately show ?case using e(1,3) f ask_step_once [of t s] by (auto simp: nat_add_distrib)
qed simp

text \<open>Three questions are left, less the tries; none when there is no next try.\<close>

lemma asked_bound: "k \<le> 3 \<Longrightarrow> 0 \<le> asked ts (n, k, check) \<and> asked ts (n, k, check) \<le> (if n = 0 then 0 else 3 - int k)"
proof (induction ts arbitrary: n k check)
  case (Cons t ts)
  show ?case
    using Cons.prems Cons.IH [of k n check] Cons.IH [of k n n] Cons.IH [of 0 0 n] Cons.IH [of "k + 1" "t + (k + 1)" "t + (k + 1)"]
    by (auto split: if_splits)
qed simp

text \<open>
  C20.  A fresh daemon with one query, to which no one answers, sends its question at most three times, whenever it gets
  to send during the first day; it does so three times as soon as it gets to send at once, a second later, and two seconds
  after that.  Nothing else is sent: every packet is the same, and it parses to the one question for the name,
  type and class, without records.
\<close>

theorem mdns_asked_three_times:
  assumes "mdnsd_query (dns_text ls) ty (Some f) (mdnsd_new now class frame) = Inr d" "0 < now" "\<forall>t \<in> set ts. t \<le> now + GC"
    and "dns_name_ok ls"
  shows "\<exists>e n pkt. ask_at sc answer ts d = Inr (e, replicate n pkt) \<and> n \<le> 3 \<and>
    (\<forall>t0 t1 t2 us. ts = t0 # t1 # t2 # us \<and> now \<le> t0 \<and> t0 + 1 \<le> t1 \<and> t1 + 2 \<le> t2 \<longrightarrow> n = 3) \<and>
    (\<forall>rest. \<exists>m. message_parse sc (pkt @ rest) MAX_PACKET_LEN = Inr (Some m) \<and>
      dm_qd m = [\<lparr>q_name = dns_text ls, q_type = ty, q_class = class\<rparr>] \<and> dm_an m = [] \<and> dm_ns m = [] \<and> dm_ar m = [])"
proof -
  let ?name = "dns_text ls"
  obtain m where m: "message_qd sc (wire_message0 0 (header_of 0 0)) (Some ?name) ty class = Inr m" using message_qd_wire [OF assms(4)] by blast
  have i: "bucket SPRIME ?name < SPRIME" "bucket LPRIME ?name < LPRIME" by (simp_all add: bucket_less)
  have none: "q_next (mdnsd_new now class frame) ?name ty = None" using i(1) by (simp add: q_next_def mdnsd_new_def del: replicate.simps)
  have "(replicate LPRIME ([] :: cached list))[bucket LPRIME ?name := []] = replicate LPRIME []" by (metis list_update_id nth_replicate i(2))
  then have lone: "lone ?name ty class (now + GC) (now, 0, now) d"
    using assms(1) i none unfolding mdnsd_query_def
    by (auto simp: mdnsd_new_def Let_def put_query_def each_match_def q_reset_def at_query_def lone_def simp del: replicate.simps)
  obtain e where e: "ask_at sc answer ts d = Inr (e, replicate (nat (asked ts (now, 0, now))) (message_packet m))"
    using ask_at_lone [OF m lone assms(3)] by auto
  have "nat (asked ts (now, 0, now)) = 3" if "ts = t0 # t1 # t2 # us" "now \<le> t0" "t0 + 1 \<le> t1" "t1 + 2 \<le> t2" for t0 t1 t2 us
  proof -
    have "asked us (t2 + 3, 3, t2 + 3) = 0" using asked_bound [of 3 us "t2 + 3" "t2 + 3"] by simp
    then show ?thesis using that assms(2) by (simp add: numeral_3_eq_3 numeral_2_eq_2)
  qed
  moreover have "nat (asked ts (now, 0, now)) \<le> 3" using asked_bound [of 0 ts now now] assms(2) by (simp add: nat_le_iff)
  moreover have "dns_header_ok (header_of 0 0)" by (simp add: header_of_def dns_header_ok_def)
  ultimately show ?thesis using e dns_question_roundtrip [OF m assms(4)] by blast
qed

theorem mdns_asked_three_times_witness:
  "\<exists>d e pkt m. one_query (dns_text tv_local) = Inr d \<and> ask_at True (\<lambda>_ _. 0) [1000, 1001, 1003, 1050] d = Inr (e, [pkt, pkt, pkt]) \<and>
    message_parse True pkt MAX_PACKET_LEN = Inr (Some m) \<and> length (dm_qd m) = 1"
proof -
  obtain d where d: "one_query (dns_text tv_local) = Inr d" using one_query_runs by blast
  let ?ts = "[1000, 1001, 1003, 1050] :: nat list"
  from mdns_asked_three_times [OF d [unfolded one_query_def] _ _ tv_local_ok, of ?ts True "\<lambda>_ _. 0"]
  obtain e n pkt where a: "ask_at True (\<lambda>_ _. 0) ?ts d = Inr (e, replicate n pkt)"
      and n: "\<forall>t0 t1 t2 us. ?ts = t0 # t1 # t2 # us \<and> 1000 \<le> t0 \<and> t0 + 1 \<le> t1 \<and> t1 + 2 \<le> t2 \<longrightarrow> n = 3"
      and m: "\<forall>rest. \<exists>m. message_parse True (pkt @ rest) MAX_PACKET_LEN = Inr (Some m) \<and>
        dm_qd m = [\<lparr>q_name = dns_text tv_local, q_type = QTYPE_A, q_class = 1\<rparr>] \<and> dm_an m = [] \<and> dm_ns m = [] \<and> dm_ar m = []"
    by auto
  have p: "n = 3" using n [rule_format, of 1000 1001 1003 "[1050]"] by simp
  from m [rule_format, of "[]"] have "\<exists>m. message_parse True pkt MAX_PACKET_LEN = Inr (Some m) \<and> length (dm_qd m) = 1" by auto
  moreover have "ask_at True (\<lambda>_ _. 0) ?ts d = Inr (e, [pkt, pkt, pkt])" using a p by (simp add: numeral_3_eq_3)
  ultimately show ?thesis using d by blast
qed

section \<open>What a record teaches\<close>

definition known :: "mdns_daemon \<Rightarrow> entry_key \<Rightarrow> mdns_answer option" where
  "known d k = map_of (map (\<lambda>c. (entry_key c, ca_rr c)) (md_cache d ! bucket LPRIME (fst k))) k"

definition resource_key :: "resource \<Rightarrow> entry_key" where
  "resource_key r = (rr_name r, rr_type r, if rr_type r = QTYPE_PTR then known_name r else None)"

text \<open>
  The cache as a finite map.  A record that flushes makes its name and type unknown first; then its key gets a new time,
  and the data of the record if it had none.
\<close>

definition learned :: "nat \<Rightarrow> bool \<Rightarrow> 32 word \<Rightarrow> resource \<Rightarrow> (entry_key \<Rightarrow> mdns_answer option) \<Rightarrow> entry_key \<Rightarrow> mdns_answer option" where
  "learned now flush sender r M =
     (let M = (\<lambda>k. if flush \<and> fst k = rr_name r \<and> fst (snd k) = rr_type r then None else M k);
          ttl = now + unat (rr_ttl r) div 2 + 8
      in M(resource_key r \<mapsto> (case M (resource_key r) of None \<Rightarrow> ca_rr (new_cached r sender ttl) | Some a \<Rightarrow> a\<lparr>ma_ttl := ttl\<rparr>)))"

text \<open>Expiry, when the application wants to hear more.\<close>

lemma q_answer_told:
  assumes "\<forall>f a. answer f a \<noteq> -1" "ca_q c = Some q" "md_qheap d q = Some x"
  shows "\<exists>t. q_answer answer c d = Inr (d\<lparr>md_told := t\<rparr>)"
  using assms by (auto simp: q_answer_def at_query_def Let_def set_ttl_def)

lemma expire_loop_filter:
  assumes "\<forall>f a. answer f a \<noteq> -1"
  shows "i < length (md_cache d) \<Longrightarrow> md_cache d ! i = p @ cs \<Longrightarrow> \<forall>c \<in> set cs. \<forall>q. ca_q c = Some q \<longrightarrow> md_qheap d q \<noteq> None \<Longrightarrow>
    \<exists>t. expire_loop (length cs) answer i (length p) d =
      Inr (d\<lparr>md_cache := (md_cache d)[i := p @ filter (\<lambda>c. md_now d < ma_ttl (ca_rr c)) cs], md_told := t\<rparr>)"
proof (induction cs arbitrary: p d)
  case Nil
  then have "(md_cache d)[i := p] = md_cache d" using list_update_id [of "md_cache d" i] by simp
  then have "d\<lparr>md_cache := (md_cache d)[i := p], md_told := md_told d\<rparr> = d" by simp
  then show ?case by (simp, metis)
next
  case (Cons c cs)
  show ?case
  proof (cases "ma_ttl (ca_rr c) \<le> md_now d")
    case True
    let ?d = "d\<lparr>md_cache := (md_cache d)[i := p @ cs]\<rparr>"
    obtain t where t: "(if ca_q c = None then Inr ?d else q_answer answer c ?d) = Inr (?d\<lparr>md_told := t\<rparr>)"
    proof (cases "ca_q c")
      case None
      then show ?thesis using that [of "md_told d"] by simp
    next
      case (Some q)
      then obtain x where "md_qheap ?d q = Some x" using Cons.prems(3) by auto
      then show ?thesis using q_answer_told [OF assms Some, of ?d x] Some that by auto
    qed
    have cut: "take (length p) (md_cache d ! i) @ drop (length p + 1) (md_cache d ! i) = p @ cs" "md_cache d ! i ! length p = c"
      using Cons.prems(2) by simp_all
    have run: "expire_loop (length (c # cs)) answer i (length p) d = expire_loop (length cs) answer i (length p) (?d\<lparr>md_told := t\<rparr>)"
      by (simp only: length_Cons expire_loop.simps Let_def cut if_P [OF True] t and_then_Inr)
    obtain t' where "expire_loop (length cs) answer i (length p) (?d\<lparr>md_told := t\<rparr>) =
        Inr (?d\<lparr>md_told := t\<rparr>\<lparr>md_cache := (md_cache (?d\<lparr>md_told := t\<rparr>))[i := p @ filter (\<lambda>c. md_now d < ma_ttl (ca_rr c)) cs], md_told := t'\<rparr>)"
      using Cons.IH [of "?d\<lparr>md_told := t\<rparr>" p] Cons.prems by auto
    then show ?thesis using run True by (auto simp: not_less)
  next
    case False
    have "md_cache d ! i ! length p = c" using Cons.prems(2) by simp
    then have run: "expire_loop (length (c # cs)) answer i (length p) d = expire_loop (length cs) answer i (length (p @ [c])) d"
      using False by (simp add: Let_def)
    show ?thesis using Cons.IH [of d "p @ [c]"] Cons.prems False unfolding run by simp
  qed
qed

lemma c_expire_filter:
  assumes "\<forall>f a. answer f a \<noteq> -1" "mdns_ok d" "i < LPRIME"
  shows "\<exists>t. c_expire answer i d = Inr (d\<lparr>md_cache := (md_cache d)[i := filter (\<lambda>c. md_now d < ma_ttl (ca_rr c)) (md_cache d ! i)], md_told := t\<rparr>)"
proof -
  have "length (md_cache d) = LPRIME" "bucket_fine (md_qheap d) i (md_cache d ! i)" using assms(2,3) by (simp_all add: mdns_ok_def)
  then have "\<forall>c \<in> set (md_cache d ! i). \<forall>q. ca_q c = Some q \<longrightarrow> md_qheap d q \<noteq> None" using bucket_query by fastforce
  then show ?thesis using expire_loop_filter [OF assms(1), of i d "[]" "md_cache d ! i"] assms(3) \<open>length (md_cache d) = LPRIME\<close>
    by (simp add: c_expire_def)
qed

text \<open>A bucket as a finite map.\<close>

abbreviation entries :: "cached list \<Rightarrow> (entry_key \<times> mdns_answer) list" where
  "entries b \<equiv> map (\<lambda>c. (entry_key c, ca_rr c)) b"

lemma keys_entries: "map fst (entries b) = map entry_key b"
  by simp

lemma entries_filter:
  assumes "distinct (map entry_key b)"
  shows "map_of (entries (filter P b)) k = (if \<exists>c \<in> set b. entry_key c = k \<and> P c then map_of (entries b) k else None)"
  using assms
proof (induction b)
  case (Cons c b)
  have "\<exists>c' \<in> set b. entry_key c' = k \<Longrightarrow> entry_key c \<noteq> k" using Cons.prems by force
  then show ?case using Cons by (auto simp: image_iff)
qed simp

lemma entries_refresh:
  "refresh_first P t b = Some b' \<Longrightarrow> (\<And>c. c \<in> set b \<Longrightarrow> P c \<longleftrightarrow> entry_key c = k) \<Longrightarrow> distinct (map entry_key b) \<Longrightarrow>
    \<exists>a. map_of (entries b) k = Some a \<and> map_of (entries b') = (map_of (entries b))(k \<mapsto> a\<lparr>ma_ttl := t\<rparr>)"
proof (induction b arbitrary: b')
  case (Cons c b)
  show ?case
  proof (cases "P c")
    case True
    then have k: "k = entry_key c" "b' = set_ttl t c # b" using Cons.prems(1,2) by auto
    show ?thesis unfolding k by (rule exI [of _ "ca_rr c"]) (auto simp: set_ttl_def fun_eq_iff)
  next
    case False
    then obtain z where z: "refresh_first P t b = Some z" "b' = c # z" using Cons.prems(1) by auto
    have "entry_key c \<noteq> k" using False Cons.prems(2) by simp
    moreover obtain a where "map_of (entries b) k = Some a" "map_of (entries z) = (map_of (entries b))(k \<mapsto> a\<lparr>ma_ttl := t\<rparr>)"
    proof -
      have "\<And>c. c \<in> set b \<Longrightarrow> P c \<longleftrightarrow> entry_key c = k" "distinct (map entry_key b)" using Cons.prems(2,3) by simp_all
      then show ?thesis using Cons.IH [OF z(1)] that by blast
    qed
    ultimately show ?thesis unfolding z(2) by (intro exI [of _ a]) (auto simp: fun_eq_iff)
  qed
qed simp

lemma same_entry_key: "rr_type r \<noteq> QTYPE_ANY \<Longrightarrow> same_entry r c \<longleftrightarrow> entry_key c = resource_key r"
  by (auto simp: same_entry_def c_match_def answer_key_def resource_key_def)

lemma known_update:
  assumes "length (md_cache d) = LPRIME"
  shows "known (d\<lparr>md_cache := (md_cache d)[bucket LPRIME name := b], md_told := t\<rparr>) k =
    (if bucket LPRIME (fst k) = bucket LPRIME name then map_of (entries b) k else known d k)"
  using assms bucket_less [of LPRIME name] by (simp add: known_def nth_list_update)

text \<open>Flushing, when nothing has expired: what is left of the bucket is what is about something else.\<close>

lemma flush_bucket:
  assumes "\<forall>f a. answer f a \<noteq> -1" "mdns_ok d" "\<forall>c \<in> set (md_cache d ! bucket LPRIME name). md_now d < ma_ttl (ca_rr c)"
  shows "\<exists>t. c_expire answer (bucket LPRIME name) (each_match name ty (set_ttl 0) d) =
    Inr (d\<lparr>md_cache := (md_cache d)[bucket LPRIME name := filter (\<lambda>c. \<not> c_match name ty c) (md_cache d ! bucket LPRIME name)], md_told := t\<rparr>)"
proof -
  let ?i = "bucket LPRIME name" and ?d = "each_match name ty (set_ttl 0) d"
  have i: "?i < LPRIME" "?i < length (md_cache d)" using assms(2) by (simp_all add: bucket_less mdns_ok_def)
  have "filter (\<lambda>c. md_now d < ma_ttl (ca_rr c)) (map (\<lambda>c. if c_match name ty c then set_ttl 0 c else c) b) = filter (\<lambda>c. \<not> c_match name ty c) b"
    if "\<forall>c \<in> set b. md_now d < ma_ttl (ca_rr c)" for b using that by (induction b) auto
  from this [OF assms(3)] have b: "filter (\<lambda>c. md_now ?d < ma_ttl (ca_rr c)) (md_cache ?d ! ?i) = filter (\<lambda>c. \<not> c_match name ty c) (md_cache d ! ?i)"
    using i(2) by (simp add: each_match_def Let_def)
  have "mdns_ok ?d" by (rule each_match_ok [OF assms(2)]) simp_all
  from c_expire_filter [OF assms(1) this i(1)] show ?thesis unfolding b by (simp add: each_match_def Let_def)
qed

lemma learn_bucket:
  assumes "\<forall>f a. answer f a \<noteq> -1" "mdns_ok d" "rr_type r \<noteq> QTYPE_ANY" "md_now d + unat (rr_ttl r) div 2 + 8 < 2 ^ 64"
    and "i = bucket LPRIME (rr_name r)" "ttl = md_now d + unat (rr_ttl r) div 2 + 8"
  shows "\<exists>b t. cache_entry answer sender r d = Inr (d\<lparr>md_cache := (md_cache d)[i := b], md_told := t\<rparr>, 0) \<and>
    map_of (entries b) = (map_of (entries (md_cache d ! i)))(resource_key r \<mapsto>
      (case map_of (entries (md_cache d ! i)) (resource_key r) of None \<Rightarrow> ca_rr (new_cached r sender ttl) | Some a \<Rightarrow> a\<lparr>ma_ttl := ttl\<rparr>))"
proof -
  let ?b = "md_cache d ! i"
  have mod: "(md_now d + unat (rr_ttl r) div 2 + 8) mod 2 ^ 64 = ttl" using assms(4,6) by simp
  have distinct: "distinct (map entry_key ?b)" using assms(2,5) bucket_less [of LPRIME] by (simp add: mdns_ok_def bucket_fine_def)
  show ?thesis
  proof (cases "refresh_first (same_entry r) ttl ?b")
    case (Some b)
    from entries_refresh [OF Some same_entry_key [OF assms(3)] distinct]
    obtain a where "map_of (entries ?b) (resource_key r) = Some a" "map_of (entries b) = (map_of (entries ?b))(resource_key r \<mapsto> a\<lparr>ma_ttl := ttl\<rparr>)"
      by blast
    then show ?thesis using Some
      by (intro exI [of _ b] exI [of _ "md_told d"]) (simp add: cache_entry_def Let_def mod [simplified] assms(5) [symmetric])
  next
    case None
    then have absent: "map_of (entries ?b) (resource_key r) = None"
      by (auto simp: refresh_first_None same_entry_key [OF assms(3)] map_of_eq_None_iff)
    define q where "q = q_next d (rr_name r) (rr_type r)"
    let ?c = "(new_cached r sender ttl)\<lparr>ca_q := q\<rparr>"
    let ?d = "d\<lparr>md_cache := (md_cache d)[i := ?c # ?b]\<rparr>"
    have key: "entry_key (new_cached r sender ttl) = resource_key r"
      using new_key [of r sender ttl] by (cases "rr_type r = QTYPE_PTR") (simp_all add: resource_key_def)
    obtain t where "(if q = None then Inr ?d else q_answer answer ?c ?d) = Inr (?d\<lparr>md_told := t\<rparr>)"
    proof (cases q)
      case None
      then show ?thesis using that [of "md_told d"] by simp
    next
      case (Some p)
      then obtain x where "md_qheap ?d p = Some x" using q_next_Some [OF assms(2), of "rr_name r" "rr_type r" p] by (auto simp: q_def)
      then show ?thesis using q_answer_told [OF assms(1), of ?c p ?d x] Some that by auto
    qed
    moreover have "\<not> ttl \<le> md_now d" using assms(6) by simp
    ultimately show ?thesis using None absent key
      by (intro exI [of _ "?c # ?b"] exI [of _ t]) (simp add: cache_entry_def Let_def q_def [symmetric] mod [simplified] assms(5) [symmetric])
  qed
qed

text \<open>
  C17.  A record with a time to live, arriving when nothing has expired, changes the cache as the finite map says, for
  every key; \<^verbatim>\<open>q_answer\<close> only tells the application.  In particular a record that does not flush leaves the data of a
  known name and type as they are, even when it brings others.
\<close>

theorem mdns_cache_learns:
  assumes "mdns_reachable known_ip answer d" "\<forall>f a. answer f a \<noteq> -1" "rr_type r \<noteq> QTYPE_ANY" "rr_ttl r \<noteq> 0"
    and "\<forall>c \<in> set (md_cache d ! bucket LPRIME (rr_name r)). md_now d < ma_ttl (ca_rr c)" "md_now d + unat (rr_ttl r) div 2 + 8 < 2 ^ 64"
  shows "\<exists>e. mdns_cache known_ip answer sender r d = Inr (e, 0) \<and>
    (\<forall>k. known e k = learned (md_now d) (rr_class r = 32768 + md_class d) sender r (known d) k)"
proof -
  let ?i = "bucket LPRIME (rr_name r)" and ?flush = "rr_class r = 32768 + md_class d"
  let ?ttl = "md_now d + unat (rr_ttl r) div 2 + 8"
  have ok: "mdns_ok d" using mdns_reachable_ok [OF assms(1)] .
  then have len: "length (md_cache d) = LPRIME" and i: "?i < LPRIME" by (simp_all add: mdns_ok_def bucket_less)
  have fine: "distinct (map entry_key (md_cache d ! ?i))" using ok i by (simp add: mdns_ok_def bucket_fine_def)
  define b1 where "b1 = (if ?flush then filter (\<lambda>c. \<not> c_match (rr_name r) (rr_type r) c) (md_cache d ! ?i) else md_cache d ! ?i)"
  obtain t1 where flushed: "(if ?flush then c_expire answer ?i (each_match (rr_name r) (rr_type r) (set_ttl 0) d) else Inr d) =
      Inr (d\<lparr>md_cache := (md_cache d)[?i := b1], md_told := t1\<rparr>)"
  proof (cases ?flush)
    case True
    then show ?thesis using flush_bucket [OF assms(2) ok assms(5), of "rr_type r"] that by (auto simp: b1_def)
  next
    case False
    then show ?thesis using that [of "md_told d"] by (simp add: b1_def)
  qed
  let ?d1 = "d\<lparr>md_cache := (md_cache d)[?i := b1], md_told := t1\<rparr>"
  have ok1: "mdns_ok ?d1"
  proof (cases ?flush)
    case True
    then show ?thesis using flushed c_expire_ok [OF _ i] each_match_ok [OF ok, of "set_ttl 0"] by (metis set_ttl_key)
  next
    case False
    then show ?thesis using flushed ok by simp
  qed
  have here: "md_cache ?d1 ! ?i = b1" using len i by simp
  have now: "md_now ?d1 = md_now d" by simp
  have le: "md_now ?d1 + unat (rr_ttl r) div 2 + 8 < 2 ^ 64" using assms(6) by simp
  obtain b t where b: "cache_entry answer sender r ?d1 = Inr (?d1\<lparr>md_cache := (md_cache ?d1)[?i := b], md_told := t\<rparr>, 0)"
    "map_of (entries b) = (map_of (entries b1))(resource_key r \<mapsto>
      (case map_of (entries b1) (resource_key r) of None \<Rightarrow> ca_rr (new_cached r sender ?ttl) | Some a \<Rightarrow> a\<lparr>ma_ttl := ?ttl\<rparr>))"
    using learn_bucket [OF assms(2) ok1 assms(3) le refl refl, of sender, unfolded now here] by blast
  have run: "mdns_cache known_ip answer sender r d = Inr (?d1\<lparr>md_cache := (md_cache ?d1)[?i := b], md_told := t\<rparr>, 0)"
    by (simp only: mdns_cache_def Let_def flushed and_then_Inr if_not_P [OF assms(4)] b(1))
  have kept: "map_of (entries b1) k = (if ?flush \<and> fst k = rr_name r \<and> fst (snd k) = rr_type r then None else known d k)"
    if k: "bucket LPRIME (fst k) = ?i" for k
  proof (cases ?flush)
    case True
    let ?E = "\<exists>c \<in> set (md_cache d ! ?i). entry_key c = k \<and> \<not> c_match (rr_name r) (rr_type r) c"
    have b1: "map_of (entries b1) k = (if ?E then known d k else None)"
      unfolding b1_def if_P [OF True] known_def k by (rule entries_filter [OF fine])
    have same: "c_match (rr_name r) (rr_type r) c \<longleftrightarrow> fst (entry_key c) = rr_name r \<and> fst (snd (entry_key c)) = rr_type r" for c
      using assms(3) by (auto simp: c_match_def answer_key_def)
    have all: "known d k = None \<longleftrightarrow> \<not> (\<exists>c \<in> set (md_cache d ! ?i). entry_key c = k)"
      unfolding known_def k by (auto simp: map_of_eq_None_iff image_iff)
    show ?thesis
    proof (cases "fst k = rr_name r \<and> fst (snd k) = rr_type r")
      case about: True
      then have no: "\<not> ?E" using same by metis
      show ?thesis unfolding b1 if_not_P [OF no] using about True by simp
    next
      case other: False
      then have "?E \<longleftrightarrow> known d k \<noteq> None" using same all by metis
      then show ?thesis using other b1 by (cases "known d k") simp_all
    qed
  next
    case False
    then show ?thesis using k by (simp add: b1_def known_def)
  qed
  have rk: "fst (resource_key r) = rr_name r" by (simp add: resource_key_def)
  have "known (?d1\<lparr>md_cache := (md_cache ?d1)[?i := b], md_told := t\<rparr>) k = learned (md_now d) ?flush sender r (known d) k" for k
  proof (cases "bucket LPRIME (fst k) = ?i")
    case True
    have e: "known (?d1\<lparr>md_cache := (md_cache ?d1)[?i := b], md_told := t\<rparr>) k = map_of (entries b) k"
      using len i by (simp add: known_def True)
    have rkk: "bucket LPRIME (fst (resource_key r)) = ?i" using rk by simp
    show ?thesis unfolding e b(2) learned_def Let_def
      by (simp only: fun_upd_apply kept [OF rkk] kept [OF True] now cong: if_cong)
  next
    case False
    then have "fst k \<noteq> rr_name r" "k \<noteq> resource_key r" using rk by auto
    then show ?thesis using False len by (simp add: known_def learned_def Let_def)
  qed
  then show ?thesis using run by blast
qed

text \<open>A flushing address of the name that is asked for, into an empty cache.\<close>

definition one_address :: resource where
  "one_address = \<lparr>rr_name = dns_text tv_local, rr_type = QTYPE_A, rr_class = 32769, rr_ttl = 120, rr_rdlength = 4, rr_rdata = [10, 0, 0, 1], rr_known = K_a 0x0100000A []\<rparr>"

theorem mdns_cache_learns_witness:
  "\<exists>d e. one_query (dns_text tv_local) = Inr d \<and> mdns_cache (\<lambda>_. 0) (\<lambda>_ _. 0) 0 one_address d = Inr (e, 0) \<and>
    (\<exists>a. known e (dns_text tv_local, QTYPE_A, None) = Some a \<and> ma_ip a = 0x0100000A \<and> ma_ttl a = 1068)"
proof -
  let ?n = "dns_text tv_local"
  obtain d where d: "one_query ?n = Inr d" "mdns_reachable (\<lambda>_. 0) (\<lambda>_ _. 0) d" "md_now d = 1000" "md_class d = 1"
      "md_cache d ! bucket LPRIME ?n = []"
  proof -
    have "bucket LPRIME ?n < LPRIME" by (rule bucket_less) simp
    then have "replicate LPRIME ([] :: cached list) ! bucket LPRIME ?n = []" by (rule nth_replicate)
    then show ?thesis using that one_query_runs [of ?n "\<lambda>_. 0" "\<lambda>_ _. 0"] by metis
  qed
  have r: "rr_name one_address = ?n" "rr_type one_address = QTYPE_A" "rr_ttl one_address = 120" "rr_class one_address = 32768 + 1"
      "rr_known one_address = K_a 0x0100000A []"
    by (simp_all add: one_address_def)
  have none: "known d (?n, QTYPE_A, None) = None" using d(5) by (simp add: known_def)
  obtain e where e: "mdns_cache (\<lambda>_. 0) (\<lambda>_ _. 0) 0 one_address d = Inr (e, 0)"
      "\<forall>k. known e k = learned (md_now d) (rr_class one_address = 32768 + md_class d) 0 one_address (known d) k"
    using mdns_cache_learns [OF d(2), of one_address 0] by (auto simp: r d(3,5))
  have "known e (?n, QTYPE_A, None) = Some (ca_rr (new_cached one_address 0 1068))"
    unfolding e(2) [rule_format] by (simp add: learned_def resource_key_def r d(3,4) none)
  then show ?thesis using d(1) e(1) by (auto simp: new_cached_def Let_def r)
qed

end
