(* ===== verification/MqttRead.thy ===== *)
theory MqttRead
  imports MqttRoundtrip
begin

text \<open>
  The readers of \<^verbatim>\<open>core/deps/mqtt/src/MQTTPacket.c\<close> that pull a packet through a callback.  \<open>getfn s n\<close> asks the
  source \<open>s\<close> for \<open>n\<close> bytes and answers -1 for an error, 0 for call again, or the number of bytes it delivers, at most \<open>n\<close>,
  and the bytes.  The buffer is the caller's block with its contents.
\<close>

section \<open>State and operations\<close>

type_synonym 's getfn = "'s \<Rightarrow> nat \<Rightarrow> int \<times> byte list \<times> 's"

record mqtt_transport =
  mt_multiplier :: nat
  mt_rem_len :: nat
  mt_len :: nat
  mt_state :: nat

definition store_at :: "byte list \<Rightarrow> nat \<Rightarrow> byte list \<Rightarrow> byte list exec" where
  "store_at buf p bs = and_then (in_bounds (p + length bs \<le> length buf)) (\<lambda>_. Inr (take p buf @ bs @ drop (p + length bs) buf))"

text \<open>\<^verbatim>\<open>MQTTPacket_decode\<close> with any callback: the value as far as it was read, which is all its caller looks at.\<close>

function decode_from :: "'s getfn \<Rightarrow> nat \<Rightarrow> nat \<Rightarrow> nat \<Rightarrow> 's \<Rightarrow> (nat \<times> 's) exec" where
  "decode_from getfn len mult val s =
     (if len + 1 > 4 then Inr (val, s)
      else
        case getfn s 1 of (rc, bs, s) \<Rightarrow>
          if rc \<noteq> 1 then Inr (val, s)
          else
            case bs of [] \<Rightarrow> Inl Out_of_bounds
            | c # cs \<Rightarrow>
                let val = val + unat c mod 128 * mult in
                if unat c \<ge> 128 then decode_from getfn (len + 1) (mult * 128) val s else Inr (val, s))"
  by pat_completeness auto
termination by (relation "measure (\<lambda>(_, len, _). 4 - len)") auto

declare decode_from.simps [simp del]

definition MQTTPacket_read :: "'s getfn \<Rightarrow> byte list \<Rightarrow> 's \<Rightarrow> (int \<times> byte list \<times> 's) exec" where
  "MQTTPacket_read getfn buf s =
     (case getfn s 1 of (rc, bs, s) \<Rightarrow>
        and_then (store_at buf 0 bs) (\<lambda>buf.
        if rc \<noteq> 1 then Inr (-1, buf, s)
        else
          and_then (decode_from getfn 0 1 0 s) (\<lambda>(rem_len, s).
          let len = 1 + length (MQTTPacket_encode rem_len) in
          and_then (store_at buf 1 (MQTTPacket_encode rem_len)) (\<lambda>buf.
          if rem_len + len > length buf then Inr (-1, buf, s)
          else if rem_len \<noteq> 0 then
            (case getfn s rem_len of (rc, bs, s) \<Rightarrow>
               and_then (store_at buf len bs) (\<lambda>buf.
               if rc \<noteq> int rem_len then Inr (-1, buf, s) else Inr (int (header_type (buf ! 0)), buf, s)))
          else Inr (int (header_type (buf ! 0)), buf, s)))))"

text \<open>The loop of \<^verbatim>\<open>MQTTPacket_decodenb\<close>: -1, 0 for call again, or the number of length bytes.\<close>

function decodenb_loop :: "'s getfn \<Rightarrow> mqtt_transport \<Rightarrow> 's \<Rightarrow> (int \<times> mqtt_transport \<times> 's) exec" where
  "decodenb_loop getfn t s =
     (if mt_len t \<ge> 4 then Inr (-1, t, s)
      else
        case getfn s 1 of (frc, bs, s) \<Rightarrow>
          if frc = -1 then Inr (-1, t, s)
          else if frc = 0 then Inr (0, t, s)
          else
            case bs of [] \<Rightarrow> Inl Out_of_bounds
            | c # cs \<Rightarrow>
                let t = t\<lparr>mt_len := mt_len t + 1, mt_rem_len := mt_rem_len t + unat c mod 128 * mt_multiplier t,
                          mt_multiplier := mt_multiplier t * 128\<rparr>
                in if unat c \<ge> 128 then decodenb_loop getfn t s else Inr (int (mt_len t), t, s))"
  by pat_completeness auto
termination by (relation "measure (\<lambda>(_, t, _). 4 - mt_len t)") auto

declare decodenb_loop.simps [simp del]

definition MQTTPacket_decodenb :: "'s getfn \<Rightarrow> mqtt_transport \<Rightarrow> 's \<Rightarrow> (int \<times> mqtt_transport \<times> 's) exec" where
  "MQTTPacket_decodenb getfn t s =
     decodenb_loop getfn (if mt_len t = 0 then t\<lparr>mt_multiplier := 1, mt_rem_len := 0\<rparr> else t) s"

text \<open>The cases of \<^verbatim>\<open>MQTTPacket_readnb\<close>, which fall through into each other.\<close>

definition readnb_body :: "'s getfn \<Rightarrow> byte list \<Rightarrow> mqtt_transport \<Rightarrow> 's \<Rightarrow> (int \<times> byte list \<times> mqtt_transport \<times> 's) exec" where
  "readnb_body getfn buf t s =
     (if mt_rem_len t \<noteq> 0 then
        (case getfn s (mt_rem_len t) of (frc, bs, s) \<Rightarrow>
           and_then (store_at buf (mt_len t) bs) (\<lambda>buf.
           if frc = -1 then Inr (-1, buf, t\<lparr>mt_state := 0\<rparr>, s)
           else if frc = 0 then Inr (0, buf, t, s)
           else
             let t = t\<lparr>mt_rem_len := mt_rem_len t - nat frc, mt_len := mt_len t + nat frc\<rparr> in
             if mt_rem_len t \<noteq> 0 then Inr (0, buf, t, s)
             else Inr (int (header_type (buf ! 0)), buf, t\<lparr>mt_state := 0\<rparr>, s)))
      else Inr (int (header_type (buf ! 0)), buf, t\<lparr>mt_state := 0\<rparr>, s))"

definition readnb_length :: "'s getfn \<Rightarrow> byte list \<Rightarrow> mqtt_transport \<Rightarrow> 's \<Rightarrow> (int \<times> byte list \<times> mqtt_transport \<times> 's) exec" where
  "readnb_length getfn buf t s =
     and_then (MQTTPacket_decodenb getfn t s) (\<lambda>(frc, t, s).
     if frc = -1 then Inr (-1, buf, t\<lparr>mt_state := 0\<rparr>, s)
     else if frc = 0 then Inr (0, buf, t, s)
     else
       let e = MQTTPacket_encode (mt_rem_len t); t = t\<lparr>mt_len := 1 + length e\<rparr> in
       and_then (store_at buf 1 e) (\<lambda>buf.
       if mt_rem_len t + mt_len t > length buf then Inr (-1, buf, t\<lparr>mt_state := 0\<rparr>, s)
       else readnb_body getfn buf (t\<lparr>mt_state := 2\<rparr>) s))"

definition MQTTPacket_readnb :: "'s getfn \<Rightarrow> byte list \<Rightarrow> mqtt_transport \<Rightarrow> 's \<Rightarrow> (int \<times> byte list \<times> mqtt_transport \<times> 's) exec" where
  "MQTTPacket_readnb getfn buf t s =
     (if mt_state t = 1 then readnb_length getfn buf t s
      else if mt_state t = 2 then readnb_body getfn buf t s
      else
        case getfn s 1 of (frc, bs, s) \<Rightarrow>
          and_then (store_at buf 0 bs) (\<lambda>buf.
          if frc = -1 then Inr (-1, buf, t\<lparr>mt_state := 0\<rparr>, s)
          else if frc = 0 then Inr (0, buf, t\<lparr>mt_state := 0\<rparr>, s)
          else readnb_length getfn buf (t\<lparr>mt_len := 0, mt_state := 1\<rparr>) s))"

section \<open>A network\<close>

text \<open>What has arrived; a call takes of it what it asked for.\<close>

definition net :: "byte list getfn" where
  "net avail n = (int (min n (length avail)), take n avail, drop n avail)"

text \<open>The reader is called whenever a chunk has arrived, until it answers something else than 0.\<close>

fun read_chunks ::
    "byte list \<Rightarrow> mqtt_transport \<Rightarrow> byte list \<Rightarrow> byte list list \<Rightarrow> (int \<times> byte list \<times> mqtt_transport \<times> byte list \<times> byte list list) exec" where
  "read_chunks buf t avail [] = Inr (0, buf, t, avail, [])"
| "read_chunks buf t avail (c # cs) =
     and_then (MQTTPacket_readnb net buf t (avail @ c)) (\<lambda>(rc, buf, t, avail).
     if rc = 0 then read_chunks buf t avail cs else Inr (rc, buf, t, avail, cs))"

text \<open>A length field as it may be sent, not always the shortest, and its value.\<close>

definition length_field :: "byte list \<Rightarrow> bool" where
  "length_field l \<longleftrightarrow> l \<noteq> [] \<and> length l \<le> 4 \<and> (\<forall>c \<in> set (butlast l). unat c \<ge> 128) \<and> unat (last l) < 128"

fun field_value :: "byte list \<Rightarrow> nat" where
  "field_value [] = 0"
| "field_value (c # l) = unat c mod 128 + 128 * field_value l"

lemma net_simps [simp]: "net [] n = (0, [], [])" "net (c # a) (Suc 0) = (1, [c], a)"
  by (simp_all add: net_def)

lemma store_at_split: "store_at (pre @ old @ post) (length pre) bs = Inr (pre @ bs @ post)" if "length bs = length old" for pre old post bs
  using that by (simp add: store_at_def)

section \<open>The length field\<close>

text \<open>A piece of a length field with more to come, and its end.\<close>

lemma field_value_bound: "field_value l < 128 ^ length l"
proof (induction l)
  case (Cons c l)
  have "unat c mod 128 < 128" by simp
  then have "unat c mod 128 + 128 * field_value l < 128 + 128 * field_value l" by simp
  also have "\<dots> \<le> 128 * 128 ^ length l" using Cons.IH by (metis Suc_leI mult_Suc_right mult_le_mono2)
  finally show ?case by simp
qed simp

lemma decodenb_more:
  "\<forall>c \<in> set l. unat c \<ge> 128 \<Longrightarrow> mt_len t + length l < 4 \<Longrightarrow> decodenb_loop net t l =
    Inr (0, t\<lparr>mt_len := mt_len t + length l, mt_rem_len := mt_rem_len t + mt_multiplier t * field_value l,
              mt_multiplier := mt_multiplier t * 128 ^ length l\<rparr>, [])"
proof (induction l arbitrary: t)
  case Nil
  then show ?case by (simp add: decodenb_loop.simps)
next
  case (Cons c l)
  then show ?case by (subst decodenb_loop.simps) (simp add: Let_def algebra_simps)
qed

lemma decodenb_last:
  "length_field l \<Longrightarrow> mt_len t + length l \<le> 4 \<Longrightarrow> decodenb_loop net t (l @ a) =
    Inr (int (mt_len t + length l), t\<lparr>mt_len := mt_len t + length l, mt_rem_len := mt_rem_len t + mt_multiplier t * field_value l,
              mt_multiplier := mt_multiplier t * 128 ^ length l\<rparr>, a)"
proof (induction l arbitrary: t)
  case (Cons c l)
  show ?case
  proof (cases l)
    case Nil
    then show ?thesis using Cons.prems by (subst decodenb_loop.simps) (simp add: length_field_def Let_def algebra_simps)
  next
    case (Cons c' l')
    then have "length_field l" "unat c \<ge> 128" using Cons.prems(1) by (simp_all add: length_field_def)
    then show ?thesis using Cons.IH Cons.prems(2) by (subst decodenb_loop.simps) (simp add: Let_def algebra_simps)
  qed
qed (simp add: length_field_def)

lemma decode_from_field:
  "length_field l \<Longrightarrow> len + length l \<le> 4 \<Longrightarrow> decode_from net len mult val (l @ a) = Inr (val + mult * field_value l, a)"
proof (induction l arbitrary: len mult val)
  case (Cons c l)
  show ?case
  proof (cases l)
    case Nil
    then show ?thesis using Cons.prems by (subst decode_from.simps) (simp add: length_field_def Let_def algebra_simps)
  next
    case (Cons c' l')
    then have "length_field l" "unat c \<ge> 128" using Cons.prems(1) by (simp_all add: length_field_def)
    then show ?thesis using Cons.IH Cons.prems(2) by (subst decode_from.simps) (simp add: Let_def algebra_simps)
  qed
qed (simp add: length_field_def)

text \<open>Cutting a length field.\<close>

lemma length_field_cut:
  assumes "length_field (l1 @ l2)" "l2 \<noteq> []"
  shows "\<forall>c \<in> set l1. unat c \<ge> 128" "length_field l2"
  using assms by (auto simp: length_field_def butlast_append)

lemma field_value_append: "field_value (l1 @ l2) = field_value l1 + 128 ^ length l1 * field_value l2"
  by (induction l1) (simp_all add: algebra_simps)

lemma encode_field: "length_field l \<Longrightarrow> length (MQTTPacket_encode (field_value l)) \<le> length l"
  using encode_length [OF field_value_bound, of l] by (simp add: length_field_def)

text \<open>How one stream is cut.\<close>

lemma cut_cases:
  assumes "c @ z = w @ r"
  obtains (short) w2 where "w = c @ w2" "w2 \<noteq> []" "z = w2 @ r" | (long) x where "c = w @ x" "x @ z = r"
  using assms by (auto simp: append_eq_append_conv2) (metis append_Nil2 append_self_conv2)

section \<open>The body\<close>

definition read_done :: "byte \<Rightarrow> byte list \<Rightarrow> byte list \<Rightarrow> byte list \<Rightarrow>
    (int \<times> byte list \<times> mqtt_transport \<times> byte list \<times> byte list list) exec \<Rightarrow> bool" where
  "read_done h packet old rest res \<longleftrightarrow>
     (\<exists>t avail cs. res = Inr (int (header_type h), packet @ drop (length packet) old, t, avail, cs) \<and> mt_state t = 0 \<and> avail @ concat cs = rest)"

text \<open>A call in the body: \<open>b\<close> is what is still to come of it.\<close>

lemma body_more:
  assumes "b = a @ b2" "b2 \<noteq> []" "mt_len t = length pre" "mt_rem_len t = length b" "length b \<le> length post"
  shows "readnb_body net (pre @ post) t a =
    Inr (0, (pre @ a) @ drop (length a) post, t\<lparr>mt_rem_len := length b2, mt_len := length (pre @ a)\<rparr>, [])"
proof (cases a)
  case Nil
  then have "t\<lparr>mt_rem_len := length b2, mt_len := length pre\<rparr> = t" using assms by simp
  then show ?thesis using assms Nil by (simp add: readnb_body_def net_def store_at_def)
next
  case (Cons x xs)
  have "length a \<le> length post" using assms by simp
  then show ?thesis using assms Cons
    by (simp add: readnb_body_def net_def store_at_def Let_def nat_add_distrib)
qed

lemma body_all:
  assumes "mt_len t = length pre" "mt_rem_len t = length b" "length b \<le> length post" "pre \<noteq> []"
  shows "\<exists>t'. readnb_body net (pre @ post) t (b @ x) = Inr (int (header_type (hd pre)), pre @ b @ drop (length b) post, t', x) \<and> mt_state t' = 0"
  using assms by (cases b; cases pre) (auto simp: readnb_body_def net_def store_at_def Let_def nat_add_distrib)

lemma chunks_body:
  assumes "unat h div 16 \<noteq> 0"
  shows "concat cs = b @ rest \<Longrightarrow> b \<noteq> [] \<Longrightarrow> mt_state t = 2 \<Longrightarrow> mt_len t = length pre \<Longrightarrow> mt_rem_len t = length b \<Longrightarrow> length b \<le> length post \<Longrightarrow>
    pre \<noteq> [] \<Longrightarrow> hd pre = h \<Longrightarrow> read_done h (pre @ b) (pre @ post) rest (read_chunks (pre @ post) t [] cs)"
proof (induction cs arbitrary: b t pre post)
  case (Cons c cs)
  have run: "MQTTPacket_readnb net (pre @ post) t c = readnb_body net (pre @ post) t c"
    using Cons.prems(3) by (simp add: MQTTPacket_readnb_def)
  have "c @ concat cs = b @ rest" using Cons.prems(1) by simp
  then show ?case
  proof (cases rule: cut_cases)
    case (short b2)
    have "read_done h ((pre @ c) @ b2) ((pre @ c) @ drop (length c) post) rest
        (read_chunks ((pre @ c) @ drop (length c) post) (t\<lparr>mt_rem_len := length b2, mt_len := length (pre @ c)\<rparr>) [] cs)"
      by (rule Cons.IH) (use Cons.prems short in simp_all)
    moreover have "readnb_body net (pre @ post) t c =
        Inr (0, (pre @ c) @ drop (length c) post, t\<lparr>mt_rem_len := length b2, mt_len := length (pre @ c)\<rparr>, [])"
      by (rule body_more [where b = b]) (use Cons.prems short in simp_all)
    ultimately show ?thesis using short Cons.prems(6) by (simp add: run read_done_def add.commute)
  next
    case (long x)
    obtain t' where "readnb_body net (pre @ post) t (b @ x) = Inr (int (header_type (hd pre)), pre @ b @ drop (length b) post, t', x)" "mt_state t' = 0"
      using body_all [OF Cons.prems(4,5,6,7)] by blast
    moreover have "header_type h \<noteq> 0" using assms by (simp add: header_type_def)
    ultimately show ?thesis using run long Cons.prems(8) by (auto simp: read_done_def)
  qed
qed simp

text \<open>A call when the length field is complete: \<open>d\<close> is what has come of the body and of what follows.\<close>

lemma chunks_field:
  assumes "unat h div 16 \<noteq> 0" "d @ concat cs = body @ rest" "1 + length e + length body \<le> length (h # post)"
    and "e = MQTTPacket_encode (length body)" "mt_rem_len t = length body" "mt_len t = 1 + length e" "mt_state t = 2"
  shows "read_done h (h # e @ body) (h # post) rest
    (and_then (readnb_body net ((h # e) @ drop (length e) post) t d) (\<lambda>(rc, buf, t, avail).
      if rc = 0 then read_chunks buf t avail cs else Inr (rc, buf, t, avail, cs)))"
  using assms(2)
proof (cases rule: cut_cases)
  case (short b2)
  let ?t = "t\<lparr>mt_rem_len := length b2, mt_len := length ((h # e) @ d)\<rparr>" and ?post = "drop (length d) (drop (length e) post)"
  have "readnb_body net ((h # e) @ drop (length e) post) t d = Inr (0, ((h # e) @ d) @ ?post, ?t, [])"
    by (rule body_more [where b = body]) (use assms short in simp_all)
  moreover have "read_done h (((h # e) @ d) @ b2) (((h # e) @ d) @ ?post) rest (read_chunks (((h # e) @ d) @ ?post) ?t [] cs)"
    by (rule chunks_body [OF assms(1)]) (use assms short in simp_all)
  ultimately show ?thesis using assms(3) short by (simp add: read_done_def ac_simps)
next
  case (long x)
  have "length body \<le> length (drop (length e) post)" using assms(3) by simp
  from body_all [of t "h # e" body, OF _ assms(5) this] obtain t' where
    t': "readnb_body net ((h # e) @ drop (length e) post) t (body @ x) =
      Inr (int (header_type h), (h # e) @ body @ drop (length body) (drop (length e) post), t', x)" "mt_state t' = 0"
    using assms(6) by fastforce
  have "header_type h \<noteq> 0" using assms(1) by (simp add: header_type_def)
  then show ?thesis unfolding long(1) t'(1) using t'(2) long(2) by (auto simp: read_done_def ac_simps)
qed

lemma length_enough:
  assumes "unat h div 16 \<noteq> 0" "d @ concat cs = body @ rest" "1 + length (MQTTPacket_encode (length body)) + length body \<le> length (h # post)"
    and "decodenb_loop net (if mt_len t = 0 then t\<lparr>mt_multiplier := 1, mt_rem_len := 0\<rparr> else t) a = Inr (int (Suc n), u, d)" "mt_rem_len u = length body"
  shows "read_done h (h # MQTTPacket_encode (length body) @ body) (h # post) rest
    (and_then (readnb_length net (h # post) t a) (\<lambda>(rc, buf, t, avail).
      if rc = 0 then read_chunks buf t avail cs else Inr (rc, buf, t, avail, cs)))"
proof -
  let ?e = "MQTTPacket_encode (length body)"
  have fits: "length ?e \<le> length post" "length body + Suc (length ?e) \<le> Suc (length post)" using assms(3) by simp_all
  have "readnb_length net (h # post) t a = readnb_body net ((h # ?e) @ drop (length ?e) post) (u\<lparr>mt_len := 1 + length ?e, mt_state := 2\<rparr>) d"
    using assms(4,5) fits by (simp add: readnb_length_def MQTTPacket_decodenb_def store_at_def Let_def)
  moreover have "read_done h (h # ?e @ body) (h # post) rest
    (and_then (readnb_body net ((h # ?e) @ drop (length ?e) post) (u\<lparr>mt_len := 1 + length ?e, mt_state := 2\<rparr>) d) (\<lambda>(rc, buf, t, avail).
      if rc = 0 then read_chunks buf t avail cs else Inr (rc, buf, t, avail, cs)))"
    by (rule chunks_field [OF assms(1,2,3)]) (use assms(5) in simp_all)
  ultimately show ?thesis by simp
qed

text \<open>\<open>l1\<close> of the length field has been read, \<open>l2\<close> is still to come; \<open>length_call\<close> is one call and the rest of the chunks.\<close>

definition field_read :: "byte list \<Rightarrow> mqtt_transport \<Rightarrow> bool" where
  "field_read l1 t \<longleftrightarrow> mt_state t = 1 \<and> mt_len t = length l1 \<and>
     (l1 \<noteq> [] \<longrightarrow> mt_rem_len t = field_value l1 \<and> mt_multiplier t = 128 ^ length l1)"

lemma length_call:
  assumes h: "unat h div 16 \<noteq> 0" and field: "length_field (l1 @ l2)" "l2 \<noteq> []" and t: "field_read l1 t"
    and n: "length body = field_value (l1 @ l2)" and fits: "1 + length (MQTTPacket_encode (length body)) + length body \<le> length (h # post)"
    and cut: "c @ concat cs = l2 @ body @ rest"
    and later: "\<And>l l' u. l1 @ l2 = l @ l' \<Longrightarrow> l' \<noteq> [] \<Longrightarrow> field_read l u \<Longrightarrow> concat cs = l' @ body @ rest \<Longrightarrow>
      read_done h (h # MQTTPacket_encode (length body) @ body) (h # post) rest (read_chunks (h # post) u [] cs)"
  shows "read_done h (h # MQTTPacket_encode (length body) @ body) (h # post) rest
    (and_then (readnb_length net (h # post) t c) (\<lambda>(rc, buf, t, avail).
      if rc = 0 then read_chunks buf t avail cs else Inr (rc, buf, t, avail, cs)))"
proof -
  let ?t = "if mt_len t = 0 then t\<lparr>mt_multiplier := 1, mt_rem_len := 0\<rparr> else t"
  have start: "mt_len ?t = length l1" "mt_rem_len ?t = field_value l1" "mt_multiplier ?t = 128 ^ length l1" "mt_state ?t = 1"
    using t by (cases l1; simp add: field_read_def)+
  have four: "length l1 + length l2 \<le> 4" using field(1) by (simp add: length_field_def)
  from cut show ?thesis
  proof (cases rule: cut_cases)
    case (short l3)
    then have more: "\<forall>x \<in> set c. unat x \<ge> 128" using length_field_cut(1) [of "l1 @ c" l3] field by simp
    let ?u = "?t\<lparr>mt_len := mt_len ?t + length c, mt_rem_len := mt_rem_len ?t + mt_multiplier ?t * field_value c,
              mt_multiplier := mt_multiplier ?t * 128 ^ length c\<rparr>"
    have "length c < length l2" using short(1,2) by simp
    then have "mt_len ?t + length c < 4" unfolding start(1) using four by linarith
    from decodenb_more [OF more this] have run: "readnb_length net (h # post) t c = Inr (0, h # post, ?u, [])"
      unfolding readnb_length_def MQTTPacket_decodenb_def by simp
    have "field_read (l1 @ c) ?u" using start by (simp add: field_read_def field_value_append power_add)
    then show ?thesis unfolding run using later [of "l1 @ c" l3 ?u] short by simp
  next
    case (long d)
    have l2: "length_field l2" using length_field_cut(2) field by blast
    obtain n where n: "length l1 + length l2 = Suc n" using field(2) by (cases "length l2") auto
    have "mt_len ?t + length l2 \<le> 4" unfolding start(1) using four .
    from decodenb_last [OF l2 this, of d] show ?thesis unfolding long(1)
      by (intro length_enough [OF h long(2) fits, where n = n])
        (simp_all only: start n, simp_all add: start assms(5) field_value_append)
  qed
qed

lemma chunks_length:
  assumes "unat h div 16 \<noteq> 0" "length_field l" "length body = field_value l"
    and "1 + length (MQTTPacket_encode (length body)) + length body \<le> length (h # post)"
  shows "l = l1 @ l2 \<Longrightarrow> l2 \<noteq> [] \<Longrightarrow> field_read l1 t \<Longrightarrow> concat cs = l2 @ body @ rest \<Longrightarrow>
    read_done h (h # MQTTPacket_encode (length body) @ body) (h # post) rest (read_chunks (h # post) t [] cs)"
proof (induction cs arbitrary: l1 l2 t)
  case (Cons c cs)
  have run: "MQTTPacket_readnb net (h # post) t c = readnb_length net (h # post) t c"
    using Cons.prems(3) by (simp add: MQTTPacket_readnb_def field_read_def)
  have "read_done h (h # MQTTPacket_encode (length body) @ body) (h # post) rest
    (and_then (readnb_length net (h # post) t c) (\<lambda>(rc, buf, t, avail).
      if rc = 0 then read_chunks buf t avail cs else Inr (rc, buf, t, avail, cs)))"
  proof (rule length_call [OF assms(1) _ Cons.prems(2,3) _ assms(4)])
    show "length_field (l1 @ l2)" "length body = field_value (l1 @ l2)" using assms(2,3) Cons.prems(1) by simp_all
    show "c @ concat cs = l2 @ body @ rest" using Cons.prems(4) by simp
    show "read_done h (h # MQTTPacket_encode (length body) @ body) (h # post) rest (read_chunks (h # post) u [] cs)"
      if "l1 @ l2 = k @ k'" "k' \<noteq> []" "field_read k u" "concat cs = k' @ body @ rest" for k k' u
      using Cons.IH [of k k' u] that Cons.prems(1) by simp
  qed
  then show ?case by (simp add: run)
qed simp

lemma chunks_start:
  assumes "unat h div 16 \<noteq> 0" "length_field l" "length body = field_value l"
    and "1 + length (MQTTPacket_encode (length body)) + length body \<le> length old"
  shows "mt_state t = 0 \<Longrightarrow> concat cs = h # l @ body @ rest \<Longrightarrow>
    read_done h (h # MQTTPacket_encode (length body) @ body) old rest (read_chunks old t [] cs)"
proof (induction cs arbitrary: t)
  case (Cons c cs)
  obtain x post where old: "old = x # post" using assms(4) by (cases old) auto
  show ?case
  proof (cases c)
    case Nil
    have "t\<lparr>mt_state := 0\<rparr> = t" using Cons.prems(1) by simp
    then show ?thesis using Cons Nil by (simp add: MQTTPacket_readnb_def store_at_def)
  next
    case (Cons y c')
    then have c: "c = h # c'" "c' @ concat cs = l @ body @ rest" using Cons.prems(2) by simp_all
    let ?t = "t\<lparr>mt_len := 0, mt_state := 1\<rparr>"
    have run: "MQTTPacket_readnb net old t c = readnb_length net (h # post) ?t c'"
      using Cons.prems(1) old c(1) by (simp add: MQTTPacket_readnb_def store_at_def)
    have fits: "1 + length (MQTTPacket_encode (length body)) + length body \<le> length (h # post)" using assms(4) old by simp
    have "read_done h (h # MQTTPacket_encode (length body) @ body) (h # post) rest
      (and_then (readnb_length net (h # post) ?t c') (\<lambda>(rc, buf, t, avail).
        if rc = 0 then read_chunks buf t avail cs else Inr (rc, buf, t, avail, cs)))"
    proof (rule length_call [where ?l1.0 = "[]" and ?l2.0 = l, OF assms(1)])
      show "length_field ([] @ l)" "l \<noteq> []" "length body = field_value ([] @ l)" "field_read [] ?t"
        using assms(2,3) by (simp_all add: length_field_def field_read_def)
      show "1 + length (MQTTPacket_encode (length body)) + length body \<le> length (h # post)" by (rule fits)
      show "c' @ concat cs = l @ body @ rest" by (rule c(2))
      show "read_done h (h # MQTTPacket_encode (length body) @ body) (h # post) rest (read_chunks (h # post) u [] cs)"
        if "[] @ l = k @ k'" "k' \<noteq> []" "field_read k u" "concat cs = k' @ body @ rest" for k k' u
        using chunks_length [OF assms(1,2,3) fits, of k k' u cs rest] that by simp
    qed
    then show ?thesis using run [unfolded old] by (simp add: old read_done_def)
  qed
qed simp

section \<open>Both readers\<close>

text \<open>
  C23.  However a network cuts the stream, the reader that does not block answers 0 until a packet is complete and then
  its type; the packet stands in the buffer with the shortest length field, and what follows it is left for the next
  call, for which the reader is ready.  The reader that blocks does the same on the whole.
\<close>

theorem mqtt_readers_agree:
  assumes "length_field l" "length body = field_value l" "unat h div 16 \<noteq> 0" "cs \<noteq> []" "avail @ concat cs = h # l @ body @ rest"
    and "packet = h # MQTTPacket_encode (length body) @ body" "length packet \<le> length old" "mt_state t = 0"
  shows "\<exists>t' avail' cs'. read_chunks old t avail cs = Inr (int (header_type h), packet @ drop (length packet) old, t', avail', cs') \<and>
      mt_state t' = 0 \<and> avail' @ concat cs' = rest \<and>
      MQTTPacket_read net old (h # l @ body @ rest) = Inr (int (header_type h), packet @ drop (length packet) old, rest)"
proof -
  obtain c ds where cs: "cs = c # ds" using assms(4) by (cases cs) auto
  have fits: "1 + length (MQTTPacket_encode (length body)) + length body \<le> length old" using assms(6,7) by simp
  have "read_done h packet old rest (read_chunks old t [] ((avail @ c) # ds))"
    unfolding assms(6) by (rule chunks_start [OF assms(3,1,2) fits assms(8)]) (use assms(5) cs in simp)
  moreover have "MQTTPacket_read net old (h # l @ body @ rest) = Inr (int (header_type h), packet @ drop (length packet) old, rest)"
  proof -
    obtain x post where old: "old = x # post" using fits by (cases old) auto
    have "decode_from net 0 1 0 (l @ body @ rest) = Inr (length body, body @ rest)"
      using decode_from_field [OF assms(1), of 0 1 0 "body @ rest"] assms(1,2) by (simp add: length_field_def)
    moreover have "net (body @ rest) (length body) = (int (length body), body, rest)" by (simp add: net_def)
    ultimately show ?thesis using fits unfolding assms(6) old
      by (cases "body = []") (simp_all add: MQTTPacket_read_def store_at_def Let_def add.commute)
  qed
  ultimately show ?thesis unfolding cs by (auto simp: read_done_def)
qed

text \<open>A ping with a length field of two bytes and the beginning of the next packet, cut inside the length field.\<close>

theorem mqtt_readers_agree_witness:
  "\<exists>t' avail' cs'. read_chunks [0, 0, 9] \<lparr>mt_multiplier = 0, mt_rem_len = 0, mt_len = 0, mt_state = 0\<rparr> [0xC0] [[0x80], [0x00, 0x20]] =
      Inr (12, [0xC0, 0, 9], t', avail', cs') \<and> avail' @ concat cs' = [0x20]"
proof -
  have "length_field [0x80, 0]" "MQTTPacket_encode 0 = [0]" by (simp_all add: length_field_def encode_short)
  then show ?thesis
    using mqtt_readers_agree [of "[0x80, 0]" "[]" "0xC0" "[[0x80], [0x00, 0x20]]" "[0xC0]" "[0x20]" "[0xC0, 0]" "[0, 0, 9]"
      "\<lparr>mt_multiplier = 0, mt_rem_len = 0, mt_len = 0, mt_state = 0\<rparr>"] by (auto simp: header_type_def)
qed

end
