(* ===== verification/Spec2Isabelle.thy ===== *)
theory Spec2Isabelle
  imports HttpChunks HttpRoundtrip HttpDigest Sdtxt DnsRoundtrip Encoding Crc Dbuffer Darray MqttConnect UriProps MqttStream HttpServerProps HttpConnections HttpClientProps JsonRpcServerProps JsonRpcSocketProps MdnsCacheProps MqttRead
begin

text \<open>
  A verification development for the C libraries of wot.js (wotjs-core), a JavaScript runtime for devices: the network
  protocols under \<^verbatim>\<open>src/modules\<close> and \<^verbatim>\<open>src/core/deps\<close> and the codecs and containers that they use.

  \<^bold>\<open>The program.\<close>  An application in JavaScript reaches, through bindings of the engine, C libraries that run on one event
  loop, libuv.  Bytes that arrive go through a codec (HTTP, MQTT, DNS, JSON-RPC) into the state of a client or a server,
  which tells a handler and writes bytes back.  The parts that are modelled, lowest first:

  \<^item> Codecs and containers (\<^verbatim>\<open>core/deps/util\<close>, \<^verbatim>\<open>libutil\<close>): theories \<open>Base64\<close> and \<open>Encoding\<close> (base 64, 32, 16 and
    hexadecimal), \<open>Crc\<close> (table-driven checks), \<open>Digest\<close> and \<open>Md5\<close> (the two implementations of MD5), \<open>Dbuffer\<close> (the
    growable byte buffer), \<open>Darray\<close> (the ordered growable array, with its \<^verbatim>\<open>int\<close> arithmetic).
  \<^item> URIs (\<^verbatim>\<open>core/deps/networking/src/url\<close>): \<open>Uri\<close>, \<open>UriProps\<close>.
  \<^item> HTTP messages (\<^verbatim>\<open>libhttp\<close>): \<open>HttpParser\<close> (the parser's state and raw buffer), \<open>HttpScan\<close> (the three line
    scanners of \<^verbatim>\<open>http-parser.c\<close>), \<open>HttpInput\<close> (bodies, chunks and \<^verbatim>\<open>http_parser_input\<close>), \<open>HttpRequest\<close> (the
    builder \<^verbatim>\<open>http-request.c\<close>), \<open>HttpHeaders\<close> (the \<^verbatim>\<open>http-header-*.c\<close> parsers and the RFC 822 date),
    \<open>HttpAuth\<close> and \<open>HttpDigest\<close> (authentication).
  \<^item> The TCP transport (\<^verbatim>\<open>tcp-transport.c\<close>): \<open>TcpTransport\<close>, and above it the HTTP client (\<^verbatim>\<open>http-client.c\<close>): \<open>HttpClient\<close>.
  \<^item> The HTTP server (\<^verbatim>\<open>http-server.c\<close>): \<open>HttpServer\<close> (requests and responses) and \<open>HttpConnections\<close> (the table of
    connections and the callbacks of closing), with \<open>Slots\<close>, the table of pointers it shares with JSON-RPC.
  \<^item> MQTT: \<open>MqttPacket\<close> (the codec of \<^verbatim>\<open>core/deps/mqtt\<close>) and \<open>MqttClient\<close> (\<^verbatim>\<open>mqtt-client.c\<close>, over \<open>Dbuffer\<close> and \<open>Uri\<close>).
  \<^item> JSON-RPC (\<^verbatim>\<open>libjsonrpc\<close>): \<open>JsonRpc\<close> (frames and the client), \<open>JsonRpcServer\<close> (sessions), \<open>JsonRpcSocket\<close> (over UDP).
  \<^item> Multicast DNS (\<^verbatim>\<open>modules/mdns/src/libmdnsd\<close>): \<open>Xht\<close> (\<^verbatim>\<open>xht.c\<close>), \<open>Sdtxt\<close> (\<^verbatim>\<open>sdtxt.c\<close>), \<open>Dns1035\<close> (\<^verbatim>\<open>1035.c\<close>) and
    \<open>MdnsCache\<close> (the cache and the queries of \<^verbatim>\<open>mdnsd.c\<close>).

  \<^bold>\<open>How C is modelled.\<close>  A struct is a record with the members of the source, an enumeration a datatype or its numbers where
  the code computes with them, a string the list of its bytes before the NUL (\<open>CString\<close> holds the part of the C library
  in use).  An operation is a function on the state.  Its result is in \<open>exec\<close>: \<open>Inr\<close> of a value, or \<open>Inl\<close> of a fault of
  \<open>Prelude\<close> -- \<open>Assert_failed\<close> for an assertion, \<open>Out_of_bounds\<close> for an access outside its object or to a freed one,
  \<open>Overrun\<close> for an index that leaves its range by wrap-around or an overflow of \<^verbatim>\<open>int\<close>.  Error codes are values.
  Integers are reduced to their width wherever the code can reach it; where a bound is assumed instead, the theorem
  states it.  Blocks of the heap that outlive a call are known by an address that is never used twice, so a use after
  \<^verbatim>\<open>free\<close> is a fault.  What lies outside the sources (libuv, the vendored streaming parser of \<^verbatim>\<open>core/deps/http\<close>, cJSON,
  the allocator, the application) is an environment, a record of functions, or the sequence of the calls it makes.
\<close>

text \<open>
  \<^bold>\<open>What the lemmas show.\<close>

  \<^item> Memory safety: \<open>HttpSafety\<close> has the invariant of the HTTP parser that keeps every offset inside the raw buffer;
    \<open>HttpChunks\<close> has the runs that do not return: a failed assertion, or a chunk size of sixteen digits that wraps the index.
    \<open>DnsSafety\<close> bounds every store of the DNS reader, those through the record arrays it carves out of the packet included.
    \<open>HttpConnections\<close>, \<open>TcpProps\<close>, \<open>HttpClientProps\<close> and \<open>JsonRpcServerProps\<close> account for connections, sockets and
    sessions over all reachable states, after closing and stopping too.
  \<^item> Segment independence: \<open>HttpStream\<close> and \<open>HttpSegments\<close> for the HTTP parser, \<open>MqttRead\<close> and \<open>MqttStream\<close> for the
    readers of MQTT and the client that uses them.
  \<^item> Round trips: \<open>HttpRoundtrip\<close>, \<open>HttpHeaderProps\<close>, \<open>HttpAuthProps\<close>, \<open>DnsRoundtrip\<close>, \<open>MqttRoundtrip\<close>, \<open>MqttConnect\<close>,
    \<open>UriProps\<close>, \<open>Base64\<close>, \<open>Encoding\<close>.
  \<^item> Refinement and equivalence: a byte buffer is a sequence (\<open>Dbuffer\<close>), an ordered array a set (\<open>Darray\<close>), the hash table
    and the mDNS cache finite maps (\<open>Xht\<close>, \<open>MdnsCacheProps\<close>), the check tables the bit-by-bit checks (\<open>Crc\<close>), the two
    MD5 each other (\<open>Md5\<close>), the digest response the formula of RFC 2617 (\<open>HttpDigest\<close>), the subscribers of a JSON-RPC
    socket a bounded set (\<open>JsonRpcSocketProps\<close>).
  \<^item> What a peer sees: \<open>HttpServerProps\<close>, \<open>HttpClientProps\<close>, \<open>JsonRpcProps\<close>, and the questions of an mDNS query (\<open>MdnsCacheProps\<close>).

  Several theorems state a flaw of the code exactly, because that is what the code does: the wrong bucket when an mDNS query
  ends (\<open>mdns_query_end\<close>), the response lost over an empty or a cut header value (\<open>http_client_response_collected\<close>,
  \<open>http_client_split_value_lost\<close>), the sessions that a JSON-RPC server forgets (\<open>jsonrpc_sessions_accounted\<close>,
  \<open>jsonrpc_stop_leaves_lost\<close>), the connect packets that the server refuses (\<open>mqtt_connect_roundtrip\<close>).

  \<^bold>\<open>Interfaces.\<close>  The loops of the line scanners are instances of \<open>switch_loop\<close> and \<open>scanner\<close> (\<open>Prelude\<close>), extended by
  \<open>line_parser\<close>, \<open>safe_line\<close> and \<open>line_phase\<close>, each interpreted on the three scanners; \<open>keyed_set\<close>, \<open>append_buffer\<close>,
  \<open>message_digest\<close> and \<open>string_map\<close> are the contracts of the containers and of the hash; \<open>transport_client\<close> is what the TCP
  transport asks of its client, interpreted on the HTTP client.

  \<^bold>\<open>Fuel and termination.\<close>  Functions are total.  Most loops recurse on their input or have a measure: for the scanners of
  HTTP the bytes that are left and the rank of the state, for a DNS name the room in its 255 bytes, for a chain of
  compression pointers the offset, which must grow and has twelve bits.  Two take a count.  The loop over the frames of
  a JSON-RPC read has fuel; the theorems hold for every fuel of at least two, because a read of one frame takes one turn and
  the end another.  \<open>retry_loop\<close> of the mDNS daemon follows the list of queries at most as many times as the list is long,
  which it is when the loop begins.  What the event loop drives is a step relation; that a destroyed transport comes to
  rest is a theorem with an explicit measure (\<open>tcp_destroy_releases\<close>).

  \<^bold>\<open>What is not modelled.\<close>  Publishing and probing in \<^verbatim>\<open>mdnsd.c\<close> and its socket loops; the UDP and TLS transports; SHA-1 and
  the hash library of \<^verbatim>\<open>libutil\<close>; logs, configuration files and command lines.  QuickJS, libuv, mbedtls, miniz, SQLite,
  hiredis, cJSON and the streaming HTTP parser are vendored.  The bindings in \<^verbatim>\<open>core/tjs\<close> convert values and call the
  libraries.  Allocation failures are modelled in the HTTP parser and the containers, and assumed away where a theory says so;
  blocks that are only leaked are followed in the HTTP client and the transport alone.  The HTTP parser is the one of a
  build with assertions.
\<close>

end
